(* ===== verification/Vibe_Prelude.thy ===== *)
theory Vibe_Prelude
  imports Main "HOL-Library.AList" "HOL-Library.Word" "HOL-Library.Signed_Division"
begin

text \<open>
  Shared vocabulary of the development. A hash map of the source
  (\<^verbatim>\<open>std::unordered_map\<close>) is an association list with distinct keys: the list
  order stands for the unspecified iteration order, and every theorem is stated for all such
  lists. \<^verbatim>\<open>find\<close> is \<open>map_of\<close>, \<^verbatim>\<open>insert_or_assign\<close> is
  \<open>AList.update\<close>, \<^verbatim>\<open>erase\<close> is \<open>AList.delete\<close>. Clock readings
  are integers (nanoseconds of the steady clock), 64-bit generations and tokens that the code
  only compares are naturals.
\<close>

section \<open>Collections\<close>

named_theorems step_defs \<open>definitions of the operations of a component\<close>
named_theorems inv_intros \<open>one preservation lemma per operation\<close>

section \<open>Types\<close>

type_synonym uuid = string
type_synonym time_point = int
type_synonym ('k, 'v) umap = "('k \<times> 'v) list"

abbreviation umap_ok :: "('k, 'v) umap \<Rightarrow> bool" where
  "umap_ok m \<equiv> distinct (map fst m)"

abbreviation umap_contains :: "('k, 'v) umap \<Rightarrow> 'k \<Rightarrow> bool" where
  "umap_contains m k \<equiv> map_of m k \<noteq> None"

text \<open>\<^verbatim>\<open>map[key]\<close> on a counter map: a missing key is created with value 0.\<close>

definition umap_index :: "('k, nat) umap \<Rightarrow> 'k \<Rightarrow> ('k, nat) umap" where
  "umap_index m k = (if map_of m k = None then AList.update k 0 m else m)"

definition umap_count :: "('k, nat) umap \<Rightarrow> 'k \<Rightarrow> nat" where
  "umap_count m k = (case map_of m k of None \<Rightarrow> 0 | Some n \<Rightarrow> n)"

text \<open>Apply a function to every stored value, as a range-for by reference does.\<close>

definition umap_map :: "('k \<Rightarrow> 'v \<Rightarrow> 'v) \<Rightarrow> ('k, 'v) umap \<Rightarrow> ('k, 'v) umap" where
  "umap_map f m = map (\<lambda>(k, v). (k, f k v)) m"

section \<open>Association lists\<close>

text \<open>Lookups are kept as lookups: the simplifier does not turn them into membership.\<close>

declare map_of_eq_Some_iff [simp del] Some_eq_map_of_iff [simp del]

lemma map_of_update [simp]: "map_of (AList.update k v m) = (map_of m)(k \<mapsto> v)"
  by (simp add: AList.update_conv')

lemma map_of_delete [simp]: "map_of (AList.delete k m) = (map_of m)(k := None)"
  by (rule AList.delete_conv')

lemma umap_ok_update [simp]: "umap_ok m \<Longrightarrow> umap_ok (AList.update k v m)"
  by (rule AList.distinct_update)

lemma umap_ok_delete [simp]: "umap_ok m \<Longrightarrow> umap_ok (AList.delete k m)"
  by (rule AList.distinct_delete)

lemma umap_ok_filter: "umap_ok m \<Longrightarrow> umap_ok (filter P m)"
  by (induction m) auto

lemma umap_ok_index [simp]: "umap_ok m \<Longrightarrow> umap_ok (umap_index m k)"
  by (simp add: umap_index_def)

lemma umap_count_update [simp]:
  "umap_count (AList.update k v m) j = (if j = k then v else umap_count m j)"
  by (simp add: umap_count_def)

lemma umap_count_index [simp]: "umap_count (umap_index m k) j = umap_count m j"
  by (simp add: umap_index_def umap_count_def)

lemma umap_index_contains [simp]: "umap_contains (umap_index m k) k"
  by (simp add: umap_index_def)

lemma umap_map_keys [simp]: "map fst (umap_map f m) = map fst m"
  by (simp add: umap_map_def case_prod_beta)

lemma umap_map_of [simp]: "map_of (umap_map f m) k = map_option (f k) (map_of m k)"
  unfolding umap_map_def by (induction m) auto

lemma umap_map_length [simp]: "length (umap_map f m) = length m"
  by (simp add: umap_map_def)

lemma umap_map_empty [simp]: "umap_map f m = [] \<longleftrightarrow> m = []"
  by (simp add: umap_map_def)

lemma map_of_filter_key:
  "umap_ok m \<Longrightarrow> map_of (filter (\<lambda>e. P (fst e) (snd e)) m) k =
    (case map_of m k of None \<Rightarrow> None | Some v \<Rightarrow> if P k v then Some v else None)"
proof (induction m)
  case Nil
  then show ?case by simp
next
  case (Cons e m)
  show ?case
  proof (cases "fst e = k")
    case True
    with Cons.prems have "map_of m k = None" by (auto simp: map_of_eq_None_iff)
    with True Cons show ?thesis by (cases e) auto
  next
    case False
    with Cons show ?thesis by (cases e) auto
  qed
qed

lemma in_set_umap: "umap_ok m \<Longrightarrow> (k, v) \<in> set m \<longleftrightarrow> map_of m k = Some v"
  by (metis map_of_SomeD map_of_is_SomeI)

lemma set_delete_umap: "set (AList.delete k m) = {e \<in> set m. fst e \<noteq> k}"
  by (auto simp: AList.delete_eq)

lemma length_update_new: "map_of m k = None \<Longrightarrow> length (AList.update k v m) = Suc (length m)"
  by (induction m) auto

lemma set_update_new: "map_of m k = None \<Longrightarrow> set (AList.update k v m) = insert (k, v) (set m)"
  by (induction m) (auto split: if_splits)

lemma length_update_old: "map_of m k = Some w \<Longrightarrow> length (AList.update k v m) = length m"
  by (induction m) auto

lemma length_delete_mem:
  "umap_ok m \<Longrightarrow> map_of m k = Some v \<Longrightarrow> Suc (length (AList.delete k m)) = length m"
proof (induction m)
  case Nil
  then show ?case by simp
next
  case (Cons e m)
  show ?case
  proof (cases "fst e = k")
    case True
    with Cons.prems have "k \<notin> fst ` set m" by auto
    then have "AList.delete k m = m" by (simp add: delete_idem)
    with True show ?thesis by (cases e) auto
  next
    case False
    with Cons show ?thesis by (cases e) auto
  qed
qed

lemma length_delete_notin: "map_of m k = None \<Longrightarrow> AList.delete k m = m"
  by (simp add: delete_idem map_of_eq_None_iff)

lemma umap_empty_iff: "m = [] \<longleftrightarrow> (\<forall>k. map_of m k = None)"
  by (cases m) (auto simp: fun_upd_def)

section \<open>Transition systems\<close>

text \<open>The contract every stateful component offers: its initial states satisfy an invariant
  and every step keeps it. Components interpret the locale with their own step relation; the
  conclusion is the same for all of them.\<close>

locale invariant_system =
  fixes init :: "'s \<Rightarrow> bool"
    and step :: "'s \<Rightarrow> 's \<Rightarrow> bool"
    and inv :: "'s \<Rightarrow> bool"
  assumes init_inv: "init s \<Longrightarrow> inv s"
    and step_inv: "inv s \<Longrightarrow> step s t \<Longrightarrow> inv t"
begin

lemma steps_inv: "step\<^sup>*\<^sup>* s t \<Longrightarrow> inv s \<Longrightarrow> inv t"
  by (induction rule: rtranclp_induct) (auto intro: step_inv)

lemma reach_inv: "init s \<Longrightarrow> step\<^sup>*\<^sup>* s t \<Longrightarrow> inv t"
  by (blast intro: steps_inv init_inv)

end

text \<open>A client of such a system may rely on a counter that no step lowers.\<close>

locale monotone_system = invariant_system init step inv
  for init :: "'s \<Rightarrow> bool" and step :: "'s \<Rightarrow> 's \<Rightarrow> bool" and inv :: "'s \<Rightarrow> bool" +
  fixes level :: "'s \<Rightarrow> 'k \<Rightarrow> nat"
  assumes step_level: "inv s \<Longrightarrow> step s t \<Longrightarrow> level s k \<le> level t k"
begin

lemma steps_level: "step\<^sup>*\<^sup>* s t \<Longrightarrow> inv s \<Longrightarrow> level s k \<le> level t k"
proof (induction rule: rtranclp_induct)
  case base
  then show ?case by simp
next
  case (step t u)
  then have "inv t" by (blast intro: steps_inv)
  with step have "level t k \<le> level u k" by (blast intro: step_level)
  with step show ?case by simp
qed

end

text \<open>A flag that no step clears stays set.\<close>

locale latch_system = invariant_system init step inv
  for init :: "'s \<Rightarrow> bool" and step :: "'s \<Rightarrow> 's \<Rightarrow> bool" and inv :: "'s \<Rightarrow> bool" +
  fixes latch :: "'s \<Rightarrow> bool"
  assumes step_latch: "inv s \<Longrightarrow> step s t \<Longrightarrow> latch s \<Longrightarrow> latch t"
begin

lemma steps_latch: "step\<^sup>*\<^sup>* s t \<Longrightarrow> inv s \<Longrightarrow> latch s \<Longrightarrow> latch t"
  by (induction rule: rtranclp_induct) (auto intro: step_latch steps_inv)

end

end
