(* ===== verification/Text_Codec.thy ===== *)
theory Text_Codec
  imports Vibe_Prelude
begin

unbundle bit_operations_syntax

text \<open>
  Text utilities the components share: hexadecimal printing and parsing
  (\<^verbatim>\<open>util::hex\<close>, \<^verbatim>\<open>util::hex_vec\<close>, \<^verbatim>\<open>util::from_hex_vec\<close> of
  \<^verbatim>\<open>src/src/utility.h\<close>), UUID text (\<^verbatim>\<open>src/src/uuid.h\<close>), and the
  standard library's \<^verbatim>\<open>std::to_string\<close> and \<^verbatim>\<open>std::tolower\<close>. Strings are byte
  strings, a byte is an \<open>8 word\<close>. A read past the start of the buffer is the value
  \<open>None\<close>; the lemmas show that it does not happen.
\<close>

section \<open>Definitions\<close>

type_synonym byte = "8 word"

subsection \<open>Standard library\<close>

definition tolower :: "char \<Rightarrow> char" where
  "tolower c = (let n = of_char c :: nat in if 65 \<le> n \<and> n \<le> 90 then char_of (n + 32) else c)"

definition digit_char :: "nat \<Rightarrow> char" where
  "digit_char d = char_of (48 + d)"

fun dec_digits :: "nat \<Rightarrow> string" where
  "dec_digits n = (if n < 10 then [digit_char n] else dec_digits (n div 10) @ [digit_char (n mod 10)])"

declare dec_digits.simps [simp del]

definition to_string_int :: "int \<Rightarrow> string" where
  "to_string_int i = (if i < 0 then CHR ''-'' # dec_digits (nat (- i)) else dec_digits (nat i))"

subsection \<open>Hexadecimal text\<close>

definition hex_bits :: string where
  "hex_bits = ''0123456789ABCDEF''"

definition hex_byte :: "byte \<Rightarrow> string" where
  "hex_byte b = [hex_bits ! (unat b div 16), hex_bits ! (unat b mod 16)]"

text \<open>\<^verbatim>\<open>Hex(elem, rev)\<close> over the object's bytes in memory order: reversed order unless
  \<^verbatim>\<open>rev\<close>.\<close>

definition hex_class :: "byte list \<Rightarrow> bool \<Rightarrow> string" where
  "hex_class bytes r = concat (map hex_byte (if r then bytes else rev bytes))"

definition hex_vec :: "byte list \<Rightarrow> bool \<Rightarrow> string" where
  "hex_vec bytes r = concat (map hex_byte (if r then bytes else rev bytes))"

definition is_convertable :: "char \<Rightarrow> bool" where
  "is_convertable ch = (let n = of_char ch :: nat in
     if 48 \<le> n \<and> n \<le> 57 then True
     else let m = n OR 32 in n < 128 \<and> \<not> (97 > m \<or> m > 122))"

definition convert :: "char \<Rightarrow> byte" where
  "convert ch = (let n = of_char ch :: nat in
     if 48 \<le> n \<and> n \<le> 57 then of_nat (n - 48) else of_nat (n OR 32) - 97 + 10)"

text \<open>\<^verbatim>\<open>while (!is_convertable(*data)) --data; convert(*data--)\<close> over the text read
  backwards.\<close>

fun take_nibble :: "string \<Rightarrow> (byte \<times> string) option" where
  "take_nibble [] = None"
| "take_nibble (c # cs) = (if is_convertable c then Some (convert c, cs) else take_nibble cs)"

fun read_bytes :: "nat \<Rightarrow> string \<Rightarrow> byte list option" where
  "read_bytes 0 data = Some []"
| "read_bytes (Suc n) data = (case take_nibble data of
      None \<Rightarrow> None
    | Some (ch_r, data1) \<Rightarrow> (case take_nibble data1 of
        None \<Rightarrow> None
      | Some (ch_l, data2) \<Rightarrow> map_option ((#) (push_bit 4 ch_l OR ch_r)) (read_bytes n data2)))"

definition from_hex_vec :: "string \<Rightarrow> bool \<Rightarrow> byte list option" where
  "from_hex_vec hex r =
     (let buf_size = length (filter is_convertable hex) div 2
      in map_option (\<lambda>buf. if r then rev buf else buf) (read_bytes buf_size (rev hex)))"

subsection \<open>UUID text\<close>

datatype uuid_error = Invalid_argument string

definition raw_format_error :: "uuid_error + byte list" where
  "raw_format_error = Inl (Invalid_argument ''Invalid raw UUID string format'')"

definition hex_value :: "char \<Rightarrow> byte" where
  "hex_value c = (let n = of_char c :: nat in
     if 48 \<le> n \<and> n \<le> 57 then of_nat (n - 48)
     else if 97 \<le> n \<and> n \<le> 102 then of_nat (n - 97 + 10)
     else if 65 \<le> n \<and> n \<le> 70 then of_nat (n - 65 + 10)
     else 255)"

fun parse_raw_loop :: "string \<Rightarrow> byte list \<Rightarrow> uuid_error + byte list" where
  "parse_raw_loop [] acc = (if length acc \<noteq> 16 then raw_format_error else Inr acc)"
| "parse_raw_loop [c] acc = (if c = CHR ''-'' then parse_raw_loop [] acc else raw_format_error)"
| "parse_raw_loop (c # d # cs) acc =
     (if c = CHR ''-'' then parse_raw_loop (d # cs) acc
      else if length acc \<ge> 16 then raw_format_error
      else if hex_value c = 255 \<or> hex_value d = 255 then raw_format_error
      else parse_raw_loop cs (acc @ [push_bit 4 (hex_value c) OR hex_value d]))"

definition parse_raw :: "string \<Rightarrow> uuid_error + byte list" where
  "parse_raw s =
     (if length s \<noteq> 36 \<or> s ! 8 \<noteq> CHR ''-'' \<or> s ! 13 \<noteq> CHR ''-'' \<or> s ! 18 \<noteq> CHR ''-'' \<or> s ! 23 \<noteq> CHR ''-''
      then raw_format_error else parse_raw_loop s [])"

definition substr :: "nat \<Rightarrow> nat \<Rightarrow> string \<Rightarrow> string" where
  "substr i n s = take n (drop i s)"

definition uuid_string :: "byte list \<Rightarrow> string" where
  "uuid_string u = (let h = hex_class u True in
     substr 0 8 h @ ''-'' @ substr 8 4 h @ ''-'' @ substr 12 4 h @ ''-'' @ substr 16 4 h @ ''-'' @ substr 20 12 h)"

section \<open>Decimal text\<close>

definition dec_value :: "string \<Rightarrow> nat" where
  "dec_value = foldl (\<lambda>v c. 10 * v + (of_char c - 48)) 0"

lemma of_char_digit: "d < 10 \<Longrightarrow> of_char (digit_char d) = (48 + d :: nat)"
  by (simp add: digit_char_def of_char_of take_bit_eq_mod)

lemma dec_value_digits [simp]: "dec_value (dec_digits n) = n"
proof (induction n rule: dec_digits.induct)
  case (1 n)
  show ?case
  proof (cases "n < 10")
    case True
    then show ?thesis by (simp add: dec_digits.simps[of n] dec_value_def of_char_digit)
  next
    case False
    with 1 have ih: "dec_value (dec_digits (n div 10)) = n div 10" by blast
    have "dec_value (dec_digits n) = 10 * dec_value (dec_digits (n div 10)) + n mod 10"
      using False by (subst dec_digits.simps) (simp add: dec_value_def of_char_digit)
    with ih show ?thesis by simp
  qed
qed

lemma dec_digits_inj: "dec_digits m = dec_digits n \<Longrightarrow> m = n"
  by (metis dec_value_digits)

lemma to_string_int_inj: "0 \<le> i \<Longrightarrow> 0 \<le> j \<Longrightarrow> to_string_int i = to_string_int j \<Longrightarrow> i = j"
  by (auto simp: to_string_int_def dest!: dec_digits_inj)

section \<open>Hexadecimal round trip\<close>

text \<open>Facts about the sixteen digits are evaluated once, digit by digit.\<close>

lemma hex_digits_table:
  "list_all (\<lambda>n. is_convertable (hex_bits ! n) \<and> convert (hex_bits ! n) = of_nat n \<and>
     hex_value (hex_bits ! n) = of_nat n \<and> hex_bits ! n \<noteq> CHR ''-'') [0..<16]"
  by code_simp

lemma hex_digit_facts:
  assumes "n < 16"
  shows "is_convertable (hex_bits ! n)" "convert (hex_bits ! n) = of_nat n"
    "hex_value (hex_bits ! n) = of_nat n" "hex_bits ! n \<noteq> CHR ''-''"
  using hex_digits_table assms by (auto simp: list_all_iff)

lemma byte_nibbles: "unat (b :: byte) div 16 < 16" "unat b mod 16 < 16"
proof -
  have "unat b < 256" using unsigned_less[of b, where ?'a = nat] by simp
  then show "unat b div 16 < 16" by simp
qed simp

lemma byte_join: "push_bit 4 (of_nat (unat b div 16)) OR of_nat (unat b mod 16) = (b :: byte)"
proof -
  have "push_bit 4 (drop_bit 4 b) OR take_bit 4 b = b"
    by (rule bit_word_eqI) (auto simp: bit_simps)
  moreover have "of_nat (unat b div 16) = (drop_bit 4 b :: byte)"
    by (rule word_unat_eq_iff[THEN iffD2]) (simp add: drop_bit_eq_div unat_div uno_simps)
  moreover have "of_nat (unat b mod 16) = (take_bit 4 b :: byte)"
    by (rule word_unat_eq_iff[THEN iffD2]) (simp add: take_bit_eq_mod unat_mod_distrib unat_of_nat)
  ultimately show ?thesis by simp
qed

lemma take_nibble_byte:
  "take_nibble (rev (hex_byte b) @ cs) = Some (of_nat (unat b mod 16), (hex_bits ! (unat b div 16)) # cs)"
  by (simp add: hex_byte_def hex_digit_facts byte_nibbles)

lemma read_bytes_hex:
  "read_bytes (length bs) (concat (map (\<lambda>b. rev (hex_byte b)) bs)) = Some bs"
  by (induction bs)
     (simp_all add: hex_byte_def hex_digit_facts byte_nibbles byte_join)

lemma rev_concat_hex: "rev (concat (map hex_byte bs)) = concat (map (\<lambda>b. rev (hex_byte b)) (rev bs))"
  by (simp add: rev_concat rev_map comp_def)

lemma filter_hex: "filter is_convertable (concat (map hex_byte bs)) = concat (map hex_byte bs)"
  by (induction bs) (simp_all add: hex_byte_def hex_digit_facts byte_nibbles)

lemma length_hex: "length (concat (map hex_byte bs)) = 2 * length bs"
  by (induction bs) (simp_all add: hex_byte_def)

lemma take_nibble_Some:
  "filter is_convertable data \<noteq> [] \<Longrightarrow>
   \<exists>x rest. take_nibble data = Some (x, rest) \<and>
     length (filter is_convertable data) = Suc (length (filter is_convertable rest))"
  by (induction data) auto

lemma read_bytes_total:
  "2 * n \<le> length (filter is_convertable data) \<Longrightarrow> \<exists>bs. read_bytes n data = Some bs \<and> length bs = n"
proof (induction n arbitrary: data)
  case 0
  then show ?case by simp
next
  case (Suc n)
  then have "filter is_convertable data \<noteq> []" by auto
  then obtain x d1 where 1: "take_nibble data = Some (x, d1)"
      and l1: "length (filter is_convertable data) = Suc (length (filter is_convertable d1))"
    using take_nibble_Some by blast
  with Suc.prems have "filter is_convertable d1 \<noteq> []" by auto
  then obtain y d2 where 2: "take_nibble d1 = Some (y, d2)"
      and l2: "length (filter is_convertable d1) = Suc (length (filter is_convertable d2))"
    using take_nibble_Some by blast
  from Suc.prems l1 l2 have "2 * n \<le> length (filter is_convertable d2)" by simp
  with Suc.IH obtain bs where "read_bytes n d2 = Some bs" "length bs = n" by blast
  with 1 2 show ?case by simp
qed

text \<open> \<^verbatim>\<open>from_hex_vec\<close> never reads outside its input, whatever the input is: it returns
  a buffer of half as many bytes as there are convertible characters; and it inverts
  \<^verbatim>\<open>hex_vec\<close> in both byte orders.\<close>

theorem from_hex_vec_total_roundtrip:
  "(\<exists>buf. from_hex_vec s r = Some buf \<and> length buf = length (filter is_convertable s) div 2) \<and>
   from_hex_vec (hex_vec v r) r = Some v"
proof
  have "length (filter is_convertable (rev s)) = length (filter is_convertable s)"
    by (simp add: rev_filter[symmetric])
  then have "2 * (length (filter is_convertable s) div 2) \<le> length (filter is_convertable (rev s))" by simp
  from read_bytes_total[OF this]
  show "\<exists>buf. from_hex_vec s r = Some buf \<and> length buf = length (filter is_convertable s) div 2"
    by (cases r) (auto simp: from_hex_vec_def Let_def)
  have "read_bytes (length v) (rev (hex_vec v r)) = Some (if r then rev v else v)"
    using read_bytes_hex[of "rev v"] read_bytes_hex[of v] by (simp add: hex_vec_def rev_concat_hex)
  moreover have "length (filter is_convertable (hex_vec v r)) div 2 = length v"
    unfolding hex_vec_def by (simp add: filter_hex length_hex)
  ultimately show "from_hex_vec (hex_vec v r) r = Some v"
    by (simp add: from_hex_vec_def)
qed

section \<open>UUID round trip\<close>

lemma parse_raw_loop_byte:
  "length acc < 16 \<Longrightarrow> parse_raw_loop (hex_byte b @ cs) acc = parse_raw_loop cs (acc @ [b])"
proof -
  assume "length acc < 16"
  moreover have "of_nat (unat b div 16) \<noteq> (255 :: byte)" "of_nat (unat b mod 16) \<noteq> (255 :: byte)"
    using byte_nibbles[of b] by (auto dest!: arg_cong[where f = unat] simp: unat_of_nat)
  ultimately show ?thesis
    by (simp add: hex_byte_def hex_digit_facts byte_nibbles byte_join)
qed

lemma parse_raw_loop_dash: "parse_raw_loop (CHR ''-'' # cs) acc = parse_raw_loop cs acc"
  by (cases cs) simp_all

lemma parse_raw_loop_bytes:
  "length acc + length bs \<le> 16 \<Longrightarrow>
   parse_raw_loop (concat (map hex_byte bs) @ cs) acc = parse_raw_loop cs (acc @ bs)"
  by (induction bs arbitrary: acc) (simp_all add: parse_raw_loop_byte)

lemma length_hex_byte [simp]: "length (hex_byte b) = 2"
  by (simp add: hex_byte_def)

lemma hex_take: "take (2 * n) (concat (map hex_byte bs)) = concat (map hex_byte (take n bs))"
proof (induction bs arbitrary: n)
  case Nil
  then show ?case by simp
next
  case (Cons b bs)
  then show ?case by (cases n) simp_all
qed

lemma hex_drop: "drop (2 * n) (concat (map hex_byte bs)) = concat (map hex_byte (drop n bs))"
proof (induction bs arbitrary: n)
  case Nil
  then show ?case by simp
next
  case (Cons b bs)
  then show ?case by (cases n) simp_all
qed

lemma substr_hex:
  "substr (2 * i) (2 * n) (concat (map hex_byte bs)) = concat (map hex_byte (take n (drop i bs)))"
  by (simp add: substr_def hex_take hex_drop)

lemma uuid_string_groups:
  "uuid_string u = concat (map hex_byte (take 4 u)) @ ''-'' @ concat (map hex_byte (take 2 (drop 4 u))) @ ''-''
     @ concat (map hex_byte (take 2 (drop 6 u))) @ ''-'' @ concat (map hex_byte (take 2 (drop 8 u))) @ ''-''
     @ concat (map hex_byte (take 6 (drop 10 u)))"
  using substr_hex[of 0 4 u] substr_hex[of 4 2 u] substr_hex[of 6 2 u] substr_hex[of 8 2 u] substr_hex[of 10 6 u]
  by (simp add: uuid_string_def hex_class_def)

text \<open>The UUID text emitted by \<^verbatim>\<open>string()\<close> has the literal form
  \<^verbatim>\<open>8-4-4-4-12\<close> and \<^verbatim>\<open>parse_raw\<close> recovers exactly the sixteen bytes.\<close>

theorem uuid_parse_raw_string:
  assumes "length u = 16"
  shows "length (uuid_string u) = 36 \<and> parse_raw (uuid_string u) = Inr u"
proof -
  let ?h = "\<lambda>xs. concat (map hex_byte xs)"
  let ?a = "take 4 u" and ?b = "take 2 (drop 4 u)" and ?c = "take 2 (drop 6 u)"
    and ?d = "take 2 (drop 8 u)" and ?e = "take 6 (drop 10 u)"
  have len: "length (?h ?a) = 8" "length (?h ?b) = 4" "length (?h ?c) = 4" "length (?h ?d) = 4" "length (?h ?e) = 12"
    using assms length_hex[of ?a] length_hex[of ?b] length_hex[of ?c] length_hex[of ?d] length_hex[of ?e] by auto
  have u: "u = ?a @ ?b @ ?c @ ?d @ ?e"
    using assms append_take_drop_id[of 4 u] append_take_drop_id[of 2 "drop 4 u"]
      append_take_drop_id[of 2 "drop 6 u"] append_take_drop_id[of 2 "drop 8 u"] by simp
  have sz: "length (uuid_string u) = 36" by (simp add: uuid_string_groups len)
  have dash: "uuid_string u ! 8 = CHR ''-''" "uuid_string u ! 13 = CHR ''-''"
    "uuid_string u ! 18 = CHR ''-''" "uuid_string u ! 23 = CHR ''-''"
    by (simp_all add: uuid_string_groups nth_append len)
  have "parse_raw_loop (uuid_string u) [] = parse_raw_loop [] (?a @ ?b @ ?c @ ?d @ ?e)"
    using assms parse_raw_loop_bytes[of "?a @ ?b @ ?c @ ?d" ?e "[]"]
    by (simp add: uuid_string_groups parse_raw_loop_bytes parse_raw_loop_dash)
  also have "\<dots> = Inr u" using u assms by simp
  finally show ?thesis using sz dash by (simp add: parse_raw_def)
qed

theorem uuid_parse_raw_string_witness:
  "length (map of_nat [0..<16] :: byte list) = 16 \<and>
   parse_raw (uuid_string (map of_nat [0..<16])) = Inr (map of_nat [0..<16])"
proof -
  have "length (map of_nat [0..<16] :: byte list) = 16" by simp
  from uuid_parse_raw_string[OF this] this show ?thesis by blast
qed

end
