(* ===== verification/Remote_Catalogue.thy ===== *)
theory Remote_Catalogue
  imports Text_Codec
begin

unbundle bit_operations_syntax

text \<open>
  The app catalogue a paired client sees and the meaning of the tiles it launches
  (\<^verbatim>\<open>src/src/remote_session.h\<close> and \<^verbatim>\<open>.cpp\<close>, first half): the fixed control
  identities, the contextual identity of the running game, the projection of the catalogue, the
  permission check of a control, and the cache of running-game tiles. Numeric identities are the
  32-bit integers of the wire (type \<open>int\<close>; the only arithmetic on them is the probing of
  \<^verbatim>\<open>synthetic_running_game_id\<close>, done on \<open>32 word\<close> as in the code). That probing loop
  could run forever, so it is a partial function and every function above it returns an option,
  \<open>None\<close> standing for a call that does not return.
\<close>

section \<open>Data\<close>

datatype role_e = Role_none | Role_input | Role_monitor | Role_game

datatype control_e = Control_none | Control_resume | Control_disconnect_monitor
  | Control_disconnect_input | Control_terminate | Control_monitor | Control_input | Control_running_game

datatype permission_e = Permission_view | Permission_launch | Permission_terminate

record app_t =
  app_id :: int
  app_uuid :: string
  app_title :: string
  app_synthetic :: bool
  app_monitor_profile :: bool
  app_id_aliases :: "string list"
  app_catalogue_visible :: bool

record game_t =
  g_running :: bool
  g_owner_uuid :: string
  g_generation :: nat
  g_app :: app_t

record owner_t =
  ow_role :: role_e
  ow_retained :: bool
  ow_ready :: bool
  ow_retryable :: bool
  ow_output :: "string option"

record caller_t =
  ca_uuid :: string
  ca_paired :: bool
  ca_may_view :: bool
  ca_may_launch :: bool
  ca_may_terminate :: bool

record projection_t =
  pr_free :: bool
  pr_current_game :: int
  pr_catalogue :: "app_t list"

datatype cached_game_status_e = Cached_unknown | Cached_resolved | Cached_unavailable

record cached_game_resolution_t =
  cg_status :: cached_game_status_e
  cg_app :: "app_t option"

record tile_entry_t =
  te_tile_id :: int
  te_game :: app_t

type_synonym cached_game_tiles_t = "(uuid, tile_entry_t list) umap"

record dispatch_t =
  di_control :: control_e
  di_permission :: permission_e
  di_resume_role :: role_e
  di_allowed :: bool
  di_resume :: bool
  di_terminate :: bool
  di_already_complete :: bool

record control_completion_t =
  cc_status_code :: int
  cc_status_message :: string

section \<open>Fixed identities\<close>

definition resume_id :: int where "resume_id = 2147483501"
definition disconnect_monitor_id :: int where "disconnect_monitor_id = 2147483502"
definition disconnect_input_id :: int where "disconnect_input_id = 2147483503"
definition terminate_id :: int where "terminate_id = 2147483504"
definition monitor_id :: int where "monitor_id = 2147483505"
definition input_id :: int where "input_id = 2147483506"
definition running_game_id :: int where "running_game_id = 2147483507"
definition secondary_resume_id :: int where "secondary_resume_id = 2147483511"
definition secondary_terminate_id :: int where "secondary_terminate_id = 2147483514"
definition secondary_monitor_id :: int where "secondary_monitor_id = 2147483515"
definition secondary_input_id :: int where "secondary_input_id = 2147483516"

lemmas control_id_defs = resume_id_def disconnect_monitor_id_def disconnect_input_id_def
  terminate_id_def monitor_id_def input_id_def running_game_id_def secondary_resume_id_def
  secondary_terminate_id_def secondary_monitor_id_def secondary_input_id_def

record control_identity_t =
  ci_control :: control_e
  ci_primary :: int
  ci_secondary :: int
  ci_legacy :: int
  ci_uuid :: string

definition control_identities :: "control_identity_t list" where
  "control_identities = [
    \<lparr>ci_control = Control_resume, ci_primary = resume_id, ci_secondary = secondary_resume_id,
     ci_legacy = 2147483601, ci_uuid = ''9a1c5a25-58fe-40e0-b9aa-7d3f00000001''\<rparr>,
    \<lparr>ci_control = Control_disconnect_monitor, ci_primary = disconnect_monitor_id, ci_secondary = 0,
     ci_legacy = 2147483602, ci_uuid = ''9a1c5a25-58fe-40e0-b9aa-7d3f00000002''\<rparr>,
    \<lparr>ci_control = Control_disconnect_input, ci_primary = disconnect_input_id, ci_secondary = 0,
     ci_legacy = 2147483603, ci_uuid = ''9a1c5a25-58fe-40e0-b9aa-7d3f00000003''\<rparr>,
    \<lparr>ci_control = Control_terminate, ci_primary = terminate_id, ci_secondary = secondary_terminate_id,
     ci_legacy = 2147483604, ci_uuid = ''9a1c5a25-58fe-40e0-b9aa-7d3f00000004''\<rparr>,
    \<lparr>ci_control = Control_monitor, ci_primary = monitor_id, ci_secondary = secondary_monitor_id,
     ci_legacy = 2147483605, ci_uuid = ''9a1c5a25-58fe-40e0-b9aa-7d3f00000005''\<rparr>,
    \<lparr>ci_control = Control_input, ci_primary = input_id, ci_secondary = secondary_input_id,
     ci_legacy = 2147483606, ci_uuid = ''9a1c5a25-58fe-40e0-b9aa-7d3f00000006''\<rparr>,
    \<lparr>ci_control = Control_running_game, ci_primary = running_game_id, ci_secondary = 0,
     ci_legacy = 0, ci_uuid = ''9a1c5a25-58fe-40e0-b9aa-7d3f00000007''\<rparr>]"

definition equal_folded :: "string \<Rightarrow> string \<Rightarrow> bool" where
  "equal_folded left right \<longleftrightarrow> list_all2 (\<lambda>a b. tolower a = tolower b) left right"

definition configured_identity :: "int \<Rightarrow> app_t list \<Rightarrow> bool" where
  "configured_identity aid configured \<longleftrightarrow>
     list_ex (\<lambda>app. app_id app = aid \<or> to_string_int aid \<in> set (app_id_aliases app)) configured"

definition ranked_title :: "string \<Rightarrow> string \<Rightarrow> string" where
  "ranked_title rank title = rank @ title"

definition owns_game :: "caller_t \<Rightarrow> game_t \<Rightarrow> bool" where
  "owns_game caller game \<longleftrightarrow> g_running game \<and> ca_paired caller \<and> ca_uuid caller = g_owner_uuid game"

definition visible_name :: "string \<Rightarrow> string" where
  "visible_name name = dropWhile (\<lambda>c. c = CHR '' '' \<or> c = CHR 0x09 \<or> c = CHR 0x0D \<or> c = CHR 0x0A) name"

definition reserved_name :: "string \<Rightarrow> bool" where
  "reserved_name name \<longleftrightarrow> equal_folded (visible_name name) ''Remote Input'' \<or>
     equal_folded (visible_name name) ''Remote Monitor'' \<or> equal_folded (visible_name name) ''Terminate''"

definition identify :: "int \<Rightarrow> string \<Rightarrow> control_e" where
  "identify aid uuid =
     (case find (\<lambda>ci. aid > 0 \<and> (aid = ci_primary ci \<or> aid = ci_secondary ci \<or> aid = ci_legacy ci)) control_identities of
        Some ci \<Rightarrow> ci_control ci
      | None \<Rightarrow> (case find (\<lambda>ci. uuid = ci_uuid ci) control_identities of
            Some ci \<Rightarrow> ci_control ci
          | None \<Rightarrow> Control_none))"

definition monitor_profile_uuid_error :: "string \<Rightarrow> string list \<Rightarrow> string" where
  "monitor_profile_uuid_error uuid configured_uuids =
     (case parse_raw uuid of
        Inl _ \<Rightarrow> ''Remote Monitor profile requires a valid literal UUID.''
      | Inr parsed \<Rightarrow>
          if list_all (\<lambda>b. b = 0) parsed then ''Remote Monitor profile requires a non-nil UUID.''
          else if list_ex (\<lambda>ci. equal_folded uuid (ci_uuid ci)) control_identities
          then ''Remote Monitor profile UUID is reserved for a builtin control.''
          else if length (filter (equal_folded uuid) configured_uuids) > 1
          then ''Remote Monitor profile UUID conflicts with another configured application.''
          else '''')"

definition configured_app_id :: "int \<Rightarrow> bool" where
  "configured_app_id aid \<longleftrightarrow> aid > 0 \<and> identify aid '''' = Control_none"

section \<open>The running game's tile\<close>

definition positive_id_mask :: "32 word" where "positive_id_mask = 0x7fffffff"
definition identity_salt :: "32 word" where "identity_salt = 0x40000000"

partial_function (option) probe_free :: "(32 word \<Rightarrow> bool) \<Rightarrow> 32 word \<Rightarrow> 32 word option" where
  "probe_free blocked candidate =
     (if blocked candidate
      then probe_free blocked (if candidate = positive_id_mask then 1 else candidate + 1)
      else Some candidate)"

definition id_blocked :: "32 word \<Rightarrow> app_t list \<Rightarrow> 32 word \<Rightarrow> bool" where
  "id_blocked source configured candidate \<longleftrightarrow> candidate = source \<or>
     \<not> configured_app_id (sint candidate) \<or> configured_identity (sint candidate) configured"

definition synthetic_running_game_id :: "int \<Rightarrow> app_t list \<Rightarrow> int option" where
  "synthetic_running_game_id aid configured =
     (let source = word_of_int aid AND positive_id_mask;
          candidate = (source XOR identity_salt) AND positive_id_mask
      in map_option sint (probe_free (id_blocked source configured) candidate))"

definition identify_context :: "int \<Rightarrow> string \<Rightarrow> int \<Rightarrow> app_t list \<Rightarrow> control_e option" where
  "identify_context aid uuid running_app_id configured =
     (let control = identify aid uuid in
      if control \<noteq> Control_none then Some control
      else if uuid \<noteq> '''' \<or> configured_identity aid configured then Some Control_none
      else if \<not> running_app_id > 0 then Some Control_none
      else map_option (\<lambda>sid. if aid = sid then Control_running_game else Control_none)
             (synthetic_running_game_id running_app_id configured))"

definition control_suffix :: "control_e \<Rightarrow> nat" where
  "control_suffix control = (case control of Control_none \<Rightarrow> 0 | Control_resume \<Rightarrow> 1
     | Control_disconnect_monitor \<Rightarrow> 2 | Control_disconnect_input \<Rightarrow> 3 | Control_terminate \<Rightarrow> 4
     | Control_monitor \<Rightarrow> 5 | Control_input \<Rightarrow> 6 | Control_running_game \<Rightarrow> 7)"

definition synthetic_uuid :: "control_e \<Rightarrow> string" where
  "synthetic_uuid control = (let suffix = control_suffix control in
     if suffix \<ge> 1 \<and> suffix \<le> 7
     then ''9a1c5a25-58fe-40e0-b9aa-7d3f0000000'' @ to_string_int (int suffix) else '''')"

definition default_app :: app_t where
  "default_app = \<lparr>app_id = 0, app_uuid = '''', app_title = '''', app_synthetic = False,
     app_monitor_profile = False, app_id_aliases = [], app_catalogue_visible = True\<rparr>"

definition make_app :: "int \<Rightarrow> string \<Rightarrow> string \<Rightarrow> app_t" where
  "make_app aid uuid title = default_app\<lparr>app_id := aid, app_uuid := uuid, app_title := title, app_synthetic := True\<rparr>"

fun synthetic :: "control_e \<Rightarrow> app_t" where
  "synthetic Control_resume = make_app resume_id (synthetic_uuid Control_resume) ''Resume''"
| "synthetic Control_disconnect_monitor =
     make_app disconnect_monitor_id (synthetic_uuid Control_disconnect_monitor) ''Disconnect Monitor''"
| "synthetic Control_disconnect_input =
     make_app disconnect_input_id (synthetic_uuid Control_disconnect_input) ''Disconnect Input''"
| "synthetic Control_terminate = make_app terminate_id (synthetic_uuid Control_terminate) ''Terminate''"
| "synthetic Control_monitor = make_app monitor_id (synthetic_uuid Control_monitor) ''Remote Monitor''"
| "synthetic Control_input = make_app input_id (synthetic_uuid Control_input) ''Remote Input''"
| "synthetic _ = default_app"

definition prioritized_secondary_control :: "control_e \<Rightarrow> app_t" where
  "prioritized_secondary_control control = (let app = synthetic control in
     case control of
       Control_monitor \<Rightarrow> app\<lparr>app_id := secondary_monitor_id, app_title := ranked_title ''    '' (app_title app)\<rparr>
     | Control_input \<Rightarrow> app\<lparr>app_id := secondary_input_id, app_title := ranked_title ''   '' (app_title app)\<rparr>
     | Control_resume \<Rightarrow> app\<lparr>app_id := secondary_resume_id, app_title := ranked_title ''  '' (app_title app)\<rparr>
     | Control_terminate \<Rightarrow> app\<lparr>app_id := secondary_terminate_id, app_title := ranked_title '' '' (app_title app)\<rparr>
     | _ \<Rightarrow> app)"

definition synthetic_running_game :: "app_t \<Rightarrow> app_t list \<Rightarrow> app_t option" where
  "synthetic_running_game game configured =
     map_option (\<lambda>sid. make_app sid (synthetic_uuid Control_running_game) (ranked_title ''     '' (app_title game)))
       (synthetic_running_game_id (app_id game) configured)"

definition synthetic_artwork_filename :: "control_e \<Rightarrow> string option" where
  "synthetic_artwork_filename control = (case control of
       Control_resume \<Rightarrow> Some ''resume.png''
     | Control_disconnect_monitor \<Rightarrow> Some ''disconnect-remote-monitor.png''
     | Control_disconnect_input \<Rightarrow> Some ''disconnect-remote-input.png''
     | Control_terminate \<Rightarrow> Some ''terminate.png''
     | Control_monitor \<Rightarrow> Some ''remote-monitor.png''
     | Control_input \<Rightarrow> Some ''remote-input.png''
     | _ \<Rightarrow> None)"

section \<open>Cached running-game tiles\<close>

definition max_tiles_per_client :: nat where "max_tiles_per_client = 1024"

definition same_cached_target :: "app_t \<Rightarrow> app_t \<Rightarrow> bool" where
  "same_cached_target reference candidate \<longleftrightarrow>
     (if app_uuid reference \<noteq> '''' then app_uuid candidate = app_uuid reference
      else app_uuid candidate = '''' \<and> app_id candidate = app_id reference \<and>
           app_title candidate = app_title reference)"

fun replace_first :: "('a \<Rightarrow> bool) \<Rightarrow> ('a \<Rightarrow> 'a) \<Rightarrow> 'a list \<Rightarrow> 'a list" where
  "replace_first P f [] = []"
| "replace_first P f (x # xs) = (if P x then f x # xs else x # replace_first P f xs)"

definition remember_entry :: "int \<Rightarrow> app_t \<Rightarrow> tile_entry_t list \<Rightarrow> tile_entry_t list" where
  "remember_entry tile_id game entries =
     (let same_target = (\<lambda>entry. te_tile_id entry = tile_id \<and> same_cached_target game (te_game entry))
      in if list_ex same_target entries
         then replace_first same_target (\<lambda>entry. entry\<lparr>te_game := game\<rparr>) entries
         else (if length entries = max_tiles_per_client then drop 1 entries else entries)
              @ [\<lparr>te_tile_id = tile_id, te_game = game\<rparr>])"

definition cached_remember :: "uuid \<Rightarrow> int \<Rightarrow> app_t \<Rightarrow> cached_game_tiles_t \<Rightarrow> cached_game_tiles_t" where
  "cached_remember client_uuid tile_id game clients =
     (if client_uuid = '''' \<or> tile_id \<le> 0 \<or> identify tile_id '''' \<noteq> Control_none \<or> app_id game \<le> 0
      then clients
      else let entries = (case map_of clients client_uuid of None \<Rightarrow> [] | Some es \<Rightarrow> es)
           in AList.update client_uuid (remember_entry tile_id game entries) clients)"

definition cached_nothing :: cached_game_resolution_t where
  "cached_nothing = \<lparr>cg_status = Cached_unknown, cg_app = None\<rparr>"

definition cached_unavailable :: cached_game_resolution_t where
  "cached_unavailable = \<lparr>cg_status = Cached_unavailable, cg_app = None\<rparr>"

text \<open>The first loop of \<^verbatim>\<open>resolve\<close>: the last matching entry, or \<open>Inl ()\<close> when two
  matching entries have different targets.\<close>

fun scan_entries :: "int \<Rightarrow> tile_entry_t option \<Rightarrow> tile_entry_t list \<Rightarrow> unit + tile_entry_t option" where
  "scan_entries tile_id match [] = Inr match"
| "scan_entries tile_id match (entry # es) =
     (if tile_id > 0 \<and> te_tile_id entry \<noteq> tile_id then scan_entries tile_id match es
      else case match of
          None \<Rightarrow> scan_entries tile_id (Some entry) es
        | Some m \<Rightarrow>
            if \<not> (if app_uuid (te_game entry) \<noteq> '''' then app_uuid (te_game entry) = app_uuid (te_game m)
                   else app_uuid (te_game m) = '''' \<and> app_id (te_game entry) = app_id (te_game m) \<and>
                        app_title (te_game entry) = app_title (te_game m))
            then Inl () else scan_entries tile_id (Some entry) es)"

fun scan_targets :: "app_t \<Rightarrow> app_t option \<Rightarrow> app_t list \<Rightarrow> unit + app_t option" where
  "scan_targets game target [] = Inr target"
| "scan_targets game target (app # apps) =
     (if \<not> same_cached_target game app then scan_targets game target apps
      else if target \<noteq> None \<or> app_monitor_profile app then Inl ()
      else scan_targets game (Some app) apps)"

definition cached_resolve ::
  "uuid \<Rightarrow> int \<Rightarrow> string \<Rightarrow> app_t list \<Rightarrow> cached_game_tiles_t \<Rightarrow> cached_game_resolution_t" where
  "cached_resolve client_uuid tile_id tile_uuid configured clients =
     (if client_uuid = '''' \<or> (tile_uuid \<noteq> '''' \<and> tile_uuid \<noteq> synthetic_uuid Control_running_game) \<or>
         (tile_id \<le> 0 \<and> tile_uuid = '''') \<or> (tile_id > 0 \<and> identify tile_id '''' \<noteq> Control_none)
      then cached_nothing
      else if tile_id > 0 \<and> tile_uuid = '''' \<and> configured_identity tile_id configured then cached_nothing
      else case map_of clients client_uuid of
          None \<Rightarrow> cached_nothing
        | Some entries \<Rightarrow> (case scan_entries tile_id None entries of
              Inl _ \<Rightarrow> cached_unavailable
            | Inr None \<Rightarrow> cached_nothing
            | Inr (Some match) \<Rightarrow>
                if tile_id > 0 \<and> configured_identity tile_id configured then cached_unavailable
                else (case scan_targets (te_game match) None configured of
                    Inl _ \<Rightarrow> cached_unavailable
                  | Inr None \<Rightarrow> cached_unavailable
                  | Inr (Some target) \<Rightarrow> \<lparr>cg_status = Cached_resolved, cg_app = Some target\<rparr>)))"

section \<open>Exposure, projection and dispatch\<close>

definition exposes_active_game :: "caller_t \<Rightarrow> game_t \<Rightarrow> owner_t \<Rightarrow> bool \<Rightarrow> bool \<Rightarrow> bool" where
  "exposes_active_game caller game owner remote_sessions_active replacement_confirmation_active =
     (if \<not> g_running game then False
      else if replacement_confirmation_active then True
      else ow_role owner = Role_none \<and> owns_game caller game)"

definition allows_normal_game_cancel :: "caller_t \<Rightarrow> game_t \<Rightarrow> bool \<Rightarrow> bool" where
  "allows_normal_game_cancel caller game remote_sessions_active \<longleftrightarrow>
     g_running game \<and> ca_paired caller \<and> ca_may_terminate caller \<and>
     (\<not> remote_sessions_active \<or> owns_game caller game)"

definition app_listed :: "app_t list \<Rightarrow> app_t \<Rightarrow> bool" where
  "app_listed configured app \<longleftrightarrow>
     \<not> (app_monitor_profile app \<and> monitor_profile_uuid_error (app_uuid app) (map app_uuid configured) \<noteq> '''') \<and>
     (let control = identify 0 (app_uuid app) in
      app_catalogue_visible app \<and> control \<noteq> Control_input \<and> control \<noteq> Control_monitor \<and>
      (app_monitor_profile app \<or> \<not> reserved_name (app_title app)))"

definition project :: "caller_t \<Rightarrow> game_t \<Rightarrow> owner_t \<Rightarrow> app_t list \<Rightarrow> bool \<Rightarrow> projection_t option" where
  "project caller game owner configured remote_sessions_active =
     (let result = \<lparr>pr_free = True, pr_current_game = 0, pr_catalogue = []\<rparr>;
          visible_configured = filter (app_listed configured) configured;
          tail = [synthetic Control_input, synthetic Control_monitor] in
      if ow_role owner = Role_monitor
      then Some (result\<lparr>pr_catalogue := [synthetic Control_resume, synthetic Control_disconnect_monitor]\<rparr>)
      else if \<not> g_running game \<and> \<not> remote_sessions_active \<and> ow_role owner = Role_none
      then Some (result\<lparr>pr_catalogue := visible_configured @ tail\<rparr>)
      else if owns_game caller game
      then Some (result\<lparr>pr_free := False, pr_current_game := app_id (g_app game),
                        pr_catalogue := visible_configured @ tail\<rparr>)
      else if g_running game
      then map_option (\<lambda>running. result\<lparr>pr_catalogue :=
             [running, prioritized_secondary_control Control_resume, prioritized_secondary_control Control_terminate]
             @ visible_configured
             @ [prioritized_secondary_control Control_input, prioritized_secondary_control Control_monitor]\<rparr>)
             (synthetic_running_game (g_app game) configured)
      else Some (result\<lparr>pr_catalogue := visible_configured @ tail\<rparr>))"

definition dispatch :: "caller_t \<Rightarrow> game_t \<Rightarrow> owner_t \<Rightarrow> control_e \<Rightarrow> dispatch_t" where
  "dispatch caller game owner control =
     (let result = \<lparr>di_control = control, di_permission = Permission_view, di_resume_role = Role_none,
            di_allowed = False, di_resume = False, di_terminate = False, di_already_complete = False\<rparr>;
          resume = (let allowed = ca_may_view caller \<and> (g_running game \<or> ow_role owner = Role_monitor) in
            result\<lparr>di_permission := Permission_view, di_allowed := allowed, di_resume := allowed,
                   di_resume_role := (if allowed then (if ow_role owner = Role_monitor then Role_monitor else Role_game)
                                      else Role_none)\<rparr>)
      in case control of
          Control_resume \<Rightarrow> resume
        | Control_running_game \<Rightarrow> resume
        | Control_input \<Rightarrow> result\<lparr>di_permission := Permission_launch,
            di_allowed := ca_may_launch caller \<and> (ow_role owner = Role_none \<or> ow_role owner = Role_input)\<rparr>
        | Control_monitor \<Rightarrow>
            (let allowed = ca_may_launch caller \<and> (ow_role owner = Role_none \<or> ow_role owner = Role_monitor);
                 resumes = allowed \<and> ow_role owner = Role_monitor in
             result\<lparr>di_permission := Permission_launch, di_allowed := allowed, di_resume := resumes,
                    di_resume_role := (if resumes then Role_monitor else Role_none)\<rparr>)
        | Control_terminate \<Rightarrow>
            (let allowed = ca_may_terminate caller \<and> g_running game in
             result\<lparr>di_permission := Permission_terminate, di_allowed := allowed, di_terminate := allowed\<rparr>)
        | Control_disconnect_monitor \<Rightarrow>
            (let allowed = ca_may_terminate caller \<and> (ow_role owner = Role_monitor \<or> ow_role owner = Role_none) in
             result\<lparr>di_permission := Permission_terminate, di_allowed := allowed,
                    di_already_complete := allowed \<and> ow_role owner = Role_none\<rparr>)
        | Control_disconnect_input \<Rightarrow>
            (let allowed = ca_may_terminate caller \<and> (ow_role owner = Role_input \<or> ow_role owner = Role_none) in
             result\<lparr>di_permission := Permission_terminate, di_allowed := allowed,
                    di_already_complete := allowed \<and> ow_role owner = Role_none\<rparr>)
        | Control_none \<Rightarrow> result)"

definition joins_existing_game_output :: "role_e \<Rightarrow> bool \<Rightarrow> bool \<Rightarrow> bool \<Rightarrow> bool" where
  "joins_existing_game_output role stream_active retained_output_ready exclusive_retained_owner \<longleftrightarrow>
     role = Role_game \<and> (stream_active \<or> (retained_output_ready \<and> \<not> exclusive_retained_owner))"

definition is_secondary_game_client :: "string \<Rightarrow> string \<Rightarrow> bool" where
  "is_secondary_game_client app_owner_uuid caller_uuid \<longleftrightarrow> app_owner_uuid \<noteq> '''' \<and> app_owner_uuid \<noteq> caller_uuid"

definition stream_start_response_key :: "bool \<Rightarrow> string" where
  "stream_start_response_key launched_from_applist = (if launched_from_applist then ''gamesession'' else ''resume'')"

definition successful_control_completion :: "control_e \<Rightarrow> control_completion_t option" where
  "successful_control_completion control = (case control of
       Control_disconnect_monitor \<Rightarrow> Some \<lparr>cc_status_code = 410, cc_status_message = ''Remote Monitor disconnected successfully.''\<rparr>
     | Control_disconnect_input \<Rightarrow> Some \<lparr>cc_status_code = 410, cc_status_message = ''Remote Input disconnected successfully.''\<rparr>
     | Control_terminate \<Rightarrow> Some \<lparr>cc_status_code = 410,
         cc_status_message = ''Active stream terminated. Remote Monitor and Remote Input remain connected.''\<rparr>
     | _ \<Rightarrow> None)"


section \<open>Fixed identities: lemmas\<close>

definition fixed_ids :: "int list" where
  "fixed_ids = map ci_primary control_identities @ map ci_secondary control_identities
     @ map ci_legacy control_identities"

lemma find_None_ball: "find P xs = None \<longleftrightarrow> (\<forall>x\<in>set xs. \<not> P x)"
  by (auto simp: find_None_iff)

lemma uuids_nonempty: "ci \<in> set control_identities \<Longrightarrow> ci_uuid ci \<noteq> ''''"
  by (auto simp: control_identities_def)

lemma controls_not_none: "ci \<in> set control_identities \<Longrightarrow> ci_control ci \<noteq> Control_none"
  by (auto simp: control_identities_def)

lemma identify_numeric_none:
  "identify aid '''' = Control_none \<longleftrightarrow> aid \<le> 0 \<or> aid \<notin> set fixed_ids"
proof -
  have uu: "find (\<lambda>ci. '''' = ci_uuid ci) control_identities = None"
    using uuids_nonempty[THEN not_sym] by (simp add: find_None_ball)
  show ?thesis
  proof (cases "find (\<lambda>ci. aid > 0 \<and> (aid = ci_primary ci \<or> aid = ci_secondary ci \<or> aid = ci_legacy ci)) control_identities")
    case None
    with uu have "identify aid '''' = Control_none" by (simp add: identify_def)
    moreover have "aid \<le> 0 \<or> aid \<notin> set fixed_ids"
      using None by (auto simp: find_None_ball fixed_ids_def)
    ultimately show ?thesis by simp
  next
    case (Some ci)
    then have "ci \<in> set control_identities" "aid > 0"
      "aid = ci_primary ci \<or> aid = ci_secondary ci \<or> aid = ci_legacy ci"
      by (auto simp: find_Some_iff)
    then show ?thesis using Some controls_not_none[of ci] by (auto simp: identify_def fixed_ids_def)
  qed
qed

lemma fixed_ids_range: "i \<in> set fixed_ids \<Longrightarrow> 0 \<le> i \<and> i < 2147483648"
  by (auto simp: fixed_ids_def control_identities_def control_id_defs)

lemma card_fixed_ids: "card (set fixed_ids) \<le> 21"
  by (rule order_trans[OF card_length]) (simp add: fixed_ids_def control_identities_def)

lemma identify_synthetic:
  assumes "control \<noteq> Control_none" "control \<noteq> Control_running_game"
  shows "identify (app_id (synthetic control)) uuid = control"
    and "identify (app_id (prioritized_secondary_control control)) uuid = control"
    and "app_uuid (synthetic control) = synthetic_uuid control"
    and "app_uuid (prioritized_secondary_control control) = synthetic_uuid control"
  using assms
  by (cases control; simp add: identify_def control_identities_def make_app_def
      prioritized_secondary_control_def control_id_defs default_app_def)+

lemma synthetic_uuid_table: "ci \<in> set control_identities \<Longrightarrow> synthetic_uuid (ci_control ci) = ci_uuid ci"
proof -
  have "list_all (\<lambda>ci. synthetic_uuid (ci_control ci) = ci_uuid ci) control_identities" by code_simp
  then show "ci \<in> set control_identities \<Longrightarrow> ?thesis" by (simp add: list_all_iff)
qed

section \<open>The probing loop\<close>

definition probe_distance :: "32 word \<Rightarrow> 32 word \<Rightarrow> nat" where
  "probe_distance k c = (if c \<le> k then unat k - unat c else 2147483647 - unat c + unat k)"

lemma unat_mask: "unat positive_id_mask = 2147483647"
  by (simp add: positive_id_mask_def)

lemma probe_step_range:
  "c \<le> positive_id_mask \<Longrightarrow> (if c = positive_id_mask then 1 else c + 1) \<le> positive_id_mask"
  by (auto simp: positive_id_mask_def word_le_nat_alt unat_word_ariths word_unat_eq_iff)

lemma probe_step_distance:
  assumes "c \<le> positive_id_mask" "1 \<le> k" "k \<le> positive_id_mask" "c \<noteq> k"
  shows "probe_distance k (if c = positive_id_mask then 1 else c + 1) < probe_distance k c"
proof (cases "c = positive_id_mask")
  case True
  with assms have "unat k < 2147483647" "1 \<le> unat k"
    by (auto simp: word_le_nat_alt word_unat_eq_iff unat_mask)
  with True show ?thesis
    by (auto simp: probe_distance_def word_le_nat_alt unat_mask)
next
  case False
  with assms have c: "unat c < 2147483647" and k: "1 \<le> unat k" "unat k \<le> 2147483647" and ne: "unat c \<noteq> unat k"
    by (auto simp: word_le_nat_alt word_unat_eq_iff unat_mask)
  have "unat (c + 1) = unat c + 1" using c by (simp add: unat_word_ariths)
  with False c k ne show ?thesis
    by (auto simp: probe_distance_def word_le_nat_alt)
qed

lemma probe_free_finds:
  assumes "\<not> blocked k" "1 \<le> k" "k \<le> positive_id_mask" "c \<le> positive_id_mask"
  shows "\<exists>r. probe_free blocked c = Some r \<and> \<not> blocked r \<and> r \<le> positive_id_mask"
  using assms(4)
proof (induction "probe_distance k c" arbitrary: c rule: less_induct)
  case less
  show ?case
  proof (cases "blocked c")
    case True
    let ?n = "if c = positive_id_mask then 1 else c + 1"
    have ne: "c \<noteq> k" using True assms(1) by blast
    have "\<exists>r. probe_free blocked ?n = Some r \<and> \<not> blocked r \<and> r \<le> positive_id_mask"
      by (rule less.hyps[OF probe_step_distance probe_step_range]) (use assms less.prems ne in auto)
    moreover have "probe_free blocked c = probe_free blocked ?n"
      by (subst probe_free.simps) (simp add: True)
    ultimately show ?thesis by simp
  next
    case False
    then show ?thesis using less.prems by (subst probe_free.simps) simp
  qed
qed

definition identity_count :: "app_t list \<Rightarrow> nat" where
  "identity_count configured = (\<Sum>app\<leftarrow>configured. Suc (length (app_id_aliases app)))"

lemma configured_identity_finite:
  "finite {i. 0 \<le> i \<and> configured_identity i configured} \<and>
   card {i. 0 \<le> i \<and> configured_identity i configured} \<le> identity_count configured"
proof (induction configured)
  case Nil
  then show ?case by (simp add: configured_identity_def)
next
  case (Cons a as)
  let ?A = "{i. 0 \<le> i \<and> to_string_int i \<in> set (app_id_aliases a)}"
  let ?B = "{i. 0 \<le> i \<and> configured_identity i as}"
  have A: "finite ?A" "card ?A \<le> length (app_id_aliases a)"
  proof -
    have inj: "inj_on to_string_int ?A" using to_string_int_inj by (auto simp: inj_on_def)
    have img: "to_string_int ` ?A \<subseteq> set (app_id_aliases a)" by auto
    show "finite ?A" using inj img by (meson List.finite_set finite_subset finite_imageD)
    have "card ?A = card (to_string_int ` ?A)" using inj by (simp add: card_image)
    also have "\<dots> \<le> length (app_id_aliases a)"
      using img by (meson List.finite_set card_length card_mono order_trans)
    finally show "card ?A \<le> length (app_id_aliases a)" .
  qed
  have sub: "{i. 0 \<le> i \<and> configured_identity i (a # as)} \<subseteq> insert (app_id a) (?A \<union> ?B)" (is "?L \<subseteq> ?R")
    by (auto simp: configured_identity_def)
  have fin: "finite ?R" using A(1) Cons by simp
  have "card ?L \<le> card ?R" by (rule card_mono[OF fin sub])
  also have "\<dots> \<le> Suc (card (?A \<union> ?B))" by (rule card_insert_le_m1) simp_all
  also have "\<dots> \<le> Suc (card ?A + card ?B)" using card_Un_le[of ?A ?B] by simp
  finally show ?case using A Cons fin finite_subset[OF sub fin] by (simp add: identity_count_def)
qed

lemma sint_small: "c \<le> positive_id_mask \<Longrightarrow> sint (c :: 32 word) = int (unat c)"
proof -
  assume "c \<le> positive_id_mask"
  then have "uint c < 2 ^ 31" by (simp add: word_le_def positive_id_mask_def)
  moreover have "- (2 ^ 31) \<le> uint c" by (rule order_trans[of _ 0]) simp_all
  ultimately have "signed_take_bit 31 (uint c) = uint c" by (rule signed_take_bit_int_eq_self[rotated])
  then show ?thesis by (simp add: sint_uint)
qed

lemma free_id_exists:
  assumes "identity_count configured < 2147483600"
  shows "\<exists>k. \<not> id_blocked source configured k \<and> 1 \<le> k \<and> k \<le> positive_id_mask"
proof -
  let ?conf = "{i. 0 \<le> i \<and> configured_identity i configured}"
  let ?bad = "insert (int (unat source)) (set fixed_ids \<union> ?conf)"
  have "card ?bad \<le> Suc (card (set fixed_ids) + card ?conf)"
    using card_Un_le[of "set fixed_ids" ?conf] by (simp add: card_insert_if configured_identity_finite)
  also have "\<dots> \<le> Suc (21 + identity_count configured)"
    using card_fixed_ids configured_identity_finite[of configured] by simp
  finally have small: "card ?bad < card {1..2147483647 :: int}" using assms by simp
  have fin: "finite ?bad" using configured_identity_finite by simp
  obtain i where i: "i \<in> {1..2147483647}" "i \<notin> ?bad"
    using small fin by (meson card_mono not_less subsetI)
  obtain n where n: "i = int n" using i(1) by (metis atLeastAtMost_iff int_ops(2) nonneg_int_cases order_trans zero_le_one)
  let ?k = "of_nat n :: 32 word"
  have u: "unat ?k = nat i" using i(1) n by (simp add: unat_of_nat)
  then have le: "?k \<le> positive_id_mask" "1 \<le> ?k"
    using i(1) by (auto simp: word_le_nat_alt unat_mask)
  have s: "sint ?k = i" using sint_small[OF le(1)] u i(1) by simp
  have "int (unat ?k) = i" using u i(1) by simp
  then have ne: "?k \<noteq> source" using i(2) by blast
  have "\<not> id_blocked source configured ?k"
    using i ne unfolding id_blocked_def s configured_app_id_def identify_numeric_none by auto
  then show ?thesis using le by blast
qed

lemma synthetic_id_fresh:
  assumes "identity_count configured < 2147483600"
  obtains sid where "synthetic_running_game_id aid configured = Some sid" "0 < sid" "sid \<le> 2147483647"
    "sid \<notin> set fixed_ids" "\<not> configured_identity sid configured"
    "sid \<noteq> uint (word_of_int aid AND positive_id_mask)"
proof -
  let ?source = "word_of_int aid AND positive_id_mask"
  let ?start = "(?source XOR identity_salt) AND positive_id_mask"
  obtain k where k: "\<not> id_blocked ?source configured k" "1 \<le> k" "k \<le> positive_id_mask"
    using free_id_exists[OF assms] by blast
  have "?start \<le> positive_id_mask" by (simp add: word_and_le1)
  from probe_free_finds[of "id_blocked ?source configured", OF k this]
  obtain r where r: "probe_free (id_blocked ?source configured) ?start = Some r"
    "\<not> id_blocked ?source configured r" "r \<le> positive_id_mask" by blast
  have s: "sint r = int (unat r)" by (rule sint_small[OF r(3)])
  have eq: "synthetic_running_game_id aid configured = Some (sint r)"
    by (simp add: synthetic_running_game_id_def r(1))
  have "sint r > 0" "sint r \<notin> set fixed_ids" "\<not> configured_identity (sint r) configured"
    using r(2) by (auto simp: id_blocked_def configured_app_id_def identify_numeric_none)
  moreover have "sint r \<le> 2147483647" using r(3) unfolding s by (simp add: word_le_def positive_id_mask_def)
  moreover have "sint r \<noteq> uint ?source"
    using r(2) s by (auto simp: id_blocked_def word_uint_eq_iff)
  ultimately show ?thesis using that eq by blast
qed

text \<open>The id a running game is advertised under (C13): when the configured rows hold fewer than
  2147483600 ids and aliases together, the probing loop returns, and its result is a positive
  32-bit id that is neither the game's own id, nor a fixed or legacy control id, nor the id or
  alias of a configured row; routing that id back with the same configuration yields the
  running-game control. (remote_session.cpp, synthetic_running_game_id and identify)\<close>

theorem running_game_tile_fresh:
  assumes "identity_count configured < 2147483600" "0 < aid" "aid \<le> 2147483647"
  shows "\<exists>sid. synthetic_running_game_id aid configured = Some sid \<and> 0 < sid \<and> sid \<le> 2147483647 \<and>
    sid \<noteq> aid \<and> sid \<notin> set fixed_ids \<and> \<not> configured_identity sid configured \<and>
    identify_context sid '''' aid configured = Some Control_running_game"
proof -
  obtain sid where s: "synthetic_running_game_id aid configured = Some sid" "0 < sid" "sid \<le> 2147483647"
    "sid \<notin> set fixed_ids" "\<not> configured_identity sid configured"
    "sid \<noteq> uint (word_of_int aid AND positive_id_mask)"
    using synthetic_id_fresh[OF assms(1)] by blast
  have "uint (word_of_int aid AND positive_id_mask) = aid"
  proof -
    have "uint (word_of_int aid :: 32 word) = aid"
      using assms(2,3) by (simp add: unsigned_of_int take_bit_int_eq_self)
    moreover have "uint positive_id_mask = mask 31" by (simp add: positive_id_mask_def mask_eq_exp_minus_1)
    ultimately have "uint (word_of_int aid AND positive_id_mask) = take_bit 31 aid"
      by (simp add: uint_and take_bit_eq_mask)
    then show ?thesis using assms(2,3) by (simp add: take_bit_int_eq_self)
  qed
  moreover have "identify_context sid '''' aid configured = Some Control_running_game"
    using s assms(2) identify_numeric_none[of sid] by (simp add: identify_context_def)
  ultimately show ?thesis using s by auto
qed

definition demo_apps :: "app_t list" where
  "demo_apps = [default_app\<lparr>app_id := 7, app_uuid := ''a'', app_title := ''Chess''\<rparr>,
     default_app\<lparr>app_id := 1073741831, app_uuid := ''b'', app_title := ''Go'', app_id_aliases := [''1073741832'']\<rparr>]"

theorem running_game_tile_fresh_witness:
  "\<exists>sid. synthetic_running_game_id 7 demo_apps = Some sid \<and> 0 < sid \<and> sid \<le> 2147483647 \<and>
    sid \<noteq> 7 \<and> sid \<notin> set fixed_ids \<and> \<not> configured_identity sid demo_apps \<and>
    identify_context sid '''' 7 demo_apps = Some Control_running_game"
  by (rule running_game_tile_fresh) (simp_all add: demo_apps_def identity_count_def default_app_def)

section \<open>Projection\<close>

text \<open>Every tile of a projected catalogue is a listed configured row or one of the synthetic tiles of
  its branch.\<close>

definition shown_controls :: "caller_t \<Rightarrow> game_t \<Rightarrow> owner_t \<Rightarrow> control_e list" where
  "shown_controls caller game owner =
     (if ow_role owner = Role_monitor then [Control_resume, Control_disconnect_monitor]
      else if g_running game \<and> \<not> owns_game caller game
      then [Control_running_game, Control_resume, Control_terminate, Control_input, Control_monitor]
      else [Control_input, Control_monitor])"

text \<open>What the tiles of those controls are read as: a game that is running but whose entry was removed
  from the configuration is passed with id 0, and its tile then names no control.\<close>

definition routed_controls :: "caller_t \<Rightarrow> game_t \<Rightarrow> owner_t \<Rightarrow> control_e list" where
  "routed_controls caller game owner =
     map (\<lambda>c. if c = Control_running_game \<and> \<not> 0 < app_id (g_app game) then Control_none else c)
       (shown_controls caller game owner)"

lemma synthetic_flag:
  assumes "control \<noteq> Control_none" "control \<noteq> Control_running_game"
  shows "app_synthetic (synthetic control)" "app_synthetic (prioritized_secondary_control control)"
  using assms by (cases control; simp add: prioritized_secondary_control_def make_app_def)+

declare synthetic.simps [simp del]

lemma identify_context_fixed:
  "identify aid uuid \<noteq> Control_none \<Longrightarrow> identify_context aid uuid run configured = Some (identify aid uuid)"
  by (simp add: identify_context_def)

lemma routes_synthetic:
  assumes "control \<noteq> Control_none" "control \<noteq> Control_running_game"
  shows "identify_context (app_id (synthetic control)) '''' run configured = Some control"
    and "identify_context (app_id (prioritized_secondary_control control)) '''' run configured = Some control"
  using assms by (simp_all add: identify_context_def identify_synthetic)

lemma running_game_tile:
  assumes "identity_count configured < 2147483600"
  shows "\<exists>t. synthetic_running_game game configured = Some t \<and> app_synthetic t \<and>
    identify_context (app_id t) '''' (app_id game) configured =
      Some (if 0 < app_id game then Control_running_game else Control_none)"
proof -
  obtain sid where s: "synthetic_running_game_id (app_id game) configured = Some sid" "0 < sid"
    "sid \<notin> set fixed_ids" "\<not> configured_identity sid configured"
    using synthetic_id_fresh[OF assms] by metis
  then show ?thesis using identify_numeric_none[of sid]
    by (simp add: synthetic_running_game_def make_app_def identify_context_def)
qed

lemma configured_row_routes:
  assumes "a \<in> set configured" "configured_app_id (app_id a)"
  shows "identify_context (app_id a) '''' run configured = Some Control_none"
proof -
  have "configured_identity (app_id a) configured"
    using assms(1) by (auto simp: configured_identity_def list_ex_iff)
  then show ?thesis using assms(2) by (simp add: identify_context_def configured_app_id_def)
qed

lemmas routing_simps = routes_synthetic synthetic_flag

text \<open>The catalogue a client is shown and the controls its tiles invoke (C5): over a
  configuration whose rows are not synthetic (nvhttp.cpp, remote_configured_catalogue) and carry
  admitted ids, that is positive ids that are no fixed or legacy control id (app_catalog_policy.cpp,
  usable_configured_id), and that names fewer than 2147483600 ids and aliases, the projection is
  defined for every caller, on an idle host (game id 0) as on a running one; its synthetic tiles,
  launched by numeric id against the same configuration, route exactly to the controls of the
  caller's situation, in order, except that the tile of a running game with no configured entry
  (id 0) routes to no control; its other
  tiles are exactly the listed configured rows, none of which is read as a control; the host is
  reported busy, with the game's id, only to the game's owner outside Remote Monitor.
  (remote_session.cpp, project and identify)\<close>

theorem projection_routes_back:
  assumes "identity_count configured < 2147483600"
    and rows: "\<forall>a\<in>set configured. configured_app_id (app_id a) \<and> \<not> app_synthetic a"
  shows "\<exists>p. project caller game owner configured active = Some p \<and>
    map (\<lambda>t. identify_context (app_id t) '''' (app_id (g_app game)) configured)
      (filter app_synthetic (pr_catalogue p)) = map Some (routed_controls caller game owner) \<and>
    filter (\<lambda>t. \<not> app_synthetic t) (pr_catalogue p) =
      (if ow_role owner = Role_monitor then [] else filter (app_listed configured) configured) \<and>
    (\<forall>t\<in>set (pr_catalogue p). \<not> app_synthetic t \<longrightarrow>
      identify_context (app_id t) '''' (app_id (g_app game)) configured = Some Control_none) \<and>
    (pr_free p \<longleftrightarrow> \<not> (owns_game caller game \<and> ow_role owner \<noteq> Role_monitor)) \<and>
    pr_current_game p = (if owns_game caller game \<and> ow_role owner \<noteq> Role_monitor then app_id (g_app game) else 0)"
proof -
  let ?route = "\<lambda>t. identify_context (app_id t) '''' (app_id (g_app game)) configured"
  let ?vis = "filter (app_listed configured) configured"
  have vis: "filter app_synthetic ?vis = []" "filter (\<lambda>t. \<not> app_synthetic t) ?vis = ?vis"
    "\<And>t. t \<in> set ?vis \<Longrightarrow> ?route t = Some Control_none"
    using rows configured_row_routes[of _ configured]
    by (auto simp: filter_empty_conv intro!: filter_cong)
  obtain tile where tile: "synthetic_running_game (g_app game) configured = Some tile" "app_synthetic tile"
    "?route tile = Some (if 0 < app_id (g_app game) then Control_running_game else Control_none)"
    using running_game_tile[OF assms(1)] by blast
  have own: "owns_game caller game \<Longrightarrow> g_running game" by (simp add: owns_game_def)
  consider (monitor) "ow_role owner = Role_monitor"
    | (owner) "ow_role owner \<noteq> Role_monitor" "owns_game caller game"
    | (secondary) "ow_role owner \<noteq> Role_monitor" "\<not> owns_game caller game" "g_running game"
    | (idle) "ow_role owner \<noteq> Role_monitor" "\<not> g_running game" by blast
  then show ?thesis
  proof cases
    case monitor
    then show ?thesis by (simp add: project_def routed_controls_def shown_controls_def routing_simps)
  next
    case owner
    then show ?thesis using own vis
      by (auto simp: project_def routed_controls_def shown_controls_def routing_simps)
  next
    case secondary
    then show ?thesis using tile vis
      by (auto simp: project_def routed_controls_def shown_controls_def routing_simps)
  next
    case idle
    then show ?thesis using own vis
      by (auto simp: project_def routed_controls_def shown_controls_def routing_simps Let_def)
  qed
qed

definition demo_caller :: caller_t where
  "demo_caller = \<lparr>ca_uuid = ''phone'', ca_paired = True, ca_may_view = True, ca_may_launch = True, ca_may_terminate = True\<rparr>"

definition demo_game :: game_t where
  "demo_game = \<lparr>g_running = True, g_owner_uuid = ''tv'', g_generation = 3, g_app = hd demo_apps\<rparr>"

definition no_owner :: owner_t where
  "no_owner = \<lparr>ow_role = Role_none, ow_retained = False, ow_ready = False, ow_retryable = False, ow_output = None\<rparr>"

definition idle_game :: game_t where
  "idle_game = \<lparr>g_running = False, g_owner_uuid = [], g_generation = 0, g_app = default_app\<rparr>"

theorem projection_routes_back_witness:
  "(\<exists>p. project demo_caller demo_game no_owner demo_apps True = Some p \<and>
    map (\<lambda>t. identify_context (app_id t) [] 7 demo_apps) (filter app_synthetic (pr_catalogue p))
      = map Some [Control_running_game, Control_resume, Control_terminate, Control_input, Control_monitor] \<and>
    pr_free p) \<and>
   (\<exists>p. project demo_caller idle_game no_owner demo_apps True = Some p \<and>
    map (\<lambda>t. identify_context (app_id t) [] 0 demo_apps) (filter app_synthetic (pr_catalogue p))
      = map Some [Control_input, Control_monitor] \<and>
    filter (\<lambda>t. \<not> app_synthetic t) (pr_catalogue p) = filter (app_listed demo_apps) demo_apps \<and> pr_free p)"
proof -
  have *: "identity_count demo_apps < 2147483600"
    "\<forall>a\<in>set demo_apps. configured_app_id (app_id a) \<and> \<not> app_synthetic a"
    by (simp_all add: demo_apps_def identity_count_def default_app_def configured_app_id_def
        identify_numeric_none fixed_ids_def control_identities_def control_id_defs)
  have **: "app_id (g_app demo_game) = 7" "\<not> owns_game demo_caller demo_game" "g_running demo_game"
    "ow_role no_owner = Role_none" "app_id (g_app idle_game) = 0" "\<not> g_running idle_game"
    "\<not> owns_game demo_caller idle_game"
    by (simp_all add: demo_game_def demo_apps_def demo_caller_def owns_game_def no_owner_def idle_game_def
        default_app_def)
  have 1: "\<exists>p. project demo_caller demo_game no_owner demo_apps True = Some p \<and>
    map (\<lambda>t. identify_context (app_id t) [] 7 demo_apps) (filter app_synthetic (pr_catalogue p))
      = map Some [Control_running_game, Control_resume, Control_terminate, Control_input, Control_monitor] \<and>
    pr_free p"
    using projection_routes_back[OF *, of demo_caller demo_game no_owner True]
    by (auto simp: ** routed_controls_def shown_controls_def)
  have 2: "\<exists>p. project demo_caller idle_game no_owner demo_apps True = Some p \<and>
    map (\<lambda>t. identify_context (app_id t) [] 0 demo_apps) (filter app_synthetic (pr_catalogue p))
      = map Some [Control_input, Control_monitor] \<and>
    filter (\<lambda>t. \<not> app_synthetic t) (pr_catalogue p) = filter (app_listed demo_apps) demo_apps \<and> pr_free p"
    using projection_routes_back[OF *, of demo_caller idle_game no_owner True]
    by (auto simp: ** routed_controls_def shown_controls_def)
  show ?thesis using 1 2 by (rule conjI)
qed

section \<open>Dispatch\<close>

fun has_permission :: "caller_t \<Rightarrow> permission_e \<Rightarrow> bool" where
  "has_permission caller Permission_view = ca_may_view caller"
| "has_permission caller Permission_launch = ca_may_launch caller"
| "has_permission caller Permission_terminate = ca_may_terminate caller"

text \<open>Authorisation of controls: a control is allowed only with the permission its result
  names; resuming, terminating and completing happen only when it is allowed, and terminating only
  while a game runs; a resumed role is always named and is Remote Monitor exactly when the caller
  owns one; and a caller that holds every permission and owns no Remote Input session is allowed
  every control its catalogue shows. (remote_session.cpp, dispatch and project)\<close>

theorem dispatch_authorised:
  "(di_allowed (dispatch caller game owner c) \<longrightarrow> has_permission caller (di_permission (dispatch caller game owner c))) \<and>
   (di_resume (dispatch caller game owner c) \<or> di_terminate (dispatch caller game owner c) \<or>
     di_already_complete (dispatch caller game owner c) \<longrightarrow> di_allowed (dispatch caller game owner c)) \<and>
   (di_terminate (dispatch caller game owner c) \<longrightarrow> c = Control_terminate \<and> g_running game) \<and>
   (di_resume (dispatch caller game owner c) \<longleftrightarrow> di_resume_role (dispatch caller game owner c) \<noteq> Role_none) \<and>
   (di_resume_role (dispatch caller game owner c) = Role_monitor \<longrightarrow> ow_role owner = Role_monitor) \<and>
   (di_resume_role (dispatch caller game owner c) = Role_game \<longrightarrow> g_running game \<and> ow_role owner \<noteq> Role_monitor) \<and>
   (c \<in> set (shown_controls caller game owner) \<longrightarrow> ow_role owner \<in> {Role_none, Role_monitor} \<longrightarrow>
     (\<forall>q. has_permission caller q) \<longrightarrow> di_allowed (dispatch caller game owner c))"
proof -
  have perms: "(\<forall>q. has_permission caller q) \<Longrightarrow>
      ca_may_view caller \<and> ca_may_launch caller \<and> ca_may_terminate caller"
    using has_permission.simps by metis
  show ?thesis
    by (intro conjI impI; (drule perms)?; cases c)
      (auto simp: dispatch_def Let_def shown_controls_def split: if_splits)
qed

theorem dispatch_authorised_witness:
  "di_allowed (dispatch demo_caller demo_game no_owner Control_terminate)"
proof -
  have "\<forall>q. has_permission demo_caller q"
    by (rule allI, rename_tac q, case_tac q) (simp_all add: demo_caller_def)
  moreover have "Control_terminate \<in> set (shown_controls demo_caller demo_game no_owner)" "ow_role no_owner = Role_none"
    by (simp_all add: shown_controls_def demo_caller_def demo_game_def no_owner_def owns_game_def)
  ultimately show ?thesis
    using dispatch_authorised[of demo_caller demo_game no_owner Control_terminate] by simp
qed

section \<open>Cached tiles\<close>

definition tiles_ok :: "cached_game_tiles_t \<Rightarrow> bool" where
  "tiles_ok clients \<longleftrightarrow> (\<forall>u es. map_of clients u = Some es \<longrightarrow> length es \<le> max_tiles_per_client \<and>
     (\<forall>e\<in>set es. 0 < te_tile_id e \<and> identify (te_tile_id e) '''' = Control_none \<and> 0 < app_id (te_game e)))"

inductive tiles_step :: "cached_game_tiles_t \<Rightarrow> cached_game_tiles_t \<Rightarrow> bool" where
  tiles_remember: "tiles_step s (cached_remember client tile game s)"

inductive_cases tiles_stepE: "tiles_step s t"

lemma length_replace_first [simp]: "length (replace_first P f xs) = length xs"
  by (induction xs) auto

lemma set_replace_first: "y \<in> set (replace_first P f xs) \<Longrightarrow> y \<in> set xs \<or> (\<exists>x\<in>set xs. P x \<and> y = f x)"
  by (induction xs) (auto split: if_splits)

lemma replace_first_hit: "list_ex P xs \<Longrightarrow> \<exists>x\<in>set xs. P x \<and> f x \<in> set (replace_first P f xs)"
  by (induction xs) auto

lemma tiles_ok_update:
  "tiles_ok s \<Longrightarrow> length es \<le> max_tiles_per_client \<Longrightarrow>
   (\<And>e. e \<in> set es \<Longrightarrow> 0 < te_tile_id e \<and> identify (te_tile_id e) '''' = Control_none \<and> 0 < app_id (te_game e)) \<Longrightarrow>
   tiles_ok (AList.update client es s)"
  by (simp add: tiles_ok_def)

lemma remember_entry_mem:
  "e \<in> set (remember_entry tile game es) \<Longrightarrow>
    e \<in> set es \<or> (te_tile_id e = tile \<and> te_game e = game)"
  by (auto simp: remember_entry_def Let_def dest!: set_replace_first in_set_dropD split: if_splits)

lemma remember_entry_hit: "\<exists>e\<in>set (remember_entry tile game es). te_tile_id e = tile"
proof (cases "list_ex (\<lambda>e. te_tile_id e = tile \<and> same_cached_target game (te_game e)) es")
  case True
  from replace_first_hit[OF this, of "\<lambda>e. e\<lparr>te_game := game\<rparr>"] obtain x where
    "te_tile_id x = tile" "x\<lparr>te_game := game\<rparr> \<in> set (remember_entry tile game es)"
    using True by (auto simp: remember_entry_def)
  then show ?thesis by (intro bexI[of _ "x\<lparr>te_game := game\<rparr>"]) simp_all
next
  case False
  then show ?thesis by (auto simp: remember_entry_def)
qed

lemma remember_entry_length:
  "length es \<le> max_tiles_per_client \<Longrightarrow> length (remember_entry tile game es) \<le> max_tiles_per_client"
  by (auto simp: remember_entry_def Let_def max_tiles_per_client_def)

lemma tiles_ok_remember:
  assumes "tiles_ok s"
  shows "tiles_ok (cached_remember client tile game s)"
proof (cases "client = '''' \<or> tile \<le> 0 \<or> identify tile '''' \<noteq> Control_none \<or> app_id game \<le> 0")
  case True
  then show ?thesis using assms by (simp add: cached_remember_def)
next
  case False
  let ?es = "case map_of s client of None \<Rightarrow> [] | Some es \<Rightarrow> es"
  have es: "length ?es \<le> max_tiles_per_client"
    "e \<in> set ?es \<Longrightarrow> 0 < te_tile_id e \<and> identify (te_tile_id e) '''' = Control_none \<and> 0 < app_id (te_game e)" for e
    using assms by (cases "map_of s client"; auto simp: tiles_ok_def)+
  have "tiles_ok (AList.update client (remember_entry tile game ?es) s)"
    by (rule tiles_ok_update[OF assms remember_entry_length[OF es(1)]])
      (use es(2) False in \<open>auto dest!: remember_entry_mem\<close>)
  then show ?thesis using False by (simp add: cached_remember_def Let_def)
qed

interpretation tiles: invariant_system "\<lambda>s. s = []" tiles_step tiles_ok
  by unfold_locales (auto simp: tiles_ok_def[of "[]"] elim!: tiles_stepE intro: tiles_ok_remember)

lemma scan_entries_sound:
  "scan_entries tile match es = Inr (Some m) \<Longrightarrow>
    match = Some m \<or> (m \<in> set es \<and> (tile > 0 \<longrightarrow> te_tile_id m = tile))"
  by (induction tile match es rule: scan_entries.induct) (auto split: if_splits option.splits)

text \<open>Every entry the first loop kept has the target of the entry it ends with.\<close>

lemma same_cached_target_sym_trans:
  "same_cached_target a b \<Longrightarrow> same_cached_target b a"
  "same_cached_target a b \<Longrightarrow> same_cached_target b c \<Longrightarrow> same_cached_target a c"
  by (auto simp: same_cached_target_def split: if_splits)

lemma scan_entries_step:
  "scan_entries tile match (e # es) =
    (if tile > 0 \<and> te_tile_id e \<noteq> tile then scan_entries tile match es
     else case match of None \<Rightarrow> scan_entries tile (Some e) es
       | Some m \<Rightarrow> if same_cached_target (te_game e) (te_game m)
           then scan_entries tile (Some e) es else Inl ())"
  by (auto simp: same_cached_target_def split: option.splits)

lemma scan_entries_agree:
  assumes "scan_entries tile match es = Inr (Some m)"
  shows "(\<forall>x. match = Some x \<longrightarrow> same_cached_target (te_game x) (te_game m)) \<and>
    (\<forall>e\<in>set es. (tile > 0 \<longrightarrow> te_tile_id e = tile) \<longrightarrow> same_cached_target (te_game e) (te_game m))"
  using assms
proof (induction es arbitrary: match)
  case Nil
  then show ?case by (auto simp: same_cached_target_def)
next
  case (Cons e es)
  show ?case
  proof (cases "tile > 0 \<and> te_tile_id e \<noteq> tile")
    case True
    with Cons.prems have "scan_entries tile match es = Inr (Some m)" by simp
    with Cons.IH True show ?thesis by simp
  next
    case False
    with Cons.prems have tail: "scan_entries tile (Some e) es = Inr (Some m)"
      and link: "\<forall>x. match = Some x \<longrightarrow> same_cached_target (te_game e) (te_game x)"
      by (auto simp only: scan_entries_step if_False split: option.splits if_splits)
    from Cons.IH[OF tail] have e: "same_cached_target (te_game e) (te_game m)" by simp
    have "same_cached_target (te_game x) (te_game m)" if "match = Some x" for x
      using link that e same_cached_target_sym_trans by blast
    with Cons.IH[OF tail] e show ?thesis by simp
  qed
qed

lemma scan_entries_complete:
  assumes "0 < tile" "\<forall>e\<in>set es. te_tile_id e = tile \<longrightarrow> same_cached_target game (te_game e)"
    and "\<forall>x. match = Some x \<longrightarrow> same_cached_target game (te_game x)"
  shows "\<exists>m. scan_entries tile match es = Inr m \<and> (\<forall>x. m = Some x \<longrightarrow> same_cached_target game (te_game x)) \<and>
    (m = None \<longrightarrow> match = None \<and> (\<forall>e\<in>set es. te_tile_id e \<noteq> tile))"
  using assms(2,3)
proof (induction es arbitrary: match)
  case Nil
  then show ?case by auto
next
  case (Cons e es)
  show ?case
  proof (cases "te_tile_id e = tile")
    case False
    with Cons.IH[of match] Cons.prems assms(1) show ?thesis by auto
  next
    case True
    then have e: "same_cached_target game (te_game e)" using Cons.prems by simp
    have "scan_entries tile match (e # es) = scan_entries tile (Some e) es"
    proof (cases match)
      case None
      then show ?thesis using True by simp
    next
      case (Some x)
      then have "same_cached_target (te_game e) (te_game x)"
        using Cons.prems(2) e same_cached_target_sym_trans by blast
      then show ?thesis using True Some by (simp only: scan_entries_step) simp
    qed
    with Cons.IH[of "Some e"] Cons.prems e show ?thesis by auto
  qed
qed

lemma scan_targets_sound:
  "scan_targets game target apps = Inr (Some t) \<Longrightarrow>
    (\<forall>x. target = Some x \<longrightarrow> x = t \<and> filter (same_cached_target game) apps = []) \<and>
    (target = None \<longrightarrow> filter (same_cached_target game) apps = [t] \<and> \<not> app_monitor_profile t)"
  by (induction game target apps rule: scan_targets.induct) (auto split: if_splits)

lemma scan_targets_unique:
  "filter (same_cached_target game) apps = [t] \<Longrightarrow> \<not> app_monitor_profile t \<Longrightarrow>
    scan_targets game None apps = Inr (Some t)"
proof (induction apps)
  case Nil
  then show ?case by simp
next
  case (Cons a as)
  have skip: "filter (same_cached_target game) xs = [] \<Longrightarrow> scan_targets game target xs = Inr target" for xs target
    by (induction xs) (auto split: if_splits)
  show ?case using Cons skip by (auto split: if_splits)
qed

lemma cached_resolve_cases:
  assumes "cached_resolve client tile uuid configured s = \<lparr>cg_status = Cached_resolved, cg_app = Some target\<rparr>"
  obtains es m where "map_of s client = Some es" "scan_entries tile None es = Inr (Some m)"
    "scan_targets (te_game m) None configured = Inr (Some target)"
    "\<not> (tile > 0 \<and> configured_identity tile configured)" "client \<noteq> ''''"
  using assms
  by (auto simp: cached_resolve_def cached_nothing_def cached_unavailable_def
      split: if_splits option.splits sum.splits)

text \<open>A cached tile resolves only to what the client was shown: in every state reached by
  remembering tiles, a client holds at most 1024 entries, and a request that resolves names the
  one configured row, not a Remote Monitor profile, that matches an entry remembered for this
  client under this tile; every other entry of the tile has that same target, and the tile's
  number is no configured identity. (remote_session.cpp, cached_game_tiles_t)\<close>

theorem cached_resolution_sound:
  assumes "tiles_step\<^sup>*\<^sup>* [] s"
    and "cached_resolve client tile uuid configured s = \<lparr>cg_status = Cached_resolved, cg_app = Some target\<rparr>"
  shows "\<exists>es m. map_of s client = Some es \<and> length es \<le> 1024 \<and> m \<in> set es \<and>
    (tile > 0 \<longrightarrow> te_tile_id m = tile \<and> \<not> configured_identity tile configured) \<and>
    (\<forall>e\<in>set es. (tile > 0 \<longrightarrow> te_tile_id e = tile) \<longrightarrow> same_cached_target (te_game e) target) \<and>
    filter (same_cached_target (te_game m)) configured = [target] \<and> \<not> app_monitor_profile target"
proof -
  obtain es m where r: "map_of s client = Some es" "scan_entries tile None es = Inr (Some m)"
    "scan_targets (te_game m) None configured = Inr (Some target)"
    "\<not> (tile > 0 \<and> configured_identity tile configured)"
    using cached_resolve_cases[OF assms(2)] by metis
  have "tiles_ok s" using tiles.reach_inv assms(1) by blast
  then have len: "length es \<le> 1024" using r(1) by (auto simp: tiles_ok_def max_tiles_per_client_def)
  have m: "m \<in> set es" "tile > 0 \<longrightarrow> te_tile_id m = tile" using scan_entries_sound[OF r(2)] by auto
  have t: "filter (same_cached_target (te_game m)) configured = [target]" "\<not> app_monitor_profile target"
    using scan_targets_sound[OF r(3)] by auto
  then have "same_cached_target (te_game m) target"
    by (metis filter_eq_Cons_iff)
  then have "\<forall>e\<in>set es. (tile > 0 \<longrightarrow> te_tile_id e = tile) \<longrightarrow> same_cached_target (te_game e) target"
    using scan_entries_agree[OF r(2)] same_cached_target_sym_trans by blast
  then show ?thesis using r len m t by blast
qed

definition demo_tiles :: cached_game_tiles_t where
  "demo_tiles = cached_remember ''phone'' 1073741900 (hd demo_apps) []"

lemma demo_tiles_eq: "demo_tiles = [(''phone'', [\<lparr>te_tile_id = 1073741900, te_game = hd demo_apps\<rparr>])]"
  by (simp add: demo_tiles_def cached_remember_def identify_numeric_none fixed_ids_def control_identities_def
      control_id_defs demo_apps_def default_app_def max_tiles_per_client_def remember_entry_def)

lemma demo_tiles_resolve:
  "cached_resolve ''phone'' 0 (synthetic_uuid Control_running_game) demo_apps demo_tiles
     = \<lparr>cg_status = Cached_resolved, cg_app = Some (hd demo_apps)\<rparr>"
proof -
  have "synthetic_uuid Control_running_game \<noteq> ''''" by (simp add: synthetic_uuid_def control_suffix_def)
  then show ?thesis
    by (simp add: cached_resolve_def demo_tiles_eq demo_apps_def same_cached_target_def default_app_def)
qed

theorem cached_resolution_sound_witness:
  "\<exists>es m. map_of demo_tiles ''phone'' = Some es \<and> length es \<le> 1024 \<and> m \<in> set es \<and>
    filter (same_cached_target (te_game m)) demo_apps = [hd demo_apps]"
proof -
  have reach: "tiles_step\<^sup>*\<^sup>* [] demo_tiles"
    unfolding demo_tiles_def by (rule r_into_rtranclp) (rule tiles_remember)
  show ?thesis using cached_resolution_sound[OF reach demo_tiles_resolve] by blast
qed

text \<open>A remembered tile is found again: once a tile is remembered for a client that has no
  entry with another target under that number, a numeric request for it resolves to the configured
  row the game identifies, as long as that row is unique, is no Remote Monitor profile and the
  number was not given to a configured row since. (remote_session.cpp, cached_game_tiles_t)\<close>

theorem cached_remember_resolve:
  assumes "client \<noteq> ''''" "0 < tile" "identify tile '''' = Control_none" "0 < app_id game"
    and fresh: "\<forall>es. map_of s client = Some es \<longrightarrow> (\<forall>e\<in>set es. te_tile_id e = tile \<longrightarrow> same_cached_target game (te_game e))"
    and "filter (same_cached_target game) configured = [target]" "\<not> app_monitor_profile target"
    and "\<not> configured_identity tile configured"
  shows "cached_resolve client tile '''' configured (cached_remember client tile game s)
    = \<lparr>cg_status = Cached_resolved, cg_app = Some target\<rparr>"
proof -
  define es where "es = (case map_of s client of None \<Rightarrow> [] | Some es \<Rightarrow> es)"
  let ?new = "remember_entry tile game es"
  have eq: "cached_remember client tile game s = AList.update client ?new s"
    using assms(1-4) by (simp add: cached_remember_def es_def Let_def)
  have "\<forall>e\<in>set es. te_tile_id e = tile \<longrightarrow> same_cached_target game (te_game e)"
    using fresh by (cases "map_of s client") (auto simp: es_def)
  then have new: "\<forall>e\<in>set ?new. te_tile_id e = tile \<longrightarrow> same_cached_target game (te_game e)"
    by (auto dest!: remember_entry_mem simp: same_cached_target_def)
  from scan_entries_complete[OF assms(2) new, of None] remember_entry_hit[of tile game es]
  obtain m where m: "scan_entries tile None ?new = Inr (Some m)" "same_cached_target game (te_game m)" by auto
  have "same_cached_target (te_game m) = same_cached_target game"
    using m(2) same_cached_target_sym_trans by blast
  then have "scan_targets (te_game m) None configured = Inr (Some target)"
    using scan_targets_unique[of "te_game m"] assms(6,7) by simp
  then show ?thesis using assms(1-4,8) m(1) by (simp add: cached_resolve_def eq)
qed

theorem cached_remember_resolve_witness:
  "cached_resolve ''phone'' 1073741900 '''' demo_apps (cached_remember ''phone'' 1073741900 (hd demo_apps) [])
    = \<lparr>cg_status = Cached_resolved, cg_app = Some (hd demo_apps)\<rparr>"
  by (rule cached_remember_resolve)
    (simp_all add: identify_numeric_none fixed_ids_def control_identities_def control_id_defs demo_apps_def
      default_app_def same_cached_target_def configured_identity_def to_string_int_def dec_digits.simps
      digit_char_def char_of_def)

end
