(* ===== verification/Target_Lease.thy ===== *)
theory Target_Lease
  imports Vibe_Prelude
begin

text \<open>
  The registry of exact-target leases (\<^verbatim>\<open>src/src/display_target_lease.h\<close>, class
  \<^verbatim>\<open>registry_t\<close>). A lease holds an existing output for capture; while a hold object
  is alive no display mutation may begin, and while a mutation is in flight no lease is admitted.
  The holds are reference counted (\<^verbatim>\<open>std::shared_ptr<hold_t>\<close>), so the model keeps an
  explicit heap of hold objects with their use counts; \<^verbatim>\<open>borrowers\<close> is the atomic counter
  that the constructor and destructor of \<^verbatim>\<open>hold_t\<close> maintain. \<^verbatim>\<open>acquire\<close> drops the
  registry mutex around the native probe, so it is two atomic steps here, between which every
  other operation may run.
\<close>

section \<open>Data\<close>

datatype platform_e = Linux_drm | Windows_device
datatype kind_e = Physical | Shared_virtual

record descriptor_t =
  d_platform :: platform_e
  d_kind :: kind_e
  d_exact_id :: string

record tmode_t =
  tm_width :: int
  tm_height :: int
  tm_refresh_millihz :: nat
  tm_hdr :: bool

record observation_t =
  o_target :: descriptor_t
  o_mode :: tmode_t
  o_capture_output :: string
  o_runtime_hold :: "nat option"

record hold_t =
  h_target :: descriptor_t
  h_mode :: tmode_t
  h_output :: string
  h_runtime_hold :: "nat option"

record lease_owner_t =
  lo_generation :: nat
  lo_hold :: nat

text \<open>\<open>r_holds\<close> is the heap of live hold objects with their use counts and
  \<open>r_next\<close> the next fresh address; the other fields are those of
  \<^verbatim>\<open>barrier_t\<close> and \<^verbatim>\<open>registry_t\<close>.\<close>

record registry_t =
  r_borrowers :: nat
  r_mutations :: nat
  r_uncertain :: bool
  r_permanent_fence :: bool
  r_mutation_owner :: "nat option"
  r_owners :: "(uuid, lease_owner_t) umap"
  r_observed :: "(uuid, nat) umap"
  r_released :: "(uuid, nat) umap"
  r_closed :: bool
  r_holds :: "(nat, hold_t \<times> nat) umap"
  r_next :: nat

record lease_result_t =
  lr_hold :: "nat option"
  lr_target :: "descriptor_t option"
  lr_output :: string
  lr_error :: string

definition registry_init :: registry_t where
  "registry_init = \<lparr>r_borrowers = 0, r_mutations = 0, r_uncertain = False,
     r_permanent_fence = False, r_mutation_owner = None, r_owners = [], r_observed = [],
     r_released = [], r_closed = False, r_holds = [], r_next = 0\<rparr>"

definition empty_hold :: hold_t where
  "empty_hold = \<lparr>h_target = \<lparr>d_platform = Linux_drm, d_kind = Physical, d_exact_id = ''''\<rparr>,
     h_mode = \<lparr>tm_width = 0, tm_height = 0, tm_refresh_millihz = 0, tm_hdr = False\<rparr>,
     h_output = '''', h_runtime_hold = None\<rparr>"

section \<open>Reference counting\<close>

text \<open>\<^verbatim>\<open>std::make_shared<hold_t>(barrier_)\<close>: a fresh object with one reference; its
  constructor increments \<^verbatim>\<open>borrowers\<close>.\<close>

definition new_hold :: "registry_t \<Rightarrow> nat \<times> registry_t" where
  "new_hold r = (r_next r,
     r\<lparr>r_holds := AList.update (r_next r) (empty_hold, 1) (r_holds r),
       r_next := Suc (r_next r), r_borrowers := Suc (r_borrowers r)\<rparr>)"

text \<open>Copying a \<^verbatim>\<open>shared_ptr\<close>.\<close>

definition share_hold :: "nat \<Rightarrow> registry_t \<Rightarrow> registry_t" where
  "share_hold h r = (case map_of (r_holds r) h of
      None \<Rightarrow> r
    | Some (obj, n) \<Rightarrow> r\<lparr>r_holds := AList.update h (obj, Suc n) (r_holds r)\<rparr>)"

text \<open>Dropping a \<^verbatim>\<open>shared_ptr\<close>: the last one runs the destructor
  \<^verbatim>\<open>~hold_t\<close>, which decrements \<^verbatim>\<open>borrowers\<close>.\<close>

definition drop_hold :: "nat \<Rightarrow> registry_t \<Rightarrow> registry_t" where
  "drop_hold h r = (case map_of (r_holds r) h of
      None \<Rightarrow> r
    | Some (obj, n) \<Rightarrow>
        if n \<le> 1
        then r\<lparr>r_holds := AList.delete h (r_holds r), r_borrowers := r_borrowers r - 1\<rparr>
        else r\<lparr>r_holds := AList.update h (obj, n - 1) (r_holds r)\<rparr>)"

fun drop_holds :: "nat list \<Rightarrow> registry_t \<Rightarrow> registry_t" where
  "drop_holds [] r = r"
| "drop_holds (h # hs) r = drop_holds hs (drop_hold h r)"

section \<open>The mutation gate\<close>

definition protected_output :: "registry_t \<Rightarrow> bool" where
  "protected_output r \<longleftrightarrow> r_permanent_fence r \<or> r_uncertain r \<or> r_borrowers r \<noteq> 0"

definition begin_mutation :: "nat \<Rightarrow> registry_t \<Rightarrow> registry_t option" where
  "begin_mutation caller r =
     (if r_permanent_fence r \<or> r_uncertain r \<or> r_borrowers r \<noteq> 0 \<or>
         (r_mutations r \<noteq> 0 \<and> r_mutation_owner r \<noteq> Some caller)
      then None
      else Some (r\<lparr>r_mutation_owner := (if r_mutations r = 0 then Some caller else r_mutation_owner r),
                  r_mutations := Suc (r_mutations r)\<rparr>))"

text \<open>The destructor of a held \<^verbatim>\<open>mutation_t\<close>.\<close>

definition end_mutation :: "registry_t \<Rightarrow> registry_t" where
  "end_mutation r =
     (if r_mutations r = 0 then r
      else if r_mutations r = 1 then r\<lparr>r_mutations := 0, r_mutation_owner := None\<rparr>
      else r\<lparr>r_mutations := r_mutations r - 1\<rparr>)"

definition completion_unknown :: "registry_t \<Rightarrow> registry_t" where
  "completion_unknown r = r\<lparr>r_uncertain := True\<rparr>"

definition fence_unknown_release :: "registry_t \<Rightarrow> registry_t" where
  "fence_unknown_release r = r\<lparr>r_permanent_fence := True, r_uncertain := True\<rparr>"

section \<open>Acquisition\<close>

definition lease_error :: "string \<Rightarrow> lease_result_t" where
  "lease_error e = \<lparr>lr_hold = None, lr_target = None, lr_output = '''', lr_error = e\<rparr>"

text \<open>What an \<^verbatim>\<open>acquire\<close> frame keeps while the probe runs: the hold (one reference for
  the locals \<^verbatim>\<open>hold\<close> and \<^verbatim>\<open>previous_hold\<close>, which live and die together) and
  whether it was the retained one.\<close>

record ticket_t =
  k_client :: uuid
  k_generation :: nat
  k_target :: descriptor_t
  k_mode :: tmode_t
  k_hold :: nat
  k_previous :: "nat option"

definition owner_hold_differs :: "registry_t \<Rightarrow> lease_owner_t \<Rightarrow> descriptor_t \<Rightarrow> tmode_t \<Rightarrow> bool" where
  "owner_hold_differs r w target mode = (case map_of (r_holds r) (lo_hold w) of
      None \<Rightarrow> True
    | Some (obj, _) \<Rightarrow> h_target obj \<noteq> target \<or> h_mode obj \<noteq> mode)"

definition acquire_begin ::
  "uuid \<Rightarrow> nat \<Rightarrow> descriptor_t \<Rightarrow> tmode_t \<Rightarrow> registry_t \<Rightarrow> (lease_result_t + ticket_t) \<times> registry_t" where
  "acquire_begin client generation target mode r =
    (if r_closed r then (Inl (lease_error ''Target lease admission has shut down.''), r)
     else if client = [] \<or> generation = 0 \<or> d_exact_id target = [] \<or> tm_width mode \<le> 0 \<or>
             tm_height mode \<le> 0 \<or> tm_refresh_millihz mode = 0
     then (Inl (lease_error ''Invalid exact target lease identity or mode.''), r)
     else if generation < umap_count (r_observed r) client \<or>
        (umap_contains (r_released r) client \<and> generation \<le> umap_count (r_released r) client)
     then (Inl (lease_error ''Stale exact target lease generation.''),
           r\<lparr>r_observed := umap_index (r_observed r) client\<rparr>)
     else let r2 = r\<lparr>r_observed := AList.update client generation (r_observed r)\<rparr>;
              existing = map_of (r_owners r) client in
     if (case existing of None \<Rightarrow> False | Some w \<Rightarrow> owner_hold_differs r2 w target mode)
     then (Inl (lease_error ''Disconnect Monitor before changing the retained exact target or mode.''), r2)
     else if r_permanent_fence r2 \<or> r_mutations r2 \<noteq> 0 \<or> r_uncertain r2
     then (Inl (lease_error ''Display mutation is in flight or its completion is unconfirmed.''), r2)
     else (case existing of
        None \<Rightarrow> (let (h, r3) = new_hold r2 in
          (Inr \<lparr>k_client = client, k_generation = generation, k_target = target, k_mode = mode,
                 k_hold = h, k_previous = None\<rparr>, r3))
      | Some w \<Rightarrow>
          (Inr \<lparr>k_client = client, k_generation = generation, k_target = target, k_mode = mode,
                 k_hold = lo_hold w, k_previous = Some (lo_hold w)\<rparr>, share_hold (lo_hold w) r2)))"

definition hold_output :: "registry_t \<Rightarrow> nat \<Rightarrow> string" where
  "hold_output r h = (case map_of (r_holds r) h of None \<Rightarrow> '''' | Some (obj, _) \<Rightarrow> h_output obj)"

definition fill_hold :: "nat \<Rightarrow> descriptor_t \<Rightarrow> tmode_t \<Rightarrow> observation_t \<Rightarrow> registry_t \<Rightarrow> registry_t" where
  "fill_hold h target mode obs r = (case map_of (r_holds r) h of
      None \<Rightarrow> r
    | Some (obj, n) \<Rightarrow> r\<lparr>r_holds := AList.update h
        (\<lparr>h_target = target, h_mode = mode, h_output = o_capture_output obs,
          h_runtime_hold = o_runtime_hold obs\<rparr>, n) (r_holds r)\<rparr>)"

text \<open>\<^verbatim>\<open>owners_.insert_or_assign(client, owner_t {generation, hold})\<close>: the new entry takes a
  reference, a replaced entry gives its reference back.\<close>

definition assign_owner :: "uuid \<Rightarrow> nat \<Rightarrow> nat \<Rightarrow> registry_t \<Rightarrow> registry_t" where
  "assign_owner client generation h r =
     (let r' = share_hold h r;
          old = map_of (r_owners r') client;
          r'' = r'\<lparr>r_owners := AList.update client \<lparr>lo_generation = generation, lo_hold = h\<rparr> (r_owners r')\<rparr>
      in case old of None \<Rightarrow> r'' | Some w \<Rightarrow> drop_hold (lo_hold w) r'')"

definition acquire_finish :: "ticket_t \<Rightarrow> observation_t option \<Rightarrow> registry_t \<Rightarrow> lease_result_t \<times> registry_t" where
  "acquire_finish k observed r =
    (let client = k_client k; generation = k_generation k; h = k_hold k;
         current = map_of (r_owners r) client in
     if r_permanent_fence r \<or> r_uncertain r \<or> r_closed r \<or>
        umap_count (r_observed r) client \<noteq> generation \<or>
        (umap_contains (r_released r) client \<and> generation \<le> umap_count (r_released r) client) \<or>
        (case current of None \<Rightarrow> False | Some w \<Rightarrow> Some (lo_hold w) \<noteq> k_previous k)
     then (lease_error ''Target admission was revoked or superseded during observation.'', drop_hold h r)
     else case observed of
       None \<Rightarrow> (lease_error ''The exact target is missing, renamed, inactive, or unavailable for capture.'', drop_hold h r)
     | Some obs \<Rightarrow>
       if o_target obs \<noteq> k_target k \<or> o_capture_output obs = []
       then (lease_error ''The exact target is missing, renamed, inactive, or unavailable for capture.'', drop_hold h r)
       else if o_mode obs \<noteq> k_mode k
       then (lease_error ''The existing target resolution, refresh, or HDR differs from the request; borrowing cannot change it.'', drop_hold h r)
       else if k_previous k \<noteq> None \<and> hold_output r h \<noteq> o_capture_output obs
       then (lease_error ''The retained exact target capture identity changed.'', drop_hold h r)
       else let r2 = (if k_previous k = None then fill_hold h (k_target k) (k_mode k) obs r else r);
                r3 = assign_owner client generation h r2
            in (\<lparr>lr_hold = Some h, lr_target = Some (k_target k), lr_output = hold_output r3 h,
                 lr_error = ''''\<rparr>, r3))"

text \<open>\<open>acquire_begin\<close> stored the client's observed generation and nothing erases it, so the
  subscript \<^verbatim>\<open>observed_[client]\<close> creates no entry here.
  The success path hands the frame's own reference to the returned token, so it drops
  none; every refusal drops it.\<close>

section \<open>Observation and release\<close>

definition revalidate :: "registry_t \<Rightarrow> nat option \<Rightarrow> observation_t option \<Rightarrow> bool" where
  "revalidate r token observed = (case token of
      None \<Rightarrow> False
    | Some h \<Rightarrow> (case (map_of (r_holds r) h, observed) of
        (Some (obj, _), Some obs) \<Rightarrow>
          o_target obs = h_target obj \<and> o_mode obs = h_mode obj \<and> o_capture_output obs = h_output obj
      | _ \<Rightarrow> False))"

definition lease_snapshot :: "uuid \<Rightarrow> nat \<Rightarrow> registry_t \<Rightarrow> lease_result_t option \<times> registry_t" where
  "lease_snapshot client generation r = (case map_of (r_owners r) client of
      None \<Rightarrow> (None, r)
    | Some w \<Rightarrow>
        if lo_generation w \<noteq> generation then (None, r)
        else (case map_of (r_holds r) (lo_hold w) of
            None \<Rightarrow> (None, r)
          | Some (obj, _) \<Rightarrow>
              (Some \<lparr>lr_hold = Some (lo_hold w), lr_target = Some (h_target obj),
                     lr_output = h_output obj, lr_error = ''''\<rparr>, share_hold (lo_hold w) r)))"

definition lease_release :: "uuid \<Rightarrow> nat \<Rightarrow> registry_t \<Rightarrow> bool option \<times> registry_t" where
  "lease_release client generation r = (case map_of (r_owners r) client of
      None \<Rightarrow>
        (if umap_contains (r_released r) client \<and> generation \<le> umap_count (r_released r) client
         then (Some True, r) else (None, r))
    | Some w \<Rightarrow>
        if generation \<noteq> lo_generation w then (Some True, r)
        else (Some True, drop_hold (lo_hold w)
               (r\<lparr>r_released := AList.update client generation (r_released r),
                  r_owners := AList.delete client (r_owners r)\<rparr>)))"

definition lease_revoke :: "uuid \<Rightarrow> registry_t \<Rightarrow> registry_t" where
  "lease_revoke client r =
     (let g0 = umap_count (r_released r) client;
          ob = umap_count (r_observed r) client;
          r1 = r\<lparr>r_observed := umap_index (r_observed r) client\<rparr>;
          g1 = (if g0 < ob then ob else g0)
      in case map_of (r_owners r1) client of
          None \<Rightarrow> r1\<lparr>r_released := AList.update client g1 (r_released r1)\<rparr>
        | Some w \<Rightarrow>
            (let g2 = (if g1 < lo_generation w then lo_generation w else g1)
             in drop_hold (lo_hold w)
                  (r1\<lparr>r_released := AList.update client g2 (r_released r1),
                      r_owners := AList.delete client (r_owners r1)\<rparr>)))"

fun mark_released :: "(uuid, lease_owner_t) umap \<Rightarrow> (uuid, nat) umap \<Rightarrow> (uuid, nat) umap" where
  "mark_released [] m = m"
| "mark_released ((client, w) # ws) m = mark_released ws (AList.update client (lo_generation w) m)"

definition lease_shutdown :: "registry_t \<Rightarrow> registry_t" where
  "lease_shutdown r = drop_holds (map (\<lambda>e. lo_hold (snd e)) (r_owners r))
     (r\<lparr>r_closed := True, r_released := mark_released (r_owners r) (r_released r), r_owners := []\<rparr>)"

section \<open>The registry and its users\<close>

text \<open>The tokens that sessions keep, the \<^verbatim>\<open>acquire\<close> frames waiting for their probe, and
  the threads that hold a mutation token.\<close>

record lease_sys =
  ls_reg :: registry_t
  ls_tokens :: "nat list"
  ls_tickets :: "ticket_t list"
  ls_mutators :: "nat list"

definition lease_sys_init :: "lease_sys \<Rightarrow> bool" where
  "lease_sys_init s \<longleftrightarrow>
     s = \<lparr>ls_reg = registry_init, ls_tokens = [], ls_tickets = [], ls_mutators = []\<rparr>"

definition keep_token :: "nat option \<Rightarrow> nat list \<Rightarrow> nat list" where
  "keep_token h ts = (case h of None \<Rightarrow> ts | Some h \<Rightarrow> h # ts)"

inductive lease_step :: "lease_sys \<Rightarrow> lease_sys \<Rightarrow> bool" where
  acq_refused: "acquire_begin c g tgt m (ls_reg s) = (Inl e, r') \<Longrightarrow>
     lease_step s (s\<lparr>ls_reg := r'\<rparr>)"
| acq_begun: "acquire_begin c g tgt m (ls_reg s) = (Inr k, r') \<Longrightarrow>
     lease_step s (s\<lparr>ls_reg := r', ls_tickets := k # ls_tickets s\<rparr>)"
| acq_finished: "k \<in> set (ls_tickets s) \<Longrightarrow> acquire_finish k obs (ls_reg s) = (res, r') \<Longrightarrow>
     lease_step s (s\<lparr>ls_reg := r', ls_tickets := remove1 k (ls_tickets s),
                     ls_tokens := keep_token (lr_hold res) (ls_tokens s)\<rparr>)"
| snapshot: "lease_snapshot c g (ls_reg s) = (res, r') \<Longrightarrow>
     lease_step s (s\<lparr>ls_reg := r',
                     ls_tokens := keep_token (Option.bind res lr_hold) (ls_tokens s)\<rparr>)"
| drop_token: "h \<in> set (ls_tokens s) \<Longrightarrow>
     lease_step s (s\<lparr>ls_reg := drop_hold h (ls_reg s), ls_tokens := remove1 h (ls_tokens s)\<rparr>)"
| release: "lease_release c g (ls_reg s) = (b, r') \<Longrightarrow> lease_step s (s\<lparr>ls_reg := r'\<rparr>)"
| revoke: "lease_step s (s\<lparr>ls_reg := lease_revoke c (ls_reg s)\<rparr>)"
| shutdown: "lease_step s (s\<lparr>ls_reg := lease_shutdown (ls_reg s)\<rparr>)"
| mut_begin: "begin_mutation t (ls_reg s) = Some r' \<Longrightarrow>
     lease_step s (s\<lparr>ls_reg := r', ls_mutators := t # ls_mutators s\<rparr>)"
| mut_end: "t \<in> set (ls_mutators s) \<Longrightarrow>
     lease_step s (s\<lparr>ls_reg := end_mutation (ls_reg s), ls_mutators := remove1 t (ls_mutators s)\<rparr>)"
| mut_unknown: "t \<in> set (ls_mutators s) \<Longrightarrow>
     lease_step s (s\<lparr>ls_reg := completion_unknown (ls_reg s)\<rparr>)"
| fence: "lease_step s (s\<lparr>ls_reg := fence_unknown_release (ls_reg s)\<rparr>)"

definition use_count :: "registry_t \<Rightarrow> nat \<Rightarrow> nat" where
  "use_count r h = (case map_of (r_holds r) h of None \<Rightarrow> 0 | Some (_, n) \<Rightarrow> n)"

definition owner_refs :: "(uuid, lease_owner_t) umap \<Rightarrow> nat \<Rightarrow> nat" where
  "owner_refs ws h = count_list (map (\<lambda>e. lo_hold (snd e)) ws) h"

definition heap_ok :: "registry_t \<Rightarrow> bool" where
  "heap_ok r \<longleftrightarrow> umap_ok (r_holds r) \<and> r_borrowers r = length (r_holds r) \<and>
     (\<forall>h obj n. map_of (r_holds r) h = Some (obj, n) \<longrightarrow> h < r_next r \<and> 0 < n)"

text \<open>Every reference is counted; mutations and live holds exclude each other; a published
  owner is newer than every released generation of its client and not newer than the observed
  one; a frame that waits for its probe either owns its fresh hold alone or shares the retained
  one, whose target and mode are the requested ones.\<close>

definition refs_ok :: "lease_sys \<Rightarrow> bool" where
  "refs_ok s \<longleftrightarrow> heap_ok (ls_reg s) \<and> umap_ok (r_owners (ls_reg s)) \<and>
     (\<forall>h. use_count (ls_reg s) h = owner_refs (r_owners (ls_reg s)) h
            + count_list (ls_tokens s) h + count_list (map k_hold (ls_tickets s)) h)"

definition mut_ok :: "lease_sys \<Rightarrow> bool" where
  "mut_ok s \<longleftrightarrow> r_mutations (ls_reg s) = length (ls_mutators s) \<and>
     (\<forall>t \<in> set (ls_mutators s). r_mutation_owner (ls_reg s) = Some t) \<and>
     (r_mutations (ls_reg s) = 0 \<longrightarrow> r_mutation_owner (ls_reg s) = None) \<and>
     (r_mutations (ls_reg s) \<noteq> 0 \<longrightarrow> r_holds (ls_reg s) = [])"

definition gen_ok :: "registry_t \<Rightarrow> bool" where
  "gen_ok r \<longleftrightarrow> (\<forall>c w. map_of (r_owners r) c = Some w \<longrightarrow>
     lo_generation w \<le> umap_count (r_observed r) c \<and> umap_count (r_released r) c < lo_generation w)"

definition ticket_ok :: "registry_t \<Rightarrow> nat list \<Rightarrow> ticket_t list \<Rightarrow> ticket_t \<Rightarrow> bool" where
  "ticket_ok r ts ks k \<longleftrightarrow> 0 < k_generation k \<and>
     (k_previous k = None \<longrightarrow> k_hold k \<notin> set ts \<and> count_list (map k_hold ks) (k_hold k) = 1 \<and>
        (\<forall>c w. map_of (r_owners r) c = Some w \<longrightarrow> lo_hold w \<noteq> k_hold k)) \<and>
     (k_previous k \<noteq> None \<longrightarrow> k_previous k = Some (k_hold k) \<and>
        (\<forall>obj n. map_of (r_holds r) (k_hold k) = Some (obj, n) \<longrightarrow>
           h_target obj = k_target k \<and> h_mode obj = k_mode k))"

definition tick_ok :: "lease_sys \<Rightarrow> bool" where
  "tick_ok s \<longleftrightarrow> (\<forall>k \<in> set (ls_tickets s). ticket_ok (ls_reg s) (ls_tokens s) (ls_tickets s) k)"

definition lease_inv :: "lease_sys \<Rightarrow> bool" where
  "lease_inv s \<longleftrightarrow> refs_ok s \<and> mut_ok s \<and> gen_ok (ls_reg s) \<and> tick_ok s"

section \<open>Reference-count lemmas\<close>

lemma heap_okD: "heap_ok r \<Longrightarrow> map_of (r_holds r) h = Some (obj, n) \<Longrightarrow> h < r_next r \<and> 0 < n"
  by (auto simp: heap_ok_def)

lemma use_count_pos: "heap_ok r \<Longrightarrow> 0 < use_count r h \<longleftrightarrow> umap_contains (r_holds r) h"
  by (auto simp: use_count_def heap_ok_def split: option.splits)

lemma use_count_new [simp]:
  "heap_ok r \<Longrightarrow> use_count (snd (new_hold r)) j = use_count r j + (if j = r_next r then 1 else 0)"
  by (auto simp: use_count_def new_hold_def dest: heap_okD split: option.splits)

lemma use_count_share:
  "umap_contains (r_holds r) h \<Longrightarrow> use_count (share_hold h r) j = use_count r j + (if j = h then 1 else 0)"
  by (auto simp: use_count_def share_hold_def split: option.splits)

lemma use_count_drop:
  "heap_ok r \<Longrightarrow> use_count (drop_hold h r) j = use_count r j - (if j = h then 1 else 0)"
  by (auto simp: use_count_def drop_hold_def split: option.splits dest: heap_okD)

lemma use_count_fill [simp]: "use_count (fill_hold h t m obs r) j = use_count r j"
  by (auto simp: use_count_def fill_hold_def split: option.splits)

lemma heap_ok_new: "heap_ok r \<Longrightarrow> heap_ok (snd (new_hold r))"
proof -
  assume ok: "heap_ok r"
  then have "map_of (r_holds r) (r_next r) = None"
    by (cases "map_of (r_holds r) (r_next r)") (auto dest: heap_okD)
  with ok show ?thesis
    by (auto simp: heap_ok_def new_hold_def length_update_new less_Suc_eq)
qed

lemma heap_ok_share: "heap_ok r \<Longrightarrow> heap_ok (share_hold h r)"
  by (auto simp: heap_ok_def share_hold_def length_update_old split: option.splits)

lemma heap_ok_drop: "heap_ok r \<Longrightarrow> heap_ok (drop_hold h r)"
  by (auto simp: heap_ok_def drop_hold_def length_update_old split: option.splits
      dest: length_delete_mem)

lemma heap_ok_fill: "heap_ok r \<Longrightarrow> heap_ok (fill_hold h t m obs r)"
  by (auto simp: heap_ok_def fill_hold_def length_update_old split: option.splits)

text \<open>What the reference operations leave alone.\<close>

lemma share_hold_frame [simp]:
  "r_owners (share_hold h r) = r_owners r" "r_observed (share_hold h r) = r_observed r"
  "r_released (share_hold h r) = r_released r" "r_closed (share_hold h r) = r_closed r"
  "r_mutations (share_hold h r) = r_mutations r" "r_uncertain (share_hold h r) = r_uncertain r"
  "r_permanent_fence (share_hold h r) = r_permanent_fence r"
  "r_mutation_owner (share_hold h r) = r_mutation_owner r"
  "r_borrowers (share_hold h r) = r_borrowers r"
  by (auto simp: share_hold_def split: option.splits)

lemma drop_hold_frame [simp]:
  "r_owners (drop_hold h r) = r_owners r" "r_observed (drop_hold h r) = r_observed r"
  "r_released (drop_hold h r) = r_released r" "r_closed (drop_hold h r) = r_closed r"
  "r_mutations (drop_hold h r) = r_mutations r" "r_uncertain (drop_hold h r) = r_uncertain r"
  "r_permanent_fence (drop_hold h r) = r_permanent_fence r"
  "r_mutation_owner (drop_hold h r) = r_mutation_owner r"
  by (auto simp: drop_hold_def split: option.splits)

lemma fill_hold_frame [simp]:
  "r_owners (fill_hold h t m obs r) = r_owners r" "r_observed (fill_hold h t m obs r) = r_observed r"
  "r_released (fill_hold h t m obs r) = r_released r" "r_closed (fill_hold h t m obs r) = r_closed r"
  "r_mutations (fill_hold h t m obs r) = r_mutations r"
  "r_uncertain (fill_hold h t m obs r) = r_uncertain r"
  "r_permanent_fence (fill_hold h t m obs r) = r_permanent_fence r"
  "r_mutation_owner (fill_hold h t m obs r) = r_mutation_owner r"
  by (auto simp: fill_hold_def split: option.splits)

lemma drop_holds_frame [simp]:
  "r_owners (drop_holds hs r) = r_owners r" "r_observed (drop_holds hs r) = r_observed r"
  "r_released (drop_holds hs r) = r_released r" "r_closed (drop_holds hs r) = r_closed r"
  "r_mutations (drop_holds hs r) = r_mutations r" "r_uncertain (drop_holds hs r) = r_uncertain r"
  "r_permanent_fence (drop_holds hs r) = r_permanent_fence r"
  "r_mutation_owner (drop_holds hs r) = r_mutation_owner r"
  by (induction hs arbitrary: r) simp_all

lemma heap_ok_drops: "heap_ok r \<Longrightarrow> heap_ok (drop_holds hs r)"
  by (induction hs arbitrary: r) (auto intro: heap_ok_drop)

lemma use_count_drops: "heap_ok r \<Longrightarrow> use_count (drop_holds hs r) j = use_count r j - count_list hs j"
  by (induction hs arbitrary: r) (auto simp: use_count_drop heap_ok_drop)

lemma owner_refs_delete:
  assumes "umap_ok ws" "map_of ws c = Some w"
  shows "owner_refs ws h = owner_refs (AList.delete c ws) h + (if lo_hold w = h then 1 else 0)"
  using assms
proof (induction ws)
  case Nil
  then show ?case by simp
next
  case (Cons e ws)
  show ?case
  proof (cases "fst e = c")
    case True
    with Cons.prems have "AList.delete c ws = ws" by (auto simp: delete_idem)
    with True Cons.prems show ?thesis by (cases e) (auto simp: owner_refs_def)
  next
    case False
    with Cons show ?thesis by (cases e) (auto simp: owner_refs_def)
  qed
qed

lemma owner_refs_update_new:
  "map_of ws c = None \<Longrightarrow>
   owner_refs (AList.update c w ws) h = owner_refs ws h + (if lo_hold w = h then 1 else 0)"
  by (induction ws) (auto simp: owner_refs_def)

lemma owner_refs_update_old:
  "map_of ws c = Some v \<Longrightarrow>
   owner_refs (AList.update c w ws) h + (if lo_hold v = h then 1 else 0)
     = owner_refs ws h + (if lo_hold w = h then 1 else 0)"
  by (induction ws) (auto simp: owner_refs_def split: if_splits)

lemma count_list_remove1: "count_list (remove1 x xs) y = count_list xs y - (if x = y then 1 else 0)"
  by (induction xs) auto

lemma count_list_pos: "0 < count_list xs y \<longleftrightarrow> y \<in> set xs"
  by (metis count_list_0_iff gr0I less_numeral_extra(3))

lemma ticket_refs_remove1:
  "k \<in> set ks \<Longrightarrow> count_list (map k_hold ks) h
     = count_list (map k_hold (remove1 k ks)) h + (if k_hold k = h then 1 else 0)"
  by (induction ks) auto

lemma empty_heap_keep:
  "r_holds r = [] \<Longrightarrow> r_holds (share_hold h r) = []"
  "r_holds r = [] \<Longrightarrow> r_holds (drop_hold h r) = []"
  "r_holds r = [] \<Longrightarrow> r_holds (fill_hold h t m obs r) = []"
  "r_holds r = [] \<Longrightarrow> r_holds (drop_holds hs r) = []"
proof -
  show d: "r_holds r = [] \<Longrightarrow> r_holds (drop_hold h r) = []" for r h
    by (simp add: drop_hold_def)
  show "r_holds r = [] \<Longrightarrow> r_holds (drop_holds hs r) = []"
    by (induction hs arbitrary: r) (auto simp: d)
qed (simp_all add: share_hold_def fill_hold_def)

lemma use_count_cong: "r_holds r = r_holds r' \<Longrightarrow> use_count r h = use_count r' h"
  by (simp add: use_count_def)

lemma heap_ok_cong:
  "r_holds r = r_holds r' \<Longrightarrow> r_next r = r_next r' \<Longrightarrow> r_borrowers r = r_borrowers r' \<Longrightarrow>
   heap_ok r = heap_ok r'"
  by (simp add: heap_ok_def)

text \<open>Objects in the heap are written only by \<^const>\<open>fill_hold\<close>.\<close>

lemma heap_obj_share:
  "map_of (r_holds (share_hold h r)) j = Some (obj, n) \<Longrightarrow> \<exists>n'. map_of (r_holds r) j = Some (obj, n')"
  by (auto simp: share_hold_def split: option.splits if_splits)

lemma heap_obj_drop:
  "map_of (r_holds (drop_hold h r)) j = Some (obj, n) \<Longrightarrow> \<exists>n'. map_of (r_holds r) j = Some (obj, n')"
  by (auto simp: drop_hold_def split: option.splits if_splits)

lemma heap_obj_drops:
  "map_of (r_holds (drop_holds hs r)) j = Some (obj, n) \<Longrightarrow> \<exists>n'. map_of (r_holds r) j = Some (obj, n')"
  by (induction hs arbitrary: r n) (simp, metis drop_holds.simps(2) heap_obj_drop)

section \<open>What the two halves of acquire do\<close>

lemma acquire_begin_cases [consumes 1, case_names Refused Fresh Shared]:
  assumes "acquire_begin c g tgt m r = (x, r')"
  obtains e ob where "x = Inl e" "r' = r\<lparr>r_observed := ob\<rparr>" "lr_hold e = None"
      "\<And>j. umap_count (r_observed r) j \<le> umap_count ob j"
  | ob where "0 < g" "r_mutations r = 0" "\<not> r_permanent_fence r" "\<not> r_uncertain r" "\<not> r_closed r"
      "\<And>j. umap_count (r_observed r) j \<le> umap_count ob j"
      "map_of (r_owners r) c = None"
      "x = Inr \<lparr>k_client = c, k_generation = g, k_target = tgt, k_mode = m, k_hold = r_next r, k_previous = None\<rparr>"
      "r' = snd (new_hold (r\<lparr>r_observed := ob\<rparr>))"
  | ob w obj n where "0 < g" "r_mutations r = 0" "\<not> r_permanent_fence r" "\<not> r_uncertain r" "\<not> r_closed r"
      "\<And>j. umap_count (r_observed r) j \<le> umap_count ob j"
      "map_of (r_owners r) c = Some w" "map_of (r_holds r) (lo_hold w) = Some (obj, n)"
      "h_target obj = tgt" "h_mode obj = m"
      "x = Inr \<lparr>k_client = c, k_generation = g, k_target = tgt, k_mode = m,
                 k_hold = lo_hold w, k_previous = Some (lo_hold w)\<rparr>"
      "r' = share_hold (lo_hold w) (r\<lparr>r_observed := ob\<rparr>)"
proof -
  let ?i = "umap_index (r_observed r) c"
  let ?u = "AList.update c g (r_observed r)"
  let ?invalid = "c = [] \<or> g = 0 \<or> d_exact_id tgt = [] \<or> tm_width m \<le> 0 \<or> tm_height m \<le> 0 \<or> tm_refresh_millihz m = 0"
  let ?stale = "g < umap_count (r_observed r) c \<or>
    (umap_contains (r_released r) c \<and> g \<le> umap_count (r_released r) c)"
  let ?r2 = "r\<lparr>r_observed := ?u\<rparr>"
  let ?differs = "case map_of (r_owners r) c of None \<Rightarrow> False | Some w \<Rightarrow> owner_hold_differs ?r2 w tgt m"
  let ?fenced = "r_permanent_fence r \<or> r_mutations r \<noteq> 0 \<or> r_uncertain r"
  note eq = assms[unfolded acquire_begin_def Let_def, simplified]
  show ?thesis
  proof (cases "r_closed r \<or> ?invalid")
    case True
    with eq have "\<exists>e. x = Inl (lease_error e) \<and> r' = r" by (auto split: if_splits)
    then show ?thesis using that(1)[of _ "r_observed r"] by (auto simp: lease_error_def)
  next
    case ok: False
    show ?thesis
    proof (cases ?stale)
      case True
      with eq ok have "\<exists>e. x = Inl (lease_error e) \<and> r' = r\<lparr>r_observed := ?i\<rparr>" by auto
      then show ?thesis using that(1)[of _ ?i] by (auto simp: lease_error_def)
    next
      case fresh: False
      then have le: "umap_count (r_observed r) j \<le> umap_count ?u j" for j by auto
      show ?thesis
      proof (cases "?differs \<or> ?fenced")
        case True
        with eq ok fresh have "\<exists>e. x = Inl (lease_error e) \<and> r' = ?r2" by (auto split: if_split_asm)
        then show ?thesis using that(1)[OF _ _ _ le] by (auto simp: lease_error_def)
      next
        case go: False
        show ?thesis
        proof (cases "map_of (r_owners r) c")
          case None
          with eq ok fresh go show ?thesis
            by (intro that(2)[OF _ _ _ _ _ le]) (auto simp: new_hold_def)
        next
          case (Some w)
          with go obtain obj n where "map_of (r_holds r) (lo_hold w) = Some (obj, n)"
              "h_target obj = tgt" "h_mode obj = m"
            by (auto simp: owner_hold_differs_def split: option.splits)
          with eq ok fresh go Some show ?thesis
            by (intro that(3)[OF _ _ _ _ _ le]) auto
        qed
      qed
    qed
  qed
qed

lemma acquire_finish_cases [consumes 1, case_names Refused Accepted]:
  assumes "acquire_finish k observed r = (res, r')"
  obtains "lr_hold res = None" "r' = drop_hold (k_hold k) r"
  | obs where "observed = Some obs" "\<not> r_permanent_fence r" "\<not> r_uncertain r" "\<not> r_closed r"
      "umap_count (r_observed r) (k_client k) = k_generation k"
      "0 < k_generation k \<Longrightarrow> umap_count (r_released r) (k_client k) < k_generation k"
      "\<And>w. map_of (r_owners r) (k_client k) = Some w \<Longrightarrow> k_previous k = Some (lo_hold w)"
      "o_target obs = k_target k" "o_mode obs = k_mode k" "o_capture_output obs \<noteq> []"
      "k_previous k \<noteq> None \<Longrightarrow> hold_output r (k_hold k) = o_capture_output obs"
      "lr_hold res = Some (k_hold k)" "lr_target res = Some (k_target k)"
      "lr_output res = hold_output r' (k_hold k)"
      "r' = assign_owner (k_client k) (k_generation k) (k_hold k)
              (if k_previous k = None then fill_hold (k_hold k) (k_target k) (k_mode k) obs r else r)"
proof -
  let ?g = "r_permanent_fence r \<or> r_uncertain r \<or> r_closed r \<or>
     umap_count (r_observed r) (k_client k) \<noteq> k_generation k \<or>
     (umap_contains (r_released r) (k_client k) \<and> k_generation k \<le> umap_count (r_released r) (k_client k)) \<or>
     (case map_of (r_owners r) (k_client k) of None \<Rightarrow> False | Some w \<Rightarrow> Some (lo_hold w) \<noteq> k_previous k)"
  note eq = assms[unfolded acquire_finish_def Let_def]
  show ?thesis
  proof (cases "?g \<or> observed = None")
    case True
    then have "\<exists>e. (res, r') = (lease_error e, drop_hold (k_hold k) r)"
      using eq by (cases observed) (auto split: if_split_asm)
    then show ?thesis using that(1) by (auto simp: lease_error_def)
  next
    case False
    then obtain obs where obs: "observed = Some obs" and ng: "\<not> ?g" by auto
    let ?bad = "(o_target obs \<noteq> k_target k \<or> o_capture_output obs = []) \<or> o_mode obs \<noteq> k_mode k \<or>
      (k_previous k \<noteq> None \<and> hold_output r (k_hold k) \<noteq> o_capture_output obs)"
    show ?thesis
    proof (cases ?bad)
      case True
      then have "\<exists>e. (res, r') = (lease_error e, drop_hold (k_hold k) r)"
        using eq unfolding if_not_P[OF ng] obs by (auto split: if_split_asm)
      then show ?thesis using that(1) by (auto simp: lease_error_def)
    next
      case fine: False
      have rel: "umap_count (r_released r) (k_client k) < k_generation k" if "0 < k_generation k"
        using ng that by (cases "map_of (r_released r) (k_client k)") (auto simp: umap_count_def)
      have own: "k_previous k = Some (lo_hold w)" if "map_of (r_owners r) (k_client k) = Some w" for w
        using ng that by simp
      from fine have f: "\<not> (o_target obs \<noteq> k_target k \<or> o_capture_output obs = [])" "\<not> o_mode obs \<noteq> k_mode k"
        "\<not> (k_previous k \<noteq> None \<and> hold_output r (k_hold k) \<noteq> o_capture_output obs)" by auto
      note res = eq[unfolded if_not_P[OF ng] obs option.case if_not_P[OF f(1)] if_not_P[OF f(2)] if_not_P[OF f(3)]]
      show ?thesis
        by (rule that(2)[OF obs _ _ _ _ rel own]) (use ng f res in auto)
    qed
  qed
qed

section \<open>Preservation\<close>

lemma use_count_upd [simp]:
  "use_count (r\<lparr>r_observed := a\<rparr>) h = use_count r h"
  "use_count (r\<lparr>r_released := b\<rparr>) h = use_count r h"
  "use_count (r\<lparr>r_closed := e\<rparr>) h = use_count r h"
  "use_count (r\<lparr>r_owners := d\<rparr>) h = use_count r h"
  by (simp_all add: use_count_def)

lemma heap_ok_upd [simp]:
  "heap_ok (r\<lparr>r_observed := a\<rparr>) = heap_ok r"
  "heap_ok (r\<lparr>r_released := b\<rparr>) = heap_ok r"
  "heap_ok (r\<lparr>r_closed := e\<rparr>) = heap_ok r"
  "heap_ok (r\<lparr>r_owners := d\<rparr>) = heap_ok r"
  by (simp_all add: heap_ok_def)

lemma assign_owner_frame [simp]:
  "r_owners (assign_owner c g h r) = AList.update c \<lparr>lo_generation = g, lo_hold = h\<rparr> (r_owners r)"
  "r_observed (assign_owner c g h r) = r_observed r" "r_released (assign_owner c g h r) = r_released r"
  "r_mutations (assign_owner c g h r) = r_mutations r"
  "r_mutation_owner (assign_owner c g h r) = r_mutation_owner r"
  by (auto simp: assign_owner_def Let_def split: option.splits)

lemma heap_ok_assign: "heap_ok r \<Longrightarrow> heap_ok (assign_owner c g h r)"
  by (auto simp: assign_owner_def Let_def intro!: heap_ok_drop split: option.splits)
     (simp_all add: heap_ok_share)

lemma use_count_assign:
  assumes "heap_ok r" "umap_contains (r_holds r) h"
  shows "use_count (assign_owner c g h r) j = use_count r j + (if j = h then 1 else 0)
     - (case map_of (r_owners r) c of None \<Rightarrow> 0 | Some w \<Rightarrow> if j = lo_hold w then 1 else 0)"
  using assms
  by (simp add: assign_owner_def Let_def use_count_drop heap_ok_share use_count_share split: option.splits)

lemma refs_live_ticket: "refs_ok s \<Longrightarrow> k \<in> set (ls_tickets s) \<Longrightarrow> umap_contains (r_holds (ls_reg s)) (k_hold k)"
proof -
  assume r: "refs_ok s" and k: "k \<in> set (ls_tickets s)"
  then have "0 < count_list (map k_hold (ls_tickets s)) (k_hold k)"
    by (simp add: count_list_pos)
  with r have "0 < use_count (ls_reg s) (k_hold k)" by (auto simp: refs_ok_def)
  with r show ?thesis by (metis refs_ok_def use_count_pos)
qed

lemma refs_live_token: "refs_ok s \<Longrightarrow> h \<in> set (ls_tokens s) \<Longrightarrow> umap_contains (r_holds (ls_reg s)) h"
proof -
  assume r: "refs_ok s" and k: "h \<in> set (ls_tokens s)"
  then have "0 < use_count (ls_reg s) h" by (auto simp: refs_ok_def count_list_pos)
  with r show ?thesis by (metis refs_ok_def use_count_pos)
qed

lemma owner_refs_pos: "map_of ws c = Some w \<Longrightarrow> 0 < owner_refs ws (lo_hold w)"
  by (induction ws) (auto simp: owner_refs_def split: if_splits)

lemma refs_live_owner:
  "refs_ok s \<Longrightarrow> map_of (r_owners (ls_reg s)) c = Some w \<Longrightarrow> umap_contains (r_holds (ls_reg s)) (lo_hold w)"
proof -
  assume r: "refs_ok s" and w: "map_of (r_owners (ls_reg s)) c = Some w"
  from owner_refs_pos[OF w] r have "0 < use_count (ls_reg s) (lo_hold w)" by (simp add: refs_ok_def)
  with r show ?thesis by (metis refs_ok_def use_count_pos)
qed

subsection \<open>Reference accounting\<close>

lemma refs_acq_begin:
  assumes "refs_ok s" "acquire_begin c g tgt m (ls_reg s) = (Inr k, r')"
  shows "refs_ok (s\<lparr>ls_reg := r', ls_tickets := k # ls_tickets s\<rparr>)"
  using assms(2,1)
proof (cases rule: acquire_begin_cases)
  case (Refused e ob)
  then show ?thesis by simp
next
  case (Fresh ob)
  with assms(1) show ?thesis
    by (auto simp: refs_ok_def heap_ok_new) (simp_all add: new_hold_def)
next
  case (Shared ob w obj n)
  with assms(1) show ?thesis
    by (auto simp: refs_ok_def heap_ok_share use_count_share)
qed

lemma refs_acq_refused:
  assumes "refs_ok s" "acquire_begin c g tgt m (ls_reg s) = (Inl e, r')"
  shows "refs_ok (s\<lparr>ls_reg := r'\<rparr>)"
  using assms(2,1) by (cases rule: acquire_begin_cases) (auto simp: refs_ok_def)

lemma refs_acq_finish:
  assumes "refs_ok s" "k \<in> set (ls_tickets s)" "acquire_finish k obs (ls_reg s) = (res, r')"
  shows "refs_ok (s\<lparr>ls_reg := r', ls_tickets := remove1 k (ls_tickets s),
                    ls_tokens := keep_token (lr_hold res) (ls_tokens s)\<rparr>)"
  using assms(3)
proof (cases rule: acquire_finish_cases)
  case Refused
  with assms ticket_refs_remove1[OF assms(2)] show ?thesis
    by (auto simp: refs_ok_def keep_token_def heap_ok_drop use_count_drop)
next
  case (Accepted ob)
  let ?c = "k_client k" and ?h = "k_hold k" and ?r = "ls_reg s"
  let ?f = "if k_previous k = None then fill_hold ?h (k_target k) (k_mode k) ob ?r else ?r"
  from assms have ok: "heap_ok ?r" "umap_ok (r_owners ?r)" by (auto simp: refs_ok_def)
  have live: "umap_contains (r_holds ?f) ?h"
    using refs_live_ticket[OF assms(1,2)] by (auto simp: fill_hold_def)
  have okf: "heap_ok ?f" using ok by (simp add: heap_ok_fill)
  have uc: "use_count r' j = use_count ?r j + (if j = ?h then 1 else 0)
     - (case map_of (r_owners ?r) ?c of None \<Rightarrow> 0 | Some w \<Rightarrow> if j = lo_hold w then 1 else 0)" for j
    using use_count_assign[OF okf live, of ?c "k_generation k" j] Accepted(15) by auto
  have ow: "r_owners r' = AList.update ?c \<lparr>lo_generation = k_generation k, lo_hold = ?h\<rparr> (r_owners ?r)"
    using Accepted(15) by simp
  have "use_count r' j = owner_refs (r_owners r') j + count_list (?h # ls_tokens s) j
          + count_list (map k_hold (remove1 k (ls_tickets s))) j" for j
  proof (cases "map_of (r_owners ?r) ?c")
    case None
    then show ?thesis
      using uc[of j] assms(1) ticket_refs_remove1[OF assms(2), of j]
      by (auto simp: ow owner_refs_update_new refs_ok_def)
  next
    case (Some w)
    then show ?thesis
      using uc[of j] assms(1) ticket_refs_remove1[OF assms(2), of j]
        owner_refs_update_old[OF Some, of "\<lparr>lo_generation = k_generation k, lo_hold = ?h\<rparr>" j]
        owner_refs_pos[OF Some]
      by (auto simp: ow refs_ok_def)
  qed
  moreover have "heap_ok r'" using heap_ok_assign[OF okf] Accepted(15) by simp
  ultimately show ?thesis using ok Accepted(12) by (simp add: refs_ok_def keep_token_def ow)
qed

lemma refs_snapshot:
  assumes "refs_ok s" "lease_snapshot c g (ls_reg s) = (res, r')"
  shows "refs_ok (s\<lparr>ls_reg := r', ls_tokens := keep_token (Option.bind res lr_hold) (ls_tokens s)\<rparr>)"
  using assms
  by (auto simp: lease_snapshot_def refs_ok_def keep_token_def heap_ok_share use_count_share
      split: option.splits if_splits)

lemma refs_drop_token:
  "refs_ok s \<Longrightarrow> h \<in> set (ls_tokens s) \<Longrightarrow>
   refs_ok (s\<lparr>ls_reg := drop_hold h (ls_reg s), ls_tokens := remove1 h (ls_tokens s)\<rparr>)"
proof -
  assume r: "refs_ok s" and h: "h \<in> set (ls_tokens s)"
  then have "0 < count_list (ls_tokens s) h" by (simp add: count_list_pos)
  with r show ?thesis
    by (auto simp: refs_ok_def heap_ok_drop use_count_drop count_list_remove1)
qed

lemma refs_drop_owner:
  assumes "refs_ok s" "map_of (r_owners (ls_reg s)) c = Some w"
  shows "refs_ok (s\<lparr>ls_reg := drop_hold (lo_hold w)
           ((ls_reg s)\<lparr>r_released := b, r_owners := AList.delete c (r_owners (ls_reg s))\<rparr>)\<rparr>)"
  using assms owner_refs_delete[of "r_owners (ls_reg s)" c w]
  by (auto simp: refs_ok_def heap_ok_drop use_count_drop)

lemma refs_observe: "refs_ok s \<Longrightarrow> refs_ok (s\<lparr>ls_reg := (ls_reg s)\<lparr>r_observed := a\<rparr>\<rparr>)"
  by (simp add: refs_ok_def)

lemma refs_release:
  "refs_ok s \<Longrightarrow> lease_release c g (ls_reg s) = (b, r') \<Longrightarrow> refs_ok (s\<lparr>ls_reg := r'\<rparr>)"
  by (auto simp: lease_release_def split: option.splits if_splits intro: refs_drop_owner)

lemma refs_revoke: "refs_ok s \<Longrightarrow> refs_ok (s\<lparr>ls_reg := lease_revoke c (ls_reg s)\<rparr>)"
proof -
  assume "refs_ok s"
  then have ok: "refs_ok (s\<lparr>ls_reg := (ls_reg s)\<lparr>r_observed := umap_index (r_observed (ls_reg s)) c\<rparr>\<rparr>)"
    by (rule refs_observe)
  show ?thesis
  proof (cases "map_of (r_owners (ls_reg s)) c")
    case None
    with ok show ?thesis by (simp add: lease_revoke_def Let_def refs_ok_def)
  next
    case (Some w)
    with refs_drop_owner[OF ok, of c w] show ?thesis by (simp add: lease_revoke_def Let_def)
  qed
qed

lemma refs_shutdown: "refs_ok s \<Longrightarrow> refs_ok (s\<lparr>ls_reg := lease_shutdown (ls_reg s)\<rparr>)"
  by (auto simp: lease_shutdown_def refs_ok_def use_count_drops heap_ok_drops owner_refs_def)

subsection \<open>Mutations exclude holds\<close>

lemma mut_okI_frame:
  assumes "mut_ok s" "r_mutations r' = r_mutations (ls_reg s)"
    "r_mutation_owner r' = r_mutation_owner (ls_reg s)"
    "r_holds (ls_reg s) = [] \<Longrightarrow> r_mutations (ls_reg s) \<noteq> 0 \<Longrightarrow> r_holds r' = []"
  shows "mut_ok (s\<lparr>ls_reg := r'\<rparr>)"
  using assms by (auto simp: mut_ok_def)

lemma mut_ok_env [simp]:
  "mut_ok (s\<lparr>ls_reg := r, ls_tickets := ks\<rparr>) = mut_ok (s\<lparr>ls_reg := r\<rparr>)"
  "mut_ok (s\<lparr>ls_reg := r, ls_tokens := ts\<rparr>) = mut_ok (s\<lparr>ls_reg := r\<rparr>)"
  "mut_ok (s\<lparr>ls_reg := r, ls_tickets := ks, ls_tokens := ts\<rparr>) = mut_ok (s\<lparr>ls_reg := r\<rparr>)"
  by (simp_all add: mut_ok_def)

lemma lease_revoke_frame:
  "r_mutations (lease_revoke c r) = r_mutations r" "r_mutation_owner (lease_revoke c r) = r_mutation_owner r"
  "r_holds r = [] \<Longrightarrow> r_holds (lease_revoke c r) = []"
  "r_uncertain (lease_revoke c r) = r_uncertain r" "r_permanent_fence (lease_revoke c r) = r_permanent_fence r"
  "r_closed (lease_revoke c r) = r_closed r"
  by (auto simp: lease_revoke_def Let_def empty_heap_keep split: option.splits)

lemma lease_shutdown_frame:
  "r_mutations (lease_shutdown r) = r_mutations r" "r_mutation_owner (lease_shutdown r) = r_mutation_owner r"
  "r_holds r = [] \<Longrightarrow> r_holds (lease_shutdown r) = []"
  "r_uncertain (lease_shutdown r) = r_uncertain r" "r_permanent_fence (lease_shutdown r) = r_permanent_fence r"
  "r_closed (lease_shutdown r)" "r_owners (lease_shutdown r) = []" "r_observed (lease_shutdown r) = r_observed r"
  by (auto simp: lease_shutdown_def empty_heap_keep)

lemma mut_acq_begin:
  assumes "mut_ok s" "acquire_begin c g tgt m (ls_reg s) = (x, r')"
  shows "mut_ok (s\<lparr>ls_reg := r'\<rparr>)"
  using assms(2,1)
  by (cases rule: acquire_begin_cases) (auto simp: mut_ok_def new_hold_def)

lemma mut_acq_finish:
  assumes "mut_ok s" "acquire_finish k obs (ls_reg s) = (res, r')"
  shows "mut_ok (s\<lparr>ls_reg := r'\<rparr>)"
  using assms(2)
proof (cases rule: acquire_finish_cases)
  case Refused
  with assms(1) show ?thesis by (intro mut_okI_frame) (auto simp: empty_heap_keep)
next
  case (Accepted ob)
  have "r_holds (assign_owner c g h r) = []" if "r_holds r = []" for c g h r
    using that by (auto simp: assign_owner_def Let_def empty_heap_keep split: option.splits)
  with Accepted(15) assms(1) show ?thesis by (intro mut_okI_frame) (auto simp: empty_heap_keep)
qed

lemma mut_snapshot:
  "mut_ok s \<Longrightarrow> lease_snapshot c g (ls_reg s) = (res, r') \<Longrightarrow> mut_ok (s\<lparr>ls_reg := r'\<rparr>)"
  by (rule mut_okI_frame)
     (auto simp: lease_snapshot_def empty_heap_keep split: option.splits if_splits)

lemma mut_release:
  "mut_ok s \<Longrightarrow> lease_release c g (ls_reg s) = (b, r') \<Longrightarrow> mut_ok (s\<lparr>ls_reg := r'\<rparr>)"
  by (rule mut_okI_frame)
     (auto simp: lease_release_def empty_heap_keep split: option.splits if_splits)

lemma mut_begin_ok:
  assumes "refs_ok s" "mut_ok s" "begin_mutation t (ls_reg s) = Some r'"
  shows "mut_ok (s\<lparr>ls_reg := r', ls_mutators := t # ls_mutators s\<rparr>)"
proof -
  from assms(3) have "r_borrowers (ls_reg s) = 0"
    by (simp add: begin_mutation_def split: if_splits)
  with assms(1) have "r_holds (ls_reg s) = []" by (simp add: refs_ok_def heap_ok_def)
  with assms(2,3) show ?thesis
    by (auto simp: begin_mutation_def mut_ok_def split: if_splits)
qed

lemma mut_end_ok:
  assumes "mut_ok s" "t \<in> set (ls_mutators s)"
  shows "mut_ok (s\<lparr>ls_reg := end_mutation (ls_reg s), ls_mutators := remove1 t (ls_mutators s)\<rparr>)"
proof -
  let ?ms = "remove1 t (ls_mutators s)"
  from assms have len: "length ?ms = length (ls_mutators s) - 1" by (simp add: length_remove1)
  have sub: "\<forall>u \<in> set ?ms. r_mutation_owner (ls_reg s) = Some u"
    using assms(1) set_remove1_subset[of t "ls_mutators s"] by (auto simp: mut_ok_def)
  show ?thesis
  proof (cases "r_mutations (ls_reg s) = 1")
    case True
    with len assms have "?ms = []" by (simp add: mut_ok_def)
    with True assms show ?thesis by (auto simp: mut_ok_def end_mutation_def)
  next
    case False
    with assms len sub show ?thesis by (auto simp: mut_ok_def end_mutation_def)
  qed
qed

subsection \<open>Generations\<close>

text \<open>Observed generations of a client never decrease; released ones neither, while the owner
  invariant holds.\<close>

lemma gen_acq_begin:
  assumes "gen_ok r" "acquire_begin c g tgt m r = (x, r')"
  shows "gen_ok r'" and "umap_count (r_observed r) j \<le> umap_count (r_observed r') j"
    and "r_released r' = r_released r" and "x = Inr k \<Longrightarrow> 0 < k_generation k"
proof -
  have "gen_ok r' \<and> umap_count (r_observed r) j \<le> umap_count (r_observed r') j \<and>
    r_released r' = r_released r \<and> (x = Inr k \<longrightarrow> 0 < k_generation k)"
    using assms(2,1)
    by (cases rule: acquire_begin_cases) (auto simp: gen_ok_def new_hold_def intro: le_trans)
  then show "gen_ok r'" "umap_count (r_observed r) j \<le> umap_count (r_observed r') j"
    "r_released r' = r_released r" "x = Inr k \<Longrightarrow> 0 < k_generation k" by auto
qed

lemma gen_acq_finish:
  assumes "gen_ok r" "0 < k_generation k" "acquire_finish k obs r = (res, r')"
  shows "gen_ok r'" and "r_observed r' = r_observed r" and "r_released r' = r_released r"
proof -
  have "gen_ok r' \<and> r_observed r' = r_observed r \<and> r_released r' = r_released r"
    using assms(3)
  proof (cases rule: acquire_finish_cases)
    case Refused
    with assms show ?thesis by (auto simp: gen_ok_def)
  next
    case (Accepted ob)
    with assms show ?thesis by (auto simp: gen_ok_def)
  qed
  then show "gen_ok r'" "r_observed r' = r_observed r" "r_released r' = r_released r" by auto
qed

lemma gen_ok_shrink:
  assumes "gen_ok r" "r_observed r' = r_observed r"
    "\<And>c w. map_of (r_owners r') c = Some w \<Longrightarrow> map_of (r_owners r) c = Some w \<and>
       umap_count (r_released r') c = umap_count (r_released r) c"
  shows "gen_ok r'"
  using assms by (fastforce simp: gen_ok_def)

lemma gen_okD:
  "gen_ok r \<Longrightarrow> map_of (r_owners r) c = Some w \<Longrightarrow>
   lo_generation w \<le> umap_count (r_observed r) c \<and> umap_count (r_released r) c < lo_generation w"
  by (simp add: gen_ok_def)

lemma gen_release:
  assumes "gen_ok r" "lease_release c g r = (b, r')"
  shows "gen_ok r'" and "r_observed r' = r_observed r"
    and "umap_count (r_released r) j \<le> umap_count (r_released r') j"
proof -
  show "gen_ok r'" "r_observed r' = r_observed r"
    using assms by (auto simp: lease_release_def gen_ok_def split: option.splits if_splits)
  show "umap_count (r_released r) j \<le> umap_count (r_released r') j"
    using assms
    by (auto simp: lease_release_def dest: gen_okD[OF assms(1)] split: option.splits if_splits)
qed

lemma gen_revoke:
  assumes "gen_ok r"
  shows "gen_ok (lease_revoke c r)"
    and "umap_count (r_observed (lease_revoke c r)) i = umap_count (r_observed r) i"
    and "umap_count (r_released r) j \<le> umap_count (r_released (lease_revoke c r)) j"
    and "umap_count (r_observed r) c \<le> umap_count (r_released (lease_revoke c r)) c"
    and "map_of (r_owners (lease_revoke c r)) c = None"
proof -
  show "gen_ok (lease_revoke c r)" "map_of (r_owners (lease_revoke c r)) c = None"
    "umap_count (r_observed (lease_revoke c r)) i = umap_count (r_observed r) i"
    using assms by (auto simp: lease_revoke_def Let_def gen_ok_def split: option.splits)
  show "umap_count (r_released r) j \<le> umap_count (r_released (lease_revoke c r)) j"
    "umap_count (r_observed r) c \<le> umap_count (r_released (lease_revoke c r)) c"
    by (auto simp: lease_revoke_def Let_def split: option.splits dest: gen_okD[OF assms])
qed

lemma mark_released_count:
  "umap_ok ws \<Longrightarrow> umap_count (mark_released ws m) c =
     (case map_of ws c of None \<Rightarrow> umap_count m c | Some w \<Rightarrow> lo_generation w)"
proof (induction ws m rule: mark_released.induct)
  case (1 m)
  then show ?case by simp
next
  case (2 client w ws m)
  then have "map_of ws client = None" by (simp add: map_of_eq_None_iff)
  with 2 show ?case by (auto split: option.splits)
qed

lemma gen_shutdown:
  assumes "gen_ok r" "umap_ok (r_owners r)"
  shows "gen_ok (lease_shutdown r)"
    and "umap_count (r_released r) j \<le> umap_count (r_released (lease_shutdown r)) j"
proof -
  show "gen_ok (lease_shutdown r)" by (simp add: gen_ok_def lease_shutdown_frame)
  have "r_released (lease_shutdown r) = mark_released (r_owners r) (r_released r)"
    by (simp add: lease_shutdown_def)
  then show "umap_count (r_released r) j \<le> umap_count (r_released (lease_shutdown r)) j"
    using assms by (auto simp: mark_released_count gen_ok_def split: option.splits intro: less_imp_le)
qed

subsection \<open>Frames waiting for their probe\<close>

lemma tick_shrink:
  assumes "tick_ok s" "set ts \<subseteq> set (ls_tokens s)"
    "\<And>c w. map_of (r_owners r') c = Some w \<Longrightarrow> map_of (r_owners (ls_reg s)) c = Some w"
    "\<And>j obj n. map_of (r_holds r') j = Some (obj, n) \<Longrightarrow> \<exists>n'. map_of (r_holds (ls_reg s)) j = Some (obj, n')"
  shows "tick_ok (s\<lparr>ls_reg := r', ls_tokens := ts\<rparr>)"
  using assms unfolding tick_ok_def ticket_ok_def by fastforce

lemma tick_shrink_reg:
  assumes "tick_ok s"
    "\<And>c w. map_of (r_owners r') c = Some w \<Longrightarrow> map_of (r_owners (ls_reg s)) c = Some w"
    "\<And>j obj n. map_of (r_holds r') j = Some (obj, n) \<Longrightarrow> \<exists>n'. map_of (r_holds (ls_reg s)) j = Some (obj, n')"
  shows "tick_ok (s\<lparr>ls_reg := r'\<rparr>)"
  using tick_shrink[OF assms(1) order_refl assms(2,3)] by simp

lemma tick_acq_refused:
  assumes "tick_ok s" "acquire_begin c g tgt m (ls_reg s) = (Inl e, r')"
  shows "tick_ok (s\<lparr>ls_reg := r'\<rparr>)"
  using assms(2,1) by (cases rule: acquire_begin_cases) (auto intro: tick_shrink_reg)

lemma live_less_next: "heap_ok r \<Longrightarrow> umap_contains (r_holds r) h \<Longrightarrow> h < r_next r"
  by (auto dest: heap_okD)

lemma tick_acq_begun:
  assumes "refs_ok s" "tick_ok s" "acquire_begin c g tgt m (ls_reg s) = (Inr k, r')"
  shows "tick_ok (s\<lparr>ls_reg := r', ls_tickets := k # ls_tickets s\<rparr>)"
  using assms(3)
proof (cases rule: acquire_begin_cases)
  case (Refused e ob)
  then show ?thesis by simp
next
  case (Fresh ob)
  have ok: "heap_ok (ls_reg s)" using assms(1) by (simp add: refs_ok_def)
  let ?n = "r_next (ls_reg s)"
  have tok: "?n \<notin> set (ls_tokens s)"
    using refs_live_token[OF assms(1)] live_less_next[OF ok] by blast
  have own: "lo_hold w \<noteq> ?n" if "map_of (r_owners (ls_reg s)) c = Some w" for c w
    using refs_live_owner[OF assms(1) that] live_less_next[OF ok] by (metis less_irrefl)
  have tik: "?n \<notin> k_hold ` set (ls_tickets s)"
    using refs_live_ticket[OF assms(1)] live_less_next[OF ok] by (metis imageE less_irrefl)
  then have "count_list (map k_hold (ls_tickets s)) ?n = 0" by simp
  then have old: "ticket_ok r' (ls_tokens s) (k # ls_tickets s) k'" if "k' \<in> set (ls_tickets s)" for k'
  proof -
    have "ticket_ok (ls_reg s) (ls_tokens s) (ls_tickets s) k'" using assms(2) that by (simp add: tick_ok_def)
    moreover have "k_hold k' \<noteq> ?n" using tik that by (metis imageI)
    ultimately show ?thesis using Fresh(8,9) by (auto simp: ticket_ok_def new_hold_def)
  qed
  have "ticket_ok r' (ls_tokens s) (k # ls_tickets s) k"
    using Fresh(1,8,9) tok own tik by (auto simp: ticket_ok_def new_hold_def)
  with old show ?thesis by (simp add: tick_ok_def)
next
  case (Shared ob w obj n)
  have objs: "map_of (r_holds r') j = Some (ob', n') \<Longrightarrow> \<exists>n'. map_of (r_holds (ls_reg s)) j = Some (ob', n')" for j ob' n'
    using heap_obj_share[of "lo_hold w" "(ls_reg s)\<lparr>r_observed := ob\<rparr>" j ob' n'] Shared(12) by simp
  have old: "ticket_ok r' (ls_tokens s) (k # ls_tickets s) k'" if "k' \<in> set (ls_tickets s)" for k'
  proof -
    have "ticket_ok (ls_reg s) (ls_tokens s) (ls_tickets s) k'" using assms(2) that by (simp add: tick_ok_def)
    with Shared(7,11,12) objs show ?thesis by (fastforce simp: ticket_ok_def)
  qed
  have "ticket_ok r' (ls_tokens s) (k # ls_tickets s) k"
    using Shared(1,8-11) objs by (fastforce simp: ticket_ok_def)
  with old show ?thesis by (simp add: tick_ok_def)
qed

lemma count_other_ticket:
  "k \<in> set ks \<Longrightarrow> k' \<in> set (remove1 k ks) \<Longrightarrow> count_list (map k_hold ks) (k_hold k') = 1 \<Longrightarrow>
   k_hold k \<noteq> k_hold k' \<and> count_list (map k_hold (remove1 k ks)) (k_hold k') = 1"
  using ticket_refs_remove1[of k ks "k_hold k'"] count_list_pos[of "map k_hold (remove1 k ks)" "k_hold k'"]
  by (auto split: if_splits)

lemma count_first_ticket:
  "k \<in> set ks \<Longrightarrow> k' \<in> set (remove1 k ks) \<Longrightarrow> count_list (map k_hold ks) (k_hold k) = 1 \<Longrightarrow>
   k_hold k \<noteq> k_hold k'"
  using ticket_refs_remove1[of k ks "k_hold k"] count_list_pos[of "map k_hold (remove1 k ks)" "k_hold k"]
  by (auto split: if_splits)

lemma heap_obj_assign:
  "map_of (r_holds (assign_owner c g h r)) j = Some (obj, n) \<Longrightarrow> \<exists>n'. map_of (r_holds r) j = Some (obj, n')"
  by (auto simp: assign_owner_def Let_def split: option.splits dest!: heap_obj_drop heap_obj_share)

lemma heap_obj_fill:
  "map_of (r_holds (fill_hold h t m obs r)) j = Some (obj, n) \<Longrightarrow> j \<noteq> h \<Longrightarrow>
   \<exists>n'. map_of (r_holds r) j = Some (obj, n')"
  by (auto simp: fill_hold_def split: option.splits)

text \<open>A successful acquisition never writes an object that another reference can see.\<close>

lemma finish_keeps_objects:
  assumes "tick_ok s" "k \<in> set (ls_tickets s)" "acquire_finish k obs (ls_reg s) = (res, r')"
    and "map_of (r_holds r') j = Some (obj, n)"
    and "j \<in> set (ls_tokens s) \<or> (\<exists>c w. map_of (r_owners (ls_reg s)) c = Some w \<and> lo_hold w = j)
           \<or> (\<exists>k' \<in> set (remove1 k (ls_tickets s)). k_hold k' = j)"
  shows "\<exists>n'. map_of (r_holds (ls_reg s)) j = Some (obj, n')"
  using assms(3)
proof (cases rule: acquire_finish_cases)
  case Refused
  with assms(4) show ?thesis by (auto dest: heap_obj_drop)
next
  case (Accepted ob)
  show ?thesis
  proof (cases "k_previous k")
    case None
    with assms(1,2) have "k_hold k \<notin> set (ls_tokens s)"
      "\<forall>c w. map_of (r_owners (ls_reg s)) c = Some w \<longrightarrow> lo_hold w \<noteq> k_hold k"
      "count_list (map k_hold (ls_tickets s)) (k_hold k) = 1"
      unfolding tick_ok_def ticket_ok_def by auto
    with assms(2,5) have "j \<noteq> k_hold k" by (auto dest: count_first_ticket)
    with None Accepted(15) assms(4) show ?thesis
      by (auto dest!: heap_obj_assign heap_obj_fill)
  next
    case (Some h)
    with Accepted(15) assms(4) show ?thesis by (auto dest: heap_obj_assign)
  qed
qed

lemma tick_acq_finish:
  assumes "tick_ok s" "k \<in> set (ls_tickets s)" "acquire_finish k obs (ls_reg s) = (res, r')"
  shows "tick_ok (s\<lparr>ls_reg := r', ls_tickets := remove1 k (ls_tickets s),
                    ls_tokens := keep_token (lr_hold res) (ls_tokens s)\<rparr>)"
proof -
  let ?s' = "s\<lparr>ls_reg := r', ls_tickets := remove1 k (ls_tickets s),
               ls_tokens := keep_token (lr_hold res) (ls_tokens s)\<rparr>"
  have tok: "set (ls_tokens ?s') \<subseteq> insert (k_hold k) (set (ls_tokens s))"
    using assms(3) by (cases rule: acquire_finish_cases) (auto simp: keep_token_def)
  have own: "map_of (r_owners r') c = Some w \<Longrightarrow> lo_hold w = k_hold k \<or> map_of (r_owners (ls_reg s)) c = Some w" for c w
    using assms(3) by (cases rule: acquire_finish_cases) (auto split: if_splits)
  have "ticket_ok r' (ls_tokens ?s') (remove1 k (ls_tickets s)) k'"
    if k': "k' \<in> set (remove1 k (ls_tickets s))" for k'
  proof -
    have "k' \<in> set (ls_tickets s)" using k' by (meson notin_set_remove1)
    with assms(1) have base: "ticket_ok (ls_reg s) (ls_tokens s) (ls_tickets s) k'"
      by (simp add: tick_ok_def)
    show ?thesis
    proof (cases "k_previous k'")
      case None
      with base have b: "k_hold k' \<notin> set (ls_tokens s)" "count_list (map k_hold (ls_tickets s)) (k_hold k') = 1"
        "\<forall>c w. map_of (r_owners (ls_reg s)) c = Some w \<longrightarrow> lo_hold w \<noteq> k_hold k'"
        by (auto simp: ticket_ok_def)
      have "k_hold k \<noteq> k_hold k'" "count_list (map k_hold (remove1 k (ls_tickets s))) (k_hold k') = 1"
        using count_other_ticket[OF assms(2) k' b(2)] by auto
      with b tok own None base show ?thesis by (fastforce simp: ticket_ok_def)
    next
      case (Some h)
      have "\<exists>n'. map_of (r_holds (ls_reg s)) (k_hold k') = Some (obj, n')"
        if "map_of (r_holds r') (k_hold k') = Some (obj, n)" for obj n
        using finish_keeps_objects[OF assms(1-3) that] k' by blast
      with Some base show ?thesis by (fastforce simp: ticket_ok_def)
    qed
  qed
  then show ?thesis by (simp add: tick_ok_def)
qed

lemma tick_snapshot:
  assumes "tick_ok s" "lease_snapshot c g (ls_reg s) = (res, r')"
  shows "tick_ok (s\<lparr>ls_reg := r', ls_tokens := keep_token (Option.bind res lr_hold) (ls_tokens s)\<rparr>)"
proof (cases "\<exists>w obj n. map_of (r_owners (ls_reg s)) c = Some w \<and> res \<noteq> None")
  case True
  then obtain w where w: "map_of (r_owners (ls_reg s)) c = Some w" and
      r': "r' = share_hold (lo_hold w) (ls_reg s)" and
      t: "keep_token (Option.bind res lr_hold) (ls_tokens s) = lo_hold w # ls_tokens s"
    using assms(2) by (auto simp: lease_snapshot_def keep_token_def split: option.splits if_splits)
  have "tick_ok (s\<lparr>ls_reg := r'\<rparr>)"
    unfolding r' by (rule tick_shrink_reg[OF assms(1)]) (auto dest: heap_obj_share)
  with w show ?thesis unfolding t by (fastforce simp: tick_ok_def ticket_ok_def r')
next
  case False
  then have "res = None" "r' = ls_reg s"
    using assms(2) by (auto simp: lease_snapshot_def split: option.splits if_splits)
  with assms(1) show ?thesis by (simp add: keep_token_def)
qed

lemma tick_release:
  "tick_ok s \<Longrightarrow> lease_release c g (ls_reg s) = (b, r') \<Longrightarrow> tick_ok (s\<lparr>ls_reg := r'\<rparr>)"
  by (rule tick_shrink_reg)
     (auto simp: lease_release_def split: option.splits if_splits dest!: heap_obj_drop)

lemma tick_revoke: "tick_ok s \<Longrightarrow> tick_ok (s\<lparr>ls_reg := lease_revoke c (ls_reg s)\<rparr>)"
  by (rule tick_shrink_reg)
     (auto simp: lease_revoke_def Let_def split: option.splits if_splits dest!: heap_obj_drop)

lemma tick_shutdown: "tick_ok s \<Longrightarrow> tick_ok (s\<lparr>ls_reg := lease_shutdown (ls_reg s)\<rparr>)"
  by (rule tick_shrink_reg) (auto simp: lease_shutdown_def dest!: heap_obj_drops)

subsection \<open>All steps\<close>

lemmas refs_steps = refs_acq_begin refs_acq_refused refs_acq_finish refs_snapshot refs_drop_token
  refs_release refs_revoke refs_shutdown

lemma refs_step: "lease_step s t \<Longrightarrow> refs_ok s \<Longrightarrow> refs_ok t"
proof (induction rule: lease_step.induct)
  case (mut_begin t s r')
  then show ?case by (auto simp: refs_ok_def begin_mutation_def use_count_def heap_ok_def split: if_splits)
next
  case (mut_end t s)
  then show ?case by (auto simp: refs_ok_def end_mutation_def use_count_def heap_ok_def split: if_splits)
next
  case (mut_unknown t s)
  then show ?case by (simp add: refs_ok_def completion_unknown_def use_count_def heap_ok_def)
next
  case (fence s)
  then show ?case by (simp add: refs_ok_def fence_unknown_release_def use_count_def heap_ok_def)
qed (blast intro: refs_steps)+

lemma mut_step: "lease_step s t \<Longrightarrow> refs_ok s \<Longrightarrow> mut_ok s \<Longrightarrow> mut_ok t"
proof (induction rule: lease_step.induct)
  case (acq_refused c g tgt m s e r')
  then show ?case by (blast intro: mut_acq_begin)
next
  case (acq_begun c g tgt m s k r')
  then show ?case by (simp add: mut_acq_begin)
next
  case (acq_finished k s obs res r')
  then show ?case by (simp add: mut_acq_finish)
next
  case (snapshot c g s res r')
  then show ?case by (simp add: mut_snapshot)
next
  case (drop_token h s)
  then show ?case by (simp add: mut_okI_frame empty_heap_keep)
next
  case (release c g s b r')
  then show ?case by (blast intro: mut_release)
next
  case (revoke s c)
  then show ?case by (simp add: mut_okI_frame lease_revoke_frame)
next
  case (shutdown s)
  then show ?case by (simp add: mut_okI_frame lease_shutdown_frame)
next
  case (mut_begin t s r')
  then show ?case by (blast intro: mut_begin_ok)
next
  case (mut_end t s)
  then show ?case by (blast intro: mut_end_ok)
next
  case (mut_unknown t s)
  then show ?case by (simp add: mut_okI_frame completion_unknown_def)
next
  case (fence s)
  then show ?case by (simp add: mut_okI_frame fence_unknown_release_def)
qed

lemma ticket_generation: "tick_ok s \<Longrightarrow> k \<in> set (ls_tickets s) \<Longrightarrow> 0 < k_generation k"
  by (simp add: tick_ok_def ticket_ok_def)

lemma gen_step:
  assumes "lease_step s t" "refs_ok s" "tick_ok s" "gen_ok (ls_reg s)"
  shows "gen_ok (ls_reg t) \<and>
    umap_count (r_observed (ls_reg s)) j \<le> umap_count (r_observed (ls_reg t)) j \<and>
    umap_count (r_released (ls_reg s)) j \<le> umap_count (r_released (ls_reg t)) j"
  using assms
proof (induction rule: lease_step.induct)
  case (acq_refused c g tgt m s e r')
  with gen_acq_begin[OF acq_refused(4,1)] show ?case by simp
next
  case (acq_begun c g tgt m s k r')
  with gen_acq_begin[OF acq_begun(4,1)] show ?case by simp
next
  case (acq_finished k s obs res r')
  with gen_acq_finish[OF acq_finished(5) ticket_generation[OF acq_finished(4,1)] acq_finished(2)]
  show ?case by simp
next
  case (snapshot c g s res r')
  then show ?case by (auto simp: lease_snapshot_def gen_ok_def split: option.splits if_splits)
next
  case (release c g s b r')
  with gen_release[OF release(4,1)] show ?case by simp
next
  case (revoke s c)
  with gen_revoke(1-3)[OF revoke(3)] show ?case by simp
next
  case (shutdown s)
  with gen_shutdown[OF shutdown(3)] show ?case by (simp add: refs_ok_def lease_shutdown_frame)
next
  case (mut_begin t s r')
  then show ?case by (auto simp: begin_mutation_def gen_ok_def split: if_splits)
next
  case (mut_end t s)
  then show ?case by (auto simp: end_mutation_def gen_ok_def)
qed (simp_all add: gen_ok_def completion_unknown_def fence_unknown_release_def)

lemma tick_step: "lease_step s t \<Longrightarrow> refs_ok s \<Longrightarrow> tick_ok s \<Longrightarrow> tick_ok t"
proof (induction rule: lease_step.induct)
  case (drop_token h s)
  have "set (remove1 h (ls_tokens s)) \<subseteq> set (ls_tokens s)" by (rule set_remove1_subset)
  with drop_token show ?case by (intro tick_shrink) (auto dest: heap_obj_drop)
next
  case (mut_begin t s r')
  then show ?case by (auto simp: tick_ok_def ticket_ok_def begin_mutation_def split: if_splits)
next
  case (mut_end t s)
  then show ?case by (auto simp: tick_ok_def ticket_ok_def end_mutation_def)
next
  case (mut_unknown t s)
  then show ?case by (simp add: tick_ok_def ticket_ok_def completion_unknown_def)
next
  case (fence s)
  then show ?case by (simp add: tick_ok_def ticket_ok_def fence_unknown_release_def)
qed (blast intro: tick_acq_refused tick_acq_begun tick_acq_finish tick_snapshot tick_release
      tick_revoke tick_shutdown)+

lemma lease_inv_init: "lease_sys_init s \<Longrightarrow> lease_inv s"
  by (simp add: lease_sys_init_def lease_inv_def refs_ok_def mut_ok_def gen_ok_def tick_ok_def
      registry_init_def heap_ok_def use_count_def owner_refs_def)

lemma lease_inv_step: "lease_inv s \<Longrightarrow> lease_step s t \<Longrightarrow> lease_inv t"
  unfolding lease_inv_def by (blast intro: refs_step mut_step tick_step dest: gen_step)

interpretation lease: invariant_system lease_sys_init lease_step lease_inv
  by unfold_locales (blast intro: lease_inv_init lease_inv_step)+

interpretation lease_released: monotone_system lease_sys_init lease_step lease_inv
    "\<lambda>s c. umap_count (r_released (ls_reg s)) c"
  by unfold_locales (auto simp: lease_inv_def dest: gen_step)

interpretation lease_observed: monotone_system lease_sys_init lease_step lease_inv
    "\<lambda>s c. umap_count (r_observed (ls_reg s)) c"
  by unfold_locales (auto simp: lease_inv_def dest: gen_step)

text \<open>The fence, the uncertainty mark and the shutdown flag are never cleared.\<close>

lemma acquire_begin_flags:
  "acquire_begin c g tgt m r = (x, r') \<Longrightarrow> r_permanent_fence r' = r_permanent_fence r \<and>
     r_uncertain r' = r_uncertain r \<and> r_closed r' = r_closed r"
  by (cases rule: acquire_begin_cases) (auto simp: new_hold_def)

lemma assign_owner_flags:
  "r_permanent_fence (assign_owner c g h r) = r_permanent_fence r"
  "r_uncertain (assign_owner c g h r) = r_uncertain r" "r_closed (assign_owner c g h r) = r_closed r"
  by (auto simp: assign_owner_def Let_def split: option.splits)

lemma acquire_finish_flags:
  "acquire_finish k obs r = (res, r') \<Longrightarrow> r_permanent_fence r' = r_permanent_fence r \<and>
     r_uncertain r' = r_uncertain r \<and> r_closed r' = r_closed r"
  by (cases rule: acquire_finish_cases) (auto simp: assign_owner_flags split: if_splits)

lemma lease_flags_step:
  "lease_step s t \<Longrightarrow>
     (r_permanent_fence (ls_reg s) \<longrightarrow> r_permanent_fence (ls_reg t)) \<and>
     (r_uncertain (ls_reg s) \<longrightarrow> r_uncertain (ls_reg t)) \<and> (r_closed (ls_reg s) \<longrightarrow> r_closed (ls_reg t))"
proof (induction rule: lease_step.induct)
  case (snapshot c g s res r')
  then show ?case by (auto simp: lease_snapshot_def split: option.splits if_splits)
next
  case (release c g s b r')
  then show ?case by (auto simp: lease_release_def split: option.splits if_splits)
next
  case (mut_begin t s r')
  then show ?case by (auto simp: begin_mutation_def split: if_splits)
next
  case (mut_end t s)
  then show ?case by (auto simp: end_mutation_def)
qed (auto dest: acquire_begin_flags acquire_finish_flags
      simp: lease_revoke_frame lease_shutdown_frame completion_unknown_def fence_unknown_release_def)

interpretation lease_fence: latch_system lease_sys_init lease_step lease_inv
    "\<lambda>s. r_permanent_fence (ls_reg s)"
  by unfold_locales (blast dest: lease_flags_step)

interpretation lease_closed: latch_system lease_sys_init lease_step lease_inv
    "\<lambda>s. r_closed (ls_reg s)"
  by unfold_locales (blast dest: lease_flags_step)

section \<open>Properties\<close>

lemma lease_reach_inv: "lease_step\<^sup>*\<^sup>* s t \<Longrightarrow> lease_sys_init s \<Longrightarrow> lease_inv t"
  by (blast intro: lease.reach_inv)

lemma no_holds_no_refs:
  assumes "refs_ok s" "r_holds (ls_reg s) = []"
  shows "r_owners (ls_reg s) = []" "ls_tokens s = []" "ls_tickets s = []"
proof -
  have "map_of (r_owners (ls_reg s)) c = None" for c
    using refs_live_owner[OF assms(1)] assms(2) by (cases "map_of (r_owners (ls_reg s)) c") auto
  then show "r_owners (ls_reg s) = []" by (simp add: umap_empty_iff)
  show "ls_tokens s = []" using refs_live_token[OF assms(1)] assms(2) by (cases "ls_tokens s") auto
  show "ls_tickets s = []" using refs_live_ticket[OF assms(1)] assms(2) by (cases "ls_tickets s") auto
qed

text \<open>A first lease of an output by a client, observed by the probe, and the states on the way.\<close>

definition demo_target :: descriptor_t where
  "demo_target = \<lparr>d_platform = Linux_drm, d_kind = Physical, d_exact_id = ''card0-DP-1''\<rparr>"

definition demo_mode :: tmode_t where
  "demo_mode = \<lparr>tm_width = 2560, tm_height = 1440, tm_refresh_millihz = 144000, tm_hdr = False\<rparr>"

definition demo_observation :: observation_t where
  "demo_observation = \<lparr>o_target = demo_target, o_mode = demo_mode, o_capture_output = ''DP-1'', o_runtime_hold = None\<rparr>"

definition demo_sys0 :: lease_sys where
  "demo_sys0 = \<lparr>ls_reg = registry_init, ls_tokens = [], ls_tickets = [], ls_mutators = []\<rparr>"

definition demo_ticket :: ticket_t where
  "demo_ticket = \<lparr>k_client = ''c'', k_generation = 1, k_target = demo_target, k_mode = demo_mode,
     k_hold = 0, k_previous = None\<rparr>"

definition demo_sys1 :: lease_sys where
  "demo_sys1 = demo_sys0\<lparr>ls_reg := snd (acquire_begin ''c'' 1 demo_target demo_mode registry_init),
     ls_tickets := [demo_ticket]\<rparr>"

definition demo_sys2 :: lease_sys where
  "demo_sys2 = demo_sys1\<lparr>ls_reg := snd (acquire_finish demo_ticket (Some demo_observation) (ls_reg demo_sys1)),
     ls_tickets := [], ls_tokens := [0]\<rparr>"

lemmas demo_defs = demo_sys0_def demo_sys1_def demo_sys2_def demo_ticket_def demo_mode_def
  demo_target_def demo_observation_def registry_init_def acquire_begin_def acquire_finish_def
  new_hold_def umap_index_def umap_count_def fill_hold_def assign_owner_def share_hold_def
  drop_hold_def hold_output_def lease_error_def keep_token_def empty_hold_def

lemma demo_init: "lease_sys_init demo_sys0"
  by (simp add: lease_sys_init_def demo_sys0_def)

lemma demo_step1: "lease_step demo_sys0 demo_sys1"
proof -
  have "acquire_begin ''c'' 1 demo_target demo_mode (ls_reg demo_sys0)
      = (Inr demo_ticket, snd (acquire_begin ''c'' 1 demo_target demo_mode registry_init))"
    by (simp add: demo_defs)
  from lease_step.acq_begun[OF this] show ?thesis by (simp add: demo_sys1_def demo_sys0_def)
qed

lemma demo_finish:
  "acquire_finish demo_ticket (Some demo_observation) (ls_reg demo_sys1)
     = (\<lparr>lr_hold = Some 0, lr_target = Some demo_target, lr_output = ''DP-1'', lr_error = ''''\<rparr>, ls_reg demo_sys2)"
  by (simp add: demo_defs Let_def)

lemma demo_step2: "lease_step demo_sys1 demo_sys2"
proof -
  have "demo_ticket \<in> set (ls_tickets demo_sys1)" by (simp add: demo_sys1_def)
  from lease_step.acq_finished[OF this demo_finish] show ?thesis
    by (simp add: demo_sys2_def demo_sys1_def demo_sys0_def keep_token_def)
qed

lemma demo_reach: "lease_step\<^sup>*\<^sup>* demo_sys0 demo_sys2"
  using demo_step1 demo_step2 by (meson rtranclp.rtrancl_into_rtrancl rtranclp.rtrancl_refl)

text \<open>(C1) Mutual exclusion of borrowing and display mutation: in every reachable state, while a
  mutation token is out there is no live hold, no published owner and no acquisition in flight;
  and while any session token, owner or in-flight acquisition exists, \<^verbatim>\<open>begin_mutation\<close>
  is refused to every thread.\<close>

theorem lease_mutation_exclusion:
  assumes "lease_sys_init s0" "lease_step\<^sup>*\<^sup>* s0 s"
  shows "(ls_mutators s \<noteq> [] \<longrightarrow> r_borrowers (ls_reg s) = 0 \<and> r_owners (ls_reg s) = [] \<and>
            ls_tokens s = [] \<and> ls_tickets s = []) \<and>
         (r_owners (ls_reg s) \<noteq> [] \<or> ls_tokens s \<noteq> [] \<or> ls_tickets s \<noteq> [] \<longrightarrow>
            (\<forall>t. begin_mutation t (ls_reg s) = None))"
proof -
  from assms have inv: "refs_ok s" "mut_ok s" using lease_reach_inv by (auto simp: lease_inv_def)
  have bor: "r_borrowers (ls_reg s) = length (r_holds (ls_reg s))"
    using inv(1) by (simp add: refs_ok_def heap_ok_def)
  show ?thesis
  proof (intro conjI impI)
    assume "ls_mutators s \<noteq> []"
    then have "r_holds (ls_reg s) = []" using inv(2) by (auto simp: mut_ok_def)
    with no_holds_no_refs[OF inv(1)] bor
    show "r_borrowers (ls_reg s) = 0" "r_owners (ls_reg s) = []" "ls_tokens s = []" "ls_tickets s = []"
      by auto
  next
    assume "r_owners (ls_reg s) \<noteq> [] \<or> ls_tokens s \<noteq> [] \<or> ls_tickets s \<noteq> []"
    then have "r_borrowers (ls_reg s) \<noteq> 0" using no_holds_no_refs[OF inv(1)] bor by auto
    then show "\<forall>t. begin_mutation t (ls_reg s) = None" by (simp add: begin_mutation_def)
  qed
qed

theorem lease_mutation_exclusion_witness:
  "lease_sys_init demo_sys0 \<and> lease_step\<^sup>*\<^sup>* demo_sys0 demo_sys2 \<and> ls_tokens demo_sys2 = [0] \<and>
   begin_mutation 7 (ls_reg demo_sys2) = None"
  using lease_mutation_exclusion[OF demo_init demo_reach] demo_init demo_reach
  by (simp add: demo_sys2_def)

text \<open> Reference accounting: in every reachable state the \<^verbatim>\<open>borrowers\<close> counter is the
  number of live hold objects, a hold is alive exactly while an owner, a session token or an
  in-flight acquisition refers to it (so no token dangles and no hold leaks), and its use count is
  the number of those references.\<close>

theorem lease_reference_accounting:
  assumes "lease_sys_init s0" "lease_step\<^sup>*\<^sup>* s0 s"
  shows "r_borrowers (ls_reg s) = card (dom (map_of (r_holds (ls_reg s)))) \<and>
         use_count (ls_reg s) h = owner_refs (r_owners (ls_reg s)) h + count_list (ls_tokens s) h
           + count_list (map k_hold (ls_tickets s)) h \<and>
         (umap_contains (r_holds (ls_reg s)) h \<longleftrightarrow>
            h \<in> set (ls_tokens s) \<or> h \<in> k_hold ` set (ls_tickets s) \<or>
            (\<exists>c w. map_of (r_owners (ls_reg s)) c = Some w \<and> lo_hold w = h))"
proof -
  from assms have inv: "refs_ok s" using lease_reach_inv by (auto simp: lease_inv_def)
  let ?r = "ls_reg s"
  have ok: "umap_ok (r_holds ?r)" "r_borrowers ?r = length (r_holds ?r)" "heap_ok ?r" "umap_ok (r_owners ?r)"
    and uc: "use_count ?r h = owner_refs (r_owners ?r) h + count_list (ls_tokens s) h
           + count_list (map k_hold (ls_tickets s)) h"
    using inv by (auto simp: refs_ok_def heap_ok_def)
  have "card (dom (map_of (r_holds ?r))) = length (r_holds ?r)"
    using ok(1) by (metis distinct_card dom_map_of_conv_image_fst length_map set_map)
  moreover have "0 < owner_refs (r_owners ?r) h \<longleftrightarrow> (\<exists>c w. map_of (r_owners ?r) c = Some w \<and> lo_hold w = h)"
    unfolding owner_refs_def count_list_pos using ok(4) by (force simp: in_set_umap[symmetric])
  moreover have "0 < count_list (map k_hold (ls_tickets s)) h \<longleftrightarrow> h \<in> k_hold ` set (ls_tickets s)"
    by (simp add: count_list_pos)
  moreover have "0 < count_list (ls_tokens s) h \<longleftrightarrow> h \<in> set (ls_tokens s)" by (rule count_list_pos)
  ultimately show ?thesis using ok(2) uc use_count_pos[OF ok(3), of h] by auto
qed

theorem lease_reference_accounting_witness:
  "lease_step\<^sup>*\<^sup>* demo_sys0 demo_sys2 \<and> umap_contains (r_holds (ls_reg demo_sys2)) 0"
  using lease_reference_accounting[OF demo_init demo_reach, of 0] demo_reach
  by (simp add: demo_sys2_def)

text \<open> A generation that was released or revoked is never admitted again: once the released
  mark of a client reaches \<open>g > 0\<close>, then after any further operations of any client an
  acquisition of that client at a generation up to \<open>g\<close> is refused, and one that was already
  in flight ends without a hold.\<close>

theorem lease_released_generation_final:
  assumes "lease_sys_init s0" "lease_step\<^sup>*\<^sup>* s0 s" "lease_step\<^sup>*\<^sup>* s t"
    and "0 < g" "g \<le> umap_count (r_released (ls_reg s)) c"
  shows "(\<forall>tgt m. \<exists>e. fst (acquire_begin c g tgt m (ls_reg t)) = Inl e) \<and>
         (\<forall>k obs. k_client k = c \<and> k_generation k = g \<longrightarrow>
            lr_hold (fst (acquire_finish k obs (ls_reg t))) = None)"
proof -
  have "lease_inv s" using assms(1,2) by (blast intro: lease_reach_inv)
  with assms(3) have "umap_count (r_released (ls_reg s)) c \<le> umap_count (r_released (ls_reg t)) c"
    by (rule lease_released.steps_level)
  with assms(5) have le: "g \<le> umap_count (r_released (ls_reg t)) c" by simp
  with assms(4) have con: "umap_contains (r_released (ls_reg t)) c"
    by (auto simp: umap_count_def split: option.splits)
  have a: "\<exists>e. fst (acquire_begin c g tgt m (ls_reg t)) = Inl e" for tgt m
    using le con by (auto simp: acquire_begin_def)
  have b: "lr_hold (fst (acquire_finish k obs (ls_reg t))) = None"
    if "k_client k = c" "k_generation k = g" for k obs
    using le con that by (auto simp: acquire_finish_def Let_def lease_error_def)
  from a b show ?thesis by blast
qed

definition demo_sys3 :: lease_sys where
  "demo_sys3 = demo_sys2\<lparr>ls_reg := lease_revoke ''c'' (ls_reg demo_sys2)\<rparr>"

lemma demo_released: "umap_count (r_released (ls_reg demo_sys3)) ''c'' = 1"
  by (simp add: demo_sys3_def demo_defs lease_revoke_def Let_def)

lemma demo_reach3: "lease_step\<^sup>*\<^sup>* demo_sys0 demo_sys3"
  unfolding demo_sys3_def using demo_reach lease_step.revoke by (meson rtranclp.rtrancl_into_rtrancl)

theorem lease_released_generation_final_witness:
  "umap_count (r_released (ls_reg demo_sys3)) ''c'' = 1 \<and>
   (\<exists>e. fst (acquire_begin ''c'' 1 demo_target demo_mode (ls_reg demo_sys3)) = Inl e)"
proof -
  have "1 \<le> umap_count (r_released (ls_reg demo_sys3)) ''c''" by (simp add: demo_released)
  from lease_released_generation_final[OF demo_init demo_reach3 rtranclp.rtrancl_refl _ this]
  show ?thesis by (simp add: demo_released)
qed

text \<open> An unconfirmed native release fences the process for good: once
  \<^verbatim>\<open>fence_unknown_release\<close> has run, no later \<^verbatim>\<open>begin_mutation\<close> succeeds on any
  thread, no acquisition is admitted, none in flight completes, and the output stays
  protected.\<close>

theorem lease_fence_permanent:
  assumes "lease_sys_init s0" "lease_step\<^sup>*\<^sup>* s0 s"
    and "lease_step\<^sup>*\<^sup>* (s\<lparr>ls_reg := fence_unknown_release (ls_reg s)\<rparr>) t"
  shows "begin_mutation th (ls_reg t) = None \<and> protected_output (ls_reg t) \<and>
         (\<exists>e. fst (acquire_begin c g tgt m (ls_reg t)) = Inl e) \<and>
         lr_hold (fst (acquire_finish k obs (ls_reg t))) = None"
proof -
  let ?f = "s\<lparr>ls_reg := fence_unknown_release (ls_reg s)\<rparr>"
  have "lease_inv s" using assms(1,2) by (blast intro: lease_reach_inv)
  then have inv: "lease_inv ?f" by (blast intro: lease_inv_step lease_step.fence)
  have "r_permanent_fence (ls_reg ?f)" by (simp add: fence_unknown_release_def)
  with assms(3) inv have f: "r_permanent_fence (ls_reg t)" by (rule lease_fence.steps_latch)
  have "\<exists>e. x = Inl e" if "acquire_begin c g tgt m (ls_reg t) = (x, r')" for x r'
    using that by (cases rule: acquire_begin_cases) (use f in auto)
  moreover have "lr_hold res = None" if "acquire_finish k obs (ls_reg t) = (res, r')" for res r'
    using that by (cases rule: acquire_finish_cases) (use f in auto)
  ultimately show ?thesis
    using f by (simp add: begin_mutation_def protected_output_def) (metis prod.collapse)
qed

theorem lease_fence_permanent_witness:
  "begin_mutation 3 (fence_unknown_release (ls_reg demo_sys2)) = None \<and>
   lr_hold (fst (acquire_finish demo_ticket (Some demo_observation)
     (fence_unknown_release (ls_reg demo_sys2)))) = None"
  using lease_fence_permanent[OF demo_init demo_reach rtranclp.rtrancl_refl,
      of 3 "''c''" 2 demo_target demo_mode demo_ticket "Some demo_observation"]
  by simp

text \<open>A lease never changes under its holder: no operation rewrites the target, mode or
  capture output of a hold object that a session token refers to.\<close>

theorem lease_token_target_stable:
  assumes "lease_sys_init s0" "lease_step\<^sup>*\<^sup>* s0 s" "lease_step s t"
    and "h \<in> set (ls_tokens s)" "map_of (r_holds (ls_reg s)) h = Some (obj, n)"
    and "map_of (r_holds (ls_reg t)) h = Some (obj', n')"
  shows "obj' = obj"
proof -
  have inv: "tick_ok s" "refs_ok s" using assms(1,2) lease_reach_inv by (auto simp: lease_inv_def)
  have live: "h < r_next (ls_reg s)"
    using assms(5) inv(2) by (auto simp: refs_ok_def dest: heap_okD)
  have "\<exists>n'. map_of (r_holds (ls_reg s)) h = Some (obj', n')"
    using assms(3,4,6) inv live
  proof (induction rule: lease_step.induct)
    case (acq_refused c g tgt m s e r')
    from acq_refused(1) show ?case by (cases rule: acquire_begin_cases) (use acq_refused in auto)
  next
    case (acq_begun c g tgt m s k r')
    from acq_begun(1) show ?case
      by (cases rule: acquire_begin_cases)
         (use acq_begun in \<open>auto simp: new_hold_def dest!: heap_obj_share\<close>)
  next
    case (acq_finished k s obs res r')
    then show ?case using finish_keeps_objects[of s k obs res r' h obj' n'] by auto
  next
    case (snapshot c g s res r')
    then show ?case
      by (auto simp: lease_snapshot_def split: option.splits if_splits dest!: heap_obj_share)
  next
    case (release c g s b r')
    then show ?case
      by (auto simp: lease_release_def split: option.splits if_splits dest!: heap_obj_drop)
  next
    case (revoke s c)
    then show ?case
      by (auto simp: lease_revoke_def Let_def split: option.splits if_splits dest!: heap_obj_drop)
  next
    case (shutdown s)
    then show ?case by (auto simp: lease_shutdown_def dest!: heap_obj_drops)
  next
    case (mut_begin t s r')
    then show ?case by (auto simp: begin_mutation_def split: if_splits)
  next
    case (mut_end t s)
    then show ?case by (auto simp: end_mutation_def split: if_splits)
  qed (auto simp: completion_unknown_def fence_unknown_release_def dest!: heap_obj_drop)
  with assms(5) show ?thesis by auto
qed

theorem lease_token_target_stable_witness:
  "lease_step demo_sys2 demo_sys3 \<and>
   fst (the (map_of (r_holds (ls_reg demo_sys3)) 0)) = fst (the (map_of (r_holds (ls_reg demo_sys2)) 0))"
proof -
  have st: "lease_step demo_sys2 demo_sys3" unfolding demo_sys3_def by (rule lease_step.revoke)
  have tk: "0 \<in> set (ls_tokens demo_sys2)" by (simp add: demo_sys2_def)
  have a: "map_of (r_holds (ls_reg demo_sys2)) 0 = Some (fst (the (map_of (r_holds (ls_reg demo_sys2)) 0)), 2)"
    by (simp add: demo_defs Let_def)
  have b: "map_of (r_holds (ls_reg demo_sys3)) 0 = Some (fst (the (map_of (r_holds (ls_reg demo_sys3)) 0)), 1)"
    by (simp add: demo_sys3_def demo_defs lease_revoke_def Let_def)
  from lease_token_target_stable[OF demo_init demo_reach st tk a b] st show ?thesis by simp
qed

text \<open>The coordinator of remote displays only looks at the registry through this gate: a held
  mutation token is returned at the end of the operation and leaves no trace.\<close>

lemma mutation_balanced:
  "mut_ok s \<Longrightarrow> begin_mutation t (ls_reg s) = Some r' \<Longrightarrow> end_mutation r' = ls_reg s"
  by (auto simp: begin_mutation_def end_mutation_def mut_ok_def split: if_splits)

end
