(* ===== verification/Anchor_Graph.thy ===== *)
theory Anchor_Graph
  imports Vibe_Prelude
begin

text \<open>
  The search for a cycle among client anchors, a loop that \<^verbatim>\<open>remote_session::validate_layout\<close>
  and \<^verbatim>\<open>remote_display_topology::validate_layout\<close> both contain: follow the anchor of each
  client and fail when a client comes up twice. It ends because the path only grows among the keys
  of the map, and some walk fails exactly when the anchor relation is cyclic.
\<close>

function anchor_cycle :: "(string, string) umap \<Rightarrow> string list \<Rightarrow> string \<Rightarrow> bool" where
  "anchor_cycle parents path node =
     (case map_of parents node of
        None \<Rightarrow> False
      | Some parent \<Rightarrow> if node \<in> set path then True else anchor_cycle parents (node # path) parent)"
  by pat_completeness auto

termination
proof (relation "measure (\<lambda>(parents, path, _). card (fst ` set parents - set path))")
  fix parents :: "(string, string) umap" and path node parent
  assume "map_of parents node = Some parent" and new: "node \<notin> set path"
  then have "node \<in> fst ` set parents" by (metis map_of_eq_None_iff option.distinct(1))
  with new have "fst ` set parents - set (node # path) \<subset> fst ` set parents - set path" by auto
  then show "((parents, node # path, parent), parents, path, node)
    \<in> measure (\<lambda>(parents, path, _). card (fst ` set parents - set path))"
    by (simp add: psubset_card_mono)
qed simp

declare anchor_cycle.simps [simp del]

lemma parents_step:
  assumes "umap_ok parents" "(x, z) \<in> (set parents)\<^sup>+"
  obtains y where "map_of parents x = Some y" "y = z \<or> (y, z) \<in> (set parents)\<^sup>+"
  using assms(2) that in_set_umap[OF assms(1)] by (metis tranclD rtranclD)

lemma anchor_cycle_complete:
  "umap_ok parents \<Longrightarrow> (node, node) \<in> (set parents)\<^sup>+ \<Longrightarrow> anchor_cycle parents path node"
proof (induction parents path node rule: anchor_cycle.induct)
  case (1 parents path node)
  obtain y where y: "map_of parents node = Some y" "y = node \<or> (y, node) \<in> (set parents)\<^sup>+"
    using parents_step[OF 1(2,3)] by blast
  have "(node, y) \<in> set parents" using in_set_umap[OF 1(2)] y(1) by blast
  then have "(y, y) \<in> (set parents)\<^sup>+" using y(2) by (metis r_into_trancl trancl_trans)
  then show ?case using 1 y(1) by (subst anchor_cycle.simps) simp
qed

lemma anchor_cycle_sound:
  "umap_ok parents \<Longrightarrow> anchor_cycle parents path node \<Longrightarrow> (\<forall>p\<in>set path. (p, node) \<in> (set parents)\<^sup>+) \<Longrightarrow>
    \<exists>x. (x, x) \<in> (set parents)\<^sup>+"
proof (induction parents path node rule: anchor_cycle.induct)
  case (1 parents path node)
  from 1(3) obtain y where y: "map_of parents node = Some y"
    by (subst (asm) anchor_cycle.simps) (auto split: option.splits)
  then have edge: "(node, y) \<in> set parents" using in_set_umap[OF 1(2)] by blast
  show ?case
  proof (cases "node \<in> set path")
    case True
    then show ?thesis using 1(4) by blast
  next
    case False
    have "anchor_cycle parents (node # path) y"
      using 1(3) y False by (subst (asm) anchor_cycle.simps) simp
    moreover have "\<forall>p\<in>set (node # path). (p, y) \<in> (set parents)\<^sup>+"
      using 1(4) edge by (auto intro: trancl_into_trancl)
    ultimately show ?thesis using 1(1)[OF y False 1(2)] by blast
  qed
qed

lemma some_anchor_cycle:
  assumes ok: "umap_ok parents"
  shows "list_ex (\<lambda>(child, _). anchor_cycle parents [] child) parents \<longleftrightarrow> \<not> acyclic (set parents)"
proof
  assume "list_ex (\<lambda>(child, _). anchor_cycle parents [] child) parents"
  then obtain c where "anchor_cycle parents [] c" by (auto simp: list_ex_iff)
  from anchor_cycle_sound[OF ok this] show "\<not> acyclic (set parents)" by (auto simp: acyclic_def)
next
  assume "\<not> acyclic (set parents)"
  then obtain x where x: "(x, x) \<in> (set parents)\<^sup>+" by (auto simp: acyclic_def)
  then obtain y where "(x, y) \<in> set parents" by (meson tranclD)
  with anchor_cycle_complete[OF ok x, of "[]"]
  show "list_ex (\<lambda>(child, _). anchor_cycle parents [] child) parents" by (auto simp: list_ex_iff)
qed

end
