(* ===== verification/Remote_Pending.thy ===== *)
theory Remote_Pending
  imports Remote_Catalogue Target_Lease Anchor_Graph
begin

text \<open>
  The second half of \<^verbatim>\<open>src/src/remote_session.cpp\<close>: the two confirmation prompts, the
  capture and audio policy of a role, the selection of a monitor profile, the calls that reach the
  monitor runtime through its registered hooks, the registry of pending launches and the validation
  of a client layout. Clock readings are parameters. The hooks are parameters too, functions on
  the world they change; a hook that is not registered is \<open>None\<close>.
\<close>

section \<open>Confirmation prompts\<close>

definition terminate_confirmation_window :: time_point where
  "terminate_confirmation_window = 60 * 10 ^ 9"

record terminate_confirmation_t =
  tc_generation :: nat
  tc_app_id :: int
  tc_expires_at :: time_point

record app_replacement_confirmation_t =
  rc_generation :: nat
  rc_requested_app_id :: int
  rc_expires_at :: time_point

datatype terminate_confirmation_e = Terminate_prompt | Terminate_confirmed
datatype app_replacement_confirmation_e = Replacement_prompt | Replacement_confirmed

definition requires_termination_confirmation :: "bool \<Rightarrow> bool \<Rightarrow> bool" where
  "requires_termination_confirmation terminate_on_first_request caller_owns_active_game \<longleftrightarrow>
     \<not> terminate_on_first_request \<and> \<not> caller_owns_active_game"

definition arm_or_confirm_termination ::
  "uuid \<Rightarrow> nat \<Rightarrow> int \<Rightarrow> time_point \<Rightarrow> (uuid, terminate_confirmation_t) umap
    \<Rightarrow> terminate_confirmation_e \<times> (uuid, terminate_confirmation_t) umap" where
  "arm_or_confirm_termination client_uuid generation app now confirmations =
     (let armed = \<lparr>tc_generation = generation, tc_app_id = app,
                   tc_expires_at = now + terminate_confirmation_window\<rparr> in
      case map_of confirmations client_uuid of
        Some pending \<Rightarrow>
          (let rest = AList.delete client_uuid confirmations in
           if tc_generation pending = generation \<and> tc_app_id pending = app \<and> tc_expires_at pending > now
           then (Terminate_confirmed, rest)
           else (Terminate_prompt, AList.update client_uuid armed rest))
      | None \<Rightarrow> (Terminate_prompt, AList.update client_uuid armed confirmations))"

definition clear_termination_confirmation ::
  "uuid \<Rightarrow> (uuid, terminate_confirmation_t) umap \<Rightarrow> (uuid, terminate_confirmation_t) umap" where
  "clear_termination_confirmation client_uuid confirmations = AList.delete client_uuid confirmations"

definition arm_or_confirm_app_replacement ::
  "uuid \<Rightarrow> nat \<Rightarrow> int \<Rightarrow> time_point \<Rightarrow> (uuid, app_replacement_confirmation_t) umap
    \<Rightarrow> app_replacement_confirmation_e \<times> (uuid, app_replacement_confirmation_t) umap" where
  "arm_or_confirm_app_replacement client_uuid generation requested now confirmations =
     (let armed = \<lparr>rc_generation = generation, rc_requested_app_id = requested,
                   rc_expires_at = now + terminate_confirmation_window\<rparr> in
      case map_of confirmations client_uuid of
        Some pending \<Rightarrow>
          (let rest = AList.delete client_uuid confirmations in
           if rc_generation pending = generation \<and> rc_requested_app_id pending = requested \<and> rc_expires_at pending > now
           then (Replacement_confirmed, rest)
           else (Replacement_prompt, AList.update client_uuid armed rest))
      | None \<Rightarrow> (Replacement_prompt, AList.update client_uuid armed confirmations))"

definition app_replacement_confirmation_active ::
  "uuid \<Rightarrow> nat \<Rightarrow> time_point \<Rightarrow> (uuid, app_replacement_confirmation_t) umap
    \<Rightarrow> bool \<times> (uuid, app_replacement_confirmation_t) umap" where
  "app_replacement_confirmation_active client_uuid generation now confirmations =
     (case map_of confirmations client_uuid of
        None \<Rightarrow> (False, confirmations)
      | Some pending \<Rightarrow>
          if rc_generation pending = generation \<and> rc_expires_at pending > now then (True, confirmations)
          else (False, AList.delete client_uuid confirmations))"

definition clear_app_replacement_confirmation ::
  "uuid \<Rightarrow> (uuid, app_replacement_confirmation_t) umap \<Rightarrow> (uuid, app_replacement_confirmation_t) umap" where
  "clear_app_replacement_confirmation client_uuid confirmations = AList.delete client_uuid confirmations"

section \<open>Role policy\<close>

datatype capture_source_e = Active_output | Exact_output | Synthetic_black | Invalid_source

record capture_plan_t =
  cp_source :: capture_source_e
  cp_output :: "string option"

definition input_uses_display_or_audio :: "role_e \<Rightarrow> bool" where
  "input_uses_display_or_audio role \<longleftrightarrow> role \<noteq> Role_input"

definition uses_audio :: "role_e \<Rightarrow> bool \<Rightarrow> bool" where
  "uses_audio role mute_remote_monitor \<longleftrightarrow> role \<noteq> Role_input \<and> \<not> (role = Role_monitor \<and> mute_remote_monitor)"

definition uses_host_audio :: "role_e \<Rightarrow> bool" where
  "uses_host_audio role \<longleftrightarrow> role = Role_monitor"

definition disconnect_monitor_after_stream :: "bool \<Rightarrow> bool \<Rightarrow> bool \<Rightarrow> bool" where
  "disconnect_monitor_after_stream on_stream_end on_client_disconnect client_disconnected \<longleftrightarrow>
     on_stream_end \<or> (on_client_disconnect \<and> client_disconnected)"

definition capture_plan :: "role_e \<Rightarrow> string option \<Rightarrow> capture_plan_t" where
  "capture_plan role output =
     (if role = Role_input then \<lparr>cp_source = Synthetic_black, cp_output = None\<rparr>
      else if role = Role_monitor
      then (if output = None \<or> output = Some '''' then \<lparr>cp_source = Invalid_source, cp_output = None\<rparr>
            else \<lparr>cp_source = Exact_output, cp_output = output\<rparr>)
      else \<lparr>cp_source = Active_output, cp_output = None\<rparr>)"

record monitor_profile_t =
  mp_uuid :: string
  mp_app_overrides :: "(string, string) umap"
  mp_target :: "descriptor_t option"

definition select_monitor_profile :: "monitor_profile_t \<Rightarrow> monitor_profile_t option \<Rightarrow> monitor_profile_t option" where
  "select_monitor_profile requested retained =
     (if mp_uuid requested = '''' then None
      else case retained of
          None \<Rightarrow> Some requested
        | Some r \<Rightarrow>
            if mp_uuid r \<noteq> mp_uuid requested then None
            else if identify 0 (mp_uuid r) = Control_monitor then Some requested else Some r)"

section \<open>The monitor runtime behind its hooks\<close>

record monitor_runtime_state_t =
  ms_accepted :: bool
  ms_ready :: bool
  ms_retryable :: bool
  ms_output :: string
  ms_error :: string
  ms_hdr_enabled :: bool
  ms_target_hold :: "nat option"
  ms_exact_target :: "descriptor_t option"
  ms_conflict :: bool

definition default_state :: monitor_runtime_state_t where
  "default_state = \<lparr>ms_accepted = False, ms_ready = False, ms_retryable = False, ms_output = '''', ms_error = '''',
     ms_hdr_enabled = False, ms_target_hold = None, ms_exact_target = None, ms_conflict = False\<rparr>"

record 'w monitor_runtime_hooks_t =
  hk_activate_or_resume ::
    "(uuid \<Rightarrow> string \<Rightarrow> string \<Rightarrow> bool \<Rightarrow> nat \<Rightarrow> 'w \<Rightarrow> monitor_runtime_state_t \<times> 'w) option"
  hk_snapshot :: "(uuid \<Rightarrow> nat \<Rightarrow> 'w \<Rightarrow> monitor_runtime_state_t \<times> 'w) option"
  hk_explicit_release :: "(uuid \<Rightarrow> nat \<Rightarrow> string \<Rightarrow> 'w \<Rightarrow> bool \<times> 'w) option"
  hk_transport_lost :: "(uuid \<Rightarrow> nat \<Rightarrow> 'w \<Rightarrow> 'w) option"
  hk_unpair :: "(uuid \<Rightarrow> 'w \<Rightarrow> 'w) option"
  hk_shutdown :: "('w \<Rightarrow> 'w) option"

definition topology_not_ready :: monitor_runtime_state_t where
  "topology_not_ready = default_state\<lparr>ms_retryable := True, ms_error := ''Remote Monitor topology is not ready.''\<rparr>"

definition activate_or_resume_monitor ::
  "'w monitor_runtime_hooks_t \<Rightarrow> uuid \<Rightarrow> string \<Rightarrow> string \<Rightarrow> bool \<Rightarrow> nat \<Rightarrow> 'w \<Rightarrow> monitor_runtime_state_t \<times> 'w" where
  "activate_or_resume_monitor hooks client_uuid client_label requested_mode hdr_requested generation w =
     (case hk_activate_or_resume hooks of
        Some activate \<Rightarrow> activate client_uuid client_label requested_mode hdr_requested generation w
      | None \<Rightarrow> (topology_not_ready, w))"

definition exact_target_still_valid ::
  "(descriptor_t \<Rightarrow> observation_t option) option \<Rightarrow> nat option \<Rightarrow> registry_t \<Rightarrow> bool" where
  "exact_target_still_valid probe hold leases =
     (case (hold, probe) of
        (Some h, Some observe) \<Rightarrow> (case map_of (r_holds leases) h of
            None \<Rightarrow> False
          | Some (obj, _) \<Rightarrow> revalidate leases hold (observe (h_target obj)))
      | _ \<Rightarrow> False)"

text \<open>\<^verbatim>\<open>registry_t::acquire\<close> with no other thread between its two halves.\<close>

definition acquire_now ::
  "uuid \<Rightarrow> nat \<Rightarrow> descriptor_t \<Rightarrow> tmode_t \<Rightarrow> (descriptor_t \<Rightarrow> observation_t option) \<Rightarrow> registry_t
    \<Rightarrow> lease_result_t \<times> registry_t" where
  "acquire_now client generation target mode probe r =
     (case acquire_begin client generation target mode r of
        (Inl refused, r') \<Rightarrow> (refused, r')
      | (Inr k, r') \<Rightarrow> acquire_finish k (probe target) r')"

definition probe_reached :: "uuid \<Rightarrow> nat \<Rightarrow> descriptor_t \<Rightarrow> tmode_t \<Rightarrow> registry_t \<Rightarrow> bool" where
  "probe_reached client generation target mode r \<longleftrightarrow>
     (case fst (acquire_begin client generation target mode r) of Inl _ \<Rightarrow> False | Inr _ \<Rightarrow> True)"

text \<open>\<open>experimental\<close> is the build switch \<^verbatim>\<open>SUNSHINE_EXPERIMENTAL_TARGET_LEASES\<close>.\<close>

definition borrow_monitor_target ::
  "bool \<Rightarrow> (descriptor_t \<Rightarrow> observation_t option) option \<Rightarrow> uuid \<Rightarrow> nat \<Rightarrow> descriptor_t \<Rightarrow> tmode_t
    \<Rightarrow> string option \<Rightarrow> registry_t \<Rightarrow> monitor_runtime_state_t \<times> registry_t" where
  "borrow_monitor_target experimental probe client generation target mode requested_output r =
     (if \<not> experimental
      then (default_state\<lparr>ms_error := ''Exact target borrowing is an experimental private prototype and is disabled in this build.'',
              ms_conflict := True\<rparr>, r)
      else
        let observation = (case probe of None \<Rightarrow> None | Some observe \<Rightarrow> observe target);
            conflicts = (case (observation, requested_output) of
                (Some obs, Some out) \<Rightarrow> out \<noteq> '''' \<and> o_capture_output obs \<noteq> out
              | _ \<Rightarrow> False);
            checked_probe = (\<lambda>_. if conflicts then None else observation);
            (result, r') = acquire_now client generation target mode checked_probe r;
            output_conflict = (conflicts \<and> probe_reached client generation target mode r);
            accepted = (lr_hold result \<noteq> None)
        in (\<lparr>ms_accepted = accepted, ms_ready = accepted, ms_retryable = False, ms_output = lr_output result,
             ms_error = (if output_conflict
               then ''The paired-client output override conflicts with the retained exact target.'' else lr_error result),
             ms_hdr_enabled = tm_hdr mode, ms_target_hold = lr_hold result, ms_exact_target = lr_target result,
             ms_conflict = \<not> accepted\<rparr>, r'))"

definition monitor_runtime_snapshot ::
  "'w monitor_runtime_hooks_t \<Rightarrow> uuid \<Rightarrow> nat \<Rightarrow> registry_t \<times> 'w \<Rightarrow> monitor_runtime_state_t \<times> registry_t \<times> 'w" where
  "monitor_runtime_snapshot hooks client_uuid generation = (\<lambda>(leases, w).
     case lease_snapshot client_uuid generation leases of
       (Some borrowed, leases') \<Rightarrow>
         (default_state\<lparr>ms_accepted := True, ms_ready := True, ms_output := lr_output borrowed,
            ms_target_hold := lr_hold borrowed, ms_exact_target := lr_target borrowed\<rparr>, leases', w)
     | (None, leases') \<Rightarrow> (case hk_snapshot hooks of
           Some snapshot \<Rightarrow> (case snapshot client_uuid generation w of (st, w') \<Rightarrow> (st, leases', w'))
         | None \<Rightarrow> (topology_not_ready, leases', w)))"

definition release_monitor ::
  "'w monitor_runtime_hooks_t \<Rightarrow> uuid \<Rightarrow> nat \<Rightarrow> string \<Rightarrow> registry_t \<times> 'w \<Rightarrow> bool \<times> registry_t \<times> 'w" where
  "release_monitor hooks client_uuid generation reason = (\<lambda>(leases, w).
     case lease_release client_uuid generation leases of
       (Some handled, leases') \<Rightarrow> (handled, leases', w)
     | (None, leases') \<Rightarrow> (case hk_explicit_release hooks of
           Some release \<Rightarrow> (case release client_uuid generation reason w of (ok, w') \<Rightarrow> (ok, leases', w'))
         | None \<Rightarrow> (False, leases', w)))"

definition notify_monitor_transport_lost :: "'w monitor_runtime_hooks_t \<Rightarrow> uuid \<Rightarrow> nat \<Rightarrow> 'w \<Rightarrow> 'w" where
  "notify_monitor_transport_lost hooks client_uuid generation w =
     (case hk_transport_lost hooks of Some f \<Rightarrow> f client_uuid generation w | None \<Rightarrow> w)"

definition notify_monitor_unpair :: "'w monitor_runtime_hooks_t \<Rightarrow> uuid \<Rightarrow> registry_t \<times> 'w \<Rightarrow> registry_t \<times> 'w" where
  "notify_monitor_unpair hooks client_uuid = (\<lambda>(leases, w).
     (lease_revoke client_uuid leases, case hk_unpair hooks of Some f \<Rightarrow> f client_uuid w | None \<Rightarrow> w))"

definition notify_monitor_shutdown :: "'w monitor_runtime_hooks_t \<Rightarrow> registry_t \<times> 'w \<Rightarrow> registry_t \<times> 'w" where
  "notify_monitor_shutdown hooks = (\<lambda>(leases, w).
     (lease_shutdown leases, case hk_shutdown hooks of Some f \<Rightarrow> f w | None \<Rightarrow> w))"

section \<open>Pending launches\<close>

definition max_client_vdds :: nat where "max_client_vdds = 8"

record pending_t =
  pe_launch_id :: nat
  pe_client_uuid :: string
  pe_crypto_binding :: string
  pe_source_address :: string
  pe_encrypted :: bool
  pe_role :: role_e
  pe_generation :: nat
  pe_expires_at :: time_point

record pending_registry_t =
  rg_pending :: "(nat, pending_t) umap"
  rg_warning :: string

definition pending_expire :: "time_point \<Rightarrow> pending_registry_t \<Rightarrow> pending_registry_t" where
  "pending_expire now r = r\<lparr>rg_pending := filter (\<lambda>e. \<not> pe_expires_at (snd e) \<le> now) (rg_pending r)\<rparr>"

text \<open>\<^verbatim>\<open>add\<close> reads the clock itself (\<open>now\<close>); the third component is the warning it
  stores through its pointer argument.\<close>

definition pending_add :: "time_point \<Rightarrow> pending_t \<Rightarrow> pending_registry_t \<Rightarrow> bool \<times> pending_registry_t \<times> string option" where
  "pending_add now pending r0 =
     (let r = pending_expire now r0 in
      if pe_launch_id pending = 0 \<or> umap_contains (rg_pending r) (pe_launch_id pending) then (False, r, None)
      else if \<not> pe_encrypted pending \<and>
         length (filter (\<lambda>e. \<not> pe_encrypted (snd e) \<and> pe_source_address (snd e) = pe_source_address pending) (rg_pending r)) \<noteq> 0
      then (let warning = ''Plaintext RTSP has more than one pending launch for this source address; the new launch was rejected.''
            in (False, r\<lparr>rg_warning := warning\<rparr>, Some warning))
      else if length (rg_pending r) \<ge> max_client_vdds * 2 then (False, r, None)
      else (True, r\<lparr>rg_pending := AList.update (pe_launch_id pending) pending (rg_pending r)\<rparr>, None))"

text \<open>The loop of both match functions: \<open>Inl ()\<close> when a second entry satisfies the test.\<close>

fun match_only :: "(pending_t \<Rightarrow> bool) \<Rightarrow> pending_t option \<Rightarrow> (nat, pending_t) umap \<Rightarrow> unit + pending_t option" where
  "match_only P match [] = Inr match"
| "match_only P match ((i, pending) # es) =
     (if P pending then (if match \<noteq> None then Inl () else match_only P (Some pending) es)
      else match_only P match es)"

definition match_encrypted ::
  "string \<Rightarrow> string \<Rightarrow> time_point \<Rightarrow> pending_registry_t \<Rightarrow> pending_t option \<times> pending_registry_t" where
  "match_encrypted client_uuid crypto_binding now r0 =
     (let r = pending_expire now r0 in
      case match_only (\<lambda>p. pe_encrypted p \<and> pe_client_uuid p = client_uuid \<and> pe_crypto_binding p = crypto_binding)
             None (rg_pending r) of
        Inl _ \<Rightarrow> (None, r)
      | Inr m \<Rightarrow> (m, r))"

definition match_plaintext :: "string \<Rightarrow> time_point \<Rightarrow> pending_registry_t \<Rightarrow> pending_t option \<times> pending_registry_t" where
  "match_plaintext address now r0 =
     (let r = pending_expire now r0 in
      case match_only (\<lambda>p. \<not> pe_encrypted p \<and> pe_source_address p = address) None (rg_pending r) of
        Inl _ \<Rightarrow> (None, r\<lparr>rg_warning := ''Plaintext RTSP source-address routing became ambiguous and was rejected.''\<rparr>)
      | Inr m \<Rightarrow> (m, r))"

definition pending_erase :: "nat \<Rightarrow> pending_registry_t \<Rightarrow> pending_registry_t" where
  "pending_erase i r = r\<lparr>rg_pending := AList.delete i (rg_pending r)\<rparr>"

definition pending_clear :: "pending_registry_t \<Rightarrow> pending_registry_t" where
  "pending_clear r = r\<lparr>rg_pending := []\<rparr>"

section \<open>Client layouts\<close>

record placement_t =
  pl_client_uuid :: string
  pl_anchor_kind :: string
  pl_anchor_id :: string
  pl_edge :: string
  pl_alignment :: string
  pl_gap_px :: int
  pl_primary :: bool

fun check_placements ::
  "string list \<Rightarrow> string list \<Rightarrow> string list \<Rightarrow> bool \<Rightarrow> (string, string) umap \<Rightarrow> placement_t list
    \<Rightarrow> string + (string, string) umap" where
  "check_placements known physical seen primary parents [] = Inr parents"
| "check_placements known physical seen primary parents (p # ps) =
     (if pl_client_uuid p \<notin> set known \<or> pl_client_uuid p \<in> set seen \<or> pl_client_uuid p = pl_anchor_id p \<or>
         pl_gap_px p < 0 \<or> pl_gap_px p > 100000
      then Inl ''Invalid client placement.''
      else if (if pl_anchor_kind p = ''client'' then pl_anchor_id p \<notin> set known
               else pl_anchor_kind p \<noteq> ''physical'' \<or> pl_anchor_id p \<notin> set physical)
      then Inl ''Unknown layout anchor.''
      else if pl_edge p \<noteq> ''left'' \<and> pl_edge p \<noteq> ''right'' \<and> pl_edge p \<noteq> ''above'' \<and> pl_edge p \<noteq> ''below''
      then Inl ''Invalid layout edge.''
      else if pl_alignment p \<noteq> ''start'' \<and> pl_alignment p \<noteq> ''center'' \<and> pl_alignment p \<noteq> ''end''
      then Inl ''Invalid layout alignment.''
      else if pl_primary p \<and> primary then Inl ''Only one client display may be primary.''
      else check_placements known physical (pl_client_uuid p # seen) (primary \<or> pl_primary p)
             (if pl_anchor_kind p = ''client'' \<and> \<not> umap_contains parents (pl_client_uuid p)
              then AList.update (pl_client_uuid p) (pl_anchor_id p) parents else parents) ps)"

definition validate_layout :: "placement_t list \<Rightarrow> string list \<Rightarrow> string list \<Rightarrow> string option" where
  "validate_layout placements known_clients physical_ids =
     (case check_placements known_clients physical_ids [] False [] placements of
        Inl e \<Rightarrow> Some e
      | Inr parents \<Rightarrow>
          if list_ex (\<lambda>(child, _). anchor_cycle parents [] child) parents
          then Some ''Client display placement contains a cycle.'' else None)"

text \<open>\<^verbatim>\<open>validate_layout\<close> returns \<^verbatim>\<open>true\<close> exactly for \<open>None\<close>; the message is what it
  stores through \<^verbatim>\<open>error\<close>.\<close>

section \<open>Confirmation gates\<close>

text \<open>What both prompts promise: a request is confirmed exactly when the same request of the same
  client is armed and not expired; a confirmed request is forgotten, any other one is armed anew;
  nothing else arms one.\<close>

locale confirmation_gate =
  fixes confirms :: "uuid \<Rightarrow> nat \<Rightarrow> int \<Rightarrow> time_point \<Rightarrow> 's \<Rightarrow> bool"
    and event :: "'e \<Rightarrow> 's \<Rightarrow> 's"
    and request_of :: "'e \<Rightarrow> (uuid \<times> nat \<times> int \<times> time_point) option"
    and armed :: "'s \<Rightarrow> uuid \<Rightarrow> (nat \<times> int \<times> time_point) option"
    and window :: time_point
    and start :: 's
  assumes confirms_iff: "confirms u g a now s \<longleftrightarrow> (\<exists>x. armed s u = Some (g, a, x) \<and> now < x)"
    and request_armed: "request_of e = Some (u, g, a, now) \<Longrightarrow>
      armed (event e s) = (armed s)(u := if confirms u g a now s then None else Some (g, a, now + window))"
    and other_forgets: "request_of e = None \<Longrightarrow> armed (event e s) u = None \<or> armed (event e s) u = armed s u"
    and start_armed: "armed start u = None"
begin

definition last_prompt :: "'e list \<Rightarrow> uuid \<Rightarrow> nat \<Rightarrow> int \<Rightarrow> time_point \<Rightarrow> bool" where
  "last_prompt evs u g a t \<longleftrightarrow> (\<exists>pre e post. evs = pre @ e # post \<and> request_of e = Some (u, g, a, t) \<and>
     \<not> confirms u g a t (fold event pre start) \<and>
     (\<forall>e'\<in>set post. \<forall>r. request_of e' = Some r \<longrightarrow> fst r \<noteq> u))"

lemma last_prompt_snoc:
  "last_prompt evs u g a t \<Longrightarrow> (\<forall>r. request_of e = Some r \<longrightarrow> fst r \<noteq> u) \<Longrightarrow> last_prompt (evs @ [e]) u g a t"
proof -
  assume "last_prompt evs u g a t" and new: "\<forall>r. request_of e = Some r \<longrightarrow> fst r \<noteq> u"
  then obtain pre e0 post where "evs = pre @ e0 # post" "request_of e0 = Some (u, g, a, t)"
    "\<not> confirms u g a t (fold event pre start)" "\<forall>e'\<in>set post. \<forall>r. request_of e' = Some r \<longrightarrow> fst r \<noteq> u"
    unfolding last_prompt_def by blast
  with new show ?thesis unfolding last_prompt_def
    by (intro exI[of _ pre] exI[of _ e0] exI[of _ "post @ [e]"]) auto
qed

lemma armed_prompted: "armed (fold event evs start) u = Some (g, a, x) \<Longrightarrow> \<exists>t. x = t + window \<and> last_prompt evs u g a t"
proof (induction evs rule: rev_induct)
  case Nil
  then show ?case by (simp add: start_armed)
next
  case (snoc e evs)
  let ?s = "fold event evs start"
  show ?case
  proof (cases "request_of e")
    case None
    then have "armed ?s u = Some (g, a, x)" using snoc.prems other_forgets[OF None, of ?s u] by simp
    with snoc.IH None show ?thesis using last_prompt_snoc[of evs u g a _ e] by auto
  next
    case (Some r)
    obtain u' g' a' t' where r: "r = (u', g', a', t')" by (cases r)
    show ?thesis
    proof (cases "u' = u")
      case True
      with snoc.prems Some r have "g' = g" "a' = a" "x = t' + window" "\<not> confirms u g a t' ?s"
        by (auto simp: request_armed split: if_splits)
      then show ?thesis using Some r True unfolding last_prompt_def
        by (intro exI[of _ t'] conjI exI[of _ evs] exI[of _ e] exI[of _ "[]"]) auto
    next
      case False
      then have "armed ?s u = Some (g, a, x)" using snoc.prems Some r by (simp add: request_armed)
      with snoc.IH Some r False show ?thesis using last_prompt_snoc[of evs u g a _ e] by auto
    qed
  qed
qed

lemma confirmed_was_prompted:
  assumes "confirms u g a now (fold event evs start)"
  shows "\<exists>t. now < t + window \<and> last_prompt evs u g a t"
proof -
  from assms obtain x where x: "armed (fold event evs start) u = Some (g, a, x)" "now < x"
    by (auto simp: confirms_iff)
  from armed_prompted[OF x(1)] x(2) show ?thesis by blast
qed

lemma prompt_then_confirm:
  assumes "request_of e = Some (u, g, a, t)" "\<not> confirms u g a t s" "now < t + window"
  shows "confirms u g a now (event e s)"
  using assms by (auto simp: confirms_iff[of u g a now] request_armed)

end

datatype terminate_event_t = Terminate_request uuid nat int time_point | Terminate_clear uuid

fun terminate_event :: "terminate_event_t \<Rightarrow> (uuid, terminate_confirmation_t) umap \<Rightarrow> (uuid, terminate_confirmation_t) umap" where
  "terminate_event (Terminate_request u g a now) s = snd (arm_or_confirm_termination u g a now s)"
| "terminate_event (Terminate_clear u) s = clear_termination_confirmation u s"

fun terminate_request_of :: "terminate_event_t \<Rightarrow> (uuid \<times> nat \<times> int \<times> time_point) option" where
  "terminate_request_of (Terminate_request u g a now) = Some (u, g, a, now)"
| "terminate_request_of (Terminate_clear u) = None"

datatype replacement_event_t = Replacement_request uuid nat int time_point
  | Replacement_probe uuid nat time_point | Replacement_clear uuid

fun replacement_event ::
  "replacement_event_t \<Rightarrow> (uuid, app_replacement_confirmation_t) umap \<Rightarrow> (uuid, app_replacement_confirmation_t) umap" where
  "replacement_event (Replacement_request u g a now) s = snd (arm_or_confirm_app_replacement u g a now s)"
| "replacement_event (Replacement_probe u g now) s = snd (app_replacement_confirmation_active u g now s)"
| "replacement_event (Replacement_clear u) s = clear_app_replacement_confirmation u s"

fun replacement_request_of :: "replacement_event_t \<Rightarrow> (uuid \<times> nat \<times> int \<times> time_point) option" where
  "replacement_request_of (Replacement_request u g a now) = Some (u, g, a, now)"
| "replacement_request_of _ = None"

interpretation terminate_gate: confirmation_gate
  "\<lambda>u g a now s. fst (arm_or_confirm_termination u g a now s) = Terminate_confirmed"
  terminate_event terminate_request_of
  "\<lambda>s u. map_option (\<lambda>c. (tc_generation c, tc_app_id c, tc_expires_at c)) (map_of s u)"
  terminate_confirmation_window "[]"
proof unfold_locales
  fix e :: terminate_event_t and s :: "(uuid, terminate_confirmation_t) umap" and u :: uuid
  show "terminate_request_of e = None \<Longrightarrow>
    map_option (\<lambda>c. (tc_generation c, tc_app_id c, tc_expires_at c)) (map_of (terminate_event e s) u) = None \<or>
    map_option (\<lambda>c. (tc_generation c, tc_app_id c, tc_expires_at c)) (map_of (terminate_event e s) u) =
    map_option (\<lambda>c. (tc_generation c, tc_app_id c, tc_expires_at c)) (map_of s u)"
    by (cases e) (auto simp: clear_termination_confirmation_def)
next
  fix e :: terminate_event_t and s :: "(uuid, terminate_confirmation_t) umap" and u :: uuid and g a now
  show "terminate_request_of e = Some (u, g, a, now) \<Longrightarrow>
    (\<lambda>u. map_option (\<lambda>c. (tc_generation c, tc_app_id c, tc_expires_at c)) (map_of (terminate_event e s) u)) =
    (\<lambda>u. map_option (\<lambda>c. (tc_generation c, tc_app_id c, tc_expires_at c)) (map_of s u))
      (u := if fst (arm_or_confirm_termination u g a now s) = Terminate_confirmed then None
            else Some (g, a, now + terminate_confirmation_window))"
    by (cases e) (auto simp: arm_or_confirm_termination_def Let_def split: option.splits)
qed (auto simp: arm_or_confirm_termination_def Let_def split: option.splits)

interpretation replacement_gate: confirmation_gate
  "\<lambda>u g a now s. fst (arm_or_confirm_app_replacement u g a now s) = Replacement_confirmed"
  replacement_event replacement_request_of
  "\<lambda>s u. map_option (\<lambda>c. (rc_generation c, rc_requested_app_id c, rc_expires_at c)) (map_of s u)"
  terminate_confirmation_window "[]"
proof unfold_locales
  fix e :: replacement_event_t and s :: "(uuid, app_replacement_confirmation_t) umap" and u :: uuid
  show "replacement_request_of e = None \<Longrightarrow>
    map_option (\<lambda>c. (rc_generation c, rc_requested_app_id c, rc_expires_at c)) (map_of (replacement_event e s) u) = None \<or>
    map_option (\<lambda>c. (rc_generation c, rc_requested_app_id c, rc_expires_at c)) (map_of (replacement_event e s) u) =
    map_option (\<lambda>c. (rc_generation c, rc_requested_app_id c, rc_expires_at c)) (map_of s u)"
    by (cases e) (auto simp: clear_app_replacement_confirmation_def app_replacement_confirmation_active_def
        split: option.splits)
next
  fix e :: replacement_event_t and s :: "(uuid, app_replacement_confirmation_t) umap" and u :: uuid and g a now
  show "replacement_request_of e = Some (u, g, a, now) \<Longrightarrow>
    (\<lambda>u. map_option (\<lambda>c. (rc_generation c, rc_requested_app_id c, rc_expires_at c)) (map_of (replacement_event e s) u)) =
    (\<lambda>u. map_option (\<lambda>c. (rc_generation c, rc_requested_app_id c, rc_expires_at c)) (map_of s u))
      (u := if fst (arm_or_confirm_app_replacement u g a now s) = Replacement_confirmed then None
            else Some (g, a, now + terminate_confirmation_window))"
    by (cases e) (auto simp: arm_or_confirm_app_replacement_def Let_def split: option.splits)
qed (auto simp: arm_or_confirm_app_replacement_def Let_def split: option.splits)

text \<open>Termination takes two requests: whatever sequence of requests and clears came before, a
  request is confirmed only if the same client asked for the same generation and app less than 60
  seconds earlier, was prompted then, and made no other request since.
  (remote_session.cpp, arm_or_confirm_termination)\<close>

theorem termination_needs_prompt:
  assumes "fst (arm_or_confirm_termination u g a now (fold terminate_event evs [])) = Terminate_confirmed"
  shows "\<exists>pre t post. evs = pre @ Terminate_request u g a t # post \<and> now < t + 60 * 10 ^ 9 \<and>
    fst (arm_or_confirm_termination u g a t (fold terminate_event pre [])) = Terminate_prompt \<and>
    (\<forall>g' a' t'. Terminate_request u g' a' t' \<notin> set post)"
proof -
  obtain t pre e post where p: "now < t + terminate_confirmation_window" "evs = pre @ e # post"
    "terminate_request_of e = Some (u, g, a, t)"
    "fst (arm_or_confirm_termination u g a t (fold terminate_event pre [])) \<noteq> Terminate_confirmed"
    "\<forall>e'\<in>set post. \<forall>r. terminate_request_of e' = Some r \<longrightarrow> fst r \<noteq> u"
    using terminate_gate.confirmed_was_prompted[OF assms] unfolding terminate_gate.last_prompt_def by blast
  have "e = Terminate_request u g a t" using p(3) by (cases e) auto
  moreover have "Terminate_request u g' a' t' \<notin> set post" for g' a' t' using p(5) by fastforce
  moreover have "fst (arm_or_confirm_termination u g a t (fold terminate_event pre [])) = Terminate_prompt"
    using p(4) by (cases "fst (arm_or_confirm_termination u g a t (fold terminate_event pre []))") auto
  ultimately show ?thesis using p(1,2) by (auto simp: terminate_confirmation_window_def)
qed

theorem termination_needs_prompt_witness:
  "\<exists>pre t post. [Terminate_request ''tv'' 4 7 100] = pre @ Terminate_request ''tv'' 4 7 t # post \<and> 50 < t + 60 * 10 ^ 9"
proof -
  have "fst (arm_or_confirm_termination ''tv'' 4 7 50 (fold terminate_event [Terminate_request ''tv'' 4 7 100] [])) = Terminate_confirmed"
    by (simp add: arm_or_confirm_termination_def terminate_confirmation_window_def)
  from termination_needs_prompt[OF this] show ?thesis by blast
qed

text \<open>Replacing the running app takes two requests: the same contract for the app a client
  asks to launch over a running one, whatever requests, catalogue probes and clears came before;
  and a prompted request repeated within 60 seconds is confirmed.
  (remote_session.cpp, arm_or_confirm_app_replacement)\<close>

theorem replacement_needs_prompt:
  assumes "fst (arm_or_confirm_app_replacement u g a now (fold replacement_event evs [])) = r"
  shows "(r = Replacement_confirmed \<longrightarrow>
      (\<exists>pre t post. evs = pre @ Replacement_request u g a t # post \<and> now < t + 60 * 10 ^ 9 \<and>
        fst (arm_or_confirm_app_replacement u g a t (fold replacement_event pre [])) = Replacement_prompt \<and>
        (\<forall>g' a' t'. Replacement_request u g' a' t' \<notin> set post))) \<and>
    (r = Replacement_prompt \<longrightarrow> (\<forall>later. later < now + 60 * 10 ^ 9 \<longrightarrow>
      fst (arm_or_confirm_app_replacement u g a later
        (snd (arm_or_confirm_app_replacement u g a now (fold replacement_event evs [])))) = Replacement_confirmed))"
proof (intro conjI impI allI)
  assume "r = Replacement_confirmed"
  with assms have c: "fst (arm_or_confirm_app_replacement u g a now (fold replacement_event evs [])) = Replacement_confirmed"
    by simp
  obtain t pre e post where p: "now < t + terminate_confirmation_window" "evs = pre @ e # post"
    "replacement_request_of e = Some (u, g, a, t)"
    "fst (arm_or_confirm_app_replacement u g a t (fold replacement_event pre [])) \<noteq> Replacement_confirmed"
    "\<forall>e'\<in>set post. \<forall>r. replacement_request_of e' = Some r \<longrightarrow> fst r \<noteq> u"
    using replacement_gate.confirmed_was_prompted[OF c] unfolding replacement_gate.last_prompt_def by blast
  have "e = Replacement_request u g a t" using p(3) by (cases e) auto
  moreover have "Replacement_request u g' a' t' \<notin> set post" for g' a' t' using p(5) by fastforce
  moreover have "fst (arm_or_confirm_app_replacement u g a t (fold replacement_event pre [])) = Replacement_prompt"
    using p(4) by (cases "fst (arm_or_confirm_app_replacement u g a t (fold replacement_event pre []))") auto
  ultimately show "\<exists>pre t post. evs = pre @ Replacement_request u g a t # post \<and> now < t + 60 * 10 ^ 9 \<and>
        fst (arm_or_confirm_app_replacement u g a t (fold replacement_event pre [])) = Replacement_prompt \<and>
        (\<forall>g' a' t'. Replacement_request u g' a' t' \<notin> set post)"
    using p(1,2) by (auto simp: terminate_confirmation_window_def)
next
  fix later
  assume "r = Replacement_prompt" "later < now + 60 * 10 ^ 9"
  then show "fst (arm_or_confirm_app_replacement u g a later
      (snd (arm_or_confirm_app_replacement u g a now (fold replacement_event evs [])))) = Replacement_confirmed"
    using replacement_gate.prompt_then_confirm[of "Replacement_request u g a now" u g a now] assms
    by (simp add: terminate_confirmation_window_def)
qed

theorem replacement_needs_prompt_witness:
  "fst (arm_or_confirm_app_replacement ''tv'' 4 7 50 (snd (arm_or_confirm_app_replacement ''tv'' 4 7 40 []))) = Replacement_confirmed"
proof -
  have p: "fst (arm_or_confirm_app_replacement ''tv'' 4 7 40 (fold replacement_event [] [])) = Replacement_prompt"
    by (simp add: arm_or_confirm_app_replacement_def)
  show ?thesis using replacement_needs_prompt[OF p] by simp
qed

section \<open>Pending launches: lemmas\<close>

definition same_route :: "pending_t \<Rightarrow> pending_t \<Rightarrow> bool" where
  "same_route p q \<longleftrightarrow> \<not> pe_encrypted p \<and> \<not> pe_encrypted q \<and> pe_source_address p = pe_source_address q"

definition pending_map_ok :: "(nat, pending_t) umap \<Rightarrow> bool" where
  "pending_map_ok m \<longleftrightarrow> umap_ok m \<and> length m \<le> 16 \<and>
     (\<forall>i p. map_of m i = Some p \<longrightarrow> pe_launch_id p = i \<and> i \<noteq> 0) \<and>
     (\<forall>i j p q. map_of m i = Some p \<longrightarrow> map_of m j = Some q \<longrightarrow> same_route p q \<longrightarrow> i = j)"

definition pending_ok :: "pending_registry_t \<Rightarrow> bool" where
  "pending_ok r \<longleftrightarrow> pending_map_ok (rg_pending r)"

inductive pending_step :: "pending_registry_t \<Rightarrow> pending_registry_t \<Rightarrow> bool" where
  pstep_add: "pending_step r (fst (snd (pending_add now p r)))"
| pstep_encrypted: "pending_step r (snd (match_encrypted u b now r))"
| pstep_plaintext: "pending_step r (snd (match_plaintext addr now r))"
| pstep_expire: "pending_step r (pending_expire now r)"
| pstep_erase: "pending_step r (pending_erase i r)"
| pstep_clear: "pending_step r (pending_clear r)"

lemma pending_map_ok_submap:
  assumes "pending_map_ok m" "umap_ok m'" "length m' \<le> length m"
    and "\<And>i p. map_of m' i = Some p \<Longrightarrow> map_of m i = Some p"
  shows "pending_map_ok m'"
  unfolding pending_map_ok_def
proof (intro conjI allI impI)
  show "length m' \<le> 16" using assms(1,3) by (simp add: pending_map_ok_def)
  show "pe_launch_id p = i" "i \<noteq> 0" if "map_of m' i = Some p" for i p
    using assms(1) assms(4)[OF that] by (auto simp: pending_map_ok_def)
  show "i = j" if "map_of m' i = Some p" "map_of m' j = Some q" "same_route p q" for i j p q
    using assms(1) assms(4)[OF that(1)] assms(4)[OF that(2)] that(3) unfolding pending_map_ok_def by blast
qed (rule assms(2))

lemma map_of_expire:
  "umap_ok (rg_pending r) \<Longrightarrow> map_of (rg_pending (pending_expire now r)) i = Some p \<longleftrightarrow>
    map_of (rg_pending r) i = Some p \<and> now < pe_expires_at p"
  using map_of_filter_key[of "rg_pending r" "\<lambda>_ p. \<not> pe_expires_at p \<le> now" i]
  by (auto simp: pending_expire_def split: option.splits)

lemma pending_okD: "pending_ok r \<Longrightarrow> umap_ok (rg_pending r)"
  by (simp add: pending_ok_def pending_map_ok_def)

lemma pending_ok_expire: "pending_ok r \<Longrightarrow> pending_ok (pending_expire now r)"
proof -
  assume ok: "pending_ok r"
  show ?thesis unfolding pending_ok_def
  proof (rule pending_map_ok_submap)
    show "pending_map_ok (rg_pending r)" using ok by (simp add: pending_ok_def)
    show "umap_ok (rg_pending (pending_expire now r))"
      using pending_okD[OF ok] by (simp add: pending_expire_def umap_ok_filter)
    show "length (rg_pending (pending_expire now r)) \<le> length (rg_pending r)" by (simp add: pending_expire_def)
    show "map_of (rg_pending r) i = Some p" if "map_of (rg_pending (pending_expire now r)) i = Some p" for i p
      using that map_of_expire[OF pending_okD[OF ok]] by blast
  qed
qed

lemma pending_ok_erase: "pending_ok r \<Longrightarrow> pending_ok (pending_erase i r)"
proof -
  assume ok: "pending_ok r"
  have "pending_map_ok (AList.delete i (rg_pending r))"
    by (rule pending_map_ok_submap[of "rg_pending r"])
      (use ok pending_okD[OF ok] in \<open>simp_all add: pending_ok_def length_delete_le split: if_splits\<close>)
  then show ?thesis by (simp add: pending_ok_def pending_erase_def)
qed

lemma pending_map_ok_insert:
  assumes "pending_map_ok m" "length m < 16" "pe_launch_id p \<noteq> 0" "map_of m (pe_launch_id p) = None"
    and new: "\<And>i q. map_of m i = Some q \<Longrightarrow> \<not> same_route p q"
  shows "pending_map_ok (AList.update (pe_launch_id p) p m)"
  unfolding pending_map_ok_def
proof (intro conjI allI impI)
  let ?m = "AList.update (pe_launch_id p) p m"
  have sym: "same_route q p \<Longrightarrow> same_route p q" for q by (auto simp: same_route_def)
  show "umap_ok ?m" using assms(1) by (simp add: pending_map_ok_def)
  show "length ?m \<le> 16" using assms(2,4) by (simp add: length_update_new)
  show "pe_launch_id q = i" "i \<noteq> 0" if "map_of ?m i = Some q" for i q
    using that assms(1,3) by (auto simp: pending_map_ok_def split: if_splits)
  show "i = j" if "map_of ?m i = Some q" "map_of ?m j = Some q'" "same_route q q'" for i j q q'
    using that assms(1) new sym unfolding pending_map_ok_def by (auto split: if_splits)
qed

lemma pending_ok_add: "pending_ok r \<Longrightarrow> pending_ok (fst (snd (pending_add now p r)))"
proof -
  assume "pending_ok r"
  then have ok: "pending_ok (pending_expire now r)" by (rule pending_ok_expire)
  let ?m = "rg_pending (pending_expire now r)"
  have route: "\<not> same_route p q"
    if "pe_encrypted p \<or> filter (\<lambda>e. \<not> pe_encrypted (snd e) \<and> pe_source_address (snd e) = pe_source_address p) ?m = []"
      "map_of ?m i = Some q" for i q
    using that(1) map_of_SomeD[OF that(2)] by (force simp: same_route_def filter_empty_conv)
  have ins: "pending_map_ok (AList.update (pe_launch_id p) p ?m)"
    if "pe_launch_id p \<noteq> 0" "map_of ?m (pe_launch_id p) = None" "length ?m < 16"
      "pe_encrypted p \<or> filter (\<lambda>e. \<not> pe_encrypted (snd e) \<and> pe_source_address (snd e) = pe_source_address p) ?m = []"
    using that ok route by (intro pending_map_ok_insert) (auto simp: pending_ok_def)
  show ?thesis using ok ins
    by (auto simp: pending_add_def Let_def pending_ok_def max_client_vdds_def)
qed

lemma match_only_filter:
  "match_only P match m = (case filter P (map snd m) of
      [] \<Rightarrow> Inr match
    | p # ps \<Rightarrow> if match \<noteq> None \<or> ps \<noteq> [] then Inl () else Inr (Some p))"
  by (induction P match m rule: match_only.induct) (auto split: list.splits)

lemma match_only_Some:
  "match_only P None m = Inr (Some p) \<longleftrightarrow> filter P (map snd m) = [p]"
  by (auto simp: match_only_filter split: list.splits)

lemma pending_ok_match:
  assumes "pending_ok r"
  shows "pending_ok (snd (match_encrypted u b now r))" "pending_ok (snd (match_plaintext addr now r))"
  using pending_ok_expire[OF assms, of now]
  by (simp_all add: match_encrypted_def match_plaintext_def Let_def pending_ok_def split: sum.split)

lemma pending_ok_step: "pending_step r r' \<Longrightarrow> pending_ok r \<Longrightarrow> pending_ok r'"
  by (induction rule: pending_step.induct)
    (simp_all add: pending_ok_add pending_ok_match pending_ok_expire pending_ok_erase,
      simp add: pending_ok_def pending_clear_def pending_map_ok_def)

definition registry_empty :: pending_registry_t where
  "registry_empty = \<lparr>rg_pending = [], rg_warning = ''''\<rparr>"

interpretation pending: invariant_system "\<lambda>r. r = registry_empty" pending_step pending_ok
  by unfold_locales
    (simp add: registry_empty_def pending_ok_def pending_map_ok_def, blast intro: pending_ok_step)

lemma filter_none_entry:
  assumes "umap_ok m" "\<And>j q. map_of m j = Some q \<Longrightarrow> \<not> P q"
  shows "filter P (map snd m) = []"
proof -
  have "\<not> P (snd e)" if "e \<in> set m" for e
    using assms(2)[of "fst e" "snd e"] in_set_umap[OF assms(1), of "fst e" "snd e"] that by simp
  then show ?thesis by (auto simp: filter_empty_conv)
qed

lemma unique_entry_filter:
  assumes "umap_ok m" "map_of m i = Some p" "P p" "\<And>j q. map_of m j = Some q \<Longrightarrow> P q \<Longrightarrow> j = i"
  shows "filter P (map snd m) = [p]"
  using assms
proof (induction m)
  case Nil
  then show ?case by simp
next
  case (Cons e m)
  obtain k v where e: "e = (k, v)" by (cases e)
  have fresh: "map_of m k = None" using Cons.prems(1) by (simp add: e map_of_eq_None_iff)
  have tail: "map_of (e # m) j = Some q" if "map_of m j = Some q" for j q
    using that fresh by (cases "j = k") (simp_all add: e)
  have ok: "umap_ok m" using Cons.prems(1) by simp
  show ?case
  proof (cases "k = i")
    case True
    have "filter P (map snd m) = []"
    proof (rule filter_none_entry[OF ok])
      fix j q assume j: "map_of m j = Some q"
      with fresh have "j \<noteq> k" by force
      with Cons.prems(4)[OF tail[OF j]] True show "\<not> P q" by blast
    qed
    then show ?thesis using Cons.prems(2,3) True by (simp add: e)
  next
    case False
    have "map_of (e # m) k = Some v" by (simp add: e)
    with Cons.prems(4) False have "\<not> P v" by blast
    moreover have "map_of m i = Some p" using Cons.prems(2) False by (simp add: e)
    then have "filter P (map snd m) = [p]"
      using Cons.IH[OF ok _ Cons.prems(3)] Cons.prems(4) tail by blast
    ultimately show ?thesis by (simp add: e)
  qed
qed

lemma filter_single_entry:
  assumes "umap_ok m" "filter P (map snd m) = [p]"
  shows "\<exists>i. map_of m i = Some p" "P p" "map_of m j = Some q \<Longrightarrow> P q \<Longrightarrow> q = p"
proof -
  have "p \<in> set (filter P (map snd m))" using assms(2) by simp
  then show "\<exists>i. map_of m i = Some p" "P p" using assms(1) by (auto, metis map_of_is_SomeI)
  show "q = p" if "map_of m j = Some q" "P q"
  proof -
    have "q \<in> set (filter P (map snd m))" using that by (force dest: map_of_SomeD)
    then show ?thesis unfolding assms(2) by simp
  qed
qed

lemma filter_singleton_iff:
  assumes um: "umap_ok m" and key: "\<And>i j q. map_of m i = Some q \<Longrightarrow> map_of m j = Some q \<Longrightarrow> i = j"
  shows "filter P (map snd m) = [p] \<longleftrightarrow> (\<forall>q. (\<exists>i. map_of m i = Some q) \<and> P q \<longleftrightarrow> q = p)"
proof
  assume f: "filter P (map snd m) = [p]"
  show "\<forall>q. (\<exists>i. map_of m i = Some q) \<and> P q \<longleftrightarrow> q = p" using filter_single_entry[OF um f] by blast
next
  assume r: "\<forall>q. (\<exists>i. map_of m i = Some q) \<and> P q \<longleftrightarrow> q = p"
  then obtain i where i: "map_of m i = Some p" "P p" by blast
  show "filter P (map snd m) = [p]"
  proof (rule unique_entry_filter[of m i p P, OF um i])
    fix j q assume j: "map_of m j = Some q" "P q"
    then have "q = p" using r by blast
    then show "j = i" using i(1) j(1) key by blast
  qed
qed

text \<open>Routing of pending launches (C14): in every registry reached from the empty one there are at
  most 16 launches; a plaintext connection from an address finds a launch exactly when that launch
  is the registered, unexpired plaintext launch of the address (so the ambiguity branch is never
  taken); an encrypted connection finds a launch exactly when it is registered, unexpired, has the
  client and the key binding of the connection, and no other such launch exists.
  (remote_session.cpp, pending_registry_t)\<close>

theorem pending_routing:
  assumes "pending_step\<^sup>*\<^sup>* registry_empty r"
  shows "length (rg_pending r) \<le> 16 \<and>
    (fst (match_plaintext addr now r) = Some p \<longleftrightarrow>
      map_of (rg_pending r) (pe_launch_id p) = Some p \<and> now < pe_expires_at p \<and>
      \<not> pe_encrypted p \<and> pe_source_address p = addr) \<and>
    (fst (match_encrypted u b now r) = Some p \<longleftrightarrow>
      (\<forall>q. map_of (rg_pending r) (pe_launch_id q) = Some q \<and> now < pe_expires_at q \<and>
         pe_encrypted q \<and> pe_client_uuid q = u \<and> pe_crypto_binding q = b \<longleftrightarrow> q = p))"
proof -
  have ok: "pending_ok r" using pending.reach_inv assms by blast
  let ?m = "rg_pending (pending_expire now r)"
  have ok': "pending_map_ok ?m" using pending_ok_expire[OF ok] by (simp add: pending_ok_def)
  then have um: "umap_ok ?m" by (simp add: pending_map_ok_def)
  have ids: "map_of ?m i = Some q \<longleftrightarrow> i = pe_launch_id q \<and> map_of (rg_pending r) (pe_launch_id q) = Some q \<and> now < pe_expires_at q" for i q
  proof
    assume l: "map_of ?m i = Some q"
    with ok' have "pe_launch_id q = i" unfolding pending_map_ok_def by blast
    with l map_of_expire[OF pending_okD[OF ok], of now i q]
    show "i = pe_launch_id q \<and> map_of (rg_pending r) (pe_launch_id q) = Some q \<and> now < pe_expires_at q" by simp
  qed (simp add: map_of_expire[OF pending_okD[OF ok]])
  have single: "filter P (map snd ?m) = [p] \<longleftrightarrow> (\<forall>q. (\<exists>i. map_of ?m i = Some q) \<and> P q \<longleftrightarrow> q = p)" for P p
    by (rule filter_singleton_iff[OF um]) (simp add: ids)
  have plain: "(\<forall>q. (\<exists>i. map_of ?m i = Some q) \<and> (\<not> pe_encrypted q \<and> pe_source_address q = addr) \<longleftrightarrow> q = p) \<longleftrightarrow>
      (\<exists>i. map_of ?m i = Some p) \<and> \<not> pe_encrypted p \<and> pe_source_address p = addr"
  proof -
    have "q = p" if "map_of ?m i = Some q" "map_of ?m j = Some p" "same_route q p" for i j q
      using that ok' unfolding pending_map_ok_def by (metis option.inject)
    then have "q = p" if "\<exists>i. map_of ?m i = Some q" "\<not> pe_encrypted q \<and> pe_source_address q = addr"
        "\<exists>i. map_of ?m i = Some p" "\<not> pe_encrypted p \<and> pe_source_address p = addr" for q
      using that by (auto simp: same_route_def)
    then show ?thesis by blast
  qed
  have "fst (match_plaintext addr now r) = Some p \<longleftrightarrow>
      match_only (\<lambda>p. \<not> pe_encrypted p \<and> pe_source_address p = addr) None ?m = Inr (Some p)"
    by (auto simp: match_plaintext_def Let_def split: sum.splits)
  also have "\<dots> \<longleftrightarrow> (\<exists>i. map_of ?m i = Some p) \<and> \<not> pe_encrypted p \<and> pe_source_address p = addr"
    unfolding match_only_Some single plain by (rule refl)
  finally have 1: "fst (match_plaintext addr now r) = Some p \<longleftrightarrow>
      map_of (rg_pending r) (pe_launch_id p) = Some p \<and> now < pe_expires_at p \<and>
      \<not> pe_encrypted p \<and> pe_source_address p = addr" unfolding ids by blast
  have "fst (match_encrypted u b now r) = Some p \<longleftrightarrow>
      match_only (\<lambda>p. pe_encrypted p \<and> pe_client_uuid p = u \<and> pe_crypto_binding p = b) None ?m = Inr (Some p)"
    by (auto simp: match_encrypted_def Let_def split: sum.splits)
  also have "\<dots> \<longleftrightarrow> (\<forall>q. map_of (rg_pending r) (pe_launch_id q) = Some q \<and> now < pe_expires_at q \<and>
         pe_encrypted q \<and> pe_client_uuid q = u \<and> pe_crypto_binding q = b \<longleftrightarrow> q = p)"
    unfolding match_only_Some single ids by blast
  finally have 2: "fst (match_encrypted u b now r) = Some p \<longleftrightarrow> (\<forall>q. map_of (rg_pending r) (pe_launch_id q) = Some q \<and> now < pe_expires_at q \<and>
         pe_encrypted q \<and> pe_client_uuid q = u \<and> pe_crypto_binding q = b \<longleftrightarrow> q = p)" .
  have "length (rg_pending r) \<le> 16" using ok by (simp add: pending_ok_def pending_map_ok_def)
  with 1 2 show ?thesis by blast
qed

definition demo_pending :: pending_t where
  "demo_pending = \<lparr>pe_launch_id = 5, pe_client_uuid = ''phone'', pe_crypto_binding = '''', pe_source_address = ''10.0.0.2'',
     pe_encrypted = False, pe_role = Role_game, pe_generation = 1, pe_expires_at = 90\<rparr>"

theorem pending_routing_witness:
  "fst (match_plaintext ''10.0.0.2'' 50 (fst (snd (pending_add 10 demo_pending registry_empty)))) = Some demo_pending"
proof -
  have reach: "pending_step\<^sup>*\<^sup>* registry_empty (fst (snd (pending_add 10 demo_pending registry_empty)))"
    by (rule r_into_rtranclp) (rule pstep_add)
  have "map_of (rg_pending (fst (snd (pending_add 10 demo_pending registry_empty)))) 5 = Some demo_pending"
    by (simp add: pending_add_def demo_pending_def registry_empty_def pending_expire_def max_client_vdds_def)
  then show ?thesis
    using pending_routing[OF reach, of "''10.0.0.2''" 50 demo_pending] by (simp add: demo_pending_def)
qed

section \<open>Client layouts: lemmas\<close>

definition placement_valid :: "string list \<Rightarrow> string list \<Rightarrow> placement_t \<Rightarrow> bool" where
  "placement_valid known physical p \<longleftrightarrow> pl_client_uuid p \<in> set known \<and> pl_client_uuid p \<noteq> pl_anchor_id p \<and>
     0 \<le> pl_gap_px p \<and> pl_gap_px p \<le> 100000 \<and>
     (pl_anchor_kind p = ''client'' \<and> pl_anchor_id p \<in> set known \<or>
      pl_anchor_kind p = ''physical'' \<and> pl_anchor_id p \<in> set physical) \<and>
     pl_edge p \<in> {''left'', ''right'', ''above'', ''below''} \<and> pl_alignment p \<in> {''start'', ''center'', ''end''}"

definition anchor_rel :: "placement_t list \<Rightarrow> (string \<times> string) set" where
  "anchor_rel ps = {(pl_client_uuid p, pl_anchor_id p) | p. p \<in> set ps \<and> pl_anchor_kind p = ''client''}"

lemma check_placements_spec:
  "check_placements known physical seen primary parents ps = Inr parents' \<Longrightarrow>
    fst ` set parents \<subseteq> set seen \<Longrightarrow> umap_ok parents \<Longrightarrow>
    (\<forall>p\<in>set ps. placement_valid known physical p) \<and> distinct (map pl_client_uuid ps) \<and>
    set (map pl_client_uuid ps) \<inter> set seen = {} \<and>
    length (filter pl_primary ps) + (if primary then 1 else 0) \<le> 1 \<and>
    set parents' = set parents \<union> anchor_rel ps \<and> umap_ok parents'"
proof (induction known physical seen primary parents ps rule: check_placements.induct)
  case (1 known physical seen primary parents)
  then show ?case by (auto simp: anchor_rel_def)
next
  case (2 known physical seen primary parents p ps)
  let ?parents = "if pl_anchor_kind p = ''client'' \<and> \<not> umap_contains parents (pl_client_uuid p)
              then AList.update (pl_client_uuid p) (pl_anchor_id p) parents else parents"
  have guards: "placement_valid known physical p" "pl_client_uuid p \<notin> set seen" "\<not> (pl_primary p \<and> primary)"
    and rec: "check_placements known physical (pl_client_uuid p # seen) (primary \<or> pl_primary p) ?parents ps = Inr parents'"
    using 2(2) by (auto simp: placement_valid_def split: if_splits)
  have fresh: "map_of parents (pl_client_uuid p) = None"
    using guards(2) 2(3) by (auto simp: map_of_eq_None_iff)
  have up: "set ?parents = set parents \<union> anchor_rel [p]"
    using fresh by (auto simp: set_update_new anchor_rel_def)
  then have keys: "fst ` set ?parents \<subseteq> set (pl_client_uuid p # seen)" using 2(3) by (auto simp: anchor_rel_def)
  have um: "umap_ok ?parents" using 2(4) by simp
  have rel: "anchor_rel (p # ps) = anchor_rel [p] \<union> anchor_rel ps" by (auto simp: anchor_rel_def)
  have ih: "(\<forall>p\<in>set ps. placement_valid known physical p) \<and> distinct (map pl_client_uuid ps) \<and>
    set (map pl_client_uuid ps) \<inter> set (pl_client_uuid p # seen) = {} \<and>
    length (filter pl_primary ps) + (if primary \<or> pl_primary p then 1 else 0) \<le> 1 \<and>
    set parents' = set ?parents \<union> anchor_rel ps \<and> umap_ok parents'"
    by (rule 2(1)[OF _ _ _ _ _ rec keys um]) (use guards in \<open>auto simp: placement_valid_def\<close>)
  then show ?case using guards unfolding rel up by (auto split: if_splits)
qed

lemma check_placements_complete:
  assumes "\<forall>p\<in>set ps. placement_valid known physical p" "distinct (map pl_client_uuid ps)"
    "set (map pl_client_uuid ps) \<inter> set seen = {}"
    "length (filter pl_primary ps) + (if primary then 1 else 0) \<le> 1"
  shows "\<exists>parents'. check_placements known physical seen primary parents ps = Inr parents'"
  using assms
proof (induction ps arbitrary: seen primary parents)
  case Nil
  then show ?case by simp
next
  case (Cons p ps)
  have tail: "\<forall>p\<in>set ps. placement_valid known physical p" "distinct (map pl_client_uuid ps)"
    "set (map pl_client_uuid ps) \<inter> set (pl_client_uuid p # seen) = {}"
    "length (filter pl_primary ps) + (if primary \<or> pl_primary p then 1 else 0) \<le> 1"
    using Cons.prems by (auto split: if_splits)
  have "placement_valid known physical p" "pl_client_uuid p \<notin> set seen" "\<not> (pl_primary p \<and> primary)"
    using Cons.prems by (auto split: if_splits)
  then show ?case using Cons.IH[OF tail] by (auto simp: placement_valid_def)
qed

text \<open>What a saved client layout may be (C40): a layout is accepted exactly when every placement
  names a known client and a known anchor other than itself, a valid edge, alignment and gap, no
  client is placed twice, at most one display is primary, and the client anchors form no cycle.
  (remote_session.cpp, validate_layout)\<close>

theorem validate_layout_iff:
  "validate_layout ps known physical = None \<longleftrightarrow>
    (\<forall>p\<in>set ps. placement_valid known physical p) \<and> distinct (map pl_client_uuid ps) \<and>
    length (filter pl_primary ps) \<le> 1 \<and> acyclic (anchor_rel ps)"
proof (cases "check_placements known physical [] False [] ps")
  case (Inl e)
  have "\<not> ((\<forall>p\<in>set ps. placement_valid known physical p) \<and> distinct (map pl_client_uuid ps) \<and>
      length (filter pl_primary ps) \<le> 1)"
    using check_placements_complete[of ps known physical "[]" False "[]"] Inl by auto
  then show ?thesis using Inl by (auto simp: validate_layout_def)
next
  case (Inr parents)
  have spec: "\<forall>p\<in>set ps. placement_valid known physical p" "distinct (map pl_client_uuid ps)"
    "length (filter pl_primary ps) \<le> 1" "set parents = anchor_rel ps" "umap_ok parents"
    using check_placements_spec[OF Inr] by auto
  have "list_ex (\<lambda>(child, _). anchor_cycle parents [] child) parents \<longleftrightarrow> \<not> acyclic (set parents)"
    by (rule some_anchor_cycle[OF spec(5)])
  then show ?thesis using Inr spec by (simp add: validate_layout_def)
qed

definition demo_layout :: "placement_t list" where
  "demo_layout =
     [\<lparr>pl_client_uuid = ''a'', pl_anchor_kind = ''client'', pl_anchor_id = ''b'', pl_edge = ''left'',
       pl_alignment = ''start'', pl_gap_px = 0, pl_primary = True\<rparr>,
      \<lparr>pl_client_uuid = ''b'', pl_anchor_kind = ''physical'', pl_anchor_id = ''m'', pl_edge = ''above'',
       pl_alignment = ''end'', pl_gap_px = 10, pl_primary = False\<rparr>]"

theorem validate_layout_iff_witness: "validate_layout demo_layout [''a'', ''b''] [''m''] = None"
proof -
  have image: "anchor_rel ps = (\<lambda>p. (pl_client_uuid p, pl_anchor_id p)) ` set (filter (\<lambda>p. pl_anchor_kind p = ''client'') ps)" for ps
    by (auto simp: anchor_rel_def)
  have "filter (\<lambda>p. pl_anchor_kind p = ''client'') demo_layout = [hd demo_layout]" by (simp add: demo_layout_def)
  then have rel: "anchor_rel demo_layout = {(''a'', ''b'')}" unfolding image by (simp only:) (simp add: demo_layout_def)
  have acyc: "acyclic {(''a'', ''b'')}" by (simp add: acyclic_insert) (simp add: acyclic_def)
  show ?thesis unfolding validate_layout_iff rel
    using acyc by (intro conjI) (simp_all only:, simp_all add: placement_valid_def demo_layout_def)
qed

section \<open>Release of a borrowed monitor\<close>

text \<open>Releasing a borrowed monitor: the release of the generation that owns a lease is done by
  the lease registry alone: it succeeds, the runtime's hook does not run, the client owns no lease
  afterwards, repeating the request changes nothing, and no acquisition of that or an older
  generation is admitted again. (remote_session.cpp, release_monitor; display_target_lease.h)\<close>

theorem release_monitor_final:
  assumes "map_of (r_owners leases) client = Some w" "umap_ok (r_owners leases)"
  shows "\<exists>leases'. release_monitor hooks client (lo_generation w) reason (leases, world) = (True, leases', world) \<and>
    map_of (r_owners leases') client = None \<and>
    release_monitor hooks client (lo_generation w) reason' (leases', world) = (True, leases', world) \<and>
    (\<forall>g tgt m probe. g \<le> lo_generation w \<longrightarrow> lr_hold (fst (acquire_now client g tgt m probe leases')) = None)"
proof -
  let ?r = "leases\<lparr>r_released := AList.update client (lo_generation w) (r_released leases),
    r_owners := AList.delete client (r_owners leases)\<rparr>"
  let ?l = "drop_hold (lo_hold w) ?r"
  have rel: "lease_release client (lo_generation w) leases = (Some True, ?l)"
    using assms(1) by (simp add: lease_release_def)
  have own: "r_owners ?l = AList.delete client (r_owners leases)"
    and cnt: "r_released ?l = AList.update client (lo_generation w) (r_released leases)" by simp_all
  have again: "lease_release client (lo_generation w) ?l = (Some True, ?l)"
    unfolding lease_release_def own cnt by simp
  have "lr_hold (fst (acquire_now client g tgt m probe ?l)) = None" if "g \<le> lo_generation w" for g tgt m probe
  proof -
    have "\<exists>e r'. acquire_begin client g tgt m ?l = (Inl (lease_error e), r')"
      unfolding acquire_begin_def own cnt using that by auto
    then show ?thesis by (auto simp: acquire_now_def lease_error_def)
  qed
  then show ?thesis using rel again own by (intro exI[of _ ?l]) (simp add: release_monitor_def)
qed

definition no_hooks :: "unit monitor_runtime_hooks_t" where
  "no_hooks = \<lparr>hk_activate_or_resume = None, hk_snapshot = None, hk_explicit_release = None,
     hk_transport_lost = None, hk_unpair = None, hk_shutdown = None\<rparr>"

theorem release_monitor_final_witness:
  "\<exists>leases'. release_monitor no_hooks ''c'' 1 ''bye'' (ls_reg demo_sys2, ()) = (True, leases', ()) \<and>
     map_of (r_owners leases') ''c'' = None"
proof -
  have own: "\<exists>w. map_of (r_owners (ls_reg demo_sys2)) ''c'' = Some w \<and> lo_generation w = 1" "umap_ok (r_owners (ls_reg demo_sys2))"
    by (simp_all add: demo_defs Let_def)
  then obtain w where w: "map_of (r_owners (ls_reg demo_sys2)) ''c'' = Some w" "lo_generation w = 1" by blast
  from release_monitor_final[OF w(1) own(2), of no_hooks "''bye''" "()" "''''"] w(2) show ?thesis by auto
qed

end
