(* ===== verification/Topology_Layout.thy ===== *)
theory Topology_Layout
  imports Anchor_Graph "HOL-Library.Multiset" "HOL-Library.Char_ord" "HOL-Library.List_Lexorder" "HOL-Library.Product_Lexorder"
begin

text \<open>
  Geometry of the composed desktop (\<^verbatim>\<open>src/src/remote_display_topology.cpp\<close>): the saved layout,
  its validation and upkeep, the placement of one display beside another, and the composition of the
  desktop from the physical baseline and the client displays. The layout is the document after its
  schema check, so a placement is a record whose optional flags are false when absent. Coordinates are
  unbounded integers (the code uses \<^verbatim>\<open>int\<close>; gaps are at most 100000 and modes are display
  sizes), and \<^verbatim>\<open>/ 2\<close> truncates towards zero.
\<close>

section \<open>Data\<close>

record mode_t =
  m_width :: int
  m_height :: int
  m_refresh_hz :: int
  m_hdr :: bool

definition default_mode :: mode_t where
  "default_mode = \<lparr>m_width = 1920, m_height = 1080, m_refresh_hz = 60, m_hdr = False\<rparr>"

record node_t =
  n_id :: string
  n_device_id :: string
  n_label :: string
  n_preexisting :: bool
  n_physical :: bool
  n_active :: bool
  n_primary :: bool
  n_x :: int
  n_y :: int
  n_configured_mode :: mode_t
  n_last_requested_mode :: "mode_t option"
  n_current_mode :: "mode_t option"
  n_layout_width :: "int option"
  n_layout_height :: "int option"

record placement_rule_t =
  lp_anchor_kind :: string
  lp_anchor_id :: string
  lp_edge :: string
  lp_alignment :: string
  lp_gap_px :: int
  lp_primary :: bool
  lp_preserve :: bool
  lp_automatic_fallback :: bool

type_synonym layout_t = "(string, placement_rule_t) umap"

record saved_stream_layout_t =
  sl_position :: "node_t option"
  sl_primary_requested :: bool

section \<open>Geometry\<close>

definition value_or :: "'a option \<Rightarrow> 'a \<Rightarrow> 'a" where
  "value_or v d = (case v of None \<Rightarrow> d | Some x \<Rightarrow> x)"

definition effective_mode :: "node_t \<Rightarrow> mode_t" where
  "effective_mode node = value_or (n_current_mode node) (value_or (n_last_requested_mode node) (n_configured_mode node))"

definition layout_width :: "node_t \<Rightarrow> int" where
  "layout_width node = value_or (n_layout_width node) (m_width (effective_mode node))"

definition layout_height :: "node_t \<Rightarrow> int" where
  "layout_height node = value_or (n_layout_height node) (m_height (effective_mode node))"

definition aligned :: "string \<Rightarrow> int \<Rightarrow> int \<Rightarrow> int \<Rightarrow> int" where
  "aligned alignment origin anchor_extent extent =
     (if alignment = ''start'' then origin
      else if alignment = ''end'' then origin + anchor_extent - extent
      else origin + (anchor_extent - extent) sdiv 2)"

definition place_relative :: "node_t \<Rightarrow> node_t \<Rightarrow> placement_rule_t \<Rightarrow> node_t" where
  "place_relative node anchor placement =
     (let anchor_width = layout_width anchor; anchor_height = layout_height anchor;
          width = layout_width node; height = layout_height node;
          gap = lp_gap_px placement; edge = lp_edge placement; alignment = lp_alignment placement in
      node\<lparr>n_x := (if edge = ''left'' then n_x anchor - width - gap
                   else if edge = ''right'' then n_x anchor + anchor_width + gap
                   else if edge = ''above'' \<or> edge = ''below'' then aligned alignment (n_x anchor) anchor_width width
                   else n_x node),
           n_y := (if edge = ''above'' then n_y anchor - height - gap
                   else if edge = ''below'' then n_y anchor + anchor_height + gap
                   else if edge = ''left'' \<or> edge = ''right'' then aligned alignment (n_y anchor) anchor_height height
                   else n_y node)\<rparr>)"

section \<open>The saved layout\<close>

definition is_automatic_fallback :: "placement_rule_t \<Rightarrow> bool" where
  "is_automatic_fallback p \<longleftrightarrow> lp_automatic_fallback p \<and> lp_preserve p \<and> lp_anchor_kind p = ''physical'' \<and> lp_anchor_id p = ''''"

definition normalize_rule :: "placement_rule_t \<Rightarrow> placement_rule_t" where
  "normalize_rule p = (if lp_automatic_fallback p \<and> \<not> is_automatic_fallback p then p\<lparr>lp_automatic_fallback := False\<rparr> else p)"

definition normalize_layout :: "layout_t \<Rightarrow> layout_t" where
  "normalize_layout layout = umap_map (\<lambda>_. normalize_rule) layout"

definition detach_anchor :: "string \<Rightarrow> placement_rule_t \<Rightarrow> placement_rule_t" where
  "detach_anchor client_uuid p =
     (if lp_anchor_kind p = ''client'' \<and> lp_anchor_id p = client_uuid
      then if \<not> lp_preserve p
           then p\<lparr>lp_anchor_kind := ''physical'', lp_anchor_id := '''', lp_preserve := True, lp_automatic_fallback := True\<rparr>
           else p\<lparr>lp_anchor_kind := ''physical'', lp_anchor_id := ''''\<rparr>
      else p)"

definition remove_client_from_layout :: "layout_t \<Rightarrow> string \<Rightarrow> layout_t" where
  "remove_client_from_layout layout client_uuid =
     umap_map (\<lambda>_. detach_anchor client_uuid) (AList.delete client_uuid (normalize_layout layout))"

fun check_rules :: "string list \<Rightarrow> string list \<Rightarrow> nat \<Rightarrow> (string, string) umap \<Rightarrow> layout_t \<Rightarrow> string + (string, string) umap" where
  "check_rules known physical primary_count anchors [] = Inr anchors"
| "check_rules known physical primary_count anchors ((client, p) # rest) =
     (if client \<notin> set known then Inl ''Every placement must name a paired client.''
      else if lp_preserve p \<and> \<not> is_automatic_fallback p then check_rules known physical primary_count anchors rest
      else let primary_count' = (if lp_primary p then Suc primary_count else primary_count) in
        if lp_primary p \<and> primary_count' > 1 then Inl ''Only one client display may be primary.''
        else if is_automatic_fallback p then check_rules known physical primary_count' anchors rest
        else if lp_anchor_kind p = ''client''
        then if lp_anchor_id p \<notin> set known \<or> lp_anchor_id p = client
             then Inl ''A client placement cannot anchor to itself or an unknown client.''
             else check_rules known physical primary_count'
                    (if umap_contains anchors client then anchors else AList.update client (lp_anchor_id p) anchors) rest
        else if lp_anchor_id p \<notin> set physical
        then Inl ''A physical placement must anchor to a currently known monitor device path.''
        else check_rules known physical primary_count' anchors rest)"

definition topology_validate_layout :: "layout_t \<Rightarrow> string list \<Rightarrow> string list \<Rightarrow> string option" where
  "topology_validate_layout layout known_clients known_physical_ids =
     (case check_rules known_clients known_physical_ids 0 [] layout of
        Inl e \<Rightarrow> Some e
      | Inr anchors \<Rightarrow>
          if list_ex (\<lambda>(start, _). anchor_cycle anchors [] start) anchors
          then Some ''Client placements must not contain an anchor cycle.'' else None)"

definition saved_stream_placement :: "layout_t \<Rightarrow> node_t \<Rightarrow> node_t list \<Rightarrow> saved_stream_layout_t" where
  "saved_stream_placement layout target active_nodes =
     (case map_of layout (n_id target) of
        None \<Rightarrow> \<lparr>sl_position = None, sl_primary_requested = False\<rparr>
      | Some p \<Rightarrow>
          if is_automatic_fallback p then \<lparr>sl_position = None, sl_primary_requested = lp_primary p\<rparr>
          else if lp_preserve p then \<lparr>sl_position = Some target, sl_primary_requested = n_primary target\<rparr>
          else (case find (\<lambda>c. n_active c \<and> n_id c = lp_anchor_id p \<and> n_physical c = (lp_anchor_kind p = ''physical'')) active_nodes of
              None \<Rightarrow> \<lparr>sl_position = None, sl_primary_requested = False\<rparr>
            | Some anchor \<Rightarrow>
                let node = place_relative (target\<lparr>n_primary := lp_primary p\<rparr>) anchor p
                in \<lparr>sl_position = Some node, sl_primary_requested = n_primary node\<rparr>))"

section \<open>Client displays\<close>

datatype lifecycle_e = Desired | Leased | Applying | Ready | Retryable | Released

record client_state_t =
  cl_label :: string
  cl_normal_requested_mode :: "mode_t option"
  cl_monitor_requested_mode :: "mode_t option"
  cl_effective_mode :: mode_t
  cl_normal_game :: bool
  cl_normal_game_token :: nat
  cl_normal_release_pending :: bool
  cl_capture_references :: "(nat, nat) umap"
  cl_remote_monitor :: bool
  cl_monitor_release_pending :: bool
  cl_monitor_release_reason :: string
  cl_lease_held :: bool
  cl_deferred_reconfiguration :: bool
  cl_shared_mode_unverified :: bool
  cl_generation :: nat
  cl_placement_order :: nat
  cl_exact_output :: string
  cl_lifecycle :: lifecycle_e
  cl_warning :: string

definition default_client :: client_state_t where
  "default_client = \<lparr>cl_label = '''', cl_normal_requested_mode = None, cl_monitor_requested_mode = None,
     cl_effective_mode = default_mode, cl_normal_game = False, cl_normal_game_token = 0,
     cl_normal_release_pending = False, cl_capture_references = [], cl_remote_monitor = False,
     cl_monitor_release_pending = False, cl_monitor_release_reason = '''', cl_lease_held = False,
     cl_deferred_reconfiguration = False, cl_shared_mode_unverified = False, cl_generation = 0,
     cl_placement_order = 0, cl_exact_output = '''', cl_lifecycle = Desired, cl_warning = ''''\<rparr>"

abbreviation owns_display :: "client_state_t \<Rightarrow> bool" where
  "owns_display st \<equiv> cl_remote_monitor st \<or> cl_normal_game st"

section \<open>Composition\<close>

text \<open>The locals of \<^verbatim>\<open>compose_locked\<close> that its recursive closure \<^verbatim>\<open>emit\<close> shares.\<close>

record compose_t =
  cs_nodes :: "node_t list"
  cs_rightmost :: int
  cs_emitted :: "string list"
  cs_visiting :: "string list"
  cs_warnings :: "string list"

definition client_node :: "string \<Rightarrow> client_state_t \<Rightarrow> node_t" where
  "client_node uuid st = \<lparr>n_id = uuid, n_device_id = '''', n_label = cl_label st, n_preexisting = False,
     n_physical = False, n_active = True, n_primary = False, n_x = 0, n_y = 0,
     n_configured_mode = cl_effective_mode st, n_last_requested_mode = Some (cl_effective_mode st),
     n_current_mode = None, n_layout_width = None, n_layout_height = None\<rparr>"

definition append_right :: "node_t \<Rightarrow> string \<Rightarrow> compose_t \<Rightarrow> compose_t" where
  "append_right node warning c =
     c\<lparr>cs_rightmost := cs_rightmost c + layout_width node,
       cs_warnings := cs_warnings c @ (if warning = '''' then [] else [warning]),
       cs_nodes := cs_nodes c @ [node\<lparr>n_x := cs_rightmost c\<rparr>],
       cs_emitted := n_id node # cs_emitted c\<rparr>"

definition leave :: "string \<Rightarrow> compose_t \<Rightarrow> compose_t" where
  "leave uuid c = c\<lparr>cs_visiting := removeAll uuid (cs_visiting c)\<rparr>"

definition quoted :: "string \<Rightarrow> string" where
  "quoted s = [CHR 0x27] @ s @ [CHR 0x27]"

text \<open>The end of \<^verbatim>\<open>emit\<close>, once the display it is anchored to has been emitted.\<close>

definition emit_anchored :: "string \<Rightarrow> node_t \<Rightarrow> placement_rule_t \<Rightarrow> compose_t \<Rightarrow> compose_t" where
  "emit_anchored uuid node placement c =
     (if uuid \<in> set (cs_emitted c) \<and> lp_anchor_kind placement = ''client'' then leave uuid c
      else case find (\<lambda>candidate. n_id candidate = lp_anchor_id placement) (cs_nodes c) of
          None \<Rightarrow> leave uuid (append_right node
            (''Saved anchor '' @ quoted (lp_anchor_id placement) @
             '' is unavailable; the client display was appended to the right for this activation.'') c)
        | Some anchor \<Rightarrow>
            let placed = place_relative node anchor placement in
            leave uuid (c\<lparr>cs_rightmost := max (cs_rightmost c) (n_x placed + layout_width placed),
              cs_nodes := cs_nodes c @ [placed], cs_emitted := uuid # cs_emitted c\<rparr>))"

function emit :: "(string, client_state_t) umap \<Rightarrow> layout_t \<Rightarrow> string \<Rightarrow> compose_t \<Rightarrow> compose_t" where
  "emit clients layout uuid c =
     (if uuid \<in> set (cs_emitted c) then c
      else case map_of clients uuid of
        None \<Rightarrow> c
      | Some st \<Rightarrow>
        if \<not> owns_display st then c
        else let node = client_node uuid st in
        if uuid \<in> set (cs_visiting c)
        then append_right node (''Saved client anchors contain a cycle; '' @ quoted uuid @
               '' was appended to the right for this activation.'') c
        else let entered = c\<lparr>cs_visiting := uuid # cs_visiting c\<rparr> in
        case map_of layout uuid of
          None \<Rightarrow> leave uuid (append_right node '''' entered)
        | Some placement \<Rightarrow>
            if lp_preserve placement \<and> \<not> is_automatic_fallback placement
            then leave uuid (append_right node '''' entered)
            else let node' = node\<lparr>n_primary := lp_primary placement\<rparr> in
            if is_automatic_fallback placement then leave uuid (append_right node' '''' entered)
            else emit_anchored uuid node' placement
                   (if lp_anchor_kind placement = ''client''
                    then emit clients layout (lp_anchor_id placement) entered else entered))"
  by pat_completeness auto

termination
proof (relation "measure (\<lambda>(clients, _, _, c). card (fst ` set clients - set (cs_visiting c)))")
  fix clients :: "(string, client_state_t) umap" and layout :: layout_t and uuid c st x y z
  assume "map_of clients uuid = Some st" "uuid \<notin> set (cs_visiting c)" and y: "y = c\<lparr>cs_visiting := uuid # cs_visiting c\<rparr>"
  then have "fst ` set clients - set (uuid # cs_visiting c) \<subset> fst ` set clients - set (cs_visiting c)"
    by (force dest: map_of_SomeD)
  then show "((clients, layout, lp_anchor_id z, y), clients, layout, uuid, c)
      \<in> measure (\<lambda>(clients, _, _, c). card (fst ` set clients - set (cs_visiting c)))"
    by (simp add: y psubset_card_mono)
qed simp

declare emit.simps [simp del]

definition active_ids :: "(string, client_state_t) umap \<Rightarrow> string list" where
  "active_ids clients =
     sort_key (\<lambda>uuid. (case map_of clients uuid of None \<Rightarrow> 0 | Some st \<Rightarrow> cl_placement_order st, uuid))
       (map fst (filter (\<lambda>e. owns_display (snd e)) clients))"

definition compose_start :: "node_t list \<Rightarrow> compose_t" where
  "compose_start baseline = \<lparr>cs_nodes = baseline,
     cs_rightmost = fold (\<lambda>node r. max r (n_x node + layout_width node)) baseline 0,
     cs_emitted = [], cs_visiting = [], cs_warnings = []\<rparr>"

definition compose_state :: "node_t list \<Rightarrow> layout_t \<Rightarrow> (string, client_state_t) umap \<Rightarrow> compose_t" where
  "compose_state baseline layout clients = fold (emit clients layout) (active_ids clients) (compose_start baseline)"

definition compose_locked :: "node_t list \<Rightarrow> layout_t \<Rightarrow> (string, client_state_t) umap \<Rightarrow> node_t list \<times> string list" where
  "compose_locked baseline layout clients =
     (let c = compose_state baseline layout clients in (cs_nodes c, cs_warnings c))"

section \<open>Geometry: lemmas\<close>

definition overlaps :: "node_t \<Rightarrow> node_t \<Rightarrow> bool" where
  "overlaps a b \<longleftrightarrow> n_x a < n_x b + layout_width b \<and> n_x b < n_x a + layout_width a \<and>
     n_y a < n_y b + layout_height b \<and> n_y b < n_y a + layout_height a"

lemma layout_extent_update [simp]:
  "layout_width (n\<lparr>n_x := x\<rparr>) = layout_width n" "layout_width (n\<lparr>n_y := y\<rparr>) = layout_width n"
  "layout_width (n\<lparr>n_primary := b\<rparr>) = layout_width n"
  "layout_height (n\<lparr>n_x := x\<rparr>) = layout_height n" "layout_height (n\<lparr>n_y := y\<rparr>) = layout_height n"
  "layout_height (n\<lparr>n_primary := b\<rparr>) = layout_height n"
  by (simp_all add: layout_width_def layout_height_def effective_mode_def)

lemma sdiv2_bounds: "0 \<le> (a :: int) \<Longrightarrow> 0 \<le> a sdiv 2 \<and> a sdiv 2 \<le> a" "a \<le> 0 \<Longrightarrow> a \<le> a sdiv 2 \<and> a sdiv 2 \<le> (0::int)"
  by (auto simp: signed_divide_int_def sgn_if)

lemma aligned_between:
  "min o1 (o1 + aw - w) \<le> aligned al o1 aw w \<and> aligned al o1 aw w \<le> max o1 (o1 + aw - w)"
proof (cases "0 \<le> aw - w")
  case True
  then show ?thesis using sdiv2_bounds(1)[OF True] by (auto simp: aligned_def)
next
  case False
  then have "aw - w \<le> 0" by simp
  from sdiv2_bounds(2)[OF this] this show ?thesis by (auto simp: aligned_def)
qed

lemma place_relative_frame [simp]:
  "n_id (place_relative n a p) = n_id n" "n_label (place_relative n a p) = n_label n"
  "n_active (place_relative n a p) = n_active n" "n_physical (place_relative n a p) = n_physical n"
  "n_primary (place_relative n a p) = n_primary n"
  "layout_width (place_relative n a p) = layout_width n" "layout_height (place_relative n a p) = layout_height n"
  "effective_mode (place_relative n a p) = effective_mode n"
  "n_configured_mode (place_relative n a p) = n_configured_mode n"
  by (simp_all add: place_relative_def Let_def effective_mode_def)

text \<open>Placement beside an anchor: for each of the four edges and a gap that is not negative, the
  placed display keeps its size, does not overlap its anchor, is separated from it by exactly the gap
  on the chosen edge, and on the other axis lies within the anchor's extent, or spans it when it is
  larger. (remote_display_topology.cpp, place_relative)\<close>

theorem place_relative_adjacent:
  assumes "lp_edge p \<in> {''left'', ''right'', ''above'', ''below''}" "0 \<le> lp_gap_px p"
    "0 \<le> layout_width n" "0 \<le> layout_height n" "0 \<le> layout_width a" "0 \<le> layout_height a"
  shows "\<not> overlaps (place_relative n a p) a \<and>
    layout_width (place_relative n a p) = layout_width n \<and> layout_height (place_relative n a p) = layout_height n \<and>
    (lp_edge p = ''left'' \<longrightarrow> n_x (place_relative n a p) + layout_width n + lp_gap_px p = n_x a) \<and>
    (lp_edge p = ''right'' \<longrightarrow> n_x a + layout_width a + lp_gap_px p = n_x (place_relative n a p)) \<and>
    (lp_edge p = ''above'' \<longrightarrow> n_y (place_relative n a p) + layout_height n + lp_gap_px p = n_y a) \<and>
    (lp_edge p = ''below'' \<longrightarrow> n_y a + layout_height a + lp_gap_px p = n_y (place_relative n a p)) \<and>
    (lp_edge p \<in> {''left'', ''right''} \<longrightarrow>
      min (n_y a) (n_y a + layout_height a - layout_height n) \<le> n_y (place_relative n a p) \<and>
      n_y (place_relative n a p) \<le> max (n_y a) (n_y a + layout_height a - layout_height n)) \<and>
    (lp_edge p \<in> {''above'', ''below''} \<longrightarrow>
      min (n_x a) (n_x a + layout_width a - layout_width n) \<le> n_x (place_relative n a p) \<and>
      n_x (place_relative n a p) \<le> max (n_x a) (n_x a + layout_width a - layout_width n))"
proof -
  have "\<not> overlaps (place_relative n a p) a"
    using assms unfolding overlaps_def place_relative_frame by (auto simp: place_relative_def Let_def)
  then show ?thesis
    using assms(1) aligned_between[of "n_y a" "layout_height a" "layout_height n" "lp_alignment p"]
      aligned_between[of "n_x a" "layout_width a" "layout_width n" "lp_alignment p"]
    by (auto simp: place_relative_def Let_def)
qed

definition demo_node :: "string \<Rightarrow> int \<Rightarrow> int \<Rightarrow> node_t" where
  "demo_node uuid w h = \<lparr>n_id = uuid, n_device_id = '''', n_label = uuid, n_preexisting = False, n_physical = True,
     n_active = True, n_primary = True, n_x = 0, n_y = 0,
     n_configured_mode = \<lparr>m_width = w, m_height = h, m_refresh_hz = 60, m_hdr = False\<rparr>,
     n_last_requested_mode = None, n_current_mode = None, n_layout_width = None, n_layout_height = None\<rparr>"

definition demo_rule :: placement_rule_t where
  "demo_rule = \<lparr>lp_anchor_kind = ''physical'', lp_anchor_id = ''m'', lp_edge = ''left'', lp_alignment = ''center'',
     lp_gap_px = 5, lp_primary = True, lp_preserve = False, lp_automatic_fallback = False\<rparr>"

lemmas demo_geometry = demo_node_def demo_rule_def layout_width_def layout_height_def effective_mode_def value_or_def

theorem place_relative_adjacent_witness:
  "n_x (place_relative (demo_node ''c'' 1280 721) (demo_node ''m'' 1920 1080) demo_rule) + 1280 + 5 = 0"
proof -
  have "lp_edge demo_rule \<in> {''left'', ''right'', ''above'', ''below''}" "0 \<le> lp_gap_px demo_rule"
    "0 \<le> layout_width (demo_node ''c'' 1280 721)" "0 \<le> layout_height (demo_node ''c'' 1280 721)"
    "0 \<le> layout_width (demo_node ''m'' 1920 1080)" "0 \<le> layout_height (demo_node ''m'' 1920 1080)"
    by (simp_all add: demo_geometry)
  from place_relative_adjacent[OF this] show ?thesis by (simp add: demo_geometry)
qed

section \<open>Composition: lemmas\<close>

definition node_of :: "client_state_t \<Rightarrow> node_t \<Rightarrow> bool" where
  "node_of st n \<longleftrightarrow> n_label n = cl_label st \<and> n_active n \<and> \<not> n_physical n \<and> effective_mode n = cl_effective_mode st \<and>
     layout_width n = m_width (cl_effective_mode st) \<and> layout_height n = m_height (cl_effective_mode st)"

definition compose_ok :: "node_t list \<Rightarrow> (string, client_state_t) umap \<Rightarrow> compose_t \<Rightarrow> bool" where
  "compose_ok baseline clients c \<longleftrightarrow> distinct (cs_emitted c) \<and>
     (\<exists>ns. cs_nodes c = baseline @ ns \<and> map n_id ns = rev (cs_emitted c) \<and>
       (\<forall>n\<in>set ns. \<exists>st. map_of clients (n_id n) = Some st \<and> owns_display st \<and> node_of st n))"

lemma node_of_client:
  "node_of st (client_node u st)" "n_id (client_node u st) = u"
  by (simp_all add: node_of_def client_node_def effective_mode_def layout_width_def layout_height_def value_or_def)

lemma node_of_update [simp]:
  "node_of st (n\<lparr>n_x := x\<rparr>) = node_of st n" "node_of st (n\<lparr>n_primary := b\<rparr>) = node_of st n"
  "node_of st (place_relative n a p) = node_of st n"
  by (simp_all add: node_of_def effective_mode_def place_relative_def Let_def)

lemma leave_simps [simp]:
  "cs_nodes (leave u c) = cs_nodes c" "cs_emitted (leave u c) = cs_emitted c"
  "cs_rightmost (leave u c) = cs_rightmost c" "cs_warnings (leave u c) = cs_warnings c"
  "cs_visiting (leave u c) = removeAll u (cs_visiting c)"
  by (simp_all add: leave_def)

lemma append_right_simps [simp]:
  "cs_nodes (append_right n w c) = cs_nodes c @ [n\<lparr>n_x := cs_rightmost c\<rparr>]"
  "cs_emitted (append_right n w c) = n_id n # cs_emitted c"
  "cs_rightmost (append_right n w c) = cs_rightmost c + layout_width n"
  "cs_visiting (append_right n w c) = cs_visiting c"
  by (simp_all add: append_right_def)

lemma compose_ok_snoc:
  assumes "compose_ok baseline clients c" "map_of clients u = Some st" "owns_display st"
    and "node_of st n" "n_id n = u" "u \<notin> set (cs_emitted c)"
    and "cs_nodes c' = cs_nodes c @ [n]" "cs_emitted c' = u # cs_emitted c"
  shows "compose_ok baseline clients c'"
proof -
  obtain ns where "cs_nodes c = baseline @ ns" "map n_id ns = rev (cs_emitted c)"
    "\<forall>n\<in>set ns. \<exists>st. map_of clients (n_id n) = Some st \<and> owns_display st \<and> node_of st n"
    using assms(1) unfolding compose_ok_def by blast
  then show ?thesis using assms unfolding compose_ok_def by (intro conjI exI[of _ "ns @ [n]"]) auto
qed

lemma compose_ok_cong:
  "cs_nodes c' = cs_nodes c \<Longrightarrow> cs_emitted c' = cs_emitted c \<Longrightarrow> compose_ok baseline clients c' = compose_ok baseline clients c"
  by (simp add: compose_ok_def)

lemma emit_anchored_ok:
  assumes "compose_ok baseline clients c" "map_of clients u = Some st" "owns_display st"
    "node_of st n" "n_id n = u" "lp_anchor_kind p \<noteq> ''client'' \<Longrightarrow> u \<notin> set (cs_emitted c)"
  shows "compose_ok baseline clients (emit_anchored u n p c) \<and> set (cs_emitted (emit_anchored u n p c)) = insert u (set (cs_emitted c)) \<and>
    cs_visiting (emit_anchored u n p c) = removeAll u (cs_visiting c)"
proof (cases "u \<in> set (cs_emitted c)")
  case True
  then show ?thesis using assms by (auto simp: emit_anchored_def compose_ok_def)
next
  case False
  show ?thesis
  proof (cases "find (\<lambda>candidate. n_id candidate = lp_anchor_id p) (cs_nodes c)")
    case None
    have "compose_ok baseline clients (leave u (append_right n w c))" for w
      by (rule compose_ok_snoc[OF assms(1-3) _ _ False, of "n\<lparr>n_x := cs_rightmost c\<rparr>"]) (simp_all add: assms)
    then show ?thesis using None False assms(5) by (simp add: emit_anchored_def)
  next
    case (Some a)
    have "compose_ok baseline clients (leave u (c\<lparr>cs_rightmost := r, cs_nodes := cs_nodes c @ [place_relative n a p],
        cs_emitted := u # cs_emitted c\<rparr>))" for r
      by (rule compose_ok_snoc[OF assms(1-3) _ _ False, of "place_relative n a p"]) (simp_all add: assms)
    then show ?thesis using Some False by (simp add: emit_anchored_def Let_def)
  qed
qed

lemma emit_cases [consumes 3, case_names Cycle Append Anchored]:
  assumes st: "map_of clients uuid = Some st" "owns_display st" and new: "uuid \<notin> set (cs_emitted c)"
  obtains w where "uuid \<in> set (cs_visiting c)" "emit clients layout uuid c = append_right (client_node uuid st) w c"
  | n where "uuid \<notin> set (cs_visiting c)" "node_of st n" "n_id n = uuid"
      "emit clients layout uuid c = leave uuid (append_right n '''' (c\<lparr>cs_visiting := uuid # cs_visiting c\<rparr>))"
  | p n where "uuid \<notin> set (cs_visiting c)" "node_of st n" "n_id n = uuid" "map_of layout uuid = Some p"
      "emit clients layout uuid c = emit_anchored uuid n p
         (if lp_anchor_kind p = ''client''
          then emit clients layout (lp_anchor_id p) (c\<lparr>cs_visiting := uuid # cs_visiting c\<rparr>)
          else c\<lparr>cs_visiting := uuid # cs_visiting c\<rparr>)"
      "lp_anchor_kind p = ''client'' \<Longrightarrow> \<not> (lp_preserve p \<and> \<not> is_automatic_fallback p) \<and> \<not> is_automatic_fallback p"
proof -
  let ?n = "client_node uuid st"
  note simps = emit.simps[of clients layout uuid c] Let_def new st
  have nid [simp]: "n_id ?n = uuid" and nof [simp]: "node_of st ?n" by (simp_all add: node_of_client)
  show ?thesis
  proof (cases "uuid \<in> set (cs_visiting c)")
    case True
    then have "emit clients layout uuid c = append_right ?n (''Saved client anchors contain a cycle; '' @ quoted uuid @
        '' was appended to the right for this activation.'') c" by (simp add: simps)
    with True show ?thesis by (rule that(1))
  next
    case nv: False
    show ?thesis
    proof (cases "map_of layout uuid")
      case None
      show ?thesis by (rule that(2)[of ?n]) (use nv None in \<open>simp_all add: simps\<close>)
    next
      case (Some p)
      let ?n' = "?n\<lparr>n_primary := lp_primary p\<rparr>"
      consider (keep) "lp_preserve p \<and> \<not> is_automatic_fallback p" | (auto) "is_automatic_fallback p"
        | (rel) "\<not> lp_preserve p" "\<not> is_automatic_fallback p" by blast
      then show ?thesis
      proof cases
        case keep
        show ?thesis by (rule that(2)[of ?n]) (use nv Some keep in \<open>simp_all add: simps\<close>)
      next
        case auto
        show ?thesis by (rule that(2)[of ?n']) (use nv Some auto in \<open>simp_all add: simps\<close>)
      next
        case rel
        show ?thesis by (rule that(3)[of ?n' p]) (use nv Some rel in \<open>simp_all add: simps\<close>)
      qed
    qed
  qed
qed

lemma emit_ok:
  assumes "compose_ok baseline clients c"
  shows "compose_ok baseline clients (emit clients layout uuid c) \<and>
    set (cs_emitted c) \<subseteq> set (cs_emitted (emit clients layout uuid c)) \<and>
    cs_visiting (emit clients layout uuid c) = cs_visiting c \<and>
    ((\<exists>st. map_of clients uuid = Some st \<and> owns_display st) \<longrightarrow> uuid \<in> set (cs_emitted (emit clients layout uuid c)))"
  using assms
proof (induction clients layout uuid c rule: emit.induct)
  case (1 clients layout uuid c)
  let ?e = "c\<lparr>cs_visiting := uuid # cs_visiting c\<rparr>"
  show ?case
  proof (cases "uuid \<in> set (cs_emitted c) \<or> (\<forall>st. map_of clients uuid = Some st \<longrightarrow> \<not> owns_display st)")
    case True
    then have "emit clients layout uuid c = c" by (subst emit.simps) (auto split: option.splits)
    with True 1(2) show ?thesis by auto
  next
    case False
    then obtain st where st: "map_of clients uuid = Some st" "owns_display st" and new: "uuid \<notin> set (cs_emitted c)" by blast
    have app: "compose_ok baseline clients (append_right n w c')" if "cs_nodes c' = cs_nodes c" "cs_emitted c' = cs_emitted c"
        "node_of st n" "n_id n = uuid" for n w c'
      by (rule compose_ok_snoc[OF 1(2) st _ _ new, of "n\<lparr>n_x := cs_rightmost c'\<rparr>"]) (simp_all add: that)
    have lv: "compose_ok baseline clients (leave uuid d) = compose_ok baseline clients d" for d
      by (rule compose_ok_cong) simp_all
    from st new show ?thesis
    proof (cases rule: emit_cases[where layout = layout])
      case (Cycle w)
      then show ?thesis using app[of c "client_node uuid st" w] by (auto simp: node_of_client)
    next
      case (Append n)
      then show ?thesis using app[of ?e n "''''"] by (auto simp: lv)
    next
      case (Anchored p n)
      let ?d = "if lp_anchor_kind p = ''client'' then emit clients layout (lp_anchor_id p) ?e else ?e"
      have eok: "compose_ok baseline clients ?e" using 1(2) by (subst compose_ok_cong[of _ c]) simp_all
      have d: "compose_ok baseline clients ?d" "set (cs_emitted c) \<subseteq> set (cs_emitted ?d)" "cs_visiting ?d = uuid # cs_visiting c"
        using 1(1)[of st "client_node uuid st" ?e p] eok new st Anchored by auto
      have "compose_ok baseline clients (emit_anchored uuid n p ?d) \<and>
          set (cs_emitted (emit_anchored uuid n p ?d)) = insert uuid (set (cs_emitted ?d)) \<and>
          cs_visiting (emit_anchored uuid n p ?d) = removeAll uuid (cs_visiting ?d)"
        by (rule emit_anchored_ok[OF d(1) st]) (use new Anchored in simp_all)
      then show ?thesis unfolding Anchored(5) using d Anchored(1) by auto
    qed
  qed
qed

lemma fold_emit_ok:
  assumes "compose_ok baseline clients c"
  shows "compose_ok baseline clients (fold (emit clients layout) us c) \<and>
    set (cs_emitted c) \<subseteq> set (cs_emitted (fold (emit clients layout) us c)) \<and>
    (\<forall>u\<in>set us. (\<exists>st. map_of clients u = Some st \<and> owns_display st) \<longrightarrow>
       u \<in> set (cs_emitted (fold (emit clients layout) us c)))"
  using assms
proof (induction us arbitrary: c)
  case Nil
  then show ?case by simp
next
  case (Cons u us)
  from emit_ok[OF Cons.prems, of layout u] Cons.IH[of "emit clients layout u c"] show ?case by auto
qed

lemma set_active_ids:
  "umap_ok clients \<Longrightarrow> set (active_ids clients) = {u. \<exists>st. map_of clients u = Some st \<and> owns_display st}"
  using in_set_umap[of clients] by (force simp: active_ids_def)

text \<open>The composed desktop (C15): whatever the saved layout says, cycles and missing anchors included,
  the composition is the physical baseline, untouched, followed by exactly one active display for each
  client that owns one, with that client's effective mode, and no other.
  (remote_display_topology.cpp, compose_locked)\<close>

theorem compose_complete:
  assumes "umap_ok clients"
  shows "\<exists>ns. fst (compose_locked baseline layout clients) = baseline @ ns \<and> distinct (map n_id ns) \<and>
    set (map n_id ns) = {u. \<exists>st. map_of clients u = Some st \<and> owns_display st} \<and>
    (\<forall>n\<in>set ns. \<exists>st. map_of clients (n_id n) = Some st \<and> node_of st n)"
proof -
  let ?c = "compose_state baseline layout clients"
  have "compose_ok baseline clients (compose_start baseline)" by (simp add: compose_ok_def compose_start_def)
  from fold_emit_ok[OF this, of layout "active_ids clients"]
  have ok: "compose_ok baseline clients ?c" and all: "set (active_ids clients) \<subseteq> set (cs_emitted ?c)"
    using set_active_ids[OF assms] by (auto simp: compose_state_def)
  from ok obtain ns where ns: "cs_nodes ?c = baseline @ ns" "map n_id ns = rev (cs_emitted ?c)" "distinct (cs_emitted ?c)"
    "\<forall>n\<in>set ns. \<exists>st. map_of clients (n_id n) = Some st \<and> owns_display st \<and> node_of st n"
    unfolding compose_ok_def by blast
  have ids: "set (map n_id ns) = set (cs_emitted ?c)" using ns(2) by simp
  have "set (cs_emitted ?c) = set (active_ids clients)"
  proof
    show "set (cs_emitted ?c) \<subseteq> set (active_ids clients)"
      unfolding ids[symmetric] set_active_ids[OF assms] using ns(4) by fastforce
  qed (rule all)
  then show ?thesis using ns ids set_active_ids[OF assms]
    by (intro exI[of _ ns]) (auto simp: compose_locked_def)
qed

definition demo_clients :: "(string, client_state_t) umap" where
  "demo_clients = [(''b'', default_client\<lparr>cl_normal_game := True, cl_placement_order := 1\<rparr>),
     (''a'', default_client\<lparr>cl_remote_monitor := True, cl_placement_order := 2\<rparr>), (''x'', default_client)]"

theorem compose_complete_witness:
  "\<exists>ns. fst (compose_locked [demo_node ''m'' 1920 1080] [(''a'', demo_rule)] demo_clients) = demo_node ''m'' 1920 1080 # ns \<and>
    distinct (map n_id ns) \<and> {''a'', ''b''} \<subseteq> set (map n_id ns) \<and> ''x'' \<notin> set (map n_id ns)"
proof -
  have "umap_ok demo_clients" by (simp add: demo_clients_def)
  from compose_complete[OF this, of "[demo_node ''m'' 1920 1080]" "[(''a'', demo_rule)]"] obtain ns where
    "fst (compose_locked [demo_node ''m'' 1920 1080] [(''a'', demo_rule)] demo_clients) = demo_node ''m'' 1920 1080 # ns"
    "distinct (map n_id ns)" and ids: "set (map n_id ns) = {u. \<exists>st. map_of demo_clients u = Some st \<and> owns_display st}"
    by auto
  then show ?thesis by (intro exI[of _ ns]) (simp add: ids, simp add: demo_clients_def default_client_def)
qed

section \<open>Stability of the desktop\<close>

lemma emit_other:
  assumes "\<And>v q. map_of layout v = Some q \<Longrightarrow> lp_anchor_kind q = ''client'' \<Longrightarrow> lp_anchor_id q \<noteq> u"
    and "uuid \<noteq> u"
  shows "emit (clients @ [(u, new)]) layout uuid c = emit clients layout uuid c"
  using assms
proof (induction clients layout uuid c rule: emit.induct)
  case (1 clients layout uuid c)
  have look: "map_of (clients @ [(u, new)]) uuid = map_of clients uuid"
    using 1(3) by (cases "map_of clients uuid") (simp_all add: map_add_def)
  let ?e = "c\<lparr>cs_visiting := uuid # cs_visiting c\<rparr>"
  have rec: "emit (clients @ [(u, new)]) layout (lp_anchor_id p) ?e = emit clients layout (lp_anchor_id p) ?e"
    if "uuid \<notin> set (cs_emitted c)" "map_of clients uuid = Some st" "owns_display st" "uuid \<notin> set (cs_visiting c)"
      "map_of layout uuid = Some p" "\<not> (lp_preserve p \<and> \<not> is_automatic_fallback p)" "\<not> is_automatic_fallback p"
      "lp_anchor_kind p = ''client''" for st p
    using 1(1)[of st "client_node uuid st" ?e p "client_node uuid st\<lparr>n_primary := lp_primary p\<rparr>"] 1(2) that by simp
  show ?case
    unfolding emit.simps[of "clients @ [(u, new)]" layout uuid c] emit.simps[of clients layout uuid c] look Let_def
    by (cases "map_of clients uuid"; cases "map_of layout uuid") (simp_all add: rec cong: if_cong)
qed

lemma sort_key_snoc:
  assumes "\<And>v. v \<in> set xs \<Longrightarrow> f v = g v \<and> g v \<le> f u" "inj_on f (set (xs @ [u]))"
  shows "sort_key f (xs @ [u]) = sort_key g xs @ [u]"
proof (rule sort_key_inj_key_eq)
  have "map f (sort_key g xs) = map g (sort_key g xs)" using assms(1) by simp
  then have "sorted (map f (sort_key g xs))" by (simp del: map_eq_conv)
  then show "sorted (map f (sort_key g xs @ [u]))" using assms(1) by (auto simp: sorted_append)
qed (use assms(2) in simp_all)

lemma active_ids_snoc:
  assumes "umap_ok (clients @ [(u, new)])" "owns_display new"
    and "\<And>v st. map_of clients v = Some st \<Longrightarrow> cl_placement_order st < cl_placement_order new"
  shows "active_ids (clients @ [(u, new)]) = active_ids clients @ [u]"
proof -
  let ?ids = "map fst (filter (\<lambda>e. owns_display (snd e)) clients)"
  have fresh: "map_of clients u = None" using assms(1) by (auto simp: map_of_eq_None_iff)
  have look: "\<exists>st. map_of clients v = Some st \<and> map_of (clients @ [(u, new)]) v = Some st" if "v \<in> set ?ids" for v
  proof -
    from that obtain st where "map_of clients v = Some st" by (auto dest: weak_map_of_SomeI)
    with fresh show ?thesis by (simp add: map_add_def)
  qed
  have last: "map_of (clients @ [(u, new)]) u = Some new" using fresh by (simp add: map_add_def)
  have "sort_key (\<lambda>uuid. (case map_of (clients @ [(u, new)]) uuid of None \<Rightarrow> 0 | Some st \<Rightarrow> cl_placement_order st, uuid)) (?ids @ [u])
      = sort_key (\<lambda>uuid. (case map_of clients uuid of None \<Rightarrow> 0 | Some st \<Rightarrow> cl_placement_order st, uuid)) ?ids @ [u]"
  proof (rule sort_key_snoc)
    fix v assume "v \<in> set ?ids"
    from look[OF this] obtain st where st: "map_of clients v = Some st" "map_of (clients @ [(u, new)]) v = Some st" by blast
    from assms(3)[OF st(1)] have "cl_placement_order st < cl_placement_order new" .
    then show "(case map_of (clients @ [(u, new)]) v of None \<Rightarrow> 0 | Some st \<Rightarrow> cl_placement_order st, v) =
        (case map_of clients v of None \<Rightarrow> 0 | Some st \<Rightarrow> cl_placement_order st, v) \<and>
        (case map_of clients v of None \<Rightarrow> 0 | Some st \<Rightarrow> cl_placement_order st, v) \<le>
        (case map_of (clients @ [(u, new)]) u of None \<Rightarrow> 0 | Some st \<Rightarrow> cl_placement_order st, u)"
      unfolding st last by (simp add: less_eq_prod_def)
  qed (auto simp: inj_on_def)
  then show ?thesis using assms(2) by (simp add: active_ids_def)
qed

lemma compose_ok_emitted:
  assumes "compose_ok baseline clients c" "u \<in> set (cs_emitted c)"
  shows "map_of clients u \<noteq> None"
proof -
  obtain ns where ns: "map n_id ns = rev (cs_emitted c)"
    "\<forall>n\<in>set ns. \<exists>st. map_of clients (n_id n) = Some st \<and> owns_display st \<and> node_of st n"
    using assms(1) unfolding compose_ok_def by blast
  have "set (map n_id ns) = set (cs_emitted c)" using ns(1) by simp
  with assms(2) obtain n where n: "n \<in> set ns" "u = n_id n" by auto
  from ns(2) n(1) obtain st where "map_of clients (n_id n) = Some st" by blast
  with n(2) show ?thesis by simp
qed

lemma fold_emit_visiting:
  "compose_ok baseline clients c \<Longrightarrow> cs_visiting (fold (emit clients layout) us c) = cs_visiting c"
proof (induction us arbitrary: c)
  case (Cons u us)
  from emit_ok[OF Cons.prems, of layout u] Cons.IH[of "emit clients layout u c"] show ?case by simp
qed simp

lemma fold_emit_other:
  assumes "\<And>v q. map_of layout v = Some q \<Longrightarrow> lp_anchor_kind q = ''client'' \<Longrightarrow> lp_anchor_id q \<noteq> u"
  shows "u \<notin> set us \<Longrightarrow> fold (emit (clients @ [(u, new)]) layout) us c = fold (emit clients layout) us c"
proof (induction us arbitrary: c)
  case (Cons v us)
  have "emit (clients @ [(u, new)]) layout v c = emit clients layout v c"
    by (rule emit_other) (use Cons.prems assms in auto)
  then show ?case using Cons by simp
qed simp

text \<open>A new owner moves nobody: when a client that owns no display gets one, later than all
  others, has no rule of its own and is nobody's anchor, the composed desktop is the previous one with
  the new display appended at the right end; every other display keeps its position.
  (remote_display_topology.cpp, compose_locked, placement_order)\<close>

theorem compose_new_owner_stable:
  assumes "umap_ok (clients @ [(u, new)])" "owns_display new"
    and "\<And>v st. map_of clients v = Some st \<Longrightarrow> cl_placement_order st < cl_placement_order new"
    and "map_of layout u = None"
    and "\<And>v q. map_of layout v = Some q \<Longrightarrow> lp_anchor_kind q = ''client'' \<Longrightarrow> lp_anchor_id q \<noteq> u"
  shows "fst (compose_locked baseline layout (clients @ [(u, new)])) =
    fst (compose_locked baseline layout clients) @
      [(client_node u new)\<lparr>n_x := cs_rightmost (compose_state baseline layout clients)\<rparr>]"
proof -
  let ?c = "compose_state baseline layout clients"
  have fresh: "map_of clients u = None" using assms(1) by (auto simp: map_of_eq_None_iff)
  have ok: "umap_ok clients" using assms(1) by simp
  have notin: "u \<notin> set (active_ids clients)" using fresh by (auto simp: set_active_ids[OF ok])
  have start: "compose_ok baseline clients (compose_start baseline)" by (simp add: compose_ok_def compose_start_def)
  have cok: "compose_ok baseline clients ?c"
    using fold_emit_ok[OF start] unfolding compose_state_def by blast
  have "u \<notin> set (cs_emitted ?c)" using compose_ok_emitted[OF cok] fresh by blast
  moreover have "cs_visiting ?c = []"
    unfolding compose_state_def fold_emit_visiting[OF start] by (simp add: compose_start_def)
  moreover have "map_of (clients @ [(u, new)]) u = Some new" using fresh by (simp add: map_add_def)
  ultimately have "emit (clients @ [(u, new)]) layout u ?c
      = leave u (append_right (client_node u new) '''' (?c\<lparr>cs_visiting := [u]\<rparr>))"
    using assms(2,4) by (simp add: emit.simps[of "clients @ [(u, new)]" layout u ?c])
  moreover have "compose_state baseline layout (clients @ [(u, new)]) = emit (clients @ [(u, new)]) layout u ?c"
  proof -
    have ids: "active_ids (clients @ [(u, new)]) = active_ids clients @ [u]"
      by (rule active_ids_snoc[OF assms(1,2)]) (rule assms(3))
    have "fold (emit (clients @ [(u, new)]) layout) (active_ids clients) (compose_start baseline) = ?c"
      unfolding compose_state_def by (rule fold_emit_other) (use assms(5) notin in auto)
    then show ?thesis unfolding compose_state_def[of _ _ "clients @ [(u, new)]"] ids by simp
  qed
  ultimately show ?thesis by (simp add: compose_locked_def Let_def)
qed

theorem compose_new_owner_stable_witness:
  "fst (compose_locked [demo_node ''m'' 1920 1080] [(''a'', demo_rule)]
      (demo_clients @ [(''z'', default_client\<lparr>cl_remote_monitor := True, cl_placement_order := 3\<rparr>)])) =
    fst (compose_locked [demo_node ''m'' 1920 1080] [(''a'', demo_rule)] demo_clients) @
      [(client_node ''z'' (default_client\<lparr>cl_remote_monitor := True, cl_placement_order := 3\<rparr>))
        \<lparr>n_x := cs_rightmost (compose_state [demo_node ''m'' 1920 1080] [(''a'', demo_rule)] demo_clients)\<rparr>]"
  by (rule compose_new_owner_stable)
    (auto simp: demo_clients_def demo_rule_def default_client_def split: if_splits)

section \<open>The saved layout: lemmas\<close>

definition pinned :: "placement_rule_t \<Rightarrow> bool" where
  "pinned p \<longleftrightarrow> lp_preserve p \<and> \<not> is_automatic_fallback p"

definition rule_valid :: "string list \<Rightarrow> string list \<Rightarrow> string \<times> placement_rule_t \<Rightarrow> bool" where
  "rule_valid known physical e \<longleftrightarrow> (case e of (client, p) \<Rightarrow> client \<in> set known \<and>
     (lp_preserve p \<or> (if lp_anchor_kind p = ''client'' then lp_anchor_id p \<in> set known \<and> lp_anchor_id p \<noteq> client
                       else lp_anchor_id p \<in> set physical)))"

definition counted_primary :: "string \<times> placement_rule_t \<Rightarrow> bool" where
  "counted_primary e \<longleftrightarrow> lp_primary (snd e) \<and> \<not> pinned (snd e)"

definition rule_rel :: "layout_t \<Rightarrow> (string \<times> string) set" where
  "rule_rel layout = {(client, lp_anchor_id p) | client p. (client, p) \<in> set layout \<and> \<not> lp_preserve p \<and> lp_anchor_kind p = ''client''}"

lemma fallback_preserves: "is_automatic_fallback p \<Longrightarrow> lp_preserve p"
  by (simp add: is_automatic_fallback_def)

lemma rule_rel_Cons:
  "rule_rel ((client, p) # rest) = (if \<not> lp_preserve p \<and> lp_anchor_kind p = ''client'' then {(client, lp_anchor_id p)} else {}) \<union> rule_rel rest"
  by (auto simp: rule_rel_def)

text \<open>One step of the loop: what a rule must satisfy and what it adds.\<close>

lemma check_rules_step:
  "check_rules known physical n anchors ((client, p) # rest) = Inr anchors' \<longleftrightarrow>
    rule_valid known physical (client, p) \<and> \<not> (counted_primary (client, p) \<and> n \<ge> 1) \<and>
    check_rules known physical (if counted_primary (client, p) then Suc n else n)
      (if \<not> lp_preserve p \<and> lp_anchor_kind p = ''client'' \<and> \<not> umap_contains anchors client
       then AList.update client (lp_anchor_id p) anchors else anchors) rest = Inr anchors'"
  using fallback_preserves[of p]
  by (cases "lp_preserve p"; cases "is_automatic_fallback p"; cases "lp_primary p")
    (auto simp: rule_valid_def counted_primary_def pinned_def Let_def)

lemma check_rules_spec:
  "check_rules known physical n anchors layout = Inr anchors' \<Longrightarrow> umap_ok layout \<Longrightarrow>
    fst ` set anchors \<inter> fst ` set layout = {} \<Longrightarrow> umap_ok anchors \<Longrightarrow>
    (\<forall>e\<in>set layout. rule_valid known physical e) \<and> length (filter counted_primary layout) + n \<le> max 1 n \<and>
    set anchors' = set anchors \<union> rule_rel layout \<and> umap_ok anchors'"
proof (induction layout arbitrary: n anchors)
  case Nil
  then show ?case by (simp add: rule_rel_def)
next
  case (Cons e rest)
  obtain client p where e: "e = (client, p)" by (cases e)
  let ?a = "if \<not> lp_preserve p \<and> lp_anchor_kind p = ''client'' \<and> \<not> umap_contains anchors client
       then AList.update client (lp_anchor_id p) anchors else anchors"
  let ?n = "if counted_primary (client, p) then Suc n else n"
  have step: "rule_valid known physical (client, p)" "\<not> (counted_primary (client, p) \<and> n \<ge> 1)"
    "check_rules known physical ?n ?a rest = Inr anchors'"
    using Cons.prems(1) unfolding e check_rules_step by auto
  have fresh: "map_of anchors client = None" using Cons.prems(3) by (auto simp: e map_of_eq_None_iff)
  have set_a: "set ?a = set anchors \<union> (if \<not> lp_preserve p \<and> lp_anchor_kind p = ''client'' then {(client, lp_anchor_id p)} else {})"
    using fresh by (auto simp: set_update_new)
  have "fst ` set ?a \<inter> fst ` set rest = {}"
    unfolding set_a using Cons.prems(2,3) by (auto simp: e)
  moreover have "umap_ok ?a" using Cons.prems(4) by simp
  moreover have "umap_ok rest" using Cons.prems(2) by simp
  ultimately have ih: "(\<forall>e\<in>set rest. rule_valid known physical e) \<and> length (filter counted_primary rest) + ?n \<le> max 1 ?n \<and>
      set anchors' = set ?a \<union> rule_rel rest \<and> umap_ok anchors'"
    using Cons.IH[OF step(3)] by blast
  then show ?case using step(1,2) unfolding set_a e rule_rel_Cons by (auto split: if_splits)
qed

lemma check_rules_complete:
  "(\<forall>e\<in>set layout. rule_valid known physical e) \<Longrightarrow> length (filter counted_primary layout) + n \<le> 1 \<Longrightarrow>
    \<exists>anchors'. check_rules known physical n anchors layout = Inr anchors'"
proof (induction layout arbitrary: n anchors)
  case Nil
  then show ?case by simp
next
  case (Cons e rest)
  obtain client p where e: "e = (client, p)" by (cases e)
  have "length (filter counted_primary rest) + (if counted_primary e then Suc n else n) \<le> 1"
    using Cons.prems(2) by (simp split: if_splits)
  from Cons.IH[OF _ this] Cons.prems show ?case unfolding e check_rules_step by (auto split: if_splits)
qed

lemma topology_layout_valid_iff:
  assumes "umap_ok layout"
  shows "topology_validate_layout layout known physical = None \<longleftrightarrow>
    (\<forall>e\<in>set layout. rule_valid known physical e) \<and> length (filter counted_primary layout) \<le> 1 \<and> acyclic (rule_rel layout)"
proof (cases "check_rules known physical 0 [] layout")
  case (Inl e)
  then have "\<not> ((\<forall>e\<in>set layout. rule_valid known physical e) \<and> length (filter counted_primary layout) \<le> 1)"
    using check_rules_complete[of layout known physical 0 "[]"] by auto
  with Inl show ?thesis by (auto simp: topology_validate_layout_def)
next
  case (Inr anchors)
  have spec: "\<forall>e\<in>set layout. rule_valid known physical e" "length (filter counted_primary layout) \<le> 1"
    "set anchors = rule_rel layout" "umap_ok anchors"
    using check_rules_spec[OF Inr assms] by auto
  show ?thesis using Inr spec some_anchor_cycle[OF spec(4)] by (simp add: topology_validate_layout_def)
qed

lemma pinned_detached: "pinned p \<Longrightarrow> pinned (detach_anchor u (normalize_rule p))"
  by (cases "lp_automatic_fallback p"; cases "lp_anchor_kind p = ''client'' \<and> lp_anchor_id p = u")
    (auto simp: detach_anchor_def normalize_rule_def pinned_def is_automatic_fallback_def)

lemma detached_fields:
  "lp_primary (detach_anchor u (normalize_rule p)) = lp_primary p"
  "lp_preserve p \<Longrightarrow> lp_preserve (detach_anchor u (normalize_rule p))"
  "\<not> (lp_anchor_kind (detach_anchor u (normalize_rule p)) = ''client'' \<and> lp_anchor_id (detach_anchor u (normalize_rule p)) = u)"
  by (simp_all add: detach_anchor_def normalize_rule_def)

lemma normalize_fields:
  "lp_anchor_kind (normalize_rule p) = lp_anchor_kind p" "lp_anchor_id (normalize_rule p) = lp_anchor_id p"
  "lp_preserve (normalize_rule p) = lp_preserve p"
  by (simp_all add: normalize_rule_def)

lemma detach_live:
  assumes "\<not> lp_preserve (detach_anchor u q)"
  shows "detach_anchor u q = q \<and> \<not> (lp_anchor_kind q = ''client'' \<and> lp_anchor_id q = u)"
proof (cases "lp_anchor_kind q = ''client'' \<and> lp_anchor_id q = u")
  case True
  then have "lp_preserve (detach_anchor u q)" by (cases "lp_preserve q") (simp_all add: detach_anchor_def)
  with assms show ?thesis by simp
next
  case False
  then show ?thesis by (auto simp: detach_anchor_def)
qed

lemma detached_live:
  assumes "\<not> lp_preserve (detach_anchor u (normalize_rule p))"
  shows "lp_anchor_kind (detach_anchor u (normalize_rule p)) = lp_anchor_kind p"
    "lp_anchor_id (detach_anchor u (normalize_rule p)) = lp_anchor_id p"
    "\<not> lp_preserve p" "\<not> (lp_anchor_kind p = ''client'' \<and> lp_anchor_id p = u)"
  using detach_live[OF assms] assms by (auto simp: normalize_fields)

lemma remove_client_list:
  "remove_client_from_layout layout u = map (\<lambda>(k, p). (k, detach_anchor u (normalize_rule p))) (filter (\<lambda>e. fst e \<noteq> u) layout)"
  by (induction layout) (auto simp: remove_client_from_layout_def normalize_layout_def umap_map_def)

lemma map_of_remove_client:
  "map_of (remove_client_from_layout layout u) v =
     (if v = u then None else map_option (\<lambda>p. detach_anchor u (normalize_rule p)) (map_of layout v))"
  by (cases "map_of layout v") (simp_all add: remove_client_from_layout_def normalize_layout_def)

text \<open>Unpairing a client keeps the layout usable: removing a client from a valid layout leaves one
  that is valid for the remaining clients and names the removed client neither as a key nor as a client
  anchor; the primary choice of every other client is kept.
  (remote_display_topology.cpp, remove_client_from_layout and validate_layout)\<close>

theorem unpair_keeps_layout_valid:
  assumes "umap_ok layout" "topology_validate_layout layout known physical = None"
  shows "topology_validate_layout (remove_client_from_layout layout u) (removeAll u known) physical = None \<and>
    map_of (remove_client_from_layout layout u) u = None \<and>
    (\<forall>v p. map_of (remove_client_from_layout layout u) v = Some p \<longrightarrow> \<not> (lp_anchor_kind p = ''client'' \<and> lp_anchor_id p = u)) \<and>
    (\<forall>v. v \<noteq> u \<longrightarrow> map_option lp_primary (map_of (remove_client_from_layout layout u) v) = map_option lp_primary (map_of layout v))"
proof -
  let ?T = "\<lambda>p. detach_anchor u (normalize_rule p)" and ?L = "remove_client_from_layout layout u"
  have valid: "\<forall>e\<in>set layout. rule_valid known physical e" "length (filter counted_primary layout) \<le> 1" "acyclic (rule_rel layout)"
    using assms(2) unfolding topology_layout_valid_iff[OF assms(1)] by auto
  have ok: "umap_ok ?L" using assms(1) by (simp add: remove_client_from_layout_def normalize_layout_def)
  have rules: "\<forall>e\<in>set ?L. rule_valid (removeAll u known) physical e"
  proof
    fix e assume "e \<in> set ?L"
    then obtain k p where kp: "(k, p) \<in> set layout" "k \<noteq> u" "e = (k, ?T p)" by (auto simp: remove_client_list)
    then have "rule_valid known physical (k, p)" using valid(1) by blast
    then show "rule_valid (removeAll u known) physical e"
      using kp(2,3) detached_live[of u p] by (cases "lp_preserve (?T p)") (auto simp: rule_valid_def)
  qed
  have "length (filter counted_primary ?L) = length (filter (\<lambda>(k, p). counted_primary (k, ?T p)) (filter (\<lambda>e. fst e \<noteq> u) layout))"
    by (simp add: remove_client_list filter_map o_def case_prod_beta)
  also have "\<dots> \<le> length (filter counted_primary layout)"
  proof (induction layout)
    case (Cons e rest)
    have "counted_primary (fst e, ?T (snd e)) \<Longrightarrow> counted_primary e"
      using pinned_detached[of "snd e" u] by (auto simp: counted_primary_def detached_fields)
    with Cons show ?case by (auto simp: case_prod_beta)
  qed simp
  finally have prim: "length (filter counted_primary ?L) \<le> 1" using valid(2) by simp
  have "rule_rel ?L \<subseteq> rule_rel layout"
  proof
    fix x assume "x \<in> rule_rel ?L"
    then obtain k p where "(k, p) \<in> set layout" "x = (k, lp_anchor_id (?T p))" "\<not> lp_preserve (?T p)" "lp_anchor_kind (?T p) = ''client''"
      by (auto simp: rule_rel_def remove_client_list)
    then show "x \<in> rule_rel layout" using detached_live[of u p] by (auto simp: rule_rel_def)
  qed
  with valid(3) have "acyclic (rule_rel ?L)" by (rule acyclic_subset)
  with rules prim have "topology_validate_layout ?L (removeAll u known) physical = None"
    unfolding topology_layout_valid_iff[OF ok] by blast
  moreover have "\<not> (lp_anchor_kind q = ''client'' \<and> lp_anchor_id q = u)" if "map_of ?L v = Some q" for v q
  proof -
    from that obtain p where "q = ?T p" by (auto simp: map_of_remove_client split: if_splits)
    then show ?thesis using detached_fields(3)[of u p] by simp
  qed
  moreover have "map_option lp_primary (map_of ?L v) = map_option lp_primary (map_of layout v)" if "v \<noteq> u" for v
    using that by (cases "map_of layout v") (simp_all add: map_of_remove_client detached_fields)
  ultimately show ?thesis by (simp add: map_of_remove_client)
qed

theorem unpair_keeps_layout_valid_witness:
  "topology_validate_layout (remove_client_from_layout
      [(''a'', demo_rule), (''b'', demo_rule\<lparr>lp_anchor_kind := ''client'', lp_anchor_id := ''a'', lp_primary := False\<rparr>)] ''a'')
    [''b''] [''m''] = None"
proof -
  let ?l = "[(''a'', demo_rule), (''b'', demo_rule\<lparr>lp_anchor_kind := ''client'', lp_anchor_id := ''a'', lp_primary := False\<rparr>)]"
  have "umap_ok ?l" "topology_validate_layout ?l [''a'', ''b''] [''m''] = None"
    by (simp_all add: topology_validate_layout_def demo_rule_def is_automatic_fallback_def anchor_cycle.simps)
  from unpair_keeps_layout_valid[OF this, of "''a''"] show ?thesis by simp
qed

end
