(* ===== verification/Topology_Coordinator.thy ===== *)
theory Topology_Coordinator
  imports Topology_Layout Target_Lease Text_Codec
begin

text \<open>
  The coordinator of client displays (\<^verbatim>\<open>src/src/remote_display_topology.cpp\<close>, class
  \<^verbatim>\<open>coordinator_t\<close>): which paired client owns an output as a Remote Monitor, as a normal game
  or as both, and when the platform callbacks may change the desktop. Every public operation runs under
  one mutex, so it is one function on the state. The callbacks are parameters: functions on the world
  they change (\<open>co_world\<close>), \<open>None\<close> when not registered. The lease registry is a parameter of every
  operation that asks it; an operation reads it and returns the mutation token it takes, so it is the
  same before and after (\<open>mutation_balanced\<close> of \<open>Target_Lease\<close>). A reference to a
  stored client state is a lookup by its key. 64-bit generations and tokens are naturals.
\<close>

section \<open>Data\<close>

record 'w runtime_callbacks_t =
  cb_create_or_reclaim :: "(uuid \<Rightarrow> string \<Rightarrow> mode_t \<Rightarrow> 'w \<Rightarrow> bool \<times> 'w) option"
  cb_resolve_mode :: "(uuid \<Rightarrow> mode_t \<Rightarrow> 'w \<Rightarrow> mode_t \<times> 'w) option"
  cb_apply :: "(node_t list \<Rightarrow> 'w \<Rightarrow> bool \<times> 'w) option"
  cb_observe_shared_mode :: "(uuid \<Rightarrow> 'w \<Rightarrow> mode_t option \<times> 'w) option"
  cb_finalize_mode :: "(uuid \<Rightarrow> mode_t \<Rightarrow> bool \<Rightarrow> 'w \<Rightarrow> bool \<times> mode_t \<times> 'w) option"
  cb_exact_target :: "(uuid \<Rightarrow> mode_t \<Rightarrow> 'w \<Rightarrow> string option \<times> 'w) option"
  cb_remove :: "(uuid \<Rightarrow> 'w \<Rightarrow> bool \<times> 'w) option"
  cb_capacity :: "('w \<Rightarrow> nat) option"
  cb_terminate :: "(uuid \<Rightarrow> 'w \<Rightarrow> bool \<times> 'w) option"

record 'w coordinator_env =
  en_cb :: "'w runtime_callbacks_t"
  en_thread :: nat
  en_leases :: registry_t

record 'w coordinator_t =
  co_layout :: layout_t
  co_baseline :: "node_t list"
  co_clients :: "(uuid, client_state_t) umap"
  co_observed :: "(uuid, nat) umap"
  co_released :: "(uuid, nat) umap"
  co_restore_pending :: bool
  co_shutdown_pending :: bool
  co_next_token :: nat
  co_next_order :: nat
  co_world :: 'w

record runtime_state_t =
  rs_accepted :: bool
  rs_ready :: bool
  rs_retryable :: bool
  rs_output :: string
  rs_error :: string
  rs_hdr_enabled :: bool

record activation_result_t =
  ar_accepted :: bool
  ar_capture_ready :: bool
  ar_warning :: string

record reservation_t =
  re_accepted :: bool
  re_newly_reserved :: bool
  re_token :: nat

definition coordinator_init :: "'w \<Rightarrow> 'w coordinator_t" where
  "coordinator_init w = \<lparr>co_layout = [], co_baseline = [], co_clients = [], co_observed = [], co_released = [],
     co_restore_pending = False, co_shutdown_pending = False, co_next_token = 0, co_next_order = 0, co_world = w\<rparr>"

definition default_client_identities :: nat where "default_client_identities = 4"
definition max_client_identities :: nat where "max_client_identities = 8"

section \<open>Access\<close>

definition set_client :: "uuid \<Rightarrow> (client_state_t \<Rightarrow> client_state_t) \<Rightarrow> 'w coordinator_t \<Rightarrow> 'w coordinator_t" where
  "set_client u f s = (case map_of (co_clients s) u of
      None \<Rightarrow> s
    | Some st \<Rightarrow> s\<lparr>co_clients := AList.update u (f st) (co_clients s)\<rparr>)"

definition erase_client :: "uuid \<Rightarrow> 'w coordinator_t \<Rightarrow> 'w coordinator_t" where
  "erase_client u s = s\<lparr>co_clients := AList.delete u (co_clients s)\<rparr>"

definition get_client :: "'w coordinator_t \<Rightarrow> uuid \<Rightarrow> client_state_t" where
  "get_client s u = (case map_of (co_clients s) u of None \<Rightarrow> default_client | Some st \<Rightarrow> st)"

definition may_mutate :: "'w coordinator_env \<Rightarrow> bool" where
  "may_mutate env \<longleftrightarrow> begin_mutation (en_thread env) (en_leases env) \<noteq> None"

definition any_client :: "(client_state_t \<Rightarrow> bool) \<Rightarrow> 'w coordinator_t \<Rightarrow> bool" where
  "any_client P s \<longleftrightarrow> list_ex (\<lambda>e. P (snd e)) (co_clients s)"

definition client_ids :: "(client_state_t \<Rightarrow> bool) \<Rightarrow> 'w coordinator_t \<Rightarrow> uuid list" where
  "client_ids P s = sort (map fst (filter (\<lambda>e. P (snd e)) (co_clients s)))"

definition desired_mode :: "client_state_t \<Rightarrow> mode_t" where
  "desired_mode st = (case (cl_remote_monitor st, cl_monitor_requested_mode st) of
      (True, Some m) \<Rightarrow> m
    | _ \<Rightarrow> (case (cl_normal_game st, cl_normal_requested_mode st) of (True, Some m) \<Rightarrow> m | _ \<Rightarrow> default_mode))"

definition resolve_effective_mode :: "'w coordinator_env \<Rightarrow> uuid \<Rightarrow> 'w coordinator_t \<Rightarrow> 'w coordinator_t" where
  "resolve_effective_mode env u s =
     (let desired = desired_mode (get_client s u) in
      case cb_resolve_mode (en_cb env) of
        None \<Rightarrow> set_client u (\<lambda>st. st\<lparr>cl_effective_mode := desired\<rparr>) s
      | Some f \<Rightarrow> (case f u desired (co_world s) of (m, w) \<Rightarrow>
          set_client u (\<lambda>st. st\<lparr>cl_effective_mode := m\<rparr>) (s\<lparr>co_world := w\<rparr>)))"

definition observe :: "'w coordinator_env \<Rightarrow> uuid \<Rightarrow> 'w coordinator_t \<Rightarrow> mode_t option \<times> 'w coordinator_t" where
  "observe env u s = (case cb_observe_shared_mode (en_cb env) of
      None \<Rightarrow> (None, s)
    | Some f \<Rightarrow> (case f u (co_world s) of (m, w) \<Rightarrow> (m, s\<lparr>co_world := w\<rparr>)))"

definition with_geometry :: "mode_t \<Rightarrow> client_state_t \<Rightarrow> client_state_t" where
  "with_geometry m st = st\<lparr>cl_effective_mode := (cl_effective_mode st)\<lparr>m_width := m_width m, m_height := m_height m,
     m_refresh_hz := m_refresh_hz m\<rparr>\<rparr>"

text \<open>The loop of \<^verbatim>\<open>refresh_unverified_shared_geometry_locked\<close> over the keys of the map; it
  changes values only.\<close>

fun refresh_geometry :: "'w coordinator_env \<Rightarrow> uuid \<Rightarrow> uuid list \<Rightarrow> 'w coordinator_t \<Rightarrow> bool \<times> 'w coordinator_t" where
  "refresh_geometry env except [] s = (True, s)"
| "refresh_geometry env except (u # us) s =
     (let st = get_client s u in
      if u = except \<or> \<not> owns_display st \<or> \<not> cl_shared_mode_unverified st then refresh_geometry env except us s
      else case observe env u s of
        (None, s') \<Rightarrow> (False, s')
      | (Some m, s') \<Rightarrow>
          if m_width m \<le> 0 \<or> m_height m \<le> 0 \<or> m_refresh_hz m \<le> 0 then (False, s')
          else refresh_geometry env except us (set_client u (with_geometry m) s'))"

definition refresh_unverified_shared_geometry :: "'w coordinator_env \<Rightarrow> uuid \<Rightarrow> 'w coordinator_t \<Rightarrow> bool \<times> 'w coordinator_t" where
  "refresh_unverified_shared_geometry env except s = refresh_geometry env except (map fst (co_clients s)) s"

text \<open>\<^verbatim>\<open>callbacks_.apply_composed_topology(compose_locked(ignored))\<close>.\<close>

definition apply_composed :: "(node_t list \<Rightarrow> 'w \<Rightarrow> bool \<times> 'w) \<Rightarrow> 'w coordinator_t \<Rightarrow> bool \<times> 'w coordinator_t" where
  "apply_composed f s =
     (case f (fst (compose_locked (co_baseline s) (co_layout s) (co_clients s))) (co_world s) of
        (ok, w) \<Rightarrow> (ok, s\<lparr>co_world := w\<rparr>))"

definition call_bool :: "(uuid \<Rightarrow> 'w \<Rightarrow> bool \<times> 'w) \<Rightarrow> uuid \<Rightarrow> 'w coordinator_t \<Rightarrow> bool \<times> 'w coordinator_t" where
  "call_bool f u s = (case f u (co_world s) of (ok, w) \<Rightarrow> (ok, s\<lparr>co_world := w\<rparr>))"

definition captured :: "client_state_t \<Rightarrow> bool" where
  "captured st \<longleftrightarrow> cl_capture_references st \<noteq> []"

definition display_mutation_deferred :: "'w coordinator_env \<Rightarrow> 'w coordinator_t \<Rightarrow> bool" where
  "display_mutation_deferred env s \<longleftrightarrow> protected_output (en_leases env) \<or> co_shutdown_pending s \<or>
     any_client (\<lambda>st. cl_normal_release_pending st \<and> captured st) s"

definition client_identity_capacity :: "'w coordinator_env \<Rightarrow> 'w coordinator_t \<Rightarrow> nat" where
  "client_identity_capacity env s = min max_client_identities
     (case cb_capacity (en_cb env) of None \<Rightarrow> default_client_identities | Some f \<Rightarrow> f (co_world s))"

section \<open>Queries and settings\<close>

definition set_layout :: "layout_t \<Rightarrow> 'w coordinator_t \<Rightarrow> 'w coordinator_t" where
  "set_layout layout s = s\<lparr>co_layout := normalize_layout layout\<rparr>"

definition set_physical_baseline :: "node_t list \<Rightarrow> 'w coordinator_t \<Rightarrow> 'w coordinator_t" where
  "set_physical_baseline nodes s = s\<lparr>co_baseline := nodes\<rparr>"

definition refresh_idle_physical_baseline :: "node_t list \<Rightarrow> 'w coordinator_t \<Rightarrow> 'w coordinator_t" where
  "refresh_idle_physical_baseline nodes s =
     (if nodes = [] \<or> co_restore_pending s \<or> any_client owns_display s then s else s\<lparr>co_baseline := nodes\<rparr>)"

definition physical_node_ids :: "'w coordinator_t \<Rightarrow> string list" where
  "physical_node_ids s = map n_id (filter n_physical (co_baseline s))"

definition normal_game_release_pending :: "'w coordinator_t \<Rightarrow> bool" where
  "normal_game_release_pending s \<longleftrightarrow> any_client cl_normal_release_pending s"

definition managed_client_identity_count :: "'w coordinator_t \<Rightarrow> nat" where
  "managed_client_identity_count s = length (filter (\<lambda>e. owns_display (snd e)) (co_clients s))"

definition has_live_managed_client_identity :: "'w coordinator_t \<Rightarrow> bool" where
  "has_live_managed_client_identity s \<longleftrightarrow>
     any_client (\<lambda>st. cl_remote_monitor st \<or> (cl_normal_game st \<and> (\<not> cl_normal_release_pending st \<or> captured st))) s"

definition managed_client_identity_ids :: "'w coordinator_t \<Rightarrow> uuid list" where
  "managed_client_identity_ids s = client_ids owns_display s"

definition protected_remote_monitor_client_ids :: "'w coordinator_t \<Rightarrow> uuid list" where
  "protected_remote_monitor_client_ids s = client_ids cl_remote_monitor s"

definition idle_normal_game_recovery_client_ids :: "bool \<Rightarrow> 'w coordinator_t \<Rightarrow> uuid list" where
  "idle_normal_game_recovery_client_ids capture_runtime_owned s =
     (if capture_runtime_owned then []
      else client_ids (\<lambda>st. cl_normal_game st \<and> \<not> cl_remote_monitor st \<and> \<not> captured st) s)"

definition generic_virtual_display_cleanup_allowed :: "'w coordinator_env \<Rightarrow> 'w coordinator_t \<Rightarrow> bool" where
  "generic_virtual_display_cleanup_allowed env s \<longleftrightarrow> \<not> protected_output (en_leases env) \<and> \<not> any_client owns_display s"

definition physical_display_restore_allowed :: "'w coordinator_env \<Rightarrow> 'w coordinator_t \<Rightarrow> bool" where
  "physical_display_restore_allowed env s \<longleftrightarrow> \<not> protected_output (en_leases env) \<and>
     \<not> any_client (\<lambda>st. cl_remote_monitor st \<or> captured st) s"

section \<open>Normal-game identities\<close>

text \<open>\<^verbatim>\<open>clients_.try_emplace(client_uuid)\<close> with the placement order of a new entry.\<close>

definition ensure_client :: "uuid \<Rightarrow> 'w coordinator_t \<Rightarrow> 'w coordinator_t" where
  "ensure_client u s =
     (if umap_contains (co_clients s) u then s
      else s\<lparr>co_next_order := Suc (co_next_order s),
             co_clients := AList.update u (default_client\<lparr>cl_placement_order := Suc (co_next_order s)\<rparr>) (co_clients s)\<rparr>)"

definition no_reservation :: reservation_t where
  "no_reservation = \<lparr>re_accepted = False, re_newly_reserved = False, re_token = 0\<rparr>"

definition reserve_normal_game_identity ::
  "'w coordinator_env \<Rightarrow> uuid \<Rightarrow> string \<Rightarrow> mode_t \<Rightarrow> 'w coordinator_t \<Rightarrow> reservation_t \<times> 'w coordinator_t" where
  "reserve_normal_game_identity env u label mode s =
     (if \<not> may_mutate env \<or> display_mutation_deferred env s then (no_reservation, s)
      else if u = '''' \<or> (\<not> umap_contains (co_clients s) u \<and> length (co_clients s) \<ge> client_identity_capacity env s)
      then (no_reservation, s)
      else let s1 = ensure_client u s; st = get_client s1 u in
        if cl_normal_game st \<and> \<not> cl_normal_release_pending st
        then (\<lparr>re_accepted = True, re_newly_reserved = False, re_token = cl_normal_game_token st\<rparr>, s1)
        else let token = Suc (co_next_token s1);
                 s2 = set_client u (\<lambda>st. st\<lparr>cl_label := label, cl_normal_requested_mode := Some mode,
                   cl_effective_mode := (if cl_remote_monitor st then cl_effective_mode st else mode),
                   cl_normal_game := True, cl_normal_release_pending := False, cl_normal_game_token := token\<rparr>)
                   (s1\<lparr>co_next_token := token\<rparr>)
             in (\<lparr>re_accepted = True, re_newly_reserved = True, re_token = token\<rparr>, s2))"

text \<open>The loop of \<^verbatim>\<open>reapply_composed_topology\<close>.\<close>

fun reresolve :: "'w coordinator_env \<Rightarrow> uuid list \<Rightarrow> 'w coordinator_t \<Rightarrow> 'w coordinator_t" where
  "reresolve env [] s = s"
| "reresolve env (u # us) s =
     (let st = get_client s u in
      if owns_display st
      then let confirmed_hdr = m_hdr (cl_effective_mode st);
               s1 = resolve_effective_mode env u s;
               s2 = (if cb_finalize_mode (en_cb env) \<noteq> None \<and> cl_remote_monitor st
                     then set_client u (\<lambda>st. st\<lparr>cl_effective_mode := (cl_effective_mode st)\<lparr>m_hdr := confirmed_hdr\<rparr>\<rparr>) s1
                     else s1)
           in reresolve env us s2
      else reresolve env us s)"

definition reapply_composed_topology :: "'w coordinator_env \<Rightarrow> 'w coordinator_t \<Rightarrow> bool \<times> 'w coordinator_t" where
  "reapply_composed_topology env s =
     (if \<not> may_mutate env \<or> display_mutation_deferred env s then (False, s)
      else case cb_apply (en_cb env) of
        None \<Rightarrow> (False, s)
      | Some f \<Rightarrow>
          (case refresh_unverified_shared_geometry env '''' (reresolve env (map fst (co_clients s)) s) of
             (False, s1) \<Rightarrow> (False, s1)
           | (True, s1) \<Rightarrow> apply_composed f s1))"

definition drop_normal_role :: "client_state_t \<Rightarrow> client_state_t" where
  "drop_normal_role st = st\<lparr>cl_normal_game := False, cl_normal_requested_mode := None, cl_normal_game_token := 0\<rparr>"

definition rollback_normal_game_identity ::
  "'w coordinator_env \<Rightarrow> uuid \<Rightarrow> nat \<Rightarrow> 'w coordinator_t \<Rightarrow> bool \<times> 'w coordinator_t" where
  "rollback_normal_game_identity env u token s =
     (if \<not> may_mutate env then (False, s)
      else case map_of (co_clients s) u of
        None \<Rightarrow> (False, s)
      | Some st \<Rightarrow>
          if \<not> cl_normal_game st \<or> cl_normal_game_token st \<noteq> token then (False, s)
          else if display_mutation_deferred env s \<or> captured st
          then (False, set_client u (\<lambda>st. st\<lparr>cl_normal_release_pending := True\<rparr>) s)
          else if cl_remote_monitor st
          then (False, set_client u (\<lambda>st. (drop_normal_role st)\<lparr>cl_normal_release_pending := False\<rparr>) s)
          else (True, erase_client u s))"

definition keep_normal_role :: "client_state_t \<Rightarrow> client_state_t \<Rightarrow> client_state_t" where
  "keep_normal_role old st = st\<lparr>cl_normal_game := True, cl_normal_requested_mode := cl_normal_requested_mode old,
     cl_normal_game_token := cl_normal_game_token old\<rparr>"

definition release_normal_game_identity_locked :: "'w coordinator_env \<Rightarrow> uuid \<Rightarrow> 'w coordinator_t \<Rightarrow> 'w coordinator_t" where
  "release_normal_game_identity_locked env u s =
     (if \<not> may_mutate env then s
      else let old = get_client s u; s1 = set_client u drop_normal_role s in
      if cl_remote_monitor old then set_client u (\<lambda>st. st\<lparr>cl_normal_release_pending := False\<rparr>) s1
      else case cb_apply (en_cb env) of
        None \<Rightarrow> set_client u (keep_normal_role old) s1
      | Some f \<Rightarrow>
        (case refresh_unverified_shared_geometry env '''' s1 of
          (False, s2) \<Rightarrow>
            (case cb_terminate (en_cb env) of
               None \<Rightarrow> set_client u (keep_normal_role old) s2
             | Some g \<Rightarrow> (case call_bool g u s2 of
                 (True, s3) \<Rightarrow> erase_client u s3
               | (False, s3) \<Rightarrow> set_client u (keep_normal_role old) s3))
        | (True, s2) \<Rightarrow>
            (case apply_composed f s2 of
               (False, s3) \<Rightarrow> set_client u (keep_normal_role old) s3
             | (True, s3) \<Rightarrow>
                 (case cb_remove (en_cb env) of
                    None \<Rightarrow> erase_client u s3
                  | Some g \<Rightarrow> (case call_bool g u s3 of
                      (True, s4) \<Rightarrow> erase_client u s4
                    | (False, s4) \<Rightarrow>
                        (let s5 = set_client u (keep_normal_role old) s4 in
                         case refresh_unverified_shared_geometry env '''' s5 of
                           (False, s6) \<Rightarrow> s6
                         | (True, s6) \<Rightarrow> snd (apply_composed f s6)))))))"

definition release_normal_game_identity :: "'w coordinator_env \<Rightarrow> uuid \<Rightarrow> nat \<Rightarrow> 'w coordinator_t \<Rightarrow> 'w coordinator_t" where
  "release_normal_game_identity env u token s =
     (case map_of (co_clients s) u of
        None \<Rightarrow> s
      | Some st \<Rightarrow>
          if \<not> cl_normal_game st \<or> token = 0 \<or> cl_normal_game_token st \<noteq> token then s
          else let s1 = set_client u (\<lambda>st. st\<lparr>cl_normal_release_pending := True\<rparr>) s in
            if display_mutation_deferred env s1 then s1 else release_normal_game_identity_locked env u s1)"

definition retain_normal_game_capture :: "uuid \<Rightarrow> nat \<Rightarrow> 'w coordinator_t \<Rightarrow> bool \<times> 'w coordinator_t" where
  "retain_normal_game_capture u token s =
     (case map_of (co_clients s) u of
        None \<Rightarrow> (False, s)
      | Some st \<Rightarrow>
          if \<not> cl_normal_game st \<or> token = 0 \<or> cl_normal_game_token st \<noteq> token \<or> cl_normal_release_pending st then (False, s)
          else (True, set_client u (\<lambda>st. st\<lparr>cl_capture_references :=
                 AList.update token (Suc (umap_count (cl_capture_references st) token)) (cl_capture_references st)\<rparr>) s))"

text \<open>The destructor \<^verbatim>\<open>~capture_reference_t\<close> of a held reference.\<close>

definition drop_capture_reference :: "uuid \<Rightarrow> nat \<Rightarrow> 'w coordinator_t \<Rightarrow> 'w coordinator_t" where
  "drop_capture_reference u token s = set_client u (\<lambda>st. case map_of (cl_capture_references st) token of
      None \<Rightarrow> st
    | Some n \<Rightarrow> st\<lparr>cl_capture_references := (if n = 1 then AList.delete token (cl_capture_references st)
        else AList.update token (n - 1) (cl_capture_references st))\<rparr>) s"

fun release_marked :: "'w coordinator_env \<Rightarrow> (client_state_t \<Rightarrow> bool) \<Rightarrow> uuid list \<Rightarrow> 'w coordinator_t \<Rightarrow> 'w coordinator_t" where
  "release_marked env P [] s = s"
| "release_marked env P (u # us) s =
     (case map_of (co_clients s) u of
        None \<Rightarrow> release_marked env P us s
      | Some st \<Rightarrow> release_marked env P us (if P st then release_normal_game_identity_locked env u s else s))"

definition mark_normal_release :: "'w coordinator_t \<Rightarrow> 'w coordinator_t" where
  "mark_normal_release s = s\<lparr>co_clients := umap_map (\<lambda>_ st.
     if cl_normal_game st then st\<lparr>cl_normal_release_pending := True\<rparr> else st) (co_clients s)\<rparr>"

definition release_all_normal_game_identities :: "'w coordinator_env \<Rightarrow> 'w coordinator_t \<Rightarrow> 'w coordinator_t" where
  "release_all_normal_game_identities env s =
     (let s1 = mark_normal_release s in
      if display_mutation_deferred env s1 then s1
      else release_marked env (\<lambda>st. cl_normal_game st \<and> cl_normal_release_pending st) (map fst (co_clients s1)) s1)"

definition complete_restored_normal_game_cleanup :: "'w coordinator_env \<Rightarrow> 'w coordinator_t \<Rightarrow> 'w coordinator_t" where
  "complete_restored_normal_game_cleanup env s =
     (if protected_output (en_leases env) then s
      else s\<lparr>co_clients := filter (\<lambda>e. \<not> (cl_normal_game (snd e) \<and> cl_normal_release_pending (snd e) \<and>
             \<not> captured (snd e) \<and> \<not> cl_remote_monitor (snd e))) (co_clients s)\<rparr>)"

section \<open>Remote Monitor activation\<close>

definition retry_later :: "uuid \<Rightarrow> string \<Rightarrow> 'w coordinator_t \<Rightarrow> activation_result_t \<times> 'w coordinator_t" where
  "retry_later u warning s = (\<lparr>ar_accepted = True, ar_capture_ready = False, ar_warning = warning\<rparr>,
     set_client u (\<lambda>st. st\<lparr>cl_lifecycle := Retryable, cl_warning := warning\<rparr>) s)"

text \<open>A failure after the shared mode was trusted: a shared capture must verify it again.\<close>

definition distrust_shared :: "bool \<Rightarrow> uuid \<Rightarrow> 'w coordinator_t \<Rightarrow> 'w coordinator_t" where
  "distrust_shared shared_capture u s =
     (if shared_capture
      then set_client u (\<lambda>st. st\<lparr>cl_deferred_reconfiguration := True, cl_shared_mode_unverified := True\<rparr>) s else s)"

text \<open>The end of \<^verbatim>\<open>activate_locked\<close>: compose, apply, finalize the mode, find the capture output.\<close>

definition activate_apply ::
  "'w coordinator_env \<Rightarrow> bool \<Rightarrow> (node_t list \<Rightarrow> 'w \<Rightarrow> bool \<times> 'w) \<Rightarrow> (uuid \<Rightarrow> mode_t \<Rightarrow> 'w \<Rightarrow> string option \<times> 'w)
    \<Rightarrow> uuid \<Rightarrow> 'w coordinator_t \<Rightarrow> activation_result_t \<times> 'w coordinator_t" where
  "activate_apply env shared_capture apply_topology exact_target u s =
     (let s1 = set_client u (\<lambda>st. st\<lparr>cl_lifecycle := Applying\<rparr>) s;
          warnings = snd (compose_locked (co_baseline s1) (co_layout s1) (co_clients s1)) in
      case apply_composed apply_topology s1 of
        (False, s2) \<Rightarrow> retry_later u
          ''The composed display topology did not apply; existing owners and their displays were retained.''
          (distrust_shared shared_capture u s2)
      | (True, s2) \<Rightarrow>
        (case (case cb_finalize_mode (en_cb env) of
                 None \<Rightarrow> (True, s2)
               | Some f \<Rightarrow> (case f u (cl_effective_mode (get_client s2 u)) (\<not> shared_capture) (co_world s2) of
                   (ok, m, w) \<Rightarrow> (ok, set_client u (\<lambda>st. st\<lparr>cl_effective_mode := m\<rparr>) (s2\<lparr>co_world := w\<rparr>)))) of
           (False, s3) \<Rightarrow> retry_later u
             ''The requested client display color state could not be verified; Resume will retry.''
             (distrust_shared shared_capture u s3)
         | (True, s3) \<Rightarrow>
           (let s4 = (case warnings of [] \<Rightarrow> s3 | warning # _ \<Rightarrow> set_client u (\<lambda>st. st\<lparr>cl_warning := warning\<rparr>) s3) in
            case exact_target u (cl_effective_mode (get_client s4 u)) (co_world s4) of
              (output, w) \<Rightarrow>
                (let s5 = s4\<lparr>co_world := w\<rparr> in
                 if output = None \<or> output = Some ''''
                 then retry_later u
                   ''The requested client display is not yet capture-ready. Existing streamed physical or virtual displays remain topology anchors, but capture will wait rather than mirror another screen.''
                   (distrust_shared shared_capture u s5)
                 else (\<lparr>ar_accepted = True, ar_capture_ready = True, ar_warning = ''''\<rparr>,
                   set_client u (\<lambda>st. st\<lparr>cl_exact_output := (case output of None \<Rightarrow> '''' | Some x \<Rightarrow> x),
                     cl_deferred_reconfiguration := False, cl_shared_mode_unverified := False,
                     cl_lifecycle := Ready, cl_warning := ''''\<rparr>) s5)))))"

text \<open>The check of the observed geometry; \<open>Inl\<close> is an early return.\<close>

definition check_geometry ::
  "'w coordinator_env \<Rightarrow> bool \<Rightarrow> uuid \<Rightarrow> 'w coordinator_t \<Rightarrow> (activation_result_t \<times> 'w coordinator_t) + 'w coordinator_t" where
  "check_geometry env shared_capture u s =
     (let st = get_client s u in
      if \<not> (shared_capture \<or> cl_shared_mode_unverified st \<or>
              (cb_finalize_mode (en_cb env) \<noteq> None \<and> cl_deferred_reconfiguration st))
      then Inr s
      else case observe env u s of (observed, s1) \<Rightarrow>
        (let matches = (case observed of None \<Rightarrow> False | Some m \<Rightarrow>
               m_width m = m_width (cl_effective_mode st) \<and> m_height m = m_height (cl_effective_mode st) \<and>
               m_refresh_hz m = m_refresh_hz (cl_effective_mode st)) in
         if \<not> matches
         then Inl (retry_later u ''The shared display does not yet match the requested geometry; Resume will retry.''
           (set_client u (\<lambda>st. (case observed of None \<Rightarrow> st | Some m \<Rightarrow> with_geometry m st)
              \<lparr>cl_deferred_reconfiguration := (shared_capture \<or> cl_deferred_reconfiguration st),
               cl_shared_mode_unverified := True\<rparr>) s1))
         else Inr (set_client u (\<lambda>st. st\<lparr>cl_shared_mode_unverified := False,
              cl_deferred_reconfiguration := (shared_capture \<and> cl_deferred_reconfiguration st)\<rparr>) s1)))"

text \<open>The lease of the output: shared with the running capture, created or reclaimed, or kept.\<close>

definition hold_lease ::
  "'w coordinator_env \<Rightarrow> bool \<Rightarrow> (uuid \<Rightarrow> string \<Rightarrow> mode_t \<Rightarrow> 'w \<Rightarrow> bool \<times> 'w) \<Rightarrow> uuid \<Rightarrow> 'w coordinator_t
    \<Rightarrow> (activation_result_t \<times> 'w coordinator_t) + 'w coordinator_t" where
  "hold_lease env shared_capture create u s =
     (let st = get_client s u in
      if \<not> cl_lease_held st \<and> shared_capture then Inr (set_client u (\<lambda>st. st\<lparr>cl_lease_held := True\<rparr>) s)
      else if \<not> cl_lease_held st \<or> (\<not> shared_capture \<and> cl_deferred_reconfiguration st)
      then (case create u (cl_label st) (desired_mode st) (co_world s) of
              (False, w) \<Rightarrow> Inl (retry_later u
                ''The owned virtual display could not be created or reclaimed; Resume will retry the same identity.''
                (s\<lparr>co_world := w\<rparr>))
            | (True, w) \<Rightarrow> Inr (set_client u (\<lambda>st. st\<lparr>cl_lifecycle := Leased, cl_lease_held := True\<rparr>) (s\<lparr>co_world := w\<rparr>)))
      else Inr s)"

definition activate_locked :: "'w coordinator_env \<Rightarrow> uuid \<Rightarrow> 'w coordinator_t \<Rightarrow> activation_result_t \<times> 'w coordinator_t" where
  "activate_locked env u s =
     (case (cb_create_or_reclaim (en_cb env), cb_apply (en_cb env), cb_exact_target (en_cb env)) of
        (Some create, Some apply_topology, Some exact_target) \<Rightarrow>
          (let st = get_client s u;
               shared_capture = (cb_finalize_mode (en_cb env) \<noteq> None \<and> (cl_normal_game st \<or> cl_lifecycle st = Ready)) in
           case refresh_unverified_shared_geometry env u s of
             (False, s1) \<Rightarrow> retry_later u ''A shared display mode is awaiting verification; topology changes are deferred.'' s1
           | (True, s1) \<Rightarrow>
             (case hold_lease env shared_capture create u s1 of
                Inl r \<Rightarrow> r
              | Inr s2 \<Rightarrow>
                (case check_geometry env shared_capture u (resolve_effective_mode env u s2) of
                   Inl r \<Rightarrow> r
                 | Inr s3 \<Rightarrow>
                   (case refresh_unverified_shared_geometry env u s3 of
                      (False, s4) \<Rightarrow> retry_later u ''A shared display geometry could not be observed; topology changes are deferred.'' s4
                    | (True, s4) \<Rightarrow> activate_apply env shared_capture apply_topology exact_target u s4))))
      | _ \<Rightarrow> retry_later u ''Remote Monitor runtime wiring is unavailable; ownership was retained for Resume.'' s)"

definition refused :: "string \<Rightarrow> runtime_state_t" where
  "refused e = \<lparr>rs_accepted = False, rs_ready = False, rs_retryable = True, rs_output = '''', rs_error = e, rs_hdr_enabled = False\<rparr>"

text \<open>The part of \<^verbatim>\<open>activate_or_resume\<close> after the client entry exists.\<close>

definition activate_entry ::
  "'w coordinator_env \<Rightarrow> uuid \<Rightarrow> string \<Rightarrow> mode_t \<Rightarrow> nat \<Rightarrow> 'w coordinator_t \<Rightarrow> runtime_state_t \<times> 'w coordinator_t" where
  "activate_entry env u label mode generation s =
     (let st = get_client s u in
      if cl_monitor_release_pending st \<and> generation \<le> cl_generation st
      then (refused ''The previous Remote Monitor release is still being finalized.'', s)
      else let s1 = (if cl_monitor_release_pending st
                     then set_client u (\<lambda>st. st\<lparr>cl_monitor_release_pending := False, cl_monitor_release_reason := ''''\<rparr>) s else s) in
        if generation < cl_generation st then (refused ''A newer Remote Monitor generation is already active.'', s1)
        else if cb_finalize_mode (en_cb env) \<noteq> None \<and> cl_remote_monitor st \<and> cl_lifecycle st = Ready
        then (refused ''The previous Remote Monitor transport has not drained.'', s1)
        else let reconfigure = (cb_finalize_mode (en_cb env) \<noteq> None \<and> cl_lease_held st \<and>
                   (case cl_monitor_requested_mode st of None \<Rightarrow> True | Some m \<Rightarrow>
                      m_width m \<noteq> m_width mode \<or> m_height m \<noteq> m_height mode \<or> m_refresh_hz m \<noteq> m_refresh_hz mode));
                 s2 = set_client u (\<lambda>st. st\<lparr>cl_deferred_reconfiguration := (reconfigure \<or> cl_deferred_reconfiguration st),
                   cl_generation := generation, cl_label := label, cl_monitor_requested_mode := Some mode,
                   cl_effective_mode := mode, cl_remote_monitor := True\<rparr>) s1 in
          (case activate_locked env u s2 of (result, s3) \<Rightarrow>
             (let st3 = get_client s3 u in
              (\<lparr>rs_accepted = ar_accepted result, rs_ready = ar_capture_ready result, rs_retryable = (cl_lifecycle st3 = Retryable),
                rs_output = cl_exact_output st3, rs_error = ar_warning result, rs_hdr_enabled = m_hdr (cl_effective_mode st3)\<rparr>, s3))))"

definition activate_or_resume ::
  "'w coordinator_env \<Rightarrow> uuid \<Rightarrow> string \<Rightarrow> mode_t \<Rightarrow> nat \<Rightarrow> 'w coordinator_t \<Rightarrow> runtime_state_t \<times> 'w coordinator_t" where
  "activate_or_resume env u label mode generation s =
     (if \<not> may_mutate env then (refused ''Existing target borrowers hold display leases.'', s)
      else case refresh_unverified_shared_geometry env u s of
        (False, s1) \<Rightarrow> (refused ''A shared display mode is awaiting verification; topology changes are deferred.'', s1)
      | (True, s1) \<Rightarrow>
        if generation < umap_count (co_observed s1) u
        then (refused ''A newer Remote Monitor generation was already observed.'', s1\<lparr>co_observed := umap_index (co_observed s1) u\<rparr>)
        else let s2 = s1\<lparr>co_observed := AList.update u generation (co_observed s1)\<rparr> in
        if display_mutation_deferred env s2
        then (refused ''Remote display changes are waiting for active capture to drain.'', s2)
        else if (case map_of (co_released s2) u of None \<Rightarrow> False | Some g \<Rightarrow> generation \<le> g)
        then (refused ''This Remote Monitor generation was already released.'', s2)
        else if \<not> umap_contains (co_clients s2) u \<and> length (co_clients s2) \<ge> client_identity_capacity env s2
        then (refused (''Remote display capacity is '' @ to_string_int (int (client_identity_capacity env s2)) @ '' paired-client identities.''), s2)
        else activate_entry env u label mode generation (ensure_client u s2))"

definition activate_remote_monitor ::
  "'w coordinator_env \<Rightarrow> uuid \<Rightarrow> string \<Rightarrow> mode_t \<Rightarrow> 'w coordinator_t \<Rightarrow> activation_result_t \<times> 'w coordinator_t" where
  "activate_remote_monitor env u label mode s = (case activate_or_resume env u label mode 0 s of (r, s') \<Rightarrow>
     (\<lparr>ar_accepted = rs_accepted r, ar_capture_ready = rs_ready r, ar_warning = rs_error r\<rparr>, s'))"

definition resume_remote_monitor :: "'w coordinator_env \<Rightarrow> uuid \<Rightarrow> 'w coordinator_t \<Rightarrow> activation_result_t \<times> 'w coordinator_t" where
  "resume_remote_monitor env u s =
     (let no = (\<lambda>w. (\<lparr>ar_accepted = False, ar_capture_ready = False, ar_warning = w\<rparr>, s)) in
      if display_mutation_deferred env s then no ''Remote display changes are waiting for active capture to drain.''
      else case map_of (co_clients s) u of
        None \<Rightarrow> no ''Remote Monitor is not owned by this paired client.''
      | Some st \<Rightarrow>
          if \<not> cl_remote_monitor st then no ''Remote Monitor is not owned by this paired client.''
          else if cl_monitor_release_pending st then no ''The previous Remote Monitor release is still being finalized.''
          else activate_locked env u s)"

section \<open>Remote Monitor release\<close>

definition runtime_snapshot :: "'w coordinator_t \<Rightarrow> uuid \<Rightarrow> nat \<Rightarrow> runtime_state_t" where
  "runtime_snapshot s u generation =
     (let none = \<lparr>rs_accepted = False, rs_ready = False, rs_retryable = False, rs_output = '''', rs_error = '''', rs_hdr_enabled = False\<rparr> in
      case map_of (co_clients s) u of
        None \<Rightarrow> none
      | Some st \<Rightarrow>
          if generation \<noteq> cl_generation st \<or> \<not> cl_remote_monitor st then none
          else \<lparr>rs_accepted = True, rs_ready = (cl_lifecycle st = Ready), rs_retryable = (cl_lifecycle st = Retryable),
                rs_output = cl_exact_output st, rs_error = cl_warning st, rs_hdr_enabled = m_hdr (cl_effective_mode st)\<rparr>)"

definition is_ready :: "'w coordinator_t \<Rightarrow> uuid \<Rightarrow> nat \<Rightarrow> bool" where
  "is_ready s u generation \<longleftrightarrow> rs_ready (runtime_snapshot s u generation)"

definition postpone_release :: "uuid \<Rightarrow> string \<Rightarrow> 'w coordinator_t \<Rightarrow> 'w coordinator_t" where
  "postpone_release u reason s = set_client u (\<lambda>st. st\<lparr>cl_monitor_release_pending := True, cl_monitor_release_reason := reason\<rparr>) s"

text \<open>The three identical blocks of \<^verbatim>\<open>release_locked\<close> that undo a release whose topology or
  removal failed; \<open>old\<close> holds the locals saved before it.\<close>

definition keep_monitor :: "'w coordinator_env \<Rightarrow> uuid \<Rightarrow> client_state_t \<Rightarrow> string \<Rightarrow> 'w coordinator_t \<Rightarrow> 'w coordinator_t" where
  "keep_monitor env u old reason s = resolve_effective_mode env u
     (set_client u (\<lambda>st. st\<lparr>cl_remote_monitor := True, cl_monitor_requested_mode := cl_monitor_requested_mode old,
        cl_lease_held := cl_lease_held old, cl_lifecycle := cl_lifecycle old, cl_warning := cl_warning old,
        cl_monitor_release_pending := True, cl_monitor_release_reason := reason\<rparr>) s)"

definition finish_release :: "uuid \<Rightarrow> bool \<Rightarrow> 'w coordinator_t \<Rightarrow> 'w coordinator_t" where
  "finish_release u preserve_shared s =
     (let s1 = set_client u (\<lambda>st. st\<lparr>cl_monitor_release_pending := False, cl_monitor_release_reason := '''',
                 cl_deferred_reconfiguration := False, cl_shared_mode_unverified := preserve_shared\<rparr>) s;
          generation = cl_generation (get_client s u) in
      if generation = 0 then s1
      else s1\<lparr>co_released := AList.update u (max (umap_count (co_released s1) u) generation) (co_released s1)\<rparr>)"

text \<open>The removal at the end of \<^verbatim>\<open>release_locked\<close>, after the remaining topology was handled.\<close>

definition remove_released ::
  "'w coordinator_env \<Rightarrow> uuid \<Rightarrow> client_state_t \<Rightarrow> string \<Rightarrow> bool \<Rightarrow> 'w coordinator_t \<Rightarrow> 'w coordinator_t" where
  "remove_released env u old reason preserve_shared s =
     (let remove = (case cb_terminate (en_cb env) of Some g \<Rightarrow> Some g | None \<Rightarrow> cb_remove (en_cb env)) in
      case (\<not> cl_normal_game old, remove) of
        (True, Some g) \<Rightarrow>
          (case call_bool g u s of
             (True, s1) \<Rightarrow> finish_release u preserve_shared s1
           | (False, s1) \<Rightarrow>
             (let s2 = keep_monitor env u old reason s1 in
              case (cb_terminate (en_cb env), cb_apply (en_cb env)) of
                (None, Some f) \<Rightarrow>
                  (case refresh_unverified_shared_geometry env '''' s2 of
                     (False, s3) \<Rightarrow> s3
                   | (True, s3) \<Rightarrow> snd (apply_composed f s3))
              | _ \<Rightarrow> s2))
      | _ \<Rightarrow> finish_release u preserve_shared s)"

definition release_locked :: "'w coordinator_env \<Rightarrow> uuid \<Rightarrow> string \<Rightarrow> 'w coordinator_t \<Rightarrow> 'w coordinator_t" where
  "release_locked env u reason s =
     (if \<not> may_mutate env then postpone_release u reason s
      else let old = get_client s u in
      if \<not> cl_remote_monitor old then s
      else if display_mutation_deferred env s then postpone_release u reason s
      else let preserve_shared = (cl_normal_game old \<and> cl_shared_mode_unverified old);
               remove_display = (\<not> cl_normal_game old);
               s1 = set_client u (\<lambda>st. st\<lparr>cl_remote_monitor := False, cl_monitor_requested_mode := None\<rparr>) s;
               s2 = (if cl_normal_game old then resolve_effective_mode env u s1 else s1);
               s3 = set_client u (\<lambda>st. st\<lparr>cl_lease_held := cl_normal_game old, cl_lifecycle := Released, cl_warning := reason\<rparr>) s2 in
        if cl_normal_release_pending old \<and> captured old
        then set_client u (\<lambda>st. st\<lparr>cl_deferred_reconfiguration := False, cl_shared_mode_unverified := preserve_shared\<rparr>) s3
        else case cb_apply (en_cb env) of
          Some f \<Rightarrow>
            (case refresh_unverified_shared_geometry env '''' s3 of (geometry_known, s4) \<Rightarrow>
             (case (if geometry_known then apply_composed f s4 else (False, s4)) of (applied, s5) \<Rightarrow>
              (let s6 = (if \<not> applied \<and> geometry_known then s5\<lparr>co_restore_pending := True\<rparr> else s5) in
               if \<not> applied \<and> cb_terminate (en_cb env) = None \<and> (geometry_known \<or> remove_display)
               then keep_monitor env u old reason s6
               else remove_released env u old reason preserve_shared s6)))
        | None \<Rightarrow>
            if remove_display \<and> cb_terminate (en_cb env) = None then keep_monitor env u old reason s3
            else remove_released env u old reason preserve_shared s3)"

text \<open>What every caller of \<^verbatim>\<open>release_locked\<close> does next: an entry with no role left is erased.\<close>

definition drop_roleless :: "uuid \<Rightarrow> 'w coordinator_t \<Rightarrow> 'w coordinator_t" where
  "drop_roleless u s = (if \<not> owns_display (get_client s u) then erase_client u s else s)"

definition explicit_release :: "'w coordinator_env \<Rightarrow> uuid \<Rightarrow> nat \<Rightarrow> string \<Rightarrow> 'w coordinator_t \<Rightarrow> bool \<times> 'w coordinator_t" where
  "explicit_release env u generation reason s =
     (case map_of (co_clients s) u of
        None \<Rightarrow> (True, s)
      | Some st \<Rightarrow>
          if generation \<noteq> cl_generation st then (True, s)
          else let s1 = release_locked env u reason s in
            (\<not> cl_remote_monitor (get_client s1 u), drop_roleless u s1))"

definition transport_lost :: "uuid \<Rightarrow> nat \<Rightarrow> 'w coordinator_t \<Rightarrow> 'w coordinator_t" where
  "transport_lost u generation s =
     (case map_of (co_clients s) u of
        None \<Rightarrow> s
      | Some st \<Rightarrow>
          if generation \<noteq> cl_generation st then s
          else set_client u (\<lambda>st. st\<lparr>cl_lifecycle := Retryable,
            cl_warning := ''Transport was lost; Remote Monitor ownership and desired settings were retained for Resume.''\<rparr>) s)"

definition note_lease_lost :: "uuid \<Rightarrow> 'w coordinator_t \<Rightarrow> 'w coordinator_t" where
  "note_lease_lost u s = set_client u (\<lambda>st. st\<lparr>cl_lease_held := False, cl_lifecycle := Retryable,
     cl_warning := ''Remote Monitor lease was lost; desired settings and identity are retained for Resume.''\<rparr>) s"

definition disconnect_monitor :: "'w coordinator_env \<Rightarrow> uuid \<Rightarrow> 'w coordinator_t \<Rightarrow> 'w coordinator_t" where
  "disconnect_monitor env u s =
     (case map_of (co_clients s) u of
        None \<Rightarrow> s
      | Some _ \<Rightarrow> drop_roleless u (release_locked env u ''Remote Monitor was disconnected.'' s))"

definition unpair_client :: "'w coordinator_env \<Rightarrow> uuid \<Rightarrow> 'w coordinator_t \<Rightarrow> 'w coordinator_t" where
  "unpair_client env u s = disconnect_monitor env u s"

section \<open>Shutdown and draining\<close>

definition shutdown_complete :: "'w coordinator_t \<Rightarrow> bool" where
  "shutdown_complete s \<longleftrightarrow> \<not> co_shutdown_pending s \<and> \<not> co_restore_pending s \<and> co_clients s = []"

fun remove_managed ::
  "'w coordinator_env \<Rightarrow> (uuid, client_state_t) umap \<Rightarrow> uuid list \<Rightarrow> 'w coordinator_t \<Rightarrow> 'w coordinator_t" where
  "remove_managed env retained [] s = s"
| "remove_managed env retained (u # us) s =
     (case (case cb_remove (en_cb env) of None \<Rightarrow> (True, s) | Some g \<Rightarrow> call_bool g u s) of (removed, s1) \<Rightarrow>
        remove_managed env retained us
          (case (removed, map_of retained u) of
             (False, Some st) \<Rightarrow> (if umap_contains (co_clients s1) u then s1
                else s1\<lparr>co_clients := AList.update u st (co_clients s1)\<rparr>)
           | _ \<Rightarrow> s1))"

definition finalize_shutdown :: "'w coordinator_env \<Rightarrow> 'w coordinator_t \<Rightarrow> 'w coordinator_t" where
  "finalize_shutdown env s =
     (if \<not> may_mutate env then s
      else if protected_output (en_leases env) then s\<lparr>co_shutdown_pending := True\<rparr>
      else let managed_ids = client_ids owns_display s in
      if managed_ids = [] \<and> \<not> co_restore_pending s then s\<lparr>co_clients := [], co_shutdown_pending := False\<rparr>
      else if co_restore_pending s \<and> cb_apply (en_cb env) = None then s\<lparr>co_shutdown_pending := True\<rparr>
      else let retained = co_clients s; s1 = s\<lparr>co_clients := []\<rparr> in
      case (case cb_apply (en_cb env) of None \<Rightarrow> (True, s1) | Some f \<Rightarrow> apply_composed f s1) of
        (False, s2) \<Rightarrow> s2\<lparr>co_clients := retained, co_shutdown_pending := True\<rparr>
      | (True, s2) \<Rightarrow>
          (let s3 = remove_managed env retained managed_ids (s2\<lparr>co_restore_pending := False\<rparr>)
           in s3\<lparr>co_shutdown_pending := (co_clients s3 \<noteq> [])\<rparr>))"

definition coordinator_shutdown :: "'w coordinator_env \<Rightarrow> bool \<Rightarrow> 'w coordinator_t \<Rightarrow> 'w coordinator_t" where
  "coordinator_shutdown env preserve_owned_displays s =
     (if preserve_owned_displays
      then s\<lparr>co_clients := [], co_observed := [], co_released := [], co_restore_pending := False, co_shutdown_pending := False\<rparr>
      else if any_client captured s then mark_normal_release (s\<lparr>co_shutdown_pending := True\<rparr>)
      else finalize_shutdown env (s\<lparr>co_shutdown_pending := True\<rparr>))"

fun release_postponed :: "'w coordinator_env \<Rightarrow> uuid list \<Rightarrow> 'w coordinator_t \<Rightarrow> 'w coordinator_t" where
  "release_postponed env [] s = s"
| "release_postponed env (u # us) s =
     (case map_of (co_clients s) u of
        None \<Rightarrow> release_postponed env us s
      | Some st \<Rightarrow> release_postponed env us
          (if cl_monitor_release_pending st
           then drop_roleless u (release_locked env u (cl_monitor_release_reason st) s) else s))"

definition release_drained_normal_game_identities :: "'w coordinator_env \<Rightarrow> 'w coordinator_t \<Rightarrow> 'w coordinator_t" where
  "release_drained_normal_game_identities env s =
     (if co_shutdown_pending s
      then (if any_client captured s then s else finalize_shutdown env s)
      else if any_client captured s \<and> display_mutation_deferred env s then s
      else let s1 = release_marked env (\<lambda>st. cl_normal_release_pending st \<and> \<not> captured st) (map fst (co_clients s)) s
           in release_postponed env (map fst (co_clients s1)) s1)"

definition release_idle_normal_game_identities :: "'w coordinator_env \<Rightarrow> bool \<Rightarrow> bool \<Rightarrow> 'w coordinator_t \<Rightarrow> 'w coordinator_t" where
  "release_idle_normal_game_identities env app_running capture_runtime_owned s =
     (if \<not> app_running \<and> \<not> capture_runtime_owned then release_all_normal_game_identities env s
      else release_drained_normal_game_identities env s)"

section \<open>What an operation leaves alone\<close>

text \<open>The fields of a client that decide who owns what.\<close>

definition core :: "client_state_t \<Rightarrow> bool \<times> nat \<times> bool \<times> (nat, nat) umap \<times> bool \<times> nat" where
  "core st = (cl_normal_game st, cl_normal_game_token st, cl_normal_release_pending st, cl_capture_references st,
     cl_remote_monitor st, cl_placement_order st)"

definition same_core :: "'w coordinator_t \<Rightarrow> 'w coordinator_t \<Rightarrow> bool" where
  "same_core s t \<longleftrightarrow> map fst (co_clients t) = map fst (co_clients s) \<and>
     (\<forall>u. map_option core (map_of (co_clients t) u) = map_option core (map_of (co_clients s) u)) \<and>
     co_next_token t = co_next_token s \<and> co_next_order t = co_next_order s"

text \<open>The rest of the state that only release and activation change.\<close>

definition epoch :: "client_state_t \<Rightarrow> nat \<times> bool" where
  "epoch st = (cl_generation st, cl_monitor_release_pending st)"

definition same_gens :: "'w coordinator_t \<Rightarrow> 'w coordinator_t \<Rightarrow> bool" where
  "same_gens s t \<longleftrightarrow> co_observed t = co_observed s \<and> co_released t = co_released s \<and>
     co_shutdown_pending t = co_shutdown_pending s \<and>
     (\<forall>u. map_option epoch (map_of (co_clients t) u) = map_option epoch (map_of (co_clients s) u))"

lemma same_core_refl [simp]: "same_core s s" by (simp add: same_core_def)
lemma same_gens_refl [simp]: "same_gens s s" by (simp add: same_gens_def)

lemma same_core_trans: "same_core s t \<Longrightarrow> same_core t r \<Longrightarrow> same_core s r" by (simp add: same_core_def)
lemma same_gens_trans: "same_gens s t \<Longrightarrow> same_gens t r \<Longrightarrow> same_gens s r" by (simp add: same_gens_def)

lemma same_core_sym: "same_core s t \<Longrightarrow> same_core t s" by (simp add: same_core_def)

lemma same_core_lookup: "same_core s t \<Longrightarrow> map_option core (map_of (co_clients t) u) = map_option core (map_of (co_clients s) u)"
  by (simp add: same_core_def)

lemma same_core_length: "same_core s t \<Longrightarrow> length (co_clients t) = length (co_clients s)"
  unfolding same_core_def by (metis length_map)

lemma set_client_lookup [simp]:
  "map_of (co_clients (set_client u f s)) v = (if v = u then map_option f (map_of (co_clients s) u) else map_of (co_clients s) v)"
  by (cases "map_of (co_clients s) u") (simp_all add: set_client_def)

lemma set_client_frame [simp]:
  "co_next_token (set_client u f s) = co_next_token s" "co_next_order (set_client u f s) = co_next_order s"
  "co_observed (set_client u f s) = co_observed s" "co_released (set_client u f s) = co_released s"
  "co_shutdown_pending (set_client u f s) = co_shutdown_pending s" "co_restore_pending (set_client u f s) = co_restore_pending s"
  "co_world (set_client u f s) = co_world s"
  by (cases "map_of (co_clients s) u"; simp add: set_client_def)+

lemma set_client_keys [simp]: "map fst (co_clients (set_client u f s)) = map fst (co_clients s)"
proof (cases "map_of (co_clients s) u")
  case (Some st)
  then have "u \<in> set (map fst (co_clients s))" by (force dest: map_of_SomeD)
  then show ?thesis using Some by (simp add: set_client_def update_keys)
qed (simp add: set_client_def)

lemma same_core_set_client:
  "(\<And>st. map_of (co_clients s) u = Some st \<Longrightarrow> core (f st) = core st) \<Longrightarrow> same_core s (set_client u f s)"
  by (cases "map_of (co_clients s) u") (simp_all add: same_core_def)

lemma same_gens_set_client: "(\<And>st. epoch (f st) = epoch st) \<Longrightarrow> same_gens s (set_client u f s)"
  by (cases "map_of (co_clients s) u") (simp_all add: set_client_def same_gens_def)

lemma same_world [simp]:
  "same_core s (t\<lparr>co_world := w\<rparr>) = same_core s t" "same_gens s (t\<lparr>co_world := w\<rparr>) = same_gens s t"
  "same_core (t\<lparr>co_world := w\<rparr>) s = same_core t s" "same_gens (t\<lparr>co_world := w\<rparr>) s = same_gens t s"
  by (simp_all add: same_core_def same_gens_def)

definition quiet :: "'w coordinator_t \<Rightarrow> 'w coordinator_t \<Rightarrow> bool" where
  "quiet s t \<longleftrightarrow> same_core s t \<and> same_gens s t"

lemma quiet_refl [simp]: "quiet s s" by (simp add: quiet_def)

lemma quiet_trans: "quiet s t \<Longrightarrow> quiet t r \<Longrightarrow> quiet s r"
  unfolding quiet_def by (blast intro: same_core_trans same_gens_trans)

lemma quiet_set_client: "(\<And>st. core (f st) = core st \<and> epoch (f st) = epoch st) \<Longrightarrow> quiet s (set_client u f s)"
  by (simp add: quiet_def same_core_set_client same_gens_set_client)

lemma quiet_world [simp]: "quiet s (t\<lparr>co_world := w\<rparr>) = quiet s t" "quiet (t\<lparr>co_world := w\<rparr>) s = quiet t s"
  by (simp_all add: quiet_def)

lemma quiet_then_set:
  "quiet s t \<Longrightarrow> (\<And>st. core (f st) = core st \<and> epoch (f st) = epoch st) \<Longrightarrow> quiet s (set_client u f t)"
  by (blast intro: quiet_trans quiet_set_client)

lemma quiet_resolve: "quiet s (resolve_effective_mode env u s)"
  by (auto simp: resolve_effective_mode_def Let_def core_def epoch_def split: option.split prod.split intro!: quiet_then_set quiet_set_client)

lemma quiet_observe: "observe env u s = (m, t) \<Longrightarrow> quiet s t"
  by (auto simp: observe_def split: option.splits prod.splits)

lemma quiet_refresh_loop: "refresh_geometry env ex us s = (ok, t) \<Longrightarrow> quiet s t"
proof (induction env ex us s arbitrary: ok t rule: refresh_geometry.induct)
  case (1 env ex s)
  then show ?case by simp
next
  case (2 env ex u us s)
  let ?st = "get_client s u"
  show ?case
  proof (cases "u = ex \<or> \<not> owns_display ?st \<or> \<not> cl_shared_mode_unverified ?st")
    case True
    then show ?thesis using 2 by (simp add: Let_def)
  next
    case False
    obtain m s' where o: "observe env u s = (m, s')" by (cases "observe env u s")
    note q = quiet_observe[OF o]
    have step: "refresh_geometry env ex (u # us) s = (case m of None \<Rightarrow> (False, s')
        | Some md \<Rightarrow> if m_width md \<le> 0 \<or> m_height md \<le> 0 \<or> m_refresh_hz md \<le> 0 then (False, s')
            else refresh_geometry env ex us (set_client u (with_geometry md) s'))"
      unfolding refresh_geometry.simps Let_def if_not_P[OF False] o by (simp split: option.split)
    show ?thesis
    proof (cases "\<exists>md. m = Some md \<and> \<not> (m_width md \<le> 0 \<or> m_height md \<le> 0 \<or> m_refresh_hz md \<le> 0)")
      case True
      then obtain md where md: "m = Some md" "\<not> (m_width md \<le> 0 \<or> m_height md \<le> 0 \<or> m_refresh_hz md \<le> 0)" by blast
      have "refresh_geometry env ex us (set_client u (with_geometry md) s') = (ok, t)"
        using 2(3) step md by simp
      from 2(2)[OF refl False o[symmetric] md this]
      have "quiet (set_client u (with_geometry md) s') t" .
      moreover have "quiet s (set_client u (with_geometry md) s')"
        using q by (rule quiet_then_set) (simp add: with_geometry_def core_def epoch_def)
      ultimately show ?thesis by (blast intro: quiet_trans)
    next
      case False
      then have "t = s'" using 2(3) step by (auto split: option.splits)
      with q show ?thesis by simp
    qed
  qed
qed

lemma quiet_refresh: "refresh_unverified_shared_geometry env ex s = (ok, t) \<Longrightarrow> quiet s t"
  unfolding refresh_unverified_shared_geometry_def by (rule quiet_refresh_loop)

lemma quiet_apply: "apply_composed f s = (ok, t) \<Longrightarrow> quiet s t"
  by (auto simp: apply_composed_def split: prod.splits)

lemma quiet_call: "call_bool g u s = (ok, t) \<Longrightarrow> quiet s t"
  by (auto simp: call_bool_def split: prod.splits)

lemma quiet_retry: "quiet s t \<Longrightarrow> quiet s (snd (retry_later u w t))"
  unfolding retry_later_def by (auto simp: core_def epoch_def intro: quiet_then_set)

lemma quiet_distrust: "quiet s t \<Longrightarrow> quiet s (distrust_shared b u t)"
  unfolding distrust_shared_def by (auto simp: core_def epoch_def intro: quiet_then_set)

lemma quiet_hold:
  "case hold_lease env sc create u s of Inl r \<Rightarrow> quiet s (snd r) | Inr t \<Rightarrow> quiet s t"
  unfolding hold_lease_def Let_def
  by (auto simp: core_def epoch_def split: prod.split bool.split intro!: quiet_retry quiet_then_set)

lemma quiet_check:
  "case check_geometry env sc u s of Inl r \<Rightarrow> quiet s (snd r) | Inr t \<Rightarrow> quiet s t"
proof -
  obtain m s1 where o: "observe env u s = (m, s1)" by (cases "observe env u s")
  note q = quiet_observe[OF o]
  show ?thesis
    unfolding check_geometry_def Let_def o prod.case
    by (auto simp: core_def epoch_def with_geometry_def split: option.split intro!: quiet_retry quiet_then_set[OF q])
qed

lemma quiet_activate_apply: "quiet s (snd (activate_apply env sc f g u s))"
proof -
  define s1 where "s1 = set_client u (\<lambda>st. st\<lparr>cl_lifecycle := Applying\<rparr>) s"
  have q1: "quiet s s1" unfolding s1_def by (rule quiet_set_client) (simp add: core_def epoch_def)
  obtain ok s2 where a: "apply_composed f s1 = (ok, s2)" by (cases "apply_composed f s1")
  have q2: "quiet s s2" using q1 quiet_apply[OF a] by (rule quiet_trans)
  define fin where "fin = (case cb_finalize_mode (en_cb env) of
       None \<Rightarrow> (True, s2)
     | Some f \<Rightarrow> (case f u (cl_effective_mode (get_client s2 u)) (\<not> sc) (co_world s2) of
         (ok, m, w) \<Rightarrow> (ok, set_client u (\<lambda>st. st\<lparr>cl_effective_mode := m\<rparr>) (s2\<lparr>co_world := w\<rparr>))))"
  obtain ok3 s3 where f3: "fin = (ok3, s3)" by (cases fin)
  have "quiet s (snd fin)" unfolding fin_def using q2
    by (auto simp: core_def epoch_def split: option.split prod.split intro!: quiet_then_set)
  then have q3: "quiet s s3" by (simp add: f3)
  define s4 where "s4 = (case snd (compose_locked (co_baseline s1) (co_layout s1) (co_clients s1)) of [] \<Rightarrow> s3
     | warning # _ \<Rightarrow> set_client u (\<lambda>st. st\<lparr>cl_warning := warning\<rparr>) s3)"
  have q4: "quiet s s4" unfolding s4_def using q3 by (auto simp: core_def epoch_def split: list.split intro!: quiet_then_set)
  obtain out w where x: "g u (cl_effective_mode (get_client s4 u)) (co_world s4) = (out, w)"
    by (cases "g u (cl_effective_mode (get_client s4 u)) (co_world s4)")
  have q5: "quiet s (s4\<lparr>co_world := w\<rparr>)" using q4 by simp
  have ready: "quiet s (set_client u (\<lambda>st. st\<lparr>cl_exact_output := e, cl_deferred_reconfiguration := False,
      cl_shared_mode_unverified := False, cl_lifecycle := Ready, cl_warning := ''''\<rparr>) (s4\<lparr>co_world := w\<rparr>))" for e
    using q5 by (rule quiet_then_set) (simp add: core_def epoch_def)
  show ?thesis
    unfolding activate_apply_def Let_def s1_def[symmetric] a fin_def[symmetric] prod.case
    using q2 q3 q5 ready
    by (auto simp: f3 s4_def[symmetric] x split: bool.split intro!: quiet_retry quiet_distrust)
qed

lemma quiet_activate: "quiet s (snd (activate_locked env u s))"
proof -
  have wiring: "quiet s (snd (retry_later u w s))" for w by (rule quiet_retry) simp
  show ?thesis
  proof (cases "cb_create_or_reclaim (en_cb env) = None \<or> cb_apply (en_cb env) = None \<or> cb_exact_target (en_cb env) = None")
    case True
    then show ?thesis using wiring by (auto simp: activate_locked_def split: option.split)
  next
    case False
    then obtain create f g where cb: "cb_create_or_reclaim (en_cb env) = Some create" "cb_apply (en_cb env) = Some f"
      "cb_exact_target (en_cb env) = Some g" by auto
    define sc where "sc \<longleftrightarrow> cb_finalize_mode (en_cb env) \<noteq> None \<and> (cl_normal_game (get_client s u) \<or> cl_lifecycle (get_client s u) = Ready)"
    obtain k1 s1 where r1: "refresh_unverified_shared_geometry env u s = (k1, s1)"
      by (cases "refresh_unverified_shared_geometry env u s")
    note q1 = quiet_refresh[OF r1]
    have q2: "quiet s s2" if "hold_lease env sc create u s1 = Inr s2" for s2
      using quiet_trans[OF q1] quiet_hold[where env = env and sc = sc and create = create and u = u and s = s1] by (simp add: that)
    have i2: "quiet s (snd r)" if "hold_lease env sc create u s1 = Inl r" for r
      using quiet_trans[OF q1] quiet_hold[where env = env and sc = sc and create = create and u = u and s = s1] by (simp add: that)
    have q3: "quiet s2 s3" if "check_geometry env sc u (resolve_effective_mode env u s2) = Inr s3" for s2 s3
      using quiet_trans[OF quiet_resolve] quiet_check[where env = env and sc = sc and u = u and s = "resolve_effective_mode env u s2"] by (simp add: that)
    have i3: "quiet s2 (snd r)" if "check_geometry env sc u (resolve_effective_mode env u s2) = Inl r" for s2 r
      using quiet_trans[OF quiet_resolve] quiet_check[where env = env and sc = sc and u = u and s = "resolve_effective_mode env u s2"] by (simp add: that)
    have tail: "quiet s3 (snd (case refresh_unverified_shared_geometry env u s3 of
        (False, s4) \<Rightarrow> retry_later u w s4 | (True, s4) \<Rightarrow> activate_apply env sc f g u s4))" for s3 w
    proof -
      obtain k4 s4 where r4: "refresh_unverified_shared_geometry env u s3 = (k4, s4)"
        by (cases "refresh_unverified_shared_geometry env u s3")
      note q4 = quiet_refresh[OF r4]
      from quiet_trans[OF q4 quiet_activate_apply] quiet_retry[OF q4] show ?thesis
        by (cases k4) (simp_all add: r4)
    qed
    have eq: "activate_locked env u s = (case refresh_unverified_shared_geometry env u s of
        (False, s1) \<Rightarrow> retry_later u ''A shared display mode is awaiting verification; topology changes are deferred.'' s1
      | (True, s1) \<Rightarrow> (case hold_lease env sc create u s1 of
          Inl r \<Rightarrow> r
        | Inr s2 \<Rightarrow> (case check_geometry env sc u (resolve_effective_mode env u s2) of
            Inl r \<Rightarrow> r
          | Inr s3 \<Rightarrow> (case refresh_unverified_shared_geometry env u s3 of
              (False, s4) \<Rightarrow> retry_later u ''A shared display geometry could not be observed; topology changes are deferred.'' s4
            | (True, s4) \<Rightarrow> activate_apply env sc f g u s4))))"
      unfolding activate_locked_def Let_def cb prod.case option.case sc_def by (rule refl)
    show ?thesis
    proof (cases k1)
      case False
      then show ?thesis using quiet_retry[OF q1] by (simp add: eq r1)
    next
      case True
      show ?thesis
      proof (cases "hold_lease env sc create u s1")
        case (Inl r)
        then show ?thesis using i2[OF Inl] True by (simp add: eq r1)
      next
        case (Inr s2)
        note h = Inr
        show ?thesis
        proof (cases "check_geometry env sc u (resolve_effective_mode env u s2)")
          case (Inl r)
          then show ?thesis using quiet_trans[OF q2[OF h] i3[OF Inl]] True h by (simp add: eq r1)
        next
          case (Inr s3)
          then show ?thesis using quiet_trans[OF quiet_trans[OF q2[OF h] q3[OF Inr]] tail] True h
            by (simp add: eq r1)
        qed
      qed
    qed
  qed
qed

section \<open>Outcomes of the release operations\<close>

definition same_gates :: "'w coordinator_t \<Rightarrow> 'w coordinator_t \<Rightarrow> bool" where
  "same_gates s t \<longleftrightarrow> co_observed t = co_observed s \<and> co_released t = co_released s \<and> co_shutdown_pending t = co_shutdown_pending s"

lemma same_gates_refl [simp]: "same_gates s s" by (simp add: same_gates_def)
lemma same_gates_trans: "same_gates s t \<Longrightarrow> same_gates t r \<Longrightarrow> same_gates s r" by (simp add: same_gates_def)
lemma quiet_gates: "quiet s t \<Longrightarrow> same_gates s t" by (simp add: quiet_def same_gens_def same_gates_def)
lemma quiet_core: "quiet s t \<Longrightarrow> same_core s t" by (simp add: quiet_def)

lemma erase_client_simps [simp]:
  "map_of (co_clients (erase_client u s)) v = (if v = u then None else map_of (co_clients s) v)"
  "map fst (co_clients (erase_client u s)) = removeAll u (map fst (co_clients s))"
  "co_next_token (erase_client u s) = co_next_token s" "co_next_order (erase_client u s) = co_next_order s"
  "co_observed (erase_client u s) = co_observed s" "co_released (erase_client u s) = co_released s"
  "co_shutdown_pending (erase_client u s) = co_shutdown_pending s" "co_world (erase_client u s) = co_world s"
  by (simp_all add: erase_client_def AList.delete_keys)

lemma same_core_erase: "same_core s t \<Longrightarrow> same_core (erase_client u s) (erase_client u t)"
  unfolding same_core_def erase_client_simps by simp

lemma same_core_erase_set: "same_core (erase_client u s) (erase_client u (set_client u f s))"
  by (simp add: same_core_def)

lemma restore_core:
  assumes "same_core (set_client u d s) t" "map_of (co_clients s) u = Some old" "\<And>st. core st = core (d old) \<Longrightarrow> core (k st) = core old"
  shows "same_core s (set_client u k t)"
proof -
  from same_core_lookup[OF assms(1), of u] assms(2) obtain st where "map_of (co_clients t) u = Some st" "core st = core (d old)"
    by auto
  with assms show ?thesis unfolding same_core_def by (auto split: if_splits)
qed

lemma keep_restores:
  "core st = core (drop_normal_role old) \<Longrightarrow> cl_normal_game old \<Longrightarrow> core (keep_normal_role old st) = core old"
  by (auto simp: core_def epoch_def keep_normal_role_def drop_normal_role_def)

text \<open>The release of a normal role either keeps every owner as it was, or erases the client, or, for
  a client that is also a monitor, drops the role; it never touches generations or the shutdown flag.\<close>

definition normal_released :: "uuid \<Rightarrow> client_state_t \<Rightarrow> 'w coordinator_t \<Rightarrow> 'w coordinator_t \<Rightarrow> bool" where
  "normal_released u old s t \<longleftrightarrow> same_gates s t \<and>
     (same_core s t \<or> (\<not> cl_remote_monitor old \<and> same_core (erase_client u s) t) \<or>
      (cl_remote_monitor old \<and> same_core (set_client u (\<lambda>st. (drop_normal_role st)\<lparr>cl_normal_release_pending := False\<rparr>) s) t))"

lemma normal_released_keep:
  assumes "quiet (set_client u drop_normal_role s) x" "map_of (co_clients s) u = Some old" "cl_normal_game old"
  shows "normal_released u old s (set_client u (keep_normal_role old) x)"
  using restore_core[OF quiet_core[OF assms(1)] assms(2)] keep_restores[OF _ assms(3)] quiet_gates[OF assms(1)]
  by (auto simp: normal_released_def same_gates_def)

lemma normal_released_erase:
  assumes "quiet (set_client u drop_normal_role s) x" "\<not> cl_remote_monitor old"
  shows "normal_released u old s (erase_client u x)"
  using same_core_trans[OF same_core_erase_set same_core_erase[OF quiet_core[OF assms(1)]]] quiet_gates[OF assms(1)] assms(2)
  by (auto simp: normal_released_def same_gates_def)

lemma normal_released_quiet: "normal_released u old s t \<Longrightarrow> quiet t r \<Longrightarrow> normal_released u old s r"
  unfolding normal_released_def by (blast intro: same_core_trans same_gates_trans quiet_core quiet_gates)

lemma quiet_reapply:
  "quiet x (case refresh_unverified_shared_geometry env ex x of (False, y) \<Rightarrow> y | (True, y) \<Rightarrow> snd (apply_composed f y))"
proof -
  obtain k y where r: "refresh_unverified_shared_geometry env ex x = (k, y)" by (cases "refresh_unverified_shared_geometry env ex x")
  obtain ok z where a: "apply_composed f y = (ok, z)" by (cases "apply_composed f y")
  from quiet_refresh[OF r] quiet_trans[OF quiet_refresh[OF r] quiet_apply[OF a]] show ?thesis by (cases k) (simp_all add: r a)
qed

lemma release_normal_outcome:
  assumes old: "map_of (co_clients s) u = Some old" and ng: "cl_normal_game old"
  shows "normal_released u old s (release_normal_game_identity_locked env u s)"
proof -
  let ?t = "release_normal_game_identity_locked env u s"
  let ?s1 = "set_client u drop_normal_role s"
  have get: "get_client s u = old" using old by (simp add: get_client_def)
  note keep = normal_released_keep[OF _ old ng]
  consider (refused) "\<not> may_mutate env" | (shared) "may_mutate env" "cl_remote_monitor old"
    | (unwired) "may_mutate env" "\<not> cl_remote_monitor old" "cb_apply (en_cb env) = None"
    | (wired) f where "may_mutate env" "\<not> cl_remote_monitor old" "cb_apply (en_cb env) = Some f" by blast
  then show ?thesis
  proof cases
    case refused
    then show ?thesis by (simp add: release_normal_game_identity_locked_def normal_released_def)
  next
    case shared
    then have "?t = set_client u (\<lambda>st. st\<lparr>cl_normal_release_pending := False\<rparr>) ?s1"
      by (simp add: release_normal_game_identity_locked_def get)
    with shared show ?thesis by (simp add: normal_released_def same_core_def same_gates_def option.map_comp o_def)
  next
    case unwired
    then have "?t = set_client u (keep_normal_role old) ?s1" by (simp add: release_normal_game_identity_locked_def get)
    with keep[of ?s1] show ?thesis by simp
  next
    case (wired f)
    note unf = release_normal_game_identity_locked_def get Let_def wired
    obtain k s2 where r: "refresh_unverified_shared_geometry env '''' ?s1 = (k, s2)"
      by (cases "refresh_unverified_shared_geometry env '''' ?s1")
    note q2 = quiet_refresh[OF r]
    obtain ok s3 where a: "apply_composed f s2 = (ok, s3)" by (cases "apply_composed f s2")
    note q3 = quiet_trans[OF q2 quiet_apply[OF a]]
    show ?thesis
    proof (cases k)
      case False
      show ?thesis
      proof (cases "cb_terminate (en_cb env)")
        case None
        then show ?thesis using keep[OF q2] False by (simp add: unf r)
      next
        case (Some g)
        obtain b x where c: "call_bool g u s2 = (b, x)" by (cases "call_bool g u s2")
        note qx = quiet_trans[OF q2 quiet_call[OF c]]
        show ?thesis using Some False keep[OF qx] normal_released_erase[OF qx wired(2)] by (cases b) (simp_all add: unf r c)
      qed
    next
      case True
      show ?thesis
      proof (cases "\<not> ok \<or> cb_remove (en_cb env) = None")
        case fin: True
        then show ?thesis using True keep[OF q3] normal_released_erase[OF q3 wired(2)] by (cases ok) (auto simp: unf r a)
      next
        case False
        then obtain g where g: "ok" "cb_remove (en_cb env) = Some g" by auto
        obtain b x where c: "call_bool g u s3 = (b, x)" by (cases "call_bool g u s3")
        note qx = quiet_trans[OF q3 quiet_call[OF c]]
        show ?thesis
          using True g normal_released_erase[OF qx wired(2)] normal_released_quiet[OF keep[OF qx] quiet_reapply]
          by (cases b) (simp_all add: unf r a c)
      qed
    qed
  qed
qed

lemma any_client_iff: "umap_ok (co_clients s) \<Longrightarrow> any_client P s \<longleftrightarrow> (\<exists>u st. map_of (co_clients s) u = Some st \<and> P st)"
proof -
  assume ok: "umap_ok (co_clients s)"
  have "any_client P s \<longleftrightarrow> (\<exists>u st. (u, st) \<in> set (co_clients s) \<and> P st)"
    unfolding any_client_def list_ex_iff by force
  then show ?thesis unfolding in_set_umap[OF ok] .
qed

lemma any_clientI: "map_of (co_clients s) u = Some st \<Longrightarrow> P st \<Longrightarrow> any_client P s"
  by (force simp: any_client_def list_ex_iff dest: map_of_SomeD)

lemma deferred_drained:
  assumes "\<not> display_mutation_deferred env s" "map_of (co_clients s) u = Some st" "cl_normal_release_pending st"
  shows "\<not> captured st"
proof
  assume "captured st"
  with assms(3) have "any_client (\<lambda>st. cl_normal_release_pending st \<and> captured st) s"
    by (intro any_clientI[OF assms(2)]) blast
  with assms(1) show False by (simp add: display_mutation_deferred_def)
qed

text \<open>The release of a monitor role either keeps every owner as it was, with the release of the
  monitor still pending, or drops the role and records its generation as released.\<close>

definition monitor_released :: "uuid \<Rightarrow> client_state_t \<Rightarrow> 'w coordinator_t \<Rightarrow> 'w coordinator_t \<Rightarrow> bool" where
  "monitor_released u old s t \<longleftrightarrow> co_observed t = co_observed s \<and> co_shutdown_pending t = co_shutdown_pending s \<and>
     (same_core s t \<and> co_released t = co_released s \<and>
        (cl_remote_monitor old \<longrightarrow> (\<exists>st. map_of (co_clients t) u = Some st \<and> cl_monitor_release_pending st)) \<or>
      cl_remote_monitor old \<and> same_core (set_client u (\<lambda>st. st\<lparr>cl_remote_monitor := False\<rparr>) s) t \<and>
        co_released t = (if cl_generation old = 0 then co_released s
          else AList.update u (max (umap_count (co_released s) u) (cl_generation old)) (co_released s)))"

definition monitor_dropped :: "uuid \<Rightarrow> client_state_t \<Rightarrow> 'w coordinator_t \<Rightarrow> 'w coordinator_t \<Rightarrow> bool" where
  "monitor_dropped u old s t \<longleftrightarrow> same_gates s t \<and> same_core (set_client u (\<lambda>st. st\<lparr>cl_remote_monitor := False\<rparr>) s) t \<and>
     map_option cl_generation (map_of (co_clients t) u) = Some (cl_generation old)"

lemma monitor_dropped_quiet: "monitor_dropped u old s t \<Longrightarrow> quiet t r \<Longrightarrow> monitor_dropped u old s r"
proof -
  assume d: "monitor_dropped u old s t" and q: "quiet t r"
  have "map_option epoch (map_of (co_clients r) u) = map_option epoch (map_of (co_clients t) u)"
    using q by (simp add: quiet_def same_gens_def)
  then have "map_option cl_generation (map_of (co_clients r) u) = map_option cl_generation (map_of (co_clients t) u)"
    by (cases "map_of (co_clients r) u"; cases "map_of (co_clients t) u") (simp_all add: epoch_def)
  with d q show ?thesis unfolding monitor_dropped_def
    by (auto intro: same_core_trans same_gates_trans quiet_core quiet_gates)
qed

lemma monitor_dropped_world [simp]:
  "monitor_dropped u old s (t\<lparr>co_restore_pending := b\<rparr>) = monitor_dropped u old s t"
  by (simp add: monitor_dropped_def same_gates_def same_core_def)

lemma monitor_released_keep:
  assumes "monitor_dropped u old s t" "map_of (co_clients s) u = Some old" "cl_remote_monitor old"
  shows "monitor_released u old s (keep_monitor env u old reason t)"
proof -
  let ?k = "\<lambda>st. st\<lparr>cl_remote_monitor := True, cl_monitor_requested_mode := cl_monitor_requested_mode old,
        cl_lease_held := cl_lease_held old, cl_lifecycle := cl_lifecycle old, cl_warning := cl_warning old,
        cl_monitor_release_pending := True, cl_monitor_release_reason := reason\<rparr>"
  let ?t = "set_client u ?k t"
  have q: "quiet ?t (keep_monitor env u old reason t)" unfolding keep_monitor_def by (rule quiet_resolve)
  have "same_core s ?t"
    using assms unfolding monitor_dropped_def by (intro restore_core[OF _ assms(2)]) (auto simp: core_def)
  moreover obtain st where "map_of (co_clients t) u = Some st" using assms(1) by (auto simp: monitor_dropped_def)
  then have "map_option epoch (map_of (co_clients (keep_monitor env u old reason t)) u) = Some (cl_generation st, True)"
    using q by (simp add: quiet_def same_gens_def epoch_def)
  then have "\<exists>st. map_of (co_clients (keep_monitor env u old reason t)) u = Some st \<and> cl_monitor_release_pending st"
    by (auto simp: epoch_def)
  moreover have "same_gates s ?t" using assms(1) by (simp add: monitor_dropped_def same_gates_def)
  ultimately have "same_core s (keep_monitor env u old reason t)" "same_gates s (keep_monitor env u old reason t)"
    "\<exists>st. map_of (co_clients (keep_monitor env u old reason t)) u = Some st \<and> cl_monitor_release_pending st"
    using same_core_trans[OF _ quiet_core[OF q]] same_gates_trans[OF _ quiet_gates[OF q]] by auto
  then show ?thesis unfolding monitor_released_def same_gates_def by simp
qed

lemma monitor_released_quiet:
  assumes "monitor_released u old s t" "quiet t r"
  shows "monitor_released u old s r"
proof -
  have "map_option epoch (map_of (co_clients r) u) = map_option epoch (map_of (co_clients t) u)"
    using assms(2) by (simp add: quiet_def same_gens_def)
  then have "(\<exists>st. map_of (co_clients t) u = Some st \<and> cl_monitor_release_pending st) \<Longrightarrow>
      (\<exists>st. map_of (co_clients r) u = Some st \<and> cl_monitor_release_pending st)"
    by (cases "map_of (co_clients r) u") (auto simp: epoch_def)
  moreover have "same_gates t r" "\<And>x. same_core x t \<Longrightarrow> same_core x r"
    using assms(2) quiet_gates quiet_core same_core_trans by blast+
  ultimately show ?thesis using assms(1) unfolding monitor_released_def same_gates_def by auto
qed

lemma monitor_released_finish:
  assumes "monitor_dropped u old s t" "cl_remote_monitor old"
  shows "monitor_released u old s (finish_release u b t)"
proof -
  obtain st where st: "map_of (co_clients t) u = Some st" "cl_generation st = cl_generation old"
    using assms(1) by (auto simp: monitor_dropped_def)
  let ?f = "\<lambda>st. st\<lparr>cl_monitor_release_pending := False, cl_monitor_release_reason := '''',
                 cl_deferred_reconfiguration := False, cl_shared_mode_unverified := b\<rparr>"
  have "same_core t (set_client u ?f t)" by (rule same_core_set_client) (simp add: core_def)
  then have "same_core (set_client u (\<lambda>st. st\<lparr>cl_remote_monitor := False\<rparr>) s) (set_client u ?f t)"
    using assms(1) by (auto simp: monitor_dropped_def intro: same_core_trans)
  then have "same_core (set_client u (\<lambda>st. st\<lparr>cl_remote_monitor := False\<rparr>) s) (finish_release u b t)"
    by (simp add: finish_release_def Let_def same_core_def)
  then show ?thesis using assms st
    by (auto simp: monitor_released_def finish_release_def Let_def get_client_def monitor_dropped_def same_gates_def)
qed

lemma remove_released_outcome:
  assumes d: "monitor_dropped u old s t" and old: "map_of (co_clients s) u = Some old" "cl_remote_monitor old"
  shows "monitor_released u old s (remove_released env u old reason b t)"
proof -
  let ?remove = "case cb_terminate (en_cb env) of Some g \<Rightarrow> Some g | None \<Rightarrow> cb_remove (en_cb env)"
  show ?thesis
  proof (cases "cl_normal_game old \<or> ?remove = None")
    case True
    then show ?thesis using monitor_released_finish[OF d old(2)]
      by (auto simp: remove_released_def Let_def split: option.split bool.split)
  next
    case False
    then obtain g where g: "?remove = Some g" "\<not> cl_normal_game old" by auto
    obtain ok x where c: "call_bool g u t = (ok, x)" by (cases "call_bool g u t")
    note dx = monitor_dropped_quiet[OF d quiet_call[OF c]]
    show ?thesis
    proof (cases ok)
      case True
      then show ?thesis using monitor_released_finish[OF dx old(2)] g c by (simp add: remove_released_def Let_def)
    next
      case nok: False
      note k = monitor_released_keep[OF dx old, of env reason]
      show ?thesis using monitor_released_quiet[OF k quiet_reapply] k g nok c
        by (simp add: remove_released_def Let_def split: option.split)
    qed
  qed
qed

lemma release_locked_outcome:
  assumes old: "map_of (co_clients s) u = Some old"
  shows "monitor_released u old s (release_locked env u reason s)"
proof -
  have get: "get_client s u = old" using old by (simp add: get_client_def)
  have postpone: "monitor_released u old s (postpone_release u reason s)"
    using old by (auto simp: postpone_release_def monitor_released_def core_def intro!: same_core_set_client)
  consider (postponed) "\<not> may_mutate env \<or> (cl_remote_monitor old \<and> display_mutation_deferred env s)"
    | (none) "may_mutate env" "\<not> cl_remote_monitor old"
    | (go) "may_mutate env" "cl_remote_monitor old" "\<not> display_mutation_deferred env s" by blast
  then show ?thesis
  proof cases
    case postponed
    then show ?thesis using postpone by (auto simp: release_locked_def get Let_def)
  next
    case none
    then show ?thesis by (simp add: release_locked_def get Let_def monitor_released_def)
  next
    case go
    have drained: "\<not> (cl_normal_release_pending old \<and> captured old)"
      using deferred_drained[OF go(3) old] by blast
    define s1 where "s1 = set_client u (\<lambda>st. st\<lparr>cl_remote_monitor := False, cl_monitor_requested_mode := None\<rparr>) s"
    define s2 where "s2 = (if cl_normal_game old then resolve_effective_mode env u s1 else s1)"
    define s3 where "s3 = set_client u (\<lambda>st. st\<lparr>cl_lease_held := cl_normal_game old, cl_lifecycle := Released, cl_warning := reason\<rparr>) s2"
    let ?b = "cl_normal_game old \<and> cl_shared_mode_unverified old"
    have "monitor_dropped u old s s1" using old by (simp add: s1_def monitor_dropped_def same_gates_def same_core_def core_def)
    moreover have "quiet s1 s2" by (simp add: s2_def quiet_resolve)
    moreover have "quiet s2 s3" unfolding s3_def by (rule quiet_set_client) (simp add: core_def epoch_def)
    ultimately have d3: "monitor_dropped u old s s3" by (blast intro: monitor_dropped_quiet)
    note keep = monitor_released_keep[OF _ old go(2), of _ env reason]
    note remove = remove_released_outcome[OF _ old go(2), of _ env reason ?b]
    have go': "\<not> \<not> may_mutate env" "\<not> \<not> cl_remote_monitor old" using go by simp_all
    note unf = release_locked_def Let_def get if_not_P[OF go'(1)] if_not_P[OF go'(2)] if_not_P[OF go(3)]
      s1_def[symmetric] s2_def[symmetric] s3_def[symmetric] if_not_P[OF drained]
    show ?thesis
    proof (cases "cb_apply (en_cb env)")
      case None
      have "release_locked env u reason s = (if \<not> cl_normal_game old \<and> cb_terminate (en_cb env) = None
          then keep_monitor env u old reason s3 else remove_released env u old reason ?b s3)"
        unfolding unf None option.case by (rule refl)
      then show ?thesis using keep[OF d3] remove[OF d3] by simp
    next
      case (Some f)
      obtain k s4 where r: "refresh_unverified_shared_geometry env '''' s3 = (k, s4)"
        by (cases "refresh_unverified_shared_geometry env '''' s3")
      obtain a s5 where ap: "(if k then apply_composed f s4 else (False, s4)) = (a, s5)"
        by (cases "if k then apply_composed f s4 else (False, s4)")
      have "quiet s4 s5" using ap quiet_apply[of f s4] by (cases k) auto
      then have d5: "monitor_dropped u old s s5" using d3 quiet_refresh[OF r] by (blast intro: monitor_dropped_quiet)
      define s6 where "s6 = (if \<not> a \<and> k then s5\<lparr>co_restore_pending := True\<rparr> else s5)"
      have d6: "monitor_dropped u old s s6" using d5 by (simp add: s6_def)
      have "release_locked env u reason s =
          (if \<not> a \<and> cb_terminate (en_cb env) = None \<and> (k \<or> \<not> cl_normal_game old)
           then keep_monitor env u old reason s6 else remove_released env u old reason ?b s6)"
        unfolding unf Some option.case r prod.case ap s6_def[symmetric] by (rule refl)
      then show ?thesis using keep[OF d6] remove[OF d6] by simp
    qed
  qed
qed

end
