(* ===== verification/Topology_Invariant.thy ===== *)
theory Topology_Invariant
  imports Topology_Coordinator
begin

text \<open>
  The invariant of the display coordinator, its preservation by every public operation, the
  coordinator as a transition system (\<open>service_step\<close>, \<open>coordinator_step\<close>) and the properties that follow:
  who owns an output, which generations may come back, what a deferral leaves alone, what the result
  of a release means, and that shutdown finishes.
\<close>

section \<open>The invariant\<close>

declare map_of_eq_Some_iff [simp del] Some_eq_map_of_iff [simp del]

definition capture_refs_ok :: "nat \<Rightarrow> (nat, nat) umap \<Rightarrow> bool" where
  "capture_refs_ok next_token refs \<longleftrightarrow> umap_ok refs \<and> (\<forall>t n. map_of refs t = Some n \<longrightarrow> 0 < n \<and> 0 < t \<and> t \<le> next_token)"

definition core_ok :: "nat \<Rightarrow> nat \<Rightarrow> client_state_t \<Rightarrow> bool" where
  "core_ok next_token next_order st \<longleftrightarrow> owns_display st \<and> (cl_normal_game st = (0 < cl_normal_game_token st)) \<and>
     cl_normal_game_token st \<le> next_token \<and>
     (cl_normal_game st \<or> (\<not> cl_normal_release_pending st \<and> \<not> captured st)) \<and>
     capture_refs_ok next_token (cl_capture_references st) \<and>
     0 < cl_placement_order st \<and> cl_placement_order st \<le> next_order"

definition coord_inv :: "'w coordinator_t \<Rightarrow> bool" where
  "coord_inv s \<longleftrightarrow> umap_ok (co_clients s) \<and> length (co_clients s) \<le> max_client_identities \<and>
     (\<forall>u st. map_of (co_clients s) u = Some st \<longrightarrow> core_ok (co_next_token s) (co_next_order s) st) \<and>
     (\<forall>u v st st'. map_of (co_clients s) u = Some st \<longrightarrow> map_of (co_clients s) v = Some st' \<longrightarrow> u \<noteq> v \<longrightarrow>
        cl_placement_order st \<noteq> cl_placement_order st' \<and>
        (cl_normal_game st \<longrightarrow> cl_normal_game_token st \<noteq> cl_normal_game_token st'))"

lemma capture_refs_ok_update: "capture_refs_ok n refs \<Longrightarrow> 0 < v \<Longrightarrow> 0 < t \<Longrightarrow> t \<le> n \<Longrightarrow> capture_refs_ok n (AList.update t v refs)"
  by (simp add: capture_refs_ok_def)

lemma capture_refs_ok_delete: "capture_refs_ok n refs \<Longrightarrow> capture_refs_ok n (AList.delete t refs)"
  by (simp add: capture_refs_ok_def)

lemma capture_refs_okD: "capture_refs_ok n refs \<Longrightarrow> map_of refs t = Some v \<Longrightarrow> 0 < v \<and> 0 < t \<and> t \<le> n"
  by (simp add: capture_refs_ok_def)

lemma core_ok_refs: "core_ok n k st \<Longrightarrow> capture_refs_ok n (cl_capture_references st)"
  unfolding core_ok_def by blast

lemma core_ok_set_refs:
  assumes "core_ok n k st" "capture_refs_ok n refs" "cl_normal_game st \<or> refs = []"
  shows "core_ok n k (st\<lparr>cl_capture_references := refs\<rparr>)"
  using assms unfolding core_ok_def by (auto simp: captured_def)

lemma core_ok_cong: "core st = core st' \<Longrightarrow> core_ok a b st = core_ok a b st'"
  by (simp add: core_def core_ok_def captured_def)

lemma coord_invD:
  "coord_inv s \<Longrightarrow> umap_ok (co_clients s)" "coord_inv s \<Longrightarrow> length (co_clients s) \<le> max_client_identities"
  "coord_inv s \<Longrightarrow> map_of (co_clients s) u = Some st \<Longrightarrow> core_ok (co_next_token s) (co_next_order s) st"
  by (simp_all add: coord_inv_def)

lemma core_lookup_some:
  "map_option core (map_of m u) = map_option core (map_of m' u) \<Longrightarrow> map_of m u = Some st \<Longrightarrow> \<exists>st'. map_of m' u = Some st' \<and> core st' = core st"
  by (cases "map_of m' u") auto

lemma coord_inv_same_core:
  assumes "same_core s t" "coord_inv s"
  shows "coord_inv t"
proof -
  have keys: "map fst (co_clients t) = map fst (co_clients s)" and len: "length (co_clients t) = length (co_clients s)"
    and cnt: "co_next_token t = co_next_token s" "co_next_order t = co_next_order s"
    using assms(1) same_core_length by (auto simp: same_core_def)
  have lk: "\<exists>st'. map_of (co_clients s) u = Some st' \<and> core st' = core st" if "map_of (co_clients t) u = Some st" for u st
    using core_lookup_some[OF same_core_lookup[OF assms(1)] that] .
  show ?thesis unfolding coord_inv_def
  proof (intro conjI allI impI)
    show "umap_ok (co_clients t)" using coord_invD(1)[OF assms(2)] keys by simp
    show "length (co_clients t) \<le> max_client_identities" using coord_invD(2)[OF assms(2)] len by simp
    show "core_ok (co_next_token t) (co_next_order t) st" if "map_of (co_clients t) u = Some st" for u st
      using lk[OF that] coord_invD(3)[OF assms(2)] core_ok_cong cnt by metis
  next
    fix u v st st'
    assume "map_of (co_clients t) u = Some st" "map_of (co_clients t) v = Some st'" and ne: "u \<noteq> v"
    then obtain x x' where x: "map_of (co_clients s) u = Some x" "core x = core st" "map_of (co_clients s) v = Some x'" "core x' = core st'"
      using lk by blast
    then have "cl_placement_order x \<noteq> cl_placement_order x' \<and> (cl_normal_game x \<longrightarrow> cl_normal_game_token x \<noteq> cl_normal_game_token x')"
      using assms(2) ne unfolding coord_inv_def by blast
    then show "cl_placement_order st \<noteq> cl_placement_order st'" "cl_normal_game st \<Longrightarrow> cl_normal_game_token st \<noteq> cl_normal_game_token st'"
      using x by (auto simp: core_def)
  qed
qed

lemma core_ok_mono: "core_ok a b st \<Longrightarrow> a \<le> a' \<Longrightarrow> b \<le> b' \<Longrightarrow> core_ok a' b' st"
  unfolding core_ok_def capture_refs_ok_def by (meson le_trans)

lemma core_ok_token: "core_ok a b st \<Longrightarrow> cl_normal_game st \<longleftrightarrow> cl_normal_game_token st \<noteq> 0"
  unfolding core_ok_def by blast

definition apart :: "client_state_t \<Rightarrow> client_state_t \<Rightarrow> bool" where
  "apart st st' \<longleftrightarrow> cl_placement_order st \<noteq> cl_placement_order st' \<and>
     (cl_normal_game_token st \<noteq> 0 \<longrightarrow> cl_normal_game_token st \<noteq> cl_normal_game_token st')"

lemma apart_sym: "apart st st' \<Longrightarrow> apart st' st" by (auto simp: apart_def)

lemma coord_inv_apart:
  assumes "coord_inv s" "map_of (co_clients s) u = Some st" "map_of (co_clients s) v = Some st'" "u \<noteq> v"
  shows "apart st st'"
proof -
  have "cl_placement_order st \<noteq> cl_placement_order st' \<and> (cl_normal_game st \<longrightarrow> cl_normal_game_token st \<noteq> cl_normal_game_token st')"
    using assms unfolding coord_inv_def by blast
  then show ?thesis using core_ok_token[OF coord_invD(3)[OF assms(1,2)]] by (simp add: apart_def)
qed

lemma coord_invI:
  assumes "umap_ok (co_clients s)" "length (co_clients s) \<le> max_client_identities"
    "\<And>u st. map_of (co_clients s) u = Some st \<Longrightarrow> core_ok (co_next_token s) (co_next_order s) st"
    "\<And>u v st st'. map_of (co_clients s) u = Some st \<Longrightarrow> map_of (co_clients s) v = Some st' \<Longrightarrow> u \<noteq> v \<Longrightarrow> apart st st'"
  shows "coord_inv s"
  unfolding coord_inv_def
proof (intro conjI allI impI)
  fix u v st st'
  assume lk: "map_of (co_clients s) u = Some st" "map_of (co_clients s) v = Some st'" "u \<noteq> v"
  show "cl_placement_order st \<noteq> cl_placement_order st'" using assms(4)[OF lk] by (simp add: apart_def)
  show "cl_normal_game_token st \<noteq> cl_normal_game_token st'" if "cl_normal_game st"
    using assms(4)[OF lk] core_ok_token[OF assms(3)[OF lk(1)]] that by (simp add: apart_def)
qed (use assms in blast)+

text \<open>Writing one entry keeps the invariant when the entry is well formed and its order and token are
  nobody else's.\<close>

lemma coord_inv_put:
  assumes "coord_inv s" and upd: "co_clients t = AList.update u st' (co_clients s)"
    and le: "co_next_token s \<le> co_next_token t" "co_next_order s \<le> co_next_order t"
    and len: "length (co_clients t) \<le> max_client_identities" and ok: "core_ok (co_next_token t) (co_next_order t) st'"
    and fresh: "\<And>v st. v \<noteq> u \<Longrightarrow> map_of (co_clients s) v = Some st \<Longrightarrow> apart st st'"
  shows "coord_inv t"
proof (rule coord_invI)
  show "umap_ok (co_clients t)" using coord_invD(1)[OF assms(1)] by (simp add: upd)
  show "core_ok (co_next_token t) (co_next_order t) st" if "map_of (co_clients t) v = Some st" for v st
  proof (cases "v = u")
    case False
    then have "map_of (co_clients s) v = Some st" using that by (simp add: upd)
    from core_ok_mono[OF coord_invD(3)[OF assms(1) this] le] show ?thesis .
  qed (use that ok upd in simp)
next
  fix v w st st2
  assume lk: "map_of (co_clients t) v = Some st" "map_of (co_clients t) w = Some st2" and ne: "v \<noteq> w"
  consider "v = u" | "w = u" | "v \<noteq> u" "w \<noteq> u" by blast
  then show "apart st st2"
  proof cases
    case 1
    then have "st = st'" "map_of (co_clients s) w = Some st2" using lk ne by (simp_all add: upd)
    then show ?thesis using fresh[of w st2] ne 1 by (simp add: apart_sym)
  next
    case 2
    then have "st2 = st'" "map_of (co_clients s) v = Some st" using lk ne by (simp_all add: upd)
    then show ?thesis using fresh[of v st] ne 2 by simp
  next
    case 3
    then have "map_of (co_clients s) v = Some st" "map_of (co_clients s) w = Some st2" using lk by (simp_all add: upd)
    from coord_inv_apart[OF assms(1) this ne] show ?thesis .
  qed
qed (rule len)

lemma coord_inv_set:
  assumes "coord_inv s" "map_of (co_clients s) u = Some st" "core_ok (co_next_token s) (co_next_order s) (f st)"
    "cl_placement_order (f st) = cl_placement_order st" "cl_normal_game_token (f st) = 0 \<or> cl_normal_game_token (f st) = cl_normal_game_token st"
  shows "coord_inv (set_client u f s)"
proof (rule coord_inv_put[OF assms(1), of _ u "f st"])
  have keys: "co_clients (set_client u f s) = AList.update u (f st) (co_clients s)" using assms(2) by (simp add: set_client_def)
  then show "co_clients (set_client u f s) = AList.update u (f st) (co_clients s)" .
  show "length (co_clients (set_client u f s)) \<le> max_client_identities"
    using coord_invD(2)[OF assms(1)] length_update_old[OF assms(2)] by (simp add: keys)
  show "apart st' (f st)" if "v \<noteq> u" "map_of (co_clients s) v = Some st'" for v st'
    using coord_inv_apart[OF assms(1) that(2) assms(2) that(1)] assms(4,5) by (auto simp: apart_def)
qed (simp_all add: assms(3))

lemma coord_inv_sub:
  assumes "coord_inv s" "umap_ok (co_clients t)" "length (co_clients t) \<le> length (co_clients s)"
    "\<And>u st. map_of (co_clients t) u = Some st \<Longrightarrow> map_of (co_clients s) u = Some st"
    "co_next_token t = co_next_token s" "co_next_order t = co_next_order s"
  shows "coord_inv t"
  unfolding coord_inv_def
proof (intro conjI allI impI)
  show "length (co_clients t) \<le> max_client_identities" using coord_invD(2)[OF assms(1)] assms(3) by simp
  show "core_ok (co_next_token t) (co_next_order t) st" if "map_of (co_clients t) u = Some st" for u st
    using coord_invD(3)[OF assms(1) assms(4)[OF that]] assms(5,6) by simp
next
  fix u v st st'
  assume "map_of (co_clients t) u = Some st" "map_of (co_clients t) v = Some st'" "u \<noteq> v"
  then show "cl_placement_order st \<noteq> cl_placement_order st'" "cl_normal_game st \<Longrightarrow> cl_normal_game_token st \<noteq> cl_normal_game_token st'"
    using assms(1,4) unfolding coord_inv_def by blast+
qed (rule assms(2))

lemma coord_inv_erase: "coord_inv s \<Longrightarrow> coord_inv (erase_client u s)"
  by (rule coord_inv_sub) (auto simp: coord_invD erase_client_def length_delete_le split: if_splits)

lemma coord_inv_frame [simp]:
  "coord_inv (s\<lparr>co_world := w\<rparr>) = coord_inv s" "coord_inv (s\<lparr>co_observed := a\<rparr>) = coord_inv s"
  "coord_inv (s\<lparr>co_released := a\<rparr>) = coord_inv s" "coord_inv (s\<lparr>co_shutdown_pending := b\<rparr>) = coord_inv s"
  "coord_inv (s\<lparr>co_restore_pending := b\<rparr>) = coord_inv s" "coord_inv (s\<lparr>co_layout := l\<rparr>) = coord_inv s"
  "coord_inv (s\<lparr>co_baseline := ns\<rparr>) = coord_inv s"
  by (simp_all add: coord_inv_def)

lemma coord_inv_quiet: "quiet s t \<Longrightarrow> coord_inv s \<Longrightarrow> coord_inv t"
  by (rule coord_inv_same_core[OF quiet_core])

lemma coord_inv_normal_released:
  assumes "normal_released u old s t" "coord_inv s" "map_of (co_clients s) u = Some old" "\<not> captured old"
  shows "coord_inv t"
proof -
  consider (kept) "same_core s t" | (gone) "same_core (erase_client u s) t"
    | (shared) "cl_remote_monitor old" "same_core (set_client u (\<lambda>st. (drop_normal_role st)\<lparr>cl_normal_release_pending := False\<rparr>) s) t"
    using assms(1) unfolding normal_released_def by blast
  then show ?thesis
  proof cases
    case kept
    from coord_inv_same_core[OF this assms(2)] show ?thesis .
  next
    case gone
    from coord_inv_same_core[OF this coord_inv_erase[OF assms(2)]] show ?thesis .
  next
    case shared
    let ?f = "\<lambda>st. (drop_normal_role st)\<lparr>cl_normal_release_pending := False\<rparr>"
    have "core_ok (co_next_token s) (co_next_order s) (?f old)"
      using coord_invD(3)[OF assms(2,3)] assms(4) shared(1) by (auto simp: core_ok_def drop_normal_role_def captured_def)
    then have "coord_inv (set_client u ?f s)"
      by (rule coord_inv_set[OF assms(2,3)]) (simp_all add: drop_normal_role_def)
    from coord_inv_same_core[OF shared(2) this] show ?thesis .
  qed
qed

lemma coord_inv_monitor_released:
  assumes "monitor_released u old s t" "coord_inv s" "map_of (co_clients s) u = Some old"
  shows "coord_inv (drop_roleless u t)"
proof -
  have role: "owns_display old" using coord_invD(3)[OF assms(2,3)] unfolding core_ok_def by blast
  let ?d = "set_client u (\<lambda>st. st\<lparr>cl_remote_monitor := False\<rparr>) s"
  consider (kept) "same_core s t" | (dropped) "same_core ?d t" using assms(1) unfolding monitor_released_def by blast
  then show ?thesis
  proof cases
    case kept
    obtain st where "map_of (co_clients t) u = Some st" "core st = core old"
      using core_lookup_some[OF same_core_lookup[OF kept, symmetric] assms(3)] by blast
    then have "owns_display (get_client t u)" using role by (simp add: get_client_def core_def)
    then show ?thesis using coord_inv_same_core[OF kept assms(2)] by (simp add: drop_roleless_def)
  next
    case dropped
    have "map_of (co_clients ?d) u = Some (old\<lparr>cl_remote_monitor := False\<rparr>)" using assms(3) by simp
    from core_lookup_some[OF same_core_lookup[OF dropped, symmetric] this]
    obtain st where st: "map_of (co_clients t) u = Some st" "core st = core (old\<lparr>cl_remote_monitor := False\<rparr>)" by blast
    then have owns: "owns_display (get_client t u) \<longleftrightarrow> cl_normal_game old" by (simp add: get_client_def core_def)
    show ?thesis
    proof (cases "cl_normal_game old")
      case True
      have "core_ok (co_next_token s) (co_next_order s) (old\<lparr>cl_remote_monitor := False\<rparr>)"
        using coord_invD(3)[OF assms(2,3)] True by (auto simp: core_ok_def captured_def)
      then have "coord_inv ?d" by (rule coord_inv_set[OF assms(2,3)]) simp_all
      from coord_inv_same_core[OF dropped this] True owns show ?thesis by (simp add: drop_roleless_def)
    next
      case False
      have "same_core (erase_client u s) (erase_client u t)"
        using same_core_trans[OF same_core_erase_set same_core_erase[OF dropped]] .
      from coord_inv_same_core[OF this coord_inv_erase[OF assms(2)]] False owns show ?thesis by (simp add: drop_roleless_def)
    qed
  qed
qed


section \<open>Operations keep the invariant\<close>

lemma get_client_some: "map_of (co_clients s) u = Some st \<Longrightarrow> get_client s u = st"
  by (simp add: get_client_def)

lemma coord_inv_set_frame:
  assumes "coord_inv s" "\<And>st. core (f st) = core st"
  shows "coord_inv (set_client u f s)"
  by (rule coord_inv_same_core[OF same_core_set_client assms(1)]) (rule assms(2))

lemma coord_inv_set_client:
  assumes "coord_inv s"
    "\<And>st. map_of (co_clients s) u = Some st \<Longrightarrow> core_ok (co_next_token s) (co_next_order s) st \<Longrightarrow>
      core_ok (co_next_token s) (co_next_order s) (f st) \<and> cl_placement_order (f st) = cl_placement_order st \<and>
      (cl_normal_game_token (f st) = 0 \<or> cl_normal_game_token (f st) = cl_normal_game_token st)"
  shows "coord_inv (set_client u f s)"
proof (cases "map_of (co_clients s) u")
  case None
  then show ?thesis using assms(1) by (simp add: set_client_def)
next
  case (Some st)
  from assms(2)[OF Some coord_invD(3)[OF assms(1) Some]] coord_inv_set[OF assms(1) Some] show ?thesis by blast
qed

text \<open>An entry with a fresh placement order, or the entry the client already had.\<close>

lemma ensure_client_cases:
  assumes "coord_inv s" "umap_contains (co_clients s) u \<or> length (co_clients s) < max_client_identities"
  obtains (old) st where "map_of (co_clients s) u = Some st" "ensure_client u s = s"
    | (new) "map_of (co_clients s) u = None" "length (co_clients s) < max_client_identities"
      "ensure_client u s = s\<lparr>co_next_order := Suc (co_next_order s),
         co_clients := AList.update u (default_client\<lparr>cl_placement_order := Suc (co_next_order s)\<rparr>) (co_clients s)\<rparr>"
proof (cases "map_of (co_clients s) u")
  case None
  with assms(2) have "length (co_clients s) < max_client_identities" by simp
  from new[OF None this] None show ?thesis by (simp add: ensure_client_def)
next
  case (Some st)
  from old[OF this] Some show ?thesis by (simp add: ensure_client_def)
qed

lemma fresh_order:
  assumes "coord_inv s" "map_of (co_clients s) v = Some st" "cl_placement_order st' = Suc (co_next_order s)"
    "cl_normal_game_token st' = 0 \<or> co_next_token s < cl_normal_game_token st'"
  shows "apart st st'"
  using coord_invD(3)[OF assms(1,2)] assms(3,4) by (auto simp: apart_def core_ok_def)

lemma fresh_token:
  assumes "coord_inv s" "map_of (co_clients s) u = Some st" "map_of (co_clients s) v = Some st2" "v \<noteq> u"
    "cl_placement_order st' = cl_placement_order st" "co_next_token s < cl_normal_game_token st'"
  shows "apart st2 st'"
  using coord_invD(3)[OF assms(1,3)] coord_inv_apart[OF assms(1,3,2,4)] assms(5,6) by (auto simp: apart_def core_ok_def)

lemma default_core: "core (default_client\<lparr>cl_placement_order := n\<rparr>) = (False, 0, False, [], False, n)"
  by (simp add: core_def default_client_def)

text \<open>Giving the ensured entry a role.\<close>

lemma coord_inv_ensured:
  assumes inv: "coord_inv s" and room: "umap_contains (co_clients s) u \<or> length (co_clients s) < max_client_identities"
    and tok: "co_next_token s \<le> n"
    and ok: "\<And>k st. core_ok (co_next_token s) k st \<or> core st = (False, 0, False, [], False, k) \<and> 0 < k \<Longrightarrow>
      map_of (co_clients s) u = Some st \<or> map_of (co_clients s) u = None \<Longrightarrow> core_ok n k (f st)"
    and order: "\<And>st. cl_placement_order (f st) = cl_placement_order st"
    and token: "\<And>st. cl_normal_game_token (f st) = cl_normal_game_token st \<or> co_next_token s < cl_normal_game_token (f st)"
  shows "coord_inv (set_client u f ((ensure_client u s)\<lparr>co_next_token := n\<rparr>))"
  using inv room
proof (cases rule: ensure_client_cases)
  case (old st)
  have le: "length (co_clients s) \<le> max_client_identities" by (rule coord_invD(2)[OF inv])
  show ?thesis
  proof (rule coord_inv_put[OF inv, of _ u "f st"])
    show "co_clients (set_client u f (ensure_client u s\<lparr>co_next_token := n\<rparr>)) = AList.update u (f st) (co_clients s)"
      using old by (simp add: set_client_def)
    then show "length (co_clients (set_client u f (ensure_client u s\<lparr>co_next_token := n\<rparr>))) \<le> max_client_identities"
      using le length_update_old[OF old(1)] by simp
    show "core_ok (co_next_token (set_client u f (ensure_client u s\<lparr>co_next_token := n\<rparr>)))
        (co_next_order (set_client u f (ensure_client u s\<lparr>co_next_token := n\<rparr>))) (f st)"
      using ok[OF disjI1[OF coord_invD(3)[OF inv old(1)]]] old by simp
    show "apart st2 (f st)" if "v \<noteq> u" "map_of (co_clients s) v = Some st2" for v st2
      using coord_inv_apart[OF inv that(2) old(1) that(1)] fresh_token[OF inv old(1) that(2,1), of "f st"] order[of st] token[of st]
      by (auto simp: apart_def)
  qed (use old tok in simp_all)
next
  case new
  let ?st = "default_client\<lparr>cl_placement_order := Suc (co_next_order s)\<rparr>"
  have upd: "AList.update u x (AList.update u y m) = AList.update u x m" for x y and m :: "(uuid, client_state_t) umap"
    by (induction m) auto
  show ?thesis
  proof (rule coord_inv_put[OF inv, of _ u "f ?st"])
    show c: "co_clients (set_client u f (ensure_client u s\<lparr>co_next_token := n\<rparr>)) = AList.update u (f ?st) (co_clients s)"
      using new by (simp add: set_client_def upd)
    show "length (co_clients (set_client u f (ensure_client u s\<lparr>co_next_token := n\<rparr>))) \<le> max_client_identities"
      unfolding c using new(2) length_update_new[OF new(1)] by simp
    have "core_ok n (Suc (co_next_order s)) (f ?st)" by (rule ok) (simp_all add: default_core new)
    then show "core_ok (co_next_token (set_client u f (ensure_client u s\<lparr>co_next_token := n\<rparr>)))
        (co_next_order (set_client u f (ensure_client u s\<lparr>co_next_token := n\<rparr>))) (f ?st)" using new by simp
    have "cl_normal_game_token ?st = 0" by (simp add: default_client_def)
    then show "apart st2 (f ?st)" if "v \<noteq> u" "map_of (co_clients s) v = Some st2" for v st2
      using fresh_order[OF inv that(2), of "f ?st"] order[of ?st] token[of ?st] by auto
  qed (use new tok in simp_all)
qed


lemma capacity_room:
  "umap_contains (co_clients s) u \<or> length (co_clients s) < client_identity_capacity env s \<Longrightarrow>
   umap_contains (co_clients s) u \<or> length (co_clients s) < max_client_identities"
  by (auto simp: client_identity_capacity_def)

lemma inv_reserve [inv_intros]:
  assumes "coord_inv s"
  shows "coord_inv (snd (reserve_normal_game_identity env u label mode s))"
proof (cases "(\<not> may_mutate env \<or> display_mutation_deferred env s) \<or>
    (u = '''' \<or> (\<not> umap_contains (co_clients s) u \<and> client_identity_capacity env s \<le> length (co_clients s)))")
  case True
  then show ?thesis using assms by (auto simp: reserve_normal_game_identity_def)
next
  case False
  then have a: "\<not> (\<not> may_mutate env \<or> display_mutation_deferred env s)"
    and b: "\<not> (u = '''' \<or> (\<not> umap_contains (co_clients s) u \<and> client_identity_capacity env s \<le> length (co_clients s)))"
    by blast+
  then have room: "umap_contains (co_clients s) u \<or> length (co_clients s) < max_client_identities"
    using capacity_room[of s u env] by (meson not_le)
  let ?s1 = "ensure_client u s" and ?st = "get_client (ensure_client u s) u"
  let ?f = "\<lambda>st. st\<lparr>cl_label := label, cl_normal_requested_mode := Some mode,
                   cl_effective_mode := (if cl_remote_monitor st then cl_effective_mode st else mode),
                   cl_normal_game := True, cl_normal_release_pending := False, cl_normal_game_token := Suc (co_next_token ?s1)\<rparr>"
  have tok: "co_next_token ?s1 = co_next_token s" by (simp add: ensure_client_def)
  have step: "reserve_normal_game_identity env u label mode s =
      (if cl_normal_game ?st \<and> \<not> cl_normal_release_pending ?st
       then (\<lparr>re_accepted = True, re_newly_reserved = False, re_token = cl_normal_game_token ?st\<rparr>, ?s1)
       else (\<lparr>re_accepted = True, re_newly_reserved = True, re_token = Suc (co_next_token ?s1)\<rparr>,
             set_client u ?f (?s1\<lparr>co_next_token := Suc (co_next_token ?s1)\<rparr>)))"
    unfolding reserve_normal_game_identity_def Let_def if_not_P[OF a] if_not_P[OF b] by (rule refl)
  have kept: "coord_inv ?s1" if "cl_normal_game ?st"
    using assms room
  proof (cases rule: ensure_client_cases)
    case (old st)
    with assms show ?thesis by simp
  next
    case new
    with that show ?thesis by (simp add: get_client_def default_client_def)
  qed
  have "coord_inv (set_client u ?f (?s1\<lparr>co_next_token := Suc (co_next_token ?s1)\<rparr>))"
  proof (rule coord_inv_ensured[OF assms room])
    fix k st assume "core_ok (co_next_token s) k st \<or> core st = (False, 0, False, [], False, k) \<and> 0 < k"
    then show "core_ok (Suc (co_next_token ?s1)) k (?f st)"
      by (auto simp: core_ok_def core_def capture_refs_ok_def tok le_Suc_eq)
  qed (simp_all add: tok)
  then show ?thesis using kept unfolding step by simp
qed

lemma quiet_reresolve: "quiet s (reresolve env us s)"
proof (induction env us s rule: reresolve.induct)
  case (2 env u us s)
  define s2 where "s2 = (if cb_finalize_mode (en_cb env) \<noteq> None \<and> cl_remote_monitor (get_client s u)
      then set_client u (\<lambda>st. st\<lparr>cl_effective_mode := (cl_effective_mode st)\<lparr>m_hdr := m_hdr (cl_effective_mode (get_client s u))\<rparr>\<rparr>)
        (resolve_effective_mode env u s)
      else resolve_effective_mode env u s)"
  have q: "quiet s s2" unfolding s2_def using quiet_resolve[of s env u]
    by (auto simp: core_def epoch_def intro!: quiet_then_set)
  have eq: "reresolve env (u # us) s = (if owns_display (get_client s u) then reresolve env us s2 else reresolve env us s)"
    unfolding reresolve.simps Let_def s2_def by (rule refl)
  have "quiet s (reresolve env us s2)" if "owns_display (get_client s u)"
    using 2(1)[OF refl that refl refl refl] quiet_trans[OF q] unfolding s2_def by blast
  with 2(2) show ?case unfolding eq by auto
qed simp

lemma quiet_reapply_topology: "quiet s (snd (reapply_composed_topology env s))"
proof -
  let ?r = "reresolve env (map fst (co_clients s)) s"
  obtain k s1 where r: "refresh_unverified_shared_geometry env '''' ?r = (k, s1)"
    by (cases "refresh_unverified_shared_geometry env '''' ?r")
  have q: "quiet s s1" by (rule quiet_trans[OF quiet_reresolve quiet_refresh[OF r]])
  show ?thesis
  proof (cases "cb_apply (en_cb env)")
    case None
    then show ?thesis by (simp add: reapply_composed_topology_def)
  next
    case (Some f)
    obtain ok t where a: "apply_composed f s1 = (ok, t)" by (cases "apply_composed f s1")
    show ?thesis using q quiet_trans[OF q quiet_apply[OF a]] Some
      by (cases k) (simp_all add: reapply_composed_topology_def r a)
  qed
qed

lemma inv_pending [inv_intros]:
  "coord_inv s \<Longrightarrow> map_of (co_clients s) u = Some st \<Longrightarrow> cl_normal_game st \<Longrightarrow>
   coord_inv (set_client u (\<lambda>st. st\<lparr>cl_normal_release_pending := True\<rparr>) s)"
  by (rule coord_inv_set_client) (auto simp: core_ok_def captured_def)

lemma inv_rollback [inv_intros]:
  assumes "coord_inv s"
  shows "coord_inv (snd (rollback_normal_game_identity env u token s))"
proof (cases "map_of (co_clients s) u")
  case None
  with assms show ?thesis by (simp add: rollback_normal_game_identity_def)
next
  case (Some st)
  have drop: "coord_inv (set_client u (\<lambda>st. (drop_normal_role st)\<lparr>cl_normal_release_pending := False\<rparr>) s)"
    if "cl_remote_monitor st" "\<not> captured st"
    by (rule coord_inv_set_client[OF assms]) (use that Some in \<open>auto simp: core_ok_def drop_normal_role_def captured_def\<close>)
  show ?thesis
    using assms inv_pending[OF assms Some] drop coord_inv_erase[OF assms] Some
    by (auto simp: rollback_normal_game_identity_def)
qed

lemma inv_release_normal [inv_intros]:
  assumes "coord_inv s"
  shows "coord_inv (release_normal_game_identity env u token s)"
proof (cases "map_of (co_clients s) u")
  case None
  with assms show ?thesis by (simp add: release_normal_game_identity_def)
next
  case (Some st)
  let ?s1 = "set_client u (\<lambda>st. st\<lparr>cl_normal_release_pending := True\<rparr>) s"
  let ?no = "\<not> cl_normal_game st \<or> token = 0 \<or> cl_normal_game_token st \<noteq> token"
  have st1: "map_of (co_clients ?s1) u = Some (st\<lparr>cl_normal_release_pending := True\<rparr>)" using Some by simp
  have eq: "release_normal_game_identity env u token s =
      (if ?no then s else if display_mutation_deferred env ?s1 then ?s1 else release_normal_game_identity_locked env u ?s1)"
    unfolding release_normal_game_identity_def Some option.case Let_def by (rule refl)
  show ?thesis
  proof (cases ?no)
    case True
    then show ?thesis unfolding eq if_P[OF True] using assms by blast
  next
    case False
    then have ng: "cl_normal_game (st\<lparr>cl_normal_release_pending := True\<rparr>)" by simp
    have i1: "coord_inv ?s1" by (rule inv_pending[OF assms Some]) (use False in blast)
    show ?thesis
    proof (cases "display_mutation_deferred env ?s1")
      case True
      then show ?thesis unfolding eq if_not_P[OF False] if_P[OF True] using i1 by blast
    next
      case nd: False
      have "\<not> captured (st\<lparr>cl_normal_release_pending := True\<rparr>)" by (rule deferred_drained[OF nd st1]) simp
      from coord_inv_normal_released[OF release_normal_outcome[OF st1 ng] i1 st1 this]
      show ?thesis unfolding eq if_not_P[OF False] if_not_P[OF nd] .
    qed
  qed
qed

lemma inv_retain [inv_intros]:
  assumes "coord_inv s"
  shows "coord_inv (snd (retain_normal_game_capture u token s))"
proof (cases "map_of (co_clients s) u")
  case None
  then show ?thesis using assms by (simp add: retain_normal_game_capture_def)
next
  case (Some st)
  let ?no = "\<not> cl_normal_game st \<or> token = 0 \<or> cl_normal_game_token st \<noteq> token \<or> cl_normal_release_pending st"
  let ?f = "\<lambda>st. st\<lparr>cl_capture_references :=
      AList.update token (Suc (umap_count (cl_capture_references st) token)) (cl_capture_references st)\<rparr>"
  have eq: "retain_normal_game_capture u token s = (if ?no then (False, s) else (True, set_client u ?f s))"
    unfolding retain_normal_game_capture_def Some option.case by (rule refl)
  show ?thesis
  proof (cases ?no)
    case True
    then show ?thesis unfolding eq if_P[OF True] using assms by simp
  next
    case False
    then have st: "cl_normal_game st" "0 < token" "cl_normal_game_token st = token" by blast+
    note ok = coord_invD(3)[OF assms Some]
    have le: "token \<le> co_next_token s" using ok st(3) unfolding core_ok_def by blast
    have "core_ok (co_next_token s) (co_next_order s) (?f st)"
      by (rule core_ok_set_refs[OF ok capture_refs_ok_update[OF core_ok_refs[OF ok] zero_less_Suc st(2) le] disjI1[OF st(1)]])
    then have "coord_inv (set_client u ?f s)" by (rule coord_inv_set[OF assms Some]) simp_all
    then show ?thesis unfolding eq if_not_P[OF False] by simp
  qed
qed

lemma inv_drop_capture [inv_intros]: "coord_inv s \<Longrightarrow> coord_inv (drop_capture_reference u token s)"
  unfolding drop_capture_reference_def
proof (rule coord_inv_set_client)
  fix st assume ok: "core_ok (co_next_token s) (co_next_order s) st"
  let ?f = "\<lambda>st. case map_of (cl_capture_references st) token of
      None \<Rightarrow> st
    | Some n \<Rightarrow> st\<lparr>cl_capture_references := (if n = 1 then AList.delete token (cl_capture_references st)
        else AList.update token (n - 1) (cl_capture_references st))\<rparr>"
  show "core_ok (co_next_token s) (co_next_order s) (?f st) \<and> cl_placement_order (?f st) = cl_placement_order st \<and>
      (cl_normal_game_token (?f st) = 0 \<or> cl_normal_game_token (?f st) = cl_normal_game_token st)"
  proof (cases "map_of (cl_capture_references st) token")
    case None
    with ok show ?thesis by simp
  next
    case (Some n)
    note r = core_ok_refs[OF ok]
    have "captured st" using Some by (auto simp: captured_def)
    then have ng: "cl_normal_game st" using ok unfolding core_ok_def by blast
    have "capture_refs_ok (co_next_token s) (if n = 1 then AList.delete token (cl_capture_references st)
        else AList.update token (n - 1) (cl_capture_references st))"
      using capture_refs_ok_delete[OF r] capture_refs_ok_update[OF r, of "n - 1"] capture_refs_okD[OF r Some] by simp
    from core_ok_set_refs[OF ok this disjI1[OF ng]] show ?thesis by (simp add: Some)
  qed
qed

lemma inv_mark [inv_intros]:
  assumes "coord_inv s"
  shows "coord_inv (mark_normal_release s)"
proof (rule coord_invI)
  let ?g = "\<lambda>st. if cl_normal_game st then st\<lparr>cl_normal_release_pending := True\<rparr> else st"
  have lk: "\<exists>x. map_of (co_clients s) u = Some x \<and> st = ?g x" if "map_of (co_clients (mark_normal_release s)) u = Some st" for u st
    using that by (auto simp: mark_normal_release_def)
  show "core_ok (co_next_token (mark_normal_release s)) (co_next_order (mark_normal_release s)) st"
    if l: "map_of (co_clients (mark_normal_release s)) u = Some st" for u st
  proof -
    obtain x where "map_of (co_clients s) u = Some x" "st = ?g x" using lk[OF l] by blast
    then show ?thesis using coord_invD(3)[OF assms, of u x] by (auto simp: mark_normal_release_def core_ok_def captured_def)
  qed
  show "apart st st'" if l: "map_of (co_clients (mark_normal_release s)) u = Some st"
    "map_of (co_clients (mark_normal_release s)) v = Some st'" "u \<noteq> v" for u v st st'
  proof -
    obtain x y where "map_of (co_clients s) u = Some x" "st = ?g x" "map_of (co_clients s) v = Some y" "st' = ?g y"
      using lk[OF l(1)] lk[OF l(2)] by blast
    then show ?thesis using coord_inv_apart[OF assms, of u x v y] l(3) by (auto simp: apart_def)
  qed
qed (use coord_invD(1,2)[OF assms] in \<open>simp_all add: mark_normal_release_def\<close>)


lemma inv_complete_restored [inv_intros]:
  assumes "coord_inv s"
  shows "coord_inv (complete_restored_normal_game_cleanup env s)"
proof (cases "protected_output (en_leases env)")
  case True
  then show ?thesis using assms by (simp add: complete_restored_normal_game_cleanup_def)
next
  case False
  define Q where "Q st \<longleftrightarrow> \<not> (cl_normal_game st \<and> cl_normal_release_pending st \<and> \<not> captured st \<and> \<not> cl_remote_monitor st)" for st
  have "coord_inv (s\<lparr>co_clients := filter (\<lambda>e. Q (snd e)) (co_clients s)\<rparr>)"
  proof (rule coord_inv_sub[OF assms])
    show "map_of (co_clients s) u = Some st"
      if "map_of (co_clients (s\<lparr>co_clients := filter (\<lambda>e. Q (snd e)) (co_clients s)\<rparr>)) u = Some st" for u st
      using that map_of_filter_key[OF coord_invD(1)[OF assms], of "\<lambda>_. Q" u] by (auto split: option.splits if_splits)
  qed (simp_all add: umap_ok_filter coord_invD(1)[OF assms])
  then show ?thesis using False by (simp add: complete_restored_normal_game_cleanup_def Q_def)
qed

text \<open>The loop that releases the marked normal roles: what it must not meet is a captured one.\<close>

definition drained :: "(client_state_t \<Rightarrow> bool) \<Rightarrow> 'w coordinator_t \<Rightarrow> bool" where
  "drained P s \<longleftrightarrow> (\<forall>u st. map_of (co_clients s) u = Some st \<longrightarrow> P st \<longrightarrow> cl_normal_game st \<and> \<not> captured st)"

lemma drainedD: "drained P s \<Longrightarrow> map_of (co_clients s) u = Some st \<Longrightarrow> P st \<Longrightarrow> cl_normal_game st \<and> \<not> captured st"
  by (simp add: drained_def)

lemma drained_core:
  assumes "drained P s" "\<And>x y. core x = core y \<Longrightarrow> P x = P y"
    "\<And>v st. map_of (co_clients t) v = Some st \<Longrightarrow> P st \<Longrightarrow> \<exists>st'. map_of (co_clients s) v = Some st' \<and> core st' = core st"
  shows "drained P t"
  unfolding drained_def
proof (intro allI impI)
  fix v st assume lk: "map_of (co_clients t) v = Some st" "P st"
  from assms(3)[OF this] obtain st' where st': "map_of (co_clients s) v = Some st'" "core st' = core st" by blast
  then have "P st'" using assms(2) lk(2) by blast
  from drainedD[OF assms(1) st'(1) this] st'(2) show "cl_normal_game st \<and> \<not> captured st" by (simp add: core_def captured_def)
qed

lemma drained_released:
  assumes "normal_released u old s t" "drained P s" "\<And>x y. core x = core y \<Longrightarrow> P x = P y"
    "\<And>st. P st \<Longrightarrow> cl_normal_release_pending st" "map_of (co_clients s) u = Some old"
  shows "drained P t"
proof (rule drained_core[OF assms(2,3)])
  fix v st assume lk: "map_of (co_clients t) v = Some st" "P st"
  consider (kept) "same_core s t" | (gone) "same_core (erase_client u s) t"
    | (shared) "same_core (set_client u (\<lambda>st. (drop_normal_role st)\<lparr>cl_normal_release_pending := False\<rparr>) s) t"
    using assms(1) unfolding normal_released_def by blast
  then show "\<exists>st'. map_of (co_clients s) v = Some st' \<and> core st' = core st"
  proof cases
    case kept
    from core_lookup_some[OF same_core_lookup[OF this] lk(1)] show ?thesis .
  next
    case gone
    from core_lookup_some[OF same_core_lookup[OF this] lk(1)] show ?thesis by (auto split: if_splits)
  next
    case shared
    from core_lookup_some[OF same_core_lookup[OF this] lk(1)] obtain st' where
      st': "map_of (co_clients (set_client u (\<lambda>st. (drop_normal_role st)\<lparr>cl_normal_release_pending := False\<rparr>) s)) v = Some st'"
        "core st' = core st" by blast
    have "v \<noteq> u"
    proof
      assume "v = u"
      with st' assms(5) have "\<not> cl_normal_release_pending st" by (auto simp: core_def)
      with assms(4)[OF lk(2)] show False by blast
    qed
    with st' show ?thesis by auto
  qed
qed

lemma inv_release_marked:
  assumes "\<And>x y. core x = core y \<Longrightarrow> P x = P y" "\<And>st. P st \<Longrightarrow> cl_normal_release_pending st"
  shows "coord_inv s \<Longrightarrow> drained P s \<Longrightarrow> coord_inv (release_marked env P us s)"
proof (induction us arbitrary: s)
  case (Cons u us)
  show ?case
  proof (cases "map_of (co_clients s) u")
    case None
    then show ?thesis using Cons by simp
  next
    case (Some st)
    show ?thesis
    proof (cases "P st")
      case True
      note d = drainedD[OF Cons.prems(2) Some True]
      note r = release_normal_outcome[OF Some conjunct1[OF d], of env]
      from Cons.IH[OF coord_inv_normal_released[OF r Cons.prems(1) Some conjunct2[OF d]]
          drained_released[OF r Cons.prems(2) assms Some]]
      show ?thesis using Some True by simp
    next
      case False
      then show ?thesis using Cons Some by simp
    qed
  qed
qed simp

lemma inv_release_all [inv_intros]:
  assumes "coord_inv s"
  shows "coord_inv (release_all_normal_game_identities env s)"
proof -
  let ?P = "\<lambda>st. cl_normal_game st \<and> cl_normal_release_pending st"
  define s1 where "s1 = mark_normal_release s"
  have i: "coord_inv s1" unfolding s1_def by (rule inv_mark[OF assms])
  have "coord_inv (release_marked env ?P (map fst (co_clients s1)) s1)" if nd: "\<not> display_mutation_deferred env s1"
  proof (rule inv_release_marked[OF _ _ i])
    show "drained ?P s1" unfolding drained_def using deferred_drained[OF nd] by blast
  qed (auto simp: core_def)
  then show ?thesis using i by (simp add: release_all_normal_game_identities_def s1_def[symmetric] Let_def)
qed

lemma inv_release_locked [inv_intros]:
  assumes "coord_inv s" "map_of (co_clients s) u = Some st"
  shows "coord_inv (drop_roleless u (release_locked env u reason s))"
  by (rule coord_inv_monitor_released[OF release_locked_outcome[OF assms(2)] assms])

lemma inv_release_postponed [inv_intros]: "coord_inv s \<Longrightarrow> coord_inv (release_postponed env us s)"
proof (induction us arbitrary: s)
  case (Cons u us)
  show ?case
  proof (cases "map_of (co_clients s) u")
    case (Some st)
    then show ?thesis using Cons.IH[OF inv_release_locked[OF Cons.prems Some]] Cons by simp
  qed (use Cons in simp)
qed simp

lemma inv_explicit_release [inv_intros]: "coord_inv s \<Longrightarrow> coord_inv (snd (explicit_release env u g reason s))"
  by (cases "map_of (co_clients s) u") (auto simp: explicit_release_def Let_def intro: inv_release_locked)

lemma inv_transport_lost [inv_intros]: "coord_inv s \<Longrightarrow> coord_inv (transport_lost u g s)"
  by (auto simp: transport_lost_def core_def split: option.split intro!: coord_inv_set_frame)

lemma inv_note_lease_lost [inv_intros]: "coord_inv s \<Longrightarrow> coord_inv (note_lease_lost u s)"
  by (auto simp: note_lease_lost_def core_def intro!: coord_inv_set_frame)

lemma inv_disconnect [inv_intros]: "coord_inv s \<Longrightarrow> coord_inv (disconnect_monitor env u s)"
  by (cases "map_of (co_clients s) u") (auto simp: disconnect_monitor_def intro: inv_release_locked)


lemma ensured_lookup: "\<exists>st. map_of (co_clients (ensure_client u s)) u = Some st"
  by (cases "map_of (co_clients s) u") (auto simp: ensure_client_def)

text \<open>A new entry always gets the monitor role: nothing refuses generation-0 defaults.\<close>

lemma inv_activate_entry:
  assumes inv: "coord_inv s" and room: "umap_contains (co_clients s) u \<or> length (co_clients s) < max_client_identities"
  shows "coord_inv (snd (activate_entry env u label mode generation (ensure_client u s)))"
proof -
  let ?e = "ensure_client u s"
  obtain st where st: "map_of (co_clients ?e) u = Some st" using ensured_lookup by blast
  have get: "get_client ?e u = st" by (rule get_client_some[OF st])
  let ?clear = "\<lambda>st. st\<lparr>cl_monitor_release_pending := False, cl_monitor_release_reason := ''''\<rparr>"
  define s1 where "s1 = (if cl_monitor_release_pending st then set_client u ?clear ?e else ?e)"
  define reconf where "reconf \<longleftrightarrow> cb_finalize_mode (en_cb env) \<noteq> None \<and> cl_lease_held st \<and>
     (case cl_monitor_requested_mode st of None \<Rightarrow> True | Some m \<Rightarrow>
        m_width m \<noteq> m_width mode \<or> m_height m \<noteq> m_height mode \<or> m_refresh_hz m \<noteq> m_refresh_hz mode)"
  let ?g = "\<lambda>st. st\<lparr>cl_deferred_reconfiguration := (reconf \<or> cl_deferred_reconfiguration st),
     cl_generation := generation, cl_label := label, cl_monitor_requested_mode := Some mode,
     cl_effective_mode := mode, cl_remote_monitor := True\<rparr>"
  define s2 where "s2 = set_client u ?g s1"
  let ?r1 = "cl_monitor_release_pending st \<and> generation \<le> cl_generation st"
  let ?r2 = "generation < cl_generation st"
  let ?r3 = "cb_finalize_mode (en_cb env) \<noteq> None \<and> cl_remote_monitor st \<and> cl_lifecycle st = Ready"
  have eq: "snd (activate_entry env u label mode generation ?e) =
      (if ?r1 then ?e else if ?r2 then s1 else if ?r3 then s1 else snd (activate_locked env u s2))"
    unfolding activate_entry_def get Let_def s1_def[symmetric] reconf_def[symmetric] s2_def[symmetric]
    unfolding if_distrib[of snd] by (simp only: case_prod_beta snd_conv)
  have old: "coord_inv ?e \<and> coord_inv s1" if "?r1 \<or> ?r2 \<or> ?r3"
    using inv room
  proof (cases rule: ensure_client_cases)
    case (old x)
    have "coord_inv (set_client u ?clear s)" by (rule coord_inv_set_frame[OF inv]) (simp add: core_def)
    with inv old show ?thesis by (simp add: s1_def)
  next
    case new
    then have "st = default_client\<lparr>cl_placement_order := Suc (co_next_order s)\<rparr>" using st by simp
    with that show ?thesis by (simp add: default_client_def)
  qed
  have tok: "?e\<lparr>co_next_token := co_next_token s\<rparr> = ?e" by (simp add: ensure_client_def)
  have "coord_inv (set_client u ?g (?e\<lparr>co_next_token := co_next_token s\<rparr>))"
  proof (rule coord_inv_ensured[OF inv room])
    fix k x assume "core_ok (co_next_token s) k x \<or> core x = (False, 0, False, [], False, k) \<and> 0 < k"
    then show "core_ok (co_next_token s) k (?g x)"
      by (auto simp: core_ok_def core_def capture_refs_ok_def captured_def)
  qed simp_all
  then have g: "coord_inv (set_client u ?g ?e)" unfolding tok .
  have "same_core (set_client u ?g ?e) s2"
    unfolding s2_def s1_def by (auto simp: same_core_def core_def st)
  from coord_inv_same_core[OF this g] have "coord_inv s2" .
  from coord_inv_quiet[OF quiet_activate this] old show ?thesis unfolding eq by auto
qed

lemma inv_activate [inv_intros]:
  assumes "coord_inv s"
  shows "coord_inv (snd (activate_or_resume env u label mode generation s))"
proof -
  obtain k s1 where r: "refresh_unverified_shared_geometry env u s = (k, s1)"
    by (cases "refresh_unverified_shared_geometry env u s")
  note i1 = coord_inv_quiet[OF quiet_refresh[OF r] assms]
  define s2 where "s2 = s1\<lparr>co_observed := AList.update u generation (co_observed s1)\<rparr>"
  have i2: "coord_inv s2" using i1 by (simp add: s2_def)
  define full where "full \<longleftrightarrow> \<not> umap_contains (co_clients s2) u \<and> length (co_clients s2) \<ge> client_identity_capacity env s2"
  have e: "coord_inv (snd (activate_entry env u label mode generation (ensure_client u s2)))" if "\<not> full"
    by (rule inv_activate_entry[OF i2 capacity_room[of s2 u env]]) (use that in \<open>auto simp: full_def\<close>)
  show ?thesis
    unfolding activate_or_resume_def r prod.case Let_def s2_def[symmetric] full_def[symmetric]
    using assms i1 i2 e by (cases k) auto
qed

lemma inv_activate_remote [inv_intros]: "coord_inv s \<Longrightarrow> coord_inv (snd (activate_remote_monitor env u label mode s))"
  using inv_activate[of s env u label mode 0] by (simp add: activate_remote_monitor_def case_prod_beta)

lemma inv_resume [inv_intros]: "coord_inv s \<Longrightarrow> coord_inv (snd (resume_remote_monitor env u s))"
  using coord_inv_quiet[OF quiet_activate] by (auto simp: resume_remote_monitor_def Let_def split: option.split)

text \<open>Shutdown puts back entries it had, nothing else.\<close>

definition restored_from :: "(uuid, client_state_t) umap \<Rightarrow> 'w coordinator_t \<Rightarrow> bool" where
  "restored_from m s \<longleftrightarrow> umap_ok (co_clients s) \<and>
     (\<forall>u st. map_of (co_clients s) u = Some st \<longrightarrow> map_of m u = Some st)"

lemma call_bool_frame: "call_bool g u s = (ok, t) \<Longrightarrow> \<exists>w. t = s\<lparr>co_world := w\<rparr>"
  by (auto simp: call_bool_def split: prod.splits)

lemma apply_composed_frame: "apply_composed f s = (ok, t) \<Longrightarrow> \<exists>w. t = s\<lparr>co_world := w\<rparr>"
  by (auto simp: apply_composed_def split: prod.splits)

lemma remove_managed_restored:
  "restored_from m s \<Longrightarrow> restored_from m (remove_managed env m us s) \<and>
   co_next_token (remove_managed env m us s) = co_next_token s \<and> co_next_order (remove_managed env m us s) = co_next_order s"
proof (induction us arbitrary: s)
  case (Cons u us)
  let ?c = "case cb_remove (en_cb env) of None \<Rightarrow> (True, s) | Some g \<Rightarrow> call_bool g u s"
  obtain ok s1 where c: "?c = (ok, s1)" by (cases ?c)
  have f: "\<exists>w. s1 = s\<lparr>co_world := w\<rparr>"
  proof (cases "cb_remove (en_cb env)")
    case None
    then have "s1 = s\<lparr>co_world := co_world s\<rparr>" using c by simp
    then show ?thesis by blast
  next
    case (Some g)
    then show ?thesis using c call_bool_frame[of g u s] by simp
  qed
  define s2 where "s2 = (case (ok, map_of m u) of
             (False, Some st) \<Rightarrow> (if umap_contains (co_clients s1) u then s1
                else s1\<lparr>co_clients := AList.update u st (co_clients s1)\<rparr>)
           | _ \<Rightarrow> s1)"
  have step: "remove_managed env m (u # us) s = remove_managed env m us s2"
    unfolding remove_managed.simps c prod.case s2_def by (rule refl)
  have r1: "restored_from m s1" and n1: "co_next_token s1 = co_next_token s" "co_next_order s1 = co_next_order s"
    using f Cons.prems by (auto simp: restored_from_def)
  have "restored_from m s2 \<and> co_next_token s2 = co_next_token s \<and> co_next_order s2 = co_next_order s"
  proof (cases "map_of m u")
    case (Some st)
    then show ?thesis using r1 n1 by (cases ok) (auto simp: s2_def restored_from_def)
  qed (use r1 n1 in \<open>cases ok; simp add: s2_def\<close>)
  with Cons.IH[of s2] show ?case unfolding step by simp
qed simp

lemma umap_length_le:
  assumes "umap_ok m" "umap_ok m'" "\<And>u st. map_of m' u = Some st \<Longrightarrow> map_of m u \<noteq> None"
  shows "length m' \<le> length m"
proof -
  have "fst ` set m' \<subseteq> fst ` set m"
  proof
    fix u assume "u \<in> fst ` set m'"
    then have "map_of m' u \<noteq> None" by (simp add: map_of_eq_None_iff)
    then have "map_of m u \<noteq> None" using assms(3) by (cases "map_of m' u") simp_all
    then show "u \<in> fst ` set m" by (simp add: map_of_eq_None_iff)
  qed
  then have "card (fst ` set m') \<le> card (fst ` set m)" by (simp add: card_mono)
  then show ?thesis using assms(1,2) distinct_card[of "map fst m"] distinct_card[of "map fst m'"] by simp
qed

lemma coord_inv_empty [simp]: "co_clients s = [] \<Longrightarrow> coord_inv s"
  by (simp add: coord_inv_def)

lemma inv_finalize [inv_intros]:
  assumes "coord_inv s"
  shows "coord_inv (finalize_shutdown env s)"
proof -
  define ids where "ids = client_ids owns_display s"
  let ?s1 = "s\<lparr>co_clients := []\<rparr>"
  let ?a = "case cb_apply (en_cb env) of None \<Rightarrow> (True, ?s1) | Some f \<Rightarrow> apply_composed f ?s1"
  obtain ok s2 where a: "?a = (ok, s2)" by (cases ?a)
  have "\<exists>w. s2 = ?s1\<lparr>co_world := w\<rparr>"
  proof (cases "cb_apply (en_cb env)")
    case None
    then have "s2 = ?s1\<lparr>co_world := co_world s\<rparr>" using a by auto
    then show ?thesis by blast
  next
    case (Some f)
    then show ?thesis using a apply_composed_frame[of f ?s1] by simp
  qed
  then obtain w where s2: "s2 = ?s1\<lparr>co_world := w\<rparr>" by blast
  define s3 where "s3 = remove_managed env (co_clients s) ids (s2\<lparr>co_restore_pending := False\<rparr>)"
  have "restored_from (co_clients s) (s2\<lparr>co_restore_pending := False\<rparr>)" by (simp add: restored_from_def s2)
  from remove_managed_restored[OF this, of env ids]
  have r: "restored_from (co_clients s) s3" "co_next_token s3 = co_next_token s" "co_next_order s3 = co_next_order s"
    by (simp_all add: s3_def s2)
  have i3: "coord_inv s3"
    by (rule coord_inv_sub[OF assms _ umap_length_le]) (use r coord_invD(1)[OF assms] in \<open>auto simp: restored_from_def\<close>)
  have undo: "coord_inv (s2\<lparr>co_clients := co_clients s, co_shutdown_pending := b\<rparr>)" for b
    using assms by (simp add: s2 coord_inv_def)
  show ?thesis
    unfolding finalize_shutdown_def Let_def a prod.case ids_def[symmetric] s3_def[symmetric]
    using assms i3 undo by (cases ok) auto
qed

lemma inv_shutdown [inv_intros]: "coord_inv s \<Longrightarrow> coord_inv (coordinator_shutdown env p s)"
  by (simp add: coordinator_shutdown_def inv_mark inv_finalize)

lemma inv_release_drained [inv_intros]:
  assumes "coord_inv s"
  shows "coord_inv (release_drained_normal_game_identities env s)"
proof -
  let ?P = "\<lambda>st. cl_normal_release_pending st \<and> \<not> captured st"
  have "coord_inv (release_marked env ?P us s)" for us
  proof (rule inv_release_marked[OF _ _ assms])
    show "drained ?P s" unfolding drained_def using coord_invD(3)[OF assms] unfolding core_ok_def by blast
  qed (auto simp: core_def captured_def)
  then show ?thesis using assms
    by (simp add: release_drained_normal_game_identities_def Let_def inv_finalize inv_release_postponed)
qed

lemma inv_release_idle [inv_intros]: "coord_inv s \<Longrightarrow> coord_inv (release_idle_normal_game_identities env a b s)"
  by (simp add: release_idle_normal_game_identities_def inv_release_all inv_release_drained)


section \<open>The coordinator as a transition system\<close>

text \<open>A service step is one public operation under some callbacks and lease registry, except the
  shutdown that hands the displays over, or a change of the displays that the coordinator does not
  make. A coordinator step is a service step or the shutdown of a supervised host that leaves its
  displays to its successor and forgets every client and every generation.\<close>

inductive service_step :: "'w coordinator_t \<Rightarrow> 'w coordinator_t \<Rightarrow> bool" where
  outside: "service_step s (s\<lparr>co_world := w\<rparr>)"
| layout: "service_step s (set_layout l s)"
| baseline: "service_step s (set_physical_baseline ns s)"
| idle_baseline: "service_step s (refresh_idle_physical_baseline ns s)"
| reserve: "service_step s (snd (reserve_normal_game_identity env u label mode s))"
| reapply: "service_step s (snd (reapply_composed_topology env s))"
| rollback: "service_step s (snd (rollback_normal_game_identity env u token s))"
| release_normal: "service_step s (release_normal_game_identity env u token s)"
| retain: "service_step s (snd (retain_normal_game_capture u token s))"
| drop_capture: "service_step s (drop_capture_reference u token s)"
| release_all: "service_step s (release_all_normal_game_identities env s)"
| complete_restored: "service_step s (complete_restored_normal_game_cleanup env s)"
| activate: "service_step s (snd (activate_or_resume env u label mode generation s))"
| activate_remote: "service_step s (snd (activate_remote_monitor env u label mode s))"
| resume: "service_step s (snd (resume_remote_monitor env u s))"
| release: "service_step s (snd (explicit_release env u generation reason s))"
| lost_transport: "service_step s (transport_lost u generation s)"
| lost_lease: "service_step s (note_lease_lost u s)"
| disconnect: "service_step s (disconnect_monitor env u s)"
| unpair: "service_step s (unpair_client env u s)"
| shutdown: "service_step s (coordinator_shutdown env False s)"
| drain: "service_step s (release_drained_normal_game_identities env s)"
| idle: "service_step s (release_idle_normal_game_identities env app_running capture_owned s)"

inductive coordinator_step :: "'w coordinator_t \<Rightarrow> 'w coordinator_t \<Rightarrow> bool" where
  service: "service_step s t \<Longrightarrow> coordinator_step s t"
| hand_over: "coordinator_step s (coordinator_shutdown env True s)"

lemma inv_settings [inv_intros]:
  "coord_inv s \<Longrightarrow> coord_inv (set_layout l s)" "coord_inv s \<Longrightarrow> coord_inv (set_physical_baseline ns s)"
  "coord_inv s \<Longrightarrow> coord_inv (refresh_idle_physical_baseline ns s)"
  by (simp_all add: set_layout_def set_physical_baseline_def refresh_idle_physical_baseline_def)

lemma inv_reapply [inv_intros]: "coord_inv s \<Longrightarrow> coord_inv (snd (reapply_composed_topology env s))"
  by (rule coord_inv_quiet[OF quiet_reapply_topology])

lemma inv_unpair [inv_intros]: "coord_inv s \<Longrightarrow> coord_inv (unpair_client env u s)"
  by (simp add: unpair_client_def inv_disconnect)

lemma service_coord_inv:
  assumes "coord_inv s" "service_step s t"
  shows "coord_inv t"
  using assms(2,1) by cases (simp_all add: inv_intros)

lemma step_coord_inv:
  assumes "coord_inv s" "coordinator_step s t"
  shows "coord_inv t"
  using assms(2,1) by cases (simp_all add: service_coord_inv inv_shutdown)

text \<open>Released generations only grow until a hand-over.\<close>

definition released_le :: "'w coordinator_t \<Rightarrow> 'w coordinator_t \<Rightarrow> bool" where
  "released_le s t \<longleftrightarrow> (\<forall>u. umap_count (co_released s) u \<le> umap_count (co_released t) u)"

named_theorems released_intros \<open>one lemma per operation: released generations only grow\<close>

lemma released_le_refl [simp]: "released_le s s" by (simp add: released_le_def)

lemma released_le_trans: "released_le s t \<Longrightarrow> released_le t r \<Longrightarrow> released_le s r"
  unfolding released_le_def by (blast intro: le_trans)

lemma released_le_same: "co_released t = co_released s \<Longrightarrow> released_le s t"
  by (simp add: released_le_def)

lemma released_quiet: "quiet s t \<Longrightarrow> released_le s t"
  by (simp add: quiet_def same_gens_def released_le_same)

lemma released_normal: "normal_released u old s t \<Longrightarrow> released_le s t"
  by (simp add: normal_released_def same_gates_def released_le_same)

lemma released_monitor: "monitor_released u old s t \<Longrightarrow> released_le s t"
  by (auto simp: monitor_released_def released_le_def)

lemma released_drop_roleless: "released_le s t \<Longrightarrow> released_le s (drop_roleless u t)"
  by (simp add: drop_roleless_def released_le_def)

lemma released_reserve [released_intros]: "released_le s (snd (reserve_normal_game_identity env u label mode s))"
  by (auto simp: reserve_normal_game_identity_def Let_def ensure_client_def intro!: released_le_same)

lemma released_rollback [released_intros]: "released_le s (snd (rollback_normal_game_identity env u token s))"
  by (auto simp: rollback_normal_game_identity_def intro!: released_le_same split: option.split)

lemma released_release_normal_locked:
  "map_of (co_clients s) u = Some st \<Longrightarrow> cl_normal_game st \<Longrightarrow> released_le s (release_normal_game_identity_locked env u s)"
  by (rule released_normal[OF release_normal_outcome])

lemma released_release_normal [released_intros]: "released_le s (release_normal_game_identity env u token s)"
proof (cases "map_of (co_clients s) u")
  case (Some st)
  let ?s1 = "set_client u (\<lambda>st. st\<lparr>cl_normal_release_pending := True\<rparr>) s"
  have le1: "released_le s ?s1" by (simp add: released_le_same)
  have "released_le ?s1 (release_normal_game_identity_locked env u ?s1)" if "cl_normal_game st"
    by (rule released_release_normal_locked[of _ u "st\<lparr>cl_normal_release_pending := True\<rparr>"]) (use that Some in simp_all)
  with le1 Some show ?thesis by (auto simp: release_normal_game_identity_def Let_def intro: released_le_trans)
qed (simp add: release_normal_game_identity_def)

lemma released_marked:
  assumes "\<And>x y. core x = core y \<Longrightarrow> P x = P y" "\<And>st. P st \<Longrightarrow> cl_normal_release_pending st"
  shows "coord_inv s \<Longrightarrow> drained P s \<Longrightarrow> released_le s (release_marked env P us s)"
proof (induction us arbitrary: s)
  case (Cons u us)
  show ?case
  proof (cases "\<exists>st. map_of (co_clients s) u = Some st \<and> P st")
    case True
    then obtain st where st: "map_of (co_clients s) u = Some st" "P st" by blast
    note d = drainedD[OF Cons.prems(2) st]
    note r = release_normal_outcome[OF st(1) conjunct1[OF d], of env]
    from released_le_trans[OF released_normal[OF r] Cons.IH[OF coord_inv_normal_released[OF r Cons.prems(1) st(1) conjunct2[OF d]]
        drained_released[OF r Cons.prems(2) assms st(1)]]]
    show ?thesis using st by simp
  next
    case False
    then show ?thesis using Cons by (auto split: option.split)
  qed
qed simp

lemma released_postponed [released_intros]: "released_le s (release_postponed env us s)"
proof (induction us arbitrary: s)
  case (Cons u us)
  show ?case
  proof (cases "map_of (co_clients s) u")
    case (Some st)
    have "released_le s (drop_roleless u (release_locked env u r s))" for r
      by (rule released_drop_roleless[OF released_monitor[OF release_locked_outcome[OF Some]]])
    from released_le_trans[OF this Cons.IH] show ?thesis using Some Cons.IH by simp
  qed (use Cons in simp)
qed simp


lemma released_release_all [released_intros]:
  assumes "coord_inv s"
  shows "released_le s (release_all_normal_game_identities env s)"
proof -
  let ?P = "\<lambda>st. cl_normal_game st \<and> cl_normal_release_pending st"
  define s1 where "s1 = mark_normal_release s"
  have le: "released_le s s1" by (simp add: s1_def mark_normal_release_def released_le_same)
  have "released_le s1 (release_marked env ?P (map fst (co_clients s1)) s1)" if nd: "\<not> display_mutation_deferred env s1"
  proof (rule released_marked)
    show "coord_inv s1" unfolding s1_def by (rule inv_mark[OF assms])
    show "drained ?P s1" unfolding drained_def using deferred_drained[OF nd] by blast
  qed (auto simp: core_def)
  then show ?thesis using le
    by (auto simp: release_all_normal_game_identities_def s1_def[symmetric] Let_def intro: released_le_trans)
qed

lemma released_remove_managed: "co_released (remove_managed env m us s) = co_released s"
proof (induction us arbitrary: s)
  case (Cons u us)
  let ?c = "case cb_remove (en_cb env) of None \<Rightarrow> (True, s) | Some g \<Rightarrow> call_bool g u s"
  obtain ok s1 where c: "?c = (ok, s1)" by (cases ?c)
  then have "co_released s1 = co_released s"
    by (auto dest!: call_bool_frame split: option.splits)
  then show ?case unfolding remove_managed.simps c prod.case Cons.IH by (auto split: option.split bool.split)
qed simp

lemma released_finalize [released_intros]: "released_le s (finalize_shutdown env s)"
proof -
  let ?s1 = "s\<lparr>co_clients := []\<rparr>"
  let ?a = "case cb_apply (en_cb env) of None \<Rightarrow> (True, ?s1) | Some f \<Rightarrow> apply_composed f ?s1"
  obtain ok s2 where a: "?a = (ok, s2)" by (cases ?a)
  then have "co_released s2 = co_released s" by (auto dest!: apply_composed_frame split: option.splits)
  then have "co_released (finalize_shutdown env s) = co_released s"
    unfolding finalize_shutdown_def Let_def a prod.case by (auto simp: released_remove_managed split: bool.split)
  then show ?thesis by (rule released_le_same)
qed

lemma released_drained [released_intros]:
  assumes "coord_inv s"
  shows "released_le s (release_drained_normal_game_identities env s)"
proof -
  let ?P = "\<lambda>st. cl_normal_release_pending st \<and> \<not> captured st"
  have "released_le s (release_marked env ?P us s)" for us
  proof (rule released_marked[OF _ _ assms])
    show "drained ?P s" unfolding drained_def using coord_invD(3)[OF assms] unfolding core_ok_def by blast
  qed (auto simp: core_def captured_def)
  from released_le_trans[OF this released_postponed] show ?thesis
    by (simp add: release_drained_normal_game_identities_def Let_def released_finalize)
qed

lemma released_activate_entry: "released_le s (snd (activate_entry env u label mode generation s))"
proof -
  have "co_released (snd (activate_locked env u t)) = co_released t" for t
    using quiet_activate[of t env u] by (simp add: quiet_def same_gens_def)
  then show ?thesis by (auto simp: activate_entry_def Let_def released_le_def case_prod_beta)
qed

lemma released_activate [released_intros]: "released_le s (snd (activate_or_resume env u label mode generation s))"
proof -
  obtain k s1 where r: "refresh_unverified_shared_geometry env u s = (k, s1)"
    by (cases "refresh_unverified_shared_geometry env u s")
  note le1 = released_quiet[OF quiet_refresh[OF r]]
  define s2 where "s2 = s1\<lparr>co_observed := AList.update u generation (co_observed s1)\<rparr>"
  have le2: "released_le s s2" using le1 by (simp add: s2_def released_le_def)
  have "released_le s2 (ensure_client u s2)" by (simp add: ensure_client_def released_le_def)
  from released_le_trans[OF released_le_trans[OF le2 this] released_activate_entry]
  have e: "released_le s (snd (activate_entry env u label mode generation (ensure_client u s2)))" .
  have o: "released_le s (s1\<lparr>co_observed := x\<rparr>)" for x using le1 by (simp add: released_le_def)
  show ?thesis
    unfolding activate_or_resume_def r prod.case Let_def s2_def[symmetric]
    using le1 le2 e o by (cases k) auto
qed

lemma released_activate_remote [released_intros]: "released_le s (snd (activate_remote_monitor env u label mode s))"
  using released_activate[of s env u label mode 0] by (simp add: activate_remote_monitor_def case_prod_beta)

lemma released_resume [released_intros]: "released_le s (snd (resume_remote_monitor env u s))"
  using released_quiet[OF quiet_activate] by (auto simp: resume_remote_monitor_def Let_def split: option.split)

lemma released_release_drop:
  "map_of (co_clients s) u = Some st \<Longrightarrow> released_le s (drop_roleless u (release_locked env u reason s))"
  by (rule released_drop_roleless[OF released_monitor[OF release_locked_outcome]])

lemma released_explicit [released_intros]: "released_le s (snd (explicit_release env u generation reason s))"
  by (auto simp: explicit_release_def Let_def split: option.split intro!: released_release_drop)

lemma released_disconnect [released_intros]: "released_le s (disconnect_monitor env u s)" "released_le s (unpair_client env u s)"
  by (auto simp: unpair_client_def disconnect_monitor_def split: option.split intro: released_release_drop)

lemma released_frames [released_intros]:
  "released_le s (s\<lparr>co_world := w\<rparr>)" "released_le s (set_layout l s)" "released_le s (set_physical_baseline ns s)"
  "released_le s (refresh_idle_physical_baseline ns s)" "released_le s (snd (retain_normal_game_capture u token s))"
  "released_le s (drop_capture_reference u token s)" "released_le s (complete_restored_normal_game_cleanup env s)"
  "released_le s (transport_lost u generation s)" "released_le s (note_lease_lost u s)"
  by (auto simp: released_le_def set_layout_def set_physical_baseline_def refresh_idle_physical_baseline_def
      retain_normal_game_capture_def drop_capture_reference_def complete_restored_normal_game_cleanup_def
      transport_lost_def note_lease_lost_def split: option.split)

lemma released_shutdown [released_intros]: "released_le s (coordinator_shutdown env False s)"
proof -
  have "released_le s (finalize_shutdown env (s\<lparr>co_shutdown_pending := True\<rparr>))"
    using released_finalize[of "s\<lparr>co_shutdown_pending := True\<rparr>" env] by (simp add: released_le_def)
  moreover have "released_le s (mark_normal_release (s\<lparr>co_shutdown_pending := True\<rparr>))"
    by (simp add: released_le_def mark_normal_release_def)
  ultimately show ?thesis by (simp add: coordinator_shutdown_def)
qed

lemma step_released:
  assumes "coord_inv s" "service_step s t"
  shows "released_le s t"
  using assms(2)
proof cases
  case (idle env app_running capture_owned)
  then show ?thesis using assms(1)
    by (simp add: release_idle_normal_game_identities_def released_release_all released_drained)
qed (simp_all add: released_intros assms(1) released_quiet[OF quiet_reapply_topology])

interpretation coordinator: invariant_system "\<lambda>s. \<exists>w. s = coordinator_init w" coordinator_step coord_inv
proof unfold_locales
  show "coord_inv s" if "\<exists>w. s = coordinator_init w" for s :: "'a coordinator_t"
    using that by (auto simp: coordinator_init_def)
  show "coord_inv t" if "coord_inv s" "coordinator_step s t" for s t :: "'a coordinator_t"
    using that by (rule step_coord_inv)
qed

interpretation service: monotone_system coord_inv service_step coord_inv "\<lambda>s. umap_count (co_released s)"
proof unfold_locales
  show "coord_inv t" if "coord_inv s" "service_step s t" for s t :: "'a coordinator_t"
    using that by (rule service_coord_inv)
  show "umap_count (co_released s) k \<le> umap_count (co_released t) k"
    if "coord_inv s" "service_step s t" for s t :: "'a coordinator_t" and k
    using step_released[OF that] by (simp add: released_le_def)
qed


section \<open>Properties\<close>

text \<open>
  (C33) In every state the coordinator can reach: at most eight clients own an output, each of them has
  a role, no two share a placement order or a normal-game token, a client with a token is a normal game,
  and a capture reference has a positive count and a token that was issued.
\<close>

theorem coordinator_ownership:
  assumes "coordinator_step\<^sup>*\<^sup>* (coordinator_init w) s"
  shows "length (co_clients s) \<le> 8 \<and> distinct (map fst (co_clients s)) \<and>
    (\<forall>u st. map_of (co_clients s) u = Some st \<longrightarrow>
       (cl_remote_monitor st \<or> cl_normal_game st) \<and> (cl_normal_game st \<longleftrightarrow> cl_normal_game_token st \<noteq> 0) \<and>
       (cl_capture_references st \<noteq> [] \<or> cl_normal_release_pending st \<longrightarrow> cl_normal_game st) \<and>
       (\<forall>t n. map_of (cl_capture_references st) t = Some n \<longrightarrow> 0 < n \<and> 0 < t \<and> t \<le> co_next_token s) \<and>
       (\<forall>v st'. v \<noteq> u \<longrightarrow> map_of (co_clients s) v = Some st' \<longrightarrow>
          cl_placement_order st \<noteq> cl_placement_order st' \<and>
          (cl_normal_game st \<longrightarrow> cl_normal_game_token st \<noteq> cl_normal_game_token st')))"
proof -
  have inv: "coord_inv s" using coordinator.reach_inv[OF _ assms] by blast
  have client: "(cl_remote_monitor st \<or> cl_normal_game st) \<and> (cl_normal_game st \<longleftrightarrow> cl_normal_game_token st \<noteq> 0) \<and>
      (cl_capture_references st \<noteq> [] \<or> cl_normal_release_pending st \<longrightarrow> cl_normal_game st) \<and>
      (\<forall>t n. map_of (cl_capture_references st) t = Some n \<longrightarrow> 0 < n \<and> 0 < t \<and> t \<le> co_next_token s)"
    if "map_of (co_clients s) u = Some st" for u st
    using coord_invD(3)[OF inv that] core_ok_token[OF coord_invD(3)[OF inv that]]
    unfolding core_ok_def capture_refs_ok_def captured_def by blast
  have "cl_placement_order st \<noteq> cl_placement_order st' \<and> (cl_normal_game st \<longrightarrow> cl_normal_game_token st \<noteq> cl_normal_game_token st')"
    if "map_of (co_clients s) u = Some st" "map_of (co_clients s) v = Some st'" "v \<noteq> u" for u v st st'
    using coord_inv_apart[OF inv that(1,2)] that(3) client[OF that(1)] by (auto simp: apart_def)
  with client coord_invD(1,2)[OF inv] show ?thesis unfolding max_client_identities_def by blast
qed

lemma refused_not_accepted [simp]: "\<not> rs_accepted (refused e)" by (simp add: refused_def)

lemma activate_released_refused:
  assumes "0 < g" "g \<le> umap_count (co_released s) u" "generation \<le> g"
  shows "\<not> rs_accepted (fst (activate_or_resume env u label mode generation s))"
proof -
  obtain k s1 where r: "refresh_unverified_shared_geometry env u s = (k, s1)"
    by (cases "refresh_unverified_shared_geometry env u s")
  have rel: "co_released s1 = co_released s" using quiet_refresh[OF r] by (simp add: quiet_def same_gens_def)
  obtain h where h: "map_of (co_released s) u = Some h" "generation \<le> h"
    using assms by (cases "map_of (co_released s) u") (auto simp: umap_count_def)
  show ?thesis unfolding activate_or_resume_def r prod.case Let_def using h by (cases k) (simp_all add: rel)
qed

text \<open>
  (C34) A numbered generation (0 stands for none) of a Remote Monitor that an explicit release gave up is
  not accepted again while the host serves: whatever operations follow, an orderly shutdown included,
  activating this or an older generation is refused. Only the hand-over of the displays to a successor
  host forgets it: that shutdown clears the table of released generations.
\<close>

theorem released_generation_refused:
  assumes reach: "coordinator_step\<^sup>*\<^sup>* (coordinator_init w) s"
    and owner: "map_of (co_clients s) u = Some st" "cl_remote_monitor st" "cl_generation st = g" "0 < g"
    and released: "explicit_release env u g reason s = (True, s1)"
    and later: "service_step\<^sup>*\<^sup>* s1 s2" and gen: "generation \<le> g"
  shows "\<not> rs_accepted (fst (activate_or_resume env' u label mode generation s2))"
proof -
  have inv: "coord_inv s" using coordinator.reach_inv[OF _ reach] by blast
  let ?t = "release_locked env u reason s"
  have res: "\<not> cl_remote_monitor (get_client ?t u)" "s1 = drop_roleless u ?t"
    using released owner by (auto simp: explicit_release_def Let_def)
  have "co_released ?t = AList.update u (max (umap_count (co_released s) u) g) (co_released s)"
  proof -
    have "\<not> same_core s ?t"
    proof
      assume same: "same_core s ?t"
      from core_lookup_some[OF same_core_lookup[OF this, symmetric] owner(1)] owner(2) res(1)
      show False by (auto simp: get_client_def core_def)
    qed
    with release_locked_outcome[OF owner(1), of env reason] owner(3,4) show ?thesis
      unfolding monitor_released_def by auto
  qed
  then have "g \<le> umap_count (co_released s1) u" by (simp add: res(2) drop_roleless_def)
  moreover have "coord_inv s1" unfolding res(2) by (rule inv_release_locked[OF inv owner(1)])
  ultimately have "g \<le> umap_count (co_released s2) u"
    using service.steps_level[OF later, of u] by simp
  from activate_released_refused[OF owner(4) this gen] show ?thesis .
qed


lemma deferred_set_pending:
  assumes "coord_inv s" "display_mutation_deferred env s"
  shows "display_mutation_deferred env (set_client u (\<lambda>st. st\<lparr>cl_normal_release_pending := True\<rparr>) s)"
    and "display_mutation_deferred env (mark_normal_release s)"
proof -
  let ?P = "\<lambda>st. cl_normal_release_pending st \<and> captured st"
  have any: "any_client ?P t"
    if h: "any_client ?P s" "\<And>v st. map_of (co_clients s) v = Some st \<Longrightarrow> ?P st \<Longrightarrow> \<exists>st'. map_of (co_clients t) v = Some st' \<and> ?P st'"
    for t :: "'a coordinator_t"
  proof -
    obtain v st where "map_of (co_clients s) v = Some st" "?P st"
      using h(1) unfolding any_client_iff[OF coord_invD(1)[OF assms(1)], of ?P] by blast
    from h(2)[OF this] show ?thesis by (blast intro: any_clientI)
  qed
  have "any_client ?P (set_client u (\<lambda>st. st\<lparr>cl_normal_release_pending := True\<rparr>) s)" if "any_client ?P s"
    by (rule any[OF that]) (auto simp: captured_def)
  with assms(2) show "display_mutation_deferred env (set_client u (\<lambda>st. st\<lparr>cl_normal_release_pending := True\<rparr>) s)"
    unfolding display_mutation_deferred_def set_client_frame by blast
  have "any_client ?P (mark_normal_release s)" if "any_client ?P s"
    by (rule any[OF that]) (auto simp: captured_def mark_normal_release_def)
  moreover have "co_shutdown_pending (mark_normal_release s) = co_shutdown_pending s" by (simp add: mark_normal_release_def)
  ultimately show "display_mutation_deferred env (mark_normal_release s)"
    using assms(2) unfolding display_mutation_deferred_def by metis
qed

text \<open> While display changes are deferred (a borrowed output, a pending shutdown, or a released game
  whose capture has not drained) no operation that a client request triggers runs a platform callback:
  the displays stay as they are, whatever the callbacks would do.
\<close>

theorem deferred_leaves_displays:
  assumes reach: "coordinator_step\<^sup>*\<^sup>* (coordinator_init w) s" and deferred: "display_mutation_deferred env s"
  shows "co_world (snd (reserve_normal_game_identity env u label mode s)) = co_world s \<and>
    co_world (snd (reapply_composed_topology env s)) = co_world s \<and>
    co_world (snd (rollback_normal_game_identity env u token s)) = co_world s \<and>
    co_world (release_normal_game_identity env u token s) = co_world s \<and>
    co_world (release_all_normal_game_identities env s) = co_world s \<and>
    co_world (snd (resume_remote_monitor env u s)) = co_world s \<and>
    co_world (snd (explicit_release env u generation reason s)) = co_world s \<and>
    co_world (unpair_client env u s) = co_world s"
proof -
  have inv: "coord_inv s" using coordinator.reach_inv[OF _ reach] by blast
  have rl: "co_world (release_locked env u r s) = co_world s" for r
    using deferred by (simp add: release_locked_def Let_def postpone_release_def)
  have dr: "co_world (drop_roleless u t) = co_world t" for t :: "'a coordinator_t" by (simp add: drop_roleless_def)
  show ?thesis
  proof (intro conjI)
    show "co_world (release_normal_game_identity env u token s) = co_world s"
      using deferred_set_pending(1)[OF inv deferred, of u] by (simp add: release_normal_game_identity_def Let_def split: option.split)
    show "co_world (release_all_normal_game_identities env s) = co_world s"
      using deferred_set_pending(2)[OF inv deferred] by (simp add: release_all_normal_game_identities_def Let_def mark_normal_release_def)
    show "co_world (snd (rollback_normal_game_identity env u token s)) = co_world s"
      using deferred by (simp add: rollback_normal_game_identity_def split: option.split)
    show "co_world (snd (explicit_release env u generation reason s)) = co_world s"
      by (simp add: explicit_release_def Let_def rl dr split: option.split)
    show "co_world (unpair_client env u s) = co_world s"
      by (simp add: unpair_client_def disconnect_monitor_def rl dr split: option.split)
  qed (use deferred in \<open>simp_all add: reserve_normal_game_identity_def reapply_composed_topology_def resume_remote_monitor_def Let_def\<close>)
qed

text \<open>
  An explicit release of the owned generation never touches another client, and its result is the
  truth: \<open>True\<close> means the client is no longer a monitor (erased, or kept with its game role
  unchanged when it also runs a game), \<open>False\<close> means its roles are as before and the release
  stays pending.
\<close>

theorem explicit_release_result:
  assumes reach: "coordinator_step\<^sup>*\<^sup>* (coordinator_init w) s"
    and owner: "map_of (co_clients s) u = Some st" "cl_remote_monitor st"
    and released: "explicit_release env u (cl_generation st) reason s = (ok, t)"
  shows "(\<forall>v. v \<noteq> u \<longrightarrow> map_option core (map_of (co_clients t) v) = map_option core (map_of (co_clients s) v)) \<and>
    map_option core (map_of (co_clients t) u) =
      (if \<not> ok then Some (core st) else if cl_normal_game st then Some (core (st\<lparr>cl_remote_monitor := False\<rparr>)) else None) \<and>
    (\<not> ok \<longrightarrow> (\<exists>st'. map_of (co_clients t) u = Some st' \<and> cl_monitor_release_pending st'))"
proof -
  let ?t = "release_locked env u reason s" and ?d = "st\<lparr>cl_remote_monitor := False\<rparr>"
  have t: "ok = (\<not> cl_remote_monitor (get_client ?t u))" "t = drop_roleless u ?t"
    using released owner(1) by (auto simp: explicit_release_def Let_def)
  consider (kept) "same_core s ?t" "\<exists>st. map_of (co_clients ?t) u = Some st \<and> cl_monitor_release_pending st"
    | (dropped) "same_core (set_client u (\<lambda>st. st\<lparr>cl_remote_monitor := False\<rparr>) s) ?t"
    using release_locked_outcome[OF owner(1), of env reason] owner(2) unfolding monitor_released_def by blast
  then show ?thesis
  proof cases
    case kept
    obtain x where x: "map_of (co_clients ?t) u = Some x" "core x = core st"
      using core_lookup_some[OF same_core_lookup[OF kept(1), symmetric] owner(1)] by blast
    then have "\<not> ok" "t = ?t" using t owner(2) by (simp_all add: get_client_def core_def drop_roleless_def)
    then show ?thesis using kept x same_core_lookup[OF kept(1)] by simp
  next
    case dropped
    have "map_of (co_clients (set_client u (\<lambda>st. st\<lparr>cl_remote_monitor := False\<rparr>) s)) u = Some ?d" using owner(1) by simp
    from core_lookup_some[OF same_core_lookup[OF dropped, symmetric] this]
    obtain x where x: "map_of (co_clients ?t) u = Some x" "core x = core ?d" by blast
    have ok: "ok" and role: "owns_display (get_client ?t u) \<longleftrightarrow> cl_normal_game st"
      using t(1) x by (simp_all add: get_client_def core_def)
    have others: "map_option core (map_of (co_clients ?t) v) = map_option core (map_of (co_clients s) v)" if "v \<noteq> u" for v
      using same_core_lookup[OF dropped, of v] that by simp
    show ?thesis using ok role others x unfolding t(2) drop_roleless_def by auto
  qed
qed

text \<open>Callbacks that succeed whenever they are called.\<close>

definition callbacks_succeed :: "'w runtime_callbacks_t \<Rightarrow> bool" where
  "callbacks_succeed cb \<longleftrightarrow> (\<forall>f. cb_apply cb = Some f \<longrightarrow> (\<forall>ns w. fst (f ns w))) \<and>
     (\<forall>g. cb_remove cb = Some g \<longrightarrow> (\<forall>u w. fst (g u w)))"

lemma callbacks_succeedD:
  "callbacks_succeed cb \<Longrightarrow> cb_apply cb = Some f \<Longrightarrow> f ns w = (ok, w') \<Longrightarrow> ok"
  "callbacks_succeed cb \<Longrightarrow> cb_remove cb = Some g \<Longrightarrow> g u w = (ok, w') \<Longrightarrow> ok"
  unfolding callbacks_succeed_def by (metis fst_conv)+

lemma remove_managed_all:
  assumes "callbacks_succeed (en_cb env)"
  shows "co_clients (remove_managed env m us s) = co_clients s \<and>
    co_restore_pending (remove_managed env m us s) = co_restore_pending s"
proof (induction us arbitrary: s)
  case (Cons u us)
  let ?c = "case cb_remove (en_cb env) of None \<Rightarrow> (True, s) | Some g \<Rightarrow> call_bool g u s"
  obtain ok s1 where c: "?c = (ok, s1)" by (cases ?c)
  have "ok \<and> co_clients s1 = co_clients s \<and> co_restore_pending s1 = co_restore_pending s"
  proof (cases "cb_remove (en_cb env)")
    case None
    then show ?thesis using c by auto
  next
    case (Some g)
    then show ?thesis using c callbacks_succeedD(2)[OF assms Some] by (auto simp: call_bool_def split: prod.splits)
  qed
  then show ?case unfolding remove_managed.simps c prod.case using Cons.IH[of s1] by simp
qed simp

lemma finalize_completes:
  assumes "may_mutate env" "\<not> protected_output (en_leases env)"
    and "callbacks_succeed (en_cb env)"
    and "co_restore_pending s \<Longrightarrow> cb_apply (en_cb env) \<noteq> None"
  shows "shutdown_complete (finalize_shutdown env s)"
proof -
  let ?s1 = "s\<lparr>co_clients := []\<rparr>"
  let ?a = "case cb_apply (en_cb env) of None \<Rightarrow> (True, ?s1) | Some f \<Rightarrow> apply_composed f ?s1"
  obtain ok s2 where a: "?a = (ok, s2)" by (cases ?a)
  have ok: "ok \<and> co_clients s2 = []"
  proof (cases "cb_apply (en_cb env)")
    case None
    then show ?thesis using a by auto
  next
    case (Some f)
    then show ?thesis using a callbacks_succeedD(1)[OF assms(3) Some] by (auto simp: apply_composed_def split: prod.splits)
  qed
  define ids where "ids = client_ids owns_display s"
  have r: "co_clients (remove_managed env m us (s2\<lparr>co_restore_pending := False\<rparr>)) = [] \<and>
      \<not> co_restore_pending (remove_managed env m us (s2\<lparr>co_restore_pending := False\<rparr>))" for m us
    using remove_managed_all[OF assms(3), of m us "s2\<lparr>co_restore_pending := False\<rparr>"] ok by simp
  show ?thesis
    unfolding finalize_shutdown_def Let_def a prod.case ids_def[symmetric] shutdown_complete_def
    using assms(1,2,4) ok r by auto
qed

text \<open>
  (C35) Shutdown finishes: with no capture left, no lease in the way and callbacks that succeed, the
  coordinator owns nothing afterwards, and a shutdown that had to wait for captures is finished the
  same way by the next drain once they are gone.
\<close>

theorem shutdown_completes:
  assumes "may_mutate env" "\<not> protected_output (en_leases env)" "\<not> any_client captured s"
    and "callbacks_succeed (en_cb env)"
    and "co_restore_pending s \<Longrightarrow> cb_apply (en_cb env) \<noteq> None"
  shows "shutdown_complete (coordinator_shutdown env False s) \<and>
    (co_shutdown_pending s \<longrightarrow> shutdown_complete (release_drained_normal_game_identities env s))"
proof
  have "\<not> any_client captured (s\<lparr>co_shutdown_pending := True\<rparr>)" using assms(3) by (simp add: any_client_def)
  then show "shutdown_complete (coordinator_shutdown env False s)"
    using finalize_completes[OF assms(1,2,4), of "s\<lparr>co_shutdown_pending := True\<rparr>"] assms(3,5)
    by (simp add: coordinator_shutdown_def)
  show "co_shutdown_pending s \<longrightarrow> shutdown_complete (release_drained_normal_game_identities env s)"
    using finalize_completes[OF assms(1,2,4,5)] assms(3) by (simp add: release_drained_normal_game_identities_def)
qed


section \<open>Witnesses\<close>

text \<open>A host whose platform calls succeed, and one monitor activated on it with generation 5.\<close>

definition demo_callbacks :: "unit runtime_callbacks_t" where
  "demo_callbacks = \<lparr>cb_create_or_reclaim = Some (\<lambda>_ _ _ w. (True, w)), cb_resolve_mode = None, cb_apply = Some (\<lambda>_ w. (True, w)),
     cb_observe_shared_mode = None, cb_finalize_mode = None, cb_exact_target = Some (\<lambda>_ _ w. (Some ''DISPLAY9'', w)),
     cb_remove = Some (\<lambda>_ w. (True, w)), cb_capacity = None, cb_terminate = None\<rparr>"

definition demo_env :: "unit coordinator_env" where
  "demo_env = \<lparr>en_cb = demo_callbacks, en_thread = 1, en_leases = registry_init\<rparr>"

definition demo_monitor :: "unit coordinator_t" where
  "demo_monitor = snd (activate_or_resume demo_env ''a'' ''A'' default_mode 5 (coordinator_init ()))"

lemma demo_coordinator_reach: "coordinator_step\<^sup>*\<^sup>* (coordinator_init ()) demo_monitor"
  unfolding demo_monitor_def by (rule r_into_rtranclp) (rule coordinator_step.service, rule service_step.activate)

definition demo_client :: client_state_t where
  "demo_client = get_client demo_monitor ''a''"

lemma demo_owner: "map_of (co_clients demo_monitor) ''a'' = Some demo_client"
proof -
  have "map_of (co_clients demo_monitor) ''a'' \<noteq> None" by code_simp
  then show ?thesis by (auto simp: demo_client_def get_client_def)
qed

lemma demo_client_role: "cl_remote_monitor demo_client" "cl_generation demo_client = 5" "\<not> cl_normal_game demo_client"
  by code_simp+

lemma demo_release: "fst (explicit_release demo_env ''a'' 5 ''bye'' demo_monitor)"
  by code_simp

theorem coordinator_ownership_witness: "length (co_clients demo_monitor) \<le> 8 \<and> length (co_clients demo_monitor) = 1"
proof
  show "length (co_clients demo_monitor) \<le> 8" using coordinator_ownership[OF demo_coordinator_reach] by blast
qed code_simp

definition demo_released :: "unit coordinator_t" where
  "demo_released = snd (explicit_release demo_env ''a'' 5 ''bye'' demo_monitor)"

theorem released_generation_refused_witness:
  "\<not> rs_accepted (fst (activate_or_resume demo_env ''a'' ''A'' default_mode 5
      (coordinator_shutdown demo_env False demo_released)))"
proof (rule released_generation_refused[OF demo_coordinator_reach demo_owner demo_client_role(1,2)])
  show "explicit_release demo_env ''a'' 5 ''bye'' demo_monitor = (True, demo_released)"
    using demo_release by (simp add: prod_eq_iff demo_released_def)
  show "service_step\<^sup>*\<^sup>* demo_released (coordinator_shutdown demo_env False demo_released)"
    by (rule r_into_rtranclp) (rule service_step.shutdown)
qed simp_all

definition demo_waiting :: "unit coordinator_t" where
  "demo_waiting = coordinator_shutdown (demo_env\<lparr>en_leases := registry_init\<lparr>r_borrowers := 1\<rparr>\<rparr>) False demo_monitor"

theorem deferred_leaves_displays_witness:
  "display_mutation_deferred demo_env demo_waiting \<and>
   co_world (unpair_client demo_env ''a'' demo_waiting) = co_world demo_waiting"
proof -
  have "coordinator_step demo_monitor demo_waiting"
    unfolding demo_waiting_def by (rule coordinator_step.service, rule service_step.shutdown)
  with demo_coordinator_reach have r: "coordinator_step\<^sup>*\<^sup>* (coordinator_init ()) demo_waiting" by simp
  have d: "display_mutation_deferred demo_env demo_waiting" by code_simp
  from deferred_leaves_displays[OF r d] d show ?thesis by blast
qed

theorem explicit_release_result_witness:
  "map_option core (map_of (co_clients (snd (explicit_release demo_env ''a'' 5 ''bye'' demo_monitor))) ''a'') = None"
proof -
  have "explicit_release demo_env ''a'' (cl_generation demo_client) ''bye'' demo_monitor =
      (True, snd (explicit_release demo_env ''a'' 5 ''bye'' demo_monitor))"
    using demo_release by (simp add: prod_eq_iff demo_client_role)
  from explicit_release_result[OF demo_coordinator_reach demo_owner demo_client_role(1) this] show ?thesis
    by (simp add: demo_client_role)
qed

theorem shutdown_completes_witness: "shutdown_complete (coordinator_shutdown demo_env False demo_monitor)"
proof -
  have "callbacks_succeed (en_cb demo_env)" by (simp add: callbacks_succeed_def demo_env_def demo_callbacks_def)
  moreover have "may_mutate demo_env" "\<not> protected_output (en_leases demo_env)" "\<not> any_client captured demo_monitor"
    "\<not> co_restore_pending demo_monitor" by code_simp+
  ultimately show ?thesis using shutdown_completes[of demo_env demo_monitor] by blast
qed

end
