(* ===== verification/Pairing_Policy.thy ===== *)
theory Pairing_Policy
  imports Text_Codec
begin

text \<open>
  The decisions of the pairing protocol (\<^verbatim>\<open>src/src/http_pairing_policy.cpp\<close>) and of the
  RTSP admission (\<^verbatim>\<open>src/src/rtsp_pending_policy.cpp\<close>): validation of identifiers and hex
  fields, validity of the paired-client table, which record a certificate resolves to, who may open a
  pairing session, and the phase checks of the handshake. Character classes are those of the C locale.
  An encoded certificate (the exact identity of a client) is a byte string.
\<close>

section \<open>Characters\<close>

definition isspace :: "char \<Rightarrow> bool" where
  "isspace c = (let n = of_char c :: nat in n = 32 \<or> (9 \<le> n \<and> n \<le> 13))"

definition isdigit :: "char \<Rightarrow> bool" where
  "isdigit c = (let n = of_char c :: nat in 48 \<le> n \<and> n \<le> 57)"

definition isalnum :: "char \<Rightarrow> bool" where
  "isalnum c = (let n = of_char c :: nat in isdigit c \<or> (65 \<le> n \<and> n \<le> 90) \<or> (97 \<le> n \<and> n \<le> 122))"

definition isxdigit :: "char \<Rightarrow> bool" where
  "isxdigit c = (let n = of_char c :: nat in isdigit c \<or> (65 \<le> n \<and> n \<le> 70) \<or> (97 \<le> n \<and> n \<le> 102))"

section \<open>Pairing data\<close>

definition max_pending_sessions :: nat where "max_pending_sessions = 1"
definition max_unique_id_length :: nat where "max_unique_id_length = 128"
definition max_paired_clients :: nat where "max_paired_clients = 256"
definition max_paired_client_name_length :: nat where "max_paired_client_name_length = 1024"
definition max_paired_certificate_length :: nat where "max_paired_certificate_length = 65536"
definition max_pairing_hex_field_length :: nat where "max_pairing_hex_field_length = 65536"
definition salt_hex_length :: nat where "salt_hex_length = 32"
definition pairing_secret_length :: nat where "pairing_secret_length = 16"

lemmas pairing_limits = max_pending_sessions_def max_unique_id_length_def max_paired_clients_def
  max_paired_client_name_length_def max_paired_certificate_length_def max_pairing_hex_field_length_def
  salt_hex_length_def pairing_secret_length_def

datatype phase_e = Phase_none | Get_server_cert | Client_challenge | Server_challenge_response | Client_pairing_secret

record session_state_t =
  ss_phase :: phase_e
  ss_has_cipher_key :: bool
  ss_has_server_secret :: bool

record decision_t =
  de_accepted :: bool
  de_next_phase :: phase_e
  de_failure_message :: string

record paired_client_record_view_t =
  pr_uuid :: uuid
  pr_certificate_identity :: "byte list"
  pr_enabled :: bool

datatype paired_client_resolution_e = Authorized | Unknown_certificate | Disabled | Invalid_state

record paired_client_resolution_t =
  rv_status :: paired_client_resolution_e
  rv_index :: nat

datatype paired_client_admission_e = Append | Reauthorize | Reject

record paired_client_admission_t =
  pa_status :: paired_client_admission_e
  pa_index :: nat

record admission_decision_t =
  ad_accepted :: bool
  ad_failure_message :: string

section \<open>Pairing decisions\<close>

definition trim :: "string \<Rightarrow> string" where
  "trim value = rev (dropWhile isspace (rev (dropWhile isspace value)))"

definition equals_ignore_case :: "string \<Rightarrow> string \<Rightarrow> bool" where
  "equals_ignore_case left right \<longleftrightarrow> length left = length right \<and> list_all2 (\<lambda>l r. tolower l = tolower r) left right"

definition accepted :: "phase_e \<Rightarrow> decision_t" where
  "accepted next_phase = \<lparr>de_accepted = True, de_next_phase = next_phase, de_failure_message = ''''\<rparr>"

definition rejected :: "phase_e \<Rightarrow> string \<Rightarrow> decision_t" where
  "rejected next_phase failure_message = \<lparr>de_accepted = False, de_next_phase = next_phase, de_failure_message = failure_message\<rparr>"

definition certificate_subject_name :: "string option \<Rightarrow> string" where
  "certificate_subject_name subject_name = (case subject_name of None \<Rightarrow> '''' | Some s \<Rightarrow> s)"

definition is_placeholder_client_name :: "string \<Rightarrow> bool" where
  "is_placeholder_client_name name \<longleftrightarrow> equals_ignore_case (trim name) ''self''"

fun first_display_name :: "string list \<Rightarrow> string" where
  "first_display_name [] = ''Sunshine''"
| "first_display_name (name # names) = (let trimmed_name = trim name in
     if trimmed_name \<noteq> '''' \<and> \<not> is_placeholder_client_name trimmed_name then trimmed_name else first_display_name names)"

definition display_client_name :: "string \<Rightarrow> string \<Rightarrow> string \<Rightarrow> string" where
  "display_client_name paired_name device_name host_name = first_display_name [paired_name, device_name, host_name]"

definition valid_unique_id :: "string \<Rightarrow> bool" where
  "valid_unique_id value \<longleftrightarrow> value \<noteq> '''' \<and> length value \<le> max_unique_id_length \<and>
     list_all (\<lambda>c. isalnum c \<or> c = CHR ''-'' \<or> c = CHR ''_'' \<or> c = CHR ''.'') value"

definition valid_hex_field :: "string \<Rightarrow> nat \<Rightarrow> nat \<Rightarrow> bool" where
  "valid_hex_field value minimum maximum \<longleftrightarrow> minimum \<le> length value \<and> length value \<le> maximum \<and> even (length value) \<and>
     list_all isxdigit value"

definition valid_paired_client_uuid :: "uuid \<Rightarrow> bool" where
  "valid_paired_client_uuid value \<longleftrightarrow> length value = 36 \<and>
     value ! 8 = CHR ''-'' \<and> value ! 13 = CHR ''-'' \<and> value ! 18 = CHR ''-'' \<and> value ! 23 = CHR ''-'' \<and>
     list_all (\<lambda>i. i = 8 \<or> i = 13 \<or> i = 18 \<or> i = 23 \<or> isxdigit (value ! i)) [0..<36]"

text \<open>The loop of \<^verbatim>\<open>paired_client_state_valid\<close> with its two sets of seen values; a failed
  insertion is a membership.\<close>

fun client_records_valid :: "uuid set \<Rightarrow> byte list set \<Rightarrow> paired_client_record_view_t list \<Rightarrow> bool" where
  "client_records_valid uuids certificate_identities [] = True"
| "client_records_valid uuids certificate_identities (client # clients) =
     (if \<not> valid_paired_client_uuid (pr_uuid client) \<or> pr_certificate_identity client = [] \<or>
         length (pr_certificate_identity client) > max_paired_certificate_length \<or>
         pr_uuid client \<in> uuids \<or> pr_certificate_identity client \<in> certificate_identities
      then False
      else client_records_valid (insert (pr_uuid client) uuids)
             (insert (pr_certificate_identity client) certificate_identities) clients)"

definition paired_client_state_valid :: "paired_client_record_view_t list \<Rightarrow> bool" where
  "paired_client_state_valid clients \<longleftrightarrow> length clients \<le> max_paired_clients \<and> client_records_valid {} {} clients"

fun find_certificate :: "nat \<Rightarrow> byte list \<Rightarrow> paired_client_record_view_t list \<Rightarrow> nat option" where
  "find_certificate i presented [] = None"
| "find_certificate i presented (client # clients) =
     (if pr_certificate_identity client = presented then Some i else find_certificate (Suc i) presented clients)"

definition resolve_paired_client :: "paired_client_record_view_t list \<Rightarrow> byte list \<Rightarrow> paired_client_resolution_t" where
  "resolve_paired_client clients presented =
     (if \<not> paired_client_state_valid clients then \<lparr>rv_status = Invalid_state, rv_index = 0\<rparr>
      else if presented = [] \<or> length presented > max_paired_certificate_length
      then \<lparr>rv_status = Unknown_certificate, rv_index = 0\<rparr>
      else case find_certificate 0 presented clients of
        Some index \<Rightarrow> \<lparr>rv_status = (if pr_enabled (clients ! index) then Authorized else Disabled), rv_index = index\<rparr>
      | None \<Rightarrow> \<lparr>rv_status = Unknown_certificate, rv_index = 0\<rparr>)"

definition admit_paired_client :: "paired_client_record_view_t list \<Rightarrow> byte list \<Rightarrow> paired_client_admission_t" where
  "admit_paired_client clients presented =
     (if \<not> paired_client_state_valid clients \<or> presented = [] \<or> length presented > max_paired_certificate_length
      then \<lparr>pa_status = Reject, pa_index = 0\<rparr>
      else case find_certificate 0 presented clients of
        Some index \<Rightarrow> \<lparr>pa_status = Reauthorize, pa_index = index\<rparr>
      | None \<Rightarrow> if length clients \<ge> max_paired_clients then \<lparr>pa_status = Reject, pa_index = 0\<rparr>
          else \<lparr>pa_status = Append, pa_index = 0\<rparr>)"

definition admit_pending_session :: "string \<Rightarrow> string \<Rightarrow> string \<Rightarrow> nat \<Rightarrow> bool \<Rightarrow> bool \<Rightarrow> admission_decision_t" where
  "admit_pending_session unique_id client_certificate_hex salt_hex pending_sessions replacing_existing same_identity =
     (if \<not> valid_unique_id unique_id then \<lparr>ad_accepted = False, ad_failure_message = ''Invalid uniqueid''\<rparr>
      else if \<not> valid_hex_field client_certificate_hex 2 max_pairing_hex_field_length
      then \<lparr>ad_accepted = False, ad_failure_message = ''Invalid client certificate''\<rparr>
      else if \<not> valid_hex_field salt_hex salt_hex_length 128
      then \<lparr>ad_accepted = False, ad_failure_message = ''Invalid pairing salt''\<rparr>
      else if pending_sessions \<ge> max_pending_sessions \<and> \<not> (replacing_existing \<and> same_identity)
      then \<lparr>ad_accepted = False, ad_failure_message = ''Too many pending pairing sessions''\<rparr>
      else \<lparr>ad_accepted = True, ad_failure_message = ''''\<rparr>)"

definition begin_get_server_certificate :: "session_state_t \<Rightarrow> nat \<Rightarrow> decision_t" where
  "begin_get_server_certificate state salt_size =
     (if ss_phase state \<noteq> Phase_none then rejected (ss_phase state) ''Out of order call to getservercert''
      else if salt_size < salt_hex_length then rejected Get_server_cert ''Salt too short''
      else accepted Get_server_cert)"

definition begin_client_challenge :: "session_state_t \<Rightarrow> decision_t" where
  "begin_client_challenge state =
     (if ss_phase state \<noteq> Get_server_cert then rejected (ss_phase state) ''Out of order call to clientchallenge''
      else if \<not> ss_has_cipher_key state then rejected Client_challenge ''Cipher key not set''
      else accepted Client_challenge)"

definition begin_server_challenge_response :: "session_state_t \<Rightarrow> decision_t" where
  "begin_server_challenge_response state =
     (if ss_phase state \<noteq> Client_challenge then rejected (ss_phase state) ''Out of order call to serverchallengeresp''
      else if \<not> ss_has_cipher_key state \<or> \<not> ss_has_server_secret state
      then rejected Server_challenge_response ''Cipher key or serversecret not set''
      else accepted Server_challenge_response)"

definition begin_client_pairing_secret :: "session_state_t \<Rightarrow> nat \<Rightarrow> decision_t" where
  "begin_client_pairing_secret state payload_size =
     (if ss_phase state \<noteq> Server_challenge_response
      then rejected (ss_phase state) ''Out of order call to clientpairingsecret''
      else if payload_size \<le> pairing_secret_length
      then rejected Client_pairing_secret ''Client pairing secret too short''
      else accepted Client_pairing_secret)"

definition decide_client_pairing_secret :: "session_state_t \<Rightarrow> bool \<Rightarrow> bool \<Rightarrow> bool \<Rightarrow> decision_t" where
  "decide_client_pairing_secret state client_certificate_valid client_hash_matches client_secret_signature_valid =
     (if ss_phase state \<noteq> Client_pairing_secret
      then rejected (ss_phase state) ''Out of order call to clientpairingsecret''
      else if \<not> client_certificate_valid then rejected Client_pairing_secret ''Invalid client certificate''
      else if \<not> client_hash_matches \<or> \<not> client_secret_signature_valid then rejected Client_pairing_secret ''''
      else accepted Client_pairing_secret)"

section \<open>The paired-client table\<close>

definition record_ok :: "paired_client_record_view_t \<Rightarrow> bool" where
  "record_ok c \<longleftrightarrow> valid_paired_client_uuid (pr_uuid c) \<and> pr_certificate_identity c \<noteq> [] \<and>
     length (pr_certificate_identity c) \<le> max_paired_certificate_length"

lemma client_records_valid_iff:
  "client_records_valid U I cs \<longleftrightarrow> list_all record_ok cs \<and> distinct (map pr_uuid cs) \<and> distinct (map pr_certificate_identity cs) \<and>
     set (map pr_uuid cs) \<inter> U = {} \<and> set (map pr_certificate_identity cs) \<inter> I = {}"
  by (induction cs arbitrary: U I) (auto simp: record_ok_def)

lemma state_valid_iff:
  "paired_client_state_valid cs \<longleftrightarrow> length cs \<le> 256 \<and> list_all record_ok cs \<and>
     distinct (map pr_uuid cs) \<and> distinct (map pr_certificate_identity cs)"
  by (simp add: paired_client_state_valid_def client_records_valid_iff max_paired_clients_def)

lemma find_certificate_shift: "find_certificate (Suc i) x cs = map_option Suc (find_certificate i x cs)"
  by (induction cs arbitrary: i) auto

lemma find_certificate_Some:
  "find_certificate 0 x cs = Some i \<Longrightarrow> i < length cs \<and> pr_certificate_identity (cs ! i) = x"
proof (induction cs arbitrary: i)
  case (Cons c cs)
  then show ?case by (cases i) (auto simp: find_certificate_shift split: if_splits)
qed simp

lemma find_certificate_None: "find_certificate 0 x cs = None \<longleftrightarrow> x \<notin> set (map pr_certificate_identity cs)"
  by (induction cs) (auto simp: find_certificate_shift)

lemma find_certificate_unique:
  assumes "distinct (map pr_certificate_identity cs)" "i < length cs" "pr_certificate_identity (cs ! i) = x"
  shows "find_certificate 0 x cs = Some i"
proof (cases "find_certificate 0 x cs")
  case None
  then show ?thesis using assms(2,3) nth_mem[of i cs] unfolding find_certificate_None by auto
next
  case (Some j)
  from find_certificate_Some[OF this] assms have "j = i"
    by (metis length_map nth_eq_iff_index_eq nth_map)
  with Some show ?thesis by simp
qed

lemma resolve_authorized_iff:
  "rv_status (resolve_paired_client cs x) = Authorized \<and> rv_index (resolve_paired_client cs x) = i \<longleftrightarrow>
   paired_client_state_valid cs \<and> i < length cs \<and> pr_certificate_identity (cs ! i) = x \<and> pr_enabled (cs ! i)"
proof
  assume l: "rv_status (resolve_paired_client cs x) = Authorized \<and> rv_index (resolve_paired_client cs x) = i"
  then have "paired_client_state_valid cs" by (auto simp: resolve_paired_client_def split: if_splits)
  with l show "paired_client_state_valid cs \<and> i < length cs \<and> pr_certificate_identity (cs ! i) = x \<and> pr_enabled (cs ! i)"
    by (auto simp: resolve_paired_client_def split: if_splits option.splits dest: find_certificate_Some)
next
  assume r: "paired_client_state_valid cs \<and> i < length cs \<and> pr_certificate_identity (cs ! i) = x \<and> pr_enabled (cs ! i)"
  then have "record_ok (cs ! i)" by (simp add: state_valid_iff list_all_length)
  then have "x \<noteq> [] \<and> length x \<le> max_paired_certificate_length" using r by (auto simp: record_ok_def)
  moreover have "find_certificate 0 x cs = Some i" using r by (auto simp: state_valid_iff intro: find_certificate_unique)
  ultimately show "rv_status (resolve_paired_client cs x) = Authorized \<and> rv_index (resolve_paired_client cs x) = i"
    using r by (simp add: resolve_paired_client_def)
qed


lemma valid_append:
  assumes "paired_client_state_valid cs" "record_ok new" "pr_uuid new \<notin> set (map pr_uuid cs)"
    "pr_certificate_identity new \<notin> set (map pr_certificate_identity cs)" "length cs < 256"
  shows "paired_client_state_valid (cs @ [new])"
  using assms by (auto simp: state_valid_iff)

lemma valid_enable:
  assumes "paired_client_state_valid cs" "i < length cs"
  shows "paired_client_state_valid (cs[i := (cs ! i)\<lparr>pr_enabled := e\<rparr>])"
proof -
  have "map pr_uuid (cs[i := (cs ! i)\<lparr>pr_enabled := e\<rparr>]) = map pr_uuid cs"
    "map pr_certificate_identity (cs[i := (cs ! i)\<lparr>pr_enabled := e\<rparr>]) = map pr_certificate_identity cs"
    using assms(2) by (simp_all add: map_update list_update_same_conv)
  with assms show ?thesis by (auto simp: state_valid_iff list_all_length nth_list_update record_ok_def)
qed

text \<open>
  A certificate resolves as authorized exactly when the whole table is valid and the record it is
  resolved to carries that certificate and is enabled; a second record cannot do so.
\<close>

theorem resolution_exact:
  "rv_status (resolve_paired_client cs x) = Authorized \<longleftrightarrow>
     length cs \<le> 256 \<and> list_all (\<lambda>c. valid_paired_client_uuid (pr_uuid c) \<and> pr_certificate_identity c \<noteq> [] \<and>
        length (pr_certificate_identity c) \<le> 65536) cs \<and>
     distinct (map pr_uuid cs) \<and> distinct (map pr_certificate_identity cs) \<and>
     (\<exists>!i. i < length cs \<and> pr_certificate_identity (cs ! i) = x \<and> pr_enabled (cs ! i))"
proof -
  define P where "P i \<longleftrightarrow> i < length cs \<and> pr_certificate_identity (cs ! i) = x \<and> pr_enabled (cs ! i)" for i
  have one: "(\<exists>!i. P i) \<longleftrightarrow> (\<exists>i. P i)" if d: "distinct (map pr_certificate_identity cs)"
  proof -
    have "i = j" if "P i" "P j" for i j
      using find_certificate_unique[OF d, of i x] find_certificate_unique[OF d, of j x] that by (simp add: P_def)
    then show ?thesis by blast
  qed
  have "rv_status (resolve_paired_client cs x) = Authorized \<longleftrightarrow> paired_client_state_valid cs \<and> (\<exists>i. P i)"
    unfolding P_def using resolve_authorized_iff[of cs x] by blast
  also have "\<dots> \<longleftrightarrow> length cs \<le> 256 \<and> list_all record_ok cs \<and> distinct (map pr_uuid cs) \<and>
      distinct (map pr_certificate_identity cs) \<and> (\<exists>!i. P i)"
    unfolding state_valid_iff using one by blast
  finally show ?thesis unfolding record_ok_def[abs_def] max_paired_certificate_length_def P_def .
qed

text \<open> Admission never makes the table ambiguous: appending a fresh record for the admitted certificate
  and re-enabling the record it names both keep the table valid and leave that certificate authorized,
  and a well-formed certificate is rejected only when the table is full and does not hold it.
\<close>

theorem admission_keeps_table:
  assumes "paired_client_state_valid cs" and "pr_certificate_identity new = x" "pr_enabled new"
    "valid_paired_client_uuid (pr_uuid new)" "pr_uuid new \<notin> set (map pr_uuid cs)" "x \<noteq> []" "length x \<le> 65536"
  shows "case pa_status (admit_paired_client cs x) of
      Append \<Rightarrow> paired_client_state_valid (cs @ [new]) \<and>
        resolve_paired_client (cs @ [new]) x = \<lparr>rv_status = Authorized, rv_index = length cs\<rparr>
    | Reauthorize \<Rightarrow> (let i = pa_index (admit_paired_client cs x); cs' = cs[i := (cs ! i)\<lparr>pr_enabled := True\<rparr>] in
        i < length cs \<and> pr_certificate_identity (cs ! i) = x \<and> paired_client_state_valid cs' \<and>
        resolve_paired_client cs' x = \<lparr>rv_status = Authorized, rv_index = i\<rparr>)
    | Reject \<Rightarrow> length cs = 256 \<and> x \<notin> set (map pr_certificate_identity cs)"
proof -
  have eq: "resolve_paired_client ds x = \<lparr>rv_status = Authorized, rv_index = i\<rparr>"
    if "paired_client_state_valid ds" "i < length ds" "pr_certificate_identity (ds ! i) = x" "pr_enabled (ds ! i)" for ds i
    using resolve_authorized_iff[of ds x i] that by simp
  have new: "record_ok new" using assms by (simp add: record_ok_def max_paired_certificate_length_def)
  have go: "\<not> (\<not> paired_client_state_valid cs \<or> x = [] \<or> length x > max_paired_certificate_length)"
    using assms by (simp add: max_paired_certificate_length_def)
  show ?thesis
  proof (cases "find_certificate 0 x cs")
    case None
    then have x: "pr_certificate_identity new \<notin> set (map pr_certificate_identity cs)" using find_certificate_None assms(2) by blast
    show ?thesis
    proof (cases "length cs < 256")
      case True
      have "paired_client_state_valid (cs @ [new])" by (rule valid_append[OF assms(1) new assms(5) x True])
      with eq[of "cs @ [new]" "length cs"] None True go assms(2,3) show ?thesis
        by (simp add: admit_paired_client_def max_paired_clients_def)
    next
      case False
      then have "length cs = 256" using assms(1) by (simp add: state_valid_iff)
      with None go x assms(2) show ?thesis by (simp add: admit_paired_client_def max_paired_clients_def)
    qed
  next
    case (Some i)
    note i = find_certificate_Some[OF Some]
    let ?cs = "cs[i := (cs ! i)\<lparr>pr_enabled := True\<rparr>]"
    have v: "paired_client_state_valid ?cs" by (rule valid_enable[OF assms(1) conjunct1[OF i]])
    have "resolve_paired_client ?cs x = \<lparr>rv_status = Authorized, rv_index = i\<rparr>"
      by (rule eq[OF v]) (use i in simp_all)
    with Some go i v show ?thesis by (simp add: admit_paired_client_def Let_def)
  qed
qed

section \<open>RTSP admission\<close>

definition MAX_CAPTURE_FRAMERATE :: int where "MAX_CAPTURE_FRAMERATE = 4000"

record normalized_framerate_t =
  nf_capture_framerate :: int
  nf_encoding_framerate :: int

text \<open>\<^verbatim>\<open>requested_framerate\<close> is a 64-bit signed value; the casts to \<^verbatim>\<open>int\<close> keep the
  low 32 bits.\<close>

definition to_int32 :: "int \<Rightarrow> int" where
  "to_int32 x = (x + 2147483648) mod 4294967296 - 2147483648"

definition normalize_requested_framerate :: "int \<Rightarrow> normalized_framerate_t option" where
  "normalize_requested_framerate requested =
     (if requested \<le> 0 \<or> requested > 2147483647 then None
      else let capture = (if requested > 4000 then (requested + 500) div 1000 else requested) in
        if capture \<le> 0 \<or> capture > MAX_CAPTURE_FRAMERATE then None
        else let encoding = (if requested > 1000 then requested else requested * 1000) in
          Some \<lparr>nf_capture_framerate = to_int32 capture, nf_encoding_framerate = to_int32 encoding\<rparr>)"

text \<open>\<^verbatim>\<open>std::from_chars\<close> for a 64-bit value in base 10: the longest run of digits after an
  optional minus; \<open>None\<close> for no digits or a value out of range, else the value and what is left.\<close>

definition digits_value :: "string \<Rightarrow> int" where
  "digits_value ds = foldl (\<lambda>v c. v * 10 + (int (of_char c) - 48)) 0 ds"

definition from_chars_int64 :: "string \<Rightarrow> (int \<times> string) option" where
  "from_chars_int64 s =
     (let (neg, body) = (case s of [] \<Rightarrow> (False, s) | c # cs \<Rightarrow> if c = CHR ''-'' then (True, cs) else (False, s));
          ds = takeWhile isdigit body; v = (if neg then - digits_value ds else digits_value ds) in
      if ds = [] \<or> v < - 9223372036854775808 \<or> v > 9223372036854775807 then None
      else Some (v, drop (length ds) body))"

definition parse_requested_framerate :: "string \<Rightarrow> normalized_framerate_t option" where
  "parse_requested_framerate s = (case from_chars_int64 s of
      None \<Rightarrow> None
    | Some (parsed, rest) \<Rightarrow> if rest \<noteq> '''' then None else normalize_requested_framerate parsed)"

datatype initial_route_e = Route_reject | Route_plaintext | Route_encrypted

definition choose_initial_route :: "bool \<Rightarrow> bool \<Rightarrow> byte list \<Rightarrow> initial_route_e" where
  "choose_initial_route plaintext_available encrypted_available first_word =
     (if encrypted_available \<and> bit (first_word ! 0) 7 then Route_encrypted
      else if plaintext_available then Route_plaintext else Route_reject)"

lemma to_int32_id: "- 2147483648 \<le> x \<Longrightarrow> x \<le> 2147483647 \<Longrightarrow> to_int32 x = x"
  by (simp add: to_int32_def)

text \<open> A requested frame rate is accepted exactly in the range whose rounded capture rate is 1 to 4000;
  the casts to 32 bits lose nothing, the capture rate is the request or its millihertz reading rounded
  to the nearest, and the encoding rate is the request in millihertz.
\<close>

theorem framerate_normalized:
  "(normalize_requested_framerate r = None \<longleftrightarrow> r \<le> 0 \<or> 4000500 \<le> r) \<and>
   (\<forall>n. normalize_requested_framerate r = Some n \<longrightarrow>
      1 \<le> nf_capture_framerate n \<and> nf_capture_framerate n \<le> 4000 \<and>
      nf_encoding_framerate n = (if r > 1000 then r else r * 1000) \<and> nf_encoding_framerate n \<le> 4000499 \<and>
      (if r \<le> 4000 then nf_capture_framerate n = r
       else \<bar>1000 * nf_capture_framerate n - r\<bar> \<le> 500))"
proof (cases "r \<le> 0 \<or> r > 2147483647")
  case True
  then show ?thesis by (auto simp: normalize_requested_framerate_def)
next
  case False
  define cap where "cap = (if r > 4000 then (r + 500) div 1000 else r)"
  have cap: "cap > 0" "cap > 4000 \<longleftrightarrow> 4000500 \<le> r" "4000 < r \<Longrightarrow> \<bar>1000 * cap - r\<bar> \<le> 500"
    using False by (auto simp: cap_def)
  have eq: "normalize_requested_framerate r = (if cap > 4000 then None
      else Some \<lparr>nf_capture_framerate = to_int32 cap, nf_encoding_framerate = to_int32 (if r > 1000 then r else r * 1000)\<rparr>)"
    using False cap(1) by (simp add: normalize_requested_framerate_def Let_def cap_def MAX_CAPTURE_FRAMERATE_def)
  show ?thesis
  proof (cases "cap > 4000")
    case True
    then show ?thesis using eq cap(2) by simp
  next
    case small: False
    then have "to_int32 cap = cap" "to_int32 (if r > 1000 then r else r * 1000) = (if r > 1000 then r else r * 1000)"
      using False cap by (auto intro!: to_int32_id)
    then have eq2: "normalize_requested_framerate r =
        Some \<lparr>nf_capture_framerate = cap, nf_encoding_framerate = (if r > 1000 then r else r * 1000)\<rparr>"
      using eq small by simp
    moreover have "r \<le> 4000499" using small cap(2) by simp
    ultimately show ?thesis using small cap False by (auto simp: cap_def)
  qed
qed


section \<open>Witnesses\<close>

definition demo_uuid :: "string \<Rightarrow> uuid" where
  "demo_uuid tail = ''00000000-0000-0000-0000-00000000000'' @ tail"

definition demo_record :: paired_client_record_view_t where
  "demo_record = \<lparr>pr_uuid = demo_uuid ''1'', pr_certificate_identity = [7], pr_enabled = True\<rparr>"

lemma demo_uuid_valid: "valid_paired_client_uuid (demo_uuid ''1'')" "valid_paired_client_uuid (demo_uuid ''2'')"
  by code_simp+

theorem admission_keeps_table_witness:
  "paired_client_state_valid [demo_record] \<and>
   resolve_paired_client [demo_record] [7] = \<lparr>rv_status = Authorized, rv_index = 0\<rparr>"
proof -
  have e: "paired_client_state_valid []" by (simp add: state_valid_iff)
  have "pa_status (admit_paired_client [] [7]) = Append" using e by (simp add: admit_paired_client_def pairing_limits)
  then show ?thesis using admission_keeps_table[OF e, of demo_record "[7]"] demo_uuid_valid by (simp add: demo_record_def)
qed

theorem framerate_normalized_witness:
  "normalize_requested_framerate 59940 = Some \<lparr>nf_capture_framerate = 60, nf_encoding_framerate = 59940\<rparr> \<and>
   \<bar>1000 * (60::int) - 59940\<bar> \<le> 500"
proof -
  have e: "normalize_requested_framerate 59940 = Some \<lparr>nf_capture_framerate = 60, nf_encoding_framerate = 59940\<rparr>" by code_simp
  with framerate_normalized[of 59940] show ?thesis by simp
qed

end
