(* ===== verification/Tls_Identity.thy ===== *)
theory Tls_Identity
  imports Pairing_Policy
begin

text \<open>
  Certificate-bound authorization of transports (\<^verbatim>\<open>src/src/tls_client_identity.cpp\<close>). A
  connection owns its authority object; the store keeps weak references to all of them so that it can
  revoke. Objects live in a heap (\<open>ts_heap\<close>), a connection's context is the address it owns, and a
  weak reference is expired when no connection owns its target. OpenSSL is a parameter: \<open>x509\<close> parses a
  PEM text, \<open>i2d\<close> gives the DER encoding, \<open>verify\<close> checks the chain. The server library's connection
  context is the map \<open>ts_context\<close>; \<open>alive\<close> says whether the connection still exists when the
  context is set.
\<close>

section \<open>Data\<close>

record client_record_view_t =
  cv_uuid :: uuid
  cv_name :: string
  cv_certificate :: "byte list"
  cv_enabled :: bool
  cv_allow_sleep :: bool

record identity_t =
  id_uuid :: uuid
  id_name :: string
  id_allow_sleep :: bool

record 'p authority_t =
  au_identity :: identity_t
  au_certificate :: "byte list"
  au_certificate_identity :: "byte list"
  au_pending_peer :: 'p
  au_authorized :: bool

record authentication_result_t =
  at_identity :: "identity_t option"
  at_error :: "string option"

record 'p store_t =
  ts_heap :: "(nat, 'p authority_t) umap"
  ts_next :: nat
  ts_context :: "(nat, nat) umap"
  ts_authorities :: "nat list"

record 'x crypto_t =
  cy_x509 :: "byte list \<Rightarrow> 'x option"
  cy_i2d :: "'x \<Rightarrow> byte list option"

section \<open>Records\<close>

definition exact_certificate_identity :: "'x crypto_t \<Rightarrow> 'x option \<Rightarrow> byte list option" where
  "exact_certificate_identity cy certificate = (case certificate of
      None \<Rightarrow> None
    | Some x \<Rightarrow> (case cy_i2d cy x of
        None \<Rightarrow> None
      | Some der \<Rightarrow> if der = [] \<or> length der > max_paired_certificate_length then None else Some der))"

fun build_records :: "'x crypto_t \<Rightarrow> client_record_view_t list \<Rightarrow> paired_client_record_view_t list option" where
  "build_records cy [] = Some []"
| "build_records cy (client # clients) =
     (if length (cv_name client) > max_paired_client_name_length \<or> cv_certificate client = [] \<or>
         length (cv_certificate client) > max_paired_certificate_length then None
      else case exact_certificate_identity cy (cy_x509 cy (cv_certificate client)) of
        None \<Rightarrow> None
      | Some identity \<Rightarrow> map_option ((#) \<lparr>pr_uuid = cv_uuid client, pr_certificate_identity = identity, pr_enabled = cv_enabled client\<rparr>)
          (build_records cy clients))"

text \<open>\<open>None\<close> when the function returns false: its callers use the outputs only when it returns true.\<close>

definition build_paired_client_records :: "'x crypto_t \<Rightarrow> client_record_view_t list \<Rightarrow> paired_client_record_view_t list option" where
  "build_paired_client_records cy clients =
     (if length clients > max_paired_clients then None
      else case build_records cy clients of
        None \<Rightarrow> None
      | Some records \<Rightarrow> if paired_client_state_valid records then Some records else None)"

fun enabled_scan :: "uuid \<Rightarrow> uuid set \<Rightarrow> client_record_view_t option \<Rightarrow> client_record_view_t list \<Rightarrow> bool" where
  "enabled_scan u seen match [] = (case match of None \<Rightarrow> False | Some c \<Rightarrow> cv_enabled c)"
| "enabled_scan u seen match (client # clients) =
     (if \<not> valid_paired_client_uuid (cv_uuid client) \<or> length (cv_name client) > max_paired_client_name_length \<or>
         cv_certificate client = [] \<or> length (cv_certificate client) > max_paired_certificate_length \<or> cv_uuid client \<in> seen
      then False
      else enabled_scan u (insert (cv_uuid client) seen) (if cv_uuid client = u then Some client else match) clients)"

definition client_enabled :: "client_record_view_t list \<Rightarrow> uuid \<Rightarrow> bool" where
  "client_enabled clients u \<longleftrightarrow> valid_paired_client_uuid u \<and> length clients \<le> max_paired_clients \<and> enabled_scan u {} None clients"

section \<open>The store\<close>

definition store_init :: "'p store_t" where
  "store_init = \<lparr>ts_heap = [], ts_next = 0, ts_context = [], ts_authorities = []\<rparr>"

definition set_authorized :: "bool \<Rightarrow> nat \<Rightarrow> 'p store_t \<Rightarrow> 'p store_t" where
  "set_authorized b a s = (case map_of (ts_heap s) a of
      None \<Rightarrow> s
    | Some au \<Rightarrow> s\<lparr>ts_heap := AList.update a (au\<lparr>au_authorized := b\<rparr>) (ts_heap s)\<rparr>)"

definition expired :: "'p store_t \<Rightarrow> nat \<Rightarrow> bool" where
  "expired s a \<longleftrightarrow> a \<notin> set (map snd (ts_context s))"

text \<open>A request may be null; otherwise it is the number of its connection.\<close>

definition store_reset :: "nat option \<Rightarrow> 'p store_t \<Rightarrow> 'p store_t" where
  "store_reset request s = (case request of
      None \<Rightarrow> s
    | Some c \<Rightarrow>
        (let s1 = (case map_of (ts_context s) c of None \<Rightarrow> s | Some a \<Rightarrow> set_authorized False a s)
         in s1\<lparr>ts_context := AList.delete c (ts_context s1)\<rparr>))"

definition no_identity :: "string \<Rightarrow> authentication_result_t" where
  "no_identity e = \<lparr>at_identity = None, at_error = Some e\<rparr>"

definition authenticate_certificate ::
  "'x crypto_t \<Rightarrow> ('x \<Rightarrow> string option) \<Rightarrow> bool \<Rightarrow> nat option \<Rightarrow> 'x option \<Rightarrow> client_record_view_t list \<Rightarrow> 'p
    \<Rightarrow> 'p store_t \<Rightarrow> authentication_result_t \<times> 'p store_t" where
  "authenticate_certificate cy verify alive request certificate clients pending_peer s0 =
     (let s = store_reset request s0 in
      case (request, certificate) of
        (Some c, Some x) \<Rightarrow>
          (case verify x of
             Some e \<Rightarrow> (no_identity e, s)
           | None \<Rightarrow>
             (case (exact_certificate_identity cy certificate, build_paired_client_records cy clients) of
                (Some presented, Some records) \<Rightarrow>
                  (let resolution = resolve_paired_client records presented in
                   if rv_status resolution \<noteq> Authorized
                   then (no_identity ''Client certificate is not one exact enabled pairing record'', s)
                   else let client = clients ! rv_index resolution;
                            identity = \<lparr>id_uuid = cv_uuid client, id_name = cv_name client, id_allow_sleep = cv_allow_sleep client\<rparr>;
                            a = ts_next s;
                            s1 = s\<lparr>ts_heap := AList.update a \<lparr>au_identity = identity, au_certificate = cv_certificate client,
                                     au_certificate_identity = presented, au_pending_peer = pending_peer, au_authorized = True\<rparr> (ts_heap s),
                                   ts_next := Suc a,
                                   ts_authorities := filter (\<lambda>e. \<not> expired s e) (ts_authorities s) @ [a],
                                   ts_context := (if alive then AList.update c a (ts_context s) else ts_context s)\<rparr>
                        in if map_of (ts_context s1) c \<noteq> Some a then (no_identity ''TLS connection no longer exists'', s1)
                           else (\<lparr>at_identity = Some identity, at_error = None\<rparr>, s1))
              | _ \<Rightarrow> (no_identity ''Pairing state is invalid or ambiguous'', s)))
      | _ \<Rightarrow> (no_identity ''No client certificate available'', s))"

definition context_authority :: "nat option \<Rightarrow> 'p store_t \<Rightarrow> (nat \<times> 'p authority_t) option" where
  "context_authority request s = (case request of None \<Rightarrow> None | Some c \<Rightarrow>
     (case map_of (ts_context s) c of None \<Rightarrow> None | Some a \<Rightarrow> map_option (Pair a) (map_of (ts_heap s) a)))"

definition store_resolve :: "'x crypto_t \<Rightarrow> nat option \<Rightarrow> client_record_view_t list \<Rightarrow> 'p store_t \<Rightarrow> identity_t option \<times> 'p store_t" where
  "store_resolve cy request clients s = (case context_authority request s of
      None \<Rightarrow> (None, s)
    | Some (a, au) \<Rightarrow>
        if \<not> au_authorized au then (None, s)
        else if \<not> client_enabled clients (id_uuid (au_identity au)) then (None, set_authorized False a s)
        else case find (\<lambda>record. cv_uuid record = id_uuid (au_identity au)) clients of
          None \<Rightarrow> (None, s)
        | Some client \<Rightarrow>
            if cv_certificate client \<noteq> au_certificate au \<and>
               exact_certificate_identity cy (cy_x509 cy (cv_certificate client)) \<noteq> Some (au_certificate_identity au)
            then (None, set_authorized False a s)
            else (Some \<lparr>id_uuid = id_uuid (au_identity au), id_name = cv_name client, id_allow_sleep = cv_allow_sleep client\<rparr>, s))"

definition store_pending_peer :: "nat option \<Rightarrow> 'p store_t \<Rightarrow> 'p option" where
  "store_pending_peer request s = (case context_authority request s of
      None \<Rightarrow> None
    | Some (a, au) \<Rightarrow> if au_authorized au then Some (au_pending_peer au) else None)"

fun revoke_entries :: "uuid \<Rightarrow> nat list \<Rightarrow> 'p store_t \<Rightarrow> nat list \<times> 'p store_t" where
  "revoke_entries u [] s = ([], s)"
| "revoke_entries u (a # as) s =
     (case (if expired s a then None else map_of (ts_heap s) a) of
        None \<Rightarrow> revoke_entries u as s
      | Some au \<Rightarrow>
          if id_uuid (au_identity au) \<noteq> u then (case revoke_entries u as s of (kept, t) \<Rightarrow> (a # kept, t))
          else revoke_entries u as (set_authorized False a s))"

definition store_revoke :: "uuid \<Rightarrow> 'p store_t \<Rightarrow> 'p store_t" where
  "store_revoke u s = (case revoke_entries u (ts_authorities s) s of (kept, t) \<Rightarrow> t\<lparr>ts_authorities := kept\<rparr>)"

definition store_clear :: "'p store_t \<Rightarrow> 'p store_t" where
  "store_clear s = (fold (\<lambda>a t. if expired t a then t else set_authorized False a t) (ts_authorities s) s)\<lparr>ts_authorities := []\<rparr>"

text \<open>A connection goes away and drops the authority it owned.\<close>

definition close_connection :: "nat \<Rightarrow> 'p store_t \<Rightarrow> 'p store_t" where
  "close_connection c s = s\<lparr>ts_context := AList.delete c (ts_context s)\<rparr>"

section \<open>Records: facts\<close>

definition view_ok :: "client_record_view_t \<Rightarrow> bool" where
  "view_ok c \<longleftrightarrow> valid_paired_client_uuid (cv_uuid c) \<and> length (cv_name c) \<le> max_paired_client_name_length \<and>
     cv_certificate c \<noteq> [] \<and> length (cv_certificate c) \<le> max_paired_certificate_length"

lemma enabled_scan_iff:
  "enabled_scan u seen m cs \<longleftrightarrow> list_all view_ok cs \<and> distinct (map cv_uuid cs) \<and> set (map cv_uuid cs) \<inter> seen = {} \<and>
     (case find (\<lambda>c. cv_uuid c = u) cs of Some c \<Rightarrow> cv_enabled c | None \<Rightarrow> (case m of None \<Rightarrow> False | Some c \<Rightarrow> cv_enabled c))"
proof (induction cs arbitrary: seen m)
  case (Cons c cs)
  show ?case
  proof (cases "view_ok c \<and> cv_uuid c \<notin> seen")
    case False
    then show ?thesis by (auto simp: view_ok_def)
  next
    case True
    have absent: "find (\<lambda>c. cv_uuid c = u) cs = None" if "cv_uuid c = u" "u \<notin> cv_uuid ` set cs"
      using that(2) unfolding find_None_iff by (metis imageI)
    have "enabled_scan u seen m (c # cs) = enabled_scan u (insert (cv_uuid c) seen) (if cv_uuid c = u then Some c else m) cs"
      using True by (auto simp: view_ok_def)
    then show ?thesis unfolding Cons.IH using True absent by (auto split: option.splits)
  qed
qed simp

lemma client_enabled_iff:
  "client_enabled cs u \<longleftrightarrow> length cs \<le> 256 \<and> list_all view_ok cs \<and> distinct (map cv_uuid cs) \<and>
     (\<exists>c\<in>set cs. cv_uuid c = u \<and> cv_enabled c)"
proof -
  have f: "(case find (\<lambda>c. cv_uuid c = u) cs of Some c \<Rightarrow> cv_enabled c | None \<Rightarrow> False) \<longleftrightarrow>
      (\<exists>c\<in>set cs. cv_uuid c = u \<and> cv_enabled c)" if d: "distinct (map cv_uuid cs)"
  proof (cases "find (\<lambda>c. cv_uuid c = u) cs")
    case None
    then have "\<forall>c\<in>set cs. cv_uuid c \<noteq> u" unfolding find_None_iff by blast
    then show ?thesis unfolding None by auto
  next
    case (Some c)
    then have c: "c \<in> set cs" "cv_uuid c = u" unfolding find_Some_iff by (metis nth_mem)+
    have "c' = c" if "c' \<in> set cs" "cv_uuid c' = u" for c'
      using d c that unfolding distinct_map inj_on_def by blast
    with c show ?thesis unfolding Some option.case by blast
  qed
  have u: "valid_paired_client_uuid u" if "list_all view_ok cs" "\<exists>c\<in>set cs. cv_uuid c = u \<and> cv_enabled c"
    using that unfolding list_all_iff view_ok_def by blast
  have "client_enabled cs u \<longleftrightarrow> valid_paired_client_uuid u \<and> length cs \<le> 256 \<and> list_all view_ok cs \<and> distinct (map cv_uuid cs) \<and>
      (case find (\<lambda>c. cv_uuid c = u) cs of Some c \<Rightarrow> cv_enabled c | None \<Rightarrow> False)"
    unfolding client_enabled_def enabled_scan_iff max_paired_clients_def option.case Int_empty_right by blast
  with f u show ?thesis by blast
qed


section \<open>The store: invariant\<close>

text \<open>What revocation needs: every authority a connection owns exists, and while it is authorized the
  store still has its weak reference; addresses are fresh.\<close>

definition store_ok :: "'p store_t \<Rightarrow> bool" where
  "store_ok s \<longleftrightarrow> umap_ok (ts_context s) \<and>
     (\<forall>a. map_of (ts_heap s) a \<noteq> None \<longrightarrow> a < ts_next s) \<and>
     (\<forall>c a. map_of (ts_context s) c = Some a \<longrightarrow>
        (\<exists>au. map_of (ts_heap s) a = Some au \<and> (au_authorized au \<longrightarrow> a \<in> set (ts_authorities s))))"

definition unauthorized :: "nat \<Rightarrow> 'p store_t \<Rightarrow> bool" where
  "unauthorized a s \<longleftrightarrow> (\<exists>au. map_of (ts_heap s) a = Some au \<and> \<not> au_authorized au)"

text \<open>The heap only grows, and an object changes only by losing its authorization.\<close>

definition heap_le :: "'p store_t \<Rightarrow> 'p store_t \<Rightarrow> bool" where
  "heap_le s t \<longleftrightarrow> (\<forall>a au. map_of (ts_heap s) a = Some au \<longrightarrow>
     (\<exists>b. map_of (ts_heap t) a = Some (au\<lparr>au_authorized := b\<rparr>) \<and> (b \<longrightarrow> au_authorized au)))"

lemma heap_le_refl [simp]: "heap_le s s"
  unfolding heap_le_def by (metis authority_t.surjective authority_t.update_convs(5))

lemma heap_le_trans:
  assumes "heap_le s t" "heap_le t r"
  shows "heap_le s r"
  unfolding heap_le_def
proof (intro allI impI)
  fix a au assume "map_of (ts_heap s) a = Some au"
  then obtain b where b: "map_of (ts_heap t) a = Some (au\<lparr>au_authorized := b\<rparr>)" "b \<longrightarrow> au_authorized au"
    using assms(1) unfolding heap_le_def by blast
  then obtain d where d: "map_of (ts_heap r) a = Some (au\<lparr>au_authorized := b\<rparr>\<lparr>au_authorized := d\<rparr>)"
      "d \<longrightarrow> au_authorized (au\<lparr>au_authorized := b\<rparr>)"
    using assms(2) unfolding heap_le_def by blast
  then show "\<exists>b. map_of (ts_heap r) a = Some (au\<lparr>au_authorized := b\<rparr>) \<and> (b \<longrightarrow> au_authorized au)" using b by auto
qed

lemma heap_le_unauthorized: "heap_le s t \<Longrightarrow> unauthorized a s \<Longrightarrow> unauthorized a t"
  unfolding heap_le_def unauthorized_def by fastforce

lemma set_authorized_frame [simp]:
  "ts_context (set_authorized b a s) = ts_context s" "ts_next (set_authorized b a s) = ts_next s"
  "ts_authorities (set_authorized b a s) = ts_authorities s" "expired (set_authorized b a s) = expired s"
  by (simp_all add: set_authorized_def expired_def fun_eq_iff split: option.split)

lemma set_authorized_lookup:
  "map_of (ts_heap (set_authorized b a s)) x = (if x = a then map_option (\<lambda>au. au\<lparr>au_authorized := b\<rparr>) (map_of (ts_heap s) a)
     else map_of (ts_heap s) x)"
  by (simp add: set_authorized_def split: option.split)

lemma heap_le_revoke: "heap_le s (set_authorized False a s)"
proof -
  have "\<exists>b. map_of (ts_heap (set_authorized False a s)) x = Some (au\<lparr>au_authorized := b\<rparr>) \<and> (b \<longrightarrow> au_authorized au)"
    if "map_of (ts_heap s) x = Some au" for x au
  proof (cases "x = a")
    case True
    then have "map_of (ts_heap (set_authorized False a s)) x = Some (au\<lparr>au_authorized := False\<rparr>)"
      using that by (simp add: set_authorized_lookup)
    then show ?thesis by blast
  next
    case False
    then have "map_of (ts_heap (set_authorized False a s)) x = Some (au\<lparr>au_authorized := au_authorized au\<rparr>)"
      using that by (simp add: set_authorized_lookup)
    then show ?thesis by blast
  qed
  then show ?thesis unfolding heap_le_def by blast
qed

lemma store_okD:
  assumes "store_ok s"
  shows "umap_ok (ts_context s)" "map_of (ts_heap s) a = Some au \<Longrightarrow> a < ts_next s"
    "map_of (ts_context s) c = Some a \<Longrightarrow> \<exists>au. map_of (ts_heap s) a = Some au \<and> (au_authorized au \<longrightarrow> a \<in> set (ts_authorities s))"
  using assms unfolding store_ok_def by blast+

lemma store_okI:
  assumes "umap_ok (ts_context s)" "\<And>a au. map_of (ts_heap s) a = Some au \<Longrightarrow> a < ts_next s"
    "\<And>c a. map_of (ts_context s) c = Some a \<Longrightarrow>
      \<exists>au. map_of (ts_heap s) a = Some au \<and> (au_authorized au \<longrightarrow> a \<in> set (ts_authorities s))"
  shows "store_ok s"
  using assms unfolding store_ok_def by blast

lemma store_ok_unauthorize:
  assumes "store_ok s"
  shows "store_ok (set_authorized False a s)"
proof (rule store_okI)
  show "umap_ok (ts_context (set_authorized False a s))" using store_okD(1)[OF assms] by simp
  show "x < ts_next (set_authorized False a s)" if "map_of (ts_heap (set_authorized False a s)) x = Some au" for x au
    using that store_okD(2)[OF assms] by (auto simp: set_authorized_lookup split: if_splits)
  show "\<exists>au. map_of (ts_heap (set_authorized False a s)) x = Some au \<and>
      (au_authorized au \<longrightarrow> x \<in> set (ts_authorities (set_authorized False a s)))"
    if h: "map_of (ts_context (set_authorized False a s)) c = Some x" for c x
  proof -
    obtain au where "map_of (ts_heap s) x = Some au" "au_authorized au \<longrightarrow> x \<in> set (ts_authorities s)"
      using store_okD(3)[OF assms, of c x] h by auto
    then show ?thesis by (cases "x = a") (simp_all add: set_authorized_lookup)
  qed
qed

lemma store_ok_context:
  assumes "store_ok s"
  shows "store_ok (s\<lparr>ts_context := AList.delete c (ts_context s)\<rparr>)"
  using assms unfolding store_ok_def by auto

lemma store_ok_reset: "store_ok s \<Longrightarrow> store_ok (store_reset r s)"
  unfolding store_reset_def Let_def
  by (auto split: option.split intro: store_ok_context store_ok_context[OF store_ok_unauthorize, simplified])

lemma heap_le_context [simp]:
  "heap_le s (t\<lparr>ts_context := x\<rparr>) = heap_le s t" "heap_le s (t\<lparr>ts_authorities := y\<rparr>) = heap_le s t"
  by (simp_all add: heap_le_def)

lemma heap_le_reset: "heap_le s (store_reset r s)"
  by (auto simp: store_reset_def Let_def heap_le_revoke split: option.split)

lemma reset_frame: "ts_next (store_reset r s) = ts_next s" "ts_authorities (store_reset r s) = ts_authorities s"
  by (auto simp: store_reset_def Let_def split: option.split)


lemma build_records_nth:
  "build_records cy cs = Some rs \<Longrightarrow> length rs = length cs \<and> (\<forall>i<length cs. pr_uuid (rs ! i) = cv_uuid (cs ! i) \<and>
     pr_enabled (rs ! i) = cv_enabled (cs ! i) \<and>
     exact_certificate_identity cy (cy_x509 cy (cv_certificate (cs ! i))) = Some (pr_certificate_identity (rs ! i)))"
proof (induction cs arbitrary: rs)
  case (Cons c cs)
  then obtain identity rs' where r: "exact_certificate_identity cy (cy_x509 cy (cv_certificate c)) = Some identity"
    "build_records cy cs = Some rs'" "rs = \<lparr>pr_uuid = cv_uuid c, pr_certificate_identity = identity, pr_enabled = cv_enabled c\<rparr> # rs'"
    by (auto split: if_splits option.splits)
  from Cons.IH[OF r(2)] r(1,3) show ?case by (auto simp: nth_Cons split: nat.split)
qed simp

text \<open>When an authentication succeeds, and what it leaves behind.\<close>

definition authenticates :: "'x crypto_t \<Rightarrow> ('x \<Rightarrow> string option) \<Rightarrow> bool \<Rightarrow> nat option \<Rightarrow> 'x option \<Rightarrow> client_record_view_t list
    \<Rightarrow> identity_t \<Rightarrow> bool" where
  "authenticates cy verify alive request certificate clients identity \<longleftrightarrow> alive \<and> request \<noteq> None \<and>
     (\<exists>x der records i. certificate = Some x \<and> verify x = None \<and> exact_certificate_identity cy (Some x) = Some der \<and>
        build_paired_client_records cy clients = Some records \<and> i < length clients \<and>
        exact_certificate_identity cy (cy_x509 cy (cv_certificate (clients ! i))) = Some der \<and> cv_enabled (clients ! i) \<and>
        identity = \<lparr>id_uuid = cv_uuid (clients ! i), id_name = cv_name (clients ! i), id_allow_sleep = cv_allow_sleep (clients ! i)\<rparr>)"

definition granted :: "nat \<Rightarrow> identity_t \<Rightarrow> 'p \<Rightarrow> 'p store_t \<Rightarrow> bool" where
  "granted c identity peer t \<longleftrightarrow> (\<exists>a au. map_of (ts_context t) c = Some a \<and> map_of (ts_heap t) a = Some au \<and>
     au_identity au = identity \<and> au_pending_peer au = peer \<and> au_authorized au)"

lemma build_paired_Some:
  "build_paired_client_records cy clients = Some records \<Longrightarrow> build_records cy clients = Some records \<and> paired_client_state_valid records"
  by (auto simp: build_paired_client_records_def split: if_splits option.splits)

lemma store_ok_grant:
  assumes ok: "store_ok s"
  shows "store_ok (s\<lparr>ts_heap := AList.update (ts_next s) au (ts_heap s), ts_next := Suc (ts_next s),
      ts_authorities := filter (\<lambda>e. \<not> expired s e) (ts_authorities s) @ [ts_next s],
      ts_context := (if alive then AList.update c (ts_next s) (ts_context s) else ts_context s)\<rparr>)" (is "store_ok ?t")
proof (rule store_okI)
  show "umap_ok (ts_context ?t)" using store_okD(1)[OF ok] by simp
  show "x < ts_next ?t" if "map_of (ts_heap ?t) x = Some v" for x v
    using that store_okD(2)[OF ok] less_Suc_eq by (auto split: if_splits)
  show "\<exists>v. map_of (ts_heap ?t) x = Some v \<and> (au_authorized v \<longrightarrow> x \<in> set (ts_authorities ?t))"
    if h: "map_of (ts_context ?t) d = Some x" for d x
  proof (cases "x = ts_next s")
    case False
    then have d: "map_of (ts_context s) d = Some x" using h by (auto split: if_splits)
    obtain v where v: "map_of (ts_heap s) x = Some v" "au_authorized v \<longrightarrow> x \<in> set (ts_authorities s)"
      using store_okD(3)[OF ok d] by blast
    have "x \<in> set (map snd (ts_context s))" using map_of_SomeD[OF d] by force
    then have "\<not> expired s x" by (simp add: expired_def)
    with v False show ?thesis by auto
  qed auto
qed

lemma heap_le_new:
  assumes "\<And>a au. map_of (ts_heap s) a = Some au \<Longrightarrow> a < ts_next s"
  shows "heap_le s (s\<lparr>ts_heap := AList.update (ts_next s) v (ts_heap s), ts_next := n, ts_authorities := as, ts_context := ctx\<rparr>)"
  unfolding heap_le_def
proof (intro allI impI)
  fix a au assume h: "map_of (ts_heap s) a = Some au"
  then have "a \<noteq> ts_next s" using assms by blast
  with h have "map_of (AList.update (ts_next s) v (ts_heap s)) a = Some (au\<lparr>au_authorized := au_authorized au\<rparr>)" by simp
  then show "\<exists>b. map_of (ts_heap (s\<lparr>ts_heap := AList.update (ts_next s) v (ts_heap s), ts_next := n, ts_authorities := as,
      ts_context := ctx\<rparr>)) a = Some (au\<lparr>au_authorized := b\<rparr>) \<and> (b \<longrightarrow> au_authorized au)"
    by (intro exI[of _ "au_authorized au"]) simp
qed

text \<open>Authentication in one step: it fails after the reset, or it creates the authority.\<close>

lemma authenticate_cases:
  fixes s0 :: "'p store_t" and request :: "nat option"
  defines "s \<equiv> store_reset request s0"
  obtains (refused) e where "authenticate_certificate cy verify alive request certificate clients peer s0 = (no_identity e, s)"
      "\<And>identity. \<not> authenticates cy verify alive request certificate clients identity"
    | (resolved) c identity cert der where "request = Some c"
      "alive \<longleftrightarrow> authenticates cy verify alive request certificate clients identity"
      "\<And>i. authenticates cy verify alive request certificate clients i \<Longrightarrow> i = identity"
      "authenticate_certificate cy verify alive request certificate clients peer s0 =
        (if alive then \<lparr>at_identity = Some identity, at_error = None\<rparr> else no_identity ''TLS connection no longer exists'',
         s\<lparr>ts_heap := AList.update (ts_next s) \<lparr>au_identity = identity, au_certificate = cert,
              au_certificate_identity = der, au_pending_peer = peer, au_authorized = True\<rparr> (ts_heap s),
           ts_next := Suc (ts_next s), ts_authorities := filter (\<lambda>e. \<not> expired s e) (ts_authorities s) @ [ts_next s],
           ts_context := (if alive then AList.update c (ts_next s) (ts_context s) else ts_context s)\<rparr>)"
proof -
  show ?thesis
  proof (cases "\<exists>c x der records. request = Some c \<and> certificate = Some x \<and> verify x = None \<and>
      exact_certificate_identity cy (Some x) = Some der \<and> build_paired_client_records cy clients = Some records \<and>
      rv_status (resolve_paired_client records der) = Authorized")
    case False
    have "\<exists>e. authenticate_certificate cy verify alive request certificate clients peer s0 = (no_identity e, s)"
      using False by (auto simp: authenticate_certificate_def s_def Let_def split: option.split)
    moreover have "\<not> authenticates cy verify alive request certificate clients identity" for identity
    proof
      assume "authenticates cy verify alive request certificate clients identity"
      then obtain c x der records i where h: "request = Some c" "certificate = Some x" "verify x = None"
        "exact_certificate_identity cy (Some x) = Some der" "build_paired_client_records cy clients = Some records" "i < length clients"
        "exact_certificate_identity cy (cy_x509 cy (cv_certificate (clients ! i))) = Some der" "cv_enabled (clients ! i)"
        unfolding authenticates_def by blast
      note b = build_paired_Some[OF h(5)]
      note n = build_records_nth[OF conjunct1[OF b]]
      have "rv_status (resolve_paired_client records der) = Authorized"
        using resolve_authorized_iff[of records der i] b n h(6,7,8) by auto
      with False h show False by blast
    qed
    ultimately show ?thesis using refused by blast
  next
    case True
    then obtain c x der records where h: "request = Some c" "certificate = Some x" "verify x = None"
      "exact_certificate_identity cy (Some x) = Some der" "build_paired_client_records cy clients = Some records"
      and auth: "rv_status (resolve_paired_client records der) = Authorized" by blast
    note b = build_paired_Some[OF h(5)]
    note n = build_records_nth[OF conjunct1[OF b]]
    define i where "i = rv_index (resolve_paired_client records der)"
    have i: "i < length clients" "pr_certificate_identity (records ! i) = der" "cv_enabled (clients ! i)"
      using resolve_authorized_iff[of records der i] auth n by (auto simp: i_def)
    let ?id = "\<lparr>id_uuid = cv_uuid (clients ! i), id_name = cv_name (clients ! i), id_allow_sleep = cv_allow_sleep (clients ! i)\<rparr>"
    have "authenticate_certificate cy verify alive request certificate clients peer s0 =
        (if alive then \<lparr>at_identity = Some ?id, at_error = None\<rparr> else no_identity ''TLS connection no longer exists'',
         s\<lparr>ts_heap := AList.update (ts_next s) \<lparr>au_identity = ?id, au_certificate = cv_certificate (clients ! i),
              au_certificate_identity = der, au_pending_peer = peer, au_authorized = True\<rparr> (ts_heap s),
           ts_next := Suc (ts_next s), ts_authorities := filter (\<lambda>e. \<not> expired s e) (ts_authorities s) @ [ts_next s],
           ts_context := (if alive then AList.update c (ts_next s) (ts_context s) else ts_context s)\<rparr>)"
      using h auth by (simp add: authenticate_certificate_def s_def Let_def i_def store_reset_def split: option.split)
    moreover have "alive \<longleftrightarrow> authenticates cy verify alive request certificate clients ?id"
      unfolding authenticates_def using h i n by auto
    moreover have "identity = ?id" if au: "authenticates cy verify alive request certificate clients identity" for identity
    proof -
      obtain j where j: "j < length clients" "exact_certificate_identity cy (cy_x509 cy (cv_certificate (clients ! j))) = Some der"
        "cv_enabled (clients ! j)"
        "identity = \<lparr>id_uuid = cv_uuid (clients ! j), id_name = cv_name (clients ! j), id_allow_sleep = cv_allow_sleep (clients ! j)\<rparr>"
        using au h unfolding authenticates_def by auto
      then have "rv_index (resolve_paired_client records der) = j"
        using resolve_authorized_iff[of records der j] b n by auto
      with j show ?thesis by (simp add: i_def)
    qed
    ultimately show ?thesis using resolved[OF h(1)] by blast
  qed
qed


lemma authenticate_store:
  assumes "store_ok s0"
  shows "store_ok (snd (authenticate_certificate cy verify alive request certificate clients peer s0)) \<and>
    heap_le s0 (snd (authenticate_certificate cy verify alive request certificate clients peer s0))"
proof -
  let ?s = "store_reset request s0"
  note ok = store_ok_reset[OF assms, of request]
  have le: "heap_le ?s (?s\<lparr>ts_heap := AList.update (ts_next ?s) v (ts_heap ?s), ts_next := n, ts_authorities := as, ts_context := ctx\<rparr>)"
    for v n as ctx by (rule heap_le_new[OF store_okD(2)[OF ok]])
  show ?thesis
  proof (cases rule: authenticate_cases[of cy verify alive request certificate clients peer s0])
    case (refused e)
    show ?thesis unfolding refused(1) snd_conv using ok heap_le_reset by blast
  next
    case (resolved c identity cert der)
    show ?thesis unfolding resolved(4) snd_conv using store_ok_grant[OF ok] heap_le_trans[OF heap_le_reset le] by blast
  qed
qed

lemma resolve_store:
  "store_ok s \<Longrightarrow> store_ok (snd (store_resolve cy request clients s)) \<and> heap_le s (snd (store_resolve cy request clients s))"
  by (auto simp: store_resolve_def store_ok_unauthorize heap_le_revoke split: option.split prod.split)

text \<open>Revocation: every authority of the client that some connection owns is unauthorized afterwards, and
  the references dropped are those of the client or expired ones.\<close>

lemma revoke_entries_facts:
  assumes "revoke_entries u as s = (kept, t)"
  shows "ts_context t = ts_context s \<and> ts_next t = ts_next s \<and> heap_le s t \<and>
    (\<forall>x. map_of (ts_heap t) x = None \<longleftrightarrow> map_of (ts_heap s) x = None) \<and>
    (\<forall>a\<in>set as. \<forall>au. \<not> expired s a \<longrightarrow> map_of (ts_heap s) a = Some au \<longrightarrow>
       (if id_uuid (au_identity au) = u then unauthorized a t else a \<in> set kept))"
  using assms
proof (induction u as s arbitrary: kept t rule: revoke_entries.induct)
  case (2 u a as s)
  show ?case
  proof (cases "expired s a \<or> map_of (ts_heap s) a = None")
    case True
    then have n: "(if expired s a then None else map_of (ts_heap s) a) = None" by auto
    then have "revoke_entries u as s = (kept, t)" using 2(4) by simp
    from 2(1)[OF n this] True show ?thesis by auto
  next
    case False
    then obtain au where au: "map_of (ts_heap s) a = Some au" "\<not> expired s a" by auto
    show ?thesis
    proof (cases "id_uuid (au_identity au) = u")
      case True
      then have r: "revoke_entries u as (set_authorized False a s) = (kept, t)" using 2(4) au by simp
      note ih = 2(3)[OF _ _ r, of au]
      have "unauthorized a (set_authorized False a s)" using au by (simp add: unauthorized_def set_authorized_lookup)
      moreover have facts: "ts_context t = ts_context s \<and> ts_next t = ts_next s \<and> heap_le (set_authorized False a s) t \<and>
          (\<forall>x. map_of (ts_heap t) x = None \<longleftrightarrow> map_of (ts_heap s) x = None) \<and>
          (\<forall>b\<in>set as. \<forall>v. \<not> expired s b \<longrightarrow> map_of (ts_heap (set_authorized False a s)) b = Some v \<longrightarrow>
             (if id_uuid (au_identity v) = u then unauthorized b t else b \<in> set kept))"
        using ih au True by (auto simp: set_authorized_lookup)
      ultimately have ua: "unauthorized a t" using heap_le_unauthorized by blast
      have "if id_uuid (au_identity v) = u then unauthorized b t else b \<in> set kept"
        if b: "b \<in> set as" "\<not> expired s b" "map_of (ts_heap s) b = Some v" for b v
      proof (cases "b = a")
        case True
        then show ?thesis using ua b au \<open>id_uuid (au_identity au) = u\<close> by simp
      next
        case False
        then have "map_of (ts_heap (set_authorized False a s)) b = Some v" using b by (simp add: set_authorized_lookup)
        then show ?thesis using facts b by blast
      qed
      then show ?thesis using facts ua au True heap_le_trans[OF heap_le_revoke] by auto
    next
      case ne: False
      obtain k' where r: "revoke_entries u as s = (k', t)" "kept = a # k'" using 2(4) au ne by (auto split: prod.splits)
      note ih = 2(2)[OF _ ne r(1)]
      show ?thesis using ih au ne r(2) by auto
    qed
  qed
qed simp

lemma revoke_store:
  assumes "store_ok s"
  shows "store_ok (store_revoke u s) \<and> heap_le s (store_revoke u s)"
proof -
  obtain kept t where r: "revoke_entries u (ts_authorities s) s = (kept, t)" by (cases "revoke_entries u (ts_authorities s) s")
  note f = revoke_entries_facts[OF r]
  have t: "store_revoke u s = t\<lparr>ts_authorities := kept\<rparr>" by (simp add: store_revoke_def r)
  have "store_ok (t\<lparr>ts_authorities := kept\<rparr>)"
  proof (rule store_okI)
    show "umap_ok (ts_context (t\<lparr>ts_authorities := kept\<rparr>))" using f store_okD(1)[OF assms] by simp
    show "x < ts_next (t\<lparr>ts_authorities := kept\<rparr>)" if "map_of (ts_heap (t\<lparr>ts_authorities := kept\<rparr>)) x = Some v" for x v
    proof -
      have "(map_of (ts_heap t) x = None) = (map_of (ts_heap s) x = None)" using f by blast
      then have "map_of (ts_heap s) x \<noteq> None" using that by simp
      then show ?thesis using f store_okD(2)[OF assms] by auto
    qed
    show "\<exists>v. map_of (ts_heap (t\<lparr>ts_authorities := kept\<rparr>)) a = Some v \<and>
        (au_authorized v \<longrightarrow> a \<in> set (ts_authorities (t\<lparr>ts_authorities := kept\<rparr>)))"
      if h: "map_of (ts_context (t\<lparr>ts_authorities := kept\<rparr>)) c = Some a" for c a
    proof -
      have c: "map_of (ts_context s) c = Some a" using h f by simp
      obtain au where au: "map_of (ts_heap s) a = Some au" "au_authorized au \<longrightarrow> a \<in> set (ts_authorities s)"
        using store_okD(3)[OF assms c] by blast
      obtain b where b: "map_of (ts_heap t) a = Some (au\<lparr>au_authorized := b\<rparr>)" "b \<longrightarrow> au_authorized au"
        using f au(1) unfolding heap_le_def by blast
      have "a \<in> set (map snd (ts_context s))" using map_of_SomeD[OF c] by force
      then have live: "\<not> expired s a" by (simp add: expired_def)
      have "a \<in> set kept" if "b"
      proof (cases "id_uuid (au_identity au) = u")
        case True
        then have "unauthorized a t" using f au b(2) that live by auto
        then show ?thesis using b(1) that by (simp add: unauthorized_def)
      next
        case False
        then show ?thesis using f au b(2) that live by auto
      qed
      then show ?thesis using b(1) by simp
    qed
  qed
  then show ?thesis using f by (simp add: t)
qed

lemma clear_loop:
  fixes s :: "'p store_t"
  defines "L \<equiv> \<lambda>a t. if expired t a then t else set_authorized False a (t :: 'p store_t)"
  shows "ts_context (fold L as s) = ts_context s \<and> ts_next (fold L as s) = ts_next s \<and> heap_le s (fold L as s) \<and>
    (store_ok s \<longrightarrow> store_ok (fold L as s)) \<and>
    (\<forall>a\<in>set as. \<not> expired s a \<longrightarrow> map_of (ts_heap s) a \<noteq> None \<longrightarrow> unauthorized a (fold L as s))"
proof (induction as arbitrary: s)
  case (Cons a as)
  note ih = Cons.IH[of "L a s"]
  have step: "ts_context (L a s) = ts_context s" "ts_next (L a s) = ts_next s" "heap_le s (L a s)" "expired (L a s) = expired s"
    "store_ok s \<Longrightarrow> store_ok (L a s)"
    by (auto simp: L_def heap_le_revoke store_ok_unauthorize)
  have dom: "map_of (ts_heap s) x \<noteq> None \<Longrightarrow> map_of (ts_heap (L a s)) x \<noteq> None" for x
    by (auto simp: L_def set_authorized_lookup)
  have "unauthorized a (fold L as (L a s))" if "\<not> expired s a" "map_of (ts_heap s) a \<noteq> None"
  proof -
    have "unauthorized a (L a s)" using that by (auto simp: L_def unauthorized_def set_authorized_lookup)
    with ih show ?thesis using heap_le_unauthorized by blast
  qed
  with ih step dom heap_le_trans[OF step(3)] show ?case by auto
qed simp

lemma clear_store:
  assumes "store_ok s"
  shows "store_ok (store_clear s) \<and> heap_le s (store_clear s)"
proof -
  let ?t = "fold (\<lambda>a t. if expired t a then t else set_authorized False a t) (ts_authorities s) s"
  note f = clear_loop[of "ts_authorities s" s]
  have "store_ok (?t\<lparr>ts_authorities := []\<rparr>)"
  proof (rule store_okI)
    show "umap_ok (ts_context (?t\<lparr>ts_authorities := []\<rparr>))" using f store_okD(1)[OF assms] by simp
    show "x < ts_next (?t\<lparr>ts_authorities := []\<rparr>)" if "map_of (ts_heap (?t\<lparr>ts_authorities := []\<rparr>)) x = Some v" for x v
      using that f store_okD(2)[of ?t x v] assms by simp
    show "\<exists>v. map_of (ts_heap (?t\<lparr>ts_authorities := []\<rparr>)) a = Some v \<and>
        (au_authorized v \<longrightarrow> a \<in> set (ts_authorities (?t\<lparr>ts_authorities := []\<rparr>)))"
      if h: "map_of (ts_context (?t\<lparr>ts_authorities := []\<rparr>)) c = Some a" for c a
    proof -
      have c: "map_of (ts_context s) c = Some a" using h f by simp
      obtain au where au: "map_of (ts_heap s) a = Some au" "au_authorized au \<longrightarrow> a \<in> set (ts_authorities s)"
        using store_okD(3)[OF assms c] by blast
      have "a \<in> set (map snd (ts_context s))" using map_of_SomeD[OF c] by force
      then have live: "\<not> expired s a" by (simp add: expired_def)
      have "unauthorized a ?t"
      proof (cases "au_authorized au")
        case True
        then show ?thesis using f au live by simp
      next
        case False
        then have "unauthorized a s" using au by (simp add: unauthorized_def)
        then show ?thesis using f heap_le_unauthorized by blast
      qed
      then show ?thesis by (auto simp: unauthorized_def)
    qed
  qed
  then show ?thesis using f by (simp add: store_clear_def)
qed


section \<open>The store as a transition system\<close>

inductive store_step :: "'x crypto_t \<Rightarrow> 'p store_t \<Rightarrow> 'p store_t \<Rightarrow> bool" for cy where
  authenticate: "store_step cy s (snd (authenticate_certificate cy verify alive request certificate clients peer s))"
| resolve: "store_step cy s (snd (store_resolve cy request clients s))"
| reset: "store_step cy s (store_reset request s)"
| revoke: "store_step cy s (store_revoke u s)"
| clear: "store_step cy s (store_clear s)"
| close: "store_step cy s (close_connection c s)"

lemma step_store:
  assumes "store_step cy s t" "store_ok s"
  shows "store_ok t \<and> heap_le s t"
  using assms(1)
proof cases
  case (authenticate verify alive request certificate clients peer)
  show ?thesis unfolding authenticate by (rule authenticate_store[OF assms(2)])
next
  case (resolve request clients)
  show ?thesis unfolding resolve by (rule resolve_store[OF assms(2)])
next
  case (reset request)
  show ?thesis unfolding reset using store_ok_reset[OF assms(2)] heap_le_reset by blast
next
  case (revoke u)
  show ?thesis unfolding revoke by (rule revoke_store[OF assms(2)])
next
  case clear
  show ?thesis unfolding clear by (rule clear_store[OF assms(2)])
next
  case (close c)
  show ?thesis unfolding close close_connection_def using store_ok_context[OF assms(2)] by simp
qed

text \<open>The store is a transition system with a latch for every authority: once unauthorized, it stays so.\<close>

interpretation tls: latch_system "\<lambda>s. s = store_init" "store_step cy" store_ok "unauthorized a" for cy a
proof unfold_locales
  show "store_ok s" if "s = store_init" for s :: "'a store_t" using that by (simp add: store_init_def store_ok_def)
  show "store_ok t" if "store_ok s" "store_step cy s t" for s t :: "'a store_t" using step_store[OF that(2,1)] by blast
  show "unauthorized a t" if "store_ok s" "store_step cy s t" "unauthorized a s" for s t :: "'a store_t"
    using step_store[OF that(2,1)] that(3) heap_le_unauthorized by blast
qed

section \<open>Properties\<close>

text \<open>
  (C4) A transport is authenticated exactly when its connection still exists, its certificate verifies,
  the whole pairing table is valid and the certificate's exact encoding is that of an enabled record,
  whose identity it then gets; otherwise an error is reported and the connection owns no authority.
\<close>

theorem authentication_exact:
  "(at_identity (fst (authenticate_certificate cy verify alive request certificate clients peer s)) = Some identity \<longleftrightarrow>
     alive \<and> request \<noteq> None \<and>
     (\<exists>x der records i. certificate = Some x \<and> verify x = None \<and> exact_certificate_identity cy (Some x) = Some der \<and>
        build_paired_client_records cy clients = Some records \<and> i < length clients \<and>
        exact_certificate_identity cy (cy_x509 cy (cv_certificate (clients ! i))) = Some der \<and> cv_enabled (clients ! i) \<and>
        identity = \<lparr>id_uuid = cv_uuid (clients ! i), id_name = cv_name (clients ! i), id_allow_sleep = cv_allow_sleep (clients ! i)\<rparr>)) \<and>
   (at_identity (fst (authenticate_certificate cy verify alive (Some c) certificate clients peer s)) = None \<longleftrightarrow>
     map_of (ts_context (snd (authenticate_certificate cy verify alive (Some c) certificate clients peer s))) c = None) \<and>
   (at_identity (fst (authenticate_certificate cy verify alive request certificate clients peer s)) = None \<longleftrightarrow>
     at_error (fst (authenticate_certificate cy verify alive request certificate clients peer s)) \<noteq> None)"
proof -
  let ?r = "fst (authenticate_certificate cy verify alive request certificate clients peer s)"
  have 1: "at_identity ?r = Some identity \<longleftrightarrow> authenticates cy verify alive request certificate clients identity"
  proof (cases rule: authenticate_cases[of cy verify alive request certificate clients peer s])
    case (refused e)
    then show ?thesis by (simp add: no_identity_def)
  next
    case (resolved c i cert der)
    have "at_identity ?r = (if alive then Some i else None)" unfolding resolved(4) by (simp add: no_identity_def)
    moreover have "alive" if "authenticates cy verify alive request certificate clients identity"
      using that unfolding authenticates_def by blast
    ultimately show ?thesis using resolved(2) resolved(3)[of identity] by auto
  qed
  have 2: "at_identity (fst (authenticate_certificate cy verify alive (Some c) certificate clients peer s)) = None \<longleftrightarrow>
      map_of (ts_context (snd (authenticate_certificate cy verify alive (Some c) certificate clients peer s))) c = None"
  proof (cases rule: authenticate_cases[of cy verify alive "Some c" certificate clients peer s])
    case (refused e)
    show ?thesis unfolding refused(1) by (simp add: no_identity_def store_reset_def Let_def)
  next
    case (resolved d i cert der)
    then have "d = c" by simp
    have gone: "map_of (ts_context (store_reset (Some c) s)) c = None" by (simp add: store_reset_def Let_def)
    show ?thesis unfolding resolved(4) using \<open>d = c\<close> gone by (simp add: no_identity_def)
  qed
  have 3: "at_identity ?r = None \<longleftrightarrow> at_error ?r \<noteq> None"
  proof (cases rule: authenticate_cases[of cy verify alive request certificate clients peer s])
    case (refused e)
    show ?thesis unfolding refused(1) by (simp add: no_identity_def)
  next
    case (resolved c i cert der)
    show ?thesis unfolding resolved(4) by (simp add: no_identity_def)
  qed
  from 1 2 3 show ?thesis unfolding authenticates_def by blast
qed

lemma resolve_Some:
  assumes "fst (store_resolve cy (Some c) clients s) = Some identity"
  shows "\<exists>a au client. map_of (ts_context s) c = Some a \<and> map_of (ts_heap s) a = Some au \<and> au_authorized au \<and>
    client \<in> set clients \<and> client_enabled clients (cv_uuid client) \<and> cv_uuid client = id_uuid (au_identity au) \<and>
    (cv_certificate client = au_certificate au \<or>
     exact_certificate_identity cy (cy_x509 cy (cv_certificate client)) = Some (au_certificate_identity au)) \<and>
    identity = \<lparr>id_uuid = cv_uuid client, id_name = cv_name client, id_allow_sleep = cv_allow_sleep client\<rparr>"
proof -
  obtain a au client where h: "map_of (ts_context s) c = Some a" "map_of (ts_heap s) a = Some au" "au_authorized au"
    "client_enabled clients (id_uuid (au_identity au))"
    "find (\<lambda>record. cv_uuid record = id_uuid (au_identity au)) clients = Some client"
    "cv_certificate client = au_certificate au \<or>
     exact_certificate_identity cy (cy_x509 cy (cv_certificate client)) = Some (au_certificate_identity au)"
    "identity = \<lparr>id_uuid = id_uuid (au_identity au), id_name = cv_name client, id_allow_sleep = cv_allow_sleep client\<rparr>"
    using assms by (auto simp: store_resolve_def context_authority_def split: option.splits if_splits)
  have "client \<in> set clients \<and> cv_uuid client = id_uuid (au_identity au)"
    using h(5) unfolding find_Some_iff by (metis nth_mem)
  with h show ?thesis by metis
qed

text \<open> Revocation is immediate and final: after \<^verbatim>\<open>revoke\<close>, in every later state, a connection
  that still owns an authority it had for that client is no longer resolved, and after
  \<^verbatim>\<open>clear\<close> no connection is resolved by the authority it owned, until it authenticates again.
\<close>

theorem revocation_final:
  assumes reach: "(store_step cy)\<^sup>*\<^sup>* store_init s"
    and owned: "map_of (ts_context s) c = Some a" "map_of (ts_heap s) a = Some au"
    and revoked: "(s1 = store_revoke (id_uuid (au_identity au)) s) \<or> s1 = store_clear s"
    and later: "(store_step cy)\<^sup>*\<^sup>* s1 s2" "map_of (ts_context s2) c = Some a"
  shows "fst (store_resolve cy (Some c) clients s2) = None \<and> store_pending_peer (Some c) s2 = None"
proof -
  have ok: "store_ok s" using tls.reach_inv[OF refl reach] .
  have "a \<in> set (map snd (ts_context s))" using map_of_SomeD[OF owned(1)] by force
  then have live: "\<not> expired s a" by (simp add: expired_def)
  have un: "unauthorized a s1"
  proof (cases "au_authorized au")
    case False
    then have "unauthorized a s" using owned(2) by (simp add: unauthorized_def)
    moreover have "heap_le s s1" using revoked revoke_store[OF ok] clear_store[OF ok] by blast
    ultimately show ?thesis using heap_le_unauthorized by blast
  next
    case True
    then have listed: "a \<in> set (ts_authorities s)" using store_okD(3)[OF ok owned(1)] owned(2) by auto
    show ?thesis
    proof (cases "s1 = store_clear s")
      case True
      then show ?thesis using clear_loop[of "ts_authorities s" s] listed live owned(2)
        by (auto simp: store_clear_def unauthorized_def)
    next
      case False
      obtain kept t where r: "revoke_entries (id_uuid (au_identity au)) (ts_authorities s) s = (kept, t)"
        by (cases "revoke_entries (id_uuid (au_identity au)) (ts_authorities s) s")
      have "unauthorized a t" using revoke_entries_facts[OF r] listed live owned(2) by auto
      then show ?thesis using False revoked r by (simp add: store_revoke_def unauthorized_def)
    qed
  qed
  have ok1: "store_ok s1" using revoked revoke_store[OF ok] clear_store[OF ok] by blast
  have "unauthorized a s2" by (rule tls.steps_latch[OF later(1) ok1 un])
  then show ?thesis using later(2)
    by (auto simp: unauthorized_def store_resolve_def store_pending_peer_def context_authority_def)
qed


section \<open>Witnesses\<close>

definition demo_crypto :: "byte list crypto_t" where
  "demo_crypto = \<lparr>cy_x509 = (\<lambda>b. if b = [] then None else Some b), cy_i2d = Some\<rparr>"

definition demo_view :: client_record_view_t where
  "demo_view = \<lparr>cv_uuid = demo_uuid ''1'', cv_name = ''phone'', cv_certificate = [7], cv_enabled = True, cv_allow_sleep = False\<rparr>"

definition demo_store :: "unit store_t" where
  "demo_store = snd (authenticate_certificate demo_crypto (\<lambda>_. None) True (Some 1) (Some [7]) [demo_view] () store_init)"

abbreviation demo_authority :: "unit authority_t" where
  "demo_authority \<equiv> \<lparr>au_identity = \<lparr>id_uuid = demo_uuid ''1'', id_name = ''phone'', id_allow_sleep = False\<rparr>,
     au_certificate = [7], au_certificate_identity = [7], au_pending_peer = (), au_authorized = True\<rparr>"

lemma demo_identity: "exact_certificate_identity demo_crypto (Some [7]) = Some [7]" "cy_x509 demo_crypto [7] = Some [7]"
  by (simp_all add: demo_crypto_def exact_certificate_identity_def pairing_limits)

lemma demo_table:
  "build_paired_client_records demo_crypto [demo_view] =
     Some [\<lparr>pr_uuid = demo_uuid ''1'', pr_certificate_identity = [7], pr_enabled = True\<rparr>]"
  "resolve_paired_client [\<lparr>pr_uuid = demo_uuid ''1'', pr_certificate_identity = [7], pr_enabled = True\<rparr>] [7] =
     \<lparr>rv_status = Authorized, rv_index = 0\<rparr>"
  "client_enabled [demo_view] (demo_uuid ''1'')"
  using demo_uuid_valid
  by (simp_all add: build_paired_client_records_def demo_identity demo_view_def pairing_limits state_valid_iff record_ok_def
      resolve_paired_client_def client_enabled_iff view_ok_def)

lemma demo_store_eq:
  "demo_store = \<lparr>ts_heap = [(0, demo_authority)], ts_next = 1, ts_context = [(1, 0)], ts_authorities = [0]\<rparr>"
  by (simp add: demo_store_def authenticate_certificate_def store_reset_def store_init_def Let_def demo_identity demo_table demo_view_def[symmetric])
    (simp add: demo_view_def)

lemma demo_store_facts:
  "map_of (ts_context demo_store) 1 = Some 0" "map_of (ts_heap demo_store) 0 = Some demo_authority"
  "map_of (ts_context (store_revoke (demo_uuid ''1'') demo_store)) 1 = Some 0"
  by (simp_all add: demo_store_eq store_revoke_def expired_def set_authorized_def)

theorem revocation_final_witness:
  "fst (store_resolve demo_crypto (Some 1) [demo_view] demo_store) \<noteq> None \<and>
   fst (store_resolve demo_crypto (Some 1) [demo_view] (store_revoke (demo_uuid ''1'') demo_store)) = None"
proof
  show "fst (store_resolve demo_crypto (Some 1) [demo_view] demo_store) \<noteq> None"
    using demo_table by (simp add: store_resolve_def context_authority_def demo_store_eq) (simp add: demo_view_def)
  have r: "(store_step demo_crypto)\<^sup>*\<^sup>* store_init demo_store"
    unfolding demo_store_def by (rule r_into_rtranclp) (rule store_step.authenticate)
  from revocation_final[OF r demo_store_facts(1,2), of "store_revoke (demo_uuid ''1'') demo_store"
      "store_revoke (demo_uuid ''1'') demo_store"] demo_store_facts(3)
  show "fst (store_resolve demo_crypto (Some 1) [demo_view] (store_revoke (demo_uuid ''1'') demo_store)) = None" by simp
qed

end
