(* ===== verification/Client_Registry.thy ===== *)
theory Client_Registry
  imports Tls_Identity Topology_Layout
begin

text \<open>
  The registry of paired clients (\<^verbatim>\<open>client_root\<close> of \<^verbatim>\<open>src/src/nvhttp.cpp\<close>) together
  with the transport authorization it controls: pairing, enabling and disabling, unpairing one client or
  all. Every operation runs under \<^verbatim>\<open>client_mutex\<close>, so it is one function. Parameters of an
  operation (\<open>registry_env\<close>) are the host activity guard, the configuration flag, whether the durable
  state is loaded, and the write of the state file. The saved display layout is kept as its parsed value.
  Ending the streams of a revoked client is the stream server's work and not part of this state.
\<close>

section \<open>Data\<close>

record named_cert_t =
  nc_name :: string
  nc_uuid :: uuid
  nc_cert :: "byte list"
  nc_hdr_profile :: string
  nc_display_mode :: string
  nc_output_name_override :: string
  nc_virtual_display_mode_override :: string
  nc_virtual_display_layout_override :: string
  nc_always_use_virtual_display :: bool
  nc_requested_resolution_only :: bool
  nc_enabled :: bool
  nc_allow_sleep :: bool
  nc_prefer_10bit_sdr :: bool
  nc_last_seen :: "int option"
  nc_config_overrides :: "(string, string) umap"

record client_t =
  ct_named_devices :: "named_cert_t list"
  ct_remote_display_layout :: layout_t

record ('x, 'p) registry_state =
  rg_client_root :: client_t
  rg_cert_chain :: "'x list"
  rg_identities :: "'p store_t"

record registry_env =
  re_activity :: bool
  re_fresh_state :: bool
  re_state_ready :: bool
  re_write_state :: "client_t \<Rightarrow> bool"

section \<open>Operations\<close>

definition client_record_views :: "client_t \<Rightarrow> client_record_view_t list" where
  "client_record_views client = map (\<lambda>r. \<lparr>cv_uuid = nc_uuid r, cv_name = nc_name r, cv_certificate = nc_cert r,
     cv_enabled = nc_enabled r, cv_allow_sleep = nc_allow_sleep r\<rparr>) (ct_named_devices client)"

text \<open>The outcome of \<^verbatim>\<open>save_state_snapshot_locked\<close>: refused while no valid state is loaded.\<close>

definition save_state_snapshot :: "registry_env \<Rightarrow> client_t \<Rightarrow> bool" where
  "save_state_snapshot env client \<longleftrightarrow> re_state_ready env \<and> re_write_state env client"

definition save_state :: "registry_env \<Rightarrow> client_t \<Rightarrow> bool" where
  "save_state env client \<longleftrightarrow> re_fresh_state env \<or> save_state_snapshot env client"

definition with_devices :: "(named_cert_t list \<Rightarrow> named_cert_t list) \<Rightarrow> ('x, 'p) registry_state \<Rightarrow> ('x, 'p) registry_state" where
  "with_devices f r = r\<lparr>rg_client_root := (rg_client_root r)\<lparr>ct_named_devices := f (ct_named_devices (rg_client_root r))\<rparr>\<rparr>"

definition new_named_cert :: "string \<Rightarrow> byte list \<Rightarrow> uuid \<Rightarrow> named_cert_t" where
  "new_named_cert name cert u = \<lparr>nc_name = display_client_name name '''' ''Moonlight Client'', nc_uuid = u, nc_cert = cert,
     nc_hdr_profile = '''', nc_display_mode = '''', nc_output_name_override = '''', nc_virtual_display_mode_override = '''',
     nc_virtual_display_layout_override = '''', nc_always_use_virtual_display = False, nc_requested_resolution_only = False,
     nc_enabled = True, nc_allow_sleep = False, nc_prefer_10bit_sdr = False, nc_last_seen = None, nc_config_overrides = []\<rparr>"

definition add_authorized_client ::
  "'x crypto_t \<Rightarrow> registry_env \<Rightarrow> string \<Rightarrow> byte list \<Rightarrow> uuid \<Rightarrow> ('x, 'p) registry_state \<Rightarrow> bool \<times> ('x, 'p) registry_state" where
  "add_authorized_client cy env name cert generated r =
     (case exact_certificate_identity cy (cy_x509 cy cert) of
        None \<Rightarrow> (False, r)
      | Some candidate \<Rightarrow>
          if \<not> re_fresh_state env \<and> \<not> re_state_ready env then (False, r)
          else case build_paired_client_records cy (client_record_views (rg_client_root r)) of
            None \<Rightarrow> (False, r)
          | Some records \<Rightarrow>
              (let admission = admit_paired_client records candidate in
               case pa_status admission of
                 Reject \<Rightarrow> (False, r)
               | Reauthorize \<Rightarrow>
                   (let i = pa_index admission in
                    if nc_enabled (ct_named_devices (rg_client_root r) ! i) then (True, r)
                    else let r1 = with_devices (\<lambda>ds. ds[i := (ds ! i)\<lparr>nc_enabled := True\<rparr>]) r in
                      if \<not> re_fresh_state env \<and> \<not> save_state_snapshot env (rg_client_root r1)
                      then (False, with_devices (\<lambda>ds. ds[i := (ds ! i)\<lparr>nc_enabled := False\<rparr>]) r1) else (True, r1))
               | Append \<Rightarrow>
                   (let r1 = with_devices (\<lambda>ds. ds @ [new_named_cert name cert generated]) r in
                    if build_paired_client_records cy (client_record_views (rg_client_root r1)) = None
                    then (False, with_devices butlast r1)
                    else if \<not> re_fresh_state env \<and> \<not> save_state_snapshot env (rg_client_root r1)
                    then (False, with_devices butlast r1) else (True, r1))))"

definition revoke_paired_client_access :: "uuid \<Rightarrow> ('x, 'p) registry_state \<Rightarrow> ('x, 'p) registry_state" where
  "revoke_paired_client_access u r = r\<lparr>rg_identities := store_revoke u (rg_identities r)\<rparr>"

text \<open>The first record with the UUID, as the two loops of \<^verbatim>\<open>set_client_enabled\<close> find it.\<close>

fun set_first_enabled :: "uuid \<Rightarrow> bool \<Rightarrow> named_cert_t list \<Rightarrow> named_cert_t list" where
  "set_first_enabled u e [] = []"
| "set_first_enabled u e (d # ds) = (if nc_uuid d = u then d\<lparr>nc_enabled := e\<rparr> # ds else d # set_first_enabled u e ds)"

definition set_client_enabled ::
  "registry_env \<Rightarrow> uuid \<Rightarrow> bool \<Rightarrow> ('x, 'p) registry_state \<Rightarrow> bool \<times> ('x, 'p) registry_state" where
  "set_client_enabled env u enabled r =
     (if \<not> re_activity env \<or> (\<not> re_fresh_state env \<and> \<not> re_state_ready env) then (False, r)
      else case find (\<lambda>d. nc_uuid d = u) (ct_named_devices (rg_client_root r)) of
        None \<Rightarrow> (False, r)
      | Some d \<Rightarrow>
          (let previously_enabled = nc_enabled d;
               r1 = with_devices (set_first_enabled u enabled) r;
               persisted = (re_fresh_state env \<or> save_state_snapshot env (rg_client_root r1));
               r2 = (if \<not> persisted \<and> enabled \<and> \<not> previously_enabled then with_devices (set_first_enabled u False) r1 else r1)
           in (persisted, if \<not> enabled \<or> (\<not> persisted \<and> \<not> previously_enabled) then revoke_paired_client_access u r2 else r2)))"

fun parse_all :: "'x crypto_t \<Rightarrow> client_record_view_t list \<Rightarrow> 'x list" where
  "parse_all cy [] = []"
| "parse_all cy (c # cs) = (case cy_x509 cy (cv_certificate c) of None \<Rightarrow> parse_all cy cs | Some x \<Rightarrow> x # parse_all cy cs)"

definition unpair_registered_client ::
  "'x crypto_t \<Rightarrow> registry_env \<Rightarrow> uuid \<Rightarrow> ('x, 'p) registry_state \<Rightarrow> bool \<times> ('x, 'p) registry_state" where
  "unpair_registered_client cy env u r =
     (if \<not> re_activity env \<or> (\<not> re_fresh_state env \<and> \<not> re_state_ready env) then (False, r)
      else if list_ex (\<lambda>d. nc_uuid d = u) (ct_named_devices (rg_client_root r))
      then let root = \<lparr>ct_named_devices = filter (\<lambda>d. nc_uuid d \<noteq> u) (ct_named_devices (rg_client_root r)),
                       ct_remote_display_layout = remove_client_from_layout (ct_remote_display_layout (rg_client_root r)) u\<rparr>;
               chain = (if build_paired_client_records cy (client_record_views root) = None then []
                        else parse_all cy (client_record_views root));
               r1 = revoke_paired_client_access u (r\<lparr>rg_client_root := root, rg_cert_chain := chain\<rparr>)
           in (save_state env root, r1)
      else (False, r))"

definition erase_all_clients :: "registry_env \<Rightarrow> ('x, 'p) registry_state \<Rightarrow> bool \<times> ('x, 'p) registry_state" where
  "erase_all_clients env r =
     (if \<not> re_activity env \<or> (\<not> re_fresh_state env \<and> \<not> re_state_ready env) then (False, r)
      else let root = \<lparr>ct_named_devices = [], ct_remote_display_layout = []\<rparr> in
        (save_state env root,
         r\<lparr>rg_client_root := root, rg_cert_chain := [], rg_identities := store_clear (rg_identities r)\<rparr>))"


section \<open>The table of paired clients stays valid\<close>

abbreviation reg_views :: "('x, 'p) registry_state \<Rightarrow> client_record_view_t list" where
  "reg_views r \<equiv> client_record_views (rg_client_root r)"

definition table_ok :: "'x crypto_t \<Rightarrow> client_record_view_t list \<Rightarrow> bool" where
  "table_ok cy vs \<longleftrightarrow> build_paired_client_records cy vs \<noteq> None"

text \<open>The table as a condition on its entries.\<close>

definition entry_ok :: "'x crypto_t \<Rightarrow> client_record_view_t \<Rightarrow> bool" where
  "entry_ok cy v \<longleftrightarrow> view_ok v \<and> exact_certificate_identity cy (cy_x509 cy (cv_certificate v)) \<noteq> None"

abbreviation der_of :: "'x crypto_t \<Rightarrow> client_record_view_t \<Rightarrow> byte list" where
  "der_of cy v \<equiv> the (exact_certificate_identity cy (cy_x509 cy (cv_certificate v)))"

lemma build_records_iff:
  "build_records cy vs = (if list_all (\<lambda>v. length (cv_name v) \<le> max_paired_client_name_length \<and> cv_certificate v \<noteq> [] \<and>
       length (cv_certificate v) \<le> max_paired_certificate_length \<and>
       exact_certificate_identity cy (cy_x509 cy (cv_certificate v)) \<noteq> None) vs
     then Some (map (\<lambda>v. \<lparr>pr_uuid = cv_uuid v, pr_certificate_identity = der_of cy v, pr_enabled = cv_enabled v\<rparr>) vs) else None)"
proof (induction vs)
  case (Cons v vs)
  then show ?case
    by (cases "exact_certificate_identity cy (cy_x509 cy (cv_certificate v))") (simp_all add: not_less not_le)
qed simp

lemma exact_identity_bounds:
  "exact_certificate_identity cy x = Some der \<Longrightarrow> der \<noteq> [] \<and> length der \<le> max_paired_certificate_length"
  by (auto simp: exact_certificate_identity_def split: option.splits if_splits)

lemma table_ok_iff:
  "table_ok cy vs \<longleftrightarrow> length vs \<le> 256 \<and> list_all (entry_ok cy) vs \<and> distinct (map cv_uuid vs) \<and> distinct (map (der_of cy) vs)"
proof -
  let ?m = "\<lambda>v. \<lparr>pr_uuid = cv_uuid v, pr_certificate_identity = der_of cy v, pr_enabled = cv_enabled v\<rparr>"
  let ?P = "\<lambda>v. length (cv_name v) \<le> max_paired_client_name_length \<and> cv_certificate v \<noteq> [] \<and>
       length (cv_certificate v) \<le> max_paired_certificate_length \<and>
       exact_certificate_identity cy (cy_x509 cy (cv_certificate v)) \<noteq> None"
  have rec: "record_ok (?m v) \<longleftrightarrow> valid_paired_client_uuid (cv_uuid v)" if "?P v" for v
    using that exact_identity_bounds[of cy "cy_x509 cy (cv_certificate v)"] by (auto simp: record_ok_def)
  have all: "list_all ?P vs \<and> list_all record_ok (map ?m vs) \<longleftrightarrow> list_all (entry_ok cy) vs"
  proof -
    have "(\<lambda>v. ?P v \<and> record_ok (?m v)) = entry_ok cy"
    proof
      show "(?P v \<and> record_ok (?m v)) = entry_ok cy v" for v using rec[of v] by (auto simp: entry_ok_def view_ok_def)
    qed
    moreover have "list_all ?P vs \<and> list_all record_ok (map ?m vs) \<longleftrightarrow> list_all (\<lambda>v. ?P v \<and> record_ok (?m v)) vs"
      by (induction vs) auto
    ultimately show ?thesis by simp
  qed
  have "table_ok cy vs \<longleftrightarrow> length vs \<le> 256 \<and> list_all ?P vs \<and> paired_client_state_valid (map ?m vs)"
    unfolding table_ok_def build_paired_client_records_def build_records_iff max_paired_clients_def
    by (simp split: option.split)
  also have "\<dots> \<longleftrightarrow> length vs \<le> 256 \<and> (list_all ?P vs \<and> list_all record_ok (map ?m vs)) \<and>
      distinct (map cv_uuid vs) \<and> distinct (map (der_of cy) vs)"
    unfolding state_valid_iff by (simp add: o_def) blast
  finally show ?thesis unfolding all .
qed

lemma views_simps:
  "reg_views (with_devices f r) = client_record_views ((rg_client_root r)\<lparr>ct_named_devices := f (ct_named_devices (rg_client_root r))\<rparr>)"
  "map cv_uuid (client_record_views c) = map nc_uuid (ct_named_devices c)"
  by (simp_all add: with_devices_def client_record_views_def)

lemma map_key_cong:
  assumes "map k vs = map k ws" and key: "\<And>v w. k v = k w \<Longrightarrow> g v = g w"
  shows "map g vs = map g ws"
  using assms(1)
proof (induction vs ws rule: list_induct2')
  case (4 x xs y ys)
  then have k: "k x = k y" "map k xs = map k ys" by simp_all
  from key[OF k(1)] 4(1)[OF k(2)] show ?case by simp
qed simp_all

lemma table_ok_same:
  fixes vs ws :: "client_record_view_t list"
  assumes "map (\<lambda>v. (cv_uuid v, cv_name v, cv_certificate v)) vs = map (\<lambda>v. (cv_uuid v, cv_name v, cv_certificate v)) ws"
  shows "table_ok cy vs = table_ok cy ws"
proof -
  have e: "map (entry_ok cy) vs = map (entry_ok cy) ws" by (rule map_key_cong[OF assms]) (simp add: entry_ok_def view_ok_def)
  have u: "map cv_uuid vs = map cv_uuid ws" by (rule map_key_cong[OF assms]) simp
  have d: "map (der_of cy) vs = map (der_of cy) ws" by (rule map_key_cong[OF assms]) simp
  have l: "length vs = length ws" using arg_cong[OF assms, of length] by simp
  have la: "list_all (entry_ok cy) xs = list_all id (map (entry_ok cy) xs)" for xs by (simp add: list.pred_map)
  show ?thesis unfolding table_ok_iff la e u d l by (rule refl)
qed

lemma table_ok_filter: "table_ok cy vs \<Longrightarrow> table_ok cy (filter P vs)"
  unfolding table_ok_iff by (auto simp: list_all_iff distinct_map_filter intro: le_trans[OF length_filter_le])

lemma set_first_enabled_keeps:
  "map (\<lambda>d. (nc_uuid d, nc_name d, nc_cert d)) (set_first_enabled u e ds) = map (\<lambda>d. (nc_uuid d, nc_name d, nc_cert d)) ds"
  by (induction ds) auto

lemma table_ok_devices:
  assumes "map (\<lambda>d. (nc_uuid d, nc_name d, nc_cert d)) (f (ct_named_devices (rg_client_root r))) =
    map (\<lambda>d. (nc_uuid d, nc_name d, nc_cert d)) (ct_named_devices (rg_client_root r))"
  shows "table_ok cy (reg_views (with_devices f r)) = table_ok cy (reg_views r)"
  by (rule table_ok_same) (use assms in \<open>simp add: with_devices_def client_record_views_def o_def\<close>)


section \<open>Outcomes of the operations\<close>

lemma with_devices_frame [simp]:
  "rg_identities (with_devices f r) = rg_identities r" "rg_cert_chain (with_devices f r) = rg_cert_chain r"
  "ct_named_devices (rg_client_root (with_devices f r)) = f (ct_named_devices (rg_client_root r))"
  by (simp_all add: with_devices_def)

lemma with_devices_id: "f (ct_named_devices (rg_client_root r)) = ct_named_devices (rg_client_root r) \<Longrightarrow> with_devices f r = r"
  by (simp add: with_devices_def)

lemma with_devices_comp: "with_devices g (with_devices f r) = with_devices (g \<circ> f) r"
  by (simp add: with_devices_def)

lemma length_views [simp]: "length (client_record_views c) = length (ct_named_devices c)"
  by (simp add: client_record_views_def)

text \<open>Pairing keeps the table valid, and a failed pairing changes nothing.\<close>

lemma add_outcome:
  assumes "table_ok cy (reg_views r)"
  shows "table_ok cy (reg_views (snd (add_authorized_client cy env name cert u r))) \<and>
    rg_identities (snd (add_authorized_client cy env name cert u r)) = rg_identities r \<and>
    (\<not> fst (add_authorized_client cy env name cert u r) \<longrightarrow> snd (add_authorized_client cy env name cert u r) = r)"
proof (cases "exact_certificate_identity cy (cy_x509 cy cert) = None \<or> (\<not> re_fresh_state env \<and> \<not> re_state_ready env)")
  case True
  then show ?thesis using assms by (auto simp: add_authorized_client_def split: option.split)
next
  case False
  then obtain der where der: "exact_certificate_identity cy (cy_x509 cy cert) = Some der" by auto
  obtain records where rec: "build_paired_client_records cy (reg_views r) = Some records" using assms by (auto simp: table_ok_def)
  have len: "length records = length (ct_named_devices (rg_client_root r))"
    using build_records_nth[OF conjunct1[OF build_paired_Some[OF rec]]] by simp
  define ad where "ad = admit_paired_client records der"
  note unf = add_authorized_client_def der option.case if_not_P[OF iffD1[OF de_Morgan_disj False, THEN conjunct2]] rec Let_def ad_def[symmetric]
  show ?thesis
  proof (cases "pa_status ad")
    case Append
    let ?r1 = "with_devices (\<lambda>ds. ds @ [new_named_cert name cert u]) r"
    have undo: "with_devices butlast ?r1 = r" unfolding with_devices_comp by (rule with_devices_id) simp
    show ?thesis unfolding unf Append using assms undo by (auto simp: table_ok_def)
  next
    case Reauthorize
    define i where "i = pa_index ad"
    have i: "i < length (ct_named_devices (rg_client_root r))"
      using Reauthorize len find_certificate_Some[of der records]
      by (auto simp: i_def ad_def admit_paired_client_def split: if_splits option.splits)
    let ?r1 = "with_devices (\<lambda>ds. ds[i := (ds ! i)\<lparr>nc_enabled := True\<rparr>]) r"
    have t1: "table_ok cy (reg_views ?r1)"
      using table_ok_devices[of "\<lambda>ds. ds[i := (ds ! i)\<lparr>nc_enabled := True\<rparr>]" r cy] assms i
      by (simp add: map_update list_update_same_conv)
    have undo: "with_devices (\<lambda>ds. ds[i := (ds ! i)\<lparr>nc_enabled := False\<rparr>]) ?r1 = r"
      if "\<not> nc_enabled (ct_named_devices (rg_client_root r) ! i)"
      unfolding with_devices_comp by (rule with_devices_id) (use that i in \<open>simp add: list_update_same_conv\<close>)
    show ?thesis unfolding unf Reauthorize i_def[symmetric] using assms t1 undo by auto
  next
    case Reject
    then show ?thesis unfolding unf using assms by simp
  qed
qed

lemma set_first_enabled_same:
  "find (\<lambda>d. nc_uuid d = u) ds = Some d \<Longrightarrow> nc_enabled d = e \<Longrightarrow> set_first_enabled u e ds = ds"
  by (induction ds) (auto split: if_splits)

lemma set_first_enabled_twice: "set_first_enabled u e (set_first_enabled u e' ds) = set_first_enabled u e ds"
  by (induction ds) auto

lemma set_enabled_outcome:
  fixes r :: "('x, 'p) registry_state"
  shows "table_ok cy (reg_views (snd (set_client_enabled env u e r))) = table_ok cy (reg_views r)"
    and "\<not> fst (set_client_enabled env u e r) \<Longrightarrow> e \<Longrightarrow> rg_client_root (snd (set_client_enabled env u e r)) = rg_client_root r"
    and "rg_identities (snd (set_client_enabled env u e r)) \<in> {rg_identities r, store_revoke u (rg_identities r)}"
proof -
  have same: "table_ok cy (reg_views (with_devices (set_first_enabled u b) q)) = table_ok cy (reg_views q)"
    for b and q :: "('x, 'p) registry_state"
    by (rule table_ok_devices) (rule set_first_enabled_keeps)
  show "table_ok cy (reg_views (snd (set_client_enabled env u e r))) = table_ok cy (reg_views r)"
    by (simp add: set_client_enabled_def Let_def revoke_paired_client_access_def same split: option.split)
  show "rg_identities (snd (set_client_enabled env u e r)) \<in> {rg_identities r, store_revoke u (rg_identities r)}"
    by (simp add: set_client_enabled_def Let_def revoke_paired_client_access_def split: option.split)
  assume fail: "\<not> fst (set_client_enabled env u e r)" "e"
  show "rg_client_root (snd (set_client_enabled env u e r)) = rg_client_root r"
  proof (cases "find (\<lambda>d. nc_uuid d = u) (ct_named_devices (rg_client_root r))")
    case None
    then show ?thesis by (simp add: set_client_enabled_def)
  next
    case (Some d)
    have "with_devices (set_first_enabled u False) (with_devices (set_first_enabled u True) r) = r" if "\<not> nc_enabled d"
      unfolding with_devices_comp
      by (rule with_devices_id) (use that Some in \<open>simp add: set_first_enabled_twice set_first_enabled_same\<close>)
    moreover have "with_devices (set_first_enabled u True) r = r" if "nc_enabled d"
      by (rule with_devices_id) (use that Some in \<open>simp add: set_first_enabled_same\<close>)
    ultimately show ?thesis using fail Some
      by (auto simp: set_client_enabled_def Let_def revoke_paired_client_access_def split: if_splits)
  qed
qed

lemma unpair_outcome:
  assumes "table_ok cy (reg_views r)"
  shows "table_ok cy (reg_views (snd (unpair_registered_client cy env u r))) \<and>
    rg_identities (snd (unpair_registered_client cy env u r)) \<in> {rg_identities r, store_revoke u (rg_identities r)}"
proof -
  have "client_record_views \<lparr>ct_named_devices = filter (\<lambda>d. nc_uuid d \<noteq> u) ds, ct_remote_display_layout = l\<rparr> =
      filter (\<lambda>v. cv_uuid v \<noteq> u) (client_record_views \<lparr>ct_named_devices = ds, ct_remote_display_layout = l'\<rparr>)" for ds l l'
    by (induction ds) (simp_all add: client_record_views_def)
  moreover have "client_record_views \<lparr>ct_named_devices = ct_named_devices (rg_client_root r), ct_remote_display_layout = l\<rparr> = reg_views r" for l
    by (simp add: client_record_views_def)
  ultimately have "table_ok cy (client_record_views \<lparr>ct_named_devices = filter (\<lambda>d. nc_uuid d \<noteq> u) (ct_named_devices (rg_client_root r)),
      ct_remote_display_layout = l\<rparr>)" for l
    using table_ok_filter[OF assms] by metis
  with assms show ?thesis by (simp add: unpair_registered_client_def Let_def revoke_paired_client_access_def)
qed

section \<open>The registry as a transition system\<close>

inductive registry_step :: "'x crypto_t \<Rightarrow> ('x, 'p) registry_state \<Rightarrow> ('x, 'p) registry_state \<Rightarrow> bool" for cy where
  add: "registry_step cy r (snd (add_authorized_client cy env name cert u r))"
| enable: "registry_step cy r (snd (set_client_enabled env u e r))"
| unpair: "registry_step cy r (snd (unpair_registered_client cy env u r))"
| erase_all: "registry_step cy r (snd (erase_all_clients env r))"
| chain: "registry_step cy r (r\<lparr>rg_cert_chain := xs\<rparr>)"
| transport: "store_step cy (rg_identities r) t \<Longrightarrow> registry_step cy r (r\<lparr>rg_identities := t\<rparr>)"

definition registry_ok :: "'x crypto_t \<Rightarrow> ('x, 'p) registry_state \<Rightarrow> bool" where
  "registry_ok cy r \<longleftrightarrow> table_ok cy (reg_views r) \<and> store_ok (rg_identities r)"

lemma registry_step_store:
  assumes "registry_step cy r t" "registry_ok cy r"
  shows "registry_ok cy t \<and> heap_le (rg_identities r) (rg_identities t)"
proof -
  have tab: "table_ok cy (reg_views r)" and st: "store_ok (rg_identities r)" using assms(2) by (simp_all add: registry_ok_def)
  have keep: "x \<in> {rg_identities r, store_revoke u (rg_identities r)} \<Longrightarrow> store_ok x \<and> heap_le (rg_identities r) x" for x u
    using st revoke_store[OF st] by auto
  from assms(1) show ?thesis
  proof cases
    case (add env name cert u)
    then show ?thesis using add_outcome[OF tab] st by (simp add: registry_ok_def)
  next
    case (enable env u e)
    then show ?thesis using set_enabled_outcome(1,3) tab keep unfolding registry_ok_def by blast
  next
    case (unpair env u)
    then show ?thesis using unpair_outcome[OF tab] keep unfolding registry_ok_def by blast
  next
    case (erase_all env)
    have "table_ok cy []" by (simp add: table_ok_iff)
    then have "table_ok cy (client_record_views \<lparr>ct_named_devices = [], ct_remote_display_layout = []\<rparr>)"
      by (simp add: client_record_views_def)
    then show ?thesis using erase_all tab st clear_store[OF st] by (simp add: erase_all_clients_def Let_def registry_ok_def)
  next
    case (chain xs)
    then show ?thesis using tab st by (simp add: registry_ok_def)
  next
    case (transport s)
    then show ?thesis using tab step_store[OF transport(2) st] by (simp add: registry_ok_def)
  qed
qed

interpretation registry: latch_system
  "\<lambda>r. table_ok cy (reg_views r) \<and> rg_identities r = store_init" "registry_step cy" "registry_ok cy" "\<lambda>r. unauthorized a (rg_identities r)"
  for cy a
proof unfold_locales
  show "registry_ok cy r" if "table_ok cy (reg_views r) \<and> rg_identities r = store_init" for r :: "('a, 'b) registry_state"
    using that by (simp add: registry_ok_def store_ok_def store_init_def)
  show "registry_ok cy t" if "registry_ok cy r" "registry_step cy r t" for r t :: "('a, 'b) registry_state"
    using registry_step_store[OF that(2,1)] by blast
  show "unauthorized a (rg_identities t)" if "registry_ok cy r" "registry_step cy r t" "unauthorized a (rg_identities r)"
    for r t :: "('a, 'b) registry_state"
    using registry_step_store[OF that(2,1)] that(3) heap_le_unauthorized by blast
qed


section \<open>Properties\<close>

text \<open>
  (C36) The table of paired clients is never ambiguous: whatever sequence of pairings, toggles, removals
  and transports, it holds at most 256 clients with distinct UUIDs and distinct certificates, every
  certificate parses, and removing a client rebuilds the accepted chain from exactly the clients left,
  so the branch that would deny everybody is not reached.
\<close>

theorem registry_table_valid:
  assumes "table_ok cy (reg_views r0)" "rg_identities r0 = store_init" and reach: "(registry_step cy)\<^sup>*\<^sup>* r0 r"
  shows "length (ct_named_devices (rg_client_root r)) \<le> 256 \<and> distinct (map nc_uuid (ct_named_devices (rg_client_root r))) \<and>
    distinct (map (\<lambda>d. exact_certificate_identity cy (cy_x509 cy (nc_cert d))) (ct_named_devices (rg_client_root r))) \<and>
    list_all (\<lambda>d. exact_certificate_identity cy (cy_x509 cy (nc_cert d)) \<noteq> None) (ct_named_devices (rg_client_root r)) \<and>
    (re_activity env \<and> (re_fresh_state env \<or> re_state_ready env) \<and> u \<in> set (map nc_uuid (ct_named_devices (rg_client_root r))) \<longrightarrow>
       rg_cert_chain (snd (unpair_registered_client cy env u r)) = parse_all cy (reg_views (snd (unpair_registered_client cy env u r))))"
proof -
  have ok: "table_ok cy (reg_views r)" using registry.reach_inv[OF _ reach] assms(1,2) by (simp add: registry_ok_def)
  let ?ds = "ct_named_devices (rg_client_root r)" and ?id = "\<lambda>d. exact_certificate_identity cy (cy_x509 cy (nc_cert d))"
  have t: "length ?ds \<le> 256" "distinct (map nc_uuid ?ds)" "list_all (\<lambda>d. ?id d \<noteq> None) ?ds" "distinct (map (\<lambda>d. the (?id d)) ?ds)"
    using ok unfolding table_ok_iff client_record_views_def list.pred_map by (simp_all add: o_def entry_ok_def list_all_iff)
  have "inj_on ?id (set ?ds)"
  proof (rule inj_onI)
    fix d e assume "d \<in> set ?ds" "e \<in> set ?ds" "?id d = ?id e"
    with t(4) show "d = e" unfolding distinct_map by (metis inj_onD)
  qed
  then have "distinct (map ?id ?ds)" using t(2) unfolding distinct_map by blast
  moreover have "rg_cert_chain (snd (unpair_registered_client cy env u r)) = parse_all cy (reg_views (snd (unpair_registered_client cy env u r)))"
    if "re_activity env" "re_fresh_state env \<or> re_state_ready env" "u \<in> set (map nc_uuid ?ds)"
  proof -
    have "list_ex (\<lambda>d. nc_uuid d = u) ?ds" using that(3) by (auto simp: list_ex_iff)
    moreover have "table_ok cy (reg_views (snd (unpair_registered_client cy env u r)))" using unpair_outcome[OF ok] by blast
    ultimately show ?thesis using that(1,2)
      by (auto simp: unpair_registered_client_def Let_def revoke_paired_client_access_def table_ok_def)
  qed
  ultimately show ?thesis using t by blast
qed

text \<open>The client with this UUID was taken out: disabled or unpaired.\<close>

definition taken_out :: "'x crypto_t \<Rightarrow> registry_env \<Rightarrow> uuid \<Rightarrow> ('x, 'p) registry_state \<Rightarrow> ('x, 'p) registry_state \<Rightarrow> bool" where
  "taken_out cy env u r t \<longleftrightarrow> re_activity env \<and> (re_fresh_state env \<or> re_state_ready env) \<and>
     u \<in> set (map nc_uuid (ct_named_devices (rg_client_root r))) \<and>
     (t = snd (set_client_enabled env u False r) \<or> t = snd (unpair_registered_client cy env u r))"

lemma set_first_disabled:
  "e \<in> set (set_first_enabled u False ds) \<Longrightarrow> distinct (map nc_uuid ds) \<Longrightarrow> nc_uuid e = u \<Longrightarrow> \<not> nc_enabled e"
proof (induction ds)
  case (Cons d ds)
  show ?case
  proof (cases "nc_uuid d = u")
    case True
    then have "u \<notin> nc_uuid ` set ds" using Cons.prems(2) by auto
    then have "e \<notin> set ds" using Cons.prems(3) by blast
    then show ?thesis using True Cons.prems(1) by simp
  next
    case False
    then have "e \<noteq> d" using Cons.prems(3) by blast
    then show ?thesis using False Cons by simp
  qed
qed simp

lemma taken_out_facts:
  assumes "taken_out cy env u r t" "table_ok cy (reg_views r)"
  shows "rg_identities t = store_revoke u (rg_identities r) \<and> \<not> client_enabled (reg_views t) u"
proof -
  let ?ds = "ct_named_devices (rg_client_root r)"
  have env: "\<not> (\<not> re_activity env \<or> (\<not> re_fresh_state env \<and> \<not> re_state_ready env))" and u: "u \<in> set (map nc_uuid ?ds)"
    using assms(1) by (auto simp: taken_out_def)
  have d: "distinct (map nc_uuid ?ds)" using assms(2) unfolding table_ok_iff views_simps by blast
  consider "t = snd (set_client_enabled env u False r)" | "t = snd (unpair_registered_client cy env u r)"
    using assms(1) by (auto simp: taken_out_def)
  then show ?thesis
  proof cases
    case 1
    obtain x where x: "find (\<lambda>d. nc_uuid d = u) ?ds = Some x"
      using u by (cases "find (\<lambda>d. nc_uuid d = u) ?ds") (auto simp: find_None_iff)
    have "snd (set_client_enabled env u False r) = revoke_paired_client_access u (with_devices (set_first_enabled u False) r)"
      unfolding set_client_enabled_def if_not_P[OF env] x option.case Let_def by simp
    with 1 have t: "t = revoke_paired_client_access u (with_devices (set_first_enabled u False) r)" by (rule trans)
    have ds: "ct_named_devices (rg_client_root t) = set_first_enabled u False ?ds" by (simp add: t revoke_paired_client_access_def)
    have "\<not> (\<exists>c\<in>set (reg_views t). cv_uuid c = u \<and> cv_enabled c)"
    proof
      assume "\<exists>c\<in>set (reg_views t). cv_uuid c = u \<and> cv_enabled c"
      then obtain e where "e \<in> set (set_first_enabled u False ?ds)" "nc_uuid e = u" "nc_enabled e"
        unfolding client_record_views_def ds by auto
      with set_first_disabled[OF _ d] show False by blast
    qed
    moreover have "rg_identities t = store_revoke u (rg_identities r)" by (simp add: t revoke_paired_client_access_def)
    ultimately show ?thesis unfolding client_enabled_iff by blast
  next
    case 2
    have "list_ex (\<lambda>d. nc_uuid d = u) ?ds" using u by (auto simp: list_ex_iff)
    then have t: "rg_identities t = store_revoke u (rg_identities r)"
      "ct_named_devices (rg_client_root t) = filter (\<lambda>d. nc_uuid d \<noteq> u) ?ds"
      using 2 env by (auto simp: unpair_registered_client_def Let_def revoke_paired_client_access_def)
    have "\<not> (\<exists>c\<in>set (reg_views t). cv_uuid c = u)" unfolding client_record_views_def t(2) by auto
    then show ?thesis unfolding client_enabled_iff using t by blast
  qed
qed

text \<open>
  (C3) Disabling or unpairing a client cuts it off at once and for good: no request of any connection
  is resolved to it right after, and a connection that was authorized as that client is refused in every
  later state, even after the client is enabled or paired again, until it authenticates anew.
\<close>

theorem revoked_client_denied:
  assumes "table_ok cy (reg_views r0)" "rg_identities r0 = store_init" and reach: "(registry_step cy)\<^sup>*\<^sup>* r0 r"
    and out: "taken_out cy env u r t"
    and owned: "map_of (ts_context (rg_identities r)) c = Some a" "map_of (ts_heap (rg_identities r)) a = Some au"
      "id_uuid (au_identity au) = u"
    and later: "(registry_step cy)\<^sup>*\<^sup>* t r2" "map_of (ts_context (rg_identities r2)) c = Some a"
  shows "fst (store_resolve cy (Some c) (reg_views r2) (rg_identities r2)) = None \<and>
    (\<forall>d identity. fst (store_resolve cy (Some d) (reg_views t) (rg_identities t)) = Some identity \<longrightarrow> id_uuid identity \<noteq> u)"
proof
  have ok: "registry_ok cy r" using registry.reach_inv[OF _ reach] assms(1,2) by blast
  then have st: "store_ok (rg_identities r)" and tab: "table_ok cy (reg_views r)" by (simp_all add: registry_ok_def)
  note f = taken_out_facts[OF out tab]
  have okt: "registry_ok cy t"
    using out registry_step_store[OF registry_step.enable ok, of env u False] registry_step_store[OF registry_step.unpair ok, of env u]
    unfolding taken_out_def by blast
  have "a \<in> set (map snd (ts_context (rg_identities r)))" using map_of_SomeD[OF owned(1)] by force
  then have live: "\<not> expired (rg_identities r) a" by (simp add: expired_def)
  obtain kept s where rv: "revoke_entries u (ts_authorities (rg_identities r)) (rg_identities r) = (kept, s)"
    by (cases "revoke_entries u (ts_authorities (rg_identities r)) (rg_identities r)")
  have "unauthorized a (rg_identities t)"
  proof (cases "au_authorized au")
    case True
    then have "a \<in> set (ts_authorities (rg_identities r))" using store_okD(3)[OF st owned(1)] owned(2) by auto
    then have "unauthorized a s" using revoke_entries_facts[OF rv] live owned(2,3) by auto
    then show ?thesis using f rv by (simp add: store_revoke_def unauthorized_def)
  next
    case False
    then have "unauthorized a (rg_identities r)" using owned(2) by (simp add: unauthorized_def)
    then show ?thesis using f revoke_store[OF st] heap_le_unauthorized by metis
  qed
  from registry.steps_latch[OF later(1) okt this] have "unauthorized a (rg_identities r2)" .
  then show "fst (store_resolve cy (Some c) (reg_views r2) (rg_identities r2)) = None"
    using later(2) by (auto simp: unauthorized_def store_resolve_def context_authority_def)
  show "\<forall>d identity. fst (store_resolve cy (Some d) (reg_views t) (rg_identities t)) = Some identity \<longrightarrow> id_uuid identity \<noteq> u"
  proof (intro allI impI)
    fix d identity assume "fst (store_resolve cy (Some d) (reg_views t) (rg_identities t)) = Some identity"
    then have "client_enabled (reg_views t) (id_uuid identity)" by (auto dest: resolve_Some)
    with f show "id_uuid identity \<noteq> u" by auto
  qed
qed

text \<open>
  (C37) A write of the state file that fails never widens authority: a pairing that reports failure
  leaves the registry exactly as it was, and an enabling that reports failure leaves every record as it
  was.
\<close>

theorem failed_write_grants_nothing:
  assumes "table_ok cy (reg_views r0)" "rg_identities r0 = store_init" and reach: "(registry_step cy)\<^sup>*\<^sup>* r0 r"
  shows "(\<not> fst (add_authorized_client cy env name cert u r) \<longrightarrow> snd (add_authorized_client cy env name cert u r) = r) \<and>
    (\<not> fst (set_client_enabled env u True r) \<longrightarrow> rg_client_root (snd (set_client_enabled env u True r)) = rg_client_root r)"
proof -
  have "table_ok cy (reg_views r)" using registry.reach_inv[OF _ reach] assms(1,2) by (simp add: registry_ok_def)
  from add_outcome[OF this] set_enabled_outcome(2) show ?thesis by blast
qed


section \<open>Witnesses\<close>

definition demo_registry_env :: registry_env where
  "demo_registry_env = \<lparr>re_activity = True, re_fresh_state = False, re_state_ready = True, re_write_state = (\<lambda>_. True)\<rparr>"

text \<open>A registry that starts with one paired client, and the same after that client's connection was
  authenticated.\<close>

definition demo_registry0 :: "(byte list, unit) registry_state" where
  "demo_registry0 = \<lparr>rg_client_root = \<lparr>ct_named_devices = [new_named_cert ''phone'' [7] (demo_uuid ''1'')],
     ct_remote_display_layout = []\<rparr>, rg_cert_chain = [], rg_identities = store_init\<rparr>"

definition demo_registry :: "(byte list, unit) registry_state" where
  "demo_registry = demo_registry0\<lparr>rg_identities := demo_store\<rparr>"

lemma demo_name: "display_client_name ''phone'' '''' ''Moonlight Client'' = ''phone''" by code_simp

lemma demo_views: "reg_views demo_registry0 = [demo_view]" "reg_views demo_registry = [demo_view]"
  by (simp_all add: demo_registry_def demo_registry0_def client_record_views_def new_named_cert_def demo_name demo_view_def)

lemma demo_registry_start: "table_ok demo_crypto (reg_views demo_registry0)" "rg_identities demo_registry0 = store_init"
  unfolding table_ok_def demo_views demo_table by (simp_all add: demo_registry0_def)

lemma demo_registry_reach: "(registry_step demo_crypto)\<^sup>*\<^sup>* demo_registry0 demo_registry"
proof -
  have "store_step demo_crypto (rg_identities demo_registry0) demo_store"
    unfolding demo_store_def demo_registry_start by (rule store_step.authenticate)
  then show ?thesis unfolding demo_registry_def by (intro r_into_rtranclp registry_step.transport)
qed

theorem registry_table_valid_witness:
  "length (ct_named_devices (rg_client_root demo_registry)) \<le> 256 \<and> ct_named_devices (rg_client_root demo_registry) \<noteq> []"
proof
  show "length (ct_named_devices (rg_client_root demo_registry)) \<le> 256"
    using registry_table_valid[OF demo_registry_start demo_registry_reach] by blast
qed (simp add: demo_registry_def demo_registry0_def)

theorem revoked_client_denied_witness:
  "fst (store_resolve demo_crypto (Some 1) (reg_views demo_registry) (rg_identities demo_registry)) \<noteq> None \<and>
   fst (store_resolve demo_crypto (Some 1) (reg_views (snd (set_client_enabled demo_registry_env (demo_uuid ''1'') False demo_registry)))
     (rg_identities (snd (set_client_enabled demo_registry_env (demo_uuid ''1'') False demo_registry)))) = None"
proof
  let ?t = "snd (set_client_enabled demo_registry_env (demo_uuid ''1'') False demo_registry)"
  show "fst (store_resolve demo_crypto (Some 1) (reg_views demo_registry) (rg_identities demo_registry)) \<noteq> None"
    using demo_table by (simp add: demo_views store_resolve_def context_authority_def demo_store_eq demo_registry_def)
      (simp add: demo_view_def)
  have "demo_uuid ''1'' \<in> set (map nc_uuid (ct_named_devices (rg_client_root demo_registry)))"
    by (simp add: demo_registry_def demo_registry0_def new_named_cert_def)
  then have out: "taken_out demo_crypto demo_registry_env (demo_uuid ''1'') demo_registry ?t"
    by (simp add: taken_out_def demo_registry_env_def)
  have id: "rg_identities demo_registry = demo_store" by (simp add: demo_registry_def)
  have "table_ok demo_crypto (reg_views demo_registry)" using demo_registry_start demo_views by simp
  from taken_out_facts[OF out this] have ctx: "map_of (ts_context (rg_identities ?t)) 1 = Some 0"
    using demo_store_facts(3) by (simp add: id)
  from revoked_client_denied[OF demo_registry_start demo_registry_reach out, of 1 0 demo_authority, unfolded id,
      OF demo_store_facts(1,2) _ rtranclp.rtrancl_refl ctx]
  show "fst (store_resolve demo_crypto (Some 1) (reg_views ?t) (rg_identities ?t)) = None" by simp
qed

theorem failed_write_grants_nothing_witness:
  "\<not> fst (add_authorized_client demo_crypto (demo_registry_env\<lparr>re_state_ready := False\<rparr>) ''tv'' [8] (demo_uuid ''2'') demo_registry) \<and>
   snd (add_authorized_client demo_crypto (demo_registry_env\<lparr>re_state_ready := False\<rparr>) ''tv'' [8] (demo_uuid ''2'') demo_registry) = demo_registry"
proof -
  have "\<not> fst (add_authorized_client demo_crypto (demo_registry_env\<lparr>re_state_ready := False\<rparr>) ''tv'' [8] (demo_uuid ''2'') demo_registry)"
    by (simp add: add_authorized_client_def demo_registry_env_def split: option.split)
  then show ?thesis using failed_write_grants_nothing[OF demo_registry_start demo_registry_reach] by blast
qed

end
