(* ===== verification/Pairing_Protocol.thy ===== *)
theory Pairing_Protocol
  imports Client_Registry "HOL-Library.Code_Target_Nat"
begin

text \<open>
  The pairing handshake of \<^verbatim>\<open>src/src/nvhttp.cpp\<close>: the pending sessions
  (\<^verbatim>\<open>map_id_sess\<close>), the HTTP request that drives the phases (\<^verbatim>\<open>pair\<close>), the PIN
  the administrator submits (\<^verbatim>\<open>pin\<close>) and the expiry. All of them run under
  \<^verbatim>\<open>pairing_sessions_mutex\<close>. OpenSSL, random bytes, the clock, the standard input and the
  response channels are parameters; \<open>pw_replies\<close> records what was written on a held channel. A
  reference to a stored session is its key: writing through it updates the map, and using it after the
  session was removed is the value \<open>None\<close>.
\<close>

section \<open>Data\<close>

record pair_session_t =
  ps_created_at :: time_point
  ps_uniqueID :: string
  ps_cert :: "byte list"
  ps_name :: string
  ps_cipher_key :: "byte list option"
  ps_clienthash :: "byte list"
  ps_serversecret :: "byte list"
  ps_serverchallenge :: "byte list"
  ps_response :: "nat option"
  ps_salt :: string
  ps_last_phase :: phase_e

text \<open>The fields of the answer that the handlers put.\<close>

record pair_tree =
  pt_paired :: "nat option"
  pt_status_code :: "nat option"
  pt_status_message :: "string option"
  pt_plaincert :: "string option"
  pt_challengeresponse :: "string option"
  pt_pairingsecret :: "string option"

record 'x pair_crypto =
  cp_identity :: "'x crypto_t"
  cp_hash :: "byte list \<Rightarrow> byte list"
  cp_ecb_decrypt :: "byte list \<Rightarrow> byte list \<Rightarrow> byte list"
  cp_ecb_encrypt :: "byte list \<Rightarrow> byte list \<Rightarrow> byte list"
  cp_signature :: "'x option \<Rightarrow> byte list"
  cp_sign256 :: "byte list \<Rightarrow> byte list \<Rightarrow> byte list"
  cp_verify256 :: "'x option \<Rightarrow> byte list \<Rightarrow> byte list \<Rightarrow> bool"

record 'x pair_config =
  pc_crypto :: "'x pair_crypto"
  pc_servercert :: "byte list"
  pc_pkey :: "byte list"
  pc_pin_stdin :: bool

text \<open>What one request takes from outside: the clock, a channel for a held answer, random bytes, the
  line read from standard input, the registry's environment, a generated UUID, and the text that a
  moved-from \<^verbatim>\<open>std::string\<close> is left with, which C++ does not specify (empty in libstdc++, libc++
  and the Microsoft library).\<close>

record pair_input =
  pi_now :: time_point
  pi_channel :: nat
  pi_serversecret :: "byte list"
  pi_serverchallenge :: "byte list"
  pi_stdin :: string
  pi_env :: registry_env
  pi_uuid :: uuid
  pi_moved_from :: string

record ('x, 'p) pair_world =
  pw_sessions :: "(string, pair_session_t) umap"
  pw_replies :: "(nat \<times> pair_tree) list"
  pw_registry :: "('x, 'p) registry_state"
  pw_add_cert :: "'x option list"

definition empty_tree :: pair_tree where
  "empty_tree = \<lparr>pt_paired = None, pt_status_code = None, pt_status_message = None, pt_plaincert = None,
     pt_challengeresponse = None, pt_pairingsecret = None\<rparr>"

definition status_tree :: "nat \<Rightarrow> string \<Rightarrow> pair_tree" where
  "status_tree code message = empty_tree\<lparr>pt_status_code := Some code, pt_status_message := Some message\<rparr>"

definition pairing_session_expiry :: int where
  "pairing_session_expiry = 600000000000"

section \<open>Sessions\<close>

definition string_bytes :: "string \<Rightarrow> byte list" where
  "string_bytes s = map of_char s"

text \<open>\<^verbatim>\<open>util::from_hex\<close> into \<open>n\<close> bytes: the decoded bytes padded with zeros at the high end.\<close>

definition from_hex :: "nat \<Rightarrow> string \<Rightarrow> bool \<Rightarrow> byte list" where
  "from_hex n hex r = (case read_bytes (length (filter is_convertable hex) div 2) (rev hex) of
      None \<Rightarrow> []
    | Some buf \<Rightarrow> (let padded = take n (buf @ replicate n 0) in if r then rev padded else padded))"

definition decode_hex :: "string \<Rightarrow> byte list" where
  "decode_hex hex = (case from_hex_vec hex True of None \<Rightarrow> [] | Some buf \<Rightarrow> buf)"

definition gen_aes_key :: "'x pair_crypto \<Rightarrow> byte list \<Rightarrow> string \<Rightarrow> byte list" where
  "gen_aes_key cp salt pin = take 16 (cp_hash cp (salt @ string_bytes pin))"

definition session_state :: "pair_session_t \<Rightarrow> session_state_t" where
  "session_state sess = \<lparr>ss_phase = ps_last_phase sess, ss_has_cipher_key = (ps_cipher_key sess \<noteq> None),
     ss_has_server_secret = (ps_serversecret sess \<noteq> [])\<rparr>"

definition put_session :: "string \<Rightarrow> pair_session_t \<Rightarrow> ('x, 'p) pair_world \<Rightarrow> ('x, 'p) pair_world" where
  "put_session key sess w = w\<lparr>pw_sessions := AList.update key sess (pw_sessions w)\<rparr>"

definition remove_session :: "pair_session_t \<Rightarrow> ('x, 'p) pair_world \<Rightarrow> ('x, 'p) pair_world" where
  "remove_session sess w = w\<lparr>pw_sessions := AList.delete (ps_uniqueID sess) (pw_sessions w)\<rparr>"

definition close_pending_pairing_response :: "pair_session_t \<Rightarrow> nat \<Rightarrow> string \<Rightarrow> ('x, 'p) pair_world \<Rightarrow> ('x, 'p) pair_world" where
  "close_pending_pairing_response sess code message w = (case ps_response sess of
      None \<Rightarrow> w
    | Some ch \<Rightarrow> w\<lparr>pw_replies := pw_replies w @ [(ch, (status_tree code message)\<lparr>pt_paired := Some 0\<rparr>)]\<rparr>)"

definition session_expired :: "time_point \<Rightarrow> pair_session_t \<Rightarrow> bool" where
  "session_expired now sess \<longleftrightarrow> \<not> now - ps_created_at sess \<le> pairing_session_expiry"

definition expire_pairing_sessions :: "time_point \<Rightarrow> ('x, 'p) pair_world \<Rightarrow> ('x, 'p) pair_world" where
  "expire_pairing_sessions now w =
     (fold (\<lambda>e. close_pending_pairing_response (snd e) 408 ''Pairing request expired'')
        (filter (\<lambda>e. session_expired now (snd e)) (pw_sessions w)) w)
     \<lparr>pw_sessions := filter (\<lambda>e. \<not> session_expired now (snd e)) (pw_sessions w)\<rparr>"

section \<open>Phases\<close>

definition fail_pair :: "pair_session_t \<Rightarrow> string \<Rightarrow> pair_tree \<Rightarrow> ('x, 'p) pair_world \<Rightarrow> pair_tree \<times> ('x, 'p) pair_world" where
  "fail_pair sess status_msg tree w =
     (tree\<lparr>pt_paired := Some 0, pt_status_code := Some 400, pt_status_message := Some status_msg\<rparr>, remove_session sess w)"

definition getservercert ::
  "'x pair_config \<Rightarrow> string \<Rightarrow> string \<Rightarrow> pair_session_t \<Rightarrow> pair_tree \<Rightarrow> ('x, 'p) pair_world \<Rightarrow> pair_tree \<times> ('x, 'p) pair_world" where
  "getservercert cf pin key sess tree w =
     (let decision = begin_get_server_certificate (session_state sess) (length (ps_salt sess));
          sess1 = sess\<lparr>ps_last_phase := de_next_phase decision\<rparr>; w1 = put_session key sess1 w in
      if \<not> de_accepted decision then fail_pair sess1 (de_failure_message decision) tree w1
      else let aes = gen_aes_key (pc_crypto cf) (from_hex 16 (take 32 (ps_salt sess)) True) pin in
        (tree\<lparr>pt_paired := Some 1, pt_plaincert := Some (hex_vec (pc_servercert cf) True), pt_status_code := Some 200\<rparr>,
         put_session key (sess1\<lparr>ps_cipher_key := Some aes\<rparr>) w1))"

definition clientchallenge ::
  "'x pair_config \<Rightarrow> pair_input \<Rightarrow> byte list \<Rightarrow> string \<Rightarrow> pair_session_t \<Rightarrow> pair_tree \<Rightarrow> ('x, 'p) pair_world \<Rightarrow> pair_tree \<times> ('x, 'p) pair_world" where
  "clientchallenge cf inp challenge key sess tree w =
     (let decision = begin_client_challenge (session_state sess);
          sess1 = sess\<lparr>ps_last_phase := de_next_phase decision\<rparr>; w1 = put_session key sess1 w in
      case (de_accepted decision, ps_cipher_key sess) of
        (True, Some aes) \<Rightarrow>
          (let cp = pc_crypto cf;
               decrypted = cp_ecb_decrypt cp aes challenge @ cp_signature cp (cy_x509 (cp_identity cp) (pc_servercert cf)) @ pi_serversecret inp;
               plaintext = cp_hash cp decrypted @ pi_serverchallenge inp;
               encrypted = cp_ecb_encrypt cp aes plaintext in
           (tree\<lparr>pt_paired := Some 1, pt_challengeresponse := Some (hex_vec encrypted True), pt_status_code := Some 200\<rparr>,
            put_session key (sess1\<lparr>ps_serversecret := pi_serversecret inp, ps_serverchallenge := pi_serverchallenge inp\<rparr>) w1))
      | _ \<Rightarrow> fail_pair sess1 (de_failure_message decision) tree w1)"

definition serverchallengeresp ::
  "'x pair_config \<Rightarrow> byte list \<Rightarrow> string \<Rightarrow> pair_session_t \<Rightarrow> pair_tree \<Rightarrow> ('x, 'p) pair_world \<Rightarrow> pair_tree \<times> ('x, 'p) pair_world" where
  "serverchallengeresp cf encrypted_response key sess tree w =
     (let decision = begin_server_challenge_response (session_state sess);
          sess1 = sess\<lparr>ps_last_phase := de_next_phase decision\<rparr>; w1 = put_session key sess1 w in
      case (de_accepted decision, ps_cipher_key sess) of
        (True, Some aes) \<Rightarrow>
          (let cp = pc_crypto cf; sign = cp_sign256 cp (pc_pkey cf) (ps_serversecret sess) in
           (tree\<lparr>pt_pairingsecret := Some (hex_vec (ps_serversecret sess @ sign) True), pt_paired := Some 1, pt_status_code := Some 200\<rparr>,
            put_session key (sess1\<lparr>ps_clienthash := cp_ecb_decrypt cp aes encrypted_response\<rparr>) w1))
      | _ \<Rightarrow> fail_pair sess1 (de_failure_message decision) tree w1)"

text \<open>The two checks of \<^verbatim>\<open>clientpairingsecret\<close>: the hash over the server challenge, the client's
  certificate signature and the secret, and the signature of the secret.\<close>

definition client_hash_matches :: "'x pair_crypto \<Rightarrow> pair_session_t \<Rightarrow> byte list \<Rightarrow> bool" where
  "client_hash_matches cp sess payload \<longleftrightarrow>
     cp_hash cp (ps_serverchallenge sess @ cp_signature cp (cy_x509 (cp_identity cp) (ps_cert sess)) @ take 16 payload) = ps_clienthash sess"

definition client_secret_verified :: "'x pair_crypto \<Rightarrow> pair_session_t \<Rightarrow> byte list \<Rightarrow> bool" where
  "client_secret_verified cp sess payload \<longleftrightarrow>
     cp_verify256 cp (cy_x509 (cp_identity cp) (ps_cert sess)) (take 16 payload) (drop 16 payload)"

definition clientpairingsecret ::
  "'x pair_config \<Rightarrow> pair_input \<Rightarrow> byte list \<Rightarrow> string \<Rightarrow> pair_session_t \<Rightarrow> pair_tree \<Rightarrow> ('x, 'p) pair_world \<Rightarrow> pair_tree \<times> ('x, 'p) pair_world" where
  "clientpairingsecret cf inp payload key sess tree w =
     (let begin_decision = begin_client_pairing_secret (session_state sess) (length payload);
          sess1 = sess\<lparr>ps_last_phase := de_next_phase begin_decision\<rparr>; w1 = put_session key sess1 w in
      if \<not> de_accepted begin_decision then fail_pair sess1 (de_failure_message begin_decision) tree w1
      else let cp = pc_crypto cf; x509 = cy_x509 (cp_identity cp) (ps_cert sess); usable = (x509 \<noteq> None \<and> length payload > 16);
               decision = decide_client_pairing_secret (session_state sess1) (x509 \<noteq> None)
                 (usable \<and> client_hash_matches cp sess payload) (usable \<and> client_secret_verified cp sess payload);
               sess2 = sess1\<lparr>ps_last_phase := de_next_phase decision\<rparr>; w2 = put_session key sess2 w1 in
        if de_accepted decision
        then (case add_authorized_client (cp_identity cp) (pi_env inp) (ps_name sess) (ps_cert sess) (pi_uuid inp) (pw_registry w2) of
                (False, reg) \<Rightarrow> fail_pair sess2 ''Pairing database cannot accept this client'' tree (w2\<lparr>pw_registry := reg\<rparr>)
              | (True, reg) \<Rightarrow> (tree\<lparr>pt_paired := Some 1, pt_status_code := Some 200\<rparr>,
                  remove_session sess2 (w2\<lparr>pw_registry := reg, pw_add_cert := pw_add_cert w2 @ [x509]\<rparr>)))
        else if de_failure_message decision \<noteq> '''' then fail_pair sess2 (de_failure_message decision) tree w2
        else (tree\<lparr>pt_paired := Some 0, pt_status_code := Some 200\<rparr>, remove_session sess2 w2))"

section \<open>The request\<close>

text \<open>The end of \<^verbatim>\<open>pair\<close>: the fields that continue a session.\<close>

definition continue_pairing ::
  "'x pair_config \<Rightarrow> pair_input \<Rightarrow> (string, string) umap \<Rightarrow> string \<Rightarrow> pair_tree \<Rightarrow> ('x, 'p) pair_world \<Rightarrow> pair_tree \<times> ('x, 'p) pair_world" where
  "continue_pairing cf inp args key tree w =
     (let refuse = (\<lambda>code message. (tree\<lparr>pt_status_code := Some code, pt_status_message := Some message\<rparr>, w)) in
      case map_of (pw_sessions w) key of
        None \<Rightarrow> refuse 400 ''Invalid uniqueid''
      | Some sess \<Rightarrow>
          (case map_of args ''clientchallenge'' of
             Some v \<Rightarrow> if \<not> valid_hex_field v 2 max_pairing_hex_field_length then refuse 400 ''Invalid client challenge''
               else clientchallenge cf inp (decode_hex v) key sess tree w
           | None \<Rightarrow> (case map_of args ''serverchallengeresp'' of
               Some v \<Rightarrow> if \<not> valid_hex_field v 2 max_pairing_hex_field_length then refuse 400 ''Invalid server challenge response''
                 else serverchallengeresp cf (decode_hex v) key sess tree w
             | None \<Rightarrow> (case map_of args ''clientpairingsecret'' of
                 Some v \<Rightarrow> if \<not> valid_hex_field v 34 max_pairing_hex_field_length then refuse 400 ''Invalid client pairing secret''
                   else clientpairingsecret cf inp (decode_hex v) key sess tree w
               | None \<Rightarrow> refuse 404 ''Invalid pairing request''))))"

definition new_session :: "time_point \<Rightarrow> string \<Rightarrow> byte list \<Rightarrow> string \<Rightarrow> pair_session_t" where
  "new_session now key cert salt = \<lparr>ps_created_at = now, ps_uniqueID = key, ps_cert = cert, ps_name = '''', ps_cipher_key = None,
     ps_clienthash = [], ps_serversecret = [], ps_serverchallenge = [], ps_response = None, ps_salt = salt, ps_last_phase = Phase_none\<rparr>"

definition arg_or :: "(string, string) umap \<Rightarrow> string \<Rightarrow> string \<Rightarrow> string" where
  "arg_or args name default_value = (case map_of args name of None \<Rightarrow> default_value | Some v \<Rightarrow> v)"

text \<open>\<open>None\<close> as the answer: the response is held for the PIN. The identifier is moved into the new
  session, so with a PIN from standard input the lookup that follows is of the moved-from string.\<close>

definition start_pairing ::
  "'x pair_config \<Rightarrow> pair_input \<Rightarrow> (string, string) umap \<Rightarrow> string \<Rightarrow> ('x, 'p) pair_world \<Rightarrow> pair_tree option \<times> ('x, 'p) pair_world" where
  "start_pairing cf inp args key w =
     (let client_certificate = arg_or args ''clientcert'' ''''; salt = arg_or args ''salt'' '''';
          existing = map_of (pw_sessions w) key;
          same_identity = (case existing of None \<Rightarrow> False | Some s \<Rightarrow>
            valid_hex_field client_certificate 2 max_pairing_hex_field_length \<and> ps_cert s = decode_hex client_certificate);
          admission = admit_pending_session key client_certificate salt (length (pw_sessions w)) (existing \<noteq> None) same_identity in
      if \<not> ad_accepted admission
      then (Some (status_tree (if ad_failure_message admission = ''Too many pending pairing sessions'' then 429 else 400)
              (ad_failure_message admission)), w)
      else let w1 = (case existing of None \<Rightarrow> w
                     | Some s \<Rightarrow> remove_session s (close_pending_pairing_response s 409
                         ''Pairing request replaced by a newer request from the same client'' w));
               sess = new_session (pi_now inp) key (decode_hex client_certificate) salt in
        if umap_contains (pw_sessions w1) key then (Some (status_tree 429 ''Too many pending pairing sessions''), w1)
        else let w2 = put_session key sess w1 in
          if pc_pin_stdin cf
          then (case getservercert cf (pi_stdin inp) key sess empty_tree w2 of (tree, w3) \<Rightarrow>
                 map_prod Some id (continue_pairing cf inp args (pi_moved_from inp) tree w3))
          else (None, put_session key (sess\<lparr>ps_response := Some (pi_channel inp)\<rparr>) w2))"

definition pair ::
  "'x pair_config \<Rightarrow> pair_input \<Rightarrow> (string, string) umap \<Rightarrow> ('x, 'p) pair_world \<Rightarrow> pair_tree option \<times> ('x, 'p) pair_world" where
  "pair cf inp args w0 = (case map_of args ''uniqueid'' of
      None \<Rightarrow> (Some (status_tree 400 ''Missing uniqueid parameter''), w0)
    | Some key \<Rightarrow>
        if \<not> valid_unique_id key then (Some (status_tree 400 ''Invalid uniqueid''), w0)
        else let w = expire_pairing_sessions (pi_now inp) w0 in
          if map_of args ''phrase'' = Some ''getservercert'' then start_pairing cf inp args key w
          else if map_of args ''phrase'' = Some ''pairchallenge''
          then (Some (empty_tree\<lparr>pt_paired := Some 1, pt_status_code := Some 200\<rparr>), w)
          else map_prod Some id (continue_pairing cf inp args key empty_tree w))"

text \<open>The PIN; \<open>None\<close> would be the use of a session that is gone.\<close>

definition pin ::
  "'x pair_config \<Rightarrow> time_point \<Rightarrow> string \<Rightarrow> string \<Rightarrow> ('x, 'p) pair_world \<Rightarrow> (bool \<times> ('x, 'p) pair_world) option" where
  "pin cf now code name w0 =
     (let w = expire_pairing_sessions now w0 in
      if pw_sessions w = [] then Some (False, w)
      else if length code \<noteq> 4 then Some (False, w)
      else if \<not> list_all isdigit code then Some (False, w)
      else if length (pw_sessions w) \<noteq> 1 \<or> ps_last_phase (snd (hd (pw_sessions w))) \<noteq> Phase_none then Some (False, w)
      else let (key, sess) = hd (pw_sessions w) in
      if length (ps_salt sess) < 32 then Some (False, remove_session sess w)
      else case getservercert cf code key sess empty_tree w of (tree, w1) \<Rightarrow>
        (case map_of (pw_sessions w1) key of
           None \<Rightarrow> None
         | Some sess1 \<Rightarrow>
             if name \<noteq> '''' \<and> is_placeholder_client_name name then Some (False, remove_session sess1 w1)
             else let sess2 = (if name \<noteq> '''' then sess1\<lparr>ps_name := name\<rparr> else sess1); w2 = put_session key sess2 w1 in
               case ps_response sess2 of
                 None \<Rightarrow> Some (False, remove_session sess2 w2)
               | Some ch \<Rightarrow> Some (True, put_session key (sess2\<lparr>ps_response := None\<rparr>)
                   (w2\<lparr>pw_replies := pw_replies w2 @ [(ch, tree)]\<rparr>))))"


section \<open>The pending session\<close>

definition session_ok :: "'x pair_config \<Rightarrow> string list \<Rightarrow> string \<Rightarrow> pair_session_t \<Rightarrow> bool" where
  "session_ok cf pins key s \<longleftrightarrow> ps_uniqueID s = key \<and> 32 \<le> length (ps_salt s) \<and>
     (ps_last_phase s = Phase_none \<longleftrightarrow> ps_cipher_key s = None) \<and>
     (ps_last_phase s \<in> {Client_challenge, Server_challenge_response} \<longrightarrow> ps_serversecret s \<noteq> []) \<and>
     ps_last_phase s \<noteq> Client_pairing_secret \<and>
     (\<forall>k. ps_cipher_key s = Some k \<longrightarrow>
        (\<exists>p\<in>set pins. k = gen_aes_key (pc_crypto cf) (from_hex 16 (take 32 (ps_salt s)) True) p))"

definition sessions_ok :: "'x pair_config \<Rightarrow> string list \<Rightarrow> (string, pair_session_t) umap \<Rightarrow> bool" where
  "sessions_ok cf pins ss \<longleftrightarrow> ss = [] \<or> (\<exists>key s. ss = [(key, s)] \<and> session_ok cf pins key s)"

lemma session_ok_mono: "session_ok cf pins key s \<Longrightarrow> set pins \<subseteq> set pins' \<Longrightarrow> session_ok cf pins' key s"
  unfolding session_ok_def by blast

lemma sessions_ok_mono: "sessions_ok cf pins ss \<Longrightarrow> set pins \<subseteq> set pins' \<Longrightarrow> sessions_ok cf pins' ss"
  unfolding sessions_ok_def using session_ok_mono by blast

lemma sessions_ok_Nil [simp]: "sessions_ok cf pins []" by (simp add: sessions_ok_def)

lemma sessions_ok_one [simp]: "sessions_ok cf pins [(key, s)] = session_ok cf pins key s" by (simp add: sessions_ok_def)

lemma world_frame [simp]:
  "pw_registry (put_session k s w) = pw_registry w" "pw_registry (remove_session s w) = pw_registry w"
  "pw_registry (close_pending_pairing_response s c m w) = pw_registry w"
  "pw_sessions (close_pending_pairing_response s c m w) = pw_sessions w"
  "pw_sessions (put_session k s w) = AList.update k s (pw_sessions w)"
  "pw_sessions (remove_session s w) = AList.delete (ps_uniqueID s) (pw_sessions w)"
  by (simp_all add: put_session_def remove_session_def close_pending_pairing_response_def split: option.split)

lemma expire_registry [simp]: "pw_registry (expire_pairing_sessions now w) = pw_registry w"
proof -
  have "pw_registry (fold (\<lambda>e. close_pending_pairing_response (snd e) c m) es w) = pw_registry w"
    for c m and es :: "(string \<times> pair_session_t) list" and w :: "('x, 'p) pair_world"
    by (induction es arbitrary: w) simp_all
  then show ?thesis by (simp add: expire_pairing_sessions_def)
qed

lemma expire_sessions [simp]:
  "pw_sessions (expire_pairing_sessions now w) = filter (\<lambda>e. \<not> session_expired now (snd e)) (pw_sessions w)"
  by (simp add: expire_pairing_sessions_def)

lemma sessions_ok_expire: "sessions_ok cf pins (pw_sessions w) \<Longrightarrow> sessions_ok cf pins (pw_sessions (expire_pairing_sessions now w))"
proof (cases "pw_sessions w")
  case (Cons e es)
  assume "sessions_ok cf pins (pw_sessions w)"
  then obtain key s where "pw_sessions w = [(key, s)]" "session_ok cf pins key s" using Cons by (auto simp: sessions_ok_def)
  then show ?thesis by simp
qed simp

lemma fail_pair_sessions:
  "ps_uniqueID s = key \<Longrightarrow> pw_sessions w = [(key, x)] \<Longrightarrow> pw_sessions (snd (fail_pair s m t w)) = []"
  by (simp add: fail_pair_def)

lemma fail_pair_registry [simp]: "pw_registry (snd (fail_pair s m t w)) = pw_registry w"
  by (simp add: fail_pair_def)

text \<open>The salt of an admitted session is long enough, so the PIN always moves a fresh session on.\<close>

lemma getservercert_fresh:
  assumes "ps_last_phase s = Phase_none" "32 \<le> length (ps_salt s)"
  shows "getservercert cf p key s tree w =
    (tree\<lparr>pt_paired := Some 1, pt_plaincert := Some (hex_vec (pc_servercert cf) True), pt_status_code := Some 200\<rparr>,
     put_session key (s\<lparr>ps_last_phase := Get_server_cert, ps_cipher_key :=
       Some (gen_aes_key (pc_crypto cf) (from_hex 16 (take 32 (ps_salt s)) True) p)\<rparr>)
       (put_session key (s\<lparr>ps_last_phase := Get_server_cert\<rparr>) w))"
  using assms by (simp add: getservercert_def begin_get_server_certificate_def session_state_def accepted_def salt_hex_length_def Let_def)

lemma getservercert_ok:
  assumes "session_ok cf pins key s" "ps_last_phase s = Phase_none"
  shows "session_ok cf (p # pins) key (s\<lparr>ps_last_phase := Get_server_cert, ps_cipher_key :=
       Some (gen_aes_key (pc_crypto cf) (from_hex 16 (take 32 (ps_salt s)) True) p)\<rparr>)"
  using assms by (simp add: session_ok_def)

text \<open>A phase either ends the session or leaves one that is well formed, with the same certificate.\<close>

definition same_or_gone :: "'x pair_config \<Rightarrow> string list \<Rightarrow> string \<Rightarrow> pair_session_t \<Rightarrow> (string, pair_session_t) umap \<Rightarrow> bool" where
  "same_or_gone cf pins key s ss \<longleftrightarrow> ss = [] \<or>
     (\<exists>s'. ss = [(key, s')] \<and> session_ok cf pins key s' \<and> ps_cert s' = ps_cert s)"

lemma clientchallenge_session:
  assumes "pw_sessions w = [(key, s)]" "session_ok cf pins key s" "pi_serversecret inp \<noteq> []"
  shows "same_or_gone cf pins key s (pw_sessions (snd (clientchallenge cf inp ch key s tree w))) \<and>
    pw_registry (snd (clientchallenge cf inp ch key s tree w)) = pw_registry w"
proof (cases "ps_last_phase s = Get_server_cert")
  case True
  then obtain k where k: "ps_cipher_key s = Some k" using assms(2) by (cases "ps_cipher_key s") (auto simp: session_ok_def)
  show ?thesis using assms True k
    by (simp add: clientchallenge_def begin_client_challenge_def session_state_def accepted_def Let_def same_or_gone_def)
      (simp add: session_ok_def)
next
  case False
  then show ?thesis using assms
    by (simp add: clientchallenge_def begin_client_challenge_def session_state_def rejected_def Let_def same_or_gone_def fail_pair_def session_ok_def)
qed

lemma serverchallengeresp_session:
  assumes "pw_sessions w = [(key, s)]" "session_ok cf pins key s"
  shows "same_or_gone cf pins key s (pw_sessions (snd (serverchallengeresp cf er key s tree w))) \<and>
    pw_registry (snd (serverchallengeresp cf er key s tree w)) = pw_registry w"
proof (cases "ps_last_phase s = Client_challenge")
  case True
  then obtain k where k: "ps_cipher_key s = Some k" using assms(2) by (cases "ps_cipher_key s") (auto simp: session_ok_def)
  moreover have "ps_serversecret s \<noteq> []" using assms(2) True by (simp add: session_ok_def)
  ultimately show ?thesis using assms True
    by (simp add: serverchallengeresp_def begin_server_challenge_response_def session_state_def accepted_def Let_def same_or_gone_def)
      (simp add: session_ok_def)
next
  case False
  then show ?thesis using assms
    by (simp add: serverchallengeresp_def begin_server_challenge_response_def session_state_def rejected_def Let_def same_or_gone_def
        fail_pair_def session_ok_def)
qed

text \<open>The last phase always ends the session; it reaches the registry only when every check holds.\<close>

definition secret_accepted :: "'x pair_config \<Rightarrow> pair_session_t \<Rightarrow> byte list \<Rightarrow> bool" where
  "secret_accepted cf s pay \<longleftrightarrow> cy_x509 (cp_identity (pc_crypto cf)) (ps_cert s) \<noteq> None \<and>
     client_hash_matches (pc_crypto cf) s pay \<and> client_secret_verified (pc_crypto cf) s pay"

lemma clientpairingsecret_early:
  assumes "\<not> (ps_last_phase s = Server_challenge_response \<and> 16 < length pay)"
  shows "\<exists>ph m. clientpairingsecret cf inp pay key s tree w =
    fail_pair (s\<lparr>ps_last_phase := ph\<rparr>) m tree (put_session key (s\<lparr>ps_last_phase := ph\<rparr>) w)"
proof -
  define d where "d = begin_client_pairing_secret (session_state s) (length pay)"
  have "\<not> de_accepted d"
    using assms by (auto simp: d_def begin_client_pairing_secret_def session_state_def rejected_def pairing_secret_length_def)
  then have "clientpairingsecret cf inp pay key s tree w = fail_pair (s\<lparr>ps_last_phase := de_next_phase d\<rparr>) (de_failure_message d) tree
      (put_session key (s\<lparr>ps_last_phase := de_next_phase d\<rparr>) w)"
    unfolding clientpairingsecret_def d_def[symmetric] Let_def by simp
  then show ?thesis by blast
qed

lemma clientpairingsecret_late:
  assumes "ps_last_phase s = Server_challenge_response \<and> 16 < length pay"
  shows "clientpairingsecret cf inp pay key s tree w =
    (let sess = s\<lparr>ps_last_phase := Client_pairing_secret\<rparr>; w2 = put_session key sess (put_session key sess w);
         x509 = cy_x509 (cp_identity (pc_crypto cf)) (ps_cert s) in
     if secret_accepted cf s pay
     then (case add_authorized_client (cp_identity (pc_crypto cf)) (pi_env inp) (ps_name s) (ps_cert s) (pi_uuid inp) (pw_registry w) of
             (False, reg) \<Rightarrow> fail_pair sess ''Pairing database cannot accept this client'' tree (w2\<lparr>pw_registry := reg\<rparr>)
           | (True, reg) \<Rightarrow> (tree\<lparr>pt_paired := Some 1, pt_status_code := Some 200\<rparr>,
               remove_session sess (w2\<lparr>pw_registry := reg, pw_add_cert := pw_add_cert w2 @ [x509]\<rparr>)))
     else if x509 = None then fail_pair sess ''Invalid client certificate'' tree w2
     else (tree\<lparr>pt_paired := Some 0, pt_status_code := Some 200\<rparr>, remove_session sess w2))"
proof -
  let ?sess = "s\<lparr>ps_last_phase := Client_pairing_secret\<rparr>"
  have b: "begin_client_pairing_secret (session_state s) (length pay) = accepted Client_pairing_secret"
    using assms by (simp add: begin_client_pairing_secret_def session_state_def pairing_secret_length_def)
  have acc: "de_accepted (accepted ph) = True" "de_next_phase (accepted ph) = ph" for ph by (simp_all add: accepted_def)
  have phase: "ss_phase (session_state ?sess) = Client_pairing_secret" by (simp add: session_state_def)
  have d: "decide_client_pairing_secret (session_state ?sess) c h v =
      (if \<not> c then rejected Client_pairing_secret ''Invalid client certificate''
       else if \<not> h \<or> \<not> v then rejected Client_pairing_secret '''' else accepted Client_pairing_secret)" for c h v
    unfolding decide_client_pairing_secret_def phase by simp
  have long: "(16 < length pay) = True" using assms by simp
  show ?thesis
  proof (cases "cy_x509 (cp_identity (pc_crypto cf)) (ps_cert s)")
    case None
    then show ?thesis unfolding clientpairingsecret_def b acc Let_def d long by (simp add: rejected_def secret_accepted_def)
  next
    case (Some x)
    show ?thesis
    proof (cases "client_hash_matches (pc_crypto cf) s pay \<and> client_secret_verified (pc_crypto cf) s pay")
      case True
      obtain c reg where add: "add_authorized_client (cp_identity (pc_crypto cf)) (pi_env inp) (ps_name s) (ps_cert s) (pi_uuid inp)
          (pw_registry w) = (c, reg)"
        by (cases "add_authorized_client (cp_identity (pc_crypto cf)) (pi_env inp) (ps_name s) (ps_cert s) (pi_uuid inp) (pw_registry w)")
      show ?thesis unfolding clientpairingsecret_def b acc Let_def d long Some
        using True by (cases c) (simp_all add: acc secret_accepted_def Some add)
    next
      case False
      then have no: "secret_accepted cf s pay = False" unfolding secret_accepted_def by blast
      from False show ?thesis unfolding clientpairingsecret_def b acc Let_def d long Some no
        by (auto simp: rejected_def)
    qed
  qed
qed

lemma clientpairingsecret_result:
  assumes "pw_sessions w = [(key, s)]" "ps_uniqueID s = key"
  shows "pw_sessions (snd (clientpairingsecret cf inp pay key s tree w)) = [] \<and>
    (pw_registry (snd (clientpairingsecret cf inp pay key s tree w)) = pw_registry w \<or>
       ps_last_phase s = Server_challenge_response \<and> 16 < length pay \<and> secret_accepted cf s pay \<and>
       pw_registry (snd (clientpairingsecret cf inp pay key s tree w)) =
         snd (add_authorized_client (cp_identity (pc_crypto cf)) (pi_env inp) (ps_name s) (ps_cert s) (pi_uuid inp) (pw_registry w)))"
proof (cases "ps_last_phase s = Server_challenge_response \<and> 16 < length pay")
  case False
  from clientpairingsecret_early[OF this, of cf inp key tree w] obtain ph m where
    e: "clientpairingsecret cf inp pay key s tree w =
      fail_pair (s\<lparr>ps_last_phase := ph\<rparr>) m tree (put_session key (s\<lparr>ps_last_phase := ph\<rparr>) w)" by blast
  show ?thesis unfolding e using assms by (simp add: fail_pair_def)
next
  case True
  obtain b reg where add: "add_authorized_client (cp_identity (pc_crypto cf)) (pi_env inp) (ps_name s) (ps_cert s) (pi_uuid inp) (pw_registry w) = (b, reg)"
    by (cases "add_authorized_client (cp_identity (pc_crypto cf)) (pi_env inp) (ps_name s) (ps_cert s) (pi_uuid inp) (pw_registry w)")
  show ?thesis
    unfolding clientpairingsecret_late[OF True] Let_def add prod.case
    using assms True by (cases b) (auto simp: fail_pair_def remove_session_def put_session_def)
qed


section \<open>Runs\<close>

text \<open>What a request does to a world with at most one well-formed session.\<close>

definition request_effect :: "'x pair_config \<Rightarrow> pair_input \<Rightarrow> string list \<Rightarrow> ('x, 'p) pair_world \<Rightarrow> ('x, 'p) pair_world \<Rightarrow> bool" where
  "request_effect cf inp pins w t \<longleftrightarrow> sessions_ok cf pins (pw_sessions t) \<and>
     (\<forall>key s key' s'. pw_sessions w = [(key, s)] \<longrightarrow> pw_sessions t = [(key', s')] \<longrightarrow> key' = key \<and> ps_cert s' = ps_cert s) \<and>
     (pw_registry t = pw_registry w \<or>
       (\<exists>s payload. (\<exists>key. pw_sessions w = [(key, s)] \<and> session_ok cf pins key s) \<and> ps_last_phase s = Server_challenge_response \<and>
          16 < length payload \<and> secret_accepted cf s payload \<and> pw_sessions t = [] \<and>
          pw_registry t = snd (add_authorized_client (cp_identity (pc_crypto cf)) (pi_env inp) (ps_name s) (ps_cert s) (pi_uuid inp) (pw_registry w))))"

lemma request_effect_same: "sessions_ok cf pins (pw_sessions w) \<Longrightarrow> request_effect cf inp pins w w"
  by (simp add: request_effect_def)

lemma request_effect_gone:
  "same_or_gone cf pins key s (pw_sessions t) \<Longrightarrow> pw_sessions w = [(key, s)] \<Longrightarrow> pw_registry t = pw_registry w \<Longrightarrow> request_effect cf inp pins w t"
  by (auto simp: request_effect_def same_or_gone_def)

lemma continue_effect:
  assumes "sessions_ok cf pins (pw_sessions w)" "pi_serversecret inp \<noteq> []"
  shows "request_effect cf inp pins w (snd (continue_pairing cf inp args key tree w))"
proof (cases "map_of (pw_sessions w) key")
  case None
  then show ?thesis using request_effect_same[OF assms(1)] by (simp add: continue_pairing_def)
next
  case (Some s)
  then have w: "pw_sessions w = [(key, s)]" and ok: "session_ok cf pins key s"
    using assms(1) by (auto simp: sessions_ok_def split: if_splits)
  note same = request_effect_same[OF assms(1), of inp]
  have cc: "request_effect cf inp pins w (snd (clientchallenge cf inp v key s tree w))" for v
    using clientchallenge_session[OF w ok assms(2)] w by (blast intro: request_effect_gone)
  have sr: "request_effect cf inp pins w (snd (serverchallengeresp cf v key s tree w))" for v
    using serverchallengeresp_session[OF w ok] w by (blast intro: request_effect_gone)
  have id: "ps_uniqueID s = key" using ok by (simp add: session_ok_def)
  have ps: "request_effect cf inp pins w (snd (clientpairingsecret cf inp v key s tree w))" for v
    using clientpairingsecret_result[OF w id, of cf inp v tree] ok w unfolding request_effect_def by auto
  show ?thesis using same cc sr ps Some by (simp add: continue_pairing_def Let_def split: option.split)
qed

lemma expire_cases:
  assumes "sessions_ok cf pins (pw_sessions w)"
  obtains "pw_sessions (expire_pairing_sessions now w) = pw_sessions w" | "pw_sessions (expire_pairing_sessions now w) = []"
proof (cases "pw_sessions w")
  case (Cons e es)
  then obtain key s where "pw_sessions w = [(key, s)]" using assms by (auto simp: sessions_ok_def)
  then show ?thesis using that by (cases "session_expired now s") simp_all
qed (use that in simp)

lemma request_effect_expire:
  assumes "sessions_ok cf pins (pw_sessions w)" "request_effect cf inp pins' (expire_pairing_sessions now w) t"
  shows "request_effect cf inp pins' w t \<or>
    pw_sessions (expire_pairing_sessions now w) = [] \<and> sessions_ok cf pins' (pw_sessions t) \<and> pw_registry t = pw_registry w"
proof -
  define v where "v = expire_pairing_sessions now w"
  have reg: "pw_registry v = pw_registry w" by (simp add: v_def)
  have e: "request_effect cf inp pins' v t" using assms(2) by (simp add: v_def)
  consider "pw_sessions v = pw_sessions w" | "pw_sessions v = []" using expire_cases[OF assms(1), of now] v_def by blast
  then show ?thesis
  proof cases
    case 1
    have "request_effect cf inp pins' w t" using e unfolding request_effect_def reg 1 .
    then show ?thesis ..
  next
    case 2
    then show ?thesis using e unfolding request_effect_def reg v_def[symmetric] by simp
  qed
qed

text \<open>A new session for a certificate: only over no session, or over one of the same certificate.\<close>

lemma start_effect:
  assumes ok: "sessions_ok cf pins (pw_sessions w)" and secret: "pi_serversecret inp \<noteq> []"
  shows "request_effect cf inp (if pc_pin_stdin cf then pi_stdin inp # pins else pins) w (snd (start_pairing cf inp args key w))"
proof -
  define crt salt where "crt = arg_or args ''clientcert'' ''''" and "salt = arg_or args ''salt'' ''''"
  define same where "same = (case map_of (pw_sessions w) key of None \<Rightarrow> False | Some s \<Rightarrow>
     valid_hex_field crt 2 max_pairing_hex_field_length \<and> ps_cert s = decode_hex crt)"
  define ad where "ad = admit_pending_session key crt salt (length (pw_sessions w)) (map_of (pw_sessions w) key \<noteq> None) same"
  let ?pins = "if pc_pin_stdin cf then pi_stdin inp # pins else pins"
  have okp: "sessions_ok cf ?pins (pw_sessions w)" by (rule sessions_ok_mono[OF ok]) auto
  define w1 where "w1 = (case map_of (pw_sessions w) key of None \<Rightarrow> w
     | Some s \<Rightarrow> remove_session s (close_pending_pairing_response s 409
         ''Pairing request replaced by a newer request from the same client'' w))"
  define sess where "sess = new_session (pi_now inp) key (decode_hex crt) salt"
  define w2 where "w2 = put_session key sess w1"
  define w3 where "w3 = (if pc_pin_stdin cf
     then snd (case getservercert cf (pi_stdin inp) key sess empty_tree w2 of (tree, w3) \<Rightarrow> continue_pairing cf inp args (pi_moved_from inp) tree w3)
     else put_session key (sess\<lparr>ps_response := Some (pi_channel inp)\<rparr>) w2)"
  have eq: "snd (start_pairing cf inp args key w) = (if \<not> ad_accepted ad then w
      else if umap_contains (pw_sessions w1) key then w1 else w3)"
    unfolding start_pairing_def crt_def[symmetric] salt_def[symmetric] same_def[symmetric] ad_def[symmetric] Let_def
      w1_def[symmetric] sess_def[symmetric] w2_def[symmetric] w3_def
    by (simp add: case_prod_beta)
  show ?thesis
  proof (cases "ad_accepted ad")
    case False
    then show ?thesis unfolding eq using request_effect_same[OF okp] by simp
  next
    case True
    have adm: "32 \<le> length salt" "pw_sessions w = [] \<or> map_of (pw_sessions w) key \<noteq> None \<and> same"
    proof -
      have "32 \<le> length salt \<and> (length (pw_sessions w) < 1 \<or> map_of (pw_sessions w) key \<noteq> None \<and> same)"
        using True unfolding ad_def admit_pending_session_def valid_hex_field_def pairing_limits by (auto simp: Suc_le_eq split: if_splits)
      then show "32 \<le> length salt" "pw_sessions w = [] \<or> map_of (pw_sessions w) key \<noteq> None \<and> same" by auto
    qed
    have prev: "pw_sessions w = [] \<or> (\<exists>s. pw_sessions w = [(key, s)] \<and> ps_uniqueID s = key \<and> ps_cert s = decode_hex crt)"
    proof (cases "pw_sessions w = []")
      case ne: False
      then obtain k s where s: "pw_sessions w = [(k, s)]" "session_ok cf pins k s" using ok by (auto simp: sessions_ok_def)
      moreover have "k = key" "same" using adm(2) ne s by (auto split: if_splits)
      ultimately show ?thesis by (auto simp: same_def session_ok_def)
    qed simp
    have w1: "pw_sessions w1 = []" "pw_registry w1 = pw_registry w" using prev by (auto simp: w1_def split: option.split)
    have w2: "pw_sessions w2 = [(key, sess)]" "pw_registry w2 = pw_registry w" using w1 by (simp_all add: w2_def)
    have sok: "session_ok cf pins key sess" "ps_last_phase sess = Phase_none" "ps_cert sess = decode_hex crt"
      using adm(1) by (simp_all add: session_ok_def sess_def new_session_def)
    have res: "pw_registry w3 = pw_registry w \<and> same_or_gone cf ?pins key sess (pw_sessions w3)"
    proof (cases "pc_pin_stdin cf")
      case False
      have "session_ok cf pins key (sess\<lparr>ps_response := Some (pi_channel inp)\<rparr>)" using sok(1) by (simp add: session_ok_def)
      then show ?thesis using False w2 by (simp add: w3_def same_or_gone_def)
    next
      case stdin: True
      define s2 where "s2 = sess\<lparr>ps_last_phase := Get_server_cert, ps_cipher_key :=
         Some (gen_aes_key (pc_crypto cf) (from_hex 16 (take 32 (ps_salt sess)) True) (pi_stdin inp))\<rparr>"
      have salt: "32 \<le> length (ps_salt sess)" using sok(1) by (simp add: session_ok_def)
      obtain tree v where g: "getservercert cf (pi_stdin inp) key sess empty_tree w2 = (tree, v)" "pw_sessions v = [(key, s2)]"
        "pw_registry v = pw_registry w"
        unfolding getservercert_fresh[OF sok(2) salt] using w2 by (simp add: s2_def)
      have s2: "session_ok cf ?pins key s2" unfolding s2_def using getservercert_ok[OF sok(1,2)] stdin by simp
      have e: "request_effect cf inp ?pins v (snd (continue_pairing cf inp args (pi_moved_from inp) tree v))"
        by (rule continue_effect[OF _ secret]) (simp add: g(2) s2)
      have w3: "w3 = snd (continue_pairing cf inp args (pi_moved_from inp) tree v)" using stdin g(1) by (simp add: w3_def)
      have early: "ps_last_phase s2 = Get_server_cert" "ps_cert s2 = ps_cert sess" by (simp_all add: s2_def)
      have reg: "pw_registry w3 = pw_registry v" using e g(2) early(1) unfolding request_effect_def w3 by auto
      have "sessions_ok cf ?pins (pw_sessions w3)" using e unfolding request_effect_def w3 by blast
      moreover have "key' = key \<and> ps_cert s' = ps_cert sess" if "pw_sessions w3 = [(key', s')]" for key' s'
        using e that g(2) early(2) unfolding request_effect_def w3 by metis
      ultimately have "same_or_gone cf ?pins key sess (pw_sessions w3)" unfolding sessions_ok_def same_or_gone_def by blast
      then show ?thesis using reg g(3) by simp
    qed
    have "request_effect cf inp ?pins w w3"
      using res prev sok(3) unfolding request_effect_def same_or_gone_def sessions_ok_def by auto
    then show ?thesis unfolding eq using True w1(1) by simp
  qed
qed


abbreviation known_pins :: "'x pair_config \<Rightarrow> pair_input \<Rightarrow> string list \<Rightarrow> string list" where
  "known_pins cf inp pins \<equiv> (if pc_pin_stdin cf then pi_stdin inp # pins else pins)"

lemma pair_effect:
  assumes ok: "sessions_ok cf pins (pw_sessions w)" and secret: "pi_serversecret inp \<noteq> []"
  shows "request_effect cf inp (known_pins cf inp pins) w (snd (pair cf inp args w)) \<or>
    pw_sessions (expire_pairing_sessions (pi_now inp) w) = [] \<and> sessions_ok cf (known_pins cf inp pins) (pw_sessions (snd (pair cf inp args w))) \<and>
    pw_registry (snd (pair cf inp args w)) = pw_registry w"
proof -
  define v where "v = expire_pairing_sessions (pi_now inp) w"
  have okp: "sessions_ok cf (known_pins cf inp pins) (pw_sessions w)" by (rule sessions_ok_mono[OF ok]) auto
  have okv: "sessions_ok cf pins (pw_sessions v)" unfolding v_def by (rule sessions_ok_expire[OF ok])
  have okpv: "sessions_ok cf (known_pins cf inp pins) (pw_sessions v)" by (rule sessions_ok_mono[OF okv]) auto
  have early: ?thesis if "snd (pair cf inp args w) = w" using request_effect_same[OF okp] that by simp
  have late: ?thesis if "request_effect cf inp (known_pins cf inp pins) v (snd (pair cf inp args w))"
    using request_effect_expire[OF ok] that unfolding v_def by blast
  show ?thesis
  proof (cases "\<exists>key. map_of args ''uniqueid'' = Some key \<and> valid_unique_id key")
    case False
    then have "snd (pair cf inp args w) = w" by (auto simp: pair_def split: option.split)
    then show ?thesis by (rule early)
  next
    case True
    then obtain key where key: "map_of args ''uniqueid'' = Some key" "valid_unique_id key" by blast
    have "snd (pair cf inp args w) = (if map_of args ''phrase'' = Some ''getservercert'' then snd (start_pairing cf inp args key v)
        else if map_of args ''phrase'' = Some ''pairchallenge'' then v else snd (continue_pairing cf inp args key empty_tree v))"
      using key by (simp add: pair_def v_def[symmetric] Let_def)
    then have "request_effect cf inp (known_pins cf inp pins) v (snd (pair cf inp args w))"
      using start_effect[OF okv secret, of args key] request_effect_same[OF okpv] continue_effect[OF okpv secret] by simp
    then show ?thesis by (rule late)
  qed
qed

lemma pin_result:
  assumes ok: "sessions_ok cf pins (pw_sessions w)"
  shows "\<exists>b t. pin cf now code name w = Some (b, t) \<and> pw_registry t = pw_registry w \<and>
    sessions_ok cf (if b then code # pins else pins) (pw_sessions t) \<and> (b \<longrightarrow> length code = 4 \<and> list_all isdigit code)"
proof -
  define v where "v = expire_pairing_sessions now w"
  have okv: "sessions_ok cf pins (pw_sessions v)" unfolding v_def by (rule sessions_ok_expire[OF ok])
  have reg: "pw_registry v = pw_registry w" by (simp add: v_def)
  have unf: "pin cf now code name w =
     (if pw_sessions v = [] then Some (False, v)
      else if length code \<noteq> 4 then Some (False, v)
      else if \<not> list_all isdigit code then Some (False, v)
      else if length (pw_sessions v) \<noteq> 1 \<or> ps_last_phase (snd (hd (pw_sessions v))) \<noteq> Phase_none then Some (False, v)
      else let (key, sess) = hd (pw_sessions v) in
      if length (ps_salt sess) < 32 then Some (False, remove_session sess v)
      else case getservercert cf code key sess empty_tree v of (tree, w1) \<Rightarrow>
        (case map_of (pw_sessions w1) key of
           None \<Rightarrow> None
         | Some sess1 \<Rightarrow>
             if name \<noteq> '''' \<and> is_placeholder_client_name name then Some (False, remove_session sess1 w1)
             else let sess2 = (if name \<noteq> '''' then sess1\<lparr>ps_name := name\<rparr> else sess1); w2 = put_session key sess2 w1 in
               case ps_response sess2 of
                 None \<Rightarrow> Some (False, remove_session sess2 w2)
               | Some ch \<Rightarrow> Some (True, put_session key (sess2\<lparr>ps_response := None\<rparr>)
                   (w2\<lparr>pw_replies := pw_replies w2 @ [(ch, tree)]\<rparr>))))"
    unfolding pin_def v_def[symmetric] Let_def by (rule refl)
  show ?thesis
  proof (cases "pw_sessions v = [] \<or> length code \<noteq> 4 \<or> \<not> list_all isdigit code \<or> length (pw_sessions v) \<noteq> 1 \<or>
      ps_last_phase (snd (hd (pw_sessions v))) \<noteq> Phase_none")
    case True
    then have "pin cf now code name w = Some (False, v)" unfolding unf by auto
    with okv reg show ?thesis by (intro exI[of _ False] exI[of _ v]) simp
  next
    case False
    then obtain key s where s: "pw_sessions v = [(key, s)]" "session_ok cf pins key s" "ps_last_phase s = Phase_none"
      and code: "length code = 4" "list_all isdigit code" using okv by (auto simp: sessions_ok_def)
    have salt: "\<not> length (ps_salt s) < 32" "32 \<le> length (ps_salt s)" and uid: "ps_uniqueID s = key"
      using s(2) by (simp_all add: session_ok_def)
    define s1 where "s1 = s\<lparr>ps_last_phase := Get_server_cert, ps_cipher_key :=
       Some (gen_aes_key (pc_crypto cf) (from_hex 16 (take 32 (ps_salt s)) True) code)\<rparr>"
    obtain tree w1 where g: "getservercert cf code key s empty_tree v = (tree, w1)" "pw_sessions w1 = [(key, s1)]" "pw_registry w1 = pw_registry v"
      unfolding getservercert_fresh[OF s(3) salt(2)] using s(1) by (simp add: s1_def)
    have s1: "session_ok cf (code # pins) key s1" unfolding s1_def by (rule getservercert_ok[OF s(2,3)])
    have ids: "ps_uniqueID s1 = key" "ps_response s1 = ps_response s" using uid by (simp_all add: s1_def)
    define s2 where "s2 = (if name \<noteq> '''' then s1\<lparr>ps_name := name\<rparr> else s1)"
    have s2: "session_ok cf (code # pins) key (s2\<lparr>ps_response := None\<rparr>)" "ps_uniqueID s2 = key"
      using s1 ids by (simp_all add: s2_def session_ok_def)
    have eq: "pin cf now code name w =
        (if name \<noteq> '''' \<and> is_placeholder_client_name name then Some (False, remove_session s1 w1)
         else case ps_response s2 of
             None \<Rightarrow> Some (False, remove_session s2 (put_session key s2 w1))
           | Some ch \<Rightarrow> Some (True, put_session key (s2\<lparr>ps_response := None\<rparr>)
               ((put_session key s2 w1)\<lparr>pw_replies := pw_replies (put_session key s2 w1) @ [(ch, tree)]\<rparr>)))"
      unfolding unf using s code salt(1) g by (simp add: s2_def Let_def split: option.split)
    show ?thesis
    proof (cases "name \<noteq> '''' \<and> is_placeholder_client_name name")
      case True
      then show ?thesis unfolding eq using g ids reg by (intro exI[of _ False]) simp
    next
      case named: False
      show ?thesis
      proof (cases "ps_response s2")
        case None
        then show ?thesis unfolding eq if_not_P[OF named] using g s2(2) reg by (intro exI[of _ False]) simp
      next
        case (Some ch)
        then show ?thesis unfolding eq if_not_P[OF named] using g s2 reg code by (intro exI[of _ True]) simp
      qed
    qed
  qed
qed

text \<open>Runs of the pairing server, with the PINs that were accepted so far: those the administrator
  submitted, or with the option the lines read from standard input.\<close>

inductive pairing_run :: "'x pair_config \<Rightarrow> ('x, 'p) pair_world \<Rightarrow> string list \<Rightarrow> bool" for cf where
  start: "pw_sessions w = [] \<Longrightarrow> pairing_run cf w []"
| request: "pairing_run cf w pins \<Longrightarrow> pi_serversecret inp \<noteq> [] \<Longrightarrow>
     pairing_run cf (snd (pair cf inp args w)) (known_pins cf inp pins)"
| enter: "pairing_run cf w pins \<Longrightarrow> pin cf now code name w = Some (b, t) \<Longrightarrow> pairing_run cf t (if b then code # pins else pins)"
| expiry: "pairing_run cf w pins \<Longrightarrow> pairing_run cf (expire_pairing_sessions now w) pins"
| registry: "pairing_run cf w pins \<Longrightarrow> pairing_run cf (w\<lparr>pw_registry := r\<rparr>) pins"

lemma run_pending: "pairing_run cf w pins \<Longrightarrow> sessions_ok cf pins (pw_sessions w)"
proof (induction rule: pairing_run.induct)
  case (request w pins inp args)
  from pair_effect[OF request.IH request.hyps(2), of args] show ?case unfolding request_effect_def by blast
next
  case (enter w pins now code name b t)
  from pin_result[OF enter.IH, of now code name] enter.hyps(2) show ?case by auto
next
  case (expiry w pins now)
  from sessions_ok_expire[OF expiry.IH] show ?case .
qed simp_all

lemma run_pins: "pairing_run cf w pins \<Longrightarrow> \<not> pc_pin_stdin cf \<Longrightarrow> p \<in> set pins \<Longrightarrow> length p = 4 \<and> list_all isdigit p"
proof (induction rule: pairing_run.induct)
  case (enter w pins now code name b t)
  from pin_result[OF run_pending[OF enter.hyps(1)], of now code name] enter show ?case by (auto split: if_splits)
qed auto


section \<open>Properties\<close>

text \<open>
  (C2) A pairing request changes the registry of clients in one case only: the pending session reached
  the last phase, its AES key was derived from its salt and a PIN that was accepted before (four digits
  the administrator submitted, unless PINs are read from standard input), the client proved with that key
  the hash over the server challenge and signed its secret with the key of the certificate that is
  paired; and the session is consumed by it.
\<close>

theorem pairing_requires_pin:
  assumes run: "pairing_run cf w pins" and secret: "pi_serversecret inp \<noteq> []"
    and changed: "pw_registry (snd (pair cf inp args w)) \<noteq> pw_registry w"
  shows "\<exists>key s payload p k. pw_sessions w = [(key, s)] \<and> ps_last_phase s = Server_challenge_response \<and>
    p \<in> set (known_pins cf inp pins) \<and> (\<not> pc_pin_stdin cf \<longrightarrow> length p = 4 \<and> list_all isdigit p) \<and>
    ps_cipher_key s = Some k \<and> k = gen_aes_key (pc_crypto cf) (from_hex 16 (take 32 (ps_salt s)) True) p \<and>
    16 < length payload \<and> client_hash_matches (pc_crypto cf) s payload \<and> client_secret_verified (pc_crypto cf) s payload \<and>
    pw_registry (snd (pair cf inp args w)) =
      snd (add_authorized_client (cp_identity (pc_crypto cf)) (pi_env inp) (ps_name s) (ps_cert s) (pi_uuid inp) (pw_registry w)) \<and>
    pw_sessions (snd (pair cf inp args w)) = []"
proof -
  note ok = run_pending[OF run]
  let ?t = "snd (pair cf inp args w)"
  from pair_effect[OF ok secret, of args] changed obtain key s payload where
    s: "pw_sessions w = [(key, s)]" "session_ok cf (known_pins cf inp pins) key s" "ps_last_phase s = Server_challenge_response"
      "16 < length payload" "secret_accepted cf s payload" "pw_sessions ?t = []"
      "pw_registry ?t = snd (add_authorized_client (cp_identity (pc_crypto cf)) (pi_env inp) (ps_name s) (ps_cert s) (pi_uuid inp) (pw_registry w))"
    unfolding request_effect_def by blast
  obtain k where k: "ps_cipher_key s = Some k" using s(2,3) by (cases "ps_cipher_key s") (auto simp: session_ok_def)
  obtain p where p: "p \<in> set (known_pins cf inp pins)" "k = gen_aes_key (pc_crypto cf) (from_hex 16 (take 32 (ps_salt s)) True) p"
    using s(2) k unfolding session_ok_def by blast
  have "length p = 4 \<and> list_all isdigit p" if "\<not> pc_pin_stdin cf" using run_pins[OF run that] p(1) that by simp
  with s k p show ?thesis unfolding secret_accepted_def by blast
qed

text \<open> The certificate an administrator is about to approve cannot be swapped: there is never more than
  one pending session, and whatever a request sends, the session that is pending afterwards has the
  identifier and the certificate of the one pending before, unless that one had expired.
\<close>

theorem pending_identity_immutable:
  assumes run: "pairing_run cf w pins" and secret: "pi_serversecret inp \<noteq> []"
    and before: "map_of (pw_sessions w) key = Some s" "\<not> session_expired (pi_now inp) s"
    and after: "map_of (pw_sessions (snd (pair cf inp args w))) key' = Some s'"
  shows "length (pw_sessions (snd (pair cf inp args w))) = 1 \<and> key' = key \<and> ps_cert s' = ps_cert s"
proof -
  note ok = run_pending[OF run]
  let ?t = "snd (pair cf inp args w)"
  have w: "pw_sessions w = [(key, s)]" using ok before(1) by (auto simp: sessions_ok_def split: if_splits)
  have "pw_sessions (expire_pairing_sessions (pi_now inp) w) \<noteq> []" using before(2) by (simp add: w)
  with pair_effect[OF ok secret, of args] have e: "request_effect cf inp (known_pins cf inp pins) w ?t" by blast
  then have "sessions_ok cf (known_pins cf inp pins) (pw_sessions ?t)" unfolding request_effect_def by blast
  then have t: "pw_sessions ?t = [(key', s')]" using after by (auto simp: sessions_ok_def split: if_splits)
  with e w show ?thesis unfolding request_effect_def by auto
qed

text \<open>
  The PIN handler never uses a session it has removed: in every run it returns, without touching the
  registry, and it reports success only for a PIN of four digits that moved the pending session on.
\<close>

theorem pin_safe:
  assumes "pairing_run cf w pins"
  shows "\<exists>b t. pin cf now code name w = Some (b, t) \<and> pw_registry t = pw_registry w \<and> length (pw_sessions t) \<le> 1 \<and>
    (b \<longrightarrow> length code = 4 \<and> list_all isdigit code)"
proof -
  from pin_result[OF run_pending[OF assms], of now code name] obtain b t where
    t: "pin cf now code name w = Some (b, t)" "pw_registry t = pw_registry w"
      "sessions_ok cf (if b then code # pins else pins) (pw_sessions t)" "b \<longrightarrow> length code = 4 \<and> list_all isdigit code" by blast
  have "length (pw_sessions t) \<le> 1" using t(3) by (auto simp: sessions_ok_def)
  with t show ?thesis by blast
qed

text \<open>
  (C38) With PINs read from standard input, a first request that is accepted is answered as a failure: the
  session is stored and has its key, and the answer carries the server's certificate, but its status is
  400, Invalid uniqueid, because the handler goes on to look up the identifier that it moved into the
  session. The text left in the moved-from identifier is empty, as in the common C++ libraries.
\<close>

theorem stdin_pin_reports_invalid:
  assumes "pc_pin_stdin cf" "pw_sessions w = []" "valid_unique_id key" "valid_hex_field crt 2 max_pairing_hex_field_length"
    "valid_hex_field salt 32 128" "pi_moved_from inp = []"
  shows "\<exists>s t. pair cf inp [(''uniqueid'', key), (''phrase'', ''getservercert''), (''clientcert'', crt), (''salt'', salt)] w =
      (Some (empty_tree\<lparr>pt_paired := Some 1, pt_plaincert := Some (hex_vec (pc_servercert cf) True), pt_status_code := Some 400,
        pt_status_message := Some ''Invalid uniqueid''\<rparr>), t) \<and>
    pw_sessions t = [(key, s)] \<and> ps_cert s = decode_hex crt \<and> ps_last_phase s = Get_server_cert \<and>
    ps_cipher_key s = Some (gen_aes_key (pc_crypto cf) (from_hex 16 (take 32 salt) True) (pi_stdin inp))"
proof -
  have salt: "32 \<le> length salt" using assms(5) by (simp add: valid_hex_field_def)
  have key: "key \<noteq> []" using assms(3) by (auto simp: valid_unique_id_def)
  let ?s = "new_session (pi_now inp) key (decode_hex crt) salt"
  have fresh: "ps_last_phase ?s = Phase_none" "32 \<le> length (ps_salt ?s)" using salt by (simp_all add: new_session_def)
  have fields: "ps_cert ?s = decode_hex crt" "ps_salt ?s = salt" by (simp_all add: new_session_def)
  show ?thesis using assms key
    by (simp add: pair_def start_pairing_def arg_or_def Let_def admit_pending_session_def pairing_limits
        getservercert_fresh[OF fresh] continue_pairing_def fields)
qed


section \<open>Witnesses\<close>

text \<open>A complete pairing of one client, with a cipher, hash and signature that make the exchange short.\<close>

definition demo_pair_config :: "byte list pair_config" where
  "demo_pair_config = \<lparr>pc_crypto = \<lparr>cp_identity = demo_crypto, cp_hash = (\<lambda>_. []), cp_ecb_decrypt = (\<lambda>_ _. []),
       cp_ecb_encrypt = (\<lambda>_ b. b), cp_signature = (\<lambda>_. []), cp_sign256 = (\<lambda>_ _. []), cp_verify256 = (\<lambda>_ _ _. True)\<rparr>,
     pc_servercert = [1], pc_pkey = [2], pc_pin_stdin = False\<rparr>"

definition demo_pair_input :: pair_input where
  "demo_pair_input = \<lparr>pi_now = 0, pi_channel = 5, pi_serversecret = [3], pi_serverchallenge = [4], pi_stdin = '''',
     pi_env = demo_registry_env, pi_uuid = demo_uuid ''2'', pi_moved_from = []\<rparr>"

definition demo_pair0 :: "(byte list, unit) pair_world" where
  "demo_pair0 = \<lparr>pw_sessions = [], pw_replies = [], pw_registry = demo_registry0, pw_add_cert = []\<rparr>"

definition demo_pair1 :: "(byte list, unit) pair_world" where
  "demo_pair1 = snd (pair demo_pair_config demo_pair_input [(''uniqueid'', ''c''), (''phrase'', ''getservercert''),
     (''clientcert'', ''08''), (''salt'', replicate 32 (CHR ''0''))] demo_pair0)"

definition demo_pair2 :: "(byte list, unit) pair_world" where
  "demo_pair2 = snd (the (pin demo_pair_config 0 ''1234'' ''tv'' demo_pair1))"

definition demo_pair3 :: "(byte list, unit) pair_world" where
  "demo_pair3 = snd (pair demo_pair_config demo_pair_input [(''uniqueid'', ''c''), (''clientchallenge'', ''00'')] demo_pair2)"

definition demo_pair4 :: "(byte list, unit) pair_world" where
  "demo_pair4 = snd (pair demo_pair_config demo_pair_input [(''uniqueid'', ''c''), (''serverchallengeresp'', ''00'')] demo_pair3)"

abbreviation demo_secret :: "(string, string) umap" where
  "demo_secret \<equiv> [(''uniqueid'', ''c''), (''clientpairingsecret'', replicate 34 (CHR ''0''))]"

lemma demo_pair_run:
  "pairing_run demo_pair_config demo_pair1 []" "pairing_run demo_pair_config demo_pair4 [''1234'']"
proof -
  have s: "pi_serversecret demo_pair_input \<noteq> []" by (simp add: demo_pair_input_def)
  have k: "known_pins demo_pair_config demo_pair_input pins = pins" for pins by (simp add: demo_pair_config_def)
  have r0: "pairing_run demo_pair_config demo_pair0 []" by (rule pairing_run.start) (simp add: demo_pair0_def)
  show r1: "pairing_run demo_pair_config demo_pair1 []"
    using pairing_run.request[OF r0 s] unfolding demo_pair1_def k .
  have p: "pin demo_pair_config 0 ''1234'' ''tv'' demo_pair1 \<noteq> None" "fst (the (pin demo_pair_config 0 ''1234'' ''tv'' demo_pair1))"
    by code_simp+
  then have "pin demo_pair_config 0 ''1234'' ''tv'' demo_pair1 = Some (True, demo_pair2)"
    by (auto simp: demo_pair2_def prod_eq_iff)
  from pairing_run.enter[OF r1 this] have r2: "pairing_run demo_pair_config demo_pair2 [''1234'']" by simp
  have r3: "pairing_run demo_pair_config demo_pair3 [''1234'']" using pairing_run.request[OF r2 s] unfolding demo_pair3_def k .
  show "pairing_run demo_pair_config demo_pair4 [''1234'']" using pairing_run.request[OF r3 s] unfolding demo_pair4_def k .
qed

theorem pairing_requires_pin_witness:
  "length (ct_named_devices (rg_client_root (pw_registry (snd (pair demo_pair_config demo_pair_input demo_secret demo_pair4))))) = 2 \<and>
   pw_sessions (snd (pair demo_pair_config demo_pair_input demo_secret demo_pair4)) = []"
proof
  let ?t = "snd (pair demo_pair_config demo_pair_input demo_secret demo_pair4)"
  show n: "length (ct_named_devices (rg_client_root (pw_registry ?t))) = 2" by code_simp
  have "length (ct_named_devices (rg_client_root (pw_registry demo_pair4))) = 1" by code_simp
  with n have "pw_registry ?t \<noteq> pw_registry demo_pair4" by auto
  from pairing_requires_pin[OF demo_pair_run(2) _ this] show "pw_sessions ?t = []" by (auto simp: demo_pair_input_def)
qed

theorem pending_identity_immutable_witness:
  "map_option ps_cert (map_of (pw_sessions (snd (pair demo_pair_config demo_pair_input [(''uniqueid'', ''c''),
      (''phrase'', ''getservercert''), (''clientcert'', ''09''), (''salt'', replicate 32 (CHR ''0''))] demo_pair1))) ''c'') = Some [8]"
proof -
  let ?t = "snd (pair demo_pair_config demo_pair_input [(''uniqueid'', ''c''), (''phrase'', ''getservercert''), (''clientcert'', ''09''),
      (''salt'', replicate 32 (CHR ''0''))] demo_pair1)"
  have b: "map_of (pw_sessions demo_pair1) ''c'' \<noteq> None" "map_of (pw_sessions ?t) ''c'' \<noteq> None" by code_simp+
  then obtain s s' where s: "map_of (pw_sessions demo_pair1) ''c'' = Some s" "map_of (pw_sessions ?t) ''c'' = Some s'" by auto
  have "map_option (\<lambda>s. (ps_cert s, session_expired 0 s)) (map_of (pw_sessions demo_pair1) ''c'') = Some ([8], False)" by code_simp
  then have "ps_cert s = [8]" "\<not> session_expired (pi_now demo_pair_input) s" using s by (simp_all add: demo_pair_input_def)
  with pending_identity_immutable[OF demo_pair_run(1) _ s(1) _ s(2)] show ?thesis using s by (simp add: demo_pair_input_def)
qed

theorem pin_safe_witness:
  "\<exists>b t. pin demo_pair_config 0 ''12x4'' '''' demo_pair1 = Some (b, t) \<and> pw_registry t = pw_registry demo_pair1 \<and> \<not> b"
proof -
  from pin_safe[OF demo_pair_run(1), of 0 "''12x4''" "''''"] obtain b t where
    t: "pin demo_pair_config 0 ''12x4'' '''' demo_pair1 = Some (b, t)" "pw_registry t = pw_registry demo_pair1"
      "b \<longrightarrow> length ''12x4'' = 4 \<and> list_all isdigit ''12x4''" by blast
  moreover have "\<not> list_all isdigit ''12x4''" by code_simp
  ultimately show ?thesis by blast
qed

theorem stdin_pin_reports_invalid_witness:
  "map_option pt_status_code (fst (pair (demo_pair_config\<lparr>pc_pin_stdin := True\<rparr>) demo_pair_input
     [(''uniqueid'', ''c''), (''phrase'', ''getservercert''), (''clientcert'', ''08''), (''salt'', replicate 32 (CHR ''0''))] demo_pair0)) =
   Some (Some 400)"
proof -
  have "valid_unique_id ''c''" "valid_hex_field ''08'' 2 max_pairing_hex_field_length" "valid_hex_field (replicate 32 (CHR ''0'')) 32 128"
    by code_simp+
  then show ?thesis
    using stdin_pin_reports_invalid[of "demo_pair_config\<lparr>pc_pin_stdin := True\<rparr>" demo_pair0 "''c''" "''08''"
        "replicate 32 (CHR ''0'')" demo_pair_input]
    by (auto simp: demo_pair0_def demo_pair_input_def)
qed

end
