(* ===== verification/Fit_Index.thy ===== *)
theory Fit_Index
  imports Vibe_Prelude
begin

text \<open>
  The first-fit index of the PyroWave frame writer (class \<^verbatim>\<open>fit_index_t\<close> of
  \<^verbatim>\<open>src/src/pyrowave_policy.cpp\<close>): records bucketed by size by a counting sort, and a minimum
  segment tree over the buckets, so that the earliest remaining record of at most a given size is a
  range query. The locale \<open>first_fit\<close> is what the writer relies on: each operation acts on the set
  of records that remain. Vectors are lists, indices naturals; the marker for no record is the largest
  64-bit value.
\<close>

section \<open>The index\<close>

definition NONE :: nat where "NONE = 2 ^ 64 - 1"
definition LEAVES :: nat where "LEAVES = 4096"

record fit_index_t =
  fi_heads :: "nat list"
  fi_ends :: "nat list"
  fi_order :: "nat list"
  fi_tree :: "nat list"

definition count_sizes :: "nat list \<Rightarrow> nat list" where
  "count_sizes words = fold (\<lambda>w heads. heads[w + 1 := heads ! (w + 1) + 1]) words (replicate (LEAVES + 1) 0)"

definition start_bucket :: "nat \<Rightarrow> nat list \<times> nat list \<Rightarrow> nat list \<times> nat list" where
  "start_bucket b s = (case s of (heads, ends) \<Rightarrow>
     let heads' = heads[b + 1 := heads ! (b + 1) + heads ! b] in (heads', ends[b := heads' ! (b + 1)]))"

definition fill_bucket :: "nat list \<Rightarrow> nat \<Rightarrow> nat list \<times> nat list \<Rightarrow> nat list \<times> nat list" where
  "fill_bucket words i s = (case s of (fill, order) \<Rightarrow>
     (fill[words ! i := fill ! (words ! i) + 1], order[fill ! (words ! i) := i]))"

definition leaf :: "nat list \<Rightarrow> nat list \<Rightarrow> nat list \<Rightarrow> nat \<Rightarrow> nat" where
  "leaf heads ends order b = (if heads ! b < ends ! b then order ! (heads ! b) else NONE)"

definition pull :: "nat \<Rightarrow> nat list \<Rightarrow> nat list" where
  "pull n tree = tree[n := min (tree ! (2 * n)) (tree ! (2 * n + 1))]"

definition fit_new :: "nat list \<Rightarrow> fit_index_t" where
  "fit_new words =
     (case fold start_bucket [0..<LEAVES] (count_sizes words, replicate LEAVES 0) of (heads, ends) \<Rightarrow>
        let order = snd (fold (fill_bucket words) [0..<length words] (take LEAVES heads, replicate (length words) 0));
            leaves = fold (\<lambda>b tree. tree[LEAVES + b := leaf heads ends order b]) [0..<LEAVES] (replicate (2 * LEAVES) NONE)
        in \<lparr>fi_heads = heads, fi_ends = ends, fi_order = order, fi_tree = fold pull (rev [1..<LEAVES]) leaves\<rparr>)"

function prefix_min :: "nat list \<Rightarrow> nat \<Rightarrow> nat \<Rightarrow> nat \<Rightarrow> nat" where
  "prefix_min tree best lo hi =
     (if lo < hi
      then let (best1, lo1) = (if odd lo then (min best (tree ! lo), lo + 1) else (best, lo));
               (best2, hi1) = (if odd hi then (min best1 (tree ! (hi - 1)), hi - 1) else (best1, hi))
           in prefix_min tree best2 (lo1 div 2) (hi1 div 2)
      else best)"
  by pat_completeness auto

termination by (relation "measure (\<lambda>(_, _, lo, hi). hi - lo)") (auto split: if_splits)

declare prefix_min.simps [simp del]

definition earliest_fitting :: "nat \<Rightarrow> fit_index_t \<Rightarrow> nat" where
  "earliest_fitting max_words f =
     (if max_words = 0 then NONE
      else prefix_min (fi_tree f) NONE LEAVES (LEAVES + min max_words (LEAVES - 1) + 1))"

definition earliest_exact :: "nat \<Rightarrow> fit_index_t \<Rightarrow> nat" where
  "earliest_exact words f = (if words < LEAVES then fi_tree f ! (LEAVES + words) else NONE)"

fun pull_up :: "nat \<Rightarrow> nat list \<Rightarrow> nat list" where
  "pull_up n tree = (if n = 0 then tree else pull_up (n div 2) (pull n tree))"

declare pull_up.simps [simp del]

definition fit_remove :: "nat \<Rightarrow> fit_index_t \<Rightarrow> fit_index_t" where
  "fit_remove words f =
     (let heads = (fi_heads f)[words := fi_heads f ! words + 1];
          tree = (fi_tree f)[LEAVES + words := leaf heads (fi_ends f) (fi_order f) words]
      in f\<lparr>fi_heads := heads, fi_tree := pull_up ((LEAVES + words) div 2) tree\<rparr>)"

section \<open>What the writer relies on\<close>

text \<open>The records that remain, in frame order, and the earliest of those whose size satisfies a predicate.\<close>

definition remaining_with :: "nat list \<Rightarrow> nat set \<Rightarrow> (nat \<Rightarrow> bool) \<Rightarrow> nat list" where
  "remaining_with words R P = filter (\<lambda>i. i \<in> R \<and> P (words ! i)) [0..<length words]"

definition earliest :: "nat list \<Rightarrow> nat set \<Rightarrow> (nat \<Rightarrow> bool) \<Rightarrow> nat" where
  "earliest words R P = (case remaining_with words R P of [] \<Rightarrow> NONE | i # _ \<Rightarrow> i)"

definition sizes_ok :: "nat list \<Rightarrow> bool" where
  "sizes_ok words \<longleftrightarrow> length words < NONE \<and> list_all (\<lambda>w. 0 < w \<and> w < LEAVES) words"

lemma filter_head:
  assumes "filter P [0..<n] = i # is"
  shows "i < n" "P i" "\<And>j. j < i \<Longrightarrow> \<not> P j"
proof -
  from assms obtain us vs where e: "[0..<n] = us @ i # vs" and u: "\<forall>x\<in>set us. \<not> P x" and p: "P i"
    unfolding filter_eq_Cons_iff by blast
  have l: "length us < n" using arg_cong[OF e, of length] by simp
  have "[0..<n] ! length us = i" unfolding e by simp
  then have i: "i = length us" using l by simp
  have "take (length us) [0..<n] = us" unfolding e by simp
  then have "[0..<i] = us" using l by (simp add: i)
  then have "set us = {0..<i}" by (metis set_upt)
  then show "i < n" "P i" "\<And>j. j < i \<Longrightarrow> \<not> P j" using l p u i by auto
qed

lemma earliest_found:
  assumes "earliest words R P = i" "i \<noteq> NONE"
  shows "i \<in> R" "i < length words" "P (words ! i)" "\<And>j. j < i \<Longrightarrow> j \<in> R \<Longrightarrow> \<not> P (words ! j)"
proof -
  from assms obtain js where "remaining_with words R P = i # js" unfolding earliest_def by (auto split: list.splits)
  note h = filter_head[OF this[unfolded remaining_with_def]]
  show "i < length words" by (rule h(1))
  show "i \<in> R" "P (words ! i)" using h(2) by simp_all
  show "\<And>j. j < i \<Longrightarrow> j \<in> R \<Longrightarrow> \<not> P (words ! j)" using h(3) by blast
qed

lemma earliest_none:
  assumes "earliest words R P = NONE" "length words < NONE" "i \<in> R" "i < length words"
  shows "\<not> P (words ! i)"
proof (cases "remaining_with words R P")
  case Nil
  then show ?thesis using assms(3,4) unfolding remaining_with_def filter_empty_conv by auto
next
  case (Cons j js)
  then have "j < length words" unfolding remaining_with_def by (rule filter_head)
  with Cons assms(1,2) show ?thesis by (simp add: earliest_def)
qed

lemma earliestI:
  assumes "i \<in> R" "i < length words" "P (words ! i)" "\<And>j. j < i \<Longrightarrow> j \<in> R \<Longrightarrow> \<not> P (words ! j)"
  shows "earliest words R P = i"
proof (cases "remaining_with words R P")
  case Nil
  then show ?thesis using assms(1-3) unfolding remaining_with_def filter_empty_conv by auto
next
  case (Cons j js)
  from filter_head[OF this[unfolded remaining_with_def]] assms have "j = i" by (metis linorder_neqE_nat)
  with Cons show ?thesis by (simp add: earliest_def)
qed

locale first_fit =
  fixes represents :: "nat list \<Rightarrow> nat set \<Rightarrow> 'f \<Rightarrow> bool"
    and fresh :: "nat list \<Rightarrow> 'f"
    and fitting :: "nat \<Rightarrow> 'f \<Rightarrow> nat"
    and exact :: "nat \<Rightarrow> 'f \<Rightarrow> nat"
    and remove :: "nat \<Rightarrow> 'f \<Rightarrow> 'f"
  assumes fresh: "sizes_ok words \<Longrightarrow> represents words {0..<length words} (fresh words)"
    and fitting: "represents words R f \<Longrightarrow> fitting m f = earliest words R (\<lambda>w. w \<le> m)"
    and exact: "represents words R f \<Longrightarrow> exact w f = earliest words R (\<lambda>v. v = w)"
    and remove: "represents words R f \<Longrightarrow> earliest words R (\<lambda>v. v = w) \<noteq> NONE \<Longrightarrow>
      represents words (R - {earliest words R (\<lambda>v. v = w)}) (remove w f)"
    and sizes: "represents words R f \<Longrightarrow> sizes_ok words \<and> R \<subseteq> {0..<length words}"
begin

text \<open>Whatever rule chose a record, removing one of its size removes it: it is the earliest of its bucket.\<close>

lemma take_chosen:
  assumes f: "represents words R f" and i: "earliest words R P = i" "i \<noteq> NONE"
  shows "represents words (R - {i}) (remove (words ! i) f)"
proof -
  note e = earliest_found[OF i]
  have "\<not> words ! j = words ! i" if "j < i" "j \<in> R" for j using e(4)[OF that] e(3) by metis
  then have "earliest words R (\<lambda>v. v = words ! i) = i" using e(1,2) by (intro earliestI) auto
  with remove[OF f, of "words ! i"] i(2) show ?thesis by simp
qed

end

section \<open>The segment tree\<close>

definition tree_ok :: "nat list \<Rightarrow> bool" where
  "tree_ok t \<longleftrightarrow> length t = 2 * LEAVES \<and> (\<forall>n. 0 < n \<and> n < LEAVES \<longrightarrow> t ! n = min (t ! (2 * n)) (t ! (2 * n + 1)))"

text \<open>The minimum of a range of nodes; halving a range with even ends does not change it.\<close>

definition range_min :: "nat list \<Rightarrow> nat \<Rightarrow> nat \<Rightarrow> nat" where
  "range_min t lo hi = fold (\<lambda>n m. min m (t ! n)) [lo..<hi] NONE"

lemma range_min_empty [simp]: "hi \<le> lo \<Longrightarrow> range_min t lo hi = NONE"
  by (simp add: range_min_def)

lemma range_min_last: "lo \<le> hi \<Longrightarrow> range_min t lo (Suc hi) = min (range_min t lo hi) (t ! hi)"
  by (simp add: range_min_def)

lemma range_min_first: "lo < hi \<Longrightarrow> range_min t lo hi = min (t ! lo) (range_min t (Suc lo) hi)"
proof (induction hi)
  case (Suc hi)
  then show ?case by (cases "lo = hi") (auto simp: range_min_last min.commute min.assoc)
qed simp

lemma range_min_halve:
  assumes "tree_ok t" "0 < lo" "hi \<le> LEAVES"
  shows "range_min t (2 * lo) (2 * hi) = range_min t lo hi"
  using assms(3)
proof (induction hi)
  case (Suc hi)
  show ?case
  proof (cases "lo \<le> hi")
    case True
    with Suc assms have "t ! hi = min (t ! (2 * hi)) (t ! (2 * hi + 1))" by (simp add: tree_ok_def)
    with True Suc show ?thesis by (simp add: range_min_last min.assoc)
  qed (use assms in simp)
qed simp

lemma prefix_min_range:
  assumes "tree_ok t"
  shows "0 < lo \<Longrightarrow> hi \<le> 2 * LEAVES \<Longrightarrow> best \<le> NONE \<Longrightarrow> prefix_min t best lo hi = min best (range_min t lo hi)"
proof (induction hi arbitrary: best lo rule: less_induct)
  case (less hi)
  show ?case
  proof (cases "lo < hi")
    case False
    then show ?thesis using less.prems by (simp add: prefix_min.simps)
  next
    case True
    define best1 where "best1 = (if odd lo then min best (t ! lo) else best)"
    define lo1 where "lo1 = (if odd lo then lo + 1 else lo)"
    define best2 where "best2 = (if odd hi then min best1 (t ! (hi - 1)) else best1)"
    define hi1 where "hi1 = (if odd hi then hi - 1 else hi)"
    have step: "prefix_min t best lo hi = prefix_min t best2 (lo1 div 2) (hi1 div 2)"
      using True by (simp add: prefix_min.simps[of t best lo hi] best1_def lo1_def best2_def hi1_def)
    have lo1: "even lo1" "2 \<le> lo1" using less.prems(1) by (auto simp: lo1_def elim!: oddE evenE)
    have hi1: "even hi1" "hi1 \<le> hi" by (auto simp: hi1_def)
    have 1: "min best (range_min t lo hi) = min best1 (range_min t lo1 hi)"
      using range_min_first[OF True, of t] by (auto simp: best1_def lo1_def min.assoc)
    have "odd hi \<Longrightarrow> lo1 \<le> hi - 1" using True by (auto simp: lo1_def elim!: oddE evenE)
    then have 2: "min best1 (range_min t lo1 hi) = min best2 (range_min t lo1 hi1)"
      using range_min_last[of lo1 "hi - 1" t] True by (auto simp: best2_def hi1_def min.assoc min.commute min.left_commute)
    have "range_min t (2 * (lo1 div 2)) (2 * (hi1 div 2)) = range_min t (lo1 div 2) (hi1 div 2)"
      using range_min_halve[OF assms, of "lo1 div 2" "hi1 div 2"] lo1 hi1 less.prems(2) by simp
    then have 3: "range_min t lo1 hi1 = range_min t (lo1 div 2) (hi1 div 2)" using lo1(1) hi1(1) by simp
    have "best2 \<le> NONE" using less.prems(3) by (auto simp: best1_def best2_def min_le_iff_disj)
    moreover have "hi1 div 2 < hi" "hi1 div 2 \<le> 2 * LEAVES" "0 < lo1 div 2" using True hi1 lo1 less.prems(2) by auto
    ultimately have "prefix_min t best2 (lo1 div 2) (hi1 div 2) = min best2 (range_min t (lo1 div 2) (hi1 div 2))"
      by (intro less.IH)
    with 1 2 3 step show ?thesis by simp
  qed
qed

lemma pull_up_ok:
  assumes "length t = 2 * LEAVES" "n < LEAVES"
    and "\<forall>m. 0 < m \<and> m < LEAVES \<and> m \<noteq> n \<longrightarrow> t ! m = min (t ! (2 * m)) (t ! (2 * m + 1))"
  shows "tree_ok (pull_up n t) \<and> (\<forall>m \<ge> LEAVES. pull_up n t ! m = t ! m)"
  using assms
proof (induction n t rule: pull_up.induct)
  case (1 n t)
  show ?case
  proof (cases "n = 0")
    case True
    with "1.prems" show ?thesis by (simp add: pull_up.simps tree_ok_def)
  next
    case False
    have "tree_ok (pull_up (n div 2) (pull n t)) \<and> (\<forall>m \<ge> LEAVES. pull_up (n div 2) (pull n t) ! m = pull n t ! m)"
    proof (rule "1.IH"[OF False])
      show "length (pull n t) = 2 * LEAVES" "n div 2 < LEAVES" using "1.prems" by (auto simp: pull_def)
      show "\<forall>m. 0 < m \<and> m < LEAVES \<and> m \<noteq> n div 2 \<longrightarrow> pull n t ! m = min (pull n t ! (2 * m)) (pull n t ! (2 * m + 1))"
      proof (intro allI impI)
        fix m assume m: "0 < m \<and> m < LEAVES \<and> m \<noteq> n div 2"
        then have "2 * m \<noteq> n" "2 * m + 1 \<noteq> n" by auto
        with m "1.prems" False show "pull n t ! m = min (pull n t ! (2 * m)) (pull n t ! (2 * m + 1))"
          by (cases "m = n") (auto simp: pull_def)
      qed
    qed
    moreover have "\<forall>m \<ge> LEAVES. pull n t ! m = t ! m" using "1.prems"(2) by (simp add: pull_def)
    ultimately show ?thesis using False by (simp add: pull_up.simps[of n t])
  qed
qed

lemma pull_all_ok:
  assumes "length t = 2 * LEAVES"
  shows "tree_ok (fold pull (rev [1..<LEAVES]) t) \<and> (\<forall>m \<ge> LEAVES. fold pull (rev [1..<LEAVES]) t ! m = t ! m)"
proof -
  have "length (fold pull (rev [k..<LEAVES]) t) = 2 * LEAVES \<and>
      (\<forall>n. k \<le> n \<and> n < LEAVES \<longrightarrow> fold pull (rev [k..<LEAVES]) t ! n =
         min (fold pull (rev [k..<LEAVES]) t ! (2 * n)) (fold pull (rev [k..<LEAVES]) t ! (2 * n + 1))) \<and>
      (\<forall>m \<ge> LEAVES. fold pull (rev [k..<LEAVES]) t ! m = t ! m)" if "0 < k" "k \<le> LEAVES" for k
    using that(2,1)
  proof (induction k rule: inc_induct)
    case base
    then show ?case using assms by simp
  next
    case (step k)
    let ?u = "fold pull (rev [Suc k..<LEAVES]) t"
    have e: "fold pull (rev [k..<LEAVES]) t = pull k ?u" using step.hyps by (simp add: upt_rec[of k])
    have u: "length ?u = 2 * LEAVES" "\<forall>n. Suc k \<le> n \<and> n < LEAVES \<longrightarrow> ?u ! n = min (?u ! (2 * n)) (?u ! (2 * n + 1))"
      "\<forall>m \<ge> LEAVES. ?u ! m = t ! m" using step.IH by auto
    show ?case unfolding e
    proof (intro conjI allI impI)
      show "length (pull k ?u) = 2 * LEAVES" using u(1) by (simp add: pull_def)
      show "pull k ?u ! m = t ! m" if "LEAVES \<le> m" for m using that u(3) step.hyps by (simp add: pull_def)
      show "pull k ?u ! n = min (pull k ?u ! (2 * n)) (pull k ?u ! (2 * n + 1))" if n: "k \<le> n \<and> n < LEAVES" for n
        using n u(1,2) step.prems by (cases "n = k") (auto simp: pull_def)
    qed
  qed
  from this[of 1] show ?thesis by (auto simp: tree_ok_def LEAVES_def Suc_le_eq)
qed

section \<open>The counting sort\<close>

definition rank :: "nat list \<Rightarrow> nat \<Rightarrow> nat" where
  "rank words b = length (filter (\<lambda>w. w < b) words)"

lemma rank_0 [simp]: "rank words 0 = 0"
  by (simp add: rank_def)

lemma rank_Suc: "rank words (Suc b) = rank words b + count_list words b"
  by (induction words) (auto simp: rank_def)

lemma rank_mono: "a \<le> b \<Longrightarrow> rank words a \<le> rank words b"
  by (induction words) (auto simp: rank_def)

lemma rank_le: "rank words b \<le> length words"
  by (simp add: rank_def)

lemma count_sizes_nth:
  assumes "list_all (\<lambda>w. w < LEAVES) words"
  shows "length (count_sizes words) = LEAVES + 1 \<and> count_sizes words ! 0 = 0 \<and>
    (\<forall>b < LEAVES. count_sizes words ! (b + 1) = count_list words b)"
proof -
  let ?f = "\<lambda>w (heads :: nat list). heads[w + 1 := heads ! (w + 1) + 1]"
  have "length (fold ?f ws h) = LEAVES + 1 \<and> fold ?f ws h ! 0 = h ! 0 \<and>
      (\<forall>b < LEAVES. fold ?f ws h ! (b + 1) = h ! (b + 1) + count_list ws b)"
    if "list_all (\<lambda>w. w < LEAVES) ws" "length h = LEAVES + 1" for ws h
    using that
  proof (induction ws arbitrary: h)
    case (Cons w ws)
    have "list_all (\<lambda>w. w < LEAVES) ws" "length (?f w h) = LEAVES + 1" using Cons.prems by simp_all
    from Cons.IH[OF this] show ?case using Cons.prems by (auto simp: nth_list_update)
  qed simp
  from this[OF assms, of "replicate (LEAVES + 1) 0"] show ?thesis by (simp add: count_sizes_def del: replicate_Suc)
qed

lemma start_buckets:
  assumes "list_all (\<lambda>w. w < LEAVES) words"
    and "fold start_bucket [0..<LEAVES] (count_sizes words, replicate LEAVES 0) = (heads, ends)"
  shows "length heads = LEAVES + 1" "length ends = LEAVES" "\<And>b. b \<le> LEAVES \<Longrightarrow> heads ! b = rank words b"
    "\<And>b. b < LEAVES \<Longrightarrow> ends ! b = rank words (Suc b)"
proof -
  note c = count_sizes_nth[OF assms(1)]
  have "case fold start_bucket [0..<k] (count_sizes words, replicate LEAVES 0) of (heads, ends) \<Rightarrow>
      length heads = LEAVES + 1 \<and> length ends = LEAVES \<and> (\<forall>b \<le> k. heads ! b = rank words b) \<and>
      (\<forall>b. k < b \<and> b \<le> LEAVES \<longrightarrow> heads ! b = count_sizes words ! b) \<and> (\<forall>b < k. ends ! b = rank words (Suc b))"
    if "k \<le> LEAVES" for k
    using that
  proof (induction k)
    case 0
    then show ?case using c by simp
  next
    case (Suc k)
    obtain h e where s: "fold start_bucket [0..<k] (count_sizes words, replicate LEAVES 0) = (h, e)" by fastforce
    with Suc have i: "length h = LEAVES + 1" "length e = LEAVES" "\<forall>b \<le> k. h ! b = rank words b"
      "\<forall>b. k < b \<and> b \<le> LEAVES \<longrightarrow> h ! b = count_sizes words ! b" "\<forall>b < k. e ! b = rank words (Suc b)" by auto
    have "h ! Suc k = count_list words k" using i(4) c Suc.prems by simp
    moreover have "fold start_bucket [0..<Suc k] (count_sizes words, replicate LEAVES 0) =
        (h[Suc k := h ! Suc k + h ! k], e[k := h ! Suc k + h ! k])"
      using s i(1) Suc.prems by (simp add: start_bucket_def Let_def)
    moreover have "Suc k < length h" using i(1) Suc.prems by simp
    ultimately show ?case using i Suc.prems
      by (auto simp: nth_list_update le_Suc_eq less_Suc_eq rank_Suc add.commute)
  qed
  from this[of LEAVES] assms(2) show "length heads = LEAVES + 1" "length ends = LEAVES"
    "\<And>b. b \<le> LEAVES \<Longrightarrow> heads ! b = rank words b" "\<And>b. b < LEAVES \<Longrightarrow> ends ! b = rank words (Suc b)" by auto
qed

lemma count_take_less:
  "k < length words \<Longrightarrow> count_list (take k words) (words ! k) < count_list words (words ! k)"
proof -
  assume k: "k < length words"
  have "words = take k words @ words ! k # drop (Suc k) words" using k by (rule id_take_nth_drop)
  then have "count_list words (words ! k) = count_list (take k words @ words ! k # drop (Suc k) words) (words ! k)"
    by (rule arg_cong)
  then show ?thesis by simp
qed

lemma count_take_le: "count_list (take k words) b \<le> count_list words b"
proof -
  have "count_list words b = count_list (take k words @ drop k words) b" by simp
  then show ?thesis by (simp only: count_list_append)
qed

lemma fill_buckets:
  assumes w: "list_all (\<lambda>w. w < LEAVES) words" and fill0: "length fill0 = LEAVES" "\<And>b. b < LEAVES \<Longrightarrow> fill0 ! b = rank words b"
    and run: "fold (fill_bucket words) [0..<length words] (fill0, replicate (length words) 0) = (fill, order)"
  shows "b < LEAVES \<Longrightarrow> map ((!) order) [rank words b..<rank words (Suc b)] = filter (\<lambda>i. words ! i = b) [0..<length words]"
proof -
  let ?n = "length words" and ?f = "fill_bucket words"
  have inv: "length (fst s) = LEAVES \<and> length (snd s) = ?n \<and>
      (\<forall>b < LEAVES. fst s ! b = rank words b + count_list (take k words) b \<and>
         map ((!) (snd s)) [rank words b..<fst s ! b] = filter (\<lambda>i. words ! i = b) [0..<k])"
    if "k \<le> ?n" "s = fold ?f [0..<k] (fill0, replicate ?n 0)" for k s
    using that
  proof (induction k arbitrary: s)
    case 0
    then show ?case using fill0 by simp
  next
    case (Suc k)
    obtain fl od where s0: "fold ?f [0..<k] (fill0, replicate ?n 0) = (fl, od)" by fastforce
    let ?b = "words ! k" and ?p = "fl ! (words ! k)"
    have i: "length fl = LEAVES" "length od = ?n" "\<And>b. b < LEAVES \<Longrightarrow> fl ! b = rank words b + count_list (take k words) b"
      "\<And>b. b < LEAVES \<Longrightarrow> map ((!) od) [rank words b..<fl ! b] = filter (\<lambda>i. words ! i = b) [0..<k]"
      using Suc.IH[of "(fl, od)"] Suc.prems(1) s0 by auto
    have "s = ?f k (fl, od)" using Suc.prems(2) s0 by simp
    then have s: "s = (fl[?b := ?p + 1], od[?p := k])" by (simp add: fill_bucket_def)
    have bl: "?b < LEAVES" using w Suc.prems(1) by (simp add: list_all_length)
    have p: "rank words ?b \<le> ?p" "?p < rank words (Suc ?b)"
      using i(3)[OF bl] count_take_less[of k words] Suc.prems(1) by (auto simp: rank_Suc)
    then have pn: "?p < length od" using rank_le[of words "Suc ?b"] i(2) by simp
    have "fst s ! b = rank words b + count_list (take (Suc k) words) b" if "b < LEAVES" for b
      using i(1,3) that bl Suc.prems(1) by (auto simp: s take_Suc_conv_app_nth nth_list_update)
    moreover have "map ((!) (snd s)) [rank words b..<fst s ! b] = filter (\<lambda>i. words ! i = b) [0..<Suc k]" if b: "b < LEAVES" for b
    proof (cases "b = ?b")
      case True
      have "map ((!) (od[?p := k])) [rank words ?b..<?p] = map ((!) od) [rank words ?b..<?p]" by (rule map_cong) auto
      then show ?thesis using i(1) i(4)[OF bl] bl p(1) pn by (simp add: s True)
    next
      case False
      have "fl ! b \<le> rank words (Suc b)" using i(3)[OF b] count_take_le[of k words b] by (simp add: rank_Suc)
      then have "j \<noteq> ?p" if "rank words b \<le> j" "j < fl ! b" for j
        using that p False rank_mono[of "Suc b" ?b words] rank_mono[of "Suc ?b" b words] by (cases "b < ?b") auto
      then have "map ((!) (od[?p := k])) [rank words b..<fl ! b] = map ((!) od) [rank words b..<fl ! b]"
        by (intro map_cong refl) (metis atLeastLessThan_iff nth_list_update_neq set_upt)
      then show ?thesis using i(4)[OF b] False by (simp add: s)
    qed
    ultimately show ?case using i(1,2) s by simp
  qed
  assume b: "b < LEAVES"
  have "\<forall>b < LEAVES. fill ! b = rank words b + count_list words b \<and>
      map ((!) order) [rank words b..<fill ! b] = filter (\<lambda>i. words ! i = b) [0..<?n]"
    using inv[OF le_refl refl] unfolding run fst_conv snd_conv take_all[OF le_refl] by (elim conjE)
  from this[rule_format, OF b]
  show "map ((!) order) [rank words b..<rank words (Suc b)] = filter (\<lambda>i. words ! i = b) [0..<?n]"
    unfolding rank_Suc by (elim conjE) (simp only:)
qed

section \<open>The index represents the records that remain\<close>

definition fit_rep :: "nat list \<Rightarrow> nat set \<Rightarrow> fit_index_t \<Rightarrow> bool" where
  "fit_rep words R f \<longleftrightarrow> sizes_ok words \<and> R \<subseteq> {0..<length words} \<and> length (fi_heads f) = LEAVES + 1 \<and>
     (\<forall>b < LEAVES. map ((!) (fi_order f)) [fi_heads f ! b..<fi_ends f ! b] = remaining_with words R (\<lambda>v. v = b)) \<and>
     tree_ok (fi_tree f) \<and> (\<forall>b < LEAVES. fi_tree f ! (LEAVES + b) = leaf (fi_heads f) (fi_ends f) (fi_order f) b)"

lemma leaf_earliest:
  assumes "map ((!) order) [heads ! b..<ends ! b] = remaining_with words R (\<lambda>v. v = b)"
  shows "leaf heads ends order b = earliest words R (\<lambda>v. v = b)"
  using assms[symmetric] by (auto simp: leaf_def earliest_def upt_rec[of "heads ! b" "ends ! b"])

lemma earliest_le:
  assumes "sizes_ok words"
  shows "earliest words R P \<le> NONE"
proof (cases "earliest words R P = NONE")
  case False
  from earliest_found(2)[OF refl this] assms show ?thesis by (simp add: sizes_ok_def)
qed simp

lemma earliest_least:
  assumes "sizes_ok words" "i \<in> R" "i < length words" "P (words ! i)"
  shows "earliest words R P \<le> i"
proof (rule ccontr)
  assume "\<not> earliest words R P \<le> i"
  then have i: "i < earliest words R P" by simp
  show False
  proof (cases "earliest words R P = NONE")
    case True
    from earliest_none[OF this _ assms(2,3)] assms(1,4) show False by (simp add: sizes_ok_def)
  next
    case False
    from earliest_found(4)[OF refl this i assms(2)] assms(4) show False by simp
  qed
qed

lemma earliest_mono:
  assumes "sizes_ok words" "\<And>w. P w \<Longrightarrow> Q w"
  shows "earliest words R Q \<le> earliest words R P"
proof (cases "earliest words R P = NONE")
  case True
  then show ?thesis using earliest_le[OF assms(1)] by simp
next
  case False
  note f = earliest_found[OF refl this]
  show ?thesis by (rule earliest_least[where P = Q, OF assms(1) f(1,2) assms(2)[OF f(3)]])
qed

lemma earliest_Suc:
  assumes w: "sizes_ok words"
  shows "earliest words R (\<lambda>w. w \<le> Suc m) = min (earliest words R (\<lambda>w. w \<le> m)) (earliest words R (\<lambda>w. w = Suc m))"
    (is "?e = min ?a ?b")
proof -
  have le: "?e \<le> ?a" "?e \<le> ?b" by (rule earliest_mono[OF w]; simp)+
  moreover have "?a = ?e \<or> ?b = ?e"
  proof (cases "?e = NONE")
    case True
    then show ?thesis using le earliest_le[OF w, of R "\<lambda>w. w \<le> m"] by simp
  next
    case False
    note f = earliest_found[OF refl False]
    show ?thesis
    proof (cases "words ! ?e \<le> m")
      case True
      have "?a = ?e" by (rule earliestI) (use True f(1,2) f(4) le_SucI in blast)+
      then show ?thesis ..
    next
      case False
      with f(3) have eq: "words ! ?e = Suc m" by simp
      have "\<not> words ! j = Suc m" if "j < ?e" "j \<in> R" for j using f(4)[OF that] by simp
      from earliestI[where P = "\<lambda>w. w = Suc m", OF f(1,2) eq this] show ?thesis by simp
    qed
  qed
  ultimately show ?thesis by (auto simp: min_def)
qed

lemma earliest_cong:
  assumes "\<And>i. i \<in> R \<Longrightarrow> i < length words \<Longrightarrow> P (words ! i) = Q (words ! i)"
  shows "earliest words R P = earliest words R Q"
proof -
  have "remaining_with words R P = remaining_with words R Q"
    unfolding remaining_with_def by (rule filter_cong) (use assms in auto)
  then show ?thesis by (simp add: earliest_def)
qed

lemma size_bounds: "sizes_ok words \<Longrightarrow> i < length words \<Longrightarrow> 0 < words ! i \<and> words ! i < LEAVES"
  by (simp add: sizes_ok_def list_all_length)

lemma leaves_min:
  assumes w: "sizes_ok words" and t: "\<forall>b < LEAVES. t ! (LEAVES + b) = earliest words R (\<lambda>v. v = b)"
  shows "m < LEAVES \<Longrightarrow> range_min t LEAVES (LEAVES + Suc m) = earliest words R (\<lambda>w. w \<le> m)"
proof (induction m)
  case 0
  have "earliest words R (\<lambda>v. v = 0) = earliest words R (\<lambda>w. w \<le> 0)" by (rule earliest_cong) simp
  moreover have "t ! LEAVES = earliest words R (\<lambda>v. v = 0)" using t[rule_format, of 0] 0 by simp
  ultimately show ?case using earliest_le[OF w] range_min_last[of LEAVES LEAVES t] by (simp add: min_absorb2)
next
  case (Suc m)
  have "range_min t LEAVES (LEAVES + Suc (Suc m)) = min (range_min t LEAVES (LEAVES + Suc m)) (t ! (LEAVES + Suc m))"
    using range_min_last[of LEAVES "LEAVES + Suc m" t] by simp
  moreover have "t ! (LEAVES + Suc m) = earliest words R (\<lambda>v. v = Suc m)" using t Suc.prems by blast
  moreover have "range_min t LEAVES (LEAVES + Suc m) = earliest words R (\<lambda>w. w \<le> m)" using Suc by simp
  ultimately show ?case unfolding earliest_Suc[OF w] by simp
qed

lemma fit_rep_leaf:
  assumes "fit_rep words R f" "b < LEAVES"
  shows "fi_tree f ! (LEAVES + b) = earliest words R (\<lambda>v. v = b)"
  using assms leaf_earliest[of "fi_order f" "fi_heads f" b "fi_ends f" words R] by (simp add: fit_rep_def)

lemma fit_rep_new:
  assumes "sizes_ok words"
  shows "fit_rep words {0..<length words} (fit_new words)"
proof -
  have w: "list_all (\<lambda>w. w < LEAVES) words" using assms by (auto simp: sizes_ok_def list_all_iff)
  obtain heads ends where b: "fold start_bucket [0..<LEAVES] (count_sizes words, replicate LEAVES 0) = (heads, ends)" by fastforce
  note h = start_buckets[OF w b]
  obtain fill order where o: "fold (fill_bucket words) [0..<length words] (take LEAVES heads, replicate (length words) 0) = (fill, order)"
    by fastforce
  define leaves where
    "leaves = fold (\<lambda>b tree. tree[LEAVES + b := leaf heads ends order b]) [0..<LEAVES] (replicate (2 * LEAVES) NONE)"
  have f: "fit_new words = \<lparr>fi_heads = heads, fi_ends = ends, fi_order = order, fi_tree = fold pull (rev [1..<LEAVES]) leaves\<rparr>"
    by (simp add: fit_new_def b o leaves_def Let_def)
  have "k \<le> LEAVES \<Longrightarrow> length (fold (\<lambda>b tree. tree[LEAVES + b := leaf heads ends order b]) [0..<k] t) = length t \<and>
      (\<forall>b < k. 2 * LEAVES = length t \<longrightarrow>
        fold (\<lambda>b tree. tree[LEAVES + b := leaf heads ends order b]) [0..<k] t ! (LEAVES + b) = leaf heads ends order b)" for k t
    by (induction k) (auto simp: nth_list_update less_Suc_eq)
  from this[of LEAVES "replicate (2 * LEAVES) NONE"] have l: "length leaves = 2 * LEAVES"
    "\<And>b. b < LEAVES \<Longrightarrow> leaves ! (LEAVES + b) = leaf heads ends order b" by (simp_all add: leaves_def)
  note t = pull_all_ok[OF l(1)]
  have "map ((!) order) [heads ! b..<ends ! b] = remaining_with words {0..<length words} (\<lambda>v. v = b)" if b: "b < LEAVES" for b
  proof -
    have "length (take LEAVES heads) = LEAVES" "\<And>b. b < LEAVES \<Longrightarrow> take LEAVES heads ! b = rank words b" using h(1,3) by simp_all
    from fill_buckets[OF w this o b] have "map ((!) order) [heads ! b..<ends ! b] = filter (\<lambda>i. words ! i = b) [0..<length words]"
      using h(3,4) b by simp
    also have "\<dots> = remaining_with words {0..<length words} (\<lambda>v. v = b)"
      unfolding remaining_with_def by (rule filter_cong) auto
    finally show ?thesis .
  qed
  then show ?thesis using assms h(1) t l by (simp add: fit_rep_def f)
qed

lemma fit_rep_fitting:
  assumes f: "fit_rep words R f"
  shows "earliest_fitting m f = earliest words R (\<lambda>w. w \<le> m)"
proof -
  have w: "sizes_ok words" and R: "R \<subseteq> {0..<length words}" and t: "tree_ok (fi_tree f)" using f by (simp_all add: fit_rep_def)
  let ?m = "min m (LEAVES - 1)"
  have L: "0 < LEAVES" by (simp add: LEAVES_def)
  have "words ! i \<le> ?m \<longleftrightarrow> words ! i \<le> m" if "i < length words" for i
    using size_bounds[OF w that] by linarith
  then have "earliest words R (\<lambda>w. w \<le> ?m) = earliest words R (\<lambda>w. w \<le> m)" by (intro earliest_cong) blast
  moreover have "range_min (fi_tree f) LEAVES (LEAVES + Suc ?m) = earliest words R (\<lambda>w. w \<le> ?m)"
  proof (rule leaves_min[OF w])
    show "\<forall>b < LEAVES. fi_tree f ! (LEAVES + b) = earliest words R (\<lambda>v. v = b)" using fit_rep_leaf[OF f] by blast
    show "?m < LEAVES" using L by linarith
  qed
  moreover have "prefix_min (fi_tree f) NONE LEAVES (LEAVES + ?m + 1) = min NONE (range_min (fi_tree f) LEAVES (LEAVES + Suc ?m))"
    using prefix_min_range[OF t, of LEAVES "LEAVES + Suc ?m" NONE] L by simp
  moreover have "earliest words R (\<lambda>w. w \<le> 0) = NONE"
    using earliest_found(2,3)[OF refl, of words R "\<lambda>w. w \<le> 0"] size_bounds[OF w] by (metis not_le)
  ultimately show ?thesis using earliest_le[OF w] by (simp add: earliest_fitting_def min_absorb2)
qed

lemma fit_rep_exact:
  assumes f: "fit_rep words R f"
  shows "earliest_exact w f = earliest words R (\<lambda>v. v = w)"
proof (cases "w < LEAVES")
  case True
  then show ?thesis using fit_rep_leaf[OF f] by (simp add: earliest_exact_def)
next
  case False
  have "sizes_ok words" using f by (simp add: fit_rep_def)
  from size_bounds[OF this] False have "earliest words R (\<lambda>v. v = w) = NONE"
    using earliest_found(2,3)[OF refl, of words R "\<lambda>v. v = w"] by (metis (full_types))
  with False show ?thesis by (simp add: earliest_exact_def)
qed

lemma fit_rep_remove:
  assumes f: "fit_rep words R f" and e: "earliest words R (\<lambda>v. v = w) \<noteq> NONE"
  shows "fit_rep words (R - {earliest words R (\<lambda>v. v = w)}) (fit_remove w f)"
proof -
  let ?i = "earliest words R (\<lambda>v. v = w)" and ?h = "fi_heads f" and ?e = "fi_ends f" and ?o = "fi_order f"
  define heads where "heads = ?h[w := ?h ! w + 1]"
  define tree where "tree = (fi_tree f)[LEAVES + w := leaf heads ?e ?o w]"
  have r: "fit_remove w f = f\<lparr>fi_heads := heads, fi_tree := pull_up ((LEAVES + w) div 2) tree\<rparr>"
    by (simp add: fit_remove_def heads_def tree_def Let_def)
  have ok: "sizes_ok words" "R \<subseteq> {0..<length words}" "length ?h = LEAVES + 1" "tree_ok (fi_tree f)"
    and bk: "\<And>b. b < LEAVES \<Longrightarrow> map ((!) ?o) [?h ! b..<?e ! b] = remaining_with words R (\<lambda>v. v = b)"
    and lf: "\<And>b. b < LEAVES \<Longrightarrow> fi_tree f ! (LEAVES + b) = leaf ?h ?e ?o b" using f by (simp_all add: fit_rep_def)
  note i = earliest_found(1-3)[OF refl e]
  have w: "w < LEAVES" using size_bounds[OF ok(1) i(2)] i(3) by simp
  have buckets: "map ((!) ?o) [heads ! b..<?e ! b] = remaining_with words (R - {?i}) (\<lambda>v. v = b)" if b: "b < LEAVES" for b
  proof (cases "b = w")
    case False
    then have "remaining_with words (R - {?i}) (\<lambda>v. v = b) = remaining_with words R (\<lambda>v. v = b)"
      unfolding remaining_with_def by (intro filter_cong) (use i(3) in auto)
    with False bk[OF b] show ?thesis by (simp add: heads_def)
  next
    case True
    obtain js where js: "remaining_with words R (\<lambda>v. v = w) = ?i # js" using e by (auto simp: earliest_def split: list.splits)
    have "remaining_with words (R - {?i}) (\<lambda>v. v = w) = filter (\<lambda>j. j \<noteq> ?i) (remaining_with words R (\<lambda>v. v = w))"
      unfolding remaining_with_def filter_filter by (rule filter_cong) auto
    also have "\<dots> = js"
    proof -
      have "distinct (?i # js)" unfolding js[symmetric] by (simp add: remaining_with_def)
      then show ?thesis unfolding js by (auto simp: filter_id_conv)
    qed
    finally have 1: "remaining_with words (R - {?i}) (\<lambda>v. v = w) = js" .
    have "?h ! w < ?e ! w" using bk[OF w] js by (metis map_is_Nil_conv list.distinct(1) not_less upt_eq_Nil_conv)
    then have "map ((!) ?o) [Suc (?h ! w)..<?e ! w] = js" using bk[OF w] js by (simp add: upt_rec[of "?h ! w"])
    then show ?thesis using w ok(3) by (simp add: True 1 heads_def)
  qed
  have len: "length tree = 2 * LEAVES" using ok(4) by (simp add: tree_def tree_ok_def)
  have others: "tree ! m = min (tree ! (2 * m)) (tree ! (2 * m + 1))"
    if "0 < m" "m < LEAVES" "m \<noteq> (LEAVES + w) div 2" for m
  proof -
    have "2 * m \<noteq> LEAVES + w" "2 * m + 1 \<noteq> LEAVES + w" using that(3) by auto
    with that(1,2) ok(4) show ?thesis by (simp add: tree_def tree_ok_def)
  qed
  have p: "tree_ok (pull_up ((LEAVES + w) div 2) tree) \<and> (\<forall>m \<ge> LEAVES. pull_up ((LEAVES + w) div 2) tree ! m = tree ! m)"
    by (rule pull_up_ok[OF len]) (use w others in auto)
  have "leaf heads ?e ?o b = leaf ?h ?e ?o b" if "b \<noteq> w" for b using that by (simp add: leaf_def heads_def)
  then have "tree ! (LEAVES + b) = leaf heads ?e ?o b" if "b < LEAVES" for b
    using lf[OF that] len w that by (cases "b = w") (simp_all add: tree_def)
  with p buckets ok show ?thesis by (auto simp: fit_rep_def r heads_def)
qed

interpretation fit: first_fit fit_rep fit_new earliest_fitting earliest_exact fit_remove
proof
  show "fit_rep words R f \<Longrightarrow> sizes_ok words \<and> R \<subseteq> {0..<length words}" for words R f by (simp add: fit_rep_def)
qed (rule fit_rep_new fit_rep_fitting fit_rep_exact fit_rep_remove; assumption)+

section \<open>The refinement\<close>

text \<open>The states a frame writer reaches: a fresh index and removals from buckets that are not empty, each
  with the abstract set it stands for.\<close>

inductive fit_run :: "nat list \<Rightarrow> nat set \<Rightarrow> fit_index_t \<Rightarrow> bool" for words where
  start: "fit_run words {0..<length words} (fit_new words)"
| remove: "fit_run words R f \<Longrightarrow> i \<in> R \<Longrightarrow> words ! i = w \<Longrightarrow> (\<And>j. j \<in> R \<Longrightarrow> words ! j = w \<Longrightarrow> i \<le> j) \<Longrightarrow>
    fit_run words (R - {i}) (fit_remove w f)"

lemma fit_run_rep:
  assumes "fit_run words R f" "sizes_ok words"
  shows "fit_rep words R f"
  using assms
proof (induction rule: fit_run.induct)
  case start
  then show ?case by (rule fit.fresh)
next
  case (remove R f i w)
  then have f: "fit_rep words R f" by blast
  then have "i < length words" "length words < NONE" using fit.sizes[OF f] remove.hyps(2) by (auto simp: sizes_ok_def)
  moreover have "earliest words R (\<lambda>v. v = w) = i"
    by (rule earliestI) (use remove.hyps \<open>i < length words\<close> in force)+
  ultimately show ?case using fit.remove[OF f, of w] by simp
qed

text \<open>
  (C17) The segment tree implements its specification: in every state the writer reaches, the index answers
  exactly as a scan over the records that remain would, with the earliest record of at most a given size,
  or of exactly a given size, or with none.
\<close>

theorem fit_index_refines:
  assumes "fit_run words R f" "length words < 2 ^ 64 - 1" "list_all (\<lambda>w. 0 < w \<and> w < 4096) words"
  shows "(if \<exists>i \<in> R. words ! i \<le> m then earliest_fitting m f = (LEAST i. i \<in> R \<and> words ! i \<le> m) else earliest_fitting m f = NONE) \<and>
    (if \<exists>i \<in> R. words ! i = m then earliest_exact m f = (LEAST i. i \<in> R \<and> words ! i = m) else earliest_exact m f = NONE)"
proof -
  have w: "sizes_ok words" using assms(2,3) by (simp add: sizes_ok_def NONE_def LEAVES_def)
  from fit_run_rep[OF assms(1) w] have f: "fit_rep words R f" .
  have R: "i \<in> R \<Longrightarrow> i < length words" for i using fit.sizes[OF f] by auto
  have "if \<exists>i \<in> R. P (words ! i) then earliest words R P = (LEAST i. i \<in> R \<and> P (words ! i)) else earliest words R P = NONE" for P
  proof (cases "\<exists>i \<in> R. P (words ! i)")
    case True
    define l where "l = (LEAST i. i \<in> R \<and> P (words ! i))"
    have l: "l \<in> R \<and> P (words ! l)" unfolding l_def by (rule LeastI_ex) (use True in blast)
    moreover have "\<not> P (words ! j)" if "j < l" "j \<in> R" for j using not_less_Least that unfolding l_def by blast
    ultimately have "earliest words R P = l" using R by (intro earliestI) auto
    with True show ?thesis by (simp add: l_def)
  next
    case False
    then show ?thesis using earliest_found(1,3)[OF refl, of words R P] by auto
  qed
  from this[of "\<lambda>w. w \<le> m"] this[of "\<lambda>v. v = m"] show ?thesis unfolding fit.fitting[OF f] fit.exact[OF f] by (rule conjI)
qed

theorem fit_index_refines_witness:
  "earliest_fitting 4 (fit_remove 3 (fit_new [5, 3, 4])) = 2 \<and> earliest_exact 3 (fit_remove 3 (fit_new [5, 3, 4])) = NONE"
proof -
  have "fit_run [5, 3, 4] {0..<length [5, 3, 4 :: nat]} (fit_new [5, 3, 4])" by (rule fit_run.start)
  then have "fit_run [5, 3, 4] ({0..<length [5, 3, 4 :: nat]} - {1}) (fit_remove 3 (fit_new [5, 3, 4]))"
    by (rule fit_run.remove) (auto simp: nth_Cons' split: if_splits)
  moreover have "{0..<length [5, 3, 4 :: nat]} - {1} = {0, 2}" by auto
  ultimately have "fit_run [5, 3, 4] {0, 2} (fit_remove 3 (fit_new [5, 3, 4]))" by simp
  note r = fit_index_refines[OF this, of 4] fit_index_refines[OF this, of 3]
  have "(LEAST i. i \<in> {0, 2} \<and> [5, 3, 4 :: nat] ! i \<le> 4) = 2" by (rule Least_equality) (auto simp: nth_Cons')
  with r show ?thesis by (simp add: nth_Cons')
qed

end
