(* ===== verification/Pyrowave_Frame.thy ===== *)
theory Pyrowave_Frame
  imports Fit_Index Text_Codec
begin

text \<open>
  Framing of an encoded PyroWave frame (\<^verbatim>\<open>src/src/pyrowave_policy.cpp\<close>, constants of
  \<^verbatim>\<open>src/src/pyrowave_protocol.h\<close>): the writer that lays the block records of a frame out so that
  a receiver can decode a frame that lost packets, and the parser that checks such a frame. Bytes are
  \<open>8 word\<close>, the words of the format \<open>32 word\<close>; sizes are naturals, and a subtraction that
  could pass zero wraps as \<^verbatim>\<open>std::size_t\<close> does. The output vector is a list that the writer
  extends. The packing loop is a partial function: \<open>None\<close> is a call that does not return normally
  (it would run forever, read past a vector, or throw from \<^verbatim>\<open>resize\<close>), and the theorems show that
  this does not happen.
\<close>

section \<open>Words and sizes\<close>

unbundle bit_operations_syntax

definition size_sub :: "nat \<Rightarrow> nat \<Rightarrow> nat" where
  "size_sub a b = (if b \<le> a then a - b else a + 2 ^ 64 - b)"

lemma size_sub_le [simp]: "b \<le> a \<Longrightarrow> size_sub a b = a - b"
  by (simp add: size_sub_def)

definition PADDING_MAGIC :: "32 word" where "PADDING_MAGIC = 0xFFFFFFFF"
definition PADDING_RECORD_MIN_BYTES :: nat where "PADDING_RECORD_MIN_BYTES = 8"
definition SHARD_OVERHEAD_BYTES :: int where "SHARD_OVERHEAD_BYTES = 16"
definition FRAME_HEADER_BYTES :: nat where "FRAME_HEADER_BYTES = 8"
definition SEQUENCE_HEADER_BYTES :: nat where "SEQUENCE_HEADER_BYTES = 2 * 4"
definition FEATURE_RECORD_FRAMING :: "32 word" where "FEATURE_RECORD_FRAMING = 1"

lemmas frame_consts = PADDING_RECORD_MIN_BYTES_def SHARD_OVERHEAD_BYTES_def FRAME_HEADER_BYTES_def SEQUENCE_HEADER_BYTES_def

definition read_u32 :: "byte list \<Rightarrow> nat \<Rightarrow> 32 word" where
  "read_u32 bs p = ucast (bs ! p) OR push_bit 8 (ucast (bs ! (p + 1))) OR push_bit 16 (ucast (bs ! (p + 2))) OR
     push_bit 24 (ucast (bs ! (p + 3)))"

definition append_u32 :: "byte list \<Rightarrow> 32 word \<Rightarrow> byte list" where
  "append_u32 out v = out @ [ucast (v AND 0xff), ucast (drop_bit 8 v AND 0xff), ucast (drop_bit 16 v AND 0xff), ucast (drop_bit 24 v AND 0xff)]"

definition append_padding :: "byte list \<Rightarrow> nat \<Rightarrow> byte list option" where
  "append_padding out bytes =
     (if bytes < PADDING_RECORD_MIN_BYTES then None
      else Some (append_u32 (append_u32 out PADDING_MAGIC) (of_nat (size_sub (bytes div 4) 2)) @ replicate (bytes - PADDING_RECORD_MIN_BYTES) 0))"

section \<open>Records and shards\<close>

record record_t =
  rc_offset :: nat
  rc_size :: nat
  rc_block_index :: "32 word"

record record_frame_stats_t =
  st_block_records :: nat
  st_padding_records :: nat
  st_padding_bytes :: nat
  st_oversized_records :: nat
  st_reordered_records :: nat
  st_critical_bytes :: nat

definition no_stats :: record_frame_stats_t where
  "no_stats = \<lparr>st_block_records = 0, st_padding_records = 0, st_padding_bytes = 0, st_oversized_records = 0,
     st_reordered_records = 0, st_critical_bytes = 0\<rparr>"

definition oversized :: "nat \<Rightarrow> nat \<Rightarrow> bool" where
  "oversized record_bytes shard_payload \<longleftrightarrow> record_bytes + PADDING_RECORD_MIN_BYTES > shard_payload"

definition shard_remaining :: "nat \<Rightarrow> nat \<Rightarrow> nat" where
  "shard_remaining position shard_payload = shard_payload - (position + FRAME_HEADER_BYTES) mod shard_payload"

definition coarse_blocks_of :: "32 word \<Rightarrow> 32 word" where
  "coarse_blocks_of extent = (drop_bit 5 (max ((extent + 31) div 32 * 32) 128) + 31) div 32"

definition coarse_block_count :: "32 word \<Rightarrow> 32 word \<Rightarrow> 32 word" where
  "coarse_block_count width height = coarse_blocks_of width * coarse_blocks_of height * 4 * 3"

datatype framing_e = Records | Length_prefixed

definition select_framing :: "bool \<Rightarrow> 32 word option \<Rightarrow> framing_e" where
  "select_framing client_sent_adaptive_fec client_features =
     (if client_sent_adaptive_fec then Records
      else case client_features of
        Some features \<Rightarrow> if features AND FEATURE_RECORD_FRAMING \<noteq> 0 then Records else Length_prefixed
      | None \<Rightarrow> Length_prefixed)"

definition shard_payload_bytes :: "int \<Rightarrow> nat" where
  "shard_payload_bytes packetsize =
     (if packetsize \<le> SHARD_OVERHEAD_BYTES then 0
      else let shard = nat (packetsize - SHARD_OVERHEAD_BYTES) in
        if shard < FRAME_HEADER_BYTES + SEQUENCE_HEADER_BYTES + PADDING_RECORD_MIN_BYTES \<or> shard mod 4 \<noteq> 0 then 0 else shard)"

section \<open>Writing a frame\<close>

function split_records :: "byte list \<Rightarrow> nat \<Rightarrow> record_t list option" where
  "split_records bs position =
     (if position < length bs
      then if length bs - position < 8 then None
        else let word0 = read_u32 bs position; payload_words = unat (drop_bit 16 word0 AND 0xfff) in
          if drop_bit 31 word0 \<noteq> 0 \<or> payload_words < 2 \<or> payload_words * 4 > length bs - position then None
          else map_option (\<lambda>rs. \<lparr>rc_offset = position, rc_size = payload_words * 4,
                 rc_block_index = drop_bit 8 (read_u32 bs (position + 4))\<rparr> # rs) (split_records bs (position + payload_words * 4))
      else Some [])"
  by pat_completeness auto

termination by (relation "measure (\<lambda>(bs, position). length bs - position)") auto

declare split_records.simps [simp del]

record write_state =
  ws_out :: "byte list"
  ws_stats :: record_frame_stats_t

record write_env =
  we_bitstream :: "byte list"
  we_records :: "record_t list"
  we_shard_payload :: nat
  we_frame_start :: nat

definition remaining :: "write_env \<Rightarrow> write_state \<Rightarrow> nat" where
  "remaining e w = shard_remaining (length (ws_out w) - we_frame_start e) (we_shard_payload e)"

definition place :: "write_env \<Rightarrow> record_t \<Rightarrow> write_state \<Rightarrow> write_state" where
  "place e r w = w\<lparr>ws_out := ws_out w @ take (rc_size r) (drop (rc_offset r) (we_bitstream e))\<rparr>"

definition pad :: "nat \<Rightarrow> write_state \<Rightarrow> write_state option" where
  "pad bytes w = map_option (\<lambda>out. w\<lparr>ws_out := out,
     ws_stats := (ws_stats w)\<lparr>st_padding_records := st_padding_records (ws_stats w) + 1,
                              st_padding_bytes := st_padding_bytes (ws_stats w) + bytes\<rparr>\<rparr>) (append_padding (ws_out w) bytes)"

fun place_oversized :: "write_env \<Rightarrow> nat list \<Rightarrow> write_state \<Rightarrow> (nat list \<times> write_state) option" where
  "place_oversized e [] w = Some ([], w)"
| "place_oversized e (i # grp) w =
     (let r = we_records e ! i in
      if oversized (rc_size r) (we_shard_payload e)
      then case (if rc_size r mod we_shard_payload e = size_sub (remaining e w) 4 then pad PADDING_RECORD_MIN_BYTES w else Some w) of
             None \<Rightarrow> None
           | Some w1 \<Rightarrow> place_oversized e grp (let w2 = place e r w1 in
               w2\<lparr>ws_stats := (ws_stats w2)\<lparr>st_oversized_records := st_oversized_records (ws_stats w2) + 1\<rparr>\<rparr>)
      else map_option (\<lambda>(ordinary, w'). (i # ordinary, w')) (place_oversized e grp w))"

function skip_placed :: "bool list \<Rightarrow> nat \<Rightarrow> nat option" where
  "skip_placed placed cursor =
     (if cursor < length placed then (if placed ! cursor then skip_placed placed (cursor + 1) else Some cursor) else None)"
  by pat_completeness auto

termination by (relation "measure (\<lambda>(placed, cursor). length placed - cursor)") auto

declare skip_placed.simps [simp del]

definition choose_record :: "nat list \<Rightarrow> nat \<Rightarrow> fit_index_t \<Rightarrow> nat" where
  "choose_record words room f =
     (let chosen = earliest_fitting (room div 4) f in
      if chosen \<noteq> NONE \<and> size_sub room (words ! chosen * 4) = 4
      then min (earliest_exact (room div 4) f) (if room \<ge> 16 then earliest_fitting ((room - 8) div 4) f else NONE)
      else chosen)"

partial_function (option) pack_ordinary ::
  "write_env \<Rightarrow> nat list \<Rightarrow> nat list \<Rightarrow> fit_index_t \<Rightarrow> bool list \<Rightarrow> nat \<Rightarrow> nat \<Rightarrow> write_state \<Rightarrow> write_state option" where
  "pack_ordinary e ordinary words f placed cursor left w =
     (if left = 0 then Some w
      else case skip_placed placed cursor of
        None \<Rightarrow> None
      | Some cursor1 \<Rightarrow>
        let chosen = choose_record words (remaining e w) f in
        if chosen = NONE
        then case pad (remaining e w) w of
               None \<Rightarrow> None
             | Some w' \<Rightarrow> pack_ordinary e ordinary words f placed cursor1 left w'
        else let w' = (if chosen \<noteq> cursor1
               then w\<lparr>ws_stats := (ws_stats w)\<lparr>st_reordered_records := st_reordered_records (ws_stats w) + 1\<rparr>\<rparr> else w)
             in pack_ordinary e ordinary words (fit_remove (words ! chosen) f) (placed[chosen := True]) cursor1 (left - 1)
                  (place e (we_records e ! (ordinary ! chosen)) w'))"

definition write_group :: "write_env \<Rightarrow> nat list \<Rightarrow> write_state \<Rightarrow> write_state option" where
  "write_group e grp w =
     (case place_oversized e grp w of
        None \<Rightarrow> None
      | Some (ordinary, w1) \<Rightarrow>
          let words = map (\<lambda>i. rc_size (we_records e ! i) div 4) ordinary in
          pack_ordinary e ordinary words (fit_new words) (replicate (length ordinary) False) 0 (length ordinary) w1)"

definition note_critical :: "write_env \<Rightarrow> write_state \<Rightarrow> write_state" where
  "note_critical e w = w\<lparr>ws_stats := (ws_stats w)\<lparr>st_critical_bytes := length (ws_out w) - we_frame_start e\<rparr>\<rparr>"

definition write_record_frame :: "byte list \<Rightarrow> nat \<Rightarrow> byte list \<Rightarrow> nat \<Rightarrow> (record_frame_stats_t option \<times> byte list) option" where
  "write_record_frame bs shard_payload out frame_limit =
     (if length bs < 8 \<or> drop_bit 31 (read_u32 bs 0) = 0 \<or> (frame_limit \<noteq> 0 \<and> length bs > frame_limit) then Some (None, out)
      else case split_records bs 8 of
        None \<Rightarrow> Some (None, out)
      | Some records \<Rightarrow>
        let stats = no_stats\<lparr>st_block_records := length records\<rparr>; header = out @ take 8 bs in
        if shard_payload = 0 then Some (Some stats, header @ drop 8 bs)
        else
          let e = \<lparr>we_bitstream = bs, we_records = records, we_shard_payload = shard_payload, we_frame_start = length out\<rparr>;
              sequence_word = read_u32 bs 0;
              coarse_blocks = coarse_block_count ((sequence_word AND 0x3fff) + 1) ((drop_bit 14 sequence_word AND 0x3fff) + 1);
              coarse = filter (\<lambda>i. rc_block_index (records ! i) < coarse_blocks) [0..<length records];
              fine = filter (\<lambda>i. \<not> rc_block_index (records ! i) < coarse_blocks) [0..<length records]
          in case write_group e coarse \<lparr>ws_out = header, ws_stats = stats\<rparr> of
               None \<Rightarrow> None
             | Some w1 \<Rightarrow>
               (case write_group e fine (note_critical e w1) of
                  None \<Rightarrow> None
                | Some w2 \<Rightarrow>
                    if frame_limit \<noteq> 0 \<and> length (ws_out w2) - length out > frame_limit
                    then let w3 = note_critical e (fold (\<lambda>i. place e (records ! i)) coarse \<lparr>ws_out = header, ws_stats = stats\<rparr>);
                             w4 = fold (\<lambda>i. place e (records ! i)) fine w3
                         in Some (Some (ws_stats w4), ws_out w4)
                    else Some (Some (ws_stats w2), ws_out w2)))"

record packet_t =
  pk_offset :: nat
  pk_size :: nat

definition write_length_prefixed_frame :: "packet_t list \<Rightarrow> byte list \<Rightarrow> byte list \<Rightarrow> byte list" where
  "write_length_prefixed_frame packets bs out =
     fold (\<lambda>p out. append_u32 out (of_nat (pk_size p)) @ take (pk_size p) (drop (pk_offset p) bs)) packets
       (append_u32 out (of_nat (length packets)))"

section \<open>Parsing a frame\<close>

record record_frame_info_t =
  fr_valid :: bool
  fr_error :: string
  fr_has_sequence_header :: bool
  fr_width :: "32 word"
  fr_height :: "32 word"
  fr_chroma444 :: bool
  fr_total_blocks :: "32 word"
  fr_block_records :: nat
  fr_padding_records :: nat
  fr_padding_bytes :: nat
  fr_misaligned_records :: nat
  fr_out_of_order_records :: nat
  fr_oversized_records :: nat
  fr_late_oversized_records :: nat
  fr_late_coarse_records :: nat
  fr_critical_bytes :: nat
  fr_stripped :: "byte list"

record inspect_state =
  is_info :: record_frame_info_t
  is_last_block_index :: "32 word"
  is_coarse_blocks :: "32 word"
  is_seen_ordinary_coarse :: bool
  is_seen_ordinary_fine :: bool
  is_seen_fine :: bool

definition inspect_start :: inspect_state where
  "inspect_start = \<lparr>is_info = \<lparr>fr_valid = False, fr_error = '''', fr_has_sequence_header = False, fr_width = 0, fr_height = 0,
       fr_chroma444 = False, fr_total_blocks = 0, fr_block_records = 0, fr_padding_records = 0, fr_padding_bytes = 0,
       fr_misaligned_records = 0, fr_out_of_order_records = 0, fr_oversized_records = 0, fr_late_oversized_records = 0,
       fr_late_coarse_records = 0, fr_critical_bytes = 0, fr_stripped = []\<rparr>,
     is_last_block_index = 0, is_coarse_blocks = 0, is_seen_ordinary_coarse = False, is_seen_ordinary_fine = False,
     is_seen_fine = False\<rparr>"

definition note_alignment :: "nat \<Rightarrow> nat \<Rightarrow> nat \<Rightarrow> record_frame_info_t \<Rightarrow> bool \<times> record_frame_info_t" where
  "note_alignment shard_payload start bytes info =
     (if shard_payload = 0 then (False, info)
      else let wire_start = start + FRAME_HEADER_BYTES;
               first_shard = wire_start div shard_payload;
               last_shard = (wire_start + bytes - 1) div shard_payload in
        if oversized bytes shard_payload then (True, info\<lparr>fr_oversized_records := fr_oversized_records info + 1\<rparr>)
        else if first_shard \<noteq> last_shard then (False, info\<lparr>fr_misaligned_records := fr_misaligned_records info + 1\<rparr>)
        else (False, info))"

definition inspect_fail :: "string \<Rightarrow> record_frame_info_t \<Rightarrow> record_frame_info_t" where
  "inspect_fail e info = info\<lparr>fr_valid := False, fr_error := e\<rparr>"

definition inspect_padding :: "nat \<Rightarrow> nat \<Rightarrow> nat \<Rightarrow> inspect_state \<Rightarrow> inspect_state" where
  "inspect_padding shard_payload position bytes s =
     (let info = (is_info s)\<lparr>fr_padding_records := fr_padding_records (is_info s) + 1,
                              fr_padding_bytes := fr_padding_bytes (is_info s) + bytes\<rparr>
      in s\<lparr>is_info := snd (note_alignment shard_payload position bytes info)\<rparr>)"

definition inspect_header :: "nat \<Rightarrow> byte list \<Rightarrow> nat \<Rightarrow> 32 word \<Rightarrow> 32 word \<Rightarrow> inspect_state \<Rightarrow> record_frame_info_t + inspect_state" where
  "inspect_header shard_payload frame position word0 word1 s =
     (if fr_has_sequence_header (is_info s)
      then Inl (inspect_fail (''second sequence header at byte '' @ to_string_int (int position)) (is_info s))
      else if fr_block_records (is_info s) \<noteq> 0 then Inl (inspect_fail ''sequence header after block records'' (is_info s))
      else let width = (word0 AND 0x3fff) + 1; height = (drop_bit 14 word0 AND 0x3fff) + 1;
               info = (is_info s)\<lparr>fr_has_sequence_header := True, fr_width := width, fr_height := height,
                                  fr_total_blocks := word1 AND 0xffffff\<rparr>;
               code = drop_bit 24 word1 AND 3 in
        if code \<noteq> 0
        then Inl (inspect_fail (''sequence header code '' @ to_string_int (uint code) @ '' is not START_OF_FRAME'') info)
        else let info1 = info\<lparr>fr_chroma444 := (drop_bit 26 word1 AND 1 \<noteq> 0), fr_critical_bytes := position + 8\<rparr>;
                 info2 = snd (note_alignment shard_payload position 8 info1)
             in Inr (s\<lparr>is_info := info2\<lparr>fr_stripped := fr_stripped info2 @ take 8 (drop position frame)\<rparr>,
                       is_coarse_blocks := coarse_block_count width height\<rparr>))"

definition inspect_level :: "nat \<Rightarrow> nat \<Rightarrow> nat \<Rightarrow> bool \<Rightarrow> inspect_state \<Rightarrow> inspect_state" where
  "inspect_level shard_payload position bytes coarse s =
     (let info1 = (if coarse \<and> is_seen_fine s
                   then (is_info s)\<lparr>fr_late_coarse_records := fr_late_coarse_records (is_info s) + 1\<rparr> else is_info s);
          s1 = (case note_alignment shard_payload position bytes info1 of
                  (True, info2) \<Rightarrow> s\<lparr>is_info := (if (if coarse then is_seen_ordinary_coarse s else is_seen_ordinary_fine s)
                       then info2\<lparr>fr_late_oversized_records := fr_late_oversized_records info2 + 1\<rparr> else info2)\<rparr>
                | (False, info2) \<Rightarrow> if coarse then s\<lparr>is_info := info2, is_seen_ordinary_coarse := True\<rparr>
                       else s\<lparr>is_info := info2, is_seen_ordinary_fine := True\<rparr>)
      in if \<not> coarse then s1\<lparr>is_seen_fine := True\<rparr>
         else s1\<lparr>is_info := (is_info s1)\<lparr>fr_critical_bytes := position + bytes\<rparr>\<rparr>)"

definition inspect_block :: "nat \<Rightarrow> byte list \<Rightarrow> nat \<Rightarrow> nat \<Rightarrow> 32 word \<Rightarrow> inspect_state \<Rightarrow> inspect_state" where
  "inspect_block shard_payload frame position bytes block_index s =
     (let info = is_info s;
          info1 = (if fr_block_records info \<noteq> 0 \<and> block_index < is_last_block_index s
                   then info\<lparr>fr_out_of_order_records := fr_out_of_order_records info + 1\<rparr> else info);
          s1 = s\<lparr>is_info := info1\<lparr>fr_block_records := fr_block_records info1 + 1\<rparr>, is_last_block_index := block_index\<rparr>;
          s2 = (if shard_payload \<noteq> 0 then inspect_level shard_payload position bytes (block_index < is_coarse_blocks s) s1 else s1)
      in s2\<lparr>is_info := (is_info s2)\<lparr>fr_stripped := fr_stripped (is_info s2) @ take bytes (drop position frame)\<rparr>\<rparr>)"

function inspect_loop :: "nat \<Rightarrow> byte list \<Rightarrow> nat \<Rightarrow> inspect_state \<Rightarrow> record_frame_info_t" where
  "inspect_loop shard_payload frame position s =
     (if position < length frame
      then if length frame - position < 8
        then inspect_fail (''truncated record header at byte '' @ to_string_int (int position)) (is_info s)
        else let word0 = read_u32 frame position; word1 = read_u32 frame (position + 4) in
          if word0 = PADDING_MAGIC
          then let bytes = PADDING_RECORD_MIN_BYTES + unat word1 * 4 in
            if bytes > length frame - position
            then inspect_fail (''padding record runs past the end of the frame at byte '' @ to_string_int (int position)) (is_info s)
            else inspect_loop shard_payload frame (position + bytes) (inspect_padding shard_payload position bytes s)
          else if drop_bit 31 word0 \<noteq> 0
          then case inspect_header shard_payload frame position word0 word1 s of
                 Inl info \<Rightarrow> info
               | Inr s' \<Rightarrow> inspect_loop shard_payload frame (position + 8) s'
          else if \<not> fr_has_sequence_header (is_info s) then inspect_fail ''block record before the sequence header'' (is_info s)
          else let payload_words = unat (drop_bit 16 word0 AND 0xfff) in
            if payload_words < 2
            then inspect_fail (''block record with payload_words '' @ to_string_int (int payload_words) @ '' at byte '' @ to_string_int (int position)) (is_info s)
            else if payload_words * 4 > length frame - position
            then inspect_fail (''block record runs past the end of the frame at byte '' @ to_string_int (int position)) (is_info s)
            else inspect_loop shard_payload frame (position + payload_words * 4)
                   (inspect_block shard_payload frame position (payload_words * 4) (drop_bit 8 word1) s)
      else if \<not> fr_has_sequence_header (is_info s) then inspect_fail ''frame has no sequence header'' (is_info s)
      else (is_info s)\<lparr>fr_valid := True\<rparr>)"
  by pat_completeness auto

termination by (relation "measure (\<lambda>(_, frame, position, _). length frame - position)") (auto simp: PADDING_RECORD_MIN_BYTES_def)

declare inspect_loop.simps [simp del]

definition inspect_record_frame :: "byte list \<Rightarrow> nat \<Rightarrow> record_frame_info_t" where
  "inspect_record_frame frame shard_payload = inspect_loop shard_payload frame 0 inspect_start"

function start_shards :: "byte list \<Rightarrow> nat \<Rightarrow> nat \<Rightarrow> bool list \<Rightarrow> bool list" where
  "start_shards frame shard_payload position starts =
     (if position < length frame
      then if length frame - position < 8 then []
        else let starts1 = (if (position + FRAME_HEADER_BYTES) mod shard_payload = 0 \<or> position = 0
                            then starts[(position + FRAME_HEADER_BYTES) div shard_payload := True] else starts);
                 word0 = read_u32 frame position;
                 bytes = (if word0 = PADDING_MAGIC then PADDING_RECORD_MIN_BYTES + unat (read_u32 frame (position + 4)) * 4
                          else if drop_bit 31 word0 \<noteq> 0 then 8 else unat (drop_bit 16 word0 AND 0xfff) * 4) in
          if bytes < 8 \<or> bytes > length frame - position then [] else start_shards frame shard_payload (position + bytes) starts1
      else starts)"
  by pat_completeness auto

termination by (relation "measure (\<lambda>(frame, _, position, _). length frame - position)") auto

declare start_shards.simps [simp del]

definition record_start_shards :: "byte list \<Rightarrow> nat \<Rightarrow> bool list" where
  "record_start_shards frame shard_payload =
     (if shard_payload = 0 \<or> frame = [] then []
      else start_shards frame shard_payload 0 (replicate ((length frame + FRAME_HEADER_BYTES + shard_payload - 1) div shard_payload) False))"

end
