(* ===== verification/Pyrowave_Layout.thy ===== *)
theory Pyrowave_Layout
  imports Pyrowave_Frame "HOL-Library.Multiset"
begin

text \<open>
  What the writer of \<open>Pyrowave_Frame\<close> produces: a frame is its sequence header followed by items,
  each a padding record or a block record of the encoded bitstream. The theory follows the writer item
  by item, shows that it returns, that no ordinary item crosses a shard boundary, and that the parser
  reads back exactly what was written.
\<close>

section \<open>Items\<close>

datatype frame_item = Padding nat | Block nat

definition record_bytes :: "byte list \<Rightarrow> record_t \<Rightarrow> byte list" where
  "record_bytes bs r = take (rc_size r) (drop (rc_offset r) bs)"

definition padding_bytes :: "nat \<Rightarrow> byte list" where
  "padding_bytes n = append_u32 (append_u32 [] PADDING_MAGIC) (of_nat (n div 4 - 2)) @ replicate (n - 8) 0"

primrec item_bytes :: "write_env \<Rightarrow> frame_item \<Rightarrow> byte list" where
  "item_bytes e (Padding n) = padding_bytes n"
| "item_bytes e (Block i) = record_bytes (we_bitstream e) (we_records e ! i)"

primrec item_size :: "write_env \<Rightarrow> frame_item \<Rightarrow> nat" where
  "item_size e (Padding n) = n"
| "item_size e (Block i) = rc_size (we_records e ! i)"

definition items_size :: "write_env \<Rightarrow> frame_item list \<Rightarrow> nat" where
  "items_size e items = sum_list (map (item_size e) items)"

definition blocks :: "frame_item list \<Rightarrow> nat list" where
  "blocks items = concat (map (\<lambda>it. case it of Padding _ \<Rightarrow> [] | Block i \<Rightarrow> [i]) items)"

definition paddings :: "frame_item list \<Rightarrow> nat list" where
  "paddings items = concat (map (\<lambda>it. case it of Padding n \<Rightarrow> [n] | Block _ \<Rightarrow> []) items)"

definition ends_block :: "frame_item list \<Rightarrow> bool" where
  "ends_block items \<longleftrightarrow> items = [] \<or> (\<exists>i. last items = Block i)"

lemma ends_block_simps [simp]:
  "ends_block []" "ends_block (Block i # items) \<longleftrightarrow> ends_block items" "ends_block (Padding n # items) \<longleftrightarrow> items \<noteq> [] \<and> ends_block items"
  by (auto simp: ends_block_def)

lemma ends_block_append: "ends_block items \<Longrightarrow> ends_block items' \<Longrightarrow> ends_block (items @ items')"
  by (cases "items' = []") (auto simp: ends_block_def)

lemma items_simps [simp]:
  "items_size e [] = 0" "items_size e (it # items) = item_size e it + items_size e items"
  "items_size e (items @ items') = items_size e items + items_size e items'"
  "blocks [] = []" "blocks (Block i # items) = i # blocks items" "blocks (Padding n # items) = blocks items"
  "blocks (items @ items') = blocks items @ blocks items'"
  "paddings [] = []" "paddings (Block i # items) = paddings items" "paddings (Padding n # items) = n # paddings items"
  "paddings (items @ items') = paddings items @ paddings items'"
  by (simp_all add: items_size_def blocks_def paddings_def)

text \<open>A block record as \<^verbatim>\<open>write_record_frame\<close> accepts it.\<close>

definition record_ok :: "byte list \<Rightarrow> record_t \<Rightarrow> bool" where
  "record_ok bs r \<longleftrightarrow> 8 \<le> rc_size r \<and> rc_offset r + rc_size r \<le> length bs \<and> drop_bit 31 (read_u32 bs (rc_offset r)) = 0 \<and>
     rc_size r = unat (drop_bit 16 (read_u32 bs (rc_offset r)) AND 0xfff) * 4 \<and>
     rc_block_index r = drop_bit 8 (read_u32 bs (rc_offset r + 4))"

lemma unat_mask12: "unat ((x :: 32 word) AND 0xfff) < 4096"
proof -
  have "unat (x AND 0xfff) \<le> unat (0xfff :: 32 word)" using word_and_le1[of x "0xfff"] by (simp only: word_le_nat_alt)
  then show ?thesis by simp
qed

lemma record_size:
  assumes "record_ok bs r"
  shows "4 dvd rc_size r" "0 < rc_size r div 4" "rc_size r div 4 < LEAVES" "rc_size r div 4 * 4 = rc_size r"
  using assms unat_mask12[of "drop_bit 16 (read_u32 bs (rc_offset r))"] by (auto simp: record_ok_def LEAVES_def)

lemma length_record_bytes [simp]: "record_ok bs r \<Longrightarrow> length (record_bytes bs r) = rc_size r"
  by (auto simp: record_bytes_def record_ok_def)

lemma split_records_ok:
  assumes "split_records bs p = Some rs" "p \<le> length bs"
  shows "list_all (record_ok bs) rs \<and> drop p bs = concat (map (record_bytes bs) rs)"
  using assms
proof (induction bs p arbitrary: rs rule: split_records.induct)
  case (1 bs p)
  show ?case
  proof (cases "p < length bs")
    case False
    then show ?thesis using 1 by (simp add: split_records.simps)
  next
    case True
    define n where "n = unat (drop_bit 16 (read_u32 bs p) AND 0xfff)"
    define r where "r = \<lparr>rc_offset = p, rc_size = n * 4, rc_block_index = drop_bit 8 (read_u32 bs (p + 4))\<rparr>"
    have c: "\<not> length bs - p < 8" "\<not> (drop_bit 31 (read_u32 bs p) \<noteq> 0 \<or> n < 2 \<or> n * 4 > length bs - p)"
      "map_option ((#) r) (split_records bs (p + n * 4)) = Some rs"
      using "1.prems"(1) True by (auto simp: split_records.simps[of bs p] n_def r_def Let_def split: if_splits)
    then obtain rs' where rs': "split_records bs (p + n * 4) = Some rs'" "rs = r # rs'" by auto
    have le: "p + n * 4 \<le> length bs" using c(2) True by auto
    have "list_all (record_ok bs) rs' \<and> drop (p + n * 4) bs = concat (map (record_bytes bs) rs')"
      using "1.IH"[OF True c(1) refl refl] rs'(1) c(2) le unfolding n_def by auto
    moreover have "record_ok bs r" using c(1,2) True le by (auto simp: record_ok_def r_def n_def)
    moreover have "drop p bs = record_bytes bs r @ drop (p + n * 4) bs"
      using append_take_drop_id[of "n * 4" "drop p bs"] by (simp add: record_bytes_def r_def add.commute)
    ultimately show ?thesis using rs'(2) by simp
  qed
qed

section \<open>Room in a shard\<close>

lemma shard_room: "0 < sp \<Longrightarrow> 0 < shard_remaining p sp \<and> shard_remaining p sp \<le> sp"
  by (simp add: shard_remaining_def)

lemma shard_room_dvd:
  assumes "4 dvd sp" "4 dvd p" "0 < sp"
  shows "4 dvd shard_remaining p sp"
proof -
  have "4 dvd (p + FRAME_HEADER_BYTES) mod sp" using assms by (intro dvd_mod) (simp_all add: FRAME_HEADER_BYTES_def)
  then show ?thesis using assms by (simp add: shard_remaining_def dvd_diff_nat)
qed

lemma shard_room_step:
  assumes "0 < sp"
  shows "shard_remaining (p + n) sp = (if n mod sp < shard_remaining p sp then shard_remaining p sp - n mod sp
    else shard_remaining p sp + sp - n mod sp)"
proof -
  define x m where "x = (p + FRAME_HEADER_BYTES) mod sp" and "m = n mod sp"
  have b: "x < sp" "m < sp" using assms by (simp_all add: x_def m_def)
  have "(p + n + FRAME_HEADER_BYTES) mod sp = (x + m) mod sp" unfolding x_def m_def by (metis add.assoc add.commute mod_add_eq)
  also have "\<dots> = (if x + m < sp then x + m else x + m - sp)" using b by (auto simp: mod_if[of "x + m"] mod_if[of "x + m - sp"])
  finally show ?thesis using b by (auto simp: shard_remaining_def x_def m_def)
qed

lemma shard_room_fill:
  assumes "0 < sp"
  shows "shard_remaining (p + shard_remaining p sp) sp = sp"
proof -
  define r where "r = shard_remaining p sp"
  have "0 < r" "r \<le> sp" using shard_room[OF assms] by (auto simp: r_def)
  then show ?thesis unfolding shard_room_step[OF assms, of p] r_def[symmetric] by (cases "r = sp") auto
qed

section \<open>The state of the writer\<close>

text \<open>An item does not cross a shard boundary unless it is an oversized record.\<close>

primrec item_fits :: "write_env \<Rightarrow> nat \<Rightarrow> frame_item \<Rightarrow> bool" where
  "item_fits e p (Padding n) \<longleftrightarrow> 8 \<le> n \<and> 4 dvd n \<and> n \<le> shard_remaining p (we_shard_payload e)"
| "item_fits e p (Block i) \<longleftrightarrow> i < length (we_records e) \<and>
     (oversized (rc_size (we_records e ! i)) (we_shard_payload e) \<or> rc_size (we_records e ! i) \<le> shard_remaining p (we_shard_payload e))"

primrec items_fit :: "write_env \<Rightarrow> nat \<Rightarrow> frame_item list \<Rightarrow> bool" where
  "items_fit e p [] \<longleftrightarrow> True"
| "items_fit e p (it # items) \<longleftrightarrow> item_fits e p it \<and> items_fit e (p + item_size e it) items"

lemma items_fit_append [simp]:
  "items_fit e p (items @ items') \<longleftrightarrow> items_fit e p items \<and> items_fit e (p + items_size e items) items'"
  by (induction items arbitrary: p) (auto simp: add.assoc)

definition env_ok :: "write_env \<Rightarrow> bool" where
  "env_ok e \<longleftrightarrow> list_all (record_ok (we_bitstream e)) (we_records e) \<and> length (we_records e) < NONE \<and>
     24 \<le> we_shard_payload e \<and> 4 dvd we_shard_payload e"

lemma env_okD:
  assumes "env_ok e"
  shows "i < length (we_records e) \<Longrightarrow> record_ok (we_bitstream e) (we_records e ! i)"
    "24 \<le> we_shard_payload e" "4 dvd we_shard_payload e" "0 < we_shard_payload e"
  using assms by (auto simp: env_ok_def list_all_length)

text \<open>The output is the text before the frame, the sequence header and the bytes of the items; the shard
  that is being filled has room for at least a padding record.\<close>

definition written :: "write_env \<Rightarrow> byte list \<Rightarrow> nat \<Rightarrow> nat \<Rightarrow> frame_item list \<Rightarrow> write_state \<Rightarrow> bool" where
  "written e out0 nrec crit items w \<longleftrightarrow> length out0 = we_frame_start e + 8 \<and>
     ws_out w = out0 @ concat (map (item_bytes e) items) \<and> items_fit e 8 items \<and>
     st_block_records (ws_stats w) = nrec \<and> st_critical_bytes (ws_stats w) = crit \<and>
     st_padding_records (ws_stats w) = length (paddings items) \<and> st_padding_bytes (ws_stats w) = sum_list (paddings items)"

lemma length_padding_bytes: "8 \<le> n \<Longrightarrow> length (padding_bytes n) = n"
  by (simp add: padding_bytes_def append_u32_def)

lemma length_items:
  assumes "env_ok e"
  shows "items_fit e p items \<Longrightarrow> length (concat (map (item_bytes e) items)) = items_size e items"
proof (induction items arbitrary: p)
  case (Cons it items)
  then show ?case using env_okD(1)[OF assms] by (cases it) (auto simp: length_padding_bytes)
qed simp

lemma items_size_dvd:
  assumes "env_ok e"
  shows "items_fit e p items \<Longrightarrow> 4 dvd items_size e items"
proof (induction items arbitrary: p)
  case (Cons it items)
  then show ?case using record_size(1)[OF env_okD(1)[OF assms]] by (cases it) (auto intro!: dvd_add)
qed simp

lemma remaining_written:
  assumes "env_ok e" "written e out0 nrec crit items w"
  shows "remaining e w = shard_remaining (8 + items_size e items) (we_shard_payload e)" "4 dvd remaining e w"
    "0 < remaining e w" "remaining e w \<le> we_shard_payload e"
proof -
  have "length (ws_out w) - we_frame_start e = 8 + items_size e items"
    using assms(2) length_items[OF assms(1), of 8 items] by (simp add: written_def)
  then show r: "remaining e w = shard_remaining (8 + items_size e items) (we_shard_payload e)" by (simp add: remaining_def)
  have "4 dvd 8 + items_size e items" using items_size_dvd[OF assms(1), of 8 items] assms(2) by (simp add: written_def)
  then show "4 dvd remaining e w" unfolding r by (rule shard_room_dvd[OF env_okD(3)[OF assms(1)] _ env_okD(4)[OF assms(1)]])
  show "0 < remaining e w" "remaining e w \<le> we_shard_payload e" unfolding r using shard_room env_okD(4)[OF assms(1)] by auto
qed

lemma written_place:
  assumes e: "env_ok e" and w: "written e out0 nrec crit items w" and i: "i < length (we_records e)"
    and fits: "oversized (rc_size (we_records e ! i)) (we_shard_payload e) \<or> rc_size (we_records e ! i) \<le> remaining e w"
  shows "written e out0 nrec crit (items @ [Block i]) (place e (we_records e ! i) w)"
  using w fits i by (simp add: written_def place_def record_bytes_def remaining_written(1)[OF e w])

lemma written_pad:
  assumes e: "env_ok e" and w: "written e out0 nrec crit items w" and n: "8 \<le> n" "4 dvd n" "n \<le> remaining e w"
  obtains w' where "pad n w = Some w'" "written e out0 nrec crit (items @ [Padding n]) w'"
proof -
  have "append_padding (ws_out w) n = Some (ws_out w @ padding_bytes n)"
  proof -
    have "2 \<le> n div 4" using n(1) by simp
    then show ?thesis using n(1) by (simp add: append_padding_def padding_bytes_def append_u32_def PADDING_RECORD_MIN_BYTES_def)
  qed
  then have "pad n w = Some (w\<lparr>ws_out := ws_out w @ padding_bytes n,
     ws_stats := (ws_stats w)\<lparr>st_padding_records := st_padding_records (ws_stats w) + 1,
                              st_padding_bytes := st_padding_bytes (ws_stats w) + n\<rparr>\<rparr>)" by (simp add: pad_def)
  then show ?thesis using that w n by (simp add: written_def remaining_written(1)[OF e w])
qed

lemma written_stats:
  assumes "written e out0 nrec crit items w" "st_block_records s = nrec" "st_critical_bytes s = crit"
    "st_padding_records s = st_padding_records (ws_stats w)" "st_padding_bytes s = st_padding_bytes (ws_stats w)"
  shows "written e out0 nrec crit items (w\<lparr>ws_stats := s\<rparr>)"
  using assms by (simp add: written_def)

section \<open>Oversized records\<close>

text \<open>Placing a record never strands four bytes, unless its size leaves exactly that.\<close>

lemma room_after:
  assumes e: "env_ok e" and r: "8 \<le> r" "r \<le> we_shard_payload e" "4 dvd r" and n: "4 dvd n" "n mod we_shard_payload e \<noteq> r - 4"
    and p: "shard_remaining p (we_shard_payload e) = r"
  shows "8 \<le> shard_remaining (p + n) (we_shard_payload e)"
proof -
  let ?sp = "we_shard_payload e"
  have sp: "0 < ?sp" "4 dvd ?sp" using env_okD[OF e] by auto
  have m: "4 dvd n mod ?sp" "n mod ?sp < ?sp" using n(1) sp by (simp_all add: dvd_mod)
  show ?thesis
  proof (cases "n mod ?sp < r")
    case True
    have gap: "8 \<le> 4 * b - 4 * a" if "4 * a < 4 * b" "4 * a \<noteq> 4 * b - 4" "8 \<le> 4 * b" for a b :: nat using that by presburger
    obtain a b where ab: "n mod ?sp = 4 * a" "r = 4 * b" using m(1) r(3) by (auto elim!: dvdE)
    have "8 \<le> r - n mod ?sp" unfolding ab by (rule gap) (use True n(2) r(1) ab in simp_all)
    with True show ?thesis unfolding shard_room_step[OF sp(1)] p by simp
  next
    case False
    with m(2) r(1) show ?thesis unfolding shard_room_step[OF sp(1)] p by simp
  qed
qed

lemma place_oversized_ok:
  assumes e: "env_ok e"
  shows "written e out0 nrec crit items w \<Longrightarrow> 8 \<le> remaining e w \<Longrightarrow> list_all (\<lambda>i. i < length (we_records e)) grp \<Longrightarrow>
    \<exists>items' w'. place_oversized e grp w = Some (filter (\<lambda>i. \<not> oversized (rc_size (we_records e ! i)) (we_shard_payload e)) grp, w') \<and>
      written e out0 nrec crit (items @ items') w' \<and> 8 \<le> remaining e w' \<and> ends_block items' \<and>
      blocks items' = filter (\<lambda>i. oversized (rc_size (we_records e ! i)) (we_shard_payload e)) grp"
proof (induction grp arbitrary: items w)
  case Nil
  then show ?case by (intro exI[of _ "[]"] exI[of _ w]) simp
next
  case (Cons i grp)
  let ?sp = "we_shard_payload e" and ?r = "we_records e ! i"
  have i: "i < length (we_records e)" and g: "list_all (\<lambda>i. i < length (we_records e)) grp" using Cons.prems(3) by simp_all
  have d: "4 dvd rc_size ?r" using record_size(1)[OF env_okD(1)[OF e i]] .
  note rm = remaining_written[OF e Cons.prems(1)]
  show ?case
  proof (cases "oversized (rc_size ?r) ?sp")
    case False
    from Cons.IH[OF Cons.prems(1,2) g] False show ?thesis by auto
  next
    case True
    have "\<exists>pads w1. (if rc_size ?r mod ?sp = size_sub (remaining e w) 4 then pad PADDING_RECORD_MIN_BYTES w else Some w) = Some w1 \<and>
        written e out0 nrec crit (items @ pads) w1 \<and> blocks pads = [] \<and>
        8 \<le> shard_remaining (8 + items_size e (items @ pads) + rc_size ?r) ?sp"
    proof (cases "rc_size ?r mod ?sp = size_sub (remaining e w) 4")
      case False
      then have "8 \<le> shard_remaining (8 + items_size e items + rc_size ?r) ?sp"
        using Cons.prems(2) rm d by (intro room_after[OF e, of "remaining e w"]) auto
      with False Cons.prems(1) show ?thesis by (intro exI[of _ "[]"] exI[of _ w]) simp
    next
      case True
      obtain w1 where w1: "pad 8 w = Some w1" "written e out0 nrec crit (items @ [Padding 8]) w1"
        by (rule written_pad[OF e Cons.prems(1), of 8]) (use Cons.prems(2) in auto)
      have sp: "0 < ?sp" "24 \<le> ?sp" using env_okD[OF e] by auto
      have "8 \<le> shard_remaining (8 + items_size e items + (8 + rc_size ?r)) ?sp"
      proof (rule room_after[OF e Cons.prems(2) rm(4) rm(2) _ _ rm(1)[symmetric]])
        show "4 dvd 8 + rc_size ?r" using d by simp
        have m: "rc_size ?r mod ?sp = remaining e w - 4" using True Cons.prems(2) by simp
        have "(8 + rc_size ?r) mod ?sp = (8 + (remaining e w - 4)) mod ?sp" unfolding m[symmetric] by (simp add: mod_simps)
        also have "\<dots> = (remaining e w + 4) mod ?sp" using Cons.prems(2) by (simp add: add.commute)
        also have "\<dots> \<noteq> remaining e w - 4"
          using Cons.prems(2) rm(4) sp by (cases "remaining e w + 4 < ?sp") (auto simp: mod_if[of "remaining e w + 4"] mod_if[of "remaining e w + 4 - ?sp"])
        finally show "(8 + rc_size ?r) mod ?sp \<noteq> remaining e w - 4" .
      qed
      then show ?thesis using True w1 by (intro exI[of _ "[Padding 8]"] exI[of _ w1]) (simp add: PADDING_RECORD_MIN_BYTES_def add.assoc)
    qed
    then obtain pads w1 where w1: "(if rc_size ?r mod ?sp = size_sub (remaining e w) 4 then pad PADDING_RECORD_MIN_BYTES w else Some w) = Some w1"
      "written e out0 nrec crit (items @ pads) w1" "blocks pads = []"
      "8 \<le> shard_remaining (8 + items_size e (items @ pads) + rc_size ?r) ?sp" by blast
    define w2 where "w2 = place e ?r w1"
    have w2: "written e out0 nrec crit ((items @ pads) @ [Block i]) w2"
      unfolding w2_def by (rule written_place[OF e w1(2) i]) (use True in simp)
    define w3 where "w3 = w2\<lparr>ws_stats := (ws_stats w2)\<lparr>st_oversized_records := st_oversized_records (ws_stats w2) + 1\<rparr>\<rparr>"
    have w3: "written e out0 nrec crit (items @ pads @ [Block i]) w3"
      using written_stats[OF w2, of "(ws_stats w2)\<lparr>st_oversized_records := st_oversized_records (ws_stats w2) + 1\<rparr>"] w2
      by (simp add: w3_def written_def)
    have "8 \<le> remaining e w3" using w1(4) unfolding remaining_written(1)[OF e w3] by (simp add: add.assoc)
    from Cons.IH[OF w3 this g] obtain items' w' where
      w': "place_oversized e grp w3 = Some (filter (\<lambda>i. \<not> oversized (rc_size (we_records e ! i)) ?sp) grp, w')"
      "written e out0 nrec crit ((items @ pads @ [Block i]) @ items') w'" "8 \<le> remaining e w'" "ends_block items'"
      "blocks items' = filter (\<lambda>i. oversized (rc_size (we_records e ! i)) ?sp) grp" by blast
    have "place_oversized e (i # grp) w = place_oversized e grp w3"
      using True w1(1) by (simp add: Let_def w3_def w2_def)
    moreover have "ends_block (pads @ Block i # items')" using w'(4) by (auto simp: ends_block_def)
    ultimately show ?thesis using w' True w1(3) by (intro exI[of _ "pads @ Block i # items'"] exI[of _ w']) simp
  qed
qed

section \<open>Ordinary records\<close>

lemma skip_placed_finds:
  assumes "i < length placed" "\<not> placed ! i" "cursor \<le> i"
  shows "\<exists>c. skip_placed placed cursor = Some c \<and> c \<le> i \<and> c < length placed"
  using assms(3)
proof (induction "i - cursor" arbitrary: cursor)
  case 0
  then show ?case using assms by (simp add: skip_placed.simps[of placed cursor])
next
  case (Suc n)
  then have "cursor < i" by simp
  then show ?case using Suc.hyps(1)[of "cursor + 1"] Suc.hyps(2) assms(1) by (auto simp: skip_placed.simps[of placed cursor])
qed

lemma choose_record_ok:
  assumes f: "fit_rep words R f" and room: "8 \<le> room" "4 dvd room" and c: "choose_record words room f = c" "c \<noteq> NONE"
  shows "c \<in> R" "c < length words" "words ! c * 4 \<le> room" "room - words ! c * 4 \<noteq> 4" "fit_rep words (R - {c}) (fit_remove (words ! c) f)"
proof -
  obtain k where k: "room = 4 * k" "2 \<le> k" using room by (auto elim!: dvdE)
  let ?c0 = "earliest_fitting k f"
  have "\<exists>P. earliest words R P = c \<and> (P (words ! c) \<longrightarrow> words ! c \<le> k \<and> words ! c \<noteq> k - 1)"
  proof (cases "?c0 \<noteq> NONE \<and> size_sub room (words ! ?c0 * 4) = 4")
    case False
    then have e: "earliest words R (\<lambda>w. w \<le> k) = c" "size_sub room (words ! c * 4) \<noteq> 4"
      using c by (auto simp: choose_record_def Let_def k fit.fitting[OF f])
    from earliest_found(3)[OF e(1) c(2)] e(2) have "words ! c \<noteq> k - 1" using k by auto
    with e show ?thesis by blast
  next
    case True
    then have m: "c = min (earliest_exact k f) (if room \<ge> 16 then earliest_fitting ((room - 8) div 4) f else NONE)"
      using c by (auto simp: choose_record_def Let_def k)
    show ?thesis
    proof (cases "c = earliest_exact k f")
      case True
      then show ?thesis using k unfolding fit.exact[OF f] by (intro exI[of _ "\<lambda>w. w = k"]) auto
    next
      case False
      with m c(2) have "16 \<le> room" "c = earliest_fitting ((room - 8) div 4) f" by (auto simp: min_def split: if_splits)
      moreover have "(room - 8) div 4 = k - 2" using k by simp
      ultimately show ?thesis using k unfolding fit.fitting[OF f] by (intro exI[of _ "\<lambda>w. w \<le> k - 2"]) auto
    qed
  qed
  then obtain P where P: "earliest words R P = c" "P (words ! c) \<longrightarrow> words ! c \<le> k \<and> words ! c \<noteq> k - 1" by blast
  note p = earliest_found(1-3)[OF P(1) c(2)]
  show "c \<in> R" "c < length words" by (rule p)+
  show "words ! c * 4 \<le> room" "room - words ! c * 4 \<noteq> 4" using P(2) p(3) k by auto
  show "fit_rep words (R - {c}) (fit_remove (words ! c) f)" by (rule fit.take_chosen[OF f P(1) c(2)])
qed

text \<open>A shard that has not been started takes every ordinary record.\<close>

lemma choose_record_full:
  assumes f: "fit_rep words R f" and i: "i \<in> R" and sp: "\<forall>i < length words. words ! i * 4 + 8 \<le> sp"
  shows "choose_record words sp f \<noteq> NONE"
proof -
  have ok: "sizes_ok words" "R \<subseteq> {0..<length words}" using fit.sizes[OF f] by auto
  have "words ! i \<le> sp div 4" "i < length words" using sp i ok(2) by (auto dest!: spec[of _ i] subsetD[OF ok(2)])
  then have c: "earliest_fitting (sp div 4) f \<noteq> NONE"
    using earliest_none[of words R "\<lambda>w. w \<le> sp div 4" i] ok(1) i unfolding fit.fitting[OF f] by (auto simp: sizes_ok_def)
  then have "earliest_fitting (sp div 4) f < length words" using earliest_found(2)[OF refl] unfolding fit.fitting[OF f] by blast
  with sp have "words ! earliest_fitting (sp div 4) f * 4 + 8 \<le> sp" by blast
  then have "size_sub sp (words ! earliest_fitting (sp div 4) f * 4) \<noteq> 4" by auto
  with c show ?thesis by (simp add: choose_record_def Let_def)
qed

definition pack_pending :: "write_env \<Rightarrow> nat list \<Rightarrow> nat set \<Rightarrow> fit_index_t \<Rightarrow> bool list \<Rightarrow> nat \<Rightarrow> bool" where
  "pack_pending e ordinary R f placed cursor \<longleftrightarrow> fit_rep (map (\<lambda>i. rc_size (we_records e ! i) div 4) ordinary) R f \<and>
     length placed = length ordinary \<and> (\<forall>i < length ordinary. placed ! i \<longleftrightarrow> i \<notin> R) \<and> (\<forall>i < cursor. i \<notin> R)"

lemma pack_range:
  assumes "pack_pending e ordinary R f placed cursor"
  shows "R \<subseteq> {0..<length ordinary}" "finite R"
proof -
  have "fit_rep (map (\<lambda>i. rc_size (we_records e ! i) div 4) ordinary) R f" using assms by (simp add: pack_pending_def)
  from fit.sizes[OF this] show "R \<subseteq> {0..<length ordinary}" by simp
  then show "finite R" by (rule finite_subset) simp
qed

lemma pack_cursor:
  assumes p: "pack_pending e ordinary R f placed cursor" and "R \<noteq> {}"
  obtains c where "skip_placed placed cursor = Some c" "pack_pending e ordinary R f placed c"
proof -
  define i where "i = (LEAST i. i \<in> R)"
  have i: "i \<in> R" unfolding i_def using assms(2) by (metis LeastI equals0I)
  have first: "j \<notin> R" if "j < i" for j using that not_less_Least[of j "\<lambda>i. i \<in> R"] unfolding i_def by blast
  have lt: "i < length ordinary" using pack_range(1)[OF p] i by auto
  have le: "cursor \<le> i" using i p unfolding pack_pending_def by (metis not_less)
  have "i < length placed" "\<not> placed ! i" using p lt i by (simp_all add: pack_pending_def)
  from skip_placed_finds[OF this le] obtain c where c: "skip_placed placed cursor = Some c" "c \<le> i" by blast
  have "pack_pending e ordinary R f placed c" using p first c(2) by (simp add: pack_pending_def)
  from that[OF c(1) this] show ?thesis .
qed

lemma pack_ordinary_ok:
  fixes e :: write_env and ordinary :: "nat list"
  defines "words \<equiv> map (\<lambda>i. rc_size (we_records e ! i) div 4) ordinary"
  assumes e: "env_ok e"
    and ord: "\<And>i. i \<in> set ordinary \<Longrightarrow> i < length (we_records e) \<and> \<not> oversized (rc_size (we_records e ! i)) (we_shard_payload e)"
  shows "pack_pending e ordinary R f placed cursor \<Longrightarrow> card R = left \<Longrightarrow> written e out0 nrec crit items w \<Longrightarrow> 8 \<le> remaining e w \<Longrightarrow>
    \<exists>items' w'. pack_ordinary e ordinary words f placed cursor left w = Some w' \<and>
      written e out0 nrec crit (items @ items') w' \<and> 8 \<le> remaining e w' \<and> ends_block items' \<and>
      mset (blocks items') = image_mset ((!) ordinary) (mset_set R)"
proof (induction left arbitrary: R f placed cursor items w)
  case 0
  have "finite R" using pack_range(2)[OF 0(1)] .
  with 0 show ?case by (intro exI[of _ "[]"] exI[of _ w]) (simp add: pack_ordinary.simps)
next
  case (Suc left)
  let ?sp = "we_shard_payload e"
  have wl: "length words = length ordinary" and wi: "\<And>i. i < length ordinary \<Longrightarrow> words ! i = rc_size (we_records e ! (ordinary ! i)) div 4"
    by (simp_all add: words_def)
  have f: "fit_rep words R f" using Suc.prems(1) by (simp add: pack_pending_def words_def)
  have R: "R \<noteq> {}" "finite R" using Suc.prems(2) by (auto intro: card_ge_0_finite)
  have step: "\<exists>items' w'. pack_ordinary e ordinary words f placed cur (Suc left) v = Some w' \<and>
      written e out0 nrec crit (its @ items') w' \<and> 8 \<le> remaining e w' \<and> ends_block items' \<and> mset (blocks items') = image_mset ((!) ordinary) (mset_set R)"
    if cur: "pack_pending e ordinary R f placed cur" and v: "written e out0 nrec crit its v" "8 \<le> remaining e v"
      and c: "choose_record words (remaining e v) f \<noteq> NONE" for cur v its
  proof -
    obtain cur1 where cur1: "skip_placed placed cur = Some cur1" "pack_pending e ordinary R f placed cur1"
      using pack_cursor[OF cur R(1)] .
    define ch where "ch = choose_record words (remaining e v) f"
    note ch = choose_record_ok[OF f v(2) remaining_written(2)[OF e v(1)] ch_def[symmetric] c[folded ch_def]]
    let ?i = "ordinary ! ch" and ?r = "we_records e ! (ordinary ! ch)"
    define v1 where "v1 = (if ch \<noteq> cur1 then v\<lparr>ws_stats := (ws_stats v)\<lparr>st_reordered_records := st_reordered_records (ws_stats v) + 1\<rparr>\<rparr> else v)"
    have v1: "written e out0 nrec crit its v1" and rv: "remaining e v1 = remaining e v"
      using v(1) by (auto simp: v1_def written_def remaining_def)
    have i: "?i < length (we_records e)" using ord[of ?i] ch(2) wl by auto
    have sz: "words ! ch * 4 = rc_size ?r" using record_size(4)[OF env_okD(1)[OF e i]] wi ch(2) wl by simp
    have w2: "written e out0 nrec crit (its @ [Block ?i]) (place e ?r v1)"
      by (rule written_place[OF e v1 i]) (use ch(3) sz rv in simp)
    have room: "8 \<le> remaining e (place e ?r v1)"
    proof -
      have "rc_size ?r mod ?sp \<noteq> remaining e v - 4"
        using ch(3,4) sz ord[of ?i] ch(2) wl v(2) by (auto simp: oversized_def PADDING_RECORD_MIN_BYTES_def)
      from room_after[OF e v(2) remaining_written(4,2)[OF e v(1)] record_size(1)[OF env_okD(1)[OF e i]] this remaining_written(1)[OF e v(1), symmetric]]
      show ?thesis unfolding remaining_written(1)[OF e w2] by (simp add: add.assoc)
    qed
    have pend: "pack_pending e ordinary (R - {ch}) (fit_remove (words ! ch) f) (placed[ch := True]) cur1"
      using cur1(2) ch(2,5) wl by (auto simp: pack_pending_def words_def[symmetric] nth_list_update)
    have "card (R - {ch}) = left" using Suc.prems(2) ch(1) R(2) by simp
    from Suc.IH[OF pend this w2 room] obtain items' w' where
      w': "pack_ordinary e ordinary words (fit_remove (words ! ch) f) (placed[ch := True]) cur1 left (place e ?r v1) = Some w'"
      "written e out0 nrec crit ((its @ [Block ?i]) @ items') w'" "8 \<le> remaining e w'" "ends_block items'"
      "mset (blocks items') = image_mset ((!) ordinary) (mset_set (R - {ch}))" by blast
    have "pack_ordinary e ordinary words f placed cur (Suc left) v = Some w'"
      using cur1(1) c w'(1) by (simp add: pack_ordinary.simps[of e ordinary words f placed cur] ch_def[symmetric] v1_def[symmetric] Let_def)
    moreover have "mset_set R = {#ch#} + mset_set (R - {ch})" using ch(1) R(2) by (simp add: mset_set.remove)
    ultimately show ?thesis using w'(2-5) by (intro exI[of _ "Block ?i # items'"] exI[of _ w']) simp
  qed
  show ?case
  proof (cases "choose_record words (remaining e w) f = NONE")
    case False
    from step[OF Suc.prems(1,3,4) False] show ?thesis .
  next
    case True
    obtain cur1 where cur1: "skip_placed placed cursor = Some cur1" "pack_pending e ordinary R f placed cur1"
      using pack_cursor[OF Suc.prems(1) R(1)] .
    note rm = remaining_written[OF e Suc.prems(3)]
    obtain v where v: "pad (remaining e w) w = Some v" "written e out0 nrec crit (items @ [Padding (remaining e w)]) v"
      by (rule written_pad[OF e Suc.prems(3,4) rm(2)]) auto
    have sp: "0 < ?sp" "24 \<le> ?sp" using env_okD[OF e] by auto
    have full: "remaining e v = ?sp"
    proof -
      have "remaining e v = shard_remaining (8 + items_size e items + remaining e w) ?sp"
        using remaining_written(1)[OF e v(2)] by (simp add: add.assoc)
      also have "\<dots> = ?sp" unfolding rm(1) by (rule shard_room_fill[OF sp(1)])
      finally show ?thesis .
    qed
    have "\<forall>i < length words. words ! i * 4 + 8 \<le> ?sp"
    proof (intro allI impI)
      fix i assume i: "i < length words"
      then have "words ! i * 4 \<le> rc_size (we_records e ! (ordinary ! i))" using wi wl by simp
      moreover have "\<not> oversized (rc_size (we_records e ! (ordinary ! i))) ?sp" using ord[of "ordinary ! i"] i wl by simp
      ultimately show "words ! i * 4 + 8 \<le> ?sp" by (simp add: oversized_def PADDING_RECORD_MIN_BYTES_def)
    qed
    with R(1) have "choose_record words (remaining e v) f \<noteq> NONE" unfolding full using choose_record_full[OF f] by blast
    from step[OF cur1(2) v(2) _ this] full sp obtain items' w' where
      w': "pack_ordinary e ordinary words f placed cur1 (Suc left) v = Some w'"
      "written e out0 nrec crit ((items @ [Padding (remaining e w)]) @ items') w'" "8 \<le> remaining e w'" "ends_block items'"
      "mset (blocks items') = image_mset ((!) ordinary) (mset_set R)" by auto
    have "pack_ordinary e ordinary words f placed cursor (Suc left) w = Some w'"
      using True cur1(1) v(1) w'(1) by (simp add: pack_ordinary.simps[of e ordinary words f placed cursor] Let_def)
    moreover have "items' \<noteq> []" using w'(5) R by (auto simp: mset_set_empty_iff)
    ultimately show ?thesis using w'(2-5) by (intro exI[of _ "Padding (remaining e w) # items'"] exI[of _ w']) simp
  qed
qed

section \<open>A group of records\<close>

lemma write_group_ok:
  assumes e: "env_ok e" and w: "written e out0 nrec crit items w" "8 \<le> remaining e w"
    and g: "list_all (\<lambda>i. i < length (we_records e)) grp" "length grp \<le> length (we_records e)"
  shows "\<exists>items' w' ord. write_group e grp w = Some w' \<and> written e out0 nrec crit (items @ items') w' \<and> 8 \<le> remaining e w' \<and>
    ends_block items' \<and> blocks items' = filter (\<lambda>i. oversized (rc_size (we_records e ! i)) (we_shard_payload e)) grp @ ord \<and>
    mset ord = mset (filter (\<lambda>i. \<not> oversized (rc_size (we_records e ! i)) (we_shard_payload e)) grp)"
proof -
  define ordinary where "ordinary = filter (\<lambda>i. \<not> oversized (rc_size (we_records e ! i)) (we_shard_payload e)) grp"
  define words where "words = map (\<lambda>i. rc_size (we_records e ! i) div 4) ordinary"
  obtain its1 w1 where 1: "place_oversized e grp w = Some (ordinary, w1)" "written e out0 nrec crit (items @ its1) w1"
    "8 \<le> remaining e w1" "ends_block its1" "blocks its1 = filter (\<lambda>i. oversized (rc_size (we_records e ! i)) (we_shard_payload e)) grp"
    using place_oversized_ok[OF e w g(1)] unfolding ordinary_def by blast
  have ord: "i < length (we_records e) \<and> \<not> oversized (rc_size (we_records e ! i)) (we_shard_payload e)" if "i \<in> set ordinary" for i
    using that g(1) by (auto simp: ordinary_def list_all_iff)
  have "sizes_ok words"
  proof -
    have "length ordinary \<le> length grp" by (simp add: ordinary_def)
    then have "length words < NONE" using g(2) e by (simp add: words_def env_ok_def)
    moreover have "list_all (\<lambda>w. 0 < w \<and> w < LEAVES) words"
      using record_size(2,3)[OF env_okD(1)[OF e]] ord by (simp add: words_def list_all_iff)
    ultimately show ?thesis by (simp add: sizes_ok_def)
  qed
  from fit.fresh[OF this] have "pack_pending e ordinary {0..<length ordinary} (fit_new words) (replicate (length ordinary) False) 0"
    by (simp add: pack_pending_def words_def)
  from pack_ordinary_ok[OF e ord this _ 1(2,3), of "length ordinary"] obtain its2 w2 where
    2: "pack_ordinary e ordinary words (fit_new words) (replicate (length ordinary) False) 0 (length ordinary) w1 = Some w2"
    "written e out0 nrec crit ((items @ its1) @ its2) w2" "8 \<le> remaining e w2" "ends_block its2"
    "mset (blocks its2) = image_mset ((!) ordinary) (mset_set {0..<length ordinary})" unfolding words_def by auto
  have "mset (map ((!) ordinary) [0..<length ordinary]) = image_mset ((!) ordinary) (mset_set {0..<length ordinary})" by simp
  then have "mset (blocks its2) = mset ordinary" using 2(5) by (simp only: map_nth)
  moreover have "write_group e grp w = Some w2" using 1(1) 2(1) by (simp add: write_group_def words_def Let_def)
  ultimately show ?thesis using 1(4,5) 2(2-4) ends_block_append[OF 1(4) 2(4)]
    by (intro exI[of _ "its1 @ its2"] exI[of _ w2] exI[of _ "blocks its2"]) (simp add: ordinary_def)
qed

section \<open>Reading words back\<close>

lemma read_u32_here: "p + 4 \<le> length xs \<Longrightarrow> read_u32 (xs @ ys) p = read_u32 xs p"
  by (simp add: read_u32_def nth_append)

lemma read_u32_skip: "read_u32 (xs @ ys) (length xs + p) = read_u32 ys p"
  by (simp add: read_u32_def nth_append add.assoc)

lemma read_u32_record:
  assumes "record_ok bs r" "p + 4 \<le> rc_size r"
  shows "read_u32 (record_bytes bs r) p = read_u32 bs (rc_offset r + p)"
proof -
  have "p < rc_size r" "p + 1 < rc_size r" "p + 2 < rc_size r" "p + 3 < rc_size r" "rc_offset r + rc_size r \<le> length bs"
    using assms by (auto simp: record_ok_def)
  then show ?thesis by (simp add: read_u32_def record_bytes_def add.assoc)
qed

lemma bit_byte_up: "bit (ucast (b :: byte) :: 32 word) n \<longleftrightarrow> n < 8 \<and> bit b n"
  by (auto simp: bit_simps dest: bit_imp_le_length)

lemma bit_byte_down: "bit (ucast (v AND 0xff :: 32 word) :: byte) n \<longleftrightarrow> n < 8 \<and> bit v n"
proof -
  have m: "(255 :: 32 word) = mask 8" by (simp add: mask_numeral)
  show ?thesis unfolding m by (auto simp: bit_simps)
qed

lemma bit_read_u32:
  "bit (read_u32 [a, b, c, d] 0) n \<longleftrightarrow> n < 32 \<and> (if n < 8 then bit a n else if n < 16 then bit b (n - 8)
     else if n < 24 then bit c (n - 16) else bit d (n - 24))"
  unfolding read_u32_def by (simp add: bit_or_iff bit_push_bit_iff bit_byte_up) linarith

lemma read_u32_append_u32: "read_u32 (append_u32 [] v) 0 = v"
  by (rule bit_word_eqI) (auto simp: append_u32_def bit_read_u32 bit_byte_down bit_drop_bit_eq)

lemma append_u32_app: "append_u32 xs v = xs @ append_u32 [] v"
  by (simp add: append_u32_def)

lemma read_padding:
  assumes "8 \<le> n" "4 dvd n" "n < 2 ^ 32"
  shows "read_u32 (padding_bytes n) 0 = PADDING_MAGIC" "8 + unat (read_u32 (padding_bytes n) 4) * 4 = n"
proof -
  let ?c = "of_nat (n div 4 - 2) :: 32 word" and ?z = "replicate (n - 8) (0 :: byte)"
  have l: "length (append_u32 [] v) = 4" for v by (simp add: append_u32_def)
  have b: "padding_bytes n = append_u32 [] PADDING_MAGIC @ append_u32 [] ?c @ ?z"
    using append_u32_app[of "append_u32 [] PADDING_MAGIC" ?c] by (simp add: padding_bytes_def)
  show "read_u32 (padding_bytes n) 0 = PADDING_MAGIC" 
    unfolding b by (simp add: read_u32_here[of 0 "append_u32 [] PADDING_MAGIC"] l read_u32_append_u32)
  have "read_u32 (padding_bytes n) (length (append_u32 [] PADDING_MAGIC) + 0) = read_u32 (append_u32 [] ?c @ ?z) 0"
    unfolding b by (rule read_u32_skip)
  also have "\<dots> = ?c" by (simp add: read_u32_here[of 0 "append_u32 [] ?c"] l read_u32_append_u32)
  finally have "read_u32 (padding_bytes n) 4 = ?c" by (simp only: l add_0_right)
  moreover have "unat ?c = n div 4 - 2" using assms(3) by (simp add: unsigned_of_nat take_bit_nat_eq_self_iff)
  ultimately have u: "unat (read_u32 (padding_bytes n) 4) = n div 4 - 2" by (simp only:)
  obtain k where "n = 4 * k" using assms(2) by (rule dvdE)
  with assms(1) show "8 + unat (read_u32 (padding_bytes n) 4) * 4 = n" unfolding u by simp
qed

section \<open>Parsing what was written\<close>

text \<open>The four kinds of records in the order the frame has them.\<close>

definition level :: "write_env \<Rightarrow> 32 word \<Rightarrow> nat \<Rightarrow> nat" where
  "level e coarse_blocks i = (if rc_block_index (we_records e ! i) < coarse_blocks then 0 else 2) +
     (if oversized (rc_size (we_records e ! i)) (we_shard_payload e) then 0 else 1)"

fun critical_end :: "write_env \<Rightarrow> 32 word \<Rightarrow> nat \<Rightarrow> nat \<Rightarrow> frame_item list \<Rightarrow> nat" where
  "critical_end e coarse_blocks p c [] = c"
| "critical_end e coarse_blocks p c (Padding n # items) = critical_end e coarse_blocks (p + n) c items"
| "critical_end e coarse_blocks p c (Block i # items) = critical_end e coarse_blocks (p + rc_size (we_records e ! i))
     (if rc_block_index (we_records e ! i) < coarse_blocks then p + rc_size (we_records e ! i) else c) items"

text \<open>The parser's state after the items before the current position.\<close>

definition inspected :: "write_env \<Rightarrow> 32 word \<Rightarrow> byte list \<Rightarrow> frame_item list \<Rightarrow> inspect_state \<Rightarrow> bool" where
  "inspected e coarse_blocks hdr items s \<longleftrightarrow> fr_has_sequence_header (is_info s) \<and> fr_error (is_info s) = '''' \<and>
     fr_block_records (is_info s) = length (blocks items) \<and> fr_padding_records (is_info s) = length (paddings items) \<and>
     fr_padding_bytes (is_info s) = sum_list (paddings items) \<and> fr_misaligned_records (is_info s) = 0 \<and>
     fr_late_oversized_records (is_info s) = 0 \<and> fr_late_coarse_records (is_info s) = 0 \<and>
     fr_stripped (is_info s) = hdr @ concat (map (\<lambda>i. record_bytes (we_bitstream e) (we_records e ! i)) (blocks items)) \<and>
     is_coarse_blocks s = coarse_blocks \<and>
     (is_seen_ordinary_coarse s \<longleftrightarrow> 1 \<in> level e coarse_blocks ` set (blocks items)) \<and>
     (is_seen_ordinary_fine s \<longleftrightarrow> 3 \<in> level e coarse_blocks ` set (blocks items)) \<and>
     (is_seen_fine s \<longleftrightarrow> (\<exists>i \<in> set (blocks items). 2 \<le> level e coarse_blocks i))"

lemma fits_one_shard:
  assumes "0 < sp" "0 < n" "n \<le> shard_remaining p sp"
  shows "(p + FRAME_HEADER_BYTES) div sp = (p + FRAME_HEADER_BYTES + n - 1) div sp"
proof -
  define q x where "q = (p + FRAME_HEADER_BYTES) div sp" and "x = (p + FRAME_HEADER_BYTES) mod sp"
  have p: "p + FRAME_HEADER_BYTES = q * sp + x" by (simp add: q_def x_def)
  have "x + n - 1 < sp" using assms by (simp add: shard_remaining_def x_def)
  then have "(q * sp + (x + n - 1)) div sp = q" using assms(1) by (simp add: div_mult_self3)
  moreover have "p + FRAME_HEADER_BYTES + n - 1 = q * sp + (x + n - 1)" using p assms(2) by simp
  ultimately show ?thesis unfolding q_def[symmetric] by simp
qed

lemma note_alignment_fits:
  assumes "0 < sp" "0 < n" "oversized n sp \<or> n \<le> shard_remaining p sp"
  shows "fst (note_alignment sp p n info) = oversized n sp"
    "snd (note_alignment sp p n info) = (if oversized n sp then info\<lparr>fr_oversized_records := fr_oversized_records info + 1\<rparr> else info)"
  using assms fits_one_shard[of sp n p] by (auto simp: note_alignment_def Let_def)

lemma inspected_padding:
  assumes "inspected e cb hdr items s" "0 < sp" "0 < n" "n \<le> shard_remaining p sp"
  shows "inspected e cb hdr (items @ [Padding n]) (inspect_padding sp p n s)"
    "fr_critical_bytes (is_info (inspect_padding sp p n s)) = fr_critical_bytes (is_info s)"
proof -
  have a: "oversized n sp \<or> n \<le> shard_remaining p sp" using assms(4) by simp
  show "inspected e cb hdr (items @ [Padding n]) (inspect_padding sp p n s)"
    "fr_critical_bytes (is_info (inspect_padding sp p n s)) = fr_critical_bytes (is_info s)"
    using assms(1) by (simp_all add: inspected_def inspect_padding_def Let_def note_alignment_fits(2)[OF assms(2,3) a])
qed

lemma inspected_block:
  fixes e :: write_env and i :: nat
  defines "r \<equiv> we_records e ! i" and "sp \<equiv> we_shard_payload e"
  assumes ins: "inspected e cb hdr items s" and sp: "0 < sp" and r: "0 < rc_size r"
    and fits: "oversized (rc_size r) sp \<or> rc_size r \<le> shard_remaining p sp"
    and frame: "take (rc_size r) (drop p frame) = record_bytes (we_bitstream e) r"
    and order: "\<forall>j \<in> set (blocks items). level e cb j \<le> level e cb i"
  shows "inspected e cb hdr (items @ [Block i]) (inspect_block sp frame p (rc_size r) (rc_block_index r) s)"
    "fr_critical_bytes (is_info (inspect_block sp frame p (rc_size r) (rc_block_index r) s)) =
      (if rc_block_index r < cb then p + rc_size r else fr_critical_bytes (is_info s))"
proof -
  define coarse where "coarse = (rc_block_index r < cb)"
  have lv: "level e cb i = (if coarse then 0 else 2) + (if oversized (rc_size r) sp then 0 else 1)"
    by (simp add: level_def coarse_def r_def sp_def)
  have cbs: "is_coarse_blocks s = cb" using ins by (simp add: inspected_def)
  have late: "coarse \<Longrightarrow> \<not> is_seen_fine s"
    "oversized (rc_size r) sp \<Longrightarrow> \<not> (if coarse then is_seen_ordinary_coarse s else is_seen_ordinary_fine s)"
  proof -
    show "\<not> is_seen_fine s" if coarse
    proof
      assume "is_seen_fine s"
      then obtain j where "j \<in> set (blocks items)" "2 \<le> level e cb j" using ins by (auto simp: inspected_def)
      with order that lv show False by (auto dest!: bspec split: if_splits)
    qed
    show "\<not> (if coarse then is_seen_ordinary_coarse s else is_seen_ordinary_fine s)" if o: "oversized (rc_size r) sp"
    proof
      assume "if coarse then is_seen_ordinary_coarse s else is_seen_ordinary_fine s"
      then obtain j where "j \<in> set (blocks items)" "level e cb j = (if coarse then 1 else 3)"
        using ins by (auto simp: inspected_def split: if_splits)
      with order o lv show False by (fastforce split: if_splits)
    qed
  qed
  note al = note_alignment_fits[OF sp r fits]
  have al2: "note_alignment sp p (rc_size r) info = (oversized (rc_size r) sp,
      if oversized (rc_size r) sp then info\<lparr>fr_oversized_records := fr_oversized_records info + 1\<rparr> else info)" for info
    using al[of info] by (simp add: prod_eq_iff)
  have blk: "we_records e ! i = r" by (simp add: r_def)
  show "inspected e cb hdr (items @ [Block i]) (inspect_block sp frame p (rc_size r) (rc_block_index r) s)"
    using ins late sp lv frame
    by (cases coarse; cases "oversized (rc_size r) sp")
      (auto simp: inspected_def inspect_block_def inspect_level_def Let_def al2 cbs coarse_def[symmetric] blk)
  show "fr_critical_bytes (is_info (inspect_block sp frame p (rc_size r) (rc_block_index r) s)) =
      (if rc_block_index r < cb then p + rc_size r else fr_critical_bytes (is_info s))"
    using sp by (cases "oversized (rc_size r) sp") (auto simp: inspect_block_def inspect_level_def Let_def al2 cbs)
qed

text \<open>The two header words at the start of an item, and one turn of the parser's loop there.\<close>

lemma padding_words:
  assumes f: "frame = pre @ padding_bytes n @ post" and n: "8 \<le> n" "4 dvd n" "n < 2 ^ 32"
  shows "read_u32 frame (length pre) = PADDING_MAGIC" "PADDING_RECORD_MIN_BYTES + unat (read_u32 frame (length pre + 4)) * 4 = n"
    "length frame = length pre + n + length post"
proof -
  show "read_u32 frame (length pre) = PADDING_MAGIC"
    using read_padding(1)[OF n] read_u32_skip[of pre "padding_bytes n @ post" 0] read_u32_here[of 0 "padding_bytes n" post] n(1)
    by (simp add: f length_padding_bytes)
  have w1: "read_u32 frame (length pre + 4) = read_u32 (padding_bytes n) 4"
    using read_u32_skip[of pre "padding_bytes n @ post" 4] read_u32_here[of 4 "padding_bytes n" post] n(1)
    by (simp add: f length_padding_bytes)
  show "length frame = length pre + n + length post" using n(1) by (simp add: f length_padding_bytes)
  show "PADDING_RECORD_MIN_BYTES + unat (read_u32 frame (length pre + 4)) * 4 = n"
    using read_padding(2)[OF n] unfolding w1 by (simp add: PADDING_RECORD_MIN_BYTES_def)
qed

lemma block_words:
  assumes f: "frame = pre @ record_bytes bs r @ post" and r: "record_ok bs r"
  shows "drop_bit 31 (read_u32 frame (length pre)) = 0" "read_u32 frame (length pre) \<noteq> PADDING_MAGIC"
    "unat (drop_bit 16 (read_u32 frame (length pre)) AND 0xfff) * 4 = rc_size r"
    "drop_bit 8 (read_u32 frame (length pre + 4)) = rc_block_index r" "length frame = length pre + rc_size r + length post" "8 \<le> rc_size r"
proof -
  show sz: "8 \<le> rc_size r" using r by (simp add: record_ok_def)
  have w0: "read_u32 frame (length pre) = read_u32 bs (rc_offset r)"
    using read_u32_skip[of pre "record_bytes bs r @ post" 0] read_u32_here[of 0 "record_bytes bs r" post] read_u32_record[OF r, of 0] sz r
    by (simp add: f)
  have w1: "read_u32 frame (length pre + 4) = read_u32 bs (rc_offset r + 4)"
    using read_u32_skip[of pre "record_bytes bs r @ post" 4] read_u32_here[of 4 "record_bytes bs r" post] read_u32_record[OF r, of 4] sz r
    by (simp add: f)
  show "length frame = length pre + rc_size r + length post" using r by (simp add: f)
  show t: "drop_bit 31 (read_u32 frame (length pre)) = 0" unfolding w0 using r by (simp add: record_ok_def)
  then show "read_u32 frame (length pre) \<noteq> PADDING_MAGIC" by (auto simp: PADDING_MAGIC_def)
  show "unat (drop_bit 16 (read_u32 frame (length pre)) AND 0xfff) * 4 = rc_size r" unfolding w0 using r by (simp add: record_ok_def)
  show "drop_bit 8 (read_u32 frame (length pre + 4)) = rc_block_index r" unfolding w1 using r by (simp add: record_ok_def)
qed

lemma inspect_loop_padding:
  assumes f: "frame = pre @ padding_bytes n @ post" and n: "8 \<le> n" "4 dvd n" "n < 2 ^ 32"
  shows "inspect_loop sp frame (length pre) s = inspect_loop sp frame (length pre + n) (inspect_padding sp (length pre) n s)"
  unfolding inspect_loop.simps[of sp frame "length pre"] Let_def padding_words(2)[OF assms] using padding_words(1,3)[OF assms] n(1) by simp

lemma inspect_loop_block:
  assumes f: "frame = pre @ record_bytes bs r @ post" and r: "record_ok bs r" and h: "fr_has_sequence_header (is_info s)"
  shows "inspect_loop sp frame (length pre) s =
    inspect_loop sp frame (length pre + rc_size r) (inspect_block sp frame (length pre) (rc_size r) (rc_block_index r) s)"
proof -
  note w = block_words[OF f r]
  have "\<not> unat (drop_bit 16 (read_u32 frame (length pre)) AND 0xfff) < 2" using w(3,6) by simp
  then show ?thesis unfolding inspect_loop.simps[of sp frame "length pre"] Let_def w(3,4) using w(1,2,5,6) h by simp
qed

lemma inspect_items:
  assumes e: "env_ok e" and sp: "we_shard_payload e < 2 ^ 32" and hdr: "length hdr = 8"
  shows "frame = hdr @ concat (map (item_bytes e) (items @ rest)) \<Longrightarrow> items_fit e 8 (items @ rest) \<Longrightarrow>
    sorted (map (level e cb) (blocks (items @ rest))) \<Longrightarrow> inspected e cb hdr items s \<Longrightarrow>
    \<exists>s'. inspect_loop (we_shard_payload e) frame (8 + items_size e items) s = (is_info s')\<lparr>fr_valid := True\<rparr> \<and>
      inspected e cb hdr (items @ rest) s' \<and>
      fr_critical_bytes (is_info s') = critical_end e cb (8 + items_size e items) (fr_critical_bytes (is_info s)) rest"
proof (induction rest arbitrary: items s)
  case Nil
  have "length frame = 8 + items_size e items" using length_items[OF e, of 8 items] Nil.prems(1,2) hdr by simp
  then show ?case using Nil.prems(4) by (intro exI[of _ s]) (simp add: inspect_loop.simps inspected_def)
next
  case (Cons it rest)
  let ?sp = "we_shard_payload e" and ?pre = "hdr @ concat (map (item_bytes e) items)"
  have sp0: "0 < ?sp" using env_okD(4)[OF e] .
  have pre: "length ?pre = 8 + items_size e items" using length_items[OF e, of 8 items] Cons.prems(2) hdr by simp
  have fr: "frame = ?pre @ item_bytes e it @ concat (map (item_bytes e) rest)" using Cons.prems(1) by simp
  have fit: "item_fits e (8 + items_size e items) it" using Cons.prems(2) by simp
  have "\<exists>s1. inspect_loop ?sp frame (8 + items_size e items) s = inspect_loop ?sp frame (8 + items_size e (items @ [it])) s1 \<and>
      inspected e cb hdr (items @ [it]) s1 \<and>
      critical_end e cb (8 + items_size e items) (fr_critical_bytes (is_info s)) (it # rest) =
        critical_end e cb (8 + items_size e (items @ [it])) (fr_critical_bytes (is_info s1)) rest"
  proof (cases it)
    case (Padding n)
    then have n: "8 \<le> n" "4 dvd n" "n \<le> shard_remaining (8 + items_size e items) ?sp" using fit by simp_all
    then have "n < 2 ^ 32" using shard_room[OF sp0, of "8 + items_size e items"] sp by linarith
    from inspect_loop_padding[OF _ n(1,2) this, of frame ?pre _ ?sp s] fr Padding
    have "inspect_loop ?sp frame (8 + items_size e items) s =
        inspect_loop ?sp frame (8 + items_size e items + n) (inspect_padding ?sp (8 + items_size e items) n s)" unfolding pre by simp
    with inspected_padding[OF Cons.prems(4) sp0 _ n(3)] n(1) show ?thesis
      by (intro exI[of _ "inspect_padding ?sp (8 + items_size e items) n s"]) (simp add: Padding add.assoc)
  next
    case (Block i)
    let ?r = "we_records e ! i"
    have i: "i < length (we_records e)" "oversized (rc_size ?r) ?sp \<or> rc_size ?r \<le> shard_remaining (8 + items_size e items) ?sp"
      using fit Block by simp_all
    have r: "record_ok (we_bitstream e) ?r" using env_okD(1)[OF e i(1)] .
    have ord: "\<forall>j \<in> set (blocks items). level e cb j \<le> level e cb i" using Cons.prems(3) by (auto simp: Block sorted_append)
    have tk: "take (rc_size ?r) (drop (8 + items_size e items) frame) = record_bytes (we_bitstream e) ?r"
      unfolding fr pre[symmetric] using r by (simp add: Block)
    have "fr_has_sequence_header (is_info s)" using Cons.prems(4) by (simp add: inspected_def)
    from inspect_loop_block[OF _ r this, of frame ?pre _ ?sp] fr Block
    have "inspect_loop ?sp frame (8 + items_size e items) s = inspect_loop ?sp frame (8 + items_size e items + rc_size ?r)
        (inspect_block ?sp frame (8 + items_size e items) (rc_size ?r) (rc_block_index ?r) s)" unfolding pre by simp
    moreover have "0 < rc_size ?r" using r by (simp add: record_ok_def)
    ultimately show ?thesis using inspected_block[OF Cons.prems(4) sp0 _ i(2) tk ord]
      by (intro exI[of _ "inspect_block ?sp frame (8 + items_size e items) (rc_size ?r) (rc_block_index ?r) s"]) (simp add: Block add.assoc)
  qed
  then obtain s1 where s1: "inspect_loop ?sp frame (8 + items_size e items) s = inspect_loop ?sp frame (8 + items_size e (items @ [it])) s1"
    "inspected e cb hdr (items @ [it]) s1"
    "critical_end e cb (8 + items_size e items) (fr_critical_bytes (is_info s)) (it # rest) =
      critical_end e cb (8 + items_size e (items @ [it])) (fr_critical_bytes (is_info s1)) rest" by blast
  have "frame = hdr @ concat (map (item_bytes e) ((items @ [it]) @ rest))" "items_fit e 8 ((items @ [it]) @ rest)"
    "sorted (map (level e cb) (blocks ((items @ [it]) @ rest)))" using Cons.prems(1-3) by simp_all
  from Cons.IH[OF this s1(2)] s1(1,3) show ?case by simp
qed

section \<open>The whole frame\<close>

definition frame_env :: "byte list \<Rightarrow> record_t list \<Rightarrow> nat \<Rightarrow> byte list \<Rightarrow> write_env" where
  "frame_env bs records sp out = \<lparr>we_bitstream = bs, we_records = records, we_shard_payload = sp, we_frame_start = length out\<rparr>"

definition coarse_blocks_in :: "byte list \<Rightarrow> 32 word" where
  "coarse_blocks_in bs = coarse_block_count ((read_u32 bs 0 AND 0x3fff) + 1) ((drop_bit 14 (read_u32 bs 0) AND 0x3fff) + 1)"

definition coarse_of :: "byte list \<Rightarrow> record_t list \<Rightarrow> nat list" where
  "coarse_of bs records = filter (\<lambda>i. rc_block_index (records ! i) < coarse_blocks_in bs) [0..<length records]"

definition fine_of :: "byte list \<Rightarrow> record_t list \<Rightarrow> nat list" where
  "fine_of bs records = filter (\<lambda>i. \<not> rc_block_index (records ! i) < coarse_blocks_in bs) [0..<length records]"

lemma groups_partition: "mset (coarse_of bs records) + mset (fine_of bs records) = mset [0..<length records]"
  unfolding coarse_of_def fine_of_def mset_filter by (rule multiset_partition[symmetric])

lemma shard_payload_ok:
  assumes "shard_payload_bytes packetsize \<noteq> 0" "packetsize < 2 ^ 31"
  shows "24 \<le> shard_payload_bytes packetsize" "4 dvd shard_payload_bytes packetsize" "shard_payload_bytes packetsize < 2 ^ 32"
  using assms by (auto simp: shard_payload_bytes_def frame_consts Let_def split: if_splits)

lemma frame_env_ok:
  assumes "split_records bs 8 = Some records" "8 \<le> length bs" "length bs < 2 ^ 64 - 1" "24 \<le> sp" "4 dvd sp"
  shows "env_ok (frame_env bs records sp out)"
proof -
  note r = split_records_ok[OF assms(1,2)]
  have n: "length rs \<le> length (concat (map (record_bytes bs) rs))" if "list_all (record_ok bs) rs" for rs
    using that by (induction rs) (auto simp: record_ok_def dest: length_record_bytes)
  have "length records \<le> length (drop 8 bs)" using n[of records] r by simp
  then have "length records < NONE" using assms(3) by (simp add: NONE_def)
  with r assms(4,5) show ?thesis by (simp add: env_ok_def frame_env_def)
qed

lemma write_groups:
  fixes bs records sp out
  defines "e \<equiv> frame_env bs records sp out" and "hdr \<equiv> out @ take 8 bs"
  assumes e: "env_ok e" and len: "8 \<le> length bs"
  shows "\<exists>ic ifine oc ofine w1 w2.
    write_group e (coarse_of bs records) \<lparr>ws_out = hdr, ws_stats = no_stats\<lparr>st_block_records := length records\<rparr>\<rparr> = Some w1 \<and>
    write_group e (fine_of bs records) (note_critical e w1) = Some w2 \<and>
    written e hdr (length records) (8 + items_size e ic) (ic @ ifine) w2 \<and> ends_block ic \<and>
    blocks ic = filter (\<lambda>i. oversized (rc_size (records ! i)) sp) (coarse_of bs records) @ oc \<and>
    mset oc = mset (filter (\<lambda>i. \<not> oversized (rc_size (records ! i)) sp) (coarse_of bs records)) \<and>
    blocks ifine = filter (\<lambda>i. oversized (rc_size (records ! i)) sp) (fine_of bs records) @ ofine \<and>
    mset ofine = mset (filter (\<lambda>i. \<not> oversized (rc_size (records ! i)) sp) (fine_of bs records))"
proof -
  have env: "we_records e = records" "we_shard_payload e = sp" "we_frame_start e = length out" by (simp_all add: e_def frame_env_def)
  let ?w0 = "\<lparr>ws_out = hdr, ws_stats = no_stats\<lparr>st_block_records := length records\<rparr>\<rparr>"
  have w0: "written e hdr (length records) 0 [] ?w0" using len by (simp add: written_def hdr_def env no_stats_def)
  have "remaining e ?w0 = sp - 16 mod sp" using remaining_written(1)[OF e w0] by (simp add: shard_remaining_def FRAME_HEADER_BYTES_def env)
  then have r0: "8 \<le> remaining e ?w0" using env_okD(2)[OF e] env by simp
  have lc: "list_all (\<lambda>i. i < length (we_records e)) (coarse_of bs records)" "length (coarse_of bs records) \<le> length (we_records e)"
    and lf: "list_all (\<lambda>i. i < length (we_records e)) (fine_of bs records)" "length (fine_of bs records) \<le> length (we_records e)"
    unfolding coarse_of_def fine_of_def env by (auto simp: list_all_iff intro: order_trans[OF length_filter_le])
  from write_group_ok[OF e w0 r0 lc] obtain ic w1 oc where
    1: "write_group e (coarse_of bs records) ?w0 = Some w1" "written e hdr (length records) 0 ic w1" "8 \<le> remaining e w1" "ends_block ic"
    "blocks ic = filter (\<lambda>i. oversized (rc_size (records ! i)) sp) (coarse_of bs records) @ oc"
    "mset oc = mset (filter (\<lambda>i. \<not> oversized (rc_size (records ! i)) sp) (coarse_of bs records))" unfolding env by auto
  have "length (ws_out w1) - length out = 8 + items_size e ic"
    using 1(2) length_items[OF e, of 8 ic] by (simp add: written_def env)
  then have n1: "written e hdr (length records) (8 + items_size e ic) ic (note_critical e w1)" "8 \<le> remaining e (note_critical e w1)"
    using 1(2,3) by (simp_all add: written_def note_critical_def env remaining_def)
  from write_group_ok[OF e n1 lf] obtain ifine w2 ofine where
    2: "write_group e (fine_of bs records) (note_critical e w1) = Some w2" "written e hdr (length records) (8 + items_size e ic) (ic @ ifine) w2"
    "blocks ifine = filter (\<lambda>i. oversized (rc_size (records ! i)) sp) (fine_of bs records) @ ofine"
    "mset ofine = mset (filter (\<lambda>i. \<not> oversized (rc_size (records ! i)) sp) (fine_of bs records))" unfolding env by auto
  from 1 2 show ?thesis by blast
qed

lemma critical_end_append:
  "critical_end e cb p c (items @ items') = critical_end e cb (p + items_size e items) (critical_end e cb p c items) items'"
  by (induction e cb p c items rule: critical_end.induct) (simp_all add: add.assoc)

lemma critical_end_coarse:
  assumes "ends_block items" "\<forall>i \<in> set (blocks items). rc_block_index (we_records e ! i) < cb"
  shows "critical_end e cb p p items = p + items_size e items"
proof (cases items rule: rev_cases)
  case (snoc its it)
  then obtain i where "it = Block i" using assms(1) by (auto simp: ends_block_def)
  with snoc assms(2) show ?thesis by (simp add: critical_end_append)
qed simp

lemma critical_end_fine:
  "\<forall>i \<in> set (blocks items). \<not> rc_block_index (we_records e ! i) < cb \<Longrightarrow> critical_end e cb p c items = c"
  by (induction e cb p c items rule: critical_end.induct) auto

lemma inspect_sequence_header:
  assumes len: "length hdr = 8" and sp: "24 \<le> sp"
    and seq: "drop_bit 31 (read_u32 hdr 0) \<noteq> 0" "read_u32 hdr 0 \<noteq> PADDING_MAGIC" "drop_bit 24 (read_u32 hdr 4) AND 3 = 0"
  shows "\<exists>s. inspect_record_frame (hdr @ rest) sp = inspect_loop sp (hdr @ rest) 8 s \<and>
    inspected e (coarse_blocks_in hdr) hdr [] s \<and> fr_critical_bytes (is_info s) = 8"
proof -
  have w: "read_u32 (hdr @ rest) 0 = read_u32 hdr 0" "read_u32 (hdr @ rest) 4 = read_u32 hdr 4"
    using len by (simp_all add: read_u32_here)
  have al: "note_alignment sp 0 8 info = (False, info)" for info
    using sp by (simp add: note_alignment_def Let_def oversized_def frame_consts)
  obtain s where s: "inspect_header sp (hdr @ rest) 0 (read_u32 hdr 0) (read_u32 hdr 4) inspect_start = Inr s"
    "inspected e (coarse_blocks_in hdr) hdr [] s" "fr_critical_bytes (is_info s) = 8"
    using seq(3) len by (simp add: inspect_header_def inspect_start_def Let_def al inspected_def coarse_blocks_in_def)
  have "inspect_record_frame (hdr @ rest) sp = inspect_loop sp (hdr @ rest) 8 s"
    unfolding inspect_record_frame_def inspect_loop.simps[of sp "hdr @ rest" 0] Let_def using w s(1) seq(1,2) len by simp
  with s(2,3) show ?thesis by blast
qed

lemma frame_levels:
  fixes bs records sp out
  defines "e \<equiv> frame_env bs records sp out"
  assumes "blocks ic = filter (\<lambda>i. oversized (rc_size (records ! i)) sp) (coarse_of bs records) @ oc"
    and oc: "mset oc = mset (filter (\<lambda>i. \<not> oversized (rc_size (records ! i)) sp) (coarse_of bs records))"
    and "blocks ifine = filter (\<lambda>i. oversized (rc_size (records ! i)) sp) (fine_of bs records) @ ofine"
    and ofine: "mset ofine = mset (filter (\<lambda>i. \<not> oversized (rc_size (records ! i)) sp) (fine_of bs records))"
  shows "sorted (map (level e (coarse_blocks_in bs)) (blocks (ic @ ifine)))"
    "\<forall>i \<in> set (blocks ic). rc_block_index (records ! i) < coarse_blocks_in bs"
    "\<forall>i \<in> set (blocks ifine). \<not> rc_block_index (records ! i) < coarse_blocks_in bs"
    "mset (map ((!) records) (blocks (ic @ ifine))) = mset records"
proof -
  have s: "set oc = {i \<in> set (coarse_of bs records). \<not> oversized (rc_size (records ! i)) sp}"
    "set ofine = {i \<in> set (fine_of bs records). \<not> oversized (rc_size (records ! i)) sp}"
    using mset_eq_setD[OF oc] mset_eq_setD[OF ofine] by auto
  have c: "i \<in> set (coarse_of bs records) \<Longrightarrow> rc_block_index (records ! i) < coarse_blocks_in bs"
    and f: "i \<in> set (fine_of bs records) \<Longrightarrow> \<not> rc_block_index (records ! i) < coarse_blocks_in bs" for i
    by (simp_all add: coarse_of_def fine_of_def)
  have const: "sorted (map g xs)" if "\<And>x. x \<in> set xs \<Longrightarrow> g x = k" for g :: "nat \<Rightarrow> nat" and k xs
    using that by (induction xs) auto
  have lv: "level e (coarse_blocks_in bs) i = (if rc_block_index (records ! i) < coarse_blocks_in bs then 0 else 2) +
      (if oversized (rc_size (records ! i)) sp then 0 else 1)" for i by (simp add: level_def e_def frame_env_def)
  have "sorted (map (level e (coarse_blocks_in bs)) (filter (\<lambda>i. oversized (rc_size (records ! i)) sp) (coarse_of bs records)))"
    "sorted (map (level e (coarse_blocks_in bs)) oc)"
    "sorted (map (level e (coarse_blocks_in bs)) (filter (\<lambda>i. oversized (rc_size (records ! i)) sp) (fine_of bs records)))"
    "sorted (map (level e (coarse_blocks_in bs)) ofine)"
    by (rule const[of _ _ 0], simp add: lv c) (rule const[of _ _ 1], simp add: lv c s,
        rule const[of _ _ 2], simp add: lv f, rule const[of _ _ 3], simp add: lv f s)
  then show "sorted (map (level e (coarse_blocks_in bs)) (blocks (ic @ ifine)))"
    using assms(2,4) s c f by (auto simp: sorted_append lv)
  show "\<forall>i \<in> set (blocks ic). rc_block_index (records ! i) < coarse_blocks_in bs"
    "\<forall>i \<in> set (blocks ifine). \<not> rc_block_index (records ! i) < coarse_blocks_in bs" using assms(2,4) s c f by auto
  have part: "mset (filter P xs) + mset (filter (\<lambda>x. \<not> P x) xs) = mset xs" for P and xs :: "nat list"
    unfolding mset_filter by (rule multiset_partition[symmetric])
  have "mset (blocks ic) = mset (coarse_of bs records)" unfolding assms(2) mset_append oc by (rule part)
  moreover have "mset (blocks ifine) = mset (fine_of bs records)" unfolding assms(4) mset_append ofine by (rule part)
  ultimately have "mset (blocks (ic @ ifine)) = mset [0..<length records]" using groups_partition[of bs records] by simp
  then have "mset (map ((!) records) (blocks (ic @ ifine))) = mset (map ((!) records) [0..<length records])" by (metis mset_map)
  then show "mset (map ((!) records) (blocks (ic @ ifine))) = mset records" by (simp only: map_nth)
qed

lemma header_words:
  assumes "8 \<le> length bs"
  shows "read_u32 (take 8 bs) 0 = read_u32 bs 0" "read_u32 (take 8 bs) 4 = read_u32 bs 4" "coarse_blocks_in (take 8 bs) = coarse_blocks_in bs"
proof -
  show r: "read_u32 (take 8 bs) 0 = read_u32 bs 0" and "read_u32 (take 8 bs) 4 = read_u32 bs 4"
    using read_u32_here[of 0 "take 8 bs" "drop 8 bs"] read_u32_here[of 4 "take 8 bs" "drop 8 bs"] assms by simp_all
  show "coarse_blocks_in (take 8 bs) = coarse_blocks_in bs" unfolding coarse_blocks_in_def r ..
qed

lemma items_size_split:
  "items_size e items = sum_list (map (\<lambda>i. rc_size (we_records e ! i)) (blocks items)) + sum_list (paddings items)"
proof (induction items)
  case (Cons it items)
  then show ?case by (cases it) simp_all
qed simp

lemma sum_sizes: "list_all (record_ok bs) rs \<Longrightarrow> sum_list (map rc_size rs) = length (concat (map (record_bytes bs) rs))"
  by (induction rs) auto

lemma fold_place:
  "ws_out (fold (\<lambda>i. place e (we_records e ! i)) is w) = ws_out w @ concat (map (\<lambda>i. record_bytes (we_bitstream e) (we_records e ! i)) is)"
  "ws_stats (fold (\<lambda>i. place e (we_records e ! i)) is w) = ws_stats w"
  by (induction "is" arbitrary: w) (simp_all add: place_def record_bytes_def)

text \<open>The frame without padding that replaces one over the limit.\<close>

definition plain_frame :: "write_env \<Rightarrow> byte list \<Rightarrow> record_t list \<Rightarrow> byte list \<Rightarrow> write_state" where
  "plain_frame e bs records out = fold (\<lambda>i. place e (records ! i)) (fine_of bs records)
     (note_critical e (fold (\<lambda>i. place e (records ! i)) (coarse_of bs records)
        \<lparr>ws_out = out @ take 8 bs, ws_stats = no_stats\<lparr>st_block_records := length records\<rparr>\<rparr>))"

lemma write_record_frame_groups:
  assumes "8 \<le> length bs" "split_records bs 8 = Some records" "drop_bit 31 (read_u32 bs 0) \<noteq> 0" "sp \<noteq> 0" "limit = 0 \<or> length bs \<le> limit"
    and "write_group (frame_env bs records sp out) (coarse_of bs records)
      \<lparr>ws_out = out @ take 8 bs, ws_stats = no_stats\<lparr>st_block_records := length records\<rparr>\<rparr> = Some w1"
    and "write_group (frame_env bs records sp out) (fine_of bs records) (note_critical (frame_env bs records sp out) w1) = Some w2"
  shows "write_record_frame bs sp out limit =
    (if limit \<noteq> 0 \<and> length (ws_out w2) - length out > limit
     then Some (Some (ws_stats (plain_frame (frame_env bs records sp out) bs records out)), ws_out (plain_frame (frame_env bs records sp out) bs records out))
     else Some (Some (ws_stats w2), ws_out w2))"
proof -
  have n: "\<not> (length bs < 8 \<or> drop_bit 31 (read_u32 bs 0) = 0 \<or> (limit \<noteq> 0 \<and> length bs > limit))" using assms(1,3,5) by auto
  show ?thesis
    unfolding write_record_frame_def if_not_P[OF n] assms(2) option.case Let_def if_not_P[OF assms(4)]
    unfolding coarse_blocks_in_def[symmetric] coarse_of_def[symmetric] fine_of_def[symmetric] frame_env_def[symmetric]
      assms(6,7) option.case plain_frame_def[symmetric] ..
qed

lemma frame_written:
  fixes bs records sp out
  defines "e \<equiv> frame_env bs records sp out"
  assumes sp: "24 \<le> sp" "4 dvd sp"
    and bs: "8 \<le> length bs" "length bs < 2 ^ 64 - 1" "split_records bs 8 = Some records" "drop_bit 31 (read_u32 bs 0) \<noteq> 0"
  obtains ic ifine w where
    "written e (out @ take 8 bs) (length records) (8 + items_size e ic) (ic @ ifine) w" "ends_block ic"
    "sorted (map (level e (coarse_blocks_in bs)) (blocks (ic @ ifine)))"
    "\<forall>i \<in> set (blocks ic). rc_block_index (records ! i) < coarse_blocks_in bs"
    "\<forall>i \<in> set (blocks ifine). \<not> rc_block_index (records ! i) < coarse_blocks_in bs"
    "mset (map ((!) records) (blocks (ic @ ifine))) = mset records"
    "\<forall>limit. limit = 0 \<or> length bs \<le> limit \<longrightarrow> write_record_frame bs sp out limit =
      (if limit \<noteq> 0 \<and> length (ws_out w) - length out > limit
       then Some (Some (ws_stats (plain_frame e bs records out)), ws_out (plain_frame e bs records out))
       else Some (Some (ws_stats w), ws_out w))"
proof -
  have e: "env_ok e" unfolding e_def by (rule frame_env_ok[OF bs(3,1,2) sp])
  from write_groups[OF e[unfolded e_def] bs(1)] obtain ic ifine oc ofine w1 w2 where g:
    "write_group e (coarse_of bs records) \<lparr>ws_out = out @ take 8 bs, ws_stats = no_stats\<lparr>st_block_records := length records\<rparr>\<rparr> = Some w1"
    "write_group e (fine_of bs records) (note_critical e w1) = Some w2"
    "written e (out @ take 8 bs) (length records) (8 + items_size e ic) (ic @ ifine) w2" "ends_block ic"
    "blocks ic = filter (\<lambda>i. oversized (rc_size (records ! i)) sp) (coarse_of bs records) @ oc"
    "mset oc = mset (filter (\<lambda>i. \<not> oversized (rc_size (records ! i)) sp) (coarse_of bs records))"
    "blocks ifine = filter (\<lambda>i. oversized (rc_size (records ! i)) sp) (fine_of bs records) @ ofine"
    "mset ofine = mset (filter (\<lambda>i. \<not> oversized (rc_size (records ! i)) sp) (fine_of bs records))"
    unfolding e_def[symmetric] by blast
  have "sp \<noteq> 0" using sp(1) by simp
  note wr = write_record_frame_groups[OF bs(1,3,4) this _ g(1)[unfolded e_def] g(2)[unfolded e_def], folded e_def]
  then have lim: "\<forall>limit. limit = 0 \<or> length bs \<le> limit \<longrightarrow> write_record_frame bs sp out limit =
      (if limit \<noteq> 0 \<and> length (ws_out w2) - length out > limit
       then Some (Some (ws_stats (plain_frame e bs records out)), ws_out (plain_frame e bs records out))
       else Some (Some (ws_stats w2), ws_out w2))" by blast
  show ?thesis
    by (rule that[OF g(3,4) frame_levels(1)[OF g(5-8), of out, folded e_def] frame_levels(2-4)[OF g(5-8)] lim])
qed

text \<open>What the receiver's parser makes of a frame: it is valid, the coarsest level comes first, the
  counters and the critical prefix are the ones the writer reports, and without its padding the frame is
  the bitstream with its records permuted.\<close>

definition reads_as :: "byte list \<Rightarrow> record_t list \<Rightarrow> record_frame_info_t \<Rightarrow> record_frame_stats_t \<Rightarrow> bool" where
  "reads_as bs records info stats \<longleftrightarrow> fr_valid info \<and> fr_error info = '''' \<and> fr_late_coarse_records info = 0 \<and>
     fr_block_records info = length records \<and> st_block_records stats = length records \<and>
     fr_padding_records info = st_padding_records stats \<and> fr_padding_bytes info = st_padding_bytes stats \<and>
     fr_critical_bytes info = st_critical_bytes stats \<and>
     (\<exists>recs. mset recs = mset records \<and> fr_stripped info = take 8 bs @ concat (map (record_bytes bs) recs))"

text \<open>The frame as it is packed into shards.\<close>

lemma packed_frame:
  fixes bs records sp out
  defines "e \<equiv> frame_env bs records sp out"
  assumes sp: "24 \<le> sp" "4 dvd sp" "sp < 2 ^ 32"
    and bs: "8 \<le> length bs" "length bs < 2 ^ 64 - 1" "split_records bs 8 = Some records"
    and seq: "drop_bit 31 (read_u32 bs 0) \<noteq> 0" "read_u32 bs 0 \<noteq> PADDING_MAGIC" "drop_bit 24 (read_u32 bs 4) AND 3 = 0"
  obtains w :: write_state and frame where "ws_out w = out @ frame"
    "reads_as bs records (inspect_record_frame frame sp) (ws_stats w)"
    "fr_misaligned_records (inspect_record_frame frame sp) = 0" "fr_late_oversized_records (inspect_record_frame frame sp) = 0"
    "length frame = length bs + st_padding_bytes (ws_stats w)"
    "\<forall>limit. limit = 0 \<or> length bs \<le> limit \<longrightarrow> write_record_frame bs sp out limit =
      (if limit \<noteq> 0 \<and> length frame > limit
       then Some (Some (ws_stats (plain_frame e bs records out)), ws_out (plain_frame e bs records out))
       else Some (Some (ws_stats w), out @ frame))"
proof -
  have e: "env_ok e" unfolding e_def by (rule frame_env_ok[OF bs(3,1,2) sp(1,2)])
  have env: "we_records e = records" "we_shard_payload e = sp" "we_bitstream e = bs" by (simp_all add: e_def frame_env_def)
  obtain ic ifine w where g: "written e (out @ take 8 bs) (length records) (8 + items_size e ic) (ic @ ifine) w" "ends_block ic"
    "sorted (map (level e (coarse_blocks_in bs)) (blocks (ic @ ifine)))"
    "\<forall>i \<in> set (blocks ic). rc_block_index (records ! i) < coarse_blocks_in bs"
    "\<forall>i \<in> set (blocks ifine). \<not> rc_block_index (records ! i) < coarse_blocks_in bs"
    "mset (map ((!) records) (blocks (ic @ ifine))) = mset records"
    and lim: "\<forall>limit. limit = 0 \<or> length bs \<le> limit \<longrightarrow> write_record_frame bs sp out limit =
      (if limit \<noteq> 0 \<and> length (ws_out w) - length out > limit
       then Some (Some (ws_stats (plain_frame e bs records out)), ws_out (plain_frame e bs records out))
       else Some (Some (ws_stats w), ws_out w))"
    using frame_written[OF sp(1,2) bs seq(1), of out, folded e_def] by blast
  define frame where "frame = take 8 bs @ concat (map (item_bytes e) (ic @ ifine))"
  have out: "ws_out w = out @ frame" using g(1) by (simp add: written_def frame_def)
  have hl: "length (take 8 bs) = 8" using bs(1) by simp
  obtain s where s: "inspect_record_frame frame sp = inspect_loop sp frame 8 s" "inspected e (coarse_blocks_in bs) (take 8 bs) [] s"
    "fr_critical_bytes (is_info s) = 8"
    using inspect_sequence_header[OF hl sp(1)] seq unfolding header_words[OF bs(1)] frame_def by blast
  have "items_fit e 8 (ic @ ifine)" using g(1) by (simp add: written_def)
  from inspect_items[OF e _ hl, of frame "[]" "ic @ ifine" "coarse_blocks_in bs" s] this g(3) s(2) sp(3) obtain s' where
    s': "inspect_loop sp frame 8 s = (is_info s')\<lparr>fr_valid := True\<rparr>" "inspected e (coarse_blocks_in bs) (take 8 bs) (ic @ ifine) s'"
    "fr_critical_bytes (is_info s') = critical_end e (coarse_blocks_in bs) 8 8 (ic @ ifine)"
    by (auto simp: frame_def env s(3))
  have crit: "fr_critical_bytes (is_info s') = 8 + items_size e ic"
    using critical_end_coarse[OF g(2), of e "coarse_blocks_in bs" 8] critical_end_fine[of ifine e "coarse_blocks_in bs"] g(4,5) s'(3)
    by (simp add: critical_end_append env)
  have info: "inspect_record_frame frame sp = (is_info s')\<lparr>fr_valid := True\<rparr>" using s(1) s'(1) by simp
  have n: "length (blocks (ic @ ifine)) = length records" using arg_cong[OF g(6), of size] by simp
  have "fr_stripped (is_info s') = take 8 bs @ concat (map (record_bytes bs) (map ((!) records) (blocks (ic @ ifine))))"
    using s'(2) by (simp add: inspected_def env o_def)
  with g(6) have perm: "\<exists>recs. mset recs = mset records \<and> fr_stripped (is_info s') = take 8 bs @ concat (map (record_bytes bs) recs)"
    by blast
  have reads: "reads_as bs records (inspect_record_frame frame sp) (ws_stats w)"
    "fr_misaligned_records (inspect_record_frame frame sp) = 0" "fr_late_oversized_records (inspect_record_frame frame sp) = 0"
    using g(1) crit n perm s'(2) unfolding info by (simp_all add: reads_as_def inspected_def written_def)
  have "sum_list (map rc_size (map ((!) records) (blocks (ic @ ifine)))) = sum_list (map rc_size records)"
    using g(6) by (metis mset_map sum_mset_sum_list)
  also have "\<dots> = length bs - 8" using split_records_ok[OF bs(3,1)] sum_sizes[of bs records] by (metis length_drop)
  finally have "length frame = length bs + sum_list (paddings (ic @ ifine))"
    using length_items[OF e, of 8 "ic @ ifine"] items_size_split[of e "ic @ ifine"] g(1) bs(1)
    by (simp add: frame_def written_def env o_def)
  then have fl: "length frame = length bs + st_padding_bytes (ws_stats w)" using g(1) by (simp add: written_def)
  show ?thesis by (rule that[OF out reads fl]) (use lim out in simp)
qed

text \<open>The parser on a frame of bare records, coarse level first, wherever they fall in the shards.\<close>

definition plain_inspected :: "write_env \<Rightarrow> 32 word \<Rightarrow> byte list \<Rightarrow> nat list \<Rightarrow> inspect_state \<Rightarrow> bool" where
  "plain_inspected e cb hdr is s \<longleftrightarrow> fr_has_sequence_header (is_info s) \<and> fr_error (is_info s) = '''' \<and>
     fr_block_records (is_info s) = length is \<and> fr_padding_records (is_info s) = 0 \<and> fr_padding_bytes (is_info s) = 0 \<and>
     fr_late_coarse_records (is_info s) = 0 \<and>
     fr_stripped (is_info s) = hdr @ concat (map (\<lambda>i. record_bytes (we_bitstream e) (we_records e ! i)) is) \<and>
     is_coarse_blocks s = cb \<and> (is_seen_fine s \<longleftrightarrow> (\<exists>i \<in> set is. \<not> rc_block_index (we_records e ! i) < cb))"

lemma note_alignment_counts:
  obtains b ov m where "note_alignment sp p n info = (b, info\<lparr>fr_oversized_records := ov, fr_misaligned_records := m\<rparr>)"
proof -
  have "info = info\<lparr>fr_oversized_records := fr_oversized_records info, fr_misaligned_records := fr_misaligned_records info\<rparr>"
    "info\<lparr>fr_oversized_records := k\<rparr> = info\<lparr>fr_oversized_records := k, fr_misaligned_records := fr_misaligned_records info\<rparr>"
    "info\<lparr>fr_misaligned_records := k\<rparr> = info\<lparr>fr_oversized_records := fr_oversized_records info, fr_misaligned_records := k\<rparr>" for k
    by simp_all
  then show ?thesis using that unfolding note_alignment_def Let_def by metis
qed

lemma plain_inspected_block:
  fixes e :: write_env and i :: nat
  defines "r \<equiv> we_records e ! i"
  assumes ins: "plain_inspected e cb hdr is s" and sp: "sp \<noteq> 0"
    and frame: "take (rc_size r) (drop p frame) = record_bytes (we_bitstream e) r"
    and order: "rc_block_index r < cb \<Longrightarrow> \<forall>j \<in> set is. rc_block_index (we_records e ! j) < cb"
  shows "plain_inspected e cb hdr (is @ [i]) (inspect_block sp frame p (rc_size r) (rc_block_index r) s)"
    "fr_critical_bytes (is_info (inspect_block sp frame p (rc_size r) (rc_block_index r) s)) =
      (if rc_block_index r < cb then p + rc_size r else fr_critical_bytes (is_info s))"
proof -
  have cbs: "is_coarse_blocks s = cb" using ins by (simp add: plain_inspected_def)
  have late: "rc_block_index r < cb \<Longrightarrow> \<not> is_seen_fine s" using ins order by (auto simp: plain_inspected_def)
  have blk: "we_records e ! i = r" by (simp add: r_def)
  define info where "info = (if fr_block_records (is_info s) \<noteq> 0 \<and> rc_block_index r < is_last_block_index s
    then (is_info s)\<lparr>fr_out_of_order_records := fr_out_of_order_records (is_info s) + 1\<rparr> else is_info s)"
  define info1 where "info1 = info\<lparr>fr_block_records := fr_block_records info + 1\<rparr>"
  obtain b ov m where al: "note_alignment sp p (rc_size r) info1 =
      (b, info1\<lparr>fr_oversized_records := ov, fr_misaligned_records := m\<rparr>)" by (rule note_alignment_counts)
  have same: "fr_has_sequence_header info1 = fr_has_sequence_header (is_info s)" "fr_error info1 = fr_error (is_info s)"
    "fr_block_records info1 = fr_block_records (is_info s) + 1" "fr_padding_records info1 = fr_padding_records (is_info s)"
    "fr_padding_bytes info1 = fr_padding_bytes (is_info s)" "fr_late_coarse_records info1 = fr_late_coarse_records (is_info s)"
    "fr_stripped info1 = fr_stripped (is_info s)" "fr_critical_bytes info1 = fr_critical_bytes (is_info s)"
    by (simp_all add: info1_def info_def)
  have st: "inspect_block sp frame p (rc_size r) (rc_block_index r) s =
    (let s2 = inspect_level sp p (rc_size r) (rc_block_index r < cb) (s\<lparr>is_info := info1, is_last_block_index := rc_block_index r\<rparr>)
     in s2\<lparr>is_info := (is_info s2)\<lparr>fr_stripped := fr_stripped (is_info s2) @ take (rc_size r) (drop p frame)\<rparr>\<rparr>)"
    unfolding inspect_block_def Let_def info_def[symmetric] info1_def[symmetric] cbs using sp by simp
  show "plain_inspected e cb hdr (is @ [i]) (inspect_block sp frame p (rc_size r) (rc_block_index r) s)"
    using ins late frame unfolding st
    by (cases b; cases "rc_block_index r < cb")
      (simp_all add: plain_inspected_def inspect_level_def Let_def al blk same)
  show "fr_critical_bytes (is_info (inspect_block sp frame p (rc_size r) (rc_block_index r) s)) =
      (if rc_block_index r < cb then p + rc_size r else fr_critical_bytes (is_info s))"
    using late unfolding st by (cases b; cases "rc_block_index r < cb") (simp_all add: inspect_level_def Let_def al same)
qed

lemma plain_frame_out:
  assumes e: "env_ok e" "we_records e = records" "we_bitstream e = bs" and bs: "8 \<le> length bs" "split_records bs 8 = Some records"
  shows "\<exists>plain. ws_out (plain_frame e bs records out) = out @ plain \<and> length plain = length bs"
    "st_padding_bytes (ws_stats (plain_frame e bs records out)) = 0"
proof -
  let ?is = "coarse_of bs records @ fine_of bs records"
  define plain where "plain = take 8 bs @ concat (map (\<lambda>i. record_bytes bs (records ! i)) ?is)"
  note fp = fold_place[of e, unfolded e(2,3)]
  have o: "ws_out (plain_frame e bs records out) = out @ plain"
    unfolding plain_frame_def fp by (simp add: note_critical_def fp plain_def)
  show "st_padding_bytes (ws_stats (plain_frame e bs records out)) = 0"
    unfolding plain_frame_def fp by (simp add: note_critical_def fp no_stats_def)
  have m: "mset (map ((!) records) ?is) = mset records"
  proof -
    have "mset ?is = mset [0..<length records]" using groups_partition[of bs records] by simp
    then have "mset (map ((!) records) ?is) = mset (map ((!) records) [0..<length records])" by (metis mset_map)
    then show ?thesis by (simp only: map_nth)
  qed
  have ok: "list_all (record_ok bs) (map ((!) records) ?is)"
    using mset_eq_setD[OF m] split_records_ok[OF bs(2,1)] by (metis list_all_iff)
  have "length (concat (map (record_bytes bs) (map ((!) records) ?is))) = sum_list (map rc_size (map ((!) records) ?is))"
    using sum_sizes[OF ok] by simp
  also have "\<dots> = sum_list (map rc_size records)" using m by (metis mset_map sum_mset_sum_list)
  also have "\<dots> = length bs - 8" using split_records_ok[OF bs(2,1)] sum_sizes[of bs records] by (metis length_drop)
  finally have "length plain = length bs" using bs(1) by (simp add: plain_def o_def)
  with o show "\<exists>plain. ws_out (plain_frame e bs records out) = out @ plain \<and> length plain = length bs" by blast
qed

lemma plain_length:
  assumes e: "env_ok e"
  shows "\<forall>i \<in> set is. i < length (we_records e) \<Longrightarrow>
    length (concat (map (\<lambda>i. record_bytes (we_bitstream e) (we_records e ! i)) is)) = items_size e (map Block is)"
  using env_okD(1)[OF e] by (induction "is") auto

lemma blocks_of_records [simp]: "blocks (map Block is) = is" "ends_block (map Block is)"
  by (induction "is") auto

lemma plain_frame_bytes:
  assumes "we_records e = records" "we_bitstream e = bs"
  shows "ws_out (plain_frame e bs records out) =
      out @ take 8 bs @ concat (map (\<lambda>i. record_bytes bs (records ! i)) (coarse_of bs records @ fine_of bs records))"
    "ws_stats (plain_frame e bs records out) = no_stats\<lparr>st_block_records := length records,
      st_critical_bytes := length (out @ take 8 bs @ concat (map (\<lambda>i. record_bytes bs (records ! i)) (coarse_of bs records))) - we_frame_start e\<rparr>"
  using fold_place[of e, unfolded assms] by (simp_all add: plain_frame_def note_critical_def)

lemma inspect_plain:
  fixes e :: write_env
  defines "bytes \<equiv> \<lambda>is. concat (map (\<lambda>i. record_bytes (we_bitstream e) (we_records e ! i)) is)"
  assumes e: "env_ok e" and hdr: "length hdr = 8"
  shows "frame = hdr @ bytes (is @ rest) \<Longrightarrow> \<forall>i \<in> set (is @ rest). i < length (we_records e) \<Longrightarrow>
    sorted (map (\<lambda>i. if rc_block_index (we_records e ! i) < cb then 0 else 1 :: nat) (is @ rest)) \<Longrightarrow> plain_inspected e cb hdr is s \<Longrightarrow>
    \<exists>s'. inspect_loop (we_shard_payload e) frame (8 + items_size e (map Block is)) s = (is_info s')\<lparr>fr_valid := True\<rparr> \<and>
      plain_inspected e cb hdr (is @ rest) s' \<and>
      fr_critical_bytes (is_info s') =
        critical_end e cb (8 + items_size e (map Block is)) (fr_critical_bytes (is_info s)) (map Block rest)"
proof (induction rest arbitrary: "is" s)
  case Nil
  have "length frame = 8 + items_size e (map Block is)" using Nil.prems(1,2) hdr plain_length[OF e] by (simp add: bytes_def)
  then show ?case using Nil.prems(4) by (intro exI[of _ s]) (simp add: inspect_loop.simps plain_inspected_def)
next
  case (Cons i rest)
  let ?sp = "we_shard_payload e" and ?pre = "hdr @ bytes is" and ?r = "we_records e ! i" and ?p = "8 + items_size e (map Block is)"
  let ?s = "inspect_block ?sp frame ?p (rc_size ?r) (rc_block_index ?r) s"
  have sp0: "?sp \<noteq> 0" using env_okD(4)[OF e] by simp
  have pre: "length ?pre = ?p" using Cons.prems(2) hdr plain_length[OF e, of "is"] by (simp add: bytes_def)
  have r: "record_ok (we_bitstream e) ?r" using env_okD(1)[OF e] Cons.prems(2) by simp
  have fr: "frame = ?pre @ record_bytes (we_bitstream e) ?r @ bytes rest" using Cons.prems(1) by (simp add: bytes_def)
  have tk: "take (rc_size ?r) (drop ?p frame) = record_bytes (we_bitstream e) ?r"
    unfolding fr pre[symmetric] using r by simp
  have ord: "rc_block_index ?r < cb \<Longrightarrow> \<forall>j \<in> set is. rc_block_index (we_records e ! j) < cb"
    using Cons.prems(3) by (auto simp: sorted_append split: if_splits)
  have "fr_has_sequence_header (is_info s)" using Cons.prems(4) by (simp add: plain_inspected_def)
  from inspect_loop_block[OF fr r this, of ?sp] have
    step: "inspect_loop ?sp frame ?p s = inspect_loop ?sp frame (8 + items_size e (map Block (is @ [i]))) ?s"
    unfolding pre by (simp add: add.assoc)
  note s1 = plain_inspected_block[OF Cons.prems(4) sp0 tk ord]
  have "frame = hdr @ bytes ((is @ [i]) @ rest)" "\<forall>j \<in> set ((is @ [i]) @ rest). j < length (we_records e)"
    "sorted (map (\<lambda>i. if rc_block_index (we_records e ! i) < cb then 0 else 1 :: nat) ((is @ [i]) @ rest))"
    using Cons.prems(1-3) by simp_all
  from Cons.IH[OF this s1(1)] show ?case unfolding step by (simp add: s1(2) add.assoc)
qed

lemma plain_frame_reads:
  fixes bs records sp out
  defines "e \<equiv> frame_env bs records sp out"
  assumes sp: "24 \<le> sp" "4 dvd sp"
    and bs: "8 \<le> length bs" "length bs < 2 ^ 64 - 1" "split_records bs 8 = Some records"
    and seq: "drop_bit 31 (read_u32 bs 0) \<noteq> 0" "read_u32 bs 0 \<noteq> PADDING_MAGIC" "drop_bit 24 (read_u32 bs 4) AND 3 = 0"
  obtains plain where "ws_out (plain_frame e bs records out) = out @ plain" "length plain = length bs"
    "reads_as bs records (inspect_record_frame plain sp) (ws_stats (plain_frame e bs records out))"
    "st_padding_bytes (ws_stats (plain_frame e bs records out)) = 0"
proof -
  let ?cb = "coarse_blocks_in bs" and ?co = "coarse_of bs records" and ?fi = "fine_of bs records"
  have e: "env_ok e" unfolding e_def by (rule frame_env_ok[OF bs(3,1,2) sp])
  have env: "we_records e = records" "we_shard_payload e = sp" "we_bitstream e = bs" "we_frame_start e = length out"
    by (simp_all add: e_def frame_env_def)
  define plain where "plain = take 8 bs @ concat (map (\<lambda>i. record_bytes bs (records ! i)) (?co @ ?fi))"
  note pf = plain_frame_bytes[OF env(1,3), of out]
  have hl: "length (take 8 bs) = 8" using bs(1) by simp
  have co: "\<forall>i \<in> set ?co. i < length records \<and> rc_block_index (records ! i) < ?cb"
    and fi: "\<forall>i \<in> set ?fi. i < length records \<and> \<not> rc_block_index (records ! i) < ?cb"
    by (simp_all add: coarse_of_def fine_of_def)
  have m: "mset (map ((!) records) (?co @ ?fi)) = mset records"
  proof -
    have "mset (?co @ ?fi) = mset [0..<length records]" using groups_partition[of bs records] by simp
    then have "mset (map ((!) records) (?co @ ?fi)) = mset (map ((!) records) [0..<length records])" by (metis mset_map)
    then show ?thesis by (simp only: map_nth)
  qed
  obtain s where s: "inspect_record_frame plain sp = inspect_loop sp plain 8 s" "inspected e ?cb (take 8 bs) [] s"
    "fr_critical_bytes (is_info s) = 8"
    using inspect_sequence_header[OF hl sp(1)] seq unfolding header_words[OF bs(1)] plain_def by blast
  have s0: "plain_inspected e ?cb (take 8 bs) [] s" using s(2) by (simp add: inspected_def plain_inspected_def)
  have srt: "sorted (map (\<lambda>i. if rc_block_index (we_records e ! i) < ?cb then 0 else 1 :: nat) ([] @ ?co @ ?fi))"
  proof -
    have const: "sorted (map g xs)" if "\<And>x. x \<in> set xs \<Longrightarrow> g x = k" for g :: "nat \<Rightarrow> nat" and k xs
      using that by (induction xs) auto
    show ?thesis using co fi unfolding env by (auto simp: sorted_append intro!: const[of ?co _ 0] const[of ?fi _ 1])
  qed
  obtain s' where s': "inspect_loop sp plain 8 s = (is_info s')\<lparr>fr_valid := True\<rparr>"
    "plain_inspected e ?cb (take 8 bs) (?co @ ?fi) s'"
    "fr_critical_bytes (is_info s') = critical_end e ?cb 8 8 (map Block (?co @ ?fi))"
    using inspect_plain[OF e hl _ _ srt s0, of plain] co fi s(3) by (auto simp: plain_def env)
  have crit: "fr_critical_bytes (is_info s') = 8 + items_size e (map Block ?co)"
    using critical_end_coarse[of "map Block ?co" e ?cb 8] critical_end_fine[of "map Block ?fi" e ?cb] co fi s'(3)
    by (simp add: critical_end_append env)
  have len: "length (concat (map (\<lambda>i. record_bytes bs (records ! i)) is)) = items_size e (map Block is)"
    if "\<forall>i \<in> set is. i < length records" for "is"
    using plain_length[OF e, of "is"] that unfolding env by simp
  have info: "inspect_record_frame plain sp = (is_info s')\<lparr>fr_valid := True\<rparr>" using s(1) s'(1) by simp
  have n: "length (?co @ ?fi) = length records" using arg_cong[OF m, of size] by simp
  have "fr_stripped (is_info s') = take 8 bs @ concat (map (record_bytes bs) (map ((!) records) (?co @ ?fi)))"
    using s'(2) by (simp add: plain_inspected_def env o_def)
  with m have perm: "\<exists>recs. mset recs = mset records \<and> fr_stripped (is_info s') = take 8 bs @ concat (map (record_bytes bs) recs)"
    by blast
  have reads: "reads_as bs records (inspect_record_frame plain sp) (ws_stats (plain_frame e bs records out))"
    using s'(2) crit n perm len[of ?co] co bs(1) unfolding info pf(2) env
    by (simp add: reads_as_def plain_inspected_def no_stats_def)
  have "length plain = length bs"
    using plain_frame_out(1)[OF e env(1,3) bs(1,3), of out] unfolding pf(1) plain_def by auto
  then show ?thesis
    using that[OF _ _ reads] pf(1) plain_frame_out(2)[OF e env(1,3) bs(1,3), of out] by (simp add: plain_def)
qed

text \<open>
  Frames under a limit (C16). Both encoders pass the frame budget as the limit. A bitstream longer than a
  limit is refused with nothing written; every other valid bitstream is written, within the limit, and the
  receiver's parser reads the frame back: it is valid, the coarsest wavelet level comes first, the counters
  and the critical prefix are the ones the writer reports, and without its padding the frame is the
  bitstream with its records permuted, none lost or repeated. Unless padding would exceed the limit the
  frame is also aligned: no ordinary record or padding record crosses a shard boundary, and oversized
  records come first within a level. When it would, the records are written without any padding. Limit 0
  stands for no limit. The bitstream is one with a sequence header that starts a frame, whose block records
  split, and with a packet size for which a shard has room.
\<close>

theorem record_frame_reads_back:
  assumes packet: "packetsize < 2 ^ 31" "shard_payload_bytes packetsize \<noteq> 0"
    and bs: "8 \<le> length bs" "length bs < 2 ^ 64 - 1" "split_records bs 8 = Some records"
    and seq: "drop_bit 31 (read_u32 bs 0) \<noteq> 0" "read_u32 bs 0 \<noteq> PADDING_MAGIC" "drop_bit 24 (read_u32 bs 4) AND 3 = 0"
  shows "if limit \<noteq> 0 \<and> limit < length bs
    then write_record_frame bs (shard_payload_bytes packetsize) out limit = Some (None, out)
    else \<exists>stats frame. write_record_frame bs (shard_payload_bytes packetsize) out limit = Some (Some stats, out @ frame) \<and>
      (limit \<noteq> 0 \<longrightarrow> length frame \<le> limit) \<and> length frame = length bs + st_padding_bytes stats \<and>
      (let info = inspect_record_frame frame (shard_payload_bytes packetsize) in
       fr_valid info \<and> fr_error info = '''' \<and> fr_late_coarse_records info = 0 \<and>
       fr_block_records info = length records \<and> st_block_records stats = length records \<and>
       fr_padding_records info = st_padding_records stats \<and> fr_padding_bytes info = st_padding_bytes stats \<and>
       fr_critical_bytes info = st_critical_bytes stats \<and>
       bs = take 8 bs @ concat (map (record_bytes bs) records) \<and>
       (\<exists>recs. mset recs = mset records \<and> fr_stripped info = take 8 bs @ concat (map (record_bytes bs) recs)) \<and>
       (fr_misaligned_records info = 0 \<and> fr_late_oversized_records info = 0 \<or>
        limit \<noteq> 0 \<and> st_padding_bytes stats = 0 \<and>
        (\<exists>stats' padded. write_record_frame bs (shard_payload_bytes packetsize) out 0 = Some (Some stats', out @ padded) \<and>
          limit < length padded)))"
proof (cases "limit \<noteq> 0 \<and> limit < length bs")
  case True
  then show ?thesis by (simp add: write_record_frame_def)
next
  case False
  define sp where "sp = shard_payload_bytes packetsize"
  note sp = shard_payload_ok[OF packet(2,1), folded sp_def]
  have whole: "bs = take 8 bs @ concat (map (record_bytes bs) records)" using split_records_ok[OF bs(3,1)] by (metis append_take_drop_id)
  obtain w :: write_state and frame where "ws_out w = out @ frame" and w: "reads_as bs records (inspect_record_frame frame sp) (ws_stats w)"
    "fr_misaligned_records (inspect_record_frame frame sp) = 0" "fr_late_oversized_records (inspect_record_frame frame sp) = 0"
    "length frame = length bs + st_padding_bytes (ws_stats w)"
    and lim: "\<forall>limit. limit = 0 \<or> length bs \<le> limit \<longrightarrow> write_record_frame bs sp out limit =
      (if limit \<noteq> 0 \<and> length frame > limit
       then Some (Some (ws_stats (plain_frame (frame_env bs records sp out) bs records out)), ws_out (plain_frame (frame_env bs records sp out) bs records out))
       else Some (Some (ws_stats w), out @ frame))"
    by (rule packed_frame[OF sp bs seq, of out])
  have wr0: "write_record_frame bs sp out 0 = Some (Some (ws_stats w), out @ frame)" using lim by simp
  have ok: "limit = 0 \<or> length bs \<le> limit" using False by auto
  show ?thesis
  proof (cases "limit \<noteq> 0 \<and> length frame > limit")
    case True
    let ?pf = "plain_frame (frame_env bs records sp out) bs records out"
    obtain plain where p: "ws_out ?pf = out @ plain" "length plain = length bs"
      "reads_as bs records (inspect_record_frame plain sp) (ws_stats ?pf)" "st_padding_bytes (ws_stats ?pf) = 0"
      by (rule plain_frame_reads[OF sp(1,2) bs seq, of out])
    have "write_record_frame bs sp out limit = Some (Some (ws_stats ?pf), out @ plain)"
      using lim[rule_format, OF ok] True p(1) by simp
    with p(2-4) wr0 True ok whole show ?thesis unfolding if_not_P[OF False] sp_def[symmetric] Let_def
      by (intro exI[of _ "ws_stats ?pf"] exI[of _ plain]) (simp add: reads_as_def)
  next
    case fits: False
    then have "write_record_frame bs sp out limit = Some (Some (ws_stats w), out @ frame)"
      using lim[rule_format, OF ok] by auto
    moreover have "limit \<noteq> 0 \<longrightarrow> length frame \<le> limit" using fits by auto
    ultimately show ?thesis unfolding if_not_P[OF False] sp_def[symmetric] Let_def
      by (intro exI[of _ "ws_stats w"] exI[of _ frame]) (use w whole in \<open>simp add: reads_as_def\<close>)
  qed
qed

section \<open>Shards that start with a record\<close>

definition mark_start :: "nat \<Rightarrow> nat \<Rightarrow> bool list \<Rightarrow> bool list" where
  "mark_start sp p starts = (if (p + FRAME_HEADER_BYTES) mod sp = 0 \<or> p = 0 then starts[(p + FRAME_HEADER_BYTES) div sp := True] else starts)"

lemma start_shards_item:
  assumes e: "env_ok e" and sp: "we_shard_payload e < 2 ^ 32" and it: "item_fits e p it"
    and f: "frame = pre @ item_bytes e it @ post" and p: "length pre = p"
  shows "start_shards frame (we_shard_payload e) p starts =
    start_shards frame (we_shard_payload e) (p + item_size e it) (mark_start (we_shard_payload e) p starts)"
proof (cases it)
  case (Padding n)
  then have n: "8 \<le> n" "4 dvd n" "n \<le> shard_remaining p (we_shard_payload e)" using it by simp_all
  then have "n < 2 ^ 32" using shard_room[OF env_okD(4)[OF e], of p] sp by linarith
  note w = padding_words[OF f[unfolded Padding item_bytes.simps] n(1,2) this, unfolded p]
  show ?thesis unfolding start_shards.simps[of frame _ p] Let_def w(1,2) mark_start_def[symmetric] using w(3) n(1) by (simp add: Padding)
next
  case (Block i)
  then have r: "record_ok (we_bitstream e) (we_records e ! i)" using it env_okD(1)[OF e] by simp
  note w = block_words[OF f[unfolded Block item_bytes.simps] r, unfolded p]
  show ?thesis unfolding start_shards.simps[of frame _ p] Let_def w(3) mark_start_def[symmetric] using w(1,2,5,6) by (simp add: Block)
qed

text \<open>When the next boundary is not passed, marking the current position covers every boundary up to it.\<close>

lemma mark_start_covers:
  assumes sp: "0 < sp" and n: "n \<le> shard_remaining p sp" and k: "k * sp < p + n + FRAME_HEADER_BYTES" "k < length starts"
    and before: "\<forall>k < length starts. k * sp < p + FRAME_HEADER_BYTES \<longrightarrow> starts ! k"
  shows "mark_start sp p starts ! k"
proof (cases "k * sp < p + FRAME_HEADER_BYTES")
  case True
  then have "starts ! k" using before k(2) by blast
  then have "starts[j := True] ! k" for j using k(2) by (cases "j = k") simp_all
  with \<open>starts ! k\<close> show ?thesis by (simp add: mark_start_def)
next
  case False
  define q x where "q = (p + FRAME_HEADER_BYTES) div sp" and "x = (p + FRAME_HEADER_BYTES) mod sp"
  have px: "p + FRAME_HEADER_BYTES = q * sp + x" "x < sp" using sp by (simp_all add: q_def x_def)
  have "k * sp < q * sp + sp" using k(1) n px by (simp add: shard_remaining_def x_def[symmetric])
  then have "k < Suc q" by (metis add.commute mult_Suc mult_less_cancel2)
  moreover have "q * sp + x \<le> k * sp" using False px by simp
  then have "q \<le> k" using sp by (metis add_leD1 mult_le_cancel2 not_less)
  ultimately have "k = q" by simp
  with \<open>q * sp + x \<le> k * sp\<close> have "x = 0" by simp
  with k(2) \<open>k = q\<close> show ?thesis by (simp add: mark_start_def x_def q_def[symmetric])
qed

lemma length_mark_start [simp]: "length (mark_start sp p starts) = length starts"
  by (simp add: mark_start_def)

lemma start_shards_header:
  assumes "8 \<le> length frame" "drop_bit 31 (read_u32 frame 0) \<noteq> 0" "read_u32 frame 0 \<noteq> PADDING_MAGIC"
  shows "start_shards frame sp 0 starts = start_shards frame sp 8 (mark_start sp 0 starts)"
proof -
  have "0 < length frame" "\<not> length frame - 0 < 8" using assms(1) by linarith+
  then show ?thesis
    unfolding start_shards.simps[of frame sp 0 starts] Let_def if_P[OF \<open>0 < length frame\<close>] if_not_P[OF \<open>\<not> length frame - 0 < 8\<close>]
      if_not_P[OF assms(3)] if_P[OF assms(2)] mark_start_def using assms(1) by simp
qed

lemma start_shards_items:
  assumes e: "env_ok e" and sp: "we_shard_payload e < 2 ^ 32" and hdr: "length hdr = 8"
    and small: "\<forall>i < length (we_records e). \<not> oversized (rc_size (we_records e ! i)) (we_shard_payload e)"
  shows "frame = hdr @ concat (map (item_bytes e) (items @ rest)) \<Longrightarrow> items_fit e 8 (items @ rest) \<Longrightarrow>
    \<forall>k < length starts. k * we_shard_payload e < 8 + items_size e items + FRAME_HEADER_BYTES \<longrightarrow> starts ! k \<Longrightarrow>
    \<forall>k < length starts. k * we_shard_payload e < length frame + FRAME_HEADER_BYTES \<Longrightarrow>
    start_shards frame (we_shard_payload e) (8 + items_size e items) starts = replicate (length starts) True"
proof (induction rest arbitrary: items starts)
  case Nil
  have l: "length frame = 8 + items_size e items" using length_items[OF e, of 8 items] Nil.prems(1,2) hdr by simp
  then have "\<forall>k < length starts. starts ! k" using Nil.prems(3,4) by simp
  then have "starts = replicate (length starts) True" by (intro nth_equalityI) auto
  then show ?case using l by (simp add: start_shards.simps)
next
  case (Cons it rest)
  let ?sp = "we_shard_payload e" and ?pre = "hdr @ concat (map (item_bytes e) items)" and ?p = "8 + items_size e items"
  have pre: "length ?pre = ?p" using length_items[OF e, of 8 items] Cons.prems(2) hdr by simp
  have fr: "frame = ?pre @ item_bytes e it @ concat (map (item_bytes e) rest)" using Cons.prems(1) by simp
  have fit: "item_fits e ?p it" using Cons.prems(2) by simp
  have room: "item_size e it \<le> shard_remaining ?p ?sp" using fit small by (cases it) auto
  have "\<forall>k < length (mark_start ?sp ?p starts). k * ?sp < 8 + items_size e (items @ [it]) + FRAME_HEADER_BYTES \<longrightarrow> mark_start ?sp ?p starts ! k"
    using mark_start_covers[OF env_okD(4)[OF e] room _ _ Cons.prems(3)] by (simp add: add.assoc)
  moreover have "\<forall>k < length (mark_start ?sp ?p starts). k * ?sp < length frame + FRAME_HEADER_BYTES" using Cons.prems(4) by simp
  moreover have "frame = hdr @ concat (map (item_bytes e) ((items @ [it]) @ rest))" "items_fit e 8 ((items @ [it]) @ rest)"
    using Cons.prems(1,2) by simp_all
  ultimately have "start_shards frame ?sp (8 + items_size e (items @ [it])) (mark_start ?sp ?p starts) = replicate (length starts) True"
    using Cons.IH[of "items @ [it]" "mark_start ?sp ?p starts"] by simp
  then show ?case unfolding start_shards_item[OF e sp fit fr pre] by (simp add: add.assoc)
qed

text \<open> When no record is too large for a shard, every shard of the frame starts with a record, so a
  receiver that lost a packet resumes parsing at the next one.
\<close>

theorem every_shard_starts_record:
  assumes packet: "packetsize < 2 ^ 31" "shard_payload_bytes packetsize \<noteq> 0"
    and bs: "8 \<le> length bs" "length bs < 2 ^ 64 - 1" "split_records bs 8 = Some records" "drop_bit 31 (read_u32 bs 0) \<noteq> 0"
      "read_u32 bs 0 \<noteq> PADDING_MAGIC"
    and small: "list_all (\<lambda>r. rc_size r + 8 \<le> shard_payload_bytes packetsize) records"
  shows "\<exists>stats frame. write_record_frame bs (shard_payload_bytes packetsize) out 0 = Some (Some stats, out @ frame) \<and>
    record_start_shards frame (shard_payload_bytes packetsize) =
      replicate ((length frame + 8 + shard_payload_bytes packetsize - 1) div shard_payload_bytes packetsize) True"
proof -
  define sp where "sp = shard_payload_bytes packetsize"
  define e where "e = frame_env bs records sp out"
  note sp = shard_payload_ok[OF packet(2,1), folded sp_def]
  have e: "env_ok e" unfolding e_def by (rule frame_env_ok[OF bs(3,1,2) sp(1,2)])
  have env: "we_records e = records" "we_shard_payload e = sp" by (simp_all add: e_def frame_env_def)
  obtain ic ifine w where g: "written e (out @ take 8 bs) (length records) (8 + items_size e ic) (ic @ ifine) w" "ends_block ic"
    "sorted (map (level e (coarse_blocks_in bs)) (blocks (ic @ ifine)))"
    "\<forall>i \<in> set (blocks ic). rc_block_index (records ! i) < coarse_blocks_in bs"
    "\<forall>i \<in> set (blocks ifine). \<not> rc_block_index (records ! i) < coarse_blocks_in bs"
    "mset (map ((!) records) (blocks (ic @ ifine))) = mset records"
    and lim: "\<forall>limit. limit = 0 \<or> length bs \<le> limit \<longrightarrow> write_record_frame bs sp out limit =
      (if limit \<noteq> 0 \<and> length (ws_out w) - length out > limit
       then Some (Some (ws_stats (plain_frame e bs records out)), ws_out (plain_frame e bs records out))
       else Some (Some (ws_stats w), ws_out w))"
    using frame_written[OF sp(1,2) bs(1-4), of out, folded e_def] by blast
  define frame where "frame = take 8 bs @ concat (map (item_bytes e) (ic @ ifine))"
  have wr: "write_record_frame bs sp out 0 = Some (Some (ws_stats w), out @ frame)"
    using lim[rule_format, of 0] g(1) by (simp add: written_def frame_def)
  have hl: "length (take 8 bs) = 8" using bs(1) by simp
  define starts where "starts = replicate ((length frame + FRAME_HEADER_BYTES + sp - 1) div sp) False"
  have n: "k * sp < length frame + FRAME_HEADER_BYTES" if "k < length starts" for k
  proof -
    have "k + 1 \<le> (length frame + FRAME_HEADER_BYTES + sp - 1) div sp" using that by (simp add: starts_def)
    then have "(k + 1) * sp \<le> length frame + FRAME_HEADER_BYTES + sp - 1"
      by (meson div_times_less_eq_dividend mult_le_mono1 order_trans)
    then show ?thesis using sp(1) by simp
  qed
  have words: "read_u32 frame 0 = read_u32 bs 0" using header_words(1)[OF bs(1)] hl by (simp add: frame_def read_u32_here)
  have len: "8 \<le> length frame" using hl by (simp add: frame_def)
  have "start_shards frame sp 0 starts = start_shards frame sp 8 (mark_start sp 0 starts)"
    by (rule start_shards_header) (use len bs(4,5) words in auto)
  also have "\<dots> = replicate (length (mark_start sp 0 starts)) True"
  proof -
    have "sp \<le> length frame + FRAME_HEADER_BYTES + sp - 1" using len by simp
    then have "starts \<noteq> []" using sp(1) by (simp add: starts_def div_eq_0_iff not_less)
    have k0: "k = 0" if "k * sp < 8 + FRAME_HEADER_BYTES" for k
    proof (rule ccontr)
      assume "k \<noteq> 0"
      then have "sp \<le> k * sp" by simp
      with that sp(1) show False by (simp add: FRAME_HEADER_BYTES_def)
    qed
    have m0: "mark_start sp 0 starts ! 0" using sp(1) \<open>starts \<noteq> []\<close> by (simp add: mark_start_def FRAME_HEADER_BYTES_def)
    have small': "\<forall>i < length (we_records e). \<not> oversized (rc_size (we_records e ! i)) (we_shard_payload e)"
      using small unfolding env by (simp add: list_all_length oversized_def PADDING_RECORD_MIN_BYTES_def sp_def not_less)
    have lt: "we_shard_payload e < 2 ^ 32" unfolding env by (rule sp(3))
    have "start_shards frame (we_shard_payload e) (8 + items_size e []) (mark_start sp 0 starts) = replicate (length (mark_start sp 0 starts)) True"
    proof (rule start_shards_items[OF e lt hl small', of frame "[]" "ic @ ifine"])
      show "frame = take 8 bs @ concat (map (item_bytes e) ([] @ ic @ ifine))" by (simp add: frame_def)
      show "items_fit e 8 ([] @ ic @ ifine)" using g(1) by (simp add: written_def)
      show "\<forall>k < length (mark_start sp 0 starts). k * we_shard_payload e < 8 + items_size e [] + FRAME_HEADER_BYTES \<longrightarrow> mark_start sp 0 starts ! k"
        unfolding env using k0 m0 by (metis add_0_right items_simps(1))
      show "\<forall>k < length (mark_start sp 0 starts). k * we_shard_payload e < length frame + FRAME_HEADER_BYTES" unfolding env using n by simp
    qed
    then show ?thesis unfolding env by simp
  qed
  finally have "start_shards frame sp 0 starts = replicate (length starts) True" by simp
  moreover have "frame \<noteq> []" "sp \<noteq> 0" using len sp(1) by auto
  ultimately have "record_start_shards frame sp = replicate ((length frame + 8 + sp - 1) div sp) True"
    unfolding record_start_shards_def starts_def FRAME_HEADER_BYTES_def by simp
  with wr show ?thesis unfolding sp_def[symmetric] by blast
qed

section \<open>Witnesses\<close>

text \<open>A sequence header and two small block records, in shards of 24 bytes.\<close>

definition demo_bitstream :: "byte list" where
  "demo_bitstream = [0, 0, 0, 0x80, 2, 0, 0, 0] @ [0, 0, 3, 0, 0, 0, 0, 0, 7, 7, 7, 7] @ [0, 0, 2, 0, 0, 1, 0, 0]"

definition demo_records :: "record_t list" where
  "demo_records = [\<lparr>rc_offset = 8, rc_size = 12, rc_block_index = 0\<rparr>, \<lparr>rc_offset = 20, rc_size = 8, rc_block_index = 1\<rparr>]"

lemma demo_frame:
  "8 \<le> length demo_bitstream" "length demo_bitstream < 2 ^ 64 - 1" "split_records demo_bitstream 8 = Some demo_records"
  "drop_bit 31 (read_u32 demo_bitstream 0) \<noteq> 0" "read_u32 demo_bitstream 0 \<noteq> PADDING_MAGIC" "drop_bit 24 (read_u32 demo_bitstream 4) AND 3 = 0"
  "shard_payload_bytes 40 = 24"
proof -
  show "8 \<le> length demo_bitstream" "length demo_bitstream < 2 ^ 64 - 1" by (simp_all add: demo_bitstream_def)
  show "shard_payload_bytes 40 = 24" by (simp add: shard_payload_bytes_def frame_consts)
  show "split_records demo_bitstream 8 = Some demo_records" by code_simp
  show "drop_bit 31 (read_u32 demo_bitstream 0) \<noteq> 0" "read_u32 demo_bitstream 0 \<noteq> PADDING_MAGIC"
    "drop_bit 24 (read_u32 demo_bitstream 4) AND 3 = 0" by code_simp+
qed

theorem record_frame_reads_back_witness:
  "(\<exists>stats frame. write_record_frame demo_bitstream (shard_payload_bytes 40) [] 0 = Some (Some stats, frame) \<and>
     fr_valid (inspect_record_frame frame 24) \<and> fr_block_records (inspect_record_frame frame 24) = 2 \<and>
     fr_misaligned_records (inspect_record_frame frame 24) = 0) \<and>
   (\<exists>stats frame. write_record_frame demo_bitstream (shard_payload_bytes 40) [] 28 = Some (Some stats, frame) \<and>
     fr_valid (inspect_record_frame frame 24) \<and> length frame \<le> 28) \<and>
   write_record_frame demo_bitstream (shard_payload_bytes 40) [] 27 = Some (None, [])"
proof -
  note rb = record_frame_reads_back[OF _ _ demo_frame(1-6), of 40 _ "[]"]
  have len: "length demo_bitstream = 28" by (simp add: demo_bitstream_def)
  have 1: "\<exists>stats frame. write_record_frame demo_bitstream (shard_payload_bytes 40) [] 0 = Some (Some stats, frame) \<and>
     fr_valid (inspect_record_frame frame 24) \<and> fr_block_records (inspect_record_frame frame 24) = 2 \<and>
     fr_misaligned_records (inspect_record_frame frame 24) = 0"
    using rb[of 0] demo_frame(7) by (auto simp: Let_def demo_records_def)
  have 2: "\<exists>stats frame. write_record_frame demo_bitstream (shard_payload_bytes 40) [] 28 = Some (Some stats, frame) \<and>
     fr_valid (inspect_record_frame frame 24) \<and> length frame \<le> 28"
    using rb[of 28] demo_frame(7) len by (auto simp: Let_def)
  have 3: "write_record_frame demo_bitstream (shard_payload_bytes 40) [] 27 = Some (None, [])"
    using rb[of 27] demo_frame(7) len by simp
  show ?thesis using 1 2 3 by (intro conjI)
qed

theorem every_shard_starts_record_witness:
  "\<exists>stats frame. write_record_frame demo_bitstream (shard_payload_bytes 40) [] 0 = Some (Some stats, frame) \<and>
     list_all id (record_start_shards frame 24)"
  using every_shard_starts_record[OF _ _ demo_frame(1-5), of 40 "[]"] demo_frame(7) by (auto simp: demo_records_def list_all_iff)

end
