(* ===== verification/Pyrowave_Fec.thy ===== *)
theory Pyrowave_Fec
  imports Pyrowave_Frame
begin

text \<open>
  Forward error correction and bandwidth of PyroWave frames (\<^verbatim>\<open>plan_fec_blocks\<close> and the
  capacity functions of \<^verbatim>\<open>src/src/pyrowave_policy.cpp\<close>, \<^verbatim>\<open>src/src/pyrowave_bandwidth.h\<close>,
  \<^verbatim>\<open>src/src/video_pacing_policy.h\<close>). Counts of shards, packets and bytes are naturals;
  subtractions that could pass zero wrap as \<^verbatim>\<open>std::size_t\<close> does, and a clamp whose bounds are
  out of order, which C++ leaves undefined, is the value \<open>None\<close>. Functions on floating-point rates
  are not modelled.
\<close>

section \<open>Parity\<close>

record fec_block_t =
  fb_data_shards :: nat
  fb_fec_percentage :: int

definition MAX_FEC_BLOCKS :: nat where "MAX_FEC_BLOCKS = 4"
definition MAX_FEC_BLOCK_SHARDS :: nat where "MAX_FEC_BLOCK_SHARDS = 1023"
definition MAX_REED_SOLOMON_SHARDS :: nat where "MAX_REED_SOLOMON_SHARDS = 255"
definition MAX_DETAIL_FEC_PERCENTAGE :: int where "MAX_DETAIL_FEC_PERCENTAGE = 50"

lemmas fec_consts = MAX_FEC_BLOCKS_def MAX_FEC_BLOCK_SHARDS_def MAX_REED_SOLOMON_SHARDS_def MAX_DETAIL_FEC_PERCENTAGE_def

definition parity_shards :: "nat \<Rightarrow> int \<Rightarrow> nat \<Rightarrow> nat" where
  "parity_shards data_shards fec_percentage min_parity_shards =
     (if fec_percentage \<le> 0 then 0 else max ((data_shards * nat fec_percentage + 99) div 100) min_parity_shards)"

text \<open>\<^verbatim>\<open>fec_expanded_packets\<close> of the pacing policy: data plus parity, as the send path computes it.\<close>

definition fec_expanded_packets :: "nat \<Rightarrow> int \<Rightarrow> nat \<Rightarrow> nat" where
  "fec_expanded_packets data_packets fec_percentage min_parity_packets =
     (let parity = (data_packets * nat (max fec_percentage 0) + 99) div 100
      in data_packets + (if fec_percentage > 0 \<and> parity < min_parity_packets then min_parity_packets else parity))"

section \<open>The plan\<close>

text \<open>The lambda \<^verbatim>\<open>split\<close>: blocks without parity.\<close>

definition split_blocks :: "nat \<Rightarrow> nat \<Rightarrow> fec_block_t list option" where
  "split_blocks shards max_blocks =
     (if max_blocks < 1 then None
      else let count = min (max ((shards + MAX_REED_SOLOMON_SHARDS - 1) div MAX_REED_SOLOMON_SHARDS) 1) max_blocks;
               per_block = (shards + count - 1) div count
           in Some (map (\<lambda>i. \<lparr>fb_data_shards = (if i + 1 < count then per_block else size_sub shards (per_block * (count - 1))),
                fb_fec_percentage = 0\<rparr>) [0..<count]))"

text \<open>The lambda \<^verbatim>\<open>capacity\<close>: the most data shards a Reed-Solomon block takes at a percentage.\<close>

fun capacity_from :: "int \<Rightarrow> nat \<Rightarrow> nat \<Rightarrow> nat" where
  "capacity_from percentage min_parity_shards data =
     (if data \<noteq> 0 \<and> data + parity_shards data percentage min_parity_shards > MAX_REED_SOLOMON_SHARDS
      then capacity_from percentage min_parity_shards (data - 1) else data)"

declare capacity_from.simps [simp del]

definition capacity :: "int \<Rightarrow> nat \<Rightarrow> nat" where
  "capacity percentage min_parity_shards = capacity_from percentage min_parity_shards MAX_REED_SOLOMON_SHARDS"

text \<open>The loop that lowers the percentage until all detail is covered within the budget.\<close>

primrec cover_detail :: "nat \<Rightarrow> nat \<Rightarrow> nat \<Rightarrow> fec_block_t list \<Rightarrow> nat \<Rightarrow> fec_block_t list option" where
  "cover_detail min_parity_shards fine budget blocks 0 = None"
| "cover_detail min_parity_shards fine budget blocks (Suc p) =
     (let percentage = int (Suc p); cap = capacity percentage min_parity_shards in
      if cap = 0 then cover_detail min_parity_shards fine budget blocks p
      else let count = (fine + cap - 1) div cap in
        if count > MAX_FEC_BLOCKS - 1 then cover_detail min_parity_shards fine budget blocks p
        else let data = map (\<lambda>i. fine div count + (if i < fine mod count then 1 else 0)) [0..<count] in
          if sum_list (map (\<lambda>d. parity_shards d percentage min_parity_shards) data) \<le> budget
          then Some (blocks @ map (\<lambda>d. \<lparr>fb_data_shards = d, fb_fec_percentage = percentage\<rparr>) data)
          else cover_detail min_parity_shards fine budget blocks p)"

text \<open>The loops that extend the critical block and then protect further prefixes.\<close>

function grow_leading :: "int \<Rightarrow> nat \<Rightarrow> nat \<Rightarrow> nat \<Rightarrow> nat \<Rightarrow> nat \<Rightarrow> nat" where
  "grow_leading percentage min_parity_shards base_parity budget leading_cap leading =
     (if leading < leading_cap \<and> size_sub (parity_shards (leading + 1) percentage min_parity_shards) base_parity \<le> budget
      then grow_leading percentage min_parity_shards base_parity budget leading_cap (leading + 1) else leading)"
  by pat_completeness auto

termination by (relation "measure (\<lambda>(_, _, _, _, leading_cap, leading). leading_cap - leading)") auto

declare grow_leading.simps [simp del]

fun affordable :: "int \<Rightarrow> nat \<Rightarrow> nat \<Rightarrow> nat \<Rightarrow> nat" where
  "affordable percentage min_parity_shards budget data =
     (if data \<noteq> 0 \<and> parity_shards data percentage min_parity_shards > budget
      then affordable percentage min_parity_shards budget (data - 1) else data)"

declare affordable.simps [simp del]

lemma affordable_le: "affordable percentage mp budget data \<le> data"
proof (induction data)
  case 0
  show ?case by (simp add: affordable.simps[of percentage mp budget 0])
next
  case (Suc data)
  then show ?case by (auto simp: affordable.simps[of percentage mp budget "Suc data"] intro: le_SucI)
qed

function protect_prefixes :: "int \<Rightarrow> nat \<Rightarrow> nat \<Rightarrow> fec_block_t list \<Rightarrow> nat \<Rightarrow> nat \<Rightarrow> fec_block_t list \<times> nat" where
  "protect_prefixes percentage min_parity_shards cap blocks budget left_shards =
     (if left_shards \<noteq> 0 \<and> length blocks < MAX_FEC_BLOCKS \<and> cap \<noteq> 0
      then let data = affordable percentage min_parity_shards budget (min left_shards cap);
               slots_after = MAX_FEC_BLOCKS - length blocks - 1 in
        if data = 0 \<or> left_shards - data > slots_after * MAX_FEC_BLOCK_SHARDS then (blocks, left_shards)
        else protect_prefixes percentage min_parity_shards cap
               (blocks @ [\<lparr>fb_data_shards = data, fb_fec_percentage = percentage\<rparr>])
               (size_sub budget (parity_shards data percentage min_parity_shards)) (left_shards - data)
      else (blocks, left_shards))"
  by pat_completeness auto

termination by (relation "measure (\<lambda>(_, _, _, _, _, left_shards). left_shards)") auto

declare protect_prefixes.simps [simp del]

definition plan_fec_blocks :: "nat \<Rightarrow> nat \<Rightarrow> int \<Rightarrow> nat \<Rightarrow> int \<Rightarrow> nat \<Rightarrow> fec_block_t list option" where
  "plan_fec_blocks total_shards critical_shards critical_fec_percentage min_parity_shards detail_fec_percentage0 extra_parity_budget =
     (if total_shards = 0 then Some []
      else let critical = min critical_shards total_shards;
               base_parity = parity_shards critical critical_fec_percentage min_parity_shards;
               protect = (critical \<noteq> 0 \<and> critical_fec_percentage > 0 \<and> critical + base_parity \<le> MAX_REED_SOLOMON_SHARDS) in
        if \<not> protect then split_blocks total_shards MAX_FEC_BLOCKS
        else let blocks = [\<lparr>fb_data_shards = critical, fb_fec_percentage = critical_fec_percentage\<rparr>];
                 detail = min (max detail_fec_percentage0 0) MAX_DETAIL_FEC_PERCENTAGE in
          if detail > 0 \<and> extra_parity_budget > 0 \<and> total_shards > critical
          then let fine = total_shards - critical;
                   budget = min extra_parity_budget (parity_shards fine detail 0) in
            case cover_detail min_parity_shards fine budget blocks (nat detail) of
              Some candidate \<Rightarrow> Some candidate
            | None \<Rightarrow>
                let leading_cap = min total_shards (capacity critical_fec_percentage min_parity_shards);
                    leading = grow_leading critical_fec_percentage min_parity_shards base_parity budget leading_cap critical;
                    blocks1 = [\<lparr>fb_data_shards = leading, fb_fec_percentage = critical_fec_percentage\<rparr>];
                    budget1 = size_sub budget (size_sub (parity_shards leading critical_fec_percentage min_parity_shards) base_parity)
                in case protect_prefixes detail min_parity_shards (capacity detail min_parity_shards) blocks1 budget1 (total_shards - leading) of
                     (blocks2, left_shards) \<Rightarrow>
                       if left_shards \<noteq> 0 then map_option ((@) blocks2) (split_blocks left_shards (MAX_FEC_BLOCKS - length blocks2))
                       else Some blocks2
          else if total_shards > critical then map_option ((@) blocks) (split_blocks (total_shards - critical) (MAX_FEC_BLOCKS - 1))
          else Some blocks)"

section \<open>Capacity and pacing\<close>

definition max_frame_bytes :: "int \<Rightarrow> bool \<Rightarrow> nat" where
  "max_frame_bytes packetsize critical_fec =
     (if packetsize \<le> SHARD_OVERHEAD_BYTES then 0
      else size_sub (min (if critical_fec then 3000 else 4000) (2 ^ 2 * (2 ^ 10 - 1)) * nat (packetsize - SHARD_OVERHEAD_BYTES)) FRAME_HEADER_BYTES)"

definition BLOCK_HEADER_BYTES :: nat where "BLOCK_HEADER_BYTES = 2 * 4"

definition max_bitstream_bytes :: "int \<Rightarrow> bool \<Rightarrow> bool \<Rightarrow> nat" where
  "max_bitstream_bytes packetsize length_prefixed critical_fec =
     (let capacity = max_frame_bytes packetsize critical_fec in
      if length_prefixed
      then if capacity < 4 then 0
        else let c = (capacity - 4) div (BLOCK_HEADER_BYTES + 4) * BLOCK_HEADER_BYTES in c - c mod 4
      else capacity - capacity mod 4)"

record transport_t =
  tr_packetsize :: int
  tr_critical_fec_percentage :: int
  tr_min_parity_shards :: nat
  tr_envelope_bytes :: nat

definition wire_overhead :: nat where "wire_overhead = 134"
definition frame_header :: nat where "frame_header = 8"

definition critical_parity :: "transport_t \<Rightarrow> nat \<Rightarrow> nat" where
  "critical_parity t critical = max ((critical * nat (tr_critical_fec_percentage t) + 99) div 100) (tr_min_parity_shards t)"

definition max_critical_parity :: "transport_t \<Rightarrow> nat \<Rightarrow> nat" where
  "max_critical_parity t packets =
     (if tr_critical_fec_percentage t \<le> 0 then 0
      else fold (\<lambda>critical result. if critical + critical_parity t critical \<le> 255 then max result (critical_parity t critical) else result)
             [1..<min packets 255 + 1] 0)"

definition image_bytes :: "nat \<Rightarrow> transport_t \<Rightarrow> nat" where
  "image_bytes wire t =
     (if tr_packetsize t \<le> 16 then 0
      else let packets = wire div (nat (tr_packetsize t) + wire_overhead); parity = max_critical_parity t packets in
        if packets \<le> parity then 0
        else let data = (packets - parity) * nat (tr_packetsize t - 16); headers = frame_header + tr_envelope_bytes t in
          if data > headers then (data - headers) - (data - headers) mod 4 else 0)"

definition wire_bytes :: "nat \<Rightarrow> transport_t \<Rightarrow> nat" where
  "wire_bytes img t =
     (if tr_packetsize t \<le> 16 \<or> img = 0 then 0
      else let payload = nat (tr_packetsize t - 16); data = (img + frame_header + tr_envelope_bytes t + payload - 1) div payload
           in (data + max_critical_parity t 255) * (nat (tr_packetsize t) + wire_overhead))"

definition frame_payload_budget :: "nat \<Rightarrow> transport_t \<Rightarrow> nat" where
  "frame_payload_budget wire transport = image_bytes wire transport"

definition packets_per_ms :: "nat \<Rightarrow> int \<Rightarrow> nat \<Rightarrow> nat \<Rightarrow> nat \<Rightarrow> int \<Rightarrow> nat \<Rightarrow> nat" where
  "packets_per_ms link_bps bitrate_kbps payload_bytes wire frame_packets framerate calibrated_pace_bps =
     (if payload_bytes = 0 \<or> wire = 0 then 1
      else let frame_allowance = ((frame_packets * nat (max framerate 0) + 999) mod 2 ^ 64) div 1000;
               bitrate_allowance = (nat (max bitrate_kbps 0) + 8 * payload_bytes - 1) div (8 * payload_bytes);
               demand = max frame_allowance bitrate_allowance;
               calibrated_packets = calibrated_pace_bps div 8 div 1000 div wire in
        if link_bps = 0 then max 1 (max calibrated_packets demand)
        else let link_packets = link_bps div 8 div 1000 div wire;
                 target_packets = (if calibrated_pace_bps \<noteq> 0 then calibrated_packets else link_bps * 80 mod 2 ^ 64 div 100 div 8 div 1000 div wire)
             in max 1 (min link_packets (max target_packets demand)))"

definition pacing_packets_per_ms :: "nat \<Rightarrow> int \<Rightarrow> nat \<Rightarrow> nat \<Rightarrow> nat \<Rightarrow> int \<Rightarrow> nat \<Rightarrow> nat" where
  "pacing_packets_per_ms link_bps bitrate_kbps payload_bytes wire frame_bytes framerate calibrated_pace_bps =
     (let frame_packets = (if payload_bytes \<noteq> 0 then (frame_bytes + payload_bytes - 1) div payload_bytes else 0)
      in packets_per_ms link_bps bitrate_kbps payload_bytes wire frame_packets framerate calibrated_pace_bps)"

definition max_batch_bytes :: "nat \<Rightarrow> nat \<Rightarrow> nat \<Rightarrow> nat" where
  "max_batch_bytes configured_max packets_per_quantum datagram_bytes =
     (let quantum_bytes = (if datagram_bytes \<noteq> 0 \<and> packets_per_quantum > (2 ^ 64 - 1) div datagram_bytes then 2 ^ 64 - 1
                           else packets_per_quantum * datagram_bytes)
      in min configured_max quantum_bytes)"

section \<open>Parity and capacity\<close>

lemma parity_mono: "a \<le> b \<Longrightarrow> parity_shards a p mp \<le> parity_shards b p mp"
proof -
  assume "a \<le> b"
  then have "(a * nat p + 99) div 100 \<le> (b * nat p + 99) div 100" by (intro div_le_mono add_le_mono mult_le_mono1) auto
  then show ?thesis by (auto simp: parity_shards_def)
qed

lemma parity_none [simp]: "p \<le> 0 \<Longrightarrow> parity_shards n p mp = 0"
  by (simp add: parity_shards_def)

lemma capacity_from_ok: "capacity_from p mp n \<le> n \<and> (capacity_from p mp n \<noteq> 0 \<longrightarrow>
    capacity_from p mp n + parity_shards (capacity_from p mp n) p mp \<le> MAX_REED_SOLOMON_SHARDS) \<and>
    (\<forall>d \<le> n. d + parity_shards d p mp \<le> MAX_REED_SOLOMON_SHARDS \<longrightarrow> d \<le> capacity_from p mp n)"
proof (induction n)
  case 0
  show ?case by (simp add: capacity_from.simps[of p mp 0])
next
  case (Suc n)
  then show ?case by (auto simp: capacity_from.simps[of p mp "Suc n"] le_Suc_eq)
qed

lemma capacity_holds:
  assumes "d \<le> capacity p mp" "d \<noteq> 0"
  shows "d + parity_shards d p mp \<le> MAX_REED_SOLOMON_SHARDS"
  using capacity_from_ok[of p mp MAX_REED_SOLOMON_SHARDS] parity_mono[OF assms(1), of p mp] assms unfolding capacity_def by linarith

lemma capacity_least: "d + parity_shards d p mp \<le> MAX_REED_SOLOMON_SHARDS \<Longrightarrow> d \<le> capacity p mp"
  using capacity_from_ok[of p mp MAX_REED_SOLOMON_SHARDS] unfolding capacity_def by (meson add_leD1)

section \<open>What a plan promises\<close>

definition data_total :: "fec_block_t list \<Rightarrow> nat" where
  "data_total bs = sum_list (map fb_data_shards bs)"

definition parity_total :: "nat \<Rightarrow> fec_block_t list \<Rightarrow> nat" where
  "parity_total mp bs = sum_list (map (\<lambda>b. parity_shards (fb_data_shards b) (fb_fec_percentage b) mp) bs)"

definition reed_solomon_ok :: "nat \<Rightarrow> fec_block_t list \<Rightarrow> bool" where
  "reed_solomon_ok mp bs \<longleftrightarrow> (\<forall>b \<in> set bs. fb_fec_percentage b > 0 \<longrightarrow>
     fb_data_shards b + parity_shards (fb_data_shards b) (fb_fec_percentage b) mp \<le> MAX_REED_SOLOMON_SHARDS)"

definition indexable :: "fec_block_t list \<Rightarrow> bool" where
  "indexable bs \<longleftrightarrow> (\<forall>b \<in> set bs. fb_data_shards b \<le> MAX_FEC_BLOCK_SHARDS)"

lemma plan_simps [simp]:
  "data_total [] = 0" "data_total (b # bs) = fb_data_shards b + data_total bs" "data_total (bs @ cs) = data_total bs + data_total cs"
  "parity_total mp [] = 0" "parity_total mp (b # bs) = parity_shards (fb_data_shards b) (fb_fec_percentage b) mp + parity_total mp bs"
  "parity_total mp (bs @ cs) = parity_total mp bs + parity_total mp cs"
  "reed_solomon_ok mp [] = True" "reed_solomon_ok mp (bs @ cs) \<longleftrightarrow> reed_solomon_ok mp bs \<and> reed_solomon_ok mp cs"
  "indexable [] = True" "indexable (bs @ cs) \<longleftrightarrow> indexable bs \<and> indexable cs"
  by (auto simp: data_total_def parity_total_def reed_solomon_ok_def indexable_def)

lemma split_blocks_ok:
  assumes s: "0 < shards" and mb: "0 < mb" "mb \<le> 4"
  shows "\<exists>bs. split_blocks shards mb = Some bs \<and> length bs \<le> mb \<and> data_total bs = shards \<and> parity_total mp bs = 0 \<and> reed_solomon_ok mp bs \<and>
    (shards \<le> mb * MAX_FEC_BLOCK_SHARDS \<longrightarrow> indexable bs)"
proof -
  define n where "n = min (max ((shards + MAX_REED_SOLOMON_SHARDS - 1) div MAX_REED_SOLOMON_SHARDS) 1) mb"
  define per where "per = (shards + n - 1) div n"
  define bs where "bs = map (\<lambda>i. \<lparr>fb_data_shards = (if i + 1 < n then per else size_sub shards (per * (n - 1))), fb_fec_percentage = 0\<rparr>) [0..<n]"
  have sp: "split_blocks shards mb = Some bs" 
  proof -
    have "\<not> mb < 1" using mb by simp
    from if_not_P[OF this] show ?thesis unfolding split_blocks_def Let_def n_def[symmetric] per_def[symmetric] bs_def[symmetric] .
  qed
  have n_eq: "n = min (max ((shards + 254) div 255) 1) mb" by (simp add: n_def MAX_REED_SOLOMON_SHARDS_def add.commute)
  have n: "1 \<le> n" "n \<le> mb" "n \<le> 4" using mb by (auto simp: n_eq)
  have lo: "255 * (n - 1) < shards"
  proof -
    have "n \<le> (shards + 254) div 255" using s by (auto simp: n_eq)
    then have "255 * n \<le> 255 * ((shards + 254) div 255)" by (rule mult_le_mono2)
    also have "\<dots> \<le> shards + 254" by (rule times_div_less_eq_dividend)
    finally show ?thesis using n(1) by linarith
  qed
  have per: "per * n < shards + n" "shards \<le> per * n"
  proof -
    have "(shards + n - 1) div n * n \<le> shards + n - 1" by simp
    then show "per * n < shards + n" unfolding per_def using n(1) by linarith
    have "(shards + n - 1) div n * n + (shards + n - 1) mod n = shards + n - 1" by simp
    moreover have "(shards + n - 1) mod n < n" using n(1) by simp
    ultimately show "shards \<le> per * n" unfolding per_def by linarith
  qed
  have last: "per * (n - 1) \<le> shards"
  proof -
    consider "n = 1" | "n = 2" | "n = 3" | "n = 4" using n by linarith
    then show ?thesis using per(1) lo by cases simp_all
  qed
  obtain k where k: "n = Suc k" using n(1) by (cases n) auto
  have "map fb_data_shards bs = map (\<lambda>_. per) [0..<k] @ [shards - per * k]"
    using last by (auto simp: bs_def k o_def)
  then have d: "data_total bs = shards" unfolding data_total_def using last by (simp add: sum_list_triv k mult.commute)
  have "indexable bs" if i: "shards \<le> mb * 1023"
  proof -
    have p: "per \<le> 1023"
    proof (cases "n = mb")
      case True
      have "per * n < shards + n" by (rule per(1))
      also have "\<dots> \<le> 1024 * n" using i True by simp
      finally have "per * n < 1024 * n" .
      then show ?thesis by simp
    next
      case False
      then have "(shards + 254) div 255 \<le> n" using n(2) by (auto simp: n_eq)
      moreover have "255 * ((shards + 254) div 255) + (shards + 254) mod 255 = shards + 254" by (rule mult_div_mod_eq)
      moreover have "(shards + 254) mod 255 < 255" by simp
      ultimately have "shards \<le> 255 * n" by linarith
      then have "shards + n \<le> 256 * n" by linarith
      with per(1) have "per * n < 256 * n" by (rule less_le_trans)
      then show ?thesis by simp
    qed
    have "shards - per * (n - 1) \<le> per" using per(2) n(1) by (simp add: right_diff_distrib')
    then have "shards - per * (n - 1) \<le> 1023" using p by linarith
    with p last show ?thesis by (auto simp: indexable_def bs_def MAX_FEC_BLOCK_SHARDS_def)
  qed
  moreover have "length bs \<le> mb" using n(2) by (simp add: bs_def)
  moreover have "parity_total mp bs = 0" "reed_solomon_ok mp bs" by (auto simp: parity_total_def reed_solomon_ok_def bs_def)
  ultimately show ?thesis using sp d by (auto simp: MAX_FEC_BLOCK_SHARDS_def)
qed

lemma ceil_div:
  assumes "0 < (c :: nat)"
  shows "n \<le> (n + c - 1) div c * c"
proof -
  have "(n + c - 1) div c * c + (n + c - 1) mod c = n + c - 1" by simp
  moreover have "(n + c - 1) mod c < c" using assms by simp
  ultimately show ?thesis by linarith
qed

lemma even_split_le:
  assumes "n \<le> count * (cap :: nat)" "0 < count" "i < count"
  shows "n div count + (if i < n mod count then 1 else 0) \<le> cap"
proof (cases "n mod count = 0")
  case True
  then show ?thesis using assms(1,2) by (simp add: div_le_mono[of n "count * cap" count] order_trans[OF div_le_mono[OF assms(1)]])
next
  case False
  have "n div count * count + n mod count = n" by simp
  with False have "n div count * count < n" by linarith
  also have "\<dots> \<le> cap * count" using assms(1) by (simp only: mult.commute)
  finally have "n div count * count < cap * count" .
  then have "n div count < cap" by simp
  then show ?thesis by simp
qed

lemma even_split_sum:
  assumes "0 < count"
  shows "sum_list (map (\<lambda>i. n div count + (if i < n mod count then 1 else 0)) [0..<count]) = (n :: nat)"
proof -
  have r: "sum_list (map (\<lambda>i. if i < r then 1 else 0) [0..<c]) = min r c" for r c :: nat by (induction c) auto
  have "sum_list (map (\<lambda>i. n div count + (if i < n mod count then 1 else 0)) [0..<count]) =
      sum_list (map (\<lambda>_. n div count) [0..<count]) + sum_list (map (\<lambda>i. if i < n mod count then 1 else 0) [0..<count])"
    by (rule sum_list_addf)
  also have "\<dots> = count * (n div count) + min (n mod count) count" by (simp add: sum_list_triv r)
  also have "\<dots> = n" using assms by (simp add: min_absorb1 less_imp_le)
  finally show ?thesis .
qed

lemma cover_detail_ok:
  assumes "cover_detail mp fine budget blocks p = Some bs" "0 < fine"
  shows "\<exists>cs. bs = blocks @ cs \<and> length cs \<le> 3 \<and> data_total cs = fine \<and> parity_total mp cs \<le> budget \<and>
    reed_solomon_ok mp cs \<and> indexable cs"
  using assms(1)
proof (induction p)
  case (Suc p)
  define pc cap where "pc = int (Suc p)" and "cap = capacity pc mp"
  define count where "count = (fine + cap - 1) div cap"
  define data where "data = map (\<lambda>i. fine div count + (if i < fine mod count then 1 else 0)) [0..<count]"
  have unf: "cover_detail mp fine budget blocks (Suc p) =
      (if cap = 0 then cover_detail mp fine budget blocks p else if count > MAX_FEC_BLOCKS - 1 then cover_detail mp fine budget blocks p
       else if sum_list (map (\<lambda>d. parity_shards d pc mp) data) \<le> budget
       then Some (blocks @ map (\<lambda>d. \<lparr>fb_data_shards = d, fb_fec_percentage = pc\<rparr>) data) else cover_detail mp fine budget blocks p)"
    unfolding cover_detail.simps Let_def pc_def[symmetric] cap_def[symmetric] count_def[symmetric] data_def[symmetric] ..
  show ?case
  proof (cases "cap = 0 \<or> count > MAX_FEC_BLOCKS - 1 \<or> \<not> sum_list (map (\<lambda>d. parity_shards d pc mp) data) \<le> budget")
    case True
    with Suc.prems unf have "cover_detail mp fine budget blocks p = Some bs" by (auto split: if_splits)
    then show ?thesis by (rule Suc.IH)
  next
    case False
    then have cap: "0 < cap" and count: "count \<le> 3" and bud: "sum_list (map (\<lambda>d. parity_shards d pc mp) data) \<le> budget"
      by (auto simp: MAX_FEC_BLOCKS_def)
    have fc: "fine \<le> count * cap" unfolding count_def by (rule ceil_div[OF cap])
    then have c0: "0 < count" using assms(2) by (cases count) auto
    have d: "x \<le> cap" if "x \<in> set data" for x using that even_split_le[OF fc c0] by (auto simp: data_def)
    have rs: "x + parity_shards x pc mp \<le> MAX_REED_SOLOMON_SHARDS" if "x \<in> set data" "x \<noteq> 0" for x
      using capacity_holds[of x pc mp] d[OF that(1)] that(2) by (simp add: cap_def)
    let ?cs = "map (\<lambda>d. \<lparr>fb_data_shards = d, fb_fec_percentage = pc\<rparr>) data"
    have "bs = blocks @ ?cs" using Suc.prems unf False by auto
    moreover have "length ?cs \<le> 3" using count by (simp add: data_def)
    moreover have "data_total ?cs = fine" using even_split_sum[OF c0, of fine] by (simp add: data_total_def o_def data_def)
    moreover have "parity_total mp ?cs \<le> budget" using bud by (simp add: parity_total_def o_def)
    moreover have "count \<le> fine"
    proof -
      have "fine + cap - 1 \<le> fine * cap" using assms(2) cap by (cases fine; cases cap) auto
      then have "count \<le> fine * cap div cap" unfolding count_def by (rule div_le_mono)
      then show ?thesis using cap by simp
    qed
    then have "0 < fine div count" using c0 by (simp add: div_greater_zero_iff)
    then have "x \<noteq> 0" if "x \<in> set data" for x using that by (auto simp: data_def)
    then have "reed_solomon_ok mp ?cs" using rs by (auto simp: reed_solomon_ok_def)
    moreover have "indexable ?cs" using d capacity_from_ok[of pc mp MAX_REED_SOLOMON_SHARDS]
      by (force simp: indexable_def MAX_FEC_BLOCK_SHARDS_def cap_def capacity_def MAX_REED_SOLOMON_SHARDS_def)
    ultimately show ?thesis by blast
  qed
qed simp

lemma grow_leading_ok:
  assumes "critical \<le> leading" "parity_shards leading p mp - parity_shards critical p mp \<le> budget"
  shows "leading \<le> grow_leading p mp (parity_shards critical p mp) budget cap leading \<and>
    (grow_leading p mp (parity_shards critical p mp) budget cap leading \<le> cap \<or>
     grow_leading p mp (parity_shards critical p mp) budget cap leading = leading) \<and>
    parity_shards (grow_leading p mp (parity_shards critical p mp) budget cap leading) p mp - parity_shards critical p mp \<le> budget"
  using assms
proof (induction "cap - leading" arbitrary: leading)
  case 0
  then show ?case by (simp add: grow_leading.simps)
next
  case (Suc n)
  have le: "parity_shards critical p mp \<le> parity_shards (leading + 1) p mp" using Suc.prems(1) by (intro parity_mono) simp
  show ?case
  proof (cases "leading < cap \<and> parity_shards (leading + 1) p mp - parity_shards critical p mp \<le> budget")
    case True
    have "n = cap - (leading + 1)" "critical \<le> leading + 1" using Suc.hyps(2) Suc.prems(1) by linarith+
    note ih = Suc.hyps(1)[OF this conjunct2[OF True]]
    show ?thesis unfolding grow_leading.simps[of p mp _ budget cap leading] using True ih le by auto
  next
    case False
    then show ?thesis unfolding grow_leading.simps[of p mp _ budget cap leading] using Suc.prems(2) le by auto
  qed
qed

lemma affordable_ok: "affordable p mp budget d \<noteq> 0 \<Longrightarrow> parity_shards (affordable p mp budget d) p mp \<le> budget"
proof (induction d)
  case 0
  then show ?case by (simp add: affordable.simps[of p mp budget 0])
next
  case (Suc d)
  then show ?case by (auto simp: affordable.simps[of p mp budget "Suc d"] split: if_splits)
qed

lemma protect_prefixes_ok:
  assumes "cap = capacity p mp"
  shows "protect_prefixes p mp cap blocks budget n = (bs, n') \<Longrightarrow> length blocks < MAX_FEC_BLOCKS \<or> n = 0 \<Longrightarrow> length blocks \<le> MAX_FEC_BLOCKS \<Longrightarrow>
    \<exists>cs. bs = blocks @ cs \<and> length bs \<le> MAX_FEC_BLOCKS \<and> (length bs < MAX_FEC_BLOCKS \<or> n' = 0) \<and> data_total cs + n' = n \<and>
      parity_total mp cs \<le> budget \<and> reed_solomon_ok mp cs \<and> indexable cs \<and>
      (n \<le> (MAX_FEC_BLOCKS - length blocks) * MAX_FEC_BLOCK_SHARDS \<longrightarrow> n' \<le> (MAX_FEC_BLOCKS - length bs) * MAX_FEC_BLOCK_SHARDS)"
proof (induction n arbitrary: blocks budget rule: less_induct)
  case (less n)
  define data where "data = affordable p mp budget (min n cap)"
  define sa where "sa = MAX_FEC_BLOCKS - length blocks - 1"
  show ?case
  proof (cases "n \<noteq> 0 \<and> length blocks < MAX_FEC_BLOCKS \<and> cap \<noteq> 0 \<and> \<not> (data = 0 \<or> n - data > sa * MAX_FEC_BLOCK_SHARDS)")
    case False
    then have "bs = blocks" "n' = n" using less.prems(1) unfolding protect_prefixes.simps[of p mp cap blocks budget n] Let_def data_def[symmetric] sa_def[symmetric]
      by (auto split: if_splits)
    then show ?thesis using less.prems(2,3) by simp
  next
    case True
    then have t: "n \<noteq> 0" "length blocks < MAX_FEC_BLOCKS" "data \<noteq> 0" "n - data \<le> sa * MAX_FEC_BLOCK_SHARDS" by auto
    define b where "b = \<lparr>fb_data_shards = data, fb_fec_percentage = p\<rparr>"
    have data: "data \<le> n" "data \<le> cap" "parity_shards data p mp \<le> budget"
      using affordable_le[of p mp budget "min n cap"] affordable_ok[of p mp budget "min n cap"] t(3) unfolding data_def by auto
    have step: "protect_prefixes p mp cap (blocks @ [b]) (budget - parity_shards data p mp) (n - data) = (bs, n')"
      using less.prems(1) True data(3) unfolding protect_prefixes.simps[of p mp cap blocks budget n] Let_def data_def[symmetric] sa_def[symmetric] b_def
      by auto
    have sa: "sa = MAX_FEC_BLOCKS - length (blocks @ [b])" by (simp add: sa_def)
    have "length (blocks @ [b]) < MAX_FEC_BLOCKS \<or> n - data = 0" using t(2,4) by (cases "sa = 0") (auto simp: sa_def)
    moreover have "length (blocks @ [b]) \<le> MAX_FEC_BLOCKS" "n - data < n" using t by auto
    ultimately obtain cs where cs: "bs = (blocks @ [b]) @ cs" "length bs \<le> MAX_FEC_BLOCKS" "length bs < MAX_FEC_BLOCKS \<or> n' = 0"
      "data_total cs + n' = n - data" "parity_total mp cs \<le> budget - parity_shards data p mp" "reed_solomon_ok mp cs" "indexable cs"
      "n - data \<le> (MAX_FEC_BLOCKS - length (blocks @ [b])) * MAX_FEC_BLOCK_SHARDS \<longrightarrow> n' \<le> (MAX_FEC_BLOCKS - length bs) * MAX_FEC_BLOCK_SHARDS"
      using less.IH[OF _ step] by blast
    have rs: "reed_solomon_ok mp [b]" using capacity_holds[of data p mp] data(2) t(3) assms by (simp add: reed_solomon_ok_def b_def)
    have "data \<le> 255" using data(2) capacity_from_ok[of p mp MAX_REED_SOLOMON_SHARDS] by (simp add: assms capacity_def MAX_REED_SOLOMON_SHARDS_def)
    then have ix: "indexable [b]" by (simp add: indexable_def b_def MAX_FEC_BLOCK_SHARDS_def)
    have "reed_solomon_ok mp ([b] @ cs)" "indexable ([b] @ cs)" using rs ix cs(6,7) by (simp_all only: plan_simps simp_thms)
    moreover have "data_total ([b] @ cs) + n' = n" "parity_total mp ([b] @ cs) \<le> budget" using cs(4,5) data(1,3) by (simp_all add: b_def)
    moreover have "n' \<le> (MAX_FEC_BLOCKS - length bs) * MAX_FEC_BLOCK_SHARDS" using cs(8) t(4) sa by simp
    ultimately show ?thesis using cs(1-3) by (intro exI[of _ "[b] @ cs"]) simp
  qed
qed

text \<open>The three ways a protected plan is made, each appending blocks after the leading one.\<close>

definition plan_ok :: "nat \<Rightarrow> nat \<Rightarrow> nat \<Rightarrow> nat \<Rightarrow> int \<Rightarrow> nat \<Rightarrow> fec_block_t list \<Rightarrow> bool" where
  "plan_ok mp shards critical extra p bound bs \<longleftrightarrow> length bs \<le> MAX_FEC_BLOCKS \<and> data_total bs = shards \<and> reed_solomon_ok mp bs \<and>
     bs \<noteq> [] \<and> critical \<le> fb_data_shards (hd bs) \<and> fb_fec_percentage (hd bs) = p \<and>
     parity_total mp bs \<le> parity_shards critical p mp + extra \<and> (shards \<le> bound \<longrightarrow> indexable bs)"

lemma plan_tail:
  assumes "critical + parity_shards critical p mp \<le> MAX_REED_SOLOMON_SHARDS" "data_total cs = shards - critical" "critical \<le> shards"
    "length cs \<le> 3" "parity_total mp cs \<le> extra" "reed_solomon_ok mp cs" "shards \<le> bound \<longrightarrow> indexable cs"
  shows "plan_ok mp shards critical extra p bound (\<lparr>fb_data_shards = critical, fb_fec_percentage = p\<rparr> # cs)"
  using assms by (auto simp: plan_ok_def fec_consts reed_solomon_ok_def indexable_def)

lemma plan_extended:
  assumes c: "0 < critical" "critical \<le> shards" "critical + parity_shards critical p mp \<le> MAX_REED_SOLOMON_SHARDS" and p: "0 < p"
    and budget: "budget \<le> extra"
    and leading: "leading = grow_leading p mp (parity_shards critical p mp) budget (min shards (capacity p mp)) critical"
    and b1: "budget1 = size_sub budget (size_sub (parity_shards leading p mp) (parity_shards critical p mp))"
    and pp: "protect_prefixes d mp (capacity d mp) [\<lparr>fb_data_shards = leading, fb_fec_percentage = p\<rparr>] budget1 (shards - leading) = (blocks2, left_shards)"
  shows "\<exists>bs. (if left_shards \<noteq> 0 then map_option ((@) blocks2) (split_blocks left_shards (MAX_FEC_BLOCKS - length blocks2)) else Some blocks2) = Some bs \<and>
    plan_ok mp shards critical extra p 3000 bs"
proof -
  let ?lead = "\<lparr>fb_data_shards = leading, fb_fec_percentage = p\<rparr>"
  have crit_cap: "critical \<le> capacity p mp" using capacity_least[OF c(3)] .
  note g = grow_leading_ok[of critical critical p mp budget "min shards (capacity p mp)", folded leading]
  have l: "critical \<le> leading" "leading \<le> shards" "leading \<le> capacity p mp"
    "parity_shards leading p mp - parity_shards critical p mp \<le> budget" using g c(2) crit_cap by auto
  have pm: "parity_shards critical p mp \<le> parity_shards leading p mp" using parity_mono[OF l(1)] .
  have b1': "budget1 = budget - (parity_shards leading p mp - parity_shards critical p mp)" using l(4) pm by (simp add: b1)
  obtain cs where cs: "blocks2 = [?lead] @ cs" "length blocks2 \<le> MAX_FEC_BLOCKS" "length blocks2 < MAX_FEC_BLOCKS \<or> left_shards = 0"
    "data_total cs + left_shards = shards - leading" "parity_total mp cs \<le> budget1" "reed_solomon_ok mp cs" "indexable cs"
    "shards - leading \<le> 3 * 1023 \<longrightarrow> left_shards \<le> (MAX_FEC_BLOCKS - length blocks2) * MAX_FEC_BLOCK_SHARDS"
    using protect_prefixes_ok[OF refl pp] by (auto simp: fec_consts)
  have lead: "reed_solomon_ok mp [?lead]" "indexable [?lead]"
    using capacity_holds[OF l(3)] l(1) c(1) l(3) capacity_from_ok[of p mp 255]
    by (auto simp: reed_solomon_ok_def indexable_def fec_consts capacity_def)
  have base: "plan_ok mp shards critical extra p 3000 (blocks2 @ ds)"
    if "data_total ds = left_shards" "length ds \<le> MAX_FEC_BLOCKS - length blocks2" "parity_total mp ds = 0" "reed_solomon_ok mp ds"
      "shards \<le> 3000 \<longrightarrow> indexable ds" for ds
  proof -
    have "parity_total mp (blocks2 @ ds) \<le> parity_shards critical p mp + extra"
      using that(3) cs(5) b1' l(4) pm budget by (simp add: cs(1))
    moreover have "data_total (blocks2 @ ds) = shards" using that(1) cs(4) l(2) by (simp add: cs(1))
    moreover have "reed_solomon_ok mp (blocks2 @ ds)" using that(4) lead(1) cs(6) by (simp only: cs(1) plan_simps simp_thms)
    moreover have "shards \<le> 3000 \<longrightarrow> indexable (blocks2 @ ds)" using that(5) lead(2) cs(7) by (simp only: cs(1) plan_simps simp_thms)
    ultimately show ?thesis using that(2) cs(2) l(1) by (simp add: plan_ok_def cs(1))
  qed
  show ?thesis
  proof (cases "left_shards = 0")
    case True
    then show ?thesis using base[of "[]"] by simp
  next
    case False
    have "0 < MAX_FEC_BLOCKS - length blocks2" "MAX_FEC_BLOCKS - length blocks2 \<le> 4" using cs(3) False by (auto simp: MAX_FEC_BLOCKS_def)
    from split_blocks_ok[OF _ this, of left_shards mp] False obtain ds where
      ds: "split_blocks left_shards (MAX_FEC_BLOCKS - length blocks2) = Some ds" "length ds \<le> MAX_FEC_BLOCKS - length blocks2"
      "data_total ds = left_shards" "parity_total mp ds = 0" "reed_solomon_ok mp ds"
      "left_shards \<le> (MAX_FEC_BLOCKS - length blocks2) * MAX_FEC_BLOCK_SHARDS \<longrightarrow> indexable ds" by auto
    have "shards \<le> 3000 \<longrightarrow> indexable ds" using ds(6) cs(8) by auto
    from base[OF ds(3,2,4,5) this] ds(1) False show ?thesis by simp
  qed
qed

lemma plan_protected:
  assumes s: "0 < shards" and c: "critical = min critical_shards shards" "0 < critical" "0 < p"
    "critical + parity_shards critical p mp \<le> MAX_REED_SOLOMON_SHARDS"
  shows "\<exists>bs. plan_fec_blocks shards critical_shards p mp detail extra = Some bs \<and> plan_ok mp shards critical extra p 3000 bs"
proof -
  define dt where "dt = min (max detail 0) MAX_DETAIL_FEC_PERCENTAGE"
  define lead where "lead = [\<lparr>fb_data_shards = critical, fb_fec_percentage = p\<rparr>]"
  define fine where "fine = shards - critical"
  define budget where "budget = min extra (parity_shards fine dt 0)"
  have cs: "critical \<le> shards" using c(1) by simp
  have n: "shards \<noteq> 0" "\<not> \<not> (critical \<noteq> 0 \<and> p > 0 \<and> critical + parity_shards critical p mp \<le> MAX_REED_SOLOMON_SHARDS)" using s c by auto
  note unf = plan_fec_blocks_def[of shards critical_shards p mp detail extra, unfolded if_not_P[OF n(1)] Let_def,
      folded c(1), unfolded if_not_P[OF n(2)], folded dt_def lead_def fine_def, folded budget_def]
  have tail: "\<exists>bs. plan_fec_blocks shards critical_shards p mp detail extra = Some bs \<and> plan_ok mp shards critical extra p 3000 bs"
    if "plan_fec_blocks shards critical_shards p mp detail extra = Some (lead @ ds)" "data_total ds = shards - critical" "length ds \<le> 3"
      "parity_total mp ds \<le> extra" "reed_solomon_ok mp ds" "shards \<le> 3000 \<longrightarrow> indexable ds" for ds
    using plan_tail[OF c(4) that(2) cs that(3-6)] that(1) by (simp add: lead_def)
  show ?thesis
  proof (cases "dt > 0 \<and> extra > 0 \<and> shards > critical")
    case True
    have f0: "0 < fine" using True by (simp add: fine_def)
    show ?thesis
    proof (cases "cover_detail mp fine budget lead (nat dt)")
      case (Some bs)
      from cover_detail_ok[OF Some f0] obtain ds where "bs = lead @ ds" "length ds \<le> 3" "data_total ds = fine" "parity_total mp ds \<le> budget"
        "reed_solomon_ok mp ds" "indexable ds" by blast
      then show ?thesis using tail[of ds] unf True Some by (simp add: fine_def budget_def)
    next
      case None
      define leading where "leading = grow_leading p mp (parity_shards critical p mp) budget (min shards (capacity p mp)) critical"
      define budget1 where "budget1 = size_sub budget (size_sub (parity_shards leading p mp) (parity_shards critical p mp))"
      obtain blocks2 left_shards where pp: "protect_prefixes dt mp (capacity dt mp) [\<lparr>fb_data_shards = leading, fb_fec_percentage = p\<rparr>] budget1
          (shards - leading) = (blocks2, left_shards)" by fastforce
      have "budget \<le> extra" by (simp add: budget_def)
      from plan_extended[OF c(2) cs c(4,3) this leading_def budget1_def pp] show ?thesis
        unfolding unf if_P[OF True] None option.case leading_def[symmetric] budget1_def[symmetric] pp prod.case .
    qed
  next
    case False
    show ?thesis
    proof (cases "shards > critical")
      case True
      have "0 < fine" using True by (simp add: fine_def)
      from split_blocks_ok[OF this, of 3 mp] obtain ds where ds:
        "split_blocks fine 3 = Some ds" "length ds \<le> 3" "data_total ds = fine" "parity_total mp ds = 0"
        "reed_solomon_ok mp ds" "fine \<le> 3 * MAX_FEC_BLOCK_SHARDS \<longrightarrow> indexable ds" by auto
      have "plan_fec_blocks shards critical_shards p mp detail extra = Some (lead @ ds)"
        unfolding unf if_not_P[OF False] if_P[OF True] using ds(1) by (simp add: MAX_FEC_BLOCKS_def)
      moreover have "shards \<le> 3000 \<longrightarrow> indexable ds" using ds(6) by (simp add: fine_def MAX_FEC_BLOCK_SHARDS_def)
      ultimately show ?thesis using tail[of ds] ds(2-5) by (simp add: fine_def)
    next
      case same: False
      have "plan_fec_blocks shards critical_shards p mp detail extra = Some (lead @ [])"
        unfolding unf if_not_P[OF False] if_not_P[OF same] by simp
      then show ?thesis using tail[of "[]"] same cs by simp
    qed
  qed
qed

lemma frame_shards:
  assumes p: "16 < packetsize" and b: "frame_bytes \<le> max_frame_bytes packetsize cf"
  shows "(frame_bytes + 8 + nat (packetsize - 16) - 1) div nat (packetsize - 16) \<le> (if cf then 3000 else 4000)"
    "0 < (frame_bytes + 8 + nat (packetsize - 16) - 1) div nat (packetsize - 16)"
proof -
  let ?w = "nat (packetsize - 16)" and ?m = "if cf then 3000 else 4000 :: nat"
  have w: "0 < ?w" using p by simp
  have "8 \<le> ?m * ?w" using w by (cases cf) (auto simp: Suc_le_eq)
  then have "frame_bytes + 8 \<le> ?m * ?w" using b p by (auto simp: max_frame_bytes_def frame_consts split: if_splits)
  then have "frame_bytes + 8 + ?w - 1 < ?m * ?w + ?w" using w by linarith
  then have "(frame_bytes + 8 + ?w - 1) div ?w < ?m + 1" using w by (simp add: div_less_iff_less_mult algebra_simps)
  then show "(frame_bytes + 8 + ?w - 1) div ?w \<le> ?m" by simp
  show "0 < (frame_bytes + 8 + ?w - 1) div ?w" using w by (simp add: div_greater_zero_iff)
qed

text \<open>
  (C39) A frame within the encoder's capacity is always split into at most four blocks that the packet
  header can index and that together hold every shard; a block with parity fits one Reed-Solomon block;
  and when the critical prefix can be protected, it lies in the first block with its percentage and the
  plan spends no more than the extra budget beyond its parity.
\<close>

theorem fec_plan_sound:
  assumes p: "16 < packetsize" and b: "frame_bytes \<le> max_frame_bytes packetsize (0 < percentage)"
    and s: "shards = (frame_bytes + 8 + nat (packetsize - 16) - 1) div nat (packetsize - 16)"
  shows "\<exists>bs. plan_fec_blocks shards critical percentage mp detail extra = Some bs \<and> length bs \<le> 4 \<and> sum_list (map fb_data_shards bs) = shards \<and>
    (\<forall>b \<in> set bs. fb_data_shards b \<le> 1023 \<and> (0 < fb_fec_percentage b \<longrightarrow>
       fb_data_shards b + parity_shards (fb_data_shards b) (fb_fec_percentage b) mp \<le> 255)) \<and>
    (0 < percentage \<and> 0 < critical \<and> min critical shards + parity_shards (min critical shards) percentage mp \<le> 255 \<longrightarrow>
       bs \<noteq> [] \<and> min critical shards \<le> fb_data_shards (hd bs) \<and> fb_fec_percentage (hd bs) = percentage \<and>
       sum_list (map (\<lambda>b. parity_shards (fb_data_shards b) (fb_fec_percentage b) mp) bs) \<le>
         parity_shards (min critical shards) percentage mp + extra)"
proof -
  note n = frame_shards[OF p b, folded s]
  have fin: "length bs \<le> MAX_FEC_BLOCKS \<Longrightarrow> data_total bs = shards \<Longrightarrow> reed_solomon_ok mp bs \<Longrightarrow> indexable bs \<Longrightarrow>
      length bs \<le> 4 \<and> sum_list (map fb_data_shards bs) = shards \<and> (\<forall>b \<in> set bs. fb_data_shards b \<le> 1023 \<and>
        (0 < fb_fec_percentage b \<longrightarrow> fb_data_shards b + parity_shards (fb_data_shards b) (fb_fec_percentage b) mp \<le> 255))" for bs
    by (auto simp: data_total_def reed_solomon_ok_def indexable_def fec_consts)
  show ?thesis
  proof (cases "0 < percentage \<and> 0 < critical \<and> min critical shards + parity_shards (min critical shards) percentage mp \<le> 255")
    case True
    then have "0 < min critical shards" "min critical shards + parity_shards (min critical shards) percentage mp \<le> MAX_REED_SOLOMON_SHARDS"
      using n(2) by (auto simp: MAX_REED_SOLOMON_SHARDS_def)
    from plan_protected[OF n(2) refl this(1) conjunct1[OF True] this(2), of detail extra] obtain bs where
      bs: "plan_fec_blocks shards critical percentage mp detail extra = Some bs"
      "plan_ok mp shards (min critical shards) extra percentage 3000 bs" by blast
    have "shards \<le> 3000" using n(1) True by simp
    with bs(2) fin[of bs] show ?thesis using bs(1) by (auto simp: plan_ok_def parity_total_def)
  next
    case False
    have "plan_fec_blocks shards critical percentage mp detail extra = split_blocks shards MAX_FEC_BLOCKS"
      using False n(2) by (auto simp: plan_fec_blocks_def Let_def MAX_REED_SOLOMON_SHARDS_def)
    moreover obtain bs where bs: "split_blocks shards MAX_FEC_BLOCKS = Some bs" "length bs \<le> MAX_FEC_BLOCKS" "data_total bs = shards"
      "reed_solomon_ok mp bs" "indexable bs"
      using split_blocks_ok[OF n(2), of 4 mp] n(1) by (auto simp: fec_consts split: if_splits)
    ultimately have "plan_fec_blocks shards critical percentage mp detail extra = Some bs" by simp
    with fin[OF bs(2-5)] show ?thesis
      by (intro exI[of _ bs] conjI[OF \<open>plan_fec_blocks shards critical percentage mp detail extra = Some bs\<close>]) (elim conjE, simp only: False simp_thms)
  qed
qed

theorem fec_plan_sound_witness:
  "\<exists>bs. plan_fec_blocks 2 1 20 2 10 4 = Some bs \<and> sum_list (map fb_data_shards bs) = 2 \<and> fb_fec_percentage (hd bs) = 20"
proof -
  have "min 1 2 + parity_shards (min 1 2) 20 2 \<le> 255" by (simp add: parity_shards_def)
  moreover have "2000 \<le> max_frame_bytes 1040 (0 < (20 :: int))" by (simp add: max_frame_bytes_def frame_consts)
  ultimately show ?thesis using fec_plan_sound[of 1040 2000 20 2 1 2 10 4] by auto
qed

section \<open>The wire budget\<close>

lemma fold_max_ge:
  fixes g :: "nat \<Rightarrow> nat"
  shows "r \<le> fold (\<lambda>x r. if P x then max r (g x) else r) xs r"
    "x \<in> set xs \<Longrightarrow> P x \<Longrightarrow> g x \<le> fold (\<lambda>x r. if P x then max r (g x) else r) xs r"
proof (induction xs arbitrary: r)
  case (Cons y ys)
  { case 1 show ?case using Cons(1)[of "max r (g y)"] Cons(1)[of r] by (auto intro: order_trans) }
  { case 2
    show ?case
    proof (cases "x = y")
      case True
      then show ?thesis using 2(2) Cons(1)[of "max r (g y)"] by (auto intro: order_trans)
    next
      case False
      then show ?thesis using 2 Cons(2) by auto
    qed }
qed simp_all

lemma max_critical_parity_covers:
  assumes "0 < tr_critical_fec_percentage t" "0 < c" "c \<le> packets" "c + critical_parity t c \<le> 255"
  shows "critical_parity t c \<le> max_critical_parity t packets"
proof -
  have "c \<in> set [1..<min packets 255 + 1]" using assms(2-4) by auto
  from fold_max_ge(2)[OF this, of "\<lambda>c. c + critical_parity t c \<le> 255" "critical_parity t" 0] assms(1,4) show ?thesis
    by (simp add: max_critical_parity_def)
qed

lemma image_bytes_pos:
  assumes t: "image_bytes wire t \<noteq> 0"
  defines "ps \<equiv> nat (tr_packetsize t) + wire_overhead" and "payload \<equiv> nat (tr_packetsize t - 16)"
  defines "packets \<equiv> wire div ps"
  shows "16 < tr_packetsize t" "max_critical_parity t packets < packets"
    "image_bytes wire t + frame_header + tr_envelope_bytes t \<le> (packets - max_critical_parity t packets) * payload"
proof -
  define m where "m = max_critical_parity t packets"
  define headers where "headers = frame_header + tr_envelope_bytes t"
  have eq: "image_bytes wire t = (if tr_packetsize t \<le> 16 then 0 else if packets \<le> m then 0
      else if (packets - m) * payload > headers then ((packets - m) * payload - headers) - ((packets - m) * payload - headers) mod 4 else 0)"
    by (simp add: image_bytes_def Let_def ps_def packets_def payload_def m_def headers_def)
  have c: "\<not> tr_packetsize t \<le> 16" "\<not> packets \<le> m" "(packets - m) * payload > headers" using t unfolding eq by (auto split: if_splits)
  then show "16 < tr_packetsize t" "max_critical_parity t packets < packets" by (simp_all add: m_def)
  have "image_bytes wire t \<le> (packets - m) * payload - headers" unfolding eq using c by simp
  then show "image_bytes wire t + frame_header + tr_envelope_bytes t \<le> (packets - max_critical_parity t packets) * payload"
    using c(3) by (simp add: headers_def m_def)
qed

lemma plan_baseline_parity:
  assumes "plan_fec_blocks shards critical p mp 0 0 = Some bs" "0 < shards"
  shows "data_total bs = shards" "parity_total mp bs = 0 \<or> (\<exists>c. 0 < p \<and> 0 < c \<and> c \<le> shards \<and>
    c + parity_shards c p mp \<le> MAX_REED_SOLOMON_SHARDS \<and> parity_total mp bs \<le> parity_shards c p mp)"
proof -
  let ?c = "min critical shards"
  have "data_total bs = shards \<and> (parity_total mp bs = 0 \<or> (\<exists>c. 0 < p \<and> 0 < c \<and> c \<le> shards \<and>
    c + parity_shards c p mp \<le> MAX_REED_SOLOMON_SHARDS \<and> parity_total mp bs \<le> parity_shards c p mp))"
  proof (cases "?c \<noteq> 0 \<and> p > 0 \<and> ?c + parity_shards ?c p mp \<le> MAX_REED_SOLOMON_SHARDS")
    case True
    then have c: "0 < ?c" "0 < p" "?c + parity_shards ?c p mp \<le> MAX_REED_SOLOMON_SHARDS" by auto
    from plan_protected[OF assms(2) refl c, of 0 0] assms(1) have ok: "plan_ok mp shards ?c 0 p 3000 bs" by auto
    have "?c \<le> shards" by simp
    with c ok show ?thesis unfolding plan_ok_def by (metis add_0_right)
  next
    case False
    have "plan_fec_blocks shards critical p mp 0 0 = split_blocks shards MAX_FEC_BLOCKS"
      using False assms(2) unfolding plan_fec_blocks_def Let_def by (simp only: if_not_P[OF False] simp_thms) simp
    moreover obtain cs where "split_blocks shards MAX_FEC_BLOCKS = Some cs" "data_total cs = shards" "parity_total mp cs = 0"
      using split_blocks_ok[OF assms(2), of 4 mp] by (auto simp: MAX_FEC_BLOCKS_def)
    ultimately show ?thesis using assms(1) by simp
  qed
  then show "data_total bs = shards" "parity_total mp bs = 0 \<or> (\<exists>c. 0 < p \<and> 0 < c \<and> c \<le> shards \<and>
    c + parity_shards c p mp \<le> MAX_REED_SOLOMON_SHARDS \<and> parity_total mp bs \<le> parity_shards c p mp)" by blast+
qed

text \<open> The byte budget given to the encoder pays for the whole frame on the wire: a frame whose image data
  is within \<^verbatim>\<open>frame_payload_budget\<close> of a wire allowance, split and protected by the baseline plan,
  needs no more than that allowance, packet headers and parity included, whatever its critical prefix.
\<close>

theorem budget_covers_plan:
  assumes img: "frame_payload_budget wire t \<noteq> 0" "img \<le> frame_payload_budget wire t"
    and s: "shards = (img + frame_header + tr_envelope_bytes t + nat (tr_packetsize t - 16) - 1) div nat (tr_packetsize t - 16)"
    and plan: "plan_fec_blocks shards critical (tr_critical_fec_percentage t) (tr_min_parity_shards t) 0 0 = Some bs"
  shows "sum_list (map (\<lambda>b. fb_data_shards b + parity_shards (fb_data_shards b) (fb_fec_percentage b) (tr_min_parity_shards t)) bs) *
    (nat (tr_packetsize t) + wire_overhead) \<le> wire"
proof -
  define ps payload where "ps = nat (tr_packetsize t) + wire_overhead" and "payload = nat (tr_packetsize t - 16)"
  define packets where "packets = wire div ps"
  let ?m = "max_critical_parity t packets" and ?mp = "tr_min_parity_shards t" and ?p = "tr_critical_fec_percentage t"
  have im: "image_bytes wire t \<noteq> 0" "img \<le> image_bytes wire t" using img by (simp_all add: frame_payload_budget_def)
  note pos = image_bytes_pos[OF im(1), folded ps_def payload_def, folded packets_def]
  have w: "0 < payload" using pos(1) by (simp add: payload_def)
  have "img + frame_header + tr_envelope_bytes t + payload - 1 < (packets - ?m) * payload + payload" using pos(3) im(2) w by linarith
  then have "shards < packets - ?m + 1" unfolding s payload_def[symmetric] using w by (simp add: div_less_iff_less_mult algebra_simps)
  then have sh: "shards + ?m \<le> packets" using pos(2) by linarith
  have "1 \<le> shards" unfolding s payload_def[symmetric] using w by (simp add: frame_header_def div_greater_zero_iff Suc_le_eq)
  then have s0: "0 < shards" by simp
  note pl = plan_baseline_parity[OF plan s0]
  have "parity_total ?mp bs \<le> ?m"
  proof (cases "parity_total ?mp bs = 0")
    case False
    with pl(2) obtain c where c: "0 < ?p" "0 < c" "c \<le> shards" "c + parity_shards c ?p ?mp \<le> 255" "parity_total ?mp bs \<le> parity_shards c ?p ?mp"
      by (auto simp: MAX_REED_SOLOMON_SHARDS_def)
    have "parity_shards c ?p ?mp = critical_parity t c" using c(1) by (simp add: parity_shards_def critical_parity_def)
    with max_critical_parity_covers[of t c packets] c sh show ?thesis by simp
  qed simp
  then have "data_total bs + parity_total ?mp bs \<le> packets" using pl(1) sh by simp
  then have "(data_total bs + parity_total ?mp bs) * ps \<le> packets * ps" by (rule mult_le_mono1)
  also have "\<dots> \<le> wire" by (simp add: packets_def)
  finally show ?thesis unfolding ps_def[symmetric] by (simp add: data_total_def parity_total_def sum_list_addf)
qed

theorem budget_covers_plan_witness:
  "\<exists>bs. plan_fec_blocks 2 1 0 2 0 0 = Some bs \<and>
     sum_list (map (\<lambda>b. fb_data_shards b + parity_shards (fb_data_shards b) (fb_fec_percentage b) 2) bs) * (1016 + wire_overhead) \<le> 5000"
proof -
  define t where "t = \<lparr>tr_packetsize = 1016, tr_critical_fec_percentage = 0, tr_min_parity_shards = 2, tr_envelope_bytes = 0\<rparr>"
  have b: "frame_payload_budget 5000 t = 3992"
    by (simp add: frame_payload_budget_def image_bytes_def t_def wire_overhead_def frame_header_def max_critical_parity_def Let_def)
  have n: "\<not> ((2 :: nat) = 0)" by simp
  have "plan_fec_blocks 2 1 0 2 0 0 = split_blocks 2 MAX_FEC_BLOCKS"
    unfolding plan_fec_blocks_def if_not_P[OF n] Let_def by simp
  moreover obtain bs where "split_blocks 2 MAX_FEC_BLOCKS = Some bs" using split_blocks_ok[of 2 4 2] by (auto simp: MAX_FEC_BLOCKS_def)
  ultimately have bs: "plan_fec_blocks 2 1 0 2 0 0 = Some bs" by simp
  have "sum_list (map (\<lambda>b. fb_data_shards b + parity_shards (fb_data_shards b) (fb_fec_percentage b) (tr_min_parity_shards t)) bs) *
    (nat (tr_packetsize t) + wire_overhead) \<le> 5000"
  proof (rule budget_covers_plan[where critical = 1])
    show "frame_payload_budget 5000 t \<noteq> 0" "1500 \<le> frame_payload_budget 5000 t" using b by simp_all
    show "2 = (1500 + frame_header + tr_envelope_bytes t + nat (tr_packetsize t - 16) - 1) div nat (tr_packetsize t - 16)"
      by (simp add: t_def frame_header_def)
    show "plan_fec_blocks 2 1 (tr_critical_fec_percentage t) (tr_min_parity_shards t) 0 0 = Some bs" using bs by (simp add: t_def)
  qed
  with bs show ?thesis by (intro exI[of _ bs]) (simp add: t_def)
qed

end
