(* ===== verification/Auth_State.thy ===== *)
theory Auth_State
  imports Text_Codec
begin

text \<open>
  What the token managers of the configuration API share: the text functions of the standard library and
  Boost they use, on the characters of the C locale, and the state file that both write
  (\<^verbatim>\<open>root.session_tokens\<close> and \<^verbatim>\<open>root.api_tokens\<close> of the auxiliary state file). A
  node of the property tree is a record whose fields are options: \<open>None\<close> is a key that is missing or
  does not parse, for which \<^verbatim>\<open>get\<close> returns its default. The rest of the file is opaque text.
  A write may fail before or after the file was replaced, since the write verifies the file and refreshes
  a backup after replacing it (\<^verbatim>\<open>state_storage_policy.cpp\<close>).
\<close>

section \<open>Text\<close>

definition toupper :: "char \<Rightarrow> char" where
  "toupper c = (let n = of_char c :: nat in if 97 \<le> n \<and> n \<le> 122 then char_of (n - 32) else c)"

definition to_lower :: "string \<Rightarrow> string" where
  "to_lower s = map tolower s"

definition to_upper :: "string \<Rightarrow> string" where
  "to_upper s = map toupper s"

definition iequals :: "string \<Rightarrow> string \<Rightarrow> bool" where
  "iequals s t \<longleftrightarrow> to_upper s = to_upper t"

definition starts_with :: "string \<Rightarrow> string \<Rightarrow> bool" where
  "starts_with s p \<longleftrightarrow> take (length p) s = p"

text \<open>\<^verbatim>\<open>std::string::find\<close>: the first position at which a text occurs.\<close>

fun find_text :: "string \<Rightarrow> string \<Rightarrow> nat option" where
  "find_text s p = (if starts_with s p then Some 0
     else case s of [] \<Rightarrow> None | _ # t \<Rightarrow> map_option Suc (find_text t p))"

declare find_text.simps [simp del]

definition text_contains :: "string \<Rightarrow> string \<Rightarrow> bool" where
  "text_contains s p \<longleftrightarrow> find_text s p \<noteq> None"

definition icontains :: "string \<Rightarrow> string \<Rightarrow> bool" where
  "icontains s p \<longleftrightarrow> text_contains (to_upper s) (to_upper p)"

lemma find_text_SomeD: "find_text s p = Some i \<Longrightarrow> \<exists>t. drop i s = p @ t"
proof (induction s arbitrary: i)
  case Nil
  then show ?case by (simp add: find_text.simps starts_with_def split: if_splits)
next
  case (Cons c s)
  show ?case
  proof (cases "starts_with (c # s) p")
    case True
    with Cons.prems have "i = 0" by (simp add: find_text.simps[of "c # s"])
    with True show ?thesis unfolding starts_with_def by (metis append_take_drop_id drop0)
  next
    case False
    then obtain j where j: "find_text s p = Some j" "i = Suc j"
      using Cons.prems by (auto simp: find_text.simps[of "c # s"])
    with Cons.IH[OF j(1)] show ?thesis by simp
  qed
qed

lemma text_contains_iff: "text_contains s p \<longleftrightarrow> (\<exists>u v. s = u @ p @ v)"
proof
  assume "text_contains s p"
  then obtain i where "find_text s p = Some i" unfolding text_contains_def by auto
  then obtain t where "drop i s = p @ t" using find_text_SomeD by blast
  then show "\<exists>u v. s = u @ p @ v" by (metis append_take_drop_id)
next
  assume "\<exists>u v. s = u @ p @ v"
  then obtain u v where "s = u @ p @ v" by blast
  then show "text_contains s p" unfolding text_contains_def
  proof (induction u arbitrary: s)
    case Nil
    then show ?case by (simp add: find_text.simps[of "p @ v"] starts_with_def)
  next
    case (Cons c u)
    then have "find_text (u @ p @ v) p \<noteq> None" by blast
    with Cons.prems show ?case by (simp add: find_text.simps[of "c # u @ p @ v"])
  qed
qed

lemma starts_with_iff: "starts_with s p \<longleftrightarrow> (\<exists>t. s = p @ t)"
  unfolding starts_with_def by (metis append_eq_conv_conj append_take_drop_id)

section \<open>The state file\<close>

record session_node =
  sn_hash :: "string option"
  sn_username :: "string option"
  sn_created_at :: "int option"
  sn_expires_at :: "int option"
  sn_refresh_expires_at :: "int option"
  sn_last_seen :: "int option"
  sn_remember_me :: "bool option"
  sn_refresh_token_hash :: "string option"
  sn_rotation_id :: "string option"
  sn_user_agent :: "string option"
  sn_remote_address :: "string option"
  sn_device_label :: "string option"

record scope_node =
  cn_path :: "string option"
  cn_methods :: "string list option"

record api_node =
  an_hash :: "string option"
  an_username :: "string option"
  an_created_at :: "int option"
  an_scopes :: "scope_node list option"

record state_root =
  rt_session_tokens :: "session_node list option"
  rt_api_tokens :: "api_node list option"
  rt_other :: string

definition empty_root :: state_root where
  "empty_root = \<lparr>rt_session_tokens = None, rt_api_tokens = None, rt_other = ''''\<rparr>"

datatype write_outcome = Write_ok | Write_throws_before | Write_throws_after

record io_outcome =
  io_readable :: bool
  io_write :: write_outcome

text \<open>\<^verbatim>\<open>read_json\<close> on an existing file, into an empty tree: the tree, or an exception.\<close>

definition read_root :: "io_outcome \<Rightarrow> state_root option \<Rightarrow> state_root option" where
  "read_root io file = (case file of None \<Rightarrow> Some empty_root | Some r \<Rightarrow> if io_readable io then Some r else None)"

text \<open>\<^verbatim>\<open>write_json\<close>: whether it throws, and the file afterwards.\<close>

definition write_root :: "io_outcome \<Rightarrow> state_root \<Rightarrow> state_root option \<Rightarrow> bool \<times> state_root option" where
  "write_root io r file = (case io_write io of
     Write_ok \<Rightarrow> (False, Some r) | Write_throws_before \<Rightarrow> (True, file) | Write_throws_after \<Rightarrow> (True, Some r))"

text \<open>\<^verbatim>\<open>get\<close> with a default.\<close>

definition get_or :: "'a option \<Rightarrow> 'a \<Rightarrow> 'a" where
  "get_or v d = (case v of None \<Rightarrow> d | Some x \<Rightarrow> x)"

lemma get_or_simps [simp]: "get_or None d = d" "get_or (Some x) d = x"
  by (simp_all add: get_or_def)

text \<open>\<^verbatim>\<open>duration_cast\<close> to seconds truncates towards zero.\<close>

definition to_seconds :: "int \<Rightarrow> int \<Rightarrow> int" where
  "to_seconds ticks t = t sdiv ticks"

lemma to_seconds_nonneg: "0 \<le> t \<Longrightarrow> 0 < ticks \<Longrightarrow> to_seconds ticks t = t div ticks"
  by (cases "t = 0") (auto simp: to_seconds_def signed_divide_int_def sgn_if)

lemma to_seconds_le: "0 \<le> t \<Longrightarrow> 0 < ticks \<Longrightarrow> to_seconds ticks t * ticks \<le> t"
  by (metis add_le_cancel_left div_mult_mod_eq le_add_same_cancel1 pos_mod_sign to_seconds_nonneg)

lemma to_seconds_whole: "0 \<le> t \<Longrightarrow> 0 < ticks \<Longrightarrow> to_seconds ticks (t * ticks) * ticks = t * ticks"
  by (simp add: to_seconds_nonneg)

text \<open>\<^verbatim>\<open>emplace\<close> keeps the value of a key that exists.\<close>

definition umap_emplace :: "'k \<Rightarrow> 'v \<Rightarrow> ('k, 'v) umap \<Rightarrow> ('k, 'v) umap" where
  "umap_emplace k v m = (if map_of m k = None then AList.update k v m else m)"

lemma umap_ok_emplace [simp]: "umap_ok m \<Longrightarrow> umap_ok (umap_emplace k v m)"
  by (simp add: umap_emplace_def)

lemma map_of_emplace [simp]:
  "map_of (umap_emplace k v m) = (if map_of m k = None then (map_of m)(k \<mapsto> v) else map_of m)"
  by (simp add: umap_emplace_def)

end
