(* ===== verification/Session_Tokens.thy ===== *)
theory Session_Tokens
  imports Auth_State
begin

text \<open>
  The browser sessions of the configuration API: \<^verbatim>\<open>SessionTokenManager\<close> of
  \<^verbatim>\<open>http_auth.cpp\<close>. Its state is the table of sessions by the hash of the session token, the
  index from the hash of the refresh token, and the flag that says a write is due. The injected
  dependencies are parameters: the hash is a function, and clock readings and random tokens are arguments
  of the operation that draws them. Every method is a sequence of sections under the mutex, followed by
  the save, which takes a snapshot under the mutex, writes the file under the lock of the state file and
  finishes under the mutex again; the sections are the atomic steps of \<open>session_step\<close>, in which
  threads interleave.
\<close>

section \<open>Labels\<close>

definition detect_os :: "string \<Rightarrow> string" where
  "detect_os ua_lower =
     (if icontains ua_lower ''windows nt 10'' then ''Windows 10/11''
      else if icontains ua_lower ''windows nt 6.3'' then ''Windows 8.1''
      else if icontains ua_lower ''windows nt 6.2'' then ''Windows 8''
      else if icontains ua_lower ''windows nt 6.1'' then ''Windows 7''
      else if icontains ua_lower ''mac os x'' then ''macOS''
      else if icontains ua_lower ''iphone'' \<or> icontains ua_lower ''ipad'' then ''iOS''
      else if icontains ua_lower ''android'' then ''Android''
      else if icontains ua_lower ''linux'' then ''Linux''
      else '''')"

definition detect_browser :: "string \<Rightarrow> string" where
  "detect_browser ua_lower =
     (if icontains ua_lower ''edg/'' then ''Microsoft Edge''
      else if icontains ua_lower ''opr/'' then ''Opera''
      else if icontains ua_lower ''chrome/'' \<and> \<not> icontains ua_lower ''edg/'' \<and> \<not> icontains ua_lower ''opr/'' then ''Google Chrome''
      else if icontains ua_lower ''firefox'' then ''Mozilla Firefox''
      else if icontains ua_lower ''safari'' \<and> \<not> icontains ua_lower ''chrome'' then ''Safari''
      else if icontains ua_lower ''brave'' then ''Brave''
      else '''')"

definition truncate_label :: "string \<Rightarrow> string" where
  "truncate_label v = (if length v \<le> 80 then v else take 79 v @ [CHR 0xE2, CHR 0x80, CHR 0xA6])"

definition derive_device_label :: "string \<Rightarrow> string \<Rightarrow> string" where
  "derive_device_label user_agent remote_address =
     (if user_agent = [] then (if remote_address \<noteq> [] then remote_address else ''Unknown device'')
      else let ua_lower = to_lower user_agent; os = detect_os ua_lower; browser = detect_browser ua_lower;
               label = (if browser \<noteq> [] \<and> os \<noteq> [] then browser @ '' on '' @ os
                        else if browser \<noteq> [] then browser else if os \<noteq> [] then os else [])
           in if label = [] then truncate_label user_agent else label)"

section \<open>State\<close>

record session_token =
  tk_username :: string
  tk_created_at :: time_point
  tk_expires_at :: time_point
  tk_refresh_expires_at :: time_point
  tk_user_agent :: string
  tk_remote_address :: string
  tk_last_seen :: time_point
  tk_remember_me :: bool
  tk_device_label :: string
  tk_refresh_token_hash :: string
  tk_rotation_id :: string

record session_bundle =
  sb_session_token :: string
  sb_refresh_token :: string
  sb_session_ttl :: int
  sb_refresh_ttl :: int
  sb_remember_me :: bool

record session_manager =
  sm_session_tokens :: "(string, session_token) umap"
  sm_refresh_index :: "(string, string) umap"
  sm_dirty :: bool
  sm_last_persist :: time_point

text \<open>The hash dependency, the clock's ticks per second, and the configured lifetimes in seconds.\<close>

record session_env =
  se_hash :: "string \<Rightarrow> string"
  se_ticks :: int
  se_session_token_ttl :: int
  se_remember_me_ttl :: int

definition default_remember_me_token_ttl :: int where "default_remember_me_token_ttl = 24 * 7 * 3600"
definition default_refresh_token_ttl :: int where "default_refresh_token_ttl = 24 * 3600"

definition remember_me_token_ttl :: "session_env \<Rightarrow> int" where
  "remember_me_token_ttl e = (if se_remember_me_ttl e \<le> 0 then default_remember_me_token_ttl else se_remember_me_ttl e)"

section \<open>Sections under the mutex\<close>

text \<open>The lifetimes \<^verbatim>\<open>issue_session_tokens\<close> settles on, in seconds.\<close>

definition issue_ttls :: "session_env \<Rightarrow> int \<Rightarrow> int \<Rightarrow> bool \<Rightarrow> int \<times> int" where
  "issue_ttls e session_ttl refresh_ttl remember_me =
     (let session_ttl = (if session_ttl \<le> 0 then se_session_token_ttl e else session_ttl);
          refresh_ttl = (if refresh_ttl \<le> 0 then (if remember_me then remember_me_token_ttl e else default_refresh_token_ttl) else refresh_ttl)
      in (session_ttl, if refresh_ttl < session_ttl then session_ttl else refresh_ttl))"

text \<open>What a login or a refresh draws at random: the two tokens and the rotation id.\<close>

type_synonym drawn = "string \<times> string \<times> string"

definition issue_insert ::
  "session_env \<Rightarrow> string \<Rightarrow> int \<Rightarrow> int \<Rightarrow> string \<Rightarrow> string \<Rightarrow> bool \<Rightarrow> time_point \<Rightarrow> drawn \<Rightarrow> session_manager
    \<Rightarrow> session_bundle \<times> session_manager" where
  "issue_insert e username session_ttl refresh_ttl user_agent remote_address remember_me now drawn m =
     (let (session_ttl, refresh_ttl) = issue_ttls e session_ttl refresh_ttl remember_me;
          (session_token, refresh_token, rotation_id) = drawn;
          refresh_expires_at = now + refresh_ttl * se_ticks e;
          session_expires_at = min (now + session_ttl * se_ticks e) refresh_expires_at;
          session_hash = se_hash e session_token;
          refresh_hash = se_hash e refresh_token;
          token = \<lparr>tk_username = username, tk_created_at = now, tk_expires_at = session_expires_at,
            tk_refresh_expires_at = refresh_expires_at, tk_user_agent = user_agent, tk_remote_address = remote_address,
            tk_last_seen = now, tk_remember_me = remember_me,
            tk_device_label = derive_device_label user_agent remote_address,
            tk_refresh_token_hash = refresh_hash, tk_rotation_id = rotation_id\<rparr>
      in (\<lparr>sb_session_token = session_token, sb_refresh_token = refresh_token,
            sb_session_ttl = to_seconds (se_ticks e) (session_expires_at - now),
            sb_refresh_ttl = to_seconds (se_ticks e) (refresh_expires_at - now), sb_remember_me = remember_me\<rparr>,
          m\<lparr>sm_session_tokens := umap_emplace session_hash token (AList.delete session_hash (sm_session_tokens m)),
            sm_refresh_index := AList.update refresh_hash session_hash (sm_refresh_index m), sm_dirty := True\<rparr>))"

text \<open>Erase the index entry of a session, unless it has no refresh token.\<close>

definition erase_refresh :: "session_token \<Rightarrow> (string, string) umap \<Rightarrow> (string, string) umap" where
  "erase_refresh t index = (if tk_refresh_token_hash t \<noteq> [] then AList.delete (tk_refresh_token_hash t) index else index)"

text \<open>Erase a session that was found, with its index entry.\<close>

definition erase_session :: "string \<Rightarrow> session_token \<Rightarrow> session_manager \<Rightarrow> session_manager" where
  "erase_session h t m = m\<lparr>sm_session_tokens := AList.delete h (sm_session_tokens m),
     sm_refresh_index := erase_refresh t (sm_refresh_index m), sm_dirty := True\<rparr>"

definition cleanup_expired_session_tokens :: "time_point \<Rightarrow> session_manager \<Rightarrow> bool \<times> session_manager" where
  "cleanup_expired_session_tokens now m =
     (let expired = filter (\<lambda>p. now > tk_refresh_expires_at (snd p)) (sm_session_tokens m);
          m' = m\<lparr>sm_session_tokens := filter (\<lambda>p. \<not> now > tk_refresh_expires_at (snd p)) (sm_session_tokens m),
                 sm_refresh_index := fold (\<lambda>p. erase_refresh (snd p)) expired (sm_refresh_index m)\<rparr>
      in if expired \<noteq> [] then (True, m'\<lparr>sm_dirty := True\<rparr>) else (False, m'))"

text \<open>The section of \<^verbatim>\<open>refresh_session_tokens\<close>: the new tokens, whether a save is due, the state.\<close>

definition refresh_locked ::
  "session_env \<Rightarrow> string \<Rightarrow> string \<Rightarrow> string \<Rightarrow> time_point \<Rightarrow> drawn \<Rightarrow> session_manager
    \<Rightarrow> session_bundle option \<times> bool \<times> session_manager" where
  "refresh_locked e refresh_token user_agent remote_address now drawn m =
     (let refresh_hash = se_hash e refresh_token in
      case map_of (sm_refresh_index m) refresh_hash of
        None \<Rightarrow> (None, False, m)
      | Some sh \<Rightarrow>
        let index' = AList.delete refresh_hash (sm_refresh_index m) in
        (case map_of (sm_session_tokens m) sh of
           None \<Rightarrow> (None, True, m\<lparr>sm_refresh_index := index', sm_dirty := True\<rparr>)
         | Some entry \<Rightarrow>
           let tokens' = AList.delete sh (sm_session_tokens m) in
           if now > tk_refresh_expires_at entry
           then (None, True, m\<lparr>sm_session_tokens := tokens', sm_refresh_index := index', sm_dirty := True\<rparr>)
           else let (new_session_token, new_refresh_token, rotation_id) = drawn;
                    refresh_expires_at = tk_refresh_expires_at entry;
                    session_expires_at = min (now + se_session_token_ttl e * se_ticks e) refresh_expires_at;
                    new_session_hash = se_hash e new_session_token;
                    new_refresh_hash = se_hash e new_refresh_token;
                    updated = \<lparr>tk_username = tk_username entry, tk_created_at = now, tk_expires_at = session_expires_at,
                      tk_refresh_expires_at = refresh_expires_at, tk_user_agent = user_agent, tk_remote_address = remote_address,
                      tk_last_seen = now, tk_remember_me = tk_remember_me entry,
                      tk_device_label = derive_device_label user_agent remote_address,
                      tk_refresh_token_hash = new_refresh_hash, tk_rotation_id = rotation_id\<rparr>
                in (Some \<lparr>sb_session_token = new_session_token, sb_refresh_token = new_refresh_token,
                      sb_session_ttl = to_seconds (se_ticks e) (session_expires_at - now),
                      sb_refresh_ttl = to_seconds (se_ticks e) (refresh_expires_at - now),
                      sb_remember_me = tk_remember_me entry\<rparr>, True,
                    m\<lparr>sm_session_tokens := umap_emplace new_session_hash updated tokens',
                      sm_refresh_index := AList.update new_refresh_hash new_session_hash index', sm_dirty := True\<rparr>)))"

text \<open>The section that \<^verbatim>\<open>validate_session_token\<close> and \<^verbatim>\<open>get_username_for_token\<close> both have:
  the session if it may be used, whether a save follows, the state. A session past its refresh lifetime is
  erased, and the early return skips the save.\<close>

definition use_session :: "session_env \<Rightarrow> string \<Rightarrow> time_point \<Rightarrow> session_manager \<Rightarrow> session_token option \<times> bool \<times> session_manager" where
  "use_session e token now m =
     (let token_hash = se_hash e token in
      case map_of (sm_session_tokens m) token_hash of
        None \<Rightarrow> (None, False, m)
      | Some t \<Rightarrow>
        if now > tk_refresh_expires_at t then (None, False, erase_session token_hash t m)
        else if now > tk_expires_at t then (None, False, m)
        else if now - tk_last_seen t \<ge> 5 * 60 * se_ticks e
        then (Some t, True, m\<lparr>sm_session_tokens := AList.update token_hash (t\<lparr>tk_last_seen := now\<rparr>) (sm_session_tokens m), sm_dirty := True\<rparr>)
        else (Some t, False, m))"

definition revoke_locked :: "string \<Rightarrow> session_manager \<Rightarrow> bool \<times> session_manager" where
  "revoke_locked token_hash m =
     (case map_of (sm_session_tokens m) token_hash of
        None \<Rightarrow> (False, m)
      | Some t \<Rightarrow> (True, erase_session token_hash t m))"

section \<open>Saving and loading\<close>

definition session_to_node :: "session_env \<Rightarrow> string \<times> session_token \<Rightarrow> session_node" where
  "session_to_node e p =
     (let t = snd p; secs = to_seconds (se_ticks e); some = (\<lambda>s. if s \<noteq> [] then Some s else None) in
      \<lparr>sn_hash = Some (fst p), sn_username = Some (tk_username t), sn_created_at = Some (secs (tk_created_at t)),
       sn_expires_at = Some (secs (tk_expires_at t)), sn_refresh_expires_at = Some (secs (tk_refresh_expires_at t)),
       sn_last_seen = Some (secs (tk_last_seen t)), sn_remember_me = Some (tk_remember_me t),
       sn_refresh_token_hash = some (tk_refresh_token_hash t), sn_rotation_id = some (tk_rotation_id t),
       sn_user_agent = some (tk_user_agent t), sn_remote_address = some (tk_remote_address t),
       sn_device_label = some (tk_device_label t)\<rparr>)"

text \<open>The three sections of \<^verbatim>\<open>save_session_tokens\<close>: the snapshot, the write of the file, the end.\<close>

definition save_begin :: "session_manager \<Rightarrow> (string, session_token) umap option \<times> session_manager" where
  "save_begin m = (if \<not> sm_dirty m then (None, m) else (Some (sm_session_tokens m), m\<lparr>sm_dirty := False\<rparr>))"

definition save_write ::
  "session_env \<Rightarrow> io_outcome \<Rightarrow> (string, session_token) umap \<Rightarrow> state_root option \<Rightarrow> bool \<times> state_root option" where
  "save_write e io snapshot file =
     (case read_root io file of
        None \<Rightarrow> (True, file)
      | Some root \<Rightarrow> write_root io (root\<lparr>rt_session_tokens := Some (map (session_to_node e) snapshot)\<rparr>) file)"

definition save_end :: "time_point \<Rightarrow> bool \<Rightarrow> session_manager \<Rightarrow> session_manager" where
  "save_end now write_failed m =
     (if write_failed then m\<lparr>sm_dirty := True\<rparr>
      else if \<not> sm_dirty m then m\<lparr>sm_last_persist := now\<rparr> else m)"

record session_world =
  sw_mgr :: session_manager
  sw_file :: "state_root option"

definition save_session_tokens :: "session_env \<Rightarrow> io_outcome \<Rightarrow> time_point \<Rightarrow> session_world \<Rightarrow> session_world" where
  "save_session_tokens e io now w =
     (case save_begin (sw_mgr w) of
        (None, m) \<Rightarrow> w\<lparr>sw_mgr := m\<rparr>
      | (Some snapshot, m) \<Rightarrow>
          (let (failed, file) = save_write e io snapshot (sw_file w)
           in \<lparr>sw_mgr = save_end now failed m, sw_file = file\<rparr>))"

definition load_token :: "session_env \<Rightarrow> session_node \<Rightarrow> session_token \<times> bool" where
  "load_token e node =
     (let created_secs = get_or (sn_created_at node) 0;
          expires_secs = get_or (sn_expires_at node) 0;
          refresh_expires_secs = get_or (sn_refresh_expires_at node) expires_secs;
          last_seen_secs = get_or (sn_last_seen node) created_secs;
          user_agent = get_or (sn_user_agent node) [];
          remote_address = get_or (sn_remote_address node) [];
          label = get_or (sn_device_label node) [];
          refresh_token_hash = get_or (sn_refresh_token_hash node) [];
          expires_at = expires_secs * se_ticks e;
          refresh_expires_at = (if refresh_token_hash = [] then expires_at else refresh_expires_secs * se_ticks e)
      in (\<lparr>tk_username = get_or (sn_username node) [], tk_created_at = created_secs * se_ticks e,
           tk_expires_at = (if expires_at > refresh_expires_at then refresh_expires_at else expires_at),
           tk_refresh_expires_at = refresh_expires_at, tk_user_agent = user_agent, tk_remote_address = remote_address,
           tk_last_seen = last_seen_secs * se_ticks e, tk_remember_me = get_or (sn_remember_me node) False,
           tk_device_label = (if label = [] then derive_device_label user_agent remote_address else label),
           tk_refresh_token_hash = refresh_token_hash, tk_rotation_id = get_or (sn_rotation_id node) []\<rparr>,
          label = [] \<or> expires_at > refresh_expires_at))"

type_synonym load_state = "(string, session_token) umap \<times> (string, string) umap \<times> bool"

definition load_node :: "session_env \<Rightarrow> time_point \<Rightarrow> session_node \<Rightarrow> load_state \<Rightarrow> load_state" where
  "load_node e now node st =
     (let (tokens, index, needs_resave) = st; h = get_or (sn_hash node) [] in
      if h = [] then st
      else let (t, changed) = load_token e node; needs_resave = (needs_resave \<or> changed) in
        if now > tk_refresh_expires_at t then (tokens, index, needs_resave)
        else (umap_emplace h t tokens,
              if map_of tokens h = None \<and> tk_refresh_token_hash t \<noteq> [] then AList.update (tk_refresh_token_hash t) h index else index,
              needs_resave))"

definition load_nodes :: "session_env \<Rightarrow> time_point \<Rightarrow> session_node list \<Rightarrow> load_state" where
  "load_nodes e now nodes = fold (load_node e now) nodes ([], [], False)"

definition load_session_tokens :: "session_env \<Rightarrow> io_outcome \<Rightarrow> io_outcome \<Rightarrow> time_point \<Rightarrow> time_point \<Rightarrow> session_world \<Rightarrow> session_world" where
  "load_session_tokens e io io_save now now_save w =
     (let have_root = (sw_file w \<noteq> None \<and> io_readable io);
          nodes = (case sw_file w of None \<Rightarrow> [] | Some root \<Rightarrow> get_or (rt_session_tokens root) []);
          (tokens, index, needs_resave) = (if have_root then load_nodes e now nodes else ([], [], False));
          w' = w\<lparr>sw_mgr := \<lparr>sm_session_tokens = tokens, sm_refresh_index = index, sm_dirty = needs_resave, sm_last_persist = now\<rparr>\<rparr>
      in if needs_resave then save_session_tokens e io_save now_save w' else w')"

section \<open>The methods\<close>

text \<open>A method that runs alone: its sections in order. \<open>now\<close> is the first clock reading, \<open>now'\<close>
  the one of the cleanup or of the save.\<close>

definition issue_session_tokens ::
  "session_env \<Rightarrow> io_outcome \<Rightarrow> string \<Rightarrow> int \<Rightarrow> int \<Rightarrow> string \<Rightarrow> string \<Rightarrow> bool \<Rightarrow> time_point \<Rightarrow> time_point \<Rightarrow> time_point \<Rightarrow> drawn
    \<Rightarrow> session_world \<Rightarrow> session_bundle \<times> session_world" where
  "issue_session_tokens e io username session_ttl refresh_ttl user_agent remote_address remember_me now now_cleanup now_save drawn w =
     (let (bundle, m) = issue_insert e username session_ttl refresh_ttl user_agent remote_address remember_me now drawn (sw_mgr w);
          m = snd (cleanup_expired_session_tokens now_cleanup m)
      in (bundle, save_session_tokens e io now_save (w\<lparr>sw_mgr := m\<rparr>)))"

definition refresh_session_tokens ::
  "session_env \<Rightarrow> io_outcome \<Rightarrow> string \<Rightarrow> string \<Rightarrow> string \<Rightarrow> time_point \<Rightarrow> time_point \<Rightarrow> drawn \<Rightarrow> session_world
    \<Rightarrow> session_bundle option \<times> session_world" where
  "refresh_session_tokens e io refresh_token user_agent remote_address now now_save drawn w =
     (if refresh_token = [] then (None, w)
      else let (result, needs_persist, m) = refresh_locked e refresh_token user_agent remote_address now drawn (sw_mgr w);
               w' = w\<lparr>sw_mgr := m\<rparr>
           in (result, if needs_persist then save_session_tokens e io now_save w' else w'))"

definition validate_session_token :: "session_env \<Rightarrow> io_outcome \<Rightarrow> string \<Rightarrow> time_point \<Rightarrow> time_point \<Rightarrow> session_world \<Rightarrow> bool \<times> session_world" where
  "validate_session_token e io token now now_save w =
     (let (found, should_persist, m) = use_session e token now (sw_mgr w); w' = w\<lparr>sw_mgr := m\<rparr>
      in (found \<noteq> None, if should_persist then save_session_tokens e io now_save w' else w'))"

definition get_username_for_token :: "session_env \<Rightarrow> io_outcome \<Rightarrow> string \<Rightarrow> time_point \<Rightarrow> time_point \<Rightarrow> session_world \<Rightarrow> string option \<times> session_world" where
  "get_username_for_token e io token now now_save w =
     (let (found, should_persist, m) = use_session e token now (sw_mgr w); w' = w\<lparr>sw_mgr := m\<rparr>
      in (map_option tk_username found, if should_persist then save_session_tokens e io now_save w' else w'))"

definition revoke_session_by_hash :: "session_env \<Rightarrow> io_outcome \<Rightarrow> string \<Rightarrow> time_point \<Rightarrow> session_world \<Rightarrow> bool \<times> session_world" where
  "revoke_session_by_hash e io token_hash now_save w =
     (let (removed, m) = revoke_locked token_hash (sw_mgr w); w' = w\<lparr>sw_mgr := m\<rparr>
      in (removed, if removed then save_session_tokens e io now_save w' else w'))"

definition revoke_session_token :: "session_env \<Rightarrow> io_outcome \<Rightarrow> string \<Rightarrow> time_point \<Rightarrow> session_world \<Rightarrow> session_world" where
  "revoke_session_token e io token now_save w = snd (revoke_session_by_hash e io (se_hash e token) now_save w)"

definition revoke_refresh_token :: "session_env \<Rightarrow> io_outcome \<Rightarrow> string \<Rightarrow> time_point \<Rightarrow> session_world \<Rightarrow> bool \<times> session_world" where
  "revoke_refresh_token e io refresh_token now_save w =
     (if refresh_token = [] then (False, w)
      else case map_of (sm_refresh_index (sw_mgr w)) (se_hash e refresh_token) of
        None \<Rightarrow> (False, w)
      | Some session_hash \<Rightarrow> revoke_session_by_hash e io session_hash now_save w)"

definition get_hash_for_token :: "session_env \<Rightarrow> string \<Rightarrow> time_point \<Rightarrow> session_manager \<Rightarrow> string option" where
  "get_hash_for_token e token now m =
     (let token_hash = se_hash e token in
      case map_of (sm_session_tokens m) token_hash of
        None \<Rightarrow> None
      | Some t \<Rightarrow> if now > tk_refresh_expires_at t \<or> now > tk_expires_at t then None else Some token_hash)"

definition session_count :: "session_manager \<Rightarrow> nat" where
  "session_count m = length (sm_session_tokens m)"

record session_view =
  sv_hash :: string
  sv_username :: string
  sv_created_at :: time_point
  sv_expires_at :: time_point
  sv_refresh_expires_at :: time_point
  sv_last_seen :: time_point
  sv_remember_me :: bool
  sv_user_agent :: string
  sv_remote_address :: string
  sv_device_label :: string

definition list_sessions :: "string \<Rightarrow> time_point \<Rightarrow> session_manager \<Rightarrow> session_view list" where
  "list_sessions username_filter now m =
     map (\<lambda>(h, t). \<lparr>sv_hash = h, sv_username = tk_username t, sv_created_at = tk_created_at t,
            sv_expires_at = tk_expires_at t, sv_refresh_expires_at = tk_refresh_expires_at t, sv_last_seen = tk_last_seen t,
            sv_remember_me = tk_remember_me t, sv_user_agent = tk_user_agent t, sv_remote_address = tk_remote_address t,
            sv_device_label = tk_device_label t\<rparr>)
       (filter (\<lambda>(h, t). \<not> now > tk_refresh_expires_at t \<and> \<not> (username_filter \<noteq> [] \<and> \<not> iequals (tk_username t) username_filter))
         (sm_session_tokens m))"

section \<open>Concurrent execution\<close>

text \<open>Where a thread stands: between methods, before the cleanup of a login, before the snapshot of a
  save, before the write with its snapshot, or before the end of the save.\<close>

datatype session_pc = Idle | Cleaning | Saving | Writing "(string, session_token) umap" | Ending bool

text \<open>Two fields record the past: the hashes of all tokens ever drawn or loaded, and the user and absolute
  limit of every login and of every session found at startup.\<close>

record session_sys =
  ss_mgr :: session_manager
  ss_file :: "state_root option"
  ss_pc :: "nat \<Rightarrow> session_pc"
  ss_used :: "string set"
  ss_grants :: "(string \<times> time_point) set"

definition fresh_draw :: "session_env \<Rightarrow> drawn \<Rightarrow> string set \<Rightarrow> bool" where
  "fresh_draw e d used \<longleftrightarrow> se_hash e (fst d) \<notin> used \<and> se_hash e (fst (snd d)) \<notin> used \<and> se_hash e (fst d) \<noteq> se_hash e (fst (snd d))"

definition draw_hashes :: "session_env \<Rightarrow> drawn \<Rightarrow> string set" where
  "draw_hashes e d = {se_hash e (fst d), se_hash e (fst (snd d))}"

definition file_sessions :: "state_root option \<Rightarrow> session_node list" where
  "file_sessions file = (case file of None \<Rightarrow> [] | Some r \<Rightarrow> get_or (rt_session_tokens r) [])"

inductive session_step :: "session_env \<Rightarrow> session_sys \<Rightarrow> session_sys \<Rightarrow> bool" for e where
  login: "ss_pc s tid = Idle \<Longrightarrow> fresh_draw e d (ss_used s) \<Longrightarrow>
    issue_insert e username session_ttl refresh_ttl user_agent remote_address remember_me now d (ss_mgr s) = (bundle, m) \<Longrightarrow>
    session_step e s (s\<lparr>ss_mgr := m, ss_pc := (ss_pc s)(tid := Cleaning), ss_used := ss_used s \<union> draw_hashes e d,
      ss_grants := insert (username, now + snd (issue_ttls e session_ttl refresh_ttl remember_me) * se_ticks e) (ss_grants s)\<rparr>)"
| login_cleanup: "ss_pc s tid = Cleaning \<Longrightarrow> cleanup_expired_session_tokens now (ss_mgr s) = (removed, m) \<Longrightarrow>
    session_step e s (s\<lparr>ss_mgr := m, ss_pc := (ss_pc s)(tid := Saving)\<rparr>)"
| cleanup_task: "ss_pc s tid = Idle \<Longrightarrow> cleanup_expired_session_tokens now (ss_mgr s) = (removed, m) \<Longrightarrow>
    session_step e s (s\<lparr>ss_mgr := m, ss_pc := (ss_pc s)(tid := (if removed then Saving else Idle))\<rparr>)"
| refresh: "ss_pc s tid = Idle \<Longrightarrow> refresh_token \<noteq> [] \<Longrightarrow> fresh_draw e d (ss_used s) \<Longrightarrow>
    refresh_locked e refresh_token user_agent remote_address now d (ss_mgr s) = (result, persist, m) \<Longrightarrow>
    session_step e s (s\<lparr>ss_mgr := m, ss_pc := (ss_pc s)(tid := (if persist then Saving else Idle)),
      ss_used := ss_used s \<union> draw_hashes e d\<rparr>)"
| use: "ss_pc s tid = Idle \<Longrightarrow> use_session e token now (ss_mgr s) = (found, persist, m) \<Longrightarrow>
    session_step e s (s\<lparr>ss_mgr := m, ss_pc := (ss_pc s)(tid := (if persist then Saving else Idle))\<rparr>)"
| revoke: "ss_pc s tid = Idle \<Longrightarrow> revoke_locked h (ss_mgr s) = (removed, m) \<Longrightarrow>
    session_step e s (s\<lparr>ss_mgr := m, ss_pc := (ss_pc s)(tid := (if removed then Saving else Idle))\<rparr>)"
| save_begin: "ss_pc s tid = Saving \<Longrightarrow> save_begin (ss_mgr s) = (snap, m) \<Longrightarrow>
    session_step e s (s\<lparr>ss_mgr := m, ss_pc := (ss_pc s)(tid := (case snap of None \<Rightarrow> Idle | Some sn \<Rightarrow> Writing sn))\<rparr>)"
| save_write: "ss_pc s tid = Writing sn \<Longrightarrow> save_write e io sn (ss_file s) = (failed, file) \<Longrightarrow>
    session_step e s (s\<lparr>ss_file := file, ss_pc := (ss_pc s)(tid := Ending failed)\<rparr>)"
| save_end: "ss_pc s tid = Ending failed \<Longrightarrow>
    session_step e s (s\<lparr>ss_mgr := save_end now failed (ss_mgr s), ss_pc := (ss_pc s)(tid := Idle)\<rparr>)"
| other_writer: "file_sessions file = file_sessions (ss_file s) \<Longrightarrow> session_step e s (s\<lparr>ss_file := file\<rparr>)"

text \<open>The start of the server: the sessions of the file are loaded before the first request.\<close>

definition session_init :: "session_env \<Rightarrow> session_sys \<Rightarrow> bool" where
  "session_init e s \<longleftrightarrow>
     (\<exists>io io_save now now_save w. load_session_tokens e io io_save now now_save w = \<lparr>sw_mgr = ss_mgr s, sw_file = ss_file s\<rparr>) \<and>
     (\<forall>tid. ss_pc s tid = Idle) \<and>
     ss_used s = fst ` set (sm_session_tokens (ss_mgr s)) \<union> tk_refresh_token_hash ` snd ` set (sm_session_tokens (ss_mgr s)) \<and>
     ss_grants s = (\<lambda>p. (tk_username (snd p), tk_refresh_expires_at (snd p))) ` set (sm_session_tokens (ss_mgr s))"

section \<open>The invariant\<close>

definition token_ok :: "string \<Rightarrow> session_token \<Rightarrow> bool" where
  "token_ok h t \<longleftrightarrow> h \<noteq> [] \<and> tk_expires_at t \<le> tk_refresh_expires_at t \<and> tk_device_label t \<noteq> [] \<and>
     (tk_refresh_token_hash t = [] \<longrightarrow> tk_refresh_expires_at t = tk_expires_at t)"

definition index_sound :: "session_manager \<Rightarrow> bool" where
  "index_sound m \<longleftrightarrow> map_of (sm_refresh_index m) [] = None \<and>
     (\<forall>rh h. map_of (sm_refresh_index m) rh = Some h \<longrightarrow>
        (\<exists>t. map_of (sm_session_tokens m) h = Some t \<and> tk_refresh_token_hash t = rh))"

definition mgr_ok :: "string set \<Rightarrow> (string \<times> time_point) set \<Rightarrow> session_manager \<Rightarrow> bool" where
  "mgr_ok used grants m \<longleftrightarrow> umap_ok (sm_session_tokens m) \<and> index_sound m \<and>
     (\<forall>h t. map_of (sm_session_tokens m) h = Some t \<longrightarrow>
        token_ok h t \<and> h \<in> used \<and> tk_refresh_token_hash t \<in> used \<and> (tk_username t, tk_refresh_expires_at t) \<in> grants)"

lemmas mgr_defs = mgr_ok_def index_sound_def

lemma index_soundD:
  assumes "index_sound m" "map_of (sm_refresh_index m) rh = Some h"
  obtains t where "map_of (sm_session_tokens m) h = Some t" "tk_refresh_token_hash t = rh" "rh \<noteq> []"
  using assms unfolding index_sound_def by (metis option.discI)

lemma derive_device_label_nonempty: "derive_device_label ua addr \<noteq> []"
  by (auto simp: derive_device_label_def truncate_label_def Let_def)

lemma mgr_ok_mono: "mgr_ok used grants m \<Longrightarrow> used \<subseteq> used' \<Longrightarrow> grants \<subseteq> grants' \<Longrightarrow> mgr_ok used' grants' m"
  unfolding mgr_ok_def by blast

text \<open>Erasing sessions together with their index entries.\<close>

lemma map_of_fold_erase:
  "map_of (fold (\<lambda>p. erase_refresh (snd p)) ps index) rh =
    (if \<exists>p \<in> set ps. tk_refresh_token_hash (snd p) = rh \<and> rh \<noteq> [] then None else map_of index rh)"
  by (induction ps arbitrary: index) (auto simp: erase_refresh_def)

lemma mgr_ok_restrict:
  assumes m: "mgr_ok used grants m" and ok: "umap_ok (sm_session_tokens m')"
    and tokens: "\<And>h t. map_of (sm_session_tokens m') h = Some t \<Longrightarrow> map_of (sm_session_tokens m) h = Some t"
    and index: "\<And>rh h. map_of (sm_refresh_index m') rh = Some h \<Longrightarrow> map_of (sm_refresh_index m) rh = Some h \<and>
      map_of (sm_session_tokens m') h = map_of (sm_session_tokens m) h"
  shows "mgr_ok used grants m'"
proof -
  have "index_sound m" using m by (simp add: mgr_ok_def)
  then have "index_sound m'" unfolding index_sound_def by (metis index not_Some_eq)
  with m ok tokens show ?thesis unfolding mgr_ok_def by blast
qed

lemma erase_session_ok:
  assumes m: "mgr_ok used grants m" and t: "map_of (sm_session_tokens m) h = Some t"
  shows "mgr_ok used grants (erase_session h t m)"
proof (rule mgr_ok_restrict[OF m])
  show "umap_ok (sm_session_tokens (erase_session h t m))" using m by (simp add: erase_session_def mgr_ok_def)
  show "map_of (sm_session_tokens m) h' = Some t'" if "map_of (sm_session_tokens (erase_session h t m)) h' = Some t'" for h' t'
    using that by (simp add: erase_session_def split: if_splits)
  fix rh h' assume a: "map_of (sm_refresh_index (erase_session h t m)) rh = Some h'"
  then have i: "map_of (sm_refresh_index m) rh = Some h'" and r: "tk_refresh_token_hash t = rh \<longrightarrow> rh = []"
    by (auto simp: erase_session_def erase_refresh_def split: if_splits)
  have "index_sound m" using m by (simp add: mgr_ok_def)
  then have "h' \<noteq> h" using r t by (elim index_soundD[OF _ i]) auto
  with i show "map_of (sm_refresh_index m) rh = Some h' \<and>
      map_of (sm_session_tokens (erase_session h t m)) h' = map_of (sm_session_tokens m) h'"
    by (simp add: erase_session_def)
qed

lemma cleanup_fields:
  assumes "cleanup_expired_session_tokens now m = (removed, m')"
  shows "sm_session_tokens m' = filter (\<lambda>p. \<not> now > tk_refresh_expires_at (snd p)) (sm_session_tokens m)"
    "sm_refresh_index m' = fold (\<lambda>p. erase_refresh (snd p))
      (filter (\<lambda>p. now > tk_refresh_expires_at (snd p)) (sm_session_tokens m)) (sm_refresh_index m)"
  using assms by (auto simp: cleanup_expired_session_tokens_def Let_def split: if_splits)

lemma cleanup_ok:
  assumes m: "mgr_ok used grants m" and c: "cleanup_expired_session_tokens now m = (removed, m')"
  shows "mgr_ok used grants m'"
proof (rule mgr_ok_restrict[OF m])
  have um: "umap_ok (sm_session_tokens m)" and snd: "index_sound m" using m by (simp_all add: mgr_ok_def)
  note tokens = cleanup_fields(1)[OF c] and index = cleanup_fields(2)[OF c]
  show "umap_ok (sm_session_tokens m')" using um by (simp add: tokens umap_ok_filter)
  have look: "map_of (sm_session_tokens m') h = (case map_of (sm_session_tokens m) h of None \<Rightarrow> None
      | Some v \<Rightarrow> if \<not> now > tk_refresh_expires_at v then Some v else None)" for h
    unfolding tokens by (rule map_of_filter_key[OF um, of "\<lambda>_ v. \<not> now > tk_refresh_expires_at v"])
  then show "map_of (sm_session_tokens m) h = Some t" if "map_of (sm_session_tokens m') h = Some t" for h t
    using that by (auto split: option.splits if_splits)
  fix rh h assume "map_of (sm_refresh_index m') rh = Some h"
  then have i: "map_of (sm_refresh_index m) rh = Some h"
    and r: "\<not> (\<exists>p \<in> set (sm_session_tokens m). now > tk_refresh_expires_at (snd p) \<and> tk_refresh_token_hash (snd p) = rh \<and> rh \<noteq> [])"
    unfolding index map_of_fold_erase by (fastforce split: if_split_asm)+
  obtain t where t: "map_of (sm_session_tokens m) h = Some t" "tk_refresh_token_hash t = rh" "rh \<noteq> []"
    by (rule index_soundD[OF snd i])
  then have "\<not> now > tk_refresh_expires_at t" using r map_of_SomeD[OF t(1)] by force
  with i t look show "map_of (sm_refresh_index m) rh = Some h \<and> map_of (sm_session_tokens m') h = map_of (sm_session_tokens m) h" by simp
qed

text \<open>A new session under fresh hashes.\<close>

lemma insert_session_ok:
  assumes m: "mgr_ok used grants m" and new: "h \<notin> used" "tk_refresh_token_hash t \<notin> used" "tk_refresh_token_hash t \<noteq> []"
    and t: "token_ok h t"
    and m': "sm_session_tokens m' = umap_emplace h t (AList.delete h (sm_session_tokens m))"
      "sm_refresh_index m' = AList.update (tk_refresh_token_hash t) h (sm_refresh_index m)"
  shows "mgr_ok (used \<union> {h, tk_refresh_token_hash t}) (insert (tk_username t, tk_refresh_expires_at t) grants) m'"
proof -
  have none: "map_of (sm_session_tokens m) h = None" using m new(1) unfolding mgr_ok_def by (meson not_None_eq)
  have toks: "map_of (sm_session_tokens m') = (map_of (sm_session_tokens m))(h \<mapsto> t)" using none by (simp add: m' fun_upd_idem)
  have "index_sound m" "umap_ok (sm_session_tokens m)" using m by (simp_all add: mgr_ok_def)
  then have "index_sound m'" "umap_ok (sm_session_tokens m')"
    using none new(3) toks by (fastforce simp: index_sound_def m')+
  with m t toks show ?thesis unfolding mgr_ok_def by (auto split: if_splits)
qed

lemma mgr_ok_dirty [simp]: "mgr_ok used grants (m\<lparr>sm_dirty := b\<rparr>) = mgr_ok used grants m"
  "mgr_ok used grants (m\<lparr>sm_last_persist := now\<rparr>) = mgr_ok used grants m"
  by (simp_all add: mgr_defs)

text \<open>Every section keeps the invariant. The hash of a token is never empty: it is the hexadecimal text of
  a digest.\<close>

definition session_env_ok :: "session_env \<Rightarrow> bool" where
  "session_env_ok e \<longleftrightarrow> (\<forall>x. se_hash e x \<noteq> []) \<and> 0 < se_ticks e \<and> 0 < se_session_token_ttl e"

lemma issue_insert_ok:
  assumes m: "mgr_ok used grants m" and e: "session_env_ok e" and d: "fresh_draw e d used"
    and i: "issue_insert e username session_ttl refresh_ttl user_agent remote_address remember_me now d m = (bundle, m')"
  shows "mgr_ok (used \<union> draw_hashes e d)
    (insert (username, now + snd (issue_ttls e session_ttl refresh_ttl remember_me) * se_ticks e) grants) m'"
proof -
  obtain sttl rttl where ttl: "issue_ttls e session_ttl refresh_ttl remember_me = (sttl, rttl)" by fastforce
  obtain st rt rot where dd: "d = (st, rt, rot)" by (cases d)
  have ne: "se_hash e st \<noteq> []" "se_hash e rt \<noteq> []" using e by (auto simp: session_env_ok_def)
  let ?t = "\<lparr>tk_username = username, tk_created_at = now,
            tk_expires_at = min (now + sttl * se_ticks e) (now + rttl * se_ticks e),
            tk_refresh_expires_at = now + rttl * se_ticks e, tk_user_agent = user_agent, tk_remote_address = remote_address,
            tk_last_seen = now, tk_remember_me = remember_me,
            tk_device_label = derive_device_label user_agent remote_address,
            tk_refresh_token_hash = se_hash e rt, tk_rotation_id = rot\<rparr>"
  have "mgr_ok (used \<union> {se_hash e st, tk_refresh_token_hash ?t}) (insert (tk_username ?t, tk_refresh_expires_at ?t) grants) m'"
  proof (rule insert_session_ok[OF m])
    show "token_ok (se_hash e st) ?t" using ne by (simp add: token_ok_def derive_device_label_nonempty)
  qed (use i d ne in \<open>auto simp: dd ttl issue_insert_def fresh_draw_def Let_def\<close>)
  then show ?thesis by (simp add: draw_hashes_def dd ttl)
qed

lemma refresh_locked_ok:
  assumes m: "mgr_ok used grants m" and e: "session_env_ok e" and d: "fresh_draw e d used"
    and r: "refresh_locked e refresh_token user_agent remote_address now d m = (result, persist, m')"
  shows "mgr_ok (used \<union> draw_hashes e d) grants m'"
proof (cases "map_of (sm_refresh_index m) (se_hash e refresh_token)")
  case None
  with r have "m' = m" by (simp add: refresh_locked_def)
  with m show ?thesis by (auto intro: mgr_ok_mono)
next
  case (Some h)
  have "index_sound m" using m by (simp add: mgr_ok_def)
  from index_soundD[OF this Some] obtain t where
    t: "map_of (sm_session_tokens m) h = Some t" "tk_refresh_token_hash t = se_hash e refresh_token" "se_hash e refresh_token \<noteq> []" .
  note gone = erase_session_ok[OF m t(1)]
  have g: "(tk_username t, tk_refresh_expires_at t) \<in> grants" using m t(1) by (simp add: mgr_ok_def)
  have er: "sm_session_tokens (erase_session h t m) = AList.delete h (sm_session_tokens m)"
    "sm_refresh_index (erase_session h t m) = AList.delete (se_hash e refresh_token) (sm_refresh_index m)"
    using t by (simp_all add: erase_session_def erase_refresh_def)
  show ?thesis
  proof (cases "now > tk_refresh_expires_at t")
    case True
    with r Some t have "m' = erase_session h t m"
      by (simp add: refresh_locked_def erase_session_def erase_refresh_def)
    with gone show ?thesis by (auto intro: mgr_ok_mono)
  next
    case False
    obtain st rt rot where dd: "d = (st, rt, rot)" by (cases d)
    have ne: "se_hash e st \<noteq> []" "se_hash e rt \<noteq> []" using e by (auto simp: session_env_ok_def)
    let ?t = "\<lparr>tk_username = tk_username t, tk_created_at = now,
        tk_expires_at = min (now + se_session_token_ttl e * se_ticks e) (tk_refresh_expires_at t),
        tk_refresh_expires_at = tk_refresh_expires_at t, tk_user_agent = user_agent, tk_remote_address = remote_address,
        tk_last_seen = now, tk_remember_me = tk_remember_me t,
        tk_device_label = derive_device_label user_agent remote_address,
        tk_refresh_token_hash = se_hash e rt, tk_rotation_id = rot\<rparr>"
    have m': "m' = m\<lparr>sm_session_tokens := umap_emplace (se_hash e st) ?t (AList.delete h (sm_session_tokens m)),
        sm_refresh_index := AList.update (se_hash e rt) (se_hash e st) (AList.delete (se_hash e refresh_token) (sm_refresh_index m)),
        sm_dirty := True\<rparr>"
      using r False Some t(1) unfolding refresh_locked_def Let_def dd by simp
    have absent: "map_of (sm_session_tokens m) (se_hash e st) = None"
      using m d unfolding mgr_ok_def fresh_draw_def dd by (metis fst_conv not_None_eq)
    have "mgr_ok (used \<union> {se_hash e st, tk_refresh_token_hash ?t}) (insert (tk_username ?t, tk_refresh_expires_at ?t) grants) m'"
    proof (rule insert_session_ok[OF gone])
      show "token_ok (se_hash e st) ?t" using ne by (simp add: token_ok_def derive_device_label_nonempty)
      show "sm_session_tokens m' = umap_emplace (se_hash e st) ?t (AList.delete (se_hash e st) (sm_session_tokens (erase_session h t m)))"
        using absent by (simp add: m' er length_delete_notin)
    qed (use d ne in \<open>auto simp: m' er dd fresh_draw_def\<close>)
    with g show ?thesis by (simp add: draw_hashes_def dd insert_absorb)
  qed
qed

lemma use_session_ok:
  assumes m: "mgr_ok used grants m" and u: "use_session e token now m = (found, persist, m')"
  shows "mgr_ok used grants m'"
proof (cases "map_of (sm_session_tokens m) (se_hash e token)")
  case None
  with m u show ?thesis by (simp add: use_session_def)
next
  case (Some t)
  let ?m = "m\<lparr>sm_session_tokens := AList.update (se_hash e token) (t\<lparr>tk_last_seen := now\<rparr>) (sm_session_tokens m), sm_dirty := True\<rparr>"
  have sound: "index_sound m" using m by (simp add: mgr_ok_def)
  have "\<exists>t'. map_of (sm_session_tokens ?m) h = Some t' \<and> tk_refresh_token_hash t' = rh"
    if "map_of (sm_refresh_index m) rh = Some h" for rh h
    by (rule index_soundD[OF sound that], cases "h = se_hash e token") (use Some in auto)
  then have "index_sound ?m" using sound by (simp add: index_sound_def)
  moreover have "token_ok (se_hash e token) (t\<lparr>tk_last_seen := now\<rparr>)" using m Some by (auto simp: mgr_ok_def token_ok_def)
  ultimately have "mgr_ok used grants ?m" using m Some unfolding mgr_ok_def by auto
  with u Some erase_session_ok[OF m Some] m show ?thesis
    by (auto simp: use_session_def Let_def split: if_splits)
qed

lemma revoke_locked_ok:
  assumes "mgr_ok used grants m" "revoke_locked h m = (removed, m')"
  shows "mgr_ok used grants m'"
  using assms erase_session_ok by (auto simp: revoke_locked_def split: option.splits)

lemma save_begin_ok: "mgr_ok used grants m \<Longrightarrow> save_begin m = (snap, m') \<Longrightarrow> mgr_ok used grants m'"
  by (auto simp: save_begin_def split: if_splits)

lemma save_end_ok: "mgr_ok used grants m \<Longrightarrow> mgr_ok used grants (save_end now failed m)"
  by (simp add: save_end_def)

text \<open>Loading establishes it.\<close>

lemma load_token_ok: "get_or (sn_hash node) [] \<noteq> [] \<Longrightarrow> token_ok (get_or (sn_hash node) []) (fst (load_token e node))"
  by (auto simp: load_token_def token_ok_def Let_def derive_device_label_nonempty)

definition loaded_ok :: "load_state \<Rightarrow> bool" where
  "loaded_ok st \<longleftrightarrow> umap_ok (fst st) \<and> map_of (fst (snd st)) [] = None \<and>
     (\<forall>rh h. map_of (fst (snd st)) rh = Some h \<longrightarrow> (\<exists>t. map_of (fst st) h = Some t \<and> tk_refresh_token_hash t = rh)) \<and>
     (\<forall>h t. map_of (fst st) h = Some t \<longrightarrow> token_ok h t)"

lemma load_node_ok:
  assumes "loaded_ok st" shows "loaded_ok (load_node e now node st)"
proof -
  obtain tokens index b where st: "st = (tokens, index, b)" by (cases st)
  let ?h = "get_or (sn_hash node) []" and ?t = "fst (load_token e node)"
  show ?thesis
  proof (cases "?h = [] \<or> now > tk_refresh_expires_at ?t \<or> map_of tokens ?h \<noteq> None")
    case True
    with assms show ?thesis
      by (auto simp: load_node_def st loaded_ok_def umap_emplace_def case_prod_beta Let_def)
  next
    case False
    with load_token_ok[of node e] have ok: "token_ok ?h ?t" by simp
    have "load_node e now node st = (AList.update ?h ?t tokens,
        if tk_refresh_token_hash ?t \<noteq> [] then AList.update (tk_refresh_token_hash ?t) ?h index else index, b \<or> snd (load_token e node))"
      using False by (simp add: load_node_def st case_prod_beta Let_def umap_emplace_def)
    with assms ok False show ?thesis unfolding loaded_ok_def st by (fastforce split: if_splits)
  qed
qed

lemma load_nodes_ok: "loaded_ok (load_nodes e now nodes)"
proof -
  have "loaded_ok (fold (load_node e now) nodes st)" if "loaded_ok st" for st
    using that by (induction nodes arbitrary: st) (simp, metis fold_simps(2) load_node_ok)
  moreover have "loaded_ok ([], [], False)" by (simp add: loaded_ok_def)
  ultimately show ?thesis unfolding load_nodes_def by blast
qed

lemma save_session_tokens_keeps [simp]:
  "sm_session_tokens (sw_mgr (save_session_tokens e io now w)) = sm_session_tokens (sw_mgr w)"
  "sm_refresh_index (sw_mgr (save_session_tokens e io now w)) = sm_refresh_index (sw_mgr w)"
  by (simp_all add: save_session_tokens_def save_begin_def save_end_def case_prod_beta)

lemma loaded_mgr_ok:
  assumes "load_session_tokens e io io_save now now_save w = \<lparr>sw_mgr = m, sw_file = file\<rparr>"
  shows "mgr_ok (fst ` set (sm_session_tokens m) \<union> tk_refresh_token_hash ` snd ` set (sm_session_tokens m))
    ((\<lambda>p. (tk_username (snd p), tk_refresh_expires_at (snd p))) ` set (sm_session_tokens m)) m"
proof -
  define st where "st = (if sw_file w \<noteq> None \<and> io_readable io then load_nodes e now
      (case sw_file w of None \<Rightarrow> [] | Some root \<Rightarrow> get_or (rt_session_tokens root) []) else ([], [], False))"
  have st: "loaded_ok st" unfolding st_def by (simp add: load_nodes_ok, simp add: loaded_ok_def)
  obtain tokens index b where tib: "st = (tokens, index, b)" by (cases st)
  have "m = sw_mgr (load_session_tokens e io io_save now now_save w)" by (simp add: assms)
  also have "\<dots> = sw_mgr (let w' = w\<lparr>sw_mgr := \<lparr>sm_session_tokens = tokens, sm_refresh_index = index, sm_dirty = b, sm_last_persist = now\<rparr>\<rparr>
      in if b then save_session_tokens e io_save now_save w' else w')"
    unfolding load_session_tokens_def Let_def st_def[symmetric] tib prod.case ..
  finally have m: "sm_session_tokens m = fst st" "sm_refresh_index m = fst (snd st)"
    by (simp_all add: tib Let_def)
  have "umap_ok (sm_session_tokens m)" "index_sound m" using st m by (simp_all add: loaded_ok_def index_sound_def)
  moreover have "token_ok h t \<and> (h, t) \<in> set (sm_session_tokens m)" if "map_of (sm_session_tokens m) h = Some t" for h t
    using that st m map_of_SomeD[OF that] by (simp add: loaded_ok_def)
  moreover have "h \<in> fst ` set (sm_session_tokens m)" "tk_refresh_token_hash t \<in> tk_refresh_token_hash ` snd ` set (sm_session_tokens m)"
    "(tk_username t, tk_refresh_expires_at t) \<in> (\<lambda>p. (tk_username (snd p), tk_refresh_expires_at (snd p))) ` set (sm_session_tokens m)"
    if "(h, t) \<in> set (sm_session_tokens m)" for h t
    using that by force+
  ultimately show ?thesis unfolding mgr_ok_def by blast
qed

definition session_inv :: "session_sys \<Rightarrow> bool" where
  "session_inv s \<longleftrightarrow> mgr_ok (ss_used s) (ss_grants s) (ss_mgr s)"

lemma session_init_inv: "session_init e s \<Longrightarrow> session_inv s"
  unfolding session_init_def session_inv_def by (elim conjE exE, drule loaded_mgr_ok) simp

lemma session_step_inv:
  assumes "session_step e s t" "session_env_ok e" "session_inv s"
  shows "session_inv t"
  using assms
proof (induction rule: session_step.induct)
  case (login s tid d username session_ttl refresh_ttl user_agent remote_address remember_me now issued m)
  then show ?case using issue_insert_ok[of "ss_used s" "ss_grants s" "ss_mgr s" e d] by (simp add: session_inv_def)
next
  case (refresh s tid refresh_token d user_agent remote_address now result persist m)
  then show ?case using refresh_locked_ok[of "ss_used s" "ss_grants s" "ss_mgr s" e d] by (simp add: session_inv_def)
qed (auto simp: session_inv_def intro: cleanup_ok use_session_ok revoke_locked_ok save_begin_ok save_end_ok)

interpretation sessions: invariant_system "\<lambda>s. session_env_ok e \<and> session_init e s" "session_step e" "\<lambda>s. session_env_ok e \<and> session_inv s"
  for e
  by unfold_locales (auto intro: session_init_inv session_step_inv)

text \<open>A hash that was used and is not in the table, or not in the index, never comes back.\<close>

definition session_gone :: "string \<Rightarrow> string \<Rightarrow> session_sys \<Rightarrow> bool" where
  "session_gone h rh s \<longleftrightarrow> h \<in> ss_used s \<and> map_of (sm_session_tokens (ss_mgr s)) h = None \<and>
     rh \<in> ss_used s \<and> map_of (sm_refresh_index (ss_mgr s)) rh = None"

lemma map_of_filter_None: "map_of m k = None \<Longrightarrow> map_of (filter P m) k = None"
  by (auto simp: map_of_eq_None_iff)

lemma session_gone_step:
  assumes "session_step e s t" "session_gone h rh s"
  shows "session_gone h rh t"
  using assms
proof (induction rule: session_step.induct)
  case (login s tid d username session_ttl refresh_ttl user_agent remote_address remember_me now issued m)
  then show ?case by (auto simp: session_gone_def issue_insert_def fresh_draw_def Let_def split: prod.splits)
next
  case (refresh s tid refresh_token d user_agent remote_address now result persist m)
  then show ?case
    by (auto simp: session_gone_def refresh_locked_def fresh_draw_def Let_def split: prod.splits option.splits if_splits)
next
  case (use s tid token now found persist m)
  then show ?case
    by (auto simp: session_gone_def use_session_def erase_session_def erase_refresh_def Let_def split: option.splits if_splits)
next
  case (revoke s tid h removed m)
  then show ?case
    by (auto simp: session_gone_def revoke_locked_def erase_session_def erase_refresh_def split: option.splits)
qed (auto simp: session_gone_def cleanup_fields map_of_filter_None map_of_fold_erase save_begin_def save_end_def split: if_splits)

interpretation ended: latch_system "\<lambda>s. session_env_ok e \<and> session_init e s" "session_step e" "\<lambda>s. session_env_ok e \<and> session_inv s" "session_gone h rh"
  for e h rh
  by unfold_locales (auto intro: session_gone_step)

lemma index_step:
  assumes "session_step e s t" "rh \<in> ss_used s" "map_of (sm_refresh_index (ss_mgr t)) rh = Some h"
  shows "map_of (sm_refresh_index (ss_mgr s)) rh = Some h"
  using assms
proof (induction rule: session_step.induct)
  case (login s tid d username session_ttl refresh_ttl user_agent remote_address remember_me now issued m)
  then show ?case by (auto simp: issue_insert_def fresh_draw_def Let_def split: prod.splits if_splits)
next
  case (refresh s tid refresh_token d user_agent remote_address now result persist m)
  then show ?case
    by (auto simp: refresh_locked_def fresh_draw_def Let_def split: prod.splits option.splits if_splits)
next
  case (use s tid token now found persist m)
  then show ?case
    by (auto simp: use_session_def erase_session_def erase_refresh_def Let_def split: option.splits if_splits)
next
  case (revoke s tid h removed m)
  then show ?case
    by (auto simp: revoke_locked_def erase_session_def erase_refresh_def split: option.splits if_splits)
qed (auto simp: cleanup_fields map_of_fold_erase save_begin_def save_end_def split: if_splits)

section \<open>Sessions end\<close>

text \<open>
  (C18) A session that was logged out or rotated by its refresh token is over: in every later state, whatever
  the threads do, its token is not accepted and its refresh token obtains nothing.
\<close>

theorem ended_session_final:
  assumes e: "session_env_ok e" and reach: "session_init e s0" "(session_step e)\<^sup>*\<^sup>* s0 s"
    and rt: "map_of (sm_refresh_index (ss_mgr s)) (se_hash e rt) = Some (se_hash e token)"
    and ended: "session_step e s s1"
      "ss_mgr s1 = snd (revoke_locked (se_hash e token) (ss_mgr s)) \<or>
       (\<exists>ua addr t0 d b. fresh_draw e d (ss_used s) \<and> refresh_locked e rt ua addr t0 d (ss_mgr s) = (Some b, True, ss_mgr s1))"
    and later: "(session_step e)\<^sup>*\<^sup>* s1 s2"
  shows "fst (use_session e token now (ss_mgr s2)) = None \<and> fst (refresh_locked e rt ua addr now d (ss_mgr s2)) = None"
proof -
  let ?h = "se_hash e token" and ?rh = "se_hash e rt"
  have inv: "mgr_ok (ss_used s) (ss_grants s) (ss_mgr s)"
    using sessions.reach_inv[OF _ reach(2)] e reach(1) by (simp add: session_inv_def)
  then have sound: "index_sound (ss_mgr s)" by (simp add: mgr_ok_def)
  obtain t where t: "map_of (sm_session_tokens (ss_mgr s)) ?h = Some t" "tk_refresh_token_hash t = ?rh"
    using index_soundD[OF sound rt] by metis
  have used: "?h \<in> ss_used s" "?rh \<in> ss_used s" using inv t unfolding mgr_ok_def by (metis)+
  have gone: "map_of (sm_session_tokens (ss_mgr s1)) ?h = None"
    using ended(2)
  proof (elim disjE exE conjE)
    assume "ss_mgr s1 = snd (revoke_locked ?h (ss_mgr s))"
    with t(1) show ?thesis by (simp add: revoke_locked_def erase_session_def)
  next
    fix ua addr t0 d b assume "fresh_draw e d (ss_used s)" "refresh_locked e rt ua addr t0 d (ss_mgr s) = (Some b, True, ss_mgr s1)"
    moreover from this have "ss_mgr s1 = snd (snd (refresh_locked e rt ua addr t0 d (ss_mgr s)))" by simp
    ultimately show ?thesis using rt t(1) used(1)
      by (cases d) (auto simp: refresh_locked_def fresh_draw_def Let_def split: if_splits)
  qed
  have inv1: "session_env_ok e \<and> session_inv s1" using session_step_inv[OF ended(1) e] inv e by (simp add: session_inv_def)
  have "map_of (sm_refresh_index (ss_mgr s1)) ?rh = None"
  proof (rule ccontr)
    assume "map_of (sm_refresh_index (ss_mgr s1)) ?rh \<noteq> None"
    then have "map_of (sm_refresh_index (ss_mgr s1)) ?rh = Some ?h"
      using index_step[OF ended(1) used(2)] rt by auto
    moreover have "index_sound (ss_mgr s1)" using inv1 by (simp add: session_inv_def mgr_ok_def)
    ultimately show False using gone by (auto elim: index_soundD)
  qed
  moreover have "ss_used s \<subseteq> ss_used s1" using ended(1) by (cases rule: session_step.cases) auto
  ultimately have "session_gone ?h ?rh s1" using gone used by (auto simp: session_gone_def)
  from ended.steps_latch[OF later inv1 this] show ?thesis
    by (simp add: session_gone_def use_session_def refresh_locked_def)
qed

text \<open>Where a limit comes from: the start, or the step of a login.\<close>

definition login_step :: "session_env \<Rightarrow> string \<Rightarrow> time_point \<Rightarrow> session_sys \<Rightarrow> session_sys \<Rightarrow> bool" where
  "login_step e username limit s s' \<longleftrightarrow> (\<exists>session_ttl refresh_ttl ua addr remember_me now d.
     ss_mgr s' = snd (issue_insert e username session_ttl refresh_ttl ua addr remember_me now d (ss_mgr s)) \<and>
     limit = now + snd (issue_ttls e session_ttl refresh_ttl remember_me) * se_ticks e)"

lemma grant_step:
  assumes "session_step e s t" "(u, limit) \<in> ss_grants t" "(u, limit) \<notin> ss_grants s"
  shows "login_step e u limit s t"
  using assms
proof (induction rule: session_step.induct)
  case (login s tid d username session_ttl refresh_ttl user_agent remote_address remember_me now issued m)
  from login have eq: "username = u" "limit = now + snd (issue_ttls e session_ttl refresh_ttl remember_me) * se_ticks e" by auto
  have "m = snd (issue_insert e u session_ttl refresh_ttl user_agent remote_address remember_me now d (ss_mgr s))"
    using login eq by simp
  with eq show ?case unfolding login_step_def by (intro exI conjI) auto
qed auto

lemma grant_origin:
  assumes "(session_step e)\<^sup>*\<^sup>* s0 s" "(u, limit) \<in> ss_grants s"
  shows "(u, limit) \<in> ss_grants s0 \<or> (\<exists>s1 s2. (session_step e)\<^sup>*\<^sup>* s0 s1 \<and> session_step e s1 s2 \<and> login_step e u limit s1 s2 \<and> (session_step e)\<^sup>*\<^sup>* s2 s)"
  using assms
proof (induction rule: rtranclp_induct)
  case base
  then show ?case by simp
next
  case (step s t)
  show ?case
  proof (cases "(u, limit) \<in> ss_grants s")
    case True
    with step show ?thesis by (meson rtranclp.rtrancl_into_rtrancl)
  next
    case False
    with grant_step[OF step.hyps(2) step.prems] step.hyps show ?thesis by blast
  qed
qed

text \<open>
  (C22) A session token is accepted only within the absolute lifetime of a login: when it is accepted, its user
  had a session when the server started or logged in since, with a limit that has not passed, and the
  session's own expiry is within that limit however often it was refreshed.
\<close>

theorem session_within_login:
  assumes "session_env_ok e" "session_init e s0" "(session_step e)\<^sup>*\<^sup>* s0 s"
    and use: "use_session e token now (ss_mgr s) = (Some t, persist, m)"
  shows "\<exists>limit. now \<le> tk_expires_at t \<and> tk_expires_at t \<le> limit \<and>
    ((\<exists>h t0. map_of (sm_session_tokens (ss_mgr s0)) h = Some t0 \<and> tk_username t0 = tk_username t \<and> tk_refresh_expires_at t0 = limit) \<or>
     (\<exists>s1 s2. (session_step e)\<^sup>*\<^sup>* s0 s1 \<and> session_step e s1 s2 \<and> login_step e (tk_username t) limit s1 s2 \<and> (session_step e)\<^sup>*\<^sup>* s2 s))"
proof -
  have inv: "mgr_ok (ss_used s) (ss_grants s) (ss_mgr s)" and inv0: "umap_ok (sm_session_tokens (ss_mgr s0))"
    using sessions.reach_inv[OF _ assms(3)] session_init_inv[OF assms(2)] assms(1,2) by (simp_all add: session_inv_def mgr_ok_def)
  have t: "map_of (sm_session_tokens (ss_mgr s)) (se_hash e token) = Some t" "now \<le> tk_expires_at t"
    using use by (auto simp: use_session_def Let_def split: option.splits if_splits)
  with inv have g: "(tk_username t, tk_refresh_expires_at t) \<in> ss_grants s" "tk_expires_at t \<le> tk_refresh_expires_at t"
    by (simp_all add: mgr_ok_def token_ok_def)
  have "\<exists>h t0. map_of (sm_session_tokens (ss_mgr s0)) h = Some t0 \<and> tk_username t0 = u \<and> tk_refresh_expires_at t0 = l"
    if "(u, l) \<in> ss_grants s0" for u l
    using that assms(2) inv0 by (force simp: session_init_def in_set_umap[symmetric])
  with grant_origin[OF assms(3) g(1)] t(2) g(2) show ?thesis by blast
qed

section \<open>The state file\<close>

text \<open>What the file keeps of a session: its times in whole seconds.\<close>

definition whole_seconds :: "session_env \<Rightarrow> session_token \<Rightarrow> session_token" where
  "whole_seconds e t = (let w = (\<lambda>x. to_seconds (se_ticks e) x * se_ticks e) in
     t\<lparr>tk_created_at := w (tk_created_at t), tk_expires_at := w (tk_expires_at t),
       tk_refresh_expires_at := w (tk_refresh_expires_at t), tk_last_seen := w (tk_last_seen t)\<rparr>)"

definition times_ok :: "session_token \<Rightarrow> bool" where
  "times_ok t \<longleftrightarrow> 0 \<le> tk_created_at t \<and> 0 \<le> tk_expires_at t \<and> 0 \<le> tk_refresh_expires_at t \<and> 0 \<le> tk_last_seen t"

text \<open>The sessions that a start at time \<open>now\<close> keeps, and the index it builds.\<close>

definition kept :: "session_env \<Rightarrow> time_point \<Rightarrow> (string, session_token) umap \<Rightarrow> (string, session_token) umap" where
  "kept e now ps = filter (\<lambda>p. \<not> now > tk_refresh_expires_at (snd p)) (map (\<lambda>p. (fst p, whole_seconds e (snd p))) ps)"

definition refresh_pairs :: "(string, session_token) umap \<Rightarrow> (string, string) umap" where
  "refresh_pairs ps = map (\<lambda>p. (tk_refresh_token_hash (snd p), fst p)) (filter (\<lambda>p. tk_refresh_token_hash (snd p) \<noteq> []) ps)"

lemma load_saved_token:
  assumes "token_ok h t" "times_ok t" "0 < se_ticks e"
  shows "load_token e (session_to_node e (h, t)) = (whole_seconds e t, False)"
proof -
  have "to_seconds (se_ticks e) (tk_expires_at t) \<le> to_seconds (se_ticks e) (tk_refresh_expires_at t)"
    using assms by (simp add: to_seconds_nonneg token_ok_def times_ok_def zdiv_mono1)
  then have "to_seconds (se_ticks e) (tk_expires_at t) * se_ticks e \<le> to_seconds (se_ticks e) (tk_refresh_expires_at t) * se_ticks e"
    using assms(3) by simp
  with assms(1) show ?thesis
    by (cases t) (auto simp: load_token_def session_to_node_def whole_seconds_def token_ok_def Let_def)
qed

lemma update_new: "map_of m k = None \<Longrightarrow> AList.update k v m = m @ [(k, v)]"
  by (induction m) auto

lemma whole_refresh_hash [simp]: "tk_refresh_token_hash (whole_seconds e t) = tk_refresh_token_hash t"
  by (simp add: whole_seconds_def Let_def)

lemma load_saved_nodes:
  assumes "0 < se_ticks e" "umap_ok ps" "\<forall>p \<in> set ps. token_ok (fst p) (snd p) \<and> times_ok (snd p)"
    and "distinct (map fst (refresh_pairs ps))"
  shows "load_nodes e now (map (session_to_node e) ps) = (kept e now ps, refresh_pairs (kept e now ps), False)"
  using assms(2-)
proof (induction ps rule: rev_induct)
  case Nil
  then show ?case by (simp add: load_nodes_def kept_def refresh_pairs_def)
next
  case (snoc p ps)
  obtain h t where p: "p = (h, t)" by (cases p)
  have IH: "load_nodes e now (map (session_to_node e) ps) = (kept e now ps, refresh_pairs (kept e now ps), False)"
    using snoc by (auto simp: refresh_pairs_def)
  have tok: "token_ok h t" "times_ok t" using snoc.prems(2) by (auto simp: p)
  have new: "map_of (kept e now ps) h = None"
    using snoc.prems(1) by (force simp: p kept_def map_of_eq_None_iff)
  have newr: "map_of (refresh_pairs (kept e now ps)) (tk_refresh_token_hash t) = None" if "tk_refresh_token_hash t \<noteq> []"
    using snoc.prems(3) that by (fastforce simp: p kept_def refresh_pairs_def map_of_eq_None_iff image_iff)
  have hash: "get_or (sn_hash (session_to_node e p)) [] = h" "h \<noteq> []"
    using tok by (simp_all add: session_to_node_def p Let_def token_ok_def)
  have "load_nodes e now (map (session_to_node e) (ps @ [p])) = load_node e now (session_to_node e p) (kept e now ps, refresh_pairs (kept e now ps), False)"
    using IH by (simp add: load_nodes_def)
  also have "\<dots> = (kept e now (ps @ [p]), refresh_pairs (kept e now (ps @ [p])), False)"
    using new newr hash load_saved_token[OF tok assms(1)]
    by (simp add: load_node_def p umap_emplace_def update_new) (simp add: kept_def refresh_pairs_def)
  finally show ?case .
qed

lemma kept_lookup:
  assumes "umap_ok ps" "map_of (kept e now ps) h = Some t"
  obtains t0 where "map_of ps h = Some t0" "t = whole_seconds e t0"
proof -
  have "(h, t) \<in> set (kept e now ps)" using assms(2) by (rule map_of_SomeD)
  then obtain t0 where t0: "(h, t0) \<in> set ps" "t = whole_seconds e t0" by (auto simp: kept_def)
  show ?thesis by (rule that[OF _ t0(2)]) (use in_set_umap[OF assms(1)] t0(1) in blast)
qed

text \<open>The index leads from every refresh token to its session. This holds in every reachable state, provided
  no two of the sessions found at startup share a refresh token.\<close>

definition index_complete :: "session_manager \<Rightarrow> bool" where
  "index_complete m \<longleftrightarrow> (\<forall>h t. map_of (sm_session_tokens m) h = Some t \<longrightarrow> tk_refresh_token_hash t \<noteq> [] \<longrightarrow>
     map_of (sm_refresh_index m) (tk_refresh_token_hash t) = Some h)"

lemma index_completeD:
  "index_complete m \<Longrightarrow> map_of (sm_session_tokens m) h = Some t \<Longrightarrow> tk_refresh_token_hash t = rh \<Longrightarrow> rh \<noteq> [] \<Longrightarrow>
    map_of (sm_refresh_index m) rh = Some h"
  by (auto simp: index_complete_def)

lemma index_complete_fields [simp]:
  "index_complete (m\<lparr>sm_dirty := b\<rparr>) = index_complete m" "index_complete (m\<lparr>sm_last_persist := now\<rparr>) = index_complete m"
  by (simp_all add: index_complete_def)

lemma erase_session_complete:
  assumes "index_complete m" "map_of (sm_session_tokens m) h = Some t"
  shows "index_complete (erase_session h t m)"
proof -
  have "map_of (sm_refresh_index (erase_session h t m)) (tk_refresh_token_hash t') = Some h'"
    if a: "h' \<noteq> h" "map_of (sm_session_tokens m) h' = Some t'" "tk_refresh_token_hash t' \<noteq> []" for h' t'
    using index_completeD[OF assms(1) a(2) refl a(3)] index_completeD[OF assms(1,2) refl] a
    by (cases "tk_refresh_token_hash t = tk_refresh_token_hash t'") (auto simp: erase_session_def erase_refresh_def)
  then show ?thesis unfolding index_complete_def by (auto simp: erase_session_def split: if_splits)
qed

lemma cleanup_complete:
  assumes um: "umap_ok (sm_session_tokens m)" and cm: "index_complete m"
    and c: "cleanup_expired_session_tokens now m = (removed, m')"
  shows "index_complete m'"
  unfolding index_complete_def
proof (intro allI impI)
  fix h t assume a: "map_of (sm_session_tokens m') h = Some t" "tk_refresh_token_hash t \<noteq> []"
  have "map_of (sm_session_tokens m') h = (case map_of (sm_session_tokens m) h of None \<Rightarrow> None
      | Some v \<Rightarrow> if \<not> now > tk_refresh_expires_at v then Some v else None)"
    unfolding cleanup_fields(1)[OF c] by (rule map_of_filter_key[OF um, of "\<lambda>_ v. \<not> now > tk_refresh_expires_at v"])
  with a(1) have t: "map_of (sm_session_tokens m) h = Some t" "\<not> now > tk_refresh_expires_at t"
    by (auto split: option.splits if_splits)
  have ht: "map_of (sm_refresh_index m) (tk_refresh_token_hash t) = Some h" by (rule index_completeD[OF cm t(1) refl a(2)])
  have "\<not> (tk_refresh_token_hash (snd p) = tk_refresh_token_hash t)"
    if p: "p \<in> set (sm_session_tokens m)" "now > tk_refresh_expires_at (snd p)" for p
  proof
    assume same: "tk_refresh_token_hash (snd p) = tk_refresh_token_hash t"
    have "map_of (sm_session_tokens m) (fst p) = Some (snd p)" using in_set_umap[OF um, of "fst p" "snd p"] p(1) by simp
    then have "map_of (sm_refresh_index m) (tk_refresh_token_hash t) = Some (fst p)" "map_of (sm_session_tokens m) (fst p) = Some (snd p)"
      using index_completeD[OF cm _ same a(2)] by auto
    with ht t p(2) show False by simp
  qed
  then show "map_of (sm_refresh_index m') (tk_refresh_token_hash t) = Some h"
    unfolding cleanup_fields(2)[OF c] map_of_fold_erase using ht by auto
qed

lemma insert_session_complete:
  assumes m: "mgr_ok used grants m" "index_complete m" and new: "h \<notin> used" "tk_refresh_token_hash t \<notin> used"
    and m': "sm_session_tokens m' = umap_emplace h t (AList.delete h (sm_session_tokens m))"
      "sm_refresh_index m' = AList.update (tk_refresh_token_hash t) h (sm_refresh_index m)"
  shows "index_complete m'"
proof -
  have none: "map_of (sm_session_tokens m) h = None" using m(1) new(1) unfolding mgr_ok_def by (meson not_None_eq)
  have toks: "map_of (sm_session_tokens m') = (map_of (sm_session_tokens m))(h \<mapsto> t)" using none by (simp add: m' fun_upd_idem)
  have "tk_refresh_token_hash t' \<noteq> tk_refresh_token_hash t" if "map_of (sm_session_tokens m) h' = Some t'" for h' t'
    using m(1) that new(2) unfolding mgr_ok_def by metis
  then show ?thesis using m(2) unfolding index_complete_def toks m'(2) by (auto split: if_splits)
qed

lemma issue_insert_complete:
  assumes m: "mgr_ok used grants m" "index_complete m" and d: "fresh_draw e d used"
    and i: "issue_insert e username session_ttl refresh_ttl user_agent remote_address remember_me now d m = (bundle, m')"
  shows "index_complete m'"
proof -
  obtain sttl rttl where ttl: "issue_ttls e session_ttl refresh_ttl remember_me = (sttl, rttl)" by fastforce
  obtain st rt rot where dd: "d = (st, rt, rot)" by (cases d)
  let ?t = "\<lparr>tk_username = username, tk_created_at = now,
      tk_expires_at = min (now + sttl * se_ticks e) (now + rttl * se_ticks e),
      tk_refresh_expires_at = now + rttl * se_ticks e, tk_user_agent = user_agent, tk_remote_address = remote_address,
      tk_last_seen = now, tk_remember_me = remember_me, tk_device_label = derive_device_label user_agent remote_address,
      tk_refresh_token_hash = se_hash e rt, tk_rotation_id = rot\<rparr>"
  show ?thesis
    by (rule insert_session_complete[OF m, of "se_hash e st" ?t])
      (use i d in \<open>auto simp: dd ttl issue_insert_def fresh_draw_def Let_def\<close>)
qed

lemma refresh_locked_complete:
  assumes m: "mgr_ok used grants m" "index_complete m" and d: "fresh_draw e d used"
    and r: "refresh_locked e refresh_token user_agent remote_address now d m = (result, persist, m')"
  shows "index_complete m'"
proof (cases "map_of (sm_refresh_index m) (se_hash e refresh_token)")
  case None
  with r m(2) show ?thesis by (simp add: refresh_locked_def)
next
  case (Some h)
  have "index_sound m" using m(1) by (simp add: mgr_ok_def)
  from index_soundD[OF this Some] obtain t where
    t: "map_of (sm_session_tokens m) h = Some t" "tk_refresh_token_hash t = se_hash e refresh_token" "se_hash e refresh_token \<noteq> []" .
  let ?m = "erase_session h t m"
  note gone = erase_session_ok[OF m(1) t(1)] erase_session_complete[OF m(2) t(1)]
  have er: "sm_session_tokens ?m = AList.delete h (sm_session_tokens m)"
    "sm_refresh_index ?m = AList.delete (se_hash e refresh_token) (sm_refresh_index m)"
    using t by (simp_all add: erase_session_def erase_refresh_def)
  show ?thesis
  proof (cases "now > tk_refresh_expires_at t")
    case True
    with r Some t have "m' = ?m" by (simp add: refresh_locked_def erase_session_def erase_refresh_def)
    with gone show ?thesis by simp
  next
    case False
    obtain st rt rot where dd: "d = (st, rt, rot)" by (cases d)
    have absent: "map_of (sm_session_tokens m) (se_hash e st) = None"
      using m(1) d unfolding mgr_ok_def fresh_draw_def dd by (metis fst_conv not_None_eq)
    let ?t = "\<lparr>tk_username = tk_username t, tk_created_at = now,
        tk_expires_at = min (now + se_session_token_ttl e * se_ticks e) (tk_refresh_expires_at t),
        tk_refresh_expires_at = tk_refresh_expires_at t, tk_user_agent = user_agent, tk_remote_address = remote_address,
        tk_last_seen = now, tk_remember_me = tk_remember_me t,
        tk_device_label = derive_device_label user_agent remote_address,
        tk_refresh_token_hash = se_hash e rt, tk_rotation_id = rot\<rparr>"
    have m': "m' = m\<lparr>sm_session_tokens := umap_emplace (se_hash e st) ?t (AList.delete h (sm_session_tokens m)),
        sm_refresh_index := AList.update (se_hash e rt) (se_hash e st) (AList.delete (se_hash e refresh_token) (sm_refresh_index m)),
        sm_dirty := True\<rparr>"
      using r False Some t(1) unfolding refresh_locked_def Let_def dd by simp
    show ?thesis by (rule insert_session_complete[OF gone, of "se_hash e st" ?t])
      (use d absent in \<open>simp_all add: m' fresh_draw_def dd er length_delete_notin\<close>)
  qed
qed

lemma use_session_complete:
  assumes m: "index_complete m" and u: "use_session e token now m = (found, persist, m')"
  shows "index_complete m'"
proof (cases "map_of (sm_session_tokens m) (se_hash e token)")
  case None
  with m u show ?thesis by (simp add: use_session_def)
next
  case (Some t)
  have "index_complete (m\<lparr>sm_session_tokens := AList.update (se_hash e token) (t\<lparr>tk_last_seen := now\<rparr>) (sm_session_tokens m), sm_dirty := True\<rparr>)"
    using m Some by (auto simp: index_complete_def)
  with u Some erase_session_complete[OF m Some] m show ?thesis
    by (auto simp: use_session_def Let_def split: if_splits)
qed

lemma session_step_complete:
  assumes "session_step e s t" "session_inv s" "index_complete (ss_mgr s)"
  shows "index_complete (ss_mgr t)"
  using assms
proof (induction rule: session_step.induct)
  case (login s tid d username session_ttl refresh_ttl user_agent remote_address remember_me now issued m)
  then show ?case using issue_insert_complete[of "ss_used s" "ss_grants s" "ss_mgr s" e d] by (simp add: session_inv_def)
next
  case (refresh s tid refresh_token d user_agent remote_address now result persist m)
  then show ?case using refresh_locked_complete[of "ss_used s" "ss_grants s" "ss_mgr s" e d] by (simp add: session_inv_def)
next
  case (revoke s tid h removed m)
  then show ?case using erase_session_complete by (auto simp: revoke_locked_def split: option.splits)
qed (auto simp: session_inv_def mgr_ok_def save_begin_def save_end_def split: if_splits intro: cleanup_complete use_session_complete)

text \<open>Loading enters every session with a refresh token into the index.\<close>

lemma load_nodes_indexed:
  assumes "map_of (fst (load_nodes e now nodes)) h = Some t" "tk_refresh_token_hash t \<noteq> []"
  shows "map_of (fst (snd (load_nodes e now nodes))) (tk_refresh_token_hash t) \<noteq> None"
  using assms
proof (induction nodes arbitrary: h t rule: rev_induct)
  case (snoc node nodes)
  obtain tokens index b where st: "load_nodes e now nodes = (tokens, index, b)" by (cases "load_nodes e now nodes")
  have eq: "load_nodes e now (nodes @ [node]) = load_node e now node (tokens, index, b)"
    using st by (simp add: load_nodes_def)
  show ?case using snoc.IH[of h t] snoc.prems unfolding eq st
    by (cases "get_or (sn_hash node) [] = h") (auto simp: load_node_def case_prod_beta Let_def umap_emplace_def split: if_splits)
qed (simp add: load_nodes_def)

lemma distinct_refresh:
  assumes "umap_ok ps" "distinct (map fst (refresh_pairs ps))" "map_of ps h = Some t" "map_of ps h' = Some t'"
    "tk_refresh_token_hash t = tk_refresh_token_hash t'" "tk_refresh_token_hash t \<noteq> []"
  shows "h = h'"
proof -
  have "(tk_refresh_token_hash t, h) \<in> set (refresh_pairs ps)" "(tk_refresh_token_hash t, h') \<in> set (refresh_pairs ps)"
    using map_of_SomeD[OF assms(3)] map_of_SomeD[OF assms(4)] assms(5,6) by (force simp: refresh_pairs_def)+
  with assms(2) show ?thesis by (metis map_of_is_SomeI option.inject)
qed

lemma session_init_complete:
  assumes "session_init e s" "distinct (map fst (refresh_pairs (sm_session_tokens (ss_mgr s))))"
  shows "index_complete (ss_mgr s)"
proof -
  have um: "umap_ok (sm_session_tokens (ss_mgr s))" and snd: "index_sound (ss_mgr s)"
    using session_init_inv[OF assms(1)] by (simp_all add: session_inv_def mgr_ok_def)
  obtain io io_save now now_save w where l: "load_session_tokens e io io_save now now_save w = \<lparr>sw_mgr = ss_mgr s, sw_file = ss_file s\<rparr>"
    using assms(1) by (auto simp: session_init_def)
  define st where "st = (if sw_file w \<noteq> None \<and> io_readable io then load_nodes e now (file_sessions (sw_file w)) else ([], [], False))"
  have "ss_mgr s = sw_mgr (load_session_tokens e io io_save now now_save w)" by (simp add: l)
  then have m: "sm_session_tokens (ss_mgr s) = fst st" "sm_refresh_index (ss_mgr s) = fst (snd st)"
    by (simp_all add: load_session_tokens_def st_def file_sessions_def Let_def case_prod_beta)
  show ?thesis unfolding index_complete_def
  proof (intro allI impI)
    fix h t assume a: "map_of (sm_session_tokens (ss_mgr s)) h = Some t" "tk_refresh_token_hash t \<noteq> []"
    then have "map_of (sm_refresh_index (ss_mgr s)) (tk_refresh_token_hash t) \<noteq> None"
      using load_nodes_indexed[of e now "file_sessions (sw_file w)" h t] unfolding m st_def by (simp split: if_splits)
    then obtain h' where h': "map_of (sm_refresh_index (ss_mgr s)) (tk_refresh_token_hash t) = Some h'" by blast
    obtain t' where "map_of (sm_session_tokens (ss_mgr s)) h' = Some t'" "tk_refresh_token_hash t' = tk_refresh_token_hash t"
      by (rule index_soundD[OF snd h'])
    with distinct_refresh[OF um assms(2) a(1)] a(2) h' show "map_of (sm_refresh_index (ss_mgr s)) (tk_refresh_token_hash t) = Some h"
      by simp
  qed
qed

lemma reachable_complete:
  assumes "session_env_ok e" "session_init e s0" "(session_step e)\<^sup>*\<^sup>* s0 s"
    "distinct (map fst (refresh_pairs (sm_session_tokens (ss_mgr s0))))"
  shows "index_complete (ss_mgr s)"
  using assms(3)
proof (induction rule: rtranclp_induct)
  case base
  show ?case by (rule session_init_complete[OF assms(2,4)])
next
  case (step s t)
  then show ?case using session_step_complete sessions.reach_inv[OF _ step.hyps(1)] assms(1,2) by blast
qed

text \<open>A complete index is the index of the table.\<close>

lemma complete_index:
  assumes um: "umap_ok (sm_session_tokens m)" and snd: "index_sound m" and cm: "index_complete m"
  shows "distinct (map fst (refresh_pairs (sm_session_tokens m)))" "map_of (refresh_pairs (sm_session_tokens m)) = map_of (sm_refresh_index m)"
proof -
  let ?ps = "sm_session_tokens m"
  have in_pairs: "(rh, h) \<in> set (refresh_pairs ?ps) \<longleftrightarrow> map_of (sm_refresh_index m) rh = Some h" for rh h
  proof
    assume "(rh, h) \<in> set (refresh_pairs ?ps)"
    then obtain t where "(h, t) \<in> set ?ps" "tk_refresh_token_hash t = rh" "rh \<noteq> []" by (auto simp: refresh_pairs_def)
    then show "map_of (sm_refresh_index m) rh = Some h" by (intro index_completeD[OF cm, of h t]) (simp_all add: in_set_umap[OF um])
  next
    assume i: "map_of (sm_refresh_index m) rh = Some h"
    obtain t where "map_of ?ps h = Some t" "tk_refresh_token_hash t = rh" "rh \<noteq> []" by (rule index_soundD[OF snd i])
    then show "(rh, h) \<in> set (refresh_pairs ?ps)" using map_of_SomeD[of ?ps h t] by (force simp: refresh_pairs_def)
  qed
  have keys: "distinct (map fst ?ps)" using um by simp
  have "map snd (refresh_pairs ?ps) = map fst (filter (\<lambda>p. tk_refresh_token_hash (snd p) \<noteq> []) ?ps)"
    by (simp add: refresh_pairs_def)
  then have "distinct (refresh_pairs ?ps)" using distinct_map_filter[OF keys] by (metis distinct_map)
  moreover have "inj_on fst (set (refresh_pairs ?ps))"
  proof (rule inj_onI)
    fix x y assume "x \<in> set (refresh_pairs ?ps)" "y \<in> set (refresh_pairs ?ps)" "fst x = fst y"
    moreover obtain a b c d where "x = (a, b)" "y = (c, d)" by (cases x, cases y)
    ultimately show "x = y" by (simp add: in_pairs)
  qed
  ultimately show d: "distinct (map fst (refresh_pairs ?ps))" by (simp add: distinct_map)
  show "map_of (refresh_pairs ?ps) = map_of (sm_refresh_index m)"
  proof
    fix rh show "map_of (refresh_pairs ?ps) rh = map_of (sm_refresh_index m) rh"
      using in_pairs[of rh] map_of_eq_Some_iff[OF d, of rh] by (metis option.exhaust)
  qed
qed

lemma map_of_refresh_kept:
  assumes "umap_ok ps" "distinct (map fst (refresh_pairs ps))"
  shows "map_of (refresh_pairs (kept e now ps)) rh =
    (case map_of (refresh_pairs ps) rh of None \<Rightarrow> None | Some h \<Rightarrow> if map_of (kept e now ps) h = None then None else Some h)"
  using assms
proof (induction ps)
  case (Cons p ps)
  have out: "map_of (kept e now ps) (fst p) = None"
  proof -
    have "fst ` set (kept e now ps) \<subseteq> fst ` set ps" by (force simp: kept_def)
    then show ?thesis using Cons.prems(1) by (auto simp: map_of_eq_None_iff)
  qed
  have other: "h \<noteq> fst p" if "map_of (refresh_pairs ps) rh = Some h" for rh h
    using map_of_SomeD[OF that] Cons.prems(1) by (force simp: refresh_pairs_def)
  have dup: "map_of (refresh_pairs ps) (tk_refresh_token_hash (snd p)) = None" if "tk_refresh_token_hash (snd p) \<noteq> []"
    using Cons.prems(2) that by (force simp: refresh_pairs_def map_of_eq_None_iff)
  have IH: "map_of (refresh_pairs (kept e now ps)) rh =
    (case map_of (refresh_pairs ps) rh of None \<Rightarrow> None | Some h \<Rightarrow> if map_of (kept e now ps) h = None then None else Some h)"
    by (rule Cons.IH) (use Cons.prems in \<open>auto simp: refresh_pairs_def split: if_splits\<close>)
  have kc: "kept e now (p # ps) = (if now > tk_refresh_expires_at (whole_seconds e (snd p)) then kept e now ps
      else (fst p, whole_seconds e (snd p)) # kept e now ps)" by (simp add: kept_def)
  have rc: "refresh_pairs (q # qs) = (if tk_refresh_token_hash (snd q) \<noteq> [] then (tk_refresh_token_hash (snd q), fst q) # refresh_pairs qs
      else refresh_pairs qs)" for q qs by (simp add: refresh_pairs_def)
  show ?case using IH out other dup unfolding kc rc[of p] by (auto simp: rc split: option.splits)
qed (simp add: kept_def refresh_pairs_def)

text \<open>
  Sessions survive a restart (C24). The state is any reachable one of a server whose sessions found at
  startup had different refresh tokens. If it has unsaved changes, saving it and loading the file later
  gives its table, with times cut to whole seconds and without the sessions whose refresh lifetime is
  over, and its refresh index, restricted to the sessions that were kept; nothing is rewritten, no session
  gains lifetime, and the rest of the file is untouched. With no unsaved changes the save does nothing.
  The times of the sessions are not before the epoch, the file can be read and the write succeeds.
\<close>

theorem session_save_load:
  assumes e: "session_env_ok e" and reach: "session_init e s0" "(session_step e)\<^sup>*\<^sup>* s0 s"
    and start: "distinct (map fst (refresh_pairs (sm_session_tokens (ss_mgr s0))))"
    and ps: "ps = sm_session_tokens (ss_mgr s)" "\<forall>p \<in> set ps. times_ok (snd p)"
    and io: "io_readable io" "io_write io = Write_ok" "io_readable io2"
    and w: "w = save_session_tokens e io now \<lparr>sw_mgr = ss_mgr s, sw_file = ss_file s\<rparr>"
    and w': "w' = load_session_tokens e io2 io3 now2 now3 w"
  shows "if \<not> sm_dirty (ss_mgr s) then w = \<lparr>sw_mgr = ss_mgr s, sw_file = ss_file s\<rparr> else
    sm_session_tokens (sw_mgr w') = kept e now2 ps \<and>
    map_of (sm_refresh_index (sw_mgr w')) = (\<lambda>rh. case map_of (sm_refresh_index (ss_mgr s)) rh of None \<Rightarrow> None
      | Some h \<Rightarrow> if map_of (kept e now2 ps) h = None then None else Some h) \<and>
    \<not> sm_dirty (sw_mgr w) \<and> \<not> sm_dirty (sw_mgr w') \<and>
    sw_file w' = Some ((case ss_file s of None \<Rightarrow> empty_root | Some r \<Rightarrow> r)\<lparr>rt_session_tokens := Some (map (session_to_node e) ps)\<rparr>) \<and>
    (\<forall>h t. map_of (kept e now2 ps) h = Some t \<longrightarrow> (\<exists>t0. map_of ps h = Some t0 \<and> tk_username t = tk_username t0 \<and>
       now2 \<le> tk_refresh_expires_at t \<and> tk_expires_at t \<le> tk_expires_at t0 \<and> tk_refresh_expires_at t \<le> tk_refresh_expires_at t0))"
proof (cases "sm_dirty (ss_mgr s)")
  case False
  then show ?thesis by (simp add: w save_session_tokens_def save_begin_def)
next
  case dirty: True
  have ticks: "0 < se_ticks e" using e by (simp add: session_env_ok_def)
  have inv: "mgr_ok (ss_used s) (ss_grants s) (ss_mgr s)"
    using sessions.reach_inv[OF _ reach(2)] e reach(1) by (simp add: session_inv_def)
  then have um: "umap_ok ps" and good: "\<forall>h t. map_of ps h = Some t \<longrightarrow> token_ok h t" and snd: "index_sound (ss_mgr s)"
    using ps(1) by (simp_all add: mgr_ok_def)
  note ix = complete_index[OF um[unfolded ps(1)] snd reachable_complete[OF e reach start], folded ps(1)]
  have tok: "\<forall>p \<in> set ps. token_ok (fst p) (snd p) \<and> times_ok (snd p)"
    using good ps(2) in_set_umap[OF um] by (metis prod.collapse)
  let ?root = "(case ss_file s of None \<Rightarrow> empty_root | Some r \<Rightarrow> r)\<lparr>rt_session_tokens := Some (map (session_to_node e) ps)\<rparr>"
  have fl: "sw_file w = Some ?root" and clean: "\<not> sm_dirty (sw_mgr w)"
    unfolding w save_session_tokens_def save_begin_def save_write_def read_root_def write_root_def save_end_def
    using dirty io(1-2) ps(1) by (cases "ss_file s"; simp)+
  have l: "load_nodes e now2 (map (session_to_node e) ps) = (kept e now2 ps, refresh_pairs (kept e now2 ps), False)"
    by (rule load_saved_nodes[OF ticks um tok ix(1)])
  have "w' = w\<lparr>sw_mgr := \<lparr>sm_session_tokens = kept e now2 ps, sm_refresh_index = refresh_pairs (kept e now2 ps),
      sm_dirty = False, sm_last_persist = now2\<rparr>\<rparr>"
    unfolding w' load_session_tokens_def Let_def using io(3) by (simp add: fl l)
  moreover have "map_of (refresh_pairs (kept e now2 ps)) = (\<lambda>rh. case map_of (sm_refresh_index (ss_mgr s)) rh of None \<Rightarrow> None
      | Some h \<Rightarrow> if map_of (kept e now2 ps) h = None then None else Some h)"
    using map_of_refresh_kept[OF um ix(1)] unfolding ix(2) by (rule ext)
  moreover have "\<exists>t0. map_of ps h = Some t0 \<and> tk_username t = tk_username t0 \<and> now2 \<le> tk_refresh_expires_at t \<and>
      tk_expires_at t \<le> tk_expires_at t0 \<and> tk_refresh_expires_at t \<le> tk_refresh_expires_at t0"
    if a: "map_of (kept e now2 ps) h = Some t" for h t
  proof -
    obtain t0 where t0: "map_of ps h = Some t0" "t = whole_seconds e t0" by (rule kept_lookup[OF um a])
    have "times_ok t0" using tok map_of_SomeD[OF t0(1)] by auto
    moreover have "now2 \<le> tk_refresh_expires_at t" using map_of_SomeD[OF a] by (auto simp: kept_def)
    ultimately show ?thesis using t0 to_seconds_le[OF _ ticks] by (simp add: whole_seconds_def times_ok_def Let_def)
  qed
  ultimately show ?thesis using fl clean dirty by simp
qed

section \<open>A lost revocation\<close>

text \<open>A server with one stored session and two more threads.\<close>

definition sdemo_env :: session_env where
  "sdemo_env = \<lparr>se_hash = (\<lambda>x. CHR ''#'' # x), se_ticks = 1, se_session_token_ttl = 3600, se_remember_me_ttl = 0\<rparr>"

definition sdemo_token :: "string \<Rightarrow> session_token" where
  "sdemo_token rh = \<lparr>tk_username = ''admin'', tk_created_at = 0, tk_expires_at = 3600, tk_refresh_expires_at = 86400,
     tk_user_agent = [], tk_remote_address = ''::1'', tk_last_seen = 0, tk_remember_me = False, tk_device_label = ''::1'',
     tk_refresh_token_hash = rh, tk_rotation_id = ''r''\<rparr>"

definition sdemo_mgr :: "(string, session_token) umap \<Rightarrow> (string, string) umap \<Rightarrow> bool \<Rightarrow> session_manager" where
  "sdemo_mgr tokens index dirty = \<lparr>sm_session_tokens = tokens, sm_refresh_index = index, sm_dirty = dirty, sm_last_persist = 0\<rparr>"

definition sdemo_file :: "(string, session_token) umap \<Rightarrow> state_root option" where
  "sdemo_file ps = Some (empty_root\<lparr>rt_session_tokens := Some (map (session_to_node sdemo_env) ps)\<rparr>)"

definition sdemo_io :: io_outcome where "sdemo_io = \<lparr>io_readable = True, io_write = Write_ok\<rparr>"

abbreviation sdemo_x :: "string \<times> session_token" where "sdemo_x \<equiv> (''#x'', sdemo_token ''#rx'')"
abbreviation sdemo_y :: "string \<times> session_token" where "sdemo_y \<equiv> (''#y'', sdemo_token ''#ry'')"

definition sdemo_pc :: "session_pc \<Rightarrow> session_pc \<Rightarrow> nat \<Rightarrow> session_pc" where
  "sdemo_pc a b tid = (if tid = 2 then a else if tid = 3 then b else Idle)"

lemma sdemo_pc_simps [simp]: "sdemo_pc a b 2 = a" "sdemo_pc a b 3 = b" "(sdemo_pc a b)(2 := c) = sdemo_pc c b"
  "(sdemo_pc a b)(3 := c) = sdemo_pc a c" "sdemo_pc Idle Idle tid = Idle"
  by (auto simp: sdemo_pc_def)

definition sdemo_start :: session_sys where
  "sdemo_start = \<lparr>ss_mgr = sdemo_mgr [sdemo_x] [(''#rx'', ''#x'')] False, ss_file = sdemo_file [sdemo_x], ss_pc = sdemo_pc Idle Idle,
     ss_used = {''#x'', ''#rx''}, ss_grants = {(''admin'', 86400)}\<rparr>"

lemma sdemo_env_ok: "session_env_ok sdemo_env"
  by (simp add: session_env_ok_def sdemo_env_def)

lemma sdemo_load:
  "load_session_tokens sdemo_env sdemo_io sdemo_io 0 0 \<lparr>sw_mgr = m, sw_file = sdemo_file ps\<rparr> =
     (let (tokens, index, b) = load_nodes sdemo_env 0 (map (session_to_node sdemo_env) ps);
          w = \<lparr>sw_mgr = sdemo_mgr tokens index b, sw_file = sdemo_file ps\<rparr>
      in if b then save_session_tokens sdemo_env sdemo_io 0 w else w)"
  by (simp add: load_session_tokens_def sdemo_file_def sdemo_io_def sdemo_mgr_def case_prod_beta Let_def)

lemma sdemo_whole [simp]: "whole_seconds sdemo_env (sdemo_token rh) = sdemo_token rh"
  by (simp add: whole_seconds_def sdemo_env_def sdemo_token_def to_seconds_nonneg)

lemma sdemo_token_ok: "h \<noteq> [] \<Longrightarrow> rh \<noteq> [] \<Longrightarrow> token_ok h (sdemo_token rh) \<and> times_ok (sdemo_token rh)"
  by (simp add: token_ok_def times_ok_def sdemo_token_def)

lemma sdemo_token_rh [simp]: "tk_refresh_token_hash (sdemo_token rh) = rh" "tk_refresh_expires_at (sdemo_token rh) = 86400"
  by (simp_all add: sdemo_token_def)

lemma sdemo_load_x: "load_nodes sdemo_env 0 (map (session_to_node sdemo_env) [sdemo_x]) = ([sdemo_x], [(''#rx'', ''#x'')], False)"
  using load_saved_nodes[of sdemo_env "[sdemo_x]" 0] sdemo_token_ok[of "''#x''" "''#rx''"]
  by (simp add: refresh_pairs_def kept_def sdemo_env_def[THEN arg_cong[of _ _ se_ticks]])

lemma sdemo_load_xy: "load_nodes sdemo_env 0 (map (session_to_node sdemo_env) [sdemo_x, sdemo_y]) =
    ([sdemo_x, sdemo_y], [(''#rx'', ''#x''), (''#ry'', ''#y'')], False)"
  using load_saved_nodes[of sdemo_env "[sdemo_x, sdemo_y]" 0] sdemo_token_ok[of "''#x''" "''#rx''"] sdemo_token_ok[of "''#y''" "''#ry''"]
  by (simp add: refresh_pairs_def kept_def sdemo_env_def[THEN arg_cong[of _ _ se_ticks]])

lemma sdemo_init: "session_init sdemo_env sdemo_start"
proof -
  have "load_session_tokens sdemo_env sdemo_io sdemo_io 0 0 \<lparr>sw_mgr = sdemo_mgr [] [] False, sw_file = sdemo_file [sdemo_x]\<rparr> =
      \<lparr>sw_mgr = ss_mgr sdemo_start, sw_file = ss_file sdemo_start\<rparr>"
    unfolding sdemo_load sdemo_load_x by (simp add: sdemo_start_def)
  moreover have "ss_used sdemo_start = {''#x'', ''#rx''}" "ss_grants sdemo_start = {(''admin'', 86400)}"
    "sm_session_tokens (ss_mgr sdemo_start) = [sdemo_x]" "\<forall>tid. ss_pc sdemo_start tid = Idle"
    by (simp_all add: sdemo_start_def sdemo_mgr_def)
  ultimately show ?thesis unfolding session_init_def by (auto simp: sdemo_token_def)
qed

definition sdemo_at :: "session_manager \<Rightarrow> (string, session_token) umap \<Rightarrow> session_pc \<Rightarrow> session_pc \<Rightarrow> session_sys" where
  "sdemo_at m ps pc1 pc2 = \<lparr>ss_mgr = m, ss_file = sdemo_file ps, ss_pc = sdemo_pc pc1 pc2,
     ss_used = {''#x'', ''#rx'', ''#y'', ''#ry''}, ss_grants = {(''admin'', 86400)}\<rparr>"

abbreviation sdemo_both :: "bool \<Rightarrow> session_manager" where
  "sdemo_both \<equiv> sdemo_mgr [sdemo_x, sdemo_y] [(''#rx'', ''#x''), (''#ry'', ''#y'')]"

abbreviation sdemo_rest :: "bool \<Rightarrow> session_manager" where
  "sdemo_rest \<equiv> sdemo_mgr [sdemo_y] [(''#ry'', ''#y'')]"

lemma sdemo_login: "session_step sdemo_env sdemo_start (sdemo_at (sdemo_both True) [sdemo_x] Cleaning Idle)"
proof -
  have "issue_insert sdemo_env ''admin'' 0 0 [] ''::1'' False 0 (''y'', ''ry'', ''r'') (ss_mgr sdemo_start) =
      (\<lparr>sb_session_token = ''y'', sb_refresh_token = ''ry'', sb_session_ttl = 3600, sb_refresh_ttl = 86400, sb_remember_me = False\<rparr>,
       sdemo_both True)"
    by (simp add: issue_insert_def issue_ttls_def sdemo_env_def sdemo_start_def sdemo_mgr_def sdemo_token_def umap_emplace_def
        derive_device_label_def default_refresh_token_ttl_def to_seconds_nonneg Let_def)
  moreover have "fresh_draw sdemo_env (''y'', ''ry'', ''r'') (ss_used sdemo_start)"
    by (simp add: fresh_draw_def sdemo_env_def sdemo_start_def)
  moreover have "ss_pc sdemo_start 2 = Idle" by (simp add: sdemo_start_def)
  ultimately show ?thesis
    using session_step.login[of sdemo_start 2 sdemo_env "(''y'', ''ry'', ''r'')" "''admin''" 0 0 "[]" "''::1''" False 0]
    by (simp add: sdemo_at_def sdemo_start_def draw_hashes_def sdemo_env_def issue_ttls_def default_refresh_token_ttl_def
        insert_commute)
qed

lemma sdemo_cleanup: "session_step sdemo_env (sdemo_at (sdemo_both True) [sdemo_x] Cleaning Idle) (sdemo_at (sdemo_both True) [sdemo_x] Saving Idle)"
  using session_step.login_cleanup[of "sdemo_at (sdemo_both True) [sdemo_x] Cleaning Idle" 2 0 False "sdemo_both True" sdemo_env]
  by (simp add: sdemo_at_def sdemo_mgr_def cleanup_expired_session_tokens_def)

lemma sdemo_snapshot:
  "session_step sdemo_env (sdemo_at (sdemo_both True) [sdemo_x] Saving Idle) (sdemo_at (sdemo_both False) [sdemo_x] (Writing [sdemo_x, sdemo_y]) Idle)"
  using session_step.save_begin[of "sdemo_at (sdemo_both True) [sdemo_x] Saving Idle" 2 "Some [sdemo_x, sdemo_y]" "sdemo_both False" sdemo_env]
  by (simp add: sdemo_at_def sdemo_mgr_def save_begin_def)

lemma sdemo_logout:
  "session_step sdemo_env (sdemo_at (sdemo_both False) [sdemo_x] pc Idle) (sdemo_at (sdemo_rest True) [sdemo_x] pc Saving)"
  using session_step.revoke[of "sdemo_at (sdemo_both False) [sdemo_x] pc Idle" 3 "''#x''" True "sdemo_rest True" sdemo_env]
  by (simp add: sdemo_at_def sdemo_mgr_def revoke_locked_def erase_session_def erase_refresh_def)

lemma sdemo_snapshot2:
  "session_step sdemo_env (sdemo_at (sdemo_rest True) [sdemo_x] pc Saving) (sdemo_at (sdemo_rest False) [sdemo_x] pc (Writing [sdemo_y]))"
  using session_step.save_begin[of "sdemo_at (sdemo_rest True) [sdemo_x] pc Saving" 3 "Some [sdemo_y]" "sdemo_rest False" sdemo_env]
  by (simp add: sdemo_at_def sdemo_mgr_def save_begin_def)

lemma sdemo_write: "save_write sdemo_env sdemo_io ps (sdemo_file qs) = (False, sdemo_file ps)"
  by (simp add: save_write_def sdemo_io_def sdemo_file_def read_root_def write_root_def)

lemma sdemo_save2:
  "session_step sdemo_env (sdemo_at (sdemo_rest False) [sdemo_x] pc (Writing [sdemo_y])) (sdemo_at (sdemo_rest False) [sdemo_y] pc (Ending False))"
  using session_step.save_write[of "sdemo_at (sdemo_rest False) [sdemo_x] pc (Writing [sdemo_y])" 3 "[sdemo_y]" sdemo_env sdemo_io False]
  by (simp add: sdemo_at_def sdemo_write)

lemma sdemo_end2:
  "session_step sdemo_env (sdemo_at (sdemo_rest False) [sdemo_y] pc (Ending False)) (sdemo_at (sdemo_rest False) [sdemo_y] pc Idle)"
  using session_step.save_end[of "sdemo_at (sdemo_rest False) [sdemo_y] pc (Ending False)" 3 False sdemo_env 0]
  by (simp add: sdemo_at_def save_end_def sdemo_mgr_def)

lemma sdemo_save1:
  "session_step sdemo_env (sdemo_at (sdemo_rest False) [sdemo_y] (Writing [sdemo_x, sdemo_y]) Idle) (sdemo_at (sdemo_rest False) [sdemo_x, sdemo_y] (Ending False) Idle)"
  using session_step.save_write[of "sdemo_at (sdemo_rest False) [sdemo_y] (Writing [sdemo_x, sdemo_y]) Idle" 2 "[sdemo_x, sdemo_y]" sdemo_env sdemo_io False]
  by (simp add: sdemo_at_def sdemo_write)

lemma sdemo_end1:
  "session_step sdemo_env (sdemo_at (sdemo_rest False) [sdemo_x, sdemo_y] (Ending False) Idle) (sdemo_at (sdemo_rest False) [sdemo_x, sdemo_y] Idle Idle)"
  using session_step.save_end[of "sdemo_at (sdemo_rest False) [sdemo_x, sdemo_y] (Ending False) Idle" 2 False sdemo_env 0]
  by (simp add: sdemo_at_def save_end_def sdemo_mgr_def)

lemma sdemo_race: "(session_step sdemo_env)\<^sup>*\<^sup>* sdemo_start (sdemo_at (sdemo_rest False) [sdemo_x, sdemo_y] Idle Idle)"
  by (meson converse_rtranclp_into_rtranclp rtranclp.rtrancl_refl sdemo_login sdemo_cleanup sdemo_snapshot sdemo_logout
      sdemo_snapshot2 sdemo_save2 sdemo_end2 sdemo_save1 sdemo_end1)

text \<open>
  (C26) A revocation can be lost: the snapshot of a save is taken before the lock of the state file, so a
  thread with an older snapshot may write last. There is a run in which a session is revoked, every save is
  finished and the manager considers the file up to date, and yet the file still has the session, which is
  accepted again after a restart.
\<close>

theorem revocation_lost_on_restart:
  "\<exists>e s0 s token now io. session_env_ok e \<and> session_init e s0 \<and> (session_step e)\<^sup>*\<^sup>* s0 s \<and>
     fst (use_session e token now (ss_mgr s0)) \<noteq> None \<and>
     (\<forall>tid. ss_pc s tid = Idle) \<and> \<not> sm_dirty (ss_mgr s) \<and> fst (use_session e token now (ss_mgr s)) = None \<and>
     fst (use_session e token now (sw_mgr (load_session_tokens e io io now now \<lparr>sw_mgr = ss_mgr s, sw_file = ss_file s\<rparr>))) \<noteq> None"
proof (intro exI conjI)
  let ?s = "sdemo_at (sdemo_rest False) [sdemo_x, sdemo_y] Idle Idle"
  show "session_env_ok sdemo_env" "session_init sdemo_env sdemo_start" "(session_step sdemo_env)\<^sup>*\<^sup>* sdemo_start ?s"
    by (rule sdemo_env_ok sdemo_init sdemo_race)+
  show "fst (use_session sdemo_env ''x'' 0 (ss_mgr sdemo_start)) \<noteq> None" "fst (use_session sdemo_env ''x'' 0 (ss_mgr ?s)) = None"
    "\<not> sm_dirty (ss_mgr ?s)" "\<forall>tid. ss_pc ?s tid = Idle"
    by (simp_all add: use_session_def sdemo_start_def sdemo_at_def sdemo_mgr_def sdemo_env_def sdemo_token_def Let_def)
  have "sw_mgr (load_session_tokens sdemo_env sdemo_io sdemo_io 0 0 \<lparr>sw_mgr = ss_mgr ?s, sw_file = ss_file ?s\<rparr>) = sdemo_both False"
    using sdemo_load[of "ss_mgr ?s" "[sdemo_x, sdemo_y]"] unfolding sdemo_load_xy by (simp add: sdemo_at_def)
  then show "fst (use_session sdemo_env ''x'' 0 (sw_mgr (load_session_tokens sdemo_env sdemo_io sdemo_io 0 0
      \<lparr>sw_mgr = ss_mgr ?s, sw_file = ss_file ?s\<rparr>))) \<noteq> None"
    by (simp add: use_session_def sdemo_mgr_def sdemo_env_def sdemo_token_def Let_def)
qed

section \<open>Examples\<close>

theorem ended_session_final_witness:
  "fst (use_session sdemo_env ''x'' 0 (sdemo_rest True)) = None \<and>
   fst (refresh_locked sdemo_env ''rx'' [] [] 0 (''a'', ''b'', ''c'') (sdemo_rest True)) = None"
proof -
  let ?s = "sdemo_at (sdemo_both False) [sdemo_x] (Writing [sdemo_x, sdemo_y]) Idle" and ?s1 = "sdemo_at (sdemo_rest True) [sdemo_x] (Writing [sdemo_x, sdemo_y]) Saving"
  have "(session_step sdemo_env)\<^sup>*\<^sup>* sdemo_start ?s"
    by (meson converse_rtranclp_into_rtranclp rtranclp.rtrancl_refl sdemo_login sdemo_cleanup sdemo_snapshot)
  moreover have "ss_mgr ?s1 = snd (revoke_locked (se_hash sdemo_env ''x'') (ss_mgr ?s))"
    "map_of (sm_refresh_index (ss_mgr ?s)) (se_hash sdemo_env ''rx'') = Some (se_hash sdemo_env ''x'')"
    by (simp_all add: sdemo_at_def sdemo_mgr_def sdemo_env_def revoke_locked_def erase_session_def erase_refresh_def)
  ultimately have "fst (use_session sdemo_env ''x'' 0 (ss_mgr ?s1)) = None \<and>
      fst (refresh_locked sdemo_env ''rx'' [] [] 0 (''a'', ''b'', ''c'') (ss_mgr ?s1)) = None"
    using ended_session_final[OF sdemo_env_ok sdemo_init _ _ sdemo_logout _ rtranclp.rtrancl_refl] by blast
  then show ?thesis by (simp add: sdemo_at_def)
qed

theorem session_within_login_witness:
  "\<exists>limit. (0::int) \<le> 3600 \<and> 3600 \<le> limit \<and>
    ((\<exists>h t0. map_of (sm_session_tokens (ss_mgr sdemo_start)) h = Some t0 \<and> tk_username t0 = ''admin'' \<and> tk_refresh_expires_at t0 = limit) \<or>
     (\<exists>s1 s2. (session_step sdemo_env)\<^sup>*\<^sup>* sdemo_start s1 \<and> session_step sdemo_env s1 s2 \<and> login_step sdemo_env ''admin'' limit s1 s2 \<and>
       (session_step sdemo_env)\<^sup>*\<^sup>* s2 sdemo_start))"
proof -
  have "use_session sdemo_env ''x'' 0 (ss_mgr sdemo_start) = (Some (sdemo_token ''#rx''), False, ss_mgr sdemo_start)"
    by (simp add: use_session_def sdemo_start_def sdemo_mgr_def sdemo_env_def sdemo_token_def Let_def)
  from session_within_login[OF sdemo_env_ok sdemo_init rtranclp.rtrancl_refl this] show ?thesis by (simp add: sdemo_token_def)
qed

theorem session_save_load_witness:
  "let w = load_session_tokens sdemo_env sdemo_io sdemo_io 0 0
     (save_session_tokens sdemo_env sdemo_io 0 \<lparr>sw_mgr = sdemo_both True, sw_file = sdemo_file [sdemo_x]\<rparr>)
   in sm_session_tokens (sw_mgr w) = [sdemo_x, sdemo_y] \<and> map_of (sm_refresh_index (sw_mgr w)) ''#ry'' = Some ''#y''"
proof -
  let ?s = "sdemo_at (sdemo_both True) [sdemo_x] Cleaning Idle"
  have steps: "(session_step sdemo_env)\<^sup>*\<^sup>* sdemo_start ?s" using sdemo_login by blast
  have ps: "[sdemo_x, sdemo_y] = sm_session_tokens (ss_mgr ?s)" by (simp add: sdemo_at_def sdemo_mgr_def)
  have start: "distinct (map fst (refresh_pairs (sm_session_tokens (ss_mgr sdemo_start))))"
    by (simp add: sdemo_start_def sdemo_mgr_def sdemo_token_def refresh_pairs_def)
  have "\<forall>p \<in> set [sdemo_x, sdemo_y]. times_ok (snd p)" "io_readable sdemo_io" "io_write sdemo_io = Write_ok"
    by (simp_all add: times_ok_def sdemo_token_def sdemo_io_def)
  note r = session_save_load[OF sdemo_env_ok sdemo_init steps start ps this this(2) refl refl, where now = 0 and ?io3.0 = sdemo_io and ?now2.0 = 0 and ?now3.0 = 0]
  have at: "ss_mgr ?s = sdemo_both True" "ss_file ?s = sdemo_file [sdemo_x]" "sm_dirty (sdemo_both True)"
    "sm_refresh_index (sdemo_both True) = [(''#rx'', ''#x''), (''#ry'', ''#y'')]"
    by (simp_all add: sdemo_at_def sdemo_mgr_def)
  have k: "kept sdemo_env 0 [sdemo_x, sdemo_y] = [sdemo_x, sdemo_y]" by (simp add: kept_def)
  from r have "sm_session_tokens (sw_mgr (load_session_tokens sdemo_env sdemo_io sdemo_io 0 0
     (save_session_tokens sdemo_env sdemo_io 0 \<lparr>sw_mgr = sdemo_both True, sw_file = sdemo_file [sdemo_x]\<rparr>))) = [sdemo_x, sdemo_y]"
    "map_of (sm_refresh_index (sw_mgr (load_session_tokens sdemo_env sdemo_io sdemo_io 0 0
     (save_session_tokens sdemo_env sdemo_io 0 \<lparr>sw_mgr = sdemo_both True, sw_file = sdemo_file [sdemo_x]\<rparr>)))) =
      (\<lambda>rh. case map_of [(''#rx'', ''#x''), (''#ry'', ''#y'')] rh of None \<Rightarrow> None | Some h \<Rightarrow> if map_of [sdemo_x, sdemo_y] h = None then None else Some h)"
    unfolding at(1,2) k using at(3,4) by (simp_all only: not_not if_False if_True simp_thms)
  then show ?thesis unfolding Let_def by (intro conjI) (assumption, simp only:, simp)
qed

end
