(* ===== verification/Api_Tokens.thy ===== *)
theory Api_Tokens
  imports Auth_State "HOL-Library.Char_ord" "HOL-Library.List_Lexorder"
begin

text \<open>
  The API tokens of the configuration API: \<^verbatim>\<open>ApiTokenManager\<close> of \<^verbatim>\<open>http_auth.cpp\<close>,
  with the check the state file's writer makes of the tokens
  (\<^verbatim>\<open>valid_vibeshine_tree\<close> of \<^verbatim>\<open>state_storage_policy.cpp\<close>). An ordered map is an
  association list in the order of its keys, a set of methods a sorted list. The request's JSON is a value
  of \<open>json\<close>, its parser a parameter. The regular expression engine is a parameter: \<open>None\<close> is the
  exception it throws for a pattern that is malformed. The hash is a function, and clock readings and
  random tokens are arguments.
\<close>

section \<open>Ordered maps\<close>

fun omap_put :: "'k::linorder \<Rightarrow> 'v \<Rightarrow> ('k \<times> 'v) list \<Rightarrow> ('k \<times> 'v) list" where
  "omap_put k v [] = [(k, v)]"
| "omap_put k v ((k', v') # m) =
     (if k < k' then (k, v) # (k', v') # m else if k = k' then (k, v) # m else (k', v') # omap_put k v m)"

definition omap_ok :: "('k::linorder \<times> 'v) list \<Rightarrow> bool" where
  "omap_ok m \<longleftrightarrow> sorted_wrt (<) (map fst m)"

lemma map_of_omap_put [simp]: "omap_ok m \<Longrightarrow> map_of (omap_put k v m) = (map_of m)(k \<mapsto> v)"
proof (induction m)
  case (Cons p m)
  then show ?case by (cases p) (auto simp: omap_ok_def fun_eq_iff)
qed simp

lemma keys_omap_put [simp]: "fst ` set (omap_put k v m) = insert k (fst ` set m)"
proof (induction m)
  case (Cons p m)
  then show ?case by (cases p) (simp add: insert_commute)
qed simp

lemma omap_ok_put [simp]: "omap_ok m \<Longrightarrow> omap_ok (omap_put k v m)"
proof (induction m)
  case (Cons p m)
  have "fst ` set (omap_put k v m) = insert k (fst ` set m)" by simp
  with Cons show ?case by (cases p) (fastforce simp: omap_ok_def image_iff)
qed (simp add: omap_ok_def)

lemma omap_ok_umap: "omap_ok m \<Longrightarrow> umap_ok m"
  unfolding omap_ok_def by (meson strict_sorted_iff)

lemma omap_ok_filter: "omap_ok m \<Longrightarrow> omap_ok (filter P m)"
  unfolding omap_ok_def sorted_wrt_map by (rule sorted_wrt_filter)

lemma omap_ok_delete [simp]: "omap_ok m \<Longrightarrow> omap_ok (AList.delete k m)"
  by (simp add: AList.delete_eq omap_ok_filter)

lemma omap_put_last: "omap_ok (m @ [(k, v)]) \<Longrightarrow> omap_put k v m = m @ [(k, v)]"
proof (induction m)
  case (Cons p m)
  then show ?case by (cases p) (auto simp: omap_ok_def)
qed simp

section \<open>Requests\<close>

datatype json = J_null | J_bool bool | J_num int | J_str string | J_arr "json list" | J_obj "(string \<times> json) list"

text \<open>\<^verbatim>\<open>contains\<close> with \<^verbatim>\<open>operator[]\<close>, and \<^verbatim>\<open>get<std::string>\<close>, which throws on another type.\<close>

definition json_member :: "json \<Rightarrow> string \<Rightarrow> json option" where
  "json_member j k = (case j of J_obj m \<Rightarrow> map_of m k | _ \<Rightarrow> None)"

definition json_string :: "json \<Rightarrow> string option" where
  "json_string j = (case j of J_str s \<Rightarrow> Some s | _ \<Rightarrow> None)"

type_synonym scopes = "(string \<times> string list) list"

datatype scope_error = Invalid_scope | Type_error

fun parse_methods :: "json list \<Rightarrow> string list \<Rightarrow> string list option" where
  "parse_methods [] acc = Some acc"
| "parse_methods (j # js) acc = (case json_string j of
     None \<Rightarrow> None | Some m \<Rightarrow> parse_methods js (insort_insert (to_upper m) acc))"

definition parse_json_scope :: "json \<Rightarrow> scope_error + string \<times> string list" where
  "parse_json_scope s = (case (json_member s ''path'', json_member s ''methods'') of
     (Some p, Some (J_arr ms)) \<Rightarrow>
       (case json_string p of None \<Rightarrow> Inl Type_error
        | Some path \<Rightarrow> (case parse_methods ms [] of None \<Rightarrow> Inl Type_error | Some methods \<Rightarrow> Inr (path, methods)))
   | _ \<Rightarrow> Inl Invalid_scope)"

fun parse_scopes_from :: "json list \<Rightarrow> scopes \<Rightarrow> scope_error + scopes" where
  "parse_scopes_from [] acc = Inr acc"
| "parse_scopes_from (s # ss) acc = (case parse_json_scope s of
     Inl er \<Rightarrow> Inl er | Inr (path, methods) \<Rightarrow> parse_scopes_from ss (omap_put path methods acc))"

text \<open>An invalid scope gives no token; a type error leaves the function as an exception.\<close>

datatype 'a thrown = Throws | Returns 'a

definition parse_json_scopes :: "json list \<Rightarrow> scopes option thrown" where
  "parse_json_scopes ss = (case parse_scopes_from ss [] of
     Inl Invalid_scope \<Rightarrow> Returns None | Inl Type_error \<Rightarrow> Throws | Inr sc \<Rightarrow> Returns (Some sc))"

section \<open>Tokens\<close>

record api_token_info =
  ai_hash :: string
  ai_path_methods :: scopes
  ai_username :: string
  ai_created_at :: time_point

type_synonym api_tokens = "(string \<times> api_token_info) list"

record api_env =
  ae_hash :: "string \<Rightarrow> string"
  ae_ticks :: int
  ae_regex :: "string \<Rightarrow> string \<Rightarrow> bool option"
  ae_parse :: "string \<Rightarrow> json option"

definition anchored :: "string \<Rightarrow> string" where
  "anchored scope_path =
     (let pattern = (if scope_path = [] \<or> hd scope_path \<noteq> CHR ''^'' then CHR ''^'' # scope_path else scope_path)
      in if pattern = [] \<or> last pattern \<noteq> CHR ''$'' then pattern @ ''$'' else pattern)"

definition is_method_allowed :: "string \<Rightarrow> string list \<Rightarrow> bool" where
  "is_method_allowed method methods \<longleftrightarrow> list_ex (\<lambda>m. iequals m (to_upper method)) methods"

fun any_scope :: "api_env \<Rightarrow> string \<Rightarrow> string \<Rightarrow> scopes \<Rightarrow> bool option" where
  "any_scope e path method [] = Some False"
| "any_scope e path method ((p, ms) # sc) = (case ae_regex e (anchored p) path of
     None \<Rightarrow> None
   | Some b \<Rightarrow> if b \<and> is_method_allowed method ms then Some True else any_scope e path method sc)"

definition authenticate_token :: "api_env \<Rightarrow> string \<Rightarrow> string \<Rightarrow> string \<Rightarrow> api_tokens \<Rightarrow> bool option" where
  "authenticate_token e token path method tokens =
     (case map_of tokens (ae_hash e token) of
        None \<Rightarrow> Some False
      | Some info \<Rightarrow> any_scope e path method (ai_path_methods info))"

definition authenticate_bearer :: "api_env \<Rightarrow> string \<Rightarrow> string \<Rightarrow> string \<Rightarrow> api_tokens \<Rightarrow> bool option" where
  "authenticate_bearer e raw_auth path method tokens =
     (if length raw_auth \<le> 7 \<or> \<not> starts_with raw_auth ''Bearer '' then Some False
      else authenticate_token e (drop 7 raw_auth) path method tokens)"

section \<open>The state file\<close>

definition scope_to_node :: "string \<times> string list \<Rightarrow> scope_node" where
  "scope_to_node p = \<lparr>cn_path = Some (fst p), cn_methods = Some (snd p)\<rparr>"

definition api_to_node :: "api_env \<Rightarrow> string \<times> api_token_info \<Rightarrow> api_node" where
  "api_to_node e p = \<lparr>an_hash = Some (fst p), an_username = Some (ai_username (snd p)),
     an_created_at = Some (to_seconds (ae_ticks e) (ai_created_at (snd p))),
     an_scopes = Some (map scope_to_node (ai_path_methods (snd p)))\<rparr>"

text \<open>The writer of the auxiliary state refuses a tree with a token it would not accept when reading.\<close>

definition valid_scope_node :: "scope_node \<Rightarrow> bool" where
  "valid_scope_node n \<longleftrightarrow> get_or (cn_path n) [] \<noteq> [] \<and> cn_methods n \<noteq> None \<and> list_all (\<lambda>m. m \<noteq> []) (get_or (cn_methods n) [])"

definition valid_vibeshine_tree :: "state_root \<Rightarrow> bool" where
  "valid_vibeshine_tree r \<longleftrightarrow>
     list_all (\<lambda>n. get_or (an_hash n) [] \<noteq> [] \<and> list_all valid_scope_node (get_or (an_scopes n) [])) (get_or (rt_api_tokens r) []) \<and>
     list_all (\<lambda>n. get_or (sn_hash n) [] \<noteq> []) (get_or (rt_session_tokens r) [])"

definition write_vibeshine_state :: "io_outcome \<Rightarrow> state_root \<Rightarrow> state_root option \<Rightarrow> bool \<times> state_root option" where
  "write_vibeshine_state io r file = (if \<not> valid_vibeshine_tree r then (True, file) else write_root io r file)"

text \<open>The list for the web interface has the fields of the file.\<close>

definition get_api_tokens_list :: "api_env \<Rightarrow> api_tokens \<Rightarrow> api_node list" where
  "get_api_tokens_list e tokens = map (api_to_node e) tokens"

record api_world =
  aw_tokens :: api_tokens
  aw_file :: "state_root option"

text \<open>\<^verbatim>\<open>save_api_tokens\<close>: whether it throws. A file that cannot be read is left as it is, silently.\<close>

definition save_api_tokens :: "api_env \<Rightarrow> io_outcome \<Rightarrow> api_world \<Rightarrow> bool \<times> api_world" where
  "save_api_tokens e io w =
     (case read_root io (aw_file w) of
        None \<Rightarrow> (False, w)
      | Some root \<Rightarrow>
          (let (failed, file) = write_vibeshine_state io (root\<lparr>rt_api_tokens := Some (map (api_to_node e) (aw_tokens w))\<rparr>) (aw_file w)
           in (failed, w\<lparr>aw_file := file\<rparr>)))"

definition create_api_token ::
  "api_env \<Rightarrow> io_outcome \<Rightarrow> json list \<Rightarrow> string \<Rightarrow> string \<Rightarrow> time_point \<Rightarrow> api_world \<Rightarrow> string option thrown \<times> api_world" where
  "create_api_token e io scopes_json username token now w =
     (case parse_json_scopes scopes_json of
        Throws \<Rightarrow> (Throws, w)
      | Returns None \<Rightarrow> (Returns None, w)
      | Returns (Some path_methods) \<Rightarrow>
          (let token_hash = ae_hash e token;
               info = \<lparr>ai_hash = token_hash, ai_path_methods = path_methods, ai_username = username, ai_created_at = now\<rparr>;
               (failed, w') = save_api_tokens e io (w\<lparr>aw_tokens := omap_put token_hash info (aw_tokens w)\<rparr>)
           in (if failed then Throws else Returns (Some token), w')))"

definition generate_api_token ::
  "api_env \<Rightarrow> io_outcome \<Rightarrow> string \<Rightarrow> string \<Rightarrow> string \<Rightarrow> time_point \<Rightarrow> api_world \<Rightarrow> string option thrown \<times> api_world" where
  "generate_api_token e io request_body username token now w =
     (case ae_parse e request_body of
        None \<Rightarrow> (Returns None, w)
      | Some input \<Rightarrow> (case json_member input ''scopes'' of
          Some (J_arr ss) \<Rightarrow> create_api_token e io ss username token now w
        | _ \<Rightarrow> (Returns None, w)))"

definition revoke_api_token_by_hash :: "api_env \<Rightarrow> io_outcome \<Rightarrow> string \<Rightarrow> api_world \<Rightarrow> bool thrown \<times> api_world" where
  "revoke_api_token_by_hash e io h w =
     (if h = [] then (Returns False, w)
      else if map_of (aw_tokens w) h = None then (Returns False, w)
      else let (failed, w') = save_api_tokens e io (w\<lparr>aw_tokens := AList.delete h (aw_tokens w)\<rparr>)
           in (if failed then Throws else Returns True, w'))"

definition parse_scope :: "scope_node \<Rightarrow> (string \<times> string list) option" where
  "parse_scope n =
     (let path = get_or (cn_path n) []; methods = fold insort_insert (get_or (cn_methods n) []) [] in
      if path = [] \<or> methods = [] then None else Some (path, methods))"

text \<open>\<^verbatim>\<open>try_emplace\<close> on an ordered map.\<close>

definition omap_emplace :: "'k::linorder \<Rightarrow> 'v \<Rightarrow> ('k \<times> 'v) list \<Rightarrow> ('k \<times> 'v) list" where
  "omap_emplace k v m = (if map_of m k = None then omap_put k v m else m)"

definition build_scope_map :: "scope_node list \<Rightarrow> scopes" where
  "build_scope_map ns = fold (\<lambda>n out. case parse_scope n of None \<Rightarrow> out | Some (p, ms) \<Rightarrow> omap_emplace p ms out) ns []"

definition load_api_node :: "api_env \<Rightarrow> api_node \<Rightarrow> api_tokens \<Rightarrow> api_tokens" where
  "load_api_node e n tokens =
     (let h = get_or (an_hash n) [] in
      if h = [] then tokens
      else omap_emplace h \<lparr>ai_hash = h, ai_path_methods = (case an_scopes n of None \<Rightarrow> [] | Some ns \<Rightarrow> build_scope_map ns),
             ai_username = get_or (an_username n) [], ai_created_at = get_or (an_created_at n) 0 * ae_ticks e\<rparr> tokens)"

definition load_api_tokens :: "api_env \<Rightarrow> io_outcome \<Rightarrow> api_world \<Rightarrow> api_world" where
  "load_api_tokens e io w = w\<lparr>aw_tokens := (case aw_file w of
     None \<Rightarrow> [] | Some root \<Rightarrow> if io_readable io then fold (load_api_node e) (get_or (rt_api_tokens root) []) [] else [])\<rparr>"

section \<open>What a token grants\<close>

text \<open>The scopes of a request: for each path, the methods of its last scope.\<close>

definition requested :: "(string \<times> string list) list \<Rightarrow> string \<Rightarrow> string list option" where
  "requested scs p = map_of (rev scs) p"

definition scope_json :: "string \<times> string list \<Rightarrow> json" where
  "scope_json p = J_obj [(''path'', J_str (fst p)), (''methods'', J_arr (map J_str (snd p)))]"

lemma parse_methods_strings: "parse_methods (map J_str ms) acc = Some (fold insort_insert (map to_upper ms) acc)"
  by (induction ms arbitrary: acc) (simp_all add: json_string_def)

lemma set_fold_insort: "set (fold insort_insert xs acc) = set acc \<union> set xs"
  by (induction xs arbitrary: acc) (auto simp: set_insort_insert)

lemma parse_scopes_strings:
  "omap_ok acc \<Longrightarrow> \<exists>sc. parse_scopes_from (map scope_json scs) acc = Inr sc \<and> omap_ok sc \<and>
    map_of sc = (\<lambda>p. case requested scs p of None \<Rightarrow> map_of acc p | Some ms \<Rightarrow> Some (fold insort_insert (map to_upper ms) []))"
proof (induction scs arbitrary: acc)
  case Nil
  then show ?case by (simp add: requested_def)
next
  case (Cons p scs)
  obtain path ms where p: "p = (path, ms)" by (cases p)
  let ?ms = "fold insort_insert (map to_upper ms) []"
  have "parse_json_scope (scope_json p) = Inr (path, ?ms)"
    by (simp add: p parse_json_scope_def scope_json_def json_member_def json_string_def parse_methods_strings)
  moreover obtain sc where "parse_scopes_from (map scope_json scs) (omap_put path ?ms acc) = Inr sc" "omap_ok sc"
    "map_of sc = (\<lambda>p. case requested scs p of None \<Rightarrow> map_of (omap_put path ?ms acc) p | Some ms \<Rightarrow> Some (fold insort_insert (map to_upper ms) []))"
    using Cons.IH[of "omap_put path ?ms acc"] Cons.prems by auto
  ultimately show ?case
    using Cons.prems by (auto simp: p requested_def fun_eq_iff map_add_def split: option.splits)
qed

lemma any_scope_iff:
  assumes "\<forall>p \<in> fst ` set sc. ae_regex e (anchored p) path \<noteq> None" "omap_ok sc"
  shows "any_scope e path method sc =
    Some (\<exists>p ms. map_of sc p = Some ms \<and> ae_regex e (anchored p) path = Some True \<and> is_method_allowed method ms)"
proof -
  have "any_scope e path method sc = Some (\<exists>q \<in> set sc. ae_regex e (anchored (fst q)) path = Some True \<and> is_method_allowed method (snd q))"
    using assms(1) by (induction sc) auto
  moreover have "(\<exists>q \<in> set sc. P (fst q) (snd q)) \<longleftrightarrow> (\<exists>p ms. map_of sc p = Some ms \<and> P p ms)" for P
    using in_set_umap[OF omap_ok_umap[OF assms(2)]] by (metis prod.collapse fst_conv snd_conv)
  ultimately show ?thesis by simp
qed

lemma toupper_idem [simp]: "toupper (toupper c) = toupper c"
  by (auto simp: toupper_def Let_def)

lemma to_upper_idem [simp]: "to_upper (to_upper s) = to_upper s"
  by (simp add: to_upper_def)

lemma allowed_parsed: "is_method_allowed method (fold insort_insert (map to_upper ms) []) \<longleftrightarrow> (\<exists>m \<in> set ms. iequals m method)"
  by (simp add: is_method_allowed_def list_ex_iff set_fold_insort iequals_def)

lemma save_api_tokens_tokens [simp]: "aw_tokens (snd (save_api_tokens e io w)) = aw_tokens w"
  by (simp add: save_api_tokens_def case_prod_beta Let_def split: option.split)

lemma create_tokens:
  assumes "create_api_token e io (map scope_json scs) username token now w = (r, w')" "omap_ok (aw_tokens w)"
  obtains sc where "omap_ok sc" "map_of sc = (\<lambda>p. map_option (\<lambda>ms. fold insort_insert (map to_upper ms) []) (requested scs p))"
    "aw_tokens w' = omap_put (ae_hash e token)
      \<lparr>ai_hash = ae_hash e token, ai_path_methods = sc, ai_username = username, ai_created_at = now\<rparr> (aw_tokens w)"
    "(r, w') = (if fst (save_api_tokens e io (w\<lparr>aw_tokens := aw_tokens w'\<rparr>)) then Throws else Returns (Some token),
       snd (save_api_tokens e io (w\<lparr>aw_tokens := aw_tokens w'\<rparr>)))"
proof -
  have "omap_ok ([] :: scopes)" by (simp add: omap_ok_def)
  from parse_scopes_strings[OF this, of scs]
  obtain sc where sc: "parse_scopes_from (map scope_json scs) [] = Inr sc" "omap_ok sc"
    "map_of sc = (\<lambda>p. case requested scs p of None \<Rightarrow> map_of [] p | Some ms \<Rightarrow> Some (fold insort_insert (map to_upper ms) []))"
    by blast
  let ?w = "w\<lparr>aw_tokens := omap_put (ae_hash e token)
      \<lparr>ai_hash = ae_hash e token, ai_path_methods = sc, ai_username = username, ai_created_at = now\<rparr> (aw_tokens w)\<rparr>"
  have rw: "(r, w') = (if fst (save_api_tokens e io ?w) then Throws else Returns (Some token), snd (save_api_tokens e io ?w))"
    using assms(1) by (simp add: create_api_token_def parse_json_scopes_def sc(1) Let_def case_prod_beta)
  then have "aw_tokens w' = aw_tokens ?w" by (metis save_api_tokens_tokens snd_conv)
  with rw sc(2,3) show ?thesis by (intro that[of sc]) (auto simp: fun_eq_iff split: option.split)
qed

text \<open>
  (C23) A new API token grants exactly what was requested: after its creation the bearer header with the token is
  accepted for a path and method precisely when the path matches the pattern of a requested scope and the
  method is among the methods last given for that pattern, without regard to case. Other tokens keep what
  they grant.
\<close>

theorem api_token_grants_requested:
  assumes w: "omap_ok (aw_tokens w)" and tok: "token \<noteq> []"
    and create: "create_api_token e io (map scope_json scs) username token now w = (r, w')"
    and regex: "\<forall>p \<in> fst ` set scs. ae_regex e (anchored p) path \<noteq> None"
  shows "authenticate_bearer e (''Bearer '' @ token) path method (aw_tokens w') =
      Some (\<exists>p ms m. requested scs p = Some ms \<and> m \<in> set ms \<and> ae_regex e (anchored p) path = Some True \<and> iequals m method) \<and>
    (\<forall>other. ae_hash e other \<noteq> ae_hash e token \<longrightarrow>
      authenticate_token e other path' method' (aw_tokens w') = authenticate_token e other path' method' (aw_tokens w))"
proof -
  obtain sc where sc: "omap_ok sc" "map_of sc = (\<lambda>p. map_option (\<lambda>ms. fold insort_insert (map to_upper ms) []) (requested scs p))"
    "aw_tokens w' = omap_put (ae_hash e token)
      \<lparr>ai_hash = ae_hash e token, ai_path_methods = sc, ai_username = username, ai_created_at = now\<rparr> (aw_tokens w)"
    by (rule create_tokens[OF create w])
  have "p \<in> fst ` set scs" if "map_of sc p \<noteq> None" for p
    using that by (auto simp: sc(2) requested_def dest!: map_of_SomeD) (metis fst_conv image_eqI)
  then have "\<forall>p \<in> fst ` set sc. ae_regex e (anchored p) path \<noteq> None"
    using regex by (metis map_of_eq_None_iff)
  note any_scope_iff[OF this sc(1), of "method"]
  also have "(\<exists>p ms. map_of sc p = Some ms \<and> ae_regex e (anchored p) path = Some True \<and> is_method_allowed method ms) \<longleftrightarrow>
      (\<exists>p ms m. requested scs p = Some ms \<and> m \<in> set ms \<and> ae_regex e (anchored p) path = Some True \<and> iequals m method)"
    unfolding sc(2) by (auto simp: allowed_parsed) (metis allowed_parsed)+
  finally have "any_scope e path method sc =
      Some (\<exists>p ms m. requested scs p = Some ms \<and> m \<in> set ms \<and> ae_regex e (anchored p) path = Some True \<and> iequals m method)" .
  moreover have "authenticate_bearer e (''Bearer '' @ token) path method (aw_tokens w') = any_scope e path method sc"
    using tok w by (simp add: authenticate_bearer_def starts_with_def authenticate_token_def sc(3))
  ultimately show ?thesis using w by (simp add: authenticate_token_def sc(3))
qed

section \<open>The file\<close>

text \<open>Tokens the file holds as they are: no empty hash, pattern or method, no scope without methods.\<close>

definition storable :: "api_tokens \<Rightarrow> bool" where
  "storable tokens \<longleftrightarrow> omap_ok tokens \<and> (\<forall>p \<in> set tokens. fst p \<noteq> [] \<and> ai_hash (snd p) = fst p \<and> 0 \<le> ai_created_at (snd p) \<and>
     omap_ok (ai_path_methods (snd p)) \<and>
     (\<forall>q \<in> set (ai_path_methods (snd p)). fst q \<noteq> [] \<and> snd q \<noteq> [] \<and> sorted_wrt (<) (snd q) \<and> [] \<notin> set (snd q)))"

lemma fold_insort_sorted: "sorted_wrt (<) (acc @ xs) \<Longrightarrow> fold insort_insert xs acc = acc @ xs"
proof (induction xs arbitrary: acc)
  case (Cons x xs)
  then have lt: "\<forall>y \<in> set acc. y < x" by (simp add: sorted_wrt_append)
  then have "insort x acc = acc @ [x]" by (induction acc) auto
  moreover have "x \<notin> set acc" using lt by blast
  ultimately show ?case using Cons.IH[of "acc @ [x]"] Cons.prems by (simp add: insort_insert_key_def)
qed simp

lemma build_scope_map_saved:
  assumes "omap_ok sc" "\<forall>q \<in> set sc. fst q \<noteq> [] \<and> snd q \<noteq> [] \<and> sorted_wrt (<) (snd q)"
  shows "build_scope_map (map scope_to_node sc) = sc"
  using assms
proof (induction sc rule: rev_induct)
  case Nil
  then show ?case by (simp add: build_scope_map_def)
next
  case (snoc q sc)
  have ok: "omap_ok sc" using snoc.prems(1) by (auto simp: omap_ok_def sorted_wrt_append)
  have "map_of sc (fst q) = None" using omap_ok_umap[OF snoc.prems(1)] by (auto simp: map_of_eq_None_iff)
  moreover have "parse_scope (scope_to_node q) = Some (fst q, snd q)"
    using snoc.prems(2) fold_insort_sorted[of "[]" "snd q"] by (simp add: parse_scope_def scope_to_node_def)
  ultimately show ?case
    using snoc.IH[OF ok] snoc.prems omap_put_last[of sc "fst q" "snd q"] by (simp add: build_scope_map_def omap_emplace_def case_prod_beta)
qed

definition whole_created :: "api_env \<Rightarrow> api_token_info \<Rightarrow> api_token_info" where
  "whole_created e i = i\<lparr>ai_created_at := to_seconds (ae_ticks e) (ai_created_at i) * ae_ticks e\<rparr>"

lemma load_saved_tokens:
  assumes "storable tokens"
  shows "fold (load_api_node e) (map (api_to_node e) tokens) [] = map (\<lambda>p. (fst p, whole_created e (snd p))) tokens"
  using assms
proof (induction tokens rule: rev_induct)
  case Nil
  then show ?case by simp
next
  case (snoc p tokens)
  let ?f = "\<lambda>p. (fst p, whole_created e (snd p))"
  have ok: "omap_ok (tokens @ [p])" and p: "fst p \<noteq> []" "ai_hash (snd p) = fst p" "omap_ok (ai_path_methods (snd p))"
    "\<forall>q \<in> set (ai_path_methods (snd p)). fst q \<noteq> [] \<and> snd q \<noteq> [] \<and> sorted_wrt (<) (snd q)"
    using snoc.prems by (auto simp: storable_def)
  have IH: "fold (load_api_node e) (map (api_to_node e) tokens) [] = map ?f tokens"
    using snoc by (auto simp: storable_def omap_ok_def sorted_wrt_append)
  have "omap_ok (map ?f (tokens @ [p]))" using ok by (simp add: omap_ok_def o_def)
  then have put: "omap_put (fst p) (whole_created e (snd p)) (map ?f tokens) = map ?f (tokens @ [p])"
    using omap_put_last[of "map ?f tokens" "fst p"] by simp
  have "map_of (map ?f tokens) (fst p) = None"
    using omap_ok_umap[OF ok] by (simp add: map_of_eq_None_iff image_image)
  then have "load_api_node e (api_to_node e p) (map ?f tokens) = omap_put (fst p) (whole_created e (snd p)) (map ?f tokens)"
    using p build_scope_map_saved[OF p(3,4)]
    by (cases "snd p") (simp add: load_api_node_def api_to_node_def omap_emplace_def whole_created_def Let_def)
  with IH put show ?case by simp
qed

text \<open> API tokens survive a restart: saving storable tokens beside a valid file succeeds and loading them gives
  the same tokens with the same scopes and users, the creation time cut to whole seconds; the sessions and
  the rest of the file are untouched.
\<close>

theorem api_save_load:
  assumes t: "storable (aw_tokens w)" and fl: "aw_file w = Some root" "valid_vibeshine_tree root"
    and io: "io_readable io" "io_write io = Write_ok" "io_readable io2"
    and s: "save_api_tokens e io w = (failed, w1)"
  shows "\<not> failed \<and> aw_tokens (load_api_tokens e io2 w1) = map (\<lambda>p. (fst p, whole_created e (snd p))) (aw_tokens w) \<and>
    (\<exists>root1. aw_file w1 = Some root1 \<and> rt_session_tokens root1 = rt_session_tokens root \<and> rt_other root1 = rt_other root)"
proof -
  let ?r = "root\<lparr>rt_api_tokens := Some (map (api_to_node e) (aw_tokens w))\<rparr>"
  have "valid_vibeshine_tree ?r"
    using t fl(2) by (auto simp: valid_vibeshine_tree_def storable_def list_all_iff api_to_node_def valid_scope_node_def scope_to_node_def)
  then have "failed = False" "w1 = w\<lparr>aw_file := Some ?r\<rparr>"
    using s io fl(1) by (auto simp: save_api_tokens_def read_root_def write_vibeshine_state_def write_root_def)
  then show ?thesis using io(3) load_saved_tokens[OF t] by (simp add: load_api_tokens_def)
qed

text \<open>
  (C25) A token whose scope has an empty path blocks the file: its creation throws, since the writer refuses the
  tree, but the token stays in the table, and while it is there revoking another token throws as well and
  leaves that token in the file.
\<close>

theorem empty_scope_blocks_saves:
  assumes w: "omap_ok (aw_tokens w)" and scs: "[] \<in> fst ` set scs" and io: "io_readable io" "io_readable io2"
    and create: "create_api_token e io (map scope_json scs) username token now w = (r, w1)"
    and h: "h \<noteq> []" "h \<noteq> ae_hash e token" "map_of (aw_tokens w) h \<noteq> None"
    and revoke: "revoke_api_token_by_hash e io2 h w1 = (r2, w2)"
  shows "r = Throws \<and> map_of (aw_tokens w1) (ae_hash e token) \<noteq> None \<and> aw_file w1 = aw_file w \<and>
    r2 = Throws \<and> map_of (aw_tokens w2) h = None \<and> aw_file w2 = aw_file w"
proof -
  obtain sc where sc: "omap_ok sc" "map_of sc = (\<lambda>p. map_option (\<lambda>ms. fold insort_insert (map to_upper ms) []) (requested scs p))"
    and tokens: "aw_tokens w1 = omap_put (ae_hash e token)
      \<lparr>ai_hash = ae_hash e token, ai_path_methods = sc, ai_username = username, ai_created_at = now\<rparr> (aw_tokens w)"
    and rw: "(r, w1) = (if fst (save_api_tokens e io (w\<lparr>aw_tokens := aw_tokens w1\<rparr>)) then Throws else Returns (Some token),
       snd (save_api_tokens e io (w\<lparr>aw_tokens := aw_tokens w1\<rparr>)))"
    by (rule create_tokens[OF create w])
  have "map_of sc [] \<noteq> None" using scs by (simp add: sc(2) requested_def map_of_eq_None_iff)
  then have bad: "\<not> list_all valid_scope_node (map scope_to_node sc)"
    by (auto simp: list_all_iff valid_scope_node_def scope_to_node_def dest!: map_of_SomeD) force
  have refuse: "save_api_tokens e io' w' = (True, w')"
    if "map_of (aw_tokens w') k = Some info" "ai_path_methods info = sc" "io_readable io'" for w' io' k info
  proof -
    have "(k, info) \<in> set (aw_tokens w')" using that(1) by (rule map_of_SomeD)
    then have "\<not> valid_vibeshine_tree (rt\<lparr>rt_api_tokens := Some (map (api_to_node e) (aw_tokens w'))\<rparr>)" for rt
      using bad that(2) by (force simp: valid_vibeshine_tree_def list_all_iff api_to_node_def)
    with that(3) show ?thesis by (cases "aw_file w'") (simp_all add: save_api_tokens_def read_root_def write_vibeshine_state_def)
  qed
  have look: "map_of (aw_tokens w1) = (map_of (aw_tokens w))(ae_hash e token \<mapsto>
      \<lparr>ai_hash = ae_hash e token, ai_path_methods = sc, ai_username = username, ai_created_at = now\<rparr>)" using w by (simp add: tokens)
  have 1: "r = Throws" "w1 = w\<lparr>aw_tokens := aw_tokens w1\<rparr>"
    using rw refuse[of "w\<lparr>aw_tokens := aw_tokens w1\<rparr>" "ae_hash e token"] look io(1) by auto
  have "save_api_tokens e io2 (w1\<lparr>aw_tokens := AList.delete h (aw_tokens w1)\<rparr>) = (True, w1\<lparr>aw_tokens := AList.delete h (aw_tokens w1)\<rparr>)"
    by (rule refuse[of _ "ae_hash e token"]) (use look h(2) io(2) in auto)
  with revoke h look have "r2 = Throws" "w2 = w1\<lparr>aw_tokens := AList.delete h (aw_tokens w1)\<rparr>"
    by (auto simp: revoke_api_token_by_hash_def)
  moreover have "aw_file w1 = aw_file w" using 1(2) by (metis api_world.ext_inject api_world.surjective api_world.update_convs(1))
  ultimately show ?thesis using 1(1) look by simp
qed

section \<open>Examples\<close>

definition ademo_env :: api_env where
  "ademo_env = \<lparr>ae_hash = (\<lambda>x. CHR ''#'' # x), ae_ticks = 1,
     ae_regex = (\<lambda>p t. Some (p = ''^'' @ t @ ''$'')), ae_parse = (\<lambda>_. None)\<rparr>"

definition ademo_io :: io_outcome where "ademo_io = \<lparr>io_readable = True, io_write = Write_ok\<rparr>"

definition ademo_info :: api_token_info where
  "ademo_info = \<lparr>ai_hash = ''#old'', ai_path_methods = [(''/api/a'', [''GET''])], ai_username = ''admin'', ai_created_at = 7\<rparr>"

definition ademo_world :: api_world where
  "ademo_world = \<lparr>aw_tokens = [(''#old'', ademo_info)], aw_file = Some empty_root\<rparr>"

theorem api_token_grants_requested_witness:
  "authenticate_bearer ademo_env ''Bearer new'' ''/api/b'' ''post''
     (aw_tokens (snd (create_api_token ademo_env ademo_io (map scope_json [(''/api/b'', [''Post''])]) ''admin'' ''new'' 8 ademo_world))) = Some True"
proof -
  have "omap_ok (aw_tokens ademo_world)" by (simp add: ademo_world_def omap_ok_def)
  moreover have "\<forall>p \<in> fst ` set [(''/api/b'', [''Post''])]. ae_regex ademo_env (anchored p) ''/api/b'' \<noteq> None" by (simp add: ademo_env_def)
  moreover have "requested [(''/api/b'', [''Post''])] p = Some ms \<longleftrightarrow> p = ''/api/b'' \<and> ms = [''Post'']" for p ms
    by (auto simp: requested_def)
  moreover have "ae_regex ademo_env (anchored ''/api/b'') ''/api/b'' = Some True" by (simp add: ademo_env_def anchored_def)
  moreover have "iequals ''Post'' ''post''" by code_simp
  ultimately show ?thesis
    using api_token_grants_requested[OF _ _ prod.collapse[symmetric], of ademo_world "''new''" "[(''/api/b'', [''Post''])]" ademo_env "''/api/b''"]
    by fastforce
qed

theorem api_save_load_witness:
  "aw_tokens (load_api_tokens ademo_env ademo_io (snd (save_api_tokens ademo_env ademo_io ademo_world))) = [(''#old'', ademo_info)]"
proof -
  have "storable (aw_tokens ademo_world)" by (simp add: storable_def ademo_world_def ademo_info_def omap_ok_def)
  moreover have "valid_vibeshine_tree empty_root" by (simp add: valid_vibeshine_tree_def empty_root_def)
  moreover have "whole_created ademo_env ademo_info = ademo_info"
    by (simp add: whole_created_def ademo_env_def ademo_info_def to_seconds_nonneg)
  ultimately show ?thesis
    using api_save_load[OF _ _ _ _ _ _ prod.collapse[symmetric], of ademo_world empty_root ademo_io ademo_io ademo_env]
    by (simp add: ademo_world_def ademo_io_def)
qed

theorem empty_scope_blocks_saves_witness:
  "let w1 = snd (create_api_token ademo_env ademo_io (map scope_json [([], [''GET''])]) ''admin'' ''new'' 8 ademo_world) in
   fst (revoke_api_token_by_hash ademo_env ademo_io ''#old'' w1) = Throws \<and>
   aw_file (snd (revoke_api_token_by_hash ademo_env ademo_io ''#old'' w1)) = aw_file ademo_world"
proof -
  have "omap_ok (aw_tokens ademo_world)" "io_readable ademo_io" "''#old'' \<noteq> ae_hash ademo_env ''new''"
    "map_of (aw_tokens ademo_world) ''#old'' \<noteq> None" by (simp_all add: ademo_world_def omap_ok_def ademo_io_def ademo_env_def)
  then show ?thesis
    using empty_scope_blocks_saves[OF _ _ _ _ prod.collapse[symmetric] _ _ _ prod.collapse[symmetric],
        of ademo_world "[([], [''GET''])]" ademo_io ademo_io "''#old''" ademo_env "''new''" "''admin''" 8]
    by (simp add: Let_def)
qed

end
