(* ===== verification/Web_Auth.thy ===== *)
theory Web_Auth
  imports Session_Tokens Api_Tokens
begin

text \<open>
  Access to the configuration API: \<^verbatim>\<open>RequestAuthPolicy\<close>
  (\<^verbatim>\<open>http_auth_request_policy.cpp\<close>), the endpoints of \<^verbatim>\<open>SessionTokenAPI\<close> and the policy's
  dependencies (\<^verbatim>\<open>http_auth.cpp\<close>), and the request wrapper \<^verbatim>\<open>check_auth\<close> of
  \<^verbatim>\<open>confighttp.cpp\<close>, on top of the two token managers. A response body is a JSON value, a header
  map a list of pairs whose order stands for the order of the hash map. The network class of an address, the
  digest of a password, Base64, the percent coding of libcurl and the date format are parameters.
\<close>

section \<open>The request policy\<close>

datatype status_code = Success_ok | Client_error_bad_request | Client_error_unauthorized | Client_error_forbidden
  | Client_error_not_found | Client_error_too_many_requests

type_synonym headers = "(string \<times> string) list"

record auth_result =
  ar_ok :: bool
  ar_code :: status_code
  ar_body :: "json option"
  ar_headers :: headers

definition auth_granted :: auth_result where
  "auth_granted = \<lparr>ar_ok = True, ar_code = Success_ok, ar_body = None, ar_headers = []\<rparr>"

text \<open>The dependencies; a bearer check may throw, and a session check changes the state.\<close>

record 's request_deps =
  rd_remote_allowed :: "string \<Rightarrow> bool"
  rd_credentials_configured :: bool
  rd_credentials_valid :: "string \<Rightarrow> string \<Rightarrow> bool"
  rd_bearer_valid :: "string \<Rightarrow> string \<Rightarrow> string \<Rightarrow> 's \<Rightarrow> bool thrown"
  rd_session_valid :: "string \<Rightarrow> 's \<Rightarrow> bool \<times> 's"
  rd_decode_base64 :: "string \<Rightarrow> string option"
  rd_cookie_unescape :: "string \<Rightarrow> string"
  rd_https_port :: nat

definition cors_origin :: "nat \<Rightarrow> string" where
  "cors_origin port = ''https://localhost:'' @ to_string_int (int port)"

definition make_error :: "'s request_deps \<Rightarrow> status_code \<Rightarrow> string \<Rightarrow> auth_result" where
  "make_error d code er =
     (let cors = (''Access-Control-Allow-Origin'', cors_origin (rd_https_port d)) in
      if er \<noteq> [] then \<lparr>ar_ok = False, ar_code = code, ar_body = Some (J_obj [(''status'', J_bool False), (''error'', J_str er)]),
        ar_headers = [cors, (''Content-Type'', ''application/json'')]\<rparr>
      else \<lparr>ar_ok = False, ar_code = code, ar_body = None, ar_headers = [cors]\<rparr>)"

definition basic_error :: "'s request_deps \<Rightarrow> auth_result" where
  "basic_error d = (let r = make_error d Client_error_unauthorized ''Unauthorized'' in
     r\<lparr>ar_headers := ar_headers r @ [(''WWW-Authenticate'', ''Basic realm=\"Sunshine\"'')]\<rparr>)"

definition check_basic :: "'s request_deps \<Rightarrow> string \<Rightarrow> auth_result" where
  "check_basic d raw_auth =
     (case find_text raw_auth '' '' of
        None \<Rightarrow> basic_error d
      | Some space \<Rightarrow>
          if \<not> iequals (take space raw_auth) ''Basic'' then basic_error d
          else case rd_decode_base64 d (drop (space + 1) raw_auth) of
              None \<Rightarrow> basic_error d
            | Some decoded \<Rightarrow>
                (case find_text decoded '':'' of
                   None \<Rightarrow> basic_error d
                 | Some colon \<Rightarrow>
                     if \<not> rd_credentials_valid d (take colon decoded) (drop (colon + 1) decoded) then basic_error d else auth_granted))"

definition check_bearer :: "'s request_deps \<Rightarrow> string \<Rightarrow> string \<Rightarrow> string \<Rightarrow> 's \<Rightarrow> auth_result thrown" where
  "check_bearer d raw_auth path method s =
     (case rd_bearer_valid d raw_auth path method s of
        Throws \<Rightarrow> Throws
      | Returns b \<Rightarrow> Returns (if \<not> b then make_error d Client_error_forbidden ''Forbidden: Token does not have permission for this path/method.''
                           else auth_granted))"

definition check_session :: "'s request_deps \<Rightarrow> string \<Rightarrow> 's \<Rightarrow> auth_result \<times> 's" where
  "check_session d raw_auth s =
     (if \<not> starts_with raw_auth ''Session '' then (make_error d Client_error_unauthorized ''Invalid session token format'', s)
      else let (valid, s') = rd_session_valid d (drop 8 raw_auth) s
           in (if \<not> valid then make_error d Client_error_unauthorized ''Invalid or expired session token'' else auth_granted, s'))"

definition check_remote :: "'s request_deps \<Rightarrow> string \<Rightarrow> auth_result" where
  "check_remote d remote_address =
     (if \<not> rd_remote_allowed d remote_address then make_error d Client_error_forbidden ''Forbidden'' else auth_granted)"

definition base_path_of :: "string \<Rightarrow> string" where
  "base_path_of path = (case find_text path ''?'' of None \<Rightarrow> path | Some i \<Rightarrow> take i path)"

definition check :: "'s request_deps \<Rightarrow> string \<Rightarrow> string \<Rightarrow> string \<Rightarrow> string \<Rightarrow> 's \<Rightarrow> auth_result thrown \<times> 's" where
  "check d remote_address auth_header path method s =
     (let base_path = base_path_of path in
      if base_path = ''/welcome'' \<or> base_path = ''/welcome/'' then (Returns auth_granted, s)
      else if \<not> ar_ok (check_remote d remote_address) then (Returns (check_remote d remote_address), s)
      else if \<not> starts_with base_path ''/api/'' \<or> base_path = ''/api/auth/login'' \<or> base_path = ''/api/auth/logout'' \<or> base_path = ''/api/csrf-token''
      then (Returns auth_granted, s)
      else if \<not> rd_credentials_configured d then (Returns (make_error d Client_error_unauthorized ''Credentials not configured''), s)
      else if auth_header = [] then (Returns (make_error d Client_error_unauthorized ''Unauthorized''), s)
      else if starts_with auth_header ''Bearer '' then (check_bearer d auth_header path method s, s)
      else if starts_with auth_header ''Session '' then (let (r, s') = check_session d auth_header s in (Returns r, s'))
      else case find_text auth_header '' '' of
          Some space \<Rightarrow> if iequals (take space auth_header) ''Basic'' then (Returns (check_basic d auth_header), s)
                        else (Returns (make_error d Client_error_unauthorized ''Unauthorized''), s)
        | None \<Rightarrow> (Returns (make_error d Client_error_unauthorized ''Unauthorized''), s))"

definition find_header :: "headers \<Rightarrow> string \<Rightarrow> string option" where
  "find_header hs name = map_option snd (List.find (\<lambda>h. iequals (fst h) name) hs)"

definition extract_cookie :: "'s request_deps \<Rightarrow> headers \<Rightarrow> string \<Rightarrow> string" where
  "extract_cookie d hs name =
     (case find_header hs ''Cookie'' of
        None \<Rightarrow> []
      | Some v \<Rightarrow>
          (case find_text v (name @ ''='') of
             None \<Rightarrow> []
           | Some i \<Rightarrow>
               let rest = drop (i + length (name @ ''='')) v
               in rd_cookie_unescape d (case find_text rest '';'' of None \<Rightarrow> rest | Some j \<Rightarrow> take j rest)))"

text \<open>\<^verbatim>\<open>std::filesystem::path::extension\<close>: from the last dot of the file name, unless it is the first character
  or the name is \<^verbatim>\<open>..\<close>.\<close>

definition path_extension :: "string \<Rightarrow> string" where
  "path_extension path =
     (let filename = rev (takeWhile (\<lambda>c. c \<noteq> CHR ''/'') (rev path));
          ext = takeWhile (\<lambda>c. c \<noteq> CHR ''.'') (rev filename)
      in if filename = ''..'' \<or> length ext + 1 \<ge> length filename then [] else CHR ''.'' # rev ext)"

definition is_html_request :: "string \<Rightarrow> bool" where
  "is_html_request path =
     (if starts_with path ''/api/'' \<or> starts_with path ''/assets/'' \<or> starts_with path ''/images/'' then False
      else to_lower (path_extension path) \<notin> set [''.js'', ''.css'', ''.map'', ''.json'', ''.woff'', ''.woff2'', ''.ttf'', ''.eot'', ''.ico'',
             ''.png'', ''.jpg'', ''.jpeg'', ''.svg''])"

section \<open>The endpoints\<close>

record web_env =
  we_sessions :: session_env
  we_api :: api_env
  we_username :: string
  we_password :: string
  we_salt :: string
  we_digest :: "string \<Rightarrow> string"
  we_remote_allowed :: "string \<Rightarrow> bool"
  we_decode_base64 :: "string \<Rightarrow> string option"
  we_cookie_escape :: "string \<Rightarrow> string"
  we_cookie_unescape :: "string \<Rightarrow> string"
  we_format_expires :: "time_point \<Rightarrow> string"
  we_config_port :: nat
  we_nvhttp_port :: nat

record web_state =
  ws_mgr :: session_manager
  ws_api_tokens :: api_tokens
  ws_file :: "state_root option"

text \<open>What the clock, the random source and the file system give a request.\<close>

record moment =
  mo_io :: io_outcome
  mo_now :: time_point
  mo_cleanup :: time_point
  mo_save :: time_point
  mo_wall :: time_point
  mo_draw :: drawn

definition session_world_of :: "web_state \<Rightarrow> session_world" where
  "session_world_of s = \<lparr>sw_mgr = ws_mgr s, sw_file = ws_file s\<rparr>"

definition with_session_world :: "web_state \<Rightarrow> session_world \<Rightarrow> web_state" where
  "with_session_world s w = s\<lparr>ws_mgr := sw_mgr w, ws_file := sw_file w\<rparr>"

record api_response =
  rp_status :: status_code
  rp_body :: "(string \<times> json) list"
  rp_headers :: headers

definition session_cookie_name :: string where "session_cookie_name = ''__Host-sunshine_session''"
definition refresh_cookie_name :: string where "refresh_cookie_name = ''__Host-sunshine_refresh''"

text \<open>The members of \<open>data\<close> are assigned over \<^verbatim>\<open>status\<close>.\<close>

definition create_success_response :: "web_env \<Rightarrow> (string \<times> json) list \<Rightarrow> api_response" where
  "create_success_response e data = \<lparr>rp_status = Success_ok,
     rp_body = fold (\<lambda>(k, v). AList.update k v) data [(''status'', J_bool True)],
     rp_headers = [(''Content-Type'', ''application/json''), (''Access-Control-Allow-Origin'', cors_origin (we_config_port e))]\<rparr>"

definition create_error_response :: "web_env \<Rightarrow> string \<Rightarrow> status_code \<Rightarrow> api_response" where
  "create_error_response e er code = \<lparr>rp_status = code, rp_body = [(''status'', J_bool False), (''error'', J_str er)],
     rp_headers = [(''Content-Type'', ''application/json''), (''Access-Control-Allow-Origin'', cors_origin (we_config_port e))]\<rparr>"

definition validate_credentials :: "web_env \<Rightarrow> string \<Rightarrow> string \<Rightarrow> bool" where
  "validate_credentials e username password =
     (if \<not> iequals username (we_username e) \<or> we_digest e (password @ we_salt e) \<noteq> we_password e then False else True)"

definition safe_redirect :: "string \<Rightarrow> string" where
  "safe_redirect redirect_url =
     (if redirect_url \<noteq> [] \<and> hd redirect_url = CHR ''/'' \<and>
         (let lower = to_lower redirect_url in
          \<not> text_contains lower ''://'' \<and> \<not> text_contains lower ''%2f'' \<and> \<not> text_contains lower [CHR 0x5C] \<and>
          \<not> text_contains lower ''/..'' \<and> \<not> (length redirect_url > 1 \<and> redirect_url ! 1 = CHR ''/'')) \<and>
         map (\<lambda>c. if c = CHR 0x5C then CHR ''/'' else c) redirect_url = redirect_url
      then redirect_url else ''/'')"

definition cookie_attributes :: string where
  "cookie_attributes = ''; Path=/; HttpOnly; SameSite=Strict; Secure; Priority=High''"

definition append_expiry :: "web_env \<Rightarrow> time_point \<Rightarrow> int \<Rightarrow> string" where
  "append_expiry e now ttl =
     ''; Max-Age='' @ to_string_int ttl @
     (let expires = we_format_expires e (now + ttl * se_ticks (we_sessions e)) in if expires \<noteq> [] then ''; Expires='' @ expires else [])"

definition token_cookie :: "web_env \<Rightarrow> time_point \<Rightarrow> string \<Rightarrow> string \<Rightarrow> int \<Rightarrow> string" where
  "token_cookie e now name token ttl = name @ ''='' @ we_cookie_escape e token @ cookie_attributes @ append_expiry e now ttl"

definition bundle_cookies :: "web_env \<Rightarrow> time_point \<Rightarrow> session_bundle \<Rightarrow> headers" where
  "bundle_cookies e now b =
     [(''Set-Cookie'', token_cookie e now session_cookie_name (sb_session_token b) (sb_session_ttl b)),
      (''Set-Cookie'', token_cookie e now refresh_cookie_name (sb_refresh_token b) (sb_refresh_ttl b))]"

definition bundle_data :: "session_bundle \<Rightarrow> bool \<Rightarrow> (string \<times> json) list" where
  "bundle_data b remember_me = [(''token'', J_str (sb_session_token b)), (''expires_in'', J_num (sb_session_ttl b)),
     (''refresh_expires_in'', J_num (sb_refresh_ttl b)), (''remember_me'', J_bool remember_me)]"

definition api_login ::
  "web_env \<Rightarrow> moment \<Rightarrow> string \<Rightarrow> string \<Rightarrow> string \<Rightarrow> bool \<Rightarrow> string \<Rightarrow> string \<Rightarrow> web_state \<Rightarrow> api_response \<times> web_state" where
  "api_login e mo username password redirect_url remember_me user_agent remote_address s =
     (if \<not> validate_credentials e username password
      then (create_error_response e ''Invalid credentials'' Client_error_unauthorized, s)
      else let (issued, w) = issue_session_tokens (we_sessions e) (mo_io mo) username (se_session_token_ttl (we_sessions e)) 0
                 user_agent remote_address remember_me (mo_now mo) (mo_cleanup mo) (mo_save mo) (mo_draw mo) (session_world_of s);
               data = bundle_data issued remember_me @ [(''redirect'', J_str (safe_redirect redirect_url))];
               r = create_success_response e data
           in (r\<lparr>rp_headers := rp_headers r @ bundle_cookies e (mo_wall mo) issued @
                 [(''Access-Control-Allow-Origin'', cors_origin (we_nvhttp_port e))]\<rparr>,
               with_session_world s w))"

definition clear_cookie :: "string \<Rightarrow> string" where
  "clear_cookie name = name @ ''=; Path=/; HttpOnly; SameSite=Strict; Secure; Priority=High; Expires=Thu, 01 Jan 1970 00:00:00 GMT; Max-Age=0''"

definition api_logout :: "web_env \<Rightarrow> moment \<Rightarrow> string \<Rightarrow> string \<Rightarrow> web_state \<Rightarrow> api_response \<times> web_state" where
  "api_logout e mo session_token refresh_token s =
     (let w = (if session_token \<noteq> [] then revoke_session_token (we_sessions e) (mo_io mo) session_token (mo_save mo) (session_world_of s)
               else if refresh_token \<noteq> [] then snd (revoke_refresh_token (we_sessions e) (mo_io mo) refresh_token (mo_save mo) (session_world_of s))
               else session_world_of s);
          r = create_success_response e [(''message'', J_str ''Logged out successfully'')]
      in (r\<lparr>rp_headers := rp_headers r @ [(''Set-Cookie'', clear_cookie session_cookie_name), (''Set-Cookie'', clear_cookie refresh_cookie_name)]\<rparr>,
          with_session_world s w))"

definition validate_session :: "web_env \<Rightarrow> moment \<Rightarrow> string \<Rightarrow> web_state \<Rightarrow> api_response \<times> web_state" where
  "validate_session e mo session_token s =
     (if session_token = [] then (create_error_response e ''Session token required'' Client_error_unauthorized, s)
      else let (valid, w) = validate_session_token (we_sessions e) (mo_io mo) session_token (mo_now mo) (mo_save mo) (session_world_of s)
           in (if \<not> valid then create_error_response e ''Invalid or expired session token'' Client_error_unauthorized
               else create_success_response e [], with_session_world s w))"

definition refresh_session :: "web_env \<Rightarrow> moment \<Rightarrow> string \<Rightarrow> string \<Rightarrow> string \<Rightarrow> web_state \<Rightarrow> api_response \<times> web_state" where
  "refresh_session e mo refresh_token user_agent remote_address s =
     (if refresh_token = [] then (create_error_response e ''Refresh token required'' Client_error_unauthorized, s)
      else let (refreshed, w) = refresh_session_tokens (we_sessions e) (mo_io mo) refresh_token user_agent remote_address
                 (mo_now mo) (mo_save mo) (mo_draw mo) (session_world_of s)
           in (case refreshed of
                 None \<Rightarrow> (create_error_response e ''Invalid or expired refresh token'' Client_error_unauthorized, with_session_world s w)
               | Some b \<Rightarrow>
                   (let r = create_success_response e (bundle_data b (sb_remember_me b))
                    in (r\<lparr>rp_headers := rp_headers r @ bundle_cookies e (mo_wall mo) b\<rparr>, with_session_world s w))))"

definition view_json :: "web_env \<Rightarrow> string \<Rightarrow> session_view \<Rightarrow> json" where
  "view_json e active v =
     (let secs = to_seconds (se_ticks (we_sessions e)); opt = (\<lambda>k x. if x \<noteq> [] then [(k, J_str x)] else []) in
      J_obj ([(''id'', J_str (sv_hash v)), (''username'', J_str (sv_username v)), (''created_at'', J_num (secs (sv_created_at v))),
        (''expires_at'', J_num (secs (sv_expires_at v))), (''refresh_expires_at'', J_num (secs (sv_refresh_expires_at v))),
        (''last_seen'', J_num (secs (sv_last_seen v))), (''remember_me'', J_bool (sv_remember_me v)),
        (''current'', J_bool (active \<noteq> [] \<and> active = sv_hash v))] @
        opt ''user_agent'' (sv_user_agent v) @ opt ''remote_address'' (sv_remote_address v) @ opt ''device_label'' (sv_device_label v)))"

definition api_list_sessions :: "web_env \<Rightarrow> moment \<Rightarrow> string \<Rightarrow> string \<Rightarrow> web_state \<Rightarrow> api_response" where
  "api_list_sessions e mo username_filter active_session_hash s =
     create_success_response e [(''sessions'', J_arr (map (view_json e active_session_hash) (list_sessions username_filter (mo_now mo) (ws_mgr s))))]"

definition api_revoke_session_by_hash :: "web_env \<Rightarrow> moment \<Rightarrow> string \<Rightarrow> web_state \<Rightarrow> api_response \<times> web_state" where
  "api_revoke_session_by_hash e mo session_hash s =
     (if session_hash = [] then (create_error_response e ''Session identifier required'' Client_error_bad_request, s)
      else let (removed, w) = revoke_session_by_hash (we_sessions e) (mo_io mo) session_hash (mo_save mo) (session_world_of s)
           in (if \<not> removed then create_error_response e ''Session not found'' Client_error_not_found
               else create_success_response e [(''message'', J_str ''Session revoked'')], with_session_world s w))"

section \<open>The policy on the managers\<close>

definition make_request_auth_policy :: "web_env \<Rightarrow> moment \<Rightarrow> web_state request_deps" where
  "make_request_auth_policy e mo = \<lparr>rd_remote_allowed = we_remote_allowed e, rd_credentials_configured = (we_username e \<noteq> []),
     rd_credentials_valid = (\<lambda>username password. iequals username (we_username e) \<and> we_digest e (password @ we_salt e) = we_password e),
     rd_bearer_valid = (\<lambda>raw path method s. case authenticate_bearer (we_api e) raw path method (ws_api_tokens s) of
        None \<Rightarrow> Throws | Some b \<Rightarrow> Returns b),
     rd_session_valid = (\<lambda>token s. let (r, s') = validate_session e mo token s in (rp_status r = Success_ok, s')),
     rd_decode_base64 = we_decode_base64 e, rd_cookie_unescape = we_cookie_unescape e, rd_https_port = we_config_port e\<rparr>"

record http_request =
  rq_address :: string
  rq_headers :: headers
  rq_path :: string
  rq_method :: string

definition extract_session_token_from_cookie :: "web_env \<Rightarrow> moment \<Rightarrow> headers \<Rightarrow> string" where
  "extract_session_token_from_cookie e mo hs = extract_cookie (make_request_auth_policy e mo) hs session_cookie_name"

definition extract_refresh_token_from_cookie :: "web_env \<Rightarrow> moment \<Rightarrow> headers \<Rightarrow> string" where
  "extract_refresh_token_from_cookie e mo hs = extract_cookie (make_request_auth_policy e mo) hs refresh_cookie_name"

definition check_auth :: "web_env \<Rightarrow> moment \<Rightarrow> http_request \<Rightarrow> web_state \<Rightarrow> auth_result thrown \<times> web_state" where
  "check_auth e mo rq s =
     (let auth_header = (case find_header (rq_headers rq) ''authorization'' of
            Some v \<Rightarrow> v
          | None \<Rightarrow> let token = extract_session_token_from_cookie e mo (rq_headers rq)
                   in if token \<noteq> [] then ''Session '' @ token else [])
      in check (make_request_auth_policy e mo) (rq_address rq) auth_header (rq_path rq) (rq_method rq) s)"

section \<open>Who gets in\<close>

lemma find_char_Some: "find_text s [c] = Some i \<longleftrightarrow> i < length s \<and> s ! i = c \<and> c \<notin> set (take i s)"
proof (induction s arbitrary: i)
  case Nil
  then show ?case by (simp add: find_text.simps[of "[]"] starts_with_def)
next
  case (Cons x s)
  then show ?case by (cases i) (auto simp: find_text.simps[of "x # s"] starts_with_def)
qed

lemma find_char_None: "find_text s [c] = None \<longleftrightarrow> c \<notin> set s"
proof (induction s)
  case Nil
  then show ?case by (simp add: find_text.simps[of "[]"] starts_with_def)
next
  case (Cons x s)
  then show ?case by (auto simp: find_text.simps[of "x # s"] starts_with_def)
qed

lemma split_at_char: "find_text s [c] = Some i \<Longrightarrow> s = take i s @ c # drop (i + 1) s"
  unfolding find_char_Some by (metis Suc_eq_plus1 id_take_nth_drop)

text \<open>The credentials of a request: the authorization header, or the session cookie read as one.\<close>

definition effective_header :: "web_env \<Rightarrow> moment \<Rightarrow> http_request \<Rightarrow> string" where
  "effective_header e mo rq = (case find_header (rq_headers rq) ''authorization'' of
     Some v \<Rightarrow> v
   | None \<Rightarrow> let token = extract_session_token_from_cookie e mo (rq_headers rq) in if token \<noteq> [] then ''Session '' @ token else [])"

definition protected_path :: "string \<Rightarrow> bool" where
  "protected_path path \<longleftrightarrow> starts_with (base_path_of path) ''/api/'' \<and>
     base_path_of path \<notin> {''/api/auth/login'', ''/api/auth/logout'', ''/api/csrf-token''}"

text \<open>Basic credentials: the user name is the text before the first colon.\<close>

definition basic_credentials :: "web_env \<Rightarrow> string \<Rightarrow> string \<Rightarrow> string \<Rightarrow> bool" where
  "basic_credentials e header user pass \<longleftrightarrow> (\<exists>scheme encoded. header = scheme @ '' '' @ encoded \<and> iequals scheme ''Basic'' \<and>
     CHR '' '' \<notin> set scheme \<and> we_decode_base64 e encoded = Some (user @ '':'' @ pass) \<and> CHR '':'' \<notin> set user)"

lemma find_char_append: "c \<notin> set u \<Longrightarrow> find_text (u @ [c] @ v) [c] = Some (length u)"
  by (simp add: find_char_Some)

lemma check_basic_iff:
  "ar_ok (check_basic (make_request_auth_policy e mo) header) \<longleftrightarrow>
    (\<exists>user pass. basic_credentials e header user pass \<and> iequals user (we_username e) \<and> we_digest e (pass @ we_salt e) = we_password e)"
proof
  have no: "\<not> ar_ok (basic_error (make_request_auth_policy e mo))" by (simp add: basic_error_def make_error_def Let_def)
  assume "ar_ok (check_basic (make_request_auth_policy e mo) header)"
  with no obtain space decoded colon where sp: "find_text header '' '' = Some space" "iequals (take space header) ''Basic''"
    and dec: "we_decode_base64 e (drop (space + 1) header) = Some decoded" "find_text decoded '':'' = Some colon"
    and ok: "iequals (take colon decoded) (we_username e)" "we_digest e (drop (colon + 1) decoded @ we_salt e) = we_password e"
    unfolding check_basic_def by (auto simp: make_request_auth_policy_def split: option.splits if_splits)
  have "basic_credentials e header (take colon decoded) (drop (colon + 1) decoded)"
    unfolding basic_credentials_def
  proof (intro exI conjI)
    show "header = take space header @ '' '' @ drop (space + 1) header" using split_at_char[OF sp(1)] by simp
    show "we_decode_base64 e (drop (space + 1) header) = Some (take colon decoded @ '':'' @ drop (colon + 1) decoded)"
      using dec split_at_char[OF dec(2)] by simp
  qed (use sp dec(2) in \<open>auto simp: find_char_Some\<close>)
  with ok show "\<exists>user pass. basic_credentials e header user pass \<and> iequals user (we_username e) \<and> we_digest e (pass @ we_salt e) = we_password e"
    by blast
next
  assume "\<exists>user pass. basic_credentials e header user pass \<and> iequals user (we_username e) \<and> we_digest e (pass @ we_salt e) = we_password e"
  then obtain user pass scheme encoded where h: "header = scheme @ [CHR '' ''] @ encoded" "iequals scheme ''Basic''" "CHR '' '' \<notin> set scheme"
    "we_decode_base64 e encoded = Some (user @ [CHR '':''] @ pass)" "CHR '':'' \<notin> set user"
    and ok: "iequals user (we_username e)" "we_digest e (pass @ we_salt e) = we_password e"
    by (auto simp: basic_credentials_def)
  have "find_text header '' '' = Some (length scheme)" unfolding h(1) by (rule find_char_append[OF h(3)])
  moreover have "find_text (user @ [CHR '':''] @ pass) '':'' = Some (length user)" by (rule find_char_append[OF h(5)])
  ultimately show "ar_ok (check_basic (make_request_auth_policy e mo) header)"
    using h(1,2,4) ok by (simp add: check_basic_def make_request_auth_policy_def auth_granted_def)
qed

lemma check_session_ok:
  "ar_ok (fst (check_session (make_request_auth_policy e mo) (''Session '' @ token) s)) \<longleftrightarrow>
    token \<noteq> [] \<and> fst (use_session (we_sessions e) token (mo_now mo) (ws_mgr s)) \<noteq> None"
  by (simp add: check_session_def starts_with_def make_request_auth_policy_def validate_session_def validate_session_token_def
      session_world_of_def create_error_response_def create_success_response_def make_error_def auth_granted_def case_prod_beta Let_def)

lemma basic_scheme:
  assumes "basic_credentials e header user pass"
  shows "\<exists>space. find_text header '' '' = Some space \<and> iequals (take space header) ''Basic''"
proof -
  obtain scheme encoded where h: "header = scheme @ [CHR '' ''] @ encoded" "iequals scheme ''Basic''" "CHR '' '' \<notin> set scheme"
    using assms by (auto simp: basic_credentials_def)
  have "find_text header '' '' = Some (length scheme)" unfolding h(1) by (rule find_char_append[OF h(3)])
  with h show ?thesis by simp
qed

lemma not_basic: "\<not> basic_credentials e (''Bearer '' @ tok) user pass" "\<not> basic_credentials e (''Session '' @ tok) user pass"
proof -
  have "find_text (''Bearer'' @ [CHR '' ''] @ tok) '' '' = Some 6" "find_text (''Session'' @ [CHR '' ''] @ tok) '' '' = Some 7"
    using find_char_append[of "CHR '' ''" "''Bearer''" tok] find_char_append[of "CHR '' ''" "''Session''" tok] by simp_all
  moreover have "\<not> iequals ''Bearer'' ''Basic''" "\<not> iequals ''Session'' ''Basic''" by code_simp+
  ultimately show "\<not> basic_credentials e (''Bearer '' @ tok) user pass" "\<not> basic_credentials e (''Session '' @ tok) user pass"
    by (auto dest: basic_scheme)
qed

lemma check_bearer_ok:
  assumes "check_bearer (make_request_auth_policy e mo) (''Bearer '' @ tok) path method s = Returns r"
  shows "ar_ok r \<longleftrightarrow> tok \<noteq> [] \<and> authenticate_token (we_api e) tok path method (ws_api_tokens s) = Some True"
  using assms by (auto simp: check_bearer_def make_request_auth_policy_def authenticate_bearer_def starts_with_def make_error_def auth_granted_def
      split: option.splits if_splits)

lemma check_protected:
  assumes p: "protected_path path" and d: "d = make_request_auth_policy e mo" and c: "check d addr header path method s = (Returns r, s')"
  shows "ar_ok r \<longleftrightarrow> we_remote_allowed e addr \<and> we_username e \<noteq> [] \<and>
      ((\<exists>tok. header = ''Bearer '' @ tok \<and> tok \<noteq> [] \<and> authenticate_token (we_api e) tok path method (ws_api_tokens s) = Some True) \<or>
       (\<exists>tok. header = ''Session '' @ tok \<and> tok \<noteq> [] \<and> fst (use_session (we_sessions e) tok (mo_now mo) (ws_mgr s)) \<noteq> None) \<or>
       (\<exists>user pass. basic_credentials e header user pass \<and> iequals user (we_username e) \<and> we_digest e (pass @ we_salt e) = we_password e))"
proof -
  have err: "\<not> ar_ok (make_error d code er)" for code er by (simp add: make_error_def Let_def)
  have path: "base_path_of path \<noteq> ''/welcome''" "base_path_of path \<noteq> ''/welcome/''" "starts_with (base_path_of path) ''/api/''"
    "base_path_of path \<noteq> ''/api/auth/login''" "base_path_of path \<noteq> ''/api/auth/logout''" "base_path_of path \<noteq> ''/api/csrf-token''"
    using p by (auto simp: protected_path_def starts_with_def)
  have rem: "ar_ok (check_remote d addr) \<longleftrightarrow> we_remote_allowed e addr"
    by (simp add: check_remote_def err auth_granted_def) (simp add: d make_request_auth_policy_def)
  have cfg: "rd_credentials_configured d \<longleftrightarrow> we_username e \<noteq> []" by (simp add: d make_request_auth_policy_def)
  show ?thesis
  proof (cases "we_remote_allowed e addr \<and> we_username e \<noteq> []")
    case False
    with c path rem cfg err show ?thesis by (auto simp: check_def Let_def split: if_splits)
  next
    case True
    with c path rem cfg have c': "(if header = [] then (Returns (make_error d Client_error_unauthorized ''Unauthorized''), s)
      else if starts_with header ''Bearer '' then (check_bearer d header path method s, s)
      else if starts_with header ''Session '' then (let (r, s') = check_session d header s in (Returns r, s'))
      else case find_text header '' '' of
          Some space \<Rightarrow> if iequals (take space header) ''Basic'' then (Returns (check_basic d header), s)
                        else (Returns (make_error d Client_error_unauthorized ''Unauthorized''), s)
        | None \<Rightarrow> (Returns (make_error d Client_error_unauthorized ''Unauthorized''), s)) = (Returns r, s')"
      by (simp add: check_def Let_def)
    consider (bearer) tok where "header = ''Bearer '' @ tok" | (session) tok where "header = ''Session '' @ tok"
      | (other) "\<not> starts_with header ''Bearer ''" "\<not> starts_with header ''Session ''"
      by (auto simp: starts_with_iff)
    then show ?thesis
    proof cases
      case bearer
      then have "check_bearer d header path method s = Returns r" using c' by (auto simp: starts_with_def)
      with bearer check_bearer_ok[of e mo tok path "method" s r] True not_basic show ?thesis by (simp add: d)
    next
      case session
      then have "r = fst (check_session d header s)" using c' by (auto simp: starts_with_def split: prod.splits)
      with session check_session_ok[of e mo tok s] True not_basic show ?thesis by (simp add: d)
    next
      case other
      then have hd: "\<nexists>tok. header = ''Bearer '' @ tok" "\<nexists>tok. header = ''Session '' @ tok" by (auto simp: starts_with_iff)
      show ?thesis
      proof (cases "\<exists>space. find_text header '' '' = Some space \<and> iequals (take space header) ''Basic''")
        case basic: True
        then have "header \<noteq> []" by (auto simp: find_char_Some)
        with basic c' other have "r = check_basic d header" by auto
        with check_basic_iff[of e mo header] True hd show ?thesis by (simp add: d)
      next
        case nb: False
        then have "\<not> ar_ok r" using c' other err by (auto split: if_splits option.splits)
        with hd nb basic_scheme show ?thesis by blast
      qed
    qed
  qed
qed

text \<open>
  (C19) The gate of the configuration API: a request for a protected path is let through exactly when its address
  is allowed, credentials are configured, and it brings a bearer token whose scopes cover the path and
  method, a session token that is accepted now, or the configured user name and password.
\<close>

theorem protected_request_gate:
  assumes "protected_path (rq_path rq)" "check_auth e mo rq s = (Returns r, s')" "header = effective_header e mo rq"
  shows "ar_ok r \<longleftrightarrow> we_remote_allowed e (rq_address rq) \<and> we_username e \<noteq> [] \<and>
    ((\<exists>tok. header = ''Bearer '' @ tok \<and> tok \<noteq> [] \<and> authenticate_token (we_api e) tok (rq_path rq) (rq_method rq) (ws_api_tokens s) = Some True) \<or>
     (\<exists>tok. header = ''Session '' @ tok \<and> tok \<noteq> [] \<and> fst (use_session (we_sessions e) tok (mo_now mo) (ws_mgr s)) \<noteq> None) \<or>
     (\<exists>user pass. basic_credentials e header user pass \<and> iequals user (we_username e) \<and> we_digest e (pass @ we_salt e) = we_password e))"
proof -
  have "check (make_request_auth_policy e mo) (rq_address rq) header (rq_path rq) (rq_method rq) s = (Returns r, s')"
    using assms(2,3) by (simp add: check_auth_def effective_header_def Let_def)
  then show ?thesis by (rule check_protected[OF assms(1) refl])
qed

section \<open>From login to logout\<close>

lemma check_auth_session:
  assumes p: "protected_path (rq_path rq)" and h: "effective_header e mo rq = ''Session '' @ tok"
    and ok: "we_remote_allowed e (rq_address rq)" "we_username e \<noteq> []"
  shows "check_auth e mo rq s = (let (r, s') = check_session (make_request_auth_policy e mo) (''Session '' @ tok) s in (Returns r, s'))"
proof -
  define d where "d = make_request_auth_policy e mo"
  have d: "rd_credentials_configured d" "ar_ok (check_remote d (rq_address rq))"
    using ok by (simp_all add: d_def make_request_auth_policy_def check_remote_def auth_granted_def)
  have path: "base_path_of (rq_path rq) \<noteq> ''/welcome''" "base_path_of (rq_path rq) \<noteq> ''/welcome/''" "starts_with (base_path_of (rq_path rq)) ''/api/''"
    "base_path_of (rq_path rq) \<noteq> ''/api/auth/login''" "base_path_of (rq_path rq) \<noteq> ''/api/auth/logout''" "base_path_of (rq_path rq) \<noteq> ''/api/csrf-token''"
    using p by (auto simp: protected_path_def starts_with_def)
  have sw: "\<not> starts_with (''Session '' @ tok) ''Bearer ''" "starts_with (''Session '' @ tok) ''Session ''" "''Session '' @ tok \<noteq> []"
    by (simp_all add: starts_with_def)
  have "check_auth e mo rq s = check d (rq_address rq) (''Session '' @ tok) (rq_path rq) (rq_method rq) s"
    using h unfolding check_auth_def effective_header_def d_def Let_def by simp
  also have "\<dots> = (let (r, s') = check_session d (''Session '' @ tok) s in (Returns r, s'))"
    unfolding check_def Let_def using path d sw by (simp del: append_Cons)
  finally show ?thesis unfolding d_def .
qed

lemma issued_session:
  assumes e: "session_env_ok e" and um: "umap_ok (sm_session_tokens (sw_mgr w))"
    and i: "issue_session_tokens e io user ttl 0 ua addr remember now now_cleanup now_save (st, rt, rot) w = (b, w')"
    and ttl: "0 < ttl" "now_cleanup \<le> now + ttl * se_ticks e"
  shows "sb_session_token b = st"
    "\<exists>t. map_of (sm_session_tokens (sw_mgr w')) (se_hash e st) = Some t \<and> tk_expires_at t = now + ttl * se_ticks e \<and> tk_expires_at t \<le> tk_refresh_expires_at t"
proof -
  obtain rttl where rttl: "issue_ttls e ttl 0 remember = (ttl, rttl)" "ttl \<le> rttl"
    using ttl(1) by (auto simp: issue_ttls_def Let_def)
  then have le: "now + ttl * se_ticks e \<le> now + rttl * se_ticks e" using e by (simp add: session_env_ok_def)
  obtain m where m: "issue_insert e user ttl 0 ua addr remember now (st, rt, rot) (sw_mgr w) = (b, m)"
    using i by (auto simp: issue_session_tokens_def Let_def split: prod.splits)
  then show "sb_session_token b = st" by (auto simp: issue_insert_def rttl(1) Let_def)
  obtain t where t: "map_of (sm_session_tokens m) (se_hash e st) = Some t" "tk_expires_at t = now + ttl * se_ticks e"
    "tk_refresh_expires_at t = now + rttl * se_ticks e"
    using m le by (auto simp: issue_insert_def rttl(1) Let_def)
  have "umap_ok (sm_session_tokens m)" using m um by (auto simp: issue_insert_def rttl(1) Let_def)
  then have "map_of (sm_session_tokens (snd (cleanup_expired_session_tokens now_cleanup m))) (se_hash e st) = Some t"
    using t ttl(2) le cleanup_fields(1)[of now_cleanup m, OF prod.collapse[symmetric]]
      map_of_filter_key[of "sm_session_tokens m" "\<lambda>_ v. \<not> now_cleanup > tk_refresh_expires_at v" "se_hash e st"] by simp
  moreover have "sm_session_tokens (sw_mgr w') = sm_session_tokens (snd (cleanup_expired_session_tokens now_cleanup m))"
    using i m by (auto simp: issue_session_tokens_def)
  ultimately show "\<exists>t. map_of (sm_session_tokens (sw_mgr w')) (se_hash e st) = Some t \<and> tk_expires_at t = now + ttl * se_ticks e \<and> tk_expires_at t \<le> tk_refresh_expires_at t"
    using t le by simp
qed

lemma cookie_token:
  assumes "CHR '';'' \<notin> set (we_cookie_escape e tok)" "we_cookie_unescape e (we_cookie_escape e tok) = tok"
    and "find_header hs ''Cookie'' = Some (takeWhile (\<lambda>ch. ch \<noteq> CHR '';'') (token_cookie e now session_cookie_name tok ttl))"
  shows "extract_session_token_from_cookie e mo hs = tok"
proof -
  have "takeWhile (\<lambda>ch. ch \<noteq> CHR '';'') (token_cookie e now session_cookie_name tok ttl) = (session_cookie_name @ ''='') @ we_cookie_escape e tok"
    using assms(1) by (auto simp: token_cookie_def session_cookie_name_def cookie_attributes_def takeWhile_tail takeWhile_append2)
  moreover have "find_text ((session_cookie_name @ ''='') @ v) (session_cookie_name @ ''='') = Some 0" for v
    by (simp add: find_text.simps starts_with_def)
  moreover have "find_text (we_cookie_escape e tok) '';'' = None" using assms(1) by (simp add: find_char_None)
  ultimately show ?thesis
    unfolding extract_session_token_from_cookie_def extract_cookie_def
    using assms(2,3) by (simp add: make_request_auth_policy_def Let_def)
qed

lemma check_session_code: "ar_ok (fst (check_session d h s)) \<or> ar_code (fst (check_session d h s)) = Client_error_unauthorized"
  by (auto simp: check_session_def make_error_def auth_granted_def Let_def split: prod.splits)

lemma logout_forgets:
  assumes "tok \<noteq> []"
  shows "map_of (sm_session_tokens (ws_mgr (snd (api_logout e mo tok rtok s)))) (se_hash (we_sessions e) tok) = None"
  using assms by (simp add: api_logout_def revoke_session_token_def revoke_session_by_hash_def revoke_locked_def erase_session_def
      session_world_of_def with_session_world_def case_prod_beta Let_def split: option.split)

text \<open>
  From login to logout: with the right credentials a login succeeds and sets a session cookie; a request for
  a protected path that sends that cookie back is let through while the session lasts; and after a logout
  with the cookie's token the same request is refused as unauthorized. The percent coding of the cookie is
  assumed to decode the token it encoded and to leave no semicolon in it.
\<close>

theorem login_request_logout:
  assumes e: "session_env_ok (we_sessions e)" "we_username e \<noteq> []" and um: "umap_ok (sm_session_tokens (ws_mgr s))"
    and codec: "we_cookie_unescape e (we_cookie_escape e tok) = tok" "CHR '';'' \<notin> set (we_cookie_escape e tok)"
    and creds: "validate_credentials e user pass" and draw: "mo_draw mo = (tok, rt, rot)" "tok \<noteq> []"
    and login: "api_login e mo user pass url remember ua addr s = (resp, s1)"
    and last: "mo_cleanup mo \<le> mo_now mo + se_session_token_ttl (we_sessions e) * se_ticks (we_sessions e)"
      "mo_now mo2 \<le> mo_now mo + se_session_token_ttl (we_sessions e) * se_ticks (we_sessions e)"
    and cookie: "(''Set-Cookie'', c) \<in> set (rp_headers resp)" "starts_with c (session_cookie_name @ ''='')"
    and rq: "protected_path (rq_path rq)" "we_remote_allowed e (rq_address rq)" "find_header (rq_headers rq) ''authorization'' = None"
      "find_header (rq_headers rq) ''Cookie'' = Some (takeWhile (\<lambda>ch. ch \<noteq> CHR '';'') c)"
  shows "rp_status resp = Success_ok \<and> (\<exists>r s2. check_auth e mo2 rq s1 = (Returns r, s2) \<and> ar_ok r) \<and>
    (\<exists>r s3. check_auth e mo3 rq (snd (api_logout e mo3 (extract_session_token_from_cookie e mo3 (rq_headers rq)) [] s2)) = (Returns r, s3) \<and>
      \<not> ar_ok r \<and> ar_code r = Client_error_unauthorized)"
proof -
  let ?e = "we_sessions e"
  have ttl: "0 < se_session_token_ttl ?e" using e(1) by (simp add: session_env_ok_def)
  obtain b w where i: "issue_session_tokens ?e (mo_io mo) user (se_session_token_ttl ?e) 0 ua addr remember (mo_now mo) (mo_cleanup mo) (mo_save mo)
      (tok, rt, rot) (session_world_of s) = (b, w)" by fastforce
  have um': "umap_ok (sm_session_tokens (sw_mgr (session_world_of s)))" using um by (simp add: session_world_of_def)
  note iss = issued_session[OF e(1) um' i ttl last(1)]
  have resp: "rp_status resp = Success_ok" "rp_headers resp = [(''Content-Type'', ''application/json''),
      (''Access-Control-Allow-Origin'', cors_origin (we_config_port e))] @ bundle_cookies e (mo_wall mo) b @
      [(''Access-Control-Allow-Origin'', cors_origin (we_nvhttp_port e))]" "ws_mgr s1 = sw_mgr w"
    using login creds i by (auto simp: api_login_def draw create_success_response_def with_session_world_def Let_def)
  have "c = token_cookie e (mo_wall mo) session_cookie_name tok (sb_session_ttl b)"
    using cookie resp(2) iss(1)
    by (auto simp: bundle_cookies_def token_cookie_def starts_with_def session_cookie_name_def refresh_cookie_name_def)
  then have ck: "extract_session_token_from_cookie e mo' (rq_headers rq) = tok" for mo'
    using cookie_token[of e tok "rq_headers rq"] codec rq(4) by blast
  have hd: "effective_header e mo' rq = ''Session '' @ tok" for mo' using rq(3) draw(2) by (simp add: effective_header_def ck)
  have "fst (use_session ?e tok (mo_now mo2) (ws_mgr s1)) \<noteq> None"
    using iss(2) last(2) resp(3) by (auto simp: use_session_def Let_def)
  then have "ar_ok (fst (check_session (make_request_auth_policy e mo2) (''Session '' @ tok) s1))" using draw(2) check_session_ok by blast
  then have 1: "\<exists>r s2. check_auth e mo2 rq s1 = (Returns r, s2) \<and> ar_ok r"
    using check_auth_session[OF rq(1) hd rq(2) e(2)] by (simp add: case_prod_beta Let_def)
  let ?s = "snd (api_logout e mo3 tok [] s2)"
  have "use_session ?e tok (mo_now mo3) (ws_mgr ?s) = (None, False, ws_mgr ?s)"
    using logout_forgets[OF draw(2), of e mo3 "[]" s2] by (simp add: use_session_def)
  then have "\<not> ar_ok (fst (check_session (make_request_auth_policy e mo3) (''Session '' @ tok) ?s))" using check_session_ok by simp
  with check_session_code[of "make_request_auth_policy e mo3" "''Session '' @ tok" ?s] have "\<exists>r s3. check_auth e mo3 rq ?s = (Returns r, s3) \<and> \<not> ar_ok r \<and> ar_code r = Client_error_unauthorized"
    using check_auth_session[OF rq(1) hd rq(2) e(2), of mo3 ?s] by (simp add: case_prod_beta Let_def)
  with 1 resp(1) show ?thesis by (simp add: ck)
qed

text \<open> Another cookie can pass for the session cookie: the cookie header is searched for the name anywhere in
  the text, so a cookie whose name ends in the session cookie's name and stands first is taken in its place.
\<close>

theorem suffix_cookie_shadows:
  "CHR '';'' \<notin> set evil \<Longrightarrow>
   extract_session_token_from_cookie e mo [(''Cookie'', ''x'' @ session_cookie_name @ ''='' @ evil @ ''; '' @ session_cookie_name @ ''='' @ good)] =
     we_cookie_unescape e evil"
proof -
  assume evil: "CHR '';'' \<notin> set evil"
  let ?n = "session_cookie_name @ ''=''" and ?rest = "evil @ ''; '' @ session_cookie_name @ ''='' @ good"
  have "find_text (''x'' @ ?n @ ?rest) ?n = Some 1"
    by (simp add: find_text.simps starts_with_def session_cookie_name_def)
  moreover have "find_text ?rest '';'' = Some (length evil)"
    using find_char_append[OF evil, of "'' '' @ session_cookie_name @ ''='' @ good"] by simp
  moreover have "drop (1 + length ?n) (''x'' @ ?n @ ?rest) = ?rest" by simp
  moreover have "iequals ''Cookie'' ''Cookie''" by (simp add: iequals_def)
  ultimately show ?thesis
    unfolding extract_session_token_from_cookie_def extract_cookie_def find_header_def
    by (simp add: make_request_auth_policy_def Let_def)
qed

section \<open>Examples\<close>

definition wdemo_env :: web_env where
  "wdemo_env = \<lparr>we_sessions = sdemo_env, we_api = ademo_env, we_username = ''admin'', we_password = ''pwsalt'', we_salt = ''salt'',
     we_digest = (\<lambda>x. x), we_remote_allowed = (\<lambda>_. True), we_decode_base64 = Some, we_cookie_escape = (\<lambda>x. x),
     we_cookie_unescape = (\<lambda>x. x), we_format_expires = (\<lambda>_. []), we_config_port = 47990, we_nvhttp_port = 47984\<rparr>"

definition wdemo_state :: web_state where
  "wdemo_state = \<lparr>ws_mgr = sdemo_mgr [] [] False, ws_api_tokens = [], ws_file = None\<rparr>"

definition wdemo_moment :: "time_point \<Rightarrow> moment" where
  "wdemo_moment now = \<lparr>mo_io = sdemo_io, mo_now = now, mo_cleanup = now, mo_save = now, mo_wall = now, mo_draw = (''t0k'', ''r0k'', ''rot'')\<rparr>"

definition wdemo_request :: "(string \<times> string) list \<Rightarrow> http_request" where
  "wdemo_request hs = \<lparr>rq_address = ''::1'', rq_headers = hs, rq_path = ''/api/apps'', rq_method = ''GET''\<rparr>"

lemma wdemo_protected: "protected_path (rq_path (wdemo_request hs))"
proof -
  have "base_path_of ''/api/apps'' = ''/api/apps''" by code_simp
  then show ?thesis by (simp add: protected_path_def wdemo_request_def starts_with_def)
qed

theorem protected_request_gate_witness:
  "\<exists>r s'. check_auth wdemo_env (wdemo_moment 0) (wdemo_request [(''Authorization'', ''Session x'')])
     (wdemo_state\<lparr>ws_mgr := sdemo_mgr [sdemo_x] [] False\<rparr>) = (Returns r, s') \<and> ar_ok r"
proof -
  let ?rq = "wdemo_request [(''Authorization'', ''Session x'')]" and ?s = "wdemo_state\<lparr>ws_mgr := sdemo_mgr [sdemo_x] [] False\<rparr>"
  have "iequals ''Authorization'' ''authorization''" by code_simp
  then have h: "effective_header wdemo_env (wdemo_moment 0) ?rq = ''Session '' @ ''x''"
    by (simp add: effective_header_def wdemo_request_def find_header_def)
  have ok: "we_remote_allowed wdemo_env (rq_address ?rq)" "we_username wdemo_env \<noteq> []" by (simp_all add: wdemo_env_def)
  obtain r s' where c: "check_auth wdemo_env (wdemo_moment 0) ?rq ?s = (Returns r, s')"
    using check_auth_session[OF wdemo_protected h ok, of ?s] by (auto simp: case_prod_beta Let_def)
  have "fst (use_session (we_sessions wdemo_env) ''x'' (mo_now (wdemo_moment 0)) (ws_mgr ?s)) \<noteq> None"
    by (simp add: use_session_def wdemo_env_def wdemo_moment_def sdemo_env_def sdemo_mgr_def sdemo_token_def Let_def)
  then have "ar_ok r" using protected_request_gate[OF wdemo_protected c h[symmetric]] ok by simp
  with c show ?thesis by blast
qed

theorem login_request_logout_witness:
  "let (resp, s1) = api_login wdemo_env (wdemo_moment 0) ''Admin'' ''pw'' ''/'' False [] ''::1'' wdemo_state;
       rq = wdemo_request [(''cookie'', session_cookie_name @ ''=t0k'')]
   in rp_status resp = Success_ok \<and> (\<exists>r s2. check_auth wdemo_env (wdemo_moment 60) rq s1 = (Returns r, s2) \<and> ar_ok r)"
proof -
  obtain resp s1 where l: "api_login wdemo_env (wdemo_moment 0) ''Admin'' ''pw'' ''/'' False [] ''::1'' wdemo_state = (resp, s1)" by fastforce
  have ie: "iequals ''Admin'' ''admin''" "iequals ''cookie'' ''Cookie''" "\<not> iequals ''cookie'' ''authorization''" by code_simp+
  then have creds: "validate_credentials wdemo_env ''Admin'' ''pw''" by (simp add: validate_credentials_def wdemo_env_def)
  obtain c where c: "(''Set-Cookie'', c) \<in> set (rp_headers resp)" "c = token_cookie wdemo_env 0 session_cookie_name ''t0k'' 3600"
    using l creds by (auto simp: api_login_def bundle_cookies_def create_success_response_def issue_session_tokens_def issue_insert_def issue_ttls_def
        wdemo_env_def sdemo_env_def wdemo_moment_def default_refresh_token_ttl_def to_seconds_nonneg Let_def split: prod.splits)
  have tw: "takeWhile (\<lambda>ch. ch \<noteq> CHR '';'') c = session_cookie_name @ ''=t0k''"
    by (simp add: c(2) token_cookie_def session_cookie_name_def cookie_attributes_def wdemo_env_def)
  let ?rq = "wdemo_request [(''cookie'', session_cookie_name @ ''=t0k'')]"
  have "find_header (rq_headers ?rq) ''authorization'' = None" "find_header (rq_headers ?rq) ''Cookie'' = Some (takeWhile (\<lambda>ch. ch \<noteq> CHR '';'') c)"
    using ie by (simp_all add: find_header_def wdemo_request_def tw)
  moreover have "session_env_ok (we_sessions wdemo_env)" using sdemo_env_ok by (simp add: wdemo_env_def)
  moreover have "starts_with c (session_cookie_name @ ''='')" by (simp add: c(2) token_cookie_def starts_with_def)
  ultimately have "rp_status resp = Success_ok \<and> (\<exists>r s2. check_auth wdemo_env (wdemo_moment 60) ?rq s1 = (Returns r, s2) \<and> ar_ok r)"
    using login_request_logout[of wdemo_env wdemo_state "''t0k''" "''Admin''" "''pw''" "wdemo_moment 0" "''r0k''" "''rot''" "''/''" False "[]" "''::1''"
        resp s1 "wdemo_moment 60" c ?rq, OF _ _ _ _ _ creds _ _ l _ _ c(1) _ wdemo_protected]
    by (simp add: wdemo_env_def sdemo_env_def wdemo_state_def sdemo_mgr_def wdemo_moment_def)
  then show ?thesis by (simp add: l)
qed

theorem suffix_cookie_shadows_witness:
  "extract_session_token_from_cookie wdemo_env (wdemo_moment 0)
     [(''Cookie'', ''x'' @ session_cookie_name @ ''='' @ ''bad'' @ ''; '' @ session_cookie_name @ ''='' @ ''good'')] = ''bad''"
  using suffix_cookie_shadows[of "''bad''" wdemo_env "wdemo_moment 0" "''good''"] by (simp add: wdemo_env_def)

end
