(* ===== verification/Login_Limiter.thy ===== *)
theory Login_Limiter
  imports Auth_State
begin

text \<open>
  The limit on login attempts: \<^verbatim>\<open>LoginAttemptLimiter\<close> of \<^verbatim>\<open>config_http_login_limiter.h\<close>. The
  table of addresses is an association list; its order is the iteration order in which the oldest entry is
  looked for. Durations are in ticks of the steady clock, whose readings are not negative and do not
  decrease.
\<close>

section \<open>Definitions\<close>

record attempt_entry =
  at_attempts :: nat
  at_first_attempt :: time_point
  at_last_seen :: time_point
  at_blocked_until :: time_point

record limiter =
  lm_max_attempts :: nat
  lm_window :: int
  lm_block_duration :: int
  lm_max_entries :: nat
  lm_ticks :: int
  lm_entries :: "(string, attempt_entry) umap"

definition limiter_new :: "int \<Rightarrow> nat \<Rightarrow> int \<Rightarrow> int \<Rightarrow> nat \<Rightarrow> limiter" where
  "limiter_new ticks max_attempts window block_duration max_entries =
     \<lparr>lm_max_attempts = max 1 max_attempts, lm_window = max 1 window * ticks, lm_block_duration = max 1 block_duration * ticks,
      lm_max_entries = max 1 max_entries, lm_ticks = ticks, lm_entries = []\<rparr>"

definition default_limiter :: "int \<Rightarrow> limiter" where
  "default_limiter ticks = limiter_new ticks 8 60 60 1024"

definition fresh_entry :: "time_point \<Rightarrow> attempt_entry" where
  "fresh_entry now = \<lparr>at_attempts = 0, at_first_attempt = now, at_last_seen = now, at_blocked_until = 0\<rparr>"

definition prune :: "time_point \<Rightarrow> limiter \<Rightarrow> limiter" where
  "prune now l = (let retention = max (lm_window l) (lm_block_duration l) in
     l\<lparr>lm_entries := filter (\<lambda>p. \<not> (at_blocked_until (snd p) \<le> now \<and> now - at_last_seen (snd p) \<ge> retention)) (lm_entries l)\<rparr>)"

fun oldest_from :: "(string \<times> attempt_entry) option \<Rightarrow> (string, attempt_entry) umap \<Rightarrow> (string \<times> attempt_entry) option" where
  "oldest_from oldest [] = oldest"
| "oldest_from oldest (p # es) = oldest_from (case oldest of
     None \<Rightarrow> Some p | Some q \<Rightarrow> if at_last_seen (snd p) < at_last_seen (snd q) then Some p else Some q) es"

definition evict_oldest :: "limiter \<Rightarrow> limiter" where
  "evict_oldest l = (case oldest_from None (lm_entries l) of
     None \<Rightarrow> l | Some p \<Rightarrow> l\<lparr>lm_entries := AList.delete (fst p) (lm_entries l)\<rparr>)"

text \<open>The entry that is counted up: a new one, a restarted one, or the one found.\<close>

definition open_entry :: "string \<Rightarrow> time_point \<Rightarrow> limiter \<Rightarrow> limiter \<times> attempt_entry" where
  "open_entry key now l = (case map_of (lm_entries l) key of
     None \<Rightarrow> (if length (lm_entries l) \<ge> lm_max_entries l then evict_oldest l else l, fresh_entry now)
   | Some en \<Rightarrow> (l, if now - at_first_attempt en \<ge> lm_window l then fresh_entry now else en))"

definition count_attempt :: "string \<Rightarrow> time_point \<Rightarrow> limiter \<Rightarrow> limiter" where
  "count_attempt key now l =
     (let (l', en) = open_entry key now l;
          en = en\<lparr>at_last_seen := now, at_attempts := at_attempts en + 1\<rparr>;
          en = (if at_attempts en \<ge> lm_max_attempts l then en\<lparr>at_blocked_until := now + lm_block_duration l\<rparr> else en)
      in l'\<lparr>lm_entries := AList.update key en (lm_entries l')\<rparr>)"

text \<open>A decision: whether the attempt is allowed, and after how many seconds to retry.\<close>

definition consume :: "string \<Rightarrow> time_point \<Rightarrow> limiter \<Rightarrow> (bool \<times> int) \<times> limiter" where
  "consume key now l =
     (let l = prune now l in
      case map_of (lm_entries l) key of
        Some en \<Rightarrow>
          if at_blocked_until en > now then ((False, max 1 (to_seconds (lm_ticks l) (at_blocked_until en - now))), l)
          else ((True, 0), count_attempt key now l)
      | None \<Rightarrow> ((True, 0), count_attempt key now l))"

definition limiter_reset :: "string \<Rightarrow> limiter \<Rightarrow> limiter" where
  "limiter_reset key l = l\<lparr>lm_entries := AList.delete key (lm_entries l)\<rparr>"

text \<open>A run of attempts, with the times at which those of one address were allowed.\<close>

fun allowed_times :: "string \<Rightarrow> (string \<times> time_point) list \<Rightarrow> limiter \<Rightarrow> time_point list" where
  "allowed_times k [] l = []"
| "allowed_times k ((key, now) # evs) l =
     (let ((ok, _), l') = consume key now l in (if ok \<and> key = k then [now] else []) @ allowed_times k evs l')"

section \<open>How many attempts an address gets\<close>

text \<open>At most \<open>n\<close> of the times lie in any interval of length \<open>w\<close>.\<close>

definition sparse :: "int \<Rightarrow> nat \<Rightarrow> time_point list \<Rightarrow> bool" where
  "sparse w n ts \<longleftrightarrow> (\<forall>a. length (filter (\<lambda>t. a \<le> t \<and> t < a + w) ts) \<le> n)"

lemma sparse_append:
  assumes P: "sparse w (n + (n - 2)) P" "length (filter (\<lambda>t. f < t + w) P) \<le> n - 2" and C: "length C \<le> n" "\<forall>c \<in> set C. f \<le> c"
  shows "sparse w (n + (n - 2)) (P @ C)"
  unfolding sparse_def
proof
  fix a
  let ?in = "\<lambda>t. a \<le> t \<and> t < a + w"
  show "length (filter ?in (P @ C)) \<le> n + (n - 2)"
  proof (cases "filter ?in C = []")
    case True
    with P(1) show ?thesis by (simp add: sparse_def)
  next
    case False
    then obtain c where "c \<in> set C" "?in c" by (auto simp: filter_empty_conv)
    with C(2) have "f < a + w" by fastforce
    then have "filter ?in P = filter ?in (filter (\<lambda>t. f < t + w) P)" by (auto intro!: filter_cong)
    then have "length (filter ?in P) \<le> n - 2" using P(2) length_filter_le[of ?in "filter (\<lambda>t. f < t + w) P"] by (metis le_trans)
    moreover have "length (filter ?in C) \<le> n" using C(1) length_filter_le[of ?in C] by (metis le_trans)
    ultimately show ?thesis by simp
  qed
qed

text \<open>What the entry of an address says about the allowed times so far, at time \<open>T\<close>: those of earlier windows
  and those of the current one.\<close>

definition window_ok :: "limiter \<Rightarrow> time_point \<Rightarrow> attempt_entry \<Rightarrow> time_point list \<Rightarrow> time_point list \<Rightarrow> bool" where
  "window_ok l T x P C \<longleftrightarrow> sparse (lm_window l) (lm_max_attempts l + (lm_max_attempts l - 2)) P \<and>
     length (filter (\<lambda>t. at_first_attempt x < t + lm_window l) P) \<le> lm_max_attempts l - 2 \<and> (\<forall>t \<in> set P. t \<le> at_first_attempt x) \<and>
     length C = at_attempts x \<and> at_attempts x \<le> lm_max_attempts l \<and> (C \<noteq> [] \<longrightarrow> at_first_attempt x \<in> set C) \<and>
     (\<forall>c \<in> set C. at_first_attempt x \<le> c \<and> c \<le> at_last_seen x) \<and> at_first_attempt x \<le> at_last_seen x \<and> at_last_seen x \<le> T \<and>
     (at_attempts x = lm_max_attempts l \<longrightarrow> at_blocked_until x = at_last_seen x + lm_block_duration l)"

definition attempt_ok :: "limiter \<Rightarrow> time_point \<Rightarrow> attempt_entry option \<Rightarrow> time_point list \<Rightarrow> bool" where
  "attempt_ok l T en ts \<longleftrightarrow> (case en of
     None \<Rightarrow> sparse (lm_window l) (lm_max_attempts l + (lm_max_attempts l - 2)) ts \<and> (\<forall>t \<in> set ts. t + lm_window l \<le> T)
   | Some x \<Rightarrow> (\<exists>P C. ts = P @ C \<and> window_ok l T x P C))"

lemma attempt_okE:
  assumes "attempt_ok l T (Some x) ts"
  obtains P C where "ts = P @ C" "window_ok l T x P C"
  using assms by (auto simp: attempt_ok_def)

lemma attempt_ok_SomeI: "window_ok l T x P C \<Longrightarrow> attempt_ok l T (Some x) (P @ C)"
  by (auto simp: attempt_ok_def)

definition config_ok :: "limiter \<Rightarrow> bool" where
  "config_ok l \<longleftrightarrow> 0 < lm_max_attempts l \<and> 0 < lm_window l \<and> lm_window l \<le> lm_block_duration l"

lemma attempt_ok_sparse: "attempt_ok l T en ts \<Longrightarrow> sparse (lm_window l) (lm_max_attempts l + (lm_max_attempts l - 2)) ts"
proof (cases en)
  case (Some x)
  assume "attempt_ok l T en ts"
  then obtain P C where "ts = P @ C" and w: "window_ok l T x P C" unfolding Some by (rule attempt_okE)
  with sparse_append[of "lm_window l" "lm_max_attempts l" P "at_first_attempt x" C] show ?thesis by (simp add: window_ok_def)
qed (simp add: attempt_ok_def)

lemma window_ok_later: "window_ok l T x P C \<Longrightarrow> T \<le> T' \<Longrightarrow> window_ok l T' x P C"
  by (auto simp: window_ok_def)

lemma attempt_ok_later: "attempt_ok l T en ts \<Longrightarrow> T \<le> T' \<Longrightarrow> attempt_ok l T' en ts"
  unfolding attempt_ok_def using window_ok_later by (fastforce split: option.splits)

lemma attempt_ok_config: "lm_max_attempts l' = lm_max_attempts l \<Longrightarrow> lm_window l' = lm_window l \<Longrightarrow>
    lm_block_duration l' = lm_block_duration l \<Longrightarrow> attempt_ok l' T en ts = attempt_ok l T en ts"
  by (cases en) (simp_all add: attempt_ok_def window_ok_def)

text \<open>The moments at which the entry changes: it is dropped, a window starts, an attempt is counted.\<close>

lemma attempt_ok_times: "attempt_ok l T (Some x) ts \<Longrightarrow> t \<in> set ts \<Longrightarrow> t \<le> at_last_seen x"
  by (elim attempt_okE) (fastforce simp: window_ok_def)

lemma entry_dropped:
  assumes "attempt_ok l T (Some x) ts" "lm_window l \<le> now - at_last_seen x"
  shows "attempt_ok l now None ts"
  using attempt_ok_sparse[OF assms(1)] attempt_ok_times[OF assms(1)] assms(2) by (fastforce simp: attempt_ok_def)

lemma window_opened:
  assumes "sparse (lm_window l) (lm_max_attempts l + (lm_max_attempts l - 2)) ts" "\<forall>t \<in> set ts. t \<le> now" "config_ok l"
    "length (filter (\<lambda>t. now < t + lm_window l) ts) \<le> lm_max_attempts l - 2"
  shows "attempt_ok l now (Some (fresh_entry now)) ts"
  using attempt_ok_SomeI[of l now "fresh_entry now" ts "[]"] assms by (simp add: window_ok_def fresh_entry_def config_ok_def)

lemma window_started:
  assumes c: "config_ok l" and ok: "attempt_ok l now (Some x) ts"
    and w: "lm_window l \<le> now - at_first_attempt x" and b: "\<not> at_blocked_until x > now"
  shows "attempt_ok l now (Some (fresh_entry now)) ts"
proof (rule window_opened[OF attempt_ok_sparse[OF ok] _ c])
  obtain P C where pc: "ts = P @ C" and wk: "window_ok l now x P C" by (rule attempt_okE[OF ok])
  show "\<forall>t \<in> set ts. t \<le> now" using attempt_ok_times[OF ok] wk by (fastforce simp: window_ok_def)
  have none: "filter (\<lambda>t. now < t + lm_window l) P = []" using wk w by (fastforce simp: filter_empty_conv window_ok_def)
  have "length (filter (\<lambda>t. now < t + lm_window l) C) \<le> lm_max_attempts l - 2"
  proof (cases "at_attempts x = lm_max_attempts l")
    case True
    with wk have "at_blocked_until x = at_last_seen x + lm_block_duration l" "\<forall>c \<in> set C. c \<le> at_last_seen x" by (auto simp: window_ok_def)
    then have "filter (\<lambda>t. now < t + lm_window l) C = []" using b c by (fastforce simp: filter_empty_conv config_ok_def)
    then show ?thesis by simp
  next
    case False
    have "length (filter (\<lambda>t. now < t + lm_window l) C) \<le> length C - 1"
    proof (cases "C = []")
      case False
      with wk have "at_first_attempt x \<in> set C" by (simp add: window_ok_def)
      from length_filter_less[OF this, of "\<lambda>t. now < t + lm_window l"] w show ?thesis by simp
    qed simp
    moreover have "length C < lm_max_attempts l" using wk False by (simp add: window_ok_def)
    ultimately show ?thesis by simp
  qed
  with none show "length (filter (\<lambda>t. now < t + lm_window l) ts) \<le> lm_max_attempts l - 2" by (simp add: pc)
qed

lemma window_first:
  assumes "config_ok l" "attempt_ok l now None ts"
  shows "attempt_ok l now (Some (fresh_entry now)) ts"
proof -
  have "filter (\<lambda>t. now < t + lm_window l) ts = []" "\<forall>t \<in> set ts. t \<le> now"
    using assms by (fastforce simp: attempt_ok_def config_ok_def filter_empty_conv)+
  with window_opened[OF attempt_ok_sparse[OF assms(2)] _ assms(1)] show ?thesis by simp
qed

lemma attempt_counted:
  assumes ok: "attempt_ok l now (Some x) ts" and n: "at_attempts x < lm_max_attempts l"
    and fresh: "at_attempts x = 0 \<longrightarrow> at_first_attempt x = now" and x': "x' = x\<lparr>at_last_seen := now, at_attempts := at_attempts x + 1\<rparr>"
  shows "attempt_ok l now (Some (if at_attempts x' \<ge> lm_max_attempts l then x'\<lparr>at_blocked_until := now + lm_block_duration l\<rparr> else x')) (ts @ [now])"
proof -
  obtain P C where pc: "ts = P @ C" and wk: "window_ok l now x P C" by (rule attempt_okE[OF ok])
  have first: "at_first_attempt x = now \<or> at_first_attempt x \<in> set C" using wk fresh by (cases C) (auto simp: window_ok_def)
  have "\<forall>c \<in> set C. c \<le> now" "at_first_attempt x \<le> now" using wk by (auto simp: window_ok_def)
  with wk n first have "window_ok l now (if at_attempts x' \<ge> lm_max_attempts l then x'\<lparr>at_blocked_until := now + lm_block_duration l\<rparr> else x') P (C @ [now])"
    unfolding x' window_ok_def by auto
  from attempt_ok_SomeI[OF this] show ?thesis by (simp add: pc)
qed

text \<open>The whole table, for the addresses \<open>K\<close> that are in use.\<close>

definition limiter_ok :: "string set \<Rightarrow> string \<Rightarrow> time_point \<Rightarrow> time_point list \<Rightarrow> limiter \<Rightarrow> bool" where
  "limiter_ok K k T ts l \<longleftrightarrow> config_ok l \<and> finite K \<and> card K \<le> lm_max_entries l \<and> umap_ok (lm_entries l) \<and>
     fst ` set (lm_entries l) \<subseteq> K \<and> attempt_ok l T (map_of (lm_entries l) k) ts \<and>
     (\<forall>x. map_of (lm_entries l) k = Some x \<longrightarrow> 0 < at_attempts x)"

lemma prune_ok:
  assumes ok: "limiter_ok K k T ts l" and T: "T \<le> now"
  shows "limiter_ok K k now ts (prune now l)"
proof -
  let ?P = "\<lambda>x. \<not> (at_blocked_until x \<le> now \<and> now - at_last_seen x \<ge> max (lm_window l) (lm_block_duration l))"
  have um: "umap_ok (lm_entries l)" and c: "config_ok l" and en: "attempt_ok l T (map_of (lm_entries l) k) ts"
    using ok by (simp_all add: limiter_ok_def)
  have look: "map_of (lm_entries (prune now l)) k = (case map_of (lm_entries l) k of None \<Rightarrow> None | Some x \<Rightarrow> if ?P x then Some x else None)"
    unfolding prune_def Let_def using map_of_filter_key[OF um, of "\<lambda>_. ?P" k] by simp
  have "attempt_ok l now (map_of (lm_entries (prune now l)) k) ts"
  proof (cases "map_of (lm_entries l) k")
    case None
    with en look T show ?thesis by (auto intro: attempt_ok_later)
  next
    case (Some x)
    show ?thesis
    proof (cases "?P x")
      case True
      with Some look en T show ?thesis by (auto intro: attempt_ok_later)
    next
      case False
      then have "lm_window l \<le> now - at_last_seen x" by simp
      with entry_dropped[of l T x ts now] en Some False look show ?thesis by simp
    qed
  qed
  then have "attempt_ok (prune now l) now (map_of (lm_entries (prune now l)) k) ts"
    by (subst attempt_ok_config[of _ l]) (simp_all add: prune_def Let_def)
  moreover have "\<forall>x. map_of (lm_entries (prune now l)) k = Some x \<longrightarrow> 0 < at_attempts x"
    using ok look by (auto simp: limiter_ok_def split: option.splits if_splits)
  moreover have "config_ok (prune now l)" "finite K" "card K \<le> lm_max_entries (prune now l)" "umap_ok (lm_entries (prune now l))"
    "fst ` set (lm_entries (prune now l)) \<subseteq> K"
    using ok by (auto simp: limiter_ok_def prune_def config_ok_def umap_ok_filter Let_def)
  ultimately show ?thesis unfolding limiter_ok_def by blast
qed

lemma open_entry_room:
  assumes "limiter_ok K k T ts l" "key \<in> K"
  shows "fst (open_entry key now l) = l"
proof (cases "map_of (lm_entries l) key")
  case None
  then have "key \<notin> fst ` set (lm_entries l)" by (simp add: map_of_eq_None_iff)
  then have "fst ` set (lm_entries l) \<subset> K" using assms by (auto simp: limiter_ok_def)
  then have "card (fst ` set (lm_entries l)) < card K" using assms(1) by (simp add: limiter_ok_def psubset_card_mono)
  moreover have "card (fst ` set (lm_entries l)) = length (lm_entries l)"
    using assms(1) distinct_card[of "map fst (lm_entries l)"] by (simp add: limiter_ok_def)
  ultimately show ?thesis using assms(1) None by (simp add: open_entry_def limiter_ok_def)
qed (simp add: open_entry_def)

lemma count_attempt_ok:
  assumes ok: "limiter_ok K k now ts l" and K: "key \<in> K"
    and free: "\<forall>x. map_of (lm_entries l) key = Some x \<longrightarrow> \<not> at_blocked_until x > now"
  shows "limiter_ok K k now (ts @ (if key = k then [now] else [])) (count_attempt key now l)"
proof -
  obtain en where oe: "open_entry key now l = (l, en)" using open_entry_room[OF ok K] by (metis prod.collapse)
  define en' where "en' = en\<lparr>at_last_seen := now, at_attempts := at_attempts en + 1\<rparr>"
  define en2 where "en2 = (if at_attempts en' \<ge> lm_max_attempts l then en'\<lparr>at_blocked_until := now + lm_block_duration l\<rparr> else en')"
  have ca: "count_attempt key now l = l\<lparr>lm_entries := AList.update key en2 (lm_entries l)\<rparr>"
    by (simp add: count_attempt_def oe en2_def en'_def Let_def)
  have c: "config_ok l" and e: "attempt_ok l now (map_of (lm_entries l) k) ts" using ok by (simp_all add: limiter_ok_def)
  have "attempt_ok l now (Some en2) (ts @ [now])" if k: "key = k"
  proof -
    have "attempt_ok l now (Some en) ts \<and> at_attempts en < lm_max_attempts l \<and> (at_attempts en = 0 \<longrightarrow> at_first_attempt en = now)"
    proof (cases "map_of (lm_entries l) k")
      case None
      with oe k have "en = fresh_entry now" by (simp add: open_entry_def)
      with window_first[OF c] e None c show ?thesis by (simp add: fresh_entry_def config_ok_def)
    next
      case (Some x)
      then have ex: "attempt_ok l now (Some x) ts" and nb: "\<not> at_blocked_until x > now" using e free k by simp_all
      show ?thesis
      proof (cases "lm_window l \<le> now - at_first_attempt x")
        case True
        with oe k Some have "en = fresh_entry now" by (simp add: open_entry_def)
        with window_started[OF c ex True nb] c show ?thesis by (simp add: fresh_entry_def config_ok_def)
      next
        case False
        with oe k Some have "en = x" by (simp add: open_entry_def)
        moreover have "at_attempts x < lm_max_attempts l"
          using ex nb False c by (elim attempt_okE) (fastforce simp: window_ok_def config_ok_def)
        moreover have "0 < at_attempts x" using ok Some by (simp add: limiter_ok_def)
        ultimately show ?thesis using ex by simp
      qed
    qed
    then show ?thesis unfolding en2_def by (intro attempt_counted[OF _ _ _ en'_def]) auto
  qed
  then have "attempt_ok l now (map_of (AList.update key en2 (lm_entries l)) k) (ts @ (if key = k then [now] else []))" using e by simp
  then have "attempt_ok (count_attempt key now l) now (map_of (lm_entries (count_attempt key now l)) k) (ts @ (if key = k then [now] else []))"
    by (subst attempt_ok_config[of _ l]) (simp_all add: ca)
  moreover have "0 < at_attempts en2" by (simp add: en2_def en'_def)
  moreover have "fst ` set (AList.update key en2 (lm_entries l)) \<subseteq> insert key (fst ` set (lm_entries l))"
    using dom_update[of key en2 "lm_entries l"] by (simp add: image_def set_eq_iff subset_iff)
  ultimately show ?thesis using ok K by (auto simp: limiter_ok_def ca config_ok_def)
qed

lemma consume_ok:
  assumes ok: "limiter_ok K k T ts l" and T: "T \<le> now" and K: "key \<in> K" and c: "consume key now l = ((allowed, retry), l')"
  shows "limiter_ok K k now (ts @ (if allowed \<and> key = k then [now] else [])) l'"
proof -
  note p = prune_ok[OF ok T]
  show ?thesis
  proof (cases "\<exists>x. map_of (lm_entries (prune now l)) key = Some x \<and> at_blocked_until x > now")
    case True
    with c p show ?thesis by (auto simp: consume_def Let_def)
  next
    case False
    then have "allowed \<and> l' = count_attempt key now (prune now l)"
      using c by (auto simp: consume_def Let_def split: option.splits if_splits)
    with count_attempt_ok[OF p K] False show ?thesis by auto
  qed
qed

lemma run_sparse:
  assumes "limiter_ok K k T ts l" "sorted (map snd evs)" "\<forall>ev \<in> set evs. T \<le> snd ev \<and> fst ev \<in> K"
  shows "sparse (lm_window l) (lm_max_attempts l + (lm_max_attempts l - 2)) (ts @ allowed_times k evs l)"
  using assms
proof (induction evs arbitrary: ts l T)
  case Nil
  then show ?case using attempt_ok_sparse by (auto simp: limiter_ok_def)
next
  case (Cons ev evs)
  obtain key now where ev: "ev = (key, now)" by (cases ev)
  obtain allowed retry l' where c: "consume key now l = ((allowed, retry), l')" by (metis prod.collapse)
  have ok: "limiter_ok K k now (ts @ (if allowed \<and> key = k then [now] else [])) l'"
    using consume_ok[OF Cons.prems(1) _ _ c] Cons.prems(3) by (simp add: ev)
  have same: "lm_window l' = lm_window l" "lm_max_attempts l' = lm_max_attempts l"
    using c by (auto simp: consume_def count_attempt_def open_entry_def evict_oldest_def prune_def Let_def split: option.splits if_splits prod.splits)
  have "sparse (lm_window l') (lm_max_attempts l' + (lm_max_attempts l' - 2)) ((ts @ (if allowed \<and> key = k then [now] else [])) @ allowed_times k evs l')"
    by (rule Cons.IH[OF ok]) (use Cons.prems(2,3) in \<open>auto simp: ev\<close>)
  then show ?case unfolding same by (simp add: ev c)
qed

text \<open>With the defaults of the handler: 14 attempts of one address in a minute.\<close>

lemma attempts_bounded:
  assumes "0 < ticks" "sorted (map snd evs)" "\<forall>ev \<in> set evs. 0 \<le> snd ev" "card (fst ` set evs) \<le> 1024"
  shows "length (filter (\<lambda>t. a \<le> t \<and> t < a + 60 * ticks) (allowed_times k evs (default_limiter ticks))) \<le> 14"
proof -
  let ?l = "default_limiter ticks"
  have "limiter_ok (fst ` set evs) k 0 [] ?l"
    using assms(1,4) by (simp add: limiter_ok_def config_ok_def default_limiter_def limiter_new_def attempt_ok_def sparse_def)
  from run_sparse[OF this assms(2)] assms(3) have "sparse (lm_window ?l) (lm_max_attempts ?l + (lm_max_attempts ?l - 2)) (allowed_times k evs ?l)" by simp
  then show ?thesis by (simp add: sparse_def default_limiter_def limiter_new_def)
qed

text \<open>The bound is reached: after an attempt at the start, six just before its window ends and eight when the next
  one opens.\<close>

definition ldemo_events :: "(string \<times> time_point) list" where
  "ldemo_events = (''a'', 0) # replicate 6 (''a'', 59) @ replicate 9 (''a'', 60)"

lemma attempts_bounded_tight:
  "length (filter (\<lambda>t. 1 \<le> t \<and> t < 1 + 60 * 1) (allowed_times ''a'' ldemo_events (default_limiter 1))) = 14"
  by code_simp

end
