(* ===== verification/Web_Handlers.thy ===== *)
theory Web_Handlers
  imports Web_Auth Login_Limiter
begin

text \<open>
  The handlers of the configuration API for sessions and API tokens, and the gate that every registered route
  passes: the CSRF token and the content type (\<^verbatim>\<open>confighttp.cpp\<close>). The global state is the state of
  the token managers, the login limiter and the table of CSRF tokens.
\<close>

section \<open>State\<close>

record csrf_token_t =
  cs_token :: string
  cs_expiration :: time_point

record server_state = web_state +
  sv_limiter :: limiter
  sv_csrf_tokens :: "(string \<times> csrf_token_t) list"

record api_request = http_request +
  rq_body :: string
  rq_query :: headers
  rq_path_match :: "string option"

record server_env = web_env +
  sv_csrf_allowed_origins :: "string list"

text \<open>What a handler writes: the response of an endpoint, the refusal of the access check, a bad request with its
  message, the refusal of a login with the seconds to wait; or an exception leaves it.\<close>

datatype reply = Replied api_response | Denied auth_result | Bad_request string | Too_many_attempts int | Handler_throws

definition with_web_state :: "server_state \<Rightarrow> web_state \<Rightarrow> server_state" where
  "with_web_state s w = s\<lparr>ws_mgr := ws_mgr w, ws_api_tokens := ws_api_tokens w, ws_file := ws_file w\<rparr>"

abbreviation web_of :: "server_state \<Rightarrow> web_state" where "web_of s \<equiv> web_state.truncate s"
abbreviation env_of :: "server_env \<Rightarrow> web_env" where "env_of e \<equiv> web_env.truncate e"
abbreviation request_of :: "api_request \<Rightarrow> http_request" where "request_of rq \<equiv> http_request.truncate rq"

section \<open>The gate of a route\<close>

definition CSRF_TOKEN_LIFETIME :: int where "CSRF_TOKEN_LIFETIME = 3600"

definition get_client_id :: "api_request \<Rightarrow> string" where
  "get_client_id rq = (case find_header (rq_headers rq) ''authorization'' of Some v \<Rightarrow> v | None \<Rightarrow> rq_address rq)"

definition generate_csrf_token :: "int \<Rightarrow> string \<Rightarrow> time_point \<Rightarrow> string \<Rightarrow> server_state \<Rightarrow> string \<times> server_state" where
  "generate_csrf_token ticks client_id now drawn s =
     (let tokens = filter (\<lambda>p. \<not> cs_expiration (snd p) < now) (sv_csrf_tokens s) in
      case map_of tokens client_id of
        Some t \<Rightarrow> (cs_token t, s\<lparr>sv_csrf_tokens := tokens\<rparr>)
      | None \<Rightarrow> (drawn, s\<lparr>sv_csrf_tokens := omap_put client_id
          \<lparr>cs_token = drawn, cs_expiration = now + CSRF_TOKEN_LIFETIME * ticks\<rparr> tokens\<rparr>))"

text \<open>\<open>None\<close> when the request may pass, otherwise the refusal.\<close>

definition validate_stored_csrf_token :: "string \<Rightarrow> string \<Rightarrow> time_point \<Rightarrow> server_state \<Rightarrow> reply option \<times> server_state" where
  "validate_stored_csrf_token client_id provided now s =
     (case map_of (sv_csrf_tokens s) client_id of
        None \<Rightarrow> (Some (Bad_request ''Invalid CSRF token''), s)
      | Some t \<Rightarrow>
          if cs_expiration t < now then (Some (Bad_request ''CSRF token expired''), s\<lparr>sv_csrf_tokens := AList.delete client_id (sv_csrf_tokens s)\<rparr>)
          else if cs_token t \<noteq> provided then (Some (Bad_request ''Invalid CSRF token''), s)
          else (None, s))"

definition is_allowed_origin :: "server_env \<Rightarrow> string \<Rightarrow> bool" where
  "is_allowed_origin e url = list_ex (\<lambda>allowed. starts_with url allowed \<and>
     (let len = length allowed in length url = len \<or> url ! len = CHR '':'' \<or> url ! len = CHR ''/'')) (sv_csrf_allowed_origins e)"

definition validate_csrf_token :: "server_env \<Rightarrow> api_request \<Rightarrow> string \<Rightarrow> time_point \<Rightarrow> server_state \<Rightarrow> reply option \<times> server_state" where
  "validate_csrf_token e rq client_id now s =
     (let origin = find_header (rq_headers rq) ''Origin''; referer = find_header (rq_headers rq) ''Referer'' in
      if (case origin of Some v \<Rightarrow> is_allowed_origin e v | None \<Rightarrow> False) then (None, s)
      else if (case referer of Some v \<Rightarrow> is_allowed_origin e v | None \<Rightarrow> False) then (None, s)
      else if origin = None \<and> referer = None then (None, s)
      else case find_header (rq_headers rq) ''X-CSRF-Token'' of
          Some t \<Rightarrow> validate_stored_csrf_token client_id t now s
        | None \<Rightarrow> (case find_header (rq_query rq) ''csrf_token'' of
              Some t \<Rightarrow> validate_stored_csrf_token client_id t now s
            | None \<Rightarrow> (Some (Bad_request ''Missing CSRF token''), s)))"

text \<open>A registered route: requests that change state pass the CSRF check before their handler.\<close>

definition route :: "server_env \<Rightarrow> (api_request \<Rightarrow> server_state \<Rightarrow> reply \<times> server_state) \<Rightarrow> string \<Rightarrow> api_request \<Rightarrow> time_point \<Rightarrow> server_state \<Rightarrow> reply \<times> server_state" where
  "route e handler method rq now s =
     (if method \<in> {''POST'', ''PATCH'', ''PUT'', ''DELETE''}
      then (case validate_csrf_token e rq (get_client_id rq) now s of
              (Some refusal, s') \<Rightarrow> (refusal, s') | (None, s') \<Rightarrow> handler rq s')
      else handler rq s)"

definition authenticate :: "server_env \<Rightarrow> moment \<Rightarrow> api_request \<Rightarrow> server_state \<Rightarrow> reply option \<times> server_state" where
  "authenticate e mo rq s =
     (case check_auth (env_of e) mo (request_of rq) (web_of s) of
        (Throws, w) \<Rightarrow> (Some Handler_throws, with_web_state s w)
      | (Returns r, w) \<Rightarrow> (if \<not> ar_ok r then Some (Denied r) else None, with_web_state s w))"

section \<open>Handlers\<close>

text \<open>\<^verbatim>\<open>value\<close> with a default: a member of another type throws.\<close>

definition loginUser :: "server_env \<Rightarrow> moment \<Rightarrow> time_point \<Rightarrow> api_request \<Rightarrow> server_state \<Rightarrow> reply \<times> server_state" where
  "loginUser e mo steady rq s =
     (let remote = check_remote (make_request_auth_policy (env_of e) mo) (rq_address rq) in
      if \<not> ar_ok remote then (Denied remote, s)
      else let ((allowed, retry_after), l) = consume (rq_address rq) steady (sv_limiter s); s = s\<lparr>sv_limiter := l\<rparr> in
        if \<not> allowed then (Too_many_attempts retry_after, s)
        else case ae_parse (we_api e) (rq_body rq) of
            None \<Rightarrow> (Bad_request ''Invalid JSON format'', s)
          | Some input \<Rightarrow>
              (case (json_member input ''username'', json_member input ''password'') of
                 (Some u, Some p) \<Rightarrow>
                   (case (json_string u, json_string p, case json_member input ''redirect'' of None \<Rightarrow> Some ''/'' | Some j \<Rightarrow> json_string j) of
                      (Some username, Some password, Some redirect_url) \<Rightarrow>
                        (let remember_me = (case json_member input ''remember_me'' of Some (J_bool b) \<Rightarrow> b | _ \<Rightarrow> False);
                             user_agent = (case find_header (rq_headers rq) ''user-agent'' of Some v \<Rightarrow> v | None \<Rightarrow> []);
                             (r, w) = api_login (env_of e) mo username password redirect_url remember_me user_agent (rq_address rq) (web_of s);
                             s' = with_web_state s w
                         in (Replied r, if rp_status r = Success_ok then s'\<lparr>sv_limiter := limiter_reset (rq_address rq) (sv_limiter s')\<rparr> else s'))
                    | _ \<Rightarrow> (Bad_request ''Invalid JSON format'', s))
               | _ \<Rightarrow> (Bad_request ''Missing username or password'', s)))"

text \<open>The token after a scheme of the authorization header, or nothing.\<close>

definition scheme_token :: "string \<Rightarrow> api_request \<Rightarrow> string" where
  "scheme_token scheme rq = (case find_header (rq_headers rq) ''authorization'' of
     Some v \<Rightarrow> if starts_with v scheme then drop (length scheme) v else [] | None \<Rightarrow> [])"

definition session_or_cookie :: "server_env \<Rightarrow> moment \<Rightarrow> api_request \<Rightarrow> string" where
  "session_or_cookie e mo rq = (let t = scheme_token ''Session '' rq in
     if t = [] then extract_session_token_from_cookie (env_of e) mo (rq_headers rq) else t)"

definition refreshSession :: "server_env \<Rightarrow> moment \<Rightarrow> api_request \<Rightarrow> server_state \<Rightarrow> reply \<times> server_state" where
  "refreshSession e mo rq s =
     (let t = scheme_token ''Refresh '' rq;
          t = (if t = [] then extract_refresh_token_from_cookie (env_of e) mo (rq_headers rq) else t);
          t = (if t = [] \<and> rq_body rq \<noteq> []
               then (case ae_parse (we_api e) (rq_body rq) of
                       Some body \<Rightarrow> (case json_member body ''refresh_token'' of Some (J_str x) \<Rightarrow> x | _ \<Rightarrow> t) | None \<Rightarrow> t)
               else t);
          user_agent = (case find_header (rq_headers rq) ''user-agent'' of Some v \<Rightarrow> v | None \<Rightarrow> []);
          (r, w) = refresh_session (env_of e) mo t user_agent (rq_address rq) (web_of s)
      in (Replied r, with_web_state s w))"

definition logoutUser :: "server_env \<Rightarrow> moment \<Rightarrow> api_request \<Rightarrow> server_state \<Rightarrow> reply \<times> server_state" where
  "logoutUser e mo rq s =
     (let (r, w) = api_logout (env_of e) mo (session_or_cookie e mo rq) (extract_refresh_token_from_cookie (env_of e) mo (rq_headers rq)) (web_of s)
      in (Replied r, with_web_state s w))"

definition active_hash :: "server_env \<Rightarrow> moment \<Rightarrow> api_request \<Rightarrow> server_state \<Rightarrow> string option" where
  "active_hash e mo rq s = (let t = session_or_cookie e mo rq in
     if t \<noteq> [] then get_hash_for_token (we_sessions e) t (mo_now mo) (ws_mgr s) else None)"

definition listSessions :: "server_env \<Rightarrow> moment \<Rightarrow> api_request \<Rightarrow> server_state \<Rightarrow> reply \<times> server_state" where
  "listSessions e mo rq s =
     (case authenticate e mo rq s of
        (Some refusal, s') \<Rightarrow> (refusal, s')
      | (None, s') \<Rightarrow> (Replied (api_list_sessions (env_of e) mo (we_username e) (get_or (active_hash e mo rq s') []) (web_of s')), s'))"

definition revokeSession :: "server_env \<Rightarrow> moment \<Rightarrow> moment \<Rightarrow> api_request \<Rightarrow> server_state \<Rightarrow> reply \<times> server_state" where
  "revokeSession e mo mo' rq s =
     (case authenticate e mo rq s of
        (Some refusal, s') \<Rightarrow> (refusal, s')
      | (None, s') \<Rightarrow>
          (case rq_path_match rq of
             None \<Rightarrow> (Bad_request ''Session id required'', s')
           | Some session_hash \<Rightarrow>
               (let is_current = (case active_hash e mo' rq s' of Some h \<Rightarrow> iequals h session_hash | None \<Rightarrow> False);
                    (r, w) = api_revoke_session_by_hash (env_of e) mo' session_hash (web_of s');
                    r = (if rp_status r = Success_ok \<and> is_current
                         then r\<lparr>rp_headers := rp_headers r @ [(''Set-Cookie'', clear_cookie session_cookie_name), (''Set-Cookie'', clear_cookie refresh_cookie_name)]\<rparr>
                         else r)
                in (Replied r, with_web_state s' w))))"

text \<open>The API token handlers write a JSON object.\<close>

definition json_reply :: "(string \<times> json) list \<Rightarrow> reply" where
  "json_reply members = Replied \<lparr>rp_status = Success_ok, rp_body = members, rp_headers = []\<rparr>"

definition generateApiToken :: "server_env \<Rightarrow> moment \<Rightarrow> moment \<Rightarrow> api_request \<Rightarrow> server_state \<Rightarrow> reply \<times> server_state" where
  "generateApiToken e mo mo' rq s =
     (case authenticate e mo rq s of
        (Some refusal, s') \<Rightarrow> (refusal, s')
      | (None, s') \<Rightarrow>
          (let (r, w) = generate_api_token (we_api e) (mo_io mo') (rq_body rq) (we_username e) (fst (mo_draw mo')) (mo_now mo')
                 \<lparr>aw_tokens = ws_api_tokens s', aw_file = ws_file s'\<rparr>;
               s2 = s'\<lparr>ws_api_tokens := aw_tokens w, ws_file := aw_file w\<rparr>
           in (case r of
                 Throws \<Rightarrow> (Handler_throws, s2)
               | Returns None \<Rightarrow> (json_reply [(''error'', J_str ''Invalid token request'')], s2)
               | Returns (Some token) \<Rightarrow> (json_reply [(''token'', J_str token)], s2))))"

definition revokeApiToken :: "server_env \<Rightarrow> moment \<Rightarrow> moment \<Rightarrow> api_request \<Rightarrow> server_state \<Rightarrow> reply \<times> server_state" where
  "revokeApiToken e mo mo' rq s =
     (case authenticate e mo rq s of
        (Some refusal, s') \<Rightarrow> (refusal, s')
      | (None, s') \<Rightarrow>
          (let (r, w) = revoke_api_token_by_hash (we_api e) (mo_io mo') (get_or (rq_path_match rq) [])
                 \<lparr>aw_tokens = ws_api_tokens s', aw_file = ws_file s'\<rparr>;
               s2 = s'\<lparr>ws_api_tokens := aw_tokens w, ws_file := aw_file w\<rparr>
           in (case r of
                 Throws \<Rightarrow> (Handler_throws, s2)
               | Returns True \<Rightarrow> (json_reply [(''status'', J_bool True)], s2)
               | Returns False \<Rightarrow> (json_reply [(''error'', J_str ''Internal server error'')], s2))))"

section \<open>Logging in\<close>

text \<open>Login requests in the order they are served, with their replies.\<close>

fun login_run :: "server_env \<Rightarrow> (moment \<times> time_point \<times> api_request) list \<Rightarrow> server_state \<Rightarrow> (string \<times> time_point \<times> reply) list" where
  "login_run e [] s = []"
| "login_run e ((mo, steady, rq) # xs) s =
     (let (rep, s') = loginUser e mo steady rq s in (rq_address rq, steady, rep) # login_run e xs s')"

text \<open>A reply that tells something about the password: not a refusal by address or by the limiter.\<close>

definition reached_password :: "reply \<Rightarrow> bool" where
  "reached_password rep \<longleftrightarrow> (case rep of Denied _ \<Rightarrow> False | Too_many_attempts _ \<Rightarrow> False | _ \<Rightarrow> True)"

definition login_succeeded :: "reply \<Rightarrow> bool" where
  "login_succeeded rep \<longleftrightarrow> (case rep of Replied r \<Rightarrow> rp_status r = Success_ok | _ \<Rightarrow> False)"

lemma limiter_with_web [simp]: "sv_limiter (with_web_state s w) = sv_limiter s"
  by (simp add: with_web_state_def)

lemma check_remote_policy: "ar_ok (check_remote (make_request_auth_policy e mo) addr) \<longleftrightarrow> we_remote_allowed e addr"
  by (simp add: check_remote_def make_request_auth_policy_def make_error_def auth_granted_def Let_def)

lemma loginUser_denied:
  assumes "\<not> we_remote_allowed (env_of e) (rq_address rq)"
  shows "sv_limiter (snd (loginUser e mo steady rq s)) = sv_limiter s \<and> \<not> reached_password (fst (loginUser e mo steady rq s))"
  using assms by (simp add: loginUser_def check_remote_policy reached_password_def)

lemma loginUser_blocked:
  assumes "we_remote_allowed (env_of e) (rq_address rq)" "consume (rq_address rq) steady (sv_limiter s) = ((False, retry), l)"
  shows "loginUser e mo steady rq s = (Too_many_attempts retry, s\<lparr>sv_limiter := l\<rparr>)"
  using assms by (simp add: loginUser_def check_remote_policy)

lemma loginUser_tried:
  assumes "we_remote_allowed (env_of e) (rq_address rq)" "consume (rq_address rq) steady (sv_limiter s) = ((True, retry), l)"
    and "loginUser e mo steady rq s = (rep, s')"
  shows "reached_password rep \<and> (\<not> login_succeeded rep \<longrightarrow> sv_limiter s' = l)"
  using assms
  by (auto simp: loginUser_def check_remote_policy reached_password_def login_succeeded_def Let_def
      split: option.splits prod.splits if_splits)

text \<open>The attempts the limiter sees: those from allowed addresses.\<close>

definition limited_events :: "server_env \<Rightarrow> (moment \<times> time_point \<times> api_request) list \<Rightarrow> (string \<times> time_point) list" where
  "limited_events e xs = map (\<lambda>(mo, steady, rq). (rq_address rq, steady))
     (filter (\<lambda>(mo, steady, rq). we_remote_allowed (env_of e) (rq_address rq)) xs)"

lemma login_run_times:
  assumes "\<forall>(addr, t, rep) \<in> set (login_run e xs s). \<not> login_succeeded rep"
  shows "map (\<lambda>(addr, t, rep). t) (filter (\<lambda>(addr, t, rep). addr = k \<and> reached_password rep) (login_run e xs s)) =
    allowed_times k (limited_events e xs) (sv_limiter s)"
  using assms
proof (induction xs arbitrary: s)
  case Nil
  then show ?case by (simp add: limited_events_def)
next
  case (Cons x xs)
  obtain mo steady rq where x: "x = (mo, steady, rq)" by (cases x)
  obtain rep s' where l: "loginUser e mo steady rq s = (rep, s')" by fastforce
  have run: "login_run e (x # xs) s = (rq_address rq, steady, rep) # login_run e xs s'" by (simp add: x l)
  have IH: "map (\<lambda>(addr, t, rep). t) (filter (\<lambda>(addr, t, rep). addr = k \<and> reached_password rep) (login_run e xs s')) =
      allowed_times k (limited_events e xs) (sv_limiter s')"
    by (rule Cons.IH) (use Cons.prems in \<open>simp add: run\<close>)
  show ?case
  proof (cases "we_remote_allowed (env_of e) (rq_address rq)")
    case False
    with loginUser_denied[OF this, of mo steady s] IH show ?thesis by (simp add: run l limited_events_def x)
  next
    case True
    obtain ok retry lm where c: "consume (rq_address rq) steady (sv_limiter s) = ((ok, retry), lm)" by (metis prod.collapse)
    have ev: "limited_events e (x # xs) = (rq_address rq, steady) # limited_events e xs" using True by (simp add: limited_events_def x)
    show ?thesis
    proof (cases ok)
      case allowed: True
      then have "consume (rq_address rq) steady (sv_limiter s) = ((True, retry), lm)" using c by simp
      from loginUser_tried[OF True this l] have "reached_password rep" "sv_limiter s' = lm" using Cons.prems by (simp_all add: run)
      with IH allowed c show ?thesis by (simp add: run ev)
    next
      case False
      then have "rep = Too_many_attempts retry" "sv_limiter s' = lm"
        using loginUser_blocked[OF True, of steady s retry lm mo] c l by simp_all
      with IH False c show ?thesis by (simp add: run ev reached_password_def)
    qed
  qed
qed

text \<open>
  (C20) Guessing passwords is limited: take any sequence of login requests that all fail, from at most 1024
  addresses, however they are timed. In any period of a minute at most 14 requests of one address reach the
  check of the password; the others are refused.
\<close>

theorem password_guesses_bounded:
  assumes start: "sv_limiter s = default_limiter ticks" "0 < ticks"
    and times: "sorted (map (\<lambda>(mo, steady, rq). steady) xs)" "\<forall>(mo, steady, rq) \<in> set xs. 0 \<le> steady"
    and addrs: "card ((\<lambda>(mo, steady, rq). rq_address rq) ` set xs) \<le> 1024"
    and fail: "\<forall>(addr, t, rep) \<in> set (login_run e xs s). \<not> login_succeeded rep"
  shows "length (filter (\<lambda>(addr, t, rep). addr = k \<and> a \<le> t \<and> t < a + 60 * ticks \<and> reached_password rep) (login_run e xs s)) \<le> 14"
proof -
  let ?evs = "limited_events e xs" and ?run = "login_run e xs s"
  have "sorted (map snd ?evs)"
    using sorted_filter[OF times(1), of "\<lambda>(mo, steady, rq). we_remote_allowed (env_of e) (rq_address rq)"]
    by (simp add: limited_events_def o_def prod.case_distrib[of snd])
  moreover have "\<forall>ev \<in> set ?evs. 0 \<le> snd ev" using times(2) by (auto simp: limited_events_def)
  moreover have "fst ` set ?evs \<subseteq> (\<lambda>(mo, steady, rq). rq_address rq) ` set xs" by (force simp: limited_events_def)
  then have "card (fst ` set ?evs) \<le> 1024" using addrs by (meson card_mono finite_imageI finite_set le_trans)
  ultimately have "length (filter (\<lambda>t. a \<le> t \<and> t < a + 60 * ticks) (allowed_times k ?evs (sv_limiter s))) \<le> 14"
    using attempts_bounded[of ticks ?evs a k] start by simp
  moreover have "length (filter (\<lambda>t. a \<le> t \<and> t < a + 60 * ticks) (map (\<lambda>(addr, t, rep). t) (filter (\<lambda>(addr, t, rep). addr = k \<and> reached_password rep) ?run))) =
      length (filter (\<lambda>(addr, t, rep). addr = k \<and> a \<le> t \<and> t < a + 60 * ticks \<and> reached_password rep) ?run)"
    by (auto simp: filter_map o_def intro!: arg_cong[of _ _ length] filter_cong)
  ultimately show ?thesis unfolding login_run_times[OF fail] by simp
qed

section \<open>Forged requests\<close>

text \<open>The token a request presents.\<close>

definition presented_csrf :: "api_request \<Rightarrow> string option" where
  "presented_csrf rq = (case find_header (rq_headers rq) ''X-CSRF-Token'' of
     Some t \<Rightarrow> Some t | None \<Rightarrow> find_header (rq_query rq) ''csrf_token'')"

text \<open>
  (C21) Requests from a foreign page are refused: when a request that changes state names an origin or a referrer
  and neither is an allowed one, its handler runs exactly when it presents the unexpired token stored for
  its client; otherwise it is answered as a bad request and only an expired token may be dropped.
\<close>

theorem csrf_guard:
  assumes "method \<in> {''POST'', ''PATCH'', ''PUT'', ''DELETE''}"
    and foreign: "find_header (rq_headers rq) ''Origin'' = o'" "find_header (rq_headers rq) ''Referer'' = r'" "o' \<noteq> None \<or> r' \<noteq> None"
      "\<forall>v. o' = Some v \<or> r' = Some v \<longrightarrow> \<not> is_allowed_origin e v"
  shows "if \<exists>t. map_of (sv_csrf_tokens s) (get_client_id rq) = Some t \<and> now \<le> cs_expiration t \<and> presented_csrf rq = Some (cs_token t)
    then route e handler method rq now s = handler rq s
    else \<exists>msg s'. route e handler method rq now s = (Bad_request msg, s') \<and>
      (s' = s \<or> (\<exists>t. map_of (sv_csrf_tokens s) (get_client_id rq) = Some t \<and> cs_expiration t < now \<and>
         s' = s\<lparr>sv_csrf_tokens := AList.delete (get_client_id rq) (sv_csrf_tokens s)\<rparr>))"
proof -
  have not_allowed: "\<not> (case o' of Some v \<Rightarrow> is_allowed_origin e v | None \<Rightarrow> False)" "\<not> (case r' of Some v \<Rightarrow> is_allowed_origin e v | None \<Rightarrow> False)"
    "\<not> (o' = None \<and> r' = None)" using foreign(3,4) by (auto split: option.splits)
  have "validate_csrf_token e rq (get_client_id rq) now s = (case presented_csrf rq of
      None \<Rightarrow> (Some (Bad_request ''Missing CSRF token''), s) | Some t \<Rightarrow> validate_stored_csrf_token (get_client_id rq) t now s)"
    unfolding validate_csrf_token_def Let_def foreign(1,2) presented_csrf_def using not_allowed by (auto split: option.split)
  with assms(1) show ?thesis
    by (cases "presented_csrf rq"; cases "map_of (sv_csrf_tokens s) (get_client_id rq)")
      (auto simp: route_def validate_stored_csrf_token_def)
qed

section \<open>Examples\<close>

definition hdemo_env :: server_env where
  "hdemo_env = web_env.extend wdemo_env (server_env.fields [''https://localhost''])"

definition hdemo_state :: server_state where
  "hdemo_state = web_state.extend wdemo_state (server_state.fields (default_limiter 1) [(''::1'', \<lparr>cs_token = ''c'', cs_expiration = 3600\<rparr>)])"

definition hdemo_request :: "headers \<Rightarrow> api_request" where
  "hdemo_request hs = http_request.extend (wdemo_request hs) (api_request.fields [] [] None)"

lemma hdemo_login: "loginUser hdemo_env (wdemo_moment 0) 0 (hdemo_request []) hdemo_state =
    (Bad_request ''Invalid JSON format'', hdemo_state\<lparr>sv_limiter := snd (consume ''::1'' 0 (default_limiter 1))\<rparr>)"
proof -
  have "fst (consume ''::1'' 0 (default_limiter 1)) = (True, 0)" by code_simp
  then obtain l where c: "consume ''::1'' 0 (default_limiter 1) = ((True, 0), l)" by (metis prod.collapse)
  have "rq_address (hdemo_request []) = ''::1''" "sv_limiter hdemo_state = default_limiter 1" "ae_parse (we_api hdemo_env) body = None" for body
    by (simp_all add: hdemo_request_def wdemo_request_def http_request.defs api_request.defs hdemo_state_def wdemo_state_def
        web_state.defs server_state.defs hdemo_env_def wdemo_env_def web_env.defs server_env.defs ademo_env_def)
  moreover have "we_remote_allowed (env_of hdemo_env) addr" for addr by (simp add: hdemo_env_def wdemo_env_def web_env.defs)
  ultimately show ?thesis by (simp add: loginUser_def check_remote_policy c)
qed

theorem password_guesses_bounded_witness:
  "length (filter (\<lambda>(addr, t, rep). addr = ''::1'' \<and> 0 \<le> t \<and> t < 0 + 60 * 1 \<and> reached_password rep)
     (login_run hdemo_env [(wdemo_moment 0, 0, hdemo_request [])] hdemo_state)) \<le> 14"
proof -
  have "sv_limiter hdemo_state = default_limiter 1" by (simp add: hdemo_state_def wdemo_state_def web_state.defs server_state.defs)
  then show ?thesis
    using password_guesses_bounded[of hdemo_state 1 "[(wdemo_moment 0, 0, hdemo_request [])]" hdemo_env "''::1''" 0]
    by (simp add: hdemo_login login_succeeded_def)
qed

theorem csrf_guard_witness:
  "fst (route hdemo_env (\<lambda>_ s. (json_reply [], s)) ''POST'' (hdemo_request [(''Origin'', ''https://evil'')]) 0 hdemo_state) \<noteq> json_reply []"
proof -
  let ?rq = "hdemo_request [(''Origin'', ''https://evil'')]"
  have ie: "iequals ''Origin'' ''Origin''" "\<not> iequals ''Origin'' ''Referer''" "\<not> iequals ''Origin'' ''X-CSRF-Token''" by code_simp+
  have hs: "rq_headers ?rq = [(''Origin'', ''https://evil'')]" "rq_query ?rq = []"
    by (simp_all add: hdemo_request_def wdemo_request_def http_request.defs api_request.defs)
  have f: "find_header (rq_headers ?rq) ''Origin'' = Some ''https://evil''" "find_header (rq_headers ?rq) ''Referer'' = None" "presented_csrf ?rq = None"
    using ie by (simp_all add: find_header_def hs presented_csrf_def)
  have "\<not> is_allowed_origin hdemo_env ''https://evil''"
    by (simp add: is_allowed_origin_def hdemo_env_def wdemo_env_def web_env.defs server_env.defs starts_with_def)
  with csrf_guard[OF _ f(1,2), of "''POST''" hdemo_env hdemo_state 0 "\<lambda>_ s. (json_reply [], s)"] f(3) show ?thesis
    by (auto simp: json_reply_def)
qed

end
