(* ===== verification/Helper_Monad.thy ===== *)
theory Helper_Monad
  imports Auth_State "HOL-Library.State_Monad"
begin

text \<open>
  The Windows display helper is one long-lived object that handles messages one at a time and talks to the
  system through ports. Its methods are programs of the state monad over a record of the members, written
  with \<^verbatim>\<open>do\<close> blocks in the order of the C++ statements. A port that answers a question (the
  clock, the connection epoch, an enumeration of displays) may answer differently each time: the state
  counts the questions asked, and the environment is a function of that count.

  Statements about programs are weakest preconditions, computed by one equation per construct.
\<close>

section \<open>Programs\<close>

type_synonym ('s, 'a) program = "('s, 'a) state"

definition gets :: "('s \<Rightarrow> 'a) \<Rightarrow> ('s, 'a) program" where
  "gets f = State (\<lambda>s. (f s, s))"

definition modify :: "('s \<Rightarrow> 's) \<Rightarrow> ('s, unit) program" where
  "modify f = State (\<lambda>s. ((), f s))"

abbreviation return :: "'a \<Rightarrow> ('s, 'a) program" where
  "return \<equiv> State_Monad.return"

definition when_do :: "bool \<Rightarrow> ('s, unit) program \<Rightarrow> ('s, unit) program" where
  "when_do c m = (if c then m else return ())"

definition exec :: "('s, 'a) program \<Rightarrow> 's \<Rightarrow> 's" where
  "exec m s = snd (run_state m s)"

lemma run_gets [simp]: "run_state (gets f) s = (f s, s)"
  by (simp add: gets_def)

lemma run_modify [simp]: "run_state (modify f) s = ((), f s)"
  by (simp add: modify_def)

lemma run_when [simp]: "run_state (when_do c m) s = (if c then run_state m s else ((), s))"
  by (simp add: when_do_def)

section \<open>Weakest preconditions\<close>

named_theorems wp_rules \<open>weakest preconditions of the constructs of a program\<close>
named_theorems wp_defs \<open>definitions of the programs that a weakest precondition unfolds\<close>

definition wp :: "('s, 'a) program \<Rightarrow> ('a \<Rightarrow> 's \<Rightarrow> bool) \<Rightarrow> 's \<Rightarrow> bool" where
  "wp m Q s = (case run_state m s of (x, t) \<Rightarrow> Q x t)"

lemma wp_return [wp_rules]: "wp (return x) Q s = Q x s"
  by (simp add: wp_def)

lemma wp_bind [wp_rules]: "wp (State_Monad.bind m f) Q s = wp m (\<lambda>x t. wp (f x) Q t) s"
  by (simp add: wp_def split: prod.split)

lemma wp_gets [wp_rules]: "wp (gets f) Q s = Q (f s) s"
  by (simp add: wp_def)

lemma wp_modify [wp_rules]: "wp (modify f) Q s = Q () (f s)"
  by (simp add: wp_def)

lemma wp_when [wp_rules]: "wp (when_do c m) Q s = (if c then wp m Q s else Q () s)"
  by (simp add: wp_def)

lemma wp_if [wp_rules]: "wp (if c then m else n) Q s = (if c then wp m Q s else wp n Q s)"
  by simp

lemma wp_option [wp_rules]:
  "wp (case x of None \<Rightarrow> m | Some y \<Rightarrow> n y) Q s = (case x of None \<Rightarrow> wp m Q s | Some y \<Rightarrow> wp (n y) Q s)"
  by (cases x) simp_all

lemma wp_weaken: "wp m Q s \<Longrightarrow> (\<And>x t. Q x t \<Longrightarrow> R x t) \<Longrightarrow> wp m R s"
  by (simp add: wp_def case_prod_beta)

lemma wp_exec: "wp m (\<lambda>_. Q) s \<longleftrightarrow> Q (exec m s)"
  by (simp add: wp_def exec_def case_prod_beta)

lemma wp_run: "wp m Q s \<Longrightarrow> run_state m s = (x, t) \<Longrightarrow> Q x t"
  by (simp add: wp_def)

text \<open>A program that keeps an invariant, whatever it returns.\<close>

definition keeps :: "('s \<Rightarrow> bool) \<Rightarrow> ('s, 'a) program \<Rightarrow> bool" where
  "keeps I m \<longleftrightarrow> (\<forall>s. I s \<longrightarrow> wp m (\<lambda>_. I) s)"

named_theorems keeps_rules \<open>programs that keep an invariant\<close>

lemma keepsI: "(\<And>s. I s \<Longrightarrow> wp m (\<lambda>_. I) s) \<Longrightarrow> keeps I m"
  by (simp add: keeps_def)

lemma keepsD: "keeps I m \<Longrightarrow> I s \<Longrightarrow> wp m (\<lambda>_. I) s"
  by (simp add: keeps_def)

lemma keeps_exec: "keeps I m \<Longrightarrow> I s \<Longrightarrow> I (exec m s)"
  by (simp add: keeps_def wp_exec)

lemma keeps_return [keeps_rules]: "keeps I (return x)"
  by (simp add: keeps_def wp_rules)

lemma keeps_bind [keeps_rules]: "keeps I m \<Longrightarrow> (\<And>x. keeps I (f x)) \<Longrightarrow> keeps I (State_Monad.bind m f)"
  unfolding keeps_def wp_bind by (blast intro: wp_weaken)

lemma keeps_gets [keeps_rules]: "keeps I (gets f)"
  by (simp add: keeps_def wp_rules)

lemma keeps_when [keeps_rules]: "(c \<Longrightarrow> keeps I m) \<Longrightarrow> keeps I (when_do c m)"
  by (simp add: keeps_def wp_rules)

lemma keeps_if [keeps_rules]: "(c \<Longrightarrow> keeps I m) \<Longrightarrow> (\<not> c \<Longrightarrow> keeps I n) \<Longrightarrow> keeps I (if c then m else n)"
  by simp

lemma keeps_option [keeps_rules]:
  "(x = None \<Longrightarrow> keeps I m) \<Longrightarrow> (\<And>y. x = Some y \<Longrightarrow> keeps I (n y)) \<Longrightarrow> keeps I (case x of None \<Rightarrow> m | Some y \<Rightarrow> n y)"
  by (cases x) simp_all

lemma keeps_modify: "(\<And>s. I s \<Longrightarrow> I (f s)) \<Longrightarrow> keeps I (modify f)"
  by (simp add: keeps_def wp_rules)

section \<open>Questions to the ports\<close>

record ports =
  po_reads :: nat

definition ask :: "(nat \<Rightarrow> 'a) \<Rightarrow> ('z ports_scheme, 'a) program" where
  "ask port = do { k \<leftarrow> gets po_reads; modify (\<lambda>s. s\<lparr>po_reads := Suc k\<rparr>); return (port k) }"

lemma wp_ask [wp_rules]: "wp (ask port) Q s = Q (port (po_reads s)) (s\<lparr>po_reads := Suc (po_reads s)\<rparr>)"
  by (simp add: ask_def wp_rules)

lemma run_ask [simp]: "run_state (ask port) s = (port (po_reads s), s\<lparr>po_reads := Suc (po_reads s)\<rparr>)"
  by (simp add: ask_def)

end
