(* ===== verification/Recovery_Support.thy ===== *)
theory Recovery_Support
  imports Helper_Monad
begin

text \<open>
  The small policies the display helper is built from (\<^verbatim>\<open>runtime_support.h\<close>,
  \<^verbatim>\<open>recovery_status.h\<close>, \<^verbatim>\<open>golden_health.cpp\<close> and the policy objects of
  \<^verbatim>\<open>operations.h\<close>): the schedule of restore attempts, the heartbeat watchdog, the debouncer of
  display notifications, the ticket under which a recovery reports its status, and the
  health marker of the golden snapshot. Times are nanoseconds of the steady clock.
\<close>

section \<open>Durations\<close>

definition milliseconds :: "int \<Rightarrow> int" where
  "milliseconds n = n * 1000000"

definition seconds :: "int \<Rightarrow> int" where
  "seconds n = milliseconds (n * 1000)"

lemma seconds_order [simp]: "seconds a < seconds b \<longleftrightarrow> a < b" "seconds a \<le> seconds b \<longleftrightarrow> a \<le> b"
  "seconds a = seconds b \<longleftrightarrow> a = b"
  by (simp_all add: seconds_def milliseconds_def)

lemma seconds_add: "seconds a + seconds b = seconds (a + b)"
  by (simp add: seconds_def milliseconds_def)

section \<open>Schedule of restore attempts\<close>

definition kRestoreWindowPrimary :: int where
  "kRestoreWindowPrimary = seconds 120"

definition kRestoreWindowEvent :: int where
  "kRestoreWindowEvent = seconds 30"

definition kRestoreBackoffProfile :: "int list" where
  "kRestoreBackoffProfile = map seconds [0, 1, 3, 5, 10, 15, 20, 30]"

record restore_scheduler =
  rs_armed :: bool
  rs_window_exhausted_reported :: bool
  rs_window_until :: time_point
  rs_next_allowed :: time_point
  rs_backoff_index :: nat

definition scheduler_new :: restore_scheduler where
  "scheduler_new = \<lparr>rs_armed = False, rs_window_exhausted_reported = False, rs_window_until = 0, rs_next_allowed = 0, rs_backoff_index = 0\<rparr>"

definition arm_primary :: "time_point \<Rightarrow> int \<Rightarrow> restore_scheduler \<Rightarrow> restore_scheduler" where
  "arm_primary now grace r = r\<lparr>rs_armed := True, rs_window_until := now + kRestoreWindowPrimary, rs_next_allowed := now + grace,
     rs_backoff_index := 0, rs_window_exhausted_reported := False\<rparr>"

definition on_display_event :: "time_point \<Rightarrow> restore_scheduler \<Rightarrow> restore_scheduler" where
  "on_display_event now r = (if \<not> rs_armed r then r
     else r\<lparr>rs_backoff_index := 0, rs_next_allowed := now,
       rs_window_until := (let desired = now + kRestoreWindowEvent in if desired > rs_window_until r then desired else rs_window_until r),
       rs_window_exhausted_reported := False\<rparr>)"

definition on_attempt_failed :: "time_point \<Rightarrow> restore_scheduler \<Rightarrow> restore_scheduler" where
  "on_attempt_failed now r =
     (let i = (if rs_backoff_index r + 1 < length kRestoreBackoffProfile then rs_backoff_index r + 1 else rs_backoff_index r)
      in r\<lparr>rs_backoff_index := i, rs_next_allowed := now + kRestoreBackoffProfile ! i\<rparr>)"

definition scheduler_disarm :: "restore_scheduler \<Rightarrow> restore_scheduler" where
  "scheduler_disarm r = r\<lparr>rs_armed := False, rs_backoff_index := 0, rs_window_exhausted_reported := False\<rparr>"

definition window_active :: "time_point \<Rightarrow> restore_scheduler \<Rightarrow> bool" where
  "window_active now r \<longleftrightarrow> rs_armed r \<and> now \<le> rs_window_until r"

definition window_just_expired :: "time_point \<Rightarrow> restore_scheduler \<Rightarrow> bool \<times> restore_scheduler" where
  "window_just_expired now r = (if \<not> rs_armed r \<or> rs_window_exhausted_reported r then (False, r)
     else if now > rs_window_until r then (True, r\<lparr>rs_window_exhausted_reported := True\<rparr>)
     else (False, r))"

definition should_attempt :: "time_point \<Rightarrow> restore_scheduler \<Rightarrow> bool" where
  "should_attempt now r \<longleftrightarrow> window_active now r \<and> now \<ge> rs_next_allowed r"

section \<open>Heartbeat\<close>

record heartbeat =
  hb_armed :: bool
  hb_last_ping :: time_point
  hb_optional_until :: time_point
  hb_recovery_deadline :: "time_point option"

definition heartbeat_new :: heartbeat where
  "heartbeat_new = \<lparr>hb_armed = False, hb_last_ping = 0, hb_optional_until = 0, hb_recovery_deadline = None\<rparr>"

definition heartbeat_arm :: "time_point \<Rightarrow> heartbeat \<Rightarrow> heartbeat" where
  "heartbeat_arm now h = h\<lparr>hb_armed := True, hb_last_ping := now, hb_optional_until := now + seconds 30, hb_recovery_deadline := None\<rparr>"

definition heartbeat_disarm :: "heartbeat \<Rightarrow> heartbeat" where
  "heartbeat_disarm h = h\<lparr>hb_armed := False, hb_optional_until := 0, hb_recovery_deadline := None\<rparr>"

definition record_ping :: "time_point \<Rightarrow> heartbeat \<Rightarrow> heartbeat" where
  "record_ping now h = (if \<not> hb_armed h then h else h\<lparr>hb_last_ping := now, hb_recovery_deadline := None\<rparr>)"

definition record_liveness_ping :: "time_point \<Rightarrow> heartbeat \<Rightarrow> heartbeat" where
  "record_liveness_ping now h = (if \<not> hb_armed h then h else h\<lparr>hb_last_ping := now\<rparr>)"

definition check_timeout :: "time_point \<Rightarrow> heartbeat \<Rightarrow> bool \<times> heartbeat" where
  "check_timeout now h =
     (if \<not> hb_armed h then (False, h)
      else if now < hb_optional_until h then (False, h)
      else case hb_recovery_deadline h of
          None \<Rightarrow> if now - hb_last_ping h < seconds 30 then (False, h)
                  else (False, h\<lparr>hb_recovery_deadline := Some (now + seconds 120)\<rparr>)
        | Some deadline \<Rightarrow> if now \<ge> deadline
                  then (True, h\<lparr>hb_armed := False, hb_optional_until := 0, hb_recovery_deadline := None\<rparr>)
                  else (False, h))"

section \<open>Display notifications\<close>

datatype display_event = DisplayChange | PowerResume | DeviceArrival | DeviceRemoval

record ticket =
  ti_generation :: nat
  ti_connection_epoch :: nat
  ti_event :: display_event

record debouncer =
  db_delay :: int
  db_pending :: bool
  db_deadline :: time_point
  db_ticket :: ticket

definition is_device_identity_event :: "display_event \<Rightarrow> bool" where
  "is_device_identity_event ev \<longleftrightarrow> ev = DeviceArrival \<or> ev = DeviceRemoval"

definition debounce_notify :: "time_point \<Rightarrow> nat \<Rightarrow> nat \<Rightarrow> display_event \<Rightarrow> debouncer \<Rightarrow> debouncer" where
  "debounce_notify now generation connection_epoch ev d =
     (let preserve = db_pending d \<and> ti_generation (db_ticket d) = generation \<and> ti_connection_epoch (db_ticket d) = connection_epoch \<and>
            is_device_identity_event (ti_event (db_ticket d)) \<and> \<not> is_device_identity_event ev;
          t = (if preserve then db_ticket d
               else \<lparr>ti_generation = generation, ti_connection_epoch = connection_epoch, ti_event = ev\<rparr>)
      in d\<lparr>db_ticket := t, db_pending := True, db_deadline := now + db_delay d\<rparr>)"

definition take_if_due :: "time_point \<Rightarrow> debouncer \<Rightarrow> ticket option \<times> debouncer" where
  "take_if_due now d = (if \<not> db_pending d then (None, d)
     else if now < db_deadline d then (None, d)
     else (Some (db_ticket d), d\<lparr>db_pending := False\<rparr>))"

section \<open>Status of a recovery\<close>

datatype recovery_status = RS_unknown | RS_active | RS_failed | RS_restored

record status_policy =
  sp_ticket :: nat
  sp_generation :: nat
  sp_epoch :: nat
  sp_status :: recovery_status
  sp_parked :: bool
  sp_event_revision :: nat
  sp_ticket_event_revision_base :: nat

definition status_new :: status_policy where
  "status_new = \<lparr>sp_ticket = 0, sp_generation = 0, sp_epoch = 0, sp_status = RS_unknown, sp_parked = False,
     sp_event_revision = 0, sp_ticket_event_revision_base = 0\<rparr>"

definition status_begin :: "nat \<Rightarrow> nat \<Rightarrow> nat \<Rightarrow> status_policy \<Rightarrow> status_policy" where
  "status_begin t generation epoch p = p\<lparr>sp_ticket := t, sp_generation := generation, sp_epoch := epoch,
     sp_ticket_event_revision_base := sp_event_revision p,
     sp_status := (if t = 0 then RS_unknown else RS_active), sp_parked := False\<rparr>"

definition status_restart :: "nat \<Rightarrow> nat \<Rightarrow> status_policy \<Rightarrow> status_policy" where
  "status_restart generation epoch p = (if sp_ticket p = 0 then p
     else p\<lparr>sp_generation := generation, sp_epoch := epoch, sp_status := RS_active, sp_parked := False\<rparr>)"

definition status_supersede :: "status_policy \<Rightarrow> status_policy" where
  "status_supersede p = p\<lparr>sp_ticket := 0, sp_generation := 0, sp_epoch := 0, sp_status := RS_unknown, sp_parked := False\<rparr>"

definition observe_event :: "status_policy \<Rightarrow> status_policy" where
  "observe_event p = p\<lparr>sp_event_revision := sp_event_revision p + 1\<rparr>"

definition publish :: "recovery_status \<Rightarrow> nat \<Rightarrow> nat \<Rightarrow> nat \<Rightarrow> status_policy \<Rightarrow> status_policy" where
  "publish v t generation epoch p =
     (if sp_ticket p = 0 \<or> t \<noteq> sp_ticket p \<or> generation \<noteq> sp_generation p \<or> epoch \<noteq> sp_epoch p then p
      else p\<lparr>sp_status := v\<rparr>)"

definition status_query ::
  "nat \<Rightarrow> nat \<Rightarrow> nat \<Rightarrow> nat \<Rightarrow> nat \<Rightarrow> bool \<Rightarrow> bool \<Rightarrow> bool \<Rightarrow> status_policy \<Rightarrow> recovery_status \<times> status_policy" where
  "status_query t generation epoch current_generation current_epoch worker_active operation_queued park p =
     (if sp_ticket p = 0 \<or> t \<noteq> sp_ticket p \<or> generation \<noteq> sp_generation p \<or> epoch \<noteq> sp_epoch p \<or>
         current_generation \<noteq> sp_generation p \<or> current_epoch \<noteq> sp_epoch p then (RS_unknown, p)
      else if worker_active \<or> operation_queued then (RS_active, p)
      else if sp_status p = RS_failed \<and> park then (sp_status p, p\<lparr>sp_parked := True\<rparr>)
      else (sp_status p, p))"

definition event_revision :: "status_policy \<Rightarrow> nat" where
  "event_revision p = sp_event_revision p - sp_ticket_event_revision_base p"

text \<open>A monitor that was seen off and is now on; an unsupported reading forgets the past.\<close>

definition power_edge_observe :: "bool \<Rightarrow> bool \<Rightarrow> bool option \<Rightarrow> bool \<times> bool option" where
  "power_edge_observe supported monitor_on previous =
     (if \<not> supported then (False, None) else (previous = Some False \<and> monitor_on, Some monitor_on))"

section \<open>Restore state and golden snapshot health\<close>

record restore_state =
  re_always_restore_from_golden :: bool
  re_prefer_golden_if_current_missing :: bool
  re_restore_on_disconnect :: bool
  re_restore_attempted_unconfirmed :: bool
  re_golden_pending_session_fallbacks :: nat
  re_exclusions :: "string list"

definition restore_state_new :: restore_state where
  "restore_state_new = \<lparr>re_always_restore_from_golden = False, re_prefer_golden_if_current_missing = True,
     re_restore_on_disconnect = True, re_restore_attempted_unconfirmed = False,
     re_golden_pending_session_fallbacks = 0, re_exclusions = []\<rparr>"

definition reset_request_progress :: "restore_state \<Rightarrow> restore_state" where
  "reset_request_progress r = r\<lparr>re_restore_attempted_unconfirmed := False, re_golden_pending_session_fallbacks := 0\<rparr>"

text \<open>The status file, with the fields that are read back; a field may be missing.\<close>

record golden_marker =
  gm_first_failure_ms :: "int option"
  gm_attempts :: "nat option"
  gm_out_of_date :: bool

record golden_health =
  gh_had_issue :: bool
  gh_last_issue :: string
  gh_marker :: "golden_marker option"

definition golden_health_new :: golden_health where
  "golden_health_new = \<lparr>gh_had_issue = False, gh_last_issue = [], gh_marker = None\<rparr>"

definition reset_request_tracking :: "golden_health \<Rightarrow> golden_health" where
  "reset_request_tracking g = g\<lparr>gh_had_issue := False, gh_last_issue := []\<rparr>"

definition clear_status :: "bool \<Rightarrow> golden_health \<Rightarrow> golden_health" where
  "clear_status removed g = (if removed then (reset_request_tracking g)\<lparr>gh_marker := None\<rparr> else reset_request_tracking g)"

definition note_issue :: "string \<Rightarrow> golden_health \<Rightarrow> golden_health" where
  "note_issue reason g = g\<lparr>gh_had_issue := True, gh_last_issue := (if reason \<noteq> [] then reason else ''restore_failed'')\<rparr>"

definition register_unresolved :: "int \<Rightarrow> bool \<Rightarrow> golden_health \<Rightarrow> golden_health" where
  "register_unresolved now_ms written g =
     (if \<not> gh_had_issue g then g
      else let first_failure_ms = (case gh_marker g of None \<Rightarrow> now_ms
                 | Some m \<Rightarrow> (case gm_first_failure_ms m of None \<Rightarrow> now_ms | Some t \<Rightarrow> t));
               failures = (case gh_marker g of None \<Rightarrow> 0 | Some m \<Rightarrow> (case gm_attempts m of None \<Rightarrow> 0 | Some n \<Rightarrow> n)) + 1;
               unresolved_ms = max 0 (now_ms - first_failure_ms);
               should_warn = (failures \<ge> 3 \<and> unresolved_ms \<ge> 72 * 3600 * 1000);
               g' = reset_request_tracking g
           in if written then g'\<lparr>gh_marker := Some \<lparr>gm_first_failure_ms = Some first_failure_ms, gm_attempts = Some failures,
                  gm_out_of_date = should_warn\<rparr>\<rparr>
              else g')"

section \<open>Resets of the virtual display\<close>

text \<open>At most one reset every 30 seconds; a clock reading of zero stands for no reset so far.\<close>

definition maybe_reset_virtual_display :: "bool \<Rightarrow> bool \<Rightarrow> time_point \<Rightarrow> time_point \<Rightarrow> bool \<times> time_point" where
  "maybe_reset_virtual_display needs_reset requested now last_reset =
     (if \<not> needs_reset \<or> \<not> requested then (False, last_reset)
      else if last_reset \<noteq> 0 \<and> now - last_reset < seconds 30 then (False, last_reset)
      else (True, now))"

end
