(* ===== verification/Snapshot_Ledger.thy ===== *)
theory Snapshot_Ledger
  imports Recovery_Support "HOL-Library.List_Lexorder" "HOL-Library.Char_ord"
begin

text \<open>
  Snapshots of the desktop that a restore goes back to: the filters of \<^verbatim>\<open>snapshot_codec.cpp\<close>,
  the tiers of \<^verbatim>\<open>snapshot.cpp\<close>, and the ledger of \<^verbatim>\<open>state_machine.cpp\<close> that
  captures, saves and compares them. A \<^verbatim>\<open>std::map\<close> keyed by device id is an association
  list, a \<^verbatim>\<open>std::set\<close> of ids a sorted list or a set. The display driver, the enumeration of
  devices and the file writes are ports; the JSON text of a snapshot file is not modelled, a file holds a
  snapshot or something that does not parse to one.
\<close>

section \<open>Snapshots and devices\<close>

type_synonym topology = "string list list"

record display_mode =
  dm_width :: nat
  dm_height :: nat
  dm_numerator :: nat
  dm_denominator :: nat

datatype hdr_state = HdrEnabled | HdrDisabled

record snapshot =
  sn_topology :: topology
  sn_modes :: "(string \<times> display_mode) list"
  sn_hdr_states :: "(string \<times> hdr_state option) list"
  sn_primary_device :: string
  sn_origins :: "(string \<times> (int \<times> int)) list"

type_synonym rotations = "(string \<times> int) list"

record parsed_snapshot =
  pa_snapshot :: snapshot
  pa_has_layout_data :: bool
  pa_layout_rotations :: rotations

text \<open>An enumerated device; \<open>dv_active\<close> is \<^verbatim>\<open>m_info.has_value()\<close>.\<close>

record device =
  dv_device_id :: string
  dv_display_name :: string
  dv_friendly_name :: string
  dv_manufacturer_id :: "string option"
  dv_active :: bool

datatype tier = Tier_current | Tier_previous | Tier_golden

section \<open>Identifiers\<close>

definition isspace :: "char \<Rightarrow> bool" where
  "isspace c \<longleftrightarrow> (let n = of_char c :: nat in n = 32 \<or> (9 \<le> n \<and> n \<le> 13))"

definition normalize_device_id :: "string \<Rightarrow> string" where
  "normalize_device_id s = to_lower (rev (dropWhile isspace (rev (dropWhile isspace s))))"

fun contains_ci :: "string \<Rightarrow> string \<Rightarrow> bool" where
  "contains_ci haystack needle = (needle = [] \<or> (length haystack \<ge> length needle \<and>
     (to_lower (take (length needle) haystack) = to_lower needle \<or>
      (case haystack of [] \<Rightarrow> False | _ # rest \<Rightarrow> contains_ci rest needle))))"

declare contains_ci.simps [simp del]

definition equals_ci :: "string \<Rightarrow> string \<Rightarrow> bool" where
  "equals_ci lhs rhs \<longleftrightarrow> length lhs = length rhs \<and> contains_ci lhs rhs"

definition normalize_rotation_degrees :: "int \<Rightarrow> int option" where
  "normalize_rotation_degrees degrees =
     (let n = degrees smod 360; n = (if n < 0 then n + 360 else n)
      in if n \<in> {0, 90, 180, 270} then Some n else None)"

definition flatten_topology_device_ids :: "topology \<Rightarrow> string list" where
  "flatten_topology_device_ids t = sorted_list_of_set (set (filter (\<lambda>i. i \<noteq> []) (concat t)))"

definition canonical_topology :: "topology \<Rightarrow> topology" where
  "canonical_topology t = sort (map sort t)"

definition is_virtual_display_device :: "device \<Rightarrow> bool" where
  "is_virtual_display_device d \<longleftrightarrow>
     contains_ci (dv_device_id d) ''SunshineVirtualDisplay'' \<or> contains_ci (dv_device_id d) ''Sunshine Virtual Display'' \<or>
     contains_ci (dv_display_name d) ''SunshineVirtualDisplay'' \<or> contains_ci (dv_display_name d) ''Sunshine Virtual Display'' \<or>
     contains_ci (dv_friendly_name d) ''SunshineVirtualDisplay'' \<or> contains_ci (dv_friendly_name d) ''Sunshine Virtual Display'' \<or>
     equals_ci (dv_friendly_name d) ''Sunshine Virtual Display Driver'' \<or>
     (case dv_manufacturer_id d of None \<Rightarrow> False | Some m \<Rightarrow> equals_ci m ''SDD'' \<or> equals_ci m ''SMK'')"

definition is_active_display_device :: "device \<Rightarrow> bool" where
  "is_active_display_device d \<longleftrightarrow> dv_active d \<or> dv_display_name d \<noteq> []"

section \<open>Comparing snapshots\<close>

definition recovery_snapshot_matches ::
  "((string \<times> display_mode) list \<Rightarrow> (string \<times> display_mode) list \<Rightarrow> bool) \<Rightarrow> snapshot \<Rightarrow> snapshot \<Rightarrow> bool" where
  "recovery_snapshot_matches equal_modes current requested \<longleftrightarrow>
     \<not> (sn_modes requested = [] \<or> canonical_topology (sn_topology current) \<noteq> canonical_topology (sn_topology requested) \<or>
        \<not> equal_modes (sn_modes current) (sn_modes requested)) \<and>
     \<not> (sn_primary_device requested \<noteq> [] \<and> sn_primary_device current \<noteq> sn_primary_device requested) \<and>
     list_all (\<lambda>(i, st). st = None \<or> map_of (sn_hdr_states current) i = Some st) (sn_hdr_states requested) \<and>
     list_all (\<lambda>(i, origin). map_of (sn_origins current) i = Some origin) (sn_origins requested)"

section \<open>Filters\<close>

definition device_key :: "device \<Rightarrow> string" where
  "device_key d = (if dv_device_id d = [] then dv_display_name d else dv_device_id d)"

definition is_excluded :: "string list \<Rightarrow> string \<Rightarrow> bool" where
  "is_excluded exclusions i \<longleftrightarrow> normalize_device_id i \<in> set (map normalize_device_id exclusions)"

text \<open>Keep of every map only the keys that a predicate allows, as the erase loops do.\<close>

definition restrict_snapshot :: "(string \<Rightarrow> bool) \<Rightarrow> snapshot \<Rightarrow> snapshot" where
  "restrict_snapshot ok s = s\<lparr>sn_topology := filter (\<lambda>g. g \<noteq> []) (map (filter ok) (sn_topology s)),
     sn_modes := filter (ok \<circ> fst) (sn_modes s), sn_hdr_states := filter (ok \<circ> fst) (sn_hdr_states s),
     sn_origins := filter (ok \<circ> fst) (sn_origins s)\<rparr>"

definition valid_device_ids :: "device list \<Rightarrow> string list" where
  "valid_device_ids devices = map device_key (filter (\<lambda>d. \<not> is_virtual_display_device d \<and> dv_display_name d \<noteq> [] \<and> device_key d \<noteq> []) devices)"

definition virtual_device_ids :: "device list \<Rightarrow> string list" where
  "virtual_device_ids devices = map device_key (filter (\<lambda>d. is_virtual_display_device d \<and> device_key d \<noteq> []) devices)"

definition filter_snapshot_for_save :: "snapshot \<Rightarrow> device list \<Rightarrow> string list \<Rightarrow> snapshot option" where
  "filter_snapshot_for_save snap devices exclusions =
     (let all = valid_device_ids devices;
          valid = (if exclusions \<noteq> [] then filter (\<lambda>i. \<not> is_excluded exclusions i) all else all);
          filtered = restrict_snapshot (\<lambda>i. i \<in> set valid) snap
      in if sn_modes snap = [] then None
         else if exclusions \<noteq> [] \<and> valid = [] then None
         else if list_ex (list_ex (\<lambda>i. i \<notin> set valid \<and> \<not> is_excluded exclusions i \<and> i \<notin> set (virtual_device_ids devices))) (sn_topology snap) then None
         else if sn_topology filtered = [] then None
         else Some (if sn_primary_device snap \<in> set valid then filtered else filtered\<lparr>sn_primary_device := []\<rparr>))"

definition filter_loaded_snapshot :: "parsed_snapshot \<Rightarrow> device list \<Rightarrow> string list \<Rightarrow> parsed_snapshot option" where
  "filter_loaded_snapshot loaded devices exclusions =
     (let snap = pa_snapshot loaded;
          named = filter (\<lambda>d. device_key d \<noteq> []) devices;
          excluded = is_excluded exclusions;
          virtual_norm = map (normalize_device_id \<circ> device_key) (filter (\<lambda>d. is_virtual_display_device d \<and> is_active_display_device d) named);
          valid_norm = map (normalize_device_id \<circ> device_key) (filter (\<lambda>d. \<not> is_virtual_display_device d \<and> \<not> excluded (device_key d)) named);
          allowed = (\<lambda>i. normalize_device_id i \<in> set valid_norm \<and> \<not> excluded i);
          filtered = restrict_snapshot allowed snap;
          layouts = filter (allowed \<circ> fst) (pa_layout_rotations loaded)
      in if list_ex (list_ex (\<lambda>i. normalize_device_id i \<in> set virtual_norm)) (sn_topology snap) then None
         else if valid_norm = [] then None
         else if list_ex (list_ex (\<lambda>i. \<not> excluded i \<and> normalize_device_id i \<notin> set valid_norm)) (sn_topology snap) then None
         else if sn_topology filtered = [] then None
         else Some (loaded\<lparr>pa_snapshot := (if sn_primary_device snap \<noteq> [] \<and> \<not> allowed (sn_primary_device snap)
                      then filtered\<lparr>sn_primary_device := []\<rparr> else filtered),
                    pa_layout_rotations := layouts, pa_has_layout_data := (pa_has_layout_data loaded \<and> layouts \<noteq> [])\<rparr>))"

section \<open>Tiers\<close>

text \<open>A file of a tier: absent, present without a usable snapshot, or holding one.\<close>

datatype tier_file = Absent | Unusable | Holds snapshot rotations

record ledger = ports +
  ld_store :: "tier \<Rightarrow> tier_file"
  ld_prefer_golden_first :: bool

record ledger_env =
  le_capture :: "nat \<Rightarrow> snapshot"
  le_enumerate :: "nat \<Rightarrow> device list"
  le_topology_is_valid :: "nat \<Rightarrow> topology \<Rightarrow> bool"
  le_layouts :: "nat \<Rightarrow> string list \<Rightarrow> rotations"
  le_write_ok :: "nat \<Rightarrow> bool"
  le_observe :: "nat \<Rightarrow> (device list \<times> topology) option"
  le_try_enumerate :: "nat \<Rightarrow> device list option"

definition tier_exists :: "tier \<Rightarrow> ('z ledger_scheme, bool) program" where
  "tier_exists t = gets (\<lambda>s. ld_store s t \<noteq> Absent)"

definition storage_load :: "tier \<Rightarrow> 'z ledger_scheme \<Rightarrow> (snapshot \<times> rotations) option" where
  "storage_load t s = (case ld_store s t of
     Holds sn rot \<Rightarrow> if sn_topology sn = [] \<and> sn_modes sn = [] then None else Some (sn, rot)
   | _ \<Rightarrow> None)"

definition storage_save :: "'e ledger_env_scheme \<Rightarrow> tier \<Rightarrow> snapshot \<Rightarrow> rotations \<Rightarrow> ('z ledger_scheme, bool) program" where
  "storage_save e t sn rot = do {
     ok \<leftarrow> ask (le_write_ok e);
     when_do ok (modify (\<lambda>s. s\<lparr>ld_store := (ld_store s)(t := Holds sn rot)\<rparr>));
     return ok }"

definition recovery_order :: "bool \<Rightarrow> tier list" where
  "recovery_order prefer_golden_first =
     (if prefer_golden_first then [Tier_golden, Tier_current, Tier_previous] else [Tier_current, Tier_previous, Tier_golden])"

text \<open>The first tier of an order that holds a snapshot with a topology.\<close>

fun first_baseline :: "tier list \<Rightarrow> 'z ledger_scheme \<Rightarrow> snapshot option" where
  "first_baseline [] s = None"
| "first_baseline (t # ts) s = (case storage_load t s of
     Some (sn, _) \<Rightarrow> if sn_topology sn \<noteq> [] then Some sn else first_baseline ts s
   | None \<Rightarrow> first_baseline ts s)"

section \<open>Capturing\<close>

definition capture_filtered :: "'e ledger_env_scheme \<Rightarrow> string list \<Rightarrow> ('z ledger_scheme, (snapshot \<times> rotations) option) program" where
  "capture_filtered e exclusions = do {
     snap \<leftarrow> ask (le_capture e);
     valid \<leftarrow> ask (le_topology_is_valid e);
     if \<not> valid (sn_topology snap) then return None
     else do {
       devices \<leftarrow> ask (le_enumerate e);
       case filter_snapshot_for_save snap devices exclusions of
         None \<Rightarrow> return None
       | Some filtered \<Rightarrow>
           let ids = flatten_topology_device_ids (sn_topology filtered) in
           if list_ex (\<lambda>i. map_of (sn_origins filtered) i = None) ids then return None
           else do {
             layouts \<leftarrow> ask (le_layouts e);
             return (Some (filtered, layouts ids)) } } }"

text \<open>Three attempts; a failed capture and a failed write are both retried.\<close>

fun capture_and_save_attempts :: "'e ledger_env_scheme \<Rightarrow> nat \<Rightarrow> tier \<Rightarrow> string list \<Rightarrow> ('z ledger_scheme, bool) program" where
  "capture_and_save_attempts e 0 t exclusions = return False"
| "capture_and_save_attempts e (Suc n) t exclusions = do {
     captured \<leftarrow> capture_filtered e exclusions;
     saved \<leftarrow> (case captured of None \<Rightarrow> return False | Some c \<Rightarrow> storage_save e t (fst c) (snd c));
     if saved then return True else capture_and_save_attempts e n t exclusions }"

definition capture_filtered_and_save :: "'e ledger_env_scheme \<Rightarrow> tier \<Rightarrow> string list \<Rightarrow> ('z ledger_scheme, bool) program" where
  "capture_filtered_and_save e t exclusions = capture_and_save_attempts e 3 t exclusions"

fun capture_attempts :: "'e ledger_env_scheme \<Rightarrow> nat \<Rightarrow> string list \<Rightarrow> ('z ledger_scheme, (snapshot \<times> rotations) option) program" where
  "capture_attempts e 0 exclusions = return None"
| "capture_attempts e (Suc n) exclusions = do {
     captured \<leftarrow> capture_filtered e exclusions;
     (case captured of None \<Rightarrow> capture_attempts e n exclusions | Some c \<Rightarrow> return (Some c)) }"

definition refresh_current_preserving_previous :: "'e ledger_env_scheme \<Rightarrow> string list \<Rightarrow> ('z ledger_scheme, bool) program" where
  "refresh_current_preserving_previous e exclusions = do {
     captured \<leftarrow> capture_attempts e 3 exclusions;
     (case captured of
        None \<Rightarrow> return False
      | Some c \<Rightarrow> do {
          current \<leftarrow> gets (storage_load Tier_current);
          (case current of None \<Rightarrow> return True | Some old \<Rightarrow> storage_save e Tier_previous (fst old) (snd old));
          storage_save e Tier_current (fst c) (snd c) }) }"

section \<open>Returned devices\<close>

definition contains_id :: "string list \<Rightarrow> string \<Rightarrow> bool" where
  "contains_id ids needle \<longleftrightarrow> list_ex (\<lambda>c. iequals c needle) ids"

definition topology_contains :: "topology \<Rightarrow> string \<Rightarrow> bool" where
  "topology_contains t needle \<longleftrightarrow> list_ex (\<lambda>g. contains_id g needle) t"

text \<open>What a session has seen of the devices of its baseline: gone, or connected but disabled.\<close>

type_synonym observed = "string set \<times> string set"

definition returned_physical_device :: "device list \<Rightarrow> string \<Rightarrow> observed \<Rightarrow> bool \<times> observed" where
  "returned_physical_device devices needle obs =
     (let (gone, disabled) = obs; norm = normalize_device_id needle in
      case find (\<lambda>d. dv_device_id d \<noteq> [] \<and> iequals (dv_device_id d) needle) devices of
        None \<Rightarrow> (False, if norm \<notin> disabled then (insert norm gone, disabled) else (gone, disabled))
      | Some d \<Rightarrow>
          if is_virtual_display_device d then (False, (gone - {norm}, disabled))
          else if dv_active d then (True, (gone - {norm}, disabled - {norm}))
          else if norm \<in> gone then (True, (gone, disabled))
          else (False, (gone, insert norm disabled)))"

text \<open>The members of a baseline group that count as returned, in order.\<close>

fun returned_group :: "string \<Rightarrow> string list \<Rightarrow> device list \<Rightarrow> string list \<Rightarrow> observed \<Rightarrow> string list \<times> observed" where
  "returned_group virtual_id exclusions devices [] obs = ([], obs)"
| "returned_group virtual_id exclusions devices (i # is) obs =
     (if i \<noteq> [] \<and> \<not> iequals i virtual_id \<and> \<not> contains_id exclusions i
      then let (back, obs) = returned_physical_device devices i obs;
               (rest, obs) = returned_group virtual_id exclusions devices is obs
           in (if back then i # rest else rest, obs)
      else returned_group virtual_id exclusions devices is obs)"

definition first_match :: "('a \<Rightarrow> bool) \<Rightarrow> 'a list \<Rightarrow> nat" where
  "first_match P xs = length (takeWhile (\<lambda>x. \<not> P x) xs)"

definition extend_candidate :: "topology \<Rightarrow> string list \<Rightarrow> topology \<times> bool \<Rightarrow> topology \<times> bool" where
  "extend_candidate live grp acc =
     (let (candidate, added) = acc; missing = filter (\<lambda>i. \<not> topology_contains live i) grp in
      if missing = [] then acc
      else let k = first_match (\<lambda>g. list_ex (contains_id g) grp) candidate in
        (if k = length candidate then candidate @ [grp] else candidate[k := candidate ! k @ missing], True))"

fun extend_groups :: "string \<Rightarrow> string list \<Rightarrow> device list \<Rightarrow> topology \<Rightarrow> topology \<Rightarrow> topology \<times> bool \<Rightarrow> observed
    \<Rightarrow> (topology \<times> bool) \<times> observed" where
  "extend_groups virtual_id exclusions devices live [] acc obs = (acc, obs)"
| "extend_groups virtual_id exclusions devices live (g # gs) acc obs =
     (let (grp, obs) = returned_group virtual_id exclusions devices g obs
      in extend_groups virtual_id exclusions devices live gs (extend_candidate live grp acc) obs)"

definition observation_complete :: "device list \<Rightarrow> topology \<Rightarrow> bool" where
  "observation_complete devices live \<longleftrightarrow>
     list_all (list_all (\<lambda>i. i \<noteq> [] \<and> list_ex (\<lambda>d. iequals (dv_device_id d) i \<and> dv_active d) devices)) live"

definition topology_with_returned_baseline_devices ::
  "'e ledger_env_scheme \<Rightarrow> string \<Rightarrow> string list \<Rightarrow> observed \<Rightarrow> ('z ledger_scheme, topology option \<times> observed) program" where
  "topology_with_returned_baseline_devices e virtual_id exclusions obs = do {
     seen \<leftarrow> ask (le_observe e);
     s \<leftarrow> gets id;
     return (case seen of
       None \<Rightarrow> (None, obs)
     | Some (devices, live) \<Rightarrow>
         if virtual_id = [] \<or> live = [] \<or> \<not> topology_contains live virtual_id then (None, obs)
         else if \<not> observation_complete devices live then (None, obs)
         else (case first_baseline (recovery_order (ld_prefer_golden_first s)) s of
             None \<Rightarrow> (None, obs)
           | Some baseline \<Rightarrow>
               let ((candidate, added), obs) = extend_groups virtual_id exclusions devices live (sn_topology baseline) (live, False) obs
               in (if added then Some candidate else None, obs))) }"

definition present_physical_restore_baseline_devices ::
  "'e ledger_env_scheme \<Rightarrow> bool \<Rightarrow> string list \<Rightarrow> ('z ledger_scheme, string set option) program" where
  "present_physical_restore_baseline_devices e golden_first exclusions = do {
     baseline \<leftarrow> gets (first_baseline (recovery_order golden_first));
     (case baseline of
        None \<Rightarrow> return None
      | Some b \<Rightarrow> do {
          let required = map normalize_device_id (filter (\<lambda>i. normalize_device_id i \<noteq> [] \<and> \<not> is_excluded exclusions i) (concat (sn_topology b)));
          devices \<leftarrow> ask (le_try_enumerate e);
          return (map_option (\<lambda>ds. set (map (normalize_device_id \<circ> dv_device_id) (filter (\<lambda>d.
              normalize_device_id (dv_device_id d) \<in> set required \<and> \<not> is_virtual_display_device d) ds))) devices) }) }"

section \<open>What the ledger touches\<close>

text \<open>The programs of the ledger change the count of questions and the files, nothing else of the state
  that embeds it. The rules hold for every postcondition.\<close>

lemma wp_capture_filtered:
  assumes "\<And>x r. Q x (s\<lparr>po_reads := r\<rparr>)"
  shows "wp (capture_filtered e exclusions) Q s"
  using assms unfolding capture_filtered_def Let_def by (auto simp: wp_rules split: option.splits)

lemma wp_storage_save:
  assumes "\<And>x r st. Q x (s\<lparr>po_reads := r, ld_store := st\<rparr>)"
  shows "wp (storage_save e t sn rot) Q s"
  using assms[where st = "ld_store s"] assms unfolding storage_save_def by (auto simp: wp_rules)

lemma wp_capture_and_save_attempts:
  assumes "\<And>x r st. Q x (s\<lparr>po_reads := r, ld_store := st\<rparr>)"
  shows "wp (capture_and_save_attempts e n t exclusions) Q s"
  using assms
proof (induction n arbitrary: s)
  case 0
  from 0[where x = False and r = "po_reads s" and st = "ld_store s"] show ?case by (simp add: wp_rules)
next
  case (Suc n)
  have more: "wp (capture_and_save_attempts e n t exclusions) Q (s\<lparr>po_reads := r, ld_store := st\<rparr>)" for r st
    by (rule Suc.IH) (use Suc.prems in simp)
  then have more': "wp (capture_and_save_attempts e n t exclusions) Q (s\<lparr>po_reads := r\<rparr>)" for r
    using more[where r = r and st = "ld_store s"] by simp
  show ?case
    unfolding capture_and_save_attempts.simps wp_bind
    by (rule wp_capture_filtered)
      (auto simp: wp_rules more' more Suc.prems split: option.split intro!: wp_storage_save)
qed

lemma wp_capture_filtered_and_save:
  "(\<And>x r st. Q x (s\<lparr>po_reads := r, ld_store := st\<rparr>)) \<Longrightarrow> wp (capture_filtered_and_save e t exclusions) Q s"
  unfolding capture_filtered_and_save_def by (rule wp_capture_and_save_attempts)

lemma wp_capture_attempts:
  "(\<And>x r. Q x (s\<lparr>po_reads := r\<rparr>)) \<Longrightarrow> wp (capture_attempts e n exclusions) Q s"
proof (induction n arbitrary: s)
  case 0
  from 0[of None "po_reads s"] show ?case by (simp add: wp_rules)
next
  case (Suc n)
  have "wp (capture_attempts e n exclusions) Q (s\<lparr>po_reads := r\<rparr>)" for r
    by (rule Suc.IH) (use Suc.prems in simp)
  then show ?case
    unfolding capture_attempts.simps wp_bind
    by (intro wp_capture_filtered) (auto simp: wp_rules Suc.prems split: option.split)
qed

lemma wp_refresh_current:
  assumes Q: "\<And>x r st. Q x (s\<lparr>po_reads := r, ld_store := st\<rparr>)"
  shows "wp (refresh_current_preserving_previous e exclusions) Q s"
proof -
  have Q': "Q x (s\<lparr>po_reads := r\<rparr>)" for x r using Q[where st = "ld_store s" and r = r] by simp
  have save: "wp (storage_save e Tier_current sn rot) Q (s\<lparr>po_reads := r, ld_store := st\<rparr>)" for sn rot r st
    by (rule wp_storage_save) (use Q in simp)
  have save': "wp (storage_save e Tier_current sn rot) Q (s\<lparr>po_reads := r\<rparr>)" for sn rot r
    using save[where sn = sn and rot = rot and r = r and st = "ld_store s"] by simp
  show ?thesis
    unfolding refresh_current_preserving_previous_def wp_bind
    by (rule wp_capture_attempts) (auto simp: wp_rules Q Q' save save' split: option.split intro!: wp_storage_save)
qed

lemma wp_topology_with_returned:
  "(\<And>x r. Q x (s\<lparr>po_reads := r\<rparr>)) \<Longrightarrow> wp (topology_with_returned_baseline_devices e v xs obs) Q s"
  unfolding topology_with_returned_baseline_devices_def by (simp add: wp_rules)

lemma wp_present_physical:
  assumes "\<And>x r. Q x (s\<lparr>po_reads := r\<rparr>)"
  shows "wp (present_physical_restore_baseline_devices e g xs) Q s"
  using assms assms[of None "po_reads s"] unfolding present_physical_restore_baseline_devices_def Let_def
  by (auto simp: wp_rules split: option.split)

end
