(* ===== verification/Helper_State.thy ===== *)
theory Helper_State
  imports Snapshot_Ledger
begin

text \<open>
  The state machine of the Windows display helper (\<^verbatim>\<open>display_helper_v2/state_machine.cpp\<close> and
  \<^verbatim>\<open>.h\<close>, with the commands of \<^verbatim>\<open>types.h\<close>). It applies display configurations for
  a stream, verifies them, answers the host, and restores the desktop afterwards or when the host is lost.
  One thread handles messages; display work is dispatched to a serialized worker, whose completions come
  back as messages. The members of \<^verbatim>\<open>StateMachine\<close> are the fields of \<open>helper\<close>, along
  with what its collaborators keep: the cancellation generation, the worker's queue and its timer queue, and
  what was sent to the host. Replies are appended to \<open>hm_out\<close>. The callbacks are those the helper's
  \<^verbatim>\<open>main\<close> installs; diagnostics and the optional observer are left out.
\<close>

section \<open>Commands and completions\<close>

datatype apply_status = St_ok | HelperUnavailable | InvalidRequest | VerificationFailed
  | NeedsVirtualDisplayReset | Retryable | Fatal | HdrStateFailed

datatype machine_state = Waiting | InProgress | Verification | Recovery | RecoveryValidation | EventLoop | VirtualDisplayMonitoring

datatype target_kind = No_target | ExplicitDevice | DefaultPrimaryGroup

record resolved_target =
  tg_kind :: target_kind
  tg_representative_device_id :: string
  tg_duplicate_device_ids :: "string list"

text \<open>The fields of a display configuration that the state machine reads or writes.\<close>

record configuration =
  cf_device_id :: string
  cf_hdr_state :: "hdr_state option"
  cf_refresh_rate :: "(nat \<times> nat) option"

record apply_request =
  aq_configuration :: "configuration option"
  aq_topology :: "topology option"
  aq_monitor_positions :: "(string \<times> (int \<times> int)) list"
  aq_refresh_rate_overrides :: "(string \<times> (nat \<times> nat)) list"
  aq_hdr_blank :: bool
  aq_deadline :: time_point
  aq_prefer_golden_first :: bool
  aq_restore_on_disconnect :: bool
  aq_omit_final_initial_hdr_reapply :: bool
  aq_settings_only_repair :: bool
  aq_reactivation_of :: "nat option"
  aq_reactivation_only :: bool
  aq_refresh_settings_baseline :: bool
  aq_repair_target :: "resolved_target option"
  aq_virtual_layout :: "string option"
  aq_snapshot_exclusions :: "string list option"
  aq_request_id :: nat
  aq_exclusive_pre_apply_topology :: "topology option"
  aq_exclusive_topology_rollback_only :: bool

definition empty_request :: apply_request where
  "empty_request = \<lparr>aq_configuration = None, aq_topology = None, aq_monitor_positions = [], aq_refresh_rate_overrides = [],
     aq_hdr_blank = False, aq_deadline = 2 ^ 63 - 1, aq_prefer_golden_first = False, aq_restore_on_disconnect = True,
     aq_omit_final_initial_hdr_reapply = False, aq_settings_only_repair = False, aq_reactivation_of = None, aq_reactivation_only = False,
     aq_refresh_settings_baseline = False, aq_repair_target = None, aq_virtual_layout = None,
     aq_snapshot_exclusions = None, aq_request_id = 0, aq_exclusive_pre_apply_topology = None,
     aq_exclusive_topology_rollback_only = False\<rparr>"

record apply_command =
  cm_request :: apply_request
  cm_connection_epoch :: nat

record revert_command =
  rv_connection_epoch :: nat
  rv_prefer_golden_if_current_missing :: bool
  rv_always_restore_from_golden :: "bool option"
  rv_immediate :: bool
  rv_from_disconnect :: bool
  rv_restore_ticket :: nat

record disarm_command =
  di_connection_epoch :: nat
  di_force :: bool

record snapshot_payload =
  py_exclude_devices :: "string list"
  py_update_exclusions :: bool

record refresh_rate_command =
  rf_device_id :: string
  rf_numerator :: nat
  rf_denominator :: nat
  rf_connection_epoch :: nat
  rf_request_id :: nat

record recovery_status_command =
  rq_ticket :: nat
  rq_generation :: nat
  rq_connection_epoch :: nat
  rq_park :: bool

record apply_completed =
  ac_status :: apply_status
  ac_resolved_target :: "resolved_target option"
  ac_virtual_display_requested :: bool
  ac_display_may_have_changed :: bool
  ac_durable_recovery_armed :: bool
  ac_durable_recovery_attempted :: bool
  ac_staged_state_prepared :: bool
  ac_exclusive_pre_apply_topology :: "topology option"
  ac_exclusive_rollback_only :: bool
  ac_generation :: nat

datatype verification_purpose = Initial | TransientDisconnect | TransientDisconnectFinal | BaselineTopologyReturn | BaselineTopologyRepair

record recovery_completed =
  rc_success :: bool
  rc_snapshot :: "snapshot option"
  rc_display_may_have_changed :: bool
  rc_staged_state_reset_attempted :: bool
  rc_staged_state_reset_succeeded :: bool
  rc_generation :: nat

datatype message =
    M_apply apply_command
  | M_revert revert_command
  | M_disarm disarm_command
  | M_export_golden snapshot_payload nat
  | M_snapshot_current snapshot_payload nat nat
  | M_refresh_rate refresh_rate_command
  | M_reset nat
  | M_ping nat
  | M_stop nat
  | M_recovery_status recovery_status_command
  | M_apply_completed apply_completed
  | M_verification_completed bool verification_purpose nat
  | M_reset_completed bool nat
  | M_refresh_rate_completed bool refresh_rate_command nat
  | M_recovery_completed recovery_completed
  | M_recovery_validation_completed bool nat
  | M_display_event display_event nat nat
  | M_heartbeat_timeout nat nat

section \<open>State\<close>

datatype deferred_command = D_apply apply_command | D_repair string nat | D_revert revert_command | D_disarm disarm_command | D_reset nat

datatype worker_kind = Wk_apply | Wk_refresh_rate | Wk_recovery

text \<open>A job handed to the dispatcher, with the generation of its cancellation token.\<close>

datatype job =
    J_apply nat apply_request bool
  | J_verify nat apply_request "topology option" "resolved_target option" verification_purpose
  | J_reset nat
  | J_refresh_rate nat refresh_rate_command
  | J_recovery nat int
  | J_validation nat snapshot

datatype reply =
    R_apply apply_status nat nat
  | R_verification bool nat nat
  | R_snapshot bool nat nat
  | R_refresh_rate bool nat nat
  | R_recovery_status nat recovery_status nat bool nat
  | R_exit int
  | R_clear_hdr_blank
  | R_refresh_shell
  | R_create_restore_task bool
  | R_delete_restore_task

text \<open>The members \<^verbatim>\<open>transient_disconnect_*\<close>.\<close>

record settlement =
  td_settlement_requested :: bool
  td_check_pending :: bool
  td_repair_in_flight :: bool
  td_deferred_by_staged_reset :: bool
  td_deferred_final_check :: bool
  td_final_check_pending :: bool
  td_next_check :: nat
  td_topology :: "topology option"
  td_rollback_verification :: bool

definition no_settlement :: settlement where
  "no_settlement = \<lparr>td_settlement_requested = False, td_check_pending = False, td_repair_in_flight = False,
     td_deferred_by_staged_reset = False, td_deferred_final_check = False, td_final_check_pending = False,
     td_next_check = 0, td_topology = None, td_rollback_verification = False\<rparr>"

record helper = ledger +
  hm_generation :: nat
  hm_tasks :: "job list"
  hm_timers :: "(int \<times> job) list"
  hm_out :: "reply list"
  hm_state :: machine_state
  hm_worker :: "(worker_kind \<times> nat) option"
  hm_deferred :: "deferred_command list"
  hm_reset_pending :: bool
  hm_current_request :: apply_request
  hm_connection_epoch :: nat
  hm_recovery_armed :: bool
  hm_display_changes_pending_recovery :: bool
  hm_explicit_recovery_required :: bool
  hm_virtual_hdr_fallback_attempted :: bool
  hm_baseline_repair_available :: bool
  hm_baseline_repair_in_flight :: bool
  hm_observed :: observed
  hm_apply_result_sent :: bool
  hm_verification_result_sent :: bool
  hm_session_was_verified :: bool
  hm_restore_task_created :: bool
  hm_verification_reapply_available :: bool
  hm_settlement :: settlement
  hm_last_apply_started :: "time_point option"
  hm_resolved_target :: "resolved_target option"
  hm_expected_topology :: "topology option"
  hm_recovery_snapshot :: "snapshot option"
  hm_feedback_quiet_until :: "time_point option"
  hm_deferred_display_event :: "(display_event \<times> nat \<times> nat) option"
  hm_baseline_present :: "string set option"
  hm_identity_discoveries :: nat
  hm_identity_repairs :: nat
  hm_blacklist :: "string list"
  hm_status :: status_policy
  hm_deferred_completion :: "apply_completed option"
  hm_reactivation :: "apply_command option"
  hm_unconfirmed_mutation :: bool
  hm_exit_after_reset :: bool
  hm_staged_state_prepared :: bool
  hm_recovery_reset_succeeded :: "bool option"
  hm_lease_before_apply :: bool
  hm_last_notification :: "(nat \<times> recovery_status \<times> nat \<times> nat) option"
  hm_scheduler :: restore_scheduler
  hm_restore_state :: restore_state
  hm_golden :: golden_health
  hm_heartbeat :: heartbeat
  hm_last_reset :: time_point
  hm_restore_origin_epoch :: nat
  hm_client_connected :: bool
  hm_running :: bool

record helper_env = ledger_env +
  he_epoch :: "nat \<Rightarrow> nat"
  he_now :: "nat \<Rightarrow> time_point"
  he_now_ms :: "nat \<Rightarrow> int"
  he_device_id :: "nat \<Rightarrow> string"
  he_create_task :: "nat \<Rightarrow> bool"
  he_marker_io :: "nat \<Rightarrow> bool"

type_synonym 'a hp = "(helper, 'a) program"

end
