(* ===== verification/Helper_Machine.thy ===== *)
theory Helper_Machine
  imports Helper_State
begin

text \<open>
  The operations of \<^verbatim>\<open>StateMachine\<close>. Each method is a program over the state of
  \<open>Helper_State\<close>; a long handler is cut at the lines where its comments cut it. Deferred commands are
  drained by a loop whose handlers do not defer again, which is why it ends.
\<close>

section \<open>Ports\<close>

definition now :: "helper_env \<Rightarrow> time_point hp" where
  "now e = ask (he_now e)"

definition cancel_operations :: "unit hp" where
  "cancel_operations = modify (\<lambda>s. s\<lparr>hm_generation := hm_generation s + 1\<rparr>)"

definition emit :: "reply \<Rightarrow> unit hp" where
  "emit r = modify (\<lambda>s. s\<lparr>hm_out := hm_out s @ [r]\<rparr>)"

definition arm_heartbeat :: "helper_env \<Rightarrow> unit hp" where
  "arm_heartbeat e = do { t \<leftarrow> now e; modify (\<lambda>s. s\<lparr>hm_heartbeat := heartbeat_arm t (hm_heartbeat s)\<rparr>) }"

definition disarm_heartbeat :: "unit hp" where
  "disarm_heartbeat = modify (\<lambda>s. s\<lparr>hm_heartbeat := heartbeat_disarm (hm_heartbeat s)\<rparr>)"

definition create_restore_task :: "helper_env \<Rightarrow> bool hp" where
  "create_restore_task e = do { ok \<leftarrow> ask (he_create_task e); emit (R_create_restore_task ok); return ok }"

definition delete_restore_task :: "unit hp" where
  "delete_restore_task = emit R_delete_restore_task"

definition clear_pending_hdr_blank :: "unit hp" where
  "clear_pending_hdr_blank = emit R_clear_hdr_blank"

definition is_stale :: "nat \<Rightarrow> bool hp" where
  "is_stale generation = gets (\<lambda>s. generation \<noteq> hm_generation s)"

definition is_stale_connection :: "helper_env \<Rightarrow> nat \<Rightarrow> bool hp" where
  "is_stale_connection e connection_epoch =
     (if connection_epoch = 0 then return False else do { c \<leftarrow> ask (he_epoch e); return (connection_epoch \<noteq> c) })"

text \<open>The exit callback that \<^verbatim>\<open>main\<close> installs.\<close>

definition exit_callback :: "helper_env \<Rightarrow> int \<Rightarrow> unit hp" where
  "exit_callback e code = do {
     current \<leftarrow> ask (he_epoch e);
     s \<leftarrow> gets id;
     if code = 0 \<and> hm_restore_origin_epoch s \<noteq> 0 \<and> current > hm_restore_origin_epoch s \<and> hm_client_connected s
     then modify (\<lambda>s. s\<lparr>hm_restore_origin_epoch := 0\<rparr>)
     else do { emit (R_exit code); cancel_operations; modify (\<lambda>s. s\<lparr>hm_running := False\<rparr>) } }"

section \<open>Dispatching\<close>

definition push_task :: "(nat \<Rightarrow> job) \<Rightarrow> nat hp" where
  "push_task job = do {
     g \<leftarrow> gets hm_generation;
     modify (\<lambda>s. s\<lparr>hm_tasks := hm_tasks s @ [job g]\<rparr>);
     return g }"

text \<open>Dispatch a display mutation and raise the fence for it.\<close>

definition launch :: "worker_kind \<Rightarrow> (nat \<Rightarrow> job) \<Rightarrow> nat hp" where
  "launch k job = do {
     g \<leftarrow> push_task job;
     modify (\<lambda>s. s\<lparr>hm_worker := Some (k, g)\<rparr>);
     return g }"

definition dispatch_apply_worker :: "apply_request \<Rightarrow> bool \<Rightarrow> unit hp" where
  "dispatch_apply_worker request reset_virtual_display = do {
     launch Wk_apply (\<lambda>g. J_apply g request reset_virtual_display);
     return () }"

definition dispatch_verification ::
  "apply_request \<Rightarrow> topology option \<Rightarrow> resolved_target option \<Rightarrow> int \<Rightarrow> verification_purpose \<Rightarrow> unit hp" where
  "dispatch_verification request expected resolved delay purpose =
     (if delay > 0
      then modify (\<lambda>s. s\<lparr>hm_timers := hm_timers s @ [(delay, J_verify (hm_generation s) request expected resolved purpose)]\<rparr>)
      else do { push_task (\<lambda>g. J_verify g request expected resolved purpose); return () })"

definition dispatch_reset_staged_apply_state :: "unit hp" where
  "dispatch_reset_staged_apply_state = do { push_task J_reset; return () }"

definition begin_staged_state_reset :: "unit hp" where
  "begin_staged_state_reset = do {
     pending \<leftarrow> gets hm_reset_pending;
     if pending then return ()
     else do { modify (\<lambda>s. s\<lparr>hm_reset_pending := True\<rparr>); dispatch_reset_staged_apply_state } }"

section \<open>Queries on the state\<close>

definition is_exclusive_request :: "apply_request \<Rightarrow> bool" where
  "is_exclusive_request r \<longleftrightarrow> (case aq_virtual_layout r of None \<Rightarrow> False | Some l \<Rightarrow> iequals l ''exclusive'')"

definition is_exclusive_singleton :: "topology \<Rightarrow> string \<Rightarrow> bool" where
  "is_exclusive_singleton t i \<longleftrightarrow> (case t of [[d]] \<Rightarrow> iequals d i | _ \<Rightarrow> False)"

definition ensure_exclusive_topology :: "apply_request \<Rightarrow> bool \<times> apply_request" where
  "ensure_exclusive_topology r =
     (if \<not> is_exclusive_request r then (True, r)
      else case aq_configuration r of
          None \<Rightarrow> (False, r)
        | Some c \<Rightarrow>
            if cf_device_id c = [] then (False, r)
            else if (case aq_topology r of None \<Rightarrow> False | Some t \<Rightarrow> t \<noteq> [] \<and> \<not> is_exclusive_singleton t (cf_device_id c)) then (False, r)
            else (True, r\<lparr>aq_topology := Some [[cf_device_id c]]\<rparr>))"

definition reset_exclusive_rollback_snapshot :: "apply_request \<Rightarrow> bool \<Rightarrow> apply_request" where
  "reset_exclusive_rollback_snapshot r verified =
     (if verified \<and> is_exclusive_request r then r\<lparr>aq_exclusive_pre_apply_topology := None\<rparr> else r)"

definition mutation_worker_active :: "helper \<Rightarrow> bool" where
  "mutation_worker_active s \<longleftrightarrow> hm_worker s \<noteq> None"

definition owns_active_worker :: "worker_kind \<Rightarrow> nat \<Rightarrow> helper \<Rightarrow> bool" where
  "owns_active_worker k generation s \<longleftrightarrow> hm_worker s = Some (k, generation)"

definition restore_pending :: "helper \<Rightarrow> bool" where
  "restore_pending s \<longleftrightarrow> hm_state s \<in> {Recovery, RecoveryValidation, EventLoop}"

definition recovery_worker_in_progress :: "helper \<Rightarrow> bool" where
  "recovery_worker_in_progress s \<longleftrightarrow> hm_state s \<in> {Recovery, RecoveryValidation}"

definition apply_in_flight :: "helper \<Rightarrow> bool" where
  "apply_in_flight s \<longleftrightarrow> mutation_worker_active s \<or> hm_state s \<in> {InProgress, Verification}"

definition requires_disconnect_recovery :: "helper \<Rightarrow> bool" where
  "requires_disconnect_recovery s \<longleftrightarrow> hm_recovery_armed s \<or> hm_display_changes_pending_recovery s \<or> apply_in_flight s \<or> restore_pending s"

definition refresh_targets_active_request :: "string \<Rightarrow> helper \<Rightarrow> bool" where
  "refresh_targets_active_request device_id s \<longleftrightarrow> (case aq_configuration (hm_current_request s) of
     None \<Rightarrow> False
   | Some c \<Rightarrow> iequals (cf_device_id c) device_id \<or>
       (cf_device_id c = [] \<and> (case hm_resolved_target s of None \<Rightarrow> False
          | Some t \<Rightarrow> list_ex (\<lambda>d. iequals d device_id) (tg_duplicate_device_ids t))))"

definition exclusions_vector :: "helper \<Rightarrow> string list" where
  "exclusions_vector s = hm_blacklist s"

section \<open>Small operations\<close>

definition transition :: "machine_state \<Rightarrow> unit hp" where
  "transition to_state = modify (\<lambda>s. s\<lparr>hm_state := to_state\<rparr>)"

text \<open>The set of excluded ids is kept in order.\<close>

definition update_blacklist :: "string list \<Rightarrow> unit hp" where
  "update_blacklist exclude_devices =
     (let ids = sorted_list_of_set (set (filter (\<lambda>i. i \<noteq> []) exclude_devices)) in
      modify (\<lambda>s. s\<lparr>hm_blacklist := ids, hm_restore_state := (hm_restore_state s)\<lparr>re_exclusions := ids\<rparr>\<rparr>))"

definition supersede :: "unit hp" where
  "supersede = modify (\<lambda>s. s\<lparr>hm_status := status_supersede (hm_status s)\<rparr>)"

definition observe_recovery_event :: "unit hp" where
  "observe_recovery_event = modify (\<lambda>s. s\<lparr>hm_status := observe_event (hm_status s)\<rparr>)"

definition reset_transient_disconnect_settlement :: "unit hp" where
  "reset_transient_disconnect_settlement = modify (\<lambda>s. s\<lparr>hm_settlement := no_settlement\<rparr>)"

definition update_settlement :: "(settlement \<Rightarrow> settlement) \<Rightarrow> unit hp" where
  "update_settlement f = modify (\<lambda>s. s\<lparr>hm_settlement := f (hm_settlement s)\<rparr>)"

definition reset_apply_verification_state :: "unit hp" where
  "reset_apply_verification_state = modify (\<lambda>s. s\<lparr>hm_verification_reapply_available := False\<rparr>)"

text \<open>The five members every end of a session resets together.\<close>

definition forget_baseline_repair :: "unit hp" where
  "forget_baseline_repair = modify (\<lambda>s. s\<lparr>hm_baseline_repair_available := False, hm_baseline_repair_in_flight := False,
     hm_observed := ({}, {}), hm_expected_topology := None\<rparr>)"

definition start_recovery :: "helper_env \<Rightarrow> int \<Rightarrow> unit hp" where
  "start_recovery e delay = do {
     clear_pending_hdr_blank;
     modify (\<lambda>s. s\<lparr>hm_recovery_reset_succeeded := None, hm_deferred_display_event := None\<rparr>);
     s \<leftarrow> gets id;
     present \<leftarrow> present_physical_restore_baseline_devices e (re_always_restore_from_golden (hm_restore_state s)) (exclusions_vector s);
     modify (\<lambda>s. s\<lparr>hm_baseline_present := present\<rparr>);
     transition Recovery;
     g \<leftarrow> launch Wk_recovery (\<lambda>g. J_recovery g delay);
     modify (\<lambda>s. s\<lparr>hm_status := (if sp_ticket (hm_status s) \<noteq> 0 then status_restart g (sp_epoch (hm_status s)) (hm_status s) else hm_status s)\<rparr>) }"

definition clear_recovery_state :: "bool \<Rightarrow> unit hp" where
  "clear_recovery_state delete_task = do {
     supersede;
     modify (\<lambda>s. s\<lparr>hm_scheduler := scheduler_disarm (hm_scheduler s), hm_restore_state := reset_request_progress (hm_restore_state s),
       hm_recovery_armed := False, hm_display_changes_pending_recovery := False, hm_explicit_recovery_required := False,
       hm_last_apply_started := None\<rparr>);
     reset_transient_disconnect_settlement;
     disarm_heartbeat;
     modify (\<lambda>s. s\<lparr>hm_recovery_snapshot := None, hm_feedback_quiet_until := None, hm_deferred_display_event := None,
       hm_baseline_present := None, hm_identity_discoveries := 0, hm_identity_repairs := 0\<rparr>);
     forget_baseline_repair;
     when_do delete_task (do { delete_restore_task; modify (\<lambda>s. s\<lparr>hm_restore_task_created := False\<rparr>) }) }"

definition apply_recovery_policy_from_current_request :: "unit hp" where
  "apply_recovery_policy_from_current_request = modify (\<lambda>s.
     s\<lparr>hm_restore_state := (hm_restore_state s)\<lparr>re_always_restore_from_golden := aq_prefer_golden_first (hm_current_request s),
         re_restore_on_disconnect := aq_restore_on_disconnect (hm_current_request s)\<rparr>,
       ld_prefer_golden_first := aq_prefer_golden_first (hm_current_request s)\<rparr>)"

definition activate_recovery_lease :: "unit hp" where
  "activate_recovery_lease = do {
     modify (\<lambda>s. s\<lparr>hm_recovery_armed := True, hm_display_changes_pending_recovery := True\<rparr>);
     apply_recovery_policy_from_current_request }"

definition send_apply_result :: "apply_status \<Rightarrow> unit hp" where
  "send_apply_result st = do {
     s \<leftarrow> gets id;
     if hm_apply_result_sent s then return ()
     else do {
       modify (\<lambda>s. s\<lparr>hm_apply_result_sent := True\<rparr>);
       emit (R_apply st (hm_connection_epoch s) (aq_request_id (hm_current_request s))) } }"

definition send_verification_result :: "bool \<Rightarrow> unit hp" where
  "send_verification_result ok = do {
     s \<leftarrow> gets id;
     if hm_verification_result_sent s then return ()
     else do {
       modify (\<lambda>s. s\<lparr>hm_verification_result_sent := True\<rparr>);
       emit (R_verification ok (hm_connection_epoch s) (aq_request_id (hm_current_request s))) } }"

definition enter_steady_state :: "helper_env \<Rightarrow> unit hp" where
  "enter_steady_state e = do {
     s \<leftarrow> gets id;
     if aq_virtual_layout (hm_current_request s) \<noteq> None
     then do {
       (case aq_configuration (hm_current_request s) of
          Some c \<Rightarrow> when_do (hm_baseline_repair_available s) (do {
            (t, obs) \<leftarrow> topology_with_returned_baseline_devices e (cf_device_id c) (exclusions_vector s) (hm_observed s);
            modify (\<lambda>s. s\<lparr>hm_observed := obs\<rparr>) })
        | None \<Rightarrow> return ());
       transition VirtualDisplayMonitoring }
     else transition Waiting }"

section \<open>Settling a recent disconnect\<close>

definition defer_transient_disconnect_settlement_for_staged_reset :: "unit hp" where
  "defer_transient_disconnect_settlement_for_staged_reset = do {
     d \<leftarrow> gets hm_settlement;
     if \<not> td_settlement_requested d then return ()
     else do {
       when_do (td_check_pending d) (do {
         cancel_operations;
         update_settlement (\<lambda>d. d\<lparr>td_check_pending := False\<rparr>);
         (if td_final_check_pending d then update_settlement (\<lambda>d. d\<lparr>td_deferred_final_check := True\<rparr>)
          else when_do (td_next_check d > 0) (update_settlement (\<lambda>d. d\<lparr>td_next_check := td_next_check d - 1\<rparr>))) });
       update_settlement (\<lambda>d. d\<lparr>td_deferred_by_staged_reset := True, td_final_check_pending := False\<rparr>) } }"

definition prepare_transient_disconnect_settlement :: "unit hp" where
  "prepare_transient_disconnect_settlement = do {
     s \<leftarrow> gets id;
     when_do (hm_session_was_verified s \<and> hm_state s = Verification) cancel_operations;
     reset_apply_verification_state }"

text \<open>After an exclusive rollback only the restored topology is checked, not the retired configuration.\<close>

definition transient_disconnect_verification_request :: "helper \<Rightarrow> apply_request" where
  "transient_disconnect_verification_request s =
     (let r = hm_current_request s in
      if td_rollback_verification (hm_settlement s)
      then r\<lparr>aq_configuration := None, aq_virtual_layout := None, aq_settings_only_repair := False, aq_repair_target := None,
             aq_exclusive_pre_apply_topology := None, aq_exclusive_topology_rollback_only := False\<rparr>
      else r)"

definition settlement_topology :: "helper \<Rightarrow> topology option" where
  "settlement_topology s = (case td_topology (hm_settlement s) of None \<Rightarrow> aq_topology (hm_current_request s) | Some t \<Rightarrow> Some t)"

definition settlement_target :: "helper \<Rightarrow> resolved_target option" where
  "settlement_target s = (if td_rollback_verification (hm_settlement s) then None else hm_resolved_target s)"

definition dispatch_transient_disconnect_final_verification :: "unit hp" where
  "dispatch_transient_disconnect_final_verification = do {
     update_settlement (\<lambda>d. d\<lparr>td_check_pending := True, td_final_check_pending := True\<rparr>);
     transition Verification;
     s \<leftarrow> gets id;
     dispatch_verification (transient_disconnect_verification_request s) (settlement_topology s) (settlement_target s) 0 TransientDisconnectFinal }"

definition kDelays :: "int list" where
  "kDelays = [milliseconds 250, milliseconds 750]"

definition dispatch_next_transient_disconnect_verification :: "bool hp" where
  "dispatch_next_transient_disconnect_verification = do {
     s \<leftarrow> gets id;
     let d = hm_settlement s;
     let r = hm_current_request s;
     if hm_reset_pending s \<and> td_settlement_requested d
     then do { update_settlement (\<lambda>d. d\<lparr>td_deferred_by_staged_reset := True\<rparr>); return True }
     else if td_check_pending d then return True
     else if \<not> td_settlement_requested d \<or> aq_configuration r = None
     then do { reset_transient_disconnect_settlement; return False }
     else if td_next_check d \<ge> length kDelays
     then (if (case td_topology d of None \<Rightarrow> False | Some t \<Rightarrow> t \<noteq> []) \<and> (td_rollback_verification d \<or> is_exclusive_request r)
           then do { dispatch_transient_disconnect_final_verification; return True }
           else do { reset_transient_disconnect_settlement; return False })
     else do {
       update_settlement (\<lambda>d. d\<lparr>td_next_check := td_next_check d + 1, td_check_pending := True\<rparr>);
       transition Verification;
       dispatch_verification (transient_disconnect_verification_request s)
         (if is_exclusive_request r \<or> td_rollback_verification d then settlement_topology s else None)
         (settlement_target s) (kDelays ! td_next_check d) TransientDisconnect;
       return True } }"

definition resume_transient_disconnect_settlement_after_staged_reset :: "unit hp" where
  "resume_transient_disconnect_settlement_after_staged_reset = do {
     s \<leftarrow> gets id;
     if \<not> td_deferred_by_staged_reset (hm_settlement s) \<or> hm_reset_pending s then return ()
     else do {
       update_settlement (\<lambda>d. d\<lparr>td_deferred_by_staged_reset := False\<rparr>);
       if \<not> td_settlement_requested (hm_settlement s) \<or> mutation_worker_active s then return ()
       else if \<not> hm_session_was_verified s \<and> hm_state s = Verification then return ()
       else if td_deferred_final_check (hm_settlement s)
       then do {
         update_settlement (\<lambda>d. d\<lparr>td_deferred_final_check := False\<rparr>);
         dispatch_transient_disconnect_final_verification }
       else do {
         when_do (\<not> td_check_pending (hm_settlement s)) prepare_transient_disconnect_settlement;
         dispatch_next_transient_disconnect_verification;
         return () } } }"

definition should_defer_disconnect_recovery :: "helper_env \<Rightarrow> bool hp" where
  "should_defer_disconnect_recovery e = do {
     s \<leftarrow> gets id;
     (case hm_last_apply_started s of
        None \<Rightarrow> return False
      | Some started \<Rightarrow>
          if hm_explicit_recovery_required s \<or> \<not> re_restore_on_disconnect (hm_restore_state s) then return False
          else do { t \<leftarrow> now e; return (t - started \<ge> 0 \<and> t - started \<le> seconds 5) }) }"

definition begin_transient_disconnect_settlement :: "helper_env \<Rightarrow> bool hp" where
  "begin_transient_disconnect_settlement e = do {
     s \<leftarrow> gets id;
     if td_settlement_requested (hm_settlement s) then return True
     else do {
       recent \<leftarrow> should_defer_disconnect_recovery e;
       if \<not> recent \<or> aq_configuration (hm_current_request s) = None then return False
       else do {
         update_settlement (\<lambda>d. d\<lparr>td_settlement_requested := True,
           td_topology := (case aq_topology (hm_current_request s) of
             Some t \<Rightarrow> if is_exclusive_request (hm_current_request s) \<and> t \<noteq> [] then Some t else td_topology d
           | None \<Rightarrow> td_topology d)\<rparr>);
         when_do (\<not> mutation_worker_active s) prepare_transient_disconnect_settlement;
         if hm_reset_pending s
         then do { defer_transient_disconnect_settlement_for_staged_reset; return True }
         else if mutation_worker_active s \<or> (\<not> hm_session_was_verified s \<and> hm_state s = Verification) then return True
         else dispatch_next_transient_disconnect_verification } } }"

section \<open>Repairs\<close>

definition dispatch_settings_only_repair :: "unit hp" where
  "dispatch_settings_only_repair = do {
     s \<leftarrow> gets id;
     dispatch_apply_worker ((hm_current_request s)\<lparr>aq_settings_only_repair := True, aq_repair_target := hm_resolved_target s\<rparr>) False }"

definition dispatch_next_verification_reapply :: "bool hp" where
  "dispatch_next_verification_reapply = do {
     available \<leftarrow> gets hm_verification_reapply_available;
     if \<not> available then return False
     else do {
       modify (\<lambda>s. s\<lparr>hm_verification_reapply_available := False\<rparr>);
       transition InProgress;
       dispatch_settings_only_repair;
       return True } }"

definition dispatch_transient_disconnect_repair :: "unit hp" where
  "dispatch_transient_disconnect_repair = do {
     cancel_operations;
     update_settlement (\<lambda>d. d\<lparr>td_check_pending := False, td_repair_in_flight := True\<rparr>);
     transition InProgress;
     dispatch_settings_only_repair }"

definition dispatch_exclusive_topology_rollback :: "unit hp" where
  "dispatch_exclusive_topology_rollback = do {
     r \<leftarrow> gets hm_current_request;
     if \<not> is_exclusive_request r \<or> (case aq_exclusive_pre_apply_topology r of None \<Rightarrow> True | Some t \<Rightarrow> t = []) then return ()
     else do {
       transition InProgress;
       dispatch_apply_worker (r\<lparr>aq_settings_only_repair := False, aq_exclusive_topology_rollback_only := True\<rparr>) False } }"

definition retarget :: "string \<Rightarrow> apply_request \<Rightarrow> apply_request" where
  "retarget resolved r =
     (case (aq_virtual_layout r, aq_configuration r) of
        (Some _, Some c) \<Rightarrow>
          let previous = cf_device_id c; swap = (\<lambda>i. if previous \<noteq> [] \<and> iequals i previous then resolved else i) in
          if resolved = [] then r
          else if previous \<noteq> [] \<and> iequals previous resolved then r
          else r\<lparr>aq_configuration := Some (c\<lparr>cf_device_id := resolved\<rparr>),
                 aq_topology := map_option (map (map swap)) (aq_topology r),
                 aq_monitor_positions := map (\<lambda>(i, p). (swap i, p)) (aq_monitor_positions r)\<rparr>
      | _ \<Rightarrow> r)"

definition retarget_virtual_display_device_id_if_needed :: "string \<Rightarrow> unit hp" where
  "retarget_virtual_display_device_id_if_needed resolved =
     modify (\<lambda>s. s\<lparr>hm_current_request := retarget resolved (hm_current_request s)\<rparr>)"

definition consume_virtual_identity_discovery :: "bool hp" where
  "consume_virtual_identity_discovery = do {
     n \<leftarrow> gets hm_identity_discoveries;
     if n = 0 then return False
     else do { modify (\<lambda>s. s\<lparr>hm_identity_discoveries := n - 1\<rparr>); return True } }"

definition consume_virtual_identity_repair :: "bool hp" where
  "consume_virtual_identity_repair = do {
     n \<leftarrow> gets hm_identity_repairs;
     if n = 0 then return False
     else do { modify (\<lambda>s. s\<lparr>hm_identity_repairs := n - 1\<rparr>); return True } }"

text \<open>What an admitted repair of the virtual identity does, in the four places that have it.\<close>

definition reapply_for_identity :: "string \<Rightarrow> unit hp" where
  "reapply_for_identity resolved = do {
     modify (\<lambda>s. s\<lparr>hm_current_request := reset_exclusive_rollback_snapshot (hm_current_request s) (hm_session_was_verified s)\<rparr>);
     retarget_virtual_display_device_id_if_needed resolved;
     modify (\<lambda>s. s\<lparr>hm_verification_reapply_available := True\<rparr>);
     transition InProgress;
     r \<leftarrow> gets hm_current_request;
     dispatch_apply_worker r False }"

section \<open>The queue behind the mutation fence\<close>

definition is_session_intent :: "deferred_command \<Rightarrow> bool" where
  "is_session_intent d = (case d of D_apply _ \<Rightarrow> True | D_revert _ \<Rightarrow> True | D_disarm _ \<Rightarrow> True | _ \<Rightarrow> False)"

definition is_repair :: "deferred_command \<Rightarrow> bool" where
  "is_repair d = (case d of D_repair _ _ \<Rightarrow> True | _ \<Rightarrow> False)"

definition is_reset :: "deferred_command \<Rightarrow> bool" where
  "is_reset d = (case d of D_reset _ \<Rightarrow> True | _ \<Rightarrow> False)"

definition enqueue_deferred :: "deferred_command \<Rightarrow> deferred_command list \<Rightarrow> deferred_command list" where
  "enqueue_deferred d q =
     (if is_repair d then (if list_ex is_session_intent q then q else filter (\<lambda>x. \<not> is_repair x) q @ [d])
      else if \<not> is_reset d then filter is_reset q @ [d]
      else q @ [d])"

definition enqueue_deferred_mutation_command :: "deferred_command \<Rightarrow> unit hp" where
  "enqueue_deferred_mutation_command d = modify (\<lambda>s. s\<lparr>hm_deferred := enqueue_deferred d (hm_deferred s)\<rparr>)"

definition queue_after_active_mutation :: "deferred_command \<Rightarrow> bool \<Rightarrow> unit hp" where
  "queue_after_active_mutation d cancel_active = do {
     when_do cancel_active cancel_operations;
     enqueue_deferred_mutation_command d }"

fun live_intent :: "helper_env \<Rightarrow> deferred_command list \<Rightarrow> bool hp" where
  "live_intent e [] = return False"
| "live_intent e (d # ds) = (case d of
     D_apply c \<Rightarrow> do { stale \<leftarrow> is_stale_connection e (cm_connection_epoch c); if \<not> stale then return True else live_intent e ds }
   | D_repair _ epoch \<Rightarrow> do { stale \<leftarrow> is_stale_connection e epoch; if \<not> stale then return True else live_intent e ds }
   | _ \<Rightarrow> live_intent e ds)"

definition has_deferred_apply_intent :: "helper_env \<Rightarrow> bool hp" where
  "has_deferred_apply_intent e = do { q \<leftarrow> gets hm_deferred; live_intent e q }"

section \<open>APPLY\<close>

definition reactivation_admitted :: "apply_command \<Rightarrow> nat \<Rightarrow> helper \<Rightarrow> bool" where
  "reactivation_admitted command of_request s \<longleftrightarrow>
     hm_state s = VirtualDisplayMonitoring \<and> hm_session_was_verified s \<and> hm_recovery_armed s \<and>
     \<not> hm_explicit_recovery_required s \<and> \<not> mutation_worker_active s \<and> \<not> hm_reset_pending s \<and> hm_deferred s = [] \<and>
     aq_virtual_layout (hm_current_request s) \<noteq> None \<and> aq_request_id (hm_current_request s) \<noteq> 0 \<and>
     of_request = aq_request_id (hm_current_request s) \<and> cm_connection_epoch command = hm_connection_epoch s \<and>
     (case (aq_configuration (hm_current_request s), aq_configuration (cm_request command)) of
        (Some cur, Some c) \<Rightarrow> cf_device_id c \<noteq> [] \<and> iequals (cf_device_id c) (cf_device_id cur)
      | _ \<Rightarrow> False)"

definition reactivate :: "apply_command \<Rightarrow> nat \<Rightarrow> unit hp" where
  "reactivate command of_request = do {
     s \<leftarrow> gets id;
     if \<not> reactivation_admitted command of_request s
     then emit (R_apply Retryable (cm_connection_epoch command) (aq_request_id (cm_request command)))
     else do {
       modify (\<lambda>s. s\<lparr>hm_reactivation := Some command\<rparr>);
       dispatch_apply_worker ((hm_current_request s)\<lparr>aq_reactivation_only := True, aq_deadline := aq_deadline (cm_request command)\<rparr>) False } }"

text \<open>Lines 1228-1262: the new transaction takes over.\<close>

definition adopt_request :: "helper_env \<Rightarrow> apply_command \<Rightarrow> unit hp" where
  "adopt_request e command = do {
     modify (\<lambda>s. s\<lparr>hm_deferred_completion := None, hm_identity_discoveries := 2, hm_identity_repairs := 2,
       hm_lease_before_apply := (hm_recovery_armed s \<or> hm_display_changes_pending_recovery s)\<rparr>);
     cancel_operations;
     modify (\<lambda>s. s\<lparr>hm_scheduler := scheduler_disarm (hm_scheduler s), hm_restore_state := reset_request_progress (hm_restore_state s)\<rparr>);
     arm_heartbeat e;
     modify (\<lambda>s. s\<lparr>hm_virtual_hdr_fallback_attempted := False, hm_apply_result_sent := False, hm_verification_result_sent := False,
       hm_session_was_verified := False, hm_current_request := cm_request command, hm_connection_epoch := cm_connection_epoch command,
       hm_resolved_target := None\<rparr>);
     reset_apply_verification_state;
     forget_baseline_repair;
     (case aq_snapshot_exclusions (cm_request command) of None \<Rightarrow> return () | Some xs \<Rightarrow> update_blacklist xs) }"

definition reject_request :: "unit hp" where
  "reject_request = do { send_apply_result InvalidRequest; transition Waiting }"

text \<open>Lines 1278-1309: what an accepted request starts with.\<close>

definition start_request :: "helper_env \<Rightarrow> unit hp" where
  "start_request e = do {
     modify (\<lambda>s. s\<lparr>hm_baseline_repair_available := (case aq_virtual_layout (hm_current_request s) of
        None \<Rightarrow> False | Some l \<Rightarrow> \<not> iequals l ''exclusive'')\<rparr>);
     t \<leftarrow> now e;
     modify (\<lambda>s. s\<lparr>hm_last_apply_started := Some t\<rparr>);
     apply_recovery_policy_from_current_request;
     modify (\<lambda>s. s\<lparr>hm_verification_reapply_available := True\<rparr>);
     baseline \<leftarrow> tier_exists Tier_current;
     when_do (\<not> baseline) (do {
       xs \<leftarrow> gets exclusions_vector;
       capture_filtered_and_save e Tier_current xs;
       return () });
     transition InProgress;
     r \<leftarrow> gets hm_current_request;
     dispatch_apply_worker r False }"

definition begin_apply :: "helper_env \<Rightarrow> apply_command \<Rightarrow> unit hp" where
  "begin_apply e command = do {
     adopt_request e command;
     r \<leftarrow> gets hm_current_request;
     if aq_configuration r = None then reject_request
     else (case ensure_exclusive_topology r of
         (False, _) \<Rightarrow> reject_request
       | (True, r') \<Rightarrow> do { modify (\<lambda>s. s\<lparr>hm_current_request := r'\<rparr>); start_request e }) }"

definition handle_apply_command :: "helper_env \<Rightarrow> apply_command \<Rightarrow> unit hp" where
  "handle_apply_command e command = do {
     stale \<leftarrow> is_stale_connection e (cm_connection_epoch command);
     if stale then return ()
     else (case aq_reactivation_of (cm_request command) of
         Some of_request \<Rightarrow> reactivate command of_request
       | None \<Rightarrow> do {
           supersede;
           clear_pending_hdr_blank;
           modify (\<lambda>s. s\<lparr>hm_deferred_display_event := None, hm_baseline_present := None, hm_explicit_recovery_required := False\<rparr>);
           reset_transient_disconnect_settlement;
           s \<leftarrow> gets id;
           if mutation_worker_active s then queue_after_active_mutation (D_apply command) False
           else if hm_reset_pending s then enqueue_deferred_mutation_command (D_apply command)
           else begin_apply e command }) }"

definition handle_virtual_display_repair_intent :: "helper_env \<Rightarrow> string \<Rightarrow> nat \<Rightarrow> unit hp" where
  "handle_virtual_display_repair_intent e event_id connection_epoch = do {
     stale \<leftarrow> is_stale_connection e connection_epoch;
     s \<leftarrow> gets id;
     if stale then return ()
     else (case aq_configuration (hm_current_request s) of
         None \<Rightarrow> return ()
       | Some c \<Rightarrow>
           if aq_virtual_layout (hm_current_request s) = None then return ()
           else if hm_identity_repairs s = 0 then return ()
           else do {
             resolved \<leftarrow> ask (he_device_id e);
             if resolved = [] then return ()
             else if iequals (cf_device_id c) resolved then return ()
             else do {
               admitted \<leftarrow> consume_virtual_identity_repair;
               if \<not> admitted then return ()
               else do {
                 modify (\<lambda>s. s\<lparr>hm_deferred_completion := None\<rparr>);
                 reapply_for_identity resolved } } }) }"

section \<open>REVERT, DISARM and RESET\<close>

text \<open>Lines 1432-1452: the restore itself.\<close>

definition begin_revert :: "helper_env \<Rightarrow> revert_command \<Rightarrow> unit hp" where
  "begin_revert e command = do {
     modify (\<lambda>s. s\<lparr>hm_restore_state := (hm_restore_state s)\<lparr>
         re_prefer_golden_if_current_missing := rv_prefer_golden_if_current_missing command,
         re_always_restore_from_golden := (case rv_always_restore_from_golden command of
            None \<Rightarrow> re_always_restore_from_golden (hm_restore_state s) | Some b \<Rightarrow> b)\<rparr>,
       hm_golden := reset_request_tracking (hm_golden s)\<rparr>);
     cancel_operations;
     modify (\<lambda>s. s\<lparr>hm_recovery_armed := True, hm_display_changes_pending_recovery := True\<rparr>);
     disarm_heartbeat;
     reset_apply_verification_state;
     let grace = (if rv_immediate command then 0 else milliseconds 5000);
     t \<leftarrow> now e;
     modify (\<lambda>s. s\<lparr>hm_scheduler := arm_primary t grace (hm_scheduler s)\<rparr>);
     start_recovery e grace }"

definition abandon_session :: "unit hp" where
  "abandon_session = do {
     cancel_operations;
     clear_recovery_state True;
     reset_apply_verification_state;
     transition Waiting }"

text \<open>Lines 1394-1427: the policy for a lost host, and nothing to restore from.\<close>

definition revert_now :: "helper_env \<Rightarrow> revert_command \<Rightarrow> unit hp" where
  "revert_now e command = do {
     modify (\<lambda>s. s\<lparr>hm_deferred_completion := None\<rparr>);
     forget_baseline_repair;
     s \<leftarrow> gets id;
     if rv_from_disconnect command \<and> \<not> hm_explicit_recovery_required s \<and>
        \<not> re_restore_on_disconnect (hm_restore_state s) \<and> \<not> recovery_worker_in_progress s
     then abandon_session
     else do {
       current \<leftarrow> tier_exists Tier_current;
       previous \<leftarrow> tier_exists Tier_previous;
       golden \<leftarrow> tier_exists Tier_golden;
       if \<not> current \<and> \<not> previous \<and> \<not> golden
       then do { cancel_operations; clear_recovery_state True; exit_callback e 0 }
       else begin_revert e command } }"

definition ticket_status :: "revert_command \<Rightarrow> nat \<Rightarrow> status_policy \<Rightarrow> status_policy" where
  "ticket_status command generation p =
     (if rv_restore_ticket command \<noteq> 0 \<and> sp_ticket p = rv_restore_ticket command \<and> sp_epoch p = rv_connection_epoch command
      then status_restart generation (rv_connection_epoch command) p
      else status_begin (rv_restore_ticket command) generation (rv_connection_epoch command) p)"

definition begin_ticket :: "revert_command \<Rightarrow> unit hp" where
  "begin_ticket command = modify (\<lambda>s. s\<lparr>hm_status := ticket_status command (hm_generation s) (hm_status s)\<rparr>)"

definition handle_revert_command :: "helper_env \<Rightarrow> revert_command \<Rightarrow> unit hp" where
  "handle_revert_command e command = do {
     stale \<leftarrow> is_stale_connection e (rv_connection_epoch command);
     if stale then return ()
     else do {
       begin_ticket command;
       clear_pending_hdr_blank;
       when_do (\<not> rv_from_disconnect command) (do {
         modify (\<lambda>s. s\<lparr>hm_explicit_recovery_required := True\<rparr>);
         reset_transient_disconnect_settlement });
       s \<leftarrow> gets id;
       if rv_from_disconnect command \<and> recovery_worker_in_progress s then return ()
       else if mutation_worker_active s then queue_after_active_mutation (D_revert command) True
       else if hm_reset_pending s then enqueue_deferred_mutation_command (D_revert command)
       else revert_now e command } }"

text \<open>Lines 1487-1512.\<close>

definition disarm_now :: "unit hp" where
  "disarm_now = do {
     modify (\<lambda>s. s\<lparr>hm_deferred_completion := None\<rparr>);
     forget_baseline_repair;
     cancel_operations;
     unconfirmed \<leftarrow> gets hm_unconfirmed_mutation;
     when_do (\<not> unconfirmed) (clear_recovery_state True);
     modify (\<lambda>s. s\<lparr>hm_apply_result_sent := False, hm_verification_result_sent := False, hm_session_was_verified := False,
       hm_last_apply_started := None,
       hm_restore_task_created := (if unconfirmed then hm_restore_task_created s else False), hm_resolved_target := None\<rparr>);
     reset_apply_verification_state;
     transition Waiting }"

definition handle_disarm_command :: "helper_env \<Rightarrow> disarm_command \<Rightarrow> unit hp" where
  "handle_disarm_command e command = do {
     stale \<leftarrow> is_stale_connection e (di_connection_epoch command);
     if stale then return ()
     else do {
       supersede;
       clear_pending_hdr_blank;
       s \<leftarrow> gets id;
       if \<not> di_force command \<and> restore_pending s \<and> re_restore_attempted_unconfirmed (hm_restore_state s) then return ()
       else do {
         modify (\<lambda>s. s\<lparr>hm_explicit_recovery_required := False\<rparr>);
         reset_transient_disconnect_settlement;
         if hm_reset_pending s then enqueue_deferred_mutation_command (D_disarm command)
         else if mutation_worker_active s
         then do {
           modify (\<lambda>s. s\<lparr>hm_scheduler := scheduler_disarm (hm_scheduler s)\<rparr>);
           queue_after_active_mutation (D_disarm command) True }
         else disarm_now } } }"

definition reset_now :: "unit hp" where
  "reset_now = do { defer_transient_disconnect_settlement_for_staged_reset; begin_staged_state_reset }"

definition handle_reset_command :: "helper_env \<Rightarrow> nat \<Rightarrow> unit hp" where
  "handle_reset_command e connection_epoch = do {
     stale \<leftarrow> is_stale_connection e connection_epoch;
     if stale then return ()
     else do {
       supersede;
       s \<leftarrow> gets id;
       if hm_reset_pending s then enqueue_deferred_mutation_command (D_reset connection_epoch)
       else if mutation_worker_active s then queue_after_active_mutation (D_reset connection_epoch) False
       else reset_now } }"

section \<open>Draining the queue\<close>

definition handle_deferred :: "helper_env \<Rightarrow> deferred_command \<Rightarrow> unit hp" where
  "handle_deferred e d = (case d of
     D_apply c \<Rightarrow> handle_apply_command e c
   | D_repair i epoch \<Rightarrow> handle_virtual_display_repair_intent e i epoch
   | D_revert c \<Rightarrow> handle_revert_command e c
   | D_disarm c \<Rightarrow> handle_disarm_command e c
   | D_reset epoch \<Rightarrow> handle_reset_command e epoch)"

section \<open>Leaf programs\<close>

lemmas leaf_defs [wp_defs] = now_def emit_def arm_heartbeat_def disarm_heartbeat_def create_restore_task_def
  delete_restore_task_def clear_pending_hdr_blank_def is_stale_def transition_def supersede_def observe_recovery_event_def
  reset_transient_disconnect_settlement_def update_settlement_def reset_apply_verification_state_def forget_baseline_repair_def
  apply_recovery_policy_from_current_request_def activate_recovery_lease_def enqueue_deferred_mutation_command_def update_blacklist_def
  retarget_virtual_display_device_id_if_needed_def tier_exists_def begin_ticket_def

lemma keeps_prod [keeps_rules]: "(\<And>a b. x = (a, b) \<Longrightarrow> keeps I (f a b)) \<Longrightarrow> keeps I (case x of (a, b) \<Rightarrow> f a b)"
  by (cases x) simp

lemma keeps_bool [keeps_rules]: "(b \<Longrightarrow> keeps I m) \<Longrightarrow> (\<not> b \<Longrightarrow> keeps I n) \<Longrightarrow> keeps I (case b of True \<Rightarrow> m | False \<Rightarrow> n)"
  by (cases b) simp_all

lemma keeps_let [keeps_rules]: "(\<And>x. x = y \<Longrightarrow> keeps I (f x)) \<Longrightarrow> keeps I (let x = y in f x)"
  by simp

lemma keeps_ask: "(\<And>s r. I s \<Longrightarrow> I (s\<lparr>po_reads := r\<rparr>)) \<Longrightarrow> keeps I (ask p)"
  by (simp add: keeps_def wp_rules)

lemma keeps_ledger:
  assumes "\<And>s r. I s \<Longrightarrow> I (s\<lparr>po_reads := r\<rparr>)" "\<And>s st. I s \<Longrightarrow> I (s\<lparr>ld_store := st\<rparr>)"
  shows "keeps I (capture_filtered_and_save e t xs)" "keeps I (refresh_current_preserving_previous e xs)"
    "keeps I (topology_with_returned_baseline_devices e v xs obs)" "keeps I (present_physical_restore_baseline_devices e g xs)"
  by (intro keepsI wp_capture_filtered_and_save wp_refresh_current wp_topology_with_returned wp_present_physical assms; assumption)+

lemma keeps_is_stale_connection: "(\<And>s r. I s \<Longrightarrow> I (s\<lparr>po_reads := r\<rparr>)) \<Longrightarrow> keeps I (is_stale_connection e c)"
  unfolding is_stale_connection_def by (intro keeps_rules keeps_ask)

text \<open>The programs that handle a command and do not queue it leave the queue alone.\<close>

lemma keeps_queue:
  fixes q :: "deferred_command list"
  defines "I \<equiv> \<lambda>s. hm_deferred s = q"
  shows "keeps I (begin_apply e c)" "keeps I (reapply_for_identity i)" "keeps I (revert_now e rc)" "keeps I disarm_now"
    "keeps I reset_now"
    "keeps I (reactivate c n)" "keeps I consume_virtual_identity_repair" "keeps I (is_stale_connection e k)" "keeps I (ask p)"
  unfolding I_def begin_apply_def adopt_request_def reject_request_def start_request_def send_apply_result_def revert_now_def
    begin_revert_def abandon_session_def start_recovery_def clear_recovery_state_def exit_callback_def disarm_now_def
    reset_now_def defer_transient_disconnect_settlement_for_staged_reset_def begin_staged_state_reset_def reactivate_def
    consume_virtual_identity_repair_def reapply_for_identity_def push_task_def launch_def dispatch_apply_worker_def
    dispatch_reset_staged_apply_state_def cancel_operations_def wp_defs
  by (intro keeps_rules keeps_modify keeps_ask keeps_ledger keeps_is_stale_connection; simp add: Let_def)+

text \<open>With the fence down, no handler queues its command again.\<close>

definition fence_down :: "helper \<Rightarrow> bool" where
  "fence_down s \<longleftrightarrow> \<not> mutation_worker_active s \<and> \<not> hm_reset_pending s"

lemma handle_apply_queue: "fence_down s \<Longrightarrow> wp (handle_apply_command e c) (\<lambda>_ t. hm_deferred t = hm_deferred s) s"
  unfolding handle_apply_command_def is_stale_connection_def fence_down_def mutation_worker_active_def
  by (simp add: wp_rules wp_defs keepsD[OF keeps_queue(1)] keepsD[OF keeps_queue(6)] split: option.split)

lemma handle_repair_queue: "wp (handle_virtual_display_repair_intent e i k) (\<lambda>_ t. hm_deferred t = hm_deferred s) s"
  unfolding handle_virtual_display_repair_intent_def is_stale_connection_def consume_virtual_identity_repair_def
  by (simp add: wp_rules wp_defs keepsD[OF keeps_queue(2)] split: option.split)

lemma handle_revert_queue: "fence_down s \<Longrightarrow> wp (handle_revert_command e c) (\<lambda>_ t. hm_deferred t = hm_deferred s) s"
  unfolding handle_revert_command_def is_stale_connection_def fence_down_def mutation_worker_active_def
  by (simp add: wp_rules wp_defs keepsD[OF keeps_queue(3)])

lemma handle_disarm_queue: "fence_down s \<Longrightarrow> wp (handle_disarm_command e c) (\<lambda>_ t. hm_deferred t = hm_deferred s) s"
  unfolding handle_disarm_command_def is_stale_connection_def fence_down_def mutation_worker_active_def
  by (simp add: wp_rules wp_defs keepsD[OF keeps_queue(4)])

lemma handle_reset_queue: "fence_down s \<Longrightarrow> wp (handle_reset_command e k) (\<lambda>_ t. hm_deferred t = hm_deferred s) s"
  unfolding handle_reset_command_def is_stale_connection_def fence_down_def mutation_worker_active_def
  by (simp add: wp_rules wp_defs keepsD[OF keeps_queue(5)])

lemma handle_deferred_queue:
  "fence_down s \<Longrightarrow> wp (handle_deferred e d) (\<lambda>_ t. hm_deferred t = hm_deferred s) s"
  unfolding handle_deferred_def
  by (cases d) (simp_all add: handle_apply_queue handle_repair_queue handle_revert_queue handle_disarm_queue handle_reset_queue)

function drain :: "helper_env \<Rightarrow> helper \<Rightarrow> helper" where
  "drain e s = (if \<not> mutation_worker_active s \<and> \<not> hm_reset_pending s
     then (case hm_deferred s of
         [] \<Rightarrow> s
       | d # q \<Rightarrow> drain e (exec (handle_deferred e d) (s\<lparr>hm_deferred := q\<rparr>)))
     else s)"
  by pat_completeness auto

termination drain
proof (relation "measure (\<lambda>(e, s). length (hm_deferred s))", goal_cases)
  case (2 e s d q)
  have "fence_down (s\<lparr>hm_deferred := q\<rparr>)" using 2(1) by (simp add: fence_down_def mutation_worker_active_def)
  then have "wp (handle_deferred e d) (\<lambda>_ t. hm_deferred t = q) (s\<lparr>hm_deferred := q\<rparr>)"
    using handle_deferred_queue[of "s\<lparr>hm_deferred := q\<rparr>" e d] by simp
  then have "hm_deferred (exec (handle_deferred e d) (s\<lparr>hm_deferred := q\<rparr>)) = q"
    by (simp add: wp_exec[where Q = "\<lambda>t. hm_deferred t = q"])
  with 2(2) show ?case by simp
qed simp

declare drain.simps [simp del]

definition drain_deferred_mutation_commands :: "helper_env \<Rightarrow> unit hp" where
  "drain_deferred_mutation_commands e = modify (drain e)"

section \<open>Commands that are never deferred\<close>

definition apply_exclusions :: "snapshot_payload \<Rightarrow> unit hp" where
  "apply_exclusions p = when_do (py_update_exclusions p \<or> py_exclude_devices p \<noteq> []) (update_blacklist (py_exclude_devices p))"

definition handle_export_golden :: "helper_env \<Rightarrow> snapshot_payload \<Rightarrow> nat \<Rightarrow> unit hp" where
  "handle_export_golden e p connection_epoch = do {
     stale \<leftarrow> is_stale_connection e connection_epoch;
     s \<leftarrow> gets id;
     if stale then return ()
     else if apply_in_flight s \<or> restore_pending s then return ()
     else do {
       apply_exclusions p;
       xs \<leftarrow> gets exclusions_vector;
       saved \<leftarrow> capture_filtered_and_save e Tier_golden xs;
       when_do saved (do {
         removed \<leftarrow> ask (he_marker_io e);
         modify (\<lambda>s. s\<lparr>hm_golden := clear_status removed (hm_golden s)\<rparr>) }) } }"

definition handle_snapshot_current :: "helper_env \<Rightarrow> snapshot_payload \<Rightarrow> nat \<Rightarrow> nat \<Rightarrow> unit hp" where
  "handle_snapshot_current e p connection_epoch request_id = do {
     stale \<leftarrow> is_stale_connection e connection_epoch;
     s \<leftarrow> gets id;
     if stale then return ()
     else if restore_pending s \<or> apply_in_flight s then emit (R_snapshot False connection_epoch request_id)
     else do {
       apply_exclusions p;
       xs \<leftarrow> gets exclusions_vector;
       saved \<leftarrow> refresh_current_preserving_previous e xs;
       emit (R_snapshot saved connection_epoch request_id) } }"

definition handle_refresh_rate_command :: "helper_env \<Rightarrow> refresh_rate_command \<Rightarrow> unit hp" where
  "handle_refresh_rate_command e command = do {
     stale \<leftarrow> is_stale_connection e (rf_connection_epoch command);
     s \<leftarrow> gets id;
     let refuse = emit (R_refresh_rate False (rf_connection_epoch command) (rf_request_id command));
     if stale then return ()
     else if rf_device_id command = [] \<or> rf_numerator command = 0 \<or> rf_denominator command = 0 then refuse
     else if aq_configuration (hm_current_request s) \<noteq> None \<and> \<not> refresh_targets_active_request (rf_device_id command) s then refuse
     else if apply_in_flight s \<or> restore_pending s then refuse
     else do {
       launch Wk_refresh_rate (\<lambda>g. J_refresh_rate g command);
       return () } }"

definition handle_ping_command :: "helper_env \<Rightarrow> nat \<Rightarrow> unit hp" where
  "handle_ping_command e connection_epoch = do {
     stale \<leftarrow> is_stale_connection e connection_epoch;
     if stale then return ()
     else do { t \<leftarrow> now e; modify (\<lambda>s. s\<lparr>hm_heartbeat := record_ping t (hm_heartbeat s)\<rparr>) } }"

definition handle_stop_command :: "helper_env \<Rightarrow> nat \<Rightarrow> unit hp" where
  "handle_stop_command e connection_epoch = do {
     stale \<leftarrow> is_stale_connection e connection_epoch;
     if stale then return () else exit_callback e 0 }"

definition operation_queued :: "helper \<Rightarrow> bool" where
  "operation_queued s \<longleftrightarrow> hm_reset_pending s \<or> hm_deferred s \<noteq> []"

text \<open>A query of the ticket by a command, asking to park a failed recovery or not.\<close>

definition query_ticket :: "recovery_status_command \<Rightarrow> nat \<Rightarrow> bool \<Rightarrow> recovery_status hp" where
  "query_ticket command current_epoch park = do {
     s \<leftarrow> gets id;
     let (result, p) = status_query (rq_ticket command) (rq_generation command) (rq_connection_epoch command)
        (hm_generation s) current_epoch (\<not> park \<and> mutation_worker_active s) (\<not> park \<and> operation_queued s) park (hm_status s);
     modify (\<lambda>s. s\<lparr>hm_status := p\<rparr>);
     return result }"

definition note_liveness :: "helper_env \<Rightarrow> recovery_status_command \<Rightarrow> unit hp" where
  "note_liveness e command = when_do (rq_ticket command \<noteq> 0) (do {
     stale \<leftarrow> is_stale_connection e (rq_connection_epoch command);
     when_do (\<not> stale) (do {
       t \<leftarrow> now e;
       modify (\<lambda>s. s\<lparr>hm_heartbeat := record_liveness_ping t (hm_heartbeat s)\<rparr>) }) })"

text \<open>A failed recovery is parked when asked to and when nothing runs or waits.\<close>

definition answer_query :: "recovery_status_command \<Rightarrow> nat \<Rightarrow> recovery_status \<Rightarrow> recovery_status hp" where
  "answer_query command current_epoch first = do {
     s \<leftarrow> gets id;
     if rq_park command \<and> first = RS_failed \<and> \<not> operation_queued s \<and> \<not> mutation_worker_active s \<and> hm_state s = EventLoop
     then do {
       result \<leftarrow> query_ticket command current_epoch True;
       parked \<leftarrow> gets (sp_parked \<circ> hm_status);
       when_do (result = RS_failed \<and> parked)
         (modify (\<lambda>s. s\<lparr>hm_scheduler := scheduler_disarm (hm_scheduler s), hm_deferred_display_event := None\<rparr>));
       return result }
     else return (if rq_park command \<and> first = RS_failed then RS_active else first) }"

definition handle_recovery_status_command :: "helper_env \<Rightarrow> recovery_status_command \<Rightarrow> unit hp" where
  "handle_recovery_status_command e command = do {
     current_epoch \<leftarrow> ask (he_epoch e);
     first \<leftarrow> query_ticket command current_epoch False;
     note_liveness e command;
     result \<leftarrow> answer_query command current_epoch first;
     s \<leftarrow> gets id;
     let p = hm_status s;
     emit (R_recovery_status (rq_ticket command) result (event_revision p)
       (rq_park command \<and> result = RS_failed \<and> sp_ticket p = rq_ticket command \<and> sp_generation p = hm_generation s \<and>
        sp_epoch p = current_epoch \<and> sp_parked p) (rq_connection_epoch command)) }"

definition notify_recovery_status :: "helper_env \<Rightarrow> unit hp" where
  "notify_recovery_status e = do {
     s \<leftarrow> gets id;
     if sp_ticket (hm_status s) = 0 then return ()
     else do {
       epoch \<leftarrow> ask (he_epoch e);
       let p = hm_status s;
       let st = fst (status_query (sp_ticket p) (sp_generation p) (sp_epoch p) (hm_generation s) epoch
          (mutation_worker_active s) (operation_queued s) False p);
       let notification = (sp_ticket p, st, event_revision p, epoch);
       if hm_last_notification s = Some notification then return ()
       else do {
         modify (\<lambda>s. s\<lparr>hm_last_notification := Some notification\<rparr>);
         emit (R_recovery_status (sp_ticket p) st (event_revision p) False epoch) } } }"

section \<open>Completion of an APPLY\<close>

text \<open>Lines 907-918: the lease and the durable task after a mutation.\<close>

definition ensure_restore_task :: "helper_env \<Rightarrow> apply_completed \<Rightarrow> unit hp" where
  "ensure_restore_task e completed = do {
     created \<leftarrow> gets hm_restore_task_created;
     when_do (\<not> created \<and> \<not> ac_durable_recovery_attempted completed) (do {
       ok \<leftarrow> create_restore_task e;
       modify (\<lambda>s. s\<lparr>hm_restore_task_created := ok\<rparr>) }) }"

definition note_armed_task :: "apply_completed \<Rightarrow> unit hp" where
  "note_armed_task completed = modify (\<lambda>s. s\<lparr>hm_restore_task_created := (ac_durable_recovery_armed completed \<or> hm_restore_task_created s)\<rparr>)"

definition retain_recovery_after_display_mutation :: "helper_env \<Rightarrow> apply_completed \<Rightarrow> unit hp" where
  "retain_recovery_after_display_mutation e completed = do {
     note_armed_task completed;
     activate_recovery_lease;
     ensure_restore_task e completed }"

definition reset_uncommitted_staged_state_if_needed :: "unit hp" where
  "reset_uncommitted_staged_state_if_needed = do {
     s \<leftarrow> gets id;
     if \<not> hm_staged_state_prepared s \<or> hm_lease_before_apply s \<or> hm_recovery_armed s \<or> hm_unconfirmed_mutation s then return ()
     else do {
       when_do (hm_restore_task_created s) (do { delete_restore_task; modify (\<lambda>s. s\<lparr>hm_restore_task_created := False\<rparr>) });
       begin_staged_state_reset } }"

text \<open>Lines 1745-1778: what every completion brings in; the result tells a baseline repair.\<close>

definition absorb_completion :: "helper_env \<Rightarrow> apply_completed \<Rightarrow> bool hp" where
  "absorb_completion e completed = do {
     repair \<leftarrow> gets hm_baseline_repair_in_flight;
     let pre = (case ac_exclusive_pre_apply_topology completed of None \<Rightarrow> False | Some t \<Rightarrow> t \<noteq> []);
     modify (\<lambda>s. s\<lparr>hm_baseline_repair_in_flight := False,
       hm_resolved_target := (if \<not> repair \<or> ac_resolved_target completed \<noteq> None then ac_resolved_target completed else hm_resolved_target s),
       hm_current_request := (if is_exclusive_request (hm_current_request s) \<and> pre
          then (hm_current_request s)\<lparr>aq_exclusive_pre_apply_topology := ac_exclusive_pre_apply_topology completed\<rparr>
          else hm_current_request s),
       hm_settlement := (if ac_exclusive_rollback_only completed \<and> td_settlement_requested (hm_settlement s) \<and> pre
          then (hm_settlement s)\<lparr>td_topology := ac_exclusive_pre_apply_topology completed, td_rollback_verification := True\<rparr>
          else hm_settlement s)\<rparr>);
     when_do (ac_status completed = St_ok \<or> ac_display_may_have_changed completed) activate_recovery_lease;
     note_armed_task completed;
     when_do (ac_status completed = St_ok \<or> ac_display_may_have_changed completed) (ensure_restore_task e completed);
     return repair }"

definition report_results :: "apply_status \<Rightarrow> unit hp" where
  "report_results st = do {
     send_apply_result st;
     s \<leftarrow> gets id;
     when_do (hm_apply_result_sent s \<and> \<not> hm_verification_result_sent s) (send_verification_result False);
     when_do (\<not> hm_recovery_armed s) disarm_heartbeat }"

text \<open>Lines 1780-1817: the end of an exclusive rollback.\<close>

definition finish_rollback :: "helper_env \<Rightarrow> unit hp" where
  "finish_rollback e = do {
     report_results VerificationFailed;
     verified \<leftarrow> gets hm_session_was_verified;
     (if verified then enter_steady_state e else transition Waiting);
     drain_deferred_mutation_commands e;
     s \<leftarrow> gets id;
     when_do (td_settlement_requested (hm_settlement s) \<and> \<not> mutation_worker_active s)
       (if hm_reset_pending s then update_settlement (\<lambda>d. d\<lparr>td_deferred_by_staged_reset := True\<rparr>)
        else if td_deferred_final_check (hm_settlement s)
        then do {
          update_settlement (\<lambda>d. d\<lparr>td_deferred_final_check := False\<rparr>);
          dispatch_transient_disconnect_final_verification }
        else do {
          prepare_transient_disconnect_settlement;
          dispatch_next_transient_disconnect_verification;
          return () }) }"

text \<open>Lines 1819-1831: a newer request already waits; the result tells whether it took over.\<close>

definition yield_to_newer :: "helper_env \<Rightarrow> apply_completed \<Rightarrow> bool hp" where
  "yield_to_newer e completed = do {
     live \<leftarrow> has_deferred_apply_intent e;
     if \<not> live then return False
     else do {
       modify (\<lambda>s. s\<lparr>hm_deferred_completion := Some completed\<rparr>);
       drain_deferred_mutation_commands e;
       s \<leftarrow> gets id;
       if mutation_worker_active s \<or> hm_reset_pending s then return True
       else do { modify (\<lambda>s. s\<lparr>hm_deferred_completion := None\<rparr>); return False } } }"

text \<open>After a drain, whether the disconnect settlement goes on; shared by both ends of a repair.\<close>

definition settle_after_repair :: "helper_env \<Rightarrow> bool hp" where
  "settle_after_repair e = do {
     update_settlement (\<lambda>d. d\<lparr>td_repair_in_flight := False\<rparr>);
     drain_deferred_mutation_commands e;
     s \<leftarrow> gets id;
     if \<not> td_settlement_requested (hm_settlement s) \<or> mutation_worker_active s then return True
     else if hm_reset_pending s then do { defer_transient_disconnect_settlement_for_staged_reset; return True }
     else dispatch_next_transient_disconnect_verification }"

definition exclusive_topology_wanted :: "helper \<Rightarrow> bool" where
  "exclusive_topology_wanted s \<longleftrightarrow> is_exclusive_request (hm_current_request s) \<and> aq_topology (hm_current_request s) \<noteq> None"

definition confirm_session :: "unit hp" where
  "confirm_session = do {
     modify (\<lambda>s. s\<lparr>hm_session_was_verified := True\<rparr>);
     activate_recovery_lease;
     modify (\<lambda>s. s\<lparr>hm_unconfirmed_mutation := False\<rparr>) }"

text \<open>Lines 1842-1890: the mutation succeeded.\<close>

definition conclude_ok :: "helper_env \<Rightarrow> bool \<Rightarrow> unit hp" where
  "conclude_ok e repair = do {
     in_flight \<leftarrow> gets (td_repair_in_flight \<circ> hm_settlement);
     if in_flight
     then do {
       settled \<leftarrow> settle_after_repair e;
       if settled then return ()
       else do {
         s \<leftarrow> gets id;
         if exclusive_topology_wanted s then dispatch_transient_disconnect_final_verification
         else do {
           confirm_session;
           enter_steady_state e;
           drain_deferred_mutation_commands e } } }
     else do {
       transition Verification;
       s \<leftarrow> gets id;
       dispatch_verification (hm_current_request s)
         (if repair then hm_expected_topology s
          else if is_exclusive_request (hm_current_request s) then aq_topology (hm_current_request s) else None)
         (hm_resolved_target s) 0 (if repair then BaselineTopologyRepair else Initial);
       drain_deferred_mutation_commands e } }"

text \<open>Lines 1903-1925: a failed mutation of a disconnected session.\<close>

definition settle_failed :: "helper_env \<Rightarrow> bool hp" where
  "settle_failed e = do {
     requested \<leftarrow> gets (td_settlement_requested \<circ> hm_settlement);
     if \<not> requested then return False
     else do {
       settled \<leftarrow> settle_after_repair e;
       if settled then return True
       else do {
         s \<leftarrow> gets id;
         if exclusive_topology_wanted s
         then do {
           reset_transient_disconnect_settlement;
           modify (\<lambda>s. s\<lparr>hm_session_was_verified := False\<rparr>);
           if hm_recovery_armed s then do { start_recovery e 0; return True } else return False }
         else return False } } }"

definition can_fallback_virtual_hdr :: "apply_completed \<Rightarrow> helper \<Rightarrow> bool" where
  "can_fallback_virtual_hdr completed s \<longleftrightarrow>
     \<not> hm_virtual_hdr_fallback_attempted s \<and> ac_virtual_display_requested completed \<and>
     (case aq_configuration (hm_current_request s) of None \<Rightarrow> False | Some c \<Rightarrow> cf_hdr_state c = Some HdrEnabled) \<and>
     ac_status completed = HdrStateFailed"

text \<open>Lines 1927-1968: the failure reaches the host, unless one SDR fallback is left.\<close>

definition report_failed :: "helper_env \<Rightarrow> apply_completed \<Rightarrow> unit hp" where
  "report_failed e completed = do {
     s \<leftarrow> gets id;
     if can_fallback_virtual_hdr completed s
     then do {
       modify (\<lambda>s. s\<lparr>hm_virtual_hdr_fallback_attempted := True,
         hm_current_request := (hm_current_request s)\<lparr>aq_configuration :=
            map_option (\<lambda>c. c\<lparr>cf_hdr_state := Some HdrDisabled\<rparr>) (aq_configuration (hm_current_request s))\<rparr>\<rparr>);
       transition InProgress;
       dispatch_settings_only_repair }
     else do {
       report_results (ac_status completed);
       when_do (\<not> ac_display_may_have_changed completed) reset_uncommitted_staged_state_if_needed;
       verified \<leftarrow> gets hm_session_was_verified;
       (if verified then enter_steady_state e else transition Waiting);
       drain_deferred_mutation_commands e } }"

text \<open>Lines 1893-1901: one reset of the virtual display every thirty seconds.\<close>

definition wants_virtual_display_reset :: "helper_env \<Rightarrow> apply_completed \<Rightarrow> bool hp" where
  "wants_virtual_display_reset e completed =
     (if ac_status completed = NeedsVirtualDisplayReset \<and> ac_virtual_display_requested completed
      then do {
        t \<leftarrow> now e;
        s \<leftarrow> gets id;
        let (reset, last) = maybe_reset_virtual_display True True t (hm_last_reset s);
        modify (\<lambda>s. s\<lparr>hm_last_reset := last\<rparr>);
        return reset }
      else return False)"

definition conclude_failed :: "helper_env \<Rightarrow> apply_completed \<Rightarrow> unit hp" where
  "conclude_failed e completed = do {
     reset \<leftarrow> wants_virtual_display_reset e completed;
     if reset then do { r \<leftarrow> gets hm_current_request; dispatch_apply_worker r True }
     else do {
       settled \<leftarrow> settle_failed e;
       if settled then return () else report_failed e completed } }"

definition conclude_apply :: "helper_env \<Rightarrow> apply_completed \<Rightarrow> bool \<Rightarrow> unit hp" where
  "conclude_apply e completed repair =
     (if repair \<and> ac_status completed \<noteq> St_ok
      then do {
        modify (\<lambda>s. s\<lparr>hm_expected_topology := None\<rparr>);
        enter_steady_state e;
        drain_deferred_mutation_commands e }
      else if ac_status completed = St_ok then conclude_ok e repair
      else conclude_failed e completed)"

definition finish_apply_completed :: "helper_env \<Rightarrow> apply_completed \<Rightarrow> unit hp" where
  "finish_apply_completed e completed = do {
     repair \<leftarrow> absorb_completion e completed;
     if ac_exclusive_rollback_only completed then finish_rollback e
     else do {
       yielded \<leftarrow> yield_to_newer e completed;
       if yielded then return () else conclude_apply e completed repair } }"

text \<open>Lines 1700-1715: the completion of a cancelled worker still says whether the desktop was touched.\<close>

definition finish_cancelled_apply :: "helper_env \<Rightarrow> apply_completed \<Rightarrow> unit hp" where
  "finish_cancelled_apply e completed = do {
     modify (\<lambda>s. s\<lparr>hm_reactivation := None\<rparr>);
     (if ac_display_may_have_changed completed
      then do {
        retain_recovery_after_display_mutation e completed;
        modify (\<lambda>s. s\<lparr>hm_unconfirmed_mutation := True\<rparr>);
        arm_heartbeat e }
      else note_armed_task completed);
     when_do (\<not> ac_display_may_have_changed completed) reset_uncommitted_staged_state_if_needed;
     drain_deferred_mutation_commands e }"

definition finish_reactivation :: "helper_env \<Rightarrow> apply_command \<Rightarrow> apply_completed \<Rightarrow> unit hp" where
  "finish_reactivation e command completed = do {
     modify (\<lambda>s. s\<lparr>hm_reactivation := None\<rparr>);
     live \<leftarrow> has_deferred_apply_intent e;
     stale \<leftarrow> (if live then return True else is_stale_connection e (cm_connection_epoch command));
     let st = (if stale then Retryable else ac_status completed);
     emit (R_apply st (cm_connection_epoch command) (aq_request_id (cm_request command)));
     emit (R_verification (st = St_ok) (cm_connection_epoch command) (aq_request_id (cm_request command)));
     drain_deferred_mutation_commands e }"

definition retire_worker :: "apply_completed \<Rightarrow> unit hp" where
  "retire_worker completed = modify (\<lambda>s. s\<lparr>hm_worker := None,
     hm_staged_state_prepared := (hm_staged_state_prepared s \<or> ac_staged_state_prepared completed)\<rparr>)"

definition handle_apply_completed :: "helper_env \<Rightarrow> apply_completed \<Rightarrow> unit hp" where
  "handle_apply_completed e completed = do {
     owns \<leftarrow> gets (owns_active_worker Wk_apply (ac_generation completed));
     when_do owns (retire_worker completed);
     stale \<leftarrow> is_stale (ac_generation completed);
     reactivation \<leftarrow> gets hm_reactivation;
     if \<not> owns then return ()
     else if stale then finish_cancelled_apply e completed
     else (case reactivation of
         Some command \<Rightarrow> finish_reactivation e command completed
       | None \<Rightarrow> finish_apply_completed e completed) }"

section \<open>Completion of a verification\<close>

text \<open>Lines 1990-2009: the last check of a disconnected exclusive session.\<close>

definition finish_final_check :: "helper_env \<Rightarrow> bool \<Rightarrow> unit hp" where
  "finish_final_check e success = do {
     reset_transient_disconnect_settlement;
     s \<leftarrow> gets id;
     if success
     then do { when_do (\<not> hm_session_was_verified s) confirm_session; enter_steady_state e }
     else do {
       modify (\<lambda>s. s\<lparr>hm_session_was_verified := False\<rparr>);
       if hm_recovery_armed s then start_recovery e 0 else transition Waiting } }"

text \<open>Lines 2011-2038.\<close>

definition finish_disconnect_check :: "helper_env \<Rightarrow> bool \<Rightarrow> unit hp" where
  "finish_disconnect_check e success = do {
     s \<leftarrow> gets id;
     if success
     then do {
       when_do (\<not> hm_session_was_verified s) confirm_session;
       reset_transient_disconnect_settlement;
       enter_steady_state e }
     else if td_rollback_verification (hm_settlement s)
     then do {
       more \<leftarrow> dispatch_next_transient_disconnect_verification;
       when_do (\<not> more) dispatch_transient_disconnect_final_verification }
     else if aq_configuration (hm_current_request s) \<noteq> None then dispatch_transient_disconnect_repair
     else do { reset_transient_disconnect_settlement; transition Waiting } }"

text \<open>Lines 2040-2079: the configuration is in effect.\<close>

definition settle_verified :: "helper_env \<Rightarrow> bool \<Rightarrow> unit hp" where
  "settle_verified e settling = do {
     more \<leftarrow> (if settling then dispatch_next_transient_disconnect_verification else return False);
     if more then return () else enter_steady_state e }"

definition finish_verified :: "helper_env \<Rightarrow> verification_purpose \<Rightarrow> unit hp" where
  "finish_verified e purpose = do {
     s \<leftarrow> gets id;
     if purpose = BaselineTopologyReturn \<or> purpose = BaselineTopologyRepair
     then do {
       modify (\<lambda>s. s\<lparr>hm_current_request := (case hm_expected_topology s of None \<Rightarrow> hm_current_request s
           | Some t \<Rightarrow> (hm_current_request s)\<lparr>aq_topology := Some t\<rparr>), hm_expected_topology := None\<rparr>);
       enter_steady_state e }
     else do {
       when_do (\<not> hm_verification_result_sent s) (do {
         confirm_session;
         when_do (\<not> td_settlement_requested (hm_settlement s)) (arm_heartbeat e);
         emit R_refresh_shell;
         send_apply_result St_ok;
         send_verification_result True });
       settle_verified e (td_settlement_requested (hm_settlement s)) } }"

text \<open>Lines 2081-2136: it is not.\<close>

definition finish_unverified :: "helper_env \<Rightarrow> verification_purpose \<Rightarrow> unit hp" where
  "finish_unverified e purpose = do {
     s \<leftarrow> gets id;
     if td_settlement_requested (hm_settlement s)
     then do {
       more \<leftarrow> dispatch_next_transient_disconnect_verification;
       if more then return ()
       else if hm_session_was_verified s then enter_steady_state e
       else transition Waiting }
     else if purpose = BaselineTopologyReturn
     then do {
       modify (\<lambda>s. s\<lparr>hm_verification_reapply_available := False, hm_baseline_repair_in_flight := True\<rparr>);
       transition InProgress;
       dispatch_apply_worker ((hm_current_request s)\<lparr>aq_topology := hm_expected_topology s, aq_refresh_settings_baseline := True\<rparr>) False }
     else if purpose = BaselineTopologyRepair
     then do {
       modify (\<lambda>s. s\<lparr>hm_expected_topology := None\<rparr>);
       enter_steady_state e }
     else do {
       again \<leftarrow> dispatch_next_verification_reapply;
       if again then return ()
       else do {
         when_do (is_exclusive_request (hm_current_request s) \<and> aq_exclusive_pre_apply_topology (hm_current_request s) \<noteq> None)
           dispatch_exclusive_topology_rollback;
         s \<leftarrow> gets id;
         if is_exclusive_request (hm_current_request s) \<and> aq_exclusive_pre_apply_topology (hm_current_request s) \<noteq> None \<and> mutation_worker_active s
         then return ()
         else if hm_session_was_verified s then enter_steady_state e
         else do {
           send_apply_result VerificationFailed;
           sent \<leftarrow> gets hm_apply_result_sent;
           when_do sent (send_verification_result False);
           transition Waiting } } } }"

definition handle_verification_completed :: "helper_env \<Rightarrow> bool \<Rightarrow> verification_purpose \<Rightarrow> nat \<Rightarrow> unit hp" where
  "handle_verification_completed e success purpose generation = do {
     stale \<leftarrow> is_stale generation;
     d \<leftarrow> gets hm_settlement;
     let disconnect_check = (purpose = TransientDisconnect \<or> purpose = TransientDisconnectFinal);
     if stale then return ()
     else if disconnect_check \<and> (\<not> td_settlement_requested d \<or> \<not> td_check_pending d) then return ()
     else do {
       when_do disconnect_check (update_settlement (\<lambda>d. d\<lparr>td_check_pending := False, td_final_check_pending := False\<rparr>));
       if purpose = TransientDisconnectFinal then finish_final_check e success
       else if purpose = TransientDisconnect then finish_disconnect_check e success
       else if success then finish_verified e purpose
       else finish_unverified e purpose } }"

section \<open>Other completions\<close>

definition has_followup :: "helper \<Rightarrow> bool" where
  "has_followup s \<longleftrightarrow> list_ex (\<lambda>d. \<not> is_reset d) (hm_deferred s)"

definition handle_reset_completed :: "helper_env \<Rightarrow> bool \<Rightarrow> unit hp" where
  "handle_reset_completed e success = do {
     modify (\<lambda>s. s\<lparr>hm_reset_pending := False, hm_staged_state_prepared := (hm_staged_state_prepared s \<and> \<not> success)\<rparr>);
     s \<leftarrow> gets id;
     if hm_exit_after_reset s \<and> \<not> success
     then do { modify (\<lambda>s. s\<lparr>hm_exit_after_reset := False\<rparr>); exit_callback e 1 }
     else do {
       when_do (hm_exit_after_reset s \<and> has_followup s) (modify (\<lambda>s. s\<lparr>hm_exit_after_reset := False\<rparr>));
       drain_deferred_mutation_commands e;
       s \<leftarrow> gets id;
       (case hm_deferred_completion s of
          None \<Rightarrow> return ()
        | Some completed \<Rightarrow> when_do (\<not> mutation_worker_active s \<and> \<not> hm_reset_pending s) (do {
            modify (\<lambda>s. s\<lparr>hm_deferred_completion := None\<rparr>);
            finish_apply_completed e completed }));
       s \<leftarrow> gets id;
       if hm_exit_after_reset s \<and> \<not> hm_reset_pending s
       then do {
         modify (\<lambda>s. s\<lparr>hm_exit_after_reset := False\<rparr>);
         notify_recovery_status e;
         exit_callback e 0 }
       else resume_transient_disconnect_settlement_after_staged_reset } }"

definition adopt_refresh_rate :: "bool \<Rightarrow> refresh_rate_command \<Rightarrow> apply_request \<Rightarrow> apply_request" where
  "adopt_refresh_rate success command r = (if success
     then r\<lparr>aq_configuration := map_option (\<lambda>c. c\<lparr>cf_refresh_rate := Some (rf_numerator command, rf_denominator command)\<rparr>) (aq_configuration r)\<rparr>
     else r)"

definition handle_refresh_rate_completed :: "helper_env \<Rightarrow> bool \<Rightarrow> refresh_rate_command \<Rightarrow> nat \<Rightarrow> unit hp" where
  "handle_refresh_rate_completed e success command generation = do {
     owns \<leftarrow> gets (owns_active_worker Wk_refresh_rate generation);
     when_do owns (modify (\<lambda>s. s\<lparr>hm_worker := None\<rparr>));
     stale \<leftarrow> is_stale generation;
     if \<not> owns then return ()
     else if stale then drain_deferred_mutation_commands e
     else do {
       s \<leftarrow> gets id;
       when_do (refresh_targets_active_request (rf_device_id command) s) (do {
         modify (\<lambda>s. s\<lparr>hm_current_request := adopt_refresh_rate success command (hm_current_request s)\<rparr>);
         when_do (td_settlement_requested (hm_settlement s)) prepare_transient_disconnect_settlement });
       when_do (td_settlement_requested (hm_settlement s)) (do { dispatch_next_transient_disconnect_verification; return () });
       emit (R_refresh_rate success (rf_connection_epoch command) (rf_request_id command));
       drain_deferred_mutation_commands e } }"

definition retain_recovery_after_cancelled_recovery :: "helper_env \<Rightarrow> unit hp" where
  "retain_recovery_after_cancelled_recovery e = do {
     modify (\<lambda>s. s\<lparr>hm_recovery_armed := True, hm_display_changes_pending_recovery := True, hm_unconfirmed_mutation := True\<rparr>);
     arm_heartbeat e }"

definition publish_status :: "recovery_status \<Rightarrow> nat \<Rightarrow> unit hp" where
  "publish_status v generation = modify (\<lambda>s. s\<lparr>hm_status :=
     publish v (sp_ticket (hm_status s)) generation (sp_epoch (hm_status s)) (hm_status s)\<rparr>)"

text \<open>A failed attempt waits in the event loop for the schedule or a display event.\<close>

definition enter_event_loop :: "helper_env \<Rightarrow> unit hp" where
  "enter_event_loop e = do {
     failed_at \<leftarrow> now e;
     modify (\<lambda>s. s\<lparr>hm_scheduler := on_attempt_failed failed_at (hm_scheduler s),
       hm_feedback_quiet_until := Some (failed_at + milliseconds 1000)\<rparr>);
     transition EventLoop;
     drain_deferred_mutation_commands e }"

definition handle_recovery_completed :: "helper_env \<Rightarrow> recovery_completed \<Rightarrow> unit hp" where
  "handle_recovery_completed e completed = do {
     owns \<leftarrow> gets (owns_active_worker Wk_recovery (rc_generation completed));
     stale \<leftarrow> is_stale (rc_generation completed);
     if \<not> owns then return ()
     else if stale
     then do {
       modify (\<lambda>s. s\<lparr>hm_worker := None\<rparr>);
       (if rc_display_may_have_changed completed then retain_recovery_after_cancelled_recovery e
        else modify (\<lambda>s. s\<lparr>hm_restore_state := reset_request_progress (hm_restore_state s)\<rparr>));
       drain_deferred_mutation_commands e }
     else (case rc_snapshot completed of
         Some snap \<Rightarrow>
           if rc_success completed
           then do {
             modify (\<lambda>s. s\<lparr>hm_recovery_reset_succeeded := (if rc_staged_state_reset_attempted completed
                  then Some (rc_staged_state_reset_succeeded completed) else hm_recovery_reset_succeeded s),
                hm_recovery_snapshot := Some snap\<rparr>);
             transition RecoveryValidation;
             launch Wk_recovery (\<lambda>g. J_validation g snap);
             return () }
           else do {
             modify (\<lambda>s. s\<lparr>hm_worker := None\<rparr>);
             publish_status (if rc_display_may_have_changed completed then RS_failed else RS_unknown) (rc_generation completed);
             enter_event_loop e }
       | None \<Rightarrow> do {
           modify (\<lambda>s. s\<lparr>hm_worker := None\<rparr>);
           publish_status (if rc_display_may_have_changed completed then RS_failed else RS_unknown) (rc_generation completed);
           enter_event_loop e }) }"

text \<open>Lines 2304-2371: the desktop is restored.\<close>

definition finish_restored :: "helper_env \<Rightarrow> nat \<Rightarrow> unit hp" where
  "finish_restored e generation = do {
     publish_status RS_restored generation;
     modify (\<lambda>s. s\<lparr>hm_recovery_armed := False, hm_display_changes_pending_recovery := False, hm_feedback_quiet_until := None,
       hm_deferred_display_event := None, hm_baseline_present := None, hm_unconfirmed_mutation := False,
       hm_scheduler := scheduler_disarm (hm_scheduler s), hm_restore_state := reset_request_progress (hm_restore_state s)\<rparr>);
     disarm_heartbeat;
     emit R_refresh_shell;
     delete_restore_task;
     s \<leftarrow> gets id;
     let reset_failed = (hm_staged_state_prepared s \<and> hm_recovery_reset_succeeded s = Some False);
     modify (\<lambda>s. s\<lparr>hm_restore_task_created := False, hm_staged_state_prepared := reset_failed\<rparr>);
     transition Waiting;
     when_do reset_failed (do { modify (\<lambda>s. s\<lparr>hm_exit_after_reset := True\<rparr>); begin_staged_state_reset });
     s \<leftarrow> gets id;
     modify (\<lambda>s. s\<lparr>hm_exit_after_reset := (hm_reset_pending s \<or> list_ex is_reset (hm_deferred s))\<rparr>);
     drain_deferred_mutation_commands e;
     exit_later \<leftarrow> gets hm_exit_after_reset;
     if has_followup s \<and> \<not> reset_failed then modify (\<lambda>s. s\<lparr>hm_exit_after_reset := False\<rparr>)
     else if exit_later then return ()
     else do { notify_recovery_status e; exit_callback e 0 } }"

definition handle_recovery_validation_completed :: "helper_env \<Rightarrow> bool \<Rightarrow> nat \<Rightarrow> unit hp" where
  "handle_recovery_validation_completed e success generation = do {
     owns \<leftarrow> gets (owns_active_worker Wk_recovery generation);
     stale \<leftarrow> is_stale generation;
     if \<not> owns then return ()
     else do {
       modify (\<lambda>s. s\<lparr>hm_worker := None\<rparr>);
       if stale then do { retain_recovery_after_cancelled_recovery e; drain_deferred_mutation_commands e }
       else if success then finish_restored e generation
       else do { publish_status RS_failed generation; enter_event_loop e } } }"

section \<open>Display events\<close>

text \<open>Lines 2410-2443: a physical device of the baseline came back; \<open>True\<close> when a repair was admitted.\<close>

definition admit_baseline_return :: "helper_env \<Rightarrow> bool hp" where
  "admit_baseline_return e = do {
     s \<leftarrow> gets id;
     (case aq_configuration (hm_current_request s) of
        None \<Rightarrow> return False
      | Some c \<Rightarrow>
          if hm_state s = VirtualDisplayMonitoring \<and> hm_baseline_repair_available s \<and> aq_virtual_layout (hm_current_request s) \<noteq> None \<and>
             \<not> mutation_worker_active s \<and> \<not> hm_reset_pending s
          then do {
            (repaired, obs) \<leftarrow> topology_with_returned_baseline_devices e (cf_device_id c) (exclusions_vector s) (hm_observed s);
            modify (\<lambda>s. s\<lparr>hm_observed := obs\<rparr>);
            (case repaired of
               None \<Rightarrow> return False
             | Some t \<Rightarrow> do {
                 modify (\<lambda>s. s\<lparr>hm_baseline_repair_available := False\<rparr>);
                 observe_recovery_event;
                 modify (\<lambda>s. s\<lparr>hm_expected_topology := Some t, hm_verification_reapply_available := False\<rparr>);
                 transition Verification;
                 s \<leftarrow> gets id;
                 dispatch_verification (hm_current_request s) (hm_expected_topology s) (hm_resolved_target s) 0 BaselineTopologyReturn;
                 return True }) }
          else return False) }"

text \<open>Lines 2479-2521 and 2544-2570 after the discovery: a new identity is applied at once or behind the fence.\<close>

definition repair_identity :: "string \<Rightarrow> unit hp" where
  "repair_identity resolved = do {
     s \<leftarrow> gets id;
     if mutation_worker_active s \<or> hm_reset_pending s
     then queue_after_active_mutation (D_repair resolved (hm_connection_epoch s)) False
     else do {
       cancel_operations;
       admitted \<leftarrow> consume_virtual_identity_repair;
       if \<not> admitted then return () else reapply_for_identity resolved } }"

text \<open>An identity event of a virtual session: look the identity up within the allowance, and repair a change.\<close>

definition virtual_identity_event :: "helper_env \<Rightarrow> string \<Rightarrow> unit hp" where
  "virtual_identity_event e device_id = do {
     repairs \<leftarrow> gets hm_identity_repairs;
     if repairs = 0 then return ()
     else do {
       discovered \<leftarrow> consume_virtual_identity_discovery;
       if \<not> discovered then return ()
       else do {
         resolved \<leftarrow> ask (he_device_id e);
         if resolved = [] then return ()
         else if iequals device_id resolved then return ()
         else repair_identity resolved } } }"

text \<open>Lines 2573-2624: events while a restore is pending.\<close>

definition recovery_display_event :: "helper_env \<Rightarrow> display_event \<Rightarrow> nat \<Rightarrow> nat \<Rightarrow> unit hp" where
  "recovery_display_event e ev generation connection_epoch = do {
     s \<leftarrow> gets id;
     let remember = modify (\<lambda>s. s\<lparr>hm_deferred_display_event := Some (ev, generation, connection_epoch)\<rparr>);
     if hm_recovery_armed s \<and> recovery_worker_in_progress s then remember
     else if hm_state s \<noteq> EventLoop \<or> \<not> hm_recovery_armed s then return ()
     else do {
       t \<leftarrow> now e;
       if (case hm_feedback_quiet_until s of None \<Rightarrow> False | Some q \<Rightarrow> t < q)
       then do { modify (\<lambda>s. s\<lparr>hm_feedback_quiet_until := Some (t + milliseconds 1000)\<rparr>); remember }
       else do {
         modify (\<lambda>s. s\<lparr>hm_feedback_quiet_until := None\<rparr>);
         if window_active t (hm_scheduler s) then remember
         else do {
           modify (\<lambda>s. s\<lparr>hm_scheduler := on_display_event t (hm_scheduler s)\<rparr>);
           go \<leftarrow> gets (should_attempt t \<circ> hm_scheduler);
           when_do go (do { observe_recovery_event; start_recovery e 0 }) } } } }"

definition route_display_event :: "helper_env \<Rightarrow> display_event \<Rightarrow> nat \<Rightarrow> nat \<Rightarrow> unit hp" where
  "route_display_event e ev generation connection_epoch = do {
     s \<leftarrow> gets id;
     let live = (hm_state s \<in> {VirtualDisplayMonitoring, InProgress, Verification});
     if live \<and> aq_virtual_layout (hm_current_request s) \<noteq> None \<and> \<not> is_device_identity_event ev then return ()
     else if hm_state s = VirtualDisplayMonitoring
     then (case aq_configuration (hm_current_request s) of
         Some c \<Rightarrow> virtual_identity_event e (cf_device_id c)
       | None \<Rightarrow> repair_identity [])
     else if hm_state s \<in> {InProgress, Verification} \<and> aq_virtual_layout (hm_current_request s) \<noteq> None
     then (case aq_configuration (hm_current_request s) of
         Some c \<Rightarrow> virtual_identity_event e (cf_device_id c)
       | None \<Rightarrow> return ())
     else recovery_display_event e ev generation connection_epoch }"

definition handle_display_event :: "helper_env \<Rightarrow> display_event \<Rightarrow> nat \<Rightarrow> nat \<Rightarrow> unit hp" where
  "handle_display_event e ev generation connection_epoch = do {
     stale \<leftarrow> is_stale generation;
     if stale then return ()
     else do {
       retired \<leftarrow> is_stale_connection e connection_epoch;
       if retired then return ()
       else do {
         parked \<leftarrow> gets (sp_parked \<circ> hm_status);
         if parked then when_do (ev \<noteq> DeviceRemoval) observe_recovery_event
         else do {
           admitted \<leftarrow> admit_baseline_return e;
           if admitted then return () else route_display_event e ev generation connection_epoch } } } }"

section \<open>Heartbeat loss and the timer\<close>

definition handle_helper_event :: "helper_env \<Rightarrow> nat \<Rightarrow> nat \<Rightarrow> unit hp" where
  "handle_helper_event e generation connection_epoch = do {
     stale \<leftarrow> is_stale generation;
     if stale then return ()
     else do {
       retired \<leftarrow> is_stale_connection e connection_epoch;
       s \<leftarrow> gets id;
       let keep = (\<not> hm_explicit_recovery_required s \<and> \<not> re_restore_on_disconnect (hm_restore_state s));
       if retired \<or> sp_parked (hm_status s) \<or> \<not> hm_recovery_armed s \<or> recovery_worker_in_progress s then return ()
       else if mutation_worker_active s
       then do {
         live \<leftarrow> has_deferred_apply_intent e;
         if live then return ()
         else if keep then queue_after_active_mutation (D_disarm \<lparr>di_connection_epoch = connection_epoch, di_force = False\<rparr>) True
         else queue_after_active_mutation (D_revert \<lparr>rv_connection_epoch = connection_epoch, rv_prefer_golden_if_current_missing = True,
             rv_always_restore_from_golden = None, rv_immediate = True, rv_from_disconnect = True, rv_restore_ticket = 0\<rparr>) True }
       else if keep then abandon_session
       else do {
         cancel_operations;
         disarm_heartbeat;
         reset_apply_verification_state;
         forget_baseline_repair;
         modify (\<lambda>s. s\<lparr>hm_golden := reset_request_tracking (hm_golden s)\<rparr>);
         t \<leftarrow> now e;
         modify (\<lambda>s. s\<lparr>hm_scheduler := arm_primary t (milliseconds 5000) (hm_scheduler s)\<rparr>);
         start_recovery e (milliseconds 5000) } } }"

text \<open>Lines 2716-2739: an event put off during a recovery counts when a device of the baseline came back.\<close>

definition reconcile_deferred_event :: "helper_env \<Rightarrow> time_point \<Rightarrow> bool hp" where
  "reconcile_deferred_event e t = do {
     s \<leftarrow> gets id;
     (case hm_deferred_display_event s of
        None \<Rightarrow> return False
      | Some (ev, generation, connection_epoch) \<Rightarrow>
          if mutation_worker_active s \<or> hm_reset_pending s \<or> window_active t (hm_scheduler s) \<or>
             (case hm_feedback_quiet_until s of None \<Rightarrow> False | Some q \<Rightarrow> t < q) then return False
          else do {
            modify (\<lambda>s. s\<lparr>hm_deferred_display_event := None\<rparr>);
            stale \<leftarrow> is_stale generation;
            retired \<leftarrow> (if stale then return True else is_stale_connection e connection_epoch);
            (case hm_baseline_present s of
               None \<Rightarrow> return False
             | Some before \<Rightarrow>
                 if retired then return False
                 else do {
                   present \<leftarrow> present_physical_restore_baseline_devices e (re_always_restore_from_golden (hm_restore_state s)) (exclusions_vector s);
                   if (case present of None \<Rightarrow> False | Some ids \<Rightarrow> \<not> ids \<subseteq> before)
                   then do {
                     observe_recovery_event;
                     modify (\<lambda>s. s\<lparr>hm_feedback_quiet_until := None, hm_scheduler := on_display_event t (hm_scheduler s)\<rparr>);
                     start_recovery e 0;
                     return True }
                   else return False }) }) }"

definition check_window :: "time_point \<Rightarrow> bool hp" where
  "check_window t = do {
     sch \<leftarrow> gets hm_scheduler;
     modify (\<lambda>s. s\<lparr>hm_scheduler := snd (window_just_expired t (hm_scheduler s))\<rparr>);
     return (fst (window_just_expired t sch)) }"

definition handle_tick :: "helper_env \<Rightarrow> unit hp" where
  "handle_tick e = do {
     s \<leftarrow> gets id;
     if hm_state s \<noteq> EventLoop \<or> \<not> hm_recovery_armed s \<or> sp_parked (hm_status s) then return ()
     else do {
       t \<leftarrow> now e;
       started \<leftarrow> reconcile_deferred_event e t;
       if started then return ()
       else do {
         expired \<leftarrow> check_window t;
         sch \<leftarrow> gets hm_scheduler;
         if expired
         then do {
           ms \<leftarrow> ask (he_now_ms e);
           ok \<leftarrow> ask (he_marker_io e);
           modify (\<lambda>s. s\<lparr>hm_golden := register_unresolved ms ok (hm_golden s)\<rparr>) }
         else when_do (should_attempt t sch) (start_recovery e 0) } } }"

section \<open>Messages\<close>

definition handle_payload :: "helper_env \<Rightarrow> message \<Rightarrow> unit hp" where
  "handle_payload e m = (case m of
     M_apply c \<Rightarrow> handle_apply_command e c
   | M_revert c \<Rightarrow> handle_revert_command e c
   | M_disarm c \<Rightarrow> handle_disarm_command e c
   | M_export_golden p epoch \<Rightarrow> handle_export_golden e p epoch
   | M_snapshot_current p epoch request_id \<Rightarrow> handle_snapshot_current e p epoch request_id
   | M_refresh_rate c \<Rightarrow> handle_refresh_rate_command e c
   | M_reset epoch \<Rightarrow> handle_reset_command e epoch
   | M_ping epoch \<Rightarrow> handle_ping_command e epoch
   | M_stop epoch \<Rightarrow> handle_stop_command e epoch
   | M_recovery_status c \<Rightarrow> handle_recovery_status_command e c
   | M_apply_completed c \<Rightarrow> handle_apply_completed e c
   | M_verification_completed success purpose generation \<Rightarrow> handle_verification_completed e success purpose generation
   | M_reset_completed success generation \<Rightarrow> handle_reset_completed e success
   | M_refresh_rate_completed success c generation \<Rightarrow> handle_refresh_rate_completed e success c generation
   | M_recovery_completed c \<Rightarrow> handle_recovery_completed e c
   | M_recovery_validation_completed success generation \<Rightarrow> handle_recovery_validation_completed e success generation
   | M_display_event ev generation epoch \<Rightarrow> handle_display_event e ev generation epoch
   | M_heartbeat_timeout generation epoch \<Rightarrow> handle_helper_event e generation epoch)"

definition handle_message :: "helper_env \<Rightarrow> message \<Rightarrow> unit hp" where
  "handle_message e m = do { handle_payload e m; notify_recovery_status e }"

text \<open>What \<^verbatim>\<open>main\<close> does when the pipe of an epoch is gone: settle, or queue a restore of its own.\<close>

definition disconnect_revert :: revert_command where
  "disconnect_revert = \<lparr>rv_connection_epoch = 0, rv_prefer_golden_if_current_missing = True, rv_always_restore_from_golden = None,
     rv_immediate = False, rv_from_disconnect = True, rv_restore_ticket = 0\<rparr>"

definition on_disconnected :: "helper_env \<Rightarrow> nat \<Rightarrow> message option hp" where
  "on_disconnected e epoch = do {
     modify (\<lambda>s. s\<lparr>hm_client_connected := False\<rparr>);
     disarm_heartbeat;
     settling \<leftarrow> begin_transient_disconnect_settlement e;
     s \<leftarrow> gets id;
     if settling then return None
     else if requires_disconnect_recovery s
     then do { modify (\<lambda>s. s\<lparr>hm_restore_origin_epoch := epoch\<rparr>); return (Some (M_revert disconnect_revert)) }
     else return None }"

text \<open>The helper as it starts.\<close>

definition helper_new :: helper where
  "helper_new = \<lparr>po_reads = 0, ld_store = (\<lambda>_. Absent), ld_prefer_golden_first = False, hm_generation = 0, hm_tasks = [],
     hm_timers = [], hm_out = [], hm_state = Waiting, hm_worker = None, hm_deferred = [], hm_reset_pending = False,
     hm_current_request = empty_request, hm_connection_epoch = 0, hm_recovery_armed = False,
     hm_display_changes_pending_recovery = False, hm_explicit_recovery_required = False,
     hm_virtual_hdr_fallback_attempted = False, hm_baseline_repair_available = False, hm_baseline_repair_in_flight = False,
     hm_observed = ({}, {}), hm_apply_result_sent = False, hm_verification_result_sent = False, hm_session_was_verified = False,
     hm_restore_task_created = False, hm_verification_reapply_available = False, hm_settlement = no_settlement,
     hm_last_apply_started = None, hm_resolved_target = None, hm_expected_topology = None, hm_recovery_snapshot = None,
     hm_feedback_quiet_until = None, hm_deferred_display_event = None, hm_baseline_present = None, hm_identity_discoveries = 0,
     hm_identity_repairs = 0, hm_blacklist = [], hm_status = status_new, hm_deferred_completion = None, hm_reactivation = None,
     hm_unconfirmed_mutation = False, hm_exit_after_reset = False, hm_staged_state_prepared = False,
     hm_recovery_reset_succeeded = None, hm_lease_before_apply = False, hm_last_notification = None,
     hm_scheduler = scheduler_new, hm_restore_state = restore_state_new, hm_golden = golden_health_new,
     hm_heartbeat = heartbeat_new, hm_last_reset = 0, hm_restore_origin_epoch = 0, hm_client_connected = False,
     hm_running = True\<rparr>"

end
