(* ===== verification/Helper_Steps.thy ===== *)
theory Helper_Steps
  imports Helper_Machine
begin

text \<open>
  Runs of the display helper. A step delivers a message: a command or a notification, which may come at any
  time, or the completion of the job at the head of the worker's queue. Delayed checks move from the timer
  to the worker, the timer ticks, the pipe breaks, and the worker writes snapshots and restore progress
  concurrently. \<^verbatim>\<open>main\<close> never posts a heartbeat message, since a missed heartbeat retires
  the connection; the handler is part of the model and of the messages below all the same.
\<close>

section \<open>Steps\<close>

definition is_completion :: "message \<Rightarrow> bool" where
  "is_completion m = (case m of M_apply_completed _ \<Rightarrow> True | M_verification_completed _ _ _ \<Rightarrow> True | M_reset_completed _ _ \<Rightarrow> True
     | M_refresh_rate_completed _ _ _ \<Rightarrow> True | M_recovery_completed _ \<Rightarrow> True | M_recovery_validation_completed _ _ \<Rightarrow> True | _ \<Rightarrow> False)"

text \<open>The message a finished job sends; its outcome is up to the display driver.\<close>

definition completes :: "job \<Rightarrow> message \<Rightarrow> bool" where
  "completes j m = (case j of
     J_apply g r reset \<Rightarrow> (case m of M_apply_completed c \<Rightarrow> ac_generation c = g | _ \<Rightarrow> False)
   | J_verify g r x tg p \<Rightarrow> (case m of M_verification_completed ok p' g' \<Rightarrow> p' = p \<and> g' = g | _ \<Rightarrow> False)
   | J_reset g \<Rightarrow> (case m of M_reset_completed ok g' \<Rightarrow> g' = g | _ \<Rightarrow> False)
   | J_refresh_rate g c \<Rightarrow> (case m of M_refresh_rate_completed ok c' g' \<Rightarrow> c' = c \<and> g' = g | _ \<Rightarrow> False)
   | J_recovery g d \<Rightarrow> (case m of M_recovery_completed c \<Rightarrow> rc_generation c = g | _ \<Rightarrow> False)
   | J_validation g sn \<Rightarrow> (case m of M_recovery_validation_completed ok g' \<Rightarrow> g' = g | _ \<Rightarrow> False))"

inductive delivers :: "helper \<Rightarrow> message \<Rightarrow> helper \<Rightarrow> bool" where
  command: "\<not> is_completion m \<Longrightarrow> delivers s m s"
| completion: "hm_tasks s = j # js \<Longrightarrow> completes j m \<Longrightarrow> delivers s m (s\<lparr>hm_tasks := js\<rparr>)"

inductive helper_step :: "helper_env \<Rightarrow> helper \<Rightarrow> helper \<Rightarrow> bool" for e where
  message: "hm_running s \<Longrightarrow> delivers s m s0 \<Longrightarrow> helper_step e s (exec (handle_message e m) s0)"
| tick: "hm_running s \<Longrightarrow> helper_step e s (exec (handle_tick e) s)"
| timer: "hm_timers s = (d, j) # ts \<Longrightarrow> helper_step e s (s\<lparr>hm_timers := ts, hm_tasks := hm_tasks s @ [j]\<rparr>)"
| timer_cancelled: "hm_timers s = (d, j) # ts \<Longrightarrow> helper_step e s (s\<lparr>hm_timers := ts\<rparr>)"
| connect: "helper_step e s (s\<lparr>hm_client_connected := True\<rparr>)"
| disconnect: "hm_running s \<Longrightarrow> helper_step e s (exec (on_disconnected e epoch) s)"
| worker_writes: "helper_step e s (s\<lparr>ld_store := st, hm_golden := gh,
    hm_restore_state := (hm_restore_state s)\<lparr>re_restore_attempted_unconfirmed := b, re_golden_pending_session_fallbacks := n\<rparr>\<rparr>)"
| reads: "helper_step e s (s\<lparr>po_reads := po_reads s + n\<rparr>)"

inductive_cases deliversE: "delivers s m s0"

section \<open>One invariant, every program\<close>

text \<open>The definitions of all handlers, for proofs that go through the whole machine. A drain keeps what the
  deferred handlers keep.\<close>

lemmas command_defs = handle_apply_command_def reactivate_def begin_apply_def reject_request_def start_request_def
  handle_virtual_display_repair_intent_def reapply_for_identity_def handle_revert_command_def revert_now_def begin_revert_def
  abandon_session_def handle_disarm_command_def disarm_now_def handle_reset_command_def reset_now_def
  queue_after_active_mutation_def start_recovery_def clear_recovery_state_def exit_callback_def send_apply_result_def
  send_verification_result_def defer_transient_disconnect_settlement_for_staged_reset_def begin_staged_state_reset_def
  consume_virtual_identity_repair_def consume_virtual_identity_discovery_def

lemmas settlement_defs = prepare_transient_disconnect_settlement_def dispatch_transient_disconnect_final_verification_def
  dispatch_next_transient_disconnect_verification_def resume_transient_disconnect_settlement_after_staged_reset_def
  begin_transient_disconnect_settlement_def should_defer_disconnect_recovery_def dispatch_settings_only_repair_def
  dispatch_next_verification_reapply_def dispatch_transient_disconnect_repair_def dispatch_exclusive_topology_rollback_def

lemmas query_defs = handle_export_golden_def handle_snapshot_current_def handle_refresh_rate_command_def handle_ping_command_def
  handle_stop_command_def query_ticket_def handle_recovery_status_command_def note_liveness_def answer_query_def notify_recovery_status_def apply_exclusions_def

lemmas completion_defs = ensure_restore_task_def note_armed_task_def retain_recovery_after_display_mutation_def
  reset_uncommitted_staged_state_if_needed_def absorb_completion_def report_results_def finish_rollback_def yield_to_newer_def
  settle_after_repair_def confirm_session_def conclude_ok_def settle_failed_def report_failed_def wants_virtual_display_reset_def
  conclude_failed_def conclude_apply_def finish_apply_completed_def finish_cancelled_apply_def finish_reactivation_def
  retire_worker_def handle_apply_completed_def finish_final_check_def finish_disconnect_check_def finish_verified_def settle_verified_def
  finish_unverified_def handle_verification_completed_def handle_reset_completed_def handle_refresh_rate_completed_def
  retain_recovery_after_cancelled_recovery_def publish_status_def enter_event_loop_def handle_recovery_completed_def
  finish_restored_def handle_recovery_validation_completed_def enter_steady_state_def

lemmas event_defs = admit_baseline_return_def repair_identity_def virtual_identity_event_def recovery_display_event_def
  route_display_event_def handle_display_event_def handle_helper_event_def reconcile_deferred_event_def handle_tick_def

lemma drain_step: "\<lbrakk>\<not> mutation_worker_active s; \<not> hm_reset_pending s; hm_deferred s = d # q\<rbrakk>
    \<Longrightarrow> drain e s = drain e (exec (handle_deferred e d) (s\<lparr>hm_deferred := q\<rparr>))"
  by (subst drain.simps) simp

lemma drain_stop: "mutation_worker_active s \<or> hm_reset_pending s \<or> hm_deferred s = [] \<Longrightarrow> drain e s = s"
  by (subst drain.simps) auto

lemma drain_keeps:
  assumes "I s" "\<And>s d q. I s \<Longrightarrow> hm_deferred s = d # q \<Longrightarrow> I (exec (handle_deferred e d) (s\<lparr>hm_deferred := q\<rparr>))"
  shows "I (drain e s)"
  using assms
proof (induction e s rule: drain.induct)
  case (1 e s)
  show ?case
  proof (cases "mutation_worker_active s \<or> hm_reset_pending s \<or> hm_deferred s = []")
    case True
    with "1.prems" show ?thesis by (simp add: drain_stop)
  next
    case False
    then obtain d q where q: "hm_deferred s = d # q" by (cases "hm_deferred s") auto
    have "I (drain e (exec (handle_deferred e d) (s\<lparr>hm_deferred := q\<rparr>)))"
      by (rule "1.IH"[OF _ q "1.prems"(2)[OF "1.prems"(1) q] "1.prems"(2)]) (use False in simp_all)
    with False q show ?thesis by (simp add: drain_step)
  qed
qed

lemma keeps_drain:
  assumes "\<And>s d q. I s \<Longrightarrow> hm_deferred s = d # q \<Longrightarrow> I (exec (handle_deferred e d) (s\<lparr>hm_deferred := q\<rparr>))"
  shows "keeps I (drain_deferred_mutation_commands e)"
  unfolding drain_deferred_mutation_commands_def
  by (rule keeps_modify) (rule drain_keeps[of I, OF _ assms])

end
