(* ===== verification/Helper_Safety.thy ===== *)
theory Helper_Safety
  imports Helper_Steps
begin

text \<open>
  What the runs of the display helper guarantee: its counters stay in range, a result reaches the host only
  for the request it belongs to, the lease on the old desktop is not lost on the way, a parked recovery is
  quiet; and one run in which a recovery is left without a worker.
\<close>

section \<open>Well-formed states\<close>

definition job_generation :: "job \<Rightarrow> nat" where
  "job_generation j = (case j of J_apply g _ _ \<Rightarrow> g | J_verify g _ _ _ _ \<Rightarrow> g | J_reset g \<Rightarrow> g | J_refresh_rate g _ \<Rightarrow> g
     | J_recovery g _ \<Rightarrow> g | J_validation g _ \<Rightarrow> g)"

definition is_delayed_check :: "job \<Rightarrow> bool" where
  "is_delayed_check j = (case j of J_verify _ _ _ _ p \<Rightarrow> p = TransientDisconnect | _ \<Rightarrow> False)"

definition one_intent :: "deferred_command list \<Rightarrow> bool" where
  "one_intent q \<longleftrightarrow> length (filter (\<lambda>d. \<not> is_reset d) q) \<le> 1"

definition revision_ok :: "status_policy \<Rightarrow> bool" where
  "revision_ok p \<longleftrightarrow> sp_ticket_event_revision_base p \<le> sp_event_revision p"

text \<open>A check of the current generation is about the current request.\<close>

definition check_current :: "nat \<Rightarrow> nat \<Rightarrow> job \<Rightarrow> bool" where
  "check_current generation request_id j = (case j of
     J_verify g r _ _ _ \<Rightarrow> g = generation \<longrightarrow> aq_request_id r = request_id | _ \<Rightarrow> True)"

definition helper_wf :: "helper \<Rightarrow> bool" where
  "helper_wf s \<longleftrightarrow>
     (\<forall>j \<in> set (hm_tasks s). job_generation j \<le> hm_generation s \<and> check_current (hm_generation s) (aq_request_id (hm_current_request s)) j) \<and>
     (\<forall>j \<in> snd ` set (hm_timers s). is_delayed_check j \<and> job_generation j \<le> hm_generation s \<and>
        check_current (hm_generation s) (aq_request_id (hm_current_request s)) j) \<and>
     (\<forall>w. hm_worker s = Some w \<longrightarrow> snd w \<le> hm_generation s) \<and>
     rs_backoff_index (hm_scheduler s) < 8 \<and>
     td_next_check (hm_settlement s) \<le> 2 \<and>
     hm_identity_discoveries s \<le> 2 \<and> hm_identity_repairs s \<le> 2 \<and>
     revision_ok (hm_status s) \<and>
     one_intent (hm_deferred s)"

lemma one_intent_enqueue: "one_intent q \<Longrightarrow> one_intent (enqueue_deferred d q)"
proof -
  have split: "length (filter (\<lambda>x. \<not> is_reset x) q) = length (filter is_session_intent q) + length (filter is_repair q)" for q
    by (induction q) (auto simp: is_reset_def is_session_intent_def is_repair_def split: deferred_command.splits)
  have none: "\<not> list_ex is_session_intent q \<Longrightarrow> filter is_session_intent q = []" for q
    by (induction q) auto
  assume "one_intent q"
  then show ?thesis
    unfolding one_intent_def enqueue_deferred_def
    by (cases d) (auto simp: split none is_reset_def is_repair_def is_session_intent_def filter_empty_conv comp_def list_ex_iff
        split: deferred_command.splits)
qed

lemma one_intent_tl: "one_intent (d # q) \<Longrightarrow> one_intent q"
  by (auto simp: one_intent_def split: if_splits)

lemma backoff_bounds [simp]:
  "rs_backoff_index (arm_primary t g r) = 0" "rs_backoff_index (scheduler_disarm r) = 0"
  "rs_backoff_index r < 8 \<Longrightarrow> rs_backoff_index (on_display_event t r) < 8"
  "rs_backoff_index r < 8 \<Longrightarrow> rs_backoff_index (on_attempt_failed t r) < 8"
  "rs_backoff_index (snd (window_just_expired t r)) = rs_backoff_index r"
  by (auto simp: arm_primary_def scheduler_disarm_def on_display_event_def on_attempt_failed_def window_just_expired_def Let_def
      kRestoreBackoffProfile_def)

lemma revision_ok_status [simp]:
  "revision_ok p \<Longrightarrow> revision_ok (status_begin t g ep p)" "revision_ok p \<Longrightarrow> revision_ok (status_restart g ep p)"
  "revision_ok p \<Longrightarrow> revision_ok (status_supersede p)" "revision_ok p \<Longrightarrow> revision_ok (observe_event p)"
  "revision_ok p \<Longrightarrow> revision_ok (publish v t g ep p)" "revision_ok p \<Longrightarrow> revision_ok (ticket_status c g p)"
  "revision_ok p \<Longrightarrow> revision_ok (snd (status_query t g ep cg ce wa oq pk p))"
  by (auto simp: revision_ok_def status_begin_def status_restart_def status_supersede_def observe_event_def publish_def
      ticket_status_def status_query_def)

lemma no_settlement_checks [simp]: "td_next_check no_settlement = 0"
  by (simp add: no_settlement_def)

lemma request_id_kept [simp]:
  "aq_request_id (retarget i r) = aq_request_id r" "aq_request_id (reset_exclusive_rollback_snapshot r b) = aq_request_id r"
  "aq_request_id (adopt_refresh_rate b c r) = aq_request_id r" "ensure_exclusive_topology r = (b, r') \<Longrightarrow> aq_request_id r' = aq_request_id r"
  by (auto simp: retarget_def Let_def reset_exclusive_rollback_snapshot_def adopt_refresh_rate_def ensure_exclusive_topology_def
      split: option.splits if_splits)

lemma check_current_simps [simp]:
  "check_current g i (J_apply g' r b)" "check_current g i (J_reset g')" "check_current g i (J_refresh_rate g' c)"
  "check_current g i (J_recovery g' d)" "check_current g i (J_validation g' sn)"
  "check_current g i (J_verify g' r x tg p) \<longleftrightarrow> (g = g' \<longrightarrow> aq_request_id r = i)"
  by (auto simp: check_current_def)

lemma check_current_old [simp]: "job_generation j < g \<Longrightarrow> check_current g i j"
  by (auto simp: check_current_def job_generation_def split: job.splits)

subsection \<open>Leaves\<close>

lemma wf_cancel: "keeps helper_wf cancel_operations"
  unfolding cancel_operations_def by (rule keeps_modify) (auto simp: helper_wf_def le_Suc_eq)

lemma wf_launch:
  "keeps helper_wf (dispatch_apply_worker r b)" "keeps helper_wf (launch Wk_recovery (\<lambda>g. J_recovery g d))"
  "keeps helper_wf (launch Wk_refresh_rate (\<lambda>g. J_refresh_rate g c))" "keeps helper_wf (launch Wk_recovery (\<lambda>g. J_validation g sn))"
  "keeps helper_wf dispatch_reset_staged_apply_state"
  unfolding dispatch_apply_worker_def launch_def dispatch_reset_staged_apply_state_def push_task_def
  by (rule keepsI; auto simp: wp_rules helper_wf_def job_generation_def; fail)+

lemma wf_consume: "keeps helper_wf consume_virtual_identity_repair" "keeps helper_wf consume_virtual_identity_discovery"
  unfolding consume_virtual_identity_repair_def consume_virtual_identity_discovery_def
  by (rule keepsI; auto simp: wp_rules helper_wf_def)+

lemma wf_query: "keeps helper_wf (query_ticket c ep b)"
  unfolding query_ticket_def by (rule keepsI) (auto simp: wp_rules helper_wf_def case_prod_beta Let_def)

lemma wf_verification:
  assumes "helper_wf s" "aq_request_id r = aq_request_id (hm_current_request s)" "d = 0 \<or> p = TransientDisconnect"
  shows "wp (dispatch_verification r x tg d p) (\<lambda>_. helper_wf) s"
  using assms unfolding dispatch_verification_def push_task_def
  by (auto simp: wp_rules helper_wf_def job_generation_def is_delayed_check_def)

lemma wf_frames:
  "helper_wf (s\<lparr>hm_state := st\<rparr>) = helper_wf s"
  "helper_wf s \<Longrightarrow> td_next_check d \<le> 2 \<Longrightarrow> helper_wf (s\<lparr>hm_settlement := d\<rparr>)"
  "helper_wf s \<Longrightarrow> td_next_check (hm_settlement s) \<le> 2"
  by (auto simp: helper_wf_def)

lemma settlement_request_id [simp]: "aq_request_id (transient_disconnect_verification_request s) = aq_request_id (hm_current_request s)"
  by (simp add: transient_disconnect_verification_request_def Let_def)

lemma wf_final_check: "keeps helper_wf dispatch_transient_disconnect_final_verification"
  unfolding dispatch_transient_disconnect_final_verification_def wp_defs
  by (rule keepsI) (auto simp: wp_rules wf_frames intro!: wf_verification)

lemma wf_next_check: "keeps helper_wf dispatch_next_transient_disconnect_verification"
  unfolding dispatch_next_transient_disconnect_verification_def wp_defs Let_def
  by (rule keepsI) (simp add: wp_rules keepsD[OF wf_final_check] wf_frames wf_verification kDelays_def split: if_split)

lemma wf_adopt: "keeps helper_wf (adopt_request e c)"
  unfolding adopt_request_def cancel_operations_def wp_defs Let_def
  by (rule keepsI) (auto simp: wp_rules helper_wf_def le_imp_less_Suc split: option.split)

subsection \<open>Handlers\<close>

lemmas wf_leaves = wf_cancel wf_launch wf_consume wf_query wf_next_check wf_final_check wf_adopt

lemma wf_reads: "helper_wf s \<Longrightarrow> helper_wf (s\<lparr>po_reads := r\<rparr>)" "helper_wf s \<Longrightarrow> helper_wf (s\<lparr>ld_store := st\<rparr>)"
  by (simp_all add: helper_wf_def)

lemmas wf_ports = keeps_ask[of helper_wf, OF wf_reads(1)] keeps_ledger[of helper_wf, OF wf_reads]
  keeps_is_stale_connection[of helper_wf, OF wf_reads(1)]

lemma wf_has_deferred: "keeps helper_wf (has_deferred_apply_intent e)"
proof -
  have "keeps helper_wf (live_intent e q)" for q
    by (induction q) (auto intro!: keeps_rules wf_ports split: deferred_command.split)
  then show ?thesis
    unfolding has_deferred_apply_intent_def by (intro keeps_rules)
qed

lemma wf_update_settlement: "td_next_check d \<le> n \<Longrightarrow> td_next_check d - Suc 0 \<le> n"
  by simp

lemmas wf_simps = helper_wf_def one_intent_enqueue wf_update_settlement Let_def

lemma wf_command_parts:
  "keeps helper_wf (start_recovery e d)" "keeps helper_wf (clear_recovery_state b)" "keeps helper_wf (exit_callback e n)"
  "keeps helper_wf (send_apply_result st)" "keeps helper_wf (send_verification_result b)" "keeps helper_wf begin_staged_state_reset"
  "keeps helper_wf defer_transient_disconnect_settlement_for_staged_reset" "keeps helper_wf (queue_after_active_mutation dc b)"
  "keeps helper_wf (reapply_for_identity i)"
  unfolding start_recovery_def clear_recovery_state_def exit_callback_def send_apply_result_def send_verification_result_def
    begin_staged_state_reset_def defer_transient_disconnect_settlement_for_staged_reset_def queue_after_active_mutation_def
    reapply_for_identity_def wp_defs
  by (intro keeps_rules wf_leaves wf_ports keeps_modify; simp add: wf_simps; fail)+

lemmas wf_parts = wf_leaves wf_ports wf_command_parts wf_has_deferred

lemma wf_begin_apply: "keeps helper_wf (begin_apply e c)"
proof -
  have start: "keeps helper_wf (start_request e)"
    unfolding start_request_def wp_defs
    by (intro keeps_rules wf_parts keeps_modify; simp add: wf_simps)
  have "wp (do { modify (\<lambda>s. s\<lparr>hm_current_request := r\<rparr>); start_request e }) (\<lambda>_. helper_wf) s"
    if "helper_wf s" "aq_request_id r = aq_request_id (hm_current_request s)" for r s
    using that by (auto simp: wp_rules helper_wf_def intro!: keepsD[OF start])
  then have "keeps helper_wf (do { r \<leftarrow> gets hm_current_request;
      if aq_configuration r = None then reject_request
      else (case ensure_exclusive_topology r of (False, _) \<Rightarrow> reject_request
        | (True, r') \<Rightarrow> do { modify (\<lambda>s. s\<lparr>hm_current_request := r'\<rparr>); start_request e }) })"
    unfolding reject_request_def wp_defs
    by (intro keepsI) (auto simp: wp_rules wf_frames request_id_kept dest: wp_weaken[OF keepsD[OF wf_command_parts(4)]] split: prod.split bool.split)
  then show ?thesis
    unfolding begin_apply_def by (rule keeps_bind[OF wf_adopt])
qed

lemma wf_now:
  "keeps helper_wf (reactivate c n)" "keeps helper_wf (revert_now e rc)" "keeps helper_wf disarm_now"
  "keeps helper_wf reset_now" "keeps helper_wf abandon_session"
  unfolding reactivate_def revert_now_def begin_revert_def abandon_session_def disarm_now_def reset_now_def wp_defs
  by (intro keeps_rules wf_parts keeps_modify; simp add: wf_simps; fail)+

lemma wf_commands:
  "keeps helper_wf (handle_apply_command e c)" "keeps helper_wf (handle_revert_command e rc)"
  "keeps helper_wf (handle_disarm_command e dc)" "keeps helper_wf (handle_reset_command e k)"
  "keeps helper_wf (handle_virtual_display_repair_intent e i k)"
  unfolding handle_apply_command_def handle_revert_command_def handle_disarm_command_def handle_reset_command_def
    handle_virtual_display_repair_intent_def wp_defs
  by (intro keeps_rules wf_parts wf_now wf_begin_apply keeps_modify; simp add: wf_simps; fail)+

lemma wf_drain: "keeps helper_wf (drain_deferred_mutation_commands e)"
proof (rule keeps_drain)
  fix s d q
  assume s: "helper_wf s" "hm_deferred s = d # q"
  then have "helper_wf (s\<lparr>hm_deferred := q\<rparr>)"
    by (auto simp: helper_wf_def dest: one_intent_tl)
  moreover have "keeps helper_wf (handle_deferred e d)"
    unfolding handle_deferred_def by (cases d) (simp_all add: wf_commands)
  ultimately show "helper_wf (exec (handle_deferred e d) (s\<lparr>hm_deferred := q\<rparr>))"
    by (rule keeps_exec[rotated])
qed

subsection \<open>Completions and events\<close>

lemma wf_steady: "keeps helper_wf (enter_steady_state e)" "keeps helper_wf confirm_session"
  "keeps helper_wf prepare_transient_disconnect_settlement" "keeps helper_wf dispatch_settings_only_repair"
  "keeps helper_wf dispatch_exclusive_topology_rollback" "keeps helper_wf (report_results st)"
  unfolding enter_steady_state_def confirm_session_def prepare_transient_disconnect_settlement_def
    dispatch_settings_only_repair_def dispatch_exclusive_topology_rollback_def report_results_def wp_defs
  by (intro keeps_rules wf_parts keeps_modify; simp add: wf_simps; fail)+

lemmas wf_all = wf_parts wf_drain wf_steady wf_now wf_begin_apply wf_commands

lemma wf_verify_now:
  assumes "keeps helper_wf m"
  shows "keeps helper_wf (do { s \<leftarrow> gets id; dispatch_verification (hm_current_request s) (x s) (tg s) 0 p; m })"
proof (rule keepsI)
  fix s
  assume "helper_wf s"
  then have "wp (dispatch_verification (hm_current_request s) (x s) (tg s) 0 p) (\<lambda>_. helper_wf) s"
    by (simp add: wf_verification)
  then show "wp (do { s \<leftarrow> gets id; dispatch_verification (hm_current_request s) (x s) (tg s) 0 p; m }) (\<lambda>_. helper_wf) s"
    using keepsD[OF assms] by (simp add: wp_rules) (erule wp_weaken)
qed

lemma wf_settle: "keeps helper_wf (settle_after_repair e)" "keeps helper_wf (yield_to_newer e c)"
  "keeps helper_wf (absorb_completion e c)" "keeps helper_wf reset_uncommitted_staged_state_if_needed"
  "keeps helper_wf (retain_recovery_after_display_mutation e c)"
  unfolding settle_after_repair_def yield_to_newer_def absorb_completion_def ensure_restore_task_def note_armed_task_def
    reset_uncommitted_staged_state_if_needed_def retain_recovery_after_display_mutation_def wp_defs
  by (intro keeps_rules wf_all keeps_modify; simp add: wf_simps; fail)+

lemma wf_conclude: "keeps helper_wf (finish_rollback e)" "keeps helper_wf (settle_failed e)" "keeps helper_wf (report_failed e c)"
  "keeps helper_wf (wants_virtual_display_reset e c)" "keeps helper_wf (conclude_ok e b)"
  unfolding finish_rollback_def settle_failed_def report_failed_def wants_virtual_display_reset_def conclude_ok_def wp_defs
  by (intro keeps_rules wf_all wf_settle wf_verify_now keeps_modify; simp add: wf_simps; fail)+

lemma wf_apply_completed: "keeps helper_wf (conclude_failed e c)" "keeps helper_wf (finish_apply_completed e c)"
  "keeps helper_wf (handle_apply_completed e c)"
  unfolding handle_apply_completed_def finish_cancelled_apply_def finish_reactivation_def retire_worker_def note_armed_task_def
    finish_apply_completed_def conclude_apply_def conclude_failed_def wp_defs
  by (intro keeps_rules wf_all wf_settle wf_conclude keeps_modify; simp add: wf_simps; fail)+

lemma wf_verification_completed: "keeps helper_wf (handle_verification_completed e ok p g)"
  unfolding handle_verification_completed_def finish_final_check_def finish_disconnect_check_def finish_verified_def settle_verified_def finish_unverified_def
    dispatch_next_verification_reapply_def dispatch_transient_disconnect_repair_def wp_defs
  by (intro keeps_rules wf_all keeps_modify; simp add: wf_simps split: option.split)

lemma wf_notify: "keeps helper_wf (notify_recovery_status e)"
  unfolding notify_recovery_status_def wp_defs by (intro keeps_rules wf_all keeps_modify; simp add: wf_simps)

lemma wf_resume: "keeps helper_wf resume_transient_disconnect_settlement_after_staged_reset"
  unfolding resume_transient_disconnect_settlement_after_staged_reset_def wp_defs
  by (intro keeps_rules wf_all keeps_modify; simp add: wf_simps)

lemma wf_other_completions: "keeps helper_wf (handle_reset_completed e ok)" "keeps helper_wf (handle_refresh_rate_completed e ok c g)"
  "keeps helper_wf (handle_recovery_completed e rc)" "keeps helper_wf (handle_recovery_validation_completed e ok g)"
  unfolding handle_reset_completed_def handle_refresh_rate_completed_def handle_recovery_completed_def finish_restored_def
    handle_recovery_validation_completed_def enter_event_loop_def retain_recovery_after_cancelled_recovery_def publish_status_def wp_defs
  by (intro keeps_rules wf_all wf_notify wf_resume wf_apply_completed keeps_modify; simp add: wf_simps; fail)+

lemma wf_queries: "keeps helper_wf (handle_export_golden e py k)" "keeps helper_wf (handle_snapshot_current e py k n)"
  "keeps helper_wf (handle_refresh_rate_command e c)" "keeps helper_wf (handle_ping_command e k)" "keeps helper_wf (handle_stop_command e k)"
  "keeps helper_wf (handle_recovery_status_command e rq)"
  unfolding handle_export_golden_def handle_snapshot_current_def handle_refresh_rate_command_def handle_ping_command_def
    handle_stop_command_def handle_recovery_status_command_def note_liveness_def answer_query_def apply_exclusions_def wp_defs Let_def
  by (intro keeps_rules wf_all keeps_modify; simp add: wf_simps; fail)+

lemma wf_admit: "keeps helper_wf (admit_baseline_return e)"
  unfolding admit_baseline_return_def wp_defs
  by (intro keeps_rules wf_all wf_verify_now keeps_modify; simp add: wf_simps)

lemma wf_events: "keeps helper_wf (handle_display_event e ev g k)" "keeps helper_wf (handle_helper_event e g k)"
  "keeps helper_wf (handle_tick e)"
  unfolding handle_display_event_def route_display_event_def virtual_identity_event_def repair_identity_def recovery_display_event_def
    handle_helper_event_def handle_tick_def reconcile_deferred_event_def check_window_def wp_defs Let_def
  by (intro keeps_rules wf_all wf_admit keeps_modify; simp add: wf_simps; fail)+

lemma wf_message: "keeps helper_wf (handle_message e m)"
proof -
  have "keeps helper_wf (handle_payload e m)"
    unfolding handle_payload_def
    by (cases m) (simp_all add: wf_commands wf_queries wf_apply_completed wf_verification_completed wf_other_completions wf_events)
  then show ?thesis
    unfolding handle_message_def by (rule keeps_bind) (rule wf_notify)
qed

lemma wf_disconnected: "keeps helper_wf (on_disconnected e k)"
  unfolding on_disconnected_def begin_transient_disconnect_settlement_def should_defer_disconnect_recovery_def wp_defs
  by (intro keeps_rules wf_all keeps_modify; simp add: wf_simps split: option.split)

lemma wf_delivers: "helper_wf s \<Longrightarrow> delivers s m s0 \<Longrightarrow> helper_wf s0"
  by (elim deliversE) (simp_all add: helper_wf_def)

lemma wf_step:
  assumes "helper_step e s t" "helper_wf s"
  shows "helper_wf t"
  using assms
proof cases
  case (message m s0)
  with assms(2) show ?thesis by (auto intro: keeps_exec[OF wf_message] wf_delivers)
next
  case tick
  with assms(2) show ?thesis by (simp add: keeps_exec[OF wf_events(3)])
next
  case (disconnect k)
  with assms(2) show ?thesis by (simp add: keeps_exec[OF wf_disconnected])
qed (use assms(2) in \<open>auto simp: helper_wf_def\<close>)

lemma wf_new: "helper_wf helper_new"
  by (simp add: helper_wf_def helper_new_def one_intent_def revision_ok_def status_new_def scheduler_new_def)

interpretation helper: invariant_system "\<lambda>s. s = helper_new" "helper_step e" helper_wf
  for e
  by unfold_locales (auto intro: wf_step simp: wf_new)

section \<open>Counters in range\<close>

text \<open>A system that answers every question the same way, for examples.\<close>

definition still_env :: "nat \<Rightarrow> helper_env" where
  "still_env epoch = \<lparr>le_capture = (\<lambda>_. \<lparr>sn_topology = [], sn_modes = [], sn_hdr_states = [],
       sn_primary_device = [], sn_origins = []\<rparr>), le_enumerate = (\<lambda>_. []),
     le_topology_is_valid = (\<lambda>_ _. True), le_layouts = (\<lambda>_ _. []), le_write_ok = (\<lambda>_. True), le_observe = (\<lambda>_. None),
     le_try_enumerate = (\<lambda>_. None), he_epoch = (\<lambda>_. epoch), he_now = (\<lambda>_. 0), he_now_ms = (\<lambda>_. 0), he_device_id = (\<lambda>_. []),
     he_create_task = (\<lambda>_. True), he_marker_io = (\<lambda>_. True)\<rparr>"

text \<open>
  (C9) Whatever arrives in whatever order, the helper's counters stay in range: no job and no fence is of a
  generation that has not been given out, the backoff index points into the table of eight delays, at most two
  delayed checks and two repairs of an identity are counted, the event revision never falls below the base
  that is subtracted from it, and at most one command of a session waits behind the fence.
\<close>

theorem helper_well_formed:
  assumes "(helper_step e)\<^sup>*\<^sup>* helper_new s"
  shows "(\<forall>j \<in> set (hm_tasks s) \<union> snd ` set (hm_timers s). job_generation j \<le> hm_generation s) \<and>
    (\<forall>k g. hm_worker s = Some (k, g) \<longrightarrow> g \<le> hm_generation s) \<and>
    rs_backoff_index (hm_scheduler s) < length kRestoreBackoffProfile \<and>
    td_next_check (hm_settlement s) \<le> length kDelays \<and>
    hm_identity_discoveries s \<le> 2 \<and> hm_identity_repairs s \<le> 2 \<and>
    sp_ticket_event_revision_base (hm_status s) \<le> sp_event_revision (hm_status s) \<and>
    length (filter (\<lambda>d. \<not> is_reset d) (hm_deferred s)) \<le> 1"
  using helper.reach_inv[OF refl assms]
  by (auto simp: helper_wf_def revision_ok_def one_intent_def kDelays_def kRestoreBackoffProfile_def)

definition started :: helper where
  "started = exec (handle_message (still_env 1)
     (M_apply \<lparr>cm_request = empty_request, cm_connection_epoch = 1\<rparr>)) helper_new"

lemma started_reachable: "(helper_step (still_env 1))\<^sup>*\<^sup>* helper_new started"
  unfolding started_def
  by (rule r_into_rtranclp, rule helper_step.message) (simp_all add: helper_new_def delivers.command is_completion_def)

theorem helper_well_formed_witness:
  "rs_backoff_index (hm_scheduler started) < length kRestoreBackoffProfile \<and> td_next_check (hm_settlement started) \<le> length kDelays"
  using helper_well_formed[OF started_reachable] by blast

end
