(* ===== verification/Helper_Results.thy ===== *)
theory Helper_Results
  imports Helper_Safety
begin

text \<open>
  What the host is told. A confirmation is a positive
  verification result; all but two of the programs send none. That a result was sent is marked, and all but
  the programs behind an APPLY or a DISARM keep the mark.
\<close>

section \<open>Confirmations\<close>

definition confirms :: "reply \<Rightarrow> bool" where
  "confirms r = (case r of R_verification ok _ _ \<Rightarrow> ok | _ \<Rightarrow> False)"

definition confirmed :: "reply list \<Rightarrow> helper \<Rightarrow> bool" where
  "confirmed rs s \<longleftrightarrow> filter confirms (hm_out s) = rs"

lemma confirms_simps [simp]:
  "confirms (R_verification ok k i) = ok" "\<not> confirms (R_apply st k i)" "\<not> confirms (R_snapshot b k i)" "\<not> confirms (R_refresh_rate b k i)"
  "\<not> confirms (R_recovery_status a rst c d f)" "\<not> confirms (R_exit n)" "\<not> confirms R_clear_hdr_blank" "\<not> confirms R_refresh_shell"
  "\<not> confirms (R_create_restore_task b)" "\<not> confirms R_delete_restore_task"
  by (simp_all add: confirms_def)

lemma quiet_frames: "confirmed rs s \<Longrightarrow> confirmed rs (s\<lparr>po_reads := r\<rparr>)" "confirmed rs s \<Longrightarrow> confirmed rs (s\<lparr>ld_store := st\<rparr>)"
  by (simp_all add: confirmed_def)

lemmas quiet_ports = keeps_ask[of "confirmed rs" for rs, OF quiet_frames(1)] keeps_ledger[of "confirmed rs" for rs, OF quiet_frames]
  keeps_is_stale_connection[of "confirmed rs" for rs, OF quiet_frames(1)]

lemmas dispatch_defs = cancel_operations_def launch_def push_task_def dispatch_apply_worker_def dispatch_verification_def
  dispatch_reset_staged_apply_state_def

lemma quiet_commands: "keeps (confirmed rs) (handle_deferred e d)"
  unfolding handle_deferred_def adopt_request_def command_defs dispatch_defs wp_defs
  by (cases d) (simp_all only: deferred_command.case, (intro keeps_rules quiet_ports keeps_modify; simp add: confirmed_def Let_def; fail)+)

lemma quiet_drain: "keeps (confirmed rs) (drain_deferred_mutation_commands e)"
  by (rule keeps_drain, rule keeps_exec[OF quiet_commands]) (simp add: confirmed_def)

lemma quiet_intent: "keeps (confirmed rs) (has_deferred_apply_intent e)"
proof -
  have "keeps (confirmed rs) (live_intent e q)" for q
    by (induction q) (auto intro!: keeps_rules quiet_ports split: deferred_command.split)
  then show ?thesis
    unfolding has_deferred_apply_intent_def by (intro keeps_rules)
qed

lemmas quiet_parts = quiet_ports quiet_drain quiet_intent

lemma quiet_settlement: "keeps (confirmed rs) (enter_steady_state e)" "keeps (confirmed rs) dispatch_next_transient_disconnect_verification"
  "keeps (confirmed rs) dispatch_transient_disconnect_final_verification" "keeps (confirmed rs) dispatch_settings_only_repair"
  "keeps (confirmed rs) defer_transient_disconnect_settlement_for_staged_reset" "keeps (confirmed rs) (start_recovery e n)"
  "keeps (confirmed rs) begin_staged_state_reset" "keeps (confirmed rs) (exit_callback e c)" "keeps (confirmed rs) (notify_recovery_status e)"
  "keeps (confirmed rs) resume_transient_disconnect_settlement_after_staged_reset" "keeps (confirmed rs) (report_results st)"
  unfolding enter_steady_state_def settlement_defs dispatch_defs start_recovery_def begin_staged_state_reset_def exit_callback_def
    notify_recovery_status_def report_results_def send_apply_result_def send_verification_result_def
    defer_transient_disconnect_settlement_for_staged_reset_def wp_defs Let_def
  by (intro keeps_rules quiet_parts keeps_modify; simp add: confirmed_def; fail)+

lemma quiet_apply_completed:
  "keeps (confirmed rs) (finish_apply_completed e c)" "keeps (confirmed rs) (finish_cancelled_apply e c)"
  unfolding finish_apply_completed_def absorb_completion_def finish_rollback_def yield_to_newer_def conclude_apply_def conclude_ok_def
    conclude_failed_def settle_after_repair_def settle_failed_def report_failed_def wants_virtual_display_reset_def confirm_session_def
    finish_cancelled_apply_def retain_recovery_after_display_mutation_def note_armed_task_def ensure_restore_task_def
    reset_uncommitted_staged_state_if_needed_def prepare_transient_disconnect_settlement_def
    dispatch_apply_worker_def dispatch_verification_def launch_def push_task_def cancel_operations_def wp_defs Let_def
  by (intro keeps_rules quiet_parts quiet_settlement keeps_modify; simp add: confirmed_def; fail)+

lemma quiet_completions:
  "keeps (confirmed rs) (handle_reset_completed e ok)" "keeps (confirmed rs) (handle_refresh_rate_completed e ok rf g)"
  "keeps (confirmed rs) (handle_recovery_completed e rc)" "keeps (confirmed rs) (handle_recovery_validation_completed e ok g)"
  "keeps (confirmed rs) (finish_unverified e p)" "keeps (confirmed rs) (finish_final_check e ok)" "keeps (confirmed rs) (finish_disconnect_check e ok)"
  unfolding handle_reset_completed_def handle_refresh_rate_completed_def handle_recovery_completed_def finish_restored_def
    handle_recovery_validation_completed_def enter_event_loop_def retain_recovery_after_cancelled_recovery_def publish_status_def
    finish_unverified_def finish_final_check_def finish_disconnect_check_def dispatch_next_verification_reapply_def
    dispatch_exclusive_topology_rollback_def dispatch_transient_disconnect_repair_def confirm_session_def
    prepare_transient_disconnect_settlement_def send_apply_result_def send_verification_result_def
    dispatch_apply_worker_def launch_def push_task_def cancel_operations_def wp_defs Let_def
  by (intro keeps_rules quiet_parts quiet_settlement quiet_apply_completed keeps_modify; simp add: confirmed_def; fail)+

lemma quiet_events: "keeps (confirmed rs) (handle_display_event e ev g k)" "keeps (confirmed rs) (handle_helper_event e g k)"
  "keeps (confirmed rs) (handle_tick e)"
  unfolding handle_display_event_def admit_baseline_return_def route_display_event_def virtual_identity_event_def repair_identity_def
    recovery_display_event_def handle_helper_event_def handle_tick_def reconcile_deferred_event_def check_window_def
    reapply_for_identity_def queue_after_active_mutation_def abandon_session_def clear_recovery_state_def
    consume_virtual_identity_repair_def consume_virtual_identity_discovery_def dispatch_defs wp_defs Let_def
  by (intro keeps_rules quiet_parts quiet_settlement keeps_modify; simp add: confirmed_def; fail)+

lemma quiet_queries: "keeps (confirmed rs) (handle_export_golden e py k)" "keeps (confirmed rs) (handle_snapshot_current e py k n)"
  "keeps (confirmed rs) (handle_refresh_rate_command e c)" "keeps (confirmed rs) (handle_ping_command e k)"
  "keeps (confirmed rs) (handle_stop_command e k)" "keeps (confirmed rs) (handle_recovery_status_command e rq)"
  unfolding query_defs dispatch_defs wp_defs Let_def
  by (intro keeps_rules quiet_parts quiet_settlement keeps_modify; simp add: confirmed_def; fail)+

text \<open>The two programs that confirm.\<close>

definition confirmation :: "helper \<Rightarrow> reply" where
  "confirmation s = R_verification True (hm_connection_epoch s) (aq_request_id (hm_current_request s))"

lemma exec_bind: "exec (State_Monad.bind m (\<lambda>_. n)) s = exec n (exec m s)"
  by (simp add: exec_def case_prod_beta)

lemma keeps_weaken: "keeps I m \<Longrightarrow> I s \<Longrightarrow> (\<And>t. I t \<Longrightarrow> Q t) \<Longrightarrow> wp m (\<lambda>_. Q) s"
  by (blast intro: wp_weaken keepsD)

lemma finish_verified_confirms:
  assumes "confirmed rs s"
  shows "wp (finish_verified e p) (\<lambda>_ t. confirmed rs t \<or>
    p \<noteq> BaselineTopologyReturn \<and> p \<noteq> BaselineTopologyRepair \<and> \<not> hm_verification_result_sent s \<and>
    confirmed (rs @ [confirmation s]) t) s" (is "wp _ (\<lambda>_ t. _ \<or> ?new t) s")
proof (cases "p = BaselineTopologyReturn \<or> p = BaselineTopologyRepair")
  case True
  then show ?thesis
    using assms unfolding finish_verified_def
    by (simp add: wp_rules) (rule keeps_weaken[OF quiet_settlement(1)], auto simp: confirmed_def)
next
  case False
  have quiet: "keeps (confirmed rs') (settle_verified e b)" for rs' b
    unfolding settle_verified_def by (intro keeps_rules quiet_settlement)
  have new: "confirmed (rs @ [confirmation s]) t \<Longrightarrow> wp (settle_verified e b) (\<lambda>_ t. P t \<or> confirmed (rs @ [confirmation s]) t) t" for t b P
    by (rule keeps_weaken[OF quiet]) auto
  have sent: "confirmed (rs @ [confirmation s]) t" if "hm_out t = hm_out s @ xs @ [confirmation s]" "\<forall>x \<in> set xs. \<not> confirms x" for t xs
    using assms that by (simp add: confirmed_def filter_empty_conv confirmation_def)
  show ?thesis
    using assms False unfolding finish_verified_def confirm_session_def send_apply_result_def send_verification_result_def wp_defs
    by (auto simp: wp_rules confirmation_def[symmetric] confirmed_def[of _ "s\<lparr>hm_out := x\<rparr>" for x] intro: keepsD[OF quiet] intro!: new sent)
qed

lemma handle_verification_confirms:
  assumes "confirmed rs s"
  shows "wp (handle_verification_completed e ok p g) (\<lambda>_ t. confirmed rs t \<or>
    ok \<and> p = Initial \<and> g = hm_generation s \<and> \<not> hm_verification_result_sent s \<and> confirmed (rs @ [confirmation s]) t) s"
proof (cases "ok \<and> p \<in> {Initial, BaselineTopologyReturn, BaselineTopologyRepair} \<and> g = hm_generation s")
  case True
  then have "wp (handle_verification_completed e ok p g) Q s = wp (finish_verified e p) Q s" for Q
    unfolding handle_verification_completed_def is_stale_def by (auto simp: wp_rules)
  then show ?thesis
    using True by (auto intro!: wp_weaken[OF finish_verified_confirms[OF assms]])
next
  case False
  have "wp (handle_verification_completed e ok p g) (\<lambda>_. confirmed rs) s"
    unfolding handle_verification_completed_def is_stale_def wp_defs
    using assms False keepsD[OF quiet_completions(5)] keepsD[OF quiet_completions(6)] keepsD[OF quiet_completions(7)]
    by (cases p) (auto simp: wp_rules confirmed_def)
  then show ?thesis
    by (rule wp_weaken) simp
qed

definition reactivation_confirmation :: "apply_command \<Rightarrow> reply" where
  "reactivation_confirmation command = R_verification True (cm_connection_epoch command) (aq_request_id (cm_request command))"

lemma finish_reactivation_confirms:
  assumes "confirmed rs s"
  shows "wp (finish_reactivation e command c) (\<lambda>_ t. confirmed rs t \<or>
    ac_status c = St_ok \<and> confirmed (rs @ [reactivation_confirmation command]) t) s"
proof -
  have drain: "confirmed rs' t \<Longrightarrow> (\<And>u. confirmed rs' u \<Longrightarrow> Q u) \<Longrightarrow> wp (drain_deferred_mutation_commands e) (\<lambda>_. Q) t" for rs' t Q
    by (rule keeps_weaken[OF quiet_drain])
  have "wp (do { emit (R_apply st (cm_connection_epoch command) (aq_request_id (cm_request command)));
      emit (R_verification (st = St_ok) (cm_connection_epoch command) (aq_request_id (cm_request command)));
      drain_deferred_mutation_commands e }) (\<lambda>_ t. confirmed rs t \<or> ac_status c = St_ok \<and> confirmed (rs @ [reactivation_confirmation command]) t) t"
    if "confirmed rs t" "st = ac_status c \<or> st = Retryable" for st t
    unfolding emit_def wp_bind wp_modify
    by (rule drain[of "if st = St_ok then rs @ [reactivation_confirmation command] else rs"])
      (use that in \<open>auto simp: confirmed_def reactivation_confirmation_def split: if_splits\<close>)
  then have tail: "confirmed rs t \<Longrightarrow> wp (do { let st = (if b then Retryable else ac_status c);
      emit (R_apply st (cm_connection_epoch command) (aq_request_id (cm_request command)));
      emit (R_verification (st = St_ok) (cm_connection_epoch command) (aq_request_id (cm_request command)));
      drain_deferred_mutation_commands e }) (\<lambda>_ t. confirmed rs t \<or> ac_status c = St_ok \<and> confirmed (rs @ [reactivation_confirmation command]) t) t" for b t
    unfolding Let_def by simp
  have "keeps (confirmed rs) (do { modify (\<lambda>s. s\<lparr>hm_reactivation := None\<rparr>); live \<leftarrow> has_deferred_apply_intent e;
      (if live then return True else is_stale_connection e (cm_connection_epoch command)) })"
    by (intro keeps_rules quiet_parts keeps_modify) (simp add: confirmed_def)
  from keepsD[OF this assms] show ?thesis
    unfolding finish_reactivation_def by (subst (asm) wp_bind) (subst wp_bind, erule wp_weaken, subst wp_bind, subst (asm) wp_bind, erule wp_weaken, subst wp_bind, erule wp_weaken, rule tail)
qed

lemma handle_apply_completed_confirms:
  assumes "confirmed rs s"
  shows "wp (handle_apply_completed e c) (\<lambda>_ t. confirmed rs t \<or> ac_status c = St_ok \<and> hm_worker s = Some (Wk_apply, hm_generation s) \<and>
    (\<exists>command. hm_reactivation s = Some command \<and> confirmed (rs @ [reactivation_confirmation command]) t)) s"
proof (cases "owns_active_worker Wk_apply (ac_generation c) s")
  case True
  let ?s = "exec (retire_worker c) s"
  have s: "confirmed rs ?s" "hm_generation ?s = hm_generation s" "hm_reactivation ?s = hm_reactivation s"
    using assms by (simp_all add: confirmed_def retire_worker_def exec_def)
  have "wp (handle_apply_completed e c) Q s = wp (if ac_generation c \<noteq> hm_generation s then finish_cancelled_apply e c
      else (case hm_reactivation s of Some command \<Rightarrow> finish_reactivation e command c | None \<Rightarrow> finish_apply_completed e c)) Q ?s" for Q
    using True s unfolding handle_apply_completed_def is_stale_def by (simp add: wp_rules retire_worker_def exec_def)
  then show ?thesis
    using True by (auto simp: owns_active_worker_def intro!: keepsD[OF quiet_apply_completed(1) s(1)] keepsD[OF quiet_apply_completed(2) s(1)]
        wp_weaken[OF finish_reactivation_confirms[OF s(1)]] split: option.split)
qed (use assms in \<open>simp add: handle_apply_completed_def is_stale_def wp_rules\<close>)

lemmas quiet_handlers = quiet_commands[of rs e "D_apply c" for rs e c, simplified handle_deferred_def deferred_command.case]
  quiet_commands[of rs e "D_revert c" for rs e c, simplified handle_deferred_def deferred_command.case]
  quiet_commands[of rs e "D_disarm c" for rs e c, simplified handle_deferred_def deferred_command.case]
  quiet_commands[of rs e "D_reset k" for rs e k, simplified handle_deferred_def deferred_command.case]
  quiet_queries quiet_completions(1-4) quiet_events(1,2)

lemma payload_confirms:
  assumes "confirmed rs s"
  shows "wp (handle_payload e m) (\<lambda>_ t. confirmed rs t \<or>
    m = M_verification_completed True Initial (hm_generation s) \<and> \<not> hm_verification_result_sent s \<and> confirmed (rs @ [confirmation s]) t \<or>
    (\<exists>c command. m = M_apply_completed c \<and> ac_status c = St_ok \<and> hm_worker s = Some (Wk_apply, hm_generation s) \<and>
       hm_reactivation s = Some command \<and> confirmed (rs @ [reactivation_confirmation command]) t)) s"
proof (cases m)
  case (M_verification_completed ok p g)
  then show ?thesis
    by (auto simp: handle_payload_def intro!: wp_weaken[OF handle_verification_confirms[OF assms]])
next
  case (M_apply_completed c)
  then show ?thesis
    by (auto simp: handle_payload_def intro!: wp_weaken[OF handle_apply_completed_confirms[OF assms]])
qed (use assms in \<open>auto simp: handle_payload_def intro!: quiet_handlers[THEN keepsD]\<close>)

section \<open>One confirmation for a request\<close>

text \<open>The mark that the result was sent. Only an adopted APPLY and a DISARM take it back; while none of them
  waits behind the fence, every other program keeps it.\<close>

definition takes_back :: "deferred_command \<Rightarrow> bool" where
  "takes_back d = (case d of D_apply _ \<Rightarrow> True | D_disarm _ \<Rightarrow> True | _ \<Rightarrow> False)"

definition marked :: "helper \<Rightarrow> bool" where
  "marked s \<longleftrightarrow> hm_verification_result_sent s \<and> \<not> list_ex takes_back (hm_deferred s)"

lemma takes_back_simps [simp]: "takes_back (D_apply c)" "takes_back (D_disarm dc)" "\<not> takes_back (D_repair i k)" "\<not> takes_back (D_reset k)"
  "\<not> takes_back (D_revert rc)"
  by (simp_all add: takes_back_def)

lemma enqueue_takes_back: "\<not> list_ex takes_back q \<Longrightarrow> \<not> takes_back d \<Longrightarrow> \<not> list_ex takes_back (enqueue_deferred d q)"
  by (auto simp: enqueue_deferred_def list_ex_iff)

lemma marked_frames: "marked s \<Longrightarrow> marked (s\<lparr>po_reads := r\<rparr>)" "marked s \<Longrightarrow> marked (s\<lparr>ld_store := st\<rparr>)"
  by (simp_all add: marked_def)

lemmas marked_ports = keeps_ask[of marked, OF marked_frames(1)] keeps_ledger[of marked, OF marked_frames]
  keeps_is_stale_connection[of marked, OF marked_frames(1)]

lemmas marked_simps = marked_def enqueue_takes_back Let_def

lemma marked_commands: "\<not> takes_back d \<Longrightarrow> keeps marked (handle_deferred e d)"
  unfolding handle_deferred_def command_defs dispatch_defs wp_defs
  by (cases d) (simp_all only: deferred_command.case takes_back_simps not_True_eq_False not_False_eq_True,
    (intro keeps_rules marked_ports keeps_modify; simp add: marked_simps; fail)+)

lemma marked_drain: "keeps marked (drain_deferred_mutation_commands e)"
  by (rule keeps_drain, rule keeps_exec[OF marked_commands]) (simp_all add: marked_def)

lemma marked_intent: "keeps marked (has_deferred_apply_intent e)"
proof -
  have "keeps marked (live_intent e q)" for q
    by (induction q) (auto intro!: keeps_rules marked_ports split: deferred_command.split)
  then show ?thesis
    unfolding has_deferred_apply_intent_def by (intro keeps_rules)
qed

lemmas marked_parts = marked_ports marked_drain marked_intent

lemma marked_settlement: "keeps marked (enter_steady_state e)" "keeps marked dispatch_next_transient_disconnect_verification"
  "keeps marked dispatch_transient_disconnect_final_verification" "keeps marked dispatch_settings_only_repair"
  "keeps marked defer_transient_disconnect_settlement_for_staged_reset" "keeps marked (start_recovery e n)"
  "keeps marked begin_staged_state_reset" "keeps marked (exit_callback e c)" "keeps marked (notify_recovery_status e)"
  "keeps marked resume_transient_disconnect_settlement_after_staged_reset" "keeps marked (report_results st)"
  unfolding enter_steady_state_def settlement_defs dispatch_defs start_recovery_def begin_staged_state_reset_def exit_callback_def
    notify_recovery_status_def report_results_def send_apply_result_def send_verification_result_def
    defer_transient_disconnect_settlement_for_staged_reset_def wp_defs Let_def
  by (intro keeps_rules marked_parts keeps_modify; simp add: marked_def; fail)+

lemma marked_apply_completed: "keeps marked (handle_apply_completed e c)" "keeps marked (finish_apply_completed e c)"
  unfolding handle_apply_completed_def finish_reactivation_def retire_worker_def
    finish_apply_completed_def absorb_completion_def finish_rollback_def yield_to_newer_def conclude_apply_def conclude_ok_def
    conclude_failed_def settle_after_repair_def settle_failed_def report_failed_def wants_virtual_display_reset_def confirm_session_def
    finish_cancelled_apply_def retain_recovery_after_display_mutation_def note_armed_task_def ensure_restore_task_def
    reset_uncommitted_staged_state_if_needed_def prepare_transient_disconnect_settlement_def
    dispatch_apply_worker_def dispatch_verification_def launch_def push_task_def cancel_operations_def wp_defs Let_def
  by (intro keeps_rules marked_parts marked_settlement keeps_modify; simp add: marked_def; fail)+

lemma marked_completions:
  "keeps marked (handle_reset_completed e ok)" "keeps marked (handle_refresh_rate_completed e ok rf g)"
  "keeps marked (handle_recovery_completed e rc)" "keeps marked (handle_verification_completed e ok p g)"
  "keeps marked (handle_recovery_validation_completed e ok g)"
  unfolding handle_reset_completed_def handle_refresh_rate_completed_def handle_recovery_completed_def finish_restored_def
    handle_recovery_validation_completed_def
    enter_event_loop_def retain_recovery_after_cancelled_recovery_def publish_status_def handle_verification_completed_def
    finish_verified_def settle_verified_def finish_unverified_def finish_final_check_def finish_disconnect_check_def dispatch_next_verification_reapply_def
    dispatch_exclusive_topology_rollback_def dispatch_transient_disconnect_repair_def confirm_session_def
    prepare_transient_disconnect_settlement_def send_apply_result_def send_verification_result_def
    dispatch_apply_worker_def launch_def push_task_def cancel_operations_def wp_defs Let_def
  by (intro keeps_rules marked_parts marked_settlement marked_apply_completed keeps_modify; simp add: marked_def; fail)+

lemma marked_events: "keeps marked (handle_display_event e ev g k)"
  unfolding handle_display_event_def admit_baseline_return_def route_display_event_def virtual_identity_event_def repair_identity_def
    recovery_display_event_def reapply_for_identity_def queue_after_active_mutation_def
    consume_virtual_identity_repair_def consume_virtual_identity_discovery_def dispatch_defs wp_defs Let_def
  by (intro keeps_rules marked_parts marked_settlement keeps_modify; simp add: marked_simps; fail)+

lemma marked_queries: "keeps marked (handle_export_golden e py k)" "keeps marked (handle_snapshot_current e py k n)"
  "keeps marked (handle_refresh_rate_command e c)" "keeps marked (handle_ping_command e k)"
  "keeps marked (handle_stop_command e k)" "keeps marked (handle_recovery_status_command e rq)"
  unfolding query_defs dispatch_defs wp_defs Let_def
  by (intro keeps_rules marked_parts marked_settlement keeps_modify; simp add: marked_def; fail)+

text \<open>The timer, a broken pipe and a missed heartbeat do not reach the queue; they keep the mark alone.\<close>

abbreviation sent :: "helper \<Rightarrow> bool" where "sent \<equiv> hm_verification_result_sent"

lemma sent_frames: "sent s \<Longrightarrow> sent (s\<lparr>po_reads := r\<rparr>)" "sent s \<Longrightarrow> sent (s\<lparr>ld_store := st\<rparr>)"
  by simp_all

lemmas sent_ports = keeps_ask[of sent, OF sent_frames(1)] keeps_ledger[of sent, OF sent_frames]
  keeps_is_stale_connection[of sent, OF sent_frames(1)]

lemma sent_intent: "keeps sent (has_deferred_apply_intent e)"
proof -
  have "keeps sent (live_intent e q)" for q
    by (induction q) (auto intro!: keeps_rules sent_ports split: deferred_command.split)
  then show ?thesis
    unfolding has_deferred_apply_intent_def by (intro keeps_rules)
qed

lemma sent_timers: "keeps sent (handle_tick e)" "keeps sent (on_disconnected e k)" "keeps sent (handle_helper_event e g k)"
  "keeps sent (notify_recovery_status e)" "keeps sent (settle_verified e b)"
  unfolding handle_tick_def reconcile_deferred_event_def check_window_def on_disconnected_def settlement_defs settle_verified_def
    enter_steady_state_def dispatch_transient_disconnect_final_verification_def handle_helper_event_def abandon_session_def
    clear_recovery_state_def queue_after_active_mutation_def start_recovery_def notify_recovery_status_def
    defer_transient_disconnect_settlement_for_staged_reset_def dispatch_defs wp_defs Let_def
  by (intro keeps_rules sent_ports sent_intent keeps_modify; simp; fail)+

lemmas marked_handlers = marked_commands[of "D_revert c" for c, OF takes_back_simps(5), simplified handle_deferred_def deferred_command.case]
  marked_commands[of "D_reset k" for k, OF takes_back_simps(4), simplified handle_deferred_def deferred_command.case]
  marked_queries marked_apply_completed(1) marked_completions marked_events

lemma mark_kept:
  assumes "marked s" "\<forall>c. m \<noteq> M_apply c" "\<forall>c. m \<noteq> M_disarm c"
  shows "sent (exec (handle_message e m) s)"
proof -
  have "wp (handle_payload e m) (\<lambda>_. marked) s" if "\<forall>g k. m \<noteq> M_heartbeat_timeout g k"
    by (cases m) (use assms that in \<open>auto simp: handle_payload_def intro!: marked_handlers[THEN keepsD]\<close>)
  moreover have "wp (handle_helper_event e g k) (\<lambda>_. sent) s" for g k
    using keepsD[OF sent_timers(3)] assms(1) by (simp add: marked_def)
  ultimately have "wp (handle_payload e m) (\<lambda>_. sent) s"
    by (cases "\<exists>g k. m = M_heartbeat_timeout g k") (auto simp: handle_payload_def marked_def elim: wp_weaken)
  then show ?thesis
    by (simp add: handle_message_def exec_bind wp_exec keeps_exec[OF sent_timers(4)])
qed

text \<open>A check that confirms leaves the mark.\<close>

lemma finish_verified_marks:
  "wp (finish_verified e p) (\<lambda>_. sent) s \<or> p = BaselineTopologyReturn \<or> p = BaselineTopologyRepair"
proof (cases "p = BaselineTopologyReturn \<or> p = BaselineTopologyRepair")
  case False
  then show ?thesis
    unfolding finish_verified_def confirm_session_def send_apply_result_def send_verification_result_def wp_defs
    by (auto simp: wp_rules intro!: keepsD[OF sent_timers(5)])
qed simp

lemma check_marks: "sent (exec (handle_message e (M_verification_completed True Initial (hm_generation s))) s)"
proof -
  have "wp (handle_verification_completed e True Initial (hm_generation s)) Q s = wp (finish_verified e Initial) Q s" for Q
    unfolding handle_verification_completed_def is_stale_def by (auto simp: wp_rules)
  then have "wp (handle_payload e (M_verification_completed True Initial (hm_generation s))) (\<lambda>_. sent) s"
    using finish_verified_marks[of e Initial s] by (simp add: handle_payload_def)
  then show ?thesis
    by (simp add: handle_message_def exec_bind wp_exec keeps_exec[OF sent_timers(4)])
qed

text \<open>
  (C6) The host is told that its display configuration is in effect only when it is: a positive verification
  result follows a successful check of the current generation, carries the number of the request that was
  checked, goes to the connection that made it, and is sent only if no result was sent for this request
  before; that it was sent is then marked, and the mark is not taken back by any message but an APPLY or a
  DISARM, delivered or waiting behind the fence, nor by the timer or a broken pipe. Or it follows a
  successful reactivation of the verified session and answers the command that asked for it. No other
  message, in any order, confirms.
\<close>

theorem capture_gate:
  assumes "(helper_step e)\<^sup>*\<^sup>* helper_new s" "delivers s m s0"
  shows "(filter confirms (hm_out (exec (handle_message e m) s0)) = filter confirms (hm_out s) \<or>
    (\<exists>r x tg js. hm_tasks s = J_verify (hm_generation s) r x tg Initial # js \<and> m = M_verification_completed True Initial (hm_generation s) \<and>
       \<not> hm_verification_result_sent s \<and> hm_verification_result_sent (exec (handle_message e m) s0) \<and>
       filter confirms (hm_out (exec (handle_message e m) s0)) =
         filter confirms (hm_out s) @ [R_verification True (hm_connection_epoch s) (aq_request_id r)]) \<or>
    (\<exists>c command. m = M_apply_completed c \<and> ac_status c = St_ok \<and> hm_worker s = Some (Wk_apply, hm_generation s) \<and>
       hm_reactivation s = Some command \<and>
       filter confirms (hm_out (exec (handle_message e m) s0)) =
         filter confirms (hm_out s) @ [R_verification True (cm_connection_epoch command) (aq_request_id (cm_request command))])) \<and>
    (hm_verification_result_sent s \<longrightarrow>
       ((\<forall>c. m \<noteq> M_apply c) \<and> (\<forall>c. m \<noteq> M_disarm c) \<and> \<not> list_ex takes_back (hm_deferred s) \<longrightarrow>
          hm_verification_result_sent (exec (handle_message e m) s0)) \<and>
       hm_verification_result_sent (exec (handle_tick e) s) \<and> hm_verification_result_sent (exec (on_disconnected e k) s))"
proof -
  define rs where "rs = filter confirms (hm_out s)"
  have wf: "helper_wf s" by (rule helper.reach_inv[OF refl assms(1)])
  have s0: "confirmed rs s0" and frame: "hm_generation s0 = hm_generation s" "hm_worker s0 = hm_worker s" "hm_reactivation s0 = hm_reactivation s"
    "confirmation s0 = confirmation s" "hm_verification_result_sent s0 = hm_verification_result_sent s" "hm_deferred s0 = hm_deferred s"
    using assms(2) by (auto simp: confirmed_def rs_def confirmation_def elim!: deliversE)
  have notify: "confirmed rs' (exec (handle_message e m) s0)" if "confirmed rs' (exec (handle_payload e m) s0)" for rs'
    using keeps_exec[OF quiet_settlement(9) that] by (simp add: handle_message_def exec_bind)
  have checked: "\<exists>r x tg js. hm_tasks s = J_verify (hm_generation s) r x tg Initial # js \<and>
      confirmation s = R_verification True (hm_connection_epoch s) (aq_request_id r)"
    if "m = M_verification_completed True Initial (hm_generation s)"
  proof -
    from assms(2) that obtain j js where j: "hm_tasks s = j # js" "completes j m"
      by (auto simp: is_completion_def elim!: deliversE)
    with that obtain r x tg where "j = J_verify (hm_generation s) r x tg Initial"
      by (auto simp: completes_def split: job.splits)
    with wf j(1) show ?thesis by (auto simp: helper_wf_def confirmation_def)
  qed
  have marks: "hm_verification_result_sent (exec (handle_message e m) s0)" if "m = M_verification_completed True Initial (hm_generation s)"
    using check_marks[of e s0] that by (simp add: frame)
  have kept: "hm_verification_result_sent (exec (handle_message e m) s0)"
    if "hm_verification_result_sent s" "\<forall>c. m \<noteq> M_apply c" "\<forall>c. m \<noteq> M_disarm c" "\<not> list_ex takes_back (hm_deferred s)"
    by (rule mark_kept) (use that frame in \<open>simp_all add: marked_def\<close>)
  have gate: "filter confirms (hm_out (exec (handle_message e m) s0)) = rs \<or>
    (\<exists>r x tg js. hm_tasks s = J_verify (hm_generation s) r x tg Initial # js \<and> m = M_verification_completed True Initial (hm_generation s) \<and>
       \<not> hm_verification_result_sent s \<and> hm_verification_result_sent (exec (handle_message e m) s0) \<and>
       filter confirms (hm_out (exec (handle_message e m) s0)) = rs @ [R_verification True (hm_connection_epoch s) (aq_request_id r)]) \<or>
    (\<exists>c command. m = M_apply_completed c \<and> ac_status c = St_ok \<and> hm_worker s = Some (Wk_apply, hm_generation s) \<and>
       hm_reactivation s = Some command \<and>
       filter confirms (hm_out (exec (handle_message e m) s0)) =
         rs @ [R_verification True (cm_connection_epoch command) (aq_request_id (cm_request command))])"
    using payload_confirms[OF s0, of e m, unfolded wp_exec frame] notify checked marks
    unfolding confirmed_def reactivation_confirmation_def by metis
  then show ?thesis
    unfolding rs_def using kept keeps_exec[OF sent_timers(1), of s e] keeps_exec[OF sent_timers(2), of s e k] by blast
qed

end
