(* ===== verification/Helper_Lease.thy ===== *)
theory Helper_Lease
  imports Helper_Results
begin

text \<open>
  The lease on the old desktop: once the displays may have been changed, the helper owes a restore until the
  host releases it or the restored desktop has been validated.
\<close>

section \<open>Programs that keep the lease\<close>

definition ends_lease :: "deferred_command \<Rightarrow> bool" where
  "ends_lease d = (case d of D_revert _ \<Rightarrow> True | D_disarm _ \<Rightarrow> True | _ \<Rightarrow> False)"

definition leased :: "helper \<Rightarrow> bool" where
  "leased s \<longleftrightarrow> hm_recovery_armed s \<and> \<not> list_ex ends_lease (hm_deferred s)"

lemma enqueue_ends_lease: "\<not> list_ex ends_lease q \<Longrightarrow> \<not> ends_lease d \<Longrightarrow> \<not> list_ex ends_lease (enqueue_deferred d q)"
  by (auto simp: enqueue_deferred_def list_ex_iff)

lemma ends_lease_simps [simp]: "\<not> ends_lease (D_apply c)" "\<not> ends_lease (D_repair i k)" "\<not> ends_lease (D_reset k)"
  "ends_lease (D_revert rc)" "ends_lease (D_disarm dc)"
  by (simp_all add: ends_lease_def)

lemma lease_frames: "leased s \<Longrightarrow> leased (s\<lparr>po_reads := r\<rparr>)" "leased s \<Longrightarrow> leased (s\<lparr>ld_store := st\<rparr>)"
  by (simp_all add: leased_def)

lemmas lease_ports = keeps_ask[of leased, OF lease_frames(1)] keeps_ledger[of leased, OF lease_frames]
  keeps_is_stale_connection[of leased, OF lease_frames(1)]

lemmas lease_simps = leased_def enqueue_ends_lease Let_def

lemma lease_commands: "\<not> ends_lease d \<Longrightarrow> keeps leased (handle_deferred e d)"
  unfolding handle_deferred_def adopt_request_def command_defs dispatch_defs wp_defs
  by (cases d) (simp_all only: deferred_command.case ends_lease_simps not_True_eq_False not_False_eq_True,
    (intro keeps_rules lease_ports keeps_modify; simp add: lease_simps; fail)+)

lemma lease_drain: "keeps leased (drain_deferred_mutation_commands e)"
  by (rule keeps_drain, rule keeps_exec[OF lease_commands]) (simp_all add: leased_def)

lemma lease_intent: "keeps leased (has_deferred_apply_intent e)"
proof -
  have "keeps leased (live_intent e q)" for q
    by (induction q) (auto intro!: keeps_rules lease_ports split: deferred_command.split)
  then show ?thesis
    unfolding has_deferred_apply_intent_def by (intro keeps_rules)
qed

lemmas lease_parts = lease_ports lease_drain lease_intent

lemma lease_settlement: "keeps leased (enter_steady_state e)" "keeps leased dispatch_next_transient_disconnect_verification"
  "keeps leased dispatch_transient_disconnect_final_verification" "keeps leased dispatch_settings_only_repair"
  "keeps leased defer_transient_disconnect_settlement_for_staged_reset" "keeps leased (start_recovery e n)"
  "keeps leased begin_staged_state_reset" "keeps leased (exit_callback e c)" "keeps leased (notify_recovery_status e)"
  "keeps leased resume_transient_disconnect_settlement_after_staged_reset" "keeps leased (report_results st)"
  "keeps leased (begin_transient_disconnect_settlement e)"
  unfolding enter_steady_state_def settlement_defs dispatch_defs start_recovery_def begin_staged_state_reset_def exit_callback_def
    notify_recovery_status_def report_results_def send_apply_result_def send_verification_result_def
    defer_transient_disconnect_settlement_for_staged_reset_def wp_defs Let_def
  by (intro keeps_rules lease_parts keeps_modify; simp add: leased_def; fail)+

lemma lease_apply_completed: "keeps leased (handle_apply_completed e c)" "keeps leased (finish_apply_completed e c)"
  "keeps leased (if ac_exclusive_rollback_only c then finish_rollback e
     else do { yielded \<leftarrow> yield_to_newer e c; if yielded then return () else conclude_apply e c b })"
  unfolding handle_apply_completed_def finish_reactivation_def retire_worker_def
    finish_apply_completed_def absorb_completion_def finish_rollback_def yield_to_newer_def conclude_apply_def conclude_ok_def
    conclude_failed_def settle_after_repair_def settle_failed_def report_failed_def wants_virtual_display_reset_def confirm_session_def
    finish_cancelled_apply_def retain_recovery_after_display_mutation_def note_armed_task_def ensure_restore_task_def
    reset_uncommitted_staged_state_if_needed_def prepare_transient_disconnect_settlement_def
    dispatch_apply_worker_def dispatch_verification_def launch_def push_task_def cancel_operations_def wp_defs Let_def
  by (intro keeps_rules lease_parts lease_settlement keeps_modify; simp add: leased_def; fail)+

lemma lease_completions:
  "keeps leased (handle_reset_completed e ok)" "keeps leased (handle_refresh_rate_completed e ok rf g)"
  "keeps leased (handle_recovery_completed e rc)" "keeps leased (handle_verification_completed e ok p g)"
  unfolding handle_reset_completed_def handle_refresh_rate_completed_def handle_recovery_completed_def
    enter_event_loop_def retain_recovery_after_cancelled_recovery_def publish_status_def handle_verification_completed_def
    finish_verified_def settle_verified_def finish_unverified_def finish_final_check_def finish_disconnect_check_def dispatch_next_verification_reapply_def
    dispatch_exclusive_topology_rollback_def dispatch_transient_disconnect_repair_def confirm_session_def
    prepare_transient_disconnect_settlement_def send_apply_result_def send_verification_result_def
    dispatch_apply_worker_def launch_def push_task_def cancel_operations_def wp_defs Let_def
  by (intro keeps_rules lease_parts lease_settlement lease_apply_completed keeps_modify; simp add: leased_def; fail)+

lemma lease_validation: "keeps leased (handle_recovery_validation_completed e False g)"
  unfolding handle_recovery_validation_completed_def enter_event_loop_def retain_recovery_after_cancelled_recovery_def publish_status_def
    if_False wp_defs
  by (intro keeps_rules lease_parts keeps_modify; simp add: leased_def)

lemma lease_events: "keeps leased (handle_display_event e ev g k)" "keeps leased (handle_tick e)"
  unfolding handle_display_event_def admit_baseline_return_def route_display_event_def virtual_identity_event_def repair_identity_def
    recovery_display_event_def handle_tick_def reconcile_deferred_event_def check_window_def
    reapply_for_identity_def queue_after_active_mutation_def
    consume_virtual_identity_repair_def consume_virtual_identity_discovery_def dispatch_defs wp_defs Let_def
  by (intro keeps_rules lease_parts lease_settlement keeps_modify; simp add: lease_simps; fail)+

lemma lease_queries: "keeps leased (handle_export_golden e py k)" "keeps leased (handle_snapshot_current e py k n)"
  "keeps leased (handle_refresh_rate_command e c)" "keeps leased (handle_ping_command e k)"
  "keeps leased (handle_stop_command e k)" "keeps leased (handle_recovery_status_command e rq)"
  unfolding query_defs dispatch_defs wp_defs Let_def
  by (intro keeps_rules lease_parts lease_settlement keeps_modify; simp add: leased_def; fail)+

section \<open>The lease\<close>

lemma lease_restored:
  assumes "leased s" "\<not> owns_active_worker Wk_recovery g s \<or> g \<noteq> hm_generation s"
  shows "wp (handle_recovery_validation_completed e ok g) (\<lambda>_. leased) s"
proof -
  have "keeps leased (do { retain_recovery_after_cancelled_recovery e; drain_deferred_mutation_commands e })"
    unfolding retain_recovery_after_cancelled_recovery_def wp_defs
    by (intro keeps_rules lease_parts keeps_modify; simp add: leased_def)
  from keepsD[OF this] assms show ?thesis
    unfolding handle_recovery_validation_completed_def is_stale_def by (auto simp: wp_bind wp_gets wp_if wp_modify wp_return leased_def)
qed

lemmas lease_handlers = lease_commands[of "D_apply c" for c, OF ends_lease_simps(1), simplified handle_deferred_def deferred_command.case]
  lease_commands[of "D_reset k" for k, OF ends_lease_simps(3), simplified handle_deferred_def deferred_command.case]
  lease_queries lease_apply_completed(1) lease_completions lease_events(1)

text \<open>A REVERT and a missed heartbeat start the restore instead of dropping it, if a saved desktop is left and
  the policy does not keep the display when the host is lost.\<close>

definition policy_restores :: "helper \<Rightarrow> bool" where
  "policy_restores s \<longleftrightarrow> hm_explicit_recovery_required s \<or> re_restore_on_disconnect (hm_restore_state s)"

definition revert_restores :: "revert_command \<Rightarrow> helper \<Rightarrow> bool" where
  "revert_restores c s \<longleftrightarrow> (\<exists>t. ld_store s t \<noteq> Absent) \<and>
     (rv_from_disconnect c \<longrightarrow> policy_restores s \<or> recovery_worker_in_progress s)"

abbreviation armed :: "helper \<Rightarrow> bool" where "armed \<equiv> hm_recovery_armed"

lemma armed_frames: "armed s \<Longrightarrow> armed (s\<lparr>po_reads := r\<rparr>)" "armed s \<Longrightarrow> armed (s\<lparr>ld_store := st\<rparr>)"
  by simp_all

lemmas armed_ports = keeps_ask[of armed, OF armed_frames(1)] keeps_ledger[of armed, OF armed_frames]
  keeps_is_stale_connection[of armed, OF armed_frames(1)]

lemma armed_programs: "keeps armed (start_recovery e n)" "keeps armed (queue_after_active_mutation d b)"
  "keeps armed (enqueue_deferred_mutation_command d)" "keeps armed (has_deferred_apply_intent e)" "keeps armed (notify_recovery_status e)"
proof -
  have "keeps armed (live_intent e q)" for q
    by (induction q) (auto intro!: keeps_rules armed_ports split: deferred_command.split)
  then show "keeps armed (has_deferred_apply_intent e)"
    unfolding has_deferred_apply_intent_def by (intro keeps_rules)
qed (unfold start_recovery_def queue_after_active_mutation_def notify_recovery_status_def dispatch_defs wp_defs Let_def,
  (intro keeps_rules armed_ports keeps_modify; simp; fail)+)

lemma begin_revert_arms: "wp (begin_revert e c) (\<lambda>_. armed) s"
  unfolding begin_revert_def cancel_operations_def wp_defs Let_def by (simp add: wp_rules keepsD[OF armed_programs(1)])

lemma revert_arms:
  assumes "armed s" "revert_restores c s"
  shows "wp (handle_revert_command e c) (\<lambda>_. armed) s"
proof -
  let ?J = "\<lambda>u. armed u \<and> revert_restores c u"
  have now: "wp (revert_now e c) (\<lambda>_. armed) u" if u: "?J u" for u
  proof -
    obtain t where "ld_store u t \<noteq> Absent" using u by (auto simp: revert_restores_def)
    then have "ld_store u Tier_current = Absent \<Longrightarrow> ld_store u Tier_previous = Absent \<Longrightarrow> ld_store u Tier_golden \<noteq> Absent"
      by (cases t) auto
    with u show ?thesis
      unfolding revert_now_def forget_baseline_repair_def tier_exists_def revert_restores_def policy_restores_def
      by (auto simp: wp_bind wp_gets wp_modify wp_if recovery_worker_in_progress_def intro: begin_revert_arms)
  qed
  have "keeps ?J (is_stale_connection e k)" "keeps ?J (begin_ticket c)" "keeps ?J clear_pending_hdr_blank"
    "keeps ?J (when_do (\<not> rv_from_disconnect c) (do { modify (\<lambda>s. s\<lparr>hm_explicit_recovery_required := True\<rparr>);
        reset_transient_disconnect_settlement }))" for k
    unfolding wp_defs
    by (intro keeps_rules keeps_is_stale_connection keeps_modify;
        simp add: revert_restores_def policy_restores_def recovery_worker_in_progress_def)+
  note pre = this[THEN keepsD]
  have tail: "wp (do { s \<leftarrow> gets id;
       if rv_from_disconnect c \<and> recovery_worker_in_progress s then return ()
       else if mutation_worker_active s then queue_after_active_mutation (D_revert c) True
       else if hm_reset_pending s then enqueue_deferred_mutation_command (D_revert c)
       else revert_now e c }) (\<lambda>_. armed) u" if "?J u" for u
    unfolding wp_bind wp_gets wp_if wp_return
    using that now[OF that] keepsD[OF armed_programs(2)] keepsD[OF armed_programs(3)] by simp
  show ?thesis
    unfolding handle_revert_command_def wp_bind[of "is_stale_connection e k" for k]
  proof (rule wp_weaken[OF pre(1)])
    fix stale u assume u: "?J u"
    have "wp (do { begin_ticket c; clear_pending_hdr_blank;
        when_do (\<not> rv_from_disconnect c) (do { modify (\<lambda>s. s\<lparr>hm_explicit_recovery_required := True\<rparr>); reset_transient_disconnect_settlement });
        f }) (\<lambda>_. armed) u" if "\<And>v. ?J v \<Longrightarrow> wp f (\<lambda>_. armed) v" for f
      unfolding wp_bind[of "begin_ticket c"] wp_bind[of clear_pending_hdr_blank] wp_bind[of "when_do b m" for b m]
      by (rule wp_weaken[OF pre(2)[OF u]], rule wp_weaken[OF pre(3)], assumption, rule wp_weaken[OF pre(4)], assumption, rule that)
    from this[OF tail] u show "wp (if stale then return () else do { begin_ticket c; clear_pending_hdr_blank;
        when_do (\<not> rv_from_disconnect c) (do { modify (\<lambda>s. s\<lparr>hm_explicit_recovery_required := True\<rparr>); reset_transient_disconnect_settlement });
        s \<leftarrow> gets id;
        if rv_from_disconnect c \<and> recovery_worker_in_progress s then return ()
        else if mutation_worker_active s then queue_after_active_mutation (D_revert c) True
        else if hm_reset_pending s then enqueue_deferred_mutation_command (D_revert c)
        else revert_now e c }) (\<lambda>_. armed) u"
      unfolding wp_if wp_return by simp
  qed (use assms in simp)
qed

lemma heartbeat_arms:
  assumes "armed s" "policy_restores s"
  shows "wp (handle_helper_event e g k) (\<lambda>_. armed) s"
proof -
  have intent: "wp (has_deferred_apply_intent e) Q u" if "armed u" "\<And>x t. armed t \<Longrightarrow> Q x t" for Q u
    by (rule wp_weaken[OF keepsD[OF armed_programs(4) that(1)]]) (rule that(2))
  have restart: "keeps armed (do { cancel_operations; disarm_heartbeat; reset_apply_verification_state; forget_baseline_repair;
      modify (\<lambda>s. s\<lparr>hm_golden := reset_request_tracking (hm_golden s)\<rparr>); t \<leftarrow> now e;
      modify (\<lambda>s. s\<lparr>hm_scheduler := arm_primary t (milliseconds 5000) (hm_scheduler s)\<rparr>); start_recovery e (milliseconds 5000) })"
    unfolding cancel_operations_def wp_defs by (intro keeps_rules armed_ports armed_programs keeps_modify; simp)
  have body: "wp (do { u \<leftarrow> gets id;
      let keep = (\<not> hm_explicit_recovery_required u \<and> \<not> re_restore_on_disconnect (hm_restore_state u));
      if r \<or> sp_parked (hm_status u) \<or> \<not> hm_recovery_armed u \<or> recovery_worker_in_progress u then return ()
      else if mutation_worker_active u
      then do { live \<leftarrow> has_deferred_apply_intent e; if live then return ()
        else if keep then queue_after_active_mutation d True else queue_after_active_mutation d' True }
      else if keep then abandon_session
      else do { cancel_operations; disarm_heartbeat; reset_apply_verification_state; forget_baseline_repair;
        modify (\<lambda>s. s\<lparr>hm_golden := reset_request_tracking (hm_golden s)\<rparr>); t \<leftarrow> now e;
        modify (\<lambda>s. s\<lparr>hm_scheduler := arm_primary t (milliseconds 5000) (hm_scheduler s)\<rparr>);
        start_recovery e (milliseconds 5000) } }) (\<lambda>_. armed) u"
    if "armed u" "policy_restores u" for r u d d'
    using that keepsD[OF restart that(1)] unfolding Let_def policy_restores_def
    by (subst wp_bind, subst wp_gets) (auto simp: wp_if wp_bind wp_return intro!: intent keepsD[OF armed_programs(2)])
  let ?J = "\<lambda>u. armed u \<and> policy_restores u"
  have conn: "wp (is_stale_connection e k) (\<lambda>_. ?J) s"
    by (rule keepsD[OF keeps_is_stale_connection]) (use assms in \<open>simp_all add: policy_restores_def\<close>)
  have "wp (do { retired \<leftarrow> is_stale_connection e k; f retired }) (\<lambda>_. armed) s"
    if "\<And>r u. ?J u \<Longrightarrow> wp (f r) (\<lambda>_. armed) u" for f
    unfolding wp_bind by (rule wp_weaken[OF conn]) (rule that)
  note step = this
  show ?thesis
  proof (cases "g = hm_generation s")
    case True
    then have same: "\<not> g \<noteq> hm_generation s" by simp
    show ?thesis
      unfolding handle_helper_event_def is_stale_def wp_bind[of "gets f" for f] wp_gets wp_if wp_return if_not_P[OF same]
      by (rule step, elim conjE, rule body)
  qed (use assms(1) in \<open>simp add: handle_helper_event_def is_stale_def wp_bind wp_gets wp_return\<close>)
qed

text \<open>
  (C7) The debt of a restore is not lost on the way. Once the lease is held and no REVERT or DISARM waits
  behind the fence, every message keeps it, as do the timer and a broken pipe itself, with these exceptions:
  a DISARM; the successful validation of the restore in progress; a REVERT when no saved desktop is left;
  and, when the host is lost under a policy that keeps the display (no restore on disconnect, none asked
  for explicitly), the missed heartbeat and the REVERT that the helper posts for a broken pipe while no
  restore runs.
\<close>

theorem lease_kept:
  assumes "hm_recovery_armed s" "\<not> list_ex ends_lease (hm_deferred s)" "delivers s m s0"
    and "\<forall>c. m \<noteq> M_disarm c" "\<forall>c. m = M_revert c \<longrightarrow> revert_restores c s" "\<forall>g k. m = M_heartbeat_timeout g k \<longrightarrow> policy_restores s"
    and "\<forall>g. m = M_recovery_validation_completed True g \<longrightarrow> \<not> owns_active_worker Wk_recovery g s \<or> g \<noteq> hm_generation s"
  shows "hm_recovery_armed (exec (handle_message e m) s0) \<and> hm_recovery_armed (exec (handle_tick e) s) \<and>
    hm_recovery_armed (exec (on_disconnected e k) s)"
proof -
  have s: "leased s" using assms(1,2) by (simp add: leased_def)
  have s0: "leased s0" "owns_active_worker Wk_recovery g s0 = owns_active_worker Wk_recovery g s" "hm_generation s0 = hm_generation s"
    "revert_restores c s0 = revert_restores c s" "policy_restores s0 = policy_restores s" for g c
    using assms(3) s
    by (auto simp: leased_def owns_active_worker_def revert_restores_def policy_restores_def recovery_worker_in_progress_def elim!: deliversE)
  have armed: "armed s0" using s0(1) by (simp add: leased_def)
  have "wp (handle_payload e m) (\<lambda>_. leased) s0" if "\<forall>c. m \<noteq> M_revert c" "\<forall>g k. m \<noteq> M_heartbeat_timeout g k"
  proof (cases m)
    case (M_recovery_validation_completed ok g)
    with assms(7) s0 show ?thesis
      by (cases ok) (auto simp: handle_payload_def intro: lease_restored keepsD[OF lease_validation])
  qed (use assms(4) that s0 in \<open>auto simp: handle_payload_def intro!: lease_handlers[THEN keepsD]\<close>)
  moreover have "wp (handle_payload e m) (\<lambda>_. armed) s0" if "(\<exists>c. m = M_revert c) \<or> (\<exists>g k. m = M_heartbeat_timeout g k)"
    using that assms(5,6) armed s0(4,5) by (auto simp: handle_payload_def intro!: revert_arms heartbeat_arms)
  ultimately have "wp (handle_payload e m) (\<lambda>_. armed) s0"
    by (cases "(\<exists>c. m = M_revert c) \<or> (\<exists>g k. m = M_heartbeat_timeout g k)") (auto simp: leased_def elim: wp_weaken)
  then have "armed (exec (handle_message e m) s0)"
    by (simp add: handle_message_def exec_bind wp_exec keeps_exec[OF armed_programs(5)])
  moreover have "leased (exec (handle_tick e) s)"
    by (rule keeps_exec[OF lease_events(2) s])
  moreover have "keeps leased (on_disconnected e k)"
    unfolding on_disconnected_def wp_defs by (intro keeps_rules lease_settlement keeps_modify; simp add: leased_def)
  ultimately show ?thesis
    using keeps_exec[of leased "on_disconnected e k" s] s by (simp add: leased_def)
qed

lemma absorb_leases:
  assumes "\<not> list_ex ends_lease (hm_deferred s)" "ac_display_may_have_changed c"
  shows "wp (absorb_completion e c) (\<lambda>_. leased) s"
  using assms unfolding absorb_completion_def note_armed_task_def ensure_restore_task_def wp_defs Let_def
  by (auto simp: wp_rules leased_def)

lemma finish_apply_leases:
  assumes "\<not> list_ex ends_lease (hm_deferred s)" "ac_display_may_have_changed c"
  shows "wp (finish_apply_completed e c) (\<lambda>_. leased) s"
  unfolding finish_apply_completed_def
  by (subst wp_bind, rule wp_weaken[OF absorb_leases[OF assms]]) (rule keepsD[OF lease_apply_completed(3)])

lemma finish_cancelled_leases:
  assumes "\<not> list_ex ends_lease (hm_deferred s)" "ac_display_may_have_changed c"
  shows "wp (finish_cancelled_apply e c) (\<lambda>_. leased) s"
  using assms keepsD[OF lease_drain]
  unfolding finish_cancelled_apply_def retain_recovery_after_display_mutation_def note_armed_task_def ensure_restore_task_def wp_defs
  by (auto simp: wp_rules leased_def)

section \<open>A restore in progress is owed\<close>

text \<open>The worker of a restore of the current generation runs only while the lease is held: every start of a
  restore asks for the lease or takes it, and the lease is given up only after the work was cancelled or the
  worker retired.\<close>

definition worker_past :: "helper \<Rightarrow> bool" where
  "worker_past s \<longleftrightarrow> (\<forall>k g. hm_worker s = Some (k, g) \<longrightarrow> g < hm_generation s)"

definition owed :: "helper \<Rightarrow> bool" where
  "owed s \<longleftrightarrow> (\<forall>k g. hm_worker s = Some (k, g) \<longrightarrow> g \<le> hm_generation s) \<and>
     (hm_worker s = Some (Wk_recovery, hm_generation s) \<longrightarrow> hm_recovery_armed s)"

definition owed_armed :: "helper \<Rightarrow> bool" where
  "owed_armed s \<longleftrightarrow> owed s \<and> hm_recovery_armed s"

lemma past_owed: "worker_past s \<Longrightarrow> owed s"
  by (auto simp: worker_past_def owed_def)

lemma owed_armed_owed: "owed_armed s \<Longrightarrow> owed s"
  by (simp add: owed_armed_def)

lemma keeps_via:
  assumes "\<And>s. I s \<Longrightarrow> wp m (\<lambda>_. K) s" "\<And>x. keeps K (f x)" "\<And>s. K s \<Longrightarrow> I s"
  shows "keeps I (State_Monad.bind m f)"
  by (rule keepsI, subst wp_bind, rule wp_weaken[OF assms(1)], assumption, rule wp_weaken[OF keepsD[OF assms(2)]], assumption, rule assms(3))

lemma keeps_state: "(\<And>s. I s \<Longrightarrow> wp (f s) (\<lambda>_. I) s) \<Longrightarrow> keeps I (do { s \<leftarrow> gets id; f s })"
  by (rule keepsI) (simp add: wp_bind wp_gets)

lemma cancel_past: "owed s \<Longrightarrow> wp cancel_operations (\<lambda>_. worker_past) s"
  by (auto simp: cancel_operations_def wp_modify owed_def worker_past_def le_imp_less_Suc)

lemma owed_frames: "owed s \<Longrightarrow> owed (s\<lparr>po_reads := r\<rparr>)" "owed s \<Longrightarrow> owed (s\<lparr>ld_store := st\<rparr>)"
  "owed_armed s \<Longrightarrow> owed_armed (s\<lparr>po_reads := r\<rparr>)" "owed_armed s \<Longrightarrow> owed_armed (s\<lparr>ld_store := st\<rparr>)"
  "worker_past s \<Longrightarrow> worker_past (s\<lparr>po_reads := r\<rparr>)" "worker_past s \<Longrightarrow> worker_past (s\<lparr>ld_store := st\<rparr>)"
  by (simp_all add: owed_def owed_armed_def worker_past_def)

lemmas owed_ports = keeps_ask[of owed, OF owed_frames(1)] keeps_ledger[of owed, OF owed_frames(1,2)]
  keeps_is_stale_connection[of owed, OF owed_frames(1)] keeps_ask[of owed_armed, OF owed_frames(3)]
  keeps_ledger[of owed_armed, OF owed_frames(3,4)] keeps_is_stale_connection[of owed_armed, OF owed_frames(3)]
  keeps_ask[of worker_past, OF owed_frames(5)]

lemma owed_launch: "k \<noteq> Wk_recovery \<Longrightarrow> keeps owed (launch k j)" "keeps owed_armed (launch k j)" "keeps owed (push_task j)"
  "keeps owed_armed (push_task j)" "keeps owed cancel_operations" "keeps owed_armed cancel_operations" "keeps worker_past cancel_operations"
  by (auto simp: keeps_def launch_def push_task_def cancel_operations_def wp_rules owed_def owed_armed_def worker_past_def)

lemma owed_start: "keeps owed_armed (start_recovery e n)"
  unfolding start_recovery_def wp_defs
  by (intro keeps_rules owed_ports owed_launch keeps_modify; simp add: owed_armed_def owed_def)

lemma past_programs: "keeps worker_past (clear_recovery_state b)" "keeps worker_past (exit_callback e c)"
  unfolding clear_recovery_state_def exit_callback_def wp_defs
  by (intro keeps_rules owed_ports owed_launch keeps_modify; simp add: worker_past_def; fail)+

lemma keeps_cancel: "(\<And>x. keeps worker_past (f x)) \<Longrightarrow> keeps owed (State_Monad.bind cancel_operations f)"
  using keeps_via[of owed, OF cancel_past _ past_owed] by blast

lemma keeps_arm:
  "(\<And>x. keeps owed_armed (f x)) \<Longrightarrow>
    keeps owed (State_Monad.bind (modify (\<lambda>s. s\<lparr>hm_recovery_armed := True, hm_display_changes_pending_recovery := True\<rparr>)) f)"
  by (rule keeps_via[of owed _ owed_armed]) (auto simp: wp_modify owed_def owed_armed_def)

lemmas owed_simps = owed_def owed_armed_def worker_past_def Let_def

lemma owed_abandon: "keeps owed abandon_session"
  unfolding abandon_session_def wp_defs
  by (intro keeps_cancel keeps_bind[of worker_past] past_programs keeps_modify; simp add: owed_simps)

lemma owed_begin_revert: "keeps owed (begin_revert e c)"
  unfolding begin_revert_def wp_defs
  by (rule keeps_bind[of owed], rule keeps_modify, simp add: owed_simps, rule keeps_bind[of owed], rule owed_launch, rule keeps_arm)
    (intro keeps_rules owed_ports owed_start keeps_modify; simp add: owed_simps)

lemma owed_revert: "keeps owed (revert_now e c)"
  unfolding revert_now_def wp_defs
  by (intro keeps_cancel keeps_bind[of owed] keeps_bind[of worker_past] keeps_gets keeps_if owed_abandon owed_begin_revert past_programs keeps_modify;
      simp add: owed_simps)

lemma owed_disarm: "keeps owed disarm_now"
  unfolding disarm_now_def wp_defs
  by (intro keeps_cancel keeps_bind[of owed] keeps_bind[of worker_past] keeps_gets keeps_when past_programs keeps_modify; simp add: owed_simps)

lemmas owed_parts0 = owed_ports owed_launch(1,3,5) owed_abandon owed_revert owed_disarm

lemma owed_commands: "keeps owed (handle_deferred e d)"
proof -
  note defs = handle_apply_command_def reactivate_def begin_apply_def adopt_request_def reject_request_def start_request_def
    handle_virtual_display_repair_intent_def reapply_for_identity_def handle_revert_command_def handle_disarm_command_def
    handle_reset_command_def reset_now_def queue_after_active_mutation_def send_apply_result_def send_verification_result_def
    defer_transient_disconnect_settlement_for_staged_reset_def begin_staged_state_reset_def consume_virtual_identity_repair_def
    dispatch_apply_worker_def dispatch_verification_def dispatch_reset_staged_apply_state_def
  show ?thesis
    unfolding handle_deferred_def defs wp_defs
    by (cases d) (simp_all only: deferred_command.case, (intro keeps_rules owed_parts0 keeps_modify; simp add: owed_simps; fail)+)
qed

lemma owed_drain: "keeps owed (drain_deferred_mutation_commands e)"
  by (rule keeps_drain, rule keeps_exec[OF owed_commands]) (simp add: owed_def)

lemma owed_intent: "keeps owed (has_deferred_apply_intent e)"
proof -
  have "keeps owed (live_intent e q)" for q
    by (induction q) (auto intro!: keeps_rules owed_ports split: deferred_command.split)
  then show ?thesis
    unfolding has_deferred_apply_intent_def by (intro keeps_rules)
qed

lemmas owed_parts = owed_parts0 owed_drain owed_intent

lemma owed_settlement: "keeps owed (enter_steady_state e)" "keeps owed dispatch_next_transient_disconnect_verification"
  "keeps owed dispatch_transient_disconnect_final_verification" "keeps owed dispatch_settings_only_repair"
  "keeps owed defer_transient_disconnect_settlement_for_staged_reset"
  "keeps owed begin_staged_state_reset" "keeps owed (exit_callback e c)" "keeps owed (notify_recovery_status e)"
  "keeps owed resume_transient_disconnect_settlement_after_staged_reset" "keeps owed (report_results st)"
  "keeps owed (begin_transient_disconnect_settlement e)"
  unfolding enter_steady_state_def settlement_defs begin_staged_state_reset_def exit_callback_def
    dispatch_apply_worker_def dispatch_verification_def dispatch_reset_staged_apply_state_def
    notify_recovery_status_def report_results_def send_apply_result_def send_verification_result_def
    defer_transient_disconnect_settlement_for_staged_reset_def wp_defs Let_def
  by (intro keeps_rules owed_parts keeps_modify; simp add: owed_simps; fail)+

lemma owed_settle_failed: "keeps owed (settle_failed e)"
proof -
  have repair: "keeps owed (settle_after_repair e)"
    unfolding settle_after_repair_def wp_defs by (intro keeps_rules owed_parts owed_settlement keeps_modify; simp add: owed_simps)
  have restart: "keeps owed (do { s \<leftarrow> gets id;
      if exclusive_topology_wanted s
      then do { reset_transient_disconnect_settlement; modify (\<lambda>s. s\<lparr>hm_session_was_verified := False\<rparr>);
        if hm_recovery_armed s then do { start_recovery e 0; return True } else return False }
      else return False })"
  proof (rule keeps_state)
    fix s assume s: "owed s"
    have start: "wp (start_recovery e 0) (\<lambda>_. owed) u" if "owed_armed u" for u
      using keeps_weaken[OF owed_start that] owed_armed_owed by blast
    let ?s = "s\<lparr>hm_settlement := no_settlement, hm_session_was_verified := False\<rparr>"
    have fr: "owed ?s" "hm_recovery_armed s \<Longrightarrow> owed_armed ?s" using s by (simp_all add: owed_simps)
    from s show "wp (if exclusive_topology_wanted s
        then do { reset_transient_disconnect_settlement; modify (\<lambda>s. s\<lparr>hm_session_was_verified := False\<rparr>);
          if hm_recovery_armed s then do { start_recovery e 0; return True } else return False }
        else return False) (\<lambda>_. owed) s"
      unfolding reset_transient_disconnect_settlement_def by (simp add: wp_bind wp_modify wp_return wp_if fr start)
  qed
  show ?thesis
    unfolding settle_failed_def by (intro keeps_rules repair restart)
qed

lemma owed_final_check: "keeps owed (finish_final_check e ok)"
proof -
  have ok: "keeps owed (do { when_do b confirm_session; enter_steady_state e })" for b
    unfolding confirm_session_def wp_defs by (intro keeps_rules owed_parts owed_settlement keeps_modify; simp add: owed_simps)
  have failed: "wp (do { modify (\<lambda>s. s\<lparr>hm_session_was_verified := False\<rparr>);
      if hm_recovery_armed s then start_recovery e 0 else transition Waiting }) (\<lambda>_. owed) s" if s: "owed s" for s
  proof -
    have start: "wp (start_recovery e 0) (\<lambda>_. owed) u" if "owed_armed u" for u
      using keeps_weaken[OF owed_start that] owed_armed_owed by blast
    let ?s = "s\<lparr>hm_session_was_verified := False\<rparr>"
    have "owed (?s\<lparr>hm_state := Waiting\<rparr>)" "hm_recovery_armed s \<Longrightarrow> owed_armed ?s" using s by (simp_all add: owed_simps)
    then show ?thesis
      unfolding transition_def by (simp add: wp_bind wp_modify wp_if start)
  qed
  show ?thesis
    unfolding finish_final_check_def
    by (rule keeps_bind, unfold reset_transient_disconnect_settlement_def, rule keeps_modify, simp add: owed_simps)
      (rule keeps_state, cases ok, simp_all add: failed keepsD[OF ok])
qed

lemma owed_apply_completed: "keeps owed (handle_apply_completed e c)" "keeps owed (finish_apply_completed e c)"
  unfolding handle_apply_completed_def finish_reactivation_def retire_worker_def
    finish_apply_completed_def absorb_completion_def finish_rollback_def yield_to_newer_def conclude_apply_def conclude_ok_def
    conclude_failed_def settle_after_repair_def report_failed_def wants_virtual_display_reset_def confirm_session_def
    finish_cancelled_apply_def retain_recovery_after_display_mutation_def note_armed_task_def ensure_restore_task_def
    reset_uncommitted_staged_state_if_needed_def prepare_transient_disconnect_settlement_def
    dispatch_apply_worker_def dispatch_verification_def wp_defs Let_def
  by (intro keeps_rules owed_parts owed_settlement owed_settle_failed keeps_modify; simp add: owed_simps; fail)+

lemma owed_restored: "hm_worker s = None \<Longrightarrow> wp (finish_restored e g) (\<lambda>_. owed) s"
proof -
  assume s: "hm_worker s = None"
  have rest: "keeps owed (do { disarm_heartbeat; emit R_refresh_shell; delete_restore_task; s \<leftarrow> gets id;
     let reset_failed = (hm_staged_state_prepared s \<and> hm_recovery_reset_succeeded s = Some False);
     modify (\<lambda>s. s\<lparr>hm_restore_task_created := False, hm_staged_state_prepared := reset_failed\<rparr>);
     transition Waiting;
     when_do reset_failed (do { modify (\<lambda>s. s\<lparr>hm_exit_after_reset := True\<rparr>); begin_staged_state_reset });
     s \<leftarrow> gets id;
     modify (\<lambda>s. s\<lparr>hm_exit_after_reset := (hm_reset_pending s \<or> list_ex is_reset (hm_deferred s))\<rparr>);
     drain_deferred_mutation_commands e;
     exit_later \<leftarrow> gets hm_exit_after_reset;
     if has_followup s \<and> \<not> reset_failed then modify (\<lambda>s. s\<lparr>hm_exit_after_reset := False\<rparr>)
     else if exit_later then return ()
     else do { notify_recovery_status e; exit_callback e 0 } })"
    unfolding wp_defs Let_def by (intro keeps_rules owed_parts owed_settlement keeps_modify; simp add: owed_simps)
  show ?thesis
    unfolding finish_restored_def publish_status_def wp_bind[of "modify f" for f] wp_modify
    by (rule keepsD[OF rest]) (simp add: s owed_def)
qed

lemma owed_completions:
  "keeps owed (handle_reset_completed e ok)" "keeps owed (handle_refresh_rate_completed e ok rf g)"
  "keeps owed (handle_verification_completed e ok p g)" "keeps owed (enter_event_loop e)"
  "keeps owed (do { retain_recovery_after_cancelled_recovery e; drain_deferred_mutation_commands e })"
  unfolding handle_reset_completed_def handle_refresh_rate_completed_def
    enter_event_loop_def retain_recovery_after_cancelled_recovery_def handle_verification_completed_def
    finish_verified_def settle_verified_def finish_unverified_def finish_disconnect_check_def dispatch_next_verification_reapply_def
    dispatch_exclusive_topology_rollback_def dispatch_transient_disconnect_repair_def confirm_session_def
    prepare_transient_disconnect_settlement_def send_apply_result_def send_verification_result_def
    dispatch_apply_worker_def wp_defs Let_def
  by (intro keeps_rules owed_parts owed_settlement owed_apply_completed owed_final_check keeps_modify; simp add: owed_simps; fail)+

lemma owed_validation: "keeps owed (handle_recovery_validation_completed e ok g)"
proof (rule keepsI)
  fix s assume s: "owed s"
  let ?s = "s\<lparr>hm_worker := None\<rparr>"
  have none: "owed ?s" using s by (simp add: owed_def)
  have "keeps owed (do { publish_status RS_failed g'; enter_event_loop e })" for g'
    unfolding publish_status_def by (intro keeps_rules owed_completions keeps_modify; simp add: owed_simps)
  note ends = keepsD[OF this none] keepsD[OF owed_completions(5) none] owed_restored[of ?s e]
  show "wp (handle_recovery_validation_completed e ok g) (\<lambda>_. owed) s"
    using s ends
    unfolding handle_recovery_validation_completed_def is_stale_def wp_bind[of "gets f" for f] wp_bind[of "modify f" for f] wp_gets wp_if wp_modify wp_return
    by simp
qed

lemma owed_recovery_completed: "keeps owed (handle_recovery_completed e rc)"
proof (rule keepsI)
  fix s assume s: "owed s"
  have late: "keeps owed (do { (if b then retain_recovery_after_cancelled_recovery e
      else modify (\<lambda>s. s\<lparr>hm_restore_state := reset_request_progress (hm_restore_state s)\<rparr>)); drain_deferred_mutation_commands e })" for b
    unfolding retain_recovery_after_cancelled_recovery_def wp_defs
    by (intro keeps_rules owed_parts keeps_modify; simp add: owed_simps)
  have failed: "keeps owed (do { modify (\<lambda>s. s\<lparr>hm_worker := None\<rparr>); publish_status v g; enter_event_loop e })" for v g
    unfolding publish_status_def by (intro keeps_rules owed_completions keeps_modify; simp add: owed_simps)
  have validate: "keeps owed_armed (do { modify (\<lambda>s. s\<lparr>hm_recovery_reset_succeeded := f s, hm_recovery_snapshot := Some snap\<rparr>);
      transition RecoveryValidation; launch Wk_recovery (\<lambda>g. J_validation g snap); return () })" for f snap
    unfolding wp_defs by (intro keeps_rules owed_launch keeps_modify; simp add: owed_simps)
  have armed: "owed_armed s" if "owns_active_worker Wk_recovery (rc_generation rc) s" "rc_generation rc = hm_generation s"
    using s that by (simp add: owed_armed_def owed_def owns_active_worker_def)
  have val: "wp (do { modify (\<lambda>s. s\<lparr>hm_recovery_reset_succeeded := f s, hm_recovery_snapshot := Some snap\<rparr>);
      transition RecoveryValidation; launch Wk_recovery (\<lambda>g. J_validation g snap); return () }) (\<lambda>_. owed) s"
    if "owed_armed s" for f snap
    by (rule keeps_weaken[OF validate that]) (rule owed_armed_owed)
  have none: "owed (s\<lparr>hm_worker := None\<rparr>)" using s by (simp add: owed_def)
  show "wp (handle_recovery_completed e rc) (\<lambda>_. owed) s"
  proof (cases "owns_active_worker Wk_recovery (rc_generation rc) s")
    case own: True
    show ?thesis
    proof (cases "rc_generation rc = hm_generation s")
      case True
      from val[OF armed[OF own True]] keepsD[OF failed s] own True show ?thesis
        unfolding handle_recovery_completed_def is_stale_def wp_bind[of "gets f" for f] wp_gets wp_if wp_return
        by (cases "rc_snapshot rc") simp_all
    next
      case False
      from keepsD[OF late none] own False show ?thesis
        unfolding handle_recovery_completed_def is_stale_def wp_bind[of "gets f" for f] wp_gets wp_if wp_bind[of "modify f" for f] wp_modify
        by simp
    qed
  qed (use s in \<open>simp add: handle_recovery_completed_def is_stale_def wp_bind wp_gets wp_return\<close>)
qed

lemma owed_when_armed:
  assumes "keeps owed_armed m" "owed s" "hm_recovery_armed s"
  shows "wp m (\<lambda>_. owed) s"
  using assms by (auto simp: owed_armed_def intro: keeps_weaken[OF assms(1)])

lemma owed_recovery_event: "keeps owed (recovery_display_event e ev g k)"
proof -
  let ?remember = "modify (\<lambda>s. s\<lparr>hm_deferred_display_event := Some (ev, g, k)\<rparr>)"
  have remember: "owed s \<Longrightarrow> wp ?remember (\<lambda>_. owed) s" for s by (simp add: wp_modify owed_def)
  have body: "keeps owed_armed (do { t \<leftarrow> now e;
       if (case q of None \<Rightarrow> False | Some q \<Rightarrow> t < q)
       then do { modify (\<lambda>s. s\<lparr>hm_feedback_quiet_until := Some (t + milliseconds 1000)\<rparr>); ?remember }
       else do {
         modify (\<lambda>s. s\<lparr>hm_feedback_quiet_until := None\<rparr>);
         if window_active t sch then ?remember
         else do {
           modify (\<lambda>s. s\<lparr>hm_scheduler := on_display_event t (hm_scheduler s)\<rparr>);
           go \<leftarrow> gets (should_attempt t \<circ> hm_scheduler);
           when_do go (do { observe_recovery_event; start_recovery e 0 }) } } })" for q sch
    unfolding wp_defs by (intro keeps_rules owed_ports owed_start keeps_modify; simp add: owed_simps)
  show ?thesis
    unfolding recovery_display_event_def Let_def
    by (rule keeps_state) (auto simp: wp_if wp_return remember intro!: owed_when_armed[OF body])
qed

lemma owed_tick: "keeps owed (handle_tick e)"
proof -
  have body: "keeps owed_armed (do { t \<leftarrow> now e; started \<leftarrow> reconcile_deferred_event e t;
       if started then return ()
       else do {
         expired \<leftarrow> check_window t; sch \<leftarrow> gets hm_scheduler;
         if expired
         then do { ms \<leftarrow> ask (he_now_ms e); ok \<leftarrow> ask (he_marker_io e);
           modify (\<lambda>s. s\<lparr>hm_golden := register_unresolved ms ok (hm_golden s)\<rparr>) }
         else when_do (should_attempt t sch) (start_recovery e 0) } })"
    unfolding reconcile_deferred_event_def check_window_def wp_defs
    by (intro keeps_rules owed_ports owed_start keeps_modify; simp add: owed_simps)
  show ?thesis
    unfolding handle_tick_def by (rule keeps_state) (auto simp: wp_return intro!: owed_when_armed[OF body])
qed

lemma owed_heartbeat: "keeps owed (handle_helper_event e g k)"
proof -
  have restart: "keeps owed_armed (do { cancel_operations; disarm_heartbeat; reset_apply_verification_state; forget_baseline_repair;
      modify (\<lambda>s. s\<lparr>hm_golden := reset_request_tracking (hm_golden s)\<rparr>); t \<leftarrow> now e;
      modify (\<lambda>s. s\<lparr>hm_scheduler := arm_primary t (milliseconds 5000) (hm_scheduler s)\<rparr>); start_recovery e (milliseconds 5000) })"
    unfolding wp_defs by (intro keeps_rules owed_ports owed_launch owed_start keeps_modify; simp add: owed_simps)
  have queue: "keeps owed (queue_after_active_mutation d b)" for d b
    unfolding queue_after_active_mutation_def wp_defs by (intro keeps_rules owed_parts keeps_modify; simp add: owed_simps)
  have wait: "keeps owed (do { live \<leftarrow> has_deferred_apply_intent e; if live then return ()
      else if keep then queue_after_active_mutation d True else queue_after_active_mutation d' True })" for keep d d'
    by (intro keeps_rules owed_parts queue)
  show ?thesis
    unfolding handle_helper_event_def Let_def
    by (intro keeps_bind keeps_if keeps_return owed_ports keeps_state)
      (simp_all add: is_stale_def keeps_gets wp_return keepsD[OF owed_abandon] keepsD[OF wait] owed_when_armed[OF restart])
qed

lemma owed_events: "keeps owed (handle_display_event e ev g k)"
  unfolding handle_display_event_def admit_baseline_return_def route_display_event_def virtual_identity_event_def repair_identity_def
    reapply_for_identity_def queue_after_active_mutation_def consume_virtual_identity_repair_def consume_virtual_identity_discovery_def
    dispatch_apply_worker_def dispatch_verification_def wp_defs Let_def
  by (intro keeps_rules owed_parts owed_settlement owed_recovery_event keeps_modify; simp add: owed_simps; fail)+

lemma owed_queries: "keeps owed (handle_export_golden e py k)" "keeps owed (handle_snapshot_current e py k n)"
  "keeps owed (handle_refresh_rate_command e c)" "keeps owed (handle_ping_command e k)"
  "keeps owed (handle_stop_command e k)" "keeps owed (handle_recovery_status_command e rq)"
  unfolding query_defs wp_defs Let_def
  by (intro keeps_rules owed_parts owed_settlement keeps_modify; simp add: owed_simps; fail)+

lemmas owed_handlers = owed_commands[of e "D_apply c" for e c, unfolded handle_deferred_def deferred_command.case]
  owed_commands[of e "D_revert c" for e c, unfolded handle_deferred_def deferred_command.case]
  owed_commands[of e "D_disarm c" for e c, unfolded handle_deferred_def deferred_command.case]
  owed_commands[of e "D_reset k" for e k, unfolded handle_deferred_def deferred_command.case]
  owed_queries owed_apply_completed owed_completions(1-3) owed_validation owed_recovery_completed owed_events owed_heartbeat

lemma owed_message: "keeps owed (handle_message e m)"
proof -
  have "keeps owed (handle_payload e m)"
    unfolding handle_payload_def by (cases m) (simp_all add: owed_handlers)
  then show ?thesis
    unfolding handle_message_def by (rule keeps_bind) (rule owed_settlement)
qed

lemma owed_disconnected: "keeps owed (on_disconnected e k)"
  unfolding on_disconnected_def wp_defs by (intro keeps_rules owed_settlement keeps_modify; simp add: owed_simps)

lemma owed_step:
  assumes "helper_step e s t" "owed s"
  shows "owed t"
  using assms
proof cases
  case (message m s0)
  then have "owed s0" using assms(2) by (auto simp: owed_def elim!: deliversE)
  with message show ?thesis by (simp add: keeps_exec[OF owed_message])
next
  case tick
  with assms(2) show ?thesis by (simp add: keeps_exec[OF owed_tick])
next
  case (disconnect k)
  with assms(2) show ?thesis by (simp add: keeps_exec[OF owed_disconnected])
qed (use assms(2) in \<open>auto simp: owed_def\<close>)

lemma owed_new: "owed helper_new"
  by (simp add: owed_def helper_new_def)

interpretation owing: invariant_system "\<lambda>s. s = helper_new" "helper_step e" owed
  for e
  by unfold_locales (auto intro: owed_step simp: owed_new)

lemma reactivation_owed:
  "wp (reactivate command n) (\<lambda>_ t. hm_reactivation t = hm_reactivation s \<or> hm_recovery_armed t) s"
  unfolding reactivate_def dispatch_apply_worker_def launch_def push_task_def wp_defs
  by (auto simp: wp_rules reactivation_admitted_def)

lemma apply_change_owed:
  assumes "owns_active_worker Wk_apply (ac_generation c) s" "ac_display_may_have_changed c" "\<not> list_ex ends_lease (hm_deferred s)"
    and "ac_generation c = hm_generation s \<and> hm_reactivation s \<noteq> None \<longrightarrow> hm_recovery_armed s"
  shows "wp (handle_apply_completed e c) (\<lambda>_. leased) s"
proof (cases "ac_generation c = hm_generation s \<and> hm_reactivation s \<noteq> None")
  case True
  with assms(3,4) show ?thesis by (auto simp: leased_def intro!: keepsD[OF lease_apply_completed(1)])
next
  case False
  with assms show ?thesis
    unfolding handle_apply_completed_def is_stale_def retire_worker_def
    by (auto simp: wp_rules intro!: finish_apply_leases finish_cancelled_leases)
qed

lemma recovery_change_owed:
  assumes "owns_active_worker Wk_recovery (rc_generation r) s" "rc_display_may_have_changed r" "\<not> list_ex ends_lease (hm_deferred s)" "owed s"
  shows "wp (handle_recovery_completed e r) (\<lambda>_. leased) s"
proof (cases "rc_generation r = hm_generation s")
  case True
  with assms have "leased s" by (simp add: leased_def owed_def owns_active_worker_def)
  then show ?thesis by (rule keepsD[OF lease_completions(3)])
next
  case False
  with assms show ?thesis
    unfolding handle_recovery_completed_def retain_recovery_after_cancelled_recovery_def wp_defs
    by (auto simp: wp_rules leased_def intro!: keepsD[OF lease_drain])
qed

text \<open>
  (C8) A change of the displays is always owed back. In every state that a run of the helper reaches, when
  the worker that owns the fence reports that the displays may have changed, the lease is held afterwards,
  unless the host's own release (a REVERT or a DISARM) was waiting behind it. This holds of an apply that
  succeeded, failed or was cancelled in the meantime, and of a restore in progress or cancelled. The one
  apply that does not take the lease itself is the reactivation of a verified session: it keeps a lease that
  is held, and it is admitted only while one is held, which the third part states.
\<close>

theorem mutation_leased:
  assumes "(helper_step e)\<^sup>*\<^sup>* helper_new s" "\<not> list_ex ends_lease (hm_deferred s)" "delivers s m s0"
  shows "(m = M_apply_completed c \<and> owns_active_worker Wk_apply (ac_generation c) s \<and> ac_display_may_have_changed c \<and>
      (ac_generation c = hm_generation s \<and> hm_reactivation s \<noteq> None \<longrightarrow> hm_recovery_armed s) \<longrightarrow>
      hm_recovery_armed (exec (handle_message e m) s0)) \<and>
    (m = M_recovery_completed r \<and> owns_active_worker Wk_recovery (rc_generation r) s \<and> rc_display_may_have_changed r \<longrightarrow>
      hm_recovery_armed (exec (handle_message e m) s0)) \<and>
    (hm_reactivation (exec (reactivate command n) s) = hm_reactivation s \<or> hm_recovery_armed (exec (reactivate command n) s))"
proof -
  have frame: "hm_worker s0 = hm_worker s" "hm_deferred s0 = hm_deferred s" "hm_generation s0 = hm_generation s"
    "hm_reactivation s0 = hm_reactivation s" "armed s0 = armed s"
    using assms(3) by (auto elim!: deliversE)
  have owed: "owed s0" using owing.reach_inv[OF _ assms(1)] frame by (simp add: owed_def)
  have queue: "\<not> list_ex ends_lease (hm_deferred s0)" using assms(2) frame by simp
  have owner: "owns_active_worker k g s0 = owns_active_worker k g s" for k g
    using frame by (simp add: owns_active_worker_def)
  have notify: "armed (exec (handle_message e m) s0)" if "wp (handle_payload e m) (\<lambda>_. leased) s0"
    using that by (simp add: handle_message_def exec_bind wp_exec leased_def keeps_exec[OF armed_programs(5)])
  have "wp (handle_payload e m) (\<lambda>_. leased) s0"
    if "m = M_apply_completed c" "owns_active_worker Wk_apply (ac_generation c) s" "ac_display_may_have_changed c"
      "ac_generation c = hm_generation s \<and> hm_reactivation s \<noteq> None \<longrightarrow> armed s"
    using apply_change_owed[of c s0 e] that owner queue frame by (simp add: handle_payload_def)
  moreover have "wp (handle_payload e m) (\<lambda>_. leased) s0"
    if "m = M_recovery_completed r" "owns_active_worker Wk_recovery (rc_generation r) s" "rc_display_may_have_changed r"
    using recovery_change_owed[of r s0 e] that owner queue owed by (simp add: handle_payload_def)
  ultimately show ?thesis
    using reactivation_owed[of command n s] notify by (auto simp: wp_exec)
qed

end
