(* ===== verification/Helper_Runs.thy ===== *)
theory Helper_Runs
  imports Helper_Lease
begin

text \<open>
  Runs of the display helper on a system that answers every question the same way: a session that is applied
  and verified, and a restore that is left without a worker.
\<close>

section \<open>A session\<close>

definition session_request :: apply_request where
  "session_request = empty_request\<lparr>aq_configuration := Some \<lparr>cf_device_id = ''A'', cf_hdr_state = None, cf_refresh_rate = None\<rparr>,
     aq_request_id := 7\<rparr>"

definition applied_ok :: apply_completed where
  "applied_ok = \<lparr>ac_status = St_ok, ac_resolved_target = None, ac_virtual_display_requested = False, ac_display_may_have_changed = True,
     ac_durable_recovery_armed = True, ac_durable_recovery_attempted = True, ac_staged_state_prepared = False,
     ac_exclusive_pre_apply_topology = None, ac_exclusive_rollback_only = False, ac_generation = 1\<rparr>"

definition requested :: helper where
  "requested = exec (handle_message (still_env 1) (M_apply \<lparr>cm_request = session_request, cm_connection_epoch = 1\<rparr>)) helper_new"

definition applied :: helper where
  "applied = exec (handle_message (still_env 1) (M_apply_completed applied_ok)) (requested\<lparr>hm_tasks := []\<rparr>)"

definition verified :: helper where
  "verified = exec (handle_message (still_env 1) (M_verification_completed True Initial 1)) (applied\<lparr>hm_tasks := []\<rparr>)"

lemma requested_tasks: "hm_tasks requested = [J_apply 1 session_request False] \<and> hm_running requested"
  by code_simp

lemma applied_tasks: "hm_tasks applied = [J_verify 1 session_request None None Initial] \<and> hm_generation applied = 1 \<and>
    hm_connection_epoch applied = 1 \<and> hm_recovery_armed applied \<and> hm_deferred applied = [] \<and> hm_out applied \<noteq> [] \<and> filter confirms (hm_out applied) = []"
  by code_simp

lemma verified_out: "filter confirms (hm_out verified) \<noteq> []"
  by code_simp

lemma requested_reachable: "(helper_step (still_env 1))\<^sup>*\<^sup>* helper_new requested"
  unfolding requested_def
  by (rule r_into_rtranclp, rule helper_step.message) (simp_all add: helper_new_def delivers.command is_completion_def)

lemma apply_delivered: "delivers requested (M_apply_completed applied_ok) (requested\<lparr>hm_tasks := []\<rparr>)"
  using requested_tasks
  by (intro delivers.completion[of _ "J_apply 1 session_request False" "[]"]) (simp_all add: completes_def applied_ok_def)

lemma applied_reachable: "(helper_step (still_env 1))\<^sup>*\<^sup>* helper_new applied"
  unfolding applied_def using requested_tasks
  by (intro rtranclp.rtrancl_into_rtrancl[OF requested_reachable] helper_step.message[OF _ apply_delivered]) simp

lemma verification_delivered: "delivers applied (M_verification_completed True Initial 1) (applied\<lparr>hm_tasks := []\<rparr>)"
  using applied_tasks by (intro delivers.completion[of _ "J_verify 1 session_request None None Initial" "[]"]) (simp_all add: completes_def)

theorem capture_gate_witness:
  "filter confirms (hm_out verified) = [R_verification True 1 7] \<and> hm_verification_result_sent verified"
  using capture_gate[OF applied_reachable verification_delivered] applied_tasks verified_out
  by (auto simp: verified_def session_request_def)

text \<open>The lease of the applied session outlives a successful check, the timer and a host that is lost: the
  REVERT which the helper posts to itself restores, because a saved desktop and the policy ask for it.\<close>

definition kept_session :: helper where
  "kept_session = applied\<lparr>ld_store := (\<lambda>_. Unusable)\<rparr>"

lemma kept_facts: "hm_recovery_armed kept_session \<and> hm_deferred kept_session = [] \<and>
    re_restore_on_disconnect (hm_restore_state kept_session) \<and> ld_store kept_session Tier_previous \<noteq> Absent"
  by code_simp

theorem lease_kept_witness: "hm_recovery_armed verified \<and> hm_recovery_armed (exec (handle_tick (still_env 1)) applied) \<and>
    hm_recovery_armed (exec (handle_message (still_env 1) (M_revert disconnect_revert)) kept_session)"
proof -
  have "revert_restores disconnect_revert kept_session"
    using kept_facts by (auto simp: revert_restores_def policy_restores_def)
  then have "hm_recovery_armed (exec (handle_message (still_env 1) (M_revert disconnect_revert)) kept_session)"
    using lease_kept[of kept_session "M_revert disconnect_revert" kept_session "still_env 1" 1] kept_facts
    by (simp add: delivers.command is_completion_def)
  then show ?thesis
    using lease_kept[of applied, OF _ _ verification_delivered, of "still_env 1" 1] applied_tasks
    by (simp add: verified_def)
qed

theorem mutation_leased_witness: "hm_recovery_armed applied"
proof -
  have facts: "hm_deferred requested = [] \<and> hm_worker requested = Some (Wk_apply, 1) \<and> hm_reactivation requested = None"
    by code_simp
  then show ?thesis
    using mutation_leased[OF requested_reachable _ apply_delivered, of applied_ok]
    by (simp add: owns_active_worker_def applied_ok_def applied_def)
qed

section \<open>A restore without a worker\<close>

text \<open>The fields that no autonomous input leaves: the machine is in \<open>Recovery\<close>, owes a restore, and nothing
  is running, queued or timed that could end it.\<close>

definition stranded :: "helper \<Rightarrow> bool" where
  "stranded s \<longleftrightarrow> hm_state s = Recovery \<and> hm_recovery_armed s \<and> hm_worker s = None \<and> hm_tasks s = [] \<and> hm_timers s = [] \<and>
     hm_deferred s = [] \<and> \<not> hm_reset_pending s \<and> hm_last_apply_started s = None \<and> \<not> td_settlement_requested (hm_settlement s)"

lemma stranded_notify: "keeps stranded (notify_recovery_status e)"
  unfolding notify_recovery_status_def wp_defs
  by (intro keeps_rules keeps_ask keeps_modify) (simp_all add: stranded_def)

lemma stranded_tick: "keeps stranded (handle_tick e)"
  by (rule keepsI) (simp add: handle_tick_def wp_rules stranded_def)

lemma stranded_display_event: "keeps stranded (handle_display_event e ev g k)"
  unfolding handle_display_event_def is_stale_connection_def admit_baseline_return_def route_display_event_def recovery_display_event_def
    recovery_worker_in_progress_def wp_defs Let_def
  by (rule keepsI) (auto simp: wp_rules stranded_def split: option.split)

lemma stranded_heartbeat: "keeps stranded (handle_helper_event e g k)"
  unfolding handle_helper_event_def is_stale_connection_def recovery_worker_in_progress_def wp_defs Let_def
  by (rule keepsI) (auto simp: wp_rules stranded_def)

lemma stranded_revert: "rv_from_disconnect c \<Longrightarrow> keeps stranded (handle_revert_command e c)"
  unfolding handle_revert_command_def is_stale_connection_def recovery_worker_in_progress_def wp_defs
  by (rule keepsI) (auto simp: wp_rules stranded_def)

lemma stranded_disconnect: "keeps stranded (on_disconnected e k)"
  unfolding on_disconnected_def begin_transient_disconnect_settlement_def should_defer_disconnect_recovery_def wp_defs
  by (rule keepsI) (auto simp: wp_rules stranded_def)

definition asked_restore :: revert_command where
  "asked_restore = \<lparr>rv_connection_epoch = 1, rv_prefer_golden_if_current_missing = True, rv_always_restore_from_golden = None,
     rv_immediate = False, rv_from_disconnect = False, rv_restore_ticket = 0\<rparr>"

definition cancelled_restore :: recovery_completed where
  "cancelled_restore = \<lparr>rc_success = False, rc_snapshot = None, rc_display_may_have_changed = False, rc_staged_state_reset_attempted = False,
     rc_staged_state_reset_succeeded = False, rc_generation = 1\<rparr>"

text \<open>The connection with epoch 1 is retired after a hundred questions.\<close>

definition retiring_env :: helper_env where
  "retiring_env = (still_env 1)\<lparr>he_epoch := (\<lambda>n. if n < 100 then 1 else 2)\<rparr>"

definition run_stored :: helper where
  "run_stored = helper_new\<lparr>ld_store := (\<lambda>_. Unusable)\<rparr>"

definition run_reverting :: helper where
  "run_reverting = exec (handle_message retiring_env (M_revert asked_restore)) run_stored"

definition run_disarmed :: helper where
  "run_disarmed = exec (handle_message retiring_env (M_disarm \<lparr>di_connection_epoch = 1, di_force = False\<rparr>)) run_reverting"

definition run_disconnected :: helper where
  "run_disconnected = exec (on_disconnected retiring_env 1) (run_disarmed\<lparr>po_reads := po_reads run_disarmed + 100\<rparr>)"

definition run_joined :: helper where
  "run_joined = exec (handle_message retiring_env (M_revert disconnect_revert)) run_disconnected"

definition run_abandoned :: helper where
  "run_abandoned = exec (handle_message retiring_env (M_recovery_completed cancelled_restore)) (run_joined\<lparr>hm_tasks := []\<rparr>)"

lemma run_facts:
  "hm_running run_reverting \<and> hm_running run_disarmed \<and> hm_running run_disconnected \<and> hm_running run_joined \<and>
   hm_tasks run_joined = [J_recovery 1 (milliseconds 5000)] \<and>
   fst (run_state (on_disconnected retiring_env 1) (run_disarmed\<lparr>po_reads := po_reads run_disarmed + 100\<rparr>)) = Some (M_revert disconnect_revert)"
  by code_simp

lemma abandoned_stranded: "stranded run_abandoned"
  by code_simp

lemma run_stored_step: "helper_step e helper_new run_stored"
  using helper_step.worker_writes[where e = e and s = helper_new and st = "\<lambda>_. Unusable" and gh = golden_health_new and b = False and n = 0]
  by (simp add: run_stored_def helper_new_def restore_state_new_def)

lemma abandoned_reachable: "(helper_step retiring_env)\<^sup>*\<^sup>* helper_new run_abandoned"
proof -
  let ?step = "helper_step retiring_env"
  let ?r = "run_disarmed\<lparr>po_reads := po_reads run_disarmed + 100\<rparr>"
  have "?step run_stored run_reverting" unfolding run_reverting_def
    by (rule helper_step.message) (simp_all add: run_stored_def helper_new_def delivers.command is_completion_def)
  moreover have "?step run_reverting run_disarmed" unfolding run_disarmed_def using run_facts
    by (intro helper_step.message delivers.command) (simp_all add: is_completion_def)
  moreover have "?step run_disarmed ?r"
    by (rule helper_step.reads)
  moreover have "?step ?r run_disconnected" unfolding run_disconnected_def using run_facts
    by (intro helper_step.disconnect) simp
  moreover have "?step run_disconnected run_joined" unfolding run_joined_def using run_facts
    by (intro helper_step.message delivers.command) (simp_all add: is_completion_def)
  moreover have "?step run_joined run_abandoned" unfolding run_abandoned_def using run_facts
    by (intro helper_step.message delivers.completion[of _ "J_recovery 1 (milliseconds 5000)" "[]"])
      (simp_all add: completes_def cancelled_restore_def)
  ultimately show ?thesis
    using run_stored_step[of retiring_env] by (meson converse_rtranclp_into_rtranclp rtranclp.rtrancl_refl)
qed

text \<open>
  (C30) A restore can be lost between two clients. A host asks for a restore and calls it off during the grace
  period; the worker is cancelled and the DISARM waits for it. If that host's pipe breaks now, the helper's
  own restore for the lost host is taken to join the recovery in progress, the worker then reports that it was
  cancelled, and the waiting DISARM is dropped because its connection is retired. The machine stays in
  Recovery, owing a restore that nothing performs, and no later tick, display event, missed heartbeat or
  broken pipe starts one.
\<close>

theorem stranded_recovery:
  "(helper_step retiring_env)\<^sup>*\<^sup>* helper_new run_abandoned \<and> stranded run_abandoned \<and>
   (\<forall>e s ev g k. stranded s \<longrightarrow>
      stranded (exec (handle_tick e) s) \<and> stranded (exec (handle_message e (M_display_event ev g k)) s) \<and>
      stranded (exec (handle_message e (M_heartbeat_timeout g k)) s) \<and>
      stranded (exec (on_disconnected e k) s) \<and> stranded (exec (handle_message e (M_revert disconnect_revert)) s))"
proof -
  have "keeps stranded (handle_message e (M_display_event ev g k))" "keeps stranded (handle_message e (M_heartbeat_timeout g k))"
    "keeps stranded (handle_message e (M_revert disconnect_revert))" for e ev g k
    unfolding handle_message_def handle_payload_def
    by (simp_all add: keeps_bind stranded_notify stranded_display_event stranded_heartbeat stranded_revert disconnect_revert_def)
  then show ?thesis
    using abandoned_reachable abandoned_stranded stranded_tick stranded_disconnect by (blast intro: keeps_exec)
qed

theorem stranded_recovery_witness:
  "hm_state (exec (handle_tick retiring_env) run_abandoned) = Recovery \<and> hm_worker (exec (handle_tick retiring_env) run_abandoned) = None"
proof -
  have "stranded (exec (handle_tick retiring_env) run_abandoned)" using stranded_recovery by blast
  then show ?thesis by (simp add: stranded_def)
qed

end
