(* ===== verification/Helper_Parked.thy ===== *)
theory Helper_Parked
  imports Helper_Runs
begin

text \<open>
  A recovery that failed may be parked by the host, which then borrows the displays to repair them itself.
\<close>

section \<open>Parking\<close>

definition parked :: "helper \<Rightarrow> bool" where
  "parked s \<longleftrightarrow> sp_parked (hm_status s) \<and> hm_state s = EventLoop \<and> hm_worker s = None \<and> hm_deferred s = [] \<and> \<not> hm_reset_pending s"

text \<open>The displays, the saved desktops and the worker's queue are left alone.\<close>

definition at_rest :: "job list \<Rightarrow> (int \<times> job) list \<Rightarrow> (tier \<Rightarrow> tier_file) \<Rightarrow> helper \<Rightarrow> bool" where
  "at_rest js ts files s \<longleftrightarrow> parked s \<and> hm_tasks s = js \<and> hm_timers s = ts \<and> ld_store s = files"

lemma rest_notify: "keeps (at_rest js ts files) (notify_recovery_status e)"
  unfolding notify_recovery_status_def wp_defs
  by (intro keeps_rules keeps_ask keeps_modify) (simp_all add: at_rest_def parked_def)

lemma rest_handlers:
  "keeps (at_rest js ts files) (handle_tick e)" "keeps (at_rest js ts files) (handle_display_event e ev g k)"
  "keeps (at_rest js ts files) (handle_helper_event e g k)" "keeps (at_rest js ts files) (handle_ping_command e k)"
  unfolding handle_tick_def handle_display_event_def handle_helper_event_def handle_ping_command_def is_stale_connection_def wp_defs Let_def
  by (rule keepsI; auto simp: wp_rules at_rest_def parked_def observe_event_def; fail)+

text \<open>Inputs that come by themselves.\<close>

inductive outside_step :: "helper_env \<Rightarrow> helper \<Rightarrow> helper \<Rightarrow> bool" for e where
  tick: "outside_step e s (exec (handle_tick e) s)"
| display_event: "outside_step e s (exec (handle_message e (M_display_event ev g k)) s)"
| heartbeat: "outside_step e s (exec (handle_message e (M_heartbeat_timeout g k)) s)"
| ping: "outside_step e s (exec (handle_message e (M_ping k)) s)"

lemma rest_step: "outside_step e s t \<Longrightarrow> at_rest js ts files s \<Longrightarrow> at_rest js ts files t"
  by (induction rule: outside_step.induct)
    (auto simp: handle_message_def handle_payload_def exec_bind
      intro!: keeps_exec[OF rest_notify] rest_handlers[THEN keeps_exec])

lemma rest_steps: "(outside_step e)\<^sup>*\<^sup>* s t \<Longrightarrow> at_rest js ts files s \<Longrightarrow> at_rest js ts files t"
  by (induction rule: rtranclp_induct) (auto intro: rest_step)

lemma wp_query: "wp (query_ticket c k b) Q s =
    Q (fst (status_query (rq_ticket c) (rq_generation c) (rq_connection_epoch c) (hm_generation s) k
         (\<not> b \<and> mutation_worker_active s) (\<not> b \<and> operation_queued s) b (hm_status s)))
      (s\<lparr>hm_status := snd (status_query (rq_ticket c) (rq_generation c) (rq_connection_epoch c) (hm_generation s) k
         (\<not> b \<and> mutation_worker_active s) (\<not> b \<and> operation_queued s) b (hm_status s))\<rparr>)"
  unfolding query_ticket_def by (simp add: wp_rules case_prod_beta)

text \<open>The answer is a parked failure only on the branch that parks.\<close>

lemma answer_parks:
  "wp (answer_query c k first) (\<lambda>result t. rq_park c \<and> result = RS_failed \<and> sp_parked (hm_status t) \<longrightarrow>
     parked t \<and> \<not> rs_armed (hm_scheduler t)) s"
  unfolding answer_query_def
  by (auto simp: wp_rules wp_query parked_def scheduler_disarm_def operation_queued_def mutation_worker_active_def simp del: not_None_eq)

lemma park_acknowledged:
  "wp (handle_recovery_status_command e c) (\<lambda>_ t. (\<exists>tk st revision k. last (hm_out t) = R_recovery_status tk st revision True k) \<longrightarrow>
     parked t \<and> \<not> rs_armed (hm_scheduler t)) s"
proof -
  have liveness: "wp (note_liveness e c) (\<lambda>_ t. True) t" for t
    by (simp add: wp_def)
  show ?thesis
    unfolding handle_recovery_status_command_def wp_bind wp_ask wp_query emit_def
    by (rule wp_weaken[OF liveness], rule wp_weaken[OF answer_parks]) (auto simp: wp_rules parked_def Let_def)
qed

text \<open>
  (C27) When the helper acknowledges that a failed recovery is parked, it is: the machine waits in the event
  loop with no worker, no queued command and the schedule of attempts stopped. From then on no tick, display
  event, missed heartbeat or ping, however many and in whatever order, dispatches any display work or touches
  the saved desktops; only a command of the host does.
\<close>

theorem parked_quiescent:
  assumes "last (hm_out (exec (handle_recovery_status_command e c) s)) = R_recovery_status tk st revision True k"
    and "(outside_step e)\<^sup>*\<^sup>* (exec (handle_recovery_status_command e c) s) t"
  shows "hm_state t = EventLoop \<and> hm_worker t = None \<and> hm_deferred t = [] \<and> \<not> hm_reset_pending t \<and>
    hm_tasks t = hm_tasks (exec (handle_recovery_status_command e c) s) \<and>
    hm_timers t = hm_timers (exec (handle_recovery_status_command e c) s) \<and>
    ld_store t = ld_store (exec (handle_recovery_status_command e c) s) \<and>
    \<not> rs_armed (hm_scheduler (exec (handle_recovery_status_command e c) s))"
  using park_acknowledged[of e c s] rest_steps[OF assms(2)] assms(1) by (auto simp: wp_exec at_rest_def parked_def)

definition run_ticketed :: helper where
  "run_ticketed = exec (handle_message (still_env 1) (M_revert (asked_restore\<lparr>rv_restore_ticket := 5\<rparr>))) run_stored"

definition run_failed :: helper where
  "run_failed = exec (handle_message (still_env 1) (M_recovery_completed (cancelled_restore\<lparr>rc_display_may_have_changed := True\<rparr>)))
     (run_ticketed\<lparr>hm_tasks := []\<rparr>)"

definition park_query :: recovery_status_command where
  "park_query = \<lparr>rq_ticket = 5, rq_generation = 1, rq_connection_epoch = 1, rq_park = True\<rparr>"

lemma run_parked_ack:
  "last (hm_out (exec (handle_recovery_status_command (still_env 1) park_query) run_failed)) = R_recovery_status 5 RS_failed 0 True 1"
  by code_simp

theorem parked_quiescent_witness:
  "hm_tasks (exec (handle_tick (still_env 1)) (exec (handle_recovery_status_command (still_env 1) park_query) run_failed)) =
     hm_tasks (exec (handle_recovery_status_command (still_env 1) park_query) run_failed)"
  using parked_quiescent[OF run_parked_ack r_into_rtranclp, OF outside_step.tick] by blast

end
