(* ===== verification/Restore_Facts.thy ===== *)
theory Restore_Facts
  imports Snapshot_Ledger
begin

text \<open>
  What the policies of the display helper promise on their own: how often a failed restore is repeated, what a
  saved snapshot contains, and that refreshing the saved desktop does not lose the old one.
\<close>

section \<open>Repeated attempts\<close>

text \<open>Attempts that fail one after the other, as pairs of start and end: each starts when the schedule allows
  it and fails not before it started.\<close>

fun failing_attempts :: "(time_point \<times> time_point) list \<Rightarrow> restore_scheduler \<Rightarrow> bool" where
  "failing_attempts [] r = True"
| "failing_attempts ((start, failed) # xs) r \<longleftrightarrow> should_attempt start r \<and> start \<le> failed \<and> failing_attempts xs (on_attempt_failed failed r)"

lemma failing_attempts_step:
  assumes "failing_attempts (x # xs) r" "j = (if rs_backoff_index r + 1 < 8 then rs_backoff_index r + 1 else rs_backoff_index r)"
  shows "failing_attempts xs (on_attempt_failed (snd x) r)" "rs_backoff_index (on_attempt_failed (snd x) r) = j"
    "rs_next_allowed (on_attempt_failed (snd x) r) \<ge> rs_next_allowed r + kRestoreBackoffProfile ! j"
    "rs_window_until (on_attempt_failed (snd x) r) = rs_window_until r"
  using assms by (cases x; auto simp: on_attempt_failed_def Let_def should_attempt_def kRestoreBackoffProfile_def)+

text \<open>The time that passes before a number of further attempts, from an index of the table.\<close>

fun backoff_time :: "nat \<Rightarrow> nat \<Rightarrow> int" where
  "backoff_time i 0 = 0"
| "backoff_time i (Suc n) = (let j = (if i + 1 < 8 then i + 1 else i) in kRestoreBackoffProfile ! j + backoff_time j n)"

lemma failing_attempts_bound:
  assumes "failing_attempts xs r" "rs_window_until r - rs_next_allowed r < backoff_time (rs_backoff_index r) n"
  shows "length xs \<le> n"
  using assms
proof (induction xs arbitrary: r n)
  case (Cons x xs)
  let ?r = "on_attempt_failed (snd x) r"
  note step = failing_attempts_step[OF Cons.prems(1) refl]
  have "rs_next_allowed r \<le> rs_window_until r"
    using Cons.prems(1) by (cases x) (auto simp: should_attempt_def window_active_def)
  with Cons.prems(2) obtain m where n: "n = Suc m"
    by (cases n) auto
  have "rs_window_until ?r - rs_next_allowed ?r < backoff_time (rs_backoff_index ?r) m"
    using Cons.prems(2) step(2-4) by (simp add: n Let_def)
  with Cons.IH step(1) show ?case by (simp add: n)
qed simp

text \<open>
  (C29) A restore that keeps failing is repeated a bounded number of times: within the window of two minutes
  that a REVERT opens, the growing delays leave room for nine attempts and no more. Nine do fit when each of
  them fails at once.
\<close>

theorem restore_attempts_bounded:
  assumes "0 \<le> grace" "grace \<le> seconds 5"
  shows "(\<forall>xs. failing_attempts xs (arm_primary t grace r) \<longrightarrow> length xs \<le> 9) \<and>
    (\<exists>xs. failing_attempts xs (arm_primary t grace r) \<and> length xs = 9)"
proof -
  have "backoff_time 0 9 = seconds 144"
    by (simp add: eval_nat_numeral Let_def kRestoreBackoffProfile_def seconds_def milliseconds_def)
  then have "rs_window_until (arm_primary t grace r) - rs_next_allowed (arm_primary t grace r) <
      backoff_time (rs_backoff_index (arm_primary t grace r)) 9"
    using assms by (simp add: arm_primary_def kRestoreWindowPrimary_def seconds_def milliseconds_def)
  moreover have "failing_attempts (map (\<lambda>d. (t + grace + seconds d, t + grace + seconds d)) [0, 1, 4, 9, 19, 34, 54, 84, 114]) (arm_primary t grace r)"
    using assms by (simp add: arm_primary_def should_attempt_def window_active_def on_attempt_failed_def kRestoreWindowPrimary_def
        kRestoreBackoffProfile_def seconds_def milliseconds_def Let_def)
  ultimately show ?thesis
    using failing_attempts_bound by fastforce
qed

theorem restore_attempts_bounded_witness:
  "\<exists>xs. failing_attempts xs (arm_primary 0 (seconds 5) scheduler_new) \<and> length xs = 9"
  using restore_attempts_bounded[of "seconds 5" 0 scheduler_new] by (simp add: seconds_def milliseconds_def)

section \<open>Saved snapshots\<close>

lemma topology_restrict: "i \<in> set (concat (sn_topology (restrict_snapshot ok sn))) \<longleftrightarrow> i \<in> set (concat (sn_topology sn)) \<and> ok i"
  by (auto simp: restrict_snapshot_def) (metis filter_empty_conv)

definition physical_kept :: "device list \<Rightarrow> string list \<Rightarrow> string \<Rightarrow> bool" where
  "physical_kept devices exclusions i \<longleftrightarrow> i \<in> set (valid_device_ids devices) \<and> \<not> is_excluded exclusions i"

lemma filter_for_save_shape:
  assumes "filter_snapshot_for_save snap devices exclusions = Some saved"
  defines "ok \<equiv> physical_kept devices exclusions"
  shows "saved = (restrict_snapshot ok snap)\<lparr>sn_primary_device := (if ok (sn_primary_device snap) then sn_primary_device snap else [])\<rparr>"
    "i \<in> set (concat (sn_topology snap)) \<Longrightarrow> \<not> is_excluded exclusions i \<Longrightarrow> i \<notin> set (virtual_device_ids devices) \<Longrightarrow> ok i"
    "sn_topology saved \<noteq> []"
proof -
  define valid where "valid = (if exclusions \<noteq> [] then filter (\<lambda>i. \<not> is_excluded exclusions i) (valid_device_ids devices) else valid_device_ids devices)"
  have ok: "(\<lambda>i. i \<in> set valid) = ok"
    by (auto simp: valid_def is_excluded_def ok_def physical_kept_def)
  then have valid: "i \<in> set valid \<longleftrightarrow> ok i" for i
    by (auto simp: fun_eq_iff)
  note accepted = assms(1)[unfolded filter_snapshot_for_save_def Let_def, folded valid_def, unfolded valid]
  from accepted show saved: "saved = (restrict_snapshot ok snap)\<lparr>sn_primary_device := (if ok (sn_primary_device snap) then sn_primary_device snap else [])\<rparr>"
    by (auto simp: restrict_snapshot_def split: if_splits)
  from accepted show "sn_topology saved \<noteq> []"
    by (auto simp: saved split: if_splits)
  from accepted show "i \<in> set (concat (sn_topology snap)) \<Longrightarrow> \<not> is_excluded exclusions i \<Longrightarrow> i \<notin> set (virtual_device_ids devices) \<Longrightarrow> ok i"
    by (auto simp: list_ex_iff split: if_splits)
qed

text \<open>
  (C28) A saved desktop is complete and holds nothing foreign. When a captured desktop is accepted for saving,
  the displays of its topology are exactly the captured ones that are connected, physical and not excluded; every
  display that was captured and is neither excluded nor virtual is among them, so none was lost on the way; modes,
  HDR states and origins are kept for exactly these displays; and the primary display is the captured one if it is
  connected, physical and not excluded, and is left open otherwise.
\<close>

theorem saved_snapshot_complete:
  assumes "filter_snapshot_for_save snap devices exclusions = Some saved"
  shows "(\<forall>i. i \<in> set (concat (sn_topology saved)) \<longleftrightarrow>
       i \<in> set (concat (sn_topology snap)) \<and> physical_kept devices exclusions i) \<and>
    (\<forall>i \<in> set (concat (sn_topology snap)). \<not> is_excluded exclusions i \<longrightarrow> i \<notin> set (virtual_device_ids devices) \<longrightarrow>
       i \<in> set (concat (sn_topology saved))) \<and>
    sn_topology saved \<noteq> [] \<and>
    sn_modes saved = filter (physical_kept devices exclusions \<circ> fst) (sn_modes snap) \<and>
    sn_hdr_states saved = filter (physical_kept devices exclusions \<circ> fst) (sn_hdr_states snap) \<and>
    sn_origins saved = filter (physical_kept devices exclusions \<circ> fst) (sn_origins snap) \<and>
    sn_primary_device saved = (if physical_kept devices exclusions (sn_primary_device snap) then sn_primary_device snap else [])"
proof -
  note shape = filter_for_save_shape[OF assms]
  have topology: "i \<in> set (concat (sn_topology saved)) \<longleftrightarrow> i \<in> set (concat (sn_topology snap)) \<and> physical_kept devices exclusions i" for i
    using topology_restrict[of i "physical_kept devices exclusions" snap] shape(1) by simp
  with shape(2,3) show ?thesis
    unfolding topology by (simp add: shape(1)) (auto simp: restrict_snapshot_def)
qed

text \<open>A captured desktop of a monitor and of the driver's virtual display.\<close>

definition two_displays :: snapshot where
  "two_displays = \<lparr>sn_topology = [[''A''], [''B'']], sn_modes = [(''A'', \<lparr>dm_width = 1920, dm_height = 1080, dm_numerator = 60, dm_denominator = 1\<rparr>)],
     sn_hdr_states = [], sn_primary_device = ''B'', sn_origins = [(''A'', (0, 0)), (''B'', (1920, 0))]\<rparr>"

definition two_devices :: "device list" where
  "two_devices = [\<lparr>dv_device_id = ''A'', dv_display_name = ''D1'', dv_friendly_name = [], dv_manufacturer_id = None, dv_active = True\<rparr>,
     \<lparr>dv_device_id = ''B'', dv_display_name = ''D2'', dv_friendly_name = [], dv_manufacturer_id = Some ''SDD'', dv_active = True\<rparr>]"

definition one_saved :: snapshot where
  "one_saved = two_displays\<lparr>sn_topology := [[''A'']], sn_primary_device := [], sn_origins := [(''A'', (0, 0))]\<rparr>"

theorem saved_snapshot_complete_witness: "''A'' \<in> set (concat (sn_topology one_saved)) \<and> sn_topology one_saved \<noteq> []"
proof -
  have saved: "filter_snapshot_for_save two_displays two_devices [] = Some one_saved"
    by code_simp
  have "''A'' \<in> set (concat (sn_topology two_displays)) \<and> \<not> is_excluded [] ''A'' \<and> ''A'' \<notin> set (virtual_device_ids two_devices)"
    by code_simp
  with saved_snapshot_complete[OF saved] show ?thesis by blast
qed

section \<open>Refreshing the saved desktop\<close>

text \<open>
  Refreshing the saved desktop does not lose the old one: the golden snapshot is never written; when no
  acceptable desktop could be captured, no file changes; when the call succeeds the current tier holds what
  was captured; and the previous tier is left as it was or holds the desktop that was current before.
\<close>

theorem refresh_keeps_baseline:
  assumes "run_state (refresh_current_preserving_previous e exclusions) s = (replaced, t)"
  shows "ld_store t Tier_golden = ld_store s Tier_golden \<and>
    (fst (run_state (capture_attempts e 3 exclusions) s) = None \<longrightarrow> \<not> replaced \<and> ld_store t = ld_store s) \<and>
    (\<not> replaced \<longrightarrow> ld_store t Tier_current = ld_store s Tier_current) \<and>
    (\<forall>sn rot. fst (run_state (capture_attempts e 3 exclusions) s) = Some (sn, rot) \<and> replaced \<longrightarrow> ld_store t Tier_current = Holds sn rot) \<and>
    (ld_store t Tier_previous = ld_store s Tier_previous \<or>
      (\<exists>sn rot. storage_load Tier_current s = Some (sn, rot) \<and> ld_store t Tier_previous = Holds sn rot))"
proof -
  obtain c u where u: "run_state (capture_attempts e 3 exclusions) s = (c, u)" by fastforce
  have store: "ld_store u = ld_store s"
    using wp_run[OF wp_capture_attempts u, of "\<lambda>_ u. ld_store u = ld_store s"] by simp
  then have "storage_load Tier_current u = storage_load Tier_current s"
    by (simp add: storage_load_def)
  with assms u store show ?thesis
    unfolding refresh_current_preserving_previous_def storage_save_def
    by (auto simp: split: option.splits prod.splits if_splits)
qed

definition capture_env :: ledger_env where
  "capture_env = \<lparr>le_capture = (\<lambda>_. two_displays), le_enumerate = (\<lambda>_. two_devices), le_topology_is_valid = (\<lambda>_ _. True),
     le_layouts = (\<lambda>_ _. []), le_write_ok = (\<lambda>_. True), le_observe = (\<lambda>_. None), le_try_enumerate = (\<lambda>_. None)\<rparr>"

definition no_files :: ledger where
  "no_files = \<lparr>po_reads = 0, ld_store = (\<lambda>_. Absent), ld_prefer_golden_first = False\<rparr>"

theorem refresh_keeps_baseline_witness:
  "ld_store (exec (refresh_current_preserving_previous capture_env []) no_files) Tier_current = Holds one_saved [] \<and>
   ld_store (exec (refresh_current_preserving_previous capture_env []) no_files) Tier_golden = Absent"
proof -
  have "fst (run_state (refresh_current_preserving_previous capture_env []) no_files)"
    "fst (run_state (capture_attempts capture_env 3 []) no_files) = Some (one_saved, [])"
    by code_simp+
  then show ?thesis
    using refresh_keeps_baseline[of capture_env "[]" no_files] by (simp add: exec_def no_files_def prod_eq_iff)
qed

end
