(* ===== verification/Restore_Operation.thy ===== *)
theory Restore_Operation
  imports Helper_State
begin

text \<open>
  One restore of the desktop (\<^verbatim>\<open>TopologyTransition\<close> and \<^verbatim>\<open>RecoveryOperation\<close> of
  \<^verbatim>\<open>display_helper_v2/operations.cpp\<close>), which the helper's worker runs when the state machine
  dispatches a recovery. The operation loads the saved desktops in the configured order, brings the first
  usable one back, and reports success when it saw the desktop match it for a while. It reads the displays
  again and again, so every answer of the display driver, of the cancellation token and of the clock depends
  on the count of questions. The flags and exclusions of \<^verbatim>\<open>RestoreState\<close> that command handlers
  set are questions too: they may change under way. Files change only by the operation itself. The steady
  clock is in nanoseconds; it goes on by at least one between two readings, and by at least the time slept
  over a sleep.

  The state logs what the operation saw and wrote: every captured desktop with its time, every check of the
  rotations, and every write to the display stack with its number among the questions.
\<close>

section \<open>World and environment\<close>

datatype write_call = Set_topology topology | Recover_stack | Apply_settings snapshot | Apply_rotations rotations
  | Reassert_rotations rotations | Apply_hdr snapshot

datatype event = Seen time_point snapshot | Layout_checked rotations bool | Wrote nat write_call

record recovery_outcome =
  ro_success :: bool
  ro_snapshot :: "snapshot option"
  ro_display_may_have_changed :: bool
  ro_staged_state_reset_attempted :: bool
  ro_staged_state_reset_succeeded :: bool

definition recovery_outcome_new :: recovery_outcome where
  "recovery_outcome_new = \<lparr>ro_success = False, ro_snapshot = None, ro_display_may_have_changed = False,
     ro_staged_state_reset_attempted = False, ro_staged_state_reset_succeeded = False\<rparr>"

text \<open>The fields from \<open>rw_outcome\<close> on are the variables of \<^verbatim>\<open>run\<close> that its lambdas capture.\<close>

record restore_world = ledger +
  rw_time :: time_point
  rw_events :: "event list"
  rw_golden_health :: golden_health
  rw_restore_attempted_unconfirmed :: bool
  rw_golden_pending_session_fallbacks :: nat
  rw_last_session_restore_success_ms :: int
  rw_outcome :: recovery_outcome
  rw_restored :: "snapshot option"
  rw_preserved_live_desktop :: bool
  rw_tried_golden_before_previous :: bool

record restore_env = ledger_env +
  oe_cancelled :: "nat \<Rightarrow> bool"
  oe_elapsed :: "nat \<Rightarrow> nat"
  oe_capture_topology :: "nat \<Rightarrow> topology"
  oe_validate_topology :: "nat \<Rightarrow> topology \<Rightarrow> bool"
  oe_is_topology_same :: "nat \<Rightarrow> topology \<Rightarrow> topology \<Rightarrow> bool"
  oe_apply_topology :: "nat \<Rightarrow> apply_status"
  oe_written :: "nat \<Rightarrow> bool"
  oe_layout_matches :: "nat \<Rightarrow> rotations \<Rightarrow> bool"
  oe_reset_staged_apply_state :: "nat \<Rightarrow> bool"
  oe_removed :: "nat \<Rightarrow> bool"
  oe_always_restore_from_golden :: "nat \<Rightarrow> bool"
  oe_prefer_golden_if_current_missing :: "nat \<Rightarrow> bool"
  oe_preserve_active_physical_primary :: "nat \<Rightarrow> bool"
  oe_exclusions :: "nat \<Rightarrow> string list"
  oe_unix_ms :: "nat \<Rightarrow> int"
  oe_equal_display_modes :: "(string \<times> display_mode) list \<Rightarrow> (string \<times> display_mode) list \<Rightarrow> bool"

type_synonym 'a restore = "(restore_world, 'a) program"

definition is_cancelled :: "restore_env \<Rightarrow> bool restore" where
  "is_cancelled e = ask (oe_cancelled e)"

text \<open>The early return on a cancelled token.\<close>

definition unless_cancelled :: "restore_env \<Rightarrow> 'a \<Rightarrow> 'a restore \<Rightarrow> 'a restore" where
  "unless_cancelled e x m = do { c \<leftarrow> is_cancelled e; if c then return x else m }"

definition clock_now :: "restore_env \<Rightarrow> time_point restore" where
  "clock_now e = do {
     d \<leftarrow> ask (oe_elapsed e);
     modify (\<lambda>s. s\<lparr>rw_time := rw_time s + 1 + int d\<rparr>);
     gets rw_time }"

definition sleep_for :: "restore_env \<Rightarrow> nat \<Rightarrow> unit restore" where
  "sleep_for e ms = do {
     d \<leftarrow> ask (oe_elapsed e);
     modify (\<lambda>s. s\<lparr>rw_time := rw_time s + milliseconds (int ms) + int d\<rparr>) }"

definition log_event :: "event \<Rightarrow> unit restore" where
  "log_event ev = modify (\<lambda>s. s\<lparr>rw_events := ev # rw_events s\<rparr>)"

definition capture_snapshot :: "restore_env \<Rightarrow> snapshot restore" where
  "capture_snapshot e = do {
     cur \<leftarrow> ask (le_capture e);
     t \<leftarrow> gets rw_time;
     log_event (Seen t cur);
     return cur }"

text \<open>A call that may change the displays; the answer of the driver is a question like any other.\<close>

definition display_write :: "(nat \<Rightarrow> 'a) \<Rightarrow> write_call \<Rightarrow> 'a restore" where
  "display_write port w = do {
     k \<leftarrow> gets po_reads;
     log_event (Wrote k w);
     ask port }"

definition current_layout_matches :: "restore_env \<Rightarrow> rotations \<Rightarrow> bool restore" where
  "current_layout_matches e layouts = do {
     matches \<leftarrow> ask (oe_layout_matches e);
     log_event (Layout_checked layouts (matches layouts));
     return (matches layouts) }"

section \<open>Comparing captured desktops\<close>

definition equal_origins :: "(string \<times> (int \<times> int)) list \<Rightarrow> (string \<times> (int \<times> int)) list \<Rightarrow> bool" where
  "equal_origins lhs rhs \<longleftrightarrow> length lhs = length rhs \<and> list_all (\<lambda>(i, p). map_of rhs i = Some p) lhs"

definition equal_snapshot :: "restore_env \<Rightarrow> snapshot \<Rightarrow> snapshot \<Rightarrow> bool" where
  "equal_snapshot e lhs rhs \<longleftrightarrow>
     \<not> (sn_topology lhs \<noteq> sn_topology rhs \<or> \<not> oe_equal_display_modes e (sn_modes lhs) (sn_modes rhs) \<or>
        sn_hdr_states lhs \<noteq> sn_hdr_states rhs \<or> sn_primary_device lhs \<noteq> sn_primary_device rhs) \<and>
     (sn_origins lhs = [] \<or> sn_origins rhs = [] \<or> equal_origins (sn_origins lhs) (sn_origins rhs))"

abbreviation matches :: "restore_env \<Rightarrow> snapshot \<Rightarrow> snapshot \<Rightarrow> bool" where
  "matches e \<equiv> recovery_snapshot_matches (oe_equal_display_modes e)"

section \<open>Activating a topology\<close>

definition topology_ready :: "restore_env \<Rightarrow> topology \<Rightarrow> topology option restore" where
  "topology_ready e requested = do {
     current \<leftarrow> ask (oe_capture_topology e);
     valid \<leftarrow> ask (le_topology_is_valid e);
     if \<not> valid current then return None
     else do {
       same \<leftarrow> ask (oe_is_topology_same e);
       if \<not> same requested current then return None
       else if concat current = [] then return None
       else do {
         devices \<leftarrow> ask (le_enumerate e);
         return (if list_all (\<lambda>i. i \<noteq> [] \<and> list_ex (\<lambda>d. dv_device_id d \<noteq> [] \<and> iequals (dv_device_id d) i \<and> dv_active d) devices) (concat current)
           then Some current else None) } } }"

text \<open>Sleep in slices of 100 ms, and give up early when cancelled.\<close>

fun transition_wait :: "restore_env \<Rightarrow> nat \<Rightarrow> bool restore" where
  "transition_wait e remaining = (if remaining > 0
     then unless_cancelled e False (let slice = min remaining 100 in do {
       sleep_for e slice;
       transition_wait e (remaining - slice) })
     else do { c \<leftarrow> is_cancelled e; return (\<not> c) })"

declare transition_wait.simps [simp del]

text \<open>One pass of the loop of \<^verbatim>\<open>wait_until_ready\<close>: \<open>Inl\<close> leaves the loop with a result.\<close>

definition ready_pass :: "restore_env \<Rightarrow> topology \<Rightarrow> time_point \<Rightarrow> (topology option + unit) restore" where
  "ready_pass e requested deadline = unless_cancelled e (Inl None) (do {
     ready \<leftarrow> topology_ready e requested;
     if ready \<noteq> None then return (Inl ready)
     else do {
       now \<leftarrow> clock_now e;
       if now \<ge> deadline then return (Inl None)
       else do {
         go_on \<leftarrow> transition_wait e (nat (min ((deadline - now) div milliseconds 1) 100));
         return (if go_on then Inr () else Inl None) } } })"

section \<open>Time goes on\<close>

lemma wp_is_cancelled [wp_rules]: "wp (is_cancelled e) Q s = Q (oe_cancelled e (po_reads s)) (s\<lparr>po_reads := Suc (po_reads s)\<rparr>)"
  by (simp add: is_cancelled_def wp_rules)

lemma wp_unless_cancelled [wp_rules]:
  "wp (unless_cancelled e x m) Q s = (let t = s\<lparr>po_reads := Suc (po_reads s)\<rparr> in
     if oe_cancelled e (po_reads s) then Q x t else wp m Q t)"
  by (simp add: unless_cancelled_def wp_rules Let_def)

lemma wp_log_event [wp_rules]: "wp (log_event ev) Q s = Q () (s\<lparr>rw_events := ev # rw_events s\<rparr>)"
  by (simp add: log_event_def wp_rules)

lemmas port_defs = clock_now_def sleep_for_def capture_snapshot_def current_layout_matches_def

text \<open>A relation that every program of a group guarantees between the state before and after it.\<close>

definition guarantees :: "('s \<Rightarrow> 's \<Rightarrow> bool) \<Rightarrow> ('s, 'a) program \<Rightarrow> bool" where
  "guarantees G m \<longleftrightarrow> (\<forall>s. wp m (\<lambda>_. G s) s)"

lemma guarantees_run: "guarantees G m \<Longrightarrow> run_state m s = (x, t) \<Longrightarrow> G s t"
  unfolding guarantees_def by (metis wp_run)

locale guarantee =
  fixes G :: "'s \<Rightarrow> 's \<Rightarrow> bool"
  assumes G_refl: "G s s"
    and G_trans: "G r s \<Longrightarrow> G s t \<Longrightarrow> G r t"
begin

lemma pure: "guarantees G (return x)" "guarantees G (gets f)"
  by (simp_all add: guarantees_def wp_rules G_refl)

lemma bind: "guarantees G m \<Longrightarrow> (\<And>x. guarantees G (f x)) \<Longrightarrow> guarantees G (State_Monad.bind m f)"
  by (auto simp: guarantees_def wp_bind wp_def split_beta intro: G_trans)

lemma cond: "(c \<Longrightarrow> guarantees G m) \<Longrightarrow> (\<not> c \<Longrightarrow> guarantees G n) \<Longrightarrow> guarantees G (if c then m else n)"
  by simp

lemma when_only: "(c \<Longrightarrow> guarantees G m) \<Longrightarrow> guarantees G (when_do c m)"
  by (simp add: guarantees_def wp_rules G_refl)

lemma opt: "guarantees G m \<Longrightarrow> (\<And>y. guarantees G (n y)) \<Longrightarrow> guarantees G (case x of None \<Rightarrow> m | Some y \<Rightarrow> n y)"
  by (cases x) simp_all

lemma let_in: "(\<And>x. guarantees G (f x)) \<Longrightarrow> guarantees G (Let a f)"
  by simp

lemmas rules = pure bind cond when_only opt let_in

text \<open>What a program does after another one that guarantees the relation.\<close>

lemma wp_after: "guarantees G m \<Longrightarrow> (\<And>x t. G s t \<Longrightarrow> Q x t) \<Longrightarrow> wp m Q s"
  by (auto simp: guarantees_def wp_def split_beta)

end

text \<open>What the operation does between two writes: it asks, it looks, and time passes. The events and the
  time go on; nothing else of the state changes.\<close>

definition rest :: "restore_world \<Rightarrow> restore_world" where
  "rest s = s\<lparr>po_reads := 0, rw_time := 0, rw_events := []\<rparr>"

fun looked_between :: "time_point \<Rightarrow> time_point \<Rightarrow> event \<Rightarrow> bool" where
  "looked_between a b (Seen u _) \<longleftrightarrow> a \<le> u \<and> u \<le> b"
| "looked_between a b (Layout_checked _ _) \<longleftrightarrow> True"
| "looked_between a b (Wrote _ _) \<longleftrightarrow> False"

lemma looked_between_wider: "looked_between a b ev \<Longrightarrow> a' \<le> a \<Longrightarrow> b \<le> b' \<Longrightarrow> looked_between a' b' ev"
  by (cases ev) auto

definition only_looked :: "restore_world \<Rightarrow> restore_world \<Rightarrow> bool" where
  "only_looked s t \<longleftrightarrow> rest t = rest s \<and> rw_time s \<le> rw_time t \<and>
     (\<exists>new. rw_events t = new @ rw_events s \<and> (\<forall>ev \<in> set new. looked_between (rw_time s) (rw_time t) ev))"

interpretation look: guarantee only_looked
proof
  show "only_looked s s" for s by (simp add: only_looked_def)
next
  fix r s t
  assume rs: "only_looked r s" and st: "only_looked s t"
  from rs obtain new1 where 1: "rw_events s = new1 @ rw_events r" "\<forall>ev \<in> set new1. looked_between (rw_time r) (rw_time s) ev"
    by (auto simp: only_looked_def)
  from st obtain new2 where 2: "rw_events t = new2 @ rw_events s" "\<forall>ev \<in> set new2. looked_between (rw_time s) (rw_time t) ev"
    by (auto simp: only_looked_def)
  from rs st 1 2 show "only_looked r t"
    unfolding only_looked_def by (auto intro!: exI[of _ "new2 @ new1"] intro: looked_between_wider)
qed

lemma look_ask: "guarantees only_looked (ask port)"
  by (simp add: guarantees_def wp_rules only_looked_def rest_def)

lemma look_ports:
  "guarantees only_looked (is_cancelled e)" "guarantees only_looked (clock_now e)" "guarantees only_looked (sleep_for e n)"
  "guarantees only_looked (capture_snapshot e)" "guarantees only_looked (current_layout_matches e r)"
  by (auto simp: guarantees_def wp_rules port_defs only_looked_def rest_def milliseconds_def)

lemma look_unless_cancelled: "guarantees only_looked m \<Longrightarrow> guarantees only_looked (unless_cancelled e x m)"
  unfolding unless_cancelled_def by (intro look.rules look_ports)

lemmas look_rules = look.rules look_ask look_ports look_unless_cancelled

lemma look_topology_ready: "guarantees only_looked (topology_ready e requested)"
  unfolding topology_ready_def by (intro look_rules)

lemma look_transition_wait: "guarantees only_looked (transition_wait e remaining)"
  by (induction e remaining rule: transition_wait.induct) (subst transition_wait.simps, simp add: Let_def look_rules)

lemma look_ready_pass: "guarantees only_looked (ready_pass e requested deadline)"
  unfolding ready_pass_def by (intro look_rules look_topology_ready look_transition_wait)

lemma wp_ready_pass_again:
  "wp (ready_pass e requested deadline) (\<lambda>x t. x = Inr u \<longrightarrow> rw_time s < rw_time t \<and> rw_time s < deadline) s"
proof -
  have wait: "wp (transition_wait e n) (\<lambda>go_on t. go_on \<longrightarrow> rw_time s < rw_time t) t" if "rw_time s < rw_time t" for n t
    by (rule look.wp_after[OF look_transition_wait]) (use that in \<open>simp add: only_looked_def\<close>)
  show ?thesis
    unfolding ready_pass_def unless_cancelled_def wp_bind
    by (simp add: wp_rules, intro impI look.wp_after[OF look_topology_ready])
      (auto simp: wp_rules port_defs only_looked_def intro!: wp_weaken[OF wait])
qed

lemma ready_pass_again:
  "run_state (ready_pass e requested deadline) s = (Inr u, t) \<Longrightarrow> rw_time s < rw_time t \<and> rw_time s < deadline"
  by (drule wp_run[OF wp_ready_pass_again]) simp

function ready_loop :: "restore_env \<Rightarrow> topology \<Rightarrow> time_point \<Rightarrow> restore_world \<Rightarrow> topology option \<times> restore_world" where
  "ready_loop e requested deadline s = (case run_state (ready_pass e requested deadline) s of
     (Inl result, t) \<Rightarrow> (result, t)
   | (Inr _, t) \<Rightarrow> ready_loop e requested deadline t)"
  by pat_completeness auto
termination
  by (relation "measure (\<lambda>(e, requested, deadline, s). nat (deadline - rw_time s))") (auto dest!: ready_pass_again[OF sym])

declare ready_loop.simps [simp del]

definition wait_until_ready :: "restore_env \<Rightarrow> topology \<Rightarrow> topology option restore" where
  "wait_until_ready e requested = do {
     now \<leftarrow> clock_now e;
     State (ready_loop e requested (now + milliseconds 5000)) }"

definition recover_and_settle :: "restore_env \<Rightarrow> bool restore" where
  "recover_and_settle e = unless_cancelled e False (do {
     display_write (oe_written e) Recover_stack;
     transition_wait e 500 })"

record transition_outcome =
  tr_status :: apply_status
  tr_applied_topology :: "topology option"
  tr_display_may_have_changed :: bool

text \<open>The loop over the attempts, by the number of attempts left. The restore passes no mutation boundary.\<close>

fun transition_attempts :: "restore_env \<Rightarrow> topology \<Rightarrow> nat \<Rightarrow> transition_outcome \<Rightarrow> transition_outcome restore" where
  "transition_attempts e topology 0 outcome = return (outcome\<lparr>tr_status := Retryable\<rparr>)"
| "transition_attempts e topology (Suc left) outcome =
     unless_cancelled e (outcome\<lparr>tr_status := Fatal\<rparr>) (
     unless_cancelled e (outcome\<lparr>tr_status := Fatal\<rparr>) (do {
       let outcome = outcome\<lparr>tr_display_may_have_changed := True\<rparr>;
       status \<leftarrow> display_write (oe_apply_topology e) (Set_topology topology);
       if status = Fatal \<or> status = HelperUnavailable \<or> status = InvalidRequest then return (outcome\<lparr>tr_status := status\<rparr>)
       else do {
         applied \<leftarrow> wait_until_ready e topology;
         if applied \<noteq> None then return (outcome\<lparr>tr_status := St_ok, tr_applied_topology := applied\<rparr>)
         else unless_cancelled e (outcome\<lparr>tr_status := Fatal\<rparr>) (
           if left > 0 then do {
             settled \<leftarrow> recover_and_settle e;
             if \<not> settled then do {
               c \<leftarrow> is_cancelled e;
               return (outcome\<lparr>tr_status := (if c then Fatal else Retryable)\<rparr>) }
             else transition_attempts e topology left outcome }
           else transition_attempts e topology left outcome) } }))"

definition transition_run :: "restore_env \<Rightarrow> topology \<Rightarrow> transition_outcome restore" where
  "transition_run e topology =
     (let outcome = \<lparr>tr_status = Fatal, tr_applied_topology = None, tr_display_may_have_changed = False\<rparr> in
      unless_cancelled e outcome (do {
        valid \<leftarrow> ask (le_topology_is_valid e);
        if \<not> valid topology then return (outcome\<lparr>tr_status := InvalidRequest\<rparr>)
        else transition_attempts e topology 2 outcome }))"

section \<open>Reading a stable desktop\<close>

definition emptyish :: "snapshot \<Rightarrow> bool" where
  "emptyish s \<longleftrightarrow> sn_topology s = [] \<and> sn_modes s = []"

text \<open>The body of the loop of \<^verbatim>\<open>read_stable_snapshot\<close>; \<open>prior\<close> is the capture before, if any.\<close>

definition stable_pass :: "restore_env \<Rightarrow> nat \<Rightarrow> snapshot option \<Rightarrow> (snapshot option + snapshot) restore" where
  "stable_pass e interval prior = unless_cancelled e (Inl None) (do {
     cur \<leftarrow> capture_snapshot e;
     if (case prior of None \<Rightarrow> False | Some l \<Rightarrow> \<not> emptyish cur \<and> equal_snapshot e cur l) then return (Inl (Some cur))
     else unless_cancelled e (Inl None) (do {
       sleep_for e interval;
       return (Inr cur) }) })"

lemma look_stable_pass: "guarantees only_looked (stable_pass e interval prior)"
  unfolding stable_pass_def by (intro look_rules)

lemma look_run: "guarantees only_looked m \<Longrightarrow> run_state m s = (x, t) \<Longrightarrow> rw_time s \<le> rw_time t"
  by (drule guarantees_run) (auto simp: only_looked_def)

lemma clock_now_advances: "run_state (clock_now e) s = (now, t) \<Longrightarrow> rw_time s < now \<and> rw_time t = now"
  by (auto simp: clock_now_def)

function stable_loop :: "restore_env \<Rightarrow> nat \<Rightarrow> nat \<Rightarrow> time_point \<Rightarrow> snapshot option \<Rightarrow> restore_world \<Rightarrow> snapshot option \<times> restore_world" where
  "stable_loop e deadline interval t0 prior s = (case run_state (clock_now e) s of (now, s1) \<Rightarrow>
     if now - t0 < milliseconds (int deadline) then (case run_state (stable_pass e interval prior) s1 of
         (Inl result, t) \<Rightarrow> (result, t)
       | (Inr cur, t) \<Rightarrow> stable_loop e deadline interval t0 (Some cur) t)
     else (None, s1))"
  by pat_completeness auto
termination
  by (relation "measure (\<lambda>(e, deadline, interval, t0, prior, s). nat (t0 + milliseconds (int deadline) - rw_time s))")
    (auto dest!: clock_now_advances[OF sym] look_run[OF look_stable_pass sym])

declare stable_loop.simps [simp del]

definition read_stable_snapshot :: "restore_env \<Rightarrow> nat \<Rightarrow> nat \<Rightarrow> snapshot option restore" where
  "read_stable_snapshot e deadline interval = do {
     t0 \<leftarrow> clock_now e;
     State (stable_loop e deadline interval t0 None) }"

lemma guarantees_State: "guarantees G (State f) \<longleftrightarrow> (\<forall>s. G s (snd (f s)))"
  by (simp add: guarantees_def wp_def split_beta)

lemma look_stable_loop: "only_looked s (snd (stable_loop e deadline interval t0 prior s))"
proof (induction e deadline interval t0 prior s rule: stable_loop.induct)
  case (1 e deadline interval t0 prior s)
  obtain now s1 where now: "run_state (clock_now e) s = (now, s1)" by fastforce
  obtain x t where pass: "run_state (stable_pass e interval prior) s1 = (x, t)" by fastforce
  have s1: "only_looked s s1" using guarantees_run[OF look_ports(2) now] .
  then have t: "only_looked s t" using guarantees_run[OF look_stable_pass pass] look.G_trans by blast
  have "only_looked s (snd (stable_loop e deadline interval t0 (Some cur) t))"
    if "x = Inr cur" "now - t0 < milliseconds (int deadline)" for cur
    using 1[OF now[symmetric] that(2) pass[symmetric] that(1)] t look.G_trans by blast
  then show ?case
    by (subst stable_loop.simps) (use s1 t in \<open>auto simp: now pass split: sum.split\<close>)
qed

lemma look_read_stable: "guarantees only_looked (read_stable_snapshot e deadline interval)"
  unfolding read_stable_snapshot_def by (intro look_rules) (simp add: guarantees_State look_stable_loop)

text \<open>The body of the loop of \<^verbatim>\<open>quiet_period\<close>, and the loop: \<open>Inl\<close> gives up.\<close>

definition quiet_pass :: "restore_env \<Rightarrow> nat \<Rightarrow> snapshot \<Rightarrow> (unit + unit) restore" where
  "quiet_pass e interval base = unless_cancelled e (Inl ()) (do {
     cur \<leftarrow> read_stable_snapshot e 2000 150;
     (case cur of
        None \<Rightarrow> return (Inl ())
      | Some cur \<Rightarrow>
          if \<not> equal_snapshot e cur base then return (Inl ())
          else unless_cancelled e (Inl ()) (do {
            sleep_for e interval;
            return (Inr ()) })) })"

lemma look_quiet_pass: "guarantees only_looked (quiet_pass e interval base)"
  unfolding quiet_pass_def by (intro look_rules look_read_stable)

function quiet_loop :: "restore_env \<Rightarrow> nat \<Rightarrow> nat \<Rightarrow> time_point \<Rightarrow> snapshot \<Rightarrow> restore_world \<Rightarrow> bool \<times> restore_world" where
  "quiet_loop e duration interval t0 base s = (case run_state (clock_now e) s of (now, s1) \<Rightarrow>
     if now - t0 < milliseconds (int duration) then (case run_state (quiet_pass e interval base) s1 of
         (Inl _, t) \<Rightarrow> (False, t)
       | (Inr _, t) \<Rightarrow> quiet_loop e duration interval t0 base t)
     else (True, s1))"
  by pat_completeness auto
termination
  by (relation "measure (\<lambda>(e, duration, interval, t0, base, s). nat (t0 + milliseconds (int duration) - rw_time s))")
    (auto dest!: clock_now_advances[OF sym] look_run[OF look_quiet_pass sym])

declare quiet_loop.simps [simp del]

definition quiet_period :: "restore_env \<Rightarrow> nat \<Rightarrow> nat \<Rightarrow> bool restore" where
  "quiet_period e duration interval = do {
     base \<leftarrow> read_stable_snapshot e 2000 150;
     (case base of
        None \<Rightarrow> return False
      | Some base \<Rightarrow> do {
          t0 \<leftarrow> clock_now e;
          State (quiet_loop e duration interval t0 base) }) }"

text \<open>Sleep in slices of 50 ms.\<close>

fun recovery_wait :: "restore_env \<Rightarrow> nat \<Rightarrow> bool restore" where
  "recovery_wait e remaining = (if remaining > 0
     then unless_cancelled e False (let slice = (if remaining > 50 then 50 else remaining) in do {
       sleep_for e slice;
       recovery_wait e (remaining - slice) })
     else do { c \<leftarrow> is_cancelled e; return (\<not> c) })"

declare recovery_wait.simps [simp del]

section \<open>Applying a saved desktop\<close>

text \<open>A file of a tier as it is parsed. The program writes the rotations always; a file without them and one
  with none are the same for the restore.\<close>

definition load_with_metadata :: "tier \<Rightarrow> 'z ledger_scheme \<Rightarrow> parsed_snapshot option" where
  "load_with_metadata t s = map_option (\<lambda>(sn, rot). \<lparr>pa_snapshot = sn, pa_has_layout_data = True, pa_layout_rotations = rot\<rparr>) (storage_load t s)"

definition load_filtered :: "restore_env \<Rightarrow> tier \<Rightarrow> parsed_snapshot option restore" where
  "load_filtered e t = do {
     loaded \<leftarrow> gets (load_with_metadata t);
     (case loaded of
        None \<Rightarrow> return None
      | Some raw \<Rightarrow> do {
          devices \<leftarrow> ask (le_enumerate e);
          exclusions \<leftarrow> ask (oe_exclusions e);
          return (filter_loaded_snapshot raw devices exclusions) }) }"

text \<open>The check that \<^verbatim>\<open>confirm_matches\<close> and \<^verbatim>\<open>verify_once\<close> share: a stable desktop
  that matches, a quiet period, a stable desktop that still matches, and last the rotations.\<close>

definition still_matches :: "restore_env \<Rightarrow> snapshot \<Rightarrow> bool restore" where
  "still_matches e base = do {
     after_quiet \<leftarrow> read_stable_snapshot e 2000 150;
     (case after_quiet of
        None \<Rightarrow> return False
      | Some cur \<Rightarrow> unless_cancelled e False (return (matches e cur base))) }"

definition check_layout :: "restore_env \<Rightarrow> bool \<Rightarrow> rotations \<Rightarrow> bool \<Rightarrow> bool restore" where
  "check_layout e require_layout_match layouts state_ok = unless_cancelled e False (do {
     layout_ok \<leftarrow> (if \<not> require_layout_match then return True else current_layout_matches e layouts);
     unless_cancelled e False (return (state_ok \<and> layout_ok)) })"

definition after_quiet_period :: "restore_env \<Rightarrow> snapshot \<Rightarrow> bool \<Rightarrow> rotations \<Rightarrow> bool \<Rightarrow> bool restore" where
  "after_quiet_period e base require_layout_match layouts state_ok = do {
     goes_on \<leftarrow> (if state_ok then do { c \<leftarrow> is_cancelled e; return (\<not> c) } else return False);
     state_ok \<leftarrow> (if goes_on then still_matches e base else return False);
     check_layout e require_layout_match layouts state_ok }"

definition confirm_state :: "restore_env \<Rightarrow> snapshot \<Rightarrow> bool \<Rightarrow> rotations \<Rightarrow> bool restore" where
  "confirm_state e base require_layout_match layouts = do {
     cur \<leftarrow> read_stable_snapshot e 2000 150;
     unless_cancelled e False (do {
       state_ok \<leftarrow> (if (case cur of None \<Rightarrow> False | Some cur \<Rightarrow> matches e cur base) then quiet_period e 750 150 else return False);
       after_quiet_period e base require_layout_match layouts state_ok }) }"

definition confirm_matches :: "restore_env \<Rightarrow> parsed_snapshot \<Rightarrow> bool restore" where
  "confirm_matches e loaded = confirm_state e (pa_snapshot loaded) (pa_has_layout_data loaded) (pa_layout_rotations loaded)"

definition verify_once :: "restore_env \<Rightarrow> parsed_snapshot \<Rightarrow> bool restore" where
  "verify_once e loaded = confirm_state e (pa_snapshot loaded) (pa_has_layout_data loaded) (pa_layout_rotations loaded)"

definition apply_once :: "restore_env \<Rightarrow> parsed_snapshot \<Rightarrow> bool restore" where
  "apply_once e loaded = (let base = pa_snapshot loaded; layouts = pa_layout_rotations loaded in do {
     outcome \<leftarrow> transition_run e (sn_topology base);
     if tr_status outcome \<noteq> St_ok then return False
     else unless_cancelled e False (do {
       ok \<leftarrow> display_write (oe_written e) (Apply_settings base);
       if \<not> ok then return False
       else unless_cancelled e False (do {
         ok \<leftarrow> (if pa_has_layout_data loaded \<and> layouts \<noteq> []
           then unless_cancelled e False (display_write (oe_written e) (Apply_rotations layouts))
           else return True);
         if \<not> ok then return False
         else unless_cancelled e False (display_write (oe_written e) (Apply_hdr base)) }) }) })"

definition reassert_rotations_after_match :: "restore_env \<Rightarrow> parsed_snapshot \<Rightarrow> bool restore" where
  "reassert_rotations_after_match e loaded = (let base = pa_snapshot loaded; layouts = pa_layout_rotations loaded in
     if \<not> pa_has_layout_data loaded \<or> layouts = [] then do { c \<leftarrow> is_cancelled e; return (\<not> c) }
     else do {
       c \<leftarrow> is_cancelled e;
       if c then do { c \<leftarrow> is_cancelled e; return (\<not> c) }
       else if \<not> list_ex (\<lambda>(_, r). r \<noteq> 0) layouts then return True
       else do {
         display_write (oe_written e) (Reassert_rotations layouts);
         unless_cancelled e False (do {
           ok \<leftarrow> display_write (oe_written e) (Apply_hdr base);
           if ok then verify_once e loaded else return False }) } })"

text \<open>The fast path, taken before each attempt: the desktop matches already.\<close>

definition already_restored :: "restore_env \<Rightarrow> parsed_snapshot \<Rightarrow> bool restore" where
  "already_restored e loaded = do {
     ok \<leftarrow> confirm_matches e loaded;
     if ok then reassert_rotations_after_match e loaded else return False }"

definition attempt_once :: "restore_env \<Rightarrow> parsed_snapshot \<Rightarrow> bool restore" where
  "attempt_once e loaded = do {
     applied \<leftarrow> apply_once e loaded;
     if applied then verify_once e loaded else return False }"

definition apply_and_confirm :: "restore_env \<Rightarrow> parsed_snapshot \<Rightarrow> bool restore" where
  "apply_and_confirm e loaded = (if sn_modes (pa_snapshot loaded) = [] then return False
     else do {
       capture_snapshot e;
       unless_cancelled e False (do {
         ok \<leftarrow> already_restored e loaded;
         if ok then return True
         else unless_cancelled e False (do {
           ok \<leftarrow> attempt_once e loaded;
           if ok then return True
           else unless_cancelled e False (do {
             waited \<leftarrow> recovery_wait e 700;
             if \<not> waited then return False
             else do {
               ok \<leftarrow> already_restored e loaded;
               if ok then return True else attempt_once e loaded } }) }) }) })"

section \<open>Which desktop to restore\<close>

definition known_present_devices :: "restore_env \<Rightarrow> string list restore" where
  "known_present_devices e = do {
     snap \<leftarrow> capture_snapshot e;
     devices \<leftarrow> ask (le_enumerate e);
     let result = map (normalize_device_id \<circ> fst) (sn_modes snap) @
       map (normalize_device_id \<circ> device_key) (filter (\<lambda>d. device_key d \<noteq> []) devices);
     return (if result = [] then map normalize_device_id (concat (sn_topology snap)) else result) }"

definition steady_now_ms :: "restore_env \<Rightarrow> int restore" where
  "steady_now_ms e = do { now \<leftarrow> clock_now e; return (now div milliseconds 1) }"

definition should_skip_golden :: "restore_env \<Rightarrow> snapshot \<Rightarrow> bool restore" where
  "should_skip_golden e golden = do {
     now_ms \<leftarrow> steady_now_ms e;
     last_ok \<leftarrow> gets rw_last_session_restore_success_ms;
     golden_first \<leftarrow> ask (oe_always_restore_from_golden e);
     if \<not> golden_first \<and> last_ok \<noteq> 0 \<and> now_ms - last_ok < 60000 then return True
     else let golden_devices = map normalize_device_id (concat (sn_topology golden)) in
       if golden_devices = [] then return True
       else do {
         present \<leftarrow> known_present_devices e;
         return (\<not> list_all (\<lambda>i. i \<in> set present) golden_devices) } }"

definition snapshot_device_set :: "snapshot \<Rightarrow> string list" where
  "snapshot_device_set s = (if concat (sn_topology s) = [] then map fst (sn_modes s) else concat (sn_topology s))"

definition golden_restore_is_pending :: "restore_env \<Rightarrow> bool restore" where
  "golden_restore_is_pending e = do {
     loaded \<leftarrow> gets (load_with_metadata Tier_golden);
     (case loaded of
        None \<Rightarrow> return False
      | Some raw \<Rightarrow> do {
          devices \<leftarrow> ask (le_enumerate e);
          exclusions \<leftarrow> ask (oe_exclusions e);
          if filter_loaded_snapshot raw devices exclusions \<noteq> None then return True
          else do {
            available \<leftarrow> known_present_devices e;
            exclusions \<leftarrow> ask (oe_exclusions e);
            return (list_ex (\<lambda>i. \<not> is_excluded exclusions i \<and> normalize_device_id i \<notin> set available)
              (snapshot_device_set (pa_snapshot raw))) } }) }"

text \<open>A failed removal of a file leaves it in place.\<close>

definition storage_remove :: "restore_env \<Rightarrow> tier \<Rightarrow> bool restore" where
  "storage_remove e t = do {
     removed \<leftarrow> ask (oe_removed e);
     present \<leftarrow> tier_exists t;
     when_do removed (modify (\<lambda>s. s\<lparr>ld_store := (ld_store s)(t := Absent)\<rparr>));
     return (removed \<and> present) }"

definition clear_session_snapshots_after_golden :: "restore_env \<Rightarrow> unit restore" where
  "clear_session_snapshots_after_golden e = do {
     storage_remove e Tier_current;
     storage_remove e Tier_previous;
     return () }"

definition promote_current_to_previous :: "restore_env \<Rightarrow> bool restore" where
  "promote_current_to_previous e = do {
     current \<leftarrow> gets (load_with_metadata Tier_current);
     (case current of
        None \<Rightarrow> return False
      | Some c \<Rightarrow> do {
          saved \<leftarrow> storage_save e Tier_previous (pa_snapshot c) (pa_layout_rotations c);
          if \<not> saved then return False
          else do {
            storage_remove e Tier_current;
            return True } }) }"

definition normal_ids :: "topology \<Rightarrow> string list" where
  "normal_ids t = map normalize_device_id (concat t)"

text \<open>The enumeration shows no active virtual display and has the primary as an active one.\<close>

fun physical_primary_active :: "snapshot \<Rightarrow> device list \<Rightarrow> bool \<Rightarrow> bool option" where
  "physical_primary_active live [] found = Some found"
| "physical_primary_active live (d # ds) found =
     (if \<not> is_active_display_device d then physical_primary_active live ds found
      else if is_virtual_display_device d then None
      else physical_primary_active live ds (found \<or> dv_display_name d \<noteq> [] \<and>
        normalize_device_id (dv_device_id d) = normalize_device_id (sn_primary_device live) \<and>
        map_of (sn_modes live) (sn_primary_device live) \<noteq> None))"

definition live_desktop_to_preserve :: "restore_env \<Rightarrow> snapshot \<Rightarrow> snapshot option restore" where
  "live_desktop_to_preserve e baseline = do {
     preserve \<leftarrow> ask (oe_preserve_active_physical_primary e);
     always_golden \<leftarrow> (if preserve then ask (oe_always_restore_from_golden e) else return True);
     if always_golden then return None
     else do {
       live \<leftarrow> capture_snapshot e;
       let primary = normalize_device_id (sn_primary_device live);
       valid \<leftarrow> (if primary = [] then return (\<lambda>_. False) else ask (le_topology_is_valid e));
       if \<not> valid (sn_topology live) then return None
       else if primary \<notin> set (normal_ids (sn_topology live)) then return None
       else if primary \<in> set (normal_ids (sn_topology baseline)) then return None
       else if \<not> set (normal_ids (sn_topology baseline)) \<subseteq> set (normal_ids (sn_topology live)) then return None
       else do {
         exclusions \<leftarrow> ask (oe_exclusions e);
         if primary \<in> set (map normalize_device_id exclusions) then return None
         else do {
           devices \<leftarrow> ask (le_enumerate e);
           return (if physical_primary_active live devices False = Some True then Some live else None) } } } }"

section \<open>The restore\<close>

definition note_golden_issue :: "string \<Rightarrow> unit restore" where
  "note_golden_issue reason = modify (\<lambda>s. s\<lparr>rw_golden_health := note_issue reason (rw_golden_health s)\<rparr>)"

definition register_golden_unresolved :: "restore_env \<Rightarrow> unit restore" where
  "register_golden_unresolved e = do {
     now_ms \<leftarrow> ask (oe_unix_ms e);
     written \<leftarrow> ask (le_write_ok e);
     modify (\<lambda>s. s\<lparr>rw_golden_health := register_unresolved now_ms written (rw_golden_health s)\<rparr>) }"

definition reset_staged_apply_state :: "restore_env \<Rightarrow> unit restore" where
  "reset_staged_apply_state e = do {
     reset \<leftarrow> ask (oe_reset_staged_apply_state e);
     modify (\<lambda>s. s\<lparr>rw_outcome := (rw_outcome s)\<lparr>ro_staged_state_reset_attempted := True,
       ro_staged_state_reset_succeeded := reset\<rparr>\<rparr>) }"

definition set_fallbacks :: "nat \<Rightarrow> unit restore" where
  "set_fallbacks n = modify (\<lambda>s. s\<lparr>rw_golden_pending_session_fallbacks := n\<rparr>)"

text \<open>The golden desktop is confirmed: the session tiers go, unless the operation was superseded meanwhile.\<close>

definition accept_golden :: "restore_env \<Rightarrow> snapshot \<Rightarrow> bool restore" where
  "accept_golden e golden = unless_cancelled e False (do {
     reset_staged_apply_state e;
     unless_cancelled e False (do {
       clear_session_snapshots_after_golden e;
       removed \<leftarrow> ask (oe_removed e);
       modify (\<lambda>s. s\<lparr>rw_golden_health := clear_status removed (rw_golden_health s), rw_restored := Some golden\<rparr>);
       return True }) })"

definition restore_golden :: "restore_env \<Rightarrow> parsed_snapshot \<Rightarrow> bool restore" where
  "restore_golden e golden = do {
     valid \<leftarrow> ask (oe_validate_topology e);
     if \<not> valid (sn_topology (pa_snapshot golden)) then do {
       note_golden_issue ''invalid_topology'';
       return False }
     else do {
       ok \<leftarrow> apply_and_confirm e golden;
       if ok then accept_golden e (pa_snapshot golden)
       else do {
         c \<leftarrow> is_cancelled e;
         when_do (\<not> c) (note_golden_issue ''restore_not_confirmed'');
         return False } } }"

definition try_golden :: "restore_env \<Rightarrow> bool restore" where
  "try_golden e = unless_cancelled e False (do {
     golden \<leftarrow> load_filtered e Tier_golden;
     (case golden of
        None \<Rightarrow> return False
      | Some golden \<Rightarrow> do {
          skip \<leftarrow> should_skip_golden e (pa_snapshot golden);
          if skip then return False else restore_golden e golden }) })"

definition accept_session :: "restore_env \<Rightarrow> bool \<Rightarrow> snapshot \<Rightarrow> bool restore" where
  "accept_session e preserve_live sn = unless_cancelled e False (do {
     modify (\<lambda>s. s\<lparr>rw_preserved_live_desktop := preserve_live\<rparr>);
     reset_staged_apply_state e;
     now_ms \<leftarrow> steady_now_ms e;
     modify (\<lambda>s. s\<lparr>rw_last_session_restore_success_ms := now_ms, rw_restored := Some sn\<rparr>);
     return True })"

text \<open>A live desktop that is to be kept takes the place of the saved one and is only confirmed, never applied.\<close>

definition restore_session :: "restore_env \<Rightarrow> parsed_snapshot \<Rightarrow> bool restore" where
  "restore_session e loaded = do {
     live \<leftarrow> live_desktop_to_preserve e (pa_snapshot loaded);
     (case live of
        None \<Rightarrow> do {
          ok \<leftarrow> apply_and_confirm e loaded;
          if ok then accept_session e False (pa_snapshot loaded) else return False }
      | Some l \<Rightarrow> do {
          ok \<leftarrow> confirm_matches e (loaded\<lparr>pa_snapshot := l, pa_has_layout_data := False, pa_layout_rotations := []\<rparr>);
          if ok then accept_session e True l else return False }) }"

text \<open>The second part of the result is the variable \<^verbatim>\<open>attempted\<close>.\<close>

definition try_session :: "restore_env \<Rightarrow> tier \<Rightarrow> (bool \<times> bool) restore" where
  "try_session e t = do {
     loaded \<leftarrow> load_filtered e t;
     (case loaded of
        None \<Rightarrow> return (False, False)
      | Some loaded \<Rightarrow> do {
          valid \<leftarrow> ask (le_topology_is_valid e);
          ok \<leftarrow> (if \<not> valid (sn_topology (pa_snapshot loaded)) then return False else restore_session e loaded);
          return (ok, True) }) }"

text \<open>The three parts of \<^verbatim>\<open>try_session_snapshots\<close>: the current tier, the golden one when the current
  one is missing, and the previous one. A superseded restore skips the promotion.\<close>

definition try_current :: "restore_env \<Rightarrow> (bool \<times> bool) restore" where
  "try_current e = do {
     tried \<leftarrow> try_session e Tier_current;
     preserved \<leftarrow> gets rw_preserved_live_desktop;
     go_on \<leftarrow> (if \<not> fst tried \<or> preserved then return False else do { c \<leftarrow> is_cancelled e; return (\<not> c) });
     (if go_on then promote_current_to_previous e else return False);
     return tried }"

definition prefer_golden_before_previous :: "restore_env \<Rightarrow> bool \<Rightarrow> bool restore" where
  "prefer_golden_before_previous e attempted_current = do {
     prefer_golden \<leftarrow> ask (oe_prefer_golden_if_current_missing e);
     previous \<leftarrow> tier_exists Tier_previous;
     golden \<leftarrow> tier_exists Tier_golden;
     (if prefer_golden \<and> \<not> attempted_current \<and> previous \<and> golden then do {
        modify (\<lambda>s. s\<lparr>rw_tried_golden_before_previous := True\<rparr>);
        try_golden e }
      else return False) }"

definition try_previous :: "restore_env \<Rightarrow> bool \<Rightarrow> bool restore" where
  "try_previous e attempted_current = do {
     tried \<leftarrow> try_session e Tier_previous;
     preserved \<leftarrow> gets rw_preserved_live_desktop;
     (if fst tried \<and> \<not> preserved \<and> attempted_current then is_cancelled e else return False);
     return (fst tried) }"

definition try_session_snapshots :: "restore_env \<Rightarrow> bool restore" where
  "try_session_snapshots e = do {
     tried \<leftarrow> try_current e;
     if fst tried then return True
     else do {
       ok \<leftarrow> prefer_golden_before_previous e (snd tried);
       if ok then return True else try_previous e (snd tried) } }"

definition succeed :: "recovery_outcome restore" where
  "succeed = do {
     modify (\<lambda>s. s\<lparr>rw_outcome := (rw_outcome s)\<lparr>ro_success := True, ro_snapshot := rw_restored s\<rparr>\<rparr>);
     gets rw_outcome }"

text \<open>Session snapshots keep the machine usable, but do not complete a request for the golden one while it is
  pending.\<close>

definition session_fallback :: "restore_env \<Rightarrow> recovery_outcome restore" where
  "session_fallback e = do {
     pending \<leftarrow> golden_restore_is_pending e;
     if pending then do {
       n \<leftarrow> gets rw_golden_pending_session_fallbacks;
       set_fallbacks (n + 1);
       gets rw_outcome }
     else do {
       register_golden_unresolved e;
       set_fallbacks 0;
       succeed } }"

definition run_golden_first :: "restore_env \<Rightarrow> recovery_outcome restore" where
  "run_golden_first e = do {
     ok \<leftarrow> try_golden e;
     if ok then do { set_fallbacks 0; succeed }
     else do {
       ok \<leftarrow> try_session_snapshots e;
       if \<not> ok then do { set_fallbacks 0; gets rw_outcome } else session_fallback e } }"

definition run_session_first :: "restore_env \<Rightarrow> recovery_outcome restore" where
  "run_session_first e = do {
     ok \<leftarrow> try_session_snapshots e;
     tried \<leftarrow> gets rw_tried_golden_before_previous;
     if ok then do {
       when_do tried (register_golden_unresolved e);
       set_fallbacks 0;
       succeed }
     else if tried then do { set_fallbacks 0; gets rw_outcome }
     else do {
       restored_golden \<leftarrow> try_golden e;
       set_fallbacks 0;
       modify (\<lambda>s. s\<lparr>rw_outcome := (rw_outcome s)\<lparr>ro_success := restored_golden, ro_snapshot := rw_restored s\<rparr>\<rparr>);
       gets rw_outcome } }"

definition begin_run :: "unit restore" where
  "begin_run = modify (\<lambda>s. s\<lparr>rw_outcome := recovery_outcome_new, rw_restored := None, rw_preserved_live_desktop := False,
     rw_tried_golden_before_previous := False\<rparr>)"

definition recovery_run :: "restore_env \<Rightarrow> recovery_outcome restore" where
  "recovery_run e = do {
     begin_run;
     unless_cancelled e recovery_outcome_new (do {
       modify (\<lambda>s. s\<lparr>rw_outcome := (rw_outcome s)\<lparr>ro_display_may_have_changed := True\<rparr>, rw_restore_attempted_unconfirmed := True\<rparr>);
       golden_first \<leftarrow> ask (oe_always_restore_from_golden e);
       when_do (\<not> golden_first) (set_fallbacks 0);
       if golden_first then run_golden_first e else run_session_first e }) }"

end
