(* ===== verification/Restore_Confirmed.thy ===== *)
theory Restore_Confirmed
  imports Restore_Operation
begin

text \<open>
  What a restore promises: success means that the saved desktop was seen on screen, before and after a quiet
  period, with no write to the display stack since; no write starts after the operation was told to stop;
  and a saved desktop always survives.
\<close>

section \<open>Looking\<close>

lemma guarantees_mono: "guarantees G m \<Longrightarrow> (\<And>s t. G s t \<Longrightarrow> H s t) \<Longrightarrow> guarantees H m"
  by (auto simp: guarantees_def wp_def split_beta)

lemma wp_State: "wp (State f) Q s = Q (fst (f s)) (snd (f s))"
  by (simp add: wp_def split_beta)

lemma look_ready_loop: "only_looked s (snd (ready_loop e requested deadline s))"
proof (induction e requested deadline s rule: ready_loop.induct)
  case (1 e requested deadline s)
  obtain x t where pass: "run_state (ready_pass e requested deadline) s = (x, t)" by fastforce
  have t: "only_looked s t" using guarantees_run[OF look_ready_pass pass] .
  have "only_looked s (snd (ready_loop e requested deadline t))" if "x = Inr u" for u
    using 1[OF pass[symmetric] that] t look.G_trans by blast
  then show ?case
    by (subst ready_loop.simps) (use t in \<open>auto simp: pass split: sum.split\<close>)
qed

lemma look_wait_until_ready: "guarantees only_looked (wait_until_ready e requested)"
  unfolding wait_until_ready_def by (intro look_rules) (simp add: guarantees_State look_ready_loop)

text \<open>A desktop was captured on the way from one state to another.\<close>

definition saw :: "restore_world \<Rightarrow> restore_world \<Rightarrow> snapshot \<Rightarrow> bool" where
  "saw s t c \<longleftrightarrow> (\<exists>u new. rw_events t = new @ rw_events s \<and> Seen u c \<in> set new)"

lemma saw_before: "only_looked r s \<Longrightarrow> saw s t c \<Longrightarrow> saw r t c"
  unfolding only_looked_def saw_def by (metis (no_types, lifting) Un_iff append_assoc set_append)

lemma stable_pass_saw:
  assumes "run_state (stable_pass e interval prior) s = (x, t)"
  shows "x = Inl (Some c) \<longrightarrow> saw s t c"
proof -
  have "wp (stable_pass e interval prior) (\<lambda>x t. x = Inl (Some c) \<longrightarrow> saw s t c) s"
    by (auto simp: stable_pass_def saw_def port_defs wp_rules Let_def split: option.split)
  with assms show ?thesis by (auto dest: wp_run)
qed

lemma stable_loop_saw: "fst (stable_loop e deadline interval t0 prior s) = Some c \<Longrightarrow> saw s (snd (stable_loop e deadline interval t0 prior s)) c"
proof (induction e deadline interval t0 prior s rule: stable_loop.induct)
  case (1 e deadline interval t0 prior s)
  obtain now s1 where now: "run_state (clock_now e) s = (now, s1)" by fastforce
  obtain x t where pass: "run_state (stable_pass e interval prior) s1 = (x, t)" by fastforce
  have s1: "only_looked s s1" using guarantees_run[OF look_ports(2) now] .
  then have t: "only_looked s t" using guarantees_run[OF look_stable_pass pass] look.G_trans by blast
  note simp = stable_loop.simps[of e deadline interval t0 prior s]
  show ?case
  proof (cases "now - t0 < milliseconds (int deadline)")
    case True
    then show ?thesis
      using 1(2) 1(1)[OF now[symmetric] True pass[symmetric]] stable_pass_saw[OF pass, of c]
      by (cases x) (auto simp: simp now pass intro: saw_before[OF s1] saw_before[OF t])
  next
    case False
    with 1(2) show ?thesis by (simp add: simp now)
  qed
qed

lemma wp_read_stable:
  assumes "\<And>r t. only_looked s t \<Longrightarrow> (\<forall>c. r = Some c \<longrightarrow> saw s t c) \<Longrightarrow> Q r t"
  shows "wp (read_stable_snapshot e deadline interval) Q s"
proof -
  have "only_looked s t \<Longrightarrow> wp (State (stable_loop e deadline interval t0 None)) Q t" for t0 t
    unfolding wp_State
    by (rule assms) (auto intro: look.G_trans[OF _ look_stable_loop] saw_before stable_loop_saw)
  then show ?thesis
    unfolding read_stable_snapshot_def wp_bind by (intro look.wp_after[OF look_ports(2)])
qed

section \<open>The quiet period\<close>

lemma look_quiet_loop: "only_looked s (snd (quiet_loop e duration interval t0 base s)) \<and>
  (fst (quiet_loop e duration interval t0 base s) \<longrightarrow> t0 + milliseconds (int duration) \<le> rw_time (snd (quiet_loop e duration interval t0 base s)))"
proof (induction e duration interval t0 base s rule: quiet_loop.induct)
  case (1 e duration interval t0 base s)
  obtain now s1 where now: "run_state (clock_now e) s = (now, s1)" by fastforce
  obtain x t where pass: "run_state (quiet_pass e interval base) s1 = (x, t)" by fastforce
  have s1: "only_looked s s1" using guarantees_run[OF look_ports(2) now] .
  then have t: "only_looked s t" using guarantees_run[OF look_quiet_pass pass] look.G_trans by blast
  note simp = quiet_loop.simps[of e duration interval t0 base s]
  show ?case
  proof (cases "now - t0 < milliseconds (int duration)")
    case True
    then show ?thesis
      using 1[OF now[symmetric] True pass[symmetric]] t
      by (cases x) (auto simp: simp now pass intro: look.G_trans[OF t])
  next
    case False
    with s1 clock_now_advances[OF now] show ?thesis by (simp add: simp now)
  qed
qed

lemma wp_quiet_period:
  assumes "\<And>r t. only_looked s t \<Longrightarrow> (r \<longrightarrow> rw_time s + milliseconds (int duration) \<le> rw_time t) \<Longrightarrow> Q r t"
  shows "wp (quiet_period e duration interval) Q s"
proof -
  have loop: "wp (State (quiet_loop e duration interval t0 base)) Q t" if "only_looked s t" "rw_time s \<le> t0" for t0 base t
    unfolding wp_State
    by (rule assms) (use that look_quiet_loop[of t e duration interval t0 base] in \<open>auto intro: look.G_trans\<close>)
  have clock: "wp (clock_now e) (\<lambda>t0. wp (State (quiet_loop e duration interval t0 base)) Q) t" if "only_looked s t" for t base
    using loop[OF look.G_trans[OF that guarantees_run[OF look_ports(2)]]] clock_now_advances[of e t] that
    by (fastforce simp: wp_def[of "clock_now e"] only_looked_def split: prod.split)
  show ?thesis
    unfolding quiet_period_def wp_bind
    by (rule look.wp_after[OF look_read_stable]) (auto simp: wp_rules clock split: option.split intro: assms)
qed

section \<open>Confirming\<close>

fun is_write :: "event \<Rightarrow> bool" where
  "is_write (Wrote _ _) = True"
| "is_write _ = False"

definition since_write :: "restore_world \<Rightarrow> event set" where
  "since_write s = set (takeWhile (\<lambda>ev. \<not> is_write ev) (rw_events s))"

text \<open>What was seen since the last write to the display stack shows the saved desktop, at two times at least
  750 ms apart, and with the saved rotations where there are any.\<close>

definition seen_twice :: "restore_env \<Rightarrow> snapshot \<Rightarrow> event set \<Rightarrow> bool" where
  "seen_twice e base evs \<longleftrightarrow> (\<exists>u c u' c'. Seen u c \<in> evs \<and> Seen u' c' \<in> evs \<and> u + milliseconds 750 \<le> u' \<and>
     matches e c base \<and> matches e c' base)"

definition confirmed_on_screen :: "restore_env \<Rightarrow> parsed_snapshot \<Rightarrow> restore_world \<Rightarrow> bool" where
  "confirmed_on_screen e loaded s \<longleftrightarrow> seen_twice e (pa_snapshot loaded) (since_write s) \<and>
     (pa_has_layout_data loaded \<longrightarrow> Layout_checked (pa_layout_rotations loaded) True \<in> since_write s)"

lemma seen_twice_mono: "seen_twice e base evs \<Longrightarrow> evs \<subseteq> evs' \<Longrightarrow> seen_twice e base evs'"
  unfolding seen_twice_def by blast

lemma looked_no_write: "looked_between a b ev \<Longrightarrow> \<not> is_write ev"
  by (cases ev) auto

lemma looked_events:
  assumes "only_looked s t"
  obtains new where "rw_events t = new @ rw_events s" "\<forall>ev \<in> set new. looked_between (rw_time s) (rw_time t) ev"
    "since_write t = set new \<union> since_write s"
proof -
  from assms obtain new where new: "rw_events t = new @ rw_events s" "\<forall>ev \<in> set new. looked_between (rw_time s) (rw_time t) ev"
    by (auto simp: only_looked_def)
  then have "takeWhile (\<lambda>ev. \<not> is_write ev) (new @ rw_events s) = new @ takeWhile (\<lambda>ev. \<not> is_write ev) (rw_events s)"
    by (intro takeWhile_append2) (auto dest: looked_no_write)
  with new that show thesis by (simp add: since_write_def)
qed

lemma since_write_mono: "only_looked s t \<Longrightarrow> since_write s \<subseteq> since_write t"
  by (erule looked_events) simp

lemma confirmed_looked: "only_looked s t \<Longrightarrow> confirmed_on_screen e loaded s \<Longrightarrow> confirmed_on_screen e loaded t"
  unfolding confirmed_on_screen_def using since_write_mono seen_twice_mono by blast

lemma saw_time:
  assumes "only_looked s t" "saw s t c"
  shows "\<exists>u. Seen u c \<in> since_write t \<and> rw_time s \<le> u \<and> u \<le> rw_time t"
  using assms(1)
proof (rule looked_events)
  fix new
  assume new: "rw_events t = new @ rw_events s" "\<forall>ev \<in> set new. looked_between (rw_time s) (rw_time t) ev"
    "since_write t = set new \<union> since_write s"
  from assms(2) new(1) obtain u where "Seen u c \<in> set new" by (auto simp: saw_def)
  with new(2,3) show ?thesis by force
qed

lemma seen_twiceI:
  assumes "only_looked r s" "saw r s c" "matches e c base"
    and "only_looked s t" "rw_time s + milliseconds 750 \<le> rw_time t"
    and "only_looked t v" "saw t v c'" "matches e c' base"
  shows "seen_twice e base (since_write v)"
proof -
  obtain u where u: "Seen u c \<in> since_write s" "u \<le> rw_time s"
    using saw_time[OF assms(1,2)] by blast
  obtain u' where u': "Seen u' c' \<in> since_write v" "rw_time t \<le> u'"
    using saw_time[OF assms(6,7)] by blast
  have "Seen u c \<in> since_write v"
    using u(1) since_write_mono[OF assms(4)] since_write_mono[OF assms(6)] by blast
  with u u' assms(3,5,8) show ?thesis
    unfolding seen_twice_def by (intro exI[of _ u] exI[of _ c] exI[of _ u'] exI[of _ c']) simp
qed

lemma looked_ask: "only_looked r t \<Longrightarrow> only_looked r (t\<lparr>po_reads := k\<rparr>)"
  by (simp add: only_looked_def rest_def)

text \<open>The end of the check, from a state in which the desktop was seen twice or the check has failed.\<close>

abbreviation check_loaded_layout :: "restore_env \<Rightarrow> parsed_snapshot \<Rightarrow> bool \<Rightarrow> bool restore" where
  "check_loaded_layout e loaded \<equiv> check_layout e (pa_has_layout_data loaded) (pa_layout_rotations loaded)"

lemma wp_check_layout:
  assumes Q: "\<And>ok t. only_looked s t \<Longrightarrow> (ok \<longrightarrow> confirmed_on_screen e loaded t) \<Longrightarrow> Q ok t"
    and s: "state_ok \<longrightarrow> seen_twice e (pa_snapshot loaded) (since_write s)"
  shows "wp (check_loaded_layout e loaded state_ok) Q s"
  using s unfolding check_layout_def
  by (auto simp: wp_rules Let_def port_defs only_looked_def rest_def confirmed_on_screen_def since_write_def intro!: Q intro: seen_twice_mono)

lemma wp_still_matches:
  assumes "only_looked r s" "saw r s c" "matches e c base"
    and "only_looked s t" "rw_time s + milliseconds 750 \<le> rw_time t"
    and Q: "\<And>ok v. only_looked t v \<Longrightarrow> (ok \<longrightarrow> seen_twice e base (since_write v)) \<Longrightarrow> Q ok v"
  shows "wp (still_matches e base) Q t"
  unfolding still_matches_def wp_bind
proof (rule wp_read_stable)
  fix x v
  assume v: "only_looked t v" "\<forall>c. x = Some c \<longrightarrow> saw t v c"
  have "seen_twice e base (since_write (v\<lparr>po_reads := k\<rparr>))" if "x = Some c'" "matches e c' base" for c' k
    using seen_twiceI[OF assms(1-5) v(1)] v(2) that by (simp add: since_write_def)
  then show "wp (case x of None \<Rightarrow> return False | Some cur \<Rightarrow> unless_cancelled e False (return (matches e cur base))) Q v"
    by (cases x) (auto simp: wp_rules Let_def intro!: Q looked_ask v(1))
qed

lemma wp_after_quiet_period:
  assumes r: "only_looked s r" "saw s r c" "matches e c (pa_snapshot loaded)"
    and t: "only_looked r t" "q \<longrightarrow> rw_time r + milliseconds 750 \<le> rw_time t"
    and check: "\<And>ok t. only_looked s t \<Longrightarrow> (ok \<longrightarrow> seen_twice e (pa_snapshot loaded) (since_write t)) \<Longrightarrow> wp (check_loaded_layout e loaded ok) Q t"
  shows "wp (after_quiet_period e (pa_snapshot loaded) (pa_has_layout_data loaded) (pa_layout_rotations loaded) q) Q t"
proof -
  have st: "only_looked s t" by (rule look.G_trans[OF r(1) t(1)])
  have again: "wp (still_matches e (pa_snapshot loaded)) (\<lambda>ok. wp (check_loaded_layout e loaded ok) Q) (t\<lparr>po_reads := k\<rparr>)" if q for k
    by (rule wp_still_matches[OF r looked_ask[OF t(1)]])
      (use that t(2) look.G_trans[OF looked_ask[OF st]] in \<open>auto intro: check\<close>)
  then show ?thesis
    using check[OF st, of False] check[OF looked_ask[OF st], of False]
    by (simp add: after_quiet_period_def wp_rules)
qed

lemma wp_confirm_state:
  assumes Q: "\<And>ok t. only_looked s t \<Longrightarrow> (ok \<longrightarrow> confirmed_on_screen e loaded t) \<Longrightarrow> Q ok t"
  shows "wp (confirm_state e (pa_snapshot loaded) (pa_has_layout_data loaded) (pa_layout_rotations loaded)) Q s"
proof -
  let ?after = "after_quiet_period e (pa_snapshot loaded) (pa_has_layout_data loaded) (pa_layout_rotations loaded)"
  have check: "wp (check_loaded_layout e loaded ok) Q t"
    if "only_looked s t" "ok \<longrightarrow> seen_twice e (pa_snapshot loaded) (since_write t)" for ok t
    by (rule wp_check_layout) (use that in \<open>auto intro: Q look.G_trans\<close>)
  have quiet: "wp (quiet_period e 750 150) (\<lambda>q. wp (?after q) Q) r"
    if "only_looked s r" "saw s r c" "matches e c (pa_snapshot loaded)" for r c
    by (rule wp_quiet_period) (use that in \<open>auto intro: wp_after_quiet_period check\<close>)
  have failed: "wp (?after False) Q r" if "only_looked s r" for r
    using check[OF that, of False] by (simp add: after_quiet_period_def wp_rules)
  show ?thesis
    unfolding confirm_state_def wp_bind
    by (rule wp_read_stable)
      (auto simp: wp_unless_cancelled wp_bind wp_if wp_return Let_def saw_def split: option.split
        intro!: Q looked_ask failed quiet)
qed

lemma wp_confirm:
  assumes "\<And>ok t. only_looked s t \<Longrightarrow> (ok \<longrightarrow> confirmed_on_screen e loaded t) \<Longrightarrow> Q ok t"
  shows "wp (confirm_matches e loaded) Q s" "wp (verify_once e loaded) Q s"
  unfolding confirm_matches_def verify_once_def by (rule wp_confirm_state; rule assms; assumption)+

section \<open>Writing\<close>

text \<open>The question before a write was whether to stop, and the answer was no.\<close>

fun checked :: "restore_env \<Rightarrow> event \<Rightarrow> bool" where
  "checked e (Wrote k _) \<longleftrightarrow> 0 < k \<and> \<not> oe_cancelled e (k - 1)"
| "checked e _ \<longleftrightarrow> True"

definition acted :: "restore_env \<Rightarrow> restore_world \<Rightarrow> restore_world \<Rightarrow> bool" where
  "acted e s t \<longleftrightarrow> (\<exists>new. rw_events t = new @ rw_events s \<and> (\<forall>ev \<in> set new. checked e ev))"

definition worked :: "restore_env \<Rightarrow> restore_world \<Rightarrow> restore_world \<Rightarrow> bool" where
  "worked e s t \<longleftrightarrow> rest t = rest s \<and> acted e s t"

lemma acted_trans: "acted e r s \<Longrightarrow> acted e s t \<Longrightarrow> acted e r t"
  unfolding acted_def by (metis (no_types, lifting) Un_iff append_assoc set_append)

interpretation act: guarantee "acted e"
  by unfold_locales (auto simp: acted_def intro: acted_trans[unfolded acted_def])

interpretation work: guarantee "worked e"
  by unfold_locales (auto simp: worked_def act.G_refl intro: acted_trans)

lemma looked_worked: "only_looked s t \<Longrightarrow> worked e s t"
  unfolding only_looked_def worked_def acted_def by (metis checked.simps looked_between.simps(3) is_write.cases)

lemma work_look: "guarantees only_looked m \<Longrightarrow> guarantees (worked e) m"
  by (erule guarantees_mono) (rule looked_worked)

lemmas work_ports = look_ask[THEN work_look] look_ports[THEN work_look]

lemma work_unless_cancelled: "guarantees (worked e) m \<Longrightarrow> guarantees (worked e) (unless_cancelled e' x m)"
  unfolding unless_cancelled_def by (intro work.rules work_ports)

text \<open>A write that comes right after the check, alone or followed by other work.\<close>

lemma work_write_then:
  assumes "\<And>r. guarantees (worked e) (f r)"
  shows "guarantees (worked e) (unless_cancelled e x (display_write port w \<bind> f))"
proof -
  have "wp (f r) (\<lambda>_. worked e s) (s\<lparr>rw_events := Wrote (Suc (po_reads s)) w # rw_events s, po_reads := Suc (Suc (po_reads s))\<rparr>)"
    if "\<not> oe_cancelled e (po_reads s)" for r s
    by (rule work.wp_after[OF assms], erule work.G_trans[rotated]) (use that in \<open>simp add: worked_def rest_def acted_def\<close>)
  then show ?thesis
    by (auto simp: guarantees_def wp_rules display_write_def Let_def worked_def rest_def acted_def)
qed

lemma work_write: "guarantees (worked e) (unless_cancelled e x (display_write port w))"
  using work_write_then[of e return x port w] by (simp add: work.pure)

lemma work_transition_wait: "guarantees (worked e) (transition_wait e' n)"
  by (rule work_look[OF look_transition_wait])

lemma work_recover_and_settle: "guarantees (worked e) (recover_and_settle e)"
  unfolding recover_and_settle_def by (intro work_write_then work_transition_wait)

lemma work_transition_attempts: "guarantees (worked e) (transition_attempts e topology n outcome)"
  by (induction n arbitrary: outcome)
    (auto simp: Let_def intro!: work.rules work_unless_cancelled work_write_then work_recover_and_settle
       work_look[OF look_wait_until_ready] work_ports)

lemma work_transition_run: "guarantees (worked e) (transition_run e topology)"
  unfolding transition_run_def by (intro work.rules work_unless_cancelled work_transition_attempts work_ports)

lemma work_apply_once: "guarantees (worked e) (apply_once e loaded)"
  unfolding apply_once_def
  by (intro work.rules work_write_then work_unless_cancelled work_write work_transition_run)

lemma work_recovery_wait: "guarantees (worked e) (recovery_wait e' remaining)"
  by (rule work_look, induction e' remaining rule: recovery_wait.induct)
    (subst recovery_wait.simps, simp add: Let_def look_rules)

section \<open>Applying\<close>

text \<open>A program whose success means that the desktop is confirmed.\<close>

definition confirms_desktop :: "restore_env \<Rightarrow> parsed_snapshot \<Rightarrow> bool restore \<Rightarrow> bool" where
  "confirms_desktop e loaded m \<longleftrightarrow> (\<forall>s. wp m (\<lambda>ok t. worked e s t \<and> (ok \<longrightarrow> confirmed_on_screen e loaded t)) s)"

lemma wp_confirms: "confirms_desktop e loaded m \<Longrightarrow> (\<And>ok t. worked e s t \<Longrightarrow> (ok \<longrightarrow> confirmed_on_screen e loaded t) \<Longrightarrow> Q ok t) \<Longrightarrow> wp m Q s"
  unfolding confirms_desktop_def by (erule allE, erule wp_weaken) auto

lemma confirms_fails: "confirms_desktop e loaded (return False)"
  by (simp add: confirms_desktop_def wp_rules work.G_refl)

lemma confirms_after:
  assumes "guarantees (worked e) m" "\<And>x. confirms_desktop e loaded (f x)"
  shows "confirms_desktop e loaded (m \<bind> f)"
  unfolding confirms_desktop_def wp_bind
  by (intro allI work.wp_after[OF assms(1)] wp_confirms[OF assms(2)]) (auto intro: work.G_trans)

lemma confirms_if: "confirms_desktop e loaded m \<Longrightarrow> confirms_desktop e loaded n \<Longrightarrow> confirms_desktop e loaded (if c then m else n)"
  by simp

lemma confirms_unless: "confirms_desktop e loaded m \<Longrightarrow> confirms_desktop e loaded (unless_cancelled e' False m)"
  unfolding unless_cancelled_def by (intro confirms_after confirms_if confirms_fails work_ports)

lemma confirms_or:
  assumes "confirms_desktop e loaded m" "confirms_desktop e loaded n"
  shows "confirms_desktop e loaded (do { ok \<leftarrow> m; if ok then return True else n })"
  unfolding confirms_desktop_def wp_bind
  by (intro allI wp_confirms[OF assms(1)])
    (auto simp: wp_rules intro!: wp_confirms[OF assms(2)] intro: work.G_trans)

lemma confirms_check: "confirms_desktop e loaded (confirm_matches e loaded)" "confirms_desktop e loaded (verify_once e loaded)"
  unfolding confirms_desktop_def by (intro allI wp_confirm; auto intro: looked_worked)+

lemma confirms_attempt_once: "confirms_desktop e loaded (attempt_once e loaded)"
  unfolding attempt_once_def by (intro confirms_after confirms_if confirms_check confirms_fails work_apply_once)

lemma worked_write: "checked e w \<Longrightarrow> worked e s (s\<lparr>rw_events := w # rw_events s, po_reads := n\<rparr>)"
  unfolding worked_def acted_def rest_def by (auto intro!: exI[of _ "[w]"])

lemma confirms_write_then:
  assumes "\<And>r. confirms_desktop e loaded (f r)"
  shows "confirms_desktop e loaded (unless_cancelled e False (display_write port w \<bind> f))"
proof -
  have asked: "worked e s (s\<lparr>po_reads := k\<rparr>)" for s k
    by (rule looked_worked[OF looked_ask[OF look.G_refl]])
  have "wp (f r) (\<lambda>ok t. worked e s t \<and> (ok \<longrightarrow> confirmed_on_screen e loaded t)) (s\<lparr>rw_events := v # rw_events s, po_reads := n\<rparr>)"
    if "checked e v" for r s v n
    by (rule wp_confirms[OF assms]) (use work.G_trans[OF worked_write[OF that]] in blast)
  then show ?thesis
    by (auto simp: confirms_desktop_def wp_rules Let_def display_write_def asked)
qed

text \<open>After the fast path: the desktop is confirmed already, and stays so unless the rotations are written again.\<close>

lemma wp_reassert:
  assumes s: "confirmed_on_screen e loaded s" and Q: "\<And>ok t. worked e s t \<Longrightarrow> (ok \<longrightarrow> confirmed_on_screen e loaded t) \<Longrightarrow> Q ok t"
  shows "wp (reassert_rotations_after_match e loaded) Q s"
proof -
  have asked: "worked e s (s\<lparr>po_reads := k\<rparr>)" "confirmed_on_screen e loaded (s\<lparr>po_reads := k\<rparr>)" for k
    using s confirmed_looked looked_worked looked_ask[OF look.G_refl] by blast+
  have again: "wp (unless_cancelled e False (do {
       ok \<leftarrow> display_write (oe_written e) (Apply_hdr base);
       if ok then verify_once e loaded else return False })) Q r" if "worked e s r" for base r
    by (rule wp_confirms[OF confirms_write_then]) (auto intro: Q work.G_trans[OF that] confirms_if confirms_check confirms_fails)
  show ?thesis
    unfolding reassert_rotations_after_match_def Let_def
    by (auto simp: wp_bind wp_if wp_return wp_is_cancelled display_write_def[of _ "Reassert_rotations _"] wp_gets wp_log_event wp_ask
        intro!: Q asked again worked_write)
qed

lemma confirms_already_restored: "confirms_desktop e loaded (already_restored e loaded)"
  unfolding confirms_desktop_def already_restored_def wp_bind
  by (intro allI wp_confirm)
    (auto simp: wp_rules intro!: wp_reassert intro: work.G_trans looked_worked)

lemma confirms_apply_and_confirm: "confirms_desktop e loaded (apply_and_confirm e loaded)"
  unfolding apply_and_confirm_def
  by (intro confirms_or confirms_if confirms_unless confirms_fails confirms_already_restored confirms_attempt_once
      confirms_after[OF work_recovery_wait] confirms_after[OF work_ports(5)])
end
