(* ===== verification/Restore_Safety.thy ===== *)
theory Restore_Safety
  imports Restore_Confirmed
begin

text \<open>
  The properties of a whole restore: what its success means, when it writes to the displays, and what becomes
  of the saved desktops.
\<close>

section \<open>Loading and choosing\<close>

definition from_saved :: "restore_world \<Rightarrow> parsed_snapshot \<Rightarrow> bool" where
  "from_saved s l \<longleftrightarrow> (\<exists>t raw devices exclusions. load_with_metadata t s = Some raw \<and> filter_loaded_snapshot raw devices exclusions = Some l)"

lemma worked_store: "worked e s t \<Longrightarrow> ld_store t = ld_store s"
proof -
  assume "worked e s t"
  then have "ld_store (rest t) = ld_store (rest s)" by (simp add: worked_def)
  then show ?thesis by (simp add: rest_def)
qed

lemma load_store: "ld_store t = ld_store s \<Longrightarrow> load_with_metadata i t = load_with_metadata i s"
  "ld_store t = ld_store s \<Longrightarrow> storage_load i t = storage_load i s"
  by (simp_all add: load_with_metadata_def storage_load_def)

lemma wp_load_filtered:
  assumes "\<And>r t. worked e s t \<Longrightarrow> (\<forall>l. r = Some l \<longrightarrow> storage_load i s \<noteq> None \<and> from_saved s l) \<Longrightarrow> Q r t"
  shows "wp (load_filtered e i) Q s"
proof -
  have asked: "worked e s (s\<lparr>po_reads := k\<rparr>)" for k by (rule looked_worked[OF looked_ask[OF look.G_refl]])
  show ?thesis
    unfolding load_filtered_def
    by (auto simp: wp_rules from_saved_def asked work.G_refl split: option.split intro!: assms)
      (auto simp: load_with_metadata_def)
qed

lemma look_known_present_devices: "guarantees only_looked (known_present_devices e)"
  unfolding known_present_devices_def by (intro look_rules)

lemma look_should_skip_golden: "guarantees only_looked (should_skip_golden e golden)"
  unfolding should_skip_golden_def steady_now_ms_def by (intro look_rules look_known_present_devices)

lemma look_golden_restore_is_pending: "guarantees only_looked (golden_restore_is_pending e)"
  unfolding golden_restore_is_pending_def by (intro look_rules look_known_present_devices)

lemma look_live_desktop: "guarantees only_looked (live_desktop_to_preserve e baseline)"
  unfolding live_desktop_to_preserve_def by (intro look_rules)

lemma live_desktop_saw: "wp (live_desktop_to_preserve e baseline) (\<lambda>r t. \<forall>l. r = Some l \<longrightarrow> saw s t l) s"
  unfolding live_desktop_to_preserve_def by (auto simp: wp_rules port_defs Let_def saw_def)

section \<open>What a try leaves behind\<close>

definition baseline_survives :: "restore_world \<Rightarrow> restore_world \<Rightarrow> bool" where
  "baseline_survives s t \<longleftrightarrow> ld_store t Tier_golden = ld_store s Tier_golden \<and>
     ((\<exists>i. storage_load i s \<noteq> None) \<longrightarrow> (\<exists>i. storage_load i t \<noteq> None))"

text \<open>The desktop that was confirmed: a saved one, or one captured on the way.\<close>

definition restored_on_screen :: "restore_env \<Rightarrow> restore_world \<Rightarrow> restore_world \<Rightarrow> parsed_snapshot \<Rightarrow> bool" where
  "restored_on_screen e s t l \<longleftrightarrow> confirmed_on_screen e l t \<and> (from_saved s l \<or> saw s t (pa_snapshot l))"

definition settles :: "restore_env \<Rightarrow> restore_world \<Rightarrow> bool \<Rightarrow> restore_world \<Rightarrow> bool" where
  "settles e s ok t \<longleftrightarrow> acted e s t \<and>
     (if ok then (\<exists>l. restored_on_screen e s t l \<and> rw_restored t = Some (pa_snapshot l)) \<and> baseline_survives s t
      else ld_store t = ld_store s)"

lemma settles_fail: "worked e s t \<Longrightarrow> settles e s False t"
  using worked_store[of e s t] by (simp add: settles_def worked_def)

lemma worked_ask: "worked e s t \<Longrightarrow> worked e s (t\<lparr>po_reads := k\<rparr>)"
  by (simp add: worked_def rest_def acted_def)

text \<open>Changes of the state that leave the log alone.\<close>

lemma same_log:
  assumes "rw_events t = rw_events s"
  shows "acted e r t = acted e r s" "confirmed_on_screen e l t = confirmed_on_screen e l s" "saw r t c = saw r s c"
  using assms by (simp_all add: acted_def confirmed_on_screen_def since_write_def saw_def)

definition filed :: "restore_world \<Rightarrow> restore_world \<Rightarrow> bool" where
  "filed s t \<longleftrightarrow> rw_events t = rw_events s \<and> ld_store t Tier_golden = ld_store s Tier_golden"

interpretation tiers: guarantee filed
  by unfold_locales (auto simp: filed_def)

lemma file_remove: "i \<noteq> Tier_golden \<Longrightarrow> guarantees filed (storage_remove e i)"
  by (auto simp: guarantees_def storage_remove_def tier_exists_def wp_rules filed_def)

lemma file_clear: "guarantees filed (clear_session_snapshots_after_golden e)"
  unfolding clear_session_snapshots_after_golden_def by (intro tiers.rules file_remove) simp_all

lemma accept_golden_store: "wp (accept_golden e golden) (\<lambda>ok t. rw_events t = rw_events s \<and>
    (if ok then rw_restored t = Some golden \<and> ld_store t Tier_golden = ld_store s Tier_golden else ld_store t = ld_store s)) s"
proof -
  have "wp (clear_session_snapshots_after_golden e) (\<lambda>_ t. rw_events t = rw_events s \<and> ld_store t Tier_golden = ld_store s Tier_golden) t"
    if "filed s t" for t
    by (rule tiers.wp_after[OF file_clear]) (use that in \<open>simp add: filed_def\<close>)
  then show ?thesis
    unfolding accept_golden_def reset_staged_apply_state_def by (simp add: wp_rules Let_def filed_def)
qed

lemma wp_accept_golden:
  assumes Q: "\<And>ok t. settles e s ok t \<Longrightarrow> Q ok t"
    and t: "worked e s t" "confirmed_on_screen e golden t" "from_saved s golden" "storage_load Tier_golden s \<noteq> None"
  shows "wp (accept_golden e (pa_snapshot golden)) Q t"
proof (rule wp_weaken[OF accept_golden_store[where s = t]], rule Q)
  fix ok and v :: restore_world
  assume v: "rw_events v = rw_events t \<and> (if ok then rw_restored v = Some (pa_snapshot golden) \<and> ld_store v Tier_golden = ld_store t Tier_golden
    else ld_store v = ld_store t)"
  then have "acted e s v" "confirmed_on_screen e golden v"
    using t(1,2) same_log[of v t] by (auto simp: worked_def)
  with v t(3,4) worked_store[OF t(1)] show "settles e s ok v"
    by (auto simp: settles_def restored_on_screen_def baseline_survives_def storage_load_def intro!: exI[of _ Tier_golden] exI[of _ golden])
qed

lemma settles_failed: "worked e s t \<Longrightarrow> rw_events v = rw_events t \<Longrightarrow> ld_store v = ld_store t \<Longrightarrow> settles e s False v"
  using worked_store[of e s t] by (simp add: settles_def worked_def acted_def)

lemma asked_same [simp]:
  "from_saved (s\<lparr>po_reads := k\<rparr>) = from_saved s" "storage_load i (s\<lparr>po_reads := k\<rparr>) = storage_load i s"
  by (simp_all add: from_saved_def[abs_def] load_with_metadata_def storage_load_def)

lemma wp_restore_golden:
  assumes Q: "\<And>ok t. settles e s ok t \<Longrightarrow> Q ok t"
    and t: "worked e s t" "from_saved s golden" "storage_load Tier_golden s \<noteq> None"
  shows "wp (restore_golden e golden) Q t"
proof -
  have "wp (apply_and_confirm e golden) (\<lambda>ok. wp (if ok then accept_golden e (pa_snapshot golden)
       else do { c \<leftarrow> is_cancelled e; when_do (\<not> c) (note_golden_issue ''restore_not_confirmed''); return False }) Q) (t\<lparr>po_reads := k\<rparr>)" for k
  proof (rule wp_confirms[OF confirms_apply_and_confirm])
    fix ok v
    assume v: "worked e (t\<lparr>po_reads := k\<rparr>) v" "ok \<longrightarrow> confirmed_on_screen e golden v"
    then have sv: "worked e s v" using work.G_trans[OF worked_ask[OF t(1)]] by blast
    show "wp (if ok then accept_golden e (pa_snapshot golden)
       else do { c \<leftarrow> is_cancelled e; when_do (\<not> c) (note_golden_issue ''restore_not_confirmed''); return False }) Q v"
      using v(2) t(2,3) sv Q[OF settles_failed[OF sv]]
      by (auto simp: wp_rules note_golden_issue_def intro!: wp_accept_golden Q)
  qed
  then show ?thesis
    unfolding restore_golden_def note_golden_issue_def[of "''invalid_topology''"]
    using Q[OF settles_failed[OF t(1)]]
    by (simp add: wp_bind[of "ask _"] wp_bind[of "apply_and_confirm _ _"] wp_bind[of "modify _"] wp_ask wp_modify wp_return)
qed

lemma wp_try_golden:
  assumes Q: "\<And>ok t. settles e s ok t \<Longrightarrow> Q ok t"
  shows "wp (try_golden e) Q s"
proof -
  have skip: "wp (should_skip_golden e g) (\<lambda>skip. wp (if skip then return False else restore_golden e golden) Q) t"
    if t: "worked e s t" "from_saved s golden" "storage_load Tier_golden s \<noteq> None" for g golden t
  proof (rule look.wp_after[OF look_should_skip_golden])
    fix skip v
    assume "only_looked t v"
    then have "worked e s v" using work.G_trans[OF t(1) looked_worked] by blast
    with t show "wp (if skip then return False else restore_golden e golden) Q v"
      by (auto simp: wp_return wp_if intro!: Q settles_fail wp_restore_golden)
  qed
  have "wp (load_filtered e Tier_golden) (\<lambda>r. wp (case r of None \<Rightarrow> return False | Some golden \<Rightarrow> do {
      skip \<leftarrow> should_skip_golden e (pa_snapshot golden); if skip then return False else restore_golden e golden }) Q) (s\<lparr>po_reads := k\<rparr>)" for k
  proof (rule wp_load_filtered)
    fix r t
    assume t: "worked e (s\<lparr>po_reads := k\<rparr>) t"
      "\<forall>l. r = Some l \<longrightarrow> storage_load Tier_golden (s\<lparr>po_reads := k\<rparr>) \<noteq> None \<and> from_saved (s\<lparr>po_reads := k\<rparr>) l"
    have st: "worked e s t" using work.G_trans[OF worked_ask[OF work.G_refl] t(1)] .
    then show "wp (case r of None \<Rightarrow> return False | Some golden \<Rightarrow> do {
      skip \<leftarrow> should_skip_golden e (pa_snapshot golden); if skip then return False else restore_golden e golden }) Q t"
      using t(2) by (cases r) (auto simp: wp_return wp_bind intro!: Q settles_fail skip)
  qed
  then show ?thesis
    unfolding try_golden_def by (auto simp: wp_unless_cancelled wp_bind Let_def intro!: Q settles_fail worked_ask work.G_refl)
qed

lemma accept_session_store: "wp (accept_session e preserve sn) (\<lambda>ok t. rw_events t = rw_events s \<and> ld_store t = ld_store s \<and>
    (ok \<longrightarrow> rw_restored t = Some sn)) s"
  unfolding accept_session_def reset_staged_apply_state_def steady_now_ms_def clock_now_def
  by (simp add: wp_rules Let_def)

lemma wp_accept_session:
  assumes Q: "\<And>ok t. settles e s ok t \<Longrightarrow> ld_store t = ld_store s \<Longrightarrow> Q ok t"
    and t: "worked e s t" "confirmed_on_screen e l t" "from_saved s l \<or> saw s t (pa_snapshot l)"
  shows "wp (accept_session e preserve (pa_snapshot l)) Q t"
proof (rule wp_weaken[OF accept_session_store[where s = t]], rule Q)
  fix ok and v :: restore_world
  assume v: "rw_events v = rw_events t \<and> ld_store v = ld_store t \<and> (ok \<longrightarrow> rw_restored v = Some (pa_snapshot l))"
  then show store: "ld_store v = ld_store s" using worked_store[OF t(1)] by simp
  have "acted e s v" "confirmed_on_screen e l v" "saw s v (pa_snapshot l) = saw s t (pa_snapshot l)"
    using v t(1,2) same_log[of v t] by (auto simp: worked_def)
  with v t(3) store show "settles e s ok v"
    by (auto simp: settles_def restored_on_screen_def baseline_survives_def storage_load_def)
qed

lemma saw_worked: "saw s t c \<Longrightarrow> acted e t v \<Longrightarrow> saw s v c"
  unfolding saw_def acted_def by (metis (no_types, lifting) Un_iff append_assoc set_append)

lemma saw_after: "acted e s t \<Longrightarrow> saw t v c \<Longrightarrow> saw s v c"
  unfolding saw_def acted_def by (metis (no_types, lifting) Un_iff append_assoc set_append)

lemma wp_live_desktop:
  assumes "\<And>r t. worked e s t \<Longrightarrow> (\<forall>l. r = Some l \<longrightarrow> saw s t l) \<Longrightarrow> Q r t"
  shows "wp (live_desktop_to_preserve e baseline) Q s"
proof -
  have "worked e s (snd (run_state (live_desktop_to_preserve e baseline) s))"
    using look_live_desktop[of e baseline] looked_worked by (simp add: guarantees_def wp_def split_beta)
  with live_desktop_saw[of e baseline s] show ?thesis
    using assms by (simp add: wp_def split_beta)
qed

lemma wp_restore_session:
  assumes Q: "\<And>ok t. settles e s ok t \<Longrightarrow> ld_store t = ld_store s \<Longrightarrow> Q ok t"
    and t: "worked e s t" "from_saved s loaded"
  shows "wp (restore_session e loaded) Q t"
proof -
  have fail: "Q False v" if "worked e s v" for v
    by (rule Q[OF settles_fail[OF that] worked_store[OF that]])
  have accept: "wp (if ok then accept_session e preserve (pa_snapshot l) else return False) Q v"
    if "worked e s v" "ok \<longrightarrow> confirmed_on_screen e l v" "from_saved s l \<or> saw s v (pa_snapshot l)" for ok preserve l v
    using that by (auto simp: wp_return intro!: fail wp_accept_session Q)
  have applied: "wp (apply_and_confirm e loaded) (\<lambda>ok. wp (if ok then accept_session e False (pa_snapshot loaded) else return False) Q) v"
    if "worked e s v" for v
    by (rule wp_confirms[OF confirms_apply_and_confirm]) (use that t(2) work.G_trans in \<open>blast intro: accept\<close>)
  have keep: "wp (confirm_matches e l) (\<lambda>ok. wp (if ok then accept_session e True (pa_snapshot l) else return False) Q) v"
    if "worked e s v" "saw s v (pa_snapshot l)" for v l
    by (rule wp_confirms[OF confirms_check(1)], rule accept)
      (use that in \<open>auto simp: worked_def intro: work.G_trans acted_trans saw_worked\<close>)
  show ?thesis
    unfolding restore_session_def wp_bind[of "live_desktop_to_preserve _ _"]
  proof (rule wp_live_desktop)
    fix r v
    assume v: "worked e t v" "\<forall>l. r = Some l \<longrightarrow> saw t v l"
    have sv: "worked e s v" by (rule work.G_trans[OF t(1) v(1)])
    have "saw s v l" if "r = Some l" for l
      using v(2) that t(1) saw_after by (auto simp: worked_def)
    then show "wp (case r of None \<Rightarrow> do {
        ok \<leftarrow> apply_and_confirm e loaded;
        if ok then accept_session e False (pa_snapshot loaded) else return False }
      | Some l \<Rightarrow> do {
        ok \<leftarrow> confirm_matches e (loaded\<lparr>pa_snapshot := l, pa_has_layout_data := False, pa_layout_rotations := []\<rparr>);
        if ok then accept_session e True l else return False }) Q v"
      using applied[OF sv] keep[OF sv, of "loaded\<lparr>pa_snapshot := the r, pa_has_layout_data := False, pa_layout_rotations := []\<rparr>"]
      by (cases r) (simp_all add: wp_bind[of "apply_and_confirm _ _"] wp_bind[of "confirm_matches _ _"] cong: if_cong)
  qed
qed

lemma wp_try_session:
  assumes Q: "\<And>ok a t. settles e s ok t \<Longrightarrow> ld_store t = ld_store s \<Longrightarrow> (ok \<longrightarrow> storage_load i s \<noteq> None) \<Longrightarrow> Q (ok, a) t"
  shows "wp (try_session e i) Q s"
  unfolding try_session_def wp_bind[of "load_filtered _ _"]
proof (rule wp_load_filtered)
  fix r t
  assume t: "worked e s t" "\<forall>l. r = Some l \<longrightarrow> storage_load i s \<noteq> None \<and> from_saved s l"
  have fail: "Q (False, a) (t\<lparr>po_reads := k\<rparr>)" "Q (False, a) t" for a k
    by (auto intro: Q settles_fail worked_store worked_ask t(1))
  have "wp (restore_session e l) (\<lambda>ok. Q (ok, True)) (t\<lparr>po_reads := k\<rparr>)" if "r = Some l" for l k
    by (rule wp_restore_session) (use that t in \<open>auto intro: Q worked_ask\<close>)
  then show "wp (case r of None \<Rightarrow> return (False, False) | Some loaded \<Rightarrow> do {
      valid \<leftarrow> ask (le_topology_is_valid e);
      ok \<leftarrow> (if \<not> valid (sn_topology (pa_snapshot loaded)) then return False else restore_session e loaded);
      return (ok, True) }) Q t"
    using fail by (cases r) (simp_all add: wp_rules)
qed

lemma settles_after:
  assumes "acted e s t" "ld_store t = ld_store s" "settles e t ok v"
  shows "settles e s ok v"
proof -
  have "from_saved t = from_saved s" "baseline_survives t v = baseline_survives s v"
    using load_store[OF assms(2)] assms(2) by (simp_all add: from_saved_def[abs_def] baseline_survives_def)
  moreover have "restored_on_screen e s v l" if "restored_on_screen e t v l" for l
    using that \<open>from_saved t = from_saved s\<close> saw_after[OF assms(1)] by (auto simp: restored_on_screen_def)
  ultimately show ?thesis
    using assms acted_trans[OF assms(1), of v] unfolding settles_def by (simp split: if_splits) blast
qed

text \<open>The promotion of the current tier leaves a saved desktop in the previous one.\<close>

lemma promote_survives:
  assumes "storage_load Tier_current s \<noteq> None"
  shows "wp (promote_current_to_previous e) (\<lambda>_ t. rw_events t = rw_events s \<and> rw_restored t = rw_restored s \<and> baseline_survives s t) s"
proof -
  obtain sn rot where "storage_load Tier_current s = Some (sn, rot)" "sn_topology sn = [] \<longrightarrow> sn_modes sn \<noteq> []"
    using assms by (auto simp: storage_load_def split: tier_file.splits if_splits)
  then show ?thesis
    unfolding promote_current_to_previous_def storage_remove_def storage_save_def tier_exists_def
    by (auto simp: wp_rules load_with_metadata_def baseline_survives_def storage_load_def intro!: exI[of _ Tier_previous])
qed

lemma settles_bookkeeping:
  assumes "settles e s True t" "ld_store t = ld_store s" "rw_events v = rw_events t" "rw_restored v = rw_restored t" "baseline_survives t v"
  shows "settles e s True v"
  using assms same_log[OF assms(3)] load_store(2)[OF assms(2)]
  by (auto simp: settles_def restored_on_screen_def baseline_survives_def)

lemma wp_try_current:
  assumes Q: "\<And>ok a t. settles e s ok t \<Longrightarrow> Q (ok, a) t"
  shows "wp (try_current e) Q s"
  unfolding try_current_def wp_bind[of "try_session _ _"]
proof (rule wp_try_session)
  fix ok a t
  assume t: "settles e s ok t" "ld_store t = ld_store s" "ok \<longrightarrow> storage_load Tier_current s \<noteq> None"
  have load: "storage_load Tier_current (t\<lparr>po_reads := k\<rparr>) = storage_load Tier_current s" for k
    using load_store(2)[OF t(2)] by simp
  have same: "Q (ok, a) (t\<lparr>po_reads := k\<rparr>)" "Q (ok, a) t" for k
    using t(1) by (auto intro!: Q simp: settles_def restored_on_screen_def acted_def confirmed_on_screen_def since_write_def saw_def baseline_survives_def)
  have promote: "wp (promote_current_to_previous e) (\<lambda>_. Q (True, a)) (t\<lparr>po_reads := k\<rparr>)" if ok for k
    by (rule wp_weaken[OF promote_survives], use that t(3) load in simp, rule Q[OF settles_bookkeeping[where t = t]])
      (use that t in \<open>auto simp: baseline_survives_def\<close>)
  show "wp (do {
      preserved \<leftarrow> gets rw_preserved_live_desktop;
      go_on \<leftarrow> (if \<not> fst (ok, a) \<or> preserved then return False else do { c \<leftarrow> is_cancelled e; return (\<not> c) });
      (if go_on then promote_current_to_previous e else return False);
      return (ok, a) }) Q t"
    using same promote by (cases ok) (simp_all add: wp_rules)
qed

lemma wp_prefer_golden:
  assumes Q: "\<And>ok t. settles e s ok t \<Longrightarrow> Q ok t"
  shows "wp (prefer_golden_before_previous e attempted) Q s"
proof -
  have fail: "Q False (s\<lparr>po_reads := k\<rparr>)" for k
    by (rule Q[OF settles_fail[OF worked_ask[OF work.G_refl]]])
  have "wp (try_golden e) Q (s\<lparr>po_reads := k, rw_tried_golden_before_previous := b\<rparr>)" for k b
    by (rule wp_try_golden, rule Q, rule settles_after) (auto simp: acted_def)
  then show ?thesis
    unfolding prefer_golden_before_previous_def tier_exists_def using fail by (simp add: wp_rules)
qed

lemma wp_try_previous:
  assumes Q: "\<And>ok t. settles e s ok t \<Longrightarrow> Q ok t"
  shows "wp (try_previous e attempted) Q s"
proof -
  have "Q ok (t\<lparr>po_reads := k\<rparr>)" "Q ok t" if "settles e s ok t" for ok t k
    using that by (auto intro!: Q simp: settles_def restored_on_screen_def acted_def confirmed_on_screen_def since_write_def saw_def baseline_survives_def)
  then show ?thesis
    unfolding try_previous_def wp_bind[of "try_session _ _"] by (intro wp_try_session) (auto simp: wp_rules)
qed

lemma wp_then_try:
  assumes "\<And>ok t. settles e s ok t \<Longrightarrow> Q ok t" and "\<And>t Q. (\<And>ok v. settles e t ok v \<Longrightarrow> Q ok v) \<Longrightarrow> wp m Q t" and "settles e s False t"
  shows "wp m Q t"
  by (rule assms(2), rule assms(1), rule settles_after[where t = t]) (use assms(3) in \<open>auto simp: settles_def\<close>)

lemma wp_try_session_snapshots:
  assumes Q: "\<And>ok t. settles e s ok t \<Longrightarrow> Q ok t"
  shows "wp (try_session_snapshots e) Q s"
proof -
  have "wp (prefer_golden_before_previous e a) (\<lambda>ok. wp (if ok then return True else try_previous e a) Q) t" if "settles e s False t" for a t
    by (rule wp_then_try[where s = s and e = e, OF _ wp_prefer_golden that])
      (auto simp: wp_return intro: Q wp_then_try[where s = s and e = e, OF Q wp_try_previous])
  then show ?thesis
    unfolding try_session_snapshots_def wp_bind
    by (intro wp_try_current) (auto simp: wp_return wp_bind cong: if_cong intro: Q)
qed

section \<open>A whole restore\<close>

text \<open>What holds after a run: the log, the files, and the desktop behind a reported success.\<close>

definition run_result :: "restore_env \<Rightarrow> restore_world \<Rightarrow> recovery_outcome \<Rightarrow> restore_world \<Rightarrow> bool" where
  "run_result e s out t \<longleftrightarrow> acted e s t \<and> baseline_survives s t \<and>
     (ld_store t \<noteq> ld_store s \<longrightarrow> (\<exists>l. restored_on_screen e s t l)) \<and>
     (ro_success out \<longrightarrow> (\<exists>l. restored_on_screen e s t l \<and> ro_snapshot out = Some (pa_snapshot l)))"

lemma survives_same: "ld_store t = ld_store s \<Longrightarrow> baseline_survives s t"
  using load_store(2)[of t s] by (simp add: baseline_survives_def)

lemma settles_result:
  assumes "settles e s ok t" "rw_events v = rw_events t" "ld_store v = ld_store t"
    and "ro_success out \<longrightarrow> ok \<and> ro_snapshot out = rw_restored t"
  shows "run_result e s out v"
proof -
  have "baseline_survives s v = baseline_survives s t" "\<And>l. restored_on_screen e s v l = restored_on_screen e s t l"
    using assms(3) load_store(2)[OF assms(3)] same_log[OF assms(2)] by (simp_all add: baseline_survives_def restored_on_screen_def)
  with assms same_log[OF assms(2)] show ?thesis
    by (auto simp: run_result_def settles_def survives_same split: if_splits)
qed

lemma settles_looked: "settles e s True t \<Longrightarrow> only_looked t v \<Longrightarrow> settles e s True v"
proof -
  assume t: "settles e s True t" and v: "only_looked t v"
  have work: "worked e t v" by (rule looked_worked[OF v])
  have "rw_restored (rest v) = rw_restored (rest t)" using v by (simp add: only_looked_def)
  then have "rw_restored v = rw_restored t" by (simp add: rest_def)
  moreover have "baseline_survives s v = baseline_survives s t"
    using worked_store[OF work] load_store(2)[OF worked_store[OF work]] by (simp add: baseline_survives_def)
  moreover have "restored_on_screen e s v l" if "restored_on_screen e s t l" for l
    using that confirmed_looked[OF v] saw_worked[of s t _ e v] work by (auto simp: restored_on_screen_def worked_def)
  ultimately show ?thesis
    using t acted_trans[of e s t v] work by (auto simp: settles_def worked_def)
qed

text \<open>Only the end of a run reports success.\<close>

definition unreported :: "restore_world \<Rightarrow> restore_world \<Rightarrow> bool" where
  "unreported s t \<longleftrightarrow> ro_success (rw_outcome t) = ro_success (rw_outcome s)"

interpretation report: guarantee unreported
  by unfold_locales (simp_all add: unreported_def)

lemma report_work: "guarantees (worked e) m \<Longrightarrow> guarantees unreported m"
proof (erule guarantees_mono)
  fix s t
  assume "worked e s t"
  then have "rw_outcome (rest t) = rw_outcome (rest s)" by (simp add: worked_def)
  then show "unreported s t" by (simp add: unreported_def rest_def)
qed

lemma report_look: "guarantees only_looked m \<Longrightarrow> guarantees unreported m"
  by (rule report_work[OF work_look])

lemma report_confirms: "confirms_desktop e l m \<Longrightarrow> guarantees unreported m"
  by (rule report_work[where e = e]) (auto simp: guarantees_def confirms_desktop_def intro: wp_weaken)

lemma report_steps:
  "guarantees unreported (note_golden_issue r)" "guarantees unreported (reset_staged_apply_state e)"
  "guarantees unreported (storage_remove e i)" "guarantees unreported (storage_save e i sn rot)"
  "guarantees unreported (tier_exists i)"
  "guarantees unreported (modify (\<lambda>s. s\<lparr>rw_golden_health := g s, rw_restored := Some sn\<rparr>))"
  "guarantees unreported (modify (\<lambda>s. s\<lparr>rw_preserved_live_desktop := b\<rparr>))"
  "guarantees unreported (modify (\<lambda>s. s\<lparr>rw_tried_golden_before_previous := b\<rparr>))"
  "guarantees unreported (modify (\<lambda>s. s\<lparr>rw_last_session_restore_success_ms := n, rw_restored := Some sn\<rparr>))"
  by (simp_all add: guarantees_def wp_rules unreported_def note_golden_issue_def reset_staged_apply_state_def storage_remove_def storage_save_def tier_exists_def)

lemmas report_rules = report.rules report_steps look_ask[THEN report_look] look_ports[THEN report_look]

lemma report_unless_cancelled: "guarantees unreported m \<Longrightarrow> guarantees unreported (unless_cancelled e x m)"
  unfolding unless_cancelled_def by (intro report_rules)

lemma report_try_golden: "guarantees unreported (try_golden e)"
  unfolding try_golden_def restore_golden_def accept_golden_def clear_session_snapshots_after_golden_def load_filtered_def
  by (intro report_unless_cancelled report_rules report_look[OF look_should_skip_golden] report_confirms[OF confirms_apply_and_confirm])

lemma report_try_session: "guarantees unreported (try_session e i)"
  unfolding try_session_def restore_session_def accept_session_def steady_now_ms_def load_filtered_def
  by (intro report_unless_cancelled report_rules report_look[OF look_live_desktop] report_confirms[OF confirms_apply_and_confirm]
      report_confirms[OF confirms_check(1)])

lemma report_try_session_snapshots: "guarantees unreported (try_session_snapshots e)"
  unfolding try_session_snapshots_def try_current_def try_previous_def prefer_golden_before_previous_def promote_current_to_previous_def
  by (intro report_rules report_try_session report_try_golden)

lemma wp_try:
  assumes "guarantees unreported m" "\<And>Q s. (\<And>ok t. settles e s ok t \<Longrightarrow> Q ok t) \<Longrightarrow> wp m Q s"
    and "\<And>ok t. settles e s ok t \<Longrightarrow> unreported s t \<Longrightarrow> Q ok t"
  shows "wp m Q s"
  using assms(1) assms(2)[of s "settles e s"] assms(3) by (simp add: wp_def guarantees_def split_beta)

lemma settles_chain: "settles e s False t \<Longrightarrow> settles e t ok v \<Longrightarrow> settles e s ok v"
  by (rule settles_after) (auto simp: settles_def)

lemma looked_unreported: "only_looked t v \<Longrightarrow> ro_success (rw_outcome v) = ro_success (rw_outcome t)"
proof -
  assume "only_looked t v"
  then have "rw_outcome (rest v) = rw_outcome (rest t)" by (simp add: only_looked_def)
  then show ?thesis by (simp add: rest_def)
qed

text \<open>The ways a run ends, from a state a try has left.\<close>

lemma wp_report_success:
  assumes "settles e s True t" "rw_events v = rw_events t" "ld_store v = ld_store t" "rw_restored v = rw_restored t"
  shows "wp succeed (run_result e s) v"
  unfolding succeed_def by (auto simp: wp_rules assms(4) intro!: settles_result[OF assms(1)] simp: assms(2,3))

lemma wp_report_failure:
  assumes "settles e s ok t" "\<not> ro_success (rw_outcome t)"
  shows "wp (do { set_fallbacks n; gets rw_outcome }) (run_result e s) t"
  using settles_result[OF assms(1), where out = "rw_outcome t"] assms(2) by (simp add: wp_rules set_fallbacks_def)

lemma wp_session_fallback:
  assumes t: "settles e s True t" "\<not> ro_success (rw_outcome t)"
  shows "wp (session_fallback e) (run_result e s) t"
  unfolding session_fallback_def wp_bind[of "golden_restore_is_pending e"]
proof (rule look.wp_after[OF look_golden_restore_is_pending])
  fix pending v
  assume v: "only_looked t v"
  note settled = settles_looked[OF t(1) v]
  have "wp (do { set_fallbacks n; gets rw_outcome }) (run_result e s) v" for n
    by (rule wp_report_failure[OF settled]) (use t(2) looked_unreported[OF v] in simp)
  moreover have "wp (do { register_golden_unresolved e; set_fallbacks 0; succeed }) (run_result e s) v"
    by (simp add: register_golden_unresolved_def set_fallbacks_def wp_bind wp_ask wp_modify wp_report_success[OF settled])
  ultimately show "wp (if pending then do { n \<leftarrow> gets rw_golden_pending_session_fallbacks; set_fallbacks (n + 1); gets rw_outcome }
    else do { register_golden_unresolved e; set_fallbacks 0; succeed }) (run_result e s) v"
    by (simp add: wp_bind wp_gets)
qed

lemma wp_run_golden_first:
  assumes s: "\<not> ro_success (rw_outcome s)"
  shows "wp (run_golden_first e) (run_result e s) s"
  unfolding run_golden_first_def wp_bind[of "try_golden e"]
proof (rule wp_try[OF report_try_golden wp_try_golden])
  fix ok t
  assume t: "settles e s ok t" "unreported s t"
  have sessions: "wp (do {
      ok \<leftarrow> try_session_snapshots e;
      if \<not> ok then do { set_fallbacks 0; gets rw_outcome } else session_fallback e }) (run_result e s) t" if "\<not> ok"
    unfolding wp_bind[of "try_session_snapshots e"]
    by (rule wp_try[OF report_try_session_snapshots wp_try_session_snapshots])
      (use t that s settles_chain[of e s t] in \<open>auto simp: unreported_def intro: wp_report_failure wp_session_fallback\<close>)
  have "wp (do { set_fallbacks 0; succeed }) (run_result e s) t" if ok
    using t(1) that by (simp add: set_fallbacks_def wp_bind wp_modify wp_report_success[where t = t])
  with sessions show "wp (if ok then do { set_fallbacks 0; succeed } else do {
      ok \<leftarrow> try_session_snapshots e;
      if \<not> ok then do { set_fallbacks 0; gets rw_outcome } else session_fallback e }) (run_result e s) t"
    by simp
qed

lemma wp_golden_last:
  assumes t: "settles e s False t"
  shows "wp (do {
     restored_golden \<leftarrow> try_golden e;
     set_fallbacks 0;
     modify (\<lambda>s. s\<lparr>rw_outcome := (rw_outcome s)\<lparr>ro_success := restored_golden, ro_snapshot := rw_restored s\<rparr>\<rparr>);
     gets rw_outcome }) (run_result e s) t"
  unfolding wp_bind[of "try_golden e"]
proof (rule wp_try_golden)
  fix ok v
  assume "settles e t ok v"
  then have "settles e s ok v" by (rule settles_chain[OF t])
  then show "wp (do { set_fallbacks 0;
     modify (\<lambda>s. s\<lparr>rw_outcome := (rw_outcome s)\<lparr>ro_success := ok, ro_snapshot := rw_restored s\<rparr>\<rparr>);
     gets rw_outcome }) (run_result e s) v"
    by (simp add: wp_rules set_fallbacks_def) (rule settles_result, auto)
qed

lemma wp_run_session_first:
  assumes s: "\<not> ro_success (rw_outcome s)"
  shows "wp (run_session_first e) (run_result e s) s"
  unfolding run_session_first_def wp_bind[of "try_session_snapshots e"]
proof (rule wp_try[OF report_try_session_snapshots wp_try_session_snapshots])
  fix ok t
  assume t: "settles e s ok t" "unreported s t"
  have "wp (do { when_do tried (register_golden_unresolved e); set_fallbacks 0; succeed }) (run_result e s) t" if ok for tried
    using t(1) that
    by (cases tried) (simp_all add: register_golden_unresolved_def set_fallbacks_def wp_bind wp_when wp_ask wp_modify wp_report_success[where t = t])
  moreover have "wp (do { set_fallbacks 0; gets rw_outcome }) (run_result e s) t"
    by (rule wp_report_failure[OF t(1)]) (use t(2) s in \<open>simp add: unreported_def\<close>)
  ultimately show "wp (do {
     tried \<leftarrow> gets rw_tried_golden_before_previous;
     if ok then do { when_do tried (register_golden_unresolved e); set_fallbacks 0; succeed }
     else if tried then do { set_fallbacks 0; gets rw_outcome }
     else do {
       restored_golden \<leftarrow> try_golden e;
       set_fallbacks 0;
       modify (\<lambda>s. s\<lparr>rw_outcome := (rw_outcome s)\<lparr>ro_success := restored_golden, ro_snapshot := rw_restored s\<rparr>\<rparr>);
       gets rw_outcome } }) (run_result e s) t"
    using t(1) wp_golden_last[of e s t] by (cases ok) (simp_all add: wp_bind[of "gets _"] wp_gets)
qed

lemma run_result_from:
  assumes "run_result e t out v" "rw_events t = rw_events s" "ld_store t = ld_store s"
  shows "run_result e s out v"
  using assms load_store[OF assms(3)]
  by (auto simp: run_result_def restored_on_screen_def baseline_survives_def from_saved_def saw_def acted_def)

lemma wp_recovery_run: "wp (recovery_run e) (run_result e s) s"
proof -
  have golden: "wp (run_golden_first e) (run_result e s) t" if "rw_events t = rw_events s" "ld_store t = ld_store s" "\<not> ro_success (rw_outcome t)" for t
    by (rule wp_weaken[OF wp_run_golden_first[OF that(3)]]) (use that run_result_from in blast)
  have session: "wp (run_session_first e) (run_result e s) t" if "rw_events t = rw_events s" "ld_store t = ld_store s" "\<not> ro_success (rw_outcome t)" for t
    by (rule wp_weaken[OF wp_run_session_first[OF that(3)]]) (use that run_result_from in blast)
  have "run_result e s recovery_outcome_new t" if "rw_events t = rw_events s" "ld_store t = ld_store s" for t
    using that survives_same[of t s] by (simp add: run_result_def recovery_outcome_new_def acted_def)
  then show ?thesis
    unfolding recovery_run_def begin_run_def set_fallbacks_def
    by (auto simp: wp_rules Let_def recovery_outcome_new_def intro!: golden session)
qed

end
