(* ===== verification/Restore_Results.thy ===== *)
theory Restore_Results
  imports Restore_Safety
begin

text \<open>
  The restore on a desktop that holds still: it is recognized, so a restore that has nothing to do reports
  success. The properties of every restore follow, with concrete runs, among them one that reports a confirmed
  golden desktop as a failure.
\<close>

section \<open>A desktop that holds still\<close>

text \<open>Every capture shows the same desktop, nobody cancels, and no call takes longer than 100 ms.\<close>

definition steady :: "restore_env \<Rightarrow> snapshot \<Rightarrow> bool" where
  "steady e c \<longleftrightarrow> (\<forall>k. le_capture e k = c \<and> \<not> oe_cancelled e k \<and> int (oe_elapsed e k) \<le> milliseconds 100) \<and>
     \<not> emptyish c \<and> equal_snapshot e c c"

definition held :: "restore_world \<Rightarrow> restore_world \<Rightarrow> bool" where
  "held s t \<longleftrightarrow> only_looked s t \<and> po_reads s \<le> po_reads t"

interpretation hold: guarantee held
  by unfold_locales (auto simp: held_def look.G_refl intro: look.G_trans)

lemma hold_ask: "guarantees held (ask port)"
  by (simp add: guarantees_def wp_rules held_def only_looked_def rest_def)

lemma hold_ports:
  "guarantees held (is_cancelled e)" "guarantees held (clock_now e)" "guarantees held (sleep_for e n)"
  "guarantees held (capture_snapshot e)" "guarantees held (current_layout_matches e r)"
  by (auto simp: guarantees_def wp_rules port_defs held_def only_looked_def rest_def milliseconds_def)

lemma held_ask: "held s t \<Longrightarrow> po_reads t \<le> k \<Longrightarrow> held s (t\<lparr>po_reads := k\<rparr>)"
  by (simp add: held_def looked_ask)

lemma held_asked: "held s (s\<lparr>po_reads := Suc (po_reads s)\<rparr>)"
  by (simp add: held_def only_looked_def rest_def)

lemma held_then_asked: "held s t \<Longrightarrow> held s (t\<lparr>po_reads := Suc (po_reads t)\<rparr>)"
  by (erule hold.G_trans) (rule held_asked)

lemma held_since_asked: "held (s\<lparr>po_reads := Suc (po_reads s)\<rparr>) t \<Longrightarrow> held s t"
  by (rule hold.G_trans[OF held_asked])

lemma run_clock_now: "run_state (clock_now e) s = (rw_time s + 1 + int (oe_elapsed e (po_reads s)),
    s\<lparr>po_reads := Suc (po_reads s), rw_time := rw_time s + 1 + int (oe_elapsed e (po_reads s))\<rparr>)"
  by (simp add: clock_now_def)

lemma run_first_pass:
  assumes "steady e c"
  shows "run_state (stable_pass e interval None) s = (Inr c, s\<lparr>rw_events := Seen (rw_time s) c # rw_events s, po_reads := po_reads s + 4,
    rw_time := rw_time s + milliseconds (int interval) + int (oe_elapsed e (po_reads s + 3))\<rparr>)"
  using assms by (simp add: steady_def stable_pass_def unless_cancelled_def is_cancelled_def capture_snapshot_def log_event_def sleep_for_def numeral_eq_Suc)

lemma run_second_pass:
  assumes "steady e c"
  shows "run_state (stable_pass e interval (Some c)) s = (Inl (Some c), s\<lparr>rw_events := Seen (rw_time s) c # rw_events s, po_reads := po_reads s + 2\<rparr>)"
  using assms by (simp add: steady_def stable_pass_def unless_cancelled_def is_cancelled_def capture_snapshot_def log_event_def)

lemma steady_elapsed: "steady e c \<Longrightarrow> int (oe_elapsed e k) \<le> 100000000"
  by (simp add: steady_def milliseconds_def)

lemma clock_steady:
  "\<exists>t. run_state (clock_now e) s = (rw_time t, t) \<and> rw_time t = rw_time s + 1 + int (oe_elapsed e (po_reads s)) \<and> held s t"
  using guarantees_run[OF hold_ports(2) run_clock_now] by (auto simp: run_clock_now)

lemma stable_loop_steady:
  assumes e: "steady e c"
  shows "\<exists>t. stable_loop e 2000 150 (rw_time s) None s = (Some c, t) \<and> held s t"
proof -
  obtain s1 where s1: "run_state (clock_now e) s = (rw_time s1, s1)" "rw_time s1 \<le> rw_time s + 100000001" "held s s1"
    using clock_steady[of e s] steady_elapsed[OF e, of "po_reads s"] by auto
  define s2 where "s2 = snd (run_state (stable_pass e 150 None) s1)"
  have s2: "run_state (stable_pass e 150 None) s1 = (Inr c, s2)" "rw_time s2 \<le> rw_time s1 + 250000000" "po_reads s1 \<le> po_reads s2"
    using steady_elapsed[OF e, of "po_reads s1 + 3"] by (simp_all add: s2_def run_first_pass[OF e] milliseconds_def)
  obtain s3 where s3: "run_state (clock_now e) s2 = (rw_time s3, s3)" "rw_time s3 \<le> rw_time s2 + 100000001" "held s2 s3"
    using clock_steady[of e s2] steady_elapsed[OF e, of "po_reads s2"] by auto
  define t where "t = snd (run_state (stable_pass e 150 (Some c)) s3)"
  have t: "run_state (stable_pass e 150 (Some c)) s3 = (Inl (Some c), t)" "po_reads s3 \<le> po_reads t"
    by (simp_all add: t_def run_second_pass[OF e])
  have "stable_loop e 2000 150 (rw_time s) (Some c) s2 = (Some c, t)"
    using s1(2) s2(2) s3(2) by (subst stable_loop.simps) (simp add: s3(1) t(1) milliseconds_def)
  then have "stable_loop e 2000 150 (rw_time s) None s = (Some c, t)"
    using s1(2) by (subst stable_loop.simps) (simp add: s1(1) s2(1) milliseconds_def)
  moreover from this have "held s t"
    using look_stable_loop[of s e 2000 150 "rw_time s" None] s1(3) s2(3) s3(3) t(2) by (simp add: held_def)
  ultimately show ?thesis by blast
qed

lemma wp_steady_read:
  assumes e: "steady e c" and Q: "\<And>t. held s t \<Longrightarrow> Q (Some c) t"
  shows "wp (read_stable_snapshot e 2000 150) Q s"
proof -
  obtain s1 where s1: "run_state (clock_now e) s = (rw_time s1, s1)" "held s s1" using clock_steady by blast
  moreover obtain t where t: "stable_loop e 2000 150 (rw_time s1) None s1 = (Some c, t)" "held s1 t" using stable_loop_steady[OF e] by blast
  ultimately have "Q (Some c) t" using Q hold.G_trans by blast
  then show ?thesis by (simp add: read_stable_snapshot_def wp_def s1(1) t(1))
qed

text \<open>The token is never cancelled on a desktop that holds still.\<close>

lemma wp_steady_go_on: "steady e c \<Longrightarrow> wp (unless_cancelled e x m) Q s = wp m Q (s\<lparr>po_reads := Suc (po_reads s)\<rparr>)"
  by (simp add: wp_unless_cancelled steady_def)

lemma wp_quiet_pass:
  assumes e: "steady e c"
  shows "wp (quiet_pass e interval c) (\<lambda>x t. x = Inr () \<and> held s t) s"
proof -
  have "wp (sleep_for e interval) (\<lambda>_. held s) t" if "held s t" for t
    by (rule hold.wp_after[OF hold_ports(3)]) (rule hold.G_trans[OF that])
  then show ?thesis
    unfolding quiet_pass_def wp_steady_go_on[OF e] wp_bind
    by (intro wp_steady_read[OF e])
      (use e in \<open>auto simp: wp_steady_go_on[OF e] wp_bind wp_return steady_def intro: held_then_asked held_since_asked\<close>)
qed

lemma quiet_loop_steady:
  assumes e: "steady e c"
  shows "fst (quiet_loop e duration interval t0 c s) \<and> held s (snd (quiet_loop e duration interval t0 c s))"
  using assms
proof (induction e duration interval t0 c s rule: quiet_loop.induct)
  case (1 e duration interval t0 c s)
  obtain s1 where s1: "run_state (clock_now e) s = (rw_time s1, s1)" "held s s1" using clock_steady by blast
  obtain t where t: "run_state (quiet_pass e interval c) s1 = (Inr (), t)" "held s1 t"
    using wp_quiet_pass[OF 1(2), of interval s1] by (auto simp: wp_def split: prod.splits)
  note more = 1(1)[OF s1(1)[symmetric] _ t(1)[symmetric] refl 1(2)]
  have "held s t" using s1(2) t(2) by (rule hold.G_trans)
  with more s1(2) show ?case
    by (subst (1 2) quiet_loop.simps) (auto simp: s1(1) t(1) intro: hold.G_trans)
qed

lemma wp_steady_quiet:
  assumes e: "steady e c" and Q: "\<And>t. held s t \<Longrightarrow> Q True t"
  shows "wp (quiet_period e duration interval) Q s"
proof -
  have "Q (fst (quiet_loop e duration interval t0 c t)) (snd (quiet_loop e duration interval t0 c t))" if "held s t" for t0 t
    using quiet_loop_steady[OF e, of duration interval t0 t] Q hold.G_trans[OF that] by auto
  then have "wp (clock_now e) (\<lambda>t0. wp (State (quiet_loop e duration interval t0 c)) Q) t" if "held s t" for t
    by (intro hold.wp_after[OF hold_ports(2)]) (simp add: wp_State hold.G_trans[OF that])
  then show ?thesis
    unfolding quiet_period_def wp_bind by (intro wp_steady_read[OF e]) (simp add: wp_bind)
qed

section \<open>A desktop that is restored already\<close>

text \<open>The desktop on screen is the saved one; the saved rotations are the default ones, so nothing is written again.\<close>

definition already_there :: "restore_env \<Rightarrow> snapshot \<Rightarrow> parsed_snapshot \<Rightarrow> bool" where
  "already_there e c l \<longleftrightarrow> steady e c \<and> matches e c (pa_snapshot l) \<and>
     (pa_has_layout_data l \<longrightarrow> (\<forall>k. oe_layout_matches e k (pa_layout_rotations l)) \<and> list_all (\<lambda>(_, r). r = 0) (pa_layout_rotations l))"

lemma wp_steady_confirm:
  assumes l: "already_there e c l" and Q: "\<And>t. held s t \<Longrightarrow> Q True t"
  shows "wp (confirm_matches e l) Q s"
proof -
  have e: "steady e c" "matches e c (pa_snapshot l)" using l by (simp_all add: already_there_def)
  have "wp (check_loaded_layout e l True) Q t" if "held s t" for t
  proof -
    have "wp (current_layout_matches e (pa_layout_rotations l)) (\<lambda>ok. wp (unless_cancelled e False (return ok)) Q) v"
      if "held s v" "pa_has_layout_data l" for v
      using l that(2) Q[OF held_then_asked[OF hold.G_trans[OF that(1) guarantees_run[OF hold_ports(5)[of e "pa_layout_rotations l"]]]]]
      by (simp add: already_there_def current_layout_matches_def wp_bind wp_ask wp_modify wp_return wp_steady_go_on[OF e(1)] log_event_def)
    then show ?thesis
      using that unfolding check_layout_def wp_steady_go_on[OF e(1)]
      by (auto simp: wp_bind wp_return wp_steady_go_on[OF e(1)] intro!: Q held_ask simp: held_then_asked)
  qed
  then have still: "wp (still_matches e (pa_snapshot l)) (\<lambda>ok. wp (check_loaded_layout e l ok) Q) t" if "held s t" for t
    unfolding still_matches_def wp_bind
    by (intro wp_steady_read[OF e(1)]) (simp add: wp_steady_go_on[OF e(1)] wp_return e(2) held_then_asked hold.G_trans[OF that])
  have "wp (after_quiet_period e (pa_snapshot l) (pa_has_layout_data l) (pa_layout_rotations l) True) Q t" if "held s t" for t
    using still[OF held_then_asked[OF that]] e(1) by (simp add: after_quiet_period_def wp_bind wp_is_cancelled wp_return steady_def)
  then show ?thesis
    unfolding confirm_matches_def confirm_state_def wp_bind
    by (intro wp_steady_read[OF e(1)])
      (auto simp: wp_steady_go_on[OF e(1)] wp_bind e(2) intro!: wp_steady_quiet[OF e(1)] intro: hold.G_trans[OF held_then_asked])
qed

lemma wp_steady_reassert:
  assumes l: "already_there e c l" and Q: "\<And>t. held s t \<Longrightarrow> Q True t"
  shows "wp (reassert_rotations_after_match e l) Q s"
proof -
  have "\<not> list_ex (\<lambda>(_, r). r \<noteq> 0) (pa_layout_rotations l)" if "pa_has_layout_data l"
    using l that by (auto simp: already_there_def list_all_iff list_ex_iff)
  then show ?thesis
    using l Q[OF held_asked] unfolding reassert_rotations_after_match_def Let_def
    by (auto simp: already_there_def steady_def wp_bind wp_is_cancelled wp_return)
qed

lemma wp_steady_restored:
  assumes l: "already_there e c l" and Q: "\<And>t. held s t \<Longrightarrow> Q True t"
  shows "wp (apply_and_confirm e l) Q s"
proof -
  have e: "steady e c" "sn_modes (pa_snapshot l) \<noteq> []"
    using l by (simp_all add: already_there_def recovery_snapshot_matches_def)
  have "wp (already_restored e l) (\<lambda>ok. wp (if ok then return True else m) Q) t" if t: "held s t" for m t
  proof -
    have again: "wp (reassert_rotations_after_match e l) (\<lambda>ok. wp (if ok then return True else m) Q) v" if "held t v" for v
      by (rule wp_steady_reassert[OF l]) (use t that in \<open>auto simp: wp_return intro: Q hold.G_trans\<close>)
    show ?thesis
      unfolding already_restored_def wp_bind by (rule wp_steady_confirm[OF l]) (simp add: again)
  qed
  then have "wp (capture_snapshot e) (\<lambda>_ t. wp (already_restored e l) (\<lambda>ok. wp (if ok then return True else m) Q) (t\<lparr>po_reads := Suc (po_reads t)\<rparr>)) s" for m
    by (intro hold.wp_after[OF hold_ports(4)]) (simp add: held_then_asked)
  then show ?thesis
    unfolding apply_and_confirm_def by (simp add: e(2) wp_bind[of "capture_snapshot e"] wp_steady_go_on[OF e(1)] wp_bind[of "already_restored e l"])
qed

text \<open>A session tier whose desktop is on screen already.\<close>

definition tier_on_screen :: "restore_env \<Rightarrow> tier \<Rightarrow> snapshot \<Rightarrow> parsed_snapshot \<Rightarrow> restore_world \<Rightarrow> bool" where
  "tier_on_screen e i c l s \<longleftrightarrow> already_there e c l \<and>
     (\<exists>raw. load_with_metadata i s = Some raw \<and> (\<forall>j k. filter_loaded_snapshot raw (le_enumerate e j) (oe_exclusions e k) = Some l)) \<and>
     (\<forall>k. le_topology_is_valid e k (sn_topology (pa_snapshot l)) \<and> \<not> oe_preserve_active_physical_primary e k)"

definition untouched :: "restore_world \<Rightarrow> restore_world \<Rightarrow> bool" where
  "untouched s t \<longleftrightarrow> (\<exists>new. rw_events t = new @ rw_events s \<and> \<not> list_ex is_write new)"

lemma held_untouched: "held s t \<Longrightarrow> rw_events v = rw_events t \<Longrightarrow> untouched s v"
  unfolding held_def untouched_def by (auto elim!: looked_events simp: list_ex_iff dest: looked_no_write)

lemma wp_steady_session:
  assumes s: "tier_on_screen e i c l s"
    and Q: "\<And>t. untouched s t \<Longrightarrow> rw_restored t = Some (pa_snapshot l) \<Longrightarrow> Q (True, True) t"
  shows "wp (try_session e i) Q s"
proof -
  obtain raw where raw: "load_with_metadata i s = Some raw" "\<And>j k. filter_loaded_snapshot raw (le_enumerate e j) (oe_exclusions e k) = Some l"
    and l: "already_there e c l" and no_live: "\<And>k. \<not> oe_preserve_active_physical_primary e k"
    and valid: "\<And>k. le_topology_is_valid e k (sn_topology (pa_snapshot l))"
    using s unfolding tier_on_screen_def by blast
  have e: "steady e c" using l by (simp add: already_there_def)
  have "wp (accept_session e False (pa_snapshot l)) (\<lambda>ok. Q (ok, True)) t" if "held s t" for t
    unfolding accept_session_def wp_steady_go_on[OF e] reset_staged_apply_state_def steady_now_ms_def clock_now_def
    by (auto simp: wp_bind wp_ask wp_modify wp_gets wp_return intro!: Q held_untouched[OF that])
  then have "wp (apply_and_confirm e l) (\<lambda>ok. wp (if ok then accept_session e False (pa_snapshot l) else return False) (\<lambda>ok. Q (ok, True)))
      (s\<lparr>po_reads := k\<rparr>)" if "po_reads s \<le> k" for k
    by (intro wp_steady_restored[OF l]) (use hold.G_trans[OF held_ask[OF hold.G_refl that]] in simp)
  then show ?thesis
    unfolding try_session_def load_filtered_def restore_session_def live_desktop_to_preserve_def
    by (simp add: raw valid no_live wp_bind[of "gets _"] wp_bind[of "ask _"] wp_bind[of "return _"] wp_bind[of "State_Monad.bind _ _"]
        wp_bind[of "apply_and_confirm _ _"] wp_bind[of "if _ then _ else return False"] wp_gets wp_ask wp_return)
qed

lemma wp_steady_current:
  assumes s: "tier_on_screen e Tier_current c l s"
  shows "wp (try_current e) (\<lambda>x t. fst x \<and> untouched s t \<and> rw_restored t = Some (pa_snapshot l)) s"
proof -
  have e: "steady e c" using s by (simp add: tier_on_screen_def already_there_def)
  have "wp (promote_current_to_previous e) (\<lambda>_ t. untouched s t \<and> rw_restored t = Some (pa_snapshot l)) (t\<lparr>po_reads := k\<rparr>)"
    if "untouched s t" "rw_restored t = Some (pa_snapshot l)" for t k
    using that unfolding promote_current_to_previous_def storage_remove_def storage_save_def tier_exists_def
    by (auto simp: wp_rules untouched_def split: option.split)
  then show ?thesis
    unfolding try_current_def wp_bind[of "try_session _ _"]
    by (intro wp_steady_session[OF s]) (use e in \<open>auto simp: wp_rules steady_def untouched_def\<close>)
qed

lemma wp_steady_sessions:
  assumes "tier_on_screen e Tier_current c l s"
  shows "wp (try_session_snapshots e) (\<lambda>ok t. ok \<and> untouched s t \<and> rw_restored t = Some (pa_snapshot l)) s"
  unfolding try_session_snapshots_def wp_bind
  by (rule wp_weaken[OF wp_steady_current[OF assms]]) (simp add: wp_return)

lemma wp_steady_session_first:
  assumes "tier_on_screen e Tier_current c l s"
  shows "wp (run_session_first e) (\<lambda>out t. ro_success out \<and> ro_snapshot out = Some (pa_snapshot l) \<and> untouched s t) s"
  unfolding run_session_first_def wp_bind[of "try_session_snapshots _"]
  by (rule wp_weaken[OF wp_steady_sessions[OF assms]])
    (auto simp: wp_rules register_golden_unresolved_def set_fallbacks_def succeed_def untouched_def)

lemma steady_run:
  assumes s: "tier_on_screen e Tier_current c l s" and session: "\<forall>k. \<not> oe_always_restore_from_golden e k"
    and run: "run_state (recovery_run e) s = (out, t)"
  shows "ro_success out \<and> ro_snapshot out = Some (pa_snapshot l) \<and> untouched s t"
proof -
  have e: "steady e c" using s by (simp add: tier_on_screen_def already_there_def)
  have "wp (run_session_first e) (\<lambda>out t. ro_success out \<and> ro_snapshot out = Some (pa_snapshot l) \<and> untouched s t) u"
    if "ld_store u = ld_store s" "rw_events u = rw_events s" for u
  proof -
    have "tier_on_screen e Tier_current c l u" using s load_store(1)[OF that(1)] by (simp add: tier_on_screen_def)
    from wp_steady_session_first[OF this] show ?thesis by (simp add: untouched_def that(2))
  qed
  then have "wp (recovery_run e) (\<lambda>out t. ro_success out \<and> ro_snapshot out = Some (pa_snapshot l) \<and> untouched s t) s"
    using session unfolding recovery_run_def begin_run_def set_fallbacks_def
    by (simp add: wp_bind wp_modify wp_steady_go_on[OF e] wp_ask wp_when)
  with run show ?thesis by (auto dest: wp_run)
qed

section \<open>A concrete desktop\<close>

text \<open>A desktop of one monitor, saved and on screen.\<close>

definition demo_desktop :: snapshot where
  "demo_desktop = \<lparr>sn_topology = [[''M1'']], sn_modes = [(''M1'', \<lparr>dm_width = 1920, dm_height = 1080, dm_numerator = 60, dm_denominator = 1\<rparr>)],
     sn_hdr_states = [], sn_primary_device = ''M1'', sn_origins = [(''M1'', (0, 0))]\<rparr>"

definition still_monitor :: device where
  "still_monitor = \<lparr>dv_device_id = ''M1'', dv_display_name = ''D1'', dv_friendly_name = ''Monitor'', dv_manufacturer_id = None, dv_active = True\<rparr>"

definition demo_restore_env :: "bool \<Rightarrow> (nat \<Rightarrow> device list) \<Rightarrow> restore_env" where
  "demo_restore_env golden_first enumerated = \<lparr>le_capture = \<lambda>_. demo_desktop, le_enumerate = enumerated, le_topology_is_valid = \<lambda>_ _. True,
     le_layouts = \<lambda>_ _. [], le_write_ok = \<lambda>_. True, le_observe = \<lambda>_. None, le_try_enumerate = \<lambda>_. None,
     oe_cancelled = \<lambda>_. False, oe_elapsed = \<lambda>_. 0, oe_capture_topology = \<lambda>_. [[''M1'']], oe_validate_topology = \<lambda>_ _. True,
     oe_is_topology_same = \<lambda>_ a b. a = b, oe_apply_topology = \<lambda>_. St_ok, oe_written = \<lambda>_. True, oe_layout_matches = \<lambda>_ _. True,
     oe_reset_staged_apply_state = \<lambda>_. True, oe_removed = \<lambda>_. True, oe_always_restore_from_golden = \<lambda>_. golden_first,
     oe_prefer_golden_if_current_missing = \<lambda>_. True, oe_preserve_active_physical_primary = \<lambda>_. False, oe_exclusions = \<lambda>_. [],
     oe_unix_ms = \<lambda>_. 0, oe_equal_display_modes = (=)\<rparr>"

definition demo_restore_world :: "(tier \<Rightarrow> tier_file) \<Rightarrow> restore_world" where
  "demo_restore_world files = \<lparr>po_reads = 0, ld_store = files, ld_prefer_golden_first = False, rw_time = 0, rw_events = [],
     rw_golden_health = golden_health_new, rw_restore_attempted_unconfirmed = False, rw_golden_pending_session_fallbacks = 0,
     rw_last_session_restore_success_ms = 0, rw_outcome = recovery_outcome_new, rw_restored = None, rw_preserved_live_desktop = False,
     rw_tried_golden_before_previous = False\<rparr>"

definition settled_env :: restore_env where
  "settled_env = demo_restore_env False (\<lambda>_. [still_monitor])"

definition still_world :: restore_world where
  "still_world = demo_restore_world (\<lambda>i. if i = Tier_current then Holds demo_desktop [] else Absent)"

definition still_loaded :: parsed_snapshot where
  "still_loaded = \<lparr>pa_snapshot = demo_desktop, pa_has_layout_data = False, pa_layout_rotations = []\<rparr>"

lemma demo_filter:
  "filter_loaded_snapshot \<lparr>pa_snapshot = demo_desktop, pa_has_layout_data = True, pa_layout_rotations = []\<rparr> [still_monitor] [] = Some still_loaded"
  by code_simp

lemma demo_filter_absent:
  "filter_loaded_snapshot \<lparr>pa_snapshot = demo_desktop, pa_has_layout_data = True, pa_layout_rotations = []\<rparr> [] [] = None"
  by code_simp

lemma demo_there: "already_there (demo_restore_env g enumerated) demo_desktop still_loaded"
  by (simp add: already_there_def steady_def demo_restore_env_def still_loaded_def milliseconds_def emptyish_def equal_snapshot_def
      equal_origins_def demo_desktop_def recovery_snapshot_matches_def)

lemma demo_on_screen: "tier_on_screen settled_env Tier_current demo_desktop still_loaded still_world"
proof -
  have "load_with_metadata Tier_current still_world =
    Some \<lparr>pa_snapshot = demo_desktop, pa_has_layout_data = True, pa_layout_rotations = []\<rparr>"
    by (simp add: load_with_metadata_def storage_load_def still_world_def demo_restore_world_def demo_desktop_def)
  then show ?thesis
    unfolding tier_on_screen_def settled_env_def using demo_there by (simp add: demo_restore_env_def demo_filter)
qed

lemma demo_session_first: "\<forall>k. \<not> oe_always_restore_from_golden settled_env k"
  by (simp add: settled_env_def demo_restore_env_def)

section \<open>What a restore promises\<close>

text \<open>
  (C31) A desktop that is on screen already is recognized without a write. The conditions (\<open>tier_on_screen\<close>): the
  current tier loads, its filtered contents are the same whenever the devices are enumerated, and its topology is
  judged valid; every capture returns the same plausible desktop, which matches those contents; if rotations were
  saved, the layout query confirms them and all of them are the default 0 (for any other rotation the code
  deliberately reasserts the layout after a match); no call is cancelled or takes more than 100 ms; the policy to
  preserve an active physical primary display is off; and the restore is not bound to the golden snapshot. Then the
  restore ends, reports success with that desktop, and has written nothing to the display stack.
\<close>

theorem steady_desktop_recognized:
  assumes "tier_on_screen e Tier_current c l s" and "\<forall>k. \<not> oe_always_restore_from_golden e k"
    and "run_state (recovery_run e) s = (out, t)"
  shows "ro_success out \<and> ro_snapshot out = Some (pa_snapshot l) \<and> untouched s t"
  using assms by (rule steady_run)

theorem steady_desktop_recognized_witness:
  "ro_success (fst (run_state (recovery_run settled_env) still_world)) \<and>
   ro_snapshot (fst (run_state (recovery_run settled_env) still_world)) = Some demo_desktop"
  using steady_desktop_recognized[OF demo_on_screen demo_session_first prod.collapse[symmetric]] by (simp add: still_loaded_def)

text \<open>
  (C10) A restore reports success only for a desktop that it saw on screen. The desktop it names is a saved one, filtered
  by the devices that are there, or the live one that it decided to keep; and since its last write to the display
  stack it captured that desktop, matching in topology, modes, primary display, HDR states and origins, at two times at
  least 750 ms apart, and found the saved rotations in effect.
\<close>

theorem restore_confirmed:
  assumes run: "run_state (recovery_run e) s = (out, t)" and "ro_success out"
  shows "\<exists>l. ro_snapshot out = Some (pa_snapshot l) \<and> (from_saved s l \<or> saw s t (pa_snapshot l)) \<and>
    (\<exists>u c u' c'. Seen u c \<in> since_write t \<and> Seen u' c' \<in> since_write t \<and> u + milliseconds 750 \<le> u' \<and>
       recovery_snapshot_matches (oe_equal_display_modes e) c (pa_snapshot l) \<and>
       recovery_snapshot_matches (oe_equal_display_modes e) c' (pa_snapshot l)) \<and>
    (pa_has_layout_data l \<longrightarrow> Layout_checked (pa_layout_rotations l) True \<in> since_write t)"
  using wp_run[OF wp_recovery_run run] assms(2)
  unfolding run_result_def restored_on_screen_def confirmed_on_screen_def seen_twice_def by blast

theorem restore_confirmed_witness:
  "\<exists>l :: parsed_snapshot. ro_snapshot (fst (run_state (recovery_run settled_env) still_world)) = Some (pa_snapshot l) \<and>
    (\<exists>u c u' c'. Seen u c \<in> since_write (snd (run_state (recovery_run settled_env) still_world)) \<and>
       Seen u' c' \<in> since_write (snd (run_state (recovery_run settled_env) still_world)) \<and> u + milliseconds 750 \<le> u')"
proof -
  have "ro_success (fst (run_state (recovery_run settled_env) still_world))"
    using steady_run[OF demo_on_screen demo_session_first prod.collapse[symmetric]] by simp
  from restore_confirmed[OF prod.collapse[symmetric] this] show ?thesis by blast
qed

text \<open>
  (C11) No write starts after the operation was told to stop. Every write of a restore to the display stack comes directly
  after a question to the cancellation token that was answered with no, with no other question in between; so when the
  token is cancelled from some question on, no write starts after that question.
\<close>

theorem restore_stops_when_cancelled:
  assumes run: "run_state (recovery_run e) s = (out, t)"
  shows "\<exists>new. rw_events t = new @ rw_events s \<and>
    (\<forall>k w. Wrote k w \<in> set new \<longrightarrow> 0 < k \<and> \<not> oe_cancelled e (k - 1)) \<and>
    (\<forall>n. (\<forall>k \<ge> n. oe_cancelled e k) \<longrightarrow> (\<forall>k w. Wrote k w \<in> set new \<longrightarrow> k \<le> n))"
proof -
  from wp_run[OF wp_recovery_run run] obtain new where new: "rw_events t = new @ rw_events s" "\<forall>ev \<in> set new. checked e ev"
    by (auto simp: run_result_def acted_def)
  then have told: "0 < k \<and> \<not> oe_cancelled e (k - 1)" if "Wrote k w \<in> set new" for k w
    using that checked.simps(1) by blast
  then have "k \<le> n" if "\<forall>k \<ge> n. oe_cancelled e k" "Wrote k w \<in> set new" for n k w
    using that by (metis diff_Suc_1 gr0_implies_Suc not_less_eq_eq)
  with new(1) told show ?thesis by blast
qed

theorem restore_stops_when_cancelled_witness:
  "\<exists>new. rw_events (snd (run_state (recovery_run (settled_env\<lparr>oe_cancelled := \<lambda>k. 5 \<le> k\<rparr>)) still_world)) = new \<and>
    (\<forall>k w. Wrote k w \<in> set new \<longrightarrow> 0 < k \<and> k \<le> 5)"
proof -
  let ?e = "settled_env\<lparr>oe_cancelled := \<lambda>k. 5 \<le> k\<rparr>"
  from restore_stops_when_cancelled[OF prod.collapse[symmetric]] obtain new where
    new: "rw_events (snd (run_state (recovery_run ?e) still_world)) = new @ rw_events still_world"
      "\<forall>k w. Wrote k w \<in> set new \<longrightarrow> 0 < k \<and> \<not> oe_cancelled ?e (k - 1)"
      "\<forall>n. (\<forall>k \<ge> n. oe_cancelled ?e k) \<longrightarrow> (\<forall>k w. Wrote k w \<in> set new \<longrightarrow> k \<le> n)"
    by blast
  have "rw_events still_world = []" by (simp add: still_world_def demo_restore_world_def)
  moreover have "k \<le> 5" if "Wrote k w \<in> set new" for k w
    using new(3)[rule_format, of 5, OF _ that] by simp
  ultimately show ?thesis using new(1,2) by auto
qed

text \<open>
  (C12) A restore never loses the last saved desktop. It leaves the golden snapshot alone; if some tier holds a desktop
  before it, some tier holds one after it, whatever writes and removals fail; and it changes the files only when it
  has seen a desktop restored on screen.
\<close>

theorem restore_keeps_a_baseline:
  assumes run: "run_state (recovery_run e) s = (out, t)"
  shows "ld_store t Tier_golden = ld_store s Tier_golden \<and>
    ((\<exists>i. storage_load i s \<noteq> None) \<longrightarrow> (\<exists>i. storage_load i t \<noteq> None)) \<and>
    (ld_store t \<noteq> ld_store s \<longrightarrow> (\<exists>l. confirmed_on_screen e l t \<and> (from_saved s l \<or> saw s t (pa_snapshot l))))"
  using wp_run[OF wp_recovery_run run] by (auto simp: run_result_def baseline_survives_def restored_on_screen_def)

theorem restore_keeps_a_baseline_witness:
  "\<exists>i. storage_load i (snd (run_state (recovery_run settled_env) still_world)) \<noteq> None"
proof -
  have "storage_load Tier_current still_world \<noteq> None"
    by (simp add: storage_load_def still_world_def demo_restore_world_def demo_desktop_def)
  then show ?thesis
    using restore_keeps_a_baseline[OF prod.collapse[symmetric], of settled_env still_world] by blast
qed

section \<open>A confirmed golden desktop that counts as a failure\<close>

text \<open>Golden first, and the monitor is missing from the first enumeration of the run only.\<close>

definition returning_env :: restore_env where
  "returning_env = demo_restore_env True (\<lambda>k. if k = 3 then [] else [still_monitor])"

definition golden_world :: restore_world where
  "golden_world = demo_restore_world (\<lambda>i. if i = Tier_current then Absent else Holds demo_desktop [])"

lemma returning_there: "already_there returning_env demo_desktop still_loaded"
  unfolding returning_env_def by (rule demo_there)

lemma returning_steady: "steady returning_env demo_desktop"
  using returning_there by (simp add: already_there_def)

lemma golden_loads: "ld_store s Tier_golden = Holds demo_desktop [] \<Longrightarrow>
  load_with_metadata Tier_golden s = Some \<lparr>pa_snapshot = demo_desktop, pa_has_layout_data = True, pa_layout_rotations = []\<rparr>"
  by (simp add: load_with_metadata_def storage_load_def demo_desktop_def)

lemma returning_ports:
  "oe_cancelled returning_env k = False" "le_enumerate returning_env k = (if k = 3 then [] else [still_monitor])"
  "oe_exclusions returning_env k = []" "oe_always_restore_from_golden returning_env k = True" "le_capture returning_env k = demo_desktop"
  "oe_validate_topology returning_env k topology = True" "oe_removed returning_env k = True" "oe_prefer_golden_if_current_missing returning_env k = True"
  by (simp_all add: returning_env_def demo_restore_env_def)

lemma first_golden_try:
  assumes "po_reads s = 2" "ld_store s Tier_golden = Holds demo_desktop []" "Q False (s\<lparr>po_reads := 5\<rparr>)"
  shows "wp (try_golden returning_env) Q s"
  using assms golden_loads[of s] golden_loads[of "s\<lparr>po_reads := 3\<rparr>"]
  by (simp add: try_golden_def load_filtered_def wp_rules returning_ports demo_filter_absent)

lemma second_golden_accept:
  assumes "3 < po_reads s"
  shows "wp (accept_golden returning_env demo_desktop) (\<lambda>ok t. ok \<and> 3 < po_reads t \<and> rw_restored t = Some demo_desktop \<and>
    ro_success (rw_outcome t) = ro_success (rw_outcome s) \<and> rw_golden_pending_session_fallbacks t = rw_golden_pending_session_fallbacks s \<and>
    ld_store t = (ld_store s)(Tier_current := Absent, Tier_previous := Absent)) s"
  using assms
  by (simp add: accept_golden_def clear_session_snapshots_after_golden_def storage_remove_def tier_exists_def reset_staged_apply_state_def
      wp_rules returning_ports)

lemma hold_should_skip_golden: "guarantees held (should_skip_golden e golden)"
  unfolding should_skip_golden_def steady_now_ms_def known_present_devices_def by (intro hold.rules hold_ask hold_ports)

lemma not_skipped: "wp (should_skip_golden returning_env demo_desktop) (\<lambda>skip _. \<not> skip) s"
  unfolding should_skip_golden_def steady_now_ms_def known_present_devices_def port_defs
  by (simp add: wp_rules returning_ports Let_def) (simp add: demo_desktop_def)

lemma wp_not_skipped:
  assumes "\<And>t. held s t \<Longrightarrow> Q False t"
  shows "wp (should_skip_golden returning_env demo_desktop) Q s"
  using hold_should_skip_golden[of returning_env demo_desktop] not_skipped[of s] assms
  by (auto simp: wp_def guarantees_def split_beta)

lemma held_fields:
  assumes "held s t"
  shows "ld_store t = ld_store s" "rw_outcome t = rw_outcome s" "rw_golden_pending_session_fallbacks t = rw_golden_pending_session_fallbacks s"
    "po_reads s \<le> po_reads t"
proof -
  have "rest t = rest s" using assms by (simp add: held_def only_looked_def)
  then have "ld_store (rest t) = ld_store (rest s)" "rw_outcome (rest t) = rw_outcome (rest s)"
    "rw_golden_pending_session_fallbacks (rest t) = rw_golden_pending_session_fallbacks (rest s)"
    by simp_all
  then show "ld_store t = ld_store s" "rw_outcome t = rw_outcome s" "rw_golden_pending_session_fallbacks t = rw_golden_pending_session_fallbacks s"
    by (simp_all add: rest_def)
  show "po_reads s \<le> po_reads t" using assms by (simp add: held_def)
qed

text \<open>The golden desktop is accepted after all, and the session tiers are removed.\<close>

definition golden_accepted :: "restore_world \<Rightarrow> restore_world \<Rightarrow> bool" where
  "golden_accepted s t \<longleftrightarrow> 3 < po_reads t \<and> rw_restored t = Some demo_desktop \<and> ro_success (rw_outcome t) = ro_success (rw_outcome s) \<and>
     rw_golden_pending_session_fallbacks t = rw_golden_pending_session_fallbacks s \<and>
     ld_store t = (ld_store s)(Tier_current := Absent, Tier_previous := Absent)"

lemma second_golden_try:
  assumes s: "3 < po_reads s" "ld_store s Tier_golden = Holds demo_desktop []"
  shows "wp (try_golden returning_env) (\<lambda>ok t. ok \<and> golden_accepted s t) s"
proof -
  have desk: "pa_snapshot still_loaded = demo_desktop" by (simp add: still_loaded_def)
  have accept: "wp (accept_golden returning_env demo_desktop) (\<lambda>ok t. ok \<and> golden_accepted s t) t" if "held s t" for t
    using second_golden_accept[of t] held_fields[OF that] s(1) by (simp add: golden_accepted_def)
  have "wp (apply_and_confirm returning_env still_loaded) (\<lambda>ok. wp (if ok then accept_golden returning_env demo_desktop else m)
      (\<lambda>ok t. ok \<and> golden_accepted s t)) (t\<lparr>po_reads := Suc (po_reads t)\<rparr>)" if "held s t" for t m
    by (rule wp_steady_restored[OF returning_there]) (use accept hold.G_trans[OF held_then_asked[OF that]] in simp)
  then have restore: "wp (restore_golden returning_env still_loaded) (\<lambda>ok t. ok \<and> golden_accepted s t) t" if "held s t" for t
    unfolding restore_golden_def desk using that
    by (simp add: wp_bind[of "ask _"] wp_ask returning_ports wp_bind[of "apply_and_confirm _ _"])
  have "wp (should_skip_golden returning_env demo_desktop) (\<lambda>skip. wp (if skip then return False else restore_golden returning_env still_loaded)
      (\<lambda>ok t. ok \<and> golden_accepted s t)) (s\<lparr>po_reads := k\<rparr>)" if "po_reads s \<le> k" for k
    by (rule wp_not_skipped) (use restore hold.G_trans[OF held_ask[OF hold.G_refl that]] in simp)
  moreover have "load_with_metadata Tier_golden (s\<lparr>po_reads := k\<rparr>) =
      Some \<lparr>pa_snapshot = demo_desktop, pa_has_layout_data = True, pa_layout_rotations = []\<rparr>" for k
    using s(2) by (intro golden_loads) simp
  ultimately show ?thesis
    unfolding try_golden_def wp_steady_go_on[OF returning_steady] load_filtered_def
    using s(1) by (simp add: wp_bind wp_gets wp_ask wp_return returning_ports demo_filter desk)
qed

lemma returning_sessions:
  assumes s: "po_reads s = 5" "ld_store s = ld_store golden_world"
  shows "wp (try_session_snapshots returning_env) (\<lambda>ok t. ok \<and> golden_accepted s t) s"
proof -
  have store: "ld_store s Tier_current = Absent" "ld_store s Tier_previous = Holds demo_desktop []" "ld_store s Tier_golden = Holds demo_desktop []"
    using s(2) by (simp_all add: golden_world_def demo_restore_world_def)
  have "load_with_metadata Tier_current s = None" using store by (simp add: load_with_metadata_def storage_load_def)
  then have current: "wp (try_current returning_env) (\<lambda>x t. x = (False, False) \<and> t = s) s"
    by (simp add: try_current_def try_session_def load_filtered_def wp_rules)
  have "wp (try_golden returning_env) (\<lambda>ok t. ok \<and> golden_accepted s t) (s\<lparr>po_reads := 6, rw_tried_golden_before_previous := True\<rparr>)"
    using second_golden_try[of "s\<lparr>po_reads := 6, rw_tried_golden_before_previous := True\<rparr>"] store by (simp add: golden_accepted_def)
  then have "wp (prefer_golden_before_previous returning_env False) (\<lambda>ok t. ok \<and> golden_accepted s t) s"
    using s(1) store by (simp add: prefer_golden_before_previous_def tier_exists_def wp_rules returning_ports)
  then have "wp (prefer_golden_before_previous returning_env False) (\<lambda>ok. wp (if ok then return True else m) (\<lambda>ok t. ok \<and> golden_accepted s t)) s" for m
    by (rule wp_weaken) (simp add: wp_return)
  then show ?thesis
    unfolding try_session_snapshots_def wp_bind[of "try_current _"]
    by (intro wp_weaken[OF current]) (auto simp: wp_bind)
qed

lemma returning_fallback:
  assumes t: "golden_accepted s t" "ld_store s = ld_store golden_world"
  shows "wp (session_fallback returning_env) (\<lambda>out v. out = rw_outcome t \<and> rw_restored v = Some demo_desktop \<and> ld_store v = ld_store t \<and>
    rw_golden_pending_session_fallbacks v = rw_golden_pending_session_fallbacks s + 1) t"
proof -
  have "ld_store t Tier_golden = Holds demo_desktop []" using t by (simp add: golden_accepted_def golden_world_def demo_restore_world_def)
  then show ?thesis
    using t golden_loads[of t] unfolding session_fallback_def golden_restore_is_pending_def
    by (auto simp: wp_rules returning_ports demo_filter set_fallbacks_def golden_accepted_def)
qed

lemma returning_run:
  "wp (recovery_run returning_env) (\<lambda>out t. \<not> ro_success out \<and> rw_restored t = Some demo_desktop \<and>
     ld_store t = (ld_store golden_world)(Tier_current := Absent, Tier_previous := Absent) \<and> rw_golden_pending_session_fallbacks t = 1) golden_world"
  (is "wp _ ?Q _")
proof -
  have golden: "wp (run_golden_first returning_env) ?Q s"
    if s: "po_reads s = 2" "ld_store s = ld_store golden_world" "\<not> ro_success (rw_outcome s)" "rw_golden_pending_session_fallbacks s = 0" for s
    unfolding run_golden_first_def wp_bind[of "try_golden _"]
  proof (rule first_golden_try)
    show "ld_store s Tier_golden = Holds demo_desktop []" using s(2) by (simp add: golden_world_def demo_restore_world_def)
    have "wp (if \<not> ok then m else session_fallback returning_env) ?Q t" if "ok \<and> golden_accepted (s\<lparr>po_reads := 5\<rparr>) t" for ok t m
      using that s by (auto intro!: wp_weaken[OF returning_fallback[of "s\<lparr>po_reads := 5\<rparr>"]] simp: golden_accepted_def)
    then have "wp (try_session_snapshots returning_env) (\<lambda>ok. wp (if \<not> ok then m else session_fallback returning_env) ?Q) (s\<lparr>po_reads := 5\<rparr>)" for m
      using s(2) by (intro wp_weaken[OF returning_sessions]) simp_all
    then show "wp (if False then do { set_fallbacks 0; succeed } else do {
        ok \<leftarrow> try_session_snapshots returning_env;
        if \<not> ok then do { set_fallbacks 0; gets rw_outcome } else session_fallback returning_env }) ?Q (s\<lparr>po_reads := 5\<rparr>)"
      by (simp add: wp_bind[of "try_session_snapshots _"])
  qed (rule s(1))
  show ?thesis
    unfolding recovery_run_def begin_run_def
    by (simp only: wp_bind wp_modify wp_steady_go_on[OF returning_steady] wp_ask wp_when returning_ports if_True if_False not_True_eq_False, rule golden)
      (simp_all add: golden_world_def demo_restore_world_def recovery_outcome_new_def)
qed

text \<open>
  (C32) A run can restore the golden desktop and still report failure. With the golden snapshot configured to come first, a
  monitor that shows up only after the first try, and no current snapshot, the golden snapshot is tried a second time on
  the way to the previous one. That try brings the golden desktop back, confirms it and removes the session tiers, but the
  run counts it as a session fallback under a pending golden snapshot: it reports no success.
\<close>

theorem golden_restore_reported_failed:
  "\<exists>out t l. run_state (recovery_run returning_env) golden_world = (out, t) \<and> rw_restored t = Some demo_desktop \<and> confirmed_on_screen returning_env l t \<and>
     ld_store t Tier_previous = Absent \<and> \<not> ro_success out \<and> rw_golden_pending_session_fallbacks t = 1"
proof -
  obtain out t where run: "run_state (recovery_run returning_env) golden_world = (out, t)" by fastforce
  note facts = wp_run[OF returning_run run]
  then have "ld_store t Tier_previous \<noteq> ld_store golden_world Tier_previous"
    by (simp add: golden_world_def demo_restore_world_def)
  then have "\<exists>l. confirmed_on_screen returning_env l t"
    using wp_run[OF wp_recovery_run run] by (auto simp: run_result_def restored_on_screen_def)
  with run facts show ?thesis by simp
qed
end
