(* ===== verification/Spec2Isabelle.thy ===== *)
theory Spec2Isabelle
  imports Remote_Pending Topology_Invariant Pairing_Protocol Pyrowave_Layout Pyrowave_Fec Web_Handlers
    Helper_Parked Restore_Facts Restore_Results
begin

text \<open>
  A verification development for Vibeshine, a game-stream host forked from Sunshine. It models the parts
  of the C++ sources that decide who may use the host, which displays a client gets and how a PyroWave
  frame is laid out for the network, and leaves capture, encoding and the platform drivers aside.

  \<^bold>\<open>The program's parts and how they interact.\<close> A client pairs with the host over HTTP: a pending
  session goes through the phases of a handshake that an administrator confirms with a PIN, and its end
  adds a record to the registry of paired clients (\<^verbatim>\<open>nvhttp.cpp\<close>, decisions in
  \<^verbatim>\<open>http_pairing_policy.cpp\<close>). Every later connection presents its certificate, and the
  transport gets an authority that the registry can revoke (\<^verbatim>\<open>tls_client_identity.cpp\<close>). A paired
  client sees an app catalogue with synthetic tiles whose launch is a control
  (\<^verbatim>\<open>remote_session.cpp\<close>); dangerous controls ask for a confirmation, and a launch waits in a
  registry for its RTSP connection. A launch as a Remote Monitor or as a game takes an output, which the
  coordinator composes into one desktop (\<^verbatim>\<open>remote_display_topology.cpp\<close>); a lease on an exact
  target keeps the displays from being changed while one is captured
  (\<^verbatim>\<open>display_target_lease.h\<close>). When the stream uses the PyroWave codec, the encoder's
  bitstream is packed into records that start at packet boundaries, its coarse part is protected by
  error correction blocks, and a byte budget bounds the frame (\<^verbatim>\<open>pyrowave_policy.cpp\<close>).
  The administrator uses the configuration API in a browser or with API tokens: a request passes the gate of
  \<^verbatim>\<open>http_auth_request_policy.cpp\<close> with a session, a bearer token or the password, sessions and
  tokens are kept by \<^verbatim>\<open>http_auth.cpp\<close> and written to the state file, and the handlers of
  \<^verbatim>\<open>confighttp.cpp\<close> guard against forged requests and limit failed logins.
  On Windows a separate process, the display helper, changes the displays for a stream on behalf of the
  host, keeps a snapshot of the old desktop, confirms to the host that a configuration is in effect, and
  restores the desktop when the stream ends or the host is lost
  (\<^verbatim>\<open>platform/windows/display_helper_v2\<close>).

  \<^bold>\<open>Theories.\<close>
  \<^item> \<open>Vibe_Prelude\<close>: types, hash maps as association lists, and the locales
    \<open>invariant_system\<close>, \<open>monotone_system\<close> and \<open>latch_system\<close>, which every component with
    state interprets for its own step relation; a property of all reachable states, or of everything that
    happens after an event, is a fact of these interpretations.
  \<^item> \<open>Text_Codec\<close> (\<^verbatim>\<open>utility.h\<close>, \<^verbatim>\<open>uuid.h\<close>): hexadecimal and UUID text, with
    the round trips, and that decoding never reads before its buffer.
  \<^item> \<open>Target_Lease\<close> (\<^verbatim>\<open>display_target_lease.h\<close>): \<^verbatim>\<open>registry_t\<close> with its
    counted hold objects; a lock-free section of \<^verbatim>\<open>acquire\<close> splits it into two steps that
    interleave with every other operation. Exclusion of leases and mutations, exact reference counts,
    finality of releases and of the fence.
  \<^item> \<open>Remote_Catalogue\<close> and \<open>Remote_Pending\<close> (\<^verbatim>\<open>remote_session.h\<close>,
    \<^verbatim>\<open>remote_session.cpp\<close>): the catalogue and the meaning of its tiles, authorization of
    controls, cached tiles; confirmation prompts (locale \<open>confirmation_gate\<close>, interpreted for both),
    monitor hooks, pending launches, layout validation.
  \<^item> \<open>Anchor_Graph\<close>: the search for anchor cycles that two validators share, with its
    termination and its meaning.
  \<^item> \<open>Topology_Layout\<close>, \<open>Topology_Coordinator\<close>, \<open>Topology_Invariant\<close>
    (\<^verbatim>\<open>remote_display_topology.h\<close>, \<^verbatim>\<open>remote_display_topology.cpp\<close>): geometry and
    composition of the desktop; every operation of \<^verbatim>\<open>coordinator_t\<close>; its invariant, the step
    relation (service operations, and the shutdown that hands the displays over to a successor) and what
    follows for ownership, releases, deferral and shutdown.
  \<^item> \<open>Pairing_Policy\<close> (\<^verbatim>\<open>http_pairing_policy.cpp\<close>, part of
    \<^verbatim>\<open>rtsp_pending_policy.cpp\<close>): the pure decisions, with exact characterizations.
  \<^item> \<open>Tls_Identity\<close> (\<^verbatim>\<open>tls_client_identity.cpp\<close>): authentication of a transport
    and revocation, with an explicit heap of authority objects.
  \<^item> \<open>Client_Registry\<close> and \<open>Pairing_Protocol\<close> (\<^verbatim>\<open>nvhttp.cpp\<close>): the table of
    paired clients with the transports it revokes, and the pairing handshake on top of it.
  \<^item> \<open>Fit_Index\<close> (\<^verbatim>\<open>fit_index_t\<close> of \<^verbatim>\<open>pyrowave_policy.cpp\<close>): the
    segment tree over the sizes of the records not yet placed, which refines the specification of the
    locale \<open>first_fit\<close>. \<open>Pyrowave_Frame\<close> has the writer and the parser of record frames
    on top of it; \<open>Pyrowave_Layout\<close> shows that the writer returns, that the parser reads its frame
    back with every record once under any frame limit, and that packets start with records.
  \<^item> \<open>Pyrowave_Fec\<close> (\<^verbatim>\<open>pyrowave_policy.cpp\<close>, \<^verbatim>\<open>pyrowave_bandwidth.h\<close>,
    \<^verbatim>\<open>video_pacing_policy.h\<close>): the error correction plan, the frame capacity and the byte
    budget; the plan is sound for every frame in capacity and the budget pays for it.
  \<^item> \<open>Auth_State\<close>, \<open>Session_Tokens\<close>, \<open>Api_Tokens\<close>
    (\<^verbatim>\<open>http_auth.h\<close>, \<^verbatim>\<open>http_auth.cpp\<close>, \<^verbatim>\<open>state_storage_policy.cpp\<close>):
    the parts of the state file that hold credentials; \<^verbatim>\<open>SessionTokenManager\<close>, where a save
    is three steps (snapshot, write, mark clean) that interleave with the other threads, and
    \<^verbatim>\<open>ApiTokenManager\<close>. Ended sessions stay ended while the host runs, no session outlives its
    login, the refresh index covers every session when those found at startup had different refresh tokens,
    saved state loads back; and two runs in which the file and the memory disagree.
  \<^item> \<open>Web_Auth\<close> (\<^verbatim>\<open>http_auth_request_policy.cpp\<close>,
    \<^verbatim>\<open>SessionTokenAPI\<close> of \<^verbatim>\<open>http_auth.cpp\<close>), \<open>Login_Limiter\<close>
    (\<^verbatim>\<open>config_http_login_limiter.h\<close>) and \<open>Web_Handlers\<close>
    (\<^verbatim>\<open>confighttp.cpp\<close>): who passes the gate, the path from login to logout, the limit on
    failed logins and the guard against forged requests.
  \<^item> \<open>Helper_Monad\<close>, \<open>Recovery_Support\<close> (\<^verbatim>\<open>runtime_support.h\<close>,
    \<^verbatim>\<open>recovery_status.h\<close>, \<^verbatim>\<open>golden_health.cpp\<close>), \<open>Snapshot_Ledger\<close>
    (\<^verbatim>\<open>snapshot_codec.cpp\<close>, \<^verbatim>\<open>SnapshotLedger\<close> of \<^verbatim>\<open>state_machine.cpp\<close>) and
    \<open>Restore_Facts\<close>: programs over a state with weakest preconditions, the policies the display
    helper is built from, the saved desktops, and what these promise on their own.
  \<^item> \<open>Helper_State\<close>, \<open>Helper_Machine\<close>, \<open>Helper_Steps\<close> (\<^verbatim>\<open>types.h\<close>,
    \<^verbatim>\<open>state_machine.h\<close>, \<^verbatim>\<open>state_machine.cpp\<close>, \<^verbatim>\<open>main\<close> of
    \<^verbatim>\<open>display_settings_helper_v2.cpp\<close>): the members of \<^verbatim>\<open>StateMachine\<close> as a record,
    every handler as a program, and runs in which commands, completions of the worker's jobs, timers, ticks
    and broken pipes come in any order. \<open>Helper_Safety\<close> shows that its counters stay in range,
    \<open>Helper_Results\<close> when a configuration is confirmed and that this is marked, \<open>Helper_Lease\<close>
    that a change of the displays is owed back and what may end the debt, \<open>Helper_Parked\<close> that a parked recovery is quiet; \<open>Helper_Runs\<close>
    has concrete runs, among them one that leaves a restore without a worker.
  \<^item> \<open>Restore_Operation\<close> (\<^verbatim>\<open>TopologyTransition\<close> and \<^verbatim>\<open>RecoveryOperation\<close> of
    \<^verbatim>\<open>operations.cpp\<close>, part of \<^verbatim>\<open>topology_policy.cpp\<close>): the job that brings a saved desktop
    back, with a log of what it saw and wrote. The locale \<open>guarantee\<close> has the rules for a relation that
    programs keep between their first and last state; it is interpreted for looking, for writing, for whole runs
    and for the bookkeeping of files. \<open>Restore_Confirmed\<close> shows what a passed check means,
    \<open>Restore_Safety\<close> what a whole restore leaves behind, \<open>Restore_Results\<close> that a desktop
    which is there already is recognized, and the properties of every restore, with a run that restores the
    golden desktop and reports failure.

  \<^bold>\<open>How state and effects are modelled.\<close> An operation that runs under a mutex is one function on
  a record of the state; where the code releases the mutex it is split. References into containers are
  keys, shared and weak pointers are addresses in a heap with explicit counts or owners. Platform
  callbacks, monitor hooks, OpenSSL, hashing, regular expressions, Base64, percent coding of cookies, parsing of JSON text, random bytes, clocks, file writes and response channels are
  parameters; the display callbacks act on a world the state carries. The display helper asks its ports
  (clock, connection epoch, enumerations, file writes) many times in one handler and may get another answer
  each time: its state counts the questions, and the environment is a function of that count. What the
  helper's worker does to the displays is known to the machine only by the completion it sends, whose
  content is arbitrary; the restore among these jobs is modelled on its own. Failures are option values or
  results with the code's error. 32-bit identities that the code computes with are words or have the
  cast written out; generations, tokens and clock readings are unbounded, since the code only counts or
  compares them.

  \<^bold>\<open>Loops.\<close> The probing loop for the running game's tile may run forever when every id is taken;
  it is a partial function with value \<open>None\<close> then, and shown to return when a free id exists. The
  anchor search and the composition of the desktop are shown to end, as is the loop that drains the
  commands deferred behind a display change. The loops of a restore that wait for the displays end because the
  steady clock goes on. The packing loop of the frame writer
  repeats without progress when it can neither place a record nor pad; it is a partial function too, and
  shown to return on every valid bitstream. No fuel is used.

  \<^bold>\<open>Not modelled.\<close> Capture, encoding and transport of video and audio, input injection, WebRTC,
  process launching, and the platform layers, the display API under the helper included: they are calls into the operating system and third-party
  libraries. The JSON and XML documents at the borders (nlohmann::json, Boost.PropertyTree), loading of
  the registry from the state file, the handlers of the configuration API that do not deal with authentication, and the configuration parser. The adaptive controllers of the PyroWave stream
  compute in floating point and are left out. The decision code of these parts
  that stands in files of its own (\<^verbatim>\<open>*_policy.cpp\<close>) can be added as further theories.
\<close>

end
